(* ===== verification/Atomix_Prelude.thy ===== *)
theory Atomix_Prelude
  imports Main "HOL-Library.Word"
begin

text \<open>
  Shared vocabulary of the AtomixJS development: the result type of fallible C code, its
  sequencing operator, the machine types of the VM, and the list lemmas used by the
  components.

  A C function that may stop the process or leave the defined behaviour of C is a function
  into \<open>'a res\<close>, that is \<open>error + 'a\<close>:
  \<^item> \<open>Panic msg\<close> is the macro \<open>PANIC(msg)\<close> of \<open>core/panic.h\<close>, which prints the message and
    exits with status 1;
  \<^item> \<open>Fault f\<close> is an operation the C standard leaves undefined or whose value depends on a
    machine address; the VM has no check there, so the model stops and says which it is;
  \<^item> \<open>Diverge\<close> is a C recursion or loop that does not end (or, for the interpreter proper,
    does not end within the given fuel).
\<close>

section \<open>Results of C code\<close>

datatype fault =
    Null_Deref        \<comment> \<open>a null pointer is dereferenced\<close>
  | Dangling          \<comment> \<open>a pointer to no allocated block is dereferenced\<close>
  | Out_Of_Bounds     \<comment> \<open>an array or buffer is accessed outside its bounds\<close>
  | Uninitialised     \<comment> \<open>an indeterminate value is used, not only copied\<close>
  | Signed_Overflow   \<comment> \<open>signed integer arithmetic leaves the 32-bit range\<close>
  | Bad_Shift         \<comment> \<open>a shift by a negative or too large amount, or of a negative number\<close>
  | Float_Cast        \<comment> \<open>a double outside the 32-bit range is converted to int\<close>
  | Type_Pun          \<comment> \<open>a union member other than the one stored is read\<close>
  | Wrong_Cast        \<comment> \<open>a pointer is cast to a struct of another instruction format\<close>
  | Unsequenced       \<comment> \<open>the result depends on an order of evaluation C leaves open\<close>

datatype error = Panic string | Fault fault | Diverge

type_synonym 'a res = "error + 'a"

definition andThen :: "'a res \<Rightarrow> ('a \<Rightarrow> 'b res) \<Rightarrow> 'b res" where
  "andThen m f = (case m of Inl e \<Rightarrow> Inl e | Inr x \<Rightarrow> f x)"

lemma andThen_Inl [simp]: "andThen (Inl e) f = Inl e"
  by (simp add: andThen_def)

lemma andThen_Inr [simp]: "andThen (Inr x) f = f x"
  by (simp add: andThen_def)

lemma andThen_eq_Inr: "andThen m f = Inr y \<longleftrightarrow> (\<exists>x. m = Inr x \<and> f x = Inr y)"
  by (cases m) auto

lemma andThen_eq_Inl: "andThen m f = Inl e \<longleftrightarrow> m = Inl e \<or> (\<exists>x. m = Inr x \<and> f x = Inl e)"
  by (cases m) auto

lemma andThen_assoc: "andThen (andThen m f) g = andThen m (\<lambda>x. andThen (f x) g)"
  by (cases m) auto

lemma andThen_cong [fundef_cong]:
  assumes "m = m'" and "\<And>x. m' = Inr x \<Longrightarrow> f x = f' x"
  shows "andThen m f = andThen m' f'"
  using assms by (cases m') auto

definition guard :: "bool \<Rightarrow> error \<Rightarrow> unit res" where
  "guard b e = (if b then Inr () else Inl e)"

lemma guard_True [simp]: "guard True e = Inr ()"
  by (simp add: guard_def)

lemma guard_False [simp]: "guard False e = Inl e"
  by (simp add: guard_def)

lemma guard_eq_Inr: "guard b e = Inr u \<longleftrightarrow> b"
  by (simp add: guard_def)

lemma guard_eq_Inl: "guard b e = Inl e' \<longleftrightarrow> \<not> b \<and> e' = e"
  by (auto simp: guard_def)

named_theorems res_simps \<open>inversion of results\<close>

lemmas [res_simps] = andThen_eq_Inr andThen_eq_Inl guard_eq_Inr guard_eq_Inl

section \<open>Machine types\<close>

text \<open>
  \<open>int32_t\<close> values are \<open>32 word\<close> read through \<open>sint\<close>; unsigned fields keep their width.
  The bytes of a C string are HOL characters, so \<open>string\<close> is the text before the
  terminating zero.
\<close>

type_synonym u8 = "8 word"
type_synonym u16 = "16 word"
type_synonym i32 = "32 word"
type_synonym u32 = "32 word"
type_synonym u64 = "64 word"

definition int_min :: int where
  "int_min = - 2147483648"

definition int_max :: int where
  "int_max = 2147483647"

definition in_int32 :: "int \<Rightarrow> bool" where
  "in_int32 x \<longleftrightarrow> int_min \<le> x \<and> x \<le> int_max"

text \<open>The result of a signed C operation whose mathematical value is \<open>x\<close>.\<close>

definition i32_result :: "int \<Rightarrow> i32 res" where
  "i32_result x = (if in_int32 x then Inr (word_of_int x) else Inl (Fault Signed_Overflow))"

lemma sint_in_int32: "in_int32 (sint (w :: i32))"
  using sint_greater_eq [of w] sint_lt [of w] by (simp add: in_int32_def int_min_def int_max_def)

lemma sint_word_of_int32: "in_int32 x \<Longrightarrow> sint (word_of_int x :: i32) = x"
  by (simp add: in_int32_def int_min_def int_max_def sint_sbintrunc' signed_take_bit_int_eq_self)

lemma i32_result_eq_Inr: "i32_result x = Inr w \<longleftrightarrow> in_int32 x \<and> w = word_of_int x"
  by (auto simp: i32_result_def)

lemma i32_result_eq_Inl: "i32_result x = Inl e \<longleftrightarrow> \<not> in_int32 x \<and> e = Fault Signed_Overflow"
  by (auto simp: i32_result_def)

lemmas [res_simps] = i32_result_eq_Inr i32_result_eq_Inl

lemma i32_result_value: "i32_result x = Inr w \<Longrightarrow> sint w = x"
  by (simp add: i32_result_eq_Inr sint_word_of_int32)

text \<open>C integer division and remainder truncate towards zero.\<close>

definition c_rem :: "int \<Rightarrow> int \<Rightarrow> int" where
  "c_rem a b = sgn a * (\<bar>a\<bar> mod \<bar>b\<bar>)"

lemma c_rem_bound: "b \<noteq> 0 \<Longrightarrow> \<bar>c_rem a b\<bar> < \<bar>b\<bar>"
  by (auto simp: c_rem_def abs_mult sgn_if)

lemma c_rem_dvd: "b dvd (a - c_rem a b)"
proof -
  have "a - c_rem a b = sgn a * (\<bar>a\<bar> - \<bar>a\<bar> mod \<bar>b\<bar>)"
    by (simp add: c_rem_def right_diff_distrib mult_sgn_abs)
  moreover have "\<bar>b\<bar> dvd \<bar>a\<bar> - \<bar>a\<bar> mod \<bar>b\<bar>"
    by (simp add: minus_mod_eq_mult_div)
  ultimately show ?thesis
    by (metis abs_dvd_iff dvd_mult)
qed

section \<open>Blocks of memory\<close>

text \<open>
  The collector of the VM never frees a reachable block, so a heap of structs of one type is
  a list that only grows: the address of a block is its index, allocation appends.
\<close>

definition deref :: "'a list \<Rightarrow> nat \<Rightarrow> 'a res" where
  "deref h a = (if a < length h then Inr (h ! a) else Inl (Fault Dangling))"

definition ptr :: "'a option \<Rightarrow> 'a res" where
  "ptr p = (case p of None \<Rightarrow> Inl (Fault Null_Deref) | Some a \<Rightarrow> Inr a)"

lemma ptr_simps [simp]: "ptr None = Inl (Fault Null_Deref)" "ptr (Some a) = Inr a"
  by (simp_all add: ptr_def)

lemma ptr_eq_Inr: "ptr p = Inr a \<longleftrightarrow> p = Some a"
  by (cases p) auto

lemma ptr_eq_Inl: "ptr p = Inl e \<longleftrightarrow> p = None \<and> e = Fault Null_Deref"
  by (cases p) auto

lemma deref_eq_Inr: "deref h a = Inr x \<longleftrightarrow> a < length h \<and> x = h ! a"
  by (auto simp: deref_def)

lemma deref_eq_Inl: "deref h a = Inl e \<longleftrightarrow> length h \<le> a \<and> e = Fault Dangling"
  by (auto simp: deref_def)

lemmas [res_simps] = ptr_eq_Inr ptr_eq_Inl deref_eq_Inr deref_eq_Inl

lemma deref_lt [simp]: "a < length h \<Longrightarrow> deref h a = Inr (h ! a)"
  by (simp add: deref_def)

lemma deref_append: "deref (h @ xs) a = (if a < length h then deref h a else deref xs (a - length h))"
  by (auto simp: deref_def nth_append)

lemma deref_update:
  "deref (h[a := x]) b = (if b = a \<and> a < length h then Inr x else deref h b)"
  by (auto simp: deref_def)

section \<open>Lists\<close>

lemma list_all_nth: "list_all P xs \<Longrightarrow> i < length xs \<Longrightarrow> P (xs ! i)"
  by (simp add: list_all_length)

lemma list_all_update: "list_all P xs \<Longrightarrow> P x \<Longrightarrow> list_all P (xs[i := x])"
  by (cases "i < length xs") (auto simp: list_all_length nth_list_update)

lemma nth_update_if: "xs[i := x] ! j = (if i = j \<and> i < length xs then x else xs ! j)"
  by (cases "i < length xs") (auto simp: nth_list_update list_update_beyond)

lemma list_all_mono2: "list_all P xs \<Longrightarrow> (\<And>x. P x \<Longrightarrow> Q x) \<Longrightarrow> list_all Q xs"
  by (auto simp: list_all_iff)

text \<open>The position of the first element with a given key.\<close>

fun first_index :: "('a \<Rightarrow> 'k option) \<Rightarrow> 'k \<Rightarrow> 'a list \<Rightarrow> nat option" where
  "first_index f k [] = None"
| "first_index f k (x # xs) = (if f x = Some k then Some 0 else map_option Suc (first_index f k xs))"

lemma first_index_None: "first_index f k xs = None \<longleftrightarrow> (\<forall>x \<in> set xs. f x \<noteq> Some k)"
  by (induction xs) auto

lemma first_index_Some:
  "first_index f k xs = Some i \<longleftrightarrow>
     i < length xs \<and> f (xs ! i) = Some k \<and> (\<forall>j < i. f (xs ! j) \<noteq> Some k)"
proof (induction xs arbitrary: i)
  case Nil
  then show ?case by simp
next
  case (Cons x xs)
  show ?case
    by (cases i) (auto simp: Cons.IH All_less_Suc2)
qed

lemma first_index_cong:
  assumes "map f xs = map f ys"
  shows "first_index f k xs = first_index f k ys"
  using assms by (induction xs ys rule: list_induct2') auto

lemma first_index_lookup:
  "map_option (\<lambda>i. g (xs ! i)) (first_index f k xs) =
     map_of (List.map_filter (\<lambda>x. map_option (\<lambda>k. (k, g x)) (f x)) xs) k"
  by (induction xs) (auto simp: List.map_filter_simps option.map_comp comp_def split: option.splits)

definition remove_nth :: "nat \<Rightarrow> 'a list \<Rightarrow> 'a list" where
  "remove_nth p xs = take p xs @ drop (Suc p) xs"

lemma set_remove_nth: "set (remove_nth p xs) \<subseteq> set xs"
  by (auto simp: remove_nth_def dest: in_set_takeD in_set_dropD)

lemma distinct_map_remove_nth: "distinct (map f xs) \<Longrightarrow> distinct (map f (remove_nth p xs))"
  by (simp add: remove_nth_def take_map [symmetric] drop_map [symmetric] set_take_disj_set_drop_if_distinct
      del: set_map)

lemma first_index_remove:
  assumes "p < length xs" "f (xs ! p) = Some k" "k' \<noteq> k"
  shows "map_option (\<lambda>i. g (remove_nth p xs ! i)) (first_index f k' (remove_nth p xs)) =
    map_option (\<lambda>i. g (xs ! i)) (first_index f k' xs)"
proof -
  have "xs = take p xs @ xs ! p # drop (Suc p) xs" using assms(1) by (rule id_take_nth_drop)
  then obtain as bs where xs: "xs = as @ xs ! p # bs" "as = take p xs" "bs = drop (Suc p) xs"
    by blast
  have "remove_nth p xs = as @ bs" by (simp add: remove_nth_def xs(2,3))
  moreover have "map_option (\<lambda>i. g ((as @ y # bs) ! i)) (first_index f k' (as @ y # bs)) =
      map_option (\<lambda>i. g ((as @ bs) ! i)) (first_index f k' (as @ bs))" if "f y = Some k" for y
    unfolding first_index_lookup using that assms(3)
    by (simp add: List.map_filter_def map_add_def split: option.split)
  ultimately show ?thesis using assms(2) xs(1) by metis
qed

lemma first_index_remove_same:
  assumes "p < length xs" "f (xs ! p) = Some k"
    and "\<And>j. j < length xs \<Longrightarrow> f (xs ! j) = Some k \<Longrightarrow> j = p"
  shows "first_index f k (remove_nth p xs) = None"
  unfolding first_index_None
proof
  fix x
  assume "x \<in> set (remove_nth p xs)"
  then obtain j where "j < length (remove_nth p xs)" "x = remove_nth p xs ! j"
    by (auto simp: in_set_conv_nth)
  then have "x = xs ! (if j < p then j else Suc j)" "(if j < p then j else Suc j) < length xs"
    using assms(1) by (auto simp: remove_nth_def nth_append split: if_splits)
  then obtain i where "i < length xs" "i \<noteq> p" "x = xs ! i"
    by (cases "j < p") auto
  with assms(3) [of i] show "f x \<noteq> Some k" by auto
qed

end
