(* ===== verification/Atomix_Double.thy ===== *)
theory Atomix_Double
  imports Atomix_Prelude
begin

text \<open>
  The C type \<open>double\<close> as the VM uses it: IEEE 754 binary64 with rounding to nearest, ties to
  even. A value is its bit pattern; arithmetic decodes the operands to an exact dyadic
  number, computes exactly over the integers and rounds once. The sign and payload of a NaN
  result are fixed to the quiet NaN \<open>0x7FF8000000000000\<close>; no code of the VM reads them.
  The conversions are those of \<open>int\<close> to \<open>double\<close> and back (truncation, undefined outside
  the range of \<open>int\<close>), and the two \<open>printf\<close> directives used, \<open>%.7g\<close> and \<open>%f\<close>.
\<close>

section \<open>Bit patterns\<close>

type_synonym f64 = u64

datatype fp =
    FNaN
  | FInf bool           \<comment> \<open>sign\<close>
  | FFin bool nat int   \<comment> \<open>sign, \<open>m\<close>, \<open>e\<close>: the number \<open>m * 2 ^ e\<close>\<close>

definition f64_sign :: "f64 \<Rightarrow> bool" where
  "f64_sign x = odd (unat x div 2 ^ 63)"

definition f64_exponent :: "f64 \<Rightarrow> nat" where
  "f64_exponent x = unat x div 2 ^ 52 mod 2 ^ 11"

definition f64_fraction :: "f64 \<Rightarrow> nat" where
  "f64_fraction x = unat x mod 2 ^ 52"

definition f64_decode :: "f64 \<Rightarrow> fp" where
  "f64_decode x =
     (let s = f64_sign x; ex = f64_exponent x; fr = f64_fraction x
      in if ex = 2047 then (if fr = 0 then FInf s else FNaN)
         else if ex = 0 then FFin s fr (- 1074)
         else FFin s (2 ^ 52 + fr) (int ex - 1075))"

definition f64_nan :: f64 where
  "f64_nan = 0x7FF8000000000000"

definition f64_inf :: "bool \<Rightarrow> f64" where
  "f64_inf s = (if s then 0xFFF0000000000000 else 0x7FF0000000000000)"

definition f64_pack :: "bool \<Rightarrow> nat \<Rightarrow> f64" where
  "f64_pack s n = word_of_nat ((if s then 2 ^ 63 else 0) + n)"

fun bit_length :: "nat \<Rightarrow> nat" where
  "bit_length n = (if n = 0 then 0 else Suc (bit_length (n div 2)))"

declare bit_length.simps [simp del]

text \<open>
  \<open>f64_round s m e sticky\<close> is the double nearest to the number with sign \<open>s\<close> and magnitude
  \<open>m * 2 ^ e\<close>; \<open>sticky\<close> says that the exact magnitude is a little more (strictly less than
  \<open>(m + 1) * 2 ^ e\<close>), which happens after a division.
\<close>

definition f64_round :: "bool \<Rightarrow> nat \<Rightarrow> int \<Rightarrow> bool \<Rightarrow> f64" where
  "f64_round s m e sticky =
     (if m = 0 then f64_pack s 0
      else
        let q = max (e + int (bit_length m) - 53) (- 1074);
            mant =
              (if q \<le> e then m * 2 ^ nat (e - q)
               else
                 let d = 2 ^ nat (q - e); k = m div d; r = m mod d; half = d div 2
                 in if r > half \<or> (r = half \<and> (sticky \<or> odd k)) then k + 1 else k);
            n = nat (q + 1074) * 2 ^ 52 + mant
        in if n \<ge> 2047 * 2 ^ 52 then f64_inf s else f64_pack s n)"

section \<open>Arithmetic\<close>

definition sgn_mag :: "bool \<Rightarrow> nat \<Rightarrow> int" where
  "sgn_mag s m = (if s then - int m else int m)"

definition f64_add :: "f64 \<Rightarrow> f64 \<Rightarrow> f64" where
  "f64_add x y =
     (case (f64_decode x, f64_decode y) of
        (FNaN, _) \<Rightarrow> f64_nan
      | (_, FNaN) \<Rightarrow> f64_nan
      | (FInf s, FInf t) \<Rightarrow> if s = t then f64_inf s else f64_nan
      | (FInf s, _) \<Rightarrow> f64_inf s
      | (_, FInf t) \<Rightarrow> f64_inf t
      | (FFin s m d, FFin t n e) \<Rightarrow>
          (let b = min d e;
               v = sgn_mag s m * 2 ^ nat (d - b) + sgn_mag t n * 2 ^ nat (e - b)
           in if v = 0 then f64_pack (s \<and> t) 0
              else f64_round (v < 0) (nat \<bar>v\<bar>) b False))"

definition f64_neg :: "f64 \<Rightarrow> f64" where
  "f64_neg x = x + 0x8000000000000000"

definition f64_sub :: "f64 \<Rightarrow> f64 \<Rightarrow> f64" where
  "f64_sub x y = f64_add x (f64_neg y)"

definition f64_mul :: "f64 \<Rightarrow> f64 \<Rightarrow> f64" where
  "f64_mul x y =
     (case (f64_decode x, f64_decode y) of
        (FNaN, _) \<Rightarrow> f64_nan
      | (_, FNaN) \<Rightarrow> f64_nan
      | (FInf s, FInf t) \<Rightarrow> f64_inf (s \<noteq> t)
      | (FInf s, FFin t n e) \<Rightarrow> if n = 0 then f64_nan else f64_inf (s \<noteq> t)
      | (FFin s m d, FInf t) \<Rightarrow> if m = 0 then f64_nan else f64_inf (s \<noteq> t)
      | (FFin s m d, FFin t n e) \<Rightarrow> f64_round (s \<noteq> t) (m * n) (d + e) False)"

definition f64_div :: "f64 \<Rightarrow> f64 \<Rightarrow> f64" where
  "f64_div x y =
     (case (f64_decode x, f64_decode y) of
        (FNaN, _) \<Rightarrow> f64_nan
      | (_, FNaN) \<Rightarrow> f64_nan
      | (FInf s, FInf t) \<Rightarrow> f64_nan
      | (FInf s, FFin t n e) \<Rightarrow> f64_inf (s \<noteq> t)
      | (FFin s m d, FInf t) \<Rightarrow> f64_pack (s \<noteq> t) 0
      | (FFin s m d, FFin t n e) \<Rightarrow>
          if n = 0 then (if m = 0 then f64_nan else f64_inf (s \<noteq> t))
          else if m = 0 then f64_pack (s \<noteq> t) 0
          else
            (let k = bit_length n + 55 - bit_length m; a = m * 2 ^ k
             in f64_round (s \<noteq> t) (a div n) (d - e - int k) (a mod n \<noteq> 0)))"

text \<open>The library function \<open>fmod\<close>: exact, with the sign of the dividend.\<close>

definition f64_fmod :: "f64 \<Rightarrow> f64 \<Rightarrow> f64" where
  "f64_fmod x y =
     (case (f64_decode x, f64_decode y) of
        (FNaN, _) \<Rightarrow> f64_nan
      | (_, FNaN) \<Rightarrow> f64_nan
      | (FInf s, _) \<Rightarrow> f64_nan
      | (FFin s m d, FInf t) \<Rightarrow> x
      | (FFin s m d, FFin t n e) \<Rightarrow>
          if n = 0 then f64_nan
          else
            (let b = min d e
             in f64_round s ((m * 2 ^ nat (d - b)) mod (n * 2 ^ nat (e - b))) b False))"

section \<open>Comparison\<close>

text \<open>\<open>f64_cmp x y\<close> is \<open>None\<close> for unordered operands, else the sign of \<open>x - y\<close>.\<close>

definition f64_cmp :: "f64 \<Rightarrow> f64 \<Rightarrow> int option" where
  "f64_cmp x y =
     (case (f64_decode x, f64_decode y) of
        (FNaN, _) \<Rightarrow> None
      | (_, FNaN) \<Rightarrow> None
      | (FInf s, FInf t) \<Rightarrow> Some (if s = t then 0 else if s then - 1 else 1)
      | (FInf s, _) \<Rightarrow> Some (if s then - 1 else 1)
      | (_, FInf t) \<Rightarrow> Some (if t then 1 else - 1)
      | (FFin s m d, FFin t n e) \<Rightarrow>
          (let b = min d e
           in Some (sgn (sgn_mag s m * 2 ^ nat (d - b) - sgn_mag t n * 2 ^ nat (e - b)))))"

definition f64_eq :: "f64 \<Rightarrow> f64 \<Rightarrow> bool" where
  "f64_eq x y \<longleftrightarrow> f64_cmp x y = Some 0"

definition f64_less :: "f64 \<Rightarrow> f64 \<Rightarrow> bool" where
  "f64_less x y \<longleftrightarrow> f64_cmp x y = Some (- 1)"

definition f64_leq :: "f64 \<Rightarrow> f64 \<Rightarrow> bool" where
  "f64_leq x y \<longleftrightarrow> f64_less x y \<or> f64_eq x y"

section \<open>Conversion to and from int\<close>

definition f64_of_int :: "int \<Rightarrow> f64" where
  "f64_of_int i = f64_round (i < 0) (nat \<bar>i\<bar>) 0 False"

text \<open>Truncation towards zero; \<open>None\<close> for a NaN or an infinity.\<close>

definition f64_trunc :: "f64 \<Rightarrow> int option" where
  "f64_trunc x =
     (case f64_decode x of
        FFin s m e \<Rightarrow> Some (sgn_mag s (if 0 \<le> e then m * 2 ^ nat e else m div 2 ^ nat (- e)))
      | _ \<Rightarrow> None)"

definition f64_to_int :: "f64 \<Rightarrow> i32 res" where
  "f64_to_int x =
     (case f64_trunc x of
        Some i \<Rightarrow> if in_int32 i then Inr (word_of_int i) else Inl (Fault Float_Cast)
      | None \<Rightarrow> Inl (Fault Float_Cast))"

definition f64_of_i32 :: "i32 \<Rightarrow> f64" where
  "f64_of_i32 w = f64_of_int (sint w)"

section \<open>Decimal output\<close>

text \<open>
  The directives \<open>%d\<close>, \<open>%.7g\<close> and \<open>%f\<close> of \<open>printf\<close>. A finite magnitude is the fraction
  \<open>a / b\<close> of two naturals; both floating directives round it exactly, ties to even.
\<close>

definition digit_char :: "nat \<Rightarrow> char" where
  "digit_char d = ''0123456789'' ! (d mod 10)"

fun decimal :: "nat \<Rightarrow> string" where
  "decimal n = (if n < 10 then [digit_char n] else decimal (n div 10) @ [digit_char (n mod 10)])"

declare decimal.simps [simp del]

definition print_d :: "int \<Rightarrow> string" where
  "print_d i = (if i < 0 then CHR ''-'' # decimal (nat (- i)) else decimal (nat i))"

definition round_half_even :: "nat \<Rightarrow> nat \<Rightarrow> nat" where
  "round_half_even a b =
     (let q = a div b; r = a mod b
      in if 2 * r > b \<or> (2 * r = b \<and> odd q) then q + 1 else q)"

definition pad_left :: "nat \<Rightarrow> string \<Rightarrow> string" where
  "pad_left n s = replicate (n - length s) (CHR ''0'') @ s"

definition strip_zeros :: "string \<Rightarrow> string" where
  "strip_zeros s = rev (dropWhile (\<lambda>c. c = CHR ''0'') (rev s))"

definition fp_fraction :: "nat \<Rightarrow> int \<Rightarrow> nat \<times> nat" where
  "fp_fraction m e = (if 0 \<le> e then (m * 2 ^ nat e, 1) else (m, 2 ^ nat (- e)))"

text \<open>The least \<open>j \<ge> k\<close> with \<open>10 ^ (j - k) * a \<ge> b\<close>, for \<open>0 < a\<close>.\<close>

function small_exponent :: "nat \<Rightarrow> nat \<Rightarrow> nat \<Rightarrow> nat" where
  "small_exponent k a b = (if a < b \<and> 0 < a then small_exponent (Suc k) (10 * a) b else k)"
  by pat_completeness auto
termination
  by (relation "measure (\<lambda>(k, a, b). b - a)") auto

declare small_exponent.simps [simp del]

text \<open>The decimal exponent \<open>x\<close> of \<open>a / b\<close>: \<open>10 ^ x \<le> a / b < 10 ^ (x + 1)\<close>.\<close>

definition decimal_exponent :: "nat \<Rightarrow> nat \<Rightarrow> int" where
  "decimal_exponent a b =
     (if b \<le> a then int (length (decimal (a div b))) - 1 else - int (small_exponent 0 a b))"

definition trim_fraction :: "string \<Rightarrow> string \<Rightarrow> string" where
  "trim_fraction ip fp = (let f = strip_zeros fp in if f = [] then ip else ip @ CHR ''.'' # f)"

definition print_g7_magnitude :: "nat \<Rightarrow> nat \<Rightarrow> string" where
  "print_g7_magnitude a b =
     (let x0 = decimal_exponent a b;
          d0 = (if x0 \<le> 6 then round_half_even (a * 10 ^ nat (6 - x0)) b
                else round_half_even a (b * 10 ^ nat (x0 - 6)));
          x = (if d0 = 10 ^ 7 then x0 + 1 else x0);
          digits = decimal (if d0 = 10 ^ 7 then 10 ^ 6 else d0)
      in if - 4 \<le> x \<and> x < 7
         then if 0 \<le> x
              then trim_fraction (take (nat x + 1) digits) (drop (nat x + 1) digits)
              else trim_fraction ''0'' (replicate (nat (- x) - 1) (CHR ''0'') @ digits)
         else trim_fraction (take 1 digits) (drop 1 digits) @
              (if x < 0 then ''e-'' else ''e+'') @ pad_left 2 (decimal (nat \<bar>x\<bar>)))"

definition print_g7 :: "f64 \<Rightarrow> string" where
  "print_g7 v =
     (case f64_decode v of
        FNaN \<Rightarrow> ''nan''
      | FInf s \<Rightarrow> (if s then ''-inf'' else ''inf'')
      | FFin s m e \<Rightarrow>
          (if s then ''-'' else []) @
          (if m = 0 then ''0'' else case fp_fraction m e of (a, b) \<Rightarrow> print_g7_magnitude a b))"

definition print_f :: "f64 \<Rightarrow> string" where
  "print_f v =
     (case f64_decode v of
        FNaN \<Rightarrow> ''nan''
      | FInf s \<Rightarrow> (if s then ''-inf'' else ''inf'')
      | FFin s m e \<Rightarrow>
          (case fp_fraction m e of (a, b) \<Rightarrow>
             let n = round_half_even (a * 10 ^ 6) b
             in (if s then ''-'' else []) @ decimal (n div 10 ^ 6) @ ''.'' @
                pad_left 6 (decimal (n mod 10 ^ 6))))"

section \<open>Facts about doubles\<close>

lemma bit_length_0 [simp]: "bit_length 0 = 0"
  by (simp add: bit_length.simps)

lemma bit_length_bounds: "0 < n \<Longrightarrow> 2 ^ (bit_length n - 1) \<le> n \<and> n < 2 ^ bit_length n"
proof (induction n rule: bit_length.induct)
  case (1 n)
  show ?case
  proof (cases "n div 2 = 0")
    case True
    with "1.prems" have "n = 1" by linarith
    then show ?thesis by (simp add: bit_length.simps)
  next
    case False
    define k where "k = bit_length (n div 2)"
    have IH: "2 ^ (k - 1) \<le> n div 2" "n div 2 < 2 ^ k"
      using 1 False by (auto simp: k_def)
    have "k \<noteq> 0" using False IH(2) by (cases k) auto
    then obtain j where k: "k = Suc j" by (cases k) auto
    have "bit_length n = Suc k"
      using "1.prems" by (simp add: bit_length.simps [of n] k_def)
    with IH k show ?thesis by auto
  qed
qed

lemma bit_length_le: "n < 2 ^ k \<Longrightarrow> bit_length n \<le> k"
proof (rule ccontr)
  assume n: "n < 2 ^ k" and "\<not> bit_length n \<le> k"
  then have "k \<le> bit_length n - 1" and "0 < n" by (auto intro: gr0I)
  then have "(2::nat) ^ k \<le> n"
    using bit_length_bounds [of n] power_increasing [of k "bit_length n - 1" "2::nat"] by linarith
  with n show False by simp
qed

lemma unat_pack: "n < 2 ^ 63 \<Longrightarrow> unat (f64_pack s n) = (if s then 2 ^ 63 else 0) + n"
  by (simp add: f64_pack_def unat_of_nat del: of_nat_add)

lemma pack_fields:
  assumes f: "f < 2 ^ 52" and x: "x < 2 ^ 11"
  shows "f64_sign (f64_pack s (x * 2 ^ 52 + f)) = s"
    and "f64_exponent (f64_pack s (x * 2 ^ 52 + f)) = x"
    and "f64_fraction (f64_pack s (x * 2 ^ 52 + f)) = f"
proof -
  have lt: "x * 2 ^ 52 + f < 2 ^ 63" using assms by simp
  note u = unat_pack [OF lt, of s]
  have "(2 ^ 63 + (x * 2 ^ 52 + f)) div 2 ^ 63 = (1::nat)" "(x * 2 ^ 52 + f) div 2 ^ 63 = 0"
    using lt by simp_all
  then show "f64_sign (f64_pack s (x * 2 ^ 52 + f)) = s"
    unfolding f64_sign_def u by (cases s) simp_all
  have e: "(if s then 2 ^ 63 else 0) + (x * 2 ^ 52 + f) = ((if s then 2 ^ 11 else 0) + x) * 2 ^ 52 + f"
    by simp
  have "(c * 2 ^ 52 + f) div 2 ^ 52 = c" "(c * 2 ^ 52 + f) mod 2 ^ 52 = f" for c
    using f by simp_all
  note d = this [of "(if s then 2 ^ 11 else 0) + x"]
  show "f64_exponent (f64_pack s (x * 2 ^ 52 + f)) = x"
    unfolding f64_exponent_def u e d using x by simp
  show "f64_fraction (f64_pack s (x * 2 ^ 52 + f)) = f"
    unfolding f64_fraction_def u e d by (rule refl)
qed

lemma decode_pack_normal:
  assumes f: "f < 2 ^ 52" and x: "0 < x" "x < 2047"
  shows "f64_decode (f64_pack s (x * 2 ^ 52 + f)) = FFin s (2 ^ 52 + f) (int x - 1075)"
proof -
  have "x < 2 ^ 11" using x by simp
  note pf = pack_fields [OF f this, of s]
  show ?thesis unfolding f64_decode_def pf Let_def using x by simp
qed

lemma decode_pack_0: "f64_decode (f64_pack s 0) = FFin s 0 (- 1074)"
  using pack_fields [of 0 0 s] by (simp add: f64_decode_def)

lemma decode_round_exact:
  assumes m: "0 < m" "m < 2 ^ 53"
  shows "f64_decode (f64_round s m 0 b) = FFin s (m * 2 ^ (53 - bit_length m)) (int (bit_length m) - 53)"
proof -
  define L where "L = bit_length m"
  have L: "L \<le> 53" "2 ^ (L - 1) \<le> m" "m < 2 ^ L"
    using bit_length_le [OF m(2)] bit_length_bounds [OF m(1)] by (auto simp: L_def)
  have "L \<noteq> 0" using L(3) m(1) by (cases L) auto
  define mant where "mant = m * 2 ^ (53 - L)"
  have "2 ^ (L - 1) * 2 ^ (53 - L) \<le> mant" "mant < 2 ^ L * 2 ^ (53 - L)"
    using L(2,3) by (simp_all add: mant_def)
  moreover have "(2::nat) ^ (L - 1) * 2 ^ (53 - L) = 2 ^ 52" "(2::nat) ^ L * 2 ^ (53 - L) = 2 ^ 53"
    unfolding power_add [symmetric] using L(1) \<open>L \<noteq> 0\<close> by simp_all
  ultimately have mant: "2 ^ 52 \<le> mant" "mant < 2 ^ 53" by simp_all
  define f where "f = mant - 2 ^ 52"
  have f: "f < 2 ^ 52" "mant = 2 ^ 52 + f" using mant by (simp_all add: f_def)
  have q: "max (0 + int L - 53) (- 1074) = int L - 53" using L(1) by simp
  have n: "nat (int L - 53 + 1074) * 2 ^ 52 + mant = (L + 1022) * 2 ^ 52 + f"
    using f(2) by (simp add: nat_add_distrib algebra_simps)
  have "nat (0 - (int L - 53)) = 53 - L" using L(1) by simp
  then have "f64_round s m 0 b = f64_pack s ((L + 1022) * 2 ^ 52 + f)"
    unfolding f64_round_def Let_def L_def [symmetric] q n using m(1) L(1) f(1) n
    by (simp add: mant_def)
  also have "f64_decode \<dots> = FFin s (2 ^ 52 + f) (int (L + 1022) - 1075)"
    using L(1) by (intro decode_pack_normal f) auto
  finally show ?thesis using f(2) by (simp add: mant_def L_def)
qed
lemma trunc_of_int:
  assumes "\<bar>i\<bar> < 2 ^ 53"
  shows "f64_trunc (f64_of_int i) = Some i"
proof (cases "i = 0")
  case True
  then show ?thesis
    by (simp add: f64_trunc_def f64_of_int_def f64_round_def decode_pack_0 sgn_mag_def)
next
  case False
  define m where "m = nat \<bar>i\<bar>"
  have m: "0 < m" "m < 2 ^ 53" using assms False by (auto simp: m_def)
  define k where "k = 53 - bit_length m"
  have e: "int (bit_length m) - 53 = - int k"
    using bit_length_le [OF m(2)] by (simp add: k_def)
  have "f64_decode (f64_of_int i) = FFin (i < 0) (m * 2 ^ k) (- int k)"
    unfolding f64_of_int_def m_def [symmetric] decode_round_exact [OF m] e k_def [symmetric] by (rule refl)
  then have "f64_trunc (f64_of_int i) = Some (sgn_mag (i < 0) m)"
    by (simp add: f64_trunc_def)
  then show ?thesis by (simp add: sgn_mag_def m_def)
qed

lemma i32_small: "\<bar>sint (w :: i32)\<bar> < 2 ^ 53"
  using sint_in_int32 [of w] by (auto simp: in_int32_def int_min_def int_max_def)

lemma to_int_of_i32: "f64_to_int (f64_of_i32 w) = Inr w"
  using trunc_of_int [OF i32_small] sint_in_int32 [of w]
  by (simp add: f64_to_int_def f64_of_i32_def)

lemma decode_of_int:
  assumes "\<bar>i\<bar> < 2 ^ 53"
  obtains k where "f64_decode (f64_of_int i) = FFin (i < 0) (nat \<bar>i\<bar> * 2 ^ k) (- int k)"
proof (cases "i = 0")
  case True
  then show ?thesis
    using that [of 1074] by (simp add: f64_of_int_def f64_round_def decode_pack_0)
next
  case False
  then have m: "0 < nat \<bar>i\<bar>" "nat \<bar>i\<bar> < 2 ^ 53" using assms by auto
  then show ?thesis
    using that [of "53 - bit_length (nat \<bar>i\<bar>)"] bit_length_le [OF m(2)]
    by (simp add: f64_of_int_def decode_round_exact [OF m])
qed

lemma sgn_mag_shift: "sgn_mag s (m * 2 ^ k) * 2 ^ j = sgn_mag s m * 2 ^ (k + j)"
  by (simp add: sgn_mag_def power_add)

lemma sgn_mag_abs: "sgn_mag (i < 0) (nat \<bar>i\<bar>) = i"
  by (simp add: sgn_mag_def)

lemma cmp_of_int:
  assumes "\<bar>i\<bar> < 2 ^ 53" "\<bar>j\<bar> < 2 ^ 53"
  shows "f64_cmp (f64_of_int i) (f64_of_int j) = Some (sgn (i - j))"
proof -
  obtain k where k: "f64_decode (f64_of_int i) = FFin (i < 0) (nat \<bar>i\<bar> * 2 ^ k) (- int k)"
    using decode_of_int [OF assms(1)] .
  obtain l where l: "f64_decode (f64_of_int j) = FFin (j < 0) (nat \<bar>j\<bar> * 2 ^ l) (- int l)"
    using decode_of_int [OF assms(2)] .
  define M where "M = max k l"
  have b: "min (- int k) (- int l) = - int M" by (simp add: M_def)
  have s: "k + nat (- int k - - int M) = M" "l + nat (- int l - - int M) = M"
    by (simp_all add: M_def)
  have "f64_cmp (f64_of_int i) (f64_of_int j) = Some (sgn (i * 2 ^ M - j * 2 ^ M))"
    by (simp only: f64_cmp_def k l prod.case fp.case Let_def b sgn_mag_shift s sgn_mag_abs)
  also have "sgn (i * 2 ^ M - j * 2 ^ M) = sgn (i - j)"
    by (simp add: left_diff_distrib [symmetric] sgn_mult)
  finally show ?thesis .
qed

lemma less_of_i32: "f64_less (f64_of_i32 v) (f64_of_i32 w) \<longleftrightarrow> sint v < sint w"
  by (simp add: f64_less_def f64_of_i32_def cmp_of_int [OF i32_small i32_small] sgn_if)

lemma eq_of_i32: "f64_eq (f64_of_i32 v) (f64_of_i32 w) \<longleftrightarrow> sint v = sint w"
  by (simp add: f64_eq_def f64_of_i32_def cmp_of_int [OF i32_small i32_small] sgn_if)

lemma cmp_antisym: "f64_cmp y x = map_option uminus (f64_cmp x y)"
  by (auto simp: f64_cmp_def Let_def min.commute sgn_if split: fp.splits)

lemma less_not_leq: "f64_decode x \<noteq> FNaN \<Longrightarrow> f64_decode y \<noteq> FNaN \<Longrightarrow> f64_leq x y \<longleftrightarrow> \<not> f64_less y x"
  by (auto simp: f64_leq_def f64_less_def f64_eq_def f64_cmp_def Let_def sgn_if min.commute split: fp.splits)

lemma nan_unordered:
  "f64_decode x = FNaN \<or> f64_decode y = FNaN \<Longrightarrow> \<not> f64_less x y \<and> \<not> f64_leq x y \<and> \<not> f64_eq x y"
  by (auto simp: f64_leq_def f64_less_def f64_eq_def f64_cmp_def split: fp.splits)

lemma decode_nan: "f64_decode f64_nan = FNaN"
  by (simp add: f64_decode_def f64_nan_def f64_exponent_def f64_fraction_def)

lemma decode_inf: "f64_decode (f64_inf s) = FInf s"
  by (cases s) (simp_all add: f64_decode_def f64_inf_def f64_exponent_def f64_fraction_def f64_sign_def)

end
