(* ===== verification/Atomix_Value.thy ===== *)
theory Atomix_Value
  imports Atomix_Double
begin

text \<open>
  Values of the VM: \<open>core/value.impl.h\<close> and the functions of \<open>core/value.c\<close> that look at one
  value only (\<open>value_is_array\<close> follows prototypes and is in \<open>Atomix_Object\<close>).

  \<open>JSValue\<close> is a tagged union. The constructor is the tag; its argument is the union member
  the macros \<open>JS_VALUE_*\<close> of the header store. \<open>JS_VALUE_UNDEFINED\<close> and \<open>JS_VALUE_NULL\<close>
  store the integer 0. Reading \<open>value.as_int\<close> of any other tag gives the bytes of a double or
  of a machine address, which the model reports as \<open>Type_Pun\<close> (function \<open>as_int\<close>).
\<close>

section \<open>The tagged union\<close>

type_synonym obj_ref = nat
type_synonym func_ref = nat
type_synonym box_ref = nat

datatype JSValue =
    JS_INTEGER i32
  | JS_DOUBLE f64
  | JS_STRING string
  | JS_OBJECT obj_ref
  | JS_FUNC func_ref
  | JS_UNDEFINED
  | JS_NULL
  | JS_BOOLEAN i32
  | JS_SYMBOL obj_ref
  | JS_GS_BOX box_ref

definition JS_VALUE_INT :: "int \<Rightarrow> JSValue" where
  "JS_VALUE_INT x = JS_INTEGER (word_of_int x)"

definition JS_VALUE_BOOL :: "bool \<Rightarrow> JSValue" where
  "JS_VALUE_BOOL b = JS_BOOLEAN (if b then 1 else 0)"

definition JS_NaN :: f64 where
  "JS_NaN = f64_div (f64_of_int 0) (f64_of_int 0)"

definition JS_POS_INFINITY :: f64 where
  "JS_POS_INFINITY = f64_div (f64_of_int 1) (f64_of_int 0)"

definition JS_NEG_INFINITY :: f64 where
  "JS_NEG_INFINITY = f64_div (f64_of_int (- 1)) (f64_of_int 0)"

text \<open>The union member \<open>as_int\<close>, whatever the tag.\<close>

fun as_int :: "JSValue \<Rightarrow> i32 res" where
  "as_int (JS_INTEGER i) = Inr i"
| "as_int (JS_BOOLEAN i) = Inr i"
| "as_int JS_UNDEFINED = Inr 0"
| "as_int JS_NULL = Inr 0"
| "as_int _ = Inl (Fault Type_Pun)"

fun is_js_integer :: "JSValue \<Rightarrow> bool" where
  "is_js_integer (JS_INTEGER _) = True" | "is_js_integer _ = False"

fun is_js_double :: "JSValue \<Rightarrow> bool" where
  "is_js_double (JS_DOUBLE _) = True" | "is_js_double _ = False"

text \<open>The tag test \<open>type == JS_UNDEFINED || type == JS_OBJECT || type == JS_FUNC\<close>.\<close>

fun is_not_number :: "JSValue \<Rightarrow> bool" where
  "is_not_number JS_UNDEFINED = True"
| "is_not_number (JS_OBJECT _) = True"
| "is_not_number (JS_FUNC _) = True"
| "is_not_number _ = False"

section \<open>value.c\<close>

fun value_is_falsy :: "JSValue \<Rightarrow> bool res" where
  "value_is_falsy (JS_INTEGER i) = Inr (i = 0)"
| "value_is_falsy (JS_BOOLEAN i) = Inr (i = 0)"
| "value_is_falsy (JS_DOUBLE d) =
     Inr (f64_eq d (f64_of_int 0) \<or> f64_eq d (f64_neg (f64_of_int 0)))"
| "value_is_falsy (JS_STRING s) = Inr False"
| "value_is_falsy (JS_OBJECT a) = Inr False"
| "value_is_falsy (JS_FUNC a) = Inr False"
| "value_is_falsy (JS_SYMBOL a) = Inr False"
| "value_is_falsy JS_UNDEFINED = Inr True"
| "value_is_falsy JS_NULL = Inr True"
| "value_is_falsy (JS_GS_BOX a) = Inl (Panic ''Undefined JSValue Type'')"

definition value_is_truthy :: "JSValue \<Rightarrow> bool res" where
  "value_is_truthy v = andThen (value_is_falsy v) (\<lambda>b. Inr (\<not> b))"

text \<open>The bit test of \<open>value_is_NaN\<close> and \<open>double_to_string\<close>; both masks are the exponent's.\<close>

definition nan_bits :: "f64 \<Rightarrow> bool" where
  "nan_bits bits \<longleftrightarrow>
     and bits 0x7FF0000000000000 = 0x7FF0000000000000 \<and> and bits 0x7FF0000000000000 \<noteq> 0"

fun value_is_NaN :: "JSValue \<Rightarrow> bool" where
  "value_is_NaN (JS_DOUBLE d) = nan_bits d"
| "value_is_NaN _ = False"

definition int_to_string :: "i32 \<Rightarrow> string" where
  "int_to_string i = print_d (sint i)"

definition double_to_string :: "f64 \<Rightarrow> string" where
  "double_to_string d = (if nan_bits d then ''NaN'' else print_g7 d)"

fun value_to_string :: "JSValue \<Rightarrow> string res" where
  "value_to_string (JS_INTEGER i) = Inr (int_to_string i)"
| "value_to_string (JS_DOUBLE d) = Inr (double_to_string d)"
| "value_to_string (JS_BOOLEAN i) = Inr (if i \<noteq> 0 then ''true'' else ''false'')"
| "value_to_string JS_NULL = Inr ''null''"
| "value_to_string JS_UNDEFINED = Inr ''undefined''"
| "value_to_string (JS_OBJECT a) = Inr ''[Object]''"
| "value_to_string (JS_FUNC a) = Inr ''[Function]''"
| "value_to_string (JS_STRING s) = Inr s"
| "value_to_string (JS_SYMBOL a) = Inr ''[Symbol]''"
| "value_to_string (JS_GS_BOX a) = Inl (Panic ''Undefined JSValue Type'')"

section \<open>Facts about values\<close>

lemma decode_JS_NaN: "f64_decode JS_NaN = FNaN"
proof -
  have "f64_decode (f64_of_int 0) = FFin False 0 (- 1074)"
    by (simp add: f64_of_int_def f64_round_def decode_pack_0)
  then show ?thesis
    by (simp add: JS_NaN_def f64_div_def decode_nan)
qed

lemma nan_bits_exponent: "nan_bits d \<longleftrightarrow> f64_exponent d = 2047"
proof -
  have m: "(0x7FF0000000000000 :: f64) = push_bit 52 (mask 11)" by (simp add: mask_eq_exp_minus_1)
  have a: "and d 0x7FF0000000000000 = push_bit 52 (take_bit 11 (drop_bit 52 d))"
    unfolding m by (rule bit_word_eqI) (auto simp: bit_simps)
  have lt: "f64_exponent d < 2 ^ 11" by (simp add: f64_exponent_def)
  have u: "unat (and d 0x7FF0000000000000) = f64_exponent d * 2 ^ 52"
  proof -
    have "unat (drop_bit 52 d) = unat d div 2 ^ 52"
      unfolding unat_drop_bit_eq by (rule drop_bit_eq_div)
    then have "unat (take_bit 11 (drop_bit 52 d)) = f64_exponent d"
      unfolding unsigned_take_bit_eq f64_exponent_def by (simp only: take_bit_eq_mod)
    then have "unat (and d 0x7FF0000000000000) = take_bit 64 (f64_exponent d * 2 ^ 52)"
      unfolding a unsigned_push_bit_eq by (simp add: push_bit_eq_mult)
    also have "\<dots> = f64_exponent d * 2 ^ 52"
      using lt by (intro take_bit_nat_eq_self) simp
    finally show ?thesis .
  qed
  have "nan_bits d \<longleftrightarrow> unat (and d 0x7FF0000000000000) = 2047 * 2 ^ 52"
    by (auto simp: nan_bits_def word_unat_eq_iff)
  then show ?thesis using u by simp
qed

lemma nan_bits_decode: "nan_bits d \<longleftrightarrow> f64_decode d = FNaN \<or> (\<exists>s. f64_decode d = FInf s)"
  by (auto simp: nan_bits_exponent f64_decode_def Let_def)

lemma falsy_total: "value_is_falsy v = Inl e \<longleftrightarrow> (\<exists>a. v = JS_GS_BOX a) \<and> e = Panic ''Undefined JSValue Type''"
  by (cases v) auto

lemma value_to_string_total:
  "value_to_string v = Inl e \<longleftrightarrow> (\<exists>a. v = JS_GS_BOX a) \<and> e = Panic ''Undefined JSValue Type''"
  by (cases v) auto

end
