(* ===== verification/Atomix_Dict.thy ===== *)
theory Atomix_Dict
  imports Atomix_Value
begin

text \<open>
  The hash table of \<open>core/dict.c\<close>: an array of buckets, each a singly linked list of
  properties. A chain is a HOL list, head first; no property is shared between chains, so a
  pointer to an entry is its position, a bucket index and an index into the chain, and
  \<open>&entry->value\<close> is that position too (read by \<open>dict_value\<close>, written by \<open>dict_store\<close>).
  \<open>GC_malloc\<close> clears memory, so \<open>dict_add\<close> leaves \<open>symbol\<close> null.

  The theory shows that the table implements a finite map from string keys and one from
  symbols, under an invariant every operation keeps, and says exactly when the unlinking
  loop of \<open>dict_delete\<close> runs off the end of a chain.
\<close>

section \<open>Data\<close>

record JSProperty =
  prop_key :: "string option"
  prop_symbol :: "obj_ref option"
  prop_value :: JSValue

record JSDict =
  buckets :: "JSProperty list list"
  bucket_count :: nat

section \<open>Hashing\<close>

text \<open>\<open>char\<close> is signed on the x86-64 targets: bytes above 127 are negative when promoted.\<close>

definition c_char :: "char \<Rightarrow> int" where
  "c_char c = sint (word_of_nat (of_char c) :: u8)"

definition hash_seed :: u32 where
  "hash_seed = 5381"

definition hash_step :: "u32 \<Rightarrow> char \<Rightarrow> u32" where
  "hash_step hash c = push_bit 5 hash + hash + word_of_int (c_char c)"

definition hash_string :: "string \<Rightarrow> nat \<Rightarrow> nat" where
  "hash_string str n = unat (foldl hash_step hash_seed str) mod n"

section \<open>Walking a chain\<close>

fun chain_find :: "string \<Rightarrow> JSProperty list \<Rightarrow> nat option" where
  "chain_find key [] = None"
| "chain_find key (entry # rest) =
     (case prop_key entry of
        None \<Rightarrow> map_option Suc (chain_find key rest)
      | Some k \<Rightarrow> if key = k then Some 0 else map_option Suc (chain_find key rest))"

fun chain_find_symbol :: "obj_ref \<Rightarrow> JSProperty list \<Rightarrow> nat option" where
  "chain_find_symbol symbol [] = None"
| "chain_find_symbol symbol (entry # rest) =
     (if prop_symbol entry = Some symbol then Some 0
      else map_option Suc (chain_find_symbol symbol rest))"

section \<open>Operations\<close>

definition dict_create_dict :: "nat \<Rightarrow> JSDict" where
  "dict_create_dict n = \<lparr>buckets = replicate n [], bucket_count = n\<rparr>"

type_synonym value_ptr = "nat \<times> nat"

definition dict_value :: "JSDict \<Rightarrow> value_ptr \<Rightarrow> JSValue" where
  "dict_value d p = prop_value (buckets d ! fst p ! snd p)"

definition dict_store :: "JSDict \<Rightarrow> value_ptr \<Rightarrow> JSValue \<Rightarrow> JSDict" where
  "dict_store d p v =
     (let chain = buckets d ! fst p; entry = (chain ! snd p)\<lparr>prop_value := v\<rparr>
      in d\<lparr>buckets := (buckets d)[fst p := chain[snd p := entry]]\<rparr>)"

definition dict_get :: "JSDict \<Rightarrow> string \<Rightarrow> value_ptr option" where
  "dict_get d key =
     (let index = hash_string key (bucket_count d)
      in map_option (Pair index) (chain_find key (buckets d ! index)))"

definition dict_get_by_symbol :: "JSDict \<Rightarrow> obj_ref \<Rightarrow> value_ptr option" where
  "dict_get_by_symbol d symbol = map_option (Pair 0) (chain_find_symbol symbol (buckets d ! 0))"

definition dict_update :: "JSDict \<Rightarrow> string \<Rightarrow> JSValue \<Rightarrow> bool \<times> JSDict" where
  "dict_update d key v =
     (let index = hash_string key (bucket_count d)
      in case chain_find key (buckets d ! index) of
           None \<Rightarrow> (False, d)
         | Some pos \<Rightarrow> (True, dict_store d (index, pos) v))"

definition dict_update_with_symbol :: "JSDict \<Rightarrow> obj_ref \<Rightarrow> JSValue \<Rightarrow> bool \<times> JSDict" where
  "dict_update_with_symbol d symbol v =
     (case chain_find_symbol symbol (buckets d ! 0) of
        None \<Rightarrow> (False, d)
      | Some pos \<Rightarrow> (True, dict_store d (0, pos) v))"

definition dict_add :: "JSDict \<Rightarrow> string \<Rightarrow> JSValue \<Rightarrow> JSDict" where
  "dict_add d key v =
     (let index = hash_string key (bucket_count d);
          new_entry = \<lparr>prop_key = Some key, prop_symbol = None, prop_value = v\<rparr>
      in d\<lparr>buckets := (buckets d)[index := new_entry # buckets d ! index]\<rparr>)"

definition dict_add_with_symbol :: "JSDict \<Rightarrow> obj_ref \<Rightarrow> JSValue \<Rightarrow> JSDict" where
  "dict_add_with_symbol d symbol v =
     (let new_entry = \<lparr>prop_key = None, prop_symbol = Some symbol, prop_value = v\<rparr>
      in d\<lparr>buckets := (buckets d)[0 := new_entry # buckets d ! 0]\<rparr>)"

text \<open>
  The loop \<open>while (prev->next != entry) prev = prev->next\<close> over a chain of \<open>len\<close> entries:
  the null pointer at the end of the chain is index \<open>len\<close>, and following it is a fault.
\<close>

function unlink_prev :: "nat \<Rightarrow> nat \<Rightarrow> nat \<Rightarrow> nat res" where
  "unlink_prev len prev entry =
     (if prev < len
      then if Suc prev = entry then Inr prev else unlink_prev len (Suc prev) entry
      else Inl (Fault Null_Deref))"
  by pat_completeness auto
termination
  by (relation "measure (\<lambda>(len, prev, entry). len - prev)") auto

declare unlink_prev.simps [simp del]

text \<open>Unlinking the entry at \<open>pos\<close>; the search for its predecessor starts at the second entry.\<close>

definition chain_unlink :: "JSProperty list \<Rightarrow> nat \<Rightarrow> JSProperty list res" where
  "chain_unlink chain pos =
     (if pos = 0 then Inr (drop 1 chain)
      else andThen (unlink_prev (length chain) 1 pos)
             (\<lambda>prev. Inr (take (Suc prev) chain @ drop (Suc pos) chain)))"

definition dict_delete :: "JSDict \<Rightarrow> string \<Rightarrow> (bool \<times> JSDict) res" where
  "dict_delete d key =
     (let index = hash_string key (bucket_count d); chain = buckets d ! index
      in case chain_find key chain of
           None \<Rightarrow> Inr (False, d)
         | Some pos \<Rightarrow>
             andThen (chain_unlink chain pos)
               (\<lambda>chain'. Inr (True, d\<lparr>buckets := (buckets d)[index := chain']\<rparr>)))"

definition dict_delete_by_symbol :: "JSDict \<Rightarrow> obj_ref \<Rightarrow> (bool \<times> JSDict) res" where
  "dict_delete_by_symbol d symbol =
     (let chain = buckets d ! 0
      in case chain_find_symbol symbol chain of
           None \<Rightarrow> Inr (False, d)
         | Some pos \<Rightarrow>
             andThen (chain_unlink chain pos)
               (\<lambda>chain'. Inr (True, d\<lparr>buckets := (buckets d)[0 := chain']\<rparr>)))"

section \<open>The map a table stands for\<close>

definition dict_map :: "JSDict \<Rightarrow> string \<Rightarrow> JSValue option" where
  "dict_map d key = map_option (dict_value d) (dict_get d key)"

definition dict_symbols :: "JSDict \<Rightarrow> obj_ref \<Rightarrow> JSValue option" where
  "dict_symbols d symbol = map_option (dict_value d) (dict_get_by_symbol d symbol)"

text \<open>
  The idiom of \<open>scope_declare\<close> and \<open>object_set_property\<close>: overwrite the value found, or add
  an entry.
\<close>

definition dict_put :: "JSDict \<Rightarrow> string \<Rightarrow> JSValue \<Rightarrow> JSDict" where
  "dict_put d key v = (case dict_get d key of Some p \<Rightarrow> dict_store d p v | None \<Rightarrow> dict_add d key v)"

definition dict_put_symbol :: "JSDict \<Rightarrow> obj_ref \<Rightarrow> JSValue \<Rightarrow> JSDict" where
  "dict_put_symbol d symbol v =
     (case dict_get_by_symbol d symbol of
        Some p \<Rightarrow> dict_store d p v
      | None \<Rightarrow> dict_add_with_symbol d symbol v)"

definition entry_ok :: "nat \<Rightarrow> nat \<Rightarrow> JSProperty \<Rightarrow> bool" where
  "entry_ok n i e \<longleftrightarrow>
     (case prop_key e of
        Some k \<Rightarrow> hash_string k n = i \<and> prop_symbol e = None
      | None \<Rightarrow> i = 0 \<and> prop_symbol e \<noteq> None)"

definition chain_ok :: "nat \<Rightarrow> nat \<Rightarrow> JSProperty list \<Rightarrow> bool" where
  "chain_ok n i chain \<longleftrightarrow>
     list_all (entry_ok n i) chain \<and>
     distinct (map (\<lambda>e. (prop_key e, prop_symbol e)) chain)"

definition wf_dict :: "JSDict \<Rightarrow> bool" where
  "wf_dict d \<longleftrightarrow>
     0 < bucket_count d \<and> length (buckets d) = bucket_count d \<and>
     (\<forall>i < bucket_count d. chain_ok (bucket_count d) i (buckets d ! i))"

section \<open>Chains\<close>

lemma chain_find_eq: "chain_find k c = first_index prop_key k c"
  by (induction c) (auto split: option.splits)

lemma chain_find_symbol_eq: "chain_find_symbol s c = first_index prop_symbol s c"
  by (induction c) auto

lemma chain_find_None: "chain_find k c = None \<longleftrightarrow> (\<forall>e \<in> set c. prop_key e \<noteq> Some k)"
  by (simp add: chain_find_eq first_index_None)

lemma chain_find_Some:
  "chain_find k c = Some i \<longleftrightarrow>
     i < length c \<and> prop_key (c ! i) = Some k \<and> (\<forall>j < i. prop_key (c ! j) \<noteq> Some k)"
  by (simp add: chain_find_eq first_index_Some)

lemma chain_find_cong: "map prop_key c = map prop_key c' \<Longrightarrow> chain_find k c = chain_find k c'"
  unfolding chain_find_eq by (rule first_index_cong)

lemma chain_find_symbol_None: "chain_find_symbol s c = None \<longleftrightarrow> (\<forall>e \<in> set c. prop_symbol e \<noteq> Some s)"
  by (simp add: chain_find_symbol_eq first_index_None)

lemma chain_find_symbol_Some:
  "chain_find_symbol s c = Some i \<longleftrightarrow>
     i < length c \<and> prop_symbol (c ! i) = Some s \<and> (\<forall>j < i. prop_symbol (c ! j) \<noteq> Some s)"
  by (simp add: chain_find_symbol_eq first_index_Some)

lemma chain_find_symbol_cong:
  "map prop_symbol c = map prop_symbol c' \<Longrightarrow> chain_find_symbol s c = chain_find_symbol s c'"
  unfolding chain_find_symbol_eq by (rule first_index_cong)

lemma map_set_value:
  assumes "i < length c" "\<And>e w. f (e\<lparr>prop_value := w\<rparr>) = f e"
  shows "map f (c[i := (c ! i)\<lparr>prop_value := v\<rparr>]) = map f c"
  using assms by (simp add: map_update list_update_same_conv)

lemma hash_string_less: "0 < n \<Longrightarrow> hash_string k n < n"
  by (simp add: hash_string_def)

lemma chain_ok_entry: "chain_ok n i c \<Longrightarrow> a < length c \<Longrightarrow> entry_ok n i (c ! a)"
  by (simp add: chain_ok_def list_all_length)

lemma chain_ok_distinct:
  assumes "chain_ok n i c" "a < length c" "b < length c"
    and "prop_key (c ! a) = prop_key (c ! b)" "prop_symbol (c ! a) = prop_symbol (c ! b)"
  shows "a = b"
  using assms by (simp add: chain_ok_def distinct_conv_nth) metis

lemma chain_ok_unique:
  assumes "chain_ok n i c" "a < length c" "b < length c" "prop_key (c ! a) = Some k" "prop_key (c ! b) = Some k"
  shows "a = b"
  using chain_ok_entry [OF assms(1,2)] chain_ok_entry [OF assms(1,3)] assms
  by (auto simp: entry_ok_def intro: chain_ok_distinct)

lemma chain_ok_unique_symbol:
  assumes "chain_ok n i c" "a < length c" "b < length c"
    and "prop_symbol (c ! a) = Some s" "prop_symbol (c ! b) = Some s"
  shows "a = b"
  using chain_ok_entry [OF assms(1,2)] chain_ok_entry [OF assms(1,3)] assms
  by (auto simp: entry_ok_def intro: chain_ok_distinct split: option.splits)

lemma chain_ok_set_value:
  assumes "chain_ok n i c" "p < length c"
  shows "chain_ok n i (c[p := (c ! p)\<lparr>prop_value := v\<rparr>])"
proof -
  have "entry_ok n i (c ! p)"
    using assms by (simp add: chain_ok_def list_all_length)
  then have "entry_ok n i ((c ! p)\<lparr>prop_value := v\<rparr>)"
    by (simp add: entry_ok_def split: option.splits)
  moreover have "map (\<lambda>e. (prop_key e, prop_symbol e)) (c[p := (c ! p)\<lparr>prop_value := v\<rparr>]) =
      map (\<lambda>e. (prop_key e, prop_symbol e)) c"
    using assms(2) by (rule map_set_value) simp
  ultimately show ?thesis
    using assms by (simp only: chain_ok_def list_all_update)
qed

lemma chain_ok_remove: "chain_ok n i c \<Longrightarrow> chain_ok n i (remove_nth p c)"
  using set_remove_nth [of p c] by (auto simp: chain_ok_def list_all_iff distinct_map_remove_nth)

section \<open>Unlinking\<close>

lemma unlink_prev_found: "prev < entry \<Longrightarrow> entry \<le> len \<Longrightarrow> unlink_prev len prev entry = Inr (entry - 1)"
proof (induction len prev entry rule: unlink_prev.induct)
  case (1 len prev entry)
  then show ?case
    by (subst unlink_prev.simps) (auto simp: Suc_lessI)
qed

lemma unlink_prev_lost: "entry \<le> prev \<Longrightarrow> unlink_prev len prev entry = Inl (Fault Null_Deref)"
proof (induction len prev entry rule: unlink_prev.induct)
  case (1 len prev entry)
  then show ?case
    by (subst unlink_prev.simps) auto
qed

lemma chain_unlink_eq:
  "pos < length c \<Longrightarrow> chain_unlink c pos =
     (if pos = 1 then Inl (Fault Null_Deref) else Inr (remove_nth pos c))"
  by (auto simp: chain_unlink_def remove_nth_def unlink_prev_lost unlink_prev_found)


section \<open>Laws of the table\<close>

lemma wf_dict_create: "0 < n \<Longrightarrow> wf_dict (dict_create_dict n)"
  by (simp add: wf_dict_def dict_create_dict_def chain_ok_def)

lemma dict_map_create: "0 < n \<Longrightarrow> dict_map (dict_create_dict n) k = None"
  by (simp add: dict_map_def dict_get_def dict_create_dict_def hash_string_less)

lemma dict_symbols_create: "0 < n \<Longrightarrow> dict_symbols (dict_create_dict n) s = None"
  by (simp add: dict_symbols_def dict_get_by_symbol_def dict_create_dict_def)

lemma wf_dict_chain: "wf_dict d \<Longrightarrow> i < bucket_count d \<Longrightarrow> chain_ok (bucket_count d) i (buckets d ! i)"
  by (simp add: wf_dict_def)

lemma wf_dict_set_chain:
  assumes "wf_dict d" "i < bucket_count d \<Longrightarrow> chain_ok (bucket_count d) i c"
  shows "wf_dict (d\<lparr>buckets := (buckets d)[i := c]\<rparr>)"
  using assms by (auto simp: wf_dict_def nth_update_if)

text \<open>A pointer into the table: a bucket and a position in its chain.\<close>

definition valid_ptr :: "JSDict \<Rightarrow> value_ptr \<Rightarrow> bool" where
  "valid_ptr d p \<longleftrightarrow> fst p < length (buckets d) \<and> snd p < length (buckets d ! fst p)"

lemma dict_get_Some:
  "dict_get d k = Some p \<longleftrightarrow>
     fst p = hash_string k (bucket_count d) \<and> chain_find k (buckets d ! fst p) = Some (snd p)"
  by (cases p) (auto simp: dict_get_def Let_def)

lemma dict_get_by_symbol_Some:
  "dict_get_by_symbol d s = Some p \<longleftrightarrow> fst p = 0 \<and> chain_find_symbol s (buckets d ! fst p) = Some (snd p)"
  by (cases p) (auto simp: dict_get_by_symbol_def)

lemma dict_get_valid: "wf_dict d \<Longrightarrow> dict_get d k = Some p \<Longrightarrow> valid_ptr d p"
  by (auto simp: dict_get_Some valid_ptr_def chain_find_Some wf_dict_def hash_string_less)

lemma dict_get_by_symbol_valid: "wf_dict d \<Longrightarrow> dict_get_by_symbol d k = Some p \<Longrightarrow> valid_ptr d p"
  by (auto simp: dict_get_by_symbol_Some valid_ptr_def chain_find_symbol_Some wf_dict_def)

lemma bucket_count_store [simp]: "bucket_count (dict_store d p v) = bucket_count d"
  by (simp add: dict_store_def Let_def)

lemma wf_dict_store: "wf_dict d \<Longrightarrow> valid_ptr d p \<Longrightarrow> wf_dict (dict_store d p v)"
  unfolding dict_store_def Let_def
  by (rule wf_dict_set_chain) (auto intro: chain_ok_set_value wf_dict_chain simp: valid_ptr_def)

lemma store_keys:
  assumes "valid_ptr d p"
  shows "map prop_key (buckets (dict_store d p v) ! i) = map prop_key (buckets d ! i)"
    and "map prop_symbol (buckets (dict_store d p v) ! i) = map prop_symbol (buckets d ! i)"
  using assms map_set_value [of "snd p" "buckets d ! fst p" prop_key v]
    map_set_value [of "snd p" "buckets d ! fst p" prop_symbol v]
  by (cases "i = fst p"; simp add: dict_store_def Let_def valid_ptr_def)+

lemma dict_get_store: "valid_ptr d p \<Longrightarrow> dict_get (dict_store d p v) k = dict_get d k"
  by (simp add: dict_get_def Let_def chain_find_cong [OF store_keys(1)])

lemma dict_get_by_symbol_store:
  "valid_ptr d p \<Longrightarrow> dict_get_by_symbol (dict_store d p v) s = dict_get_by_symbol d s"
  by (simp add: dict_get_by_symbol_def chain_find_symbol_cong [OF store_keys(2)])

lemma dict_value_store:
  assumes "valid_ptr d p" "valid_ptr d q"
  shows "dict_value (dict_store d p v) q = (if q = p then v else dict_value d q)"
  using assms by (cases p; cases q) (auto simp: dict_value_def dict_store_def Let_def valid_ptr_def nth_list_update)

lemma dict_get_inj:
  assumes "dict_get d k = Some p" "dict_get d k' = Some p"
  shows "k' = k"
  using assms by (auto simp: dict_get_Some chain_find_Some)

lemma dict_ptr_kinds:
  assumes "wf_dict d" "dict_get d k = Some p" "dict_get_by_symbol d s = Some q"
  shows "q \<noteq> p"
proof
  assume "q = p"
  with assms have "prop_key (buckets d ! 0 ! snd p) = Some k" "prop_symbol (buckets d ! 0 ! snd p) = Some s"
    and "snd p < length (buckets d ! 0)"
    by (auto simp: dict_get_Some dict_get_by_symbol_Some chain_find_Some chain_find_symbol_Some)
  moreover have "chain_ok (bucket_count d) 0 (buckets d ! 0)"
    using assms(1) by (simp add: wf_dict_def)
  ultimately show False
    by (auto simp: chain_ok_def list_all_length entry_ok_def)
qed

lemma dict_map_store:
  assumes "wf_dict d" "dict_get d k = Some p"
  shows "dict_map (dict_store d p v) = (dict_map d)(k \<mapsto> v)"
proof
  fix k'
  note p = dict_get_valid [OF assms]
  show "dict_map (dict_store d p v) k' = ((dict_map d)(k \<mapsto> v)) k'"
  proof (cases "dict_get d k'")
    case None
    then show ?thesis using assms(2) by (auto simp: dict_map_def dict_get_store [OF p])
  next
    case (Some q)
    have "valid_ptr d q" using assms(1) Some by (rule dict_get_valid)
    then show ?thesis
      using Some assms(2) dict_get_inj [of d k p k']
      by (auto simp: dict_map_def dict_get_store [OF p] dict_value_store [OF p])
  qed
qed

lemma dict_symbols_store:
  assumes "wf_dict d" "dict_get d k = Some p"
  shows "dict_symbols (dict_store d p v) = dict_symbols d"
proof
  fix s
  note p = dict_get_valid [OF assms]
  show "dict_symbols (dict_store d p v) s = dict_symbols d s"
    using dict_ptr_kinds [OF assms] dict_get_by_symbol_valid [OF assms(1)]
    by (cases "dict_get_by_symbol d s")
      (auto simp: dict_symbols_def dict_get_by_symbol_store [OF p] dict_value_store [OF p])
qed


lemma dict_symbol_store:
  assumes "wf_dict d" "dict_get_by_symbol d s = Some p"
  shows "dict_symbols (dict_store d p v) = (dict_symbols d)(s \<mapsto> v)"
    and "dict_map (dict_store d p v) = dict_map d"
proof -
  note p = dict_get_by_symbol_valid [OF assms]
  have inj: "s' = s" if "dict_get_by_symbol d s' = Some p" for s'
    using that assms(2) by (auto simp: dict_get_by_symbol_Some chain_find_symbol_Some)
  show "dict_symbols (dict_store d p v) = (dict_symbols d)(s \<mapsto> v)"
  proof
    fix s'
    show "dict_symbols (dict_store d p v) s' = ((dict_symbols d)(s \<mapsto> v)) s'"
      using inj [of s'] assms(2) dict_get_by_symbol_valid [OF assms(1), of s']
      by (cases "dict_get_by_symbol d s'")
        (auto simp: dict_symbols_def dict_get_by_symbol_store [OF p] dict_value_store [OF p])
  qed
  show "dict_map (dict_store d p v) = dict_map d"
  proof
    fix k
    show "dict_map (dict_store d p v) k = dict_map d k"
      using dict_ptr_kinds [OF assms(1) _ assms(2), of k] dict_get_valid [OF assms(1), of k]
      by (cases "dict_get d k")
        (auto simp: dict_map_def dict_get_store [OF p] dict_value_store [OF p])
  qed
qed

text \<open>Adding prepends to a chain, so the new entry is found first.\<close>

lemma bucket_count_add [simp]: "bucket_count (dict_add d k v) = bucket_count d"
  by (simp add: dict_add_def Let_def)

lemma bucket_count_add_symbol [simp]: "bucket_count (dict_add_with_symbol d s v) = bucket_count d"
  by (simp add: dict_add_with_symbol_def Let_def)

lemma dict_map_alt:
  "dict_map d k =
     (let c = buckets d ! hash_string k (bucket_count d)
      in map_option (\<lambda>i. prop_value (c ! i)) (chain_find k c))"
  by (simp add: dict_map_def dict_get_def Let_def option.map_comp comp_def dict_value_def)

lemma dict_symbols_alt:
  "dict_symbols d s =
     (let c = buckets d ! 0 in map_option (\<lambda>i. prop_value (c ! i)) (chain_find_symbol s c))"
  by (simp add: dict_symbols_def dict_get_by_symbol_def Let_def option.map_comp comp_def dict_value_def)

lemma buckets_add:
  assumes "wf_dict d"
  shows "buckets (dict_add d k v) ! i =
    (if i = hash_string k (bucket_count d)
     then \<lparr>prop_key = Some k, prop_symbol = None, prop_value = v\<rparr> # buckets d ! i else buckets d ! i)"
  using assms by (simp add: dict_add_def Let_def wf_dict_def hash_string_less nth_update_if)

lemma buckets_add_symbol:
  assumes "wf_dict d"
  shows "buckets (dict_add_with_symbol d s v) ! i =
    (if i = 0 then \<lparr>prop_key = None, prop_symbol = Some s, prop_value = v\<rparr> # buckets d ! i
     else buckets d ! i)"
  using assms by (simp add: dict_add_with_symbol_def Let_def wf_dict_def nth_update_if)

lemma dict_map_add: "wf_dict d \<Longrightarrow> dict_map (dict_add d k v) = (dict_map d)(k \<mapsto> v)"
  by (rule ext) (auto simp: dict_map_alt Let_def buckets_add option.map_comp comp_def)

lemma dict_symbols_add: "wf_dict d \<Longrightarrow> dict_symbols (dict_add d k v) = dict_symbols d"
  by (rule ext) (auto simp: dict_symbols_alt Let_def buckets_add option.map_comp comp_def)

lemma dict_map_add_symbol: "wf_dict d \<Longrightarrow> dict_map (dict_add_with_symbol d s v) = dict_map d"
  by (rule ext) (auto simp: dict_map_alt Let_def buckets_add_symbol option.map_comp comp_def)

lemma dict_symbols_add_symbol:
  "wf_dict d \<Longrightarrow> dict_symbols (dict_add_with_symbol d s v) = (dict_symbols d)(s \<mapsto> v)"
  by (rule ext) (auto simp: dict_symbols_alt Let_def buckets_add_symbol option.map_comp comp_def)

lemma wf_dict_add:
  assumes "wf_dict d" "dict_get d k = None"
  shows "wf_dict (dict_add d k v)"
  unfolding dict_add_def Let_def
proof (rule wf_dict_set_chain [OF assms(1)])
  let ?i = "hash_string k (bucket_count d)"
  assume "?i < bucket_count d"
  then have "chain_ok (bucket_count d) ?i (buckets d ! ?i)" using assms(1) by (simp add: wf_dict_def)
  moreover have "\<forall>e \<in> set (buckets d ! ?i). prop_key e \<noteq> Some k"
    using assms(2) by (simp add: dict_get_def Let_def chain_find_None)
  ultimately show "chain_ok (bucket_count d) ?i
      (\<lparr>prop_key = Some k, prop_symbol = None, prop_value = v\<rparr> # buckets d ! ?i)"
    by (fastforce simp: chain_ok_def entry_ok_def)
qed

lemma wf_dict_add_symbol:
  assumes "wf_dict d" "dict_get_by_symbol d s = None"
  shows "wf_dict (dict_add_with_symbol d s v)"
  unfolding dict_add_with_symbol_def Let_def
proof (rule wf_dict_set_chain [OF assms(1)])
  have "chain_ok (bucket_count d) 0 (buckets d ! 0)" using assms(1) by (simp add: wf_dict_def)
  moreover have "\<forall>e \<in> set (buckets d ! 0). prop_symbol e \<noteq> Some s"
    using assms(2) by (simp add: dict_get_by_symbol_def chain_find_symbol_None)
  ultimately show "chain_ok (bucket_count d) 0
      (\<lparr>prop_key = None, prop_symbol = Some s, prop_value = v\<rparr> # buckets d ! 0)"
    by (fastforce simp: chain_ok_def entry_ok_def)
qed

lemma wf_dict_put: "wf_dict d \<Longrightarrow> wf_dict (dict_put d k v)"
  by (auto simp: dict_put_def wf_dict_add intro: wf_dict_store dict_get_valid split: option.splits)

lemma dict_map_put: "wf_dict d \<Longrightarrow> dict_map (dict_put d k v) = (dict_map d)(k \<mapsto> v)"
  by (auto simp: dict_put_def dict_map_store dict_map_add split: option.splits)

lemma dict_symbols_put: "wf_dict d \<Longrightarrow> dict_symbols (dict_put d k v) = dict_symbols d"
  by (auto simp: dict_put_def dict_symbols_store dict_symbols_add split: option.splits)

lemma wf_dict_put_symbol: "wf_dict d \<Longrightarrow> wf_dict (dict_put_symbol d s v)"
  by (auto simp: dict_put_symbol_def wf_dict_add_symbol intro: wf_dict_store dict_get_by_symbol_valid
      split: option.splits)

lemma dict_symbols_put_symbol:
  "wf_dict d \<Longrightarrow> dict_symbols (dict_put_symbol d s v) = (dict_symbols d)(s \<mapsto> v)"
  by (auto simp: dict_put_symbol_def dict_symbol_store dict_symbols_add_symbol split: option.splits)

lemma dict_map_put_symbol: "wf_dict d \<Longrightarrow> dict_map (dict_put_symbol d s v) = dict_map d"
  by (auto simp: dict_put_symbol_def dict_symbol_store dict_map_add_symbol split: option.splits)

text \<open>Deletion, when the loop of \<open>dict_delete\<close> ends.\<close>

lemma dict_map_set_chain:
  assumes "wf_dict d" "i < bucket_count d"
    and "\<And>k'. hash_string k' (bucket_count d) = i \<Longrightarrow>
      map_option (\<lambda>j. prop_value (c ! j)) (chain_find k' c) =
        (if k' = k then None else map_option (\<lambda>j. prop_value (buckets d ! i ! j)) (chain_find k' (buckets d ! i)))"
    and "hash_string k (bucket_count d) = i"
  shows "dict_map (d\<lparr>buckets := (buckets d)[i := c]\<rparr>) = (dict_map d)(k := None)"
  using assms by (intro ext) (auto simp: dict_map_alt Let_def nth_update_if wf_dict_def)

lemma dict_delete_found:
  assumes "wf_dict d" "dict_get d k = Some p" "snd p \<noteq> 1"
  obtains d' where "dict_delete d k = Inr (True, d')" "wf_dict d'" "dict_map d' = (dict_map d)(k := None)"
proof -
  define i where "i = hash_string k (bucket_count d)"
  define c where "c = buckets d ! i"
  have i: "i < bucket_count d" "fst p = i" and f: "chain_find k c = Some (snd p)"
    using assms(1,2) by (auto simp: i_def c_def wf_dict_def hash_string_less dict_get_Some)
  have ok: "chain_ok (bucket_count d) i c"
    using assms(1) i(1) unfolding c_def by (rule wf_dict_chain)
  have p: "snd p < length c" "prop_key (c ! snd p) = Some k" using f by (auto simp: chain_find_Some)
  let ?d' = "d\<lparr>buckets := (buckets d)[i := remove_nth (snd p) c]\<rparr>"
  have "dict_delete d k = Inr (True, ?d')"
    using p(1) assms(3) f by (simp add: dict_delete_def Let_def i_def [symmetric] c_def [symmetric] chain_unlink_eq)
  moreover have "wf_dict ?d'"
    using assms(1) ok by (intro wf_dict_set_chain chain_ok_remove)
  moreover have "dict_map ?d' = (dict_map d)(k := None)"
  proof (rule dict_map_set_chain [OF assms(1) i(1)])
    fix k'
    have "chain_find k (remove_nth (snd p) c) = None"
      unfolding chain_find_eq
      by (rule first_index_remove_same [of "snd p" c prop_key k, OF p])
        (rule chain_ok_unique [OF ok _ p(1) _ p(2)])
    then show "map_option (\<lambda>j. prop_value (remove_nth (snd p) c ! j)) (chain_find k' (remove_nth (snd p) c)) =
        (if k' = k then None else map_option (\<lambda>j. prop_value (buckets d ! i ! j)) (chain_find k' (buckets d ! i)))"
      using first_index_remove [of "snd p" c prop_key k, OF p, of k' prop_value]
      by (cases "k' = k") (simp_all add: chain_find_eq c_def)
  qed (simp add: i_def)
  ultimately show thesis by (rule that)
qed

lemma dict_delete_absent: "dict_get d k = None \<Longrightarrow> dict_delete d k = Inr (False, d)"
  by (auto simp: dict_delete_def dict_get_def Let_def)

lemma dict_delete_second:
  assumes "wf_dict d" "dict_get d k = Some p" "snd p = 1"
  shows "dict_delete d k = Inl (Fault Null_Deref)"
proof -
  have "chain_find k (buckets d ! hash_string k (bucket_count d)) = Some 1"
    using assms by (auto simp: dict_get_Some)
  moreover from this have "1 < length (buckets d ! hash_string k (bucket_count d))"
    by (simp add: chain_find_Some)
  ultimately show ?thesis
    by (simp add: dict_delete_def Let_def chain_unlink_eq)
qed

lemma dict_delete_Inr:
  assumes "wf_dict d" "dict_delete d k = Inr (found, d')"
  shows "wf_dict d' \<and> dict_map d' = (dict_map d)(k := None) \<and> (found \<longleftrightarrow> dict_map d k \<noteq> None)"
proof (cases "dict_get d k")
  case None
  then show ?thesis using assms by (auto simp: dict_delete_absent dict_map_def)
next
  case (Some p)
  then have "snd p \<noteq> 1"
    using assms dict_delete_second by fastforce
  with assms(1) Some obtain d'' where
    "dict_delete d k = Inr (True, d'')" "wf_dict d''" "dict_map d'' = (dict_map d)(k := None)"
    by (rule dict_delete_found)
  with assms(2) Some show ?thesis by (auto simp: dict_map_def)
qed

section \<open>The interface the clients use\<close>

text \<open>
  Scopes and objects use a table only through lookup and \<open>put\<close>; what they rely on is that
  \<open>put\<close> updates the map at one key and keeps the invariant.
\<close>

locale keyed_table =
  fixes lookup :: "'d \<Rightarrow> 'k \<Rightarrow> 'v option"
    and put :: "'d \<Rightarrow> 'k \<Rightarrow> 'v \<Rightarrow> 'd"
    and invar :: "'d \<Rightarrow> bool"
  assumes invar_put: "invar d \<Longrightarrow> invar (put d k v)"
    and lookup_put: "invar d \<Longrightarrow> lookup (put d k v) = (lookup d)(k \<mapsto> v)"
begin

lemma lookup_put_same: "invar d \<Longrightarrow> lookup (put d k v) k = Some v"
  by (simp add: lookup_put)

lemma lookup_put_other: "invar d \<Longrightarrow> k' \<noteq> k \<Longrightarrow> lookup (put d k v) k' = lookup d k'"
  by (simp add: lookup_put)

lemma put_overwrites: "invar d \<Longrightarrow> lookup (put (put d k v) k w) = lookup (put d k w)"
  by (simp add: lookup_put invar_put)

lemma put_commutes:
  "invar d \<Longrightarrow> k' \<noteq> k \<Longrightarrow> lookup (put (put d k v) k' w) = lookup (put (put d k' w) k v)"
  by (simp add: lookup_put invar_put fun_upd_twist)

lemma puts:
  "invar d \<Longrightarrow> invar (foldl (\<lambda>d (k, v). put d k v) d kvs) \<and>
     lookup (foldl (\<lambda>d (k, v). put d k v) d kvs) = lookup d ++ map_of (rev kvs)"
  by (induction kvs arbitrary: d) (auto simp: lookup_put invar_put)

end

locale deletable_keyed_table = keyed_table +
  fixes delete :: "'a \<Rightarrow> 'b \<Rightarrow> (bool \<times> 'a) res"
  assumes delete: "invar d \<Longrightarrow> delete d k = Inr (found, d') \<Longrightarrow>
      invar d' \<and> lookup d' = (lookup d)(k := None) \<and> (found \<longleftrightarrow> lookup d k \<noteq> None)"
begin

lemma delete_put:
  "invar d \<Longrightarrow> delete d k = Inr (found, d') \<Longrightarrow> lookup (put d' k v) = lookup (put d k v)"
  using delete [of d k found d'] by (simp add: lookup_put)

lemma put_delete:
  "invar d \<Longrightarrow> delete (put d k v) k = Inr (found, d') \<Longrightarrow> found \<and> lookup d' = (lookup d)(k := None)"
  using delete [of "put d k v" k found d'] by (simp add: invar_put lookup_put)

end

interpretation properties: deletable_keyed_table dict_map dict_put wf_dict dict_delete
  by unfold_locales (auto simp: wf_dict_put dict_map_put dest: dict_delete_Inr)

interpretation symbol_properties: keyed_table dict_symbols dict_put_symbol wf_dict
  by unfold_locales (simp_all add: wf_dict_put_symbol dict_symbols_put_symbol)

end
