(* ===== verification/Atomix_Heap.thy ===== *)
theory Atomix_Heap
  imports Atomix_Dict
begin

text \<open>
  The blocks the VM allocates and the global variables that point to them: the structs of
  \<open>core/object.impl.h\<close>, \<open>core/scope.impl.h\<close>, \<open>core/function.impl.h\<close>, \<open>core/function.h\<close>,
  \<open>core/instruction.impl.h\<close>, \<open>core/format.impl.h\<close> and \<open>core/api.impl.h\<close>.

  A pointer is an index into the list of blocks of its type (\<open>Atomix_Prelude\<close>); a pointer
  that may be null is an \<open>option\<close>. A dictionary belongs to one object or scope, so it is
  stored in place. \<open>GC_malloc\<close> is taken to succeed. The record is extended by the fields of
  \<open>struct VM\<close> in \<open>Atomix_Machine\<close>, and everything that needs no VM is stated for any
  extension.
\<close>

section \<open>Instructions\<close>

datatype Opcode =
    OP_NOP | OP_LD_INT | OP_LD_DOUBLE | OP_LD_STRING | OP_LD_UNDF | OP_LD_NULL | OP_LD_TRUE
  | OP_LD_FALSE | OP_LD_THIS | OP_ADD | OP_MINUS | OP_MUL | OP_DIV | OP_MOD | OP_BINARY_AND
  | OP_BINARY_OR | OP_BINARY_XOR | OP_BINARY_LSHFT | OP_BINARY_RSHFT | OP_BINARY_ZRSHFT
  | OP_BINARY_NOT | OP_NOT | OP_NEGATE | OP_TYPEOF | OP_TEQ | OP_NTEQ | OP_GT | OP_GEQ | OP_LT
  | OP_LEQ | OP_POP | OP_DUP | OP_SWAP | OP_ALLOC_LOCAL | OP_STORE_LOCAL | OP_LOAD_LOCAL
  | OP_LOAD_ARG | OP_FUNC_DECL | OP_FUNC_DECL_E | OP_CALL | OP_ARR_ALLOC | OP_OBJ_ALLOC
  | OP_OBJ_STORE | OP_OBJ_LOAD | OP_OBJ_CLOAD | OP_OBJ_CSTORE | OP_RETURN | OP_PUSH_SCOPE
  | OP_POP_SCOPE | OP_JMP | OP_JMP_F | OP_JMP_T | OP_EXPORT

text \<open>The enumerators in order: the position of an opcode is its C value and its byte code.\<close>

definition opcodes :: "Opcode list" where
  "opcodes =
     [OP_NOP, OP_LD_INT, OP_LD_DOUBLE, OP_LD_STRING, OP_LD_UNDF, OP_LD_NULL, OP_LD_TRUE,
      OP_LD_FALSE, OP_LD_THIS, OP_ADD, OP_MINUS, OP_MUL, OP_DIV, OP_MOD, OP_BINARY_AND,
      OP_BINARY_OR, OP_BINARY_XOR, OP_BINARY_LSHFT, OP_BINARY_RSHFT, OP_BINARY_ZRSHFT,
      OP_BINARY_NOT, OP_NOT, OP_NEGATE, OP_TYPEOF, OP_TEQ, OP_NTEQ, OP_GT, OP_GEQ, OP_LT,
      OP_LEQ, OP_POP, OP_DUP, OP_SWAP, OP_ALLOC_LOCAL, OP_STORE_LOCAL, OP_LOAD_LOCAL,
      OP_LOAD_ARG, OP_FUNC_DECL, OP_FUNC_DECL_E, OP_CALL, OP_ARR_ALLOC, OP_OBJ_ALLOC,
      OP_OBJ_STORE, OP_OBJ_LOAD, OP_OBJ_CLOAD, OP_OBJ_CSTORE, OP_RETURN, OP_PUSH_SCOPE,
      OP_POP_SCOPE, OP_JMP, OP_JMP_F, OP_JMP_T, OP_EXPORT]"

text \<open>
  The instruction structs, told apart by their opcode field; a \<open>void*\<close> to one may be null
  (the loader stores null for NOP and for bytes that are no opcode).
\<close>

datatype instr =
    Inst (opcode: Opcode)
  | InstInt32 (opcode: Opcode) (operand_i32: i32)
  | InstDouble (opcode: Opcode) (operand_f64: f64)
  | InstUInt16 (opcode: Opcode) (operand_u16: u16)
  | Inst2UInt16 (opcode: Opcode) (operand_u16: u16) (operand2: u16)

type_synonym inst_ptr = "instr option"

definition OPCODE_OF :: "inst_ptr \<Rightarrow> Opcode" where
  "OPCODE_OF p = (case p of None \<Rightarrow> OP_NOP | Some i \<Rightarrow> opcode i)"

text \<open>The casts \<open>InstInt32* inst = ptr\<close> and their kin, with the operand read through them.\<close>

fun as_InstInt32 :: "inst_ptr \<Rightarrow> i32 res" where
  "as_InstInt32 (Some (InstInt32 oc n)) = Inr n"
| "as_InstInt32 None = Inl (Fault Null_Deref)"
| "as_InstInt32 _ = Inl (Fault Wrong_Cast)"

fun as_InstDouble :: "inst_ptr \<Rightarrow> f64 res" where
  "as_InstDouble (Some (InstDouble oc d)) = Inr d"
| "as_InstDouble None = Inl (Fault Null_Deref)"
| "as_InstDouble _ = Inl (Fault Wrong_Cast)"

fun as_InstUInt16 :: "inst_ptr \<Rightarrow> nat res" where
  "as_InstUInt16 (Some (InstUInt16 oc n)) = Inr (unat n)"
| "as_InstUInt16 None = Inl (Fault Null_Deref)"
| "as_InstUInt16 _ = Inl (Fault Wrong_Cast)"

fun as_Inst2UInt16 :: "inst_ptr \<Rightarrow> (nat \<times> nat) res" where
  "as_Inst2UInt16 (Some (Inst2UInt16 oc n m)) = Inr (unat n, unat m)"
| "as_Inst2UInt16 None = Inl (Fault Null_Deref)"
| "as_Inst2UInt16 _ = Inl (Fault Wrong_Cast)"

section \<open>Modules and bundles\<close>

type_synonym scope_ref = nat
type_synonym module_ref = nat
type_synonym bundle_ref = nat

record StringTable =
  st_length :: u32
  st_count :: u32
  st_offsets :: "u32 list"
  st_strings :: "u8 list"

record DataSection =
  ds_length :: u32
  ds_count :: u32
  instructions :: "inst_ptr list"

record JSModule =
  module_bundle :: "bundle_ref option"
  magic :: "u8 list"
  version :: u16
  hash :: u64
  string_table_pos :: u32
  data_section_pos :: u32
  string_table :: StringTable
  data_section :: DataSection
  initialized :: bool
  exports :: "obj_ref option"
  module_scope :: "scope_ref option"

text \<open>\<open>modules\<close> of a bundle is an array of structs: the addresses of its elements in order.\<close>

record JSBundle =
  bundle_magic :: "u8 list"
  bundle_version :: u16
  entryPoint :: u64
  moduleCount :: u16
  bundle_modules :: "module_ref list"

section \<open>Objects, scopes and functions\<close>

record JSObject =
  prototype :: "obj_ref option"
  properties :: JSDict

record Scope =
  parent :: "scope_ref option"
  symbols :: JSDict

text \<open>
  A native function is a C function pointer; the ones the VM binds are those of
  \<open>modules/core/core.c\<close>.
\<close>

datatype native =
    N_print | N_module_get_export_obj | N_module_import_module | N_object | N_instantiate
  | N_create | N_setPrototypeOf | N_array | N_is_array | N_function | N_call | N_symbol

record JSFunction =
  base :: obj_ref
  native_function :: "native option"
  function_scope :: "scope_ref option"
  function_module :: "module_ref option"
  instruction_start :: nat
  instruction_end :: nat
  is_native :: bool

record JSGSBox =
  getter :: "func_ref option"
  setter :: "func_ref option"

section \<open>The heap and the global variables\<close>

record heap =
  h_objects :: "JSObject list"
  h_scopes :: "Scope list"
  h_functions :: "JSFunction list"
  h_boxes :: "JSGSBox list"
  h_modules :: "JSModule list"
  h_bundles :: "JSBundle list"
  native_modules :: "module_ref list"
  object_prototype :: "obj_ref option"
  array_prototype :: "obj_ref option"
  function_prototype :: "obj_ref option"
  symbol_prototype :: "obj_ref option"
  to_primitive_symbol :: "obj_ref option"
  stdout :: "string list"

definition empty_heap :: heap where
  "empty_heap =
     \<lparr>h_objects = [], h_scopes = [], h_functions = [], h_boxes = [], h_modules = [], h_bundles = [],
      native_modules = [], object_prototype = None, array_prototype = None,
      function_prototype = None, symbol_prototype = None, to_primitive_symbol = None,
      stdout = []\<rparr>"

section \<open>Facts about opcodes\<close>

lemma length_opcodes: "length opcodes = 53"
  by (simp add: opcodes_def)

lemma distinct_opcodes: "distinct opcodes"
  by (simp add: opcodes_def)

lemma set_opcodes: "oc \<in> set opcodes"
  by (cases oc) (simp_all add: opcodes_def)

end
