(* ===== verification/Atomix_Format.thy ===== *)
theory Atomix_Format
  imports Atomix_Heap
begin

text \<open>
  Access to loaded modules, \<open>core/format.c\<close>: strings of a module's string table and the
  search for a module by its hash, first in the bundle (binary search over the modules, 16
  bit indices), then among the registered native modules.

  The search loop is given 64 rounds. An interval of at most 65536 indices is halved at most
  17 times before the loop ends or \<open>high\<close> wraps to 65535 at \<open>low = 0\<close>; from that state it
  can wrap once more only into the same state, so more rounds would never end.
\<close>

section \<open>Strings\<close>

definition c_string :: "u8 list \<Rightarrow> string" where
  "c_string bs = map (\<lambda>b. char_of (unat b)) (takeWhile (\<lambda>b. b \<noteq> 0) bs)"

text \<open>\<open>memcpy\<close> of \<open>n\<close> bytes at offset \<open>i\<close> of a buffer.\<close>

definition bytes_at :: "u8 list \<Rightarrow> nat \<Rightarrow> nat \<Rightarrow> u8 list res" where
  "bytes_at buff i n = (if i + n \<le> length buff then Inr (take n (drop i buff)) else Inl (Fault Out_Of_Bounds))"

text \<open>An element of an array.\<close>

definition array_at :: "'a list \<Rightarrow> nat \<Rightarrow> 'a res" where
  "array_at xs i = (if i < length xs then Inr (xs ! i) else Inl (Fault Out_Of_Bounds))"

definition string_table_load_str :: "StringTable \<Rightarrow> u32 \<Rightarrow> string res" where
  "string_table_load_str st idx =
     (if st_count st \<le> idx then Inl (Panic ''StringTable idx is out of bounds'')
      else
        andThen (array_at (st_offsets st) (unat idx))
          (\<lambda>offset.
             andThen
               (if idx = st_count st - 1
                then Inr (st_length st - (offset + 2 * 4 + st_count st * 4))
                else andThen (array_at (st_offsets st) (unat (idx + 1))) (\<lambda>next. Inr (next - offset)))
               (\<lambda>len. andThen (bytes_at (st_strings st) (unat offset) (unat len))
                  (\<lambda>bs. Inr (c_string bs)))))"

section \<open>Modules\<close>

primrec bundle_search :: "nat \<Rightarrow> u16 \<Rightarrow> u16 \<Rightarrow> module_ref list \<Rightarrow> u64 \<Rightarrow> 'a heap_scheme \<Rightarrow> module_ref option res" where
  "bundle_search 0 low high ms h s = Inl Diverge"
| "bundle_search (Suc n) low high ms h s =
     (if low \<le> high
      then
        let mid = low + (high - low) div 2
        in andThen (array_at ms (unat mid))
             (\<lambda>m. andThen (deref (h_modules s) m)
                (\<lambda>module.
                   if hash module = h then Inr (Some m)
                   else if hash module < h then bundle_search n (mid + 1) high ms h s
                   else bundle_search n low (mid - 1) ms h s))
      else Inr None)"

fun native_search :: "module_ref list \<Rightarrow> u64 \<Rightarrow> 'a heap_scheme \<Rightarrow> module_ref res" where
  "native_search [] h s = Inl (Panic ''Could not find module in bundle'')"
| "native_search (m # rest) h s =
     andThen (deref (h_modules s) m)
       (\<lambda>module. if hash module = h then Inr m else native_search rest h s)"

definition bundle_get_module :: "bundle_ref option \<Rightarrow> u64 \<Rightarrow> 'a heap_scheme \<Rightarrow> module_ref res" where
  "bundle_get_module b h s =
     (case b of
        None \<Rightarrow> native_search (native_modules s) h s
      | Some a \<Rightarrow>
          andThen (deref (h_bundles s) a)
            (\<lambda>bun. andThen (bundle_search 64 0 (moduleCount bun) (bundle_modules bun) h s)
               (\<lambda>r. case r of Some m \<Rightarrow> Inr m | None \<Rightarrow> native_search (native_modules s) h s)))"

end
