(* ===== verification/Atomix_Links.thy ===== *)
theory Atomix_Links
  imports Atomix_Prelude
begin

text \<open>
  Walks along chains of pointers. Scopes point to their parent and objects to their
  prototype, and the C functions recurse along these links with no bound. The recursions of
  the model carry a counter that starts above the number of blocks, and stop with \<open>Diverge\<close>
  when it is used up. Here it is shown once that the counter is exact: a walk along a chain
  that ends never uses it up, and a walk that uses it up would use up any counter.
\<close>

primrec walk :: "nat \<Rightarrow> (nat \<Rightarrow> nat option res) \<Rightarrow> (nat \<Rightarrow> 'r option) \<Rightarrow> nat \<Rightarrow> 'r option res" where
  "walk 0 link hit a = Inl Diverge"
| "walk (Suc n) link hit a =
     andThen (link a)
       (\<lambda>l. case hit a of
              Some r \<Rightarrow> Inr (Some r)
            | None \<Rightarrow> (case l of None \<Rightarrow> Inr None | Some b \<Rightarrow> walk n link hit b))"

text \<open>\<open>linked link a as\<close>: following \<open>link\<close> from \<open>a\<close> visits \<open>as\<close> and ends.\<close>

inductive linked :: "(nat \<Rightarrow> nat option res) \<Rightarrow> nat \<Rightarrow> nat list \<Rightarrow> bool" for link where
  linked_last: "link a = Inr None \<Longrightarrow> linked link a [a]"
| linked_step: "link a = Inr (Some b) \<Longrightarrow> linked link b bs \<Longrightarrow> linked link a (a # bs)"

inductive_cases linked_ConsE: "linked link a (b # bs)"
inductive_cases linked_NilE: "linked link a []"

fun first_hit :: "(nat \<Rightarrow> 'r option) \<Rightarrow> nat list \<Rightarrow> 'r option" where
  "first_hit hit [] = None"
| "first_hit hit (a # as) = (case hit a of Some r \<Rightarrow> Some r | None \<Rightarrow> first_hit hit as)"

lemma walk_linked: "linked link a as \<Longrightarrow> length as \<le> n \<Longrightarrow> walk n link hit a = Inr (first_hit hit as)"
proof (induction arbitrary: n rule: linked.induct)
  case (linked_last a)
  then show ?case by (cases n) (auto split: option.splits)
next
  case (linked_step a b bs)
  then show ?case by (cases n) (auto split: option.splits)
qed

lemma linked_unique: "linked link a as \<Longrightarrow> linked link a bs \<Longrightarrow> as = bs"
proof (induction arbitrary: bs rule: linked.induct)
  case (linked_last a)
  from linked_last.prems show ?case
    by (cases rule: linked.cases) (use linked_last in auto)
next
  case (linked_step a b cs)
  from linked_step.prems linked_step.hyps(1) obtain cs' where "bs = a # cs'" "linked link b cs'"
    by (cases rule: linked.cases) auto
  with linked_step.IH show ?case by blast
qed

lemma linked_suffix: "linked link a as \<Longrightarrow> b \<in> set as \<Longrightarrow> \<exists>bs. linked link b bs \<and> length bs \<le> length as"
proof (induction rule: linked.induct)
  case (linked_last a)
  then show ?case by (auto intro: linked.linked_last)
next
  case (linked_step a c cs)
  show ?case
  proof (cases "b = a")
    case True
    with linked_step show ?thesis by (auto intro: linked.linked_step)
  next
    case False
    with linked_step show ?thesis by (auto intro: le_SucI)
  qed
qed

lemma linked_distinct: "linked link a as \<Longrightarrow> distinct as"
proof (induction rule: linked.induct)
  case (linked_last a)
  show ?case by simp
next
  case (linked_step a b bs)
  have "a \<notin> set bs"
  proof
    assume "a \<in> set bs"
    then obtain as where "linked link a as" "length as \<le> length bs"
      using linked_suffix linked_step.hyps(2) by blast
    moreover have "linked link a (a # bs)"
      using linked_step.hyps by (rule linked.linked_step)
    ultimately have "as = a # bs" by (simp add: linked_unique)
    with \<open>length as \<le> length bs\<close> show False by simp
  qed
  with linked_step.IH show ?case by simp
qed

definition bounded_links :: "nat \<Rightarrow> (nat \<Rightarrow> nat option res) \<Rightarrow> bool" where
  "bounded_links N link \<longleftrightarrow> (\<forall>a l. link a = Inr l \<longrightarrow> a < N)"

lemma linked_bound:
  assumes "linked link a as" and "bounded_links N link"
  shows "length as \<le> N"
proof -
  have "set as \<subseteq> {..<N}"
    using assms(1) by induction (use assms(2) in \<open>auto simp: bounded_links_def\<close>)
  then have "card (set as) \<le> N"
    by (metis card_lessThan card_mono finite_lessThan)
  then show ?thesis
    using linked_distinct [OF assms(1)] by (simp add: distinct_card)
qed

text \<open>Enough fuel: more than the number of blocks.\<close>

lemma walk_enough:
  assumes "linked link a as" and "bounded_links N link"
  shows "walk (Suc N) link hit a = Inr (first_hit hit as)"
  by (rule walk_linked [OF assms(1) le_SucI [OF linked_bound [OF assms]]])

text \<open>Using it up means that no fuel is enough.\<close>

lemma walk_mono: "walk n link hit a \<noteq> Inl Diverge \<Longrightarrow> n \<le> m \<Longrightarrow> walk m link hit a = walk n link hit a"
proof (induction n arbitrary: a m)
  case 0
  then show ?case by simp
next
  case (Suc n)
  then obtain k where m: "m = Suc k" "n \<le> k" by (cases m) auto
  show ?case
  proof (cases "\<exists>b. link a = Inr (Some b) \<and> hit a = None")
    case True
    then obtain b where b: "link a = Inr (Some b)" "hit a = None" by blast
    with Suc.prems(1) have "walk n link hit b \<noteq> Inl Diverge" by simp
    from Suc.IH [OF this m(2)] b show ?thesis by (simp add: m(1))
  next
    case False
    then show ?thesis
      by (cases "link a") (auto simp: m(1) split: option.splits)
  qed
qed

definition walk_rank :: "(nat \<Rightarrow> nat option res) \<Rightarrow> (nat \<Rightarrow> 'r option) \<Rightarrow> nat \<Rightarrow> nat" where
  "walk_rank link hit a = (LEAST n. walk n link hit a \<noteq> Inl Diverge)"

lemma walk_rank_step:
  assumes "walk n link hit a \<noteq> Inl Diverge" "walk_rank link hit a = Suc (Suc k)"
  obtains b where "link a = Inr (Some b)" "walk (Suc k) link hit b \<noteq> Inl Diverge"
    "walk_rank link hit b = Suc k"
proof -
  have r: "walk (Suc (Suc k)) link hit a \<noteq> Inl Diverge"
    using LeastI [of "\<lambda>n. walk n link hit a \<noteq> Inl Diverge", OF assms(1)] assms(2)
    by (simp add: walk_rank_def)
  have l: "walk j link hit a = Inl Diverge" if "j < Suc (Suc k)" for j
    using not_less_Least [of j "\<lambda>n. walk n link hit a \<noteq> Inl Diverge"] that assms(2)
    by (auto simp: walk_rank_def)
  have "walk (Suc 0) link hit a = Inl Diverge" by (rule l) simp
  with r obtain b where b: "link a = Inr (Some b)" "hit a = None"
    by (cases "link a") (auto split: option.splits)
  have "walk (Suc k) link hit b \<noteq> Inl Diverge" using r b by simp
  moreover have "walk_rank link hit b = Suc k"
    unfolding walk_rank_def
  proof (rule Least_equality)
    show "walk (Suc k) link hit b \<noteq> Inl Diverge" by fact
    fix j
    assume "walk j link hit b \<noteq> Inl Diverge"
    then have "walk (Suc j) link hit a \<noteq> Inl Diverge" using b by simp
    then show "Suc k \<le> j" using l [of "Suc j"] by (meson Suc_le_mono not_less)
  qed
  ultimately show thesis using b(1) by (intro that)
qed

lemma walk_rank_path:
  assumes "bounded_links N link"
  shows "walk n link hit a \<noteq> Inl Diverge \<Longrightarrow> walk_rank link hit a = Suc k \<Longrightarrow>
    \<exists>as. length as = k \<and> distinct as \<and> (\<forall>b \<in> set as. b < N \<and> walk_rank link hit b \<le> Suc k)"
proof (induction k arbitrary: a n)
  case 0
  then show ?case by simp
next
  case (Suc k)
  obtain b where b: "link a = Inr (Some b)" "walk (Suc k) link hit b \<noteq> Inl Diverge"
    "walk_rank link hit b = Suc k"
    using Suc.prems by (rule walk_rank_step)
  from Suc.IH [OF b(2,3)] obtain as where as: "length as = k" "distinct as"
    "\<forall>c \<in> set as. c < N \<and> walk_rank link hit c \<le> Suc k" by blast
  have "a \<notin> set as" using as(3) Suc.prems(2) by auto
  moreover have "a < N" using assms b(1) by (auto simp: bounded_links_def)
  ultimately show ?case
    using as Suc.prems(2) by (intro exI [of _ "a # as"]) auto
qed

lemma walk_diverge:
  assumes N: "bounded_links N link" and d: "walk (Suc N) link hit a = Inl Diverge"
  shows "walk m link hit a = Inl Diverge"
proof (rule ccontr)
  assume m: "walk m link hit a \<noteq> Inl Diverge"
  define r where "r = walk_rank link hit a"
  have r: "walk r link hit a \<noteq> Inl Diverge"
    using LeastI [of "\<lambda>n. walk n link hit a \<noteq> Inl Diverge", OF m] by (simp add: r_def walk_rank_def)
  then obtain k where k: "r = Suc k" by (cases r) auto
  from walk_rank_path [OF N m] k obtain as where
    as: "length as = k" "distinct as" "\<forall>b \<in> set as. b < N"
    unfolding r_def by blast
  then have "k \<le> N"
    by (metis card_lessThan card_mono distinct_card finite_lessThan lessThan_iff subsetI)
  with walk_mono [OF r, of "Suc N"] r d k show False by simp
qed

end
