(* ===== verification/Atomix_Object.thy ===== *)
theory Atomix_Object
  imports Atomix_Heap Atomix_Links
begin

text \<open>
  Objects, \<open>core/object.c\<close>: a dictionary of properties and a prototype, the four global
  prototypes created on first use, and \<open>value_is_array\<close> of \<open>core/value.c\<close>.

  Reading or writing an accessor property calls back into the interpreter
  (\<open>api_call_function\<close>). That function is the argument \<open>call\<close> of the operations; the
  interpreter ties the knot in \<open>Atomix_Engine\<close>. \<open>object_get_property\<close> recurses along the
  prototypes with the counter of \<open>Atomix_Links\<close>; the test \<open>obj->prototype != obj\<close> of the
  code stops at an object that is its own prototype.
\<close>

type_synonym 's caller = "func_ref \<Rightarrow> JSValue \<Rightarrow> JSValue list \<Rightarrow> 's \<Rightarrow> (JSValue \<times> 's) res"

section \<open>Operations\<close>

definition OBJECT_BUCKET_SIZE :: nat where
  "OBJECT_BUCKET_SIZE = 16"

definition object_create_object :: "obj_ref option \<Rightarrow> 'a heap_scheme \<Rightarrow> obj_ref \<times> 'a heap_scheme" where
  "object_create_object p s =
     (length (h_objects s),
      s\<lparr>h_objects := h_objects s @ [\<lparr>prototype = p, properties = dict_create_dict OBJECT_BUCKET_SIZE\<rparr>]\<rparr>)"

definition object_write :: "obj_ref \<Rightarrow> JSDict \<Rightarrow> 'a heap_scheme \<Rightarrow> 'a heap_scheme" where
  "object_write a d s = s\<lparr>h_objects := (h_objects s)[a := (h_objects s ! a)\<lparr>properties := d\<rparr>]\<rparr>"

definition object_set_prototype :: "obj_ref \<Rightarrow> obj_ref option \<Rightarrow> 'a heap_scheme \<Rightarrow> 'a heap_scheme" where
  "object_set_prototype a p s =
     s\<lparr>h_objects := (h_objects s)[a := (h_objects s ! a)\<lparr>prototype := p\<rparr>]\<rparr>"

text \<open>The branches of the four accessors for a property that holds a getter/setter box.\<close>

definition call_setter ::
    "'a heap_scheme caller \<Rightarrow> obj_ref \<Rightarrow> box_ref \<Rightarrow> JSValue \<Rightarrow> 'a heap_scheme \<Rightarrow> 'a heap_scheme res" where
  "call_setter call obj b v s =
     andThen (deref (h_boxes s) b)
       (\<lambda>box. case setter box of
                None \<Rightarrow> Inl (Panic ''Property contains no setter'')
              | Some f \<Rightarrow> andThen (call f (JS_OBJECT obj) [v] s) (\<lambda>(r, s'). Inr s'))"

definition call_getter ::
    "'a heap_scheme caller \<Rightarrow> obj_ref \<Rightarrow> box_ref \<Rightarrow> 'a heap_scheme \<Rightarrow> (JSValue \<times> 'a heap_scheme) res" where
  "call_getter call obj b s =
     andThen (deref (h_boxes s) b)
       (\<lambda>box. case getter box of
                None \<Rightarrow> Inl (Panic ''Property contains no getter'')
              | Some f \<Rightarrow> call f (JS_OBJECT obj) [] s)"

definition object_set_property ::
    "'a heap_scheme caller \<Rightarrow> obj_ref \<Rightarrow> string \<Rightarrow> JSValue \<Rightarrow> 'a heap_scheme \<Rightarrow> 'a heap_scheme res" where
  "object_set_property call obj key v s =
     andThen (deref (h_objects s) obj)
       (\<lambda>ob. case dict_get (properties ob) key of
               Some prop \<Rightarrow>
                 (case dict_value (properties ob) prop of
                    JS_GS_BOX b \<Rightarrow> call_setter call obj b v s
                  | _ \<Rightarrow> Inr (object_write obj (dict_store (properties ob) prop v) s))
             | None \<Rightarrow> Inr (object_write obj (dict_add (properties ob) key v) s))"

definition object_set_property_with_symbol ::
    "'a heap_scheme caller \<Rightarrow> obj_ref \<Rightarrow> obj_ref \<Rightarrow> JSValue \<Rightarrow> 'a heap_scheme \<Rightarrow> 'a heap_scheme res" where
  "object_set_property_with_symbol call obj symbol v s =
     andThen (deref (h_objects s) obj)
       (\<lambda>ob. case dict_get_by_symbol (properties ob) symbol of
               Some prop \<Rightarrow>
                 (case dict_value (properties ob) prop of
                    JS_GS_BOX b \<Rightarrow> call_setter call obj b v s
                  | _ \<Rightarrow> Inr (object_write obj (dict_store (properties ob) prop v) s))
             | None \<Rightarrow> Inr (object_write obj (dict_add_with_symbol (properties ob) symbol v) s))"

primrec object_get_property_rec ::
    "nat \<Rightarrow> 'a heap_scheme caller \<Rightarrow> obj_ref \<Rightarrow> string \<Rightarrow> 'a heap_scheme \<Rightarrow> (JSValue \<times> 'a heap_scheme) res" where
  "object_get_property_rec 0 call obj key s = Inl Diverge"
| "object_get_property_rec (Suc n) call obj key s =
     andThen (deref (h_objects s) obj)
       (\<lambda>ob. case dict_get (properties ob) key of
               Some prop \<Rightarrow>
                 (case dict_value (properties ob) prop of
                    JS_GS_BOX b \<Rightarrow> call_getter call obj b s
                  | v \<Rightarrow> Inr (v, s))
             | None \<Rightarrow>
                 (case prototype ob of
                    Some p \<Rightarrow> if p \<noteq> obj then object_get_property_rec n call p key s
                              else Inr (JS_UNDEFINED, s)
                  | None \<Rightarrow> Inr (JS_UNDEFINED, s)))"

definition object_get_property ::
    "'a heap_scheme caller \<Rightarrow> obj_ref \<Rightarrow> string \<Rightarrow> 'a heap_scheme \<Rightarrow> (JSValue \<times> 'a heap_scheme) res" where
  "object_get_property call obj key s =
     object_get_property_rec (Suc (length (h_objects s))) call obj key s"

primrec object_get_property_by_symbol_rec ::
    "nat \<Rightarrow> 'a heap_scheme caller \<Rightarrow> obj_ref \<Rightarrow> obj_ref \<Rightarrow> 'a heap_scheme \<Rightarrow> (JSValue \<times> 'a heap_scheme) res" where
  "object_get_property_by_symbol_rec 0 call obj symbol s = Inl Diverge"
| "object_get_property_by_symbol_rec (Suc n) call obj symbol s =
     andThen (deref (h_objects s) obj)
       (\<lambda>ob. case dict_get_by_symbol (properties ob) symbol of
               Some prop \<Rightarrow>
                 (case dict_value (properties ob) prop of
                    JS_GS_BOX b \<Rightarrow> call_getter call obj b s
                  | v \<Rightarrow> Inr (v, s))
             | None \<Rightarrow>
                 (case prototype ob of
                    Some p \<Rightarrow> if p \<noteq> obj then object_get_property_by_symbol_rec n call p symbol s
                              else Inr (JS_UNDEFINED, s)
                  | None \<Rightarrow> Inr (JS_UNDEFINED, s)))"

definition object_get_property_by_symbol ::
    "'a heap_scheme caller \<Rightarrow> obj_ref \<Rightarrow> obj_ref \<Rightarrow> 'a heap_scheme \<Rightarrow> (JSValue \<times> 'a heap_scheme) res" where
  "object_get_property_by_symbol call obj symbol s =
     object_get_property_by_symbol_rec (Suc (length (h_objects s))) call obj symbol s"

section \<open>The global prototypes\<close>

definition object_get_object_prototype :: "'a heap_scheme \<Rightarrow> obj_ref \<times> 'a heap_scheme" where
  "object_get_object_prototype s =
     (case object_prototype s of
        Some p \<Rightarrow> (p, s)
      | None \<Rightarrow>
          (case object_create_object None s of
             (p, s1) \<Rightarrow> (p, object_set_prototype p (Some p) (s1\<lparr>object_prototype := Some p\<rparr>))))"

definition object_get_array_prototype :: "'a heap_scheme \<Rightarrow> obj_ref \<times> 'a heap_scheme" where
  "object_get_array_prototype s =
     (case array_prototype s of
        Some p \<Rightarrow> (p, s)
      | None \<Rightarrow>
          (case object_get_object_prototype s of
             (q, s1) \<Rightarrow> (case object_create_object (Some q) s1 of
                           (p, s2) \<Rightarrow> (p, s2\<lparr>array_prototype := Some p\<rparr>))))"

definition object_get_function_prototype :: "'a heap_scheme \<Rightarrow> obj_ref \<times> 'a heap_scheme" where
  "object_get_function_prototype s =
     (case function_prototype s of
        Some p \<Rightarrow> (p, s)
      | None \<Rightarrow>
          (case object_get_object_prototype s of
             (q, s1) \<Rightarrow> (case object_create_object (Some q) s1 of
                           (p, s2) \<Rightarrow> (p, s2\<lparr>function_prototype := Some p\<rparr>))))"

definition object_get_symbol_prototype :: "'a heap_scheme \<Rightarrow> obj_ref \<times> 'a heap_scheme" where
  "object_get_symbol_prototype s =
     (case symbol_prototype s of
        Some p \<Rightarrow> (p, s)
      | None \<Rightarrow>
          (case object_get_object_prototype s of
             (q, s1) \<Rightarrow> (case object_create_object (Some q) s1 of
                           (p, s2) \<Rightarrow> (p, s2\<lparr>symbol_prototype := Some p\<rparr>))))"

section \<open>Arrays\<close>

text \<open>The loop of \<open>value_is_array\<close> from the pointer \<open>p\<close>.\<close>

primrec is_array_rec :: "nat \<Rightarrow> obj_ref \<Rightarrow> obj_ref \<Rightarrow> obj_ref option \<Rightarrow> 'a heap_scheme \<Rightarrow> bool res" where
  "is_array_rec 0 op ap p s = Inl Diverge"
| "is_array_rec (Suc n) op ap p s =
     (if p = Some op then Inr False
      else if p = Some ap then Inr True
      else andThen (ptr p) (\<lambda>a. andThen (deref (h_objects s) a) (\<lambda>ob. is_array_rec n op ap (prototype ob) s)))"

definition value_is_array :: "JSValue \<Rightarrow> 'a heap_scheme \<Rightarrow> (bool \<times> 'a heap_scheme) res" where
  "value_is_array v s =
     (case v of
        JS_OBJECT a \<Rightarrow>
          (case object_get_object_prototype s of
             (op, s1) \<Rightarrow>
               (case object_get_array_prototype s1 of
                  (ap, s2) \<Rightarrow>
                    andThen (deref (h_objects s2) a)
                      (\<lambda>ob. andThen (is_array_rec (length (h_objects s2) + 2) op ap (prototype ob) s2)
                         (\<lambda>r. Inr (r, s2)))))
      | _ \<Rightarrow> Inr (False, s))"

section \<open>Specification: property maps along the prototypes\<close>

definition own :: "'a heap_scheme \<Rightarrow> obj_ref \<Rightarrow> string \<Rightarrow> JSValue option" where
  "own s a = dict_map (properties (h_objects s ! a))"

definition own_symbol :: "'a heap_scheme \<Rightarrow> obj_ref \<Rightarrow> obj_ref \<Rightarrow> JSValue option" where
  "own_symbol s a = dict_symbols (properties (h_objects s ! a))"

definition proto_link :: "'a heap_scheme \<Rightarrow> obj_ref \<Rightarrow> nat option res" where
  "proto_link s a =
     andThen (deref (h_objects s) a)
       (\<lambda>ob. Inr (if prototype ob = Some a then None else prototype ob))"

abbreviation proto_chain :: "'a heap_scheme \<Rightarrow> obj_ref \<Rightarrow> obj_ref list \<Rightarrow> bool" where
  "proto_chain s \<equiv> linked (proto_link s)"

text \<open>What reading gives once the holder and the stored value are known.\<close>

definition resolve ::
    "'a heap_scheme caller \<Rightarrow> (obj_ref \<times> JSValue) option \<Rightarrow> 'a heap_scheme \<Rightarrow> (JSValue \<times> 'a heap_scheme) res" where
  "resolve call r s =
     (case r of
        None \<Rightarrow> Inr (JS_UNDEFINED, s)
      | Some (b, JS_GS_BOX g) \<Rightarrow> call_getter call b g s
      | Some (b, v) \<Rightarrow> Inr (v, s))"

definition proto_lookup :: "'a heap_scheme \<Rightarrow> obj_ref list \<Rightarrow> string \<Rightarrow> (obj_ref \<times> JSValue) option" where
  "proto_lookup s as key = first_hit (\<lambda>b. map_option (Pair b) (own s b key)) as"

definition proto_lookup_symbol ::
    "'a heap_scheme \<Rightarrow> obj_ref list \<Rightarrow> obj_ref \<Rightarrow> (obj_ref \<times> JSValue) option" where
  "proto_lookup_symbol s as symbol = first_hit (\<lambda>b. map_option (Pair b) (own_symbol s b symbol)) as"

lemma bounded_proto_links: "bounded_links (length (h_objects s)) (proto_link s)"
  by (auto simp: bounded_links_def proto_link_def res_simps)

lemma proto_walk:
  "proto_chain s a as \<Longrightarrow> walk (Suc (length (h_objects s))) (proto_link s) hit a = Inr (first_hit hit as)"
  by (rule walk_enough [OF _ bounded_proto_links])

lemma object_get_walk:
  "object_get_property_rec n call a key s =
     andThen (walk n (proto_link s) (\<lambda>b. map_option (Pair b) (own s b key)) a) (\<lambda>r. resolve call r s)"
proof (induction n arbitrary: a)
  case 0
  show ?case by simp
next
  case (Suc n)
  show ?case
    by (cases "deref (h_objects s) a")
      (auto simp: proto_link_def Suc.IH own_def dict_map_def deref_eq_Inr resolve_def
        split: option.splits JSValue.splits)
qed

lemma object_get_symbol_walk:
  "object_get_property_by_symbol_rec n call a symbol s =
     andThen (walk n (proto_link s) (\<lambda>b. map_option (Pair b) (own_symbol s b symbol)) a) (\<lambda>r. resolve call r s)"
proof (induction n arbitrary: a)
  case 0
  show ?case by simp
next
  case (Suc n)
  show ?case
    by (cases "deref (h_objects s) a")
      (auto simp: proto_link_def Suc.IH own_symbol_def dict_symbols_def deref_eq_Inr resolve_def
        split: option.splits JSValue.splits)
qed

lemma object_get_property_spec:
  "proto_chain s a as \<Longrightarrow> object_get_property call a key s = resolve call (proto_lookup s as key) s"
  unfolding object_get_property_def object_get_walk proto_lookup_def by (simp only: proto_walk andThen_Inr)

lemma object_get_property_by_symbol_spec:
  "proto_chain s a as \<Longrightarrow>
     object_get_property_by_symbol call a symbol s = resolve call (proto_lookup_symbol s as symbol) s"
  unfolding object_get_property_by_symbol_def object_get_symbol_walk proto_lookup_symbol_def
  by (simp only: proto_walk andThen_Inr)

text \<open>Writing an ordinary property, or a new one.\<close>

definition is_box :: "JSValue option \<Rightarrow> bool" where
  "is_box v = (case v of Some (JS_GS_BOX b) \<Rightarrow> True | _ \<Rightarrow> False)"

definition object_assign :: "obj_ref \<Rightarrow> string \<Rightarrow> JSValue \<Rightarrow> 'a heap_scheme \<Rightarrow> 'a heap_scheme" where
  "object_assign a key v s = object_write a (dict_put (properties (h_objects s ! a)) key v) s"

definition object_assign_symbol :: "obj_ref \<Rightarrow> obj_ref \<Rightarrow> JSValue \<Rightarrow> 'a heap_scheme \<Rightarrow> 'a heap_scheme" where
  "object_assign_symbol a symbol v s =
     object_write a (dict_put_symbol (properties (h_objects s ! a)) symbol v) s"

lemma object_set_property_eq:
  "object_set_property call a key v s =
     andThen (deref (h_objects s) a)
       (\<lambda>_. case own s a key of
              Some (JS_GS_BOX b) \<Rightarrow> call_setter call a b v s
            | _ \<Rightarrow> Inr (object_assign a key v s))"
  by (cases "deref (h_objects s) a")
    (auto simp: object_set_property_def object_assign_def own_def dict_map_def dict_put_def deref_eq_Inr
      split: option.splits JSValue.splits)

lemma object_set_property_with_symbol_eq:
  "object_set_property_with_symbol call a symbol v s =
     andThen (deref (h_objects s) a)
       (\<lambda>_. case own_symbol s a symbol of
              Some (JS_GS_BOX b) \<Rightarrow> call_setter call a b v s
            | _ \<Rightarrow> Inr (object_assign_symbol a symbol v s))"
  by (cases "deref (h_objects s) a")
    (auto simp: object_set_property_with_symbol_def object_assign_symbol_def own_symbol_def
      dict_symbols_def dict_put_symbol_def deref_eq_Inr split: option.splits JSValue.splits)

lemma object_set_property_plain:
  "a < length (h_objects s) \<Longrightarrow> \<not> is_box (own s a key) \<Longrightarrow>
     object_set_property call a key v s = Inr (object_assign a key v s)"
  by (auto simp: object_set_property_eq is_box_def split: option.splits JSValue.splits)

lemma object_set_symbol_plain:
  "a < length (h_objects s) \<Longrightarrow> \<not> is_box (own_symbol s a symbol) \<Longrightarrow>
     object_set_property_with_symbol call a symbol v s = Inr (object_assign_symbol a symbol v s)"
  by (auto simp: object_set_property_with_symbol_eq is_box_def split: option.splits JSValue.splits)

definition wf_objects :: "'a heap_scheme \<Rightarrow> bool" where
  "wf_objects s \<longleftrightarrow> list_all (\<lambda>ob. wf_dict (properties ob)) (h_objects s)"

lemma own_assign:
  assumes "wf_objects s" "a < length (h_objects s)"
  shows "own (object_assign a key v s) b = (if b = a then (own s a)(key \<mapsto> v) else own s b)"
proof -
  have "wf_dict (properties (h_objects s ! a))"
    using assms by (simp add: wf_objects_def list_all_length)
  then show ?thesis
    using assms(2)
    by (simp add: own_def object_assign_def object_write_def nth_update_if properties.lookup_put)
qed

lemma own_symbol_assign:
  assumes "wf_objects s" "a < length (h_objects s)"
  shows "own_symbol (object_assign_symbol a y v s) b =
    (if b = a then (own_symbol s a)(y \<mapsto> v) else own_symbol s b)"
proof -
  have "wf_dict (properties (h_objects s ! a))"
    using assms by (simp add: wf_objects_def list_all_length)
  then show ?thesis
    using assms(2)
    by (simp add: own_symbol_def object_assign_symbol_def object_write_def nth_update_if
        symbol_properties.lookup_put)
qed

lemma proto_link_write [simp]: "proto_link (object_write a d s) = proto_link s"
  by (rule ext) (simp add: proto_link_def object_write_def deref_update nth_update_if deref_def)

lemma wf_objects_assign: "wf_objects s \<Longrightarrow> wf_objects (object_assign a key v s)"
  by (cases "a < length (h_objects s)")
    (auto simp: wf_objects_def object_assign_def object_write_def list_all_length nth_update_if
      properties.invar_put)

lemma wf_objects_assign_symbol: "wf_objects s \<Longrightarrow> wf_objects (object_assign_symbol a y v s)"
  by (cases "a < length (h_objects s)")
    (auto simp: wf_objects_def object_assign_symbol_def object_write_def list_all_length nth_update_if
      symbol_properties.invar_put)

end
