(* ===== verification/Atomix_Scope.thy ===== *)
theory Atomix_Scope
  imports Atomix_Heap Atomix_Links
begin

text \<open>
  Scopes, \<open>core/scope.c\<close>: a dictionary of bindings and a pointer to the enclosing scope.
  \<open>scope_set\<close>, \<open>scope_get\<close> and \<open>scope_contains\<close> recurse along the parents; the counter of
  the model starts above the number of scopes, which \<open>Atomix_Links\<close> shows to be exact.

  The specification is the list of the binding maps from the scope outwards: reading takes
  the innermost binding, \<open>scope_set\<close> updates the innermost scope that binds the key and
  nothing else, \<open>scope_declare\<close> always updates the scope itself.
\<close>

section \<open>Operations\<close>

definition SCOPE_BUCKET_SIZE :: nat where
  "SCOPE_BUCKET_SIZE = 32"

definition scope_create_scope :: "scope_ref option \<Rightarrow> 'a heap_scheme \<Rightarrow> scope_ref \<times> 'a heap_scheme" where
  "scope_create_scope p s =
     (length (h_scopes s),
      s\<lparr>h_scopes := h_scopes s @ [\<lparr>parent = p, symbols = dict_create_dict SCOPE_BUCKET_SIZE\<rparr>]\<rparr>)"

definition scope_write :: "scope_ref \<Rightarrow> JSDict \<Rightarrow> 'a heap_scheme \<Rightarrow> 'a heap_scheme" where
  "scope_write a d s = s\<lparr>h_scopes := (h_scopes s)[a := (h_scopes s ! a)\<lparr>symbols := d\<rparr>]\<rparr>"

primrec scope_set_rec ::
    "nat \<Rightarrow> scope_ref \<Rightarrow> string \<Rightarrow> JSValue \<Rightarrow> 'a heap_scheme \<Rightarrow> (bool \<times> 'a heap_scheme) res" where
  "scope_set_rec 0 a key v s = Inl Diverge"
| "scope_set_rec (Suc n) a key v s =
     andThen (deref (h_scopes s) a)
       (\<lambda>sc. case dict_get (symbols sc) key of
               Some prop \<Rightarrow> Inr (True, scope_write a (dict_store (symbols sc) prop v) s)
             | None \<Rightarrow>
                 (case parent sc of
                    Some p \<Rightarrow> scope_set_rec n p key v s
                  | None \<Rightarrow> Inr (False, s)))"

definition scope_set ::
    "scope_ref \<Rightarrow> string \<Rightarrow> JSValue \<Rightarrow> 'a heap_scheme \<Rightarrow> (bool \<times> 'a heap_scheme) res" where
  "scope_set a key v s = scope_set_rec (Suc (length (h_scopes s))) a key v s"

definition scope_declare ::
    "scope_ref \<Rightarrow> string \<Rightarrow> JSValue \<Rightarrow> 'a heap_scheme \<Rightarrow> 'a heap_scheme res" where
  "scope_declare a key v s =
     andThen (deref (h_scopes s) a)
       (\<lambda>sc. case dict_get (symbols sc) key of
               Some prop \<Rightarrow> Inr (scope_write a (dict_store (symbols sc) prop v) s)
             | None \<Rightarrow> Inr (scope_write a (dict_add (symbols sc) key v) s))"

primrec scope_get_rec :: "nat \<Rightarrow> scope_ref \<Rightarrow> string \<Rightarrow> 'a heap_scheme \<Rightarrow> JSValue res" where
  "scope_get_rec 0 a key s = Inl Diverge"
| "scope_get_rec (Suc n) a key s =
     andThen (deref (h_scopes s) a)
       (\<lambda>sc. case dict_get (symbols sc) key of
               Some prop \<Rightarrow> Inr (dict_value (symbols sc) prop)
             | None \<Rightarrow>
                 (case parent sc of
                    Some p \<Rightarrow> scope_get_rec n p key s
                  | None \<Rightarrow> Inr JS_UNDEFINED))"

definition scope_get :: "scope_ref \<Rightarrow> string \<Rightarrow> 'a heap_scheme \<Rightarrow> JSValue res" where
  "scope_get a key s = scope_get_rec (Suc (length (h_scopes s))) a key s"

primrec scope_contains_rec ::
    "nat \<Rightarrow> scope_ref \<Rightarrow> string \<Rightarrow> bool \<Rightarrow> 'a heap_scheme \<Rightarrow> bool res" where
  "scope_contains_rec 0 a key parent_scopes s = Inl Diverge"
| "scope_contains_rec (Suc n) a key parent_scopes s =
     andThen (deref (h_scopes s) a)
       (\<lambda>sc. case dict_get (symbols sc) key of
               Some prop \<Rightarrow> Inr True
             | None \<Rightarrow>
                 (case parent sc of
                    Some p \<Rightarrow> if parent_scopes then scope_contains_rec n p key True s else Inr False
                  | None \<Rightarrow> Inr False))"

definition scope_contains :: "scope_ref \<Rightarrow> string \<Rightarrow> bool \<Rightarrow> 'a heap_scheme \<Rightarrow> bool res" where
  "scope_contains a key parent_scopes s =
     scope_contains_rec (Suc (length (h_scopes s))) a key parent_scopes s"

definition scope_delete :: "scope_ref \<Rightarrow> string \<Rightarrow> 'a heap_scheme \<Rightarrow> (bool \<times> 'a heap_scheme) res" where
  "scope_delete a key s =
     andThen (deref (h_scopes s) a)
       (\<lambda>sc. andThen (dict_delete (symbols sc) key)
          (\<lambda>(found, d). Inr (found, scope_write a d s)))"

section \<open>The specification: a list of binding maps\<close>

definition scope_link :: "'a heap_scheme \<Rightarrow> scope_ref \<Rightarrow> nat option res" where
  "scope_link s a = andThen (deref (h_scopes s) a) (\<lambda>sc. Inr (parent sc))"

definition bindings :: "'a heap_scheme \<Rightarrow> scope_ref \<Rightarrow> string \<Rightarrow> JSValue option" where
  "bindings s a = dict_map (symbols (h_scopes s ! a))"

abbreviation scope_chain :: "'a heap_scheme \<Rightarrow> scope_ref \<Rightarrow> scope_ref list \<Rightarrow> bool" where
  "scope_chain s \<equiv> linked (scope_link s)"

definition env_lookup :: "'a heap_scheme \<Rightarrow> scope_ref list \<Rightarrow> string \<Rightarrow> JSValue option" where
  "env_lookup s as key = first_hit (\<lambda>a. bindings s a key) as"

text \<open>The innermost scope that binds a key.\<close>

definition env_owner :: "'a heap_scheme \<Rightarrow> scope_ref list \<Rightarrow> string \<Rightarrow> scope_ref option" where
  "env_owner s as key = first_hit (\<lambda>a. if bindings s a key = None then None else Some a) as"

lemma bounded_scope_links: "bounded_links (length (h_scopes s)) (scope_link s)"
  by (auto simp: bounded_links_def scope_link_def res_simps)

lemma bindings_None: "bindings s a key = None \<longleftrightarrow> dict_get (symbols (h_scopes s ! a)) key = None"
  by (simp add: bindings_def dict_map_def)

lemma scope_get_walk:
  "scope_get_rec n a key s =
     andThen (walk n (scope_link s) (\<lambda>a. bindings s a key) a)
       (\<lambda>r. Inr (case r of Some v \<Rightarrow> v | None \<Rightarrow> JS_UNDEFINED))"
proof (induction n arbitrary: a)
  case 0
  show ?case by simp
next
  case (Suc n)
  show ?case
    by (cases "deref (h_scopes s) a")
      (auto simp: scope_link_def Suc.IH bindings_def dict_map_def deref_eq_Inr split: option.splits)
qed

lemma scope_contains_walk:
  "scope_contains_rec n a key True s =
     andThen (walk n (scope_link s) (\<lambda>a. bindings s a key) a) (\<lambda>r. Inr (r \<noteq> None))"
proof (induction n arbitrary: a)
  case 0
  show ?case by simp
next
  case (Suc n)
  show ?case
    by (cases "deref (h_scopes s) a")
      (auto simp: scope_link_def Suc.IH bindings_def dict_map_def deref_eq_Inr split: option.splits)
qed

definition scope_assign :: "scope_ref \<Rightarrow> string \<Rightarrow> JSValue \<Rightarrow> 'a heap_scheme \<Rightarrow> 'a heap_scheme" where
  "scope_assign a key v s = scope_write a (dict_put (symbols (h_scopes s ! a)) key v) s"

lemma scope_declare_eq:
  "scope_declare a key v s = andThen (deref (h_scopes s) a) (\<lambda>_. Inr (scope_assign a key v s))"
  by (cases "deref (h_scopes s) a")
    (auto simp: scope_declare_def scope_assign_def dict_put_def deref_eq_Inr split: option.splits)

lemma scope_set_walk:
  "scope_set_rec n a key v s =
     andThen (walk n (scope_link s) (\<lambda>a. if bindings s a key = None then None else Some a) a)
       (\<lambda>r. Inr (case r of Some b \<Rightarrow> (True, scope_assign b key v s) | None \<Rightarrow> (False, s)))"
proof (induction n arbitrary: a)
  case 0
  show ?case by simp
next
  case (Suc n)
  show ?case
    by (cases "deref (h_scopes s) a")
      (auto simp: scope_link_def Suc.IH bindings_None scope_assign_def dict_put_def deref_eq_Inr
        split: option.splits)
qed

section \<open>Functional behaviour\<close>

lemma scope_walk:
  "scope_chain s a as \<Longrightarrow>
     walk (Suc (length (h_scopes s))) (scope_link s) hit a = Inr (first_hit hit as)"
  by (rule walk_enough [OF _ bounded_scope_links])

lemma scope_get_spec:
  "scope_chain s a as \<Longrightarrow>
     scope_get a key s = Inr (case env_lookup s as key of Some v \<Rightarrow> v | None \<Rightarrow> JS_UNDEFINED)"
  unfolding scope_get_def scope_get_walk env_lookup_def by (simp only: scope_walk andThen_Inr)

lemma scope_contains_spec:
  "scope_chain s a as \<Longrightarrow> scope_contains a key True s = Inr (env_lookup s as key \<noteq> None)"
  unfolding scope_contains_def scope_contains_walk env_lookup_def by (simp only: scope_walk andThen_Inr)

lemma scope_set_spec:
  "scope_chain s a as \<Longrightarrow>
     scope_set a key v s =
       Inr (case env_owner s as key of Some b \<Rightarrow> (True, scope_assign b key v s) | None \<Rightarrow> (False, s))"
  unfolding scope_set_def scope_set_walk env_owner_def by (simp only: scope_walk andThen_Inr)

lemma scope_contains_local:
  "a < length (h_scopes s) \<Longrightarrow> scope_contains a key False s = Inr (bindings s a key \<noteq> None)"
  by (auto simp: scope_contains_def bindings_None split: option.splits)

text \<open>Well-formed scopes have well-formed tables.\<close>

definition wf_tables :: "'a heap_scheme \<Rightarrow> bool" where
  "wf_tables s \<longleftrightarrow> list_all (\<lambda>sc. wf_dict (symbols sc)) (h_scopes s)"

lemma bindings_assign:
  assumes "wf_tables s" "a < length (h_scopes s)"
  shows "bindings (scope_assign a key v s) b =
    (if b = a then (bindings s a)(key \<mapsto> v) else bindings s b)"
proof -
  have "wf_dict (symbols (h_scopes s ! a))"
    using assms by (simp add: wf_tables_def list_all_length)
  then show ?thesis
    using assms(2)
    by (simp add: bindings_def scope_assign_def scope_write_def nth_update_if properties.lookup_put)
qed

lemma scope_link_assign [simp]: "scope_link (scope_assign a key v s) = scope_link s"
  by (rule ext) (simp add: scope_link_def scope_assign_def scope_write_def deref_update nth_update_if deref_def)

lemma wf_tables_assign: "wf_tables s \<Longrightarrow> wf_tables (scope_assign a key v s)"
  by (cases "a < length (h_scopes s)")
    (auto simp: wf_tables_def scope_assign_def scope_write_def list_all_length nth_update_if
      properties.invar_put)

end
