(* ===== verification/Atomix_Function.thy ===== *)
theory Atomix_Function
  imports Atomix_Object Atomix_Scope
begin

text \<open>
  Creation of functions and symbols: \<open>core/function.c\<close> and \<open>core/symbol.c\<close>. Every function
  carries a base object whose property \<open>prototype\<close> is a fresh object that points back
  through \<open>constructor\<close>. \<open>function.c\<close> passes a null VM to \<open>object_set_property\<close>; the objects
  are fresh, so the setter branch that would use it is not reached.
\<close>

definition null_vm :: "'a heap_scheme caller" where
  "null_vm f this args s = Inl (Fault Null_Deref)"

text \<open>The last lines of both constructors: the prototype object and its two links.\<close>

definition function_link_prototype :: "func_ref \<Rightarrow> obj_ref \<Rightarrow> 'a heap_scheme \<Rightarrow> 'a heap_scheme res" where
  "function_link_prototype f b s =
     (case object_get_object_prototype s of
        (op, s1) \<Rightarrow>
          (case object_create_object (Some op) s1 of
             (p, s2) \<Rightarrow>
               andThen (object_set_property null_vm p ''constructor'' (JS_FUNC f) s2)
                 (\<lambda>s3. object_set_property null_vm b ''prototype'' (JS_OBJECT p) s3)))"

definition function_create_native_function :: "native \<Rightarrow> 'a heap_scheme \<Rightarrow> (func_ref \<times> 'a heap_scheme) res" where
  "function_create_native_function function_ptr s =
     (let f = length (h_functions s)
      in case object_get_object_prototype s of
           (op, s1) \<Rightarrow>
             (case object_create_object (Some op) s1 of
                (b, s2) \<Rightarrow>
                  (let function =
                         \<lparr>base = b, native_function = Some function_ptr, function_scope = None,
                          function_module = None, instruction_start = 0, instruction_end = 0,
                          is_native = True\<rparr>
                   in andThen (function_link_prototype f b (s2\<lparr>h_functions := h_functions s2 @ [function]\<rparr>))
                        (\<lambda>s3. Inr (f, s3)))))"

definition function_create_function ::
    "scope_ref option \<Rightarrow> module_ref \<Rightarrow> nat \<Rightarrow> nat \<Rightarrow> 'a heap_scheme \<Rightarrow> (func_ref \<times> 'a heap_scheme) res" where
  "function_create_function parentScope m istart iend s =
     (let f = length (h_functions s)
      in case scope_create_scope parentScope s of
           (sc, s1) \<Rightarrow>
             (case object_get_function_prototype s1 of
                (fp, s2) \<Rightarrow>
                  (case object_create_object (Some fp) s2 of
                     (b, s3) \<Rightarrow>
                       (let function =
                              \<lparr>base = b, native_function = None, function_scope = Some sc,
                               function_module = Some m, instruction_start = istart,
                               instruction_end = iend, is_native = False\<rparr>
                        in andThen (function_link_prototype f b (s3\<lparr>h_functions := h_functions s3 @ [function]\<rparr>))
                             (\<lambda>s4. Inr (f, s4))))))"

definition createSymbol :: "'a heap_scheme caller \<Rightarrow> string \<Rightarrow> 'a heap_scheme \<Rightarrow> (obj_ref \<times> 'a heap_scheme) res" where
  "createSymbol call description s =
     (case object_get_symbol_prototype s of
        (sp, s1) \<Rightarrow>
          (case object_create_object (Some sp) s1 of
             (a, s2) \<Rightarrow>
               andThen (object_set_property call a ''description'' (JS_STRING description) s2)
                 (\<lambda>s3. Inr (a, s3))))"

definition symbol_to_primitive :: "'a heap_scheme caller \<Rightarrow> 'a heap_scheme \<Rightarrow> (JSValue \<times> 'a heap_scheme) res" where
  "symbol_to_primitive call s =
     (case to_primitive_symbol s of
        Some a \<Rightarrow> Inr (JS_SYMBOL a, s)
      | None \<Rightarrow>
          andThen (createSymbol call ''Symbol.toPrimitive'' s)
            (\<lambda>(a, s1). Inr (JS_SYMBOL a, s1\<lparr>to_primitive_symbol := Some a\<rparr>)))"

end
