(* ===== verification/Atomix_Loader.thy ===== *)
theory Atomix_Loader
  imports Atomix_Format Atomix_Function
begin

text \<open>
  The loader of \<open>core/loader.c\<close>: little-endian reads at a position of a byte buffer, the
  string table, the instructions, modules and bundles. The buffer is the list of its bytes;
  the code does not know its length, so a read past the end is a fault. \<open>buff + k\<close> is the
  same buffer with positions counted from \<open>k\<close>. The file system is a parameter of the three
  functions that open a file.
\<close>

section \<open>Reading numbers\<close>

text \<open>The disjunction of \<open>buff[position - offset] << shift\<close> over the given pairs.\<close>

fun read_blocks :: "u8 list \<Rightarrow> nat \<Rightarrow> (nat \<times> nat) list \<Rightarrow> 'w::len word res" where
  "read_blocks buff position [] = Inr 0"
| "read_blocks buff position ((offset, shift) # blocks) =
     andThen (array_at buff (position - offset))
       (\<lambda>b. andThen (read_blocks buff position blocks) (\<lambda>w. Inr (or (push_bit shift (ucast b)) w)))"

definition READ_U16 :: "u8 list \<Rightarrow> nat \<Rightarrow> (u16 \<times> nat) res" where
  "READ_U16 buff p =
     (let position = p + 2
      in andThen (read_blocks buff position [(1, 8), (2, 0)]) (\<lambda>w. Inr (ucast (w :: u32), position)))"

definition READ_U32 :: "u8 list \<Rightarrow> nat \<Rightarrow> (u32 \<times> nat) res" where
  "READ_U32 buff p =
     (let position = p + 4
      in andThen (read_blocks buff position [(1, 24), (2, 16), (3, 8), (4, 0)])
           (\<lambda>w. Inr (w, position)))"

definition READ_I32 :: "u8 list \<Rightarrow> nat \<Rightarrow> (i32 \<times> nat) res" where
  "READ_I32 buff p =
     (let position = p + 4
      in andThen (read_blocks buff position [(1, 24), (2, 16), (3, 8), (4, 0)])
           (\<lambda>w. Inr (w, position)))"

definition READ_U64 :: "u8 list \<Rightarrow> nat \<Rightarrow> (u64 \<times> nat) res" where
  "READ_U64 buff p =
     (let position = p + 8
      in andThen (read_blocks buff position
                   [(1, 56), (2, 48), (3, 40), (4, 32), (5, 24), (6, 16), (7, 8), (8, 0)])
           (\<lambda>w. Inr (w, position)))"

text \<open>\<open>memcpy\<close> into a number on a little-endian machine.\<close>

definition host_number :: "u8 list \<Rightarrow> nat" where
  "host_number bs = foldr (\<lambda>b n. unat b + 256 * n) bs 0"

definition READ_DOUBLE :: "u8 list \<Rightarrow> nat \<Rightarrow> (f64 \<times> nat) res" where
  "READ_DOUBLE buff position =
     andThen (bytes_at buff position 8) (\<lambda>bs. Inr (word_of_nat (host_number bs), position + 8))"

section \<open>The sections of a module\<close>

fun host_u32s :: "nat \<Rightarrow> u8 list \<Rightarrow> u32 list" where
  "host_u32s 0 bs = []"
| "host_u32s (Suc n) bs = word_of_nat (host_number (take 4 bs)) # host_u32s n (drop 4 bs)"

text \<open>The size of the strings is computed in \<open>size_t\<close>. When the declared length is too short for the
  offsets it wraps around to almost \<open>2 ^ 64\<close>, \<open>GC_malloc\<close> has no such block and answers NULL, which
  is not checked, and \<open>memcpy\<close> writes through it.\<close>

definition load_string_table :: "u8 list \<Rightarrow> nat \<Rightarrow> StringTable res" where
  "load_string_table buff start =
     andThen (READ_U32 buff start) (\<lambda>(len, position).
     andThen (READ_U32 buff position) (\<lambda>(count, position).
     andThen (bytes_at buff position (unat count * 4)) (\<lambda>offs.
       if unat len < unat count * 4 + 8 then Inl (Fault Null_Deref)
       else
         andThen (bytes_at buff (position + unat count * 4) (unat len - unat count * 4 - 8))
           (\<lambda>strs. Inr \<lparr>st_length = len, st_count = count,
                         st_offsets = host_u32s (unat count) offs, st_strings = strs\<rparr>))))"

text \<open>The three groups of cases of the switch in \<open>load_instruction\<close> that share a body.\<close>

definition plain_opcodes :: "Opcode list" where
  "plain_opcodes =
     [OP_LD_THIS, OP_ADD, OP_MINUS, OP_MUL, OP_DIV, OP_MOD, OP_BINARY_AND, OP_BINARY_OR,
      OP_BINARY_XOR, OP_BINARY_LSHFT, OP_BINARY_RSHFT, OP_BINARY_ZRSHFT, OP_BINARY_NOT, OP_NOT,
      OP_NEGATE, OP_TYPEOF, OP_TEQ, OP_NTEQ, OP_GT, OP_GEQ, OP_LT, OP_LEQ, OP_POP, OP_DUP,
      OP_SWAP, OP_LD_UNDF, OP_LD_NULL, OP_LD_TRUE, OP_LD_FALSE, OP_ARR_ALLOC, OP_OBJ_ALLOC,
      OP_OBJ_CLOAD, OP_OBJ_CSTORE, OP_RETURN, OP_PUSH_SCOPE, OP_POP_SCOPE]"

definition u16_opcodes :: "Opcode list" where
  "u16_opcodes =
     [OP_LD_STRING, OP_ALLOC_LOCAL, OP_STORE_LOCAL, OP_LOAD_LOCAL, OP_LOAD_ARG, OP_FUNC_DECL_E,
      OP_CALL, OP_OBJ_STORE, OP_OBJ_LOAD, OP_JMP, OP_JMP_F, OP_JMP_T, OP_EXPORT]"

definition opcode_of_byte :: "u8 \<Rightarrow> Opcode option" where
  "opcode_of_byte b = (if unat b < length opcodes then Some (opcodes ! unat b) else None)"

definition load_instruction :: "u8 list \<Rightarrow> nat \<Rightarrow> (inst_ptr \<times> nat) res" where
  "load_instruction buff start =
     andThen (array_at buff start) (\<lambda>byte.
       let position = start + 1
       in case opcode_of_byte byte of
            None \<Rightarrow> Inr (None, position)
          | Some oc \<Rightarrow>
              if oc = OP_NOP then Inr (None, position)
              else if oc = OP_LD_INT then
                andThen (READ_I32 buff position) (\<lambda>(x, p). Inr (Some (InstInt32 oc x), p))
              else if oc = OP_LD_DOUBLE then
                andThen (READ_DOUBLE buff position) (\<lambda>(x, p). Inr (Some (InstDouble oc x), p))
              else if oc \<in> set plain_opcodes then Inr (Some (Inst oc), position)
              else if oc \<in> set u16_opcodes then
                andThen (READ_U16 buff position) (\<lambda>(x, p). Inr (Some (InstUInt16 oc x), p))
              else
                andThen (READ_U16 buff position) (\<lambda>(x, p).
                andThen (READ_U16 buff p) (\<lambda>(y, p'). Inr (Some (Inst2UInt16 oc x y), p'))))"

primrec load_instructions :: "nat \<Rightarrow> u8 list \<Rightarrow> nat \<Rightarrow> inst_ptr list res" where
  "load_instructions 0 buff position = Inr []"
| "load_instructions (Suc n) buff position =
     andThen (load_instruction buff position)
       (\<lambda>(i, p). andThen (load_instructions n buff p) (\<lambda>is. Inr (i # is)))"

definition load_data_section :: "u8 list \<Rightarrow> nat \<Rightarrow> DataSection res" where
  "load_data_section buff start =
     andThen (READ_U32 buff start) (\<lambda>(len, position).
     andThen (READ_U32 buff position) (\<lambda>(count, position).
     andThen (load_instructions (unat count) buff position)
       (\<lambda>is. Inr \<lparr>ds_length = len, ds_count = count, instructions = is\<rparr>)))"

section \<open>Modules and bundles\<close>

definition MODULE_MAGIC :: "u8 list" where
  "MODULE_MAGIC = [0x2E, 0x41, 0x78, 0x4D]"

definition MODULE_VERSION :: u16 where
  "MODULE_VERSION = 2"

definition BUNDLE_MAGIC :: "u8 list" where
  "BUNDLE_MAGIC = [0x2E, 0x41, 0x78, 0x42]"

definition BUNDLE_VERSION :: u16 where
  "BUNDLE_VERSION = 1"

definition module_load_from_buffer_offset ::
    "u8 list \<Rightarrow> module_ref \<Rightarrow> nat \<Rightarrow> 'a heap_scheme \<Rightarrow> (nat \<times> 'a heap_scheme) res" where
  "module_load_from_buffer_offset buff m pos s =
     andThen (bytes_at buff pos 4) (\<lambda>mg.
     andThen (guard (mg = MODULE_MAGIC) (Panic ''Invalid magic number'')) (\<lambda>_.
     andThen (READ_U16 buff (pos + 4)) (\<lambda>(ver, position).
     andThen (guard (ver = MODULE_VERSION) (Panic ''Invalid VM Version'')) (\<lambda>_.
     andThen (READ_U64 buff position) (\<lambda>(h, position).
     andThen (READ_U32 buff position) (\<lambda>(st_pos, position).
     andThen (READ_U32 buff position) (\<lambda>(ds_pos, position).
     andThen (load_string_table buff (unat st_pos + pos)) (\<lambda>st.
     andThen (load_data_section buff (unat ds_pos + pos)) (\<lambda>ds.
       case object_get_object_prototype s of
         (op, s1) \<Rightarrow>
           (case object_create_object (Some op) s1 of
              (ex, s2) \<Rightarrow>
                (case scope_create_scope None s2 of
                   (sc, s3) \<Rightarrow>
                     Inr (position,
                          s3\<lparr>h_modules := (h_modules s3)
                             [m := \<lparr>module_bundle = None, magic = mg, version = ver, hash = h,
                                     string_table_pos = st_pos, data_section_pos = ds_pos,
                                     string_table = st, data_section = ds, initialized = False,
                                     exports = Some ex, module_scope = Some sc\<rparr>]\<rparr>))))))))))))"

definition module_load_from_buffer :: "u8 list \<Rightarrow> module_ref \<Rightarrow> 'a heap_scheme \<Rightarrow> 'a heap_scheme res" where
  "module_load_from_buffer buff m s =
     andThen (module_load_from_buffer_offset buff m 0 s) (\<lambda>(pos, s'). Inr s')"

text \<open>A module struct as \<open>GC_malloc\<close> returns it: all bytes zero.\<close>

definition zero_module :: JSModule where
  "zero_module =
     \<lparr>module_bundle = None, magic = [0, 0, 0, 0], version = 0, hash = 0, string_table_pos = 0,
      data_section_pos = 0,
      string_table = \<lparr>st_length = 0, st_count = 0, st_offsets = [], st_strings = []\<rparr>,
      data_section = \<lparr>ds_length = 0, ds_count = 0, instructions = []\<rparr>,
      initialized = False, exports = None, module_scope = None\<rparr>"

definition set_module_bundle :: "bundle_ref \<Rightarrow> module_ref \<Rightarrow> 'a heap_scheme \<Rightarrow> 'a heap_scheme" where
  "set_module_bundle b m s =
     s\<lparr>h_modules := (h_modules s)[m := (h_modules s ! m)\<lparr>module_bundle := Some b\<rparr>]\<rparr>"

text \<open>The loop of \<open>bundle_load_from_buffer\<close> over the addresses of the modules.\<close>

fun load_bundle_modules ::
    "u8 list \<Rightarrow> bundle_ref \<Rightarrow> module_ref list \<Rightarrow> nat \<Rightarrow> 'a heap_scheme \<Rightarrow> 'a heap_scheme res" where
  "load_bundle_modules buff b [] position s = Inr s"
| "load_bundle_modules buff b (m # ms) position s =
     andThen (module_load_from_buffer_offset buff m position s)
       (\<lambda>(position', s'). load_bundle_modules buff b ms position' (set_module_bundle b m s'))"

definition bundle_load_from_buffer :: "u8 list \<Rightarrow> bundle_ref \<Rightarrow> 'a heap_scheme \<Rightarrow> 'a heap_scheme res" where
  "bundle_load_from_buffer buff b s =
     andThen (bytes_at buff 0 4) (\<lambda>mg.
     andThen (guard (mg = BUNDLE_MAGIC) (Panic ''Invalid magic number'')) (\<lambda>_.
     andThen (READ_U16 buff 4) (\<lambda>(ver, position).
     andThen (guard (ver = BUNDLE_VERSION) (Panic ''Invalid VM Version'')) (\<lambda>_.
     andThen (READ_U64 buff position) (\<lambda>(entry, position).
     andThen (READ_U16 buff position) (\<lambda>(count, position).
       let ms = [length (h_modules s) ..< length (h_modules s) + unat count];
           bun = \<lparr>bundle_magic = mg, bundle_version = ver, entryPoint = entry,
                   moduleCount = count, bundle_modules = ms\<rparr>
       in load_bundle_modules buff b ms position
            (s\<lparr>h_modules := h_modules s @ replicate (unat count) zero_module,
               h_bundles := (h_bundles s)[b := bun]\<rparr>)))))))"

datatype LoadResult = LOAD_BUNDLE | LOAD_MODULE

text \<open>The conjunction stops at the first byte that differs.\<close>

fun has_magic :: "u8 list \<Rightarrow> nat \<Rightarrow> u8 list \<Rightarrow> bool res" where
  "has_magic buff i [] = Inr True"
| "has_magic buff i (b # bs) =
     andThen (array_at buff i) (\<lambda>x. if x = b then has_magic buff (Suc i) bs else Inr False)"

definition unknown_load_from_buffer ::
    "u8 list \<Rightarrow> module_ref \<Rightarrow> bundle_ref \<Rightarrow> 'a heap_scheme \<Rightarrow> (LoadResult \<times> 'a heap_scheme) res" where
  "unknown_load_from_buffer buff m b s =
     andThen (has_magic buff 0 MODULE_MAGIC)
       (\<lambda>is_module.
          if is_module
          then andThen (module_load_from_buffer buff m s) (\<lambda>s'. Inr (LOAD_MODULE, s'))
          else andThen (bundle_load_from_buffer buff b s) (\<lambda>s'. Inr (LOAD_BUNDLE, s')))"

section \<open>Files\<close>

type_synonym file_system = "string \<Rightarrow> u8 list option"

definition loader_read_file :: "file_system \<Rightarrow> string \<Rightarrow> u8 list res" where
  "loader_read_file files filename =
     (case files filename of
        None \<Rightarrow> Inl (Panic ''Could not open file'')
      | Some buffer \<Rightarrow> Inr buffer)"

definition module_load_from_file ::
    "file_system \<Rightarrow> string \<Rightarrow> module_ref \<Rightarrow> 'a heap_scheme \<Rightarrow> 'a heap_scheme res" where
  "module_load_from_file files filename m s =
     andThen (loader_read_file files filename) (\<lambda>buffer. module_load_from_buffer buffer m s)"

definition bundle_load_from_file ::
    "file_system \<Rightarrow> string \<Rightarrow> bundle_ref \<Rightarrow> 'a heap_scheme \<Rightarrow> 'a heap_scheme res" where
  "bundle_load_from_file files filename b s =
     andThen (loader_read_file files filename) (\<lambda>buffer. bundle_load_from_buffer buffer b s)"

definition unknown_load_from_file ::
    "file_system \<Rightarrow> string \<Rightarrow> module_ref \<Rightarrow> bundle_ref \<Rightarrow> 'a heap_scheme \<Rightarrow> (LoadResult \<times> 'a heap_scheme) res" where
  "unknown_load_from_file files filename m b s =
     andThen (loader_read_file files filename) (\<lambda>buffer. unknown_load_from_buffer buffer m b s)"

end
