(* ===== verification/Atomix_Machine.thy ===== *)
theory Atomix_Machine
  imports Atomix_Format Atomix_Function
begin

text \<open>
  The machine, \<open>core/vm.impl.h\<close>: the heap extended by the fields of \<open>struct VM\<close>, the operand
  stack and its primitive accesses.

  The stack is an array of \<open>STACK_SIZE\<close> values inside \<open>VMStats\<close>, so copying the struct copies
  the stack. A slot that was never written is \<open>None\<close>; reading it is a fault, and so is any
  access outside the array. An index computed as \<open>stack_counter - k\<close> wraps in C when
  \<open>k > stack_counter\<close>, far outside the array, so that is a fault too. The field \<open>inst_set\<close> is
  the function table of \<open>Atomix_Engine\<close>; \<open>scope\<close> is not set by \<open>vm_init\<close>, hence an option.
\<close>

section \<open>State\<close>

definition STACK_SIZE :: nat where
  "STACK_SIZE = 254"

record VMStats =
  instruction_counter :: nat
  stack_counter :: nat
  stack_start :: nat
  stack :: "JSValue option list"

record VM = heap +
  vm_module :: module_ref
  globalScope :: scope_ref
  vm_scope :: "scope_ref option"
  stats :: VMStats

abbreviation sp :: "VM \<Rightarrow> nat" where
  "sp vm \<equiv> stack_counter (stats vm)"

abbreviation ic :: "VM \<Rightarrow> nat" where
  "ic vm \<equiv> instruction_counter (stats vm)"

definition set_sp :: "nat \<Rightarrow> VM \<Rightarrow> VM" where
  "set_sp n vm = vm\<lparr>stats := (stats vm)\<lparr>stack_counter := n\<rparr>\<rparr>"

definition set_ic :: "nat \<Rightarrow> VM \<Rightarrow> VM" where
  "set_ic n vm = vm\<lparr>stats := (stats vm)\<lparr>instruction_counter := n\<rparr>\<rparr>"

section \<open>The operand stack\<close>

definition stack_read :: "nat \<Rightarrow> VM \<Rightarrow> JSValue res" where
  "stack_read i vm =
     andThen (array_at (stack (stats vm)) i)
       (\<lambda>slot. case slot of None \<Rightarrow> Inl (Fault Uninitialised) | Some v \<Rightarrow> Inr v)"

definition stack_write :: "nat \<Rightarrow> JSValue \<Rightarrow> VM \<Rightarrow> VM res" where
  "stack_write i v vm =
     (if i < length (stack (stats vm))
      then Inr (vm\<lparr>stats := (stats vm)\<lparr>stack := (stack (stats vm))[i := Some v]\<rparr>\<rparr>)
      else Inl (Fault Out_Of_Bounds))"

text \<open>\<open>stack[stack_counter - k]\<close>\<close>

definition peek :: "nat \<Rightarrow> VM \<Rightarrow> JSValue res" where
  "peek k vm = (if k \<le> sp vm then stack_read (sp vm - k) vm else Inl (Fault Out_Of_Bounds))"

definition poke :: "nat \<Rightarrow> JSValue \<Rightarrow> VM \<Rightarrow> VM res" where
  "poke k v vm = (if k \<le> sp vm then stack_write (sp vm - k) v vm else Inl (Fault Out_Of_Bounds))"

text \<open>\<open>stack[stack_counter++] = v\<close>, without a bounds check.\<close>

definition push :: "JSValue \<Rightarrow> VM \<Rightarrow> VM res" where
  "push v vm = andThen (stack_write (sp vm) v vm) (\<lambda>vm'. Inr (set_sp (Suc (sp vm)) vm'))"

text \<open>\<open>v = stack[--stack_counter]\<close>, without a check.\<close>

definition pop :: "VM \<Rightarrow> (JSValue \<times> VM) res" where
  "pop vm = andThen (peek 1 vm) (\<lambda>v. Inr (v, set_sp (sp vm - 1) vm))"

definition check_overflow :: "VM \<Rightarrow> unit res" where
  "check_overflow vm = guard (sp vm < STACK_SIZE) (Panic ''Stack overflow'')"

definition check_underflow :: "nat \<Rightarrow> VM \<Rightarrow> unit res" where
  "check_underflow n vm = guard (n \<le> sp vm) (Panic ''Stack underflow'')"

text \<open>\<open>vm->module\<close> and its string table.\<close>

definition current_module :: "VM \<Rightarrow> JSModule res" where
  "current_module vm = deref (h_modules vm) (vm_module vm)"

definition load_str :: "nat \<Rightarrow> VM \<Rightarrow> string res" where
  "load_str idx vm =
     andThen (current_module vm) (\<lambda>m. string_table_load_str (string_table m) (word_of_nat idx))"

text \<open>The abstract stack: the values below the stack counter, top first.\<close>

definition stack_list :: "VM \<Rightarrow> JSValue option list" where
  "stack_list vm = rev (take (sp vm) (stack (stats vm)))"

definition wf_stack :: "VM \<Rightarrow> bool" where
  "wf_stack vm \<longleftrightarrow>
     length (stack (stats vm)) = STACK_SIZE \<and> sp vm \<le> STACK_SIZE \<and>
     stack_start (stats vm) \<le> STACK_SIZE \<and>
     (\<forall>i < sp vm. stack (stats vm) ! i \<noteq> None) \<and>
     (\<forall>i < stack_start (stats vm). stack (stats vm) ! i \<noteq> None)"

section \<open>Two operands, one result\<close>

text \<open>
  The binary instructions share their frame: check for two operands, read them, and store a
  result. Most decrease the counter first and overwrite the left operand (\<open>Replace_Both\<close>); the
  arithmetic instructions return early in some cases and overwrite only the top
  (\<open>Replace_Top\<close>), with both operands still counted.
\<close>

datatype binary_result = Replace_Both JSValue | Replace_Top JSValue

definition binary_inst :: "(JSValue \<Rightarrow> JSValue \<Rightarrow> binary_result res) \<Rightarrow> VM \<Rightarrow> inst_ptr \<Rightarrow> VM res" where
  "binary_inst f vm p =
     andThen (check_underflow 2 vm) (\<lambda>_.
     andThen (peek 2 vm) (\<lambda>left.
     andThen (peek 1 vm) (\<lambda>right.
     andThen (f left right) (\<lambda>r.
       case r of
         Replace_Both v \<Rightarrow> poke 1 v (set_sp (sp vm - 1) vm)
       | Replace_Top v \<Rightarrow> poke 1 v vm))))"

definition unary_inst :: "(JSValue \<Rightarrow> JSValue res) \<Rightarrow> VM \<Rightarrow> inst_ptr \<Rightarrow> VM res" where
  "unary_inst f vm p =
     andThen (check_underflow 1 vm) (\<lambda>_.
     andThen (peek 1 vm) (\<lambda>right.
     andThen (f right) (\<lambda>v. poke 1 v vm)))"

end
