(* ===== verification/Atomix_Arith.thy ===== *)
theory Atomix_Arith
  imports Atomix_Machine
begin

text \<open>
  The operators of \<open>core/execution.c\<close> that look at values only: arithmetic, bit operations,
  shifts, negation, \<open>typeof\<close> and comparisons. Each instruction is the frame \<open>binary_inst\<close> or
  \<open>unary_inst\<close> around the function from operands to result that its body computes. Signed
  overflow, shifts and conversions outside the range C defines are faults.
\<close>

section \<open>Operands\<close>

text \<open>\<open>type = JS_INTEGER\<close> for booleans and null; the stored integer stays.\<close>

fun to_integer :: "JSValue \<Rightarrow> JSValue" where
  "to_integer (JS_BOOLEAN i) = JS_INTEGER i"
| "to_integer JS_NULL = JS_INTEGER 0"
| "to_integer v = v"

text \<open>\<open>type == JS_DOUBLE ? as_double : (double)as_int\<close>\<close>

fun to_double :: "JSValue \<Rightarrow> f64 res" where
  "to_double (JS_DOUBLE d) = Inr d"
| "to_double v = andThen (as_int v) (\<lambda>i. Inr (f64_of_i32 i))"

text \<open>\<open>type == JS_DOUBLE ? (int)as_double : as_int\<close>\<close>

fun to_int :: "JSValue \<Rightarrow> i32 res" where
  "to_int (JS_DOUBLE d) = f64_to_int d"
| "to_int v = as_int v"

definition is_numeric :: "JSValue \<Rightarrow> bool" where
  "is_numeric v \<longleftrightarrow> is_js_integer v \<or> is_js_double v"

text \<open>\<open>r == (int)r ? JS_VALUE_INT((int)r) : JS_VALUE_DOUBLE(r)\<close>\<close>

definition narrow :: "f64 \<Rightarrow> JSValue res" where
  "narrow r = andThen (f64_to_int r) (\<lambda>i. Inr (if f64_eq r (f64_of_i32 i) then JS_INTEGER i else JS_DOUBLE r))"

definition both :: "JSValue res \<Rightarrow> binary_result res" where
  "both r = andThen r (\<lambda>v. Inr (Replace_Both v))"

section \<open>Arithmetic\<close>

definition add_values :: "JSValue \<Rightarrow> JSValue \<Rightarrow> binary_result res" where
  "add_values left right =
     (if left = JS_UNDEFINED \<or> right = JS_UNDEFINED then Inr (Replace_Top (JS_DOUBLE JS_NaN))
      else
        let left = to_integer left; right = to_integer right
        in if is_js_integer left \<and> is_js_integer right then
             both (andThen (as_int left) (\<lambda>l. andThen (as_int right) (\<lambda>r.
               andThen (i32_result (sint l + sint r)) (\<lambda>i. Inr (JS_INTEGER i)))))
           else if is_js_double left \<or> is_js_double right then
             both (andThen (to_double left) (\<lambda>l. andThen (to_double right) (\<lambda>r.
               Inr (JS_DOUBLE (f64_add l r)))))
           else Inl (Panic ''Unsupported operation''))"

definition minus_values :: "JSValue \<Rightarrow> JSValue \<Rightarrow> binary_result res" where
  "minus_values left right =
     (if is_not_number left \<or> is_not_number right then Inr (Replace_Top (JS_DOUBLE JS_NaN))
      else
        let left = to_integer left; right = to_integer right
        in if is_js_integer left \<and> is_js_integer right then
             both (andThen (as_int left) (\<lambda>l. andThen (as_int right) (\<lambda>r.
               andThen (i32_result (sint l - sint r)) (\<lambda>i. Inr (JS_INTEGER i)))))
           else if is_js_double left \<or> is_js_double right then
             both (andThen (to_double left) (\<lambda>l. andThen (to_double right) (\<lambda>r.
               Inr (JS_DOUBLE (f64_sub l r)))))
           else Inl (Panic ''Unsupported operation''))"

definition mul_values :: "JSValue \<Rightarrow> JSValue \<Rightarrow> binary_result res" where
  "mul_values left right =
     (if is_not_number left \<or> is_not_number right then Inr (Replace_Top (JS_DOUBLE JS_NaN))
      else
        let left = to_integer left; right = to_integer right
        in if is_js_integer left \<and> is_js_integer right then
             both (andThen (as_int left) (\<lambda>l. andThen (as_int right) (\<lambda>r.
               andThen (i32_result (sint l * sint r)) (\<lambda>i. Inr (JS_INTEGER i)))))
           else if is_js_double left \<or> is_js_double right then
             both (andThen (to_double left) (\<lambda>l. andThen (to_double right) (\<lambda>r.
               narrow (f64_mul l r))))
           else Inl (Panic ''Unsupported operation''))"

text \<open>\<open>DIV\<close> turns integers and booleans (on the left also null) into doubles.\<close>

fun div_operand :: "JSValue \<Rightarrow> JSValue" where
  "div_operand (JS_INTEGER i) = JS_DOUBLE (f64_of_i32 i)"
| "div_operand (JS_BOOLEAN i) = JS_DOUBLE (f64_of_i32 i)"
| "div_operand v = v"

definition div_doubles :: "f64 \<Rightarrow> f64 \<Rightarrow> JSValue res" where
  "div_doubles l r =
     (let zero = f64_of_int 0
      in if f64_eq r zero \<and> f64_eq l zero then Inr (JS_DOUBLE JS_NaN)
         else if f64_eq r zero then
           Inr (JS_DOUBLE (if f64_less zero l then JS_POS_INFINITY else JS_NEG_INFINITY))
         else narrow (f64_div l r))"

definition div_values :: "JSValue \<Rightarrow> JSValue \<Rightarrow> binary_result res" where
  "div_values left right =
     (if is_not_number left \<or> is_not_number right \<or> right = JS_NULL
      then Inr (Replace_Top (JS_DOUBLE JS_NaN))
      else
        let left = (if left = JS_NULL then JS_DOUBLE (f64_of_int 0) else div_operand left);
            right = div_operand right
        in if is_js_double left \<or> is_js_double right then
             both (andThen (to_double left) (\<lambda>l. andThen (to_double right) (\<lambda>r. div_doubles l r)))
           else Inl (Panic ''Unsupported operation''))"

text \<open>\<open>left % right\<close> is undefined when the quotient overflows.\<close>

definition i32_rem :: "i32 \<Rightarrow> i32 \<Rightarrow> i32 res" where
  "i32_rem l r =
     (if sint l = int_min \<and> sint r = - 1 then Inl (Fault Signed_Overflow)
      else Inr (word_of_int (c_rem (sint l) (sint r))))"

definition mod_values :: "JSValue \<Rightarrow> JSValue \<Rightarrow> binary_result res" where
  "mod_values left right =
     (if is_not_number left \<or> is_not_number right \<or> right = JS_NULL
      then Inr (Replace_Top (JS_DOUBLE JS_NaN))
      else
        let left = to_integer left; right = to_integer right
        in if is_js_integer left \<and> is_js_integer right then
             both (andThen (as_int left) (\<lambda>l. andThen (as_int right) (\<lambda>r.
               if r = 0 then Inr (JS_DOUBLE JS_NaN)
               else andThen (i32_rem l r) (\<lambda>i. Inr (JS_INTEGER i)))))
           else if is_js_double left \<or> is_js_double right then
             both (andThen (to_double left) (\<lambda>l. andThen (to_double right) (\<lambda>r.
               if f64_eq r (f64_of_int 0) then Inr (JS_DOUBLE JS_NaN) else narrow (f64_fmod l r))))
           else Inl (Panic ''Unsupported operation''))"

definition inst_add :: "VM \<Rightarrow> inst_ptr \<Rightarrow> VM res" where
  "inst_add = binary_inst add_values"

definition inst_minus :: "VM \<Rightarrow> inst_ptr \<Rightarrow> VM res" where
  "inst_minus = binary_inst minus_values"

definition inst_mul :: "VM \<Rightarrow> inst_ptr \<Rightarrow> VM res" where
  "inst_mul = binary_inst mul_values"

definition inst_div :: "VM \<Rightarrow> inst_ptr \<Rightarrow> VM res" where
  "inst_div = binary_inst div_values"

definition inst_mod :: "VM \<Rightarrow> inst_ptr \<Rightarrow> VM res" where
  "inst_mod = binary_inst mod_values"

section \<open>Bit operations\<close>

definition and_values :: "JSValue \<Rightarrow> JSValue \<Rightarrow> JSValue res" where
  "and_values left right =
     (if \<not> is_numeric left \<or> \<not> is_numeric right then Inr (JS_INTEGER 0)
      else andThen (to_int left) (\<lambda>l. andThen (to_int right) (\<lambda>r. Inr (JS_INTEGER (and l r)))))"

text \<open>The branch of \<open>BINARY_OR\<close> and \<open>BINARY_XOR\<close> for an operand that is no number.\<close>

definition one_numeric :: "JSValue \<Rightarrow> JSValue \<Rightarrow> JSValue res" where
  "one_numeric left right =
     (if is_numeric left then andThen (to_int left) (\<lambda>i. Inr (JS_INTEGER i))
      else if is_numeric right then andThen (to_int right) (\<lambda>i. Inr (JS_INTEGER i))
      else Inr (JS_INTEGER 0))"

definition or_values :: "JSValue \<Rightarrow> JSValue \<Rightarrow> JSValue res" where
  "or_values left right =
     (if \<not> is_numeric left \<or> \<not> is_numeric right then one_numeric left right
      else andThen (to_int left) (\<lambda>l. andThen (to_int right) (\<lambda>r. Inr (JS_INTEGER (or l r)))))"

definition xor_values :: "JSValue \<Rightarrow> JSValue \<Rightarrow> JSValue res" where
  "xor_values left right =
     (if \<not> is_numeric left \<or> \<not> is_numeric right then one_numeric left right
      else andThen (to_int left) (\<lambda>l. andThen (to_int right) (\<lambda>r. Inr (JS_INTEGER (xor l r)))))"

text \<open>The three shifts differ in the C operator only.\<close>

definition shift_values :: "(i32 \<Rightarrow> i32 \<Rightarrow> i32 res) \<Rightarrow> JSValue \<Rightarrow> JSValue \<Rightarrow> JSValue res" where
  "shift_values f left right =
     (if \<not> is_numeric left then Inr (JS_INTEGER 0)
      else if \<not> is_numeric right then
        (if is_js_double left then andThen (to_int left) (\<lambda>i. Inr (JS_DOUBLE (f64_of_i32 i)))
         else Inr left)
      else andThen (to_int left) (\<lambda>l. andThen (to_int right) (\<lambda>r.
             andThen (f l r) (\<lambda>i. Inr (JS_INTEGER i)))))"

text \<open>C99 6.5.7: the amount must be below the width; \<open><<\<close> needs a non-negative representable value.\<close>

definition c_shl :: "i32 \<Rightarrow> i32 \<Rightarrow> i32 res" where
  "c_shl l r =
     (if sint r < 0 \<or> 32 \<le> sint r \<or> sint l < 0 \<or> \<not> in_int32 (sint l * 2 ^ nat (sint r))
      then Inl (Fault Bad_Shift) else Inr (push_bit (nat (sint r)) l))"

definition c_shr :: "i32 \<Rightarrow> i32 \<Rightarrow> i32 res" where
  "c_shr l r =
     (if sint r < 0 \<or> 32 \<le> sint r then Inl (Fault Bad_Shift)
      else Inr (signed_drop_bit (nat (sint r)) l))"

definition c_ushr :: "i32 \<Rightarrow> i32 \<Rightarrow> i32 res" where
  "c_ushr l r = (if 32 \<le> unat r then Inl (Fault Bad_Shift) else Inr (drop_bit (unat r) l))"

definition not_value :: "JSValue \<Rightarrow> JSValue res" where
  "not_value right =
     (if is_not_number right then Inr (JS_INTEGER (- 1))
      else andThen (to_int (to_integer right)) (\<lambda>i. Inr (JS_INTEGER (not i))))"

definition inst_binary_and :: "VM \<Rightarrow> inst_ptr \<Rightarrow> VM res" where
  "inst_binary_and = binary_inst (\<lambda>l r. both (and_values l r))"

definition inst_binary_or :: "VM \<Rightarrow> inst_ptr \<Rightarrow> VM res" where
  "inst_binary_or = binary_inst (\<lambda>l r. both (or_values l r))"

definition inst_binary_xor :: "VM \<Rightarrow> inst_ptr \<Rightarrow> VM res" where
  "inst_binary_xor = binary_inst (\<lambda>l r. both (xor_values l r))"

definition inst_binary_lshft :: "VM \<Rightarrow> inst_ptr \<Rightarrow> VM res" where
  "inst_binary_lshft = binary_inst (\<lambda>l r. both (shift_values c_shl l r))"

definition inst_binary_rshft :: "VM \<Rightarrow> inst_ptr \<Rightarrow> VM res" where
  "inst_binary_rshft = binary_inst (\<lambda>l r. both (shift_values c_shr l r))"

definition inst_binary_zrshft :: "VM \<Rightarrow> inst_ptr \<Rightarrow> VM res" where
  "inst_binary_zrshft = binary_inst (\<lambda>l r. both (shift_values c_ushr l r))"

definition inst_binary_not :: "VM \<Rightarrow> inst_ptr \<Rightarrow> VM res" where
  "inst_binary_not = unary_inst not_value"

section \<open>Logical not, negation, typeof\<close>

definition inst_not :: "VM \<Rightarrow> inst_ptr \<Rightarrow> VM res" where
  "inst_not = unary_inst (\<lambda>v. andThen (value_is_falsy v) (\<lambda>b. Inr (JS_VALUE_BOOL b)))"

definition negate_value :: "JSValue \<Rightarrow> JSValue res" where
  "negate_value right =
     (if is_not_number right then Inr (JS_DOUBLE JS_NaN)
      else case to_integer right of
             JS_INTEGER i \<Rightarrow> andThen (i32_result (- sint i)) (\<lambda>j. Inr (JS_INTEGER j))
           | JS_DOUBLE d \<Rightarrow> Inr (JS_DOUBLE (f64_neg d))
           | _ \<Rightarrow> Inl (Panic ''Unknown operand type''))"

definition inst_negate :: "VM \<Rightarrow> inst_ptr \<Rightarrow> VM res" where
  "inst_negate = unary_inst negate_value"

text \<open>The case of a symbol stores a value and then falls out of the switch into the panic.\<close>

fun typeof_value :: "JSValue \<Rightarrow> JSValue res" where
  "typeof_value (JS_INTEGER i) = Inr (JS_STRING ''number'')"
| "typeof_value (JS_DOUBLE d) = Inr (JS_STRING ''number'')"
| "typeof_value (JS_STRING t) = Inr (JS_STRING ''string'')"
| "typeof_value (JS_OBJECT a) = Inr (JS_STRING ''object'')"
| "typeof_value JS_NULL = Inr (JS_STRING ''object'')"
| "typeof_value (JS_FUNC f) = Inr (JS_STRING ''function'')"
| "typeof_value JS_UNDEFINED = Inr (JS_STRING ''undefined'')"
| "typeof_value (JS_BOOLEAN i) = Inr (JS_STRING ''boolean'')"
| "typeof_value (JS_SYMBOL a) = Inl (Panic ''Unknown operand type'')"
| "typeof_value (JS_GS_BOX b) = Inl (Panic ''Unknown operand type'')"

definition inst_typeof :: "VM \<Rightarrow> inst_ptr \<Rightarrow> VM res" where
  "inst_typeof = unary_inst typeof_value"

section \<open>Strict equality\<close>

text \<open>The tags in the order of \<open>enum JSValueType\<close>.\<close>

fun js_type :: "JSValue \<Rightarrow> nat" where
  "js_type (JS_INTEGER _) = 0" | "js_type (JS_DOUBLE _) = 1" | "js_type (JS_STRING _) = 2"
| "js_type (JS_OBJECT _) = 3" | "js_type (JS_FUNC _) = 4" | "js_type JS_UNDEFINED = 5"
| "js_type JS_NULL = 6" | "js_type (JS_BOOLEAN _) = 7" | "js_type (JS_SYMBOL _) = 8"
| "js_type (JS_GS_BOX _) = 9"

text \<open>The pointer of a function or object, as \<open>value.as_pointer\<close>.\<close>

fun as_pointer :: "JSValue \<Rightarrow> nat option" where
  "as_pointer (JS_FUNC f) = Some f"
| "as_pointer (JS_OBJECT a) = Some a"
| "as_pointer _ = None"

definition mixed_numbers :: "JSValue \<Rightarrow> JSValue \<Rightarrow> bool" where
  "mixed_numbers left right \<longleftrightarrow>
     is_js_double left \<and> is_js_integer right \<or> is_js_integer left \<and> is_js_double right"

definition equal_values :: "JSValue \<Rightarrow> JSValue \<Rightarrow> bool res" where
  "equal_values left right =
     (if js_type left \<noteq> js_type right \<and> \<not> mixed_numbers left right then Inr False
      else if is_js_integer left \<and> is_js_integer right then
        andThen (as_int left) (\<lambda>l. andThen (as_int right) (\<lambda>r. Inr (l = r)))
      else if is_numeric left then
        andThen (to_double left) (\<lambda>l. andThen (to_double right) (\<lambda>r. Inr (f64_eq l r)))
      else if left = JS_NULL \<or> left = JS_UNDEFINED then Inr True
      else if as_pointer left \<noteq> None then Inr (as_pointer left = as_pointer right)
      else Inl (Panic ''Unknown comparison''))"

definition inst_teq :: "VM \<Rightarrow> inst_ptr \<Rightarrow> VM res" where
  "inst_teq = binary_inst (\<lambda>l r. both (andThen (equal_values l r) (\<lambda>b. Inr (JS_VALUE_BOOL b))))"

definition inst_nteq :: "VM \<Rightarrow> inst_ptr \<Rightarrow> VM res" where
  "inst_nteq = binary_inst (\<lambda>l r. both (andThen (equal_values l r) (\<lambda>b. Inr (JS_VALUE_BOOL (\<not> b)))))"

section \<open>Relations\<close>

text \<open>
  The four relational instructions differ in the C operator, on integers and on doubles.
  \<open>undefined\<close> on either side gives false, whatever the other operand.
\<close>

definition relation_values ::
    "(int \<Rightarrow> int \<Rightarrow> bool) \<Rightarrow> (f64 \<Rightarrow> f64 \<Rightarrow> bool) \<Rightarrow> JSValue \<Rightarrow> JSValue \<Rightarrow> bool res" where
  "relation_values ri rd left right =
     (if left = JS_UNDEFINED \<or> right = JS_UNDEFINED then Inr False
      else
        case (to_integer left, to_integer right) of
          (JS_INTEGER l, JS_INTEGER r) \<Rightarrow> Inr (ri (sint l) (sint r))
        | (JS_DOUBLE l, JS_DOUBLE r) \<Rightarrow> Inr (rd l r)
        | (JS_DOUBLE l, JS_INTEGER r) \<Rightarrow> Inr (rd l (f64_of_i32 r))
        | (JS_INTEGER l, JS_DOUBLE r) \<Rightarrow> Inr (rd (f64_of_i32 l) r)
        | _ \<Rightarrow> Inl (Panic ''Unknown comparison''))"

definition relation_inst :: "(int \<Rightarrow> int \<Rightarrow> bool) \<Rightarrow> (f64 \<Rightarrow> f64 \<Rightarrow> bool) \<Rightarrow> VM \<Rightarrow> inst_ptr \<Rightarrow> VM res" where
  "relation_inst ri rd =
     binary_inst (\<lambda>l r. both (andThen (relation_values ri rd l r) (\<lambda>b. Inr (JS_VALUE_BOOL b))))"

definition inst_gt :: "VM \<Rightarrow> inst_ptr \<Rightarrow> VM res" where
  "inst_gt = relation_inst (\<lambda>x y. y < x) (\<lambda>x y. f64_less y x)"

definition inst_geq :: "VM \<Rightarrow> inst_ptr \<Rightarrow> VM res" where
  "inst_geq = relation_inst (\<lambda>x y. y \<le> x) (\<lambda>x y. f64_leq y x)"

definition inst_lt :: "VM \<Rightarrow> inst_ptr \<Rightarrow> VM res" where
  "inst_lt = relation_inst (\<lambda>x y. x < y) f64_less"

definition inst_leq :: "VM \<Rightarrow> inst_ptr \<Rightarrow> VM res" where
  "inst_leq = relation_inst (\<lambda>x y. x \<le> y) f64_leq"

end
