(* ===== verification/Atomix_Core.thy ===== *)
theory Atomix_Core
  imports Atomix_Loader Atomix_Arith
begin

text \<open>
  The native functions of \<open>modules/core/core.c\<close>, the registration of native modules in
  \<open>core/api.c\<close>, and the calls back into the interpreter both rely on.

  A native function of the code takes the VM, \<open>this\<close>, an argument array and its length; the
  model passes the arguments as a list. The functions of \<open>core/execution.c\<close> and
  \<open>core/api.c\<close> that natives and instructions call recursively are the fields of an
  \<open>engine\<close>; \<open>Atomix_Engine\<close> defines the engines that run the program.
\<close>

section \<open>The interpreter as seen by its parts\<close>

record engine =
  call_function :: "VM caller"
  exec_function :: "func_ref \<Rightarrow> VM \<Rightarrow> (JSValue \<times> VM) res"
  exec_module :: "module_ref \<Rightarrow> VM \<Rightarrow> VM res"
  loop_function :: "nat \<Rightarrow> VM \<Rightarrow> VM res"
  loop_module :: "VM \<Rightarrow> VM res"

section \<open>api.c: native modules\<close>

definition register_native_module :: "u64 \<Rightarrow> obj_ref option \<Rightarrow> 'a heap_scheme \<Rightarrow> 'a heap_scheme" where
  "register_native_module h ex s =
     (let m = length (h_modules s);
          module = zero_module\<lparr>hash := h, initialized := True, exports := ex\<rparr>
      in s\<lparr>h_modules := h_modules s @ [module], native_modules := m # native_modules s\<rparr>)"

section \<open>Output\<close>

text \<open>The line \<open>print\<close> writes for one value; the switch has no case for an accessor box.\<close>

fun print_line :: "JSValue \<Rightarrow> string list" where
  "print_line (JS_INTEGER i) = [print_d (sint i)]"
| "print_line (JS_DOUBLE d) =
     [if f64_eq d JS_POS_INFINITY then ''Infinity''
      else if f64_eq d JS_NEG_INFINITY then ''-Infinity''
      else if value_is_NaN (JS_DOUBLE d) then ''NaN''
      else print_f d]"
| "print_line (JS_STRING t) = [t]"
| "print_line (JS_OBJECT a) = [''[Object]'']"
| "print_line (JS_FUNC f) = [''[Function]'']"
| "print_line JS_UNDEFINED = [''undefined'']"
| "print_line JS_NULL = [''null'']"
| "print_line (JS_BOOLEAN i) = [if i \<noteq> 0 then ''true'' else ''false'']"
| "print_line (JS_SYMBOL a) = [''[Symbol]'']"
| "print_line (JS_GS_BOX b) = []"

definition print_native :: "VM \<Rightarrow> JSValue \<Rightarrow> JSValue list \<Rightarrow> (JSValue \<times> VM) res" where
  "print_native vm this args =
     Inr (JS_UNDEFINED,
          vm\<lparr>stdout := stdout vm @ (if args = [] then [''''] else concat (map print_line args))\<rparr>)"

section \<open>Modules\<close>

text \<open>A null \<open>exports\<close> pointer wrapped into a value is reported where it is wrapped.\<close>

definition module_get_export_obj :: "VM \<Rightarrow> JSValue \<Rightarrow> JSValue list \<Rightarrow> (JSValue \<times> VM) res" where
  "module_get_export_obj vm this args =
     andThen (current_module vm) (\<lambda>m. andThen (ptr (exports m)) (\<lambda>a. Inr (JS_OBJECT a, vm)))"

definition import_hash :: "i32 \<Rightarrow> i32 \<Rightarrow> u64" where
  "import_hash high low = or (push_bit 32 (scast high)) (ucast low)"

definition mark_initialized :: "module_ref \<Rightarrow> VM \<Rightarrow> VM" where
  "mark_initialized m vm =
     vm\<lparr>h_modules := (h_modules vm)[m := (h_modules vm ! m)\<lparr>initialized := True\<rparr>]\<rparr>"

definition module_import_module ::
    "engine \<Rightarrow> VM \<Rightarrow> JSValue \<Rightarrow> JSValue list \<Rightarrow> (JSValue \<times> VM) res" where
  "module_import_module e vm this args =
     (case args of
        JS_INTEGER high # JS_INTEGER low # rest \<Rightarrow>
          andThen (current_module vm) (\<lambda>cur.
          andThen (bundle_get_module (module_bundle cur) (import_hash high low) vm) (\<lambda>m.
          andThen (deref (h_modules vm) m) (\<lambda>module.
          andThen (if initialized module then Inr vm else exec_module e m (mark_initialized m vm)) (\<lambda>vm'.
          andThen (deref (h_modules vm') m) (\<lambda>module'.
          andThen (ptr (exports module')) (\<lambda>a. Inr (JS_OBJECT a, vm')))))))
      | _ \<Rightarrow> Inr (JS_UNDEFINED, vm))"

section \<open>Objects\<close>

definition object_native :: "VM \<Rightarrow> JSValue \<Rightarrow> JSValue list \<Rightarrow> (JSValue \<times> VM) res" where
  "object_native vm this args = Inr (JS_UNDEFINED, vm)"

definition instantiate_native ::
    "engine \<Rightarrow> VM \<Rightarrow> JSValue \<Rightarrow> JSValue list \<Rightarrow> (JSValue \<times> VM) res" where
  "instantiate_native e vm this args =
     (case args of
        JS_FUNC f # rest \<Rightarrow>
          andThen (deref (h_functions vm) f) (\<lambda>constructor.
          andThen (object_get_property (call_function e) (base constructor) ''prototype'' vm) (\<lambda>(proto, vm1).
            case proto of
              JS_OBJECT p \<Rightarrow>
                (case object_create_object (Some p) vm1 of
                   (obj, vm2) \<Rightarrow>
                     andThen (call_function e f (JS_OBJECT obj) rest vm2) (\<lambda>(r, vm3).
                       case r of JS_OBJECT a \<Rightarrow> Inr (r, vm3) | _ \<Rightarrow> Inr (JS_OBJECT obj, vm3)))
            | _ \<Rightarrow> Inr (JS_UNDEFINED, vm1)))
      | _ \<Rightarrow> Inr (JS_UNDEFINED, vm))"

definition create_native :: "VM \<Rightarrow> JSValue \<Rightarrow> JSValue list \<Rightarrow> (JSValue \<times> VM) res" where
  "create_native vm this args =
     (case args of
        JS_OBJECT p # rest \<Rightarrow>
          (case object_create_object (Some p) vm of (a, vm1) \<Rightarrow> Inr (JS_OBJECT a, vm1))
      | _ \<Rightarrow>
          (case object_get_object_prototype vm of
             (op, vm1) \<Rightarrow> (case object_create_object (Some op) vm1 of (a, vm2) \<Rightarrow> Inr (JS_OBJECT a, vm2))))"

text \<open>
  \<open>type == JS_FUNC ? ((JSFunction*)p)->base : (JSObject*)p\<close>. The callers allow these two tags
  only, the instructions by the panic given for the others.
\<close>

fun base_object :: "JSValue \<Rightarrow> 'a heap_scheme \<Rightarrow> obj_ref res" where
  "base_object (JS_OBJECT a) s = Inr a"
| "base_object (JS_FUNC f) s = andThen (deref (h_functions s) f) (\<lambda>fn. Inr (base fn))"
| "base_object _ s = Inl (Panic ''Target is not a object'')"

fun is_object_or_function :: "JSValue \<Rightarrow> bool" where
  "is_object_or_function (JS_OBJECT _) = True"
| "is_object_or_function (JS_FUNC _) = True"
| "is_object_or_function _ = False"

definition setPrototypeOf_native :: "VM \<Rightarrow> JSValue \<Rightarrow> JSValue list \<Rightarrow> (JSValue \<times> VM) res" where
  "setPrototypeOf_native vm this args =
     (case args of
        t # p # rest \<Rightarrow>
          if is_object_or_function t \<and> is_object_or_function p then
            andThen (base_object t vm) (\<lambda>target.
            andThen (base_object p vm) (\<lambda>proto.
            andThen (deref (h_objects vm) target) (\<lambda>_.
              Inr (JS_UNDEFINED, object_set_prototype target (Some proto) vm))))
          else Inr (JS_UNDEFINED, vm)
      | _ \<Rightarrow> Inr (JS_UNDEFINED, vm))"

section \<open>Arrays\<close>

text \<open>The loop that stores the elements under the keys \<open>i\<close>, \<open>i + 1\<close>, ...\<close>

fun set_elements :: "VM caller \<Rightarrow> obj_ref \<Rightarrow> nat \<Rightarrow> JSValue list \<Rightarrow> VM \<Rightarrow> VM res" where
  "set_elements call arr i [] vm = Inr vm"
| "set_elements call arr i (v # vs) vm =
     andThen (value_to_string (JS_VALUE_INT (int i))) (\<lambda>key.
     andThen (object_set_property call arr key v vm) (\<lambda>vm'.
       set_elements call arr (Suc i) vs vm'))"

definition array_with :: "VM caller \<Rightarrow> obj_ref \<Rightarrow> JSValue \<Rightarrow> JSValue list \<Rightarrow> VM \<Rightarrow> (JSValue \<times> VM) res" where
  "array_with call arr len vs vm =
     andThen (object_set_property call arr ''length'' len vm) (\<lambda>vm1.
     andThen (set_elements call arr 0 vs vm1) (\<lambda>vm2. Inr (JS_OBJECT arr, vm2)))"

definition array_native ::
    "engine \<Rightarrow> VM \<Rightarrow> JSValue \<Rightarrow> JSValue list \<Rightarrow> (JSValue \<times> VM) res" where
  "array_native e vm this args =
     (case object_get_array_prototype vm of
        (ap, vm1) \<Rightarrow>
          (case object_create_object (Some ap) vm1 of
             (arr, vm2) \<Rightarrow>
               (case args of
                  [JS_DOUBLE d] \<Rightarrow> Inr (JS_UNDEFINED, vm2)
                | [JS_INTEGER n] \<Rightarrow>
                    array_with (call_function e) arr (JS_INTEGER n) (replicate (nat (sint n)) JS_UNDEFINED) vm2
                | _ \<Rightarrow>
                    array_with (call_function e) arr (JS_VALUE_INT (int (length args))) args vm2)))"

definition is_array_native :: "VM \<Rightarrow> JSValue \<Rightarrow> JSValue list \<Rightarrow> (JSValue \<times> VM) res" where
  "is_array_native vm this args =
     (case args of
        [] \<Rightarrow> Inr (JS_VALUE_BOOL False, vm)
      | v # rest \<Rightarrow> andThen (value_is_array v vm) (\<lambda>(b, vm'). Inr (JS_VALUE_BOOL b, vm')))"

section \<open>Functions and symbols\<close>

definition function_native :: "VM \<Rightarrow> JSValue \<Rightarrow> JSValue list \<Rightarrow> (JSValue \<times> VM) res" where
  "function_native vm this args = Inr (JS_UNDEFINED, vm)"

definition call_native :: "engine \<Rightarrow> VM \<Rightarrow> JSValue \<Rightarrow> JSValue list \<Rightarrow> (JSValue \<times> VM) res" where
  "call_native e vm this args =
     (case this of
        JS_FUNC f \<Rightarrow>
          (case args of
             [] \<Rightarrow> call_function e f JS_UNDEFINED [] vm
           | this' # rest \<Rightarrow> call_function e f this' rest vm)
      | _ \<Rightarrow> Inr (JS_UNDEFINED, vm))"

definition symbol_native :: "engine \<Rightarrow> VM \<Rightarrow> JSValue \<Rightarrow> JSValue list \<Rightarrow> (JSValue \<times> VM) res" where
  "symbol_native e vm this args =
     (case object_get_symbol_prototype vm of
        (syp, vm1) \<Rightarrow>
          (case object_create_object (Some syp) vm1 of
             (sy, vm2) \<Rightarrow>
               (case args of
                  [] \<Rightarrow> Inr (JS_SYMBOL sy, vm2)
                | v # rest \<Rightarrow>
                    andThen (value_to_string v) (\<lambda>description.
                    andThen (object_set_property (call_function e) sy ''description''
                               (JS_STRING description) vm2) (\<lambda>vm3.
                      Inr (JS_SYMBOL sy, vm3))))))"

text \<open>The native functions by the name under which the heap stores them.\<close>

fun run_native :: "engine \<Rightarrow> native \<Rightarrow> VM \<Rightarrow> JSValue \<Rightarrow> JSValue list \<Rightarrow> (JSValue \<times> VM) res" where
  "run_native e N_print = print_native"
| "run_native e N_module_get_export_obj = module_get_export_obj"
| "run_native e N_module_import_module = module_import_module e"
| "run_native e N_object = object_native"
| "run_native e N_instantiate = instantiate_native e"
| "run_native e N_create = create_native"
| "run_native e N_setPrototypeOf = setPrototypeOf_native"
| "run_native e N_array = array_native e"
| "run_native e N_is_array = is_array_native"
| "run_native e N_function = function_native"
| "run_native e N_call = call_native e"
| "run_native e N_symbol = symbol_native e"

section \<open>Initialisation\<close>

text \<open>A native function stored under a key of an object.\<close>

definition native_property :: "engine \<Rightarrow> obj_ref \<Rightarrow> string \<Rightarrow> native \<Rightarrow> VM \<Rightarrow> VM res" where
  "native_property e obj key n vm =
     andThen (function_create_native_function n vm) (\<lambda>(f, vm1).
       object_set_property (call_function e) obj key (JS_FUNC f) vm1)"

definition function_base :: "func_ref \<Rightarrow> VM \<Rightarrow> obj_ref res" where
  "function_base f vm = andThen (deref (h_functions vm) f) (\<lambda>fn. Inr (base fn))"

text \<open>The sections of \<open>core_init\<close>, in order.\<close>

definition init_print :: "scope_ref \<Rightarrow> VM \<Rightarrow> VM res" where
  "init_print sc vm =
     andThen (function_create_native_function N_print vm) (\<lambda>(f, vm1).
       scope_declare sc ''print'' (JS_FUNC f) vm1)"

definition init_module :: "engine \<Rightarrow> scope_ref \<Rightarrow> VM \<Rightarrow> VM res" where
  "init_module e sc vm =
     (case object_get_object_prototype vm of
        (op, vm1) \<Rightarrow>
          (case object_create_object (Some op) vm1 of
             (m, vm2) \<Rightarrow>
               andThen (native_property e m ''getExportObj'' N_module_get_export_obj vm2) (\<lambda>vm3.
               andThen (native_property e m ''importModule'' N_module_import_module vm3) (\<lambda>vm4.
                 scope_declare sc ''Module'' (JS_OBJECT m) vm4))))"

definition init_object :: "engine \<Rightarrow> scope_ref \<Rightarrow> VM \<Rightarrow> VM res" where
  "init_object e sc vm =
     andThen (function_create_native_function N_object vm) (\<lambda>(f, vm1).
     andThen (function_base f vm1) (\<lambda>b.
     andThen (native_property e b ''instantiate'' N_instantiate vm1) (\<lambda>vm2.
     andThen (native_property e b ''create'' N_create vm2) (\<lambda>vm3.
     andThen (native_property e b ''setPrototypeOf'' N_setPrototypeOf vm3) (\<lambda>vm4.
       scope_declare sc ''Object'' (JS_FUNC f) vm4)))))"

definition init_array :: "engine \<Rightarrow> scope_ref \<Rightarrow> VM \<Rightarrow> VM res" where
  "init_array e sc vm =
     andThen (function_create_native_function N_array vm) (\<lambda>(f, vm1).
     andThen (function_base f vm1) (\<lambda>b.
       case object_get_array_prototype vm1 of
         (ap, vm2) \<Rightarrow>
           andThen (native_property e b ''isArray'' N_is_array (object_set_prototype b (Some ap) vm2)) (\<lambda>vm3.
             scope_declare sc ''Array'' (JS_FUNC f) vm3)))"

definition init_function :: "engine \<Rightarrow> scope_ref \<Rightarrow> VM \<Rightarrow> VM res" where
  "init_function e sc vm =
     andThen (function_create_native_function N_function vm) (\<lambda>(f, vm1).
     andThen (function_base f vm1) (\<lambda>b.
       case object_get_function_prototype vm1 of
         (fp, vm2) \<Rightarrow>
           andThen (scope_declare sc ''Function'' (JS_FUNC f) (object_set_prototype b (Some fp) vm2)) (\<lambda>vm3.
             native_property e fp ''call'' N_call vm3)))"

definition init_symbol :: "engine \<Rightarrow> scope_ref \<Rightarrow> VM \<Rightarrow> VM res" where
  "init_symbol e sc vm =
     andThen (function_create_native_function N_symbol vm) (\<lambda>(f, vm1).
     andThen (function_base f vm1) (\<lambda>b.
       case object_get_symbol_prototype vm1 of
         (syp, vm2) \<Rightarrow>
           andThen (symbol_to_primitive (call_function e) (object_set_prototype b (Some syp) vm2)) (\<lambda>(v, vm3).
           andThen (object_set_property (call_function e) b ''toPrimitive'' v vm3) (\<lambda>vm4.
             scope_declare sc ''Symbol'' (JS_FUNC f) vm4))))"

definition core_init :: "engine \<Rightarrow> scope_ref \<Rightarrow> VM \<Rightarrow> VM res" where
  "core_init e sc vm =
     andThen (init_print sc vm) (\<lambda>vm1.
     andThen (init_module e sc vm1) (\<lambda>vm2.
     andThen (init_object e sc vm2) (\<lambda>vm3.
     andThen (init_array e sc vm3) (\<lambda>vm4.
     andThen (init_function e sc vm4) (\<lambda>vm5. init_symbol e sc vm5)))))"

end
