(* ===== verification/Atomix_Exec.thy ===== *)
theory Atomix_Exec
  imports Atomix_Core
begin

text \<open>
  The instructions of \<open>core/execution.c\<close> that move values between the stack, the scopes and
  the objects, declare and call functions, and jump. The operators are in \<open>Atomix_Arith\<close>.

  Every body follows the order of the code: the checks, the string table, the effect. Some
  bodies have no check (\<open>LOAD_ARG\<close>, the conditional jumps, the operands and the result of
  \<open>CALL\<close>); there the access itself is the fault.
\<close>

definition cur_scope :: "VM \<Rightarrow> scope_ref res" where
  "cur_scope vm = (case vm_scope vm of None \<Rightarrow> Inl (Fault Uninitialised) | Some a \<Rightarrow> Inr a)"

section \<open>Constants\<close>

definition inst_nop :: "VM \<Rightarrow> inst_ptr \<Rightarrow> VM res" where
  "inst_nop vm p = Inr vm"

definition inst_ld_int :: "VM \<Rightarrow> inst_ptr \<Rightarrow> VM res" where
  "inst_ld_int vm p =
     andThen (check_overflow vm) (\<lambda>_. andThen (as_InstInt32 p) (\<lambda>n. push (JS_INTEGER n) vm))"

definition inst_ld_double :: "VM \<Rightarrow> inst_ptr \<Rightarrow> VM res" where
  "inst_ld_double vm p =
     andThen (check_overflow vm) (\<lambda>_. andThen (as_InstDouble p) (\<lambda>d. push (JS_DOUBLE d) vm))"

definition inst_ld_string :: "VM \<Rightarrow> inst_ptr \<Rightarrow> VM res" where
  "inst_ld_string vm p =
     andThen (check_overflow vm) (\<lambda>_.
     andThen (as_InstUInt16 p) (\<lambda>idx.
     andThen (load_str idx vm) (\<lambda>str. push (JS_STRING str) vm)))"

definition inst_ld_undf :: "VM \<Rightarrow> inst_ptr \<Rightarrow> VM res" where
  "inst_ld_undf vm p = andThen (check_overflow vm) (\<lambda>_. push JS_UNDEFINED vm)"

definition inst_ld_null :: "VM \<Rightarrow> inst_ptr \<Rightarrow> VM res" where
  "inst_ld_null vm p = andThen (check_overflow vm) (\<lambda>_. push JS_NULL vm)"

definition inst_ld_boolean :: "VM \<Rightarrow> inst_ptr \<Rightarrow> VM res" where
  "inst_ld_boolean vm p =
     andThen (check_overflow vm) (\<lambda>_. push (JS_VALUE_BOOL (OPCODE_OF p = OP_LD_TRUE)) vm)"

definition inst_ld_this :: "VM \<Rightarrow> inst_ptr \<Rightarrow> VM res" where
  "inst_ld_this vm p =
     andThen (check_overflow vm) (\<lambda>_.
     andThen (cur_scope vm) (\<lambda>sc.
     andThen (scope_get sc ''this'' vm) (\<lambda>v. push v vm)))"

section \<open>Stack\<close>

definition inst_pop :: "VM \<Rightarrow> inst_ptr \<Rightarrow> VM res" where
  "inst_pop vm p = andThen (check_underflow 1 vm) (\<lambda>_. Inr (set_sp (sp vm - 1) vm))"

definition inst_dup :: "VM \<Rightarrow> inst_ptr \<Rightarrow> VM res" where
  "inst_dup vm p =
     andThen (check_underflow 1 vm) (\<lambda>_.
     andThen (check_overflow vm) (\<lambda>_.
     andThen (peek 1 vm) (\<lambda>v. push v vm)))"

definition inst_swap :: "VM \<Rightarrow> inst_ptr \<Rightarrow> VM res" where
  "inst_swap vm p =
     andThen (check_underflow 2 vm) (\<lambda>_.
     andThen (peek 2 vm) (\<lambda>tmp.
     andThen (peek 1 vm) (\<lambda>top.
     andThen (poke 2 top vm) (\<lambda>vm1. poke 1 tmp vm1))))"

section \<open>Locals and arguments\<close>

definition inst_alloc_store_local :: "VM \<Rightarrow> inst_ptr \<Rightarrow> VM res" where
  "inst_alloc_store_local vm p =
     (let is_alloc = (OPCODE_OF p = OP_ALLOC_LOCAL)
      in andThen (check_underflow 1 vm) (\<lambda>_.
         andThen (pop vm) (\<lambda>(v, vm1).
         andThen (as_InstUInt16 p) (\<lambda>idx.
         andThen (load_str idx vm1) (\<lambda>key.
         andThen (cur_scope vm1) (\<lambda>sc.
           if is_alloc then scope_declare sc key v vm1
           else andThen (scope_set sc key v vm1) (\<lambda>(found, vm2).
                  if found then Inr vm2 else Inl (Panic ''Could not update local''))))))))"

definition inst_load_local :: "VM \<Rightarrow> inst_ptr \<Rightarrow> VM res" where
  "inst_load_local vm p =
     andThen (check_overflow vm) (\<lambda>_.
     andThen (as_InstUInt16 p) (\<lambda>idx.
     andThen (load_str idx vm) (\<lambda>key.
     andThen (cur_scope vm) (\<lambda>sc.
     andThen (scope_contains sc key True vm) (\<lambda>found.
     andThen (guard found (Panic ''Symbol not found'')) (\<lambda>_.
     andThen (scope_get sc key vm) (\<lambda>v. push v vm)))))))"

text \<open>\<open>stack_counter - (stack_counter - stack_start)\<close> is \<open>stack_start\<close>, also when it wraps. The last
  assignment increments \<open>stack_counter\<close> on its left side and reads it on its right side without a
  sequence point. The counter cancels out on the right, so both orders of the two sides read the slot
  below; C promises neither.\<close>

definition inst_load_arg :: "VM \<Rightarrow> inst_ptr \<Rightarrow> VM res" where
  "inst_load_arg vm p =
     andThen (as_InstUInt16 p) (\<lambda>n.
       if stack_start (stats vm) \<le> n then push JS_UNDEFINED vm
       else andThen (stack_read (stack_start (stats vm) - n - 1) vm) (\<lambda>v. push v vm))"

section \<open>Functions\<close>

definition inst_func_decl :: "VM \<Rightarrow> inst_ptr \<Rightarrow> VM res" where
  "inst_func_decl vm p =
     (let is_function_decl = (OPCODE_OF p = OP_FUNC_DECL)
      in andThen (if is_function_decl then as_Inst2UInt16 p
                  else andThen (as_InstUInt16 p) (\<lambda>size. Inr (0, size))) (\<lambda>(idx, size).
         andThen (check_overflow vm) (\<lambda>_.
         andThen (cur_scope vm) (\<lambda>sc.
         andThen (function_create_function (Some sc) (vm_module vm) (ic vm) (ic vm + size) vm) (\<lambda>(f, vm1).
         andThen (if is_function_decl
                  then andThen (load_str idx vm1) (\<lambda>key. scope_declare sc key (JS_FUNC f) vm1)
                  else Inr vm1) (\<lambda>vm2.
         andThen (push (JS_FUNC f) vm2) (\<lambda>vm3. Inr (set_ic (ic vm3 + size) vm3))))))))"

text \<open>The values at \<open>stack_counter - i\<close>, \<open>stack_counter - (i + 1)\<close>, ..., \<open>n\<close> of them.\<close>

primrec read_args :: "nat \<Rightarrow> nat \<Rightarrow> VM \<Rightarrow> JSValue list res" where
  "read_args i 0 vm = Inr []"
| "read_args i (Suc n) vm =
     andThen (peek i vm) (\<lambda>v. andThen (read_args (Suc i) n vm) (\<lambda>vs. Inr (v # vs)))"

text \<open>\<open>stack_counter -= k\<close>; a counter that wraps faults at the next access.\<close>

definition drop_stack :: "nat \<Rightarrow> VM \<Rightarrow> VM res" where
  "drop_stack k vm = (if k \<le> sp vm then Inr (set_sp (sp vm - k) vm) else Inl (Fault Out_Of_Bounds))"

definition call_native_function :: "engine \<Rightarrow> native option \<Rightarrow> nat \<Rightarrow> VM \<Rightarrow> (JSValue \<times> VM) res" where
  "call_native_function e nf n vm =
     (case nf of
        None \<Rightarrow> Inl (Panic ''Function holds not a valid pointer'')
      | Some f \<Rightarrow>
          andThen (peek 1 vm) (\<lambda>this.
          andThen (read_args 2 n vm) (\<lambda>args. run_native e f vm this args)))"

definition inst_call :: "engine \<Rightarrow> VM \<Rightarrow> inst_ptr \<Rightarrow> VM res" where
  "inst_call e vm p =
     andThen (check_underflow 1 vm) (\<lambda>_.
     andThen (pop vm) (\<lambda>(v, vm1).
       case v of
         JS_FUNC f \<Rightarrow>
           andThen (deref (h_functions vm1) f) (\<lambda>fn.
           andThen (as_InstUInt16 p) (\<lambda>n.
           andThen
             (if is_native fn then call_native_function e (native_function fn) n vm1
              else andThen (peek 1 vm1) (\<lambda>this.
                   andThen (ptr (function_scope fn)) (\<lambda>sc.
                   andThen (scope_declare sc ''this'' this vm1) (\<lambda>vm2. exec_function e f vm2)))) (\<lambda>(r, vm3).
           andThen (drop_stack (n + 1) vm3) (\<lambda>vm4. push r vm4))))
       | _ \<Rightarrow> Inl (Panic ''Callee is not a function'')))"

section \<open>Objects\<close>

definition inst_arr_alloc :: "VM \<Rightarrow> inst_ptr \<Rightarrow> VM res" where
  "inst_arr_alloc vm p =
     andThen (check_overflow vm) (\<lambda>_.
       case object_get_array_prototype vm of
         (ap, vm1) \<Rightarrow> (case object_create_object (Some ap) vm1 of (a, vm2) \<Rightarrow> push (JS_OBJECT a) vm2))"

definition inst_obj_alloc :: "VM \<Rightarrow> inst_ptr \<Rightarrow> VM res" where
  "inst_obj_alloc vm p =
     andThen (check_overflow vm) (\<lambda>_.
       case object_get_object_prototype vm of
         (op, vm1) \<Rightarrow> (case object_create_object (Some op) vm1 of (a, vm2) \<Rightarrow> push (JS_OBJECT a) vm2))"

definition inst_obj_store :: "engine \<Rightarrow> VM \<Rightarrow> inst_ptr \<Rightarrow> VM res" where
  "inst_obj_store e vm p =
     andThen (check_underflow 2 vm) (\<lambda>_.
     andThen (pop vm) (\<lambda>(v, vm1).
     andThen (pop vm1) (\<lambda>(obj, vm2).
     andThen (base_object obj vm2) (\<lambda>a.
     andThen (as_InstUInt16 p) (\<lambda>idx.
     andThen (load_str idx vm2) (\<lambda>key. object_set_property (call_function e) a key v vm2))))))"

text \<open>
  \<open>stack[stack_counter - 1] = object_get_property(...)\<close>: C may compute the index before or
  after the call, so the two must agree.
\<close>

definition replace_top :: "nat \<Rightarrow> JSValue \<times> VM \<Rightarrow> VM res" where
  "replace_top n r =
     (case r of (v, vm) \<Rightarrow> if sp vm = n then poke 1 v vm else Inl (Fault Unsequenced))"

definition inst_obj_load :: "engine \<Rightarrow> VM \<Rightarrow> inst_ptr \<Rightarrow> VM res" where
  "inst_obj_load e vm p =
     andThen (check_underflow 1 vm) (\<lambda>_.
     andThen (peek 1 vm) (\<lambda>obj.
     andThen (base_object obj vm) (\<lambda>a.
     andThen (as_InstUInt16 p) (\<lambda>idx.
     andThen (load_str idx vm) (\<lambda>key.
     andThen (object_get_property (call_function e) a key vm) (replace_top (sp vm)))))))"

definition inst_obj_cload :: "engine \<Rightarrow> VM \<Rightarrow> inst_ptr \<Rightarrow> VM res" where
  "inst_obj_cload e vm p =
     andThen (check_underflow 2 vm) (\<lambda>_.
     andThen (pop vm) (\<lambda>(computed, vm1).
     andThen (peek 1 vm1) (\<lambda>obj.
     andThen (base_object obj vm1) (\<lambda>a.
       case computed of
         JS_SYMBOL sy \<Rightarrow>
           andThen (object_get_property_by_symbol (call_function e) a sy vm1) (replace_top (sp vm1))
       | _ \<Rightarrow>
           andThen (value_to_string computed) (\<lambda>key.
           andThen (object_get_property (call_function e) a key vm1) (replace_top (sp vm1)))))))"

definition inst_obj_cstore :: "engine \<Rightarrow> VM \<Rightarrow> inst_ptr \<Rightarrow> VM res" where
  "inst_obj_cstore e vm p =
     andThen (check_underflow 3 vm) (\<lambda>_.
     andThen (pop vm) (\<lambda>(computed, vm1).
     andThen (pop vm1) (\<lambda>(obj, vm2).
     andThen (pop vm2) (\<lambda>(v, vm3).
     andThen (base_object obj vm3) (\<lambda>a.
       case computed of
         JS_SYMBOL sy \<Rightarrow> object_set_property_with_symbol (call_function e) a sy v vm3
       | _ \<Rightarrow>
           andThen (value_to_string computed) (\<lambda>key.
             object_set_property (call_function e) a key v vm3))))))"

section \<open>Scopes, jumps and exports\<close>

definition inst_push_scope :: "VM \<Rightarrow> inst_ptr \<Rightarrow> VM res" where
  "inst_push_scope vm p =
     andThen (cur_scope vm) (\<lambda>sc.
       case scope_create_scope (Some sc) vm of (a, vm1) \<Rightarrow> Inr (vm1\<lparr>vm_scope := Some a\<rparr>))"

definition inst_pop_scope :: "VM \<Rightarrow> inst_ptr \<Rightarrow> VM res" where
  "inst_pop_scope vm p =
     andThen (cur_scope vm) (\<lambda>a.
     andThen (deref (h_scopes vm) a) (\<lambda>sc.
       case parent sc of
         None \<Rightarrow> Inl (Panic ''No parent scope to pop'')
       | Some q \<Rightarrow> Inr (vm\<lparr>vm_scope := Some q\<rparr>)))"

definition inst_jmp :: "VM \<Rightarrow> inst_ptr \<Rightarrow> VM res" where
  "inst_jmp vm p = andThen (as_InstUInt16 p) (\<lambda>target. Inr (set_ic target vm))"

definition inst_jmp_f :: "VM \<Rightarrow> inst_ptr \<Rightarrow> VM res" where
  "inst_jmp_f vm p =
     andThen (pop vm) (\<lambda>(test, vm1).
     andThen (value_is_falsy test) (\<lambda>b. if b then inst_jmp vm1 p else Inr vm1))"

definition inst_jmp_t :: "VM \<Rightarrow> inst_ptr \<Rightarrow> VM res" where
  "inst_jmp_t vm p =
     andThen (pop vm) (\<lambda>(test, vm1).
     andThen (value_is_truthy test) (\<lambda>b. if b then inst_jmp vm1 p else Inr vm1))"

definition inst_export :: "engine \<Rightarrow> VM \<Rightarrow> inst_ptr \<Rightarrow> VM res" where
  "inst_export e vm p =
     andThen (check_underflow 1 vm) (\<lambda>_.
     andThen (pop vm) (\<lambda>(v, vm1).
     andThen (as_InstUInt16 p) (\<lambda>idx.
     andThen (load_str idx vm1) (\<lambda>key.
     andThen (current_module vm1) (\<lambda>m.
     andThen (ptr (exports m)) (\<lambda>a. object_set_property (call_function e) a key v vm1))))))"

end
