(* ===== verification/Atomix_Engine.thy ===== *)
theory Atomix_Engine
  imports Atomix_Exec
begin

text \<open>
  The interpreter: the instruction table and the loops at the end of \<open>core/execution.c\<close>,
  \<open>api_call_function\<close> and \<open>bind_modules\<close> of \<open>core/api.c\<close>, and the two programs
  \<open>debug/main.c\<close> and \<open>release/main.c\<close>.

  Instructions, natives and accessors call each other without bound, so the functions here
  take the engine they call into. \<open>machine n\<close> is the interpreter with fuel \<open>n\<close>: every
  nested call and every round of a loop uses one unit, and an interpreter without fuel gives
  \<open>Diverge\<close>. \<open>Atomix_Fuel\<close> shows that more fuel never changes another result.
\<close>

section \<open>The instruction table\<close>

fun inst_set :: "engine \<Rightarrow> Opcode \<Rightarrow> VM \<Rightarrow> inst_ptr \<Rightarrow> VM res" where
  "inst_set e OP_NOP = inst_nop"
| "inst_set e OP_LD_INT = inst_ld_int"
| "inst_set e OP_LD_DOUBLE = inst_ld_double"
| "inst_set e OP_LD_STRING = inst_ld_string"
| "inst_set e OP_LD_UNDF = inst_ld_undf"
| "inst_set e OP_LD_NULL = inst_ld_null"
| "inst_set e OP_LD_TRUE = inst_ld_boolean"
| "inst_set e OP_LD_FALSE = inst_ld_boolean"
| "inst_set e OP_LD_THIS = inst_ld_this"
| "inst_set e OP_ADD = inst_add"
| "inst_set e OP_MINUS = inst_minus"
| "inst_set e OP_MUL = inst_mul"
| "inst_set e OP_DIV = inst_div"
| "inst_set e OP_MOD = inst_mod"
| "inst_set e OP_BINARY_AND = inst_binary_and"
| "inst_set e OP_BINARY_OR = inst_binary_or"
| "inst_set e OP_BINARY_XOR = inst_binary_xor"
| "inst_set e OP_BINARY_LSHFT = inst_binary_lshft"
| "inst_set e OP_BINARY_RSHFT = inst_binary_rshft"
| "inst_set e OP_BINARY_ZRSHFT = inst_binary_zrshft"
| "inst_set e OP_BINARY_NOT = inst_binary_not"
| "inst_set e OP_NOT = inst_not"
| "inst_set e OP_NEGATE = inst_negate"
| "inst_set e OP_TYPEOF = inst_typeof"
| "inst_set e OP_TEQ = inst_teq"
| "inst_set e OP_NTEQ = inst_nteq"
| "inst_set e OP_GT = inst_gt"
| "inst_set e OP_GEQ = inst_geq"
| "inst_set e OP_LT = inst_lt"
| "inst_set e OP_LEQ = inst_leq"
| "inst_set e OP_POP = inst_pop"
| "inst_set e OP_DUP = inst_dup"
| "inst_set e OP_SWAP = inst_swap"
| "inst_set e OP_ALLOC_LOCAL = inst_alloc_store_local"
| "inst_set e OP_STORE_LOCAL = inst_alloc_store_local"
| "inst_set e OP_LOAD_LOCAL = inst_load_local"
| "inst_set e OP_LOAD_ARG = inst_load_arg"
| "inst_set e OP_FUNC_DECL = inst_func_decl"
| "inst_set e OP_FUNC_DECL_E = inst_func_decl"
| "inst_set e OP_CALL = inst_call e"
| "inst_set e OP_ARR_ALLOC = inst_arr_alloc"
| "inst_set e OP_OBJ_ALLOC = inst_obj_alloc"
| "inst_set e OP_OBJ_STORE = inst_obj_store e"
| "inst_set e OP_OBJ_LOAD = inst_obj_load e"
| "inst_set e OP_OBJ_CLOAD = inst_obj_cload e"
| "inst_set e OP_OBJ_CSTORE = inst_obj_cstore e"
| "inst_set e OP_RETURN = inst_nop"
| "inst_set e OP_PUSH_SCOPE = inst_push_scope"
| "inst_set e OP_POP_SCOPE = inst_pop_scope"
| "inst_set e OP_JMP = inst_jmp"
| "inst_set e OP_JMP_F = inst_jmp_f"
| "inst_set e OP_JMP_T = inst_jmp_t"
| "inst_set e OP_EXPORT = inst_export e"

section \<open>One instruction\<close>

definition vm_exec :: "engine \<Rightarrow> VM \<Rightarrow> VM res" where
  "vm_exec e vm =
     andThen (current_module vm) (\<lambda>m.
     andThen (guard (ic vm < unat (ds_count (data_section m)))
        (Panic ''Instruction counter is out of bounds of the current module'')) (\<lambda>_.
     andThen (array_at (instructions (data_section m)) (ic vm)) (\<lambda>instruction.
       let vm1 = set_ic (Suc (ic vm)) vm
       in if instruction = None \<or> OPCODE_OF instruction = OP_NOP then Inr vm1
          else inst_set e (OPCODE_OF instruction) vm1 instruction)))"

section \<open>Modules and functions\<close>

text \<open>What \<open>vm_exec_module\<close> and \<open>vm_exec_function\<close> save on entry and put back on exit. When the first
  module is run the scope register and most of the stack have not been written yet: \<open>vm_init\<close> leaves
  them out. The copies of these indeterminate values are only put back, so the model copies \<open>None\<close>,
  which stands for an unwritten register or slot; using one is the fault \<open>Uninitialised\<close> or, for the
  scope, \<open>Null_Deref\<close>.\<close>

definition restore_frame :: "VM \<Rightarrow> VM \<Rightarrow> VM" where
  "restore_frame saved vm =
     vm\<lparr>vm_module := vm_module saved, stats := stats saved, vm_scope := vm_scope saved\<rparr>"

definition scope_set_parent :: "scope_ref \<Rightarrow> scope_ref \<Rightarrow> 'a heap_scheme \<Rightarrow> 'a heap_scheme" where
  "scope_set_parent a p s = s\<lparr>h_scopes := (h_scopes s)[a := (h_scopes s ! a)\<lparr>parent := Some p\<rparr>]\<rparr>"

definition module_loop :: "engine \<Rightarrow> VM \<Rightarrow> VM res" where
  "module_loop e vm =
     andThen (current_module vm) (\<lambda>m.
       if ic vm < unat (ds_count (data_section m))
       then andThen (vm_exec e vm) (loop_module e)
       else Inr vm)"

definition vm_exec_module :: "engine \<Rightarrow> module_ref \<Rightarrow> VM \<Rightarrow> VM res" where
  "vm_exec_module e m vm =
     andThen (deref (h_modules vm) m) (\<lambda>module.
     andThen (ptr (module_scope module)) (\<lambda>a.
     andThen (deref (h_scopes vm) a) (\<lambda>_.
     andThen
       (loop_module e
          ((scope_set_parent a (globalScope vm) vm)
             \<lparr>vm_scope := Some a, vm_module := m,
              stats := (stats vm)\<lparr>instruction_counter := 0, stack_counter := 0, stack_start := 0\<rparr>\<rparr>)) (\<lambda>vm1.
       Inr (restore_frame vm vm1)))))"

text \<open>The loop of \<open>vm_exec_function\<close> looks at the opcode before the bounds check of \<open>vm_exec\<close>.\<close>

definition function_loop :: "engine \<Rightarrow> nat \<Rightarrow> VM \<Rightarrow> VM res" where
  "function_loop e fin vm =
     (if ic vm < fin then
        andThen (current_module vm) (\<lambda>m.
        andThen (array_at (instructions (data_section m)) (ic vm)) (\<lambda>instruction.
          if OPCODE_OF instruction = OP_RETURN then Inr vm
          else andThen (vm_exec e vm) (loop_function e fin)))
      else Inr vm)"

definition function_result :: "VM \<Rightarrow> JSValue res" where
  "function_result vm = (if stack_start (stats vm) < sp vm then peek 1 vm else Inr JS_UNDEFINED)"

definition vm_exec_function :: "engine \<Rightarrow> func_ref \<Rightarrow> VM \<Rightarrow> (JSValue \<times> VM) res" where
  "vm_exec_function e f vm =
     andThen (deref (h_functions vm) f) (\<lambda>fn.
     andThen (ptr (function_module fn)) (\<lambda>m.
     andThen
       (loop_function e (instruction_end fn)
          (vm\<lparr>vm_module := m, vm_scope := function_scope fn,
              stats := (stats vm)\<lparr>instruction_counter := instruction_start fn,
                                  stack_start := stack_counter (stats vm)\<rparr>\<rparr>)) (\<lambda>vm1.
     andThen (function_result vm1) (\<lambda>v. Inr (v, restore_frame vm vm1)))))"

section \<open>Calls from C\<close>

fun push_all :: "JSValue list \<Rightarrow> VM \<Rightarrow> VM res" where
  "push_all [] vm = Inr vm"
| "push_all (v # vs) vm = andThen (push v vm) (push_all vs)"

definition api_call_function :: "engine \<Rightarrow> VM caller" where
  "api_call_function e f this args vm =
     andThen (deref (h_functions vm) f) (\<lambda>fn.
       if is_native fn then
         (case native_function fn of
            None \<Rightarrow> Inl (Panic ''Function holds not a valid pointer'')
          | Some n \<Rightarrow> run_native e n vm this args)
       else
         andThen (push_all (rev args) vm) (\<lambda>vm1.
         andThen (push this vm1) (\<lambda>vm2.
         andThen (ptr (function_scope fn)) (\<lambda>sc.
         andThen (scope_declare sc ''this'' this vm2) (\<lambda>vm3.
         andThen (exec_function e f vm3) (\<lambda>(r, vm4).
         andThen (drop_stack (length args) vm4) (\<lambda>vm5. Inr (r, vm5))))))))"

section \<open>The interpreter with fuel\<close>

definition no_engine :: engine where
  "no_engine =
     \<lparr>call_function = \<lambda>f this args vm. Inl Diverge, exec_function = \<lambda>f vm. Inl Diverge,
      exec_module = \<lambda>m vm. Inl Diverge, loop_function = \<lambda>fin vm. Inl Diverge,
      loop_module = \<lambda>vm. Inl Diverge\<rparr>"

definition next_engine :: "engine \<Rightarrow> engine" where
  "next_engine e =
     \<lparr>call_function = api_call_function e, exec_function = vm_exec_function e,
      exec_module = vm_exec_module e, loop_function = function_loop e,
      loop_module = module_loop e\<rparr>"

primrec machine :: "nat \<Rightarrow> engine" where
  "machine 0 = no_engine"
| "machine (Suc n) = next_engine (machine n)"

section \<open>Start-up\<close>

text \<open>
  The table \<open>__MOD_LOADER__\<close> is generated by the build, so the list of initialisers is an
  argument; the initialiser in the repository is \<open>core_init\<close>.
\<close>

type_synonym module_init = "engine \<Rightarrow> scope_ref \<Rightarrow> VM \<Rightarrow> VM res"

fun bind_modules :: "engine \<Rightarrow> module_init list \<Rightarrow> scope_ref \<Rightarrow> VM \<Rightarrow> VM res" where
  "bind_modules e [] sc vm = Inr vm"
| "bind_modules e (i # is) sc vm = andThen (i e sc vm) (bind_modules e is sc)"

definition vm_init :: "engine \<Rightarrow> module_init list \<Rightarrow> module_ref \<Rightarrow> heap \<Rightarrow> VM res" where
  "vm_init e inits m s =
     (case scope_create_scope None s of
        (g, s1) \<Rightarrow>
          bind_modules e inits g
            (heap.extend s1
               \<lparr>vm_module = m, globalScope = g, vm_scope = None,
                stats = \<lparr>instruction_counter = 0, stack_counter = 0, stack_start = 0,
                         stack = replicate STACK_SIZE None\<rparr>\<rparr>))"

text \<open>
  Both programs run the loaded module, or the entry module of the loaded bundle if it has
  one; the result is the exit status and what was printed. \<open>_module\<close> and \<open>_bundle\<close> are
  static, so their bytes are zero at first.
\<close>

definition zero_bundle :: JSBundle where
  "zero_bundle =
     \<lparr>bundle_magic = [0, 0, 0, 0], bundle_version = 0, entryPoint = 0, moduleCount = 0,
      bundle_modules = []\<rparr>"

definition initial_heap :: heap where
  "initial_heap = empty_heap\<lparr>h_modules := [zero_module], h_bundles := [zero_bundle]\<rparr>"

definition run_module :: "engine \<Rightarrow> module_init list \<Rightarrow> module_ref \<Rightarrow> heap \<Rightarrow> (nat \<times> string list) res" where
  "run_module e inits m s =
     andThen (vm_init e inits m s) (\<lambda>vm.
     andThen (exec_module e m vm) (\<lambda>vm1. Inr (0, stdout vm1)))"

definition run_loaded ::
    "engine \<Rightarrow> module_init list \<Rightarrow> LoadResult \<times> heap \<Rightarrow> (nat \<times> string list) res" where
  "run_loaded e inits r =
     (case r of
        (LOAD_MODULE, s) \<Rightarrow> run_module e inits 0 s
      | (LOAD_BUNDLE, s) \<Rightarrow>
          andThen (deref (h_bundles s) 0) (\<lambda>bun.
            if entryPoint bun = 0 then Inr (0, stdout s)
            else andThen (bundle_get_module (Some 0) (entryPoint bun) s) (\<lambda>m. run_module e inits m s)))"

definition debug_main ::
    "engine \<Rightarrow> module_init list \<Rightarrow> file_system \<Rightarrow> string list \<Rightarrow> (nat \<times> string list) res" where
  "debug_main e inits files argv =
     (if length argv < 2 then Inr (1, [''Usage: ./atomix <filename>''])
      else andThen (unknown_load_from_file files (argv ! 1) 0 0 initial_heap) (run_loaded e inits))"

definition release_main ::
    "engine \<Rightarrow> module_init list \<Rightarrow> u8 list \<Rightarrow> (nat \<times> string list) res" where
  "release_main e inits bytecode =
     andThen (unknown_load_from_buffer bytecode 0 0 initial_heap) (run_loaded e inits)"

end
