(* ===== verification/Atomix_Invariant.thy ===== *)
theory Atomix_Invariant
  imports Atomix_Loader
begin

text \<open>
  The invariant of the heap: every pointer stored in a block leads to a block, dictionaries
  are well formed, modules that can run have exports, a scope and well-formed instructions.
  The operations of \<open>object.c\<close>, \<open>scope.c\<close>, \<open>function.c\<close> and \<open>symbol.c\<close> keep it and only
  extend the heap, so a pointer that was valid stays valid.

  \<open>safe Q r\<close> is the partial-correctness judgement used throughout: \<open>r\<close> is a result that
  satisfies \<open>Q\<close>, or an error that is no memory error.
\<close>

section \<open>Safe results\<close>

definition memory_error :: "error \<Rightarrow> bool" where
  "memory_error e \<longleftrightarrow>
     e \<in> {Fault Null_Deref, Fault Dangling, Fault Uninitialised, Fault Wrong_Cast}"

definition safe :: "('a \<Rightarrow> bool) \<Rightarrow> 'a res \<Rightarrow> bool" where
  "safe Q r = (case r of Inl e \<Rightarrow> \<not> memory_error e | Inr x \<Rightarrow> Q x)"

lemma memory_error_simps [simp]:
  "\<not> memory_error (Panic msg)" "\<not> memory_error Diverge" "\<not> memory_error (Fault Out_Of_Bounds)"
  "\<not> memory_error (Fault Signed_Overflow)" "\<not> memory_error (Fault Bad_Shift)"
  "\<not> memory_error (Fault Float_Cast)" "\<not> memory_error (Fault Type_Pun)"
  "\<not> memory_error (Fault Unsequenced)"
  "memory_error (Fault Null_Deref)" "memory_error (Fault Dangling)"
  "memory_error (Fault Uninitialised)" "memory_error (Fault Wrong_Cast)"
  by (simp_all add: memory_error_def)

lemma safe_Inr [simp]: "safe Q (Inr x) \<longleftrightarrow> Q x"
  by (simp add: safe_def)

lemma safe_Inl [simp]: "safe Q (Inl e) \<longleftrightarrow> \<not> memory_error e"
  by (simp add: safe_def)

lemma safe_andThen [simp]: "safe Q (andThen m f) \<longleftrightarrow> safe (\<lambda>x. safe Q (f x)) m"
  by (cases m) auto

lemma safe_guard [simp]: "safe Q (guard b e) \<longleftrightarrow> (if b then Q () else \<not> memory_error e)"
  by (simp add: guard_def)

lemma safe_mono: "safe P r \<Longrightarrow> (\<And>x. P x \<Longrightarrow> Q x) \<Longrightarrow> safe Q r"
  by (cases r) auto

lemma safe_deref: "a < length h \<Longrightarrow> Q (h ! a) \<Longrightarrow> safe Q (deref h a)"
  by simp

lemma safe_ptr: "p = Some a \<Longrightarrow> Q a \<Longrightarrow> safe Q (ptr p)"
  by simp

lemma safe_array_at [simp]: "safe Q (array_at xs i) \<longleftrightarrow> (i < length xs \<longrightarrow> Q (xs ! i))"
  by (simp add: array_at_def)

section \<open>Valid pointers\<close>

fun valid_value :: "'a heap_scheme \<Rightarrow> JSValue \<Rightarrow> bool" where
  "valid_value s (JS_OBJECT a) = (a < length (h_objects s))"
| "valid_value s (JS_FUNC f) = (f < length (h_functions s))"
| "valid_value s (JS_SYMBOL a) = (a < length (h_objects s))"
| "valid_value s (JS_GS_BOX b) = (b < length (h_boxes s))"
| "valid_value s _ = True"

definition wf_inst :: "inst_ptr \<Rightarrow> bool" where
  "wf_inst p =
     (case p of
        None \<Rightarrow> True
      | Some (Inst oc) \<Rightarrow> oc \<in> set plain_opcodes
      | Some (InstInt32 oc n) \<Rightarrow> oc = OP_LD_INT
      | Some (InstDouble oc d) \<Rightarrow> oc = OP_LD_DOUBLE
      | Some (InstUInt16 oc n) \<Rightarrow> oc \<in> set u16_opcodes
      | Some (Inst2UInt16 oc n m) \<Rightarrow> oc = OP_FUNC_DECL)"

definition good_module :: "'a heap_scheme \<Rightarrow> JSModule \<Rightarrow> bool" where
  "good_module s md \<longleftrightarrow>
     (\<exists>a. exports md = Some a \<and> a < length (h_objects s)) \<and>
     list_all wf_inst (instructions (data_section md)) \<and>
     (\<forall>b. module_bundle md = Some b \<longrightarrow> b < length (h_bundles s))"

definition runnable :: "'a heap_scheme \<Rightarrow> module_ref \<Rightarrow> bool" where
  "runnable s m \<longleftrightarrow>
     m < length (h_modules s) \<and> good_module s (h_modules s ! m) \<and>
     (\<exists>a. module_scope (h_modules s ! m) = Some a \<and> a < length (h_scopes s))"

definition known :: "'a heap_scheme \<Rightarrow> module_ref \<Rightarrow> bool" where
  "known s m \<longleftrightarrow>
     m < length (h_modules s) \<and> good_module s (h_modules s ! m) \<and>
     (initialized (h_modules s ! m) \<or> runnable s m)"

definition good_dict :: "'a heap_scheme \<Rightarrow> JSDict \<Rightarrow> bool" where
  "good_dict s d \<longleftrightarrow>
     wf_dict d \<and> (\<forall>k v. dict_map d k = Some v \<longrightarrow> valid_value s v) \<and>
     (\<forall>y v. dict_symbols d y = Some v \<longrightarrow> valid_value s v)"

definition good_object :: "'a heap_scheme \<Rightarrow> JSObject \<Rightarrow> bool" where
  "good_object s ob \<longleftrightarrow>
     (\<exists>p. prototype ob = Some p \<and> p < length (h_objects s)) \<and> good_dict s (properties ob)"

definition good_scope :: "'a heap_scheme \<Rightarrow> Scope \<Rightarrow> bool" where
  "good_scope s sc \<longleftrightarrow>
     (\<forall>p. parent sc = Some p \<longrightarrow> p < length (h_scopes s)) \<and> good_dict s (symbols sc)"

definition good_function :: "'a heap_scheme \<Rightarrow> JSFunction \<Rightarrow> bool" where
  "good_function s fn \<longleftrightarrow>
     base fn < length (h_objects s) \<and>
     (if is_native fn then native_function fn \<noteq> None
      else (\<exists>a. function_scope fn = Some a \<and> a < length (h_scopes s)) \<and>
           (\<exists>m. function_module fn = Some m \<and> runnable s m))"

definition good_box :: "'a heap_scheme \<Rightarrow> JSGSBox \<Rightarrow> bool" where
  "good_box s b \<longleftrightarrow>
     (\<forall>f. getter b = Some f \<longrightarrow> f < length (h_functions s)) \<and>
     (\<forall>f. setter b = Some f \<longrightarrow> f < length (h_functions s))"

definition good_global :: "'a heap_scheme \<Rightarrow> obj_ref option \<Rightarrow> bool" where
  "good_global s p \<longleftrightarrow> (\<forall>a. p = Some a \<longrightarrow> a < length (h_objects s))"

definition wf_blocks :: "'a heap_scheme \<Rightarrow> bool" where
  "wf_blocks s \<longleftrightarrow>
     list_all (good_object s) (h_objects s) \<and> list_all (good_scope s) (h_scopes s) \<and>
     list_all (good_function s) (h_functions s) \<and> list_all (good_box s) (h_boxes s) \<and>
     good_global s (object_prototype s) \<and> good_global s (array_prototype s) \<and>
     good_global s (function_prototype s) \<and> good_global s (symbol_prototype s) \<and>
     good_global s (to_primitive_symbol s)"

definition wf_modules :: "'a heap_scheme \<Rightarrow> bool" where
  "wf_modules s \<longleftrightarrow>
     list_all (\<lambda>b. list_all (runnable s) (bundle_modules b)) (h_bundles s) \<and>
     list_all (known s) (native_modules s)"

section \<open>Extension of the heap\<close>

text \<open>While the program runs a module changes only by being marked.\<close>

definition module_le :: "JSModule \<Rightarrow> JSModule \<Rightarrow> bool" where
  "module_le md md' \<longleftrightarrow> md' = md \<or> md' = md\<lparr>initialized := True\<rparr>"

lemma module_le_refl [simp]: "module_le md md"
  by (simp add: module_le_def)

lemma module_le_trans: "module_le a b \<Longrightarrow> module_le b c \<Longrightarrow> module_le a c"
  by (auto simp: module_le_def)

definition extends :: "'a heap_scheme \<Rightarrow> 'b heap_scheme \<Rightarrow> bool" where
  "extends s s' \<longleftrightarrow>
     length (h_objects s) \<le> length (h_objects s') \<and> length (h_scopes s) \<le> length (h_scopes s') \<and>
     length (h_functions s) \<le> length (h_functions s') \<and> length (h_boxes s) \<le> length (h_boxes s') \<and>
     (\<forall>f < length (h_functions s). h_functions s' ! f = h_functions s ! f) \<and>
     length (h_modules s) = length (h_modules s') \<and>
     (\<forall>m < length (h_modules s). module_le (h_modules s ! m) (h_modules s' ! m)) \<and>
     h_bundles s' = h_bundles s \<and> native_modules s' = native_modules s"

definition heap_step :: "'a heap_scheme \<Rightarrow> 'a heap_scheme \<Rightarrow> bool" where
  "heap_step s s' \<longleftrightarrow> extends s s' \<and> heap.more s' = heap.more s"

lemma extends_refl [simp]: "extends s s"
  by (simp add: extends_def)

lemma extends_trans: "extends s s' \<Longrightarrow> extends s' s'' \<Longrightarrow> extends s s''"
  unfolding extends_def by auto (blast intro: module_le_trans)

lemma heap_step_refl [simp]: "heap_step s s"
  by (simp add: heap_step_def)

lemma heap_step_trans: "heap_step s s' \<Longrightarrow> heap_step s' s'' \<Longrightarrow> heap_step s s''"
  by (auto simp: heap_step_def intro: extends_trans)

lemma extends_lengths:
  assumes "extends s s'"
  shows "a < length (h_objects s) \<Longrightarrow> a < length (h_objects s')"
    and "a < length (h_scopes s) \<Longrightarrow> a < length (h_scopes s')"
    and "a < length (h_functions s) \<Longrightarrow> a < length (h_functions s')"
    and "a < length (h_boxes s) \<Longrightarrow> a < length (h_boxes s')"
    and "a < length (h_modules s) \<Longrightarrow> a < length (h_modules s')"
  using assms by (auto simp: extends_def)

lemma extends_function:
  "extends s s' \<Longrightarrow> f < length (h_functions s) \<Longrightarrow> h_functions s' ! f = h_functions s ! f"
  by (simp add: extends_def)

lemma valid_value_mono: "extends s s' \<Longrightarrow> valid_value s v \<Longrightarrow> valid_value s' v"
  by (cases v) (auto simp: extends_lengths)

lemma good_dict_mono: "extends s s' \<Longrightarrow> good_dict s d \<Longrightarrow> good_dict s' d"
  by (auto simp: good_dict_def valid_value_mono)

lemma good_object_mono: "extends s s' \<Longrightarrow> good_object s ob \<Longrightarrow> good_object s' ob"
  by (auto simp: good_object_def good_dict_mono extends_lengths)

lemma good_scope_mono: "extends s s' \<Longrightarrow> good_scope s sc \<Longrightarrow> good_scope s' sc"
  by (auto simp: good_scope_def good_dict_mono extends_lengths)

lemma good_module_mono: "extends s s' \<Longrightarrow> good_module s md \<Longrightarrow> good_module s' md"
  by (auto simp: good_module_def extends_lengths) (simp add: extends_def)

lemma good_module_init [simp]: "good_module s (md\<lparr>initialized := b\<rparr>) = good_module s md"
  by (simp add: good_module_def)

lemma module_mono:
  assumes "extends s s'" "m < length (h_modules s)"
  shows "good_module s (h_modules s ! m) \<Longrightarrow> good_module s' (h_modules s' ! m)"
    and "module_scope (h_modules s' ! m) = module_scope (h_modules s ! m)"
    and "initialized (h_modules s ! m) \<Longrightarrow> initialized (h_modules s' ! m)"
    and "exports (h_modules s' ! m) = exports (h_modules s ! m)"
  using assms good_module_mono [OF assms(1)] by (auto simp: extends_def module_le_def)

lemma runnable_mono: "extends s s' \<Longrightarrow> runnable s m \<Longrightarrow> runnable s' m"
  by (auto simp: runnable_def module_mono extends_lengths)

lemma known_mono: "extends s s' \<Longrightarrow> known s m \<Longrightarrow> known s' m"
  by (auto simp: known_def module_mono extends_lengths runnable_mono)

lemma good_function_mono: "extends s s' \<Longrightarrow> good_function s fn \<Longrightarrow> good_function s' fn"
  by (auto simp: good_function_def extends_lengths runnable_mono split: if_splits)

lemma good_box_mono: "extends s s' \<Longrightarrow> good_box s b \<Longrightarrow> good_box s' b"
  by (auto simp: good_box_def extends_lengths)

lemma good_global_mono: "extends s s' \<Longrightarrow> good_global s p \<Longrightarrow> good_global s' p"
  by (auto simp: good_global_def extends_lengths)

lemma wf_modules_mono: "extends s s' \<Longrightarrow> wf_modules s \<Longrightarrow> wf_modules s'"
  using runnable_mono [of s s'] known_mono [of s s']
  by (auto simp: wf_modules_def list_all_iff) (auto simp: extends_def)

section \<open>Rebuilding the invariant\<close>

lemma wf_blocksI:
  assumes "wf_blocks s" "extends s s'"
    and "\<And>ob. ob \<in> set (h_objects s') \<Longrightarrow> ob \<in> set (h_objects s) \<or> good_object s' ob"
    and "\<And>sc. sc \<in> set (h_scopes s') \<Longrightarrow> sc \<in> set (h_scopes s) \<or> good_scope s' sc"
    and "\<And>fn. fn \<in> set (h_functions s') \<Longrightarrow> fn \<in> set (h_functions s) \<or> good_function s' fn"
    and "h_boxes s' = h_boxes s"
    and "object_prototype s' = object_prototype s \<or> good_global s' (object_prototype s')"
    and "array_prototype s' = array_prototype s \<or> good_global s' (array_prototype s')"
    and "function_prototype s' = function_prototype s \<or> good_global s' (function_prototype s')"
    and "symbol_prototype s' = symbol_prototype s \<or> good_global s' (symbol_prototype s')"
    and "to_primitive_symbol s' = to_primitive_symbol s \<or> good_global s' (to_primitive_symbol s')"
  shows "wf_blocks s'"
  unfolding wf_blocks_def list_all_iff
proof (intro conjI ballI)
  note wf = assms(1) [unfolded wf_blocks_def list_all_iff]
  note mono = good_object_mono [OF assms(2)] good_scope_mono [OF assms(2)] good_function_mono [OF assms(2)]
    good_box_mono [OF assms(2)] good_global_mono [OF assms(2)]
  show "good_object s' ob" if "ob \<in> set (h_objects s')" for ob using assms(3) that wf mono(1) by blast
  show "good_scope s' sc" if "sc \<in> set (h_scopes s')" for sc using assms(4) that wf mono(2) by blast
  show "good_function s' fn" if "fn \<in> set (h_functions s')" for fn using assms(5) that wf mono(3) by blast
  show "good_box s' b" if "b \<in> set (h_boxes s')" for b using assms(6) that wf mono(4) by simp
  show "good_global s' (object_prototype s')" using assms(7) wf mono(5) by auto
  show "good_global s' (array_prototype s')" using assms(8) wf mono(5) by auto
  show "good_global s' (function_prototype s')" using assms(9) wf mono(5) by auto
  show "good_global s' (symbol_prototype s')" using assms(10) wf mono(5) by auto
  show "good_global s' (to_primitive_symbol s')" using assms(11) wf mono(5) by auto
qed

lemma wf_blocks_object: "wf_blocks s \<Longrightarrow> a < length (h_objects s) \<Longrightarrow> good_object s (h_objects s ! a)"
  by (simp add: wf_blocks_def list_all_length)

lemma wf_blocks_scope: "wf_blocks s \<Longrightarrow> a < length (h_scopes s) \<Longrightarrow> good_scope s (h_scopes s ! a)"
  by (simp add: wf_blocks_def list_all_length)

lemma wf_blocks_function: "wf_blocks s \<Longrightarrow> f < length (h_functions s) \<Longrightarrow> good_function s (h_functions s ! f)"
  by (simp add: wf_blocks_def list_all_length)

lemma wf_blocks_box: "wf_blocks s \<Longrightarrow> b < length (h_boxes s) \<Longrightarrow> good_box s (h_boxes s ! b)"
  by (simp add: wf_blocks_def list_all_length)

lemma set_update_cases: "x \<in> set (xs[i := y]) \<Longrightarrow> x \<in> set xs \<or> x = y"
  using set_update_subset_insert [of xs i y] by auto

section \<open>Dictionaries\<close>

lemma good_dict_create: "0 < n \<Longrightarrow> good_dict s (dict_create_dict n)"
  by (simp add: good_dict_def wf_dict_create dict_map_create dict_symbols_create)

lemma good_dict_put: "good_dict s d \<Longrightarrow> valid_value s v \<Longrightarrow> good_dict s (dict_put d k v)"
  by (auto simp: good_dict_def wf_dict_put dict_map_put dict_symbols_put)

lemma good_dict_put_symbol: "good_dict s d \<Longrightarrow> valid_value s v \<Longrightarrow> good_dict s (dict_put_symbol d y v)"
  by (auto simp: good_dict_def wf_dict_put_symbol dict_map_put_symbol dict_symbols_put_symbol)

lemma dict_value_valid:
  assumes "good_dict s d"
  shows "dict_get d k = Some p \<Longrightarrow> valid_value s (dict_value d p)"
    and "dict_get_by_symbol d y = Some p \<Longrightarrow> valid_value s (dict_value d p)"
  using assms unfolding good_dict_def dict_map_def dict_symbols_def
  by (metis option.simps(9))+

section \<open>Objects\<close>

text \<open>A step that only works on blocks: what every operation on the heap does.\<close>

definition block_step :: "'a heap_scheme \<Rightarrow> 'a heap_scheme \<Rightarrow> bool" where
  "block_step s s' \<longleftrightarrow> wf_blocks s' \<and> heap_step s s'"

lemma block_step_refl: "wf_blocks s \<Longrightarrow> block_step s s"
  by (simp add: block_step_def)

lemma block_step_trans: "block_step s s' \<Longrightarrow> block_step s' s'' \<Longrightarrow> block_step s s''"
  by (auto simp: block_step_def intro: heap_step_trans)

lemma block_stepD:
  assumes "block_step s s'"
  shows "wf_blocks s'" and "extends s s'" and "heap.more s' = heap.more s"
  using assms by (simp_all add: block_step_def heap_step_def)

lemma object_create_ok:
  assumes "wf_blocks s" "p < length (h_objects s)" "object_create_object (Some p) s = (a, s')"
  shows "block_step s s' \<and> a = length (h_objects s) \<and> length (h_objects s') = Suc a \<and>
    h_objects s' ! a = \<lparr>prototype = Some p, properties = dict_create_dict OBJECT_BUCKET_SIZE\<rparr>"
proof -
  have s': "s' = s\<lparr>h_objects := h_objects s @
      [\<lparr>prototype = Some p, properties = dict_create_dict OBJECT_BUCKET_SIZE\<rparr>]\<rparr>"
    and a: "a = length (h_objects s)"
    using assms(3) by (auto simp: object_create_object_def)
  have ext: "extends s s'" by (simp add: s' extends_def)
  have "wf_blocks s'"
    by (rule wf_blocksI [OF assms(1) ext])
      (use assms(2) in \<open>auto simp: s' good_object_def good_dict_create OBJECT_BUCKET_SIZE_def\<close>)
  with ext show ?thesis by (simp add: block_step_def heap_step_def s' a)
qed

lemma object_write_ok:
  assumes "wf_blocks s" "a < length (h_objects s)" "good_dict s d"
  shows "block_step s (object_write a d s)"
proof -
  let ?s' = "object_write a d s"
  have ext: "extends s ?s'" by (simp add: object_write_def extends_def)
  have "good_object s ((h_objects s ! a)\<lparr>properties := d\<rparr>)"
    using wf_blocks_object [OF assms(1,2)] assms(3) by (simp add: good_object_def)
  from good_object_mono [OF ext this] have "wf_blocks ?s'"
    by (intro wf_blocksI [OF assms(1) ext]) (auto simp: object_write_def dest: set_update_cases)
  with ext show ?thesis by (simp add: block_step_def heap_step_def object_write_def)
qed

lemma object_assign_ok:
  assumes "wf_blocks s" "a < length (h_objects s)" "valid_value s v"
  shows "block_step s (object_assign a k v s)"
  using wf_blocks_object [OF assms(1,2)] assms unfolding object_assign_def good_object_def
  by (intro object_write_ok good_dict_put) auto

lemma object_assign_symbol_ok:
  assumes "wf_blocks s" "a < length (h_objects s)" "valid_value s v"
  shows "block_step s (object_assign_symbol a y v s)"
  using wf_blocks_object [OF assms(1,2)] assms unfolding object_assign_symbol_def good_object_def
  by (intro object_write_ok good_dict_put_symbol) auto

lemma object_set_prototype_ok:
  assumes "wf_blocks s" "a < length (h_objects s)" "p < length (h_objects s)"
  shows "block_step s (object_set_prototype a (Some p) s)"
proof -
  let ?s' = "object_set_prototype a (Some p) s"
  have ext: "extends s ?s'" by (simp add: object_set_prototype_def extends_def)
  have "good_object s ((h_objects s ! a)\<lparr>prototype := Some p\<rparr>)"
    using wf_blocks_object [OF assms(1,2)] assms(3) by (simp add: good_object_def)
  from good_object_mono [OF ext this] have "wf_blocks ?s'"
    by (intro wf_blocksI [OF assms(1) ext]) (auto simp: object_set_prototype_def dest: set_update_cases)
  with ext show ?thesis by (simp add: block_step_def heap_step_def object_set_prototype_def)
qed

section \<open>The global prototypes\<close>

lemma wf_blocks_globals:
  assumes "wf_blocks s"
  shows "object_prototype s = Some p \<Longrightarrow> p < length (h_objects s)"
    and "array_prototype s = Some p \<Longrightarrow> p < length (h_objects s)"
    and "function_prototype s = Some p \<Longrightarrow> p < length (h_objects s)"
    and "symbol_prototype s = Some p \<Longrightarrow> p < length (h_objects s)"
    and "to_primitive_symbol s = Some p \<Longrightarrow> p < length (h_objects s)"
  using assms by (auto simp: wf_blocks_def good_global_def)

lemma set_global_ok:
  assumes "wf_blocks s" "p < length (h_objects s)"
  shows "block_step s (s\<lparr>array_prototype := Some p\<rparr>)"
    and "block_step s (s\<lparr>function_prototype := Some p\<rparr>)"
    and "block_step s (s\<lparr>symbol_prototype := Some p\<rparr>)"
    and "block_step s (s\<lparr>to_primitive_symbol := Some p\<rparr>)"
proof -
  have ext: "extends s (s\<lparr>array_prototype := Some p\<rparr>)" "extends s (s\<lparr>function_prototype := Some p\<rparr>)"
    "extends s (s\<lparr>symbol_prototype := Some p\<rparr>)" "extends s (s\<lparr>to_primitive_symbol := Some p\<rparr>)"
    by (simp_all add: extends_def)
  have "wf_blocks (s\<lparr>array_prototype := Some p\<rparr>)" "wf_blocks (s\<lparr>function_prototype := Some p\<rparr>)"
    "wf_blocks (s\<lparr>symbol_prototype := Some p\<rparr>)" "wf_blocks (s\<lparr>to_primitive_symbol := Some p\<rparr>)"
    using assms(2) by (auto intro!: wf_blocksI [OF assms(1)] simp: ext good_global_def)
  with ext show "block_step s (s\<lparr>array_prototype := Some p\<rparr>)" "block_step s (s\<lparr>function_prototype := Some p\<rparr>)"
    "block_step s (s\<lparr>symbol_prototype := Some p\<rparr>)" "block_step s (s\<lparr>to_primitive_symbol := Some p\<rparr>)"
    by (simp_all add: block_step_def heap_step_def)
qed

lemma object_get_object_prototype_ok:
  assumes "wf_blocks s" "object_get_object_prototype s = (p, s')"
  shows "block_step s s' \<and> p < length (h_objects s')"
proof (cases "object_prototype s")
  case (Some q)
  with assms show ?thesis
    by (auto simp: object_get_object_prototype_def wf_blocks_globals block_step_refl)
next
  case None
  let ?ob = "\<lparr>prototype = Some p, properties = dict_create_dict OBJECT_BUCKET_SIZE\<rparr>"
  have p: "p = length (h_objects s)"
    and s': "s' = s\<lparr>h_objects := h_objects s @ [?ob], object_prototype := Some p\<rparr>"
    using assms(2) None
    by (auto simp: object_get_object_prototype_def object_create_object_def object_set_prototype_def)
  have ext: "extends s s'" by (simp add: s' extends_def)
  have "wf_blocks s'"
    by (rule wf_blocksI [OF assms(1) ext])
      (auto simp: s' p good_object_def good_dict_create OBJECT_BUCKET_SIZE_def good_global_def)
  with ext show ?thesis by (simp add: block_step_def heap_step_def s' p)
qed

text \<open>The other three are created as objects below the object prototype.\<close>

lemma create_global_ok:
  assumes "wf_blocks s" "object_get_object_prototype s = (q, s1)" "object_create_object (Some q) s1 = (p, s2)"
  shows "block_step s (s2\<lparr>array_prototype := Some p\<rparr>)" "block_step s (s2\<lparr>function_prototype := Some p\<rparr>)"
    "block_step s (s2\<lparr>symbol_prototype := Some p\<rparr>)" "p < length (h_objects s2)"
proof -
  have 1: "block_step s s1" "q < length (h_objects s1)"
    using object_get_object_prototype_ok [OF assms(1,2)] by auto
  note 2 = object_create_ok [OF block_stepD(1) [OF 1(1)] 1(2) assms(3)]
  then have "block_step s s2" "p < length (h_objects s2)" using 1 by (auto intro: block_step_trans)
  then show "block_step s (s2\<lparr>array_prototype := Some p\<rparr>)" "block_step s (s2\<lparr>function_prototype := Some p\<rparr>)"
    "block_step s (s2\<lparr>symbol_prototype := Some p\<rparr>)" "p < length (h_objects s2)"
    by (auto intro: block_step_trans set_global_ok block_stepD)
qed

lemma object_get_array_prototype_ok:
  assumes "wf_blocks s" "object_get_array_prototype s = (p, s')"
  shows "block_step s s' \<and> p < length (h_objects s')"
  using assms wf_blocks_globals(2) [OF assms(1)]
  by (auto simp: object_get_array_prototype_def block_step_refl dest: create_global_ok
      split: option.splits prod.splits)

lemma object_get_function_prototype_ok:
  assumes "wf_blocks s" "object_get_function_prototype s = (p, s')"
  shows "block_step s s' \<and> p < length (h_objects s')"
  using assms wf_blocks_globals(3) [OF assms(1)]
  by (auto simp: object_get_function_prototype_def block_step_refl dest: create_global_ok
      split: option.splits prod.splits)

lemma object_get_symbol_prototype_ok:
  assumes "wf_blocks s" "object_get_symbol_prototype s = (p, s')"
  shows "block_step s s' \<and> p < length (h_objects s')"
  using assms wf_blocks_globals(4) [OF assms(1)]
  by (auto simp: object_get_symbol_prototype_def block_step_refl dest: create_global_ok
      split: option.splits prod.splits)

section \<open>Scopes\<close>

lemma scope_create_ok:
  assumes "wf_blocks s" "\<And>q. p = Some q \<Longrightarrow> q < length (h_scopes s)" "scope_create_scope p s = (a, s')"
  shows "block_step s s' \<and> a < length (h_scopes s')"
proof -
  have s': "s' = s\<lparr>h_scopes := h_scopes s @
      [\<lparr>parent = p, symbols = dict_create_dict SCOPE_BUCKET_SIZE\<rparr>]\<rparr>"
    and a: "a = length (h_scopes s)"
    using assms(3) by (auto simp: scope_create_scope_def)
  have ext: "extends s s'" by (simp add: s' extends_def)
  have "wf_blocks s'"
    by (rule wf_blocksI [OF assms(1) ext])
      (use assms(2) in \<open>auto simp: s' good_scope_def good_dict_create SCOPE_BUCKET_SIZE_def less_Suc_eq\<close>)
  with ext show ?thesis by (simp add: block_step_def heap_step_def s' a)
qed

lemma scope_replace_ok:
  assumes "wf_blocks s" "good_scope s sc"
  shows "block_step s (s\<lparr>h_scopes := (h_scopes s)[a := sc]\<rparr>)"
proof -
  let ?s' = "s\<lparr>h_scopes := (h_scopes s)[a := sc]\<rparr>"
  have ext: "extends s ?s'" by (simp add: extends_def)
  from good_scope_mono [OF ext assms(2)] have "wf_blocks ?s'"
    by (intro wf_blocksI [OF assms(1) ext]) (auto dest: set_update_cases)
  with ext show ?thesis by (simp add: block_step_def heap_step_def)
qed

lemma scope_assign_ok:
  assumes "wf_blocks s" "a < length (h_scopes s)" "valid_value s v"
  shows "block_step s (scope_assign a k v s)"
  unfolding scope_assign_def scope_write_def
  by (rule scope_replace_ok [OF assms(1)])
    (use wf_blocks_scope [OF assms(1,2)] assms(3) in \<open>auto simp: good_scope_def good_dict_put\<close>)

lemma scope_declare_ok:
  assumes "wf_blocks s" "a < length (h_scopes s)" "valid_value s v"
  shows "safe (block_step s) (scope_declare a k v s)"
  using assms by (simp add: scope_declare_eq scope_assign_ok)

lemma scope_lookup_valid:
  assumes "wf_blocks s" "a < length (h_scopes s)" "dict_get (symbols (h_scopes s ! a)) k = Some p"
  shows "valid_value s (dict_value (symbols (h_scopes s ! a)) p)"
  using dict_value_valid(1) [of s "symbols (h_scopes s ! a)"] wf_blocks_scope [OF assms(1,2)] assms(3)
  by (simp add: good_scope_def)

lemma scope_get_ok:
  assumes "wf_blocks s" "a < length (h_scopes s)"
  shows "safe (valid_value s) (scope_get a k s)"
proof -
  have "a < length (h_scopes s) \<Longrightarrow> safe (valid_value s) (scope_get_rec n a k s)" for n
  proof (induction n arbitrary: a)
    case (Suc n)
    then show ?case
      using wf_blocks_scope [OF assms(1)]
      by (auto simp: scope_lookup_valid [OF assms(1)] good_scope_def split: option.split)
  qed simp
  with assms(2) show ?thesis unfolding scope_get_def by blast
qed

lemma scope_contains_ok:
  assumes "wf_blocks s" "a < length (h_scopes s)"
  shows "safe (\<lambda>b. True) (scope_contains a k ps s)"
proof -
  have "a < length (h_scopes s) \<Longrightarrow> safe (\<lambda>b. True) (scope_contains_rec n a k ps s)" for n ps
  proof (induction n arbitrary: a ps)
    case (Suc n)
    then show ?case
      using wf_blocks_scope [OF assms(1)] by (auto simp: good_scope_def split: option.split)
  qed simp
  with assms(2) show ?thesis unfolding scope_contains_def by blast
qed

lemma scope_set_ok:
  assumes "wf_blocks s" "a < length (h_scopes s)" "valid_value s v"
  shows "safe (\<lambda>r. block_step s (snd r)) (scope_set a k v s)"
proof -
  have "a < length (h_scopes s) \<Longrightarrow> safe (\<lambda>r. block_step s (snd r)) (scope_set_rec n a k v s)" for n
  proof (induction n arbitrary: a)
    case (Suc n)
    have "block_step s (scope_write a (dict_store (symbols (h_scopes s ! a)) p v) s)"
      if "dict_get (symbols (h_scopes s ! a)) k = Some p" for p
      using scope_assign_ok [OF assms(1) Suc.prems assms(3), of k] that
      by (simp add: scope_assign_def dict_put_def)
    with Suc show ?case
      using wf_blocks_scope [OF assms(1) Suc.prems] block_step_refl [OF assms(1)]
      by (auto simp: good_scope_def split: option.split)
  qed simp
  with assms(2) show ?thesis unfolding scope_set_def by blast
qed

section \<open>Properties\<close>

lemma own_valid: "wf_blocks s \<Longrightarrow> a < length (h_objects s) \<Longrightarrow> own s a k = Some v \<Longrightarrow> valid_value s v"
  using wf_blocks_object [of s a] by (auto simp: good_object_def good_dict_def own_def)

lemma own_symbol_valid:
  "wf_blocks s \<Longrightarrow> a < length (h_objects s) \<Longrightarrow> own_symbol s a y = Some v \<Longrightarrow> valid_value s v"
  using wf_blocks_object [of s a] by (auto simp: good_object_def good_dict_def own_symbol_def)

lemma call_setter_ok:
  assumes "wf_blocks s" "b < length (h_boxes s)"
    and "\<And>f. f < length (h_functions s) \<Longrightarrow> safe (\<lambda>r. Q (snd r)) (call f (JS_OBJECT a) [v] s)"
  shows "safe Q (call_setter call a b v s)"
  using wf_blocks_box [OF assms(1,2)] assms(2,3)
  by (auto simp: call_setter_def good_box_def case_prod_beta split: option.split)

lemma call_getter_ok:
  assumes "wf_blocks s" "b < length (h_boxes s)"
    and "\<And>f. f < length (h_functions s) \<Longrightarrow> safe Q (call f (JS_OBJECT a) [] s)"
  shows "safe Q (call_getter call a b s)"
  using wf_blocks_box [OF assms(1,2)] assms(2,3)
  by (auto simp: call_getter_def good_box_def split: option.split)

lemma object_set_property_ok:
  assumes "wf_blocks s" "a < length (h_objects s)" "valid_value s v"
    and "\<And>f. f < length (h_functions s) \<Longrightarrow> safe (\<lambda>r. Q (snd r)) (call f (JS_OBJECT a) [v] s)"
    and "\<And>s'. block_step s s' \<Longrightarrow> Q s'"
  shows "safe Q (object_set_property call a k v s)"
  using assms(2) assms(5) [OF object_assign_ok [OF assms(1-3)]] own_valid [OF assms(1,2), of k]
  by (auto simp: object_set_property_eq intro!: call_setter_ok [OF assms(1)] assms(4)
      split: option.split JSValue.split)

lemma object_set_property_with_symbol_ok:
  assumes "wf_blocks s" "a < length (h_objects s)" "valid_value s v"
    and "\<And>f. f < length (h_functions s) \<Longrightarrow> safe (\<lambda>r. Q (snd r)) (call f (JS_OBJECT a) [v] s)"
    and "\<And>s'. block_step s s' \<Longrightarrow> Q s'"
  shows "safe Q (object_set_property_with_symbol call a y v s)"
  using assms(2) assms(5) [OF object_assign_symbol_ok [OF assms(1-3)]] own_symbol_valid [OF assms(1,2), of y]
  by (auto simp: object_set_property_with_symbol_eq intro!: call_setter_ok [OF assms(1)] assms(4)
      split: option.split JSValue.split)

lemma object_get_property_ok:
  assumes "wf_blocks s" "a < length (h_objects s)"
    and "\<And>f b. f < length (h_functions s) \<Longrightarrow> b < length (h_objects s) \<Longrightarrow> safe Q (call f (JS_OBJECT b) [] s)"
    and "\<And>v. valid_value s v \<Longrightarrow> Q (v, s)"
  shows "safe Q (object_get_property call a k s)"
proof -
  have "a < length (h_objects s) \<Longrightarrow> safe Q (object_get_property_rec n call a k s)" for n
  proof (induction n arbitrary: a)
    case (Suc n)
    note ob = wf_blocks_object [OF assms(1) Suc.prems, unfolded good_object_def]
    then show ?case
      using Suc assms(4) dict_value_valid(1) [of s "properties (h_objects s ! a)" k]
      by (auto intro!: call_getter_ok [OF assms(1)] assms(3) split: option.split JSValue.split)
  qed simp
  with assms(2) show ?thesis unfolding object_get_property_def by blast
qed

lemma object_get_property_by_symbol_ok:
  assumes "wf_blocks s" "a < length (h_objects s)"
    and "\<And>f b. f < length (h_functions s) \<Longrightarrow> b < length (h_objects s) \<Longrightarrow> safe Q (call f (JS_OBJECT b) [] s)"
    and "\<And>v. valid_value s v \<Longrightarrow> Q (v, s)"
  shows "safe Q (object_get_property_by_symbol call a y s)"
proof -
  have "a < length (h_objects s) \<Longrightarrow> safe Q (object_get_property_by_symbol_rec n call a y s)" for n
  proof (induction n arbitrary: a)
    case (Suc n)
    note ob = wf_blocks_object [OF assms(1) Suc.prems, unfolded good_object_def]
    then show ?case
      using Suc assms(4) dict_value_valid(2) [of s "properties (h_objects s ! a)" y]
      by (auto intro!: call_getter_ok [OF assms(1)] assms(3) split: option.split JSValue.split)
  qed simp
  with assms(2) show ?thesis unfolding object_get_property_by_symbol_def by blast
qed

lemma value_is_array_ok:
  assumes "wf_blocks s" "valid_value s v"
  shows "safe (\<lambda>r. block_step s (snd r)) (value_is_array v s)"
proof (cases v)
  case (JS_OBJECT a)
  obtain op s1 ap s2 where op: "object_get_object_prototype s = (op, s1)"
    and ap: "object_get_array_prototype s1 = (ap, s2)" by fastforce
  have 1: "block_step s s1" using object_get_object_prototype_ok [OF assms(1) op] by simp
  have "block_step s1 s2" using object_get_array_prototype_ok [OF block_stepD(1) [OF 1] ap] by simp
  with 1 have 2: "block_step s s2" by (rule block_step_trans)
  then have a: "a < length (h_objects s2)"
    using assms(2) JS_OBJECT extends_lengths(1) [OF block_stepD(2) [OF 2]] by simp
  have rec: "\<exists>q. p = Some q \<and> q < length (h_objects s2) \<Longrightarrow> safe (\<lambda>b. True) (is_array_rec n op ap p s2)" for n p
  proof (induction n arbitrary: p)
    case (Suc n)
    then show ?case
      using wf_blocks_object [OF block_stepD(1) [OF 2]] by (auto simp: good_object_def)
  qed simp
  have "\<exists>q. prototype (h_objects s2 ! a) = Some q \<and> q < length (h_objects s2)"
    using wf_blocks_object [OF block_stepD(1) [OF 2] a] by (simp add: good_object_def)
  from rec [OF this] have "safe (\<lambda>r. block_step s s2)
      (is_array_rec (length (h_objects s2) + 2) op ap (prototype (h_objects s2 ! a)) s2)"
    by (rule safe_mono) (rule 2)
  with a show ?thesis by (simp add: value_is_array_def JS_OBJECT op ap del: is_array_rec.simps)
qed (simp_all add: value_is_array_def block_step_refl assms(1))

section \<open>Functions and symbols\<close>

text \<open>Creating an object leaves the older objects and the functions alone.\<close>

lemma object_get_object_prototype_frame:
  assumes "object_get_object_prototype s = (p, s')"
  shows "h_functions s' = h_functions s"
    and "b < length (h_objects s) \<Longrightarrow> h_objects s' ! b = h_objects s ! b"
  using assms
  by (auto simp: object_get_object_prototype_def object_create_object_def object_set_prototype_def nth_append
      split: option.splits)

lemma object_create_object_frame:
  assumes "object_create_object q s = (p, s')"
  shows "h_functions s' = h_functions s"
    and "b < length (h_objects s) \<Longrightarrow> h_objects s' ! b = h_objects s ! b"
  using assms by (auto simp: object_create_object_def nth_append)

lemma object_get_function_prototype_frame:
  assumes "object_get_function_prototype s = (p, s')"
  shows "h_functions s' = h_functions s"
  using assms
  by (auto simp: object_get_function_prototype_def object_get_object_prototype_frame
      object_create_object_frame split: option.splits prod.splits)

definition fresh_object :: "'a heap_scheme \<Rightarrow> obj_ref \<Rightarrow> bool" where
  "fresh_object s b \<longleftrightarrow>
     b < length (h_objects s) \<and> properties (h_objects s ! b) = dict_create_dict OBJECT_BUCKET_SIZE"

lemma fresh_object_own: "fresh_object s b \<Longrightarrow> own s b k = None"
  by (simp add: fresh_object_def own_def dict_map_create OBJECT_BUCKET_SIZE_def)

lemma fresh_object_set:
  "fresh_object s b \<Longrightarrow> object_set_property call b k v s = Inr (object_assign b k v s)"
  by (rule object_set_property_plain) (simp_all add: fresh_object_own is_box_def, simp add: fresh_object_def)

lemma fresh_object_assign: "fresh_object s b \<Longrightarrow> a \<noteq> b \<Longrightarrow> fresh_object (object_assign a k v s) b"
  by (simp add: fresh_object_def object_assign_def object_write_def nth_update_if)

lemma object_create_fresh: "object_create_object q s = (p, s') \<Longrightarrow> fresh_object s' p"
  by (auto simp: object_create_object_def fresh_object_def)

lemma function_link_prototype_ok:
  assumes "wf_blocks s" "fresh_object s b" "f < length (h_functions s)"
  shows "\<exists>s'. function_link_prototype f b s = Inr s' \<and> block_step s s'"
proof -
  obtain op s1 p s2 where op: "object_get_object_prototype s = (op, s1)"
    and p: "object_create_object (Some op) s1 = (p, s2)" by fastforce
  have b: "b < length (h_objects s)" using assms(2) by (simp add: fresh_object_def)
  have 1: "block_step s s1" "op < length (h_objects s1)"
    using object_get_object_prototype_ok [OF assms(1) op] by auto
  have 2: "block_step s1 s2" "p = length (h_objects s1)" "p < length (h_objects s2)"
    using object_create_ok [OF block_stepD(1) [OF 1(1)] 1(2) p] by auto
  have b1: "b < length (h_objects s1)" by (rule extends_lengths(1) [OF block_stepD(2) [OF 1(1)] b])
  then have ne: "p \<noteq> b" using 2(2) by simp
  have "h_objects s2 ! b = h_objects s ! b"
    using object_create_object_frame(2) [OF p b1] object_get_object_prototype_frame(2) [OF op b] by simp
  then have fb: "fresh_object s2 b"
    using assms(2) b1 2(2,3) by (simp add: fresh_object_def)
  let ?s3 = "object_assign p ''constructor'' (JS_FUNC f) s2"
  let ?s4 = "object_assign b ''prototype'' (JS_OBJECT p) ?s3"
  have f: "valid_value s2 (JS_FUNC f)"
    using assms(3) block_step_trans [OF 1(1) 2(1)]
    by (auto dest: block_stepD(2) simp: extends_lengths)
  have 3: "block_step s2 ?s3"
    by (rule object_assign_ok [OF block_stepD(1) [OF 2(1)] 2(3) f])
  have fb3: "fresh_object ?s3 b" by (rule fresh_object_assign [OF fb ne])
  have 4: "block_step ?s3 ?s4"
    using fb3 extends_lengths(1) [OF block_stepD(2) [OF 3] 2(3)]
    by (intro object_assign_ok block_stepD(1) [OF 3]) (simp_all add: fresh_object_def)
  have "function_link_prototype f b s = Inr ?s4"
    by (simp add: function_link_prototype_def op p fresh_object_set [OF object_create_fresh [OF p]]
        fresh_object_set [OF fb3])
  moreover have "block_step s ?s4"
    using 1(1) 2(1) 3 4 by (blast intro: block_step_trans)
  ultimately show ?thesis by blast
qed

lemma function_append_ok:
  assumes "wf_blocks s" "good_function s fn"
  shows "block_step s (s\<lparr>h_functions := h_functions s @ [fn]\<rparr>)"
proof -
  let ?s' = "s\<lparr>h_functions := h_functions s @ [fn]\<rparr>"
  have ext: "extends s ?s'" by (simp add: extends_def nth_append)
  from good_function_mono [OF ext assms(2)] have "wf_blocks ?s'"
    by (intro wf_blocksI [OF assms(1) ext]) auto
  with ext show ?thesis by (simp add: block_step_def heap_step_def)
qed

text \<open>The end of both constructors: the struct is complete but for the links of its base.\<close>

lemma function_finish_ok:
  assumes "block_step s s3" "h_functions s3 = h_functions s" "fresh_object s3 b" "good_function s3 fn"
  shows "\<exists>s'. function_link_prototype (length (h_functions s)) b (s3\<lparr>h_functions := h_functions s3 @ [fn]\<rparr>) =
      Inr s' \<and> block_step s s' \<and> length (h_functions s) < length (h_functions s')"
proof -
  let ?s4 = "s3\<lparr>h_functions := h_functions s3 @ [fn]\<rparr>"
  have 4: "block_step s3 ?s4" by (rule function_append_ok [OF block_stepD(1) [OF assms(1)] assms(4)])
  have "fresh_object ?s4 b" "length (h_functions s) < length (h_functions ?s4)"
    using assms(2,3) by (simp_all add: fresh_object_def)
  from function_link_prototype_ok [OF block_stepD(1) [OF 4] this] obtain s'
    where s': "function_link_prototype (length (h_functions s)) b ?s4 = Inr s'" "block_step ?s4 s'" by blast
  moreover have "length (h_functions s) < length (h_functions s')"
    using extends_lengths(3) [OF block_stepD(2) [OF s'(2)], of "length (h_functions s)"] assms(2) by simp
  ultimately show ?thesis using assms(1) 4 by (blast intro: block_step_trans)
qed

lemma function_create_native_function_ok:
  assumes "wf_blocks s"
  shows "\<exists>f s'. function_create_native_function n s = Inr (f, s') \<and> block_step s s' \<and> f < length (h_functions s')"
proof -
  obtain op s1 b s2 where op: "object_get_object_prototype s = (op, s1)"
    and b: "object_create_object (Some op) s1 = (b, s2)" by fastforce
  have 1: "block_step s s1" "op < length (h_objects s1)"
    using object_get_object_prototype_ok [OF assms op] by auto
  have 2: "block_step s1 s2" using object_create_ok [OF block_stepD(1) [OF 1(1)] 1(2) b] by simp
  have fns: "h_functions s2 = h_functions s"
    by (simp add: object_create_object_frame [OF b] object_get_object_prototype_frame [OF op])
  note fresh = object_create_fresh [OF b]
  have "good_function s2
      \<lparr>base = b, native_function = Some n, function_scope = None, function_module = None,
       instruction_start = 0, instruction_end = 0, is_native = True\<rparr>"
    using fresh by (simp add: good_function_def fresh_object_def)
  from function_finish_ok [OF block_step_trans [OF 1(1) 2] fns fresh this] show ?thesis
    by (auto simp: function_create_native_function_def Let_def op b)
qed

lemma function_create_function_ok:
  assumes "wf_blocks s" "runnable s m" "\<And>q. ps = Some q \<Longrightarrow> q < length (h_scopes s)"
  shows "\<exists>f s'. function_create_function ps m i j s = Inr (f, s') \<and> block_step s s' \<and> f < length (h_functions s')"
proof -
  obtain sc s1 where sc: "scope_create_scope ps s = (sc, s1)" by fastforce
  obtain fp s2 b s3 where fp: "object_get_function_prototype s1 = (fp, s2)"
    and b: "object_create_object (Some fp) s2 = (b, s3)" by fastforce
  have 1: "block_step s s1" "sc < length (h_scopes s1)" using scope_create_ok [OF assms(1,3) sc] by auto
  have 2: "block_step s1 s2" "fp < length (h_objects s2)"
    using object_get_function_prototype_ok [OF block_stepD(1) [OF 1(1)] fp] by auto
  have 3: "block_step s2 s3" using object_create_ok [OF block_stepD(1) [OF 2(1)] 2(2) b] by simp
  have fns: "h_functions s3 = h_functions s"
    using sc by (auto simp: object_create_object_frame [OF b] object_get_function_prototype_frame [OF fp]
        scope_create_scope_def)
  note fresh = object_create_fresh [OF b]
  have 13: "block_step s1 s3" by (rule block_step_trans [OF 2(1) 3])
  have all: "block_step s s3" by (rule block_step_trans [OF 1(1) 13])
  have "good_function s3
      \<lparr>base = b, native_function = None, function_scope = Some sc, function_module = Some m,
       instruction_start = i, instruction_end = j, is_native = False\<rparr>"
    using fresh extends_lengths(2) [OF block_stepD(2) [OF 13] 1(2)]
      runnable_mono [OF block_stepD(2) [OF all] assms(2)]
    by (simp add: good_function_def fresh_object_def)
  from function_finish_ok [OF all fns fresh this] show ?thesis
    by (auto simp: function_create_function_def Let_def sc fp b)
qed

lemma createSymbol_ok:
  assumes "wf_blocks s"
  shows "\<exists>a s'. createSymbol call t s = Inr (a, s') \<and> block_step s s' \<and> a < length (h_objects s')"
proof -
  obtain q s1 a s2 where q: "object_get_symbol_prototype s = (q, s1)"
    and a: "object_create_object (Some q) s1 = (a, s2)" by fastforce
  have 1: "block_step s s1" "q < length (h_objects s1)"
    using object_get_symbol_prototype_ok [OF assms q] by auto
  have 2: "block_step s1 s2" "a < length (h_objects s2)"
    using object_create_ok [OF block_stepD(1) [OF 1(1)] 1(2) a] by auto
  have 3: "block_step s2 (object_assign a ''description'' (JS_STRING t) s2)"
    by (rule object_assign_ok [OF block_stepD(1) [OF 2(1)] 2(2)]) simp
  have "createSymbol call t s = Inr (a, object_assign a ''description'' (JS_STRING t) s2)"
    by (simp add: createSymbol_def q a fresh_object_set [OF object_create_fresh [OF a]])
  with 1(1) 2 3 show ?thesis
    by (auto intro: block_step_trans extends_lengths(1) [OF block_stepD(2)])
qed

lemma symbol_to_primitive_ok:
  assumes "wf_blocks s"
  shows "\<exists>v s'. symbol_to_primitive call s = Inr (v, s') \<and> block_step s s' \<and> valid_value s' v"
proof (cases "to_primitive_symbol s")
  case (Some a)
  then show ?thesis
    by (simp add: symbol_to_primitive_def wf_blocks_globals(5) [OF assms] block_step_refl [OF assms])
next
  case None
  obtain a s1 where a: "createSymbol call ''Symbol.toPrimitive'' s = Inr (a, s1)" "block_step s s1"
    "a < length (h_objects s1)" using createSymbol_ok [OF assms] by blast
  have "block_step s1 (s1\<lparr>to_primitive_symbol := Some a\<rparr>)"
    by (rule set_global_ok(4) [OF block_stepD(1) [OF a(2)] a(3)])
  with a None show ?thesis
    by (auto simp: symbol_to_primitive_def intro: block_step_trans)
qed

end
