(* ===== verification/Atomix_Safety.thy ===== *)
theory Atomix_Safety
  imports Atomix_Engine Atomix_Invariant
begin

text \<open>
  Memory safety of the interpreter: from a well-formed machine no instruction, native
  function or loop follows a null or dangling pointer, reads an indeterminate value or
  misreads an instruction, whatever the bytecode, and the machine stays well formed. What an
  engine promises its callers is the locale \<open>engine_contract\<close>; the instructions are proved
  safe once inside it, and it is interpreted on \<open>machine n\<close> by induction on the fuel.
\<close>

section \<open>Well-formed machines\<close>

definition good_stack :: "VM \<Rightarrow> bool" where
  "good_stack vm \<longleftrightarrow>
     wf_stack vm \<and> (\<forall>i < STACK_SIZE. \<forall>v. stack (stats vm) ! i = Some v \<longrightarrow> valid_value vm v)"

definition wf_vm :: "VM \<Rightarrow> bool" where
  "wf_vm vm \<longleftrightarrow>
     wf_blocks vm \<and> wf_modules vm \<and> runnable vm (vm_module vm) \<and>
     globalScope vm < length (h_scopes vm) \<and>
     (\<forall>a. vm_scope vm = Some a \<longrightarrow> a < length (h_scopes vm)) \<and> good_stack vm"

definition vm_step :: "VM \<Rightarrow> VM \<Rightarrow> bool" where
  "vm_step vm vm' \<longleftrightarrow> wf_vm vm' \<and> extends vm vm' \<and> (vm_scope vm \<noteq> None \<longrightarrow> vm_scope vm' \<noteq> None)"

definition running :: "VM \<Rightarrow> bool" where
  "running vm \<longleftrightarrow> wf_vm vm \<and> vm_scope vm \<noteq> None"

definition value_post :: "VM \<Rightarrow> JSValue \<times> VM \<Rightarrow> bool" where
  "value_post vm r \<longleftrightarrow> valid_value (snd r) (fst r) \<and> vm_step vm (snd r)"

lemma vm_step_refl: "wf_vm vm \<Longrightarrow> vm_step vm vm"
  by (simp add: vm_step_def)

lemma vm_step_trans: "vm_step a b \<Longrightarrow> vm_step b c \<Longrightarrow> vm_step a c"
  by (auto simp: vm_step_def intro: extends_trans)

lemma vm_stepD:
  assumes "vm_step vm vm'"
  shows "wf_vm vm'" and "extends vm vm'"
  using assms by (simp_all add: vm_step_def)

lemma vm_step_running: "running vm \<Longrightarrow> vm_step vm vm' \<Longrightarrow> running vm'"
  by (simp add: running_def vm_step_def)

lemma running_wf: "running vm \<Longrightarrow> wf_vm vm"
  by (simp add: running_def)

lemma wf_vm_blocks: "wf_vm vm \<Longrightarrow> wf_blocks vm"
  by (simp add: wf_vm_def)

lemma safe_bind:
  assumes "safe P m" "\<And>x. P x \<Longrightarrow> safe Q (f x)"
  shows "safe Q (andThen m f)"
  using safe_mono [OF assms] by simp

text \<open>The rule for a sequence of steps of the machine.\<close>

lemma safe_step:
  assumes "safe (vm_step vm) m" "\<And>vm'. vm_step vm vm' \<Longrightarrow> safe (vm_step vm') (f vm')"
  shows "safe (vm_step vm) (andThen m f)"
  using assms(1) by (rule safe_bind) (rule safe_mono [OF assms(2)], auto intro: vm_step_trans)

lemma vm_step_then: "vm_step a b \<Longrightarrow> safe (vm_step b) r \<Longrightarrow> safe (vm_step a) r"
  by (rule safe_mono [where P = "vm_step b"]) (auto intro: vm_step_trans)

lemma same_more:
  assumes "heap.more vm' = heap.more (vm :: VM)"
  shows "vm_module vm' = vm_module vm" "globalScope vm' = globalScope vm" "vm_scope vm' = vm_scope vm"
    "stats vm' = stats vm"
  using assms by (cases vm; cases vm'; simp)+

lemma good_stack_mono:
  assumes "good_stack vm" "extends vm vm'" "stats vm' = stats vm"
  shows "good_stack vm'"
  using assms by (auto simp: good_stack_def wf_stack_def valid_value_mono)

lemma block_step_vm:
  assumes "wf_vm vm" "block_step vm vm'"
  shows "vm_step vm vm'"
proof -
  note ext = block_stepD(2) [OF assms(2)]
  note more = same_more [OF block_stepD(3) [OF assms(2)]]
  have "wf_vm vm'"
    using assms(1) ext block_stepD(1) [OF assms(2)]
    by (auto simp: wf_vm_def more extends_lengths runnable_mono wf_modules_mono
        good_stack_mono [OF _ ext more(4)])
  with ext more show ?thesis by (simp add: vm_step_def)
qed

text \<open>Nothing on the heap looks at the registers of the machine.\<close>

lemma heap_ext_cong:
  assumes "heap.truncate s' = heap.truncate s"
  shows "h_objects s' = h_objects s" "h_scopes s' = h_scopes s" "h_functions s' = h_functions s"
    "h_boxes s' = h_boxes s" "h_modules s' = h_modules s" "h_bundles s' = h_bundles s"
    "native_modules s' = native_modules s" "object_prototype s' = object_prototype s"
    "array_prototype s' = array_prototype s" "function_prototype s' = function_prototype s"
    "symbol_prototype s' = symbol_prototype s" "to_primitive_symbol s' = to_primitive_symbol s"
  using assms by (simp_all add: heap.defs)

lemma same_heap:
  assumes "heap.truncate s' = heap.truncate s"
  shows "extends s s'" "wf_blocks s \<Longrightarrow> wf_blocks s'" "wf_modules s \<Longrightarrow> wf_modules s'"
proof -
  note eq = heap_ext_cong [OF assms]
  show ext: "extends s s'" by (simp add: extends_def eq)
  show "wf_modules s \<Longrightarrow> wf_modules s'" by (rule wf_modules_mono [OF ext])
  note mono = good_object_mono [OF ext] good_scope_mono [OF ext] good_function_mono [OF ext]
    good_box_mono [OF ext] good_global_mono [OF ext]
  show "wf_blocks s \<Longrightarrow> wf_blocks s'"
    unfolding wf_blocks_def eq by (auto intro: mono elim: list_all_mono2)
qed

text \<open>Changing registers only.\<close>

lemma register_step:
  assumes "wf_vm vm" "heap.truncate vm' = heap.truncate vm"
    and "vm_module vm' = vm_module vm" "globalScope vm' = globalScope vm" "vm_scope vm' = vm_scope vm"
    and "wf_stack vm'"
    and "\<And>i v. i < STACK_SIZE \<Longrightarrow> stack (stats vm') ! i = Some v \<Longrightarrow>
      stack (stats vm) ! i = Some v \<or> valid_value vm v"
  shows "vm_step vm vm'"
proof -
  note ext = same_heap(1) [OF assms(2)]
  have "good_stack vm'"
    using assms(1,6,7) valid_value_mono [OF ext] unfolding good_stack_def wf_vm_def by blast
  then have "wf_vm vm'"
    using assms(1) same_heap [OF assms(2)] runnable_mono [OF ext]
    by (simp add: wf_vm_def assms(3-5) extends_lengths)
  with ext show ?thesis by (simp add: vm_step_def assms(5))
qed

lemma truncate_stats [simp]: "heap.truncate (vm\<lparr>stats := st\<rparr>) = heap.truncate vm"
  by (simp add: heap.defs)

section \<open>The stack\<close>

lemma set_sp_ok: "wf_vm vm \<Longrightarrow> n \<le> sp vm \<Longrightarrow> vm_step vm (set_sp n vm)"
  by (rule register_step) (auto simp: set_sp_def wf_vm_def good_stack_def wf_stack_def)

lemma set_ic_ok: "wf_vm vm \<Longrightarrow> vm_step vm (set_ic n vm)"
  by (rule register_step) (auto simp: set_ic_def wf_vm_def good_stack_def wf_stack_def)

lemma stack_read_ok:
  assumes "wf_vm vm" "i < sp vm \<or> i < stack_start (stats vm)"
  shows "safe (valid_value vm) (stack_read i vm)"
  using assms by (auto simp: stack_read_def wf_vm_def good_stack_def wf_stack_def split: option.split)

lemma peek_ok: "wf_vm vm \<Longrightarrow> 0 < k \<Longrightarrow> safe (valid_value vm) (peek k vm)"
  by (auto simp: peek_def intro!: stack_read_ok)

lemma stack_write_ok:
  assumes "wf_vm vm" "valid_value vm v"
  shows "safe (vm_step vm) (stack_write i v vm)"
proof -
  have "vm_step vm (vm\<lparr>stats := (stats vm)\<lparr>stack := (stack (stats vm))[i := Some v]\<rparr>\<rparr>)"
    by (rule register_step [OF assms(1)])
      (use assms in \<open>auto simp: wf_vm_def good_stack_def wf_stack_def nth_update_if split: if_splits\<close>)
  then show ?thesis by (simp add: stack_write_def)
qed

lemma poke_ok: "wf_vm vm \<Longrightarrow> valid_value vm v \<Longrightarrow> safe (vm_step vm) (poke k v vm)"
  by (simp add: poke_def stack_write_ok)

lemma push_ok:
  assumes "wf_vm vm" "valid_value vm v"
  shows "safe (vm_step vm) (push v vm)"
proof (cases "sp vm < STACK_SIZE")
  case True
  have len: "length (stack (stats vm)) = STACK_SIZE"
    using assms(1) by (simp add: wf_vm_def good_stack_def wf_stack_def)
  have "vm_step vm (set_sp (Suc (sp vm))
      (vm\<lparr>stats := (stats vm)\<lparr>stack := (stack (stats vm))[sp vm := Some v]\<rparr>\<rparr>))"
    by (rule register_step [OF assms(1)])
      (use assms True in \<open>auto simp: set_sp_def wf_vm_def good_stack_def wf_stack_def nth_update_if less_Suc_eq
        split: if_splits\<close>)
  with True len show ?thesis by (simp add: push_def stack_write_def)
next
  case False
  with assms show ?thesis by (simp add: push_def stack_write_def wf_vm_def good_stack_def wf_stack_def)
qed

lemma pop_ok: "wf_vm vm \<Longrightarrow> safe (value_post vm) (pop vm)"
  unfolding pop_def
  by (rule safe_bind [OF peek_ok])
    (auto simp: value_post_def intro!: set_sp_ok valid_value_mono [OF vm_stepD(2) [OF set_sp_ok]])

lemma check_overflow_ok [simp]: "safe Q (check_overflow vm) \<longleftrightarrow> (sp vm < STACK_SIZE \<longrightarrow> Q ())"
  by (simp add: check_overflow_def)

lemma check_underflow_ok [simp]: "safe Q (check_underflow n vm) \<longleftrightarrow> (n \<le> sp vm \<longrightarrow> Q ())"
  by (simp add: check_underflow_def)

lemma drop_stack_ok: "wf_vm vm \<Longrightarrow> safe (vm_step vm) (drop_stack k vm)"
  by (simp add: drop_stack_def set_sp_ok)

text \<open>The same facts for the first step of a sequence.\<close>

lemma bind_check_overflow:
  "(sp vm < STACK_SIZE \<Longrightarrow> safe Q (f ())) \<Longrightarrow> safe Q (andThen (check_overflow vm) f)"
  by simp

lemma bind_check_underflow:
  "(n \<le> sp vm \<Longrightarrow> safe Q (f ())) \<Longrightarrow> safe Q (andThen (check_underflow n vm) f)"
  by simp

lemma bind_peek:
  "wf_vm vm \<Longrightarrow> 0 < k \<Longrightarrow> (\<And>v. valid_value vm v \<Longrightarrow> safe Q (f v)) \<Longrightarrow> safe Q (andThen (peek k vm) f)"
  by (rule safe_bind [OF peek_ok])

lemma bind_pop:
  assumes "wf_vm vm"
    and "\<And>v vm'. valid_value vm' v \<Longrightarrow> vm_step vm vm' \<Longrightarrow> safe (vm_step vm') (f (v, vm'))"
  shows "safe (vm_step vm) (andThen (pop vm) f)"
proof (rule safe_bind [OF pop_ok [OF assms(1)]])
  fix r
  assume "value_post vm r"
  then have r: "valid_value (snd r) (fst r)" "vm_step vm (snd r)" by (simp_all add: value_post_def)
  from assms(2) [OF r] show "safe (vm_step vm) (f r)"
    using vm_step_then [OF r(2), of "f r"] by simp
qed

section \<open>Operands and strings\<close>

lemma as_i32_ok: "wf_inst p \<Longrightarrow> OPCODE_OF p = OP_LD_INT \<Longrightarrow> \<exists>n. as_InstInt32 p = Inr n"
  by (cases p rule: as_InstInt32.cases) (auto simp: wf_inst_def OPCODE_OF_def plain_opcodes_def u16_opcodes_def)

lemma as_f64_ok: "wf_inst p \<Longrightarrow> OPCODE_OF p = OP_LD_DOUBLE \<Longrightarrow> \<exists>n. as_InstDouble p = Inr n"
  by (cases p rule: as_InstDouble.cases) (auto simp: wf_inst_def OPCODE_OF_def plain_opcodes_def u16_opcodes_def)

lemma as_u16_ok: "wf_inst p \<Longrightarrow> OPCODE_OF p \<in> set u16_opcodes \<Longrightarrow> \<exists>n. as_InstUInt16 p = Inr n"
  by (cases p rule: as_InstUInt16.cases) (auto simp: wf_inst_def OPCODE_OF_def plain_opcodes_def u16_opcodes_def)

lemma as_2u16_ok: "wf_inst p \<Longrightarrow> OPCODE_OF p = OP_FUNC_DECL \<Longrightarrow> \<exists>n m. as_Inst2UInt16 p = Inr (n, m)"
  by (cases p rule: as_Inst2UInt16.cases) (auto simp: wf_inst_def OPCODE_OF_def plain_opcodes_def u16_opcodes_def)

lemma bytes_at_ok: "(\<And>bs. Q bs) \<Longrightarrow> safe Q (bytes_at buff i n)"
  by (simp add: bytes_at_def)

lemma string_table_ok: "(\<And>str. Q str) \<Longrightarrow> safe Q (string_table_load_str st idx)"
  by (simp add: string_table_load_str_def bytes_at_ok)

lemma current_module_ok: "wf_vm vm \<Longrightarrow> Q (h_modules vm ! vm_module vm) \<Longrightarrow> safe Q (current_module vm)"
  by (simp add: current_module_def wf_vm_def runnable_def)

lemma load_str_ok: "wf_vm vm \<Longrightarrow> (\<And>str. Q str) \<Longrightarrow> safe Q (load_str idx vm)"
  by (simp add: load_str_def current_module_ok string_table_ok)

lemma cur_scope_ok: "running vm \<Longrightarrow> safe (\<lambda>a. a < length (h_scopes vm)) (cur_scope vm)"
  by (auto simp: cur_scope_def running_def wf_vm_def split: option.split)

lemma base_object_ok: "wf_vm vm \<Longrightarrow> valid_value vm v \<Longrightarrow> safe (\<lambda>a. a < length (h_objects vm)) (base_object v vm)"
  using wf_blocks_function [of vm] by (cases v) (auto simp: wf_vm_def good_function_def)

section \<open>Operators\<close>

text \<open>The operators give numbers, booleans and strings only, so their results are valid anywhere.\<close>

fun no_pointer :: "JSValue \<Rightarrow> bool" where
  "no_pointer (JS_OBJECT a) = False"
| "no_pointer (JS_FUNC f) = False"
| "no_pointer (JS_SYMBOL a) = False"
| "no_pointer (JS_GS_BOX b) = False"
| "no_pointer v = True"

fun result_value :: "binary_result \<Rightarrow> JSValue" where
  "result_value (Replace_Both v) = v"
| "result_value (Replace_Top v) = v"

definition plain_result :: "binary_result res \<Rightarrow> bool" where
  "plain_result r \<longleftrightarrow> safe (\<lambda>x. no_pointer (result_value x)) r"

lemma no_pointer_valid: "no_pointer v \<Longrightarrow> valid_value s v"
  by (cases v) auto

lemma no_pointer_bool [simp]: "no_pointer (JS_VALUE_BOOL b)" "no_pointer (JS_VALUE_INT i)"
  by (simp_all add: JS_VALUE_BOOL_def JS_VALUE_INT_def)

lemma plain_both [simp]: "plain_result (both r) \<longleftrightarrow> safe no_pointer r"
  by (simp add: plain_result_def both_def)

lemma plain_simps [simp]:
  "plain_result (Inr x) \<longleftrightarrow> no_pointer (result_value x)"
  "plain_result (Inl e) \<longleftrightarrow> \<not> memory_error e"
  by (simp_all add: plain_result_def)

lemma as_int_ok: "(\<And>i. Q i) \<Longrightarrow> safe Q (as_int v)"
  by (cases v) auto

lemma f64_to_int_ok: "(\<And>i. Q i) \<Longrightarrow> safe Q (f64_to_int d)"
  by (cases "f64_to_int d") (auto simp: f64_to_int_def split: option.splits if_splits)

lemma to_int_ok: "(\<And>i. Q i) \<Longrightarrow> safe Q (to_int v)"
  by (cases v) (auto intro: as_int_ok f64_to_int_ok)

lemma to_double_ok: "(\<And>d. Q d) \<Longrightarrow> safe Q (to_double v)"
  by (cases v) auto

lemma i32_result_ok: "(\<And>i. Q i) \<Longrightarrow> safe Q (i32_result x)"
  by (simp add: i32_result_def)

lemma narrow_ok: "safe no_pointer (narrow r)"
  by (simp add: narrow_def f64_to_int_ok)

lemma value_is_falsy_ok: "(\<And>b. Q b) \<Longrightarrow> safe Q (value_is_falsy v)"
  by (cases v) auto

lemma value_is_truthy_ok: "(\<And>b. Q b) \<Longrightarrow> safe Q (value_is_truthy v)"
  by (simp add: value_is_truthy_def value_is_falsy_ok)

lemma value_to_string_ok: "(\<And>t. Q t) \<Longrightarrow> safe Q (value_to_string v)"
  by (cases v) auto

lemma bind_string: "(\<And>t. safe Q (f t)) \<Longrightarrow> safe Q (andThen (value_to_string v) f)"
  by (simp add: value_to_string_ok)

lemmas operand_ok = as_int_ok f64_to_int_ok to_int_ok to_double_ok i32_result_ok narrow_ok
  value_is_falsy_ok value_is_truthy_ok value_to_string_ok

lemma arithmetic_plain:
  "plain_result (add_values l r)" "plain_result (minus_values l r)" "plain_result (mul_values l r)"
  "plain_result (div_values l r)" "plain_result (mod_values l r)"
  by (auto simp: add_values_def minus_values_def mul_values_def div_values_def mod_values_def Let_def
      div_doubles_def i32_rem_def intro!: operand_ok)

lemma is_numeric_plain: "is_numeric v \<Longrightarrow> no_pointer v"
  by (cases v) (auto simp: is_numeric_def)

lemma bit_plain:
  "safe no_pointer (and_values l r)" "safe no_pointer (or_values l r)" "safe no_pointer (xor_values l r)"
  by (auto simp: and_values_def or_values_def xor_values_def one_numeric_def intro!: operand_ok)

lemma shift_plain:
  assumes "\<And>i j. safe (\<lambda>_. True) (f i j)"
  shows "safe no_pointer (shift_values f l r)"
  using assms by (auto simp: shift_values_def is_numeric_plain intro!: operand_ok)

lemma shift_ok: "safe (\<lambda>_. True) (c_shl i j)" "safe (\<lambda>_. True) (c_shr i j)" "safe (\<lambda>_. True) (c_ushr i j)"
  by (simp_all add: c_shl_def c_shr_def c_ushr_def)

lemma unary_plain:
  "safe no_pointer (not_value v)" "safe no_pointer (negate_value v)" "safe no_pointer (typeof_value v)"
  by (cases v; auto simp: not_value_def negate_value_def intro!: operand_ok)+

lemma equal_ok: "(\<And>b. Q b) \<Longrightarrow> safe Q (equal_values l r)"
  by (auto simp: equal_values_def intro!: operand_ok)

lemma relation_ok: "(\<And>b. Q b) \<Longrightarrow> safe Q (relation_values ri rd l r)"
  by (auto simp: relation_values_def split: JSValue.split)

lemma binary_inst_ok:
  assumes "wf_vm vm" "\<And>l r. plain_result (f l r)"
  shows "safe (vm_step vm) (binary_inst f vm p)"
proof -
  have top: "safe (vm_step vm) (poke 1 v vm)" if "no_pointer v" for v
    using assms(1) that by (intro poke_ok no_pointer_valid)
  have two: "safe (vm_step vm) (poke 1 v (set_sp (sp vm - 1) vm))" if "no_pointer v" for v
  proof -
    have 1: "vm_step vm (set_sp (sp vm - 1) vm)" by (rule set_sp_ok [OF assms(1)]) simp
    show ?thesis
      by (rule safe_mono [OF poke_ok [OF vm_stepD(1) [OF 1] no_pointer_valid [OF that]]])
        (rule vm_step_trans [OF 1])
  qed
  have frame: "safe (vm_step vm) (andThen (f l r)
      (\<lambda>x. case x of Replace_Both v \<Rightarrow> poke 1 v (set_sp (sp vm - 1) vm) | Replace_Top v \<Rightarrow> poke 1 v vm))" for l r
  proof (rule safe_bind [OF assms(2) [of l r, unfolded plain_result_def]])
    fix x
    assume "no_pointer (result_value x)"
    then show "safe (vm_step vm)
        (case x of Replace_Both v \<Rightarrow> poke 1 v (set_sp (sp vm - 1) vm) | Replace_Top v \<Rightarrow> poke 1 v vm)"
      using top two by (cases x) auto
  qed
  show ?thesis
    unfolding binary_inst_def by (intro bind_check_underflow bind_peek [OF assms(1)] frame) simp_all
qed

lemma unary_inst_ok:
  assumes "wf_vm vm" "\<And>v. safe no_pointer (f v)"
  shows "safe (vm_step vm) (unary_inst f vm p)"
proof -
  have frame: "safe (vm_step vm) (andThen (f v) (\<lambda>w. poke 1 w vm))" for v
    by (rule safe_bind [OF assms(2)]) (rule poke_ok [OF assms(1) no_pointer_valid])
  show ?thesis
    unfolding unary_inst_def by (intro bind_check_underflow bind_peek [OF assms(1)] frame) simp_all
qed

lemma operators_ok:
  assumes "wf_vm vm"
  shows "safe (vm_step vm) (inst_add vm p)" "safe (vm_step vm) (inst_minus vm p)"
    "safe (vm_step vm) (inst_mul vm p)" "safe (vm_step vm) (inst_div vm p)" "safe (vm_step vm) (inst_mod vm p)"
    "safe (vm_step vm) (inst_binary_and vm p)" "safe (vm_step vm) (inst_binary_or vm p)"
    "safe (vm_step vm) (inst_binary_xor vm p)" "safe (vm_step vm) (inst_binary_lshft vm p)"
    "safe (vm_step vm) (inst_binary_rshft vm p)" "safe (vm_step vm) (inst_binary_zrshft vm p)"
    "safe (vm_step vm) (inst_binary_not vm p)" "safe (vm_step vm) (inst_not vm p)"
    "safe (vm_step vm) (inst_negate vm p)" "safe (vm_step vm) (inst_typeof vm p)"
    "safe (vm_step vm) (inst_teq vm p)" "safe (vm_step vm) (inst_nteq vm p)"
    "safe (vm_step vm) (inst_gt vm p)" "safe (vm_step vm) (inst_geq vm p)"
    "safe (vm_step vm) (inst_lt vm p)" "safe (vm_step vm) (inst_leq vm p)"
  unfolding inst_add_def inst_minus_def inst_mul_def inst_div_def inst_mod_def inst_binary_and_def
    inst_binary_or_def inst_binary_xor_def inst_binary_lshft_def inst_binary_rshft_def
    inst_binary_zrshft_def inst_binary_not_def inst_not_def inst_negate_def inst_typeof_def inst_teq_def
    inst_nteq_def inst_gt_def inst_geq_def inst_lt_def inst_leq_def relation_inst_def
  by (intro binary_inst_ok unary_inst_ok assms;
      simp add: arithmetic_plain bit_plain shift_plain shift_ok unary_plain value_is_falsy_ok equal_ok
        relation_ok)+

section \<open>Instructions that do not call\<close>

lemma constants_ok:
  assumes "running vm" "wf_inst p"
  shows "safe (vm_step vm) (inst_nop vm p)"
    and "OPCODE_OF p = OP_LD_INT \<Longrightarrow> safe (vm_step vm) (inst_ld_int vm p)"
    and "OPCODE_OF p = OP_LD_DOUBLE \<Longrightarrow> safe (vm_step vm) (inst_ld_double vm p)"
    and "OPCODE_OF p = OP_LD_STRING \<Longrightarrow> safe (vm_step vm) (inst_ld_string vm p)"
    and "safe (vm_step vm) (inst_ld_undf vm p)"
    and "safe (vm_step vm) (inst_ld_null vm p)"
    and "safe (vm_step vm) (inst_ld_boolean vm p)"
  using running_wf [OF assms(1)] as_i32_ok [OF assms(2)] as_f64_ok [OF assms(2)] as_u16_ok [OF assms(2)]
  by (auto simp: inst_nop_def vm_step_refl inst_ld_int_def inst_ld_double_def inst_ld_string_def inst_ld_undf_def
      inst_ld_null_def inst_ld_boolean_def u16_opcodes_def no_pointer_valid intro!: push_ok load_str_ok)

lemma inst_ld_this_ok:
  assumes "running vm"
  shows "safe (vm_step vm) (inst_ld_this vm p)"
  unfolding inst_ld_this_def
proof (intro bind_check_overflow safe_bind [OF cur_scope_ok [OF assms]])
  fix sc
  assume "sc < length (h_scopes vm)"
  then show "safe (vm_step vm) (andThen (scope_get sc ''this'' vm) (\<lambda>v. push v vm))"
    using running_wf [OF assms] by (intro safe_bind [OF scope_get_ok] push_ok) (auto simp: wf_vm_def)
qed

lemma bind_poke:
  assumes "wf_vm vm" "valid_value vm v" "\<And>vm'. vm_step vm vm' \<Longrightarrow> safe (vm_step vm') (f vm')"
  shows "safe (vm_step vm) (andThen (poke k v vm) f)"
  by (rule safe_step [OF poke_ok [OF assms(1,2)] assms(3)])

lemma stack_ok:
  assumes "running vm"
  shows "safe (vm_step vm) (inst_pop vm p)" "safe (vm_step vm) (inst_dup vm p)" "safe (vm_step vm) (inst_swap vm p)"
proof -
  note wf = running_wf [OF assms]
  show "safe (vm_step vm) (inst_pop vm p)" by (simp add: inst_pop_def set_sp_ok [OF wf])
  show "safe (vm_step vm) (inst_dup vm p)"
    unfolding inst_dup_def
    by (intro bind_check_underflow bind_check_overflow bind_peek [OF wf] push_ok [OF wf]) simp_all
  show "safe (vm_step vm) (inst_swap vm p)"
    unfolding inst_swap_def
    by (intro bind_check_underflow bind_peek [OF wf] bind_poke [OF wf] poke_ok)
      (auto dest: vm_stepD intro: valid_value_mono)
qed

lemma bind_u16:
  assumes "wf_inst p" "OPCODE_OF p \<in> set u16_opcodes" "\<And>n. safe Q (f n)"
  shows "safe Q (andThen (as_InstUInt16 p) f)"
  using as_u16_ok [OF assms(1,2)] assms(3) by auto

lemma bind_load_str: "wf_vm vm \<Longrightarrow> (\<And>t. safe Q (f t)) \<Longrightarrow> safe Q (andThen (load_str idx vm) f)"
  by (simp add: load_str_ok)

lemma bind_cur_scope:
  "running vm \<Longrightarrow> (\<And>a. a < length (h_scopes vm) \<Longrightarrow> safe Q (f a)) \<Longrightarrow> safe Q (andThen (cur_scope vm) f)"
  by (rule safe_bind [OF cur_scope_ok])

lemma scope_declare_vm:
  assumes "wf_vm vm" "a < length (h_scopes vm)" "valid_value vm v"
  shows "safe (vm_step vm) (scope_declare a k v vm)"
  by (rule safe_mono [OF scope_declare_ok [OF wf_vm_blocks [OF assms(1)] assms(2,3)]])
    (rule block_step_vm [OF assms(1)])

lemma inst_alloc_store_local_ok:
  assumes "running vm" "wf_inst p" "OPCODE_OF p \<in> {OP_ALLOC_LOCAL, OP_STORE_LOCAL}"
  shows "safe (vm_step vm) (inst_alloc_store_local vm p)"
  unfolding inst_alloc_store_local_def Let_def
proof (intro bind_check_underflow bind_pop [OF running_wf [OF assms(1)]], unfold prod.case,
    intro bind_u16 [OF assms(2)])
  fix v vm1 idx
  assume v: "valid_value vm1 v" and step: "vm_step vm vm1"
  note run = vm_step_running [OF assms(1) step]
  note wf = running_wf [OF run]
  show "safe (vm_step vm1) (andThen (load_str idx vm1) (\<lambda>key. andThen (cur_scope vm1) (\<lambda>sc.
      if OPCODE_OF p = OP_ALLOC_LOCAL then scope_declare sc key v vm1
      else andThen (scope_set sc key v vm1) (\<lambda>(found, vm2).
             if found then Inr vm2 else Inl (Panic ''Could not update local'')))))"
  proof (intro bind_load_str [OF wf] bind_cur_scope [OF run])
    fix key a
    assume a: "a < length (h_scopes vm1)"
    have "safe (vm_step vm1) (andThen (scope_set a key v vm1) (\<lambda>(found, vm2).
        if found then Inr vm2 else Inl (Panic ''Could not update local'')))"
      by (rule safe_bind [OF scope_set_ok [OF wf_vm_blocks [OF wf] a v]])
        (auto intro: block_step_vm [OF wf])
    with scope_declare_vm [OF wf a v]
    show "safe (vm_step vm1) (if OPCODE_OF p = OP_ALLOC_LOCAL then scope_declare a key v vm1
        else andThen (scope_set a key v vm1) (\<lambda>(found, vm2).
             if found then Inr vm2 else Inl (Panic ''Could not update local'')))"
      by simp
  qed
qed (use assms(3) in \<open>auto simp: u16_opcodes_def\<close>)

lemma inst_load_local_ok:
  assumes "running vm" "wf_inst p" "OPCODE_OF p = OP_LOAD_LOCAL"
  shows "safe (vm_step vm) (inst_load_local vm p)"
  unfolding inst_load_local_def
proof (intro bind_check_overflow bind_u16 [OF assms(2)] bind_load_str [OF running_wf [OF assms(1)]]
    bind_cur_scope [OF assms(1)])
  fix key a
  assume a: "a < length (h_scopes vm)"
  note wf = running_wf [OF assms(1)]
  note get = safe_mono [OF scope_get_ok [OF wf_vm_blocks [OF wf] a]]
  show "safe (vm_step vm) (andThen (scope_contains a key True vm) (\<lambda>found.
      andThen (guard found (Panic ''Symbol not found'')) (\<lambda>_.
      andThen (scope_get a key vm) (\<lambda>v. push v vm))))"
    by (rule safe_bind [OF scope_contains_ok [OF wf_vm_blocks [OF wf] a]])
      (auto intro!: get push_ok [OF wf])
qed (use assms(3) in \<open>auto simp: u16_opcodes_def\<close>)

lemma inst_load_arg_ok:
  assumes "running vm" "wf_inst p" "OPCODE_OF p = OP_LOAD_ARG"
  shows "safe (vm_step vm) (inst_load_arg vm p)"
  unfolding inst_load_arg_def
proof (intro bind_u16 [OF assms(2)])
  fix n
  note wf = running_wf [OF assms(1)]
  show "safe (vm_step vm)
      (if stack_start (stats vm) \<le> n then push JS_UNDEFINED vm
       else andThen (stack_read (stack_start (stats vm) - n - 1) vm) (\<lambda>v. push v vm))"
    by (cases "stack_start (stats vm) \<le> n")
      (auto intro!: push_ok [OF wf] safe_mono [OF stack_read_ok [OF wf]])
qed (use assms(3) in \<open>auto simp: u16_opcodes_def\<close>)

lemma inst_func_decl_ok:
  assumes "running vm" "wf_inst p" "OPCODE_OF p \<in> {OP_FUNC_DECL, OP_FUNC_DECL_E}"
  shows "safe (vm_step vm) (inst_func_decl vm p)"
proof -
  note wf = running_wf [OF assms(1)]
  have declared: "safe (vm_step vm)
      (andThen (if b then andThen (load_str idx vm1) (\<lambda>key. scope_declare sc key (JS_FUNC f) vm1) else Inr vm1) (\<lambda>vm2.
       andThen (push (JS_FUNC f) vm2) (\<lambda>vm3. Inr (set_ic (ic vm3 + size) vm3))))"
    if "vm_step vm vm1" "f < length (h_functions vm1)" "sc < length (h_scopes vm1)" for b idx f sc vm1 size
  proof -
    note wf1 = vm_stepD(1) [OF that(1)]
    have "safe (vm_step vm1)
        (if b then andThen (load_str idx vm1) (\<lambda>key. scope_declare sc key (JS_FUNC f) vm1) else Inr vm1)"
      using that(2,3) by (auto intro!: bind_load_str [OF wf1] scope_declare_vm [OF wf1] vm_step_refl [OF wf1] simp del: safe_andThen)
    moreover have "safe (vm_step vm2) (andThen (push (JS_FUNC f) vm2) (\<lambda>vm3. Inr (set_ic (ic vm3 + size) vm3)))"
      if "vm_step vm1 vm2" for vm2
      using extends_lengths(3) [OF vm_stepD(2) [OF that] \<open>f < length (h_functions vm1)\<close>] vm_stepD(1) [OF that]
      by (intro safe_step [OF push_ok]) (auto intro: set_ic_ok dest: vm_stepD)
    ultimately show ?thesis by (rule vm_step_then [OF that(1) safe_step])
  qed
  have created: "safe (vm_step vm)
      (andThen (function_create_function (Some sc) (vm_module vm) (ic vm) (ic vm + size) vm) (\<lambda>(f, vm1).
       andThen (if b then andThen (load_str idx vm1) (\<lambda>key. scope_declare sc key (JS_FUNC f) vm1) else Inr vm1) (\<lambda>vm2.
       andThen (push (JS_FUNC f) vm2) (\<lambda>vm3. Inr (set_ic (ic vm3 + size) vm3)))))"
    if "sc < length (h_scopes vm)" for sc size b idx
  proof -
    have "runnable vm (vm_module vm)" using wf by (simp add: wf_vm_def)
    from function_create_function_ok [OF wf_vm_blocks [OF wf] this, of "Some sc" "ic vm" "ic vm + size"] that
    have "\<exists>f vm1. function_create_function (Some sc) (vm_module vm) (ic vm) (ic vm + size) vm = Inr (f, vm1) \<and>
        block_step vm vm1 \<and> f < length (h_functions vm1)" by blast
    then obtain f vm1 where f: "function_create_function (Some sc) (vm_module vm) (ic vm) (ic vm + size) vm = Inr (f, vm1)"
      "block_step vm vm1" "f < length (h_functions vm1)" by blast
    have "vm_step vm vm1" by (rule block_step_vm [OF wf f(2)])
    from declared [OF this f(3) extends_lengths(2) [OF block_stepD(2) [OF f(2)] that]]
    show ?thesis by (simp only: f(1) andThen_Inr prod.case)
  qed
  have "\<exists>idx size. (if OPCODE_OF p = OP_FUNC_DECL then as_Inst2UInt16 p
      else andThen (as_InstUInt16 p) (\<lambda>size. Inr (0, size))) = Inr (idx, size)"
    using assms(3) as_2u16_ok [OF assms(2)] as_u16_ok [OF assms(2)] by (auto simp: u16_opcodes_def)
  then obtain idx size where "(if OPCODE_OF p = OP_FUNC_DECL then as_Inst2UInt16 p
      else andThen (as_InstUInt16 p) (\<lambda>size. Inr (0, size))) = Inr (idx, size)" by blast
  then show ?thesis
    unfolding inst_func_decl_def Let_def
    by (simp only: andThen_Inr prod.case) (intro bind_check_overflow bind_cur_scope [OF assms(1)] created)
qed

lemma push_object_ok:
  assumes "wf_vm vm" "block_step vm vm1" "q < length (h_objects vm1)" "object_create_object (Some q) vm1 = (a, vm2)"
  shows "safe (vm_step vm) (push (JS_OBJECT a) vm2)"
proof -
  have "block_step vm1 vm2" "a < length (h_objects vm2)"
    using object_create_ok [OF block_stepD(1) [OF assms(2)] assms(3,4)] by auto
  then have "vm_step vm vm2" "valid_value vm2 (JS_OBJECT a)"
    using block_step_vm [OF assms(1) block_step_trans [OF assms(2)]] by auto
  then show ?thesis by (intro vm_step_then [OF _ push_ok]) (auto dest: vm_stepD)
qed

lemma alloc_ok:
  assumes "running vm"
  shows "safe (vm_step vm) (inst_arr_alloc vm p)" "safe (vm_step vm) (inst_obj_alloc vm p)"
  unfolding inst_arr_alloc_def inst_obj_alloc_def
  using push_object_ok [OF running_wf [OF assms]]
    object_get_array_prototype_ok [OF wf_vm_blocks [OF running_wf [OF assms]]]
    object_get_object_prototype_ok [OF wf_vm_blocks [OF running_wf [OF assms]]]
  by (auto split: prod.split)

lemma set_scope_ok:
  assumes "wf_vm vm" "a < length (h_scopes vm)"
  shows "vm_step vm (vm\<lparr>vm_scope := Some a\<rparr>)"
proof -
  have "heap.truncate (vm\<lparr>vm_scope := Some a\<rparr>) = heap.truncate vm" by (simp add: heap.defs)
  note h = same_heap [OF this] good_stack_mono [OF _ same_heap(1) [OF this]] runnable_mono [OF same_heap(1) [OF this]]
  show ?thesis
    using assms h by (simp add: vm_step_def wf_vm_def)
qed

lemma push_scope_ok:
  assumes "running vm"
  shows "safe (vm_step vm) (inst_push_scope vm p)"
  unfolding inst_push_scope_def
proof (intro bind_cur_scope [OF assms])
  fix sc
  assume sc: "sc < length (h_scopes vm)"
  note wf = running_wf [OF assms]
  obtain a vm1 where a: "scope_create_scope (Some sc) vm = (a, vm1)" by fastforce
  have "block_step vm vm1 \<and> a < length (h_scopes vm1)"
    using sc by (intro scope_create_ok [OF wf_vm_blocks [OF wf] _ a]) simp
  then have "vm_step vm (vm1\<lparr>vm_scope := Some a\<rparr>)"
    using block_step_vm [OF wf] set_scope_ok vm_stepD(1) vm_step_trans by meson
  with a show "safe (vm_step vm)
      (case scope_create_scope (Some sc) vm of (a, vm1) \<Rightarrow> Inr (vm1\<lparr>vm_scope := Some a\<rparr>))" by simp
qed

lemma pop_scope_ok:
  assumes "running vm"
  shows "safe (vm_step vm) (inst_pop_scope vm p)"
  unfolding inst_pop_scope_def
proof (intro bind_cur_scope [OF assms])
  fix a
  assume a: "a < length (h_scopes vm)"
  note wf = running_wf [OF assms]
  have "good_scope vm (h_scopes vm ! a)" by (rule wf_blocks_scope [OF wf_vm_blocks [OF wf] a])
  then show "safe (vm_step vm) (andThen (deref (h_scopes vm) a) (\<lambda>sc.
      case parent sc of None \<Rightarrow> Inl (Panic ''No parent scope to pop'')
      | Some q \<Rightarrow> Inr (vm\<lparr>vm_scope := Some q\<rparr>)))"
    using a set_scope_ok [OF wf] by (auto simp: good_scope_def split: option.split)
qed

lemma inst_jmp_ok:
  assumes "wf_vm vm" "wf_inst p" "OPCODE_OF p \<in> set u16_opcodes"
  shows "safe (vm_step vm) (inst_jmp vm p)"
  unfolding inst_jmp_def by (intro bind_u16 [OF assms(2,3)]) (simp add: set_ic_ok assms(1))

lemma jumps_ok:
  assumes "wf_vm vm" "wf_inst p" "OPCODE_OF p \<in> set u16_opcodes"
  shows "safe (vm_step vm) (inst_jmp_f vm p)" "safe (vm_step vm) (inst_jmp_t vm p)"
  unfolding inst_jmp_f_def inst_jmp_t_def
  by (intro bind_pop [OF assms(1)]; auto intro!: operand_ok inst_jmp_ok assms(2,3) vm_step_refl dest: vm_stepD)+

section \<open>What an engine promises\<close>

locale engine_contract =
  fixes e :: engine
  assumes call_ok: "wf_vm vm \<Longrightarrow> f < length (h_functions vm) \<Longrightarrow> valid_value vm this \<Longrightarrow>
      list_all (valid_value vm) args \<Longrightarrow> safe (value_post vm) (call_function e f this args vm)"
    and exec_function_ok: "wf_vm vm \<Longrightarrow> f < length (h_functions vm) \<Longrightarrow> \<not> is_native (h_functions vm ! f) \<Longrightarrow>
      safe (value_post vm) (exec_function e f vm)"
    and exec_module_ok: "wf_vm vm \<Longrightarrow> runnable vm m \<Longrightarrow> safe (vm_step vm) (exec_module e m vm)"
    and loop_function_ok: "running vm \<Longrightarrow> safe (vm_step vm) (loop_function e fin vm)"
    and loop_module_ok: "running vm \<Longrightarrow> safe (vm_step vm) (loop_module e vm)"

text \<open>Results of natives, and the rule for continuing after one.\<close>

lemma value_postI: "valid_value vm' v \<Longrightarrow> vm_step vm vm' \<Longrightarrow> value_post vm (v, vm')"
  by (simp add: value_post_def)

lemma value_post_then:
  assumes "vm_step vm vm1" "safe (value_post vm1) r"
  shows "safe (value_post vm) r"
  using assms(2) by (rule safe_mono) (auto simp: value_post_def intro: vm_step_trans [OF assms(1)])

lemma bind_value:
  assumes "safe (value_post vm) m"
    and "\<And>v vm'. valid_value vm' v \<Longrightarrow> vm_step vm vm' \<Longrightarrow> safe Q (f (v, vm'))"
  shows "safe Q (andThen m f)"
  using assms by (intro safe_bind [of "value_post vm"]) (auto simp: value_post_def)

lemma new_object:
  assumes "wf_vm vm" "block_step vm vm1" "q < length (h_objects vm1)" "object_create_object (Some q) vm1 = (a, vm2)"
  shows "vm_step vm vm2 \<and> a < length (h_objects vm2)"
proof -
  have "block_step vm1 vm2" "a < length (h_objects vm2)"
    using object_create_ok [OF block_stepD(1) [OF assms(2)] assms(3,4)] by auto
  then show ?thesis using block_step_vm [OF assms(1) block_step_trans [OF assms(2)]] by auto
qed

context engine_contract
begin

lemma set_property_ok:
  assumes "wf_vm vm" "a < length (h_objects vm)" "valid_value vm v"
  shows "safe (vm_step vm) (object_set_property (call_function e) a k v vm)"
proof (rule object_set_property_ok [OF wf_vm_blocks [OF assms(1)] assms(2,3)])
  show "safe (\<lambda>r. vm_step vm (snd r)) (call_function e f (JS_OBJECT a) [v] vm)"
    if "f < length (h_functions vm)" for f
    using call_ok [OF assms(1) that, of "JS_OBJECT a" "[v]"] assms(2,3)
    by (auto elim: safe_mono simp: value_post_def)
qed (rule block_step_vm [OF assms(1)])

lemma set_property_symbol_ok:
  assumes "wf_vm vm" "a < length (h_objects vm)" "valid_value vm v"
  shows "safe (vm_step vm) (object_set_property_with_symbol (call_function e) a y v vm)"
proof (rule object_set_property_with_symbol_ok [OF wf_vm_blocks [OF assms(1)] assms(2,3)])
  show "safe (\<lambda>r. vm_step vm (snd r)) (call_function e f (JS_OBJECT a) [v] vm)"
    if "f < length (h_functions vm)" for f
    using call_ok [OF assms(1) that, of "JS_OBJECT a" "[v]"] assms(2,3)
    by (auto elim: safe_mono simp: value_post_def)
qed (rule block_step_vm [OF assms(1)])

lemma get_property_ok:
  assumes "wf_vm vm" "a < length (h_objects vm)"
  shows "safe (value_post vm) (object_get_property (call_function e) a k vm)"
  using call_ok [OF assms(1)] vm_step_refl [OF assms(1)]
  by (intro object_get_property_ok [OF wf_vm_blocks [OF assms(1)] assms(2)]) (simp_all add: value_post_def)

lemma get_property_symbol_ok:
  assumes "wf_vm vm" "a < length (h_objects vm)"
  shows "safe (value_post vm) (object_get_property_by_symbol (call_function e) a y vm)"
  using call_ok [OF assms(1)] vm_step_refl [OF assms(1)]
  by (intro object_get_property_by_symbol_ok [OF wf_vm_blocks [OF assms(1)] assms(2)]) (simp_all add: value_post_def)

end

section \<open>Native functions\<close>

lemma print_ok: "wf_vm vm \<Longrightarrow> safe (value_post vm) (print_native vm this args)"
proof -
  assume wf: "wf_vm vm"
  let ?vm = "vm\<lparr>stdout := stdout vm @ (if args = [] then [''''] else concat (map print_line args))\<rparr>"
  have ext: "extends vm ?vm" by (simp add: extends_def)
  have "block_step vm ?vm"
    using wf_blocksI [OF wf_vm_blocks [OF wf] ext] ext by (simp add: block_step_def heap_step_def)
  then show ?thesis by (simp add: print_native_def value_post_def block_step_vm [OF wf])
qed

lemma module_get_export_obj_ok: "wf_vm vm \<Longrightarrow> safe (value_post vm) (module_get_export_obj vm this args)"
  unfolding module_get_export_obj_def safe_andThen
  by (rule current_module_ok) (auto simp: wf_vm_def runnable_def good_module_def value_post_def vm_step_refl)

lemma bundle_search_ok:
  assumes "list_all (runnable s) ms"
  shows "safe (\<lambda>r. \<forall>m. r = Some m \<longrightarrow> runnable s m) (bundle_search n low high ms h s)"
proof (induction n arbitrary: low high)
  case (Suc n)
  have run: "runnable s (ms ! i)" if "i < length ms" for i using assms that by (simp add: list_all_length)
  then have "ms ! i < length (h_modules s)" if "i < length ms" for i using that by (simp add: runnable_def)
  then show ?case using Suc run by (simp add: Let_def)
qed simp

lemma native_search_ok: "list_all (known s) ms \<Longrightarrow> safe (known s) (native_search ms h s)"
  by (induction ms) (auto simp: known_def)

lemma runnable_known: "runnable s m \<Longrightarrow> known s m"
  by (simp add: known_def runnable_def)

lemma bundle_get_module_ok:
  assumes "wf_modules s" "\<And>a. b = Some a \<Longrightarrow> a < length (h_bundles s)"
  shows "safe (known s) (bundle_get_module b h s)"
proof -
  have native: "safe (known s) (native_search (native_modules s) h s)"
    using assms(1) by (intro native_search_ok) (simp add: wf_modules_def)
  show ?thesis
  proof (cases b)
    case (Some a)
    then have a: "a < length (h_bundles s)" using assms(2) by simp
    then have "list_all (runnable s) (bundle_modules (h_bundles s ! a))"
      using assms(1) by (simp add: wf_modules_def list_all_length)
    then have "safe (known s) (andThen (bundle_search n low high (bundle_modules (h_bundles s ! a)) h s)
        (\<lambda>r. case r of Some m \<Rightarrow> Inr m | None \<Rightarrow> native_search (native_modules s) h s))" for n low high
      by (rule safe_bind [OF bundle_search_ok]) (auto split: option.split simp: native runnable_known)
    with a show ?thesis
      by (simp only: bundle_get_module_def Some option.case deref_lt andThen_Inr)
  qed (simp add: bundle_get_module_def native)
qed

lemma mark_initialized_ok:
  assumes "wf_vm vm"
  shows "vm_step vm (mark_initialized m vm)"
proof (rule block_step_vm [OF assms])
  have ext: "extends vm (mark_initialized m vm)"
    by (auto simp: extends_def mark_initialized_def nth_update_if module_le_def)
  then have "wf_blocks (mark_initialized m vm)"
    by (intro wf_blocksI [OF wf_vm_blocks [OF assms]]) (simp_all add: mark_initialized_def)
  with ext show "block_step vm (mark_initialized m vm)"
    by (simp add: block_step_def heap_step_def mark_initialized_def)
qed

lemma create_native_ok:
  assumes "wf_vm vm" "list_all (valid_value vm) args"
  shows "safe (value_post vm) (create_native vm this args)"
proof -
  have new: "safe (value_post vm) (case object_create_object (Some q) vm1 of (a, vm2) \<Rightarrow> Inr (JS_OBJECT a, vm2))"
    if "block_step vm vm1" "q < length (h_objects vm1)" for q vm1
    using new_object [OF assms(1) that] by (auto simp: value_post_def split: prod.split)
  have default: "safe (value_post vm) (case object_get_object_prototype vm of
      (op, vm1) \<Rightarrow> (case object_create_object (Some op) vm1 of (a, vm2) \<Rightarrow> Inr (JS_OBJECT a, vm2)))"
    using object_get_object_prototype_ok [OF wf_vm_blocks [OF assms(1)]] new by (auto split: prod.split)
  show ?thesis
    using assms(2) default new [OF block_step_refl [OF wf_vm_blocks [OF assms(1)]]]
    by (auto simp: create_native_def split: list.split JSValue.split)
qed

lemma setPrototypeOf_native_ok:
  assumes "wf_vm vm" "list_all (valid_value vm) args"
  shows "safe (value_post vm) (setPrototypeOf_native vm this args)"
proof -
  note none = value_postI [OF _ vm_step_refl [OF assms(1)], of JS_UNDEFINED, simplified]
  have "safe (value_post vm) (andThen (base_object t vm) (\<lambda>target. andThen (base_object p vm) (\<lambda>proto.
      andThen (deref (h_objects vm) target) (\<lambda>_. Inr (JS_UNDEFINED, object_set_prototype target (Some proto) vm)))))"
    if "valid_value vm t" "valid_value vm p" for t p
  proof (rule safe_bind [OF base_object_ok [OF assms(1) that(1)]],
      rule safe_bind [OF base_object_ok [OF assms(1) that(2)]])
    fix a q
    assume "a < length (h_objects vm)" "q < length (h_objects vm)"
    from this object_set_prototype_ok [OF wf_vm_blocks [OF assms(1)] this]
    show "safe (value_post vm) (andThen (deref (h_objects vm) a)
        (\<lambda>_. Inr (JS_UNDEFINED, object_set_prototype a (Some q) vm)))"
      by (simp add: value_post_def block_step_vm [OF assms(1)])
  qed
  then show ?thesis
    using assms(2) by (auto simp: setPrototypeOf_native_def none simp del: safe_andThen split: list.split)
qed

lemma is_array_native_ok:
  assumes "wf_vm vm" "list_all (valid_value vm) args"
  shows "safe (value_post vm) (is_array_native vm this args)"
proof -
  have "safe (value_post vm) (andThen (value_is_array v vm) (\<lambda>(b, vm'). Inr (JS_VALUE_BOOL b, vm')))"
    if "valid_value vm v" for v
    by (rule safe_bind [OF value_is_array_ok [OF wf_vm_blocks [OF assms(1)] that]])
      (auto simp: value_post_def no_pointer_valid block_step_vm [OF assms(1)] split: prod.split)
  then show ?thesis
    using assms by (auto simp: is_array_native_def value_post_def vm_step_refl no_pointer_valid
        simp del: safe_andThen split: list.split)
qed

context engine_contract
begin

lemma import_ok:
  assumes "wf_vm vm"
  shows "safe (value_post vm) (module_import_module e vm this args)"
proof -
  have import: "safe (value_post vm)
      (andThen (if initialized module then Inr vm else exec_module e m (mark_initialized m vm)) (\<lambda>vm'.
       andThen (deref (h_modules vm') m) (\<lambda>module'.
       andThen (ptr (exports module')) (\<lambda>a. Inr (JS_OBJECT a, vm')))))"
    if m: "known vm m" and eq: "module = h_modules vm ! m" for m module
  proof (rule safe_bind)
    show "safe (vm_step vm) (if initialized module then Inr vm else exec_module e m (mark_initialized m vm))"
    proof (cases "initialized module")
      case False
      note step = mark_initialized_ok [OF assms, of m]
      have "runnable (mark_initialized m vm) m"
        using m False by (intro runnable_mono [OF vm_stepD(2) [OF step]]) (simp add: known_def eq)
      with False show ?thesis
        by (simp add: vm_step_then [OF step exec_module_ok [OF vm_stepD(1) [OF step]]])
    qed (simp add: vm_step_refl assms)
  next
    fix vm'
    assume step: "vm_step vm vm'"
    have "known vm' m" by (rule known_mono [OF vm_stepD(2) [OF step] m])
    then show "safe (value_post vm) (andThen (deref (h_modules vm') m) (\<lambda>module'.
        andThen (ptr (exports module')) (\<lambda>a. Inr (JS_OBJECT a, vm'))))"
      using step by (auto simp: known_def good_module_def value_post_def)
  qed
  have "safe (value_post vm) (andThen (current_module vm) (\<lambda>cur.
      andThen (bundle_get_module (module_bundle cur) h vm) (\<lambda>m.
      andThen (deref (h_modules vm) m) (\<lambda>module.
      andThen (if initialized module then Inr vm else exec_module e m (mark_initialized m vm)) (\<lambda>vm'.
      andThen (deref (h_modules vm') m) (\<lambda>module'.
      andThen (ptr (exports module')) (\<lambda>a. Inr (JS_OBJECT a, vm'))))))))" for h
  proof -
    let ?cur = "h_modules vm ! vm_module vm"
    have cur: "\<And>a. module_bundle ?cur = Some a \<Longrightarrow> a < length (h_bundles vm)" "vm_module vm < length (h_modules vm)"
      using assms by (auto simp: wf_vm_def runnable_def good_module_def)
    have "wf_modules vm" using assms by (simp add: wf_vm_def)
    have "safe (value_post vm) (andThen (bundle_get_module (module_bundle ?cur) h vm) (\<lambda>m.
        andThen (deref (h_modules vm) m) (\<lambda>module.
        andThen (if initialized module then Inr vm else exec_module e m (mark_initialized m vm)) (\<lambda>vm'.
        andThen (deref (h_modules vm') m) (\<lambda>module'.
        andThen (ptr (exports module')) (\<lambda>a. Inr (JS_OBJECT a, vm')))))))"
    proof (rule safe_bind [OF bundle_get_module_ok [OF \<open>wf_modules vm\<close> cur(1)]])
      fix m
      assume m: "known vm m"
      then have "m < length (h_modules vm)" by (simp add: known_def)
      with import [OF m refl] show "safe (value_post vm) (andThen (deref (h_modules vm) m) (\<lambda>module.
        andThen (if initialized module then Inr vm else exec_module e m (mark_initialized m vm)) (\<lambda>vm'.
        andThen (deref (h_modules vm') m) (\<lambda>module'.
        andThen (ptr (exports module')) (\<lambda>a. Inr (JS_OBJECT a, vm'))))))"
        by (simp only: deref_lt andThen_Inr)
    qed
    with cur(2) show ?thesis by (simp only: current_module_def deref_lt andThen_Inr)
  qed
  then show ?thesis
    using vm_step_refl [OF assms]
    by (auto simp: module_import_module_def value_post_def simp del: safe_andThen split: list.split JSValue.split)
qed

lemma instantiate_ok:
  assumes "wf_vm vm" "list_all (valid_value vm) args"
  shows "safe (value_post vm) (instantiate_native e vm this args)"
proof -
  have built: "safe (value_post vm) (case object_create_object (Some p) vm1 of
      (obj, vm2) \<Rightarrow> andThen (call_function e f (JS_OBJECT obj) rest vm2) (\<lambda>(r, vm3).
         case r of JS_OBJECT a \<Rightarrow> Inr (r, vm3) | _ \<Rightarrow> Inr (JS_OBJECT obj, vm3)))"
    if "vm_step vm vm1" "p < length (h_objects vm1)" "f < length (h_functions vm)"
      "list_all (valid_value vm) rest" for p vm1 f rest
  proof -
    obtain obj vm2 where obj: "object_create_object (Some p) vm1 = (obj, vm2)" by fastforce
    note wf1 = vm_stepD(1) [OF that(1)]
    have 2: "vm_step vm1 vm2" "obj < length (h_objects vm2)"
      using new_object [OF wf1 block_step_refl [OF wf_vm_blocks [OF wf1]] that(2) obj] by auto
    note step = vm_step_trans [OF that(1) 2(1)]
    note ext = vm_stepD(2) [OF step]
    have "list_all (valid_value vm2) rest"
      using that(4) by (rule list_all_mono2) (rule valid_value_mono [OF ext])
    from call_ok [OF vm_stepD(1) [OF step] extends_lengths(3) [OF ext that(3)] _ this, of "JS_OBJECT obj"]
    have "safe (value_post vm2) (call_function e f (JS_OBJECT obj) rest vm2)" using 2(2) by simp
    then have "safe (value_post vm2) (andThen (call_function e f (JS_OBJECT obj) rest vm2) (\<lambda>(r, vm3).
         case r of JS_OBJECT a \<Rightarrow> Inr (r, vm3) | _ \<Rightarrow> Inr (JS_OBJECT obj, vm3)))"
    proof (rule bind_value)
      fix r vm3
      assume "valid_value vm3 r" "vm_step vm2 vm3"
      then show "safe (value_post vm2) (case (r, vm3) of (r, vm3) \<Rightarrow>
          case r of JS_OBJECT a \<Rightarrow> Inr (r, vm3) | _ \<Rightarrow> Inr (JS_OBJECT obj, vm3))"
        using extends_lengths(1) [OF vm_stepD(2) 2(2)] by (cases r) (auto simp: value_post_def)
    qed
    with obj show ?thesis by (simp add: value_post_then [OF step] del: safe_andThen)
  qed
  have "safe (value_post vm) (instantiate_native e vm this (JS_FUNC f # rest))"
    if "valid_value vm (JS_FUNC f)" "list_all (valid_value vm) rest" for f rest
  proof -
    have f: "f < length (h_functions vm)" "base (h_functions vm ! f) < length (h_objects vm)"
      using that(1) wf_blocks_function [OF wf_vm_blocks [OF assms(1)]] by (auto simp: good_function_def)
    have "safe (value_post vm) (andThen (object_get_property (call_function e) b ''prototype'' vm) (\<lambda>(proto, vm1).
            case proto of
              JS_OBJECT p \<Rightarrow>
                (case object_create_object (Some p) vm1 of
                   (obj, vm2) \<Rightarrow>
                     andThen (call_function e f (JS_OBJECT obj) rest vm2) (\<lambda>(r, vm3).
                       case r of JS_OBJECT a \<Rightarrow> Inr (r, vm3) | _ \<Rightarrow> Inr (JS_OBJECT obj, vm3)))
            | _ \<Rightarrow> Inr (JS_UNDEFINED, vm1)))" if "b < length (h_objects vm)" for b
      by (rule bind_value [OF get_property_ok [OF assms(1) that]])
        (auto simp: value_post_def intro!: built f \<open>list_all (valid_value vm) rest\<close> simp del: safe_andThen
          split: JSValue.split)
    with f show ?thesis by (simp add: instantiate_native_def del: safe_andThen)
  qed
  moreover have "safe (value_post vm) (Inr (JS_UNDEFINED, vm))"
    using vm_step_refl [OF assms(1)] by (simp add: value_post_def)
  ultimately show ?thesis
    using assms(2) by (cases args; cases "hd args") (auto simp: instantiate_native_def simp del: safe_andThen)
qed

end

context engine_contract
begin

lemma set_elements_ok:
  assumes "wf_vm vm" "arr < length (h_objects vm)" "list_all (valid_value vm) vs"
  shows "safe (vm_step vm) (set_elements (call_function e) arr i vs vm)"
  using assms
proof (induction vs arbitrary: i vm)
  case Nil
  then show ?case by (simp add: vm_step_refl)
next
  case (Cons v vs)
  have rest: "safe (vm_step vm') (set_elements (call_function e) arr (Suc i) vs vm')" if "vm_step vm vm'" for vm'
    using Cons.prems extends_lengths(1) [OF vm_stepD(2) [OF that]] valid_value_mono [OF vm_stepD(2) [OF that]]
    by (intro Cons.IH vm_stepD(1) [OF that]) (auto elim: list_all_mono2)
  have "safe (vm_step vm) (andThen (object_set_property (call_function e) arr key v vm)
      (\<lambda>vm'. set_elements (call_function e) arr (Suc i) vs vm'))" for key
    using Cons.prems by (intro safe_step [OF set_property_ok] rest) simp_all
  then show ?case
    unfolding set_elements.simps by (rule bind_string)
qed

lemma array_with_ok:
  assumes "wf_vm vm" "arr < length (h_objects vm)" "valid_value vm len" "list_all (valid_value vm) vs"
  shows "safe (value_post vm) (array_with (call_function e) arr len vs vm)"
  unfolding array_with_def
proof (rule safe_bind [OF set_property_ok [OF assms(1-3)]])
  fix vm1
  assume 1: "vm_step vm vm1"
  note ext = vm_stepD(2) [OF 1]
  have "list_all (valid_value vm1) vs"
    using assms(4) by (rule list_all_mono2) (rule valid_value_mono [OF ext])
  then show "safe (value_post vm)
      (andThen (set_elements (call_function e) arr 0 vs vm1) (\<lambda>vm2. Inr (JS_OBJECT arr, vm2)))"
  proof (intro safe_bind [OF set_elements_ok [OF vm_stepD(1) [OF 1] extends_lengths(1) [OF ext assms(2)]]])
    fix vm2
    assume "vm_step vm1 vm2"
    then have "vm_step vm vm2" by (rule vm_step_trans [OF 1])
    then show "safe (value_post vm) (Inr (JS_OBJECT arr, vm2))"
      using extends_lengths(1) [OF vm_stepD(2) assms(2)] by (simp add: value_post_def)
  qed
qed

lemma array_native_ok:
  assumes "wf_vm vm" "list_all (valid_value vm) args"
  shows "safe (value_post vm) (array_native e vm this args)"
proof -
  obtain ap vm1 arr vm2 where ap: "object_get_array_prototype vm = (ap, vm1)"
    and arr: "object_create_object (Some ap) vm1 = (arr, vm2)" by fastforce
  have 1: "vm_step vm vm2" "arr < length (h_objects vm2)"
    using object_get_array_prototype_ok [OF wf_vm_blocks [OF assms(1)] ap] new_object [OF assms(1) _ _ arr] by auto
  have args: "list_all (valid_value vm2) args"
    using assms(2) by (rule list_all_mono2) (rule valid_value_mono [OF vm_stepD(2) [OF 1(1)]])
  have with_elements: "safe (value_post vm) (array_with (call_function e) arr len vs vm2)"
    if "valid_value vm2 len" "list_all (valid_value vm2) vs" for len vs
    by (rule value_post_then [OF 1(1) array_with_ok [OF vm_stepD(1) [OF 1(1)] 1(2) that]])
  have bad: "safe (value_post vm) (Inr (JS_UNDEFINED, vm2))" using 1(1) by (simp add: value_post_def)
  have n: "safe (value_post vm) (array_with (call_function e) arr (JS_INTEGER k) (replicate j JS_UNDEFINED) vm2)"
    for k j by (intro with_elements) (simp_all add: list_all_iff)
  have all: "safe (value_post vm) (array_with (call_function e) arr (JS_VALUE_INT (int (length args))) args vm2)"
    by (intro with_elements args) (simp add: no_pointer_valid)
  show ?thesis
    using bad n all
    by (auto simp: array_native_def ap arr split: list.splits JSValue.splits)
qed

lemma call_native_ok:
  assumes "wf_vm vm" "valid_value vm this" "list_all (valid_value vm) args"
  shows "safe (value_post vm) (call_native e vm this args)"
  using assms call_ok [OF assms(1)] vm_step_refl [OF assms(1)]
  by (auto simp: call_native_def value_post_def split: JSValue.split list.split)

lemma symbol_native_ok:
  assumes "wf_vm vm"
  shows "safe (value_post vm) (symbol_native e vm this args)"
proof -
  obtain q vm1 a vm2 where q: "object_get_symbol_prototype vm = (q, vm1)"
    and a: "object_create_object (Some q) vm1 = (a, vm2)" by fastforce
  have 1: "vm_step vm vm2" "a < length (h_objects vm2)"
    using object_get_symbol_prototype_ok [OF wf_vm_blocks [OF assms] q] new_object [OF assms _ _ a] by auto
  have described: "safe (value_post vm) (andThen (object_set_property (call_function e) a ''description''
      (JS_STRING t) vm2) (\<lambda>vm3. Inr (JS_SYMBOL a, vm3)))" for t
  proof (rule safe_bind [OF set_property_ok [OF vm_stepD(1) [OF 1(1)] 1(2)]])
    fix vm3
    assume "vm_step vm2 vm3"
    then show "safe (value_post vm) (Inr (JS_SYMBOL a, vm3))"
      using vm_step_trans [OF 1(1)] extends_lengths(1) [OF vm_stepD(2) 1(2)] by (simp add: value_post_def)
  qed simp
  have "safe (value_post vm) (andThen (value_to_string v) (\<lambda>t. andThen (object_set_property (call_function e) a
      ''description'' (JS_STRING t) vm2) (\<lambda>vm3. Inr (JS_SYMBOL a, vm3))))" for v
    by (rule bind_string) (rule described)
  with 1 show ?thesis
    by (auto simp: symbol_native_def q a value_post_def simp del: safe_andThen split: list.split)
qed

lemma run_native_ok:
  assumes "wf_vm vm" "valid_value vm this" "list_all (valid_value vm) args"
  shows "safe (value_post vm) (run_native e n vm this args)"
  using assms vm_step_refl [OF assms(1)]
  by (cases n)
    (simp_all add: print_ok module_get_export_obj_ok import_ok instantiate_ok create_native_ok
      setPrototypeOf_native_ok array_native_ok is_array_native_ok call_native_ok symbol_native_ok
      object_native_def function_native_def value_post_def)

end

section \<open>Instructions that call\<close>

lemma read_args_ok: "wf_vm vm \<Longrightarrow> 0 < i \<Longrightarrow> safe (list_all (valid_value vm)) (read_args i n vm)"
proof (induction n arbitrary: i)
  case (Suc n)
  show ?case
    unfolding read_args.simps
  proof (intro bind_peek [OF Suc.prems])
    fix v
    assume "valid_value vm v"
    then show "safe (list_all (valid_value vm)) (andThen (read_args (Suc i) n vm) (\<lambda>vs. Inr (v # vs)))"
      by (intro safe_bind [OF Suc.IH [OF Suc.prems(1)]]) simp_all
  qed
qed simp

text \<open>A value that is pushed after the stack was cut back.\<close>

lemma finish_call_ok:
  assumes "wf_vm vm" "valid_value vm r"
  shows "safe (vm_step vm) (andThen (drop_stack k vm) (\<lambda>vm'. push r vm'))"
  using valid_value_mono [OF vm_stepD(2) assms(2)]
  by (intro safe_step [OF drop_stack_ok [OF assms(1)]] push_ok) (auto dest: vm_stepD)

lemma replace_top_ok:
  assumes "value_post vm r"
  shows "safe (vm_step vm) (replace_top n r)"
proof (cases r)
  case (Pair v vm1)
  then show ?thesis
    using assms vm_step_then [of vm vm1 "poke 1 v vm1"] poke_ok [of vm1 v 1]
    by (auto simp: replace_top_def value_post_def dest: vm_stepD)
qed

lemma good_function_call:
  assumes "wf_vm vm" "f < length (h_functions vm)" "\<not> is_native (h_functions vm ! f)"
  shows "\<exists>a. function_scope (h_functions vm ! f) = Some a \<and> a < length (h_scopes vm)"
    and "\<exists>m. function_module (h_functions vm ! f) = Some m \<and> runnable vm m"
  using wf_blocks_function [OF wf_vm_blocks [OF assms(1)] assms(2)] assms(3) by (auto simp: good_function_def)

context engine_contract
begin

lemma call_native_function_ok:
  assumes "wf_vm vm"
  shows "safe (value_post vm) (call_native_function e nf n vm)"
proof (cases nf)
  case (Some f)
  have "safe (value_post vm) (andThen (peek 1 vm) (\<lambda>this.
      andThen (read_args 2 n vm) (\<lambda>args. run_native e f vm this args)))"
    by (intro bind_peek [OF assms] safe_bind [OF read_args_ok [OF assms]] run_native_ok [OF assms]) simp_all
  then show ?thesis by (simp only: call_native_function_def Some option.case)
qed (simp add: call_native_function_def)

text \<open>The call of a bytecode function once its receiver is known.\<close>

lemma call_bytecode_ok:
  assumes "wf_vm vm" "f < length (h_functions vm)" "\<not> is_native (h_functions vm ! f)" "valid_value vm this"
  shows "safe (value_post vm) (andThen (ptr (function_scope (h_functions vm ! f))) (\<lambda>sc.
      andThen (scope_declare sc ''this'' this vm) (\<lambda>vm2. exec_function e f vm2)))"
proof -
  obtain a where a: "function_scope (h_functions vm ! f) = Some a" "a < length (h_scopes vm)"
    using good_function_call(1) [OF assms(1-3)] by blast
  have "safe (value_post vm) (andThen (scope_declare a ''this'' this vm) (\<lambda>vm2. exec_function e f vm2))"
  proof (rule safe_bind [OF scope_declare_vm [OF assms(1) a(2) assms(4)]])
    fix vm2
    assume 2: "vm_step vm vm2"
    then have "safe (value_post vm2) (exec_function e f vm2)"
      using assms(2,3) by (intro exec_function_ok)
        (simp_all add: vm_stepD extends_lengths [OF vm_stepD(2)] extends_function [OF vm_stepD(2)])
    then show "safe (value_post vm) (exec_function e f vm2)" by (rule value_post_then [OF 2])
  qed
  with a(1) show ?thesis by (simp only: ptr_simps andThen_Inr)
qed

lemma inst_call_ok:
  assumes "running vm" "wf_inst p" "OPCODE_OF p = OP_CALL"
  shows "safe (vm_step vm) (inst_call e vm p)"
  unfolding inst_call_def
proof (intro bind_check_underflow bind_pop [OF running_wf [OF assms(1)]], unfold prod.case)
  fix v vm1
  assume v: "valid_value vm1 v" and step: "vm_step vm vm1"
  note wf = vm_stepD(1) [OF step]
  have "safe (vm_step vm1) (andThen (deref (h_functions vm1) f) (\<lambda>fn.
           andThen (as_InstUInt16 p) (\<lambda>n.
           andThen
             (if is_native fn then call_native_function e (native_function fn) n vm1
              else andThen (peek 1 vm1) (\<lambda>this.
                   andThen (ptr (function_scope fn)) (\<lambda>sc.
                   andThen (scope_declare sc ''this'' this vm1) (\<lambda>vm2. exec_function e f vm2)))) (\<lambda>(r, vm3).
           andThen (drop_stack (n + 1) vm3) (\<lambda>vm4. push r vm4)))))"
    if f: "f < length (h_functions vm1)" for f
  proof -
    have called: "safe (value_post vm1) (if is_native (h_functions vm1 ! f)
        then call_native_function e (native_function (h_functions vm1 ! f)) n vm1
        else andThen (peek 1 vm1) (\<lambda>this.
             andThen (ptr (function_scope (h_functions vm1 ! f))) (\<lambda>sc.
             andThen (scope_declare sc ''this'' this vm1) (\<lambda>vm2. exec_function e f vm2))))" for n
      using call_native_function_ok [OF wf] bind_peek [OF wf _ call_bytecode_ok [OF wf f]] by simp
    have "safe (vm_step vm1) (andThen (drop_stack (n + 1) vm3) (\<lambda>vm4. push r vm4))"
      if "valid_value vm3 r" "vm_step vm1 vm3" for n r vm3
      by (rule vm_step_then [OF that(2) finish_call_ok [OF vm_stepD(1) [OF that(2)] that(1)]])
    then show ?thesis
      unfolding deref_lt [OF f] andThen_Inr
      by (intro bind_u16 [OF assms(2)] bind_value [OF called])
        (simp_all add: assms(3) u16_opcodes_def del: safe_andThen)
  qed
  with v show "safe (vm_step vm1) (case v of
         JS_FUNC f \<Rightarrow>
           andThen (deref (h_functions vm1) f) (\<lambda>fn.
           andThen (as_InstUInt16 p) (\<lambda>n.
           andThen
             (if is_native fn then call_native_function e (native_function fn) n vm1
              else andThen (peek 1 vm1) (\<lambda>this.
                   andThen (ptr (function_scope fn)) (\<lambda>sc.
                   andThen (scope_declare sc ''this'' this vm1) (\<lambda>vm2. exec_function e f vm2)))) (\<lambda>(r, vm3).
           andThen (drop_stack (n + 1) vm3) (\<lambda>vm4. push r vm4))))
       | _ \<Rightarrow> Inl (Panic ''Callee is not a function''))"
    by (cases v) (simp_all del: safe_andThen)
qed

lemma bind_base_object:
  assumes "wf_vm vm" "valid_value vm v" "\<And>a. a < length (h_objects vm) \<Longrightarrow> safe Q (f a)"
  shows "safe Q (andThen (base_object v vm) f)"
  by (rule safe_bind [OF base_object_ok [OF assms(1,2)] assms(3)])

end

context engine_contract
begin

lemma inst_obj_store_ok:
  assumes "running vm" "wf_inst p" "OPCODE_OF p = OP_OBJ_STORE"
  shows "safe (vm_step vm) (inst_obj_store e vm p)"
  unfolding inst_obj_store_def
proof (intro bind_check_underflow bind_pop [OF running_wf [OF assms(1)]], unfold prod.case)
  fix v vm1
  assume v: "valid_value vm1 v" and 1: "vm_step vm vm1"
  note wf1 = vm_stepD(1) [OF 1]
  show "safe (vm_step vm1) (andThen (pop vm1) (\<lambda>(obj, vm2).
     andThen (base_object obj vm2) (\<lambda>a.
     andThen (as_InstUInt16 p) (\<lambda>idx.
     andThen (load_str idx vm2) (\<lambda>key. object_set_property (call_function e) a key v vm2)))))"
  proof (intro bind_pop [OF wf1], unfold prod.case)
    fix obj vm2
    assume obj: "valid_value vm2 obj" and 2: "vm_step vm1 vm2"
    note wf2 = vm_stepD(1) [OF 2]
    show "safe (vm_step vm2) (andThen (base_object obj vm2) (\<lambda>a.
        andThen (as_InstUInt16 p) (\<lambda>idx.
        andThen (load_str idx vm2) (\<lambda>key. object_set_property (call_function e) a key v vm2))))"
      by (intro bind_base_object [OF wf2 obj] bind_u16 [OF assms(2)] bind_load_str [OF wf2]
          set_property_ok [OF wf2] valid_value_mono [OF vm_stepD(2) [OF 2] v])
        (simp_all add: assms(3) u16_opcodes_def)
  qed
qed

lemma inst_obj_load_ok:
  assumes "running vm" "wf_inst p" "OPCODE_OF p = OP_OBJ_LOAD"
  shows "safe (vm_step vm) (inst_obj_load e vm p)"
  unfolding inst_obj_load_def
proof (intro bind_check_underflow bind_peek [OF running_wf [OF assms(1)]])
  fix obj
  assume obj: "valid_value vm obj"
  note wf = running_wf [OF assms(1)]
  show "safe (vm_step vm) (andThen (base_object obj vm) (\<lambda>a.
     andThen (as_InstUInt16 p) (\<lambda>idx.
     andThen (load_str idx vm) (\<lambda>key.
     andThen (object_get_property (call_function e) a key vm) (replace_top (sp vm))))))"
    by (intro bind_base_object [OF wf obj] bind_u16 [OF assms(2)] bind_load_str [OF wf]
        safe_bind [OF get_property_ok [OF wf]] replace_top_ok)
      (simp_all add: assms(3) u16_opcodes_def)
qed simp

text \<open>The two accesses with a computed key.\<close>

lemma computed_load_ok:
  assumes "wf_vm vm" "a < length (h_objects vm)"
  shows "safe (vm_step vm) (case computed of
         JS_SYMBOL sy \<Rightarrow>
           andThen (object_get_property_by_symbol (call_function e) a sy vm) (replace_top (sp vm))
       | _ \<Rightarrow>
           andThen (value_to_string computed) (\<lambda>key.
           andThen (object_get_property (call_function e) a key vm) (replace_top (sp vm))))"
proof -
  have "safe (vm_step vm) (andThen (value_to_string computed) (\<lambda>key.
      andThen (object_get_property (call_function e) a key vm) (replace_top (sp vm))))"
    by (intro bind_string safe_bind [OF get_property_ok [OF assms]] replace_top_ok)
  moreover have "safe (vm_step vm)
      (andThen (object_get_property_by_symbol (call_function e) a sy vm) (replace_top (sp vm)))" for sy
    by (intro safe_bind [OF get_property_symbol_ok [OF assms]] replace_top_ok)
  ultimately show ?thesis by (cases computed) (simp_all only: JSValue.case)
qed

lemma computed_store_ok:
  assumes "wf_vm vm" "a < length (h_objects vm)" "valid_value vm v"
  shows "safe (vm_step vm) (case computed of
         JS_SYMBOL sy \<Rightarrow> object_set_property_with_symbol (call_function e) a sy v vm
       | _ \<Rightarrow> andThen (value_to_string computed) (\<lambda>key. object_set_property (call_function e) a key v vm))"
proof -
  have "safe (vm_step vm) (andThen (value_to_string computed) (\<lambda>key. object_set_property (call_function e) a key v vm))"
    by (intro bind_string set_property_ok [OF assms])
  with set_property_symbol_ok [OF assms] show ?thesis by (cases computed) (simp_all only: JSValue.case)
qed

lemma inst_obj_cload_ok:
  assumes "running vm"
  shows "safe (vm_step vm) (inst_obj_cload e vm p)"
  unfolding inst_obj_cload_def
proof (intro bind_check_underflow bind_pop [OF running_wf [OF assms]], unfold prod.case)
  fix computed vm1
  assume "vm_step vm vm1"
  note wf = vm_stepD(1) [OF this]
  show "safe (vm_step vm1) (andThen (peek 1 vm1) (\<lambda>obj. andThen (base_object obj vm1) (\<lambda>a.
       case computed of
         JS_SYMBOL sy \<Rightarrow>
           andThen (object_get_property_by_symbol (call_function e) a sy vm1) (replace_top (sp vm1))
       | _ \<Rightarrow>
           andThen (value_to_string computed) (\<lambda>key.
           andThen (object_get_property (call_function e) a key vm1) (replace_top (sp vm1))))))"
    by (intro bind_peek [OF wf] bind_base_object [OF wf] computed_load_ok [OF wf]) simp_all
qed

lemma inst_obj_cstore_ok:
  assumes "running vm"
  shows "safe (vm_step vm) (inst_obj_cstore e vm p)"
  unfolding inst_obj_cstore_def
proof (intro bind_check_underflow bind_pop [OF running_wf [OF assms]], unfold prod.case)
  fix computed vm1
  assume "vm_step vm vm1"
  note wf1 = vm_stepD(1) [OF this]
  show "safe (vm_step vm1) (andThen (pop vm1) (\<lambda>(obj, vm2). andThen (pop vm2) (\<lambda>(v, vm3).
     andThen (base_object obj vm3) (\<lambda>a.
       case computed of
         JS_SYMBOL sy \<Rightarrow> object_set_property_with_symbol (call_function e) a sy v vm3
       | _ \<Rightarrow> andThen (value_to_string computed) (\<lambda>key. object_set_property (call_function e) a key v vm3)))))"
  proof (intro bind_pop [OF wf1], unfold prod.case)
    fix obj vm2
    assume obj: "valid_value vm2 obj" and 2: "vm_step vm1 vm2"
    show "safe (vm_step vm2) (andThen (pop vm2) (\<lambda>(v, vm3). andThen (base_object obj vm3) (\<lambda>a.
       case computed of
         JS_SYMBOL sy \<Rightarrow> object_set_property_with_symbol (call_function e) a sy v vm3
       | _ \<Rightarrow> andThen (value_to_string computed) (\<lambda>key. object_set_property (call_function e) a key v vm3))))"
    proof (intro bind_pop [OF vm_stepD(1) [OF 2]], unfold prod.case)
      fix v vm3
      assume v: "valid_value vm3 v" and 3: "vm_step vm2 vm3"
      note wf3 = vm_stepD(1) [OF 3]
      show "safe (vm_step vm3) (andThen (base_object obj vm3) (\<lambda>a.
         case computed of
           JS_SYMBOL sy \<Rightarrow> object_set_property_with_symbol (call_function e) a sy v vm3
         | _ \<Rightarrow> andThen (value_to_string computed) (\<lambda>key. object_set_property (call_function e) a key v vm3)))"
        by (intro bind_base_object [OF wf3 valid_value_mono [OF vm_stepD(2) [OF 3] obj]]
            computed_store_ok [OF wf3 _ v])
    qed
  qed
qed

lemma inst_export_ok:
  assumes "running vm" "wf_inst p" "OPCODE_OF p = OP_EXPORT"
  shows "safe (vm_step vm) (inst_export e vm p)"
  unfolding inst_export_def
proof (intro bind_check_underflow bind_pop [OF running_wf [OF assms(1)]], unfold prod.case)
  fix v vm1
  assume v: "valid_value vm1 v" and 1: "vm_step vm vm1"
  note wf = vm_stepD(1) [OF 1]
  obtain a where a: "exports (h_modules vm1 ! vm_module vm1) = Some a" "a < length (h_objects vm1)"
    "vm_module vm1 < length (h_modules vm1)"
    using wf by (auto simp: wf_vm_def runnable_def good_module_def)
  have "safe (vm_step vm1) (andThen (current_module vm1) (\<lambda>m. andThen (ptr (exports m))
      (\<lambda>a. object_set_property (call_function e) a key v vm1)))" for key
    using set_property_ok [OF wf a(2) v] by (simp add: current_module_def a)
  then show "safe (vm_step vm1) (andThen (as_InstUInt16 p) (\<lambda>idx.
     andThen (load_str idx vm1) (\<lambda>key.
     andThen (current_module vm1) (\<lambda>m.
     andThen (ptr (exports m)) (\<lambda>a. object_set_property (call_function e) a key v vm1)))))"
    by (intro bind_u16 [OF assms(2)] bind_load_str [OF wf]) (simp_all add: assms(3) u16_opcodes_def del: safe_andThen)
qed

text \<open>Every entry of the table.\<close>

lemma inst_set_ok:
  assumes "running vm" "wf_inst p"
  shows "safe (vm_step vm) (inst_set e (OPCODE_OF p) vm p)"
  using operators_ok [OF running_wf [OF assms(1)]] stack_ok [OF assms(1)] alloc_ok [OF assms(1)]
    constants_ok [OF assms] jumps_ok [OF running_wf [OF assms(1)] assms(2)]
    inst_jmp_ok [OF running_wf [OF assms(1)] assms(2)]
  by (cases "OPCODE_OF p")
    (simp_all add: assms u16_opcodes_def inst_ld_this_ok inst_alloc_store_local_ok inst_load_local_ok
      inst_load_arg_ok inst_func_decl_ok inst_call_ok inst_obj_store_ok inst_obj_load_ok inst_obj_cload_ok
      inst_obj_cstore_ok push_scope_ok pop_scope_ok inst_export_ok)

end

section \<open>The loops and the calls\<close>

lemma wf_vm_instructions:
  assumes "wf_vm vm"
  shows "vm_module vm < length (h_modules vm)"
    and "i < length (instructions (data_section (h_modules vm ! vm_module vm))) \<Longrightarrow>
      wf_inst (instructions (data_section (h_modules vm ! vm_module vm)) ! i)"
  using assms by (auto simp: wf_vm_def runnable_def good_module_def list_all_length)

lemma restore_frame_ok:
  assumes "wf_vm saved" "vm_step saved' vm" "extends saved saved'"
  shows "vm_step saved (restore_frame saved vm)"
proof -
  have ext: "extends saved vm" by (rule extends_trans [OF assms(3) vm_stepD(2) [OF assms(2)]])
  note wf = vm_stepD(1) [OF assms(2)]
  have tr: "heap.truncate (restore_frame saved vm) = heap.truncate vm"
    by (simp add: restore_frame_def heap.defs)
  note h = same_heap [OF tr]
  note ext' = extends_trans [OF ext h(1)]
  have st: "good_stack (restore_frame saved vm)"
    by (rule good_stack_mono [OF _ ext']) (use assms(1) in \<open>simp_all add: wf_vm_def restore_frame_def\<close>)
  have "runnable (restore_frame saved vm) (vm_module saved)"
    by (rule runnable_mono [OF ext']) (use assms(1) in \<open>simp add: wf_vm_def\<close>)
  moreover have "globalScope vm < length (h_scopes vm)" using wf by (simp add: wf_vm_def)
  moreover have "\<forall>a. vm_scope saved = Some a \<longrightarrow> a < length (h_scopes vm)"
    using assms(1) by (auto simp: wf_vm_def extends_lengths [OF ext])
  ultimately have "wf_vm (restore_frame saved vm)"
    using wf st h(2,3) by (simp add: wf_vm_def) (simp add: restore_frame_def)
  with ext' show ?thesis by (simp add: vm_step_def) (simp add: restore_frame_def)
qed

text \<open>Entering a module or a function: the heap is kept, the registers are set.\<close>

lemma enter_ok:
  assumes "wf_vm vm" "runnable vm m" "a < length (h_scopes vm)"
    and "heap.truncate vm' = heap.truncate vm" "vm_module vm' = m" "vm_scope vm' = Some a"
    and "globalScope vm' = globalScope vm" "stack (stats vm') = stack (stats vm)"
    and "stack_counter (stats vm') \<le> sp vm" "stack_start (stats vm') \<le> sp vm"
  shows "running vm' \<and> extends vm vm'"
proof -
  note h = same_heap [OF assms(4)]
  have "wf_stack vm'"
    using assms(1,8-10) by (auto simp: wf_vm_def good_stack_def wf_stack_def)
  then have "good_stack vm'"
    using assms(1,8) valid_value_mono [OF h(1)] by (auto simp: good_stack_def wf_vm_def)
  then have "wf_vm vm'"
    using assms(1-3) h runnable_mono [OF h(1)]
    by (simp add: wf_vm_def assms(5-7) extends_lengths)
  with h(1) assms(6) show ?thesis by (simp add: running_def)
qed

lemma scope_set_parent_ok:
  assumes "wf_vm vm" "a < length (h_scopes vm)" "q < length (h_scopes vm)"
  shows "vm_step vm (scope_set_parent a q vm)"
  unfolding scope_set_parent_def
  by (rule block_step_vm [OF assms(1)], rule scope_replace_ok [OF wf_vm_blocks [OF assms(1)]])
    (use wf_blocks_scope [OF wf_vm_blocks [OF assms(1)] assms(2)] assms(3) in \<open>simp add: good_scope_def\<close>)

lemma push_all_ok:
  assumes "wf_vm vm" "list_all (valid_value vm) vs"
  shows "safe (vm_step vm) (push_all vs vm)"
  using assms
proof (induction vs arbitrary: vm)
  case (Cons v vs)
  have "safe (vm_step vm') (push_all vs vm')" if "vm_step vm vm'" for vm'
    using Cons.prems(2) valid_value_mono [OF vm_stepD(2) [OF that]]
    by (intro Cons.IH vm_stepD(1) [OF that]) (auto elim: list_all_mono2)
  with Cons.prems show ?case
    unfolding push_all.simps by (intro safe_step [OF push_ok]) simp_all
qed (simp add: vm_step_refl)

context engine_contract
begin

lemma vm_exec_ok:
  assumes "running vm"
  shows "safe (vm_step vm) (vm_exec e vm)"
proof -
  note wf = running_wf [OF assms]
  let ?is = "instructions (data_section (h_modules vm ! vm_module vm))"
  have step: "vm_step vm (set_ic (Suc (ic vm)) vm)" by (rule set_ic_ok [OF wf])
  have "safe (vm_step vm) (let vm1 = set_ic (Suc (ic vm)) vm in
      if p = None \<or> OPCODE_OF p = OP_NOP then Inr vm1 else inst_set e (OPCODE_OF p) vm1 p)"
    if "wf_inst p" for p
    using vm_step_then [OF step inst_set_ok [OF vm_step_running [OF assms step] that]] step
    by (simp add: Let_def)
  then show ?thesis
    using wf_vm_instructions [OF wf] by (simp add: vm_exec_def current_module_def)
qed

lemma module_loop_ok:
  assumes "running vm"
  shows "safe (vm_step vm) (module_loop e vm)"
proof -
  have "safe (vm_step vm) (andThen (vm_exec e vm) (loop_module e))"
    by (rule safe_step [OF vm_exec_ok [OF assms]]) (rule loop_module_ok [OF vm_step_running [OF assms]])
  then show ?thesis
    using wf_vm_instructions(1) [OF running_wf [OF assms]] vm_step_refl [OF running_wf [OF assms]]
    by (simp add: module_loop_def current_module_def del: safe_andThen)
qed

lemma function_loop_ok:
  assumes "running vm"
  shows "safe (vm_step vm) (function_loop e fin vm)"
proof -
  have round: "safe (vm_step vm) (andThen (vm_exec e vm) (loop_function e fin))"
    by (rule safe_step [OF vm_exec_ok [OF assms]]) (rule loop_function_ok [OF vm_step_running [OF assms]])
  have "safe (vm_step vm) (andThen (array_at (instructions m) (ic vm)) (\<lambda>p.
      if OPCODE_OF p = OP_RETURN then Inr vm else andThen (vm_exec e vm) (loop_function e fin)))" for m :: DataSection
    using round vm_step_refl [OF running_wf [OF assms]] by (simp only: safe_andThen safe_array_at) simp
  with wf_vm_instructions(1) [OF running_wf [OF assms]] vm_step_refl [OF running_wf [OF assms]]
  show ?thesis by (simp add: function_loop_def current_module_def del: safe_andThen)
qed

lemma vm_exec_module_ok:
  assumes "wf_vm vm" "runnable vm m"
  shows "safe (vm_step vm) (vm_exec_module e m vm)"
proof -
  obtain a where a: "module_scope (h_modules vm ! m) = Some a" "a < length (h_scopes vm)" "m < length (h_modules vm)"
    using assms(2) by (auto simp: runnable_def)
  have 1: "vm_step vm (scope_set_parent a (globalScope vm) vm)" (is "vm_step vm ?vm1")
    using assms(1) by (intro scope_set_parent_ok [OF assms(1) a(2)]) (simp add: wf_vm_def)
  let ?vm2 = "?vm1\<lparr>vm_scope := Some a, vm_module := m,
      stats := (stats vm)\<lparr>instruction_counter := 0, stack_counter := 0, stack_start := 0\<rparr>\<rparr>"
  have 2: "running ?vm2 \<and> extends ?vm1 ?vm2"
    by (rule enter_ok [OF vm_stepD(1) [OF 1] runnable_mono [OF vm_stepD(2) [OF 1] assms(2)]
        extends_lengths(2) [OF vm_stepD(2) [OF 1] a(2)]])
      (simp_all add: heap.defs, simp_all add: scope_set_parent_def)
  then have ext: "extends vm ?vm2" using vm_stepD(2) [OF 1] by (blast intro: extends_trans)
  have "safe (vm_step vm) (andThen (loop_module e ?vm2) (\<lambda>vm3. Inr (restore_frame vm vm3)))"
    by (rule safe_bind [OF loop_module_ok [OF conjunct1 [OF 2]]])
      (simp add: restore_frame_ok [OF assms(1) _ ext])
  with a show ?thesis by (simp add: vm_exec_module_def del: safe_andThen)
qed

lemma vm_exec_function_ok:
  assumes "wf_vm vm" "f < length (h_functions vm)" "\<not> is_native (h_functions vm ! f)"
  shows "safe (value_post vm) (vm_exec_function e f vm)"
proof -
  let ?fn = "h_functions vm ! f"
  obtain a where a: "function_scope ?fn = Some a" "a < length (h_scopes vm)"
    using good_function_call(1) [OF assms] by blast
  obtain m where m: "function_module ?fn = Some m" "runnable vm m"
    using good_function_call(2) [OF assms] by blast
  let ?vm1 = "vm\<lparr>vm_module := m, vm_scope := Some a, stats := (stats vm)
      \<lparr>instruction_counter := instruction_start ?fn, stack_start := stack_counter (stats vm)\<rparr>\<rparr>"
  have 1: "running ?vm1 \<and> extends vm ?vm1"
    by (rule enter_ok [OF assms(1) m(2) a(2)]) (simp_all add: heap.defs)
  have "safe (value_post vm) (andThen (loop_function e fin ?vm1) (\<lambda>vm2.
      andThen (function_result vm2) (\<lambda>v. Inr (v, restore_frame vm vm2))))" for fin
  proof (rule safe_bind [OF loop_function_ok [OF conjunct1 [OF 1]]])
    fix vm2
    assume 2: "vm_step ?vm1 vm2"
    note put = restore_frame_ok [OF assms(1) 2 conjunct2 [OF 1]]
    have same: "heap.truncate (restore_frame vm vm2) = heap.truncate vm2"
      by (simp add: restore_frame_def heap.defs)
    have "safe (valid_value vm2) (function_result vm2)"
      by (simp add: function_result_def peek_ok [OF vm_stepD(1) [OF 2]])
    then show "safe (value_post vm) (andThen (function_result vm2) (\<lambda>v. Inr (v, restore_frame vm vm2)))"
      by (rule safe_bind) (simp add: value_post_def put valid_value_mono [OF same_heap(1) [OF same]])
  qed
  with m a assms(2) show ?thesis by (simp add: vm_exec_function_def del: safe_andThen)
qed

lemma api_call_function_ok:
  assumes "wf_vm vm" "f < length (h_functions vm)" "valid_value vm this" "list_all (valid_value vm) args"
  shows "safe (value_post vm) (api_call_function e f this args vm)"
proof (cases "is_native (h_functions vm ! f)")
  case True
  then show ?thesis
    using assms run_native_ok [OF assms(1,3,4)]
    by (auto simp: api_call_function_def split: option.split)
next
  case False
  have called: "safe (value_post vm1) (andThen (push this vm1) (\<lambda>vm2.
      andThen (ptr (function_scope (h_functions vm ! f))) (\<lambda>sc.
      andThen (scope_declare sc ''this'' this vm2) (\<lambda>vm3.
      andThen (exec_function e f vm3) (\<lambda>(r, vm4).
      andThen (drop_stack n vm4) (\<lambda>vm5. Inr (r, vm5)))))))"
    if 1: "vm_step vm vm1" for vm1 n
  proof (rule safe_bind [OF push_ok [OF vm_stepD(1) [OF 1] valid_value_mono [OF vm_stepD(2) [OF 1] assms(3)]]])
    fix vm2
    assume 12: "vm_step vm1 vm2"
    note 2 = vm_step_trans [OF 1 12]
    note ext = vm_stepD(2) [OF 2]
    have f: "f < length (h_functions vm2)" "h_functions vm2 ! f = h_functions vm ! f"
      using assms(2) by (simp_all add: extends_lengths [OF ext] extends_function [OF ext])
    have native: "\<not> is_native (h_functions vm2 ! f)" using False f(2) by simp
    have body: "safe (value_post vm2) (andThen (ptr (function_scope (h_functions vm ! f))) (\<lambda>sc.
        andThen (scope_declare sc ''this'' this vm2) (\<lambda>vm3. exec_function e f vm3)))"
      using call_bytecode_ok [OF vm_stepD(1) [OF 2] f(1) native valid_value_mono [OF ext assms(3)]]
      by (simp only: f(2))
    have cut: "safe (value_post vm2) (andThen (drop_stack n vm4) (\<lambda>vm5. Inr (r, vm5)))"
      if "valid_value vm4 r" "vm_step vm2 vm4" for r vm4
      by (rule value_post_then [OF that(2) safe_bind [OF drop_stack_ok [OF vm_stepD(1) [OF that(2)]]]])
        (use that(1) in \<open>simp add: value_post_def valid_value_mono [OF vm_stepD(2)]\<close>)
    have "safe (value_post vm2) (andThen (andThen (ptr (function_scope (h_functions vm ! f))) (\<lambda>sc.
        andThen (scope_declare sc ''this'' this vm2) (\<lambda>vm3. exec_function e f vm3)))
        (\<lambda>(r, vm4). andThen (drop_stack n vm4) (\<lambda>vm5. Inr (r, vm5))))"
      by (rule bind_value [OF body]) (simp only: prod.case cut)
    then have "safe (value_post vm2) (andThen (ptr (function_scope (h_functions vm ! f))) (\<lambda>sc.
        andThen (scope_declare sc ''this'' this vm2) (\<lambda>vm3.
        andThen (exec_function e f vm3) (\<lambda>(r, vm4).
        andThen (drop_stack n vm4) (\<lambda>vm5. Inr (r, vm5))))))"
      by (simp only: andThen_assoc)
    then show "safe (value_post vm1) (andThen (ptr (function_scope (h_functions vm ! f))) (\<lambda>sc.
        andThen (scope_declare sc ''this'' this vm2) (\<lambda>vm3.
        andThen (exec_function e f vm3) (\<lambda>(r, vm4).
        andThen (drop_stack n vm4) (\<lambda>vm5. Inr (r, vm5))))))"
      by (rule value_post_then [OF 12])
  qed
  have "list_all (valid_value vm) (rev args)" using assms(4) by (simp add: list_all_iff)
  from safe_bind [OF push_all_ok [OF assms(1) this] value_post_then [OF _ called]] False assms(2)
  show ?thesis by (simp add: api_call_function_def del: safe_andThen)
qed

end

text \<open>One more unit of fuel keeps the contract, so every amount of fuel satisfies it.\<close>

lemma engine_contract_next:
  assumes "engine_contract e"
  shows "engine_contract (next_engine e)"
  using engine_contract.api_call_function_ok [OF assms] engine_contract.vm_exec_function_ok [OF assms]
    engine_contract.vm_exec_module_ok [OF assms] engine_contract.function_loop_ok [OF assms]
    engine_contract.module_loop_ok [OF assms]
  by unfold_locales (simp_all add: next_engine_def)

lemma engine_contract_machine: "engine_contract (machine n)"
proof (induction n)
  case 0
  show ?case by unfold_locales (simp_all add: no_engine_def)
next
  case (Suc n)
  then show ?case by (simp add: engine_contract_next)
qed

interpretation machine: engine_contract "machine n" for n
  by (rule engine_contract_machine)

end
