(* ===== verification/Atomix_Program.thy ===== *)
theory Atomix_Program
  imports Atomix_Safety
begin

text \<open>
  Memory safety of whole runs. The loader builds well-formed modules from any bytes,
  \<open>core_init\<close> is safe, and so both programs are: whatever the file and however long the
  run, they end with a result, a panic, or one of the faults that are no memory errors.
\<close>

section \<open>Start-up\<close>

lemma native_function_vm:
  assumes "wf_vm vm"
  obtains f vm' where "function_create_native_function n vm = Inr (f, vm')" "vm_step vm vm'" "f < length (h_functions vm')"
  using function_create_native_function_ok [OF wf_vm_blocks [OF assms], of n] block_step_vm [OF assms] by blast

lemma bind_native_function:
  assumes "wf_vm vm"
    and "\<And>f vm'. vm_step vm vm' \<Longrightarrow> f < length (h_functions vm') \<Longrightarrow> safe (vm_step vm') (g (f, vm'))"
  shows "safe (vm_step vm) (andThen (function_create_native_function n vm) g)"
proof -
  obtain f vm' where f: "function_create_native_function n vm = Inr (f, vm')" "vm_step vm vm'"
    "f < length (h_functions vm')" by (rule native_function_vm [OF assms(1)])
  from vm_step_then [OF f(2) assms(2) [OF f(2,3)]] show ?thesis by (simp only: f(1) andThen_Inr)
qed

lemma bind_function_base:
  assumes "wf_vm vm" "f < length (h_functions vm)"
    and "\<And>b. b < length (h_objects vm) \<Longrightarrow> safe Q (g b)"
  shows "safe Q (andThen (function_base f vm) g)"
  using assms(2,3) wf_blocks_function [OF wf_vm_blocks [OF assms(1)] assms(2)]
  by (simp add: function_base_def good_function_def)

context engine_contract
begin

lemma native_property_ok:
  assumes "wf_vm vm" "obj < length (h_objects vm)"
  shows "safe (vm_step vm) (native_property e obj key n vm)"
  unfolding native_property_def
proof (intro bind_native_function [OF assms(1)], unfold prod.case)
  fix f vm'
  assume "vm_step vm vm'" "f < length (h_functions vm')"
  then show "safe (vm_step vm') (object_set_property (call_function e) obj key (JS_FUNC f) vm')"
    by (intro set_property_ok) (auto dest: vm_stepD simp: extends_lengths [OF vm_stepD(2)] assms(2))
qed

text \<open>Continuing after a step, with a block that existed before.\<close>

lemma bind_native_property:
  assumes "wf_vm vm" "obj < length (h_objects vm)"
    and "\<And>vm'. vm_step vm vm' \<Longrightarrow> safe (vm_step vm') (g vm')"
  shows "safe (vm_step vm) (andThen (native_property e obj key n vm) g)"
  by (rule safe_step [OF native_property_ok [OF assms(1,2)] assms(3)])

lemma init_print_ok:
  assumes "wf_vm vm" "sc < length (h_scopes vm)"
  shows "safe (vm_step vm) (init_print sc vm)"
  unfolding init_print_def
proof (intro bind_native_function [OF assms(1)], unfold prod.case)
  fix f vm'
  assume "vm_step vm vm'" "f < length (h_functions vm')"
  then show "safe (vm_step vm') (scope_declare sc ''print'' (JS_FUNC f) vm')"
    by (intro scope_declare_vm) (auto dest: vm_stepD simp: extends_lengths [OF vm_stepD(2)] assms(2))
qed

lemma init_module_ok:
  assumes "wf_vm vm" "sc < length (h_scopes vm)"
  shows "safe (vm_step vm) (init_module e sc vm)"
proof -
  obtain q vm1 m vm2 where q: "object_get_object_prototype vm = (q, vm1)"
    and m: "object_create_object (Some q) vm1 = (m, vm2)" by fastforce
  have 2: "vm_step vm vm2" "m < length (h_objects vm2)"
    using object_get_object_prototype_ok [OF wf_vm_blocks [OF assms(1)] q] new_object [OF assms(1) _ _ m] by auto
  have "safe (vm_step vm2) (andThen (native_property e m ''getExportObj'' N_module_get_export_obj vm2) (\<lambda>vm3.
      andThen (native_property e m ''importModule'' N_module_import_module vm3) (\<lambda>vm4.
        scope_declare sc ''Module'' (JS_OBJECT m) vm4)))"
  proof (intro bind_native_property [OF vm_stepD(1) [OF 2(1)] 2(2)])
    fix vm3
    assume 3: "vm_step vm2 vm3"
    note m3 = extends_lengths(1) [OF vm_stepD(2) [OF 3] 2(2)]
    show "safe (vm_step vm3) (andThen (native_property e m ''importModule'' N_module_import_module vm3) (\<lambda>vm4.
        scope_declare sc ''Module'' (JS_OBJECT m) vm4))"
    proof (intro bind_native_property [OF vm_stepD(1) [OF 3] m3])
      fix vm4
      assume 4: "vm_step vm3 vm4"
      note ext = vm_stepD(2) [OF vm_step_trans [OF vm_step_trans [OF 2(1) 3] 4]]
      show "safe (vm_step vm4) (scope_declare sc ''Module'' (JS_OBJECT m) vm4)"
        using extends_lengths(1) [OF vm_stepD(2) [OF 4] m3]
        by (intro scope_declare_vm vm_stepD(1) [OF 4]) (simp_all add: extends_lengths [OF ext] assms(2))
    qed
  qed
  from vm_step_then [OF 2(1) this] show ?thesis by (simp only: init_module_def q m prod.case)
qed

lemma init_object_ok:
  assumes "wf_vm vm" "sc < length (h_scopes vm)"
  shows "safe (vm_step vm) (init_object e sc vm)"
  unfolding init_object_def
proof (intro bind_native_function [OF assms(1)], unfold prod.case, intro bind_function_base)
  fix f vm1 b
  assume 1: "vm_step vm vm1" and f: "f < length (h_functions vm1)" and b: "b < length (h_objects vm1)"
  show "safe (vm_step vm1) (andThen (native_property e b ''instantiate'' N_instantiate vm1) (\<lambda>vm2.
     andThen (native_property e b ''create'' N_create vm2) (\<lambda>vm3.
     andThen (native_property e b ''setPrototypeOf'' N_setPrototypeOf vm3) (\<lambda>vm4.
       scope_declare sc ''Object'' (JS_FUNC f) vm4))))"
  proof (intro bind_native_property [OF vm_stepD(1) [OF 1] b])
    fix vm2
    assume 2: "vm_step vm1 vm2"
    note b2 = extends_lengths(1) [OF vm_stepD(2) [OF 2] b]
    show "safe (vm_step vm2) (andThen (native_property e b ''create'' N_create vm2) (\<lambda>vm3.
       andThen (native_property e b ''setPrototypeOf'' N_setPrototypeOf vm3) (\<lambda>vm4.
         scope_declare sc ''Object'' (JS_FUNC f) vm4)))"
    proof (intro bind_native_property [OF vm_stepD(1) [OF 2] b2])
      fix vm3
      assume 3: "vm_step vm2 vm3"
      note b3 = extends_lengths(1) [OF vm_stepD(2) [OF 3] b2]
      show "safe (vm_step vm3) (andThen (native_property e b ''setPrototypeOf'' N_setPrototypeOf vm3) (\<lambda>vm4.
         scope_declare sc ''Object'' (JS_FUNC f) vm4))"
      proof (intro bind_native_property [OF vm_stepD(1) [OF 3] b3])
        fix vm4
        assume 4: "vm_step vm3 vm4"
        note ext1 = vm_stepD(2) [OF vm_step_trans [OF vm_step_trans [OF 2 3] 4]]
        show "safe (vm_step vm4) (scope_declare sc ''Object'' (JS_FUNC f) vm4)"
          using f assms(2)
          by (intro scope_declare_vm vm_stepD(1) [OF 4])
            (simp_all add: extends_lengths [OF ext1] extends_lengths [OF vm_stepD(2) [OF 1]])
      qed
    qed
  qed
qed (auto dest: vm_stepD)

lemma init_array_ok:
  assumes "wf_vm vm" "sc < length (h_scopes vm)"
  shows "safe (vm_step vm) (init_array e sc vm)"
  unfolding init_array_def
proof (intro bind_native_function [OF assms(1)], unfold prod.case, intro bind_function_base)
  fix f vm1 b
  assume 1: "vm_step vm vm1" and f: "f < length (h_functions vm1)" and b: "b < length (h_objects vm1)"
  obtain ap vm2 where ap: "object_get_array_prototype vm1 = (ap, vm2)" by fastforce
  note wf1 = vm_stepD(1) [OF 1]
  have 2: "vm_step vm1 vm2" "ap < length (h_objects vm2)"
    using object_get_array_prototype_ok [OF wf_vm_blocks [OF wf1] ap] block_step_vm [OF wf1] by auto
  note b2 = extends_lengths(1) [OF vm_stepD(2) [OF 2(1)] b]
  let ?vm3 = "object_set_prototype b (Some ap) vm2"
  have 3: "vm_step vm2 ?vm3"
    by (rule block_step_vm [OF vm_stepD(1) [OF 2(1)]
        object_set_prototype_ok [OF wf_vm_blocks [OF vm_stepD(1) [OF 2(1)]] b2 2(2)]])
  note b3 = extends_lengths(1) [OF vm_stepD(2) [OF 3] b2]
  have "safe (vm_step ?vm3) (andThen (native_property e b ''isArray'' N_is_array ?vm3) (\<lambda>vm4.
      scope_declare sc ''Array'' (JS_FUNC f) vm4))"
  proof (intro bind_native_property [OF vm_stepD(1) [OF 3] b3])
    fix vm4
    assume 4: "vm_step ?vm3 vm4"
    note ext1 = vm_stepD(2) [OF vm_step_trans [OF vm_step_trans [OF 2(1) 3] 4]]
    show "safe (vm_step vm4) (scope_declare sc ''Array'' (JS_FUNC f) vm4)"
      using f assms(2)
      by (intro scope_declare_vm vm_stepD(1) [OF 4])
        (simp_all add: extends_lengths [OF ext1] extends_lengths [OF vm_stepD(2) [OF 1]])
  qed
  from vm_step_then [OF vm_step_trans [OF 2(1) 3] this]
  show "safe (vm_step vm1) (case object_get_array_prototype vm1 of
      (ap, vm2) \<Rightarrow> andThen (native_property e b ''isArray'' N_is_array (object_set_prototype b (Some ap) vm2))
        (\<lambda>vm3. scope_declare sc ''Array'' (JS_FUNC f) vm3))"
    by (simp only: ap prod.case)
qed (auto dest: vm_stepD)

end

text \<open>Replacing the prototype of a base object by a global prototype.\<close>

lemma reparent_ok:
  assumes "wf_vm vm" "b < length (h_objects vm)" "block_step vm vm1" "q < length (h_objects vm1)"
  shows "vm_step vm (object_set_prototype b (Some q) vm1)"
  by (rule block_step_vm [OF assms(1)], rule block_step_trans [OF assms(3)], rule object_set_prototype_ok)
    (use assms in \<open>auto dest: block_stepD simp: extends_lengths [OF block_stepD(2)]\<close>)

context engine_contract
begin

lemma init_function_ok:
  assumes "wf_vm vm" "sc < length (h_scopes vm)"
  shows "safe (vm_step vm) (init_function e sc vm)"
  unfolding init_function_def
proof (intro bind_native_function [OF assms(1)], unfold prod.case, intro bind_function_base)
  fix f vm1 b
  assume 1: "vm_step vm vm1" and f: "f < length (h_functions vm1)" and b: "b < length (h_objects vm1)"
  obtain q vm2 where q: "object_get_function_prototype vm1 = (q, vm2)" by fastforce
  note wf1 = vm_stepD(1) [OF 1]
  have 2: "block_step vm1 vm2" "q < length (h_objects vm2)"
    using object_get_function_prototype_ok [OF wf_vm_blocks [OF wf1] q] by auto
  let ?vm3 = "object_set_prototype b (Some q) vm2"
  have 3: "vm_step vm1 ?vm3" by (rule reparent_ok [OF wf1 b 2])
  have q3: "q < length (h_objects ?vm3)" using 2(2) by (simp add: object_set_prototype_def)
  note ext3 = vm_stepD(2) [OF 3]
  have "safe (vm_step ?vm3) (andThen (scope_declare sc ''Function'' (JS_FUNC f) ?vm3) (\<lambda>vm4.
      native_property e q ''call'' N_call vm4))"
    using f assms(2)
    by (intro safe_step [OF scope_declare_vm [OF vm_stepD(1) [OF 3]]] native_property_ok)
      (auto dest: vm_stepD simp: extends_lengths [OF ext3] extends_lengths [OF vm_stepD(2) [OF 1]]
        extends_lengths(1) [OF vm_stepD(2) q3])
  from vm_step_then [OF 3 this]
  show "safe (vm_step vm1) (case object_get_function_prototype vm1 of
      (fp, vm2) \<Rightarrow> andThen (scope_declare sc ''Function'' (JS_FUNC f) (object_set_prototype b (Some fp) vm2))
        (\<lambda>vm3. native_property e fp ''call'' N_call vm3))"
    by (simp only: q prod.case)
qed (auto dest: vm_stepD)

lemma init_symbol_ok:
  assumes "wf_vm vm" "sc < length (h_scopes vm)"
  shows "safe (vm_step vm) (init_symbol e sc vm)"
  unfolding init_symbol_def
proof (intro bind_native_function [OF assms(1)], unfold prod.case, intro bind_function_base)
  fix f vm1 b
  assume 1: "vm_step vm vm1" and f: "f < length (h_functions vm1)" and b: "b < length (h_objects vm1)"
  obtain q vm2 where q: "object_get_symbol_prototype vm1 = (q, vm2)" by fastforce
  note wf1 = vm_stepD(1) [OF 1]
  have 2: "block_step vm1 vm2" "q < length (h_objects vm2)"
    using object_get_symbol_prototype_ok [OF wf_vm_blocks [OF wf1] q] by auto
  let ?vm3 = "object_set_prototype b (Some q) vm2"
  have 3: "vm_step vm1 ?vm3" by (rule reparent_ok [OF wf1 b 2])
  note wf3 = vm_stepD(1) [OF 3]
  obtain v vm4 where v: "symbol_to_primitive (call_function e) ?vm3 = Inr (v, vm4)" "block_step ?vm3 vm4" "valid_value vm4 v"
    using symbol_to_primitive_ok [OF wf_vm_blocks [OF wf3]] by blast
  have 4: "vm_step vm1 vm4" by (rule vm_step_trans [OF 3 block_step_vm [OF wf3 v(2)]])
  have "safe (vm_step vm4) (andThen (object_set_property (call_function e) b ''toPrimitive'' v vm4) (\<lambda>vm5.
      scope_declare sc ''Symbol'' (JS_FUNC f) vm5))"
    using f assms(2) b v(3)
    by (intro safe_step [OF set_property_ok [OF vm_stepD(1) [OF 4]]] scope_declare_vm)
      (auto dest: vm_stepD simp: extends_lengths [OF vm_stepD(2) [OF 4]] extends_lengths [OF vm_stepD(2) [OF 1]]
        extends_lengths [OF vm_stepD(2)])
  from vm_step_then [OF 4 this]
  show "safe (vm_step vm1) (case object_get_symbol_prototype vm1 of
      (syp, vm2) \<Rightarrow> andThen (symbol_to_primitive (call_function e) (object_set_prototype b (Some syp) vm2))
        (\<lambda>(v, vm3). andThen (object_set_property (call_function e) b ''toPrimitive'' v vm3)
          (\<lambda>vm4. scope_declare sc ''Symbol'' (JS_FUNC f) vm4)))"
    by (simp only: q v(1) prod.case andThen_Inr)
qed (auto dest: vm_stepD)

lemma core_init_ok:
  assumes "wf_vm vm" "sc < length (h_scopes vm)"
  shows "safe (vm_step vm) (core_init e sc vm)"
  unfolding core_init_def
  by (intro safe_step [OF init_print_ok [OF assms]] safe_step [OF init_module_ok] safe_step [OF init_object_ok]
      safe_step [OF init_array_ok] safe_step [OF init_function_ok] init_symbol_ok;
      meson assms(2) extends_lengths(2) vm_stepD)

end

lemma truncate_extend: "heap.truncate (heap.extend s x) = heap.truncate s"
  by (simp add: heap.defs)

lemma vm_init_ok:
  assumes "wf_blocks s" "wf_modules s" "runnable s m"
  shows "safe (\<lambda>vm. wf_vm vm \<and> runnable vm m) (vm_init (machine n) [core_init] m s)"
proof -
  obtain g s1 where g: "scope_create_scope None s = (g, s1)" by fastforce
  have 1: "block_step s s1" "g < length (h_scopes s1)" using scope_create_ok [OF assms(1) _ g] by auto
  let ?regs = "\<lparr>vm_module = m, globalScope = g, vm_scope = None,
      stats = \<lparr>instruction_counter = 0, stack_counter = 0, stack_start = 0, stack = replicate STACK_SIZE None\<rparr>\<rparr>"
  let ?vm = "heap.extend s1 ?regs"
  have tr: "heap.truncate ?vm = heap.truncate s1" by (rule truncate_extend)
  note h = same_heap [OF tr]
  have run: "runnable ?vm m"
    by (rule runnable_mono [OF h(1) runnable_mono [OF block_stepD(2) [OF 1(1)] assms(3)]])
  have "wf_vm ?vm"
    using run extends_lengths(2) [OF h(1) 1(2)] h(2) [OF block_stepD(1) [OF 1(1)]]
      h(3) [OF wf_modules_mono [OF block_stepD(2) [OF 1(1)] assms(2)]]
    by (simp add: wf_vm_def good_stack_def wf_stack_def) (simp add: heap.defs)
  from machine.core_init_ok [OF this extends_lengths(2) [OF h(1) 1(2)], of n]
  have "safe (\<lambda>vm. wf_vm vm \<and> runnable vm m) (core_init (machine n) g ?vm)"
    by (rule safe_mono) (use run in \<open>auto dest: vm_stepD intro: runnable_mono [OF vm_stepD(2)]\<close>)
  then show ?thesis
    by (cases "core_init (machine n) g ?vm") (auto simp: vm_init_def g)
qed

section \<open>The loader\<close>

text \<open>What the loader may answer: there is one null pointer it writes through, for the strings of a table
  that is too short.\<close>

definition loads :: "('a \<Rightarrow> bool) \<Rightarrow> 'a res \<Rightarrow> bool" where
  "loads Q r = (case r of Inl e \<Rightarrow> \<not> memory_error e \<or> e = Fault Null_Deref | Inr x \<Rightarrow> Q x)"

lemma loads_Inr [simp]: "loads Q (Inr x) \<longleftrightarrow> Q x"
  by (simp add: loads_def)

lemma loads_Inl [simp]: "loads Q (Inl e) \<longleftrightarrow> \<not> memory_error e \<or> e = Fault Null_Deref"
  by (simp add: loads_def)

lemma loads_andThen [simp]: "loads Q (andThen m f) \<longleftrightarrow> loads (\<lambda>x. loads Q (f x)) m"
  by (cases m) auto

lemma loads_safe: "safe Q r \<Longrightarrow> loads Q r"
  by (cases r) auto

lemma loads_array_at [simp]: "loads Q (array_at xs i) \<longleftrightarrow> (i < length xs \<longrightarrow> Q (xs ! i))"
  by (simp add: array_at_def)

lemma loads_mono: "loads P r \<Longrightarrow> (\<And>x. P x \<Longrightarrow> Q x) \<Longrightarrow> loads Q r"
  by (cases r) auto

lemma loads_bind:
  assumes "loads P m" "\<And>x. P x \<Longrightarrow> loads Q (f x)"
  shows "loads Q (andThen m f)"
  using loads_mono [OF assms] by simp

lemma loads_bytes_at: "(\<And>bs. Q bs) \<Longrightarrow> loads Q (bytes_at buff i n)"
  by (rule loads_safe [OF bytes_at_ok])

lemma read_blocks_ok: "(\<And>w. Q w) \<Longrightarrow> loads Q (read_blocks buff p bs)"
proof (induction bs arbitrary: Q)
  case (Cons b bs)
  then show ?case by (cases b) simp
qed simp

lemma read_ok:
  "(\<And>x. Q x) \<Longrightarrow> loads Q (READ_U16 buff p)" "(\<And>x. Q' x) \<Longrightarrow> loads Q' (READ_U32 buff p)"
  "(\<And>x. Q' x) \<Longrightarrow> loads Q' (READ_I32 buff p)" "(\<And>x. Q'' x) \<Longrightarrow> loads Q'' (READ_U64 buff p)"
  "(\<And>x. Q'' x) \<Longrightarrow> loads Q'' (READ_DOUBLE buff p)"
  by (simp_all add: READ_U16_def READ_U32_def READ_I32_def READ_U64_def READ_DOUBLE_def Let_def
      read_blocks_ok loads_bytes_at)

lemma bind_read:
  "(\<And>x. loads Q (f x)) \<Longrightarrow> loads Q (andThen (READ_U16 buff p) f)"
  "(\<And>x. loads Q (g x)) \<Longrightarrow> loads Q (andThen (READ_U32 buff p) g)"
  "(\<And>x. loads Q (g x)) \<Longrightarrow> loads Q (andThen (READ_I32 buff p) g)"
  "(\<And>x. loads Q (h x)) \<Longrightarrow> loads Q (andThen (READ_U64 buff p) h)"
  "(\<And>x. loads Q (h x)) \<Longrightarrow> loads Q (andThen (READ_DOUBLE buff p) h)"
  by (simp_all add: read_ok)

lemma loads_if: "(b \<Longrightarrow> loads Q x) \<Longrightarrow> (\<not> b \<Longrightarrow> loads Q y) \<Longrightarrow> loads Q (if b then x else y)"
  by simp

lemma load_string_table_ok: "(\<And>st. Q st) \<Longrightarrow> loads Q (load_string_table buff start)"
  by (auto simp: load_string_table_def intro!: read_ok loads_bytes_at)

lemma bind_string_table: "(\<And>st. loads Q (f st)) \<Longrightarrow> loads Q (andThen (load_string_table buff start) f)"
  by (simp add: load_string_table_ok)

lemma bind_bytes_at: "(\<And>bs. loads Q (f bs)) \<Longrightarrow> loads Q (andThen (bytes_at buff i n) f)"
  by (simp add: loads_bytes_at)

lemma bind_guard: "loads Q (f ()) \<Longrightarrow> \<not> memory_error e \<Longrightarrow> loads Q (andThen (guard b e) f)"
  by (simp add: guard_def)

lemma load_instruction_ok: "loads (\<lambda>(i, p). wf_inst i) (load_instruction buff start)"
proof -
  have last: "oc = OP_FUNC_DECL" if "oc \<noteq> OP_NOP" "oc \<noteq> OP_LD_INT" "oc \<noteq> OP_LD_DOUBLE" "oc \<notin> set plain_opcodes"
    "oc \<notin> set u16_opcodes" for oc
    using that by (cases oc) (simp_all only: plain_opcodes_def u16_opcodes_def list.set insert_iff simp_thms)
  have known: "loads (\<lambda>(i, p). wf_inst i)
      (if oc = OP_NOP then Inr (None, position)
       else if oc = OP_LD_INT then
         andThen (READ_I32 buff position) (\<lambda>(x, p). Inr (Some (InstInt32 oc x), p))
       else if oc = OP_LD_DOUBLE then
         andThen (READ_DOUBLE buff position) (\<lambda>(x, p). Inr (Some (InstDouble oc x), p))
       else if oc \<in> set plain_opcodes then Inr (Some (Inst oc), position)
       else if oc \<in> set u16_opcodes then
         andThen (READ_U16 buff position) (\<lambda>(x, p). Inr (Some (InstUInt16 oc x), p))
       else
         andThen (READ_U16 buff position) (\<lambda>(x, p).
         andThen (READ_U16 buff p) (\<lambda>(y, p'). Inr (Some (Inst2UInt16 oc x y), p'))))" for oc position
    unfolding case_prod_beta
    by (intro loads_if bind_read)
      (simp_all only: loads_Inr fst_conv snd_conv wf_inst_def option.case instr.case, rule last)
  have none: "loads (\<lambda>(i, p). wf_inst i) (Inr (None, position))" for position :: nat
    by (simp add: wf_inst_def)
  show ?thesis
    unfolding load_instruction_def Let_def
  proof (rule loads_bind [of "\<lambda>_. True"])
    fix byte
    show "loads (\<lambda>(i, p). wf_inst i) (case opcode_of_byte byte of None \<Rightarrow> Inr (None, start + 1) | Some oc \<Rightarrow>
        if oc = OP_NOP then Inr (None, start + 1)
        else if oc = OP_LD_INT then
          andThen (READ_I32 buff (start + 1)) (\<lambda>(x, p). Inr (Some (InstInt32 oc x), p))
        else if oc = OP_LD_DOUBLE then
          andThen (READ_DOUBLE buff (start + 1)) (\<lambda>(x, p). Inr (Some (InstDouble oc x), p))
        else if oc \<in> set plain_opcodes then Inr (Some (Inst oc), start + 1)
        else if oc \<in> set u16_opcodes then
          andThen (READ_U16 buff (start + 1)) (\<lambda>(x, p). Inr (Some (InstUInt16 oc x), p))
        else
          andThen (READ_U16 buff (start + 1)) (\<lambda>(x, p).
          andThen (READ_U16 buff p) (\<lambda>(y, p'). Inr (Some (Inst2UInt16 oc x y), p'))))"
      by (cases "opcode_of_byte byte") (simp_all only: option.case none known)
  qed simp
qed

lemma load_instructions_ok: "loads (list_all wf_inst) (load_instructions n buff p)"
proof (induction n arbitrary: p)
  case (Suc n)
  show ?case
    unfolding load_instructions.simps
  proof (rule loads_bind [OF load_instruction_ok], unfold case_prod_beta)
    fix r :: "inst_ptr \<times> nat"
    assume "wf_inst (fst r)"
    then show "loads (list_all wf_inst) (andThen (load_instructions n buff (snd r)) (\<lambda>is. Inr (fst r # is)))"
      by (intro loads_bind [OF Suc.IH]) simp
  qed
qed simp

lemma load_data_section_ok: "loads (\<lambda>ds. list_all wf_inst (instructions ds)) (load_data_section buff start)"
proof -
  have "loads (\<lambda>ds. list_all wf_inst (instructions ds)) (andThen (load_instructions n buff p)
      (\<lambda>is. Inr \<lparr>ds_length = len, ds_count = c, instructions = is\<rparr>))" for n p len c
    by (rule loads_bind [OF load_instructions_ok]) simp
  then show ?thesis
    unfolding load_data_section_def case_prod_beta by (intro bind_read)
qed

text \<open>While loading there are no functions yet, so modules can be written freely.\<close>

definition load_step :: "heap \<Rightarrow> heap \<Rightarrow> bool" where
  "load_step s s' \<longleftrightarrow>
     wf_blocks s' \<and> h_functions s' = [] \<and> h_bundles s' = h_bundles s \<and> native_modules s' = native_modules s \<and>
     length (h_modules s') = length (h_modules s) \<and> (\<forall>m. runnable s m \<longrightarrow> runnable s' m)"

lemma valid_value_modules [simp]:
  "valid_value (s\<lparr>h_modules := ms\<rparr>) v = valid_value s v" "valid_value (s\<lparr>h_bundles := bs\<rparr>) v = valid_value s v"
  by (cases v; simp)+

lemma wf_blocks_modules:
  assumes "wf_blocks s" "h_functions s = []"
  shows "wf_blocks (s\<lparr>h_modules := ms\<rparr>)" "wf_blocks (s\<lparr>h_modules := ms, h_bundles := bs\<rparr>)"
  using assms by (simp_all add: wf_blocks_def good_object_def good_scope_def good_box_def good_global_def good_dict_def
      cong: list.pred_cong)

lemma runnable_write:
  assumes "good_module s md" "\<exists>a. module_scope md = Some a \<and> a < length (h_scopes s)"
  shows "runnable s m' \<Longrightarrow> runnable (s\<lparr>h_modules := (h_modules s)[m := md]\<rparr>) m'"
    and "m < length (h_modules s) \<Longrightarrow> runnable (s\<lparr>h_modules := (h_modules s)[m := md]\<rparr>) m"
  using assms by (auto simp: runnable_def good_module_def nth_update_if)

lemma load_step_trans: "load_step a b \<Longrightarrow> load_step b c \<Longrightarrow> load_step a c"
  by (auto simp: load_step_def)

lemma module_write_ok:
  assumes "wf_blocks s" "h_functions s = []" "good_module s md"
    and "\<exists>a. module_scope md = Some a \<and> a < length (h_scopes s)"
  shows "load_step s (s\<lparr>h_modules := (h_modules s)[m := md]\<rparr>)"
  using assms runnable_write(1) [OF assms(3,4)] wf_blocks_modules(1) [OF assms(1,2)] by (simp add: load_step_def)

lemma block_load_step:
  assumes "block_step s s'" "h_functions s' = []"
  shows "load_step s s'"
  using block_stepD [OF assms(1)] assms(2) runnable_mono [OF block_stepD(2) [OF assms(1)]]
  by (simp add: load_step_def) (simp add: extends_def)

lemma module_load_ok:
  assumes "wf_blocks s" "h_functions s = []" "m < length (h_modules s)"
  shows "loads (\<lambda>r. load_step s (snd r) \<and> runnable (snd r) m) (module_load_from_buffer_offset buff m pos s)"
proof -
  obtain q s1 ex s2 where q: "object_get_object_prototype s = (q, s1)"
    and ex: "object_create_object (Some q) s1 = (ex, s2)" by fastforce
  obtain sc s3 where sc: "scope_create_scope None s2 = (sc, s3)" by fastforce
  have 1: "block_step s s1" "q < length (h_objects s1)"
    using object_get_object_prototype_ok [OF assms(1) q] by auto
  have 2: "block_step s1 s2" "ex < length (h_objects s2)"
    using object_create_ok [OF block_stepD(1) [OF 1(1)] 1(2) ex] by auto
  have 3: "block_step s2 s3" "sc < length (h_scopes s3)"
    using scope_create_ok [OF block_stepD(1) [OF 2(1)] _ sc] by auto
  have all: "block_step s s3" using 1(1) 2(1) 3(1) by (blast intro: block_step_trans)
  have fns: "h_functions s3 = []"
    using sc assms(2) by (auto simp: scope_create_scope_def object_create_object_frame [OF ex]
        object_get_object_prototype_frame [OF q])
  note step = block_load_step [OF all fns]
  have m: "m < length (h_modules s3)" using step assms(3) by (simp add: load_step_def)
  define md where "md mg ver h sp dp st ds = \<lparr>module_bundle = None, magic = mg, version = ver, hash = h,
      string_table_pos = sp, data_section_pos = dp, string_table = st, data_section = ds, initialized = False,
      exports = Some ex, module_scope = Some sc\<rparr>" for mg ver h sp dp st ds
  have good: "good_module s3 (md mg ver h sp dp st ds) \<and>
      (\<exists>a. module_scope (md mg ver h sp dp st ds) = Some a \<and> a < length (h_scopes s3))"
    if "list_all wf_inst (instructions ds)" for mg ver h sp dp st ds
    using that 3(2) extends_lengths(1) [OF block_stepD(2) [OF 3(1)] 2(2)] by (simp add: good_module_def md_def)
  have built: "load_step s (s3\<lparr>h_modules := (h_modules s3)[m := md mg ver h sp dp st ds]\<rparr>) \<and>
      runnable (s3\<lparr>h_modules := (h_modules s3)[m := md mg ver h sp dp st ds]\<rparr>) m"
    if "list_all wf_inst (instructions ds)" for mg ver h sp dp st ds
    using load_step_trans [OF step module_write_ok [OF block_stepD(1) [OF all] fns]] runnable_write(2) [OF _ _ m]
      good [OF that] by blast
  have data: "loads (\<lambda>r. load_step s (snd r) \<and> runnable (snd r) m) (andThen (load_data_section buff p)
      (\<lambda>ds. Inr (position, s3\<lparr>h_modules := (h_modules s3)[m := md mg ver h sp dp st ds]\<rparr>)))"
    for p position mg ver h sp dp st
    by (rule loads_bind [OF load_data_section_ok]) (simp add: built)
  show ?thesis
    unfolding module_load_from_buffer_offset_def q ex sc prod.case md_def [symmetric]
    unfolding case_prod_beta
    by (intro bind_bytes_at bind_guard bind_read bind_string_table data) simp_all
qed

lemma set_module_bundle_ok:
  assumes "wf_blocks s" "h_functions s = []" "runnable s m" "b < length (h_bundles s)"
  shows "load_step s (set_module_bundle b m s) \<and> runnable (set_module_bundle b m s) m"
proof -
  have "good_module s ((h_modules s ! m)\<lparr>module_bundle := Some b\<rparr>)"
    "\<exists>a. module_scope ((h_modules s ! m)\<lparr>module_bundle := Some b\<rparr>) = Some a \<and> a < length (h_scopes s)"
    "m < length (h_modules s)"
    using assms(3,4) by (auto simp: runnable_def good_module_def)
  note md = this
  show ?thesis
    unfolding set_module_bundle_def
    using module_write_ok [OF assms(1,2) md(1,2)] runnable_write(2) [OF md] by blast
qed

lemma load_bundle_modules_ok:
  assumes "wf_blocks s" "h_functions s = []" "b < length (h_bundles s)" "\<forall>m \<in> set ms. m < length (h_modules s)"
  shows "loads (\<lambda>s'. load_step s s' \<and> list_all (runnable s') ms) (load_bundle_modules buff b ms position s)"
  using assms
proof (induction ms arbitrary: position s)
  case Nil
  then show ?case by (simp add: load_step_def)
next
  case (Cons m ms)
  have m: "m < length (h_modules s)" using Cons.prems(4) by simp
  have rest: "loads (\<lambda>s'. load_step s s' \<and> list_all (runnable s') (m # ms))
      (load_bundle_modules buff b ms p (set_module_bundle b m s1))"
    if "load_step s s1" "runnable s1 m" for p s1
  proof -
    have 2: "load_step s1 (set_module_bundle b m s1)" "runnable (set_module_bundle b m s1) m"
      using set_module_bundle_ok [OF _ _ that(2), of b] that(1) Cons.prems(3) by (auto simp: load_step_def)
    note 02 = load_step_trans [OF that(1) 2(1)]
    have "loads (\<lambda>s'. load_step (set_module_bundle b m s1) s' \<and> list_all (runnable s') ms)
        (load_bundle_modules buff b ms p (set_module_bundle b m s1))"
      using 02 Cons.prems(3,4) by (intro Cons.IH) (auto simp: load_step_def)
    then show ?thesis
      by (rule loads_mono) (use 02 2(2) in \<open>auto simp: load_step_def\<close>)
  qed
  show ?case
    unfolding load_bundle_modules.simps
    by (rule loads_bind [OF module_load_ok [OF Cons.prems(1,2) m]])
      (simp only: case_prod_beta, rule rest, blast+)
qed

section \<open>Whole programs\<close>

text \<open>The heap after loading: what \<open>vm_init\<close> and the module search need.\<close>

definition loaded :: "heap \<Rightarrow> bool" where
  "loaded s \<longleftrightarrow> wf_blocks s \<and> wf_modules s \<and> native_modules s = [] \<and> 0 < length (h_bundles s)"

lemma runnable_grow:
  assumes "runnable s m" "length (h_bundles s) = length bs"
  shows "runnable (s\<lparr>h_modules := h_modules s @ ms, h_bundles := bs\<rparr>) m"
  using assms by (auto simp: runnable_def good_module_def nth_append)

lemma bundle_heap_ok:
  assumes "loaded s" "h_functions s = []"
    and "load_step (s\<lparr>h_modules := h_modules s @ zs, h_bundles := (h_bundles s)[b := bun]\<rparr>) s'"
    and "list_all (runnable s') (bundle_modules bun)"
  shows "loaded s'"
proof -
  have mono: "runnable s' m" if "runnable s m" for m
    using assms(3) runnable_grow [OF that, of "(h_bundles s)[b := bun]" zs] by (simp add: load_step_def)
  have "list_all (runnable s') (bundle_modules x)" if "x \<in> set (h_bundles s')" for x
  proof -
    have "x \<in> set (h_bundles s) \<or> x = bun"
      using that assms(3) set_update_cases [of x "h_bundles s" b bun] by (simp add: load_step_def)
    then show ?thesis
      using assms(1,4) mono by (auto simp: loaded_def wf_modules_def list_all_iff)
  qed
  then show ?thesis
    using assms(1,3) by (auto simp: loaded_def wf_modules_def load_step_def list_all_iff)
qed

lemma bundle_load_ok:
  assumes "loaded s" "h_functions s = []" "b < length (h_bundles s)"
  shows "loads loaded (bundle_load_from_buffer buff b s)"
proof -
  let ?ms = "\<lambda>count :: u16. [length (h_modules s) ..< length (h_modules s) + unat count]"
  have modules: "loads loaded (let ms = ?ms count; bun = \<lparr>bundle_magic = mg, bundle_version = ver, entryPoint = entry,
          moduleCount = count, bundle_modules = ms\<rparr>
      in load_bundle_modules buff b ms position
           (s\<lparr>h_modules := h_modules s @ replicate (unat count) zero_module, h_bundles := (h_bundles s)[b := bun]\<rparr>))"
    for count mg ver entry position
  proof -
    define bun where "bun = \<lparr>bundle_magic = mg, bundle_version = ver, entryPoint = entry,
          moduleCount = count, bundle_modules = ?ms count\<rparr>"
    let ?s = "s\<lparr>h_modules := h_modules s @ replicate (unat count) zero_module, h_bundles := (h_bundles s)[b := bun]\<rparr>"
    have "wf_blocks ?s" using assms(1,2) by (intro wf_blocks_modules(2)) (simp_all add: loaded_def)
    then have "loads (\<lambda>s'. load_step ?s s' \<and> list_all (runnable s') (?ms count))
        (load_bundle_modules buff b (?ms count) position ?s)"
      using assms(2,3) by (intro load_bundle_modules_ok) simp_all
    then have "loads loaded (load_bundle_modules buff b (?ms count) position ?s)"
    proof (rule loads_mono)
      fix s'
      assume "load_step ?s s' \<and> list_all (runnable s') (?ms count)"
      then show "loaded s'" by (intro bundle_heap_ok [OF assms(1,2)]) (auto simp: bun_def)
    qed
    then show ?thesis by (simp only: Let_def bun_def)
  qed
  show ?thesis
    unfolding bundle_load_from_buffer_def case_prod_beta
    by (intro bind_bytes_at bind_guard bind_read modules) simp_all
qed

lemma has_magic_ok: "(\<And>b. Q b) \<Longrightarrow> loads Q (has_magic buff i bs)"
  by (induction bs arbitrary: i) auto

lemma unknown_load_ok:
  assumes "loaded s" "h_functions s = []" "b < length (h_bundles s)" "m < length (h_modules s)"
  shows "loads (\<lambda>r. loaded (snd r) \<and> (fst r = LOAD_MODULE \<longrightarrow> runnable (snd r) m)) (unknown_load_from_buffer buff m b s)"
proof -
  have "wf_blocks s" using assms(1) by (simp add: loaded_def)
  then have "loads (\<lambda>s'. loaded s' \<and> runnable s' m) (module_load_from_buffer buff m s)"
    unfolding module_load_from_buffer_def
    by (rule loads_bind [OF module_load_ok [OF _ assms(2,4)]])
      (use assms(1) in \<open>auto simp: loaded_def load_step_def wf_modules_def list_all_iff\<close>)
  then have m: "loads (\<lambda>r. loaded (snd r) \<and> (fst r = LOAD_MODULE \<longrightarrow> runnable (snd r) m))
      (andThen (module_load_from_buffer buff m s) (\<lambda>s'. Inr (LOAD_MODULE, s')))"
    by (rule loads_bind) simp
  have bun: "loads (\<lambda>r. loaded (snd r) \<and> (fst r = LOAD_MODULE \<longrightarrow> runnable (snd r) m))
      (andThen (bundle_load_from_buffer buff b s) (\<lambda>s'. Inr (LOAD_BUNDLE, s')))"
    by (rule loads_bind [OF bundle_load_ok [OF assms(1-3)]]) simp
  show ?thesis
    unfolding unknown_load_from_buffer_def
    by (rule loads_bind [of "\<lambda>_. True"]) (simp add: has_magic_ok, intro loads_if m bun)
qed

lemma run_module_ok:
  assumes "loaded s" "runnable s m"
  shows "safe (\<lambda>_. True) (run_module (machine n) [core_init] m s)"
  unfolding run_module_def
proof (rule safe_bind [OF vm_init_ok])
  show "wf_blocks s" "wf_modules s" using assms(1) by (simp_all add: loaded_def)
  fix vm
  assume "wf_vm vm \<and> runnable vm m"
  then show "safe (\<lambda>_. True) (andThen (exec_module (machine n) m vm) (\<lambda>vm1. Inr (0, stdout vm1)))"
    by (intro safe_bind [OF machine.exec_module_ok]) simp_all
qed (rule assms(2))

lemma run_loaded_ok:
  assumes "loaded (snd r)" "fst r = LOAD_MODULE \<longrightarrow> runnable (snd r) 0"
  shows "safe (\<lambda>_. True) (run_loaded (machine n) [core_init] r)"
proof (cases r)
  case (Pair k s)
  show ?thesis
  proof (cases k)
    case LOAD_MODULE
    with Pair assms show ?thesis by (simp add: run_loaded_def run_module_ok)
  next
    case LOAD_BUNDLE
    have s: "loaded s" using assms(1) Pair by simp
    have ms: "list_all (runnable s) (bundle_modules (h_bundles s ! 0))"
      using s by (simp add: loaded_def wf_modules_def list_all_length)
    have "safe (runnable s) (andThen (bundle_search k low high (bundle_modules (h_bundles s ! 0)) h s)
        (\<lambda>r. case r of Some m \<Rightarrow> Inr m | None \<Rightarrow> native_search (native_modules s) h s))" for k low high h
      by (rule safe_bind [OF bundle_search_ok [OF ms]])
        (use s in \<open>auto simp: loaded_def split: option.split\<close>)
    then have "safe (runnable s) (bundle_get_module (Some 0) h s)" for h
      using s unfolding bundle_get_module_def loaded_def by (simp only: option.case deref_lt andThen_Inr)
    then have "safe (\<lambda>_. True) (andThen (bundle_get_module (Some 0) h s) (\<lambda>m. run_module (machine n) [core_init] m s))" for h
      by (rule safe_bind) (rule run_module_ok [OF s])
    with s show ?thesis by (simp add: run_loaded_def Pair LOAD_BUNDLE loaded_def del: safe_andThen)
  qed
qed

lemma initial_heap_ok: "loaded initial_heap" "h_functions initial_heap = []"
  "0 < length (h_bundles initial_heap)" "0 < length (h_modules initial_heap)"
  by (simp_all add: initial_heap_def empty_heap_def loaded_def wf_blocks_def wf_modules_def zero_bundle_def
      good_global_def)

text \<open>The whole program adds no memory error to those of the loader.\<close>

lemma run_after_load:
  assumes "loads (\<lambda>r. loaded (snd r) \<and> (fst r = LOAD_MODULE \<longrightarrow> runnable (snd r) 0)) r"
  shows "(andThen r (run_loaded (machine n) [core_init]) = Inl (Fault Null_Deref) \<longleftrightarrow> r = Inl (Fault Null_Deref)) \<and>
    andThen r (run_loaded (machine n) [core_init]) \<notin> {Inl (Fault Dangling), Inl (Fault Uninitialised), Inl (Fault Wrong_Cast)}"
proof (cases r)
  case (Inl e)
  then show ?thesis using assms by auto
next
  case (Inr x)
  then have "safe (\<lambda>_. True) (run_loaded (machine n) [core_init] x)" using assms by (intro run_loaded_ok) simp_all
  then show ?thesis using Inr by (auto simp: safe_def)
qed

lemma file_load_ok:
  "loads (\<lambda>r. loaded (snd r) \<and> (fst r = LOAD_MODULE \<longrightarrow> runnable (snd r) 0)) (unknown_load_from_file files name 0 0 initial_heap)"
  using unknown_load_ok [OF initial_heap_ok]
  by (auto simp: unknown_load_from_file_def loader_read_file_def simp del: loads_andThen split: option.split)

end
