(* ===== verification/Atomix_Fuel.thy ===== *)
theory Atomix_Fuel
  imports Atomix_Engine
begin

text \<open>
  More fuel never changes a result other than \<open>Diverge\<close>. The approximation order on results
  is lifted to engines, every operation that calls an engine is monotone in it, and
  \<open>machine n\<close> is an increasing chain. So a result obtained with some fuel is the result of
  the program, and \<open>Diverge\<close> for every fuel means that it does not return.
\<close>

section \<open>The approximation order\<close>

definition res_le :: "'a res \<Rightarrow> 'a res \<Rightarrow> bool" where
  "res_le r r' \<longleftrightarrow> r = Inl Diverge \<or> r' = r"

named_theorems fuel_mono \<open>monotonicity in the engine\<close>

lemma res_le_refl [simp, fuel_mono]: "res_le r r"
  by (simp add: res_le_def)

lemma res_le_Diverge [simp]: "res_le (Inl Diverge) r"
  by (simp add: res_le_def)

lemma res_le_trans: "res_le a b \<Longrightarrow> res_le b c \<Longrightarrow> res_le a c"
  by (auto simp: res_le_def)

lemma res_le_andThen [fuel_mono]:
  assumes "res_le m m'" "\<And>x. res_le (f x) (f' x)"
  shows "res_le (andThen m f) (andThen m' f')"
  using assms by (cases m) (auto simp: res_le_def)

lemma res_le_if [fuel_mono]: "res_le x x' \<Longrightarrow> res_le y y' \<Longrightarrow> res_le (if b then x else y) (if b then x' else y')"
  by simp

lemma res_le_prod [fuel_mono]:
  "(\<And>a b. res_le (f a b) (f' a b)) \<Longrightarrow> res_le (case p of (a, b) \<Rightarrow> f a b) (case p of (a, b) \<Rightarrow> f' a b)"
  by (cases p) simp

lemma res_le_option [fuel_mono]:
  "res_le x x' \<Longrightarrow> (\<And>a. res_le (f a) (f' a)) \<Longrightarrow>
     res_le (case q of None \<Rightarrow> x | Some a \<Rightarrow> f a) (case q of None \<Rightarrow> x' | Some a \<Rightarrow> f' a)"
  by (cases q) simp_all

definition engine_le :: "engine \<Rightarrow> engine \<Rightarrow> bool" where
  "engine_le e e' \<longleftrightarrow>
     (\<forall>f this args vm. res_le (call_function e f this args vm) (call_function e' f this args vm)) \<and>
     (\<forall>f vm. res_le (exec_function e f vm) (exec_function e' f vm)) \<and>
     (\<forall>m vm. res_le (exec_module e m vm) (exec_module e' m vm)) \<and>
     (\<forall>fin vm. res_le (loop_function e fin vm) (loop_function e' fin vm)) \<and>
     (\<forall>vm. res_le (loop_module e vm) (loop_module e' vm))"

lemma engine_leD [fuel_mono]:
  assumes "engine_le e e'"
  shows "res_le (call_function e f this args vm) (call_function e' f this args vm)"
    and "res_le (exec_function e f vm) (exec_function e' f vm)"
    and "res_le (exec_module e m vm) (exec_module e' m vm)"
    and "res_le (loop_function e fin vm) (loop_function e' fin vm)"
    and "res_le (loop_module e vm) (loop_module e' vm)"
  using assms by (simp_all add: engine_le_def)

lemma res_le_value [fuel_mono]:
  assumes "\<And>x. res_le (f1 x) (g1 x)" "\<And>x. res_le (f2 x) (g2 x)" "\<And>x. res_le (f3 x) (g3 x)"
    "\<And>x. res_le (f4 x) (g4 x)" "\<And>x. res_le (f5 x) (g5 x)" "res_le f6 g6" "res_le f7 g7"
    "\<And>x. res_le (f8 x) (g8 x)" "\<And>x. res_le (f9 x) (g9 x)" "\<And>x. res_le (f10 x) (g10 x)"
  shows "res_le (case_JSValue f1 f2 f3 f4 f5 f6 f7 f8 f9 f10 v) (case_JSValue g1 g2 g3 g4 g5 g6 g7 g8 g9 g10 v)"
  using assms by (cases v) simp_all

lemma res_le_list [fuel_mono]:
  "res_le x x' \<Longrightarrow> (\<And>a as. res_le (f a as) (f' a as)) \<Longrightarrow> res_le (case_list x f as) (case_list x' f' as)"
  by (cases as) simp_all

section \<open>Objects\<close>

definition caller_le :: "'s caller \<Rightarrow> 's caller \<Rightarrow> bool" where
  "caller_le c c' \<longleftrightarrow> (\<forall>f this args s. res_le (c f this args s) (c' f this args s))"

lemma caller_leD: "caller_le c c' \<Longrightarrow> res_le (c f this args s) (c' f this args s)"
  by (simp add: caller_le_def)

lemma engine_caller [fuel_mono]: "engine_le e e' \<Longrightarrow> caller_le (call_function e) (call_function e')"
  by (simp add: caller_le_def engine_le_def)

lemma accessor_mono [fuel_mono]:
  assumes "caller_le c c'"
  shows "res_le (call_setter c a b v s) (call_setter c' a b v s)"
    and "res_le (call_getter c a b s) (call_getter c' a b s)"
  unfolding call_setter_def call_getter_def by (intro fuel_mono caller_leD [OF assms])+

lemma set_property_mono [fuel_mono]:
  assumes "caller_le c c'"
  shows "res_le (object_set_property c a k v s) (object_set_property c' a k v s)"
    and "res_le (object_set_property_with_symbol c a y v s) (object_set_property_with_symbol c' a y v s)"
  unfolding object_set_property_def object_set_property_with_symbol_def by (intro fuel_mono assms)+

lemma get_property_rec_mono:
  assumes "caller_le c c'"
  shows "res_le (object_get_property_rec n c a k s) (object_get_property_rec n c' a k s)"
    and "res_le (object_get_property_by_symbol_rec n c a y s) (object_get_property_by_symbol_rec n c' a y s)"
proof (induction n arbitrary: a)
  case (Suc n)
  { case 1 show ?case unfolding object_get_property_rec.simps by (intro fuel_mono assms Suc.IH) }
  { case 2 show ?case unfolding object_get_property_by_symbol_rec.simps by (intro fuel_mono assms Suc.IH) }
qed simp_all

lemma get_property_mono [fuel_mono]:
  assumes "caller_le c c'"
  shows "res_le (object_get_property c a k s) (object_get_property c' a k s)"
    and "res_le (object_get_property_by_symbol c a y s) (object_get_property_by_symbol c' a y s)"
  unfolding object_get_property_def object_get_property_by_symbol_def
  by (rule get_property_rec_mono [OF assms])+

lemma symbol_mono [fuel_mono]:
  assumes "caller_le c c'"
  shows "res_le (createSymbol c t s) (createSymbol c' t s)"
    and "res_le (symbol_to_primitive c s) (symbol_to_primitive c' s)"
  unfolding symbol_to_primitive_def createSymbol_def by (intro fuel_mono assms)+

section \<open>Native functions\<close>

lemma set_elements_mono [fuel_mono]:
  assumes "caller_le c c'"
  shows "res_le (set_elements c arr i vs vm) (set_elements c' arr i vs vm)"
proof (induction vs arbitrary: i vm)
  case (Cons v vs)
  show ?case unfolding set_elements.simps by (intro fuel_mono assms Cons.IH)
qed simp

lemma natives_mono [fuel_mono]:
  assumes "engine_le e e'"
  shows "res_le (module_import_module e vm this args) (module_import_module e' vm this args)"
    and "res_le (instantiate_native e vm this args) (instantiate_native e' vm this args)"
    and "res_le (array_native e vm this args) (array_native e' vm this args)"
    and "res_le (call_native e vm this args) (call_native e' vm this args)"
    and "res_le (symbol_native e vm this args) (symbol_native e' vm this args)"
  unfolding module_import_module_def instantiate_native_def array_native_def array_with_def call_native_def
    symbol_native_def by (intro fuel_mono assms)+

lemma run_native_mono [fuel_mono]:
  "engine_le e e' \<Longrightarrow> res_le (run_native e n vm this args) (run_native e' n vm this args)"
  by (cases n) (simp_all add: natives_mono)

section \<open>Instructions and loops\<close>

lemma instructions_mono [fuel_mono]:
  assumes "engine_le e e'"
  shows "res_le (inst_call e vm p) (inst_call e' vm p)"
    and "res_le (inst_obj_store e vm p) (inst_obj_store e' vm p)"
    and "res_le (inst_obj_load e vm p) (inst_obj_load e' vm p)"
    and "res_le (inst_obj_cload e vm p) (inst_obj_cload e' vm p)"
    and "res_le (inst_obj_cstore e vm p) (inst_obj_cstore e' vm p)"
    and "res_le (inst_export e vm p) (inst_export e' vm p)"
  unfolding inst_call_def call_native_function_def inst_obj_store_def inst_obj_load_def inst_obj_cload_def
    inst_obj_cstore_def inst_export_def by (intro fuel_mono assms)+

lemma inst_set_mono [fuel_mono]:
  "engine_le e e' \<Longrightarrow> res_le (inst_set e oc vm p) (inst_set e' oc vm p)"
  by (cases oc) (simp_all add: instructions_mono)

lemma vm_exec_mono [fuel_mono]: "engine_le e e' \<Longrightarrow> res_le (vm_exec e vm) (vm_exec e' vm)"
  unfolding vm_exec_def Let_def by (intro fuel_mono)

lemma loops_mono [fuel_mono]:
  assumes "engine_le e e'"
  shows "res_le (module_loop e vm) (module_loop e' vm)"
    and "res_le (function_loop e fin vm) (function_loop e' fin vm)"
  unfolding module_loop_def function_loop_def by (intro fuel_mono assms)+

lemma calls_mono [fuel_mono]:
  assumes "engine_le e e'"
  shows "res_le (vm_exec_module e m vm) (vm_exec_module e' m vm)"
    and "res_le (vm_exec_function e f vm) (vm_exec_function e' f vm)"
    and "res_le (api_call_function e f this args vm) (api_call_function e' f this args vm)"
  unfolding vm_exec_module_def vm_exec_function_def api_call_function_def by (intro fuel_mono assms)+

section \<open>The chain of machines\<close>

lemma next_engine_mono: "engine_le e e' \<Longrightarrow> engine_le (next_engine e) (next_engine e')"
  by (subst engine_le_def) (simp add: next_engine_def loops_mono calls_mono)

lemma engine_le_refl: "engine_le e e"
  by (simp add: engine_le_def)

lemma engine_le_trans: "engine_le a b \<Longrightarrow> engine_le b c \<Longrightarrow> engine_le a c"
  by (subst engine_le_def, intro conjI allI)
    (rule res_le_trans, rule engine_leD, assumption, rule engine_leD, assumption)+

lemma machine_Suc: "engine_le (machine n) (machine (Suc n))"
proof (induction n)
  case 0
  show ?case by (simp add: engine_le_def no_engine_def)
next
  case (Suc n)
  then show ?case by (simp add: next_engine_mono)
qed

lemma machine_mono: "n \<le> m \<Longrightarrow> engine_le (machine n) (machine m)"
  by (induction m rule: dec_induct) (simp_all only: engine_le_refl, rule engine_le_trans [OF _ machine_Suc])

section \<open>Programs\<close>

lemma init_mono [fuel_mono]:
  assumes "engine_le e e'"
  shows "res_le (core_init e sc vm) (core_init e' sc vm)"
  unfolding core_init_def init_module_def init_object_def init_array_def init_function_def init_symbol_def
    native_property_def by (intro fuel_mono assms)

lemma run_mono [fuel_mono]:
  assumes "engine_le e e'"
  shows "res_le (run_loaded e [core_init] r) (run_loaded e' [core_init] r)"
proof -
  have run: "res_le (run_module e [core_init] m s) (run_module e' [core_init] m s)" for m s
    unfolding run_module_def vm_init_def bind_modules.simps by (intro fuel_mono assms)
  obtain k s where "r = (k, s)" by fastforce
  then show ?thesis
    by (cases k) (auto simp: run_loaded_def intro!: fuel_mono run)
qed

lemma main_mono:
  assumes "n \<le> m"
  shows "res_le (release_main (machine n) [core_init] bytecode) (release_main (machine m) [core_init] bytecode)"
    and "res_le (debug_main (machine n) [core_init] files argv) (debug_main (machine m) [core_init] files argv)"
  unfolding release_main_def debug_main_def by (intro fuel_mono machine_mono [OF assms])+

end
