(* ===== verification/Atomix_Stack_Laws.thy ===== *)
theory Atomix_Stack_Laws
  imports Atomix_Exec
begin

text \<open>
  The operand stack as a list. \<open>stack_list\<close> reads the values below the stack counter, top
  first; the primitives of \<open>Atomix_Machine\<close> are the list operations push, pop and replace,
  and the frame of the binary and unary instructions is a rewriting of the top of the list.
  Everything else of the machine is left alone.
\<close>

section \<open>Primitives\<close>

text \<open>The two ways a machine changes when only its stack does.\<close>

definition same_but_stack :: "VM \<Rightarrow> VM \<Rightarrow> bool" where
  "same_but_stack vm vm' \<longleftrightarrow>
     heap.truncate vm' = heap.truncate vm \<and> vm_module vm' = vm_module vm \<and>
     globalScope vm' = globalScope vm \<and> vm_scope vm' = vm_scope vm \<and> ic vm' = ic vm \<and>
     stack_start (stats vm') = stack_start (stats vm) \<and> length (stack (stats vm')) = length (stack (stats vm))"

lemma same_but_stack_refl [simp]: "same_but_stack vm vm"
  by (simp add: same_but_stack_def)

lemma same_but_stack_trans: "same_but_stack a b \<Longrightarrow> same_but_stack b c \<Longrightarrow> same_but_stack a c"
  by (simp add: same_but_stack_def)

lemma same_set_sp [simp]: "same_but_stack vm (set_sp n vm)"
  by (simp add: same_but_stack_def set_sp_def heap.defs)

text \<open>The counter is inside the array.\<close>

definition stack_fits :: "VM \<Rightarrow> bool" where
  "stack_fits vm \<longleftrightarrow> sp vm \<le> length (stack (stats vm))"

lemma length_stack_list [simp]: "stack_fits vm \<Longrightarrow> length (stack_list vm) = sp vm"
  by (simp add: stack_list_def stack_fits_def)

lemma nth_stack_list:
  assumes "stack_fits vm" "k < sp vm"
  shows "stack_list vm ! k = stack (stats vm) ! (sp vm - Suc k)"
  using assms by (simp add: stack_list_def stack_fits_def rev_nth)

lemma peek_spec:
  assumes "stack_fits vm" "0 < k"
  shows "peek k vm = Inr v \<longleftrightarrow> k \<le> sp vm \<and> stack_list vm ! (k - 1) = Some v"
  using assms
  by (auto simp: peek_def stack_read_def array_at_def nth_stack_list stack_fits_def split: option.splits)

lemma stack_list_set_sp: "n \<le> sp vm \<Longrightarrow> stack_fits vm \<Longrightarrow> stack_list (set_sp n vm) = drop (sp vm - n) (stack_list vm)"
  by (simp add: stack_list_def set_sp_def stack_fits_def drop_rev)

lemma stack_fits_set_sp: "n \<le> sp vm \<Longrightarrow> stack_fits vm \<Longrightarrow> stack_fits (set_sp n vm)"
  by (simp add: stack_fits_def set_sp_def)

lemma poke_spec:
  assumes "stack_fits vm" "0 < k"
  shows "poke k v vm = Inr vm' \<Longrightarrow>
    k \<le> sp vm \<and> stack_list vm' = (stack_list vm)[k - 1 := Some v] \<and> stack_fits vm' \<and> same_but_stack vm vm'"
  using assms
  by (auto simp: poke_def stack_write_def stack_fits_def stack_list_def same_but_stack_def heap.defs take_update_swap
      rev_update split: if_splits)

lemma push_spec:
  assumes "stack_fits vm" "push v vm = Inr vm'"
  shows "stack_list vm' = Some v # stack_list vm" "stack_fits vm'" "same_but_stack vm vm'" "sp vm' = Suc (sp vm)"
  using assms
  by (auto simp: push_def stack_write_def set_sp_def stack_fits_def stack_list_def same_but_stack_def heap.defs
      take_Suc_conv_app_nth split: if_splits)

lemma pop_spec:
  assumes "stack_fits vm" "pop vm = Inr (v, vm')"
  shows "stack_list vm = Some v # stack_list vm'" "stack_fits vm'" "same_but_stack vm vm'" "sp vm = Suc (sp vm')"
proof -
  have p: "peek 1 vm = Inr v" and vm': "vm' = set_sp (sp vm - 1) vm"
    using assms(2) by (auto simp: pop_def res_simps)
  have sp: "1 \<le> sp vm" "stack_list vm ! 0 = Some v" using peek_spec [OF assms(1), of 1] p by auto
  have "stack_list vm = stack_list vm ! 0 # drop 1 (stack_list vm)"
    using sp(1) assms(1) Cons_nth_drop_Suc [of 0 "stack_list vm"] by simp
  then show "stack_list vm = Some v # stack_list vm'"
    using sp assms(1) by (simp add: vm' stack_list_set_sp)
  show "stack_fits vm'" "same_but_stack vm vm'" "sp vm = Suc (sp vm')"
    using sp(1) assms(1) by (simp_all add: vm' stack_fits_set_sp) (simp add: set_sp_def)
qed

section \<open>Instructions as list operations\<close>

text \<open>What the result of an operator leaves on the stack.\<close>

fun apply_result :: "binary_result \<Rightarrow> JSValue \<Rightarrow> JSValue option list \<Rightarrow> JSValue option list" where
  "apply_result (Replace_Both v) left rest = Some v # rest"
| "apply_result (Replace_Top v) left rest = Some v # Some left # rest"

definition binary_spec ::
    "(JSValue \<Rightarrow> JSValue \<Rightarrow> binary_result res) \<Rightarrow> JSValue option list \<Rightarrow> JSValue option list res" where
  "binary_spec f xs =
     (case xs of
        Some right # Some left # rest \<Rightarrow> andThen (f left right) (\<lambda>r. Inr (apply_result r left rest))
      | _ # _ # _ \<Rightarrow> Inl (Fault Uninitialised)
      | _ \<Rightarrow> Inl (Panic ''Stack underflow''))"

lemma stack_list_two:
  assumes "stack_fits vm" "2 \<le> sp vm"
  obtains y x rest where "stack_list vm = y # x # rest"
proof -
  have "2 \<le> length (stack_list vm)" using assms by simp
  then obtain y ys where 1: "stack_list vm = y # ys" "1 \<le> length ys" by (cases "stack_list vm") auto
  then obtain x rest where "ys = x # rest" by (cases ys) auto
  with 1 show thesis using that by blast
qed

lemma peek_top:
  assumes "stack_fits vm" "stack_list vm = y # ys"
  shows "peek 1 vm = (case y of None \<Rightarrow> Inl (Fault Uninitialised) | Some v \<Rightarrow> Inr v)"
proof -
  have "sp vm = Suc (length ys)" using length_stack_list [OF assms(1)] assms(2) by simp
  moreover from this have "stack (stats vm) ! (sp vm - 1) = y" "sp vm - 1 < length (stack (stats vm))"
    using nth_stack_list [OF assms(1), of 0] assms by (simp_all add: stack_fits_def)
  ultimately show ?thesis by (simp add: peek_def stack_read_def array_at_def)
qed

lemma peek_second:
  assumes "stack_fits vm" "stack_list vm = y # x # ys"
  shows "peek 2 vm = (case x of None \<Rightarrow> Inl (Fault Uninitialised) | Some v \<Rightarrow> Inr v)"
proof -
  have "sp vm = Suc (Suc (length ys))" using length_stack_list [OF assms(1)] assms(2) by simp
  moreover from this have "stack (stats vm) ! (sp vm - 2) = x" "sp vm - 2 < length (stack (stats vm))"
    using nth_stack_list [OF assms(1), of 1] assms by (simp_all add: stack_fits_def numeral_2_eq_2)
  ultimately show ?thesis by (simp add: peek_def stack_read_def array_at_def)
qed

lemma poke_top:
  assumes "stack_fits vm" "stack_list vm = y # ys"
  obtains vm' where "poke 1 v vm = Inr vm'" "stack_list vm' = Some v # ys" "stack_fits vm'" "same_but_stack vm vm'"
proof -
  have "sp vm = Suc (length ys)" using length_stack_list [OF assms(1)] assms(2) by simp
  then have "\<exists>vm'. poke 1 v vm = Inr vm'" using assms(1) by (simp add: poke_def stack_write_def stack_fits_def)
  then obtain vm' where p: "poke 1 v vm = Inr vm'" by blast
  from poke_spec [OF assms(1) _ p] assms(2) that [OF p] show thesis by simp
qed

theorem binary_inst_spec:
  assumes "stack_fits vm"
  shows "case binary_spec f (stack_list vm) of
      Inl e \<Rightarrow> binary_inst f vm p = Inl e
    | Inr ys \<Rightarrow> \<exists>vm'. binary_inst f vm p = Inr vm' \<and> stack_list vm' = ys \<and> stack_fits vm' \<and> same_but_stack vm vm'"
proof (cases "2 \<le> sp vm")
  case False
  then have "length (stack_list vm) < 2" using assms by simp
  then have "binary_spec f (stack_list vm) = Inl (Panic ''Stack underflow'')"
    by (cases "stack_list vm"; cases "tl (stack_list vm)") (auto simp: binary_spec_def split: option.splits)
  with False show ?thesis by (simp add: binary_inst_def check_underflow_def)
next
  case True
  then obtain y x rest where st: "stack_list vm = y # x # rest" using stack_list_two [OF assms] by blast
  note peek = peek_top [OF assms st] peek_second [OF assms st]
  show ?thesis
  proof (cases "\<exists>l r. x = Some l \<and> y = Some r")
    case False
    with True peek st show ?thesis
      by (auto simp: binary_spec_def binary_inst_def check_underflow_def split: option.splits)
  next
    case vals: True
    then obtain l r where lr: "x = Some l" "y = Some r" by blast
    show ?thesis
    proof (cases "f l r")
      case (Inl e)
      with True peek st lr show ?thesis
        by (simp add: binary_spec_def binary_inst_def check_underflow_def)
    next
      case (Inr res)
      have run: "binary_inst f vm p = (case res of Replace_Both v \<Rightarrow> poke 1 v (set_sp (sp vm - 1) vm)
          | Replace_Top v \<Rightarrow> poke 1 v vm)"
        using True peek lr Inr by (simp add: binary_inst_def check_underflow_def split: binary_result.split)
      have fits: "stack_fits (set_sp (sp vm - 1) vm)" "stack_list (set_sp (sp vm - 1) vm) = x # rest"
        using assms True st by (simp_all add: stack_fits_set_sp stack_list_set_sp)
      show ?thesis
      proof (cases res)
        case (Replace_Both v)
        from poke_top [OF fits, of v] obtain vm' where "poke 1 v (set_sp (sp vm - 1) vm) = Inr vm'"
          "stack_list vm' = Some v # rest" "stack_fits vm'" "same_but_stack (set_sp (sp vm - 1) vm) vm'" by blast
        then show ?thesis
          using same_but_stack_trans [OF same_set_sp] st lr Inr by (auto simp: run binary_spec_def Replace_Both)
      next
        case (Replace_Top v)
        from poke_top [OF assms st, of v] obtain vm' where "poke 1 v vm = Inr vm'"
          "stack_list vm' = Some v # x # rest" "stack_fits vm'" "same_but_stack vm vm'" by blast
        then show ?thesis
          using st lr Inr by (auto simp: run binary_spec_def Replace_Top)
      qed
    qed
  qed
qed

end
