(* ===== verification/Atomix_Demo.thy ===== *)
theory Atomix_Demo
  imports Atomix_Safety Atomix_Stack_Laws
begin

text \<open>
  Small machines on which the properties are exercised: one module with given instructions,
  one global scope, one object that is its own prototype (the shape of the object prototype),
  one bytecode function over the whole module and its prototype chain, and a given stack, top
  first.
\<close>

definition demo_heap :: "inst_ptr list \<Rightarrow> heap" where
  "demo_heap code =
     empty_heap
       \<lparr>h_objects := [\<lparr>prototype = Some 0, properties = dict_create_dict OBJECT_BUCKET_SIZE\<rparr>],
        h_scopes := [\<lparr>parent = None, symbols = dict_create_dict SCOPE_BUCKET_SIZE\<rparr>],
        h_functions := [\<lparr>base = 0, native_function = None, function_scope = Some 0,
          function_module = Some 0, instruction_start = 0, instruction_end = length code, is_native = False\<rparr>],
        h_modules := [zero_module
          \<lparr>data_section := \<lparr>ds_length = 0, ds_count = word_of_nat (length code), instructions = code\<rparr>,
           exports := Some 0, module_scope := Some 0\<rparr>],
        object_prototype := Some 0\<rparr>"

definition demo_vm :: "inst_ptr list \<Rightarrow> JSValue list \<Rightarrow> VM" where
  "demo_vm code values =
     heap.extend (demo_heap code)
       \<lparr>vm_module = 0, globalScope = 0, vm_scope = Some 0,
        stats = \<lparr>instruction_counter = 0, stack_counter = length values, stack_start = 0,
          stack = map Some (rev values) @ replicate (STACK_SIZE - length values) None\<rparr>\<rparr>"

lemma demo_fields [simp]:
  "h_objects (demo_vm code values) = h_objects (demo_heap code)"
  "h_scopes (demo_vm code values) = h_scopes (demo_heap code)"
  "h_functions (demo_vm code values) = h_functions (demo_heap code)"
  "h_boxes (demo_vm code values) = []" "h_modules (demo_vm code values) = h_modules (demo_heap code)"
  "h_bundles (demo_vm code values) = []" "native_modules (demo_vm code values) = []"
  "object_prototype (demo_vm code values) = Some 0" "array_prototype (demo_vm code values) = None"
  "function_prototype (demo_vm code values) = None" "symbol_prototype (demo_vm code values) = None"
  "to_primitive_symbol (demo_vm code values) = None" "stdout (demo_vm code values) = []"
  "vm_module (demo_vm code values) = 0" "globalScope (demo_vm code values) = 0"
  "vm_scope (demo_vm code values) = Some 0"
  "sp (demo_vm code values) = length values" "ic (demo_vm code values) = 0"
  "stack_start (stats (demo_vm code values)) = 0"
  "stack (stats (demo_vm code values)) = map Some (rev values) @ replicate (STACK_SIZE - length values) None"
  by (simp_all add: demo_vm_def heap.defs demo_heap_def empty_heap_def)

lemma demo_lengths [simp]:
  "length (h_objects (demo_heap code)) = 1" "length (h_scopes (demo_heap code)) = 1"
  "length (h_functions (demo_heap code)) = 1" "length (h_modules (demo_heap code)) = 1"
  by (simp_all add: demo_heap_def)

lemma demo_fits: "length values \<le> STACK_SIZE \<Longrightarrow> stack_fits (demo_vm code values)"
  by (simp add: stack_fits_def)

lemma demo_stack: "length values \<le> STACK_SIZE \<Longrightarrow> stack_list (demo_vm code values) = map Some values"
  by (simp add: stack_list_def rev_map)

lemma demo_wf:
  assumes "list_all wf_inst code" "length values \<le> STACK_SIZE"
    and "list_all (valid_value (demo_vm code values)) values"
  shows "wf_vm (demo_vm code values)"
proof -
  have d: "good_dict s (dict_create_dict OBJECT_BUCKET_SIZE)" "good_dict s (dict_create_dict SCOPE_BUCKET_SIZE)"
    for s :: VM
    by (simp_all add: good_dict_def wf_dict_create dict_map_create dict_symbols_create
        OBJECT_BUCKET_SIZE_def SCOPE_BUCKET_SIZE_def)
  have m: "runnable (demo_vm code values) 0"
    using assms(1) by (simp add: runnable_def good_module_def) (simp add: demo_heap_def zero_module_def)
  have "wf_blocks (demo_vm code values)"
    using d m by (simp add: wf_blocks_def good_global_def)
      (simp add: demo_heap_def good_object_def good_scope_def good_function_def demo_vm_def heap.defs)
  moreover have "good_stack (demo_vm code values)"
    using assms(2,3) by (auto simp: good_stack_def wf_stack_def nth_append list_all_iff rev_nth)
  moreover have "wf_modules (demo_vm code values)" by (simp add: wf_modules_def)
  ultimately show ?thesis using m by (simp add: wf_vm_def)
qed

text \<open>A bundle of empty modules with the given hashes.\<close>

definition demo_bundle :: "u64 list \<Rightarrow> heap" where
  "demo_bundle hashes =
     empty_heap
       \<lparr>h_modules := map (\<lambda>h. zero_module\<lparr>hash := h\<rparr>) hashes,
        h_bundles := [zero_bundle\<lparr>moduleCount := word_of_nat (length hashes), bundle_modules := [0 ..< length hashes]\<rparr>]\<rparr>"

text \<open>A machine whose module list also holds a native module, under the hash 20.\<close>

definition demo_import :: VM where
  "demo_import = (demo_vm [] [])
     \<lparr>h_modules := h_modules (demo_heap []) @ [zero_module\<lparr>hash := 20, initialized := True, exports := Some 0\<rparr>],
      native_modules := [1]\<rparr>"

lemma demo_import_wf: "wf_vm demo_import"
proof -
  have d: "good_dict s (dict_create_dict OBJECT_BUCKET_SIZE)" "good_dict s (dict_create_dict SCOPE_BUCKET_SIZE)"
    for s :: VM
    by (simp_all add: good_dict_def wf_dict_create dict_map_create dict_symbols_create
        OBJECT_BUCKET_SIZE_def SCOPE_BUCKET_SIZE_def)
  have m: "runnable demo_import 0" "known demo_import 1"
    by (simp_all add: runnable_def known_def good_module_def demo_import_def)
      (simp_all add: demo_heap_def zero_module_def)
  have "wf_blocks demo_import"
    using d m(1) by (simp add: wf_blocks_def good_global_def demo_import_def)
      (simp add: demo_heap_def good_object_def good_scope_def good_function_def)
  moreover have "good_stack demo_import"
    by (simp add: good_stack_def wf_stack_def demo_import_def)
  moreover have "wf_modules demo_import" using m(2) by (simp add: wf_modules_def demo_import_def)
  ultimately show ?thesis using m(1) by (simp add: wf_vm_def) (simp add: demo_import_def)
qed

end
