(* ===== verification/Atomix_Arith_Laws.thy ===== *)
theory Atomix_Arith_Laws
  imports Atomix_Stack_Laws
begin

text \<open>
  What the operators of \<open>Atomix_Arith\<close> compute: integer arithmetic and bit operations at 32
  bits with their fault ranges, the order and equality of integers and doubles, and the
  instructions that use them as operations on the abstract stack.
\<close>

section \<open>Integers\<close>

lemma add_ints: "add_values (JS_INTEGER a) (JS_INTEGER b) =
    both (andThen (i32_result (sint a + sint b)) (\<lambda>i. Inr (JS_INTEGER i)))"
  by (simp add: add_values_def)

lemma minus_ints: "minus_values (JS_INTEGER a) (JS_INTEGER b) =
    both (andThen (i32_result (sint a - sint b)) (\<lambda>i. Inr (JS_INTEGER i)))"
  by (simp add: minus_values_def)

lemma mul_ints: "mul_values (JS_INTEGER a) (JS_INTEGER b) =
    both (andThen (i32_result (sint a * sint b)) (\<lambda>i. Inr (JS_INTEGER i)))"
  by (simp add: mul_values_def)

lemma both_simps [simp]: "both (Inr v) = Inr (Replace_Both v)" "both (Inl e) = Inl e"
  by (simp_all add: both_def)

text \<open>The result of an integer operation, or signed overflow.\<close>

definition int_result :: "int \<Rightarrow> binary_result res" where
  "int_result x =
     (if in_int32 x then Inr (Replace_Both (JS_INTEGER (word_of_int x))) else Inl (Fault Signed_Overflow))"

lemma both_i32: "both (andThen (i32_result x) (\<lambda>i. Inr (JS_INTEGER i))) = int_result x"
  by (simp add: i32_result_def int_result_def)

lemma mod_ints:
  assumes "b \<noteq> 0" "\<not> (sint a = int_min \<and> sint b = - 1)"
  shows "mod_values (JS_INTEGER a) (JS_INTEGER b) = Inr (Replace_Both (JS_INTEGER (word_of_int (c_rem (sint a) (sint b)))))"
  using assms by (simp add: mod_values_def i32_rem_def)

section \<open>Shifts\<close>

lemma c_shl_value:
  assumes "c_shl l r = Inr w"
  shows "sint w = sint l * 2 ^ nat (sint r)"
proof -
  have r: "0 \<le> sint l" "in_int32 (sint l * 2 ^ nat (sint r))" "w = push_bit (nat (sint r)) l"
    using assms by (auto simp: c_shl_def split: if_splits)
  have "push_bit (nat (sint r)) l = word_of_int (sint l * 2 ^ nat (sint r))"
    by (simp add: push_bit_eq_mult)
  then show ?thesis unfolding r(3) by (simp only: sint_word_of_int32 [OF r(2)])
qed

lemma c_shr_value: "c_shr l r = Inr w \<Longrightarrow> sint w = sint l div 2 ^ nat (sint r)"
  by (auto simp: c_shr_def sint_signed_drop_bit_eq drop_bit_eq_div split: if_splits)

lemma c_ushr_value:
  assumes "c_ushr l r = Inr w"
  shows "unat w = unat l div 2 ^ unat r"
proof -
  have w: "w = drop_bit (unat r) l"
    using assms unfolding c_ushr_def by (metis Inl_Inr_False Inr_inject)
  show ?thesis unfolding w unat_drop_bit_eq by (rule drop_bit_eq_div)
qed

section \<open>Comparison\<close>

definition is_nan_value :: "JSValue \<Rightarrow> bool" where
  "is_nan_value v = (case v of JS_DOUBLE d \<Rightarrow> f64_decode d = FNaN | _ \<Rightarrow> False)"

text \<open>The double an integer or double operand stands for in a mixed comparison.\<close>

definition as_double_of :: "JSValue \<Rightarrow> f64" where
  "as_double_of v = (case v of JS_INTEGER i \<Rightarrow> f64_of_i32 i | JS_DOUBLE d \<Rightarrow> d | _ \<Rightarrow> 0)"

lemma decode_of_i32: "f64_decode (f64_of_i32 i) \<noteq> FNaN"
  using decode_of_int [OF i32_small [of i]] by (metis f64_of_i32_def fp.distinct(3))

lemma leq_of_i32: "f64_leq (f64_of_i32 v) (f64_of_i32 w) \<longleftrightarrow> sint v \<le> sint w"
  by (auto simp: f64_leq_def less_of_i32 eq_of_i32)

text \<open>A relation whose two C operators agree on integers is the one on doubles.\<close>

lemma relation_numeric:
  assumes "\<And>i j :: i32. ri (sint i) (sint j) \<longleftrightarrow> rd (f64_of_i32 i) (f64_of_i32 j)"
    and "is_numeric l" "is_numeric r"
  shows "relation_values ri rd l r = Inr (rd (as_double_of l) (as_double_of r))"
  using assms(2,3) by (cases l; cases r) (simp_all add: relation_values_def as_double_of_def is_numeric_def assms(1))

lemma equal_numeric:
  assumes "is_numeric l" "is_numeric r"
  shows "equal_values l r = Inr (f64_eq (as_double_of l) (as_double_of r))"
  using assms by (cases l; cases r)
    (auto simp: equal_values_def as_double_of_def is_numeric_def mixed_numbers_def eq_of_i32 intro: signed_word_eqI)

lemma lt_numeric: "is_numeric l \<Longrightarrow> is_numeric r \<Longrightarrow>
    relation_values (\<lambda>x y. x < y) f64_less l r = Inr (f64_less (as_double_of l) (as_double_of r))"
  by (rule relation_numeric) (simp_all add: less_of_i32)

lemma leq_numeric: "is_numeric l \<Longrightarrow> is_numeric r \<Longrightarrow>
    relation_values (\<lambda>x y. x \<le> y) f64_leq l r = Inr (f64_leq (as_double_of l) (as_double_of r))"
  by (rule relation_numeric) (simp_all add: leq_of_i32)

lemma gt_numeric: "is_numeric l \<Longrightarrow> is_numeric r \<Longrightarrow>
    relation_values (\<lambda>x y. y < x) (\<lambda>x y. f64_less y x) l r = Inr (f64_less (as_double_of r) (as_double_of l))"
  by (rule relation_numeric) (simp_all add: less_of_i32)

lemma geq_numeric: "is_numeric l \<Longrightarrow> is_numeric r \<Longrightarrow>
    relation_values (\<lambda>x y. y \<le> x) (\<lambda>x y. f64_leq y x) l r = Inr (f64_leq (as_double_of r) (as_double_of l))"
  by (rule relation_numeric) (simp_all add: leq_of_i32)

lemma as_double_nan: "is_numeric v \<Longrightarrow> f64_decode (as_double_of v) = FNaN \<longleftrightarrow> is_nan_value v"
  by (cases v) (simp_all add: as_double_of_def is_nan_value_def is_numeric_def decode_of_i32)

lemma eq_sym_f64: "f64_eq x y \<longleftrightarrow> f64_eq y x"
  by (auto simp: f64_eq_def cmp_antisym [of x y])

lemma trichotomy_f64:
  assumes "f64_decode x \<noteq> FNaN" "f64_decode y \<noteq> FNaN"
  shows "(f64_less x y \<and> \<not> f64_eq x y \<and> \<not> f64_less y x) \<or> (\<not> f64_less x y \<and> f64_eq x y \<and> \<not> f64_less y x) \<or>
    (\<not> f64_less x y \<and> \<not> f64_eq x y \<and> f64_less y x)"
proof -
  have "f64_less x y \<or> f64_eq x y \<longleftrightarrow> \<not> f64_less y x"
    using less_not_leq [OF assms] by (simp add: f64_leq_def)
  moreover have "\<not> (f64_less x y \<and> f64_eq x y)" by (simp add: f64_less_def f64_eq_def)
  moreover have "\<not> (f64_less x y \<and> f64_less y x)" by (simp add: f64_less_def cmp_antisym [of x y])
  moreover have "\<not> (f64_less y x \<and> f64_eq x y)" by (simp add: f64_less_def f64_eq_def cmp_antisym [of x y])
  ultimately show ?thesis by blast
qed

lemma equal_values_sym: "equal_values l r = equal_values r l"
proof (cases "is_numeric l \<or> is_numeric r")
  case True
  then show ?thesis
  proof (cases "is_numeric l \<and> is_numeric r")
    case True
    then show ?thesis by (simp add: equal_numeric eq_sym_f64)
  next
    case False
    with True show ?thesis
      by (cases l; cases r) (simp_all add: is_numeric_def equal_values_def mixed_numbers_def)
  qed
next
  case False
  then show ?thesis
    by (cases l; cases r) (auto simp: is_numeric_def equal_values_def mixed_numbers_def)
qed

section \<open>Properties of the operators\<close>

text \<open>A value that stands for an integer, in one of its two forms.\<close>

definition represents :: "JSValue \<Rightarrow> i32 \<Rightarrow> bool" where
  "represents v i \<longleftrightarrow> v = JS_INTEGER i \<or> v = JS_DOUBLE (f64_of_i32 i)"

lemma represents_numeric: "represents v i \<Longrightarrow> is_numeric v \<and> as_double_of v = f64_of_i32 i"
  by (auto simp: represents_def is_numeric_def as_double_of_def)

text \<open>The integer and the double form of the same number are interchangeable in every
  comparison: the four relations and strict equality decide as the integers do.\<close>

theorem comparisons_agree_with_integers:
  assumes "represents l i" "represents r j"
  shows "relation_values (\<lambda>x y. x < y) f64_less l r = Inr (sint i < sint j) \<and>
    relation_values (\<lambda>x y. x \<le> y) f64_leq l r = Inr (sint i \<le> sint j) \<and>
    relation_values (\<lambda>x y. y < x) (\<lambda>x y. f64_less y x) l r = Inr (sint j < sint i) \<and>
    relation_values (\<lambda>x y. y \<le> x) (\<lambda>x y. f64_leq y x) l r = Inr (sint j \<le> sint i) \<and>
    equal_values l r = Inr (i = j)"
  using represents_numeric [OF assms(1)] represents_numeric [OF assms(2)]
  by (auto simp: lt_numeric leq_numeric gt_numeric geq_numeric equal_numeric less_of_i32 leq_of_i32 eq_of_i32
      intro: signed_word_eqI)

lemma comparisons_agree_with_integers_witness:
  "relation_values (\<lambda>x y. x < y) f64_less (JS_INTEGER 3) (JS_DOUBLE (f64_of_i32 5)) = Inr True"
  using comparisons_agree_with_integers [of "JS_INTEGER 3" 3 "JS_DOUBLE (f64_of_i32 5)" 5]
  by (simp add: represents_def)

text \<open>On two numbers the relations are a total order unless one of them is a NaN: exactly one
  of less, strictly equal and greater holds, \<open>LEQ\<close> is less or equal, \<open>GEQ\<close> is greater or
  equal; with a NaN all five are false.\<close>

theorem number_comparisons:
  assumes "is_numeric l" "is_numeric r"
  shows "\<exists>lt eq gt. relation_values (\<lambda>x y. x < y) f64_less l r = Inr lt \<and>
    equal_values l r = Inr eq \<and> relation_values (\<lambda>x y. y < x) (\<lambda>x y. f64_less y x) l r = Inr gt \<and>
    relation_values (\<lambda>x y. x \<le> y) f64_leq l r = Inr (lt \<or> eq) \<and>
    relation_values (\<lambda>x y. y \<le> x) (\<lambda>x y. f64_leq y x) l r = Inr (gt \<or> eq) \<and>
    (lt, eq, gt) \<in> (if is_nan_value l \<or> is_nan_value r then {(False, False, False)}
      else {(True, False, False), (False, True, False), (False, False, True)})"
proof -
  let ?x = "as_double_of l" and ?y = "as_double_of r"
  have leq: "f64_leq ?x ?y \<longleftrightarrow> f64_less ?x ?y \<or> f64_eq ?x ?y" "f64_leq ?y ?x \<longleftrightarrow> f64_less ?y ?x \<or> f64_eq ?x ?y"
    by (auto simp: f64_leq_def eq_sym_f64 [of ?y ?x])
  have three: "(f64_less ?x ?y, f64_eq ?x ?y, f64_less ?y ?x) \<in>
      (if is_nan_value l \<or> is_nan_value r then {(False, False, False)}
       else {(True, False, False), (False, True, False), (False, False, True)})"
    using trichotomy_f64 [of ?x ?y] nan_unordered [of ?x ?y] nan_unordered [of ?y ?x]
    by (auto simp: as_double_nan [OF assms(1), symmetric] as_double_nan [OF assms(2), symmetric])
  show ?thesis
    by (intro exI [of _ "f64_less ?x ?y"] exI [of _ "f64_eq ?x ?y"] exI [of _ "f64_less ?y ?x"] conjI
        lt_numeric [OF assms] equal_numeric [OF assms] gt_numeric [OF assms] three)
      (simp_all only: leq_numeric [OF assms] geq_numeric [OF assms] leq)
qed

lemma number_comparisons_witness:
  "relation_values (\<lambda>x y. x < y) f64_less (JS_DOUBLE f64_nan) (JS_INTEGER 1) = Inr False"
  using number_comparisons [of "JS_DOUBLE f64_nan" "JS_INTEGER 1"]
  by (auto simp: is_numeric_def is_nan_value_def decode_nan)

text \<open>Strict equality is symmetric, in its panics as well.\<close>

theorem strict_equality_symmetric: "equal_values l r = equal_values r l"
  by (rule equal_values_sym)

text \<open>C9: Strict equality decides every pair of values except two booleans, two strings, two
  symbols or two accessor boxes: those stop the VM.\<close>

theorem strict_equality_panics:
  "equal_values l r = Inl (Panic ''Unknown comparison'') \<longleftrightarrow>
     js_type l = js_type r \<and> js_type l \<in> {js_type (JS_STRING []), js_type (JS_BOOLEAN 0),
       js_type (JS_SYMBOL 0), js_type (JS_GS_BOX 0)}"
  by (cases l; cases r) (simp_all add: equal_values_def mixed_numbers_def is_numeric_def)

text \<open>With \<open>undefined\<close> on the right the five arithmetic instructions overwrite the top of the
  stack with NaN and leave the left operand below it: they consume one operand, not two.\<close>

theorem undefined_operand_stays_on_stack:
  "binary_spec add_values (Some JS_UNDEFINED # Some l # rest) = Inr (Some (JS_DOUBLE JS_NaN) # Some l # rest) \<and>
   binary_spec minus_values (Some JS_UNDEFINED # Some l # rest) = Inr (Some (JS_DOUBLE JS_NaN) # Some l # rest) \<and>
   binary_spec mul_values (Some JS_UNDEFINED # Some l # rest) = Inr (Some (JS_DOUBLE JS_NaN) # Some l # rest) \<and>
   binary_spec div_values (Some JS_UNDEFINED # Some l # rest) = Inr (Some (JS_DOUBLE JS_NaN) # Some l # rest) \<and>
   binary_spec mod_values (Some JS_UNDEFINED # Some l # rest) = Inr (Some (JS_DOUBLE JS_NaN) # Some l # rest)"
  by (simp add: binary_spec_def add_values_def minus_values_def mul_values_def div_values_def mod_values_def)

text \<open>On two integers the shifts that C defines multiply or divide by the power of two
  (\<open>>>\<close> on the signed, \<open>>>>\<close> on the unsigned value, rounding down); every other shift is
  undefined: an amount outside 0..31, or a left shift of a negative or overflowing number.\<close>

theorem integer_shifts:
  "(case shift_values c_shl (JS_INTEGER l) (JS_INTEGER r) of
      Inr v \<Rightarrow> \<exists>w. v = JS_INTEGER w \<and> sint w = sint l * 2 ^ nat (sint r)
    | Inl e \<Rightarrow> e = Fault Bad_Shift \<and> \<not> (sint r \<in> {0..<32} \<and> 0 \<le> sint l \<and> in_int32 (sint l * 2 ^ nat (sint r)))) \<and>
   (case shift_values c_shr (JS_INTEGER l) (JS_INTEGER r) of
      Inr v \<Rightarrow> \<exists>w. v = JS_INTEGER w \<and> sint w = sint l div 2 ^ nat (sint r)
    | Inl e \<Rightarrow> e = Fault Bad_Shift \<and> sint r \<notin> {0..<32}) \<and>
   (case shift_values c_ushr (JS_INTEGER l) (JS_INTEGER r) of
      Inr v \<Rightarrow> \<exists>w. v = JS_INTEGER w \<and> unat w = unat l div 2 ^ unat r
    | Inl e \<Rightarrow> e = Fault Bad_Shift \<and> 32 \<le> unat r)"
proof -
  have shift: "shift_values f (JS_INTEGER l) (JS_INTEGER r) = andThen (f l r) (\<lambda>i. Inr (JS_INTEGER i))" for f
    by (simp add: shift_values_def is_numeric_def)
  have "e = Fault Bad_Shift \<and> \<not> (sint r \<in> {0..<32} \<and> 0 \<le> sint l \<and> in_int32 (sint l * 2 ^ nat (sint r)))"
    if "c_shl l r = Inl e" for e using that by (auto simp: c_shl_def split: if_splits)
  moreover have "e = Fault Bad_Shift \<and> sint r \<notin> {0..<32}" if "c_shr l r = Inl e" for e
    using that by (auto simp: c_shr_def split: if_splits)
  moreover have "e = Fault Bad_Shift \<and> 32 \<le> unat r" if "c_ushr l r = Inl e" for e
    using that by (simp add: c_ushr_def split: if_splits)
  ultimately show ?thesis
    unfolding shift
    by (cases "c_shl l r"; cases "c_shr l r"; cases "c_ushr l r")
      (simp_all add: c_shl_value c_shr_value c_ushr_value)
qed

end
