(* ===== verification/Atomix_Abstract.thy ===== *)
theory Atomix_Abstract
  imports Atomix_Demo Atomix_Engine Atomix_Arith_Laws
begin

text \<open>
  The abstract stack machine: what the instructions that touch only the operand stack do to a
  list of values, top first, and a proof that the interpreter implements it, one instruction
  at a time and for the body of a function. The registers, the bounds of the array and the
  slots above the counter are gone; overflow and underflow are the panics of the code.
\<close>

section \<open>The specification\<close>

definition push_op :: "JSValue \<Rightarrow> JSValue list \<Rightarrow> JSValue list res" where
  "push_op v xs = (if length xs < STACK_SIZE then Inr (v # xs) else Inl (Panic ''Stack overflow''))"

fun binary_op :: "(JSValue \<Rightarrow> JSValue \<Rightarrow> binary_result res) \<Rightarrow> JSValue list \<Rightarrow> JSValue list res" where
  "binary_op f (right # left # xs) =
     andThen (f left right) (\<lambda>r. case r of Replace_Both v \<Rightarrow> Inr (v # xs) | Replace_Top v \<Rightarrow> Inr (v # left # xs))"
| "binary_op f _ = Inl (Panic ''Stack underflow'')"

fun unary_op :: "(JSValue \<Rightarrow> JSValue res) \<Rightarrow> JSValue list \<Rightarrow> JSValue list res" where
  "unary_op f (right # xs) = andThen (f right) (\<lambda>v. Inr (v # xs))"
| "unary_op f _ = Inl (Panic ''Stack underflow'')"

definition compare_op :: "(JSValue \<Rightarrow> JSValue \<Rightarrow> bool res) \<Rightarrow> JSValue list \<Rightarrow> JSValue list res" where
  "compare_op f = binary_op (\<lambda>l r. both (andThen (f l r) (\<lambda>b. Inr (JS_VALUE_BOOL b))))"

text \<open>One instruction; \<open>None\<close> when it does more than work on the stack.\<close>

fun stack_op :: "inst_ptr \<Rightarrow> (JSValue list \<Rightarrow> JSValue list res) option" where
  "stack_op None = Some Inr"
| "stack_op (Some (InstInt32 oc n)) = (if oc = OP_LD_INT then Some (push_op (JS_INTEGER n)) else None)"
| "stack_op (Some (InstDouble oc d)) = (if oc = OP_LD_DOUBLE then Some (push_op (JS_DOUBLE d)) else None)"
| "stack_op (Some (Inst oc)) =
     (case oc of
        OP_NOP \<Rightarrow> Some Inr
      | OP_LD_UNDF \<Rightarrow> Some (push_op JS_UNDEFINED)
      | OP_LD_NULL \<Rightarrow> Some (push_op JS_NULL)
      | OP_LD_TRUE \<Rightarrow> Some (push_op (JS_BOOLEAN 1))
      | OP_LD_FALSE \<Rightarrow> Some (push_op (JS_BOOLEAN 0))
      | OP_ADD \<Rightarrow> Some (binary_op add_values)
      | OP_MINUS \<Rightarrow> Some (binary_op minus_values)
      | OP_MUL \<Rightarrow> Some (binary_op mul_values)
      | OP_DIV \<Rightarrow> Some (binary_op div_values)
      | OP_MOD \<Rightarrow> Some (binary_op mod_values)
      | OP_BINARY_AND \<Rightarrow> Some (binary_op (\<lambda>l r. both (and_values l r)))
      | OP_BINARY_OR \<Rightarrow> Some (binary_op (\<lambda>l r. both (or_values l r)))
      | OP_BINARY_XOR \<Rightarrow> Some (binary_op (\<lambda>l r. both (xor_values l r)))
      | OP_BINARY_LSHFT \<Rightarrow> Some (binary_op (\<lambda>l r. both (shift_values c_shl l r)))
      | OP_BINARY_RSHFT \<Rightarrow> Some (binary_op (\<lambda>l r. both (shift_values c_shr l r)))
      | OP_BINARY_ZRSHFT \<Rightarrow> Some (binary_op (\<lambda>l r. both (shift_values c_ushr l r)))
      | OP_BINARY_NOT \<Rightarrow> Some (unary_op not_value)
      | OP_NOT \<Rightarrow> Some (unary_op (\<lambda>v. andThen (value_is_falsy v) (\<lambda>b. Inr (JS_VALUE_BOOL b))))
      | OP_NEGATE \<Rightarrow> Some (unary_op negate_value)
      | OP_TYPEOF \<Rightarrow> Some (unary_op typeof_value)
      | OP_TEQ \<Rightarrow> Some (compare_op equal_values)
      | OP_NTEQ \<Rightarrow> Some (compare_op (\<lambda>l r. andThen (equal_values l r) (\<lambda>b. Inr (\<not> b))))
      | OP_GT \<Rightarrow> Some (compare_op (relation_values (\<lambda>x y. y < x) (\<lambda>x y. f64_less y x)))
      | OP_GEQ \<Rightarrow> Some (compare_op (relation_values (\<lambda>x y. y \<le> x) (\<lambda>x y. f64_leq y x)))
      | OP_LT \<Rightarrow> Some (compare_op (relation_values (\<lambda>x y. x < y) f64_less))
      | OP_LEQ \<Rightarrow> Some (compare_op (relation_values (\<lambda>x y. x \<le> y) f64_leq))
      | OP_POP \<Rightarrow> Some (\<lambda>xs. if xs = [] then Inl (Panic ''Stack underflow'') else Inr (tl xs))
      | OP_DUP \<Rightarrow> Some (\<lambda>xs. case xs of [] \<Rightarrow> Inl (Panic ''Stack underflow'') | x # _ \<Rightarrow> push_op x xs)
      | OP_SWAP \<Rightarrow> Some (\<lambda>xs. case xs of y # x # r \<Rightarrow> Inr (x # y # r) | _ \<Rightarrow> Inl (Panic ''Stack underflow''))
      | _ \<Rightarrow> None)"
| "stack_op _ = None"

text \<open>A sequence of instructions.\<close>

fun stack_run :: "inst_ptr list \<Rightarrow> JSValue list \<Rightarrow> JSValue list res" where
  "stack_run [] xs = Inr xs"
| "stack_run (p # ps) xs = (case stack_op p of None \<Rightarrow> Inl Diverge | Some f \<Rightarrow> andThen (f xs) (stack_run ps))"

section \<open>The simulation\<close>

definition holds :: "VM \<Rightarrow> JSValue list \<Rightarrow> bool" where
  "holds vm xs \<longleftrightarrow> length (stack (stats vm)) = STACK_SIZE \<and> stack_fits vm \<and> stack_list vm = map Some xs"

definition simulates :: "VM \<Rightarrow> JSValue list res \<Rightarrow> VM res \<Rightarrow> bool" where
  "simulates vm a c \<longleftrightarrow>
     (case a of
        Inl e \<Rightarrow> c = Inl e
      | Inr ys \<Rightarrow> \<exists>vm'. c = Inr vm' \<and> holds vm' ys \<and> same_but_stack vm vm')"

lemma holds_sp: "holds vm xs \<Longrightarrow> sp vm = length xs"
  using length_stack_list [of vm] by (simp add: holds_def)

lemma holds_same: "stack_fits vm' \<Longrightarrow> stack_list vm' = map Some ys \<Longrightarrow> same_but_stack vm vm' \<Longrightarrow> holds vm xs \<Longrightarrow> holds vm' ys"
  by (simp add: holds_def same_but_stack_def)

lemma sim_push:
  assumes "holds vm xs"
  shows "simulates vm (push_op v xs) (andThen (check_overflow vm) (\<lambda>_. push v vm))"
proof (cases "length xs < STACK_SIZE")
  case True
  then have "sp vm < length (stack (stats vm))" using assms holds_sp [OF assms] by (simp add: holds_def)
  then obtain vm' where push: "push v vm = Inr vm'" by (simp add: push_def stack_write_def)
  have "stack_fits vm" "stack_list vm = map Some xs" using assms by (simp_all add: holds_def)
  with push_spec [OF _ push] have "stack_list vm' = map Some (v # xs)" "stack_fits vm'" "same_but_stack vm vm'"
    by simp_all
  with True push holds_sp [OF assms] holds_same [OF _ _ _ assms] show ?thesis
    by (simp add: simulates_def push_op_def check_overflow_def)
next
  case False
  with holds_sp [OF assms] show ?thesis by (simp add: simulates_def push_op_def check_overflow_def)
qed

lemma binary_op_spec:
  "map_sum id (map Some) (binary_op f xs) = binary_spec f (map Some xs)"
proof (cases "(f, xs)" rule: binary_op.cases)
  case (1 g right left ys)
  then show ?thesis
    by (cases "f left right") (auto simp: binary_spec_def split: binary_result.split)
qed (auto simp: binary_spec_def)

lemma sim_binary:
  assumes "holds vm xs"
  shows "simulates vm (binary_op f xs) (binary_inst f vm p)"
proof -
  have fits: "stack_fits vm" "stack_list vm = map Some xs" using assms by (simp_all add: holds_def)
  have spec: "binary_spec f (stack_list vm) = map_sum id (map Some) (binary_op f xs)"
    unfolding fits(2) by (rule binary_op_spec [symmetric])
  from binary_inst_spec [OF fits(1), of f p] show ?thesis
    unfolding spec by (cases "binary_op f xs") (auto simp: simulates_def intro: holds_same [OF _ _ _ assms])
qed

lemma sim_unary:
  assumes "holds vm xs"
  shows "simulates vm (unary_op f xs) (unary_inst f vm p)"
proof (cases xs)
  case Nil
  then show ?thesis using holds_sp [OF assms] by (simp add: simulates_def unary_inst_def check_underflow_def)
next
  case (Cons x ys)
  have fits: "stack_fits vm" "stack_list vm = Some x # map Some ys" using assms Cons by (simp_all add: holds_def)
  have run: "unary_inst f vm p = andThen (f x) (\<lambda>v. poke 1 v vm)"
    using holds_sp [OF assms] Cons peek_top [OF fits] by (simp add: unary_inst_def check_underflow_def)
  show ?thesis
  proof (cases "f x")
    case (Inr v)
    from poke_top [OF fits, of v] obtain vm' where "poke 1 v vm = Inr vm'" "stack_list vm' = Some v # map Some ys"
      "stack_fits vm'" "same_but_stack vm vm'" by blast
    then show ?thesis using Inr Cons holds_same [OF _ _ _ assms, of vm' "v # ys"]
      by (simp add: simulates_def run)
  qed (simp add: simulates_def run Cons)
qed

lemma sim_pop:
  assumes "holds vm xs"
  shows "simulates vm (if xs = [] then Inl (Panic ''Stack underflow'') else Inr (tl xs)) (inst_pop vm p)"
proof (cases xs)
  case Nil
  then show ?thesis using holds_sp [OF assms] by (simp add: simulates_def inst_pop_def check_underflow_def)
next
  case (Cons x ys)
  have "stack_fits vm" "stack_list vm = Some x # map Some ys" using assms Cons by (simp_all add: holds_def)
  then have "holds (set_sp (sp vm - 1) vm) ys"
    using holds_sp [OF assms] Cons by (intro holds_same [OF _ _ same_set_sp assms])
      (simp_all add: stack_fits_set_sp stack_list_set_sp)
  then show ?thesis using Cons holds_sp [OF assms] by (simp add: simulates_def inst_pop_def check_underflow_def)
qed

lemma sim_dup:
  assumes "holds vm xs"
  shows "simulates vm (case xs of [] \<Rightarrow> Inl (Panic ''Stack underflow'') | x # _ \<Rightarrow> push_op x xs) (inst_dup vm p)"
proof (cases xs)
  case Nil
  then show ?thesis using holds_sp [OF assms] by (simp add: simulates_def inst_dup_def check_underflow_def)
next
  case (Cons x ys)
  have "stack_fits vm" "stack_list vm = Some x # map Some ys" using assms Cons by (simp_all add: holds_def)
  then have "inst_dup vm p = andThen (check_overflow vm) (\<lambda>_. push x vm)"
    using holds_sp [OF assms] Cons by (simp add: inst_dup_def check_underflow_def peek_top del: One_nat_def)
  with sim_push [OF assms, of x] Cons show ?thesis by simp
qed

lemma sim_swap:
  assumes "holds vm xs"
  shows "simulates vm (case xs of y # x # r \<Rightarrow> Inr (x # y # r) | _ \<Rightarrow> Inl (Panic ''Stack underflow'')) (inst_swap vm p)"
proof (cases "2 \<le> length xs")
  case False
  then have "simulates vm (Inl (Panic ''Stack underflow'')) (inst_swap vm p)"
    using holds_sp [OF assms] by (simp add: simulates_def inst_swap_def check_underflow_def)
  with False show ?thesis by (cases xs; cases "tl xs") auto
next
  case True
  then obtain y x r where xs: "xs = y # x # r" by (cases xs; cases "tl xs") auto
  have fits: "stack_fits vm" "stack_list vm = Some y # Some x # map Some r"
    using assms xs by (simp_all add: holds_def)
  have run: "inst_swap vm p = andThen (poke 2 y vm) (poke 1 x)"
    using holds_sp [OF assms] xs by (simp add: inst_swap_def check_underflow_def peek_top [OF fits] peek_second [OF fits] del: One_nat_def)
  have "sp vm = Suc (Suc (length r))" using holds_sp [OF assms] xs by simp
  then have "\<exists>vm1. poke 2 y vm = Inr vm1" using fits(1) by (simp add: poke_def stack_write_def stack_fits_def)
  then obtain vm1 where p1: "poke 2 y vm = Inr vm1" by blast
  from poke_spec [OF fits(1) _ p1] fits(2)
  have l1: "stack_list vm1 = Some y # Some y # map Some r" "stack_fits vm1" "same_but_stack vm vm1"
    by (simp_all add: numeral_2_eq_2)
  from poke_top [OF l1(2,1), of x] obtain vm2 where p2: "poke 1 x vm1 = Inr vm2"
    "stack_list vm2 = Some x # Some y # map Some r" "stack_fits vm2" "same_but_stack vm1 vm2" by blast
  have s: "same_but_stack vm vm2" using l1(3) p2(4) by (rule same_but_stack_trans)
  then have "holds vm2 (x # y # r)" using p2 by (intro holds_same [OF _ _ _ assms]) simp_all
  with s show ?thesis by (simp add: simulates_def run xs p1 p2(1) del: One_nat_def)
qed

lemma stack_op_refines:
  assumes "holds vm xs" "stack_op p = Some f"
  shows "simulates vm (f xs) (inst_set e (OPCODE_OF p) vm p)"
proof (cases p)
  case None
  then show ?thesis using assms by (simp add: OPCODE_OF_def inst_nop_def simulates_def)
next
  case (Some i)
  note sim = sim_push [OF assms(1)] sim_binary [OF assms(1)] sim_unary [OF assms(1)] sim_pop [OF assms(1)]
    sim_dup [OF assms(1)] sim_swap [OF assms(1)]
  show ?thesis
  proof (cases i)
    case (Inst oc)
    have nop: "simulates vm (Inr xs) (inst_nop vm q)" for q using assms(1) by (simp add: inst_nop_def simulates_def)
    have bool: "simulates vm (push_op (JS_BOOLEAN 1) xs) (inst_ld_boolean vm (Some (Inst OP_LD_TRUE)))"
      "simulates vm (push_op (JS_BOOLEAN 0) xs) (inst_ld_boolean vm (Some (Inst OP_LD_FALSE)))"
      using sim_push [OF assms(1), of "JS_BOOLEAN 1"] sim_push [OF assms(1), of "JS_BOOLEAN 0"]
      by (simp_all add: inst_ld_boolean_def OPCODE_OF_def JS_VALUE_BOOL_def)
    from assms(2) show ?thesis
      unfolding Some Inst stack_op.simps
      by (cases oc) (simp_all only: Opcode.case option.inject option.distinct OPCODE_OF_def option.case instr.sel
        inst_set.simps, auto simp: sim nop bool inst_ld_undf_def inst_ld_null_def inst_add_def
        inst_minus_def inst_mul_def inst_div_def inst_mod_def inst_binary_and_def inst_binary_or_def
        inst_binary_xor_def inst_binary_lshft_def inst_binary_rshft_def inst_binary_zrshft_def
        inst_binary_not_def inst_not_def inst_negate_def inst_typeof_def inst_teq_def inst_nteq_def
        inst_gt_def inst_geq_def inst_lt_def inst_leq_def relation_inst_def compare_op_def andThen_assoc)
  next
    case (InstInt32 oc n)
    then show ?thesis using assms(2) Some sim
      by (auto simp: inst_ld_int_def OPCODE_OF_def split: if_splits)
  next
    case (InstDouble oc d)
    then show ?thesis using assms(2) Some sim
      by (auto simp: inst_ld_double_def OPCODE_OF_def split: if_splits)
  qed (use assms(2) Some in auto)
qed

section \<open>The body of a function\<close>

lemma same_set_ic: "same_but_stack vm vm' \<Longrightarrow> same_but_stack (set_ic n vm) (set_ic n vm')"
  by (simp add: same_but_stack_def set_ic_def heap.defs)

lemma holds_set_ic [simp]: "holds (set_ic n vm) xs = holds vm xs"
  by (simp add: holds_def stack_fits_def stack_list_def set_ic_def)

lemma vm_exec_stack:
  assumes "holds vm xs" "current_module vm = Inr m" "instructions (data_section m) = code"
    and "ic vm < length code" "length code \<le> unat (ds_count (data_section m))"
    and "stack_op (code ! ic vm) = Some f"
  shows "simulates (set_ic (Suc (ic vm)) vm) (f xs) (vm_exec e vm)"
proof -
  let ?p = "code ! ic vm" and ?vm = "set_ic (Suc (ic vm)) vm"
  have nop: "inst_set e OP_NOP ?vm ?p = Inr ?vm" by (simp add: inst_nop_def)
  have "vm_exec e vm = (if ?p = None \<or> OPCODE_OF ?p = OP_NOP then Inr ?vm else inst_set e (OPCODE_OF ?p) ?vm ?p)"
    using assms(2-5) by (simp add: vm_exec_def array_at_def Let_def)
  also have "\<dots> = inst_set e (OPCODE_OF ?p) ?vm ?p"
    using nop by (auto simp: OPCODE_OF_def)
  finally show ?thesis using stack_op_refines [of ?vm xs ?p f e] assms(1,6) by simp
qed

text \<open>\<open>code\<close> holds the instructions \<open>ps\<close> from position \<open>i\<close> on.\<close>

definition segment :: "inst_ptr list \<Rightarrow> nat \<Rightarrow> inst_ptr list \<Rightarrow> bool" where
  "segment code i ps \<longleftrightarrow> take (length ps) (drop i code) = ps"

lemma segment_Cons:
  assumes "segment code i (p # ps)"
  shows "i < length code" "code ! i = p" "segment code (Suc i) ps"
proof -
  have "drop i code \<noteq> []" using assms by (auto simp: segment_def)
  then have i: "i < length code" by simp
  then have "drop i code = code ! i # drop (Suc i) code" by (simp add: Cons_nth_drop_Suc)
  with assms i show "i < length code" "code ! i = p" "segment code (Suc i) ps" by (simp_all add: segment_def)
qed

text \<open>The loop over stack instructions computes \<open>stack_run\<close> and uses one unit of fuel for each.\<close>

lemma function_loop_stack:
  assumes "holds vm xs" "current_module vm = Inr m" "length (instructions (data_section m)) \<le> unat (ds_count (data_section m))"
    and "segment (instructions (data_section m)) (ic vm) ps" "\<forall>p \<in> set ps. stack_op p \<noteq> None" "length ps \<le> k"
  shows "simulates (set_ic (ic vm + length ps) vm) (stack_run ps xs) (function_loop (machine k) (ic vm + length ps) vm)"
  using assms
proof (induction ps arbitrary: vm xs k)
  case Nil
  have "set_ic (ic vm) vm = vm" by (simp add: set_ic_def)
  with Nil show ?case by (simp add: simulates_def function_loop_def)
next
  case (Cons p ps)
  let ?code = "instructions (data_section m)" and ?fin = "ic vm + length (p # ps)"
  obtain k' where k: "k = Suc k'" "length ps \<le> k'" using Cons.prems(6) by (cases k) auto
  note seg = segment_Cons [OF Cons.prems(4)]
  obtain f where f: "stack_op p = Some f" using Cons.prems(5) by auto
  have step: "simulates (set_ic (Suc (ic vm)) vm) (f xs) (vm_exec (machine k) vm)"
    using vm_exec_stack [OF Cons.prems(1,2) refl seg(1) Cons.prems(3)] f seg(2) by simp
  have "OPCODE_OF p \<noteq> OP_RETURN" using f by (cases p rule: stack_op.cases) (auto simp: OPCODE_OF_def split: if_splits)
  then have loop: "function_loop (machine k) ?fin vm =
      andThen (vm_exec (machine k) vm) (function_loop (machine k') ?fin)"
    using Cons.prems(2) seg(1,2) by (simp add: function_loop_def array_at_def k next_engine_def)
  show ?case
  proof (cases "f xs")
    case (Inl e)
    with step f show ?thesis unfolding loop by (simp add: simulates_def)
  next
    case (Inr ys)
    with step obtain vm1 where vm1: "vm_exec (machine k) vm = Inr vm1" "holds vm1 ys"
      "same_but_stack (set_ic (Suc (ic vm)) vm) vm1" by (auto simp: simulates_def)
    have ic: "ic vm1 = Suc (ic vm)" using vm1(3) by (simp add: same_but_stack_def set_ic_def)
    have "h_modules vm1 = h_modules vm" "vm_module vm1 = vm_module vm"
      using vm1(3) by (simp_all add: same_but_stack_def set_ic_def heap.defs)
    then have "current_module vm1 = Inr m" using Cons.prems(2) by (simp add: current_module_def)
    from Cons.IH [OF vm1(2) this Cons.prems(3) _ _ k(2)] Cons.prems(5) seg(3) ic
    have sim: "simulates (set_ic ?fin vm1) (stack_run ps ys) (function_loop (machine k') ?fin vm1)" by simp
    have "same_but_stack (set_ic ?fin vm) (set_ic ?fin vm1)"
      using same_set_ic [OF vm1(3), of ?fin] by (simp add: set_ic_def)
    then have "simulates (set_ic ?fin vm) (stack_run ps ys) (function_loop (machine k') ?fin vm1)"
      using sim same_but_stack_trans by (auto simp: simulates_def split: sum.splits)
    then show ?thesis unfolding loop by (simp add: vm1(1) f Inr)
  qed
qed

lemma restore_same:
  assumes "heap.truncate vm1 = heap.truncate vm" "globalScope vm1 = globalScope vm"
  shows "restore_frame vm vm1 = vm"
  using assms by (cases vm; cases vm1) (simp add: restore_frame_def heap.defs)

text \<open>What a function body returns: the value it left on top, if it left more than it found.\<close>

definition body_value :: "JSValue list \<Rightarrow> JSValue list \<Rightarrow> JSValue" where
  "body_value xs ys = (if length xs < length ys then hd ys else JS_UNDEFINED)"

lemma function_body_run:
  assumes "holds vm xs" "f < length (h_functions vm)" "h_functions vm ! f = fn" "function_module fn = Some m"
    and "deref (h_modules vm) m = Inr md" "length (instructions (data_section md)) \<le> unat (ds_count (data_section md))"
    and "instruction_end fn = instruction_start fn + length ps" "segment (instructions (data_section md)) (instruction_start fn) ps"
    and "\<forall>p \<in> set ps. stack_op p \<noteq> None" "Suc (length ps) < n"
  shows "exec_function (machine n) f vm = andThen (stack_run ps xs) (\<lambda>ys. Inr (body_value xs ys, vm))"
proof -
  obtain k where n: "n = Suc (Suc k)" "length ps \<le> k"
    using assms(10) by (cases n; cases "n - 1") auto
  define vm0 where "vm0 = vm\<lparr>vm_module := m, vm_scope := function_scope fn,
      stats := (stats vm)\<lparr>instruction_counter := instruction_start fn, stack_start := stack_counter (stats vm)\<rparr>\<rparr>"
  have "holds vm0 xs" "current_module vm0 = Inr md" "ic vm0 = instruction_start fn"
    using assms(1,5) by (simp_all add: vm0_def holds_def stack_fits_def stack_list_def current_module_def)
  with function_loop_stack [of vm0 xs md ps k] assms n(2)
  have sim: "simulates (set_ic (instruction_end fn) vm0) (stack_run ps xs)
      (function_loop (machine k) (instruction_end fn) vm0)" by simp
  have run: "exec_function (machine n) f vm = andThen (function_loop (machine k) (instruction_end fn) vm0) (\<lambda>vm1.
      andThen (function_result vm1) (\<lambda>v. Inr (v, restore_frame vm vm1)))"
    using assms(2-4) by (simp add: n next_engine_def vm_exec_function_def vm0_def)
  show ?thesis
  proof (cases "stack_run ps xs")
    case (Inl e)
    with sim show ?thesis by (simp add: run simulates_def)
  next
    case (Inr ys)
    with sim obtain vm1 where vm1: "function_loop (machine k) (instruction_end fn) vm0 = Inr vm1" "holds vm1 ys"
      "same_but_stack (set_ic (instruction_end fn) vm0) vm1" by (auto simp: simulates_def)
    have sp: "sp vm1 = length ys" "stack_start (stats vm1) = length xs"
      using vm1(3) holds_sp [OF vm1(2)] holds_sp [OF assms(1)] by (simp_all add: same_but_stack_def set_ic_def vm0_def)
    have "peek 1 vm1 = Inr (hd ys)" if "ys \<noteq> []"
      using vm1(2) that peek_top [of vm1 "Some (hd ys)" "map Some (tl ys)"] by (cases ys) (simp_all add: holds_def)
    then have "function_result vm1 = Inr (body_value xs ys)"
      using sp by (cases "length xs < length ys"; cases ys) (simp_all add: function_result_def body_value_def)
    moreover have "restore_frame vm vm1 = vm"
      using vm1(3) by (intro restore_same) (simp_all add: same_but_stack_def set_ic_def vm0_def heap.defs)
    ultimately show ?thesis using Inr vm1(1) by (simp add: run)
  qed
qed

section \<open>Properties\<close>

text \<open>C4: Every instruction that works on the operand stack alone implements its abstract operation:
  the same panic or fault, or the abstract result on the stack and no change to anything else
  of the machine (heap, module, scope, instruction counter, frame start).\<close>

theorem stack_instruction_refinement:
  assumes "holds vm xs" "stack_op p = Some f"
  shows "case f xs of
      Inl err \<Rightarrow> inst_set e (OPCODE_OF p) vm p = Inl err
    | Inr ys \<Rightarrow> \<exists>vm'. inst_set e (OPCODE_OF p) vm p = Inr vm' \<and> holds vm' ys \<and> same_but_stack vm vm'"
  using stack_op_refines [OF assms] by (simp add: simulates_def)

lemma demo_holds: "length xs \<le> STACK_SIZE \<Longrightarrow> holds (demo_vm code xs) xs"
  by (simp add: holds_def demo_fits demo_stack)

lemma stack_instruction_refinement_witness:
  "\<exists>vm'. inst_set no_engine OP_SWAP (demo_vm [] [JS_NULL, JS_INTEGER 7]) (Some (Inst OP_SWAP)) = Inr vm' \<and>
     holds vm' [JS_INTEGER 7, JS_NULL]"
  using stack_instruction_refinement [OF demo_holds [of "[JS_NULL, JS_INTEGER 7]" "[]"], of "Some (Inst OP_SWAP)"
      "the (stack_op (Some (Inst OP_SWAP)))"]
  by (auto simp: STACK_SIZE_def OPCODE_OF_def)

text \<open>C5: A function whose body consists of stack instructions computes the abstract run of its body:
  with fuel above the length of the body plus one, the call returns the value the body left
  on top (\<open>undefined\<close> if it left nothing above what it found) in the unchanged machine, or
  ends with exactly the panic or fault of the abstract run.\<close>

theorem function_body_refinement:
  assumes "holds vm xs" "f < length (h_functions vm)" "h_functions vm ! f = fn" "function_module fn = Some m"
    and "deref (h_modules vm) m = Inr md" "length (instructions (data_section md)) \<le> unat (ds_count (data_section md))"
    and "instruction_end fn = instruction_start fn + length ps" "segment (instructions (data_section md)) (instruction_start fn) ps"
    and "\<forall>p \<in> set ps. stack_op p \<noteq> None" "Suc (length ps) < n"
  shows "exec_function (machine n) f vm = andThen (stack_run ps xs) (\<lambda>ys. Inr (body_value xs ys, vm))"
  using assms by (rule function_body_run)

lemma function_body_refinement_witness:
  "exec_function (machine 5) 0 (demo_vm [Some (InstInt32 OP_LD_INT 2), Some (InstInt32 OP_LD_INT 3), Some (Inst OP_ADD)] []) =
     Inr (JS_INTEGER 5, demo_vm [Some (InstInt32 OP_LD_INT 2), Some (InstInt32 OP_LD_INT 3), Some (Inst OP_ADD)] [])"
proof -
  let ?ps = "[Some (InstInt32 OP_LD_INT 2), Some (InstInt32 OP_LD_INT 3), Some (Inst OP_ADD)]"
  have "stack_run ?ps [] = Inr [JS_INTEGER 5]"
    by (simp add: push_op_def STACK_SIZE_def add_ints both_i32 int_result_def in_int32_def int_min_def int_max_def)
  with function_body_refinement [OF demo_holds, of "[]" 0 ?ps _ 0 _ ?ps 5] show ?thesis
    by (simp add: demo_heap_def segment_def body_value_def)
qed

end
