(* ===== verification/Atomix_Call_Laws.thy ===== *)
theory Atomix_Call_Laws
  imports Atomix_Safety Atomix_Abstract
begin

text \<open>
  The calling convention: what a call of a bytecode function does to the caller's stack and
  registers, from bytecode (\<open>CALL\<close>) and from C (\<open>api_call_function\<close>), how arguments are
  found, and what an import leaves behind.
\<close>

section \<open>Frames\<close>

text \<open>Whatever ran, both loops put back the registers they saved.\<close>

lemma exec_function_frame:
  assumes "vm_exec_function e f vm = Inr (v, vm')"
  shows "vm_module vm' = vm_module vm" "vm_scope vm' = vm_scope vm" "stats vm' = stats vm"
  using assms by (auto simp: vm_exec_function_def restore_frame_def res_simps)

lemma exec_module_frame:
  assumes "vm_exec_module e m vm = Inr vm'"
  shows "vm_module vm' = vm_module vm" "vm_scope vm' = vm_scope vm" "stats vm' = stats vm"
  using assms by (auto simp: vm_exec_module_def restore_frame_def res_simps)

lemma machine_exec_function_frame:
  assumes "exec_function (machine n) f vm = Inr (v, vm')"
  shows "vm_module vm' = vm_module vm" "vm_scope vm' = vm_scope vm" "stats vm' = stats vm"
proof -
  obtain k where "n = Suc k" using assms by (cases n) (simp_all add: no_engine_def)
  with assms have "vm_exec_function (machine k) f vm = Inr (v, vm')" by (simp add: next_engine_def)
  from exec_function_frame [OF this]
  show "vm_module vm' = vm_module vm" "vm_scope vm' = vm_scope vm" "stats vm' = stats vm" .
qed

lemma machine_exec_module_frame:
  assumes "exec_module (machine n) m vm = Inr vm'"
  shows "vm_module vm' = vm_module vm" "vm_scope vm' = vm_scope vm" "stats vm' = stats vm"
proof -
  obtain k where "n = Suc k" using assms by (cases n) (simp_all add: no_engine_def)
  with assms have "vm_exec_module (machine k) m vm = Inr vm'" by (simp add: next_engine_def)
  from exec_module_frame [OF this]
  show "vm_module vm' = vm_module vm" "vm_scope vm' = vm_scope vm" "stats vm' = stats vm" .
qed

text \<open>Declaring a binding changes no register.\<close>

lemma scope_declare_registers:
  assumes "scope_declare a k v (vm :: VM) = Inr vm'"
  shows "vm_module vm' = vm_module vm" "vm_scope vm' = vm_scope vm" "stats vm' = stats vm"
    "h_functions vm' = h_functions vm"
  using assms by (auto simp: scope_declare_eq scope_assign_def scope_write_def res_simps)

lemma stack_list_cong: "stats vm' = stats vm \<Longrightarrow> stack_list vm' = stack_list vm"
  by (simp add: stack_list_def)

lemma stack_fits_cong: "stats vm' = stats vm \<Longrightarrow> stack_fits vm' = stack_fits vm"
  by (simp add: stack_fits_def)

lemma same_registers:
  assumes "same_but_stack vm vm'"
  shows "vm_module vm' = vm_module vm" "vm_scope vm' = vm_scope vm" "ic vm' = ic vm"
  using assms by (simp_all add: same_but_stack_def)

lemma drop_stack_spec:
  assumes "drop_stack k vm = Inr vm'" "stack_fits vm"
  shows "stack_list vm' = drop k (stack_list vm)" "stack_fits vm'" "same_but_stack vm vm'" "k \<le> sp vm"
proof -
  have k: "k \<le> sp vm" "vm' = set_sp (sp vm - k) vm" using assms(1) by (auto simp: drop_stack_def split: if_splits)
  then have "sp vm - (sp vm - k) = k" by simp
  then show "stack_list vm' = drop k (stack_list vm)" "stack_fits vm'" "same_but_stack vm vm'" "k \<le> sp vm"
    using k assms(2) by (simp_all add: stack_list_set_sp stack_fits_set_sp)
qed

section \<open>CALL\<close>

lemma andThen_InrE:
  assumes "andThen m f = Inr y"
  obtains x where "m = Inr x" "f x = Inr y"
  using assms by (cases m) auto

text \<open>The steps of a call that returned.\<close>

lemma call_chain:
  assumes "andThen (andThen A (\<lambda>x. andThen B (\<lambda>y. andThen (C x y) D))) (\<lambda>(r, s). andThen (E s) (F r)) = Inr z"
  obtains x y s0 r s1 s2 where "C x y = Inr s0" "D s0 = Inr (r, s1)" "E s1 = Inr s2" "F r s2 = Inr z"
  using assms by (auto simp: andThen_eq_Inr)

lemma inst_call_bytecode:
  assumes "stack_fits vm" "inst_call (machine n) vm p = Inr vm'" "as_InstUInt16 p = Inr k"
    and "stack_list vm = Some (JS_FUNC f) # rest" "\<not> is_native (h_functions vm ! f)"
  shows "\<exists>r. stack_list vm' = Some r # drop (Suc k) rest \<and> stack_fits vm' \<and>
    vm_module vm' = vm_module vm \<and> vm_scope vm' = vm_scope vm \<and> ic vm' = ic vm"
proof -
  obtain v vm1 where pop: "pop vm = Inr (v, vm1)"
    using assms(2) by (auto simp: inst_call_def res_simps)
  note ps = pop_spec [OF assms(1) pop]
  have v: "v = JS_FUNC f" and rest: "rest = stack_list vm1" using ps(1) assms(4) by auto
  have fns: "h_functions vm1 = h_functions vm"
    using ps(3) by (auto simp: same_but_stack_def heap.defs)
  have f: "deref (h_functions vm1) f = Inr fn \<Longrightarrow> fn = h_functions vm ! f" for fn
    by (auto simp: deref_eq_Inr fns)
  have call: "inst_call (machine n) vm p =
      andThen (deref (h_functions vm1) f) (\<lambda>fn.
        andThen (if is_native fn then call_native_function (machine n) (native_function fn) k vm1
          else andThen (peek 1 vm1) (\<lambda>this. andThen (ptr (function_scope fn)) (\<lambda>sc.
            andThen (scope_declare sc ''this'' this vm1) (\<lambda>vm2. exec_function (machine n) f vm2))))
        (\<lambda>(r, vm3). andThen (drop_stack (k + 1) vm3) (\<lambda>vm4. push r vm4)))"
    using ps(4) by (simp add: inst_call_def check_underflow_def pop v assms(3))
  obtain fn where fn: "deref (h_functions vm1) f = Inr fn" and body:
      "andThen (if is_native fn then call_native_function (machine n) (native_function fn) k vm1
          else andThen (peek 1 vm1) (\<lambda>this. andThen (ptr (function_scope fn)) (\<lambda>sc.
            andThen (scope_declare sc ''this'' this vm1) (\<lambda>vm2. exec_function (machine n) f vm2))))
        (\<lambda>(r, vm3). andThen (drop_stack (k + 1) vm3) (\<lambda>vm4. push r vm4)) = Inr vm'"
    using assms(2) unfolding call by (rule andThen_InrE)
  have "\<not> is_native fn" using f [OF fn] assms(5) by simp
  then have "andThen (andThen (peek 1 vm1) (\<lambda>this. andThen (ptr (function_scope fn)) (\<lambda>sc.
          andThen (scope_declare sc ''this'' this vm1) (\<lambda>vm2. exec_function (machine n) f vm2))))
        (\<lambda>(r, vm3). andThen (drop_stack (k + 1) vm3) (\<lambda>vm4. push r vm4)) = Inr vm'"
    using body by (simp only: if_False)
  then obtain this_val sc vm2 r vm3 vm4 where run: "scope_declare sc ''this'' this_val vm1 = Inr vm2"
    "exec_function (machine n) f vm2 = Inr (r, vm3)" "drop_stack (k + 1) vm3 = Inr vm4" "push r vm4 = Inr vm'"
    by (rule call_chain)
  note d = scope_declare_registers [OF run(1)] and x = machine_exec_function_frame [OF run(2)]
  have st: "stats vm3 = stats vm1" using d(3) x(3) by (rule trans [rotated])
  then have fits: "stack_fits vm3" "stack_list vm3 = rest"
    using ps(2) rest by (simp_all add: stack_fits_cong [OF st] stack_list_cong [OF st])
  note dr = drop_stack_spec [OF run(3) fits(1)]
  note pu = push_spec [OF dr(2) run(4)]
  have "stack_list vm' = Some r # drop (Suc k) rest" using pu(1) dr(1) fits(2) by simp
  moreover have "vm_module vm' = vm_module vm" "vm_scope vm' = vm_scope vm" "ic vm' = ic vm"
    using same_registers [OF pu(3)] same_registers [OF dr(3)] same_registers [OF ps(3)] d(1,2) x(1,2) st
    by (simp_all only:)
  ultimately show ?thesis using pu(2) by blast
qed

section \<open>Calls from C\<close>

lemma push_all_spec:
  "stack_fits vm \<Longrightarrow> push_all vs vm = Inr vm' \<Longrightarrow>
     stack_list vm' = map Some (rev vs) @ stack_list vm \<and> stack_fits vm' \<and> same_but_stack vm vm'"
proof (induction vs arbitrary: vm)
  case (Cons v vs)
  obtain vm1 where 1: "push v vm = Inr vm1" "push_all vs vm1 = Inr vm'"
    using Cons.prems(2) by (auto simp: res_simps)
  note p = push_spec [OF Cons.prems(1) 1(1)]
  from Cons.IH [OF p(2) 1(2)] p same_but_stack_trans [of vm vm1 vm'] show ?case by simp
qed simp

lemma api_call_bytecode:
  assumes "stack_fits vm" "api_call_function (machine n) f this args vm = Inr (r, vm')"
    and "\<not> is_native (h_functions vm ! f)"
  shows "stack_list vm' = Some (last (this # args)) # stack_list vm"
proof -
  obtain vm1 vm2 sc vm3 vm4 where run: "push_all (rev args) vm = Inr vm1" "push this vm1 = Inr vm2"
    "scope_declare sc ''this'' this vm2 = Inr vm3" "exec_function (machine n) f vm3 = Inr (r, vm4)"
    "drop_stack (length args) vm4 = Inr vm'"
    using assms(2,3) by (auto simp: api_call_function_def res_simps)
  note pa = push_all_spec [OF assms(1) run(1)]
  note pu = push_spec [OF conjunct1 [OF conjunct2 [OF pa]] run(2)]
  have st: "stats vm4 = stats vm2"
    using scope_declare_registers [OF run(3)] machine_exec_function_frame [OF run(4)] by simp
  then have fits: "stack_fits vm4" and list: "stack_list vm4 = map Some (this # args) @ stack_list vm"
    using pu pa by (simp_all add: stack_fits_cong [OF st] stack_list_cong [OF st])
  have "map Some (this # args) = map Some (butlast (this # args)) @ [Some (last (this # args))]"
    by (metis append_butlast_last_id list.distinct(1) list.simps(8) list.simps(9) map_append)
  then have "stack_list vm4 = map Some (butlast (this # args)) @ Some (last (this # args)) # stack_list vm"
    using list by simp
  moreover have "length (map Some (butlast (this # args))) = length args" by simp
  ultimately have "drop (length args) (stack_list vm4) = Some (last (this # args)) # stack_list vm"
    by (metis append_eq_conv_conj)
  then show ?thesis using drop_stack_spec(1) [OF run(5) fits] by simp
qed

section \<open>Properties of calls\<close>

text \<open>C6: The calling convention of \<open>CALL k\<close> on a bytecode function: a call that returns has consumed
  the function, \<open>this\<close> and \<open>k\<close> arguments, whatever the body did to the stack, has pushed one
  result, and module, scope and instruction counter of the caller are back.\<close>

theorem call_convention:
  assumes "stack_fits vm" "stack_list vm = Some (JS_FUNC f) # rest" "\<not> is_native (h_functions vm ! f)"
    and "as_InstUInt16 p = Inr k" "inst_call (machine n) vm p = Inr vm'"
  shows "\<exists>r. stack_list vm' = Some r # drop (Suc k) rest \<and> stack_fits vm' \<and>
    vm_module vm' = vm_module vm \<and> vm_scope vm' = vm_scope vm \<and> ic vm' = ic vm"
  using assms(1,5,4,2,3) by (rule inst_call_bytecode)

lemma demo_call:
  "\<exists>vm'. inst_call (machine 3) (demo_vm [] [JS_FUNC 0, JS_NULL, JS_INTEGER 5, JS_INTEGER 9]) (Some (InstUInt16 OP_CALL 1)) = Inr vm'"
  by (simp add: inst_call_def check_underflow_def pop_def peek_def stack_read_def array_at_def STACK_SIZE_def
      set_sp_def demo_heap_def scope_declare_eq scope_assign_def scope_write_def numeral_3_eq_3 next_engine_def
      vm_exec_function_def function_loop_def function_result_def restore_frame_def drop_stack_def push_def stack_write_def)

lemma call_convention_witness:
  "\<exists>vm' r. inst_call (machine 3) (demo_vm [] [JS_FUNC 0, JS_NULL, JS_INTEGER 5, JS_INTEGER 9])
     (Some (InstUInt16 OP_CALL 1)) = Inr vm' \<and> stack_list vm' = [Some r, Some (JS_INTEGER 9)]"
proof -
  obtain vm' where run: "inst_call (machine 3) (demo_vm [] [JS_FUNC 0, JS_NULL, JS_INTEGER 5, JS_INTEGER 9])
     (Some (InstUInt16 OP_CALL 1)) = Inr vm'" using demo_call by blast
  have "stack_list (demo_vm [] [JS_FUNC 0, JS_NULL, JS_INTEGER 5, JS_INTEGER 9]) =
      Some (JS_FUNC 0) # [Some JS_NULL, Some (JS_INTEGER 5), Some (JS_INTEGER 9)]"
    by (simp add: demo_stack STACK_SIZE_def)
  from call_convention [OF demo_fits this _ _ run, of 1] run show ?thesis
    by (auto simp: STACK_SIZE_def demo_heap_def)
qed

text \<open>A call of a bytecode function from C leaves the stack unbalanced: it pushes the arguments
  and \<open>this\<close> but takes only the arguments away, so every call that returns leaves one value on
  the caller's stack, the last argument (or \<open>this\<close> when there is none).\<close>

theorem api_call_leaves_value:
  assumes "stack_fits vm" "\<not> is_native (h_functions vm ! f)"
    and "api_call_function (machine n) f this args vm = Inr (r, vm')"
  shows "stack_list vm' = Some (last (this # args)) # stack_list vm"
  using assms(1,3,2) by (rule api_call_bytecode)

lemma demo_api_call:
  "\<exists>r vm'. api_call_function (machine 3) 0 JS_NULL [JS_INTEGER 5] (demo_vm [] []) = Inr (r, vm')"
  by (simp add: api_call_function_def peek_def stack_read_def array_at_def STACK_SIZE_def
      set_sp_def demo_heap_def scope_declare_eq scope_assign_def scope_write_def numeral_3_eq_3 next_engine_def
      vm_exec_function_def function_loop_def function_result_def restore_frame_def drop_stack_def push_def stack_write_def)

lemma api_call_leaves_value_witness:
  "\<exists>r vm'. api_call_function (machine 3) 0 JS_NULL [JS_INTEGER 5] (demo_vm [] []) = Inr (r, vm') \<and>
     stack_list vm' = [Some (JS_INTEGER 5)]"
proof -
  obtain r vm' where run: "api_call_function (machine 3) 0 JS_NULL [JS_INTEGER 5] (demo_vm [] []) = Inr (r, vm')"
    using demo_api_call by blast
  from api_call_leaves_value [OF demo_fits _ run] run show ?thesis by (simp add: demo_heap_def demo_stack)
qed

section \<open>Arguments\<close>

lemma load_arg_value:
  assumes "holds (vm :: VM) xs" "length xs < STACK_SIZE"
  shows "inst_load_arg (vm\<lparr>vm_module := m, vm_scope := sc,
      stats := (stats vm)\<lparr>instruction_counter := i, stack_start := stack_counter (stats vm)\<rparr>\<rparr>) (Some (InstUInt16 oc w)) =
    push (if unat w < length xs then xs ! unat w else JS_UNDEFINED) (vm\<lparr>vm_module := m, vm_scope := sc,
      stats := (stats vm)\<lparr>instruction_counter := i, stack_start := stack_counter (stats vm)\<rparr>\<rparr>)"
    (is "inst_load_arg ?vm _ = _")
proof (cases "unat w < length xs")
  case True
  have fits: "stack_fits vm" "stack_list vm = map Some xs" "sp vm = length xs"
    using assms(1) holds_sp [OF assms(1)] by (simp_all add: holds_def)
  then have "stack (stats vm) ! (sp vm - Suc (unat w)) = Some (xs ! unat w)"
    using True nth_stack_list [OF fits(1), of "unat w"] by simp
  moreover have "sp vm - Suc (unat w) < length (stack (stats vm))"
    using fits True by (simp add: stack_fits_def)
  ultimately have "stack_read (sp vm - unat w - 1) ?vm = Inr (xs ! unat w)"
    by (simp add: stack_read_def array_at_def)
  then show ?thesis using True fits(3) by (simp add: inst_load_arg_def)
next
  case False
  then show ?thesis using holds_sp [OF assms(1)] by (simp add: inst_load_arg_def)
qed

lemma load_arg_run:
  assumes "holds vm xs" "length xs < STACK_SIZE" "f < length (h_functions vm)" "h_functions vm ! f = fn"
    and "function_module fn = Some m" "deref (h_modules vm) m = Inr md"
    and "instruction_start fn < length (instructions (data_section md))"
    and "length (instructions (data_section md)) \<le> unat (ds_count (data_section md))"
    and "instruction_end fn = Suc (instruction_start fn)"
    and "instructions (data_section md) ! instruction_start fn = Some (InstUInt16 OP_LOAD_ARG w)" "2 < n"
  shows "exec_function (machine n) f vm = Inr (if unat w < length xs then xs ! unat w else JS_UNDEFINED, vm)"
proof -
  obtain k where n: "n = Suc (Suc (Suc k))"
    using assms(11) by (metis less_imp_Suc_add numeral_2_eq_2 plus_nat.simps(2) add.commute add_Suc_right add_0)
  let ?v = "if unat w < length xs then xs ! unat w else JS_UNDEFINED"
  define entry where "entry i = vm\<lparr>vm_module := m, vm_scope := function_scope fn,
      stats := (stats vm)\<lparr>instruction_counter := i, stack_start := stack_counter (stats vm)\<rparr>\<rparr>" for i
  have cur: "current_module (entry i) = Inr md" "ic (entry i) = i" "set_ic j (entry i) = entry j" for i j
    using assms(6) by (simp_all add: entry_def current_module_def set_ic_def)
  have fits: "stack_fits (entry i)" for i
    using assms(1) by (simp add: entry_def holds_def stack_fits_def)
  have "sp vm < length (stack (stats vm))" using assms(1,2) holds_sp [OF assms(1)] by (simp add: holds_def)
  then obtain vm1 where push: "push ?v (entry (instruction_end fn)) = Inr vm1"
    by (simp add: push_def stack_write_def entry_def)
  note ps = push_spec [OF fits push]
  have "inst_load_arg (entry (instruction_end fn)) (Some (InstUInt16 OP_LOAD_ARG w)) = Inr vm1"
    unfolding entry_def load_arg_value [OF assms(1,2)] by (rule push [unfolded entry_def])
  then have "vm_exec (machine (Suc k)) (entry (instruction_start fn)) = Inr vm1"
    using assms(7-10) by (simp add: vm_exec_def cur array_at_def OPCODE_OF_def)
  moreover have "loop_function (machine (Suc k)) (instruction_end fn) vm1 = Inr vm1"
    using same_registers(3) [OF ps(3)] by (simp add: next_engine_def function_loop_def cur)
  ultimately have loop: "function_loop (machine (Suc k)) (instruction_end fn) (entry (instruction_start fn)) = Inr vm1"
    using assms(7,9,10) by (simp add: function_loop_def cur array_at_def OPCODE_OF_def)
  have "peek 1 vm1 = Inr ?v" using peek_top [OF ps(2,1)] by simp
  moreover have "stack_start (stats vm1) = sp vm" using ps(3) by (simp add: same_but_stack_def entry_def)
  ultimately have res: "function_result vm1 = Inr ?v" using ps(4) by (simp add: function_result_def entry_def)
  have "restore_frame vm vm1 = vm"
    using ps(3) by (intro restore_same) (simp_all add: same_but_stack_def entry_def heap.defs)
  then show ?thesis
    using assms(3-5) loop res by (simp add: n next_engine_def vm_exec_function_def entry_def [symmetric])
qed

text \<open>The operand of \<open>LOAD_ARG\<close> counts from the top of the caller's stack at the call, with no
  regard to how many arguments were passed: 0 is \<open>this\<close>, \<open>i\<close> the \<open>i\<close>-th argument, and a
  larger operand reads the caller's own temporaries (\<open>undefined\<close> only when the whole stack is
  exhausted). Stated for a function whose body is one \<open>LOAD_ARG w\<close>, called on the stack \<open>xs\<close>.\<close>

theorem load_arg_reads_caller_stack:
  assumes "holds vm xs" "length xs < STACK_SIZE" "f < length (h_functions vm)" "h_functions vm ! f = fn"
    and "function_module fn = Some m" "deref (h_modules vm) m = Inr md"
    and "instruction_start fn < length (instructions (data_section md))"
    and "length (instructions (data_section md)) \<le> unat (ds_count (data_section md))"
    and "instruction_end fn = Suc (instruction_start fn)"
    and "instructions (data_section md) ! instruction_start fn = Some (InstUInt16 OP_LOAD_ARG w)" "2 < n"
  shows "exec_function (machine n) f vm = Inr (if unat w < length xs then xs ! unat w else JS_UNDEFINED, vm)"
  using assms by (rule load_arg_run)

lemma load_arg_reads_caller_stack_witness:
  "exec_function (machine 3) 0 (demo_vm [Some (InstUInt16 OP_LOAD_ARG 1)] [JS_NULL, JS_INTEGER 42]) =
     Inr (JS_INTEGER 42, demo_vm [Some (InstUInt16 OP_LOAD_ARG 1)] [JS_NULL, JS_INTEGER 42])"
  using load_arg_reads_caller_stack [OF demo_holds, of "[JS_NULL, JS_INTEGER 42]" 0 "[Some (InstUInt16 OP_LOAD_ARG 1)]"
      _ 0 _ 1 3]
  by (simp add: demo_heap_def STACK_SIZE_def)

end
