(* ===== verification/Atomix_Module_Laws.thy ===== *)
theory Atomix_Module_Laws
  imports Atomix_Call_Laws Atomix_Program
begin

text \<open>
  Modules and bundles: finding a module by its hash, importing it, and what happens when it is
  imported again. The search depends on nothing a running program changes, so the same hash
  finds the same module during the whole run.
\<close>

section \<open>The search during a run\<close>

lemma module_hash_stable:
  assumes "extends s s'" "m < length (h_modules s)"
  shows "hash (h_modules s' ! m) = hash (h_modules s ! m)" "module_bundle (h_modules s' ! m) = module_bundle (h_modules s ! m)"
  using assms by (auto simp: extends_def module_le_def)

lemma extends_modules: "extends s s' \<Longrightarrow> length (h_modules s') = length (h_modules s)"
  by (simp add: extends_def)

lemma bundle_search_stable:
  assumes "extends s s'"
  shows "bundle_search n low high ms h s' = bundle_search n low high ms h s"
proof (induction n arbitrary: low high)
  case (Suc n)
  have "andThen (deref (h_modules s') m) (\<lambda>md. if hash md = h then Inr (Some m)
        else if hash md < h then bundle_search n (mid + 1) high ms h s' else bundle_search n low (mid - 1) ms h s') =
      andThen (deref (h_modules s) m) (\<lambda>md. if hash md = h then Inr (Some m)
        else if hash md < h then bundle_search n (mid + 1) high ms h s else bundle_search n low (mid - 1) ms h s)" for m mid
    using module_hash_stable(1) [OF assms, of m]
    by (cases "m < length (h_modules s)") (simp_all add: Suc.IH deref_def extends_modules [OF assms])
  then show ?case unfolding bundle_search.simps Let_def by (simp only:)
qed simp

lemma native_search_stable:
  assumes "extends s s'"
  shows "native_search ms h s' = native_search ms h s"
proof (induction ms)
  case (Cons m ms)
  then show ?case
    using module_hash_stable(1) [OF assms, of m]
    by (cases "m < length (h_modules s)") (simp_all add: deref_def extends_modules [OF assms])
qed simp

lemma bundle_get_module_stable:
  assumes "extends s s'"
  shows "bundle_get_module b h s' = bundle_get_module b h s"
proof -
  have eq: "h_bundles s' = h_bundles s" "native_modules s' = native_modules s" using assms by (simp_all add: extends_def)
  show ?thesis
    unfolding bundle_get_module_def bundle_search_stable [OF assms] native_search_stable [OF assms] eq by (rule refl)
qed

section \<open>Imports\<close>

lemma import_marked:
  assumes "wf_vm vm" "runnable vm m" "exec_module (machine n) m (mark_initialized m vm) = Inr vm'"
  shows "vm_step vm vm' \<and> vm_module vm' = vm_module vm \<and> initialized (h_modules vm' ! m)"
proof -
  note mark = mark_initialized_ok [OF assms(1), of m]
  have m: "m < length (h_modules vm)" using assms(2) by (simp add: runnable_def)
  have init: "initialized (h_modules (mark_initialized m vm) ! m)" "m < length (h_modules (mark_initialized m vm))"
    using m by (simp_all add: mark_initialized_def)
  have "safe (vm_step (mark_initialized m vm)) (exec_module (machine n) m (mark_initialized m vm))"
    by (rule machine.exec_module_ok [OF vm_stepD(1) [OF mark] runnable_mono [OF vm_stepD(2) [OF mark] assms(2)]])
  then have step: "vm_step (mark_initialized m vm) vm'" using assms(3) by simp
  have "vm_module vm' = vm_module vm"
    using machine_exec_module_frame(1) [OF assms(3)] by (simp add: mark_initialized_def)
  then show ?thesis
    using vm_step_trans [OF mark step] module_mono(3) [OF vm_stepD(2) [OF step] init(2,1)] by simp
qed

text \<open>The steps of an import that returned.\<close>

lemma import_steps:
  assumes "module_import_module e vm this (JS_INTEGER hi # JS_INTEGER lo # rest) = Inr (v, vm')"
  obtains cur m where "current_module vm = Inr cur"
    "bundle_get_module (module_bundle cur) (import_hash hi lo) vm = Inr m" "m < length (h_modules vm)"
    "(if initialized (h_modules vm ! m) then Inr vm else exec_module e m (mark_initialized m vm)) = Inr vm'"
    "\<exists>a. m < length (h_modules vm') \<and> exports (h_modules vm' ! m) = Some a \<and> v = JS_OBJECT a"
  using assms by (auto simp: module_import_module_def andThen_eq_Inr ptr_eq_Inr deref_eq_Inr)

lemma import_initialized:
  assumes "current_module vm = Inr cur" "bundle_get_module (module_bundle cur) (import_hash hi lo) vm = Inr m"
    and "m < length (h_modules vm)" "initialized (h_modules vm ! m)" "exports (h_modules vm ! m) = Some a"
  shows "module_import_module e vm this (JS_INTEGER hi # JS_INTEGER lo # rest) = Inr (JS_OBJECT a, vm)"
  using assms by (simp add: module_import_module_def)

lemma import_again:
  assumes "wf_vm vm" "module_import_module (machine n) vm this (JS_INTEGER hi # JS_INTEGER lo # rest) = Inr (v, vm')"
  shows "module_import_module e vm' this' (JS_INTEGER hi # JS_INTEGER lo # rest') = Inr (v, vm')"
proof -
  obtain cur m where imp: "current_module vm = Inr cur"
    "bundle_get_module (module_bundle cur) (import_hash hi lo) vm = Inr m" "m < length (h_modules vm)"
    "(if initialized (h_modules vm ! m) then Inr vm else exec_module (machine n) m (mark_initialized m vm)) = Inr vm'"
    "\<exists>a. m < length (h_modules vm') \<and> exports (h_modules vm' ! m) = Some a \<and> v = JS_OBJECT a"
    using assms(2) by (rule import_steps)
  have cur: "vm_module vm < length (h_modules vm)" "cur = h_modules vm ! vm_module vm"
    using imp(1) by (simp_all add: current_module_def deref_eq_Inr)
  have known: "known vm m"
  proof -
    have "wf_modules vm" "\<And>a. module_bundle cur = Some a \<Longrightarrow> a < length (h_bundles vm)"
      using assms(1) cur by (auto simp: wf_vm_def runnable_def good_module_def)
    from bundle_get_module_ok [OF this] imp(2) show ?thesis by (metis safe_Inr)
  qed
  have "vm_step vm vm' \<and> vm_module vm' = vm_module vm \<and> initialized (h_modules vm' ! m)"
  proof (cases "initialized (h_modules vm ! m)")
    case True
    then show ?thesis using imp(4) vm_step_refl [OF assms(1)] by simp
  next
    case False
    then have "runnable vm m" "exec_module (machine n) m (mark_initialized m vm) = Inr vm'"
      using imp(4) known by (simp_all add: known_def)
    then show ?thesis by (rule import_marked [OF assms(1)])
  qed
  then have step: "extends vm vm'" "vm_module vm' = vm_module vm" "initialized (h_modules vm' ! m)"
    using vm_stepD(2) by blast+
  have "current_module vm' = Inr (h_modules vm' ! vm_module vm)"
    using cur(1) step(2) extends_modules [OF step(1)] by (simp add: current_module_def)
  moreover have "bundle_get_module (module_bundle (h_modules vm' ! vm_module vm)) (import_hash hi lo) vm' = Inr m"
    using imp(2) module_hash_stable(2) [OF step(1) cur(1)] by (simp add: bundle_get_module_stable [OF step(1)] cur(2))
  ultimately show ?thesis using imp(5) step(3) import_initialized by blast
qed

section \<open>Binary search\<close>

text \<open>The modules of a bundle in the order of their hashes, all of them allocated.\<close>

definition hashes_of :: "'a heap_scheme \<Rightarrow> module_ref list \<Rightarrow> u64 list" where
  "hashes_of s ms = map (\<lambda>m. hash (h_modules s ! m)) ms"

definition sorted_bundle :: "'a heap_scheme \<Rightarrow> module_ref list \<Rightarrow> bool" where
  "sorted_bundle s ms \<longleftrightarrow>
     sorted_wrt (<) (hashes_of s ms) \<and> list_all (\<lambda>m. m < length (h_modules s)) ms \<and> length ms < 2 ^ 15"

text \<open>The middle of an interval of 16-bit indices.\<close>

definition middle :: "u16 \<Rightarrow> u16 \<Rightarrow> u16" where
  "middle low high = low + (high - low) div 2"

lemma unat_middle:
  assumes "low \<le> high"
  shows "unat (middle low high) = unat low + (unat high - unat low) div 2"
proof -
  have d: "unat ((high - low) div 2) = (unat high - unat low) div 2"
    using assms by (simp add: unat_div unat_sub)
  have "unat low + (unat high - unat low) div 2 \<le> unat high"
    using assms by (simp add: word_le_nat_alt)
  also have "\<dots> < 2 ^ 16" using unsigned_less [of high, where 'a = nat] by simp
  finally have "unat low + unat ((high - low) div 2) < 2 ^ LENGTH(16)" by (simp add: d)
  then show ?thesis unfolding middle_def by (subst unat_add_lem [THEN iffD1]) (simp_all only: d)
qed

lemma search_step:
  assumes "sorted_bundle s ms" "low \<le> high" "unat (middle low high) < length ms"
  shows "bundle_search (Suc n) low high ms h s =
    (if hashes_of s ms ! unat (middle low high) = h then Inr (Some (ms ! unat (middle low high)))
     else if hashes_of s ms ! unat (middle low high) < h then bundle_search n (middle low high + 1) high ms h s
     else bundle_search n low (middle low high - 1) ms h s)"
proof -
  have "ms ! unat (middle low high) < length (h_modules s)"
    using assms(1,3) by (simp add: sorted_bundle_def list_all_length)
  then show ?thesis
    using assms(2,3) by (simp add: middle_def [symmetric] array_at_def hashes_of_def Let_def)
qed

lemma search_outside:
  assumes "low \<le> high" "length ms \<le> unat (middle low high)"
  shows "bundle_search (Suc n) low high ms h s = Inl (Fault Out_Of_Bounds)"
  using assms by (simp add: middle_def [symmetric] array_at_def Let_def)

declare bundle_search.simps(2) [simp del]

lemma unat_next:
  assumes "unat (w :: u16) < length ms" "length ms < 2 ^ 15"
  shows "unat (w + 1) = Suc (unat w)"
  using assms by (simp add: unat_word_ariths(1))

lemma unat_prev: "w \<noteq> (0 :: u16) \<Longrightarrow> unat (w - 1) = unat w - 1"
  by (simp add: unat_minus_one)

lemma sorted_hashes:
  assumes "sorted_bundle s ms" "i < j" "j < length ms"
  shows "hashes_of s ms ! i < hashes_of s ms ! j"
  using assms by (simp add: sorted_bundle_def sorted_wrt_iff_nth_less hashes_of_def)

lemma search_found:
  assumes "sorted_bundle s ms" "i < length ms"
  shows "unat low \<le> i \<Longrightarrow> i \<le> unat high \<Longrightarrow> unat high \<le> length ms \<Longrightarrow> unat high - unat low < 2 ^ n \<Longrightarrow>
    bundle_search (Suc n) low high ms (hashes_of s ms ! i) s = Inr (Some (ms ! i))"
proof (induction n arbitrary: low high)
  case 0
  then have "unat low = i" "unat high = i" by simp_all
  then have "low \<le> high" "unat (middle low high) = i" by (simp_all add: word_le_nat_alt unat_middle)
  with search_step [OF assms(1), of low high] assms(2) show ?case by simp
next
  case (Suc n)
  let ?mid = "middle low high"
  have le: "low \<le> high" using Suc.prems by (simp add: word_le_nat_alt)
  note mid = unat_middle [OF le]
  have m: "unat ?mid < length ms" using Suc.prems assms(2) unfolding mid by linarith
  note step = search_step [OF assms(1) le m, of "Suc n"]
  have len: "length ms < 2 ^ 15" using assms(1) by (simp add: sorted_bundle_def)
  consider "unat ?mid = i" | "unat ?mid < i" | "i < unat ?mid" by linarith
  then show ?case
  proof cases
    case 1
    then show ?thesis by (simp add: step)
  next
    case 2
    then have x: "hashes_of s ms ! unat ?mid < hashes_of s ms ! i" using sorted_hashes [OF assms(1)] assms(2) by blast
    have "unat (?mid + 1) = Suc (unat ?mid)" by (rule unat_next [OF m len])
    moreover have "unat high - Suc (unat ?mid) < 2 ^ n" using Suc.prems(4) 2 Suc.prems(2) unfolding mid by simp
    ultimately show ?thesis using Suc.IH [of "?mid + 1" high] Suc.prems 2 x less_imp_neq [OF x] by (simp add: step)
  next
    case 3
    then have x: "hashes_of s ms ! i < hashes_of s ms ! unat ?mid" using sorted_hashes [OF assms(1)] m by blast
    then have x': "\<not> hashes_of s ms ! unat ?mid < hashes_of s ms ! i" "hashes_of s ms ! unat ?mid \<noteq> hashes_of s ms ! i"
      by (auto dest: order_less_imp_not_less)
    have "?mid \<noteq> 0" using 3 by auto
    then have u: "unat (?mid - 1) = unat ?mid - 1" by (rule unat_prev)
    have "unat ?mid - 1 - unat low < 2 ^ n" using Suc.prems(4) 3 Suc.prems(1) unfolding mid by simp
    then show ?thesis using Suc.IH [of low "?mid - 1"] Suc.prems 3 x' u m by (simp add: step)
  qed
qed

text \<open>A hash between the modules \<open>p - 1\<close> and \<open>p\<close>, and in none of them.\<close>

definition gap :: "'a heap_scheme \<Rightarrow> module_ref list \<Rightarrow> u64 \<Rightarrow> nat \<Rightarrow> bool" where
  "gap s ms h p \<longleftrightarrow> p \<le> length ms \<and> (\<forall>k < p. hashes_of s ms ! k < h) \<and> (\<forall>k. p \<le> k \<and> k < length ms \<longrightarrow> h < hashes_of s ms ! k)"

lemma gap_step:
  assumes "gap s ms h p" "sorted_bundle s ms" "low \<le> high" "unat (middle low high) < length ms"
  shows "bundle_search (Suc n) low high ms h s =
    (if unat (middle low high) < p then bundle_search n (middle low high + 1) high ms h s
     else bundle_search n low (middle low high - 1) ms h s)"
proof (cases "unat (middle low high) < p")
  case True
  then have "hashes_of s ms ! unat (middle low high) < h" using assms(1) by (simp add: gap_def)
  with True show ?thesis unfolding search_step [OF assms(2-4)] by (simp add: less_imp_neq)
next
  case False
  then have x: "h < hashes_of s ms ! unat (middle low high)" using assms(1,4) by (simp add: gap_def)
  with False show ?thesis
    unfolding search_step [OF assms(2-4)] using less_imp_neq [OF x] order_less_imp_not_less [OF x] by simp
qed

lemma search_absent:
  assumes "gap s ms h p" "sorted_bundle s ms" "0 < p" "p < length ms"
  shows "unat low \<le> p \<Longrightarrow> p \<le> Suc (unat high) \<Longrightarrow> unat high \<le> length ms \<Longrightarrow> Suc (unat high) - unat low < 2 ^ n \<Longrightarrow>
    bundle_search (Suc n) low high ms h s = Inr None"
proof (induction n arbitrary: low high)
  case 0
  then have "\<not> low \<le> high" by (simp add: word_le_nat_alt)
  then show ?case by (simp add: bundle_search.simps(2))
next
  case (Suc n)
  let ?mid = "middle low high"
  show ?case
  proof (cases "low \<le> high")
    case False
    then show ?thesis by (simp add: bundle_search.simps(2))
  next
    case le: True
    then have nat: "unat low \<le> unat high" by (simp add: word_le_nat_alt)
    note mid = unat_middle [OF le]
    have m: "unat ?mid < length ms" using Suc.prems assms(4) nat unfolding mid by linarith
    note step = gap_step [OF assms(1,2) le m, of "Suc n"]
    have len: "length ms < 2 ^ 15" using assms(2) by (simp add: sorted_bundle_def)
    show ?thesis
    proof (cases "unat ?mid < p")
      case True
      have "unat (?mid + 1) = Suc (unat ?mid)" by (rule unat_next [OF m len])
      moreover have "Suc (unat high) - Suc (unat ?mid) < 2 ^ n" using Suc.prems(4) nat unfolding mid by simp
      ultimately show ?thesis using Suc.IH [of "?mid + 1" high] Suc.prems True by (simp add: step)
    next
      case False
      then have "?mid \<noteq> 0" using assms(3) by auto
      then have u: "unat (?mid - 1) = unat ?mid - 1" by (rule unat_prev)
      moreover have "unat ?mid - unat low < 2 ^ n" using Suc.prems(4) nat unfolding mid by simp
      ultimately show ?thesis using Suc.IH [of low "?mid - 1"] Suc.prems False m assms(3) by (simp add: step)
    qed
  qed
qed

lemma search_above:
  assumes "gap s ms h (length ms)" "sorted_bundle s ms"
  shows "unat low \<le> length ms \<Longrightarrow> unat high = length ms \<Longrightarrow> Suc (length ms) - unat low < 2 ^ n \<Longrightarrow>
    bundle_search (Suc n) low high ms h s = Inl (Fault Out_Of_Bounds)"
proof (induction n arbitrary: low)
  case (Suc n)
  let ?mid = "middle low high"
  have le: "low \<le> high" using Suc.prems by (simp add: word_le_nat_alt)
  note mid = unat_middle [OF le]
  have len: "length ms < 2 ^ 15" using assms(2) by (simp add: sorted_bundle_def)
  show ?case
  proof (cases "unat ?mid < length ms")
    case True
    have "unat (?mid + 1) = Suc (unat ?mid)" by (rule unat_next [OF True len])
    moreover have "Suc (length ms) - Suc (unat ?mid) < 2 ^ n" using Suc.prems unfolding mid by simp
    ultimately show ?thesis using Suc.IH [of "?mid + 1"] Suc.prems True by (simp add: gap_step [OF assms le True])
  next
    case False
    then show ?thesis by (intro search_outside [OF le]) simp
  qed
qed simp

text \<open>\<open>high\<close> has wrapped around below zero.\<close>

lemma search_wrapped:
  assumes "sorted_bundle s ms"
  shows "bundle_search (Suc k) 0 (- 1) ms h s = Inl (Fault Out_Of_Bounds)"
proof (rule search_outside)
  have "unat (middle 0 (- 1)) = 32767"
    by (subst unat_middle) (simp_all add: unsigned_minus_1_eq_mask mask_eq_exp_minus_1)
  then show "length ms \<le> unat (middle 0 (- 1))" using assms by (simp add: sorted_bundle_def)
qed simp

lemma search_below:
  assumes "gap s ms h 0" "sorted_bundle s ms"
  shows "unat high \<le> length ms \<Longrightarrow> unat high < 2 ^ n \<Longrightarrow>
    bundle_search (Suc (Suc n)) 0 high ms h s = Inl (Fault Out_Of_Bounds)"
proof (induction n arbitrary: high)
  case 0
  then have "high = 0" by (simp add: unat_eq_zero)
  note all = search_wrapped [OF assms(2)]
  show ?case
  proof (cases "ms = []")
    case True
    then show ?thesis unfolding \<open>high = 0\<close> by (intro search_outside) simp_all
  next
    case False
    then have "unat (middle 0 0) < length ms" by (simp add: middle_def)
    from gap_step [OF assms _ this, of "Suc 0"] all [of 0] show ?thesis
      unfolding \<open>high = 0\<close> by (simp add: middle_def)
  qed
next
  case (Suc n)
  let ?mid = "middle 0 high"
  have le: "0 \<le> high" by simp
  note mid = unat_middle [OF le]
  note all = search_wrapped [OF assms(2)]
  show ?case
  proof (cases "unat ?mid < length ms")
    case False
    then show ?thesis by (intro search_outside) simp_all
  next
    case True
    note step = gap_step [OF assms le True, of "Suc (Suc n)"]
    show ?thesis
    proof (cases "?mid = 0")
      case True
      then show ?thesis using step all [of "Suc n"] by simp
    next
      case False
      then have "unat (?mid - 1) = unat ?mid - 1" by (rule unat_prev)
      moreover have "unat ?mid \<noteq> 0" using False by (simp add: unat_eq_zero)
      ultimately show ?thesis using Suc.IH [of "?mid - 1"] Suc.prems step mid by simp
    qed
  qed
qed

lemma sorted_bundle_size: "sorted_bundle s ms \<Longrightarrow> Suc (length ms) < 2 ^ 62"
  by (simp add: sorted_bundle_def)

text \<open>Every hash that no module has falls into one gap.\<close>

lemma gap_exists:
  assumes "sorted_bundle s ms" "h \<notin> set (hashes_of s ms)"
  shows "\<exists>p. gap s ms h p"
proof -
  let ?n = "length ms"
  have len: "length (hashes_of s ms) = ?n" by (simp add: hashes_of_def)
  define p where "p = length (takeWhile (\<lambda>x. x < h) (hashes_of s ms))"
  have "p \<le> ?n" unfolding p_def by (metis len length_takeWhile_le)
  moreover have "hashes_of s ms ! k < h" if "k < p" for k
    using that unfolding p_def by (metis nth_mem set_takeWhileD takeWhile_nth)
  moreover have "h < hashes_of s ms ! k" if "p \<le> k" "k < ?n" for k
  proof -
    have "\<not> hashes_of s ms ! p < h"
      using nth_length_takeWhile [of "\<lambda>x. x < h" "hashes_of s ms"] that len unfolding p_def by linarith
    moreover have "hashes_of s ms ! p \<noteq> h" using assms(2) that len by (metis le_less_trans nth_mem)
    ultimately have "h < hashes_of s ms ! p" by simp
    also have "\<dots> \<le> hashes_of s ms ! k"
      using sorted_hashes [OF assms(1), of p k] that by (cases "p = k") (simp_all add: less_imp_le)
    finally show ?thesis .
  qed
  ultimately show ?thesis unfolding gap_def by blast
qed

section \<open>Properties\<close>

text \<open>C8: The binary search of \<open>bundle_get_module\<close> finds every module of a bundle whose modules are in
  strictly increasing (unsigned) order of their hashes.\<close>

theorem bundle_finds_modules:
  assumes "b < length (h_bundles s)" "h_bundles s ! b = bun" "unat (moduleCount bun) = length (bundle_modules bun)"
    and "sorted_bundle s (bundle_modules bun)" "i < length (bundle_modules bun)"
  shows "bundle_get_module (Some b) (hash (h_modules s ! (bundle_modules bun ! i))) s = Inr (bundle_modules bun ! i)"
proof -
  have "bundle_search (Suc 63) 0 (moduleCount bun) (bundle_modules bun) (hashes_of s (bundle_modules bun) ! i) s =
      Inr (Some (bundle_modules bun ! i))"
    using assms sorted_bundle_size [OF assms(4)] by (intro search_found) simp_all
  then show ?thesis using assms(1,2,5) by (simp add: bundle_get_module_def hashes_of_def)
qed

lemma demo_bundle_fields:
  "h_bundles (demo_bundle hs) = [zero_bundle\<lparr>moduleCount := word_of_nat (length hs), bundle_modules := [0 ..< length hs]\<rparr>]"
  "h_modules (demo_bundle hs) = map (\<lambda>h. zero_module\<lparr>hash := h\<rparr>) hs"
  by (simp_all add: demo_bundle_def)

definition demo_three :: heap where
  "demo_three = demo_bundle [10, 20, 30]"

lemma demo_three:
  "h_bundles demo_three = [zero_bundle\<lparr>moduleCount := 3, bundle_modules := [0, 1, 2]\<rparr>]"
  "sorted_bundle demo_three [0, 1, 2]" "hashes_of demo_three [0, 1, 2] = [10, 20, 30]"
  "hash (h_modules demo_three ! 1) = 20"
  by (simp_all add: demo_three_def demo_bundle_fields sorted_bundle_def hashes_of_def upt_rec)

lemma bundle_finds_modules_witness: "bundle_get_module (Some 0) 20 demo_three = Inr 1"
  using bundle_finds_modules [of 0 demo_three _ 1, OF _ refl] by (simp add: demo_three demo_three [unfolded One_nat_def])

text \<open>A hash that is not in the bundle reaches the registered native modules only when the bundle
  has a smaller and a greater one. Otherwise (and in an empty bundle always) the search reads
  outside the module array: \<open>high\<close> starts one past the last index, and \<open>mid - 1\<close> wraps below
  the first.\<close>

theorem bundle_absent_module:
  assumes "b < length (h_bundles s)" "h_bundles s ! b = bun" "unat (moduleCount bun) = length (bundle_modules bun)"
    and "sorted_bundle s (bundle_modules bun)" "h \<notin> set (hashes_of s (bundle_modules bun))"
  shows "bundle_get_module (Some b) h s =
    (if (\<exists>x \<in> set (hashes_of s (bundle_modules bun)). x < h) \<and> (\<exists>x \<in> set (hashes_of s (bundle_modules bun)). h < x)
     then native_search (native_modules s) h s else Inl (Fault Out_Of_Bounds))"
proof -
  let ?ms = "bundle_modules bun" and ?hs = "hashes_of s (bundle_modules bun)"
  obtain p where gap: "gap s ?ms h p" using gap_exists [OF assms(4,5)] by blast
  have len: "length ?hs = length ?ms" by (simp add: hashes_of_def)
  have size: "Suc (length ?ms) < 2 ^ 62" by (rule sorted_bundle_size [OF assms(4)])
  have lt: "k < p \<longleftrightarrow> ?hs ! k < h" if "k < length ?ms" for k
    using gap that unfolding gap_def by (metis not_less order_less_imp_not_less)
  have gt: "p \<le> k \<longleftrightarrow> h < ?hs ! k" if "k < length ?ms" for k
    using gap that unfolding gap_def by (metis not_less order_less_imp_not_less)
  have p: "p \<le> length ?ms" using gap by (simp add: gap_def)
  have some: "(\<exists>x \<in> set ?hs. P x) \<longleftrightarrow> (\<exists>k < length ?ms. P (?hs ! k))" for P
    by (metis in_set_conv_nth len)
  have small: "(\<exists>x \<in> set ?hs. x < h) \<longleftrightarrow> 0 < p"
    unfolding some using lt p by (metis gr_zeroI less_le_trans less_zeroE)
  have great: "(\<exists>x \<in> set ?hs. h < x) \<longleftrightarrow> p < length ?ms"
    unfolding some using gt by (metis le_less_trans order_refl)
  have get: "bundle_get_module (Some b) h s =
      andThen (bundle_search 64 0 (moduleCount bun) ?ms h s)
        (\<lambda>r. case r of Some m \<Rightarrow> Inr m | None \<Rightarrow> native_search (native_modules s) h s)"
    using assms(1,2) by (simp add: bundle_get_module_def)
  consider "0 < p" "p < length ?ms" | "p = length ?ms" | "p = 0" "p < length ?ms" using p by linarith
  then show ?thesis
  proof cases
    case 1
    then have "bundle_search (Suc 63) 0 (moduleCount bun) ?ms h s = Inr None"
      using size assms(3) by (intro search_absent [OF gap assms(4)]) simp_all
    then show ?thesis using 1 unfolding get small great by simp
  next
    case 2
    then have "bundle_search (Suc 63) 0 (moduleCount bun) ?ms h s = Inl (Fault Out_Of_Bounds)"
      using size assms(3) gap by (intro search_above [OF _ assms(4)]) simp_all
    then show ?thesis using 2 unfolding get small great by simp
  next
    case 3
    then have "bundle_search (Suc (Suc 62)) 0 (moduleCount bun) ?ms h s = Inl (Fault Out_Of_Bounds)"
      using size assms(3) gap by (intro search_below [OF _ assms(4)]) simp_all
    then show ?thesis using 3 unfolding get small great by simp
  qed
qed

lemma bundle_absent_module_witness: "bundle_get_module (Some 0) 40 demo_three = Inl (Fault Out_Of_Bounds)"
  using bundle_absent_module [of 0 demo_three _ 40, OF _ refl] by (simp add: demo_three demo_three [unfolded One_nat_def])

text \<open>C7: Imports are idempotent: after an import that returned, importing the same hash again, from
  the same place and at any depth of the interpreter, gives the same exports object and
  changes nothing; in particular the module body is not run a second time.\<close>

theorem import_idempotent:
  assumes "wf_vm vm" "module_import_module (machine n) vm this (JS_INTEGER hi # JS_INTEGER lo # rest) = Inr (v, vm')"
  shows "module_import_module e vm' this' (JS_INTEGER hi # JS_INTEGER lo # rest') = Inr (v, vm')"
  using assms by (rule import_again)

lemma import_idempotent_witness:
  "module_import_module no_engine demo_import JS_NULL [JS_INTEGER 0, JS_INTEGER 20] = Inr (JS_OBJECT 0, demo_import)"
proof -
  have "module_import_module (machine 0) demo_import JS_NULL [JS_INTEGER 0, JS_INTEGER 20] = Inr (JS_OBJECT 0, demo_import)"
    by (simp add: module_import_module_def current_module_def demo_import_def demo_heap_def zero_module_def
        bundle_get_module_def import_hash_def)
  from import_idempotent [OF demo_import_wf this] show ?thesis .
qed

end
