(* ===== verification/Atomix_Store_Laws.thy ===== *)
theory Atomix_Store_Laws
  imports Atomix_Demo Atomix_Core
begin

text \<open>
  What a running program sees of its storage: tables are maps, scopes are a list of maps read
  from the inside out, objects are maps read along the prototypes. The lemmas of
  \<open>Atomix_Dict\<close>, \<open>Atomix_Scope\<close> and \<open>Atomix_Object\<close> are put together here, with the cases
  in which the code does not behave like a map.
\<close>

section \<open>Tables\<close>

lemma dict_update_eq:
  "dict_update d k v = (case dict_get d k of None \<Rightarrow> (False, d) | Some p \<Rightarrow> (True, dict_store d p v))"
  by (auto simp: dict_update_def dict_get_def Let_def split: option.split)

text \<open>C10: The hash table implements a finite map: on a well-formed table \<open>dict_update\<close> changes the
  value of a key that is present and nothing otherwise, \<open>dict_add\<close> of an absent key adds it,
  both keep the invariant and neither touches the symbol keys.\<close>

theorem dict_implements_map:
  assumes "wf_dict d"
  shows "fst (dict_update d k v) = (dict_map d k \<noteq> None) \<and>
    wf_dict (snd (dict_update d k v)) \<and>
    dict_map (snd (dict_update d k v)) = (if dict_map d k = None then dict_map d else (dict_map d)(k \<mapsto> v)) \<and>
    dict_symbols (snd (dict_update d k v)) = dict_symbols d \<and>
    dict_map (dict_add d k v) = (dict_map d)(k \<mapsto> v) \<and> dict_symbols (dict_add d k v) = dict_symbols d \<and>
    (dict_map d k = None \<longrightarrow> wf_dict (dict_add d k v))"
proof (cases "dict_get d k")
  case None
  moreover from this have "dict_map d k = None" by (simp add: dict_map_def)
  ultimately show ?thesis
    using assms by (simp add: dict_update_eq dict_map_add wf_dict_add dict_symbols_add)
next
  case (Some p)
  then show ?thesis
    using assms dict_get_valid [OF assms Some] dict_map_store [OF assms Some] dict_symbols_store [OF assms Some]
      dict_map_add [OF assms] dict_symbols_add [OF assms]
    by (simp add: dict_update_eq wf_dict_store) (simp add: dict_map_def)
qed

lemma dict_implements_map_witness:
  "dict_map (dict_add (dict_create_dict 16) ''x'' JS_NULL) ''x'' = Some JS_NULL"
  using dict_implements_map [of "dict_create_dict 16" "''x''" JS_NULL] by (simp add: wf_dict_create)

text \<open>C11: \<open>dict_delete\<close> removes exactly its key and reports whether it was there, unless the key is
  the second entry of its chain: then the search for the predecessor starts behind it, runs
  off the chain and dereferences a null pointer.\<close>

theorem dict_delete_correct_or_null:
  assumes "wf_dict d"
  shows "case dict_delete d k of
      Inl e \<Rightarrow> e = Fault Null_Deref \<and> (\<exists>p. dict_get d k = Some p \<and> snd p = 1)
    | Inr (found, d') \<Rightarrow> found = (dict_map d k \<noteq> None) \<and> wf_dict d' \<and> dict_map d' = (dict_map d)(k := None) \<and>
        (\<nexists>p. dict_get d k = Some p \<and> snd p = 1)"
proof (cases "\<exists>p. dict_get d k = Some p \<and> snd p = 1")
  case True
  then show ?thesis using dict_delete_second [OF assms] by auto
next
  case False
  have "\<exists>r. dict_delete d k = Inr r"
  proof (cases "dict_get d k")
    case None
    then show ?thesis using dict_delete_absent by blast
  next
    case (Some p)
    with False dict_delete_found [OF assms Some] show ?thesis by blast
  qed
  then obtain found d' where r: "dict_delete d k = Inr (found, d')" by auto
  then show ?thesis using dict_delete_Inr [OF assms r] False by auto
qed

text \<open>\<open>b\<close> and \<open>r\<close> share the only bucket of a one-bucket table.\<close>

lemma dict_delete_correct_or_null_witness:
  "dict_delete (dict_add (dict_add (dict_create_dict 1) ''a'' JS_NULL) ''b'' JS_NULL) ''a'' = Inl (Fault Null_Deref)"
proof -
  let ?d = "dict_add (dict_add (dict_create_dict 1) ''a'' JS_NULL) ''b'' JS_NULL"
  have b: "buckets ?d = [[\<lparr>prop_key = Some ''b'', prop_symbol = None, prop_value = JS_NULL\<rparr>,
      \<lparr>prop_key = Some ''a'', prop_symbol = None, prop_value = JS_NULL\<rparr>]]"
    by (simp add: dict_add_def dict_create_dict_def hash_string_def)
  have g: "dict_get ?d ''a'' = Some (0, 1)"
    unfolding dict_get_def b by (simp add: hash_string_def dict_create_dict_def)
  have "wf_dict ?d"
    by (intro wf_dict_add wf_dict_create) (simp_all add: dict_get_def dict_add_def dict_create_dict_def hash_string_def)
  from dict_delete_correct_or_null [OF this, of "''a''"] g show ?thesis
    by (auto split: sum.splits)
qed

section \<open>Scopes\<close>

lemma deref_scopes: "a < length (h_scopes s) \<Longrightarrow> scope_declare a k v s = Inr (scope_assign a k v s)"
  by (simp add: scope_declare_eq)

text \<open>C12: Reading and testing a name: \<open>scope_get\<close> gives the binding of the innermost scope of the chain
  that has one (\<open>undefined\<close> if none has), and \<open>scope_contains\<close> says whether one has.\<close>

theorem scope_reads_innermost:
  assumes "scope_chain s a as"
  shows "scope_get a key s = Inr (case env_lookup s as key of Some v \<Rightarrow> v | None \<Rightarrow> JS_UNDEFINED) \<and>
    scope_contains a key True s = Inr (env_lookup s as key \<noteq> None)"
  using scope_get_spec [OF assms] scope_contains_spec [OF assms] by simp

text \<open>A scope inside a global scope that binds \<open>x\<close>.\<close>

definition demo_scopes :: heap where
  "demo_scopes = empty_heap
     \<lparr>h_scopes := [\<lparr>parent = None, symbols = dict_put (dict_create_dict SCOPE_BUCKET_SIZE) ''x'' JS_NULL\<rparr>,
        \<lparr>parent = Some 0, symbols = dict_create_dict SCOPE_BUCKET_SIZE\<rparr>]\<rparr>"

lemma demo_scope_chain: "scope_chain demo_scopes 1 [1, 0]"
proof (rule linked_step)
  show "scope_link demo_scopes 1 = Inr (Some 0)" by (simp add: scope_link_def demo_scopes_def)
  show "scope_chain demo_scopes 0 [0]" by (rule linked_last) (simp add: scope_link_def demo_scopes_def)
qed

lemma demo_scope_tables: "wf_tables demo_scopes"
  by (simp add: wf_tables_def demo_scopes_def wf_dict_put wf_dict_create SCOPE_BUCKET_SIZE_def)

lemma demo_bindings: "bindings demo_scopes 1 = Map.empty" "bindings demo_scopes 0 = [''x'' \<mapsto> JS_NULL]"
proof -
  have "dict_map (dict_create_dict SCOPE_BUCKET_SIZE) = Map.empty"
    by (rule ext) (simp add: dict_map_create SCOPE_BUCKET_SIZE_def)
  then show "bindings demo_scopes 1 = Map.empty" "bindings demo_scopes 0 = [''x'' \<mapsto> JS_NULL]"
    by (simp_all add: bindings_def demo_scopes_def dict_map_put wf_dict_create SCOPE_BUCKET_SIZE_def)
qed

lemma scope_reads_innermost_witness: "scope_get 1 ''x'' demo_scopes = Inr JS_NULL"
  using scope_reads_innermost [OF demo_scope_chain, of "''x''"]
  by (simp add: env_lookup_def demo_bindings demo_bindings [unfolded One_nat_def])

text \<open>Assigning a name: \<open>scope_set\<close> overwrites the binding in the innermost scope that has one
  and leaves every other name and scope alone; without such a scope it reports failure and
  changes nothing, it never creates a binding.\<close>

theorem scope_set_updates_innermost:
  assumes "wf_tables s" "scope_chain s a as"
  shows "case env_owner s as key of
      None \<Rightarrow> scope_set a key v s = Inr (False, s)
    | Some b \<Rightarrow> \<exists>s'. scope_set a key v s = Inr (True, s') \<and> wf_tables s' \<and> scope_link s' = scope_link s \<and>
        (\<forall>c. bindings s' c = (if c = b then (bindings s b)(key \<mapsto> v) else bindings s c))"
proof (cases "env_owner s as key")
  case None
  then show ?thesis using scope_set_spec [OF assms(2), of key v] by simp
next
  case (Some b)
  have "b \<in> set as"
    using Some unfolding env_owner_def by (induction as) (auto split: option.splits if_splits)
  moreover have "set as \<subseteq> {..<length (h_scopes s)}"
    using assms(2) by induction (auto simp: scope_link_def andThen_eq_Inr deref_eq_Inr)
  ultimately have b: "b < length (h_scopes s)" by auto
  show ?thesis
    using scope_set_spec [OF assms(2), of key v] Some bindings_assign [OF assms(1) b] wf_tables_assign [OF assms(1)]
    by (simp add: exI [of _ "scope_assign b key v s"])
qed

lemma scope_set_updates_innermost_witness:
  "\<exists>s'. scope_set 1 ''x'' (JS_INTEGER 3) demo_scopes = Inr (True, s') \<and> bindings s' 0 ''x'' = Some (JS_INTEGER 3)"
proof -
  have "env_owner demo_scopes [1, 0] ''x'' = Some 0"
    by (simp add: env_owner_def demo_bindings demo_bindings [unfolded One_nat_def])
  with scope_set_updates_innermost [OF demo_scope_tables demo_scope_chain, of "''x''" "JS_INTEGER 3"] show ?thesis
    by auto
qed

text \<open>Declaring a name: \<open>scope_declare\<close> binds it in the scope itself, whatever the enclosing scopes
  bind, and changes no other name and no other scope.\<close>

theorem scope_declare_shadows:
  assumes "wf_tables s" "a < length (h_scopes s)"
  shows "\<exists>s'. scope_declare a key v s = Inr s' \<and> wf_tables s' \<and> scope_get a key s' = Inr v \<and>
    (\<forall>c. bindings s' c = (if c = a then (bindings s a)(key \<mapsto> v) else bindings s c))"
proof -
  let ?s = "scope_assign a key v s"
  have "bindings ?s a key = Some v" by (simp add: bindings_assign [OF assms])
  moreover have "a < length (h_scopes ?s)" using assms(2) by (simp add: scope_assign_def scope_write_def)
  ultimately have "scope_get a key ?s = Inr v"
    using assms(2) unfolding scope_get_def scope_get_walk by (simp add: scope_link_def)
  then show ?thesis
    using deref_scopes [OF assms(2)] bindings_assign [OF assms] wf_tables_assign [OF assms(1)]
    by (intro exI [of _ ?s]) simp
qed

lemma scope_declare_shadows_witness:
  "\<exists>s'. scope_declare 1 ''x'' (JS_INTEGER 3) demo_scopes = Inr s' \<and> bindings s' 0 ''x'' = Some JS_NULL"
proof -
  have "1 < length (h_scopes demo_scopes)" by (simp add: demo_scopes_def)
  from scope_declare_shadows [OF demo_scope_tables this, of "''x''" "JS_INTEGER 3"] show ?thesis
    by (auto simp: demo_bindings)
qed


section \<open>Objects\<close>

text \<open>C13: Reading a property finds the first object along the prototypes that has the key: a plain
  value is returned as it is, an accessor is called with the object that holds it (not the
  object that was read) as \<open>this\<close>, and without a holder the result is \<open>undefined\<close>.\<close>

theorem property_lookup:
  assumes "proto_chain s a as"
  shows "object_get_property call a key s =
    (case proto_lookup s as key of
       None \<Rightarrow> Inr (JS_UNDEFINED, s)
     | Some (holder, JS_GS_BOX g) \<Rightarrow> call_getter call holder g s
     | Some (holder, v) \<Rightarrow> Inr (v, s))"
  using object_get_property_spec [OF assms] by (simp add: resolve_def)

text \<open>An object without properties whose prototype has \<open>x\<close>.\<close>

definition demo_objects :: heap where
  "demo_objects = empty_heap
     \<lparr>h_objects := [\<lparr>prototype = Some 0, properties = dict_put (dict_create_dict OBJECT_BUCKET_SIZE) ''x'' JS_NULL\<rparr>,
        \<lparr>prototype = Some 0, properties = dict_create_dict OBJECT_BUCKET_SIZE\<rparr>]\<rparr>"

lemma demo_proto_chain: "proto_chain demo_objects 1 [1, 0]"
proof (rule linked_step)
  show "proto_link demo_objects 1 = Inr (Some 0)" by (simp add: proto_link_def demo_objects_def)
  show "proto_chain demo_objects 0 [0]" by (rule linked_last) (simp add: proto_link_def demo_objects_def)
qed

lemma demo_objects_wf: "wf_objects demo_objects"
  by (simp add: wf_objects_def demo_objects_def wf_dict_put wf_dict_create OBJECT_BUCKET_SIZE_def)

lemma demo_own: "own demo_objects 1 = Map.empty" "own demo_objects 0 = [''x'' \<mapsto> JS_NULL]"
proof -
  have "dict_map (dict_create_dict OBJECT_BUCKET_SIZE) = Map.empty"
    by (rule ext) (simp add: dict_map_create OBJECT_BUCKET_SIZE_def)
  then show "own demo_objects 1 = Map.empty" "own demo_objects 0 = [''x'' \<mapsto> JS_NULL]"
    by (simp_all add: own_def demo_objects_def dict_map_put wf_dict_create OBJECT_BUCKET_SIZE_def)
qed

lemma property_lookup_witness: "object_get_property null_vm 1 ''x'' demo_objects = Inr (JS_NULL, demo_objects)"
  using property_lookup [OF demo_proto_chain, of null_vm "''x''"]
  by (simp add: proto_lookup_def demo_own demo_own [unfolded One_nat_def])

text \<open>Writing a property that the object does not hold as an accessor changes this object at this
  key only, and reading the same key back gives the value (called if it is an accessor).\<close>

theorem property_round_trip:
  assumes "wf_objects s" "a < length (h_objects s)" "\<not> is_box (own s a key)" "\<not> is_box (Some v)"
  shows "\<exists>s'. object_set_property call a key v s = Inr s' \<and> wf_objects s' \<and>
    object_get_property call a key s' = Inr (v, s') \<and>
    (\<forall>b. own s' b = (if b = a then (own s a)(key \<mapsto> v) else own s b)) \<and> proto_link s' = proto_link s"
proof -
  let ?s = "object_assign a key v s"
  have own: "own ?s a key = Some v" by (simp add: own_assign [OF assms(1,2)])
  have "a < length (h_objects ?s)" using assms(2) by (simp add: object_assign_def object_write_def)
  then have "object_get_property call a key ?s = Inr (v, ?s)"
    using own assms(4) unfolding object_get_property_def object_get_walk
    by (cases v) (simp_all add: proto_link_def resolve_def is_box_def)
  then show ?thesis
    using object_set_property_plain [OF assms(2,3)] own_assign [OF assms(1,2)] wf_objects_assign [OF assms(1)]
    by (intro exI [of _ ?s]) (simp add: object_assign_def)
qed

lemma property_round_trip_witness:
  "\<exists>s'. object_set_property null_vm 1 ''x'' (JS_INTEGER 3) demo_objects = Inr s' \<and>
     object_get_property null_vm 1 ''x'' s' = Inr (JS_INTEGER 3, s') \<and> own s' 0 ''x'' = Some JS_NULL"
proof -
  have "1 < length (h_objects demo_objects)" by (simp add: demo_objects_def)
  from property_round_trip [OF demo_objects_wf this, of "''x''" "JS_INTEGER 3" null_vm] show ?thesis
    by (auto simp: demo_own demo_own [unfolded One_nat_def] is_box_def)
qed

text \<open>A set of objects closed under distinct prototypes, none of which has the key.\<close>

definition proto_trap :: "'a heap_scheme \<Rightarrow> obj_ref set \<Rightarrow> string \<Rightarrow> bool" where
  "proto_trap s A key \<longleftrightarrow>
     (\<forall>a \<in> A. a < length (h_objects s) \<and> own s a key = None \<and>
        (\<exists>p \<in> A. prototype (h_objects s ! a) = Some p \<and> p \<noteq> a))"

lemma trap_walk:
  assumes "proto_trap s A key" "a \<in> A"
  shows "walk n (proto_link s) (\<lambda>b. map_option (Pair b) (own s b key)) a = Inl Diverge"
  using assms(2)
proof (induction n arbitrary: a)
  case (Suc n)
  then obtain p where "a < length (h_objects s)" "own s a key = None" "p \<in> A"
    "prototype (h_objects s ! a) = Some p" "p \<noteq> a"
    using assms(1) by (auto simp: proto_trap_def)
  then show ?case using Suc.IH by (simp add: proto_link_def)
qed simp

text \<open>The recursion of \<open>object_get_property\<close> stops only at an object that is its own prototype:
  on a cycle of two or more objects (which \<open>setPrototypeOf\<close> can build) reading an absent key
  never returns.\<close>

theorem prototype_cycle_diverges:
  assumes "proto_trap s A key" "a \<in> A"
  shows "object_get_property call a key s = Inl Diverge"
  unfolding object_get_property_def object_get_walk by (simp only: trap_walk [OF assms] andThen_Inl)

lemma prototype_cycle_diverges_witness:
  "object_get_property null_vm 0 ''y'' (object_set_prototype 0 (Some 1) demo_objects) = Inl Diverge"
proof -
  have "own (object_set_prototype 0 (Some 1) demo_objects) c = own demo_objects c" for c
    by (simp add: own_def object_set_prototype_def demo_objects_def nth_Cons' del: One_nat_def)
  then have "proto_trap (object_set_prototype 0 (Some 1) demo_objects) {0, 1} ''y''"
    by (simp add: proto_trap_def demo_own demo_own [unfolded One_nat_def])
      (simp add: object_set_prototype_def demo_objects_def)
  from prototype_cycle_diverges [OF this, of 0] show ?thesis by simp
qed

text \<open>\<open>isArray\<close> follows prototypes with no test for a self-loop: on an object that is its own
  prototype, and is not one of the two global prototypes, it never returns, although reading
  a property of the same object does.\<close>

theorem is_array_self_prototype_diverges:
  assumes "a < length (h_objects s)" "prototype (h_objects s ! a) = Some a"
    and "object_prototype s = Some op" "array_prototype s = Some ap" "a \<noteq> op" "a \<noteq> ap" "own s a key = None"
  shows "value_is_array (JS_OBJECT a) s = Inl Diverge \<and> object_get_property call a key s = Inr (JS_UNDEFINED, s)"
proof -
  have "is_array_rec n op ap (Some a) s = Inl Diverge" for n
    using assms by (induction n) simp_all
  moreover have "object_get_property call a key s = Inr (JS_UNDEFINED, s)"
    using assms(1,2,7) unfolding object_get_property_def object_get_walk by (simp add: proto_link_def resolve_def)
  ultimately show ?thesis
    using assms by (simp add: value_is_array_def object_get_object_prototype_def object_get_array_prototype_def)
qed

lemma is_array_self_prototype_diverges_witness:
  "value_is_array (JS_OBJECT 1) (object_set_prototype 1 (Some 1)
     (demo_objects\<lparr>object_prototype := Some 0, array_prototype := Some 0\<rparr>)) = Inl Diverge"
proof -
  let ?s = "object_set_prototype 1 (Some 1) (demo_objects\<lparr>object_prototype := Some 0, array_prototype := Some 0\<rparr>)"
  have "own ?s 1 = own demo_objects 1"
    by (simp add: own_def object_set_prototype_def demo_objects_def)
  then have "own ?s 1 ''y'' = None" by (simp only: demo_own)
  then show ?thesis
    using is_array_self_prototype_diverges [of 1 ?s 0 0 "''y''" null_vm]
    by (simp add: object_set_prototype_def) (simp add: demo_objects_def)
qed

end
