(* ===== verification/Atomix_Value_Laws.thy ===== *)
theory Atomix_Value_Laws
  imports Atomix_Arith_Laws Atomix_Core
begin

text \<open>
  Values as a program sees them: which are falsy, what they print as, and that the decimal
  form of an integer (the key under which array elements are stored) can be read back.
\<close>

section \<open>Reading back integers\<close>

definition digit_value :: "char \<Rightarrow> nat" where
  "digit_value c = of_char c - 48"

definition read_digits :: "string \<Rightarrow> nat" where
  "read_digits = foldl (\<lambda>n c. 10 * n + digit_value c) 0"

definition read_d :: "string \<Rightarrow> int" where
  "read_d s = (case s of c # cs \<Rightarrow> if c = CHR ''-'' then - int (read_digits cs) else int (read_digits s) | [] \<Rightarrow> 0)"

definition is_digit :: "char \<Rightarrow> bool" where
  "is_digit c \<longleftrightarrow> c \<in> set ''0123456789''"

lemma digit_char_cases: "d < 10 \<Longrightarrow> digit_value (digit_char d) = d \<and> is_digit (digit_char d)"
  by (simp add: less_Suc_eq numeral_eq_Suc, elim disjE) (simp_all add: digit_char_def digit_value_def is_digit_def)

lemma decimal_digits: "decimal n \<noteq> [] \<and> list_all is_digit (decimal n)"
proof (induction n rule: decimal.induct)
  case (1 n)
  then show ?case
    using digit_char_cases [of n] digit_char_cases [of "n mod 10"]
    by (subst (1 2) decimal.simps) (cases "n < 10"; simp add: list_all_iff)
qed

lemma read_decimal: "read_digits (decimal n) = n"
proof (induction n rule: decimal.induct)
  case (1 n)
  show ?case
  proof (cases "n < 10")
    case True
    then show ?thesis using digit_char_cases [of n] by (subst decimal.simps) (simp add: read_digits_def)
  next
    case False
    have "digit_value (digit_char (n mod 10)) = n mod 10" using digit_char_cases [of "n mod 10"] by simp
    moreover have "read_digits (decimal (n div 10)) = n div 10" using 1 False by blast
    ultimately show ?thesis using False by (subst decimal.simps) (simp add: read_digits_def)
  qed
qed

lemma decimal_no_sign: "\<exists>c cs. decimal n = c # cs \<and> c \<noteq> CHR ''-''"
  using decimal_digits [of n] by (cases "decimal n") (auto simp: is_digit_def)

lemma read_print_d: "read_d (print_d i) = i"
proof -
  obtain c cs where c: "decimal (nat i) = c # cs" "c \<noteq> CHR ''-''" using decimal_no_sign by blast
  then show ?thesis using read_decimal [of "nat i"] by (auto simp: read_d_def print_d_def read_decimal)
qed

lemma int_to_string_inj: "int_to_string i = int_to_string j \<longleftrightarrow> i = j"
  by (metis int_to_string_def read_print_d signed_word_eqI)

lemma int_to_string_digits: "c \<in> set (int_to_string i) \<Longrightarrow> is_digit c \<or> c = CHR ''-''"
  using decimal_digits by (auto simp: int_to_string_def print_d_def list_all_iff split: if_splits)

lemma int_to_string_not_length: "int_to_string i \<noteq> ''length''"
  using int_to_string_digits [of "CHR ''l''" i] by (auto simp: is_digit_def)

section \<open>Zero\<close>

lemma decode_zero: "f64_decode (f64_of_int 0) = FFin False 0 (- 1074)"
  by (simp add: f64_of_int_def f64_round_def decode_pack_0)

lemma decode_magnitude_0: "(\<exists>s e. f64_decode d = FFin s 0 e) \<longleftrightarrow> d = 0 \<or> d = 0x8000000000000000"
proof -
  have "(\<exists>s e. f64_decode d = FFin s 0 e) \<longleftrightarrow> f64_exponent d = 0 \<and> f64_fraction d = 0"
    by (auto simp: f64_decode_def Let_def)
  also have "\<dots> \<longleftrightarrow> unat d mod 2 ^ 63 = 0"
  proof -
    have "unat d mod 2 ^ 63 = 2 ^ 52 * f64_exponent d + f64_fraction d"
      using mod_mult2_eq [of "unat d" "2 ^ 52" "2 ^ 11"] by (simp add: f64_exponent_def f64_fraction_def)
    then show ?thesis by auto
  qed
  also have "\<dots> \<longleftrightarrow> unat d = 0 \<or> unat d = 2 ^ 63"
  proof -
    have "unat d < 2 ^ 64" using unsigned_less [of d, where 'a = nat] by simp
    then have "unat d div 2 ^ 63 < 2" by (intro less_mult_imp_div_less) simp
    then show ?thesis using div_mult_mod_eq [of "unat d" "2 ^ 63"]
      by (cases "unat d div 2 ^ 63") (auto simp: less_2_cases_iff)
  qed
  also have "\<dots> \<longleftrightarrow> d = 0 \<or> d = 0x8000000000000000"
    by (simp add: word_unat_eq_iff)
  finally show ?thesis .
qed

lemma eq_zero: "f64_eq d (f64_of_int 0) \<longleftrightarrow> d = 0 \<or> d = 0x8000000000000000"
proof -
  have "f64_eq d (f64_of_int 0) \<longleftrightarrow> (\<exists>s e. f64_decode d = FFin s 0 e)"
    by (cases "f64_decode d") (auto simp: f64_eq_def f64_cmp_def decode_zero sgn_mag_def sgn_if Let_def split: if_splits)
  then show ?thesis by (simp only: decode_magnitude_0)
qed

lemma neg_zero: "f64_neg (f64_of_int 0) = 0x8000000000000000"
  by (simp add: f64_neg_def f64_of_int_def f64_round_def f64_pack_def)

lemma eq_neg_zero: "f64_eq d (f64_neg (f64_of_int 0)) \<longleftrightarrow> f64_eq d (f64_of_int 0)"
proof -
  have "f64_decode (f64_neg (f64_of_int 0)) = FFin True 0 (- 1074)"
    by (simp add: f64_neg_def f64_of_int_def f64_round_def f64_pack_def f64_decode_def f64_sign_def
        f64_exponent_def f64_fraction_def)
  then show ?thesis by (cases "f64_decode d") (simp_all add: f64_eq_def f64_cmp_def decode_zero sgn_mag_def)
qed

section \<open>Infinities\<close>


section \<open>Properties\<close>

text \<open>The decimal form of an integer can be read back, so different integers are different
  property keys.\<close>

theorem int_to_string_round_trip: "read_d (int_to_string i) = sint i"
  by (simp add: int_to_string_def read_print_d)

text \<open>The falsy values are exactly \<open>undefined\<close>, \<open>null\<close>, the integer 0, \<open>false\<close> and the two zeros of
  the doubles. NaN and the empty string are truthy here, unlike in JavaScript.\<close>

theorem falsy_values:
  "value_is_falsy v = Inr True \<longleftrightarrow>
     v \<in> {JS_UNDEFINED, JS_NULL, JS_INTEGER 0, JS_BOOLEAN 0, JS_DOUBLE 0, JS_DOUBLE 0x8000000000000000}"
  by (cases v) (auto simp: eq_zero eq_neg_zero)


end
