(* ===== verification/Atomix_Array_Laws.thy ===== *)
theory Atomix_Array_Laws
  imports Atomix_Store_Laws Atomix_Value_Laws
begin

text \<open>
  Arrays of the core module: the object \<open>Array(v, w, ...)\<close> builds stores its length and its
  elements under their decimal positions, and \<open>isArray\<close> recognises it.
\<close>

definition element_key :: "nat \<Rightarrow> string" where
  "element_key i = int_to_string (word_of_int (int i))"

text \<open>No accessor among the properties.\<close>

definition plain_object :: "'a heap_scheme \<Rightarrow> obj_ref \<Rightarrow> bool" where
  "plain_object s a \<longleftrightarrow> wf_objects s \<and> a < length (h_objects s) \<and> (\<forall>k. \<not> is_box (own s a k))"

lemma plain_assign:
  assumes "plain_object s a" "\<not> is_box (Some v)"
  shows "plain_object (object_assign a k v s) a"
    "object_set_property call a k v s = Inr (object_assign a k v s)"
    "own (object_assign a k v s) a = (own s a)(k \<mapsto> v)"
    "prototype (h_objects (object_assign a k v s) ! a) = prototype (h_objects s ! a)"
    "object_prototype (object_assign a k v s) = object_prototype s"
    "array_prototype (object_assign a k v s) = array_prototype s"
proof -
  have s: "wf_objects s" "a < length (h_objects s)" "\<not> is_box (own s a k)"
    using assms(1) by (simp_all add: plain_object_def)
  show own: "own (object_assign a k v s) a = (own s a)(k \<mapsto> v)"
    by (simp add: own_assign [OF s(1,2)])
  show "object_set_property call a k v s = Inr (object_assign a k v s)"
    by (rule object_set_property_plain [OF s(2,3)])
  show "plain_object (object_assign a k v s) a"
    unfolding plain_object_def own
    using assms wf_objects_assign [OF s(1)] s(2) by (simp add: plain_object_def object_assign_def object_write_def)
  show "prototype (h_objects (object_assign a k v s) ! a) = prototype (h_objects s ! a)"
    "object_prototype (object_assign a k v s) = object_prototype s"
    "array_prototype (object_assign a k v s) = array_prototype s"
    using s(2) by (simp_all add: object_assign_def object_write_def)
qed

text \<open>The loop adds its keys in order and keeps what the object is.\<close>

lemma set_elements_spec:
  assumes "plain_object s a" "list_all (\<lambda>v. \<not> is_box (Some v)) vs"
  shows "\<exists>s'. set_elements call a i vs s = Inr s' \<and> plain_object s' a \<and>
    own s' a = (own s a)(map element_key [i ..< i + length vs] [\<mapsto>] vs) \<and>
    prototype (h_objects s' ! a) = prototype (h_objects s ! a) \<and>
    object_prototype s' = object_prototype s \<and> array_prototype s' = array_prototype s"
  using assms
proof (induction vs arbitrary: i s)
  case (Cons v vs)
  have v: "\<not> is_box (Some v)" using Cons.prems(2) by simp
  note assign = plain_assign [OF Cons.prems(1) v, where k = "element_key i"]
  have key: "value_to_string (JS_VALUE_INT (int i)) = Inr (element_key i)"
    by (simp add: JS_VALUE_INT_def element_key_def)
  have vs: "list_all (\<lambda>v. \<not> is_box (Some v)) vs" using Cons.prems(2) by simp
  from Cons.IH [OF assign(1) vs, of "Suc i"] obtain s' where
    "set_elements call a (Suc i) vs (object_assign a (element_key i) v s) = Inr s'" "plain_object s' a"
    "own s' a = ((own s a)(element_key i \<mapsto> v))(map element_key [Suc i ..< Suc i + length vs] [\<mapsto>] vs)"
    "prototype (h_objects s' ! a) = prototype (h_objects s ! a)"
    "object_prototype s' = object_prototype s" "array_prototype s' = array_prototype s"
    unfolding assign(3-6) by blast
  moreover have "[i ..< i + length (v # vs)] = i # [Suc i ..< Suc i + length vs]" by (simp add: upt_rec)
  ultimately show ?case by (simp add: key assign(2))
qed simp

lemma element_key_inj:
  assumes "i < 2 ^ 31" "j < 2 ^ 31"
  shows "element_key i = element_key j \<longleftrightarrow> i = j"
proof -
  have "sint (word_of_int (int k) :: i32) = int k" if "k < 2 ^ 31" for k
    using that by (intro sint_word_of_int32) (simp add: in_int32_def int_min_def int_max_def)
  from this [OF assms(1)] this [OF assms(2)] show ?thesis
    by (metis element_key_def int_to_string_inj of_nat_eq_iff)
qed

lemma elements_lookup:
  assumes "length vs < 2 ^ 31" "i < length vs"
  shows "(m(map element_key [0 ..< length vs] [\<mapsto>] vs)) (element_key i) = Some (vs ! i)"
proof -
  have d: "distinct (map element_key [0 ..< length vs])"
    using assms(1) element_key_inj by (auto simp: distinct_map inj_on_def)
  let ?kvs = "zip (map element_key [0 ..< length vs]) vs"
  have "?kvs ! i = (element_key i, vs ! i)" "i < length ?kvs" using assms(2) by simp_all
  then have "(element_key i, vs ! i) \<in> set (rev ?kvs)" by (metis nth_mem set_rev)
  moreover have "distinct (map fst (rev ?kvs))" using d by (simp add: rev_map [symmetric])
  ultimately have "map_of (rev ?kvs) (element_key i) = Some (vs ! i)" by (rule map_of_is_SomeI [rotated])
  then show ?thesis by (simp add: map_upds_def)
qed

lemma fresh_object:
  assumes "wf_objects s" "object_create_object p s = (a, s')"
  shows "plain_object s' a" "own s' a = Map.empty" "prototype (h_objects s' ! a) = p"
    "object_prototype s' = object_prototype s" "array_prototype s' = array_prototype s"
proof -
  have eq: "a = length (h_objects s)" "h_objects s' = h_objects s @ [\<lparr>prototype = p, properties = dict_create_dict OBJECT_BUCKET_SIZE\<rparr>]"
    using assms(2) by (auto simp: object_create_object_def)
  have "dict_map (dict_create_dict OBJECT_BUCKET_SIZE) = Map.empty"
    by (rule ext) (simp add: dict_map_create OBJECT_BUCKET_SIZE_def)
  then show own: "own s' a = Map.empty" by (simp add: own_def eq)
  show "plain_object s' a"
    unfolding plain_object_def own
    using assms(1) by (simp add: eq wf_objects_def wf_dict_create OBJECT_BUCKET_SIZE_def is_box_def)
  show "prototype (h_objects s' ! a) = p" "object_prototype s' = object_prototype s" "array_prototype s' = array_prototype s"
    using assms(2) by (auto simp: object_create_object_def)
qed

text \<open>C15: \<open>Array(v, w, ...)\<close> with any number of arguments but one returns a new object that holds the
  number of arguments under \<open>length\<close> and each argument under its decimal position, and for
  which \<open>isArray\<close> answers true.\<close>

theorem array_elements:
  assumes "wf_objects (vm :: VM)" "object_prototype vm = Some op" "array_prototype vm = Some ap" "ap \<noteq> op"
    and "length args \<noteq> 1" "length args < 2 ^ 31" "list_all (\<lambda>v. \<not> is_box (Some v)) args"
  shows "\<exists>arr vm'. array_native e vm this args = Inr (JS_OBJECT arr, vm') \<and>
    own vm' arr ''length'' = Some (JS_VALUE_INT (int (length args))) \<and>
    (\<forall>i < length args. own vm' arr (int_to_string (word_of_int (int i))) = Some (args ! i)) \<and>
    value_is_array (JS_OBJECT arr) vm' = Inr (True, vm')"
proof -
  obtain arr vm1 where new: "object_create_object (Some ap) vm = (arr, vm1)" by fastforce
  note fresh = fresh_object [OF assms(1) new]
  have "\<not> is_box (Some (JS_VALUE_INT (int (length args))))" by (simp add: is_box_def JS_VALUE_INT_def)
  note len = plain_assign [OF fresh(1) this, where k = "''length''"]
  from set_elements_spec [OF len(1) assms(7), of "call_function e" 0] obtain vm2 where elems:
    "set_elements (call_function e) arr 0 args (object_assign arr ''length'' (JS_VALUE_INT (int (length args))) vm1) = Inr vm2"
    "plain_object vm2 arr"
    "own vm2 arr = [''length'' \<mapsto> JS_VALUE_INT (int (length args))](map element_key [0 ..< length args] [\<mapsto>] args)"
    "prototype (h_objects vm2 ! arr) = Some ap" "object_prototype vm2 = Some op" "array_prototype vm2 = Some ap"
    unfolding len(3-6) fresh(2-5) assms(2,3) by auto
  have "array_native e vm this args = array_with (call_function e) arr (JS_VALUE_INT (int (length args))) args vm1"
    using assms(3,5) new
    by (auto simp: array_native_def object_get_array_prototype_def split: list.split JSValue.split)
  then have "array_native e vm this args = Inr (JS_OBJECT arr, vm2)"
    using elems(1) by (simp add: array_with_def len(2))
  moreover have "own vm2 arr ''length'' = Some (JS_VALUE_INT (int (length args)))"
  proof -
    have "''length'' \<notin> set (map element_key [0 ..< length args])"
      using int_to_string_not_length [symmetric] by (auto simp: element_key_def)
    then show ?thesis by (simp add: elems(3))
  qed
  moreover have "\<forall>i < length args. own vm2 arr (int_to_string (word_of_int (int i))) = Some (args ! i)"
    using elements_lookup [OF assms(6)] by (simp add: elems(3) element_key_def)
  moreover have "value_is_array (JS_OBJECT arr) vm2 = Inr (True, vm2)"
    using elems(2,4-6) assms(4)
    by (simp add: value_is_array_def object_get_object_prototype_def object_get_array_prototype_def plain_object_def)
  ultimately show ?thesis by blast
qed

lemma array_elements_witness:
  "\<exists>arr vm'. array_native no_engine ((demo_vm [] [])\<lparr>array_prototype := Some 1\<rparr>) JS_NULL [JS_NULL, JS_INTEGER 7] = Inr (JS_OBJECT arr, vm') \<and>
     own vm' arr ''length'' = Some (JS_INTEGER 2)"
proof -
  have "wf_objects ((demo_vm [] [])\<lparr>array_prototype := Some 1\<rparr>)"
    by (simp add: wf_objects_def) (simp add: demo_heap_def wf_dict_create OBJECT_BUCKET_SIZE_def)
  from array_elements [OF this, of 0 1 "[JS_NULL, JS_INTEGER 7]" no_engine JS_NULL] show ?thesis
    by (auto simp: is_box_def JS_VALUE_INT_def)
qed

end
