(* ===== verification/Atomix_Codec_Laws.thy ===== *)
theory Atomix_Codec_Laws
  imports Atomix_Demo
begin

text \<open>
  Round trips of the bytecode format. The encoders are the little-endian writers a compiler
  for this loader has to use; the interface \<open>byte_codec\<close> says that a reader at the start of
  an encoded item gives the item back and stops right behind it, wherever the item stands in
  the buffer. Its lemmas lift a codec to pairs and to sequences.
\<close>

section \<open>The interface\<close>

primrec decode_list :: "(u8 list \<Rightarrow> nat \<Rightarrow> ('a \<times> nat) res) \<Rightarrow> nat \<Rightarrow> u8 list \<Rightarrow> nat \<Rightarrow> 'a list res" where
  "decode_list dec 0 buff p = Inr []"
| "decode_list dec (Suc n) buff p =
     andThen (dec buff p) (\<lambda>(x, q). andThen (decode_list dec n buff q) (\<lambda>xs. Inr (x # xs)))"

locale byte_codec =
  fixes enc :: "'a \<Rightarrow> u8 list"
    and dec :: "u8 list \<Rightarrow> nat \<Rightarrow> ('a \<times> nat) res"
    and ok :: "'a \<Rightarrow> bool"
  assumes dec_enc: "ok x \<Longrightarrow> dec (pre @ enc x @ post) (length pre) = Inr (x, length pre + length (enc x))"
begin

text \<open>An item somewhere in a buffer.\<close>

lemma dec_at:
  assumes "ok x" "buff = pre @ enc x @ post" "p = length pre"
  shows "dec buff p = Inr (x, p + length (enc x))"
  using assms dec_enc by simp

lemma dec_prefix: "ok x \<Longrightarrow> dec (enc x @ post) 0 = Inr (x, length (enc x))"
  using dec_enc [of x "[]"] by simp

lemma enc_inj: "ok x \<Longrightarrow> ok y \<Longrightarrow> enc x = enc y \<Longrightarrow> x = y"
  using dec_prefix [of x "[]"] dec_prefix [of y "[]"] by simp

text \<open>No encoding is a proper prefix of another one.\<close>

lemma enc_prefix_free: "ok x \<Longrightarrow> ok y \<Longrightarrow> enc y = enc x @ rest \<Longrightarrow> x = y \<and> rest = []"
  using dec_prefix [of x rest] dec_prefix [of y "[]"] by simp

lemma decode_list_enc:
  "list_all ok xs \<Longrightarrow> decode_list dec (length xs) (pre @ concat (map enc xs) @ post) (length pre) = Inr xs"
proof (induction xs arbitrary: pre)
  case (Cons x xs)
  from Cons.IH [of "pre @ enc x"] Cons.prems dec_at [of x _ pre] show ?case by simp
qed simp

end

section \<open>Numbers\<close>

definition le_bytes :: "nat \<Rightarrow> 'w::len word \<Rightarrow> u8 list" where
  "le_bytes k w = map (\<lambda>i. ucast (drop_bit (8 * i) w)) [0 ..< k]"

lemma length_le_bytes [simp]: "length (le_bytes k w) = k"
  by (simp add: le_bytes_def)

lemma array_at_mid: "i < length bs \<Longrightarrow> array_at (pre @ bs @ post) (length pre + i) = Inr (bs ! i)"
  by (simp add: array_at_def nth_append)

lemma array_at_le:
  "i < k \<Longrightarrow> array_at (pre @ le_bytes k w @ post) (length pre + i) = Inr (ucast (drop_bit (8 * i) w))"
  by (subst array_at_mid) (simp_all add: le_bytes_def)

text \<open>Adding the next byte to the lower bits.\<close>

lemma join_byte:
  "or (push_bit k (ucast (ucast (drop_bit k w) :: u8))) (take_bit k w) = take_bit (k + 8) (w :: 'w::len word)"
  by (rule bit_word_eqI) (auto simp: bit_simps)

text \<open>Reading the blocks below \<open>8 * n\<close>, in the order of the macros.\<close>

lemma read_blocks_le:
  fixes w :: "'w::len word"
  assumes "n \<le> k"
  shows "read_blocks (pre @ le_bytes k w @ post) (length pre + k) (map (\<lambda>i. (k - i, 8 * i)) (rev [0 ..< n])) =
    Inr (take_bit (8 * n) w)"
  using assms
proof (induction n)
  case (Suc n)
  have "length pre + k - (k - n) = length pre + n" using Suc.prems by simp
  moreover have "array_at (pre @ le_bytes k w @ post) (length pre + n) = Inr (ucast (drop_bit (8 * n) w))"
    using Suc.prems by (intro array_at_le) simp
  moreover have "8 * Suc n = 8 * n + 8" by simp
  ultimately show ?case using Suc by (simp only: upt_Suc_append rev_append) (simp add: join_byte)
qed simp

lemma full_word: "LENGTH('w::len) \<le> n \<Longrightarrow> take_bit n (w :: 'w word) = w"
  by (rule bit_word_eqI) (simp add: bit_take_bit_iff)

lemma read_u32: "READ_U32 (pre @ le_bytes 4 w @ post) (length pre) = Inr (w, length pre + 4)"
  using read_blocks_le [of 4 4 pre w post] by (simp add: READ_U32_def upt_rec full_word)

lemma read_i32: "READ_I32 (pre @ le_bytes 4 w @ post) (length pre) = Inr (w, length pre + 4)"
  using read_blocks_le [of 4 4 pre w post] by (simp add: READ_I32_def upt_rec full_word)

lemma read_u64: "READ_U64 (pre @ le_bytes 8 w @ post) (length pre) = Inr (w, length pre + 8)"
  using read_blocks_le [of 8 8 pre w post] by (simp add: READ_U64_def upt_rec full_word)

text \<open>\<open>READ_U16\<close> assembles the number in an \<open>int\<close>.\<close>

lemma read_u16: "READ_U16 (pre @ le_bytes 2 w @ post) (length pre) = Inr (w, length pre + 2)"
proof -
  have "le_bytes 2 (ucast w :: u32) = le_bytes 2 w"
    by (auto simp: le_bytes_def intro!: bit_word_eqI) (auto simp: bit_simps)
  moreover have "ucast (take_bit 16 (ucast w :: u32)) = w"
    by (rule bit_word_eqI) (auto simp: bit_simps)
  ultimately show ?thesis
    using read_blocks_le [of 2 2 pre "ucast w :: u32" post] by (simp add: READ_U16_def upt_rec)
qed

lemma host_number_le: "host_number (le_bytes k w) = take_bit (8 * k) (unat w)"
proof -
  have "host_number (map (\<lambda>i. ucast (drop_bit (8 * i) w)) [j ..< j + n]) = take_bit (8 * n) (drop_bit (8 * j) (unat w))" for j n
  proof (induction n arbitrary: j)
    case 0
    then show ?case by (simp add: host_number_def)
  next
    case (Suc n)
    have "[j ..< j + Suc n] = j # [Suc j ..< Suc j + n]" by (simp add: upt_rec)
    then have "host_number (map (\<lambda>i. ucast (drop_bit (8 * i) w)) [j ..< j + Suc n]) =
        unat (ucast (drop_bit (8 * j) w) :: u8) + 256 * take_bit (8 * n) (drop_bit (8 * Suc j) (unat w))"
      using Suc [of "Suc j"] by (simp add: host_number_def)
    also have "unat (ucast (drop_bit (8 * j) w) :: u8) = take_bit 8 (drop_bit (8 * j) (unat w))"
      by (simp add: unsigned_ucast_eq unat_drop_bit_eq)
    also have "take_bit 8 (drop_bit (8 * j) (unat w)) + 256 * take_bit (8 * n) (drop_bit (8 * Suc j) (unat w)) =
        take_bit (8 * Suc n) (drop_bit (8 * j) (unat w))"
    proof -
      let ?x = "drop_bit (8 * j) (unat w)"
      have "8 * Suc j = 8 * j + 8" by simp
      then have "drop_bit (8 * Suc j) (unat w) = ?x div 2 ^ 8"
        by (simp only: drop_bit_eq_div power_add div_mult2_eq)
      then show ?thesis
        using mod_mult2_eq [of ?x "2 ^ 8" "2 ^ (8 * n)"] by (simp add: take_bit_eq_mod power_add)
    qed
    finally show ?case .
  qed
  from this [of 0 k] show ?thesis by (simp add: le_bytes_def)
qed

lemma read_double: "READ_DOUBLE (pre @ le_bytes 8 w @ post) (length pre) = Inr (w, length pre + 8)"
proof -
  have "take_bit 64 (unat w) = unat w" using unsigned_less [of w, where 'a = nat] by (simp add: take_bit_nat_eq_self)
  then show ?thesis by (simp add: READ_DOUBLE_def bytes_at_def host_number_le)
qed

interpretation u16: byte_codec "le_bytes 2" READ_U16 "\<lambda>_. True"
  by unfold_locales (simp add: read_u16)

interpretation u32: byte_codec "le_bytes 4" READ_U32 "\<lambda>_. True"
  by unfold_locales (simp add: read_u32)

interpretation i32: byte_codec "le_bytes 4" READ_I32 "\<lambda>_. True"
  by unfold_locales (simp add: read_i32)

interpretation u64: byte_codec "le_bytes 8" READ_U64 "\<lambda>_. True"
  by unfold_locales (simp add: read_u64)

interpretation double: byte_codec "le_bytes 8" READ_DOUBLE "\<lambda>_. True"
  by unfold_locales (simp add: read_double)

section \<open>Instructions\<close>

definition opcode_byte :: "Opcode \<Rightarrow> u8" where
  "opcode_byte oc = word_of_nat (length (takeWhile (\<lambda>x. x \<noteq> oc) opcodes))"

fun enc_instruction :: "inst_ptr \<Rightarrow> u8 list" where
  "enc_instruction None = [0]"
| "enc_instruction (Some (Inst oc)) = [opcode_byte oc]"
| "enc_instruction (Some (InstInt32 oc n)) = opcode_byte oc # le_bytes 4 n"
| "enc_instruction (Some (InstDouble oc d)) = opcode_byte oc # le_bytes 8 d"
| "enc_instruction (Some (InstUInt16 oc n)) = opcode_byte oc # le_bytes 2 n"
| "enc_instruction (Some (Inst2UInt16 oc n m)) = opcode_byte oc # le_bytes 2 n @ le_bytes 2 m"

lemma opcode_of_opcode_byte: "opcode_of_byte (opcode_byte oc) = Some oc"
proof -
  let ?n = "length (takeWhile (\<lambda>x. x \<noteq> oc) opcodes)"
  have "?n < length opcodes"
    by (cases oc) (simp_all add: opcodes_def)
  moreover from this have "opcodes ! ?n = oc" using nth_length_takeWhile by fastforce
  moreover have "unat (word_of_nat ?n :: u8) = ?n"
    using \<open>?n < length opcodes\<close> by (simp add: length_opcodes unat_of_nat)
  ultimately show ?thesis by (simp add: opcode_of_byte_def opcode_byte_def)
qed

lemma load_step_byte:
  assumes "opcode_of_byte b = Some oc"
  shows "load_instruction (pre @ (b # bs) @ post) (length pre) =
    (if oc = OP_NOP then Inr (None, length pre + 1)
     else if oc = OP_LD_INT then andThen (READ_I32 ((pre @ [b]) @ bs @ post) (length (pre @ [b]))) (\<lambda>(x, p). Inr (Some (InstInt32 oc x), p))
     else if oc = OP_LD_DOUBLE then andThen (READ_DOUBLE ((pre @ [b]) @ bs @ post) (length (pre @ [b]))) (\<lambda>(x, p). Inr (Some (InstDouble oc x), p))
     else if oc \<in> set plain_opcodes then Inr (Some (Inst oc), length pre + 1)
     else if oc \<in> set u16_opcodes then andThen (READ_U16 ((pre @ [b]) @ bs @ post) (length (pre @ [b]))) (\<lambda>(x, p). Inr (Some (InstUInt16 oc x), p))
     else andThen (READ_U16 ((pre @ [b]) @ bs @ post) (length (pre @ [b]))) (\<lambda>(x, p).
       andThen (READ_U16 ((pre @ [b]) @ bs @ post) p) (\<lambda>(y, p'). Inr (Some (Inst2UInt16 oc x y), p'))))"
  using assms by (simp add: load_instruction_def array_at_def)

lemma opcode_groups:
  "OP_LD_INT \<notin> set plain_opcodes" "OP_LD_DOUBLE \<notin> set plain_opcodes" "OP_NOP \<notin> set plain_opcodes"
  "OP_NOP \<notin> set u16_opcodes" "OP_LD_INT \<notin> set u16_opcodes" "OP_LD_DOUBLE \<notin> set u16_opcodes"
  "OP_FUNC_DECL \<notin> set plain_opcodes" "OP_FUNC_DECL \<notin> set u16_opcodes"
  "oc \<in> set u16_opcodes \<Longrightarrow> oc \<notin> set plain_opcodes"
  by (auto simp: plain_opcodes_def u16_opcodes_def)

lemma load_enc_instruction:
  assumes "wf_inst p"
  shows "load_instruction (pre @ enc_instruction p @ post) (length pre) = Inr (p, length pre + length (enc_instruction p))"
proof (cases p)
  case None
  have "opcode_of_byte 0 = Some OP_NOP" by (simp add: opcode_of_byte_def opcodes_def)
  from load_step_byte [OF this, of pre "[]" post] None show ?thesis by simp
next
  case (Some i)
  note step = load_step_byte [OF opcode_of_opcode_byte]
  show ?thesis
  proof (cases i)
    case (Inst oc)
    then have "oc \<in> set plain_opcodes" using assms Some by (simp add: wf_inst_def)
    then have "oc \<noteq> OP_NOP" "oc \<noteq> OP_LD_INT" "oc \<noteq> OP_LD_DOUBLE" "oc \<in> set plain_opcodes"
      using opcode_groups by auto
    with Some Inst step [of pre oc "[]" post] show ?thesis by simp
  next
    case (InstInt32 oc n)
    then show ?thesis using assms Some step [of pre oc "le_bytes 4 n" post] read_i32 [of "pre @ [opcode_byte oc]" n post]
      by (simp add: wf_inst_def)
  next
    case (InstDouble oc d)
    then show ?thesis using assms Some step [of pre oc "le_bytes 8 d" post] read_double [of "pre @ [opcode_byte oc]" d post]
      by (simp add: wf_inst_def)
  next
    case (InstUInt16 oc n)
    then have oc: "oc \<in> set u16_opcodes" using assms Some by (simp add: wf_inst_def)
    then have "oc \<noteq> OP_NOP" "oc \<noteq> OP_LD_INT" "oc \<noteq> OP_LD_DOUBLE" "oc \<notin> set plain_opcodes"
      using opcode_groups by auto
    with oc Some InstUInt16 step [of pre oc "le_bytes 2 n" post] read_u16 [of "pre @ [opcode_byte oc]" n post]
    show ?thesis by simp
  next
    case (Inst2UInt16 oc n m)
    then have oc: "oc = OP_FUNC_DECL" using assms Some by (simp add: wf_inst_def)
    have "READ_U16 ((pre @ [opcode_byte oc]) @ (le_bytes 2 n @ le_bytes 2 m) @ post) (length (pre @ [opcode_byte oc])) =
        Inr (n, length (pre @ [opcode_byte oc]) + 2)"
      using read_u16 [of "pre @ [opcode_byte oc]" n "le_bytes 2 m @ post"] by simp
    moreover have "READ_U16 ((pre @ [opcode_byte oc]) @ (le_bytes 2 n @ le_bytes 2 m) @ post) (length (pre @ [opcode_byte oc]) + 2) =
        Inr (m, length (pre @ [opcode_byte oc]) + 4)"
      using read_u16 [of "pre @ [opcode_byte oc] @ le_bytes 2 n" m post] by (simp add: numeral_3_eq_3)
    ultimately show ?thesis
      using oc Some Inst2UInt16 step [of pre oc "le_bytes 2 n @ le_bytes 2 m" post] opcode_groups by simp
  qed
qed

interpretation instruction: byte_codec enc_instruction load_instruction wf_inst
  by unfold_locales (rule load_enc_instruction)

lemma load_instructions_eq: "load_instructions n buff p = decode_list load_instruction n buff p"
  by (induction n arbitrary: p) (auto intro!: andThen_cong)

end
