(* ===== verification/Atomix_Loader_Laws.thy ===== *)
theory Atomix_Loader_Laws
  imports Atomix_Codec_Laws
begin

text \<open>
  Round trips of whole files: string tables, modules and bundles written with the encoders of
  \<open>Atomix_Codec_Laws\<close> in the layout of the compiler (header, string table, data section) and
  read back by the loader; and where the loader does not read back what was written, a bundle
  of more than one module.
\<close>

section \<open>String tables\<close>

text \<open>The offset of string \<open>i\<close> is the total length of the strings before it.\<close>

definition string_offsets :: "u8 list list \<Rightarrow> u32 list" where
  "string_offsets ss = map (\<lambda>i. word_of_nat (length (concat (take i ss)))) [0 ..< length ss]"

definition table_size :: "u8 list list \<Rightarrow> nat" where
  "table_size ss = 8 + 4 * length ss + length (concat ss)"

definition enc_string_table :: "u8 list list \<Rightarrow> u8 list" where
  "enc_string_table ss =
     le_bytes 4 (word_of_nat (table_size ss) :: u32) @ le_bytes 4 (word_of_nat (length ss) :: u32) @
     concat (map (le_bytes 4) (string_offsets ss)) @ concat ss"

definition table_of :: "u8 list list \<Rightarrow> StringTable" where
  "table_of ss = \<lparr>st_length = word_of_nat (table_size ss), st_count = word_of_nat (length ss),
     st_offsets = string_offsets ss, st_strings = concat ss\<rparr>"

lemma length_offsets [simp]: "length (string_offsets ss) = length ss"
  by (simp add: string_offsets_def)

lemma length_concat_le [simp]: "length (concat (map (le_bytes k) ws)) = k * length ws"
  by (induction ws) simp_all

lemma length_enc_table: "length (enc_string_table ss) = table_size ss"
  by (simp add: enc_string_table_def table_size_def)

lemma host_u32s_le: "host_u32s (length ws) (concat (map (le_bytes 4) ws)) = ws"
proof (induction ws)
  case (Cons w ws)
  have "take_bit 32 (unat w) = unat w" using unsigned_less [of w, where 'a = nat] by (simp add: take_bit_nat_eq_self)
  then show ?case using Cons by (simp add: host_number_le)
qed simp

lemma unat_small: "n < 2 ^ 32 \<Longrightarrow> unat (word_of_nat n :: u32) = n"
  by (simp add: unat_of_nat)

lemma load_enc_table:
  assumes "table_size ss < 2 ^ 32"
  shows "load_string_table (pre @ enc_string_table ss @ post) (length pre) = Inr (table_of ss)"
proof -
  let ?len = "word_of_nat (table_size ss) :: u32" and ?n = "word_of_nat (length ss) :: u32"
  let ?offs = "concat (map (le_bytes 4) (string_offsets ss))"
  let ?buff = "pre @ enc_string_table ss @ post"
  have "length ss < 2 ^ 32" using assms by (simp add: table_size_def)
  then have n: "unat ?n = length ss" "unat ?len = table_size ss" using assms by (simp_all only: unat_small)
  have r1: "READ_U32 ?buff (length pre) = Inr (?len, length pre + 4)"
    using u32.dec_at [of ?buff pre ?len] by (simp add: enc_string_table_def)
  have r2: "READ_U32 ?buff (length pre + 4) = Inr (?n, length pre + 4 + 4)"
    using u32.dec_at [of ?buff "pre @ le_bytes 4 ?len" ?n] by (simp add: enc_string_table_def)
  have buff: "?buff = (pre @ le_bytes 4 ?len @ le_bytes 4 ?n) @ ?offs @ concat ss @ post"
    by (simp add: enc_string_table_def)
  have p: "length pre + 4 + 4 = length (pre @ le_bytes 4 ?len @ le_bytes 4 ?n)" by simp
  have r3: "bytes_at ?buff (length pre + 4 + 4) (length ss * 4) = Inr ?offs"
    unfolding buff p by (simp add: bytes_at_def)
  have r4: "bytes_at ?buff (length pre + 4 + 4 + length ss * 4) (length (concat ss)) = Inr (concat ss)"
    unfolding buff p by (simp add: bytes_at_def)
  have "host_u32s (length ss) ?offs = string_offsets ss" using host_u32s_le [of "string_offsets ss"] by simp
  moreover have guard: "\<not> table_size ss < length ss * 4 + 8" and rest: "table_size ss - length ss * 4 - 8 = length (concat ss)"
    by (simp_all add: table_size_def)
  ultimately show ?thesis
    unfolding load_string_table_def r1 andThen_Inr prod.case r2 n r3 if_not_P [OF guard] rest r4 table_of_def by simp
qed

lemma concat_take_nth: "i < length ss \<Longrightarrow> concat ss = concat (take i ss) @ ss ! i @ concat (drop (Suc i) ss)"
  by (metis concat.simps(2) concat_append id_take_nth_drop)

lemma load_str_table:
  assumes "table_size ss < 2 ^ 32" "i < length ss"
  shows "string_table_load_str (table_of ss) (word_of_nat i) = Inr (c_string (ss ! i))"
proof -
  let ?off = "\<lambda>i. length (concat (take i ss))"
  have split: "concat ss = concat (take i ss) @ ss ! i @ concat (drop (Suc i) ss)" by (rule concat_take_nth [OF assms(2)])
  have next_off: "?off (Suc i) = ?off i + length (ss ! i)" using assms(2) by (simp add: take_Suc_conv_app_nth)
  have small: "length (concat ss) < 2 ^ 32" "length ss < 2 ^ 32" "i < 2 ^ 32" "Suc i < 2 ^ 32 \<or> Suc i = length ss"
    using assms by (auto simp: table_size_def)
  have le: "?off i + length (ss ! i) \<le> length (concat ss)" using arg_cong [OF split, of length] by simp
  have unat: "unat (word_of_nat (?off i) :: u32) = ?off i" using le small(1) by (intro unat_small) simp
  have idx: "unat (word_of_nat i :: u32) = i" using small(3) by (rule unat_small)
  have in_range: "\<not> (word_of_nat (length ss) :: u32) \<le> word_of_nat i"
    using assms(2) small by (simp add: word_le_nat_alt unat_small)
  have offset: "array_at (string_offsets ss) i = Inr (word_of_nat (?off i))"
    using assms(2) by (simp add: array_at_def string_offsets_def)
  have len: "(if word_of_nat i = (word_of_nat (length ss) - 1 :: u32)
      then Inr (word_of_nat (table_size ss) - (word_of_nat (?off i) + 2 * 4 + word_of_nat (length ss) * 4))
      else andThen (array_at (string_offsets ss) (unat (word_of_nat i + 1 :: u32))) (\<lambda>next. Inr (next - word_of_nat (?off i)))) =
    Inr (word_of_nat (length (ss ! i)) :: u32)"
  proof (cases "Suc i = length ss")
    case True
    then have "(word_of_nat (length ss) :: u32) - 1 = word_of_nat i" by (metis add_diff_cancel_left' of_nat_Suc)
    moreover have "table_size ss = length (ss ! i) + (?off i + 2 * 4 + length ss * 4)"
      using arg_cong [OF split, of length] True by (simp add: table_size_def)
    ultimately show ?thesis by simp
  next
    case False
    then have "Suc i < length ss" "Suc i < 2 ^ 32" using assms(2) small by auto
    moreover have "(word_of_nat i :: u32) \<noteq> word_of_nat (length ss) - 1"
    proof
      assume "(word_of_nat i :: u32) = word_of_nat (length ss) - 1"
      then have "(word_of_nat (Suc i) :: u32) = word_of_nat (length ss)" by simp
      then have "unat (word_of_nat (Suc i) :: u32) = unat (word_of_nat (length ss) :: u32)" by (rule arg_cong)
      then show False using False unat_small [OF \<open>Suc i < 2 ^ 32\<close>] unat_small [OF small(2)] by simp
    qed
    moreover have "unat (word_of_nat i + 1 :: u32) = Suc i"
      using unat_small [OF \<open>Suc i < 2 ^ 32\<close>] by (simp add: add.commute)
    ultimately show ?thesis by (simp add: array_at_def string_offsets_def next_off)
  qed
  have ulen: "unat (word_of_nat (length (ss ! i)) :: u32) = length (ss ! i)"
    using le small(1) by (intro unat_small) simp
  have bytes: "bytes_at (concat ss) (?off i) (length (ss ! i)) = Inr (ss ! i)"
    unfolding bytes_at_def using le by (subst (2) split) simp
  show ?thesis
    using in_range unfolding string_table_load_str_def table_of_def StringTable.simps idx
    by (simp only: if_False offset andThen_Inr len ulen unat bytes)
qed

section \<open>Modules\<close>

definition enc_data_section :: "inst_ptr list \<Rightarrow> u8 list" where
  "enc_data_section code =
     (let body = concat (map enc_instruction code)
      in le_bytes 4 (word_of_nat (8 + length body) :: u32) @ le_bytes 4 (word_of_nat (length code) :: u32) @ body)"

definition data_of :: "inst_ptr list \<Rightarrow> DataSection" where
  "data_of code = \<lparr>ds_length = word_of_nat (8 + length (concat (map enc_instruction code))),
     ds_count = word_of_nat (length code), instructions = code\<rparr>"

text \<open>The header is 22 bytes; the string table follows it, then the data section.\<close>

definition enc_header :: "u64 \<Rightarrow> u8 list list \<Rightarrow> u8 list" where
  "enc_header h ss =
     MODULE_MAGIC @ le_bytes 2 MODULE_VERSION @ le_bytes 8 h @ le_bytes 4 (22 :: u32) @
     le_bytes 4 (word_of_nat (22 + table_size ss) :: u32)"

definition enc_module :: "u64 \<Rightarrow> u8 list list \<Rightarrow> inst_ptr list \<Rightarrow> u8 list" where
  "enc_module h ss code = enc_header h ss @ enc_string_table ss @ enc_data_section code"

definition loadable :: "u8 list list \<Rightarrow> inst_ptr list \<Rightarrow> bool" where
  "loadable ss code \<longleftrightarrow> list_all wf_inst code \<and> table_size ss < 2 ^ 30 \<and> length code < 2 ^ 32"

lemma length_header [simp]: "length (enc_header h ss) = 22"
  by (simp add: enc_header_def MODULE_MAGIC_def)

lemma load_enc_data:
  assumes "list_all wf_inst code" "length code < 2 ^ 32"
  shows "load_data_section (pre @ enc_data_section code @ post) (length pre) = Inr (data_of code)"
proof -
  let ?body = "concat (map enc_instruction code)"
  let ?len = "word_of_nat (8 + length ?body) :: u32" and ?n = "word_of_nat (length code) :: u32"
  let ?buff = "pre @ enc_data_section code @ post"
  have buff: "?buff = pre @ le_bytes 4 ?len @ le_bytes 4 ?n @ ?body @ post"
    by (simp add: enc_data_section_def Let_def)
  have r1: "READ_U32 ?buff (length pre) = Inr (?len, length pre + 4)"
    using u32.dec_at [of ?buff pre ?len] by (simp add: buff)
  have r2: "READ_U32 ?buff (length pre + 4) = Inr (?n, length pre + 4 + 4)"
    using u32.dec_at [of ?buff "pre @ le_bytes 4 ?len" ?n] by (simp add: buff)
  have p: "length pre + 4 + 4 = length (pre @ le_bytes 4 ?len @ le_bytes 4 ?n)" by simp
  have b: "?buff = (pre @ le_bytes 4 ?len @ le_bytes 4 ?n) @ ?body @ post" by (simp add: buff)
  have r3: "load_instructions (length code) ?buff (length pre + 4 + 4) = Inr code"
    unfolding p b load_instructions_eq by (rule instruction.decode_list_enc [OF assms(1)])
  show ?thesis
    unfolding load_data_section_def r1 andThen_Inr prod.case r2 unat_small [OF assms(2)] r3 by (simp add: data_of_def)
qed

text \<open>The heap after a module was loaded into the block \<open>m\<close>: the module, and its new scope and
  exports object.\<close>

definition loaded_module :: "u64 \<Rightarrow> u8 list list \<Rightarrow> inst_ptr list \<Rightarrow> JSModule \<Rightarrow> bool" where
  "loaded_module h ss code md \<longleftrightarrow>
     hash md = h \<and> string_table md = table_of ss \<and> data_section md = data_of code \<and> \<not> initialized md"

lemma load_enc_module:
  fixes s :: "'a heap_scheme"
  assumes "loadable ss code" "buff = pre @ enc_module h ss code @ post"
  shows "\<exists>md s1. module_load_from_buffer_offset buff m (length pre) s = Inr (length pre + 22, s1) \<and>
    h_modules s1 = (h_modules s)[m := md] \<and> loaded_module h ss code md \<and> h_bundles s1 = h_bundles s"
proof -
  let ?ds = "word_of_nat (22 + table_size ss) :: u32"
  have buff: "buff = pre @ MODULE_MAGIC @ le_bytes 2 MODULE_VERSION @ le_bytes 8 h @ le_bytes 4 (22 :: u32) @
      le_bytes 4 ?ds @ enc_string_table ss @ enc_data_section code @ post"
    using assms(2) by (simp add: enc_module_def enc_header_def)
  have m4: "length MODULE_MAGIC = 4" by (simp add: MODULE_MAGIC_def)
  have r0: "bytes_at buff (length pre) 4 = Inr MODULE_MAGIC"
    unfolding buff by (simp add: bytes_at_def m4)
  have r1: "READ_U16 buff (length pre + 4) = Inr (MODULE_VERSION, length pre + 6)"
    using u16.dec_at [of buff "pre @ MODULE_MAGIC" MODULE_VERSION] by (simp add: buff m4)
  have r2: "READ_U64 buff (length pre + 6) = Inr (h, length pre + 14)"
    using u64.dec_at [of buff "pre @ MODULE_MAGIC @ le_bytes 2 MODULE_VERSION" h] by (simp add: buff m4)
  have r3: "READ_U32 buff (length pre + 14) = Inr (22, length pre + 18)"
    using u32.dec_at [of buff "pre @ MODULE_MAGIC @ le_bytes 2 MODULE_VERSION @ le_bytes 8 h" 22]
    by (simp add: buff m4)
  have r4: "READ_U32 buff (length pre + 18) = Inr (?ds, length pre + 22)"
    using u32.dec_at [of buff "pre @ MODULE_MAGIC @ le_bytes 2 MODULE_VERSION @ le_bytes 8 h @ le_bytes 4 (22 :: u32)" ?ds]
    by (simp add: buff m4)
  have buff': "buff = (pre @ enc_header h ss) @ enc_string_table ss @ enc_data_section code @ post"
    by (simp add: buff enc_header_def)
  have size: "table_size ss < 2 ^ 32" "22 + table_size ss < 2 ^ 32" using assms(1) by (simp_all add: loadable_def)
  have p5: "unat (22 :: u32) + length pre = length (pre @ enc_header h ss)" by simp
  have r5: "load_string_table buff (unat (22 :: u32) + length pre) = Inr (table_of ss)"
    unfolding p5 unfolding buff' by (rule load_enc_table [OF size(1)])
  have "load_data_section buff (length (pre @ enc_header h ss @ enc_string_table ss)) = Inr (data_of code)"
    using load_enc_data [of code "pre @ enc_header h ss @ enc_string_table ss" post] assms(1)
    by (simp add: buff' loadable_def)
  then have r6: "load_data_section buff (unat ?ds + length pre) = Inr (data_of code)"
    unfolding unat_small [OF size(2)] by (simp add: length_enc_table add.commute add.left_commute)
  obtain op s1 where p: "object_get_object_prototype s = (op, s1)" by fastforce
  have s1: "h_modules s1 = h_modules s" "h_bundles s1 = h_bundles s"
    using p by (auto simp: object_get_object_prototype_def object_create_object_def object_set_prototype_def split: option.splits)
  show ?thesis
    unfolding module_load_from_buffer_offset_def r0 andThen_Inr guard_True refl r1 prod.case r2 r3 r4 r5 r6 p
    by (auto simp: object_create_object_def scope_create_scope_def s1 loaded_module_def)
qed

text \<open>A sequence of well-formed instructions, written in the format of the compiler anywhere in
  a buffer, is read back by the loader exactly.\<close>

theorem code_round_trip:
  assumes "list_all wf_inst code"
  shows "load_instructions (length code) (pre @ concat (map enc_instruction code) @ post) (length pre) = Inr code"
  unfolding load_instructions_eq by (rule instruction.decode_list_enc [OF assms])

theorem code_round_trip_witness:
  "load_instructions 3
     ([7] @ concat (map enc_instruction [None, Some (InstInt32 OP_LD_INT 258), Some (Inst OP_ADD)]) @ [9]) 1 =
   Inr [None, Some (InstInt32 OP_LD_INT 258), Some (Inst OP_ADD)]"
  using code_round_trip [of "[None, Some (InstInt32 OP_LD_INT 258), Some (Inst OP_ADD)]" "[7]" "[9]"]
  by (simp add: wf_inst_def plain_opcodes_def numeral_3_eq_3)

text \<open>C16: A module file written in the layout of the compiler loads, whatever follows it in the
  buffer: the module struct holds its hash and its instructions, it is not initialised, and
  every string of its table is looked up as it was written, up to a null byte.\<close>

theorem module_round_trip:
  assumes "loadable ss code" "m < length (h_modules s)"
  shows "\<exists>s1. module_load_from_buffer (enc_module h ss code @ post) m s = Inr s1 \<and>
    hash (h_modules s1 ! m) = h \<and> \<not> initialized (h_modules s1 ! m) \<and>
    instructions (data_section (h_modules s1 ! m)) = code \<and>
    map (\<lambda>i. string_table_load_str (string_table (h_modules s1 ! m)) (word_of_nat i)) [0 ..< length ss] =
      map (\<lambda>bs. Inr (c_string bs)) ss"
proof -
  have "enc_module h ss code @ post = [] @ enc_module h ss code @ post" by simp
  from load_enc_module [OF assms(1) this, of m s] obtain md s1
    where r: "module_load_from_buffer_offset (enc_module h ss code @ post) m 0 s = Inr (22, s1)"
      and m: "h_modules s1 = (h_modules s)[m := md]" "loaded_module h ss code md" by auto
  have "table_size ss < 2 ^ 32" using assms(1) by (simp add: loadable_def)
  then have "map (\<lambda>i. string_table_load_str (table_of ss) (word_of_nat i)) [0 ..< length ss] =
      map (\<lambda>bs. Inr (c_string bs)) ss"
    by (intro nth_equalityI) (simp_all add: load_str_table)
  then show ?thesis
    using r m assms(2) by (simp add: module_load_from_buffer_def loaded_module_def data_of_def)
qed

definition demo_strings :: "u8 list list" where
  "demo_strings = [[97, 98], [], [99, 0, 100]]"

lemma demo_loadable: "loadable demo_strings [None, Some (Inst OP_RETURN)]"
  by (simp add: loadable_def demo_strings_def wf_inst_def plain_opcodes_def table_size_def)

lemma demo_strings_read:
  "length demo_strings = 3"
  "map (\<lambda>bs. Inr (c_string bs) :: string res) demo_strings = [Inr ''ab'', Inr '''', Inr ''c'']"
  by (simp_all add: demo_strings_def c_string_def char_of_def bit_0)

theorem module_round_trip_witness:
  "\<exists>s1. module_load_from_buffer (enc_module 5 demo_strings [None, Some (Inst OP_RETURN)] @ [1]) 0
      (demo_vm [] []) = Inr s1 \<and>
    hash (h_modules s1 ! 0) = 5 \<and> \<not> initialized (h_modules s1 ! 0) \<and>
    instructions (data_section (h_modules s1 ! 0)) = [None, Some (Inst OP_RETURN)] \<and>
    map (\<lambda>i. string_table_load_str (string_table (h_modules s1 ! 0)) (word_of_nat i)) [0 ..< 3] =
      [Inr ''ab'', Inr '''', Inr ''c'']"
  using module_round_trip [OF demo_loadable, of 0 "demo_vm [] []" 5 "[1]"] by (simp only: demo_strings_read) simp

section \<open>Bundles\<close>

text \<open>The layout the compiler writes: the header, then the modules one after the other.\<close>

definition enc_modules :: "(u64 \<times> u8 list list \<times> inst_ptr list) list \<Rightarrow> u8 list" where
  "enc_modules mods = concat (map (\<lambda>(h, ss, code). enc_module h ss code) mods)"

definition enc_bundle :: "u64 \<Rightarrow> (u64 \<times> u8 list list \<times> inst_ptr list) list \<Rightarrow> u8 list" where
  "enc_bundle entry mods =
     BUNDLE_MAGIC @ le_bytes 2 BUNDLE_VERSION @ le_bytes 8 entry @ le_bytes 2 (word_of_nat (length mods) :: u16) @
     enc_modules mods"

lemma bundle_header:
  fixes s :: "'a heap_scheme"
  assumes "length mods < 2 ^ 16"
  shows "bundle_load_from_buffer (enc_bundle entry mods @ post) b s =
    load_bundle_modules (enc_bundle entry mods @ post) b [length (h_modules s) ..< length (h_modules s) + length mods] 16
      (s\<lparr>h_modules := h_modules s @ replicate (length mods) zero_module,
         h_bundles := (h_bundles s)[b := \<lparr>bundle_magic = BUNDLE_MAGIC, bundle_version = BUNDLE_VERSION, entryPoint = entry,
            moduleCount = word_of_nat (length mods),
            bundle_modules = [length (h_modules s) ..< length (h_modules s) + length mods]\<rparr>]\<rparr>)"
proof -
  let ?buff = "enc_bundle entry mods @ post" and ?n = "word_of_nat (length mods) :: u16"
  have m4: "length BUNDLE_MAGIC = 4" by (simp add: BUNDLE_MAGIC_def)
  have buff: "?buff = BUNDLE_MAGIC @ le_bytes 2 BUNDLE_VERSION @ le_bytes 8 entry @ le_bytes 2 ?n @ enc_modules mods @ post"
    by (simp add: enc_bundle_def)
  have r0: "bytes_at ?buff 0 4 = Inr BUNDLE_MAGIC" unfolding buff by (simp add: bytes_at_def m4)
  have r1: "READ_U16 ?buff 4 = Inr (BUNDLE_VERSION, 6)"
    using u16.dec_at [of ?buff BUNDLE_MAGIC BUNDLE_VERSION] by (simp add: buff m4)
  have r2: "READ_U64 ?buff 6 = Inr (entry, 14)"
    using u64.dec_at [of ?buff "BUNDLE_MAGIC @ le_bytes 2 BUNDLE_VERSION" entry] by (simp add: buff m4)
  have r3: "READ_U16 ?buff 14 = Inr (?n, 16)"
    using u16.dec_at [of ?buff "BUNDLE_MAGIC @ le_bytes 2 BUNDLE_VERSION @ le_bytes 8 entry" ?n] by (simp add: buff m4)
  have n: "unat ?n = length mods" using assms by (simp add: unat_of_nat)
  show ?thesis
    unfolding bundle_load_from_buffer_def r0 andThen_Inr guard_True refl r1 prod.case r2 r3 n Let_def by simp
qed

lemma bundle_first:
  assumes "loadable ss code" "buff = enc_bundle entry ((h, ss, code) # mods) @ post"
  shows "\<exists>md s1. module_load_from_buffer_offset buff m 16 s = Inr (38, s1) \<and>
    h_modules s1 = (h_modules s)[m := md] \<and> loaded_module h ss code md \<and> h_bundles s1 = h_bundles s"
proof -
  let ?pre = "BUNDLE_MAGIC @ le_bytes 2 BUNDLE_VERSION @ le_bytes 8 entry @
    le_bytes 2 (word_of_nat (length ((h, ss, code) # mods)) :: u16)"
  have "buff = ?pre @ enc_module h ss code @ enc_modules mods @ post"
    unfolding assms(2) enc_bundle_def enc_modules_def by simp
  from load_enc_module [OF assms(1) this, of m s] show ?thesis by (simp add: BUNDLE_MAGIC_def)
qed

lemma magic_is: "MODULE_MAGIC = le_bytes 4 (0x4D78412E :: u32)"
  by (simp add: MODULE_MAGIC_def le_bytes_def upt_conv_Cons)

text \<open>A bundle of one module loads: the bundle struct names the new module, which points back
  to the bundle and holds the hash, strings and instructions that were written.\<close>

theorem single_module_bundle_loads:
  assumes "loadable ss code" "b < length (h_bundles s)"
  shows "\<exists>s1. bundle_load_from_buffer (enc_bundle entry [(h, ss, code)] @ post) b s = Inr s1 \<and>
    entryPoint (h_bundles s1 ! b) = entry \<and> moduleCount (h_bundles s1 ! b) = 1 \<and>
    bundle_modules (h_bundles s1 ! b) = [length (h_modules s)] \<and>
    loaded_module h ss code (h_modules s1 ! length (h_modules s)) \<and>
    module_bundle (h_modules s1 ! length (h_modules s)) = Some b"
proof -
  let ?bun = "\<lparr>bundle_magic = BUNDLE_MAGIC, bundle_version = BUNDLE_VERSION, entryPoint = entry,
    moduleCount = 1, bundle_modules = [length (h_modules s)]\<rparr>"
  let ?s = "s\<lparr>h_modules := h_modules s @ [zero_module], h_bundles := (h_bundles s)[b := ?bun]\<rparr>"
  obtain md s1 where r: "module_load_from_buffer_offset (enc_bundle entry [(h, ss, code)] @ post) (length (h_modules s)) 16 ?s = Inr (38, s1)"
    and m: "h_modules s1 = h_modules s @ [md]" "loaded_module h ss code md" "h_bundles s1 = (h_bundles s)[b := ?bun]"
    using bundle_first [OF assms(1) refl, of entry h "[]" post "length (h_modules s)" ?s] by auto
  have "bundle_load_from_buffer (enc_bundle entry [(h, ss, code)] @ post) b s =
      Inr (set_module_bundle b (length (h_modules s)) s1)"
    using bundle_header [of "[(h, ss, code)]" entry post b s] r by simp
  moreover have "loaded_module h ss code (md\<lparr>module_bundle := Some b\<rparr>)"
    using m(2) by (simp add: loaded_module_def)
  ultimately show ?thesis using m assms(2) by (simp add: set_module_bundle_def)
qed

theorem single_module_bundle_loads_witness:
  "\<exists>s1. bundle_load_from_buffer (enc_bundle 5 [(5, demo_strings, [None, Some (Inst OP_RETURN)])] @ []) 0 (demo_bundle []) = Inr s1 \<and>
    entryPoint (h_bundles s1 ! 0) = 5 \<and> moduleCount (h_bundles s1 ! 0) = 1 \<and>
    bundle_modules (h_bundles s1 ! 0) = [0] \<and>
    loaded_module 5 demo_strings [None, Some (Inst OP_RETURN)] (h_modules s1 ! 0) \<and>
    module_bundle (h_modules s1 ! 0) = Some 0"
  using single_module_bundle_loads [OF demo_loadable, of 0 "demo_bundle []" 5 5 "[]"]
  by (simp add: demo_bundle_def)

text \<open>A bundle of two or more modules, written in the layout of the compiler, never loads: the
  position returned for a module lies right behind its header and not behind its last
  instruction, so the second module is looked for inside the first, at the length of its
  string table, and the magic number check panics.\<close>

theorem larger_bundle_panics:
  assumes "2 \<le> length mods" "length mods < 2 ^ 16" "list_all (\<lambda>(h, ss, code). loadable ss code) mods"
  shows "bundle_load_from_buffer (enc_bundle entry mods @ post) b s = Inl (Panic ''Invalid magic number'')"
proof -
  obtain h ss code m2 rest where mods: "mods = (h, ss, code) # m2 # rest"
    using assms(1) by (cases mods rule: remdups_adj.cases) auto
  have ok: "loadable ss code" using assms(3) mods by simp
  let ?buff = "enc_bundle entry mods @ post" and ?len = "word_of_nat (table_size ss) :: u32"
  let ?pre = "BUNDLE_MAGIC @ le_bytes 2 BUNDLE_VERSION @ le_bytes 8 entry @
    le_bytes 2 (word_of_nat (length mods) :: u16) @ enc_header h ss"
  have pre: "length ?pre = 38" by (simp add: BUNDLE_MAGIC_def)
  obtain tail where "?buff = ?pre @ le_bytes 4 ?len @ tail"
    unfolding enc_bundle_def enc_modules_def enc_module_def enc_string_table_def mods by simp
  then have "bytes_at ?buff 38 4 = Inr (le_bytes 4 ?len)"
    using pre by (simp add: bytes_at_def)
  moreover have "le_bytes 4 ?len \<noteq> MODULE_MAGIC"
  proof
    assume "le_bytes 4 ?len = MODULE_MAGIC"
    then have "?len = 0x4D78412E" unfolding magic_is using u32.enc_inj by blast
    then have "table_size ss = 0x4D78412E"
      using ok unat_small [of "table_size ss"] by (simp add: loadable_def)
    then show False using ok by (simp add: loadable_def)
  qed
  ultimately have bad: "module_load_from_buffer_offset ?buff m 38 t = Inl (Panic ''Invalid magic number'')"
    for m and t :: "'a heap_scheme" by (simp add: module_load_from_buffer_offset_def guard_def)
  let ?n = "length (h_modules s)"
  have addresses: "[?n ..< ?n + length mods] = ?n # Suc ?n # [Suc (Suc ?n) ..< ?n + length mods]"
    using assms(1) by (simp only: upt_conv_Cons [of ?n] upt_conv_Cons [of "Suc ?n"])
  have first: "\<exists>t'. module_load_from_buffer_offset ?buff ?n 16 t = Inr (38, t')" for t :: "'a heap_scheme"
    using bundle_first [OF ok, of ?buff entry h "m2 # rest" post ?n t] by (auto simp only: mods)
  have "load_bundle_modules ?buff b (?n # Suc ?n # ms) 16 t = Inl (Panic ''Invalid magic number'')"
    for ms and t :: "'a heap_scheme"
    using first [of t] by (auto simp only: load_bundle_modules.simps andThen_Inr andThen_Inl bad prod.case)
  then show ?thesis unfolding bundle_header [OF assms(2)] addresses .
qed

theorem larger_bundle_panics_witness:
  "bundle_load_from_buffer (enc_bundle 5 [(5, demo_strings, [None, Some (Inst OP_RETURN)]),
      (6, demo_strings, [None, Some (Inst OP_RETURN)])] @ []) 0 (demo_bundle []) =
   Inl (Panic ''Invalid magic number'')"
  by (rule larger_bundle_panics) (simp_all add: demo_loadable)

end
