(* ===== verification/Atomix_GC_State.thy ===== *)
theory Atomix_GC_State
  imports Atomix_Prelude
begin

unbundle bit_operations_syntax

text \<open>
  The state of the collector in \<open>bdwgc\<close> that the models of its block allocator, header map,
  black lists and sweep share (\<open>private/gc_priv.h\<close>, \<open>private/gc_hdrs.h\<close>), in the configuration
  the README names: one thread, no configuration macro, a 64-bit target. So a header map hashed at
  the top level, mark bits per granule kept in words, no unmapping of free blocks, no disclaim
  procedures, and assertions compiled out.

  Addresses are 64-bit words with 0 for NULL, and \<open>struct hblk *\<close> arithmetic is in units of
  \<open>HBLKSIZE\<close> bytes. The structs the collector allocates for itself (headers and bottom
  indices) live in lists: a bottom index is named by its position, a header by its position
  above \<open>MAX_JUMP\<close>, so that the test that tells a header from a forwarding count is the one of the
  code. \<open>GC_scratch_alloc\<close>, which gets the memory of these structs from the system, is the list
  of its future answers: \<open>False\<close>, or the end of the list, is NULL.
\<close>

section \<open>Constants\<close>

abbreviation HBLKSIZE :: u64 where "HBLKSIZE \<equiv> 4096"
abbreviation MAXOBJBYTES :: u64 where "MAXOBJBYTES \<equiv> 2048"
abbreviation MAX_JUMP :: u64 where "MAX_JUMP \<equiv> 4095"

definition divHBLKSZ :: "u64 \<Rightarrow> u64" where
  "divHBLKSZ n = drop_bit 12 n"

definition SIZET_SAT_ADD :: "u64 \<Rightarrow> u64 \<Rightarrow> u64" where
  "SIZET_SAT_ADD a b = (if a < - 1 - b then a + b else - 1)"

definition OBJ_SZ_TO_BLOCKS :: "u64 \<Rightarrow> u64" where
  "OBJ_SZ_TO_BLOCKS lb = divHBLKSZ (lb + HBLKSIZE - 1)"

definition OBJ_SZ_TO_BLOCKS_CHECKED :: "u64 \<Rightarrow> u64" where
  "OBJ_SZ_TO_BLOCKS_CHECKED lb = divHBLKSZ (SIZET_SAT_ADD lb (HBLKSIZE - 1))"

definition BYTES_TO_GRANULES :: "u64 \<Rightarrow> u64" where
  "BYTES_TO_GRANULES n = drop_bit 4 n"

definition GRANULES_TO_BYTES :: "u64 \<Rightarrow> u64" where
  "GRANULES_TO_BYTES n = push_bit 4 n"

definition GRANULES_TO_WORDS :: "u64 \<Rightarrow> u64" where
  "GRANULES_TO_WORDS n = push_bit 1 n"

definition HBLKPTR :: "u64 \<Rightarrow> u64" where
  "HBLKPTR p = p AND NOT (HBLKSIZE - 1)"

definition PTRFREE :: u8 where "PTRFREE = 0"

definition IS_UNCOLLECTABLE :: "u8 \<Rightarrow> bool" where
  "IS_UNCOLLECTABLE k \<longleftrightarrow> k = 2"

definition IGNORE_OFF_PAGE :: u8 where "IGNORE_OFF_PAGE = 1"
definition FREE_BLK :: u8 where "FREE_BLK = 4"
definition LARGE_BLOCK :: u8 where "LARGE_BLOCK = 0x20"

section \<open>Structs\<close>

text \<open>\<open>hb_map\<close> points to a table that is never changed once it is made, so it is the table itself.\<close>

record hdr =
  hb_next :: u64
  hb_prev :: u64
  hb_block :: u64
  hb_obj_kind :: u8
  hb_flags :: u8
  hb_last_reclaimed :: u16
  hb_sz :: u64
  hb_descr :: u64
  hb_map :: "u16 list option"
  hb_n_marks :: u64
  hb_marks :: "u64 list"

definition HBLK_IS_FREE :: "hdr \<Rightarrow> bool" where
  "HBLK_IS_FREE h \<longleftrightarrow> hb_flags h AND FREE_BLK \<noteq> 0"

definition IS_FORWARDING_ADDR_OR_NIL :: "u64 \<Rightarrow> bool" where
  "IS_FORWARDING_ADDR_OR_NIL e \<longleftrightarrow> e \<le> MAX_JUMP"

definition FORWARDED_ADDR :: "u64 \<Rightarrow> u64 \<Rightarrow> u64" where
  "FORWARDED_ADDR h e = h - e * HBLKSIZE"

record bottom_index =
  bi_index :: "u64 list"
  asc_link :: "nat option"
  desc_link :: "nat option"
  bi_key :: u64
  hash_link :: nat

text \<open>A reclaim list that is NULL is the empty list.\<close>

record obj_kind =
  ok_freelist :: "u64 list"
  ok_reclaim_list :: "u64 list"
  ok_descriptor :: u64
  ok_relocate_descr :: bool
  ok_init :: bool

section \<open>The variables\<close>

text \<open>\<open>gc_mem\<close> is the heap itself, by the addresses of its words; \<open>GC_obj_kinds\<close> holds the
  \<open>GC_n_kinds\<close> kinds in use, \<open>GC_leaked\<close> the \<open>GC_n_leaked\<close> objects found, and \<open>drop_count\<close> is the
  \<open>static\<close> counter of \<open>GC_allochblk_nth\<close>.\<close>

record gc =
  gc_mem :: "u64 \<Rightarrow> u64"
  gc_hdrs :: "hdr list"
  GC_hdr_free_list :: u64
  bottom_indices :: "bottom_index list"
  GC_top_index :: "nat list"
  GC_all_bottom_indices :: "nat option"
  GC_all_bottom_indices_end :: "nat option"
  scratch_answers :: "bool list"
  GC_hblkfreelist :: "u64 list"
  GC_free_bytes :: "u64 list"
  GC_large_free_bytes :: u64
  GC_large_allocd_bytes :: u64
  GC_max_large_allocd_bytes :: u64
  GC_heapsize :: u64
  GC_requested_heapsize :: u64
  GC_bytes_dropped :: u64
  GC_bytes_allocd :: u64
  GC_bytes_freed :: u64
  GC_bytes_finalized :: u64
  GC_finalizer_bytes_freed :: u64
  GC_non_gc_bytes :: u64
  GC_non_gc_bytes_at_gc :: u64
  GC_composite_in_use :: u64
  GC_atomic_in_use :: u64
  GC_root_size :: u64
  GC_free_space_divisor :: u64
  GC_gc_no :: u64
  GC_fail_count :: u32
  GC_obj_kinds :: "obj_kind list"
  GC_obj_map :: "u16 list option list"
  GC_old_normal_bl :: "u64 list"
  GC_incomplete_normal_bl :: "u64 list"
  GC_old_stack_bl :: "u64 list"
  GC_incomplete_stack_bl :: "u64 list"
  GC_total_stack_black_listed :: u64
  GC_black_list_spacing :: u64
  GC_modws_valid_offsets :: "bool list"
  GC_heap_sects :: "(u64 \<times> u64) list"
  GC_use_entire_heap :: bool
  GC_dont_gc :: bool
  GC_incremental :: bool
  GC_all_interior_pointers :: bool
  GC_find_leak :: bool
  GC_debugging_started :: bool
  GC_should_start_incremental_collection :: bool
  GC_disable_automatic_collection :: bool
  GC_collect_at_heapsize :: u64
  min_bytes_allocd_minimum :: u64
  last_min_bytes_allocd :: u64
  last_gc_no :: u64
  GC_large_alloc_warn_suppressed :: u64
  GC_large_alloc_warn_interval :: u64
  drop_count :: u32
  GC_bytes_found :: u64
  GC_leaked :: "u64 list"
  GC_have_errors :: bool
  GC_findleak_delay_free :: bool
  GC_smashed :: "u64 list"
  GC_n_smashed :: nat
  smash_reports :: "u64 list"

text \<open>The variables as the program starts, before memory is asked for.\<close>

definition initial_gc :: gc where
  "initial_gc =
     \<lparr>gc_mem = (\<lambda>_. 0), gc_hdrs = [], GC_hdr_free_list = 0, bottom_indices = [], GC_top_index = [],
      GC_all_bottom_indices = None, GC_all_bottom_indices_end = None, scratch_answers = [],
      GC_hblkfreelist = replicate 61 0, GC_free_bytes = replicate 61 0, GC_large_free_bytes = 0,
      GC_large_allocd_bytes = 0, GC_max_large_allocd_bytes = 0, GC_heapsize = 0, GC_requested_heapsize = 0,
      GC_bytes_dropped = 0, GC_bytes_allocd = 0, GC_bytes_freed = 0, GC_bytes_finalized = 0,
      GC_finalizer_bytes_freed = 0, GC_non_gc_bytes = 0, GC_non_gc_bytes_at_gc = 0, GC_composite_in_use = 0,
      GC_atomic_in_use = 0, GC_root_size = 0, GC_free_space_divisor = 3, GC_gc_no = 0, GC_fail_count = 0,
      GC_obj_kinds = [], GC_obj_map = replicate 129 None, GC_old_normal_bl = [], GC_incomplete_normal_bl = [],
      GC_old_stack_bl = [], GC_incomplete_stack_bl = [], GC_total_stack_black_listed = 0,
      GC_black_list_spacing = 16 * HBLKSIZE, GC_modws_valid_offsets = replicate 8 False, GC_heap_sects = [],
      GC_use_entire_heap = False, GC_dont_gc = False, GC_incremental = False, GC_all_interior_pointers = False,
      GC_find_leak = False, GC_debugging_started = False, GC_should_start_incremental_collection = False,
      GC_disable_automatic_collection = False, GC_collect_at_heapsize = - 1, min_bytes_allocd_minimum = 1,
      last_min_bytes_allocd = 0, last_gc_no = 0, GC_large_alloc_warn_suppressed = 0,
      GC_large_alloc_warn_interval = 5, drop_count = 0, GC_bytes_found = 0, GC_leaked = [], GC_have_errors = False,
      GC_findleak_delay_free = False, GC_smashed = replicate 20 0, GC_n_smashed = 0, smash_reports = []\<rparr>"

section \<open>Access\<close>

definition read_at :: "'a list \<Rightarrow> u64 \<Rightarrow> 'a res" where
  "read_at xs i = (if unat i < length xs then Inr (xs ! unat i) else Inl (Fault Out_Of_Bounds))"

definition write_at :: "'a list \<Rightarrow> u64 \<Rightarrow> 'a \<Rightarrow> 'a list res" where
  "write_at xs i x = (if unat i < length xs then Inr (xs[unat i := x]) else Inl (Fault Out_Of_Bounds))"

text \<open>The address of the header at a position, and back.\<close>

definition hdr_addr :: "nat \<Rightarrow> u64" where
  "hdr_addr i = word_of_nat (4096 + i)"

definition hdr_index :: "u64 \<Rightarrow> nat res" where
  "hdr_index p =
     (if p = 0 then Inl (Fault Null_Deref) else if p \<le> MAX_JUMP then Inl (Fault Dangling) else Inr (unat p - 4096))"

definition get_hdr :: "u64 \<Rightarrow> gc \<Rightarrow> hdr res" where
  "get_hdr p s = andThen (hdr_index p) (deref (gc_hdrs s))"

definition mod_hdr :: "u64 \<Rightarrow> (hdr \<Rightarrow> hdr) \<Rightarrow> gc \<Rightarrow> gc res" where
  "mod_hdr p f s =
     andThen (hdr_index p) (\<lambda>i. andThen (deref (gc_hdrs s) i) (\<lambda>h. Inr (s\<lparr>gc_hdrs := (gc_hdrs s)[i := f h]\<rparr>)))"

definition scratch :: "gc \<Rightarrow> bool \<times> gc" where
  "scratch s = (case scratch_answers s of [] \<Rightarrow> (False, s) | b # bs \<Rightarrow> (b, s\<lparr>scratch_answers := bs\<rparr>))"

text \<open>A loop \<open>for (; p < lim; p += step) body\<close> that runs at most \<open>n\<close> rounds.\<close>

primrec upto_loop :: "nat \<Rightarrow> u64 \<Rightarrow> u64 \<Rightarrow> (u64 \<Rightarrow> 's \<Rightarrow> 's res) \<Rightarrow> u64 \<Rightarrow> 's \<Rightarrow> 's res" where
  "upto_loop 0 step lim body p s = Inl Diverge"
| "upto_loop (Suc n) step lim body p s =
     (if p < lim then andThen (body p s) (upto_loop n step lim body (p + step)) else Inr s)"

end
