(* ===== verification/Atomix_GC_Headers.thy ===== *)
theory Atomix_GC_Headers
  imports Atomix_GC_State
begin

unbundle bit_operations_syntax

text \<open>
  The map from heap blocks to their headers, \<open>headers.c\<close> with the macros of
  \<open>private/gc_hdrs.h\<close>: a hash table of 2048 chains of bottom indices, one for each 4 MB of
  addresses, whose 1024 entries are NULL, a count of blocks to go back, or a header. The chains
  end in \<open>GC_all_nils\<close>, the bottom index 0. All bottom indices are also linked by ascending and by
  descending key.
\<close>

section \<open>Lookup\<close>

definition hi_of :: "u64 \<Rightarrow> u64" where
  "hi_of p = drop_bit 22 p"

definition slot_of :: "u64 \<Rightarrow> u64" where
  "slot_of p = drop_bit 12 p AND 1023"

definition TL_HASH :: "u64 \<Rightarrow> u64" where
  "TL_HASH hi = hi AND 2047"

text \<open>The loop of \<open>GET_BI\<close>. A chain holds at most all bottom indices, so that many rounds do.\<close>

primrec find_bi :: "nat \<Rightarrow> u64 \<Rightarrow> nat \<Rightarrow> bottom_index list \<Rightarrow> nat res" where
  "find_bi 0 hi b bis = Inl Diverge"
| "find_bi (Suc n) hi b bis =
     andThen (deref bis b) (\<lambda>bi. if bi_key bi \<noteq> hi \<and> b \<noteq> 0 then find_bi n hi (hash_link bi) bis else Inr b)"

definition GET_BI :: "u64 \<Rightarrow> gc \<Rightarrow> nat res" where
  "GET_BI p s =
     (let hi = hi_of p
      in andThen (read_at (GC_top_index s) (TL_HASH hi))
           (\<lambda>b. find_bi (Suc (length (bottom_indices s))) hi b (bottom_indices s)))"

definition HDR :: "u64 \<Rightarrow> gc \<Rightarrow> u64 res" where
  "HDR p s =
     andThen (GET_BI p s) (\<lambda>b. andThen (deref (bottom_indices s) b) (\<lambda>bi. read_at (bi_index bi) (slot_of p)))"

definition SET_HDR :: "u64 \<Rightarrow> u64 \<Rightarrow> gc \<Rightarrow> gc res" where
  "SET_HDR p e s =
     andThen (GET_BI p s) (\<lambda>b.
     andThen (deref (bottom_indices s) b) (\<lambda>bi.
     andThen (write_at (bi_index bi) (slot_of p) e) (\<lambda>es.
       Inr (s\<lparr>bottom_indices := (bottom_indices s)[b := bi\<lparr>bi_index := es\<rparr>]\<rparr>))))"

text \<open>The header of a block, through its entry.\<close>

definition hdr_of :: "u64 \<Rightarrow> gc \<Rightarrow> hdr res" where
  "hdr_of p s = andThen (HDR p s) (\<lambda>e. get_hdr e s)"

definition mod_hdr_of :: "u64 \<Rightarrow> (hdr \<Rightarrow> hdr) \<Rightarrow> gc \<Rightarrow> gc res" where
  "mod_hdr_of p f s = andThen (HDR p s) (\<lambda>e. mod_hdr e f s)"

section \<open>Headers\<close>

text \<open>A header in fresh memory, before its fields are set.\<close>

definition zero_hdr :: hdr where
  "zero_hdr = \<lparr>hb_next = 0, hb_prev = 0, hb_block = 0, hb_obj_kind = 0, hb_flags = 0, hb_last_reclaimed = 0,
     hb_sz = 0, hb_descr = 0, hb_map = None, hb_n_marks = 0, hb_marks = replicate 5 0\<rparr>"

definition alloc_hdr :: "gc \<Rightarrow> (u64 \<times> gc) res" where
  "alloc_hdr s =
     (if GC_hdr_free_list s = 0
      then
        (case scratch s of
           (True, s') \<Rightarrow> Inr (hdr_addr (length (gc_hdrs s')), s'\<lparr>gc_hdrs := gc_hdrs s' @ [zero_hdr]\<rparr>)
         | (False, s') \<Rightarrow> Inr (0, s'))
      else
        andThen (get_hdr (GC_hdr_free_list s) s)
          (\<lambda>h. Inr (GC_hdr_free_list s, s\<lparr>GC_hdr_free_list := hb_next h\<rparr>)))"

definition free_hdr :: "u64 \<Rightarrow> gc \<Rightarrow> gc res" where
  "free_hdr hhdr s =
     andThen (mod_hdr hhdr (\<lambda>h. h\<lparr>hb_next := GC_hdr_free_list s\<rparr>) s) (\<lambda>s'. Inr (s'\<lparr>GC_hdr_free_list := hhdr\<rparr>))"

section \<open>Bottom indices\<close>

definition zero_bi :: bottom_index where
  "zero_bi = \<lparr>bi_index = replicate 1024 0, asc_link = None, desc_link = None, bi_key = 0, hash_link = 0\<rparr>"

text \<open>\<open>None\<close> is the exit of the process when there is no memory for the first bottom index.\<close>

definition GC_init_headers :: "gc \<Rightarrow> gc option" where
  "GC_init_headers s =
     (case scratch s of
        (True, s') \<Rightarrow> Some (s'\<lparr>bottom_indices := [zero_bi], GC_top_index := replicate 2048 0\<rparr>)
      | (False, s') \<Rightarrow> None)"

text \<open>Does the chain from \<open>b\<close> have the key?\<close>

primrec chain_has :: "nat \<Rightarrow> u64 \<Rightarrow> nat \<Rightarrow> bottom_index list \<Rightarrow> bool res" where
  "chain_has 0 hi b bis = Inl Diverge"
| "chain_has (Suc n) hi b bis =
     (if b = 0 then Inr False
      else andThen (deref bis b) (\<lambda>bi. if bi_key bi = hi then Inr True else chain_has n hi (hash_link bi) bis))"

text \<open>The place of a key in the ascending list: the last bottom index with a smaller key, and the
  one after it.\<close>

primrec find_place :: "nat \<Rightarrow> u64 \<Rightarrow> nat option \<Rightarrow> nat option \<Rightarrow> bottom_index list \<Rightarrow> (nat option \<times> nat option) res" where
  "find_place 0 hi pi p bis = Inl Diverge"
| "find_place (Suc n) hi pi p bis =
     (case p of
        None \<Rightarrow> Inr (pi, None)
      | Some q \<Rightarrow> andThen (deref bis q) (\<lambda>bi. if bi_key bi < hi then find_place n hi p (asc_link bi) bis else Inr (pi, p)))"

definition get_index :: "u64 \<Rightarrow> gc \<Rightarrow> (bool \<times> gc) res" where
  "get_index addr s =
     (let hi = hi_of addr; i = TL_HASH hi; n = Suc (length (bottom_indices s))
      in andThen (read_at (GC_top_index s) i) (\<lambda>first.
         andThen (chain_has n hi first (bottom_indices s)) (\<lambda>found.
           if found then Inr (True, s)
           else
             case scratch s of
               (False, s') \<Rightarrow> Inr (False, s')
             | (True, s') \<Rightarrow>
                 andThen (find_place n hi None (GC_all_bottom_indices s') (bottom_indices s')) (\<lambda>(pi, p).
                   let r = length (bottom_indices s');
                       bis = bottom_indices s' @ [zero_bi\<lparr>bi_key := hi, hash_link := first, desc_link := pi, asc_link := p\<rparr>];
                       bis = (case p of None \<Rightarrow> bis | Some q \<Rightarrow> bis[q := (bis ! q)\<lparr>desc_link := Some r\<rparr>]);
                       last_bi = (case p of None \<Rightarrow> Some r | Some q \<Rightarrow> GC_all_bottom_indices_end s');
                       first_bi = (case pi of None \<Rightarrow> Some r | Some q \<Rightarrow> GC_all_bottom_indices s');
                       bis = (case pi of None \<Rightarrow> bis | Some q \<Rightarrow> bis[q := (bis ! q)\<lparr>asc_link := Some r\<rparr>])
                   in andThen (write_at (GC_top_index s') i r) (\<lambda>top.
                        Inr (True, s'\<lparr>bottom_indices := bis, GC_all_bottom_indices := first_bi,
                                     GC_all_bottom_indices_end := last_bi, GC_top_index := top\<rparr>))))))"

section \<open>Installing and removing\<close>

definition GC_install_header :: "u64 \<Rightarrow> gc \<Rightarrow> (u64 \<times> gc) res" where
  "GC_install_header h s =
     andThen (get_index h s) (\<lambda>(ok, s1).
       if \<not> ok then Inr (0, s1)
       else andThen (alloc_hdr s1) (\<lambda>(result, s2).
         if result \<noteq> 0 then andThen (SET_HDR h result s2) (\<lambda>s3. Inr (result, s3)) else Inr (0, s2)))"

text \<open>The first loop of \<open>GC_install_counts\<close>: a bottom index for every 4 MB of the block, up to an
  overflow of the address.\<close>

primrec install_indices :: "nat \<Rightarrow> u64 \<Rightarrow> u64 \<Rightarrow> gc \<Rightarrow> (bool \<times> gc) res" where
  "install_indices 0 lim hbp s = Inl Diverge"
| "install_indices (Suc n) lim hbp s =
     (if hbp < lim
      then andThen (get_index hbp s) (\<lambda>(ok, s').
        if \<not> ok then Inr (False, s')
        else if - 1 - 1024 * HBLKSIZE < hbp then Inr (True, s')
        else install_indices n lim (hbp + 1024 * HBLKSIZE) s')
      else Inr (True, s))"

definition HBLK_PTR_DIFF :: "u64 \<Rightarrow> u64 \<Rightarrow> u64" where
  "HBLK_PTR_DIFF p q = divHBLKSZ (p - q)"

definition GC_install_counts :: "u64 \<Rightarrow> u64 \<Rightarrow> gc \<Rightarrow> (bool \<times> gc) res" where
  "GC_install_counts h sz s =
     andThen (install_indices (unat (drop_bit 22 sz) + 2) (h + sz) h s) (\<lambda>(ok, s1).
       if \<not> ok then Inr (False, s1)
       else andThen (get_index (h + sz - 1) s1) (\<lambda>(ok, s2).
         if \<not> ok then Inr (False, s2)
         else
           andThen
             (upto_loop (unat (divHBLKSZ sz) + 2) HBLKSIZE (h + sz)
               (\<lambda>hbp t. let i = HBLK_PTR_DIFF hbp h in SET_HDR hbp (if MAX_JUMP < i then MAX_JUMP else i) t)
               (h + HBLKSIZE) s2)
             (\<lambda>s3. Inr (True, s3))))"

definition GC_remove_header :: "u64 \<Rightarrow> gc \<Rightarrow> gc res" where
  "GC_remove_header h s =
     andThen (HDR h s) (\<lambda>e. andThen (free_hdr e s) (\<lambda>s'. SET_HDR h 0 s'))"

definition GC_remove_counts :: "u64 \<Rightarrow> u64 \<Rightarrow> gc \<Rightarrow> gc res" where
  "GC_remove_counts h sz s =
     (if sz \<le> HBLKSIZE then Inr s
      else andThen (HDR (h + HBLKSIZE) s) (\<lambda>e.
        if e = 0 then Inr s
        else upto_loop (unat (divHBLKSZ sz) + 2) HBLKSIZE (h + sz) (\<lambda>hbp t. SET_HDR hbp 0 t) (h + HBLKSIZE) s))"

section \<open>Walking over the blocks\<close>

text \<open>The block of entry \<open>j\<close> of a bottom index.\<close>

definition block_at :: "u64 \<Rightarrow> u64 \<Rightarrow> u64" where
  "block_at key j = push_bit 12 (push_bit 10 key + j)"

text \<open>The inner loop of \<open>GC_apply_to_all_blocks\<close>, from entry \<open>j - 1\<close> downwards; the function may
  change the state, so the entries are read as the loop goes.\<close>

primrec apply_in_index :: "nat \<Rightarrow> (u64 \<Rightarrow> gc \<Rightarrow> gc res) \<Rightarrow> nat \<Rightarrow> int \<Rightarrow> gc \<Rightarrow> gc res" where
  "apply_in_index 0 fn b j s = Inl Diverge"
| "apply_in_index (Suc n) fn b j s =
     (if j < 0 then Inr s
      else andThen (deref (bottom_indices s) b) (\<lambda>bi.
        andThen (read_at (bi_index bi) (word_of_int j)) (\<lambda>e.
          if \<not> IS_FORWARDING_ADDR_OR_NIL e
          then andThen (get_hdr e s) (\<lambda>hhdr.
            andThen (if HBLK_IS_FREE hhdr then Inr s else fn (block_at (bi_key bi) (word_of_int j)) s)
              (apply_in_index n fn b (j - 1)))
          else if e = 0 then apply_in_index n fn b (j - 1) s
          else apply_in_index n fn b (j - sint e) s)))"

primrec apply_from :: "nat \<Rightarrow> (u64 \<Rightarrow> gc \<Rightarrow> gc res) \<Rightarrow> nat option \<Rightarrow> gc \<Rightarrow> gc res" where
  "apply_from 0 fn p s = Inl Diverge"
| "apply_from (Suc n) fn p s =
     (case p of
        None \<Rightarrow> Inr s
      | Some b \<Rightarrow>
          andThen (apply_in_index 1025 fn b 1023 s) (\<lambda>s'.
          andThen (deref (bottom_indices s') b) (\<lambda>bi. apply_from n fn (asc_link bi) s')))"

text \<open>A function that installs no new bottom indices leaves the length of the list alone.\<close>

definition GC_apply_to_all_blocks :: "(u64 \<Rightarrow> gc \<Rightarrow> gc res) \<Rightarrow> gc \<Rightarrow> gc res" where
  "GC_apply_to_all_blocks fn s = apply_from (Suc (length (bottom_indices s))) fn (GC_all_bottom_indices s) s"

text \<open>The loop of \<open>GC_next_block\<close> over one bottom index, from entry \<open>j\<close> upwards.\<close>

primrec next_in_index :: "nat \<Rightarrow> bottom_index \<Rightarrow> bool \<Rightarrow> u64 \<Rightarrow> gc \<Rightarrow> u64 option res" where
  "next_in_index 0 bi allow_free j s = Inl Diverge"
| "next_in_index (Suc n) bi allow_free j s =
     (if j < 1024
      then andThen (read_at (bi_index bi) j) (\<lambda>e.
        if IS_FORWARDING_ADDR_OR_NIL e then next_in_index n bi allow_free (j + 1) s
        else andThen (get_hdr e s) (\<lambda>hhdr.
          if allow_free \<or> \<not> HBLK_IS_FREE hhdr then Inr (Some (block_at (bi_key bi) j))
          else next_in_index n bi allow_free (j + divHBLKSZ (hb_sz hhdr)) s))
      else Inr None)"

primrec next_from :: "nat \<Rightarrow> nat option \<Rightarrow> bool \<Rightarrow> u64 \<Rightarrow> gc \<Rightarrow> u64 res" where
  "next_from 0 p allow_free j s = Inl Diverge"
| "next_from (Suc n) p allow_free j s =
     (case p of
        None \<Rightarrow> Inr 0
      | Some b \<Rightarrow>
          andThen (deref (bottom_indices s) b) (\<lambda>bi.
          andThen (next_in_index 1025 bi allow_free j s) (\<lambda>r.
            case r of Some h \<Rightarrow> Inr h | None \<Rightarrow> next_from n (asc_link bi) allow_free 0 s)))"

text \<open>The first bottom index in ascending order with a key of at least \<open>hi\<close>, and the last in
  descending order with a key of at most \<open>hi\<close>.\<close>

primrec bi_upwards :: "nat \<Rightarrow> u64 \<Rightarrow> nat option \<Rightarrow> bottom_index list \<Rightarrow> nat option res" where
  "bi_upwards 0 hi p bis = Inl Diverge"
| "bi_upwards (Suc n) hi p bis =
     (case p of
        None \<Rightarrow> Inr None
      | Some b \<Rightarrow> andThen (deref bis b) (\<lambda>bi. if bi_key bi < hi then bi_upwards n hi (asc_link bi) bis else Inr p))"

primrec bi_downwards :: "nat \<Rightarrow> u64 \<Rightarrow> nat option \<Rightarrow> bottom_index list \<Rightarrow> nat option res" where
  "bi_downwards 0 hi p bis = Inl Diverge"
| "bi_downwards (Suc n) hi p bis =
     (case p of
        None \<Rightarrow> Inr None
      | Some b \<Rightarrow> andThen (deref bis b) (\<lambda>bi. if hi < bi_key bi then bi_downwards n hi (desc_link bi) bis else Inr p))"

definition GC_next_block :: "u64 \<Rightarrow> bool \<Rightarrow> gc \<Rightarrow> u64 res" where
  "GC_next_block h allow_free s =
     (let n = Suc (length (bottom_indices s))
      in andThen (GET_BI h s) (\<lambda>b.
           if b = 0
           then andThen (bi_upwards n (hi_of h) (GC_all_bottom_indices s) (bottom_indices s))
                  (\<lambda>p. next_from n p allow_free 0 s)
           else next_from n (Some b) allow_free (slot_of h) s))"

text \<open>The loop of \<open>GC_prev_block\<close> over one bottom index; entries are followed back to a header.\<close>

primrec prev_in_index :: "nat \<Rightarrow> bottom_index \<Rightarrow> int \<Rightarrow> u64 option res" where
  "prev_in_index 0 bi j = Inl Diverge"
| "prev_in_index (Suc n) bi j =
     (if 0 \<le> j
      then andThen (read_at (bi_index bi) (word_of_int j)) (\<lambda>e.
        if e = 0 then prev_in_index n bi (j - 1)
        else if IS_FORWARDING_ADDR_OR_NIL e then prev_in_index n bi (j - sint e)
        else Inr (Some (block_at (bi_key bi) (word_of_int j))))
      else Inr None)"

primrec prev_from :: "nat \<Rightarrow> nat option \<Rightarrow> int \<Rightarrow> gc \<Rightarrow> u64 res" where
  "prev_from 0 p j s = Inl Diverge"
| "prev_from (Suc n) p j s =
     (case p of
        None \<Rightarrow> Inr 0
      | Some b \<Rightarrow>
          andThen (deref (bottom_indices s) b) (\<lambda>bi.
          andThen (prev_in_index 1025 bi j) (\<lambda>r.
            case r of Some h \<Rightarrow> Inr h | None \<Rightarrow> prev_from n (desc_link bi) 1023 s)))"

definition GC_prev_block :: "u64 \<Rightarrow> gc \<Rightarrow> u64 res" where
  "GC_prev_block h s =
     (let n = Suc (length (bottom_indices s))
      in andThen (GET_BI h s) (\<lambda>b.
           if b = 0
           then andThen (bi_downwards n (hi_of h) (GC_all_bottom_indices_end s) (bottom_indices s))
                  (\<lambda>p. prev_from n p 1023 s)
           else prev_from n (Some b) (uint (slot_of h)) s))"

end
