(* ===== verification/Atomix_GC_Blacklist.thy ===== *)
theory Atomix_GC_Blacklist
  imports Atomix_GC_Headers
begin

unbundle bit_operations_syntax

text \<open>
  Black lists, \<open>blacklst.c\<close>: sets of heap blocks that look referenced by mistake, kept as hash
  tables of one bit per block number modulo \<open>PHT_ENTRIES\<close>. The tables are swapped by pointer in
  the code and by value here; a table that was never allocated is the empty list.
\<close>

section \<open>Page hash tables\<close>

definition PHT_HASH :: "u64 \<Rightarrow> u64" where
  "PHT_HASH addr = drop_bit 12 addr AND (push_bit 18 1 - 1)"

definition divWORDSZ :: "u64 \<Rightarrow> u64" where
  "divWORDSZ n = drop_bit 6 n"

definition modWORDSZ :: "u64 \<Rightarrow> u64" where
  "modWORDSZ n = n AND 0x3f"

definition get_pht_entry_from_index :: "u64 list \<Rightarrow> u64 \<Rightarrow> bool res" where
  "get_pht_entry_from_index bl i =
     andThen (read_at bl (divWORDSZ i)) (\<lambda>w. Inr (drop_bit (unat (modWORDSZ i)) w AND 1 \<noteq> 0))"

definition set_pht_entry_from_index :: "u64 list \<Rightarrow> u64 \<Rightarrow> u64 list res" where
  "set_pht_entry_from_index bl i =
     andThen (read_at bl (divWORDSZ i)) (\<lambda>w. write_at bl (divWORDSZ i) (w OR push_bit (unat (modWORDSZ i)) 1))"

text \<open>\<open>a || b\<close> of two fallible tests.\<close>

definition or_else :: "bool res \<Rightarrow> bool res \<Rightarrow> bool res" where
  "or_else a b = andThen a (\<lambda>x. if x then Inr True else b)"

section \<open>Building and replacing\<close>

definition empty_bl :: "u64 list" where
  "empty_bl = replicate 4096 0"

definition GC_clear_bl :: "u64 list \<Rightarrow> u64 list" where
  "GC_clear_bl doomed = replicate (length doomed) 0"

text \<open>\<open>None\<close> is the exit of the process without memory.\<close>

definition GC_bl_init_no_interiors :: "gc \<Rightarrow> gc option" where
  "GC_bl_init_no_interiors s =
     (if GC_incomplete_normal_bl s = []
      then
        (case scratch s of (ok1, s1) \<Rightarrow>
           (case scratch s1 of (ok2, s2) \<Rightarrow>
              if ok1 \<and> ok2 then Some (s2\<lparr>GC_old_normal_bl := empty_bl, GC_incomplete_normal_bl := empty_bl\<rparr>) else None))
      else Some s)"

definition GC_bl_init :: "gc \<Rightarrow> gc option" where
  "GC_bl_init s =
     Option.bind (if GC_all_interior_pointers s then Some s else GC_bl_init_no_interiors s)
       (\<lambda>s0. case scratch s0 of (ok1, s1) \<Rightarrow>
          (case scratch s1 of (ok2, s2) \<Rightarrow>
             if ok1 \<and> ok2 then Some (s2\<lparr>GC_old_stack_bl := empty_bl, GC_incomplete_stack_bl := empty_bl\<rparr>) else None))"

definition GC_number_stack_black_listed :: "u64 \<Rightarrow> u64 \<Rightarrow> gc \<Rightarrow> u64 res" where
  "GC_number_stack_black_listed start endp1 s =
     upto_loop (unat (divHBLKSZ (endp1 - start)) + 2) HBLKSIZE endp1
       (\<lambda>h n. andThen (get_pht_entry_from_index (GC_old_stack_bl s) (PHT_HASH h)) (\<lambda>b. Inr (if b then n + 1 else n)))
       start 0"

fun sum_sections :: "(u64 \<times> u64) list \<Rightarrow> u64 \<Rightarrow> gc \<Rightarrow> u64 res" where
  "sum_sections [] tot s = Inr tot"
| "sum_sections ((start, bytes) # sects) tot s =
     andThen (GC_number_stack_black_listed start (start + divHBLKSZ bytes * HBLKSIZE) s)
       (\<lambda>n. sum_sections sects (tot + n) s)"

definition total_stack_black_listed :: "gc \<Rightarrow> u64 res" where
  "total_stack_black_listed s = andThen (sum_sections (GC_heap_sects s) 0 s) (\<lambda>tot. Inr (tot * HBLKSIZE))"

definition GC_promote_black_lists :: "gc \<Rightarrow> gc res" where
  "GC_promote_black_lists s =
     (let s1 = s\<lparr>GC_old_normal_bl := GC_incomplete_normal_bl s, GC_old_stack_bl := GC_incomplete_stack_bl s,
                GC_incomplete_normal_bl :=
                  (if GC_all_interior_pointers s then GC_old_normal_bl s else GC_clear_bl (GC_old_normal_bl s)),
                GC_incomplete_stack_bl := GC_clear_bl (GC_old_stack_bl s)\<rparr>
      in andThen (total_stack_black_listed s1) (\<lambda>tot.
           let spacing = (if tot \<noteq> 0 then HBLKSIZE * (GC_heapsize s1 div tot) else GC_black_list_spacing s1);
               spacing = (if spacing < 3 * HBLKSIZE then 3 * HBLKSIZE else spacing);
               spacing = (if 2048 * HBLKSIZE < spacing then 2048 * HBLKSIZE else spacing)
           in Inr (s1\<lparr>GC_total_stack_black_listed := tot, GC_black_list_spacing := spacing\<rparr>)))"

definition GC_unpromote_black_lists :: "gc \<Rightarrow> gc" where
  "GC_unpromote_black_lists s =
     s\<lparr>GC_incomplete_normal_bl :=
         (if GC_all_interior_pointers s then GC_incomplete_normal_bl s else GC_old_normal_bl s),
       GC_incomplete_stack_bl := GC_old_stack_bl s\<rparr>"

section \<open>Adding\<close>

definition GC_add_to_black_list_normal :: "u64 \<Rightarrow> gc \<Rightarrow> gc res" where
  "GC_add_to_black_list_normal p s =
     andThen (read_at (GC_modws_valid_offsets s) (p AND 7)) (\<lambda>valid.
       if valid
       then
         let i = PHT_HASH p
         in andThen (or_else (andThen (HDR p s) (\<lambda>e. Inr (e = 0))) (get_pht_entry_from_index (GC_old_normal_bl s) i))
              (\<lambda>add. if add
                     then andThen (set_pht_entry_from_index (GC_incomplete_normal_bl s) i)
                            (\<lambda>bl. Inr (s\<lparr>GC_incomplete_normal_bl := bl\<rparr>))
                     else Inr s)
       else Inr s)"

definition GC_add_to_black_list_stack :: "u64 \<Rightarrow> gc \<Rightarrow> gc res" where
  "GC_add_to_black_list_stack p s =
     (let i = PHT_HASH p
      in andThen (or_else (andThen (HDR p s) (\<lambda>e. Inr (e = 0))) (get_pht_entry_from_index (GC_old_stack_bl s) i))
           (\<lambda>add. if add
                  then andThen (set_pht_entry_from_index (GC_incomplete_stack_bl s) i)
                         (\<lambda>bl. Inr (s\<lparr>GC_incomplete_stack_bl := bl\<rparr>))
                  else Inr s))"

section \<open>Asking\<close>

text \<open>The loop over the blocks of the range, which skips the words of the tables that are zero.\<close>

primrec bl_scan :: "nat \<Rightarrow> u64 \<Rightarrow> u64 \<Rightarrow> u64 \<Rightarrow> gc \<Rightarrow> u64 res" where
  "bl_scan 0 h nblocks i s = Inl Diverge"
| "bl_scan (Suc n) h nblocks i s =
     (let idx = PHT_HASH (h + i * HBLKSIZE)
      in andThen (read_at (GC_old_stack_bl s) (divWORDSZ idx)) (\<lambda>old.
         andThen (if old = 0 then read_at (GC_incomplete_stack_bl s) (divWORDSZ idx) else Inr 1) (\<lambda>inc.
           if old = 0 \<and> inc = 0
           then
             let i' = i + (64 - modWORDSZ idx)
             in if nblocks \<le> i' then Inr 0 else bl_scan n h nblocks i' s
           else
             andThen (or_else (get_pht_entry_from_index (GC_old_stack_bl s) idx)
                              (get_pht_entry_from_index (GC_incomplete_stack_bl s) idx))
               (\<lambda>listed.
                  if listed then Inr (h + (i + 1) * HBLKSIZE)
                  else if nblocks \<le> i + 1 then Inr 0
                  else bl_scan n h nblocks (i + 1) s))))"

definition GC_is_black_listed :: "u64 \<Rightarrow> u64 \<Rightarrow> gc \<Rightarrow> u64 res" where
  "GC_is_black_listed h len s =
     (let idx = PHT_HASH h
      in andThen
           (if GC_all_interior_pointers s then Inr False
            else or_else (get_pht_entry_from_index (GC_old_normal_bl s) idx)
                         (get_pht_entry_from_index (GC_incomplete_normal_bl s) idx))
           (\<lambda>normal.
              if normal then Inr (h + HBLKSIZE)
              else bl_scan (unat (divHBLKSZ len) + 1) h (divHBLKSZ len) 0 s))"

end
