(* ===== verification/Atomix_GC_Marks.thy ===== *)
theory Atomix_GC_Marks
  imports Atomix_GC_Blacklist
begin

unbundle bit_operations_syntax

text \<open>
  Mark bits of a block, one per granule of 16 bytes, kept in the header of the block
  (\<open>mark.c\<close> and the macros of \<open>private/gc_priv.h\<close>), and the table of object maps of
  \<open>obj_map.c\<close>.
\<close>

section \<open>Bits of a header\<close>

definition mark_bit_from_hdr :: "hdr \<Rightarrow> u64 \<Rightarrow> bool res" where
  "mark_bit_from_hdr hhdr n =
     andThen (read_at (hb_marks hhdr) (divWORDSZ n)) (\<lambda>w. Inr (drop_bit (unat (modWORDSZ n)) w AND 1 \<noteq> 0))"

definition set_mark_bit_from_hdr :: "hdr \<Rightarrow> u64 \<Rightarrow> hdr res" where
  "set_mark_bit_from_hdr hhdr n =
     andThen (read_at (hb_marks hhdr) (divWORDSZ n)) (\<lambda>w.
     andThen (write_at (hb_marks hhdr) (divWORDSZ n) (w OR push_bit (unat (modWORDSZ n)) 1))
       (\<lambda>ms. Inr (hhdr\<lparr>hb_marks := ms\<rparr>)))"

definition clear_mark_bit_from_hdr :: "hdr \<Rightarrow> u64 \<Rightarrow> hdr res" where
  "clear_mark_bit_from_hdr hhdr n =
     andThen (read_at (hb_marks hhdr) (divWORDSZ n)) (\<lambda>w.
     andThen (write_at (hb_marks hhdr) (divWORDSZ n) (w AND NOT (push_bit (unat (modWORDSZ n)) 1)))
       (\<lambda>ms. Inr (hhdr\<lparr>hb_marks := ms\<rparr>)))"

definition MARK_BIT_OFFSET :: "u64 \<Rightarrow> u64" where
  "MARK_BIT_OFFSET sz = BYTES_TO_GRANULES sz"

text \<open>Sizes are positive, so the division is the one of C.\<close>

definition HBLK_OBJS :: "u64 \<Rightarrow> u64" where
  "HBLK_OBJS sz = HBLKSIZE div sz"

definition FINAL_MARK_BIT :: "u64 \<Rightarrow> u64" where
  "FINAL_MARK_BIT sz = (if MAXOBJBYTES < sz then 256 else BYTES_TO_GRANULES (sz * HBLK_OBJS sz))"

definition GC_clear_hdr_marks :: "hdr \<Rightarrow> hdr res" where
  "GC_clear_hdr_marks hhdr =
     andThen (set_mark_bit_from_hdr (hhdr\<lparr>hb_marks := replicate (length (hb_marks hhdr)) 0\<rparr>) (FINAL_MARK_BIT (hb_sz hhdr)))
       (\<lambda>h. Inr (h\<lparr>hb_n_marks := 0\<rparr>))"

definition GC_set_hdr_marks :: "hdr \<Rightarrow> hdr res" where
  "GC_set_hdr_marks hhdr =
     (let n_marks = FINAL_MARK_BIT (hb_sz hhdr)
      in andThen
           (upto_loop (length (hb_marks hhdr) + 2) 1 (divWORDSZ (n_marks + 64)) (\<lambda>i ms. write_at ms i (- 1)) 0 (hb_marks hhdr))
           (\<lambda>ms. Inr (hhdr\<lparr>hb_marks := ms, hb_n_marks := HBLK_OBJS (hb_sz hhdr)\<rparr>)))"

section \<open>Bits of an object\<close>

text \<open>A fallible update of the header of a block.\<close>

definition update_hdr_of :: "u64 \<Rightarrow> (hdr \<Rightarrow> hdr res) \<Rightarrow> gc \<Rightarrow> gc res" where
  "update_hdr_of h f s = andThen (hdr_of h s) (\<lambda>hhdr. andThen (f hhdr) (\<lambda>hhdr'. mod_hdr_of h (\<lambda>_. hhdr') s))"

definition MARK_BIT_NO :: "u64 \<Rightarrow> u64" where
  "MARK_BIT_NO ofs = BYTES_TO_GRANULES ofs"

definition GC_set_mark_bit :: "u64 \<Rightarrow> gc \<Rightarrow> gc res" where
  "GC_set_mark_bit p s =
     (let h = HBLKPTR p; bit_no = MARK_BIT_NO (p - h)
      in update_hdr_of h
           (\<lambda>hhdr. andThen (mark_bit_from_hdr hhdr bit_no) (\<lambda>marked.
              if marked then Inr hhdr
              else andThen (set_mark_bit_from_hdr hhdr bit_no) (\<lambda>hhdr'. Inr (hhdr'\<lparr>hb_n_marks := hb_n_marks hhdr' + 1\<rparr>)))) s)"

definition GC_clear_mark_bit :: "u64 \<Rightarrow> gc \<Rightarrow> gc res" where
  "GC_clear_mark_bit p s =
     (let h = HBLKPTR p; bit_no = MARK_BIT_NO (p - h)
      in update_hdr_of h
           (\<lambda>hhdr. andThen (mark_bit_from_hdr hhdr bit_no) (\<lambda>marked.
              if marked
              then andThen (clear_mark_bit_from_hdr hhdr bit_no) (\<lambda>hhdr'. Inr (hhdr'\<lparr>hb_n_marks := hb_n_marks hhdr - 1\<rparr>))
              else Inr hhdr)) s)"

definition GC_is_marked :: "u64 \<Rightarrow> gc \<Rightarrow> bool res" where
  "GC_is_marked p s =
     (let h = HBLKPTR p in andThen (hdr_of h s) (\<lambda>hhdr. mark_bit_from_hdr hhdr (MARK_BIT_NO (p - h))))"

definition clear_marks_for_block :: "u64 \<Rightarrow> gc \<Rightarrow> gc res" where
  "clear_marks_for_block h s =
     update_hdr_of h (\<lambda>hhdr. if IS_UNCOLLECTABLE (hb_obj_kind hhdr) then Inr hhdr else GC_clear_hdr_marks hhdr) s"

section \<open>Object maps\<close>

definition new_map :: "u64 \<Rightarrow> u16 list" where
  "new_map granules =
     (if granules = 0 then replicate 256 1 else map (\<lambda>displ. ucast (word_of_nat displ mod granules)) [0 ..< 256])"

definition GC_add_map_entry :: "u64 \<Rightarrow> gc \<Rightarrow> (bool \<times> gc) res" where
  "GC_add_map_entry granules s =
     (let granules = (if BYTES_TO_GRANULES MAXOBJBYTES < granules then 0 else granules)
      in andThen (read_at (GC_obj_map s) granules) (\<lambda>entry.
           if entry \<noteq> None then Inr (True, s)
           else
             case scratch s of
               (False, s') \<Rightarrow> Inr (False, s')
             | (True, s') \<Rightarrow>
                 andThen (write_at (GC_obj_map s') granules (Some (new_map granules)))
                   (\<lambda>maps. Inr (True, s'\<lparr>GC_obj_map := maps\<rparr>))))"

end
