(* ===== verification/Atomix_GC_Alloc.thy ===== *)
theory Atomix_GC_Alloc
  imports Atomix_GC_Marks
begin

unbundle bit_operations_syntax

text \<open>
  The allocator of heap blocks, \<open>allchblk.c\<close>, and the test whether to collect of \<open>alloc.c\<close>.
  Free blocks are on one of 61 doubly linked lists by their size; the links are in their headers.
  A loop over a free list is given one round for each header, plus one. Changing the protection
  of pages (\<open>GC_remove_protection\<close>, only with incremental collection) is not modelled.
\<close>

section \<open>Free lists\<close>

abbreviation N_HBLK_FLS :: u64 where "N_HBLK_FLS \<equiv> 60"

definition GC_hblk_fl_from_blocks :: "u64 \<Rightarrow> u64" where
  "GC_hblk_fl_from_blocks blocks_needed =
     (if blocks_needed \<le> 32 then blocks_needed
      else if 256 \<le> blocks_needed then N_HBLK_FLS
      else (blocks_needed - 32) div 8 + 32)"

primrec enough_from :: "nat \<Rightarrow> u64 \<Rightarrow> gc \<Rightarrow> u64" where
  "enough_from 0 bytes s = 0"
| "enough_from (Suc n) bytes s =
     (let bytes' = bytes + GC_free_bytes s ! n
      in if GC_max_large_allocd_bytes s \<le> bytes' then word_of_nat n else enough_from n bytes' s)"

definition GC_enough_large_bytes_left :: "gc \<Rightarrow> u64" where
  "GC_enough_large_bytes_left s = enough_from 61 (GC_large_allocd_bytes s) s"

text \<open>The blocks of a free list in order, with their headers.\<close>

primrec walk_fl :: "nat \<Rightarrow> (u64 \<Rightarrow> hdr \<Rightarrow> 'a \<Rightarrow> 'a) \<Rightarrow> u64 \<Rightarrow> gc \<Rightarrow> 'a \<Rightarrow> 'a res" where
  "walk_fl 0 f h s x = Inl Diverge"
| "walk_fl (Suc n) f h s x =
     (if h = 0 then Inr x else andThen (HDR h s) (\<lambda>e. andThen (get_hdr e s) (\<lambda>hhdr. walk_fl n f (hb_next hhdr) s (f e hhdr x))))"

fun walk_lists :: "u64 list \<Rightarrow> (u64 \<Rightarrow> hdr \<Rightarrow> 'a \<Rightarrow> 'a) \<Rightarrow> gc \<Rightarrow> 'a \<Rightarrow> 'a res" where
  "walk_lists [] f s x = Inr x"
| "walk_lists (h # hs) f s x = andThen (walk_fl (Suc (length (gc_hdrs s))) f h s x) (walk_lists hs f s)"

definition GC_compute_large_free_bytes :: "gc \<Rightarrow> u64 res" where
  "GC_compute_large_free_bytes s = walk_lists (GC_hblkfreelist s) (\<lambda>e hhdr total_free. total_free + hb_sz hhdr) s 0"

text \<open>The first list on which a header appears; \<open>None\<close> for -1.\<close>

fun index_from :: "u64 list \<Rightarrow> nat \<Rightarrow> u64 \<Rightarrow> gc \<Rightarrow> nat option res" where
  "index_from [] i wanted s = Inr None"
| "index_from (h # hs) i wanted s =
     andThen (walk_fl (Suc (length (gc_hdrs s))) (\<lambda>e hhdr found. found \<or> e = wanted) h s False)
       (\<lambda>found. if found then Inr (Some i) else index_from hs (Suc i) wanted s)"

definition free_list_index_of :: "u64 \<Rightarrow> gc \<Rightarrow> nat option res" where
  "free_list_index_of wanted s = index_from (GC_hblkfreelist s) 0 wanted s"

definition set_fl :: "u64 \<Rightarrow> u64 \<Rightarrow> gc \<Rightarrow> gc res" where
  "set_fl i h s = andThen (write_at (GC_hblkfreelist s) i h) (\<lambda>fl. Inr (s\<lparr>GC_hblkfreelist := fl\<rparr>))"

definition add_free_bytes :: "u64 \<Rightarrow> u64 \<Rightarrow> gc \<Rightarrow> gc res" where
  "add_free_bytes i n s =
     andThen (read_at (GC_free_bytes s) i) (\<lambda>b.
     andThen (write_at (GC_free_bytes s) i (b + n)) (\<lambda>fb. Inr (s\<lparr>GC_free_bytes := fb\<rparr>)))"

definition GC_remove_from_fl_at :: "u64 \<Rightarrow> u64 \<Rightarrow> gc \<Rightarrow> gc res" where
  "GC_remove_from_fl_at hhdr i s =
     andThen (get_hdr hhdr s) (\<lambda>h.
     andThen
       (if hb_prev h = 0 then set_fl i (hb_next h) s
        else mod_hdr_of (hb_prev h) (\<lambda>phdr. phdr\<lparr>hb_next := hb_next h\<rparr>) s) (\<lambda>s1.
     andThen (add_free_bytes i (- hb_sz h) s1) (\<lambda>s2.
       if hb_next h \<noteq> 0 then mod_hdr_of (hb_next h) (\<lambda>nhdr. nhdr\<lparr>hb_prev := hb_prev h\<rparr>) s2 else Inr s2)))"

definition GC_remove_from_fl :: "u64 \<Rightarrow> gc \<Rightarrow> gc res" where
  "GC_remove_from_fl hhdr s =
     andThen (get_hdr hhdr s) (\<lambda>h. GC_remove_from_fl_at hhdr (GC_hblk_fl_from_blocks (divHBLKSZ (hb_sz h))) s)"

definition GC_add_to_fl :: "u64 \<Rightarrow> u64 \<Rightarrow> gc \<Rightarrow> gc res" where
  "GC_add_to_fl h hhdr s =
     andThen (get_hdr hhdr s) (\<lambda>hd.
       let i = GC_hblk_fl_from_blocks (divHBLKSZ (hb_sz hd))
       in andThen (read_at (GC_hblkfreelist s) i) (\<lambda>second.
          andThen (set_fl i h s) (\<lambda>s1.
          andThen (add_free_bytes i (hb_sz hd) s1) (\<lambda>s2.
          andThen (mod_hdr hhdr (\<lambda>x. x\<lparr>hb_next := second, hb_prev := 0\<rparr>) s2) (\<lambda>s3.
          andThen (if second \<noteq> 0 then mod_hdr_of second (\<lambda>x. x\<lparr>hb_prev := h\<rparr>) s3 else Inr s3) (\<lambda>s4.
            mod_hdr hhdr (\<lambda>x. x\<lparr>hb_flags := hb_flags x OR FREE_BLK\<rparr>) s4))))))"

section \<open>Neighbours\<close>

text \<open>Forwarding counts are followed back; the entries are at most all of them.\<close>

primrec follow_counts :: "nat \<Rightarrow> u64 \<Rightarrow> u64 \<Rightarrow> gc \<Rightarrow> (u64 \<times> u64) res" where
  "follow_counts 0 p phdr s = Inl Diverge"
| "follow_counts (Suc n) p phdr s =
     (if phdr \<noteq> 0 \<and> IS_FORWARDING_ADDR_OR_NIL phdr
      then let p' = FORWARDED_ADDR p phdr in andThen (HDR p' s) (\<lambda>phdr'. follow_counts n p' phdr' s)
      else Inr (p, phdr))"

definition get_block_ending_at :: "u64 \<Rightarrow> gc \<Rightarrow> u64 res" where
  "get_block_ending_at h s =
     andThen (HDR (h - HBLKSIZE) s) (\<lambda>e.
     andThen (follow_counts (Suc (1024 * length (bottom_indices s))) (h - HBLKSIZE) e s) (\<lambda>(p, phdr).
       if phdr \<noteq> 0 then Inr p
       else andThen (GC_prev_block (h - HBLKSIZE) s) (\<lambda>q.
         if q \<noteq> 0 then andThen (hdr_of q s) (\<lambda>hd. Inr (if q + hb_sz hd = h then q else 0)) else Inr 0)))"

definition GC_free_block_ending_at :: "u64 \<Rightarrow> gc \<Rightarrow> u64 res" where
  "GC_free_block_ending_at h s =
     andThen (get_block_ending_at h s) (\<lambda>p.
       if p \<noteq> 0 then andThen (hdr_of p s) (\<lambda>phdr. Inr (if HBLK_IS_FREE phdr then p else 0)) else Inr 0)"

section \<open>Splitting\<close>

definition GC_get_first_part :: "u64 \<Rightarrow> u64 \<Rightarrow> u64 \<Rightarrow> u64 \<Rightarrow> gc \<Rightarrow> (u64 \<times> gc) res" where
  "GC_get_first_part h hhdr bytes i s =
     andThen (get_hdr hhdr s) (\<lambda>hd.
     andThen (GC_remove_from_fl_at hhdr i s) (\<lambda>s1.
       if hb_sz hd = bytes then Inr (h, s1)
       else andThen (GC_install_header (h + bytes) s1) (\<lambda>(rest_hdr, s2).
         if rest_hdr = 0 then Inr (0, s2)
         else
           andThen (mod_hdr rest_hdr (\<lambda>x. x\<lparr>hb_sz := hb_sz hd - bytes, hb_flags := 0\<rparr>) s2) (\<lambda>s3.
           andThen (GC_add_to_fl (h + bytes) rest_hdr s3) (\<lambda>s4. Inr (h, s4))))))"

definition GC_split_block :: "u64 \<Rightarrow> u64 \<Rightarrow> u64 \<Rightarrow> u64 \<Rightarrow> u64 \<Rightarrow> gc \<Rightarrow> gc res" where
  "GC_split_block h hhdr n nhdr i s =
     andThen (get_hdr hhdr s) (\<lambda>hd.
       let total_size = hb_sz hd; h_size = n - h; prev = hb_prev hd; next_blk = hb_next hd
       in andThen (mod_hdr nhdr (\<lambda>x. x\<lparr>hb_prev := prev, hb_next := next_blk, hb_sz := total_size - h_size, hb_flags := 0\<rparr>) s) (\<lambda>s1.
          andThen (if prev \<noteq> 0 then mod_hdr_of prev (\<lambda>x. x\<lparr>hb_next := n\<rparr>) s1 else set_fl i n s1) (\<lambda>s2.
          andThen (if next_blk \<noteq> 0 then mod_hdr_of next_blk (\<lambda>x. x\<lparr>hb_prev := n\<rparr>) s2 else Inr s2) (\<lambda>s3.
          andThen (add_free_bytes i (- h_size) s3) (\<lambda>s4.
          andThen (mod_hdr hhdr (\<lambda>x. x\<lparr>hb_sz := h_size\<rparr>) s4) (\<lambda>s5.
          andThen (GC_add_to_fl h hhdr s5) (\<lambda>s6.
            mod_hdr nhdr (\<lambda>x. x\<lparr>hb_flags := hb_flags x OR FREE_BLK\<rparr>) s6)))))))"

section \<open>Headers of new blocks\<close>

definition setup_header :: "u64 \<Rightarrow> u64 \<Rightarrow> u64 \<Rightarrow> u8 \<Rightarrow> u8 \<Rightarrow> gc \<Rightarrow> (bool \<times> gc) res" where
  "setup_header hhdr block byte_sz kind flags s =
     (let flags = (if MAXOBJBYTES < byte_sz then flags OR LARGE_BLOCK else flags);
          granules = BYTES_TO_GRANULES byte_sz
      in andThen (read_at (GC_obj_kinds s) (ucast kind)) (\<lambda>ok.
           let descr = (if ok_relocate_descr ok then ok_descriptor ok + byte_sz else ok_descriptor ok)
           in andThen (mod_hdr hhdr (\<lambda>x. x\<lparr>hb_sz := byte_sz, hb_obj_kind := kind, hb_flags := flags, hb_block := block, hb_descr := descr\<rparr>) s) (\<lambda>s1.
              andThen (GC_add_map_entry granules s1) (\<lambda>(added, s2).
                if \<not> added
                then
                  andThen (mod_hdr hhdr (\<lambda>x. x\<lparr>hb_sz := HBLKSIZE, hb_descr := 0, hb_flags := hb_flags x OR LARGE_BLOCK, hb_map := None\<rparr>) s2)
                    (\<lambda>s3. Inr (False, s3))
                else
                  andThen (read_at (GC_obj_map s2) (if flags AND LARGE_BLOCK \<noteq> 0 then 0 else granules)) (\<lambda>m.
                  andThen (mod_hdr hhdr (\<lambda>x. x\<lparr>hb_map := m\<rparr>) s2) (\<lambda>s3.
                  andThen (get_hdr hhdr s3) (\<lambda>x.
                  andThen (GC_clear_hdr_marks x) (\<lambda>x'.
                  andThen (mod_hdr hhdr (\<lambda>_. x'\<lparr>hb_last_reclaimed := ucast (GC_gc_no s3)\<rparr>) s3) (\<lambda>s4. Inr (True, s4))))))))))"

section \<open>When to collect\<close>

text \<open>\<open>stack_size\<close> is \<open>GC_stackbottom - GC_approx_sp()\<close>.\<close>

definition min_bytes_allocd :: "u64 \<Rightarrow> gc \<Rightarrow> u64" where
  "min_bytes_allocd stack_size s =
     (let total_root_size = 2 * stack_size + GC_root_size s;
          scan_size = 2 * GC_composite_in_use s + GC_atomic_in_use s div 4 + total_root_size;
          result = scan_size div GC_free_space_divisor s;
          result = (if GC_incremental s then result div 2 else result)
      in if min_bytes_allocd_minimum s < result then result else min_bytes_allocd_minimum s)"

definition GC_adj_bytes_allocd :: "gc \<Rightarrow> u64" where
  "GC_adj_bytes_allocd s =
     (let expl_managed = GC_non_gc_bytes s - GC_non_gc_bytes_at_gc s;
          result = GC_bytes_allocd s + GC_bytes_dropped s - GC_bytes_freed s + GC_finalizer_bytes_freed s - expl_managed;
          result = (if GC_bytes_allocd s <s result then GC_bytes_allocd s else result);
          result = result + GC_bytes_finalized s
      in if result <s drop_bit 3 (GC_bytes_allocd s) then drop_bit 3 (GC_bytes_allocd s) else result)"

definition GC_should_collect :: "u64 \<Rightarrow> gc \<Rightarrow> bool \<times> gc" where
  "GC_should_collect stack_size s =
     (let s1 = (if last_gc_no s \<noteq> GC_gc_no s
                then s\<lparr>last_min_bytes_allocd := min_bytes_allocd stack_size s, last_gc_no := GC_gc_no s\<rparr> else s)
      in if GC_should_start_incremental_collection s1
         then (True, s1\<lparr>GC_should_start_incremental_collection := False\<rparr>)
         else if GC_disable_automatic_collection s1 then (False, s1)
         else (last_min_bytes_allocd s1 \<le> GC_adj_bytes_allocd s1 \<or> GC_collect_at_heapsize s1 \<le> GC_heapsize s1, s1))"

section \<open>Allocation from one list\<close>

text \<open>What one round of the search does with the block \<open>hbp\<close>: go on behind a header, start again at
  the head of the list, or take a block.\<close>

datatype round = Behind u64 | Again | Take u64 u64

text \<open>The test whether the next block on the list is obviously better.\<close>

definition next_is_better :: "hdr \<Rightarrow> u64 \<Rightarrow> u64 \<Rightarrow> gc \<Rightarrow> bool res" where
  "next_is_better hhdr size_avail size_needed s =
     (if hb_next hhdr = 0 then Inr False
      else andThen (hdr_of (hb_next hhdr) s) (\<lambda>thishdr.
        let next_size = hb_sz thishdr
        in if next_size <s size_avail \<and> size_needed \<le>s next_size
           then andThen (GC_is_black_listed (hb_next hhdr) size_needed s) (\<lambda>r. Inr (r = 0))
           else Inr False))"

text \<open>The first address from \<open>lasthbp\<close> on that is not black listed or lies behind \<open>search_end\<close>. Every
  round moves on by a block at least.\<close>

primrec skip_black_listed :: "nat \<Rightarrow> u64 \<Rightarrow> u64 \<Rightarrow> u64 \<Rightarrow> gc \<Rightarrow> u64 res" where
  "skip_black_listed 0 lasthbp search_end eff_size_needed s = Inl Diverge"
| "skip_black_listed (Suc n) lasthbp search_end eff_size_needed s =
     (if lasthbp \<le> search_end
      then andThen (GC_is_black_listed lasthbp eff_size_needed s)
             (\<lambda>r. if r \<noteq> 0 then skip_black_listed n r search_end eff_size_needed s else Inr lasthbp)
      else Inr lasthbp)"

definition BZERO :: "u64 \<Rightarrow> nat \<Rightarrow> (u64 \<Rightarrow> u64) \<Rightarrow> u64 \<Rightarrow> u64" where
  "BZERO p words mem = fold (\<lambda>i m. m(p + 8 * word_of_nat i := 0)) [0 ..< words] mem"

text \<open>The loop that turns a free block of \<open>size_needed = HBLKSIZE\<close> bytes blocks, all black listed, into blocks in use.\<close>

primrec drop_chunks :: "nat \<Rightarrow> u64 \<Rightarrow> u64 \<Rightarrow> u64 \<Rightarrow> u64 \<Rightarrow> gc \<Rightarrow> gc res" where
  "drop_chunks 0 hbp limit h hhdr s = Inl Diverge"
| "drop_chunks (Suc n) hbp limit h hhdr s =
     (if h < limit
      then
        andThen (if h \<noteq> hbp then GC_install_header h s else Inr (hhdr, s)) (\<lambda>(hhdr', s1).
        andThen
          (if hhdr' \<noteq> 0
           then andThen (setup_header hhdr' h HBLKSIZE PTRFREE 0 s1)
                  (\<lambda>(ok, s2). Inr (if GC_debugging_started s2 then s2\<lparr>gc_mem := BZERO h 512 (gc_mem s2)\<rparr> else s2))
           else Inr s1)
          (drop_chunks n hbp limit (h + HBLKSIZE) hhdr'))
      else Inr s)"

definition drop_block :: "u64 \<Rightarrow> u64 \<Rightarrow> u64 \<Rightarrow> gc \<Rightarrow> (round \<times> gc) res" where
  "drop_block hbp hhdr n s =
     andThen (get_hdr hhdr s) (\<lambda>hd.
       let total_size = hb_sz hd; limit = hbp + divHBLKSZ total_size * HBLKSIZE; prev = hb_prev hd;
           s1 = s\<lparr>GC_large_free_bytes := GC_large_free_bytes s - total_size, GC_bytes_dropped := GC_bytes_dropped s + total_size\<rparr>
       in andThen (GC_remove_from_fl_at hhdr n s1) (\<lambda>s2.
          andThen (drop_chunks (unat (divHBLKSZ total_size) + 1) hbp limit hbp hhdr s2) (\<lambda>s3.
            if prev = 0 then Inr (Again, s3) else andThen (HDR prev s3) (\<lambda>e. Inr (Behind e, s3)))))"

text \<open>The part of a round for blocks whose contents the collector scans, with a black list.\<close>

definition try_black_list :: "u64 \<Rightarrow> u64 \<Rightarrow> u8 \<Rightarrow> u64 \<Rightarrow> u64 \<Rightarrow> u64 \<Rightarrow> gc \<Rightarrow> (round \<times> gc) res" where
  "try_black_list n size_needed flags hbp hhdr size_avail s =
     (let eff_size_needed = (if flags AND IGNORE_OFF_PAGE \<noteq> 0 then HBLKSIZE else size_needed);
          search_end = hbp + size_avail - size_needed
      in andThen (skip_black_listed (unat (divHBLKSZ size_avail) + 2) hbp search_end eff_size_needed s) (\<lambda>lasthbp.
           let left = size_avail - (lasthbp - hbp)
           in if size_needed \<le>s left
              then
                if lasthbp = hbp then Inr (Take hbp hhdr, s)
                else andThen (GC_install_header lasthbp s) (\<lambda>(thishdr, s1).
                  if thishdr \<noteq> 0
                  then andThen (GC_split_block hbp hhdr lasthbp thishdr n s1) (\<lambda>s2. Inr (Take lasthbp thishdr, s2))
                  else Inr (Take hbp hhdr, s1))
              else if GC_black_list_spacing s <s size_needed \<and> GC_black_list_spacing s <s size_avail - size_needed
              then
                let w = GC_large_alloc_warn_suppressed s + 1
                in Inr (Take hbp hhdr, s\<lparr>GC_large_alloc_warn_suppressed := if GC_large_alloc_warn_interval s \<le>s w then 0 else w\<rparr>)
              else if left = 0 \<and> size_needed = HBLKSIZE \<and> \<not> GC_find_leak s
              then
                let s1 = s\<lparr>drop_count := drop_count s + 1\<rparr>
                in if drop_count s1 AND 3 = 0 then drop_block hbp hhdr n s1 else Inr (Behind hhdr, s1)
              else Inr (Behind hhdr, s)))"

definition try_block :: "u64 \<Rightarrow> u64 \<Rightarrow> u8 \<Rightarrow> u8 \<Rightarrow> bool \<Rightarrow> u64 \<Rightarrow> u64 \<Rightarrow> gc \<Rightarrow> (round \<times> gc) res" where
  "try_block n size_needed kind flags may_split hbp hhdr s =
     andThen (get_hdr hhdr s) (\<lambda>hd.
       let size_avail = hb_sz hd
       in if size_avail <s size_needed then Inr (Behind hhdr, s)
          else if size_avail \<noteq> size_needed \<and> \<not> may_split then Inr (Behind hhdr, s)
          else andThen (if size_avail \<noteq> size_needed then next_is_better hd size_avail size_needed s else Inr False) (\<lambda>better.
            if better then Inr (Behind hhdr, s)
            else if \<not> IS_UNCOLLECTABLE kind \<and> (kind \<noteq> PTRFREE \<or> 2 * HBLKSIZE <s size_needed)
            then try_black_list n size_needed flags hbp hhdr size_avail s
            else Inr (Take hbp hhdr, s)))"

text \<open>The search. A list may be started again at most as often as blocks are dropped from it, so a
  number of rounds is given.\<close>

primrec search_fl :: "nat \<Rightarrow> u64 \<Rightarrow> u64 \<Rightarrow> u8 \<Rightarrow> u8 \<Rightarrow> bool \<Rightarrow> u64 \<Rightarrow> gc \<Rightarrow> ((u64 \<times> u64) \<times> gc) res" where
  "search_fl 0 n size_needed kind flags may_split hbp s = Inl Diverge"
| "search_fl (Suc k) n size_needed kind flags may_split hbp s =
     (if hbp = 0 then Inr ((0, 0), s)
      else andThen (HDR hbp s) (\<lambda>hhdr.
        andThen (try_block n size_needed kind flags may_split hbp hhdr s) (\<lambda>(r, s1).
          case r of
            Behind e \<Rightarrow> andThen (get_hdr e s1) (\<lambda>hd. search_fl k n size_needed kind flags may_split (hb_next hd) s1)
          | Again \<Rightarrow> andThen (read_at (GC_hblkfreelist s1) n) (\<lambda>h. search_fl k n size_needed kind flags may_split h s1)
          | Take h e \<Rightarrow> andThen (GC_get_first_part h e size_needed n s1) (\<lambda>(h', s2). Inr ((h', e), s2)))))"

definition GC_allochblk_nth :: "nat \<Rightarrow> u64 \<Rightarrow> u8 \<Rightarrow> u8 \<Rightarrow> u64 \<Rightarrow> bool \<Rightarrow> gc \<Rightarrow> (u64 \<times> gc) res" where
  "GC_allochblk_nth rounds sz kind flags n may_split s =
     (let size_needed = HBLKSIZE * OBJ_SZ_TO_BLOCKS_CHECKED sz
      in andThen (read_at (GC_hblkfreelist s) n) (\<lambda>first.
         andThen (search_fl rounds n size_needed kind flags may_split first s) (\<lambda>((hbp, hhdr), s1).
           if hbp = 0 then Inr (0, s1)
           else andThen (GC_install_counts hbp size_needed s1) (\<lambda>(ok, s2).
             if \<not> ok then Inr (0, s2)
             else andThen (setup_header hhdr hbp sz kind flags s2) (\<lambda>(ok, s3).
               if \<not> ok then andThen (GC_remove_counts hbp size_needed s3) (\<lambda>s4. Inr (0, s4))
               else Inr (hbp, s3\<lparr>GC_fail_count := 0, GC_large_free_bytes := GC_large_free_bytes s3 - size_needed\<rparr>))))))"

section \<open>Allocation\<close>

primrec try_lists :: "nat \<Rightarrow> nat \<Rightarrow> u64 \<Rightarrow> u8 \<Rightarrow> u8 \<Rightarrow> u64 \<Rightarrow> u64 \<Rightarrow> gc \<Rightarrow> (u64 \<times> gc) res" where
  "try_lists 0 rounds sz kind flags start_list split_limit s = Inl Diverge"
| "try_lists (Suc k) rounds sz kind flags start_list split_limit s =
     (if start_list \<le> split_limit
      then andThen (GC_allochblk_nth rounds sz kind flags start_list True s) (\<lambda>(result, s1).
        if result \<noteq> 0 then Inr (result, s1)
        else try_lists k rounds sz kind flags (start_list + 1) split_limit s1)
      else Inr (0, s))"

definition GC_allochblk :: "nat \<Rightarrow> u64 \<Rightarrow> u64 \<Rightarrow> u8 \<Rightarrow> u8 \<Rightarrow> gc \<Rightarrow> (u64 \<times> gc) res" where
  "GC_allochblk rounds stack_size sz kind flags s =
     (let blocks = OBJ_SZ_TO_BLOCKS_CHECKED sz
      in if blocks * HBLKSIZE <s 0 then Inr (0, s)
         else
           let start_list = GC_hblk_fl_from_blocks blocks
           in andThen (GC_allochblk_nth rounds sz kind flags start_list False s) (\<lambda>(result, s1).
                if result \<noteq> 0 then Inr (result, s1)
                else
                  let (more, s2) =
                        (if GC_use_entire_heap s1 \<or> GC_dont_gc s1 \<or>
                            GC_heapsize s1 - GC_large_free_bytes s1 < GC_requested_heapsize s1 \<or> GC_incremental s1
                         then (True, s1)
                         else case GC_should_collect stack_size s1 of (collect, s') \<Rightarrow> (\<not> collect, s'));
                      split_limit =
                        (if more then N_HBLK_FLS
                         else if drop_bit 4 (GC_heapsize s2) < GC_finalizer_bytes_freed s2 then 0
                         else GC_enough_large_bytes_left s2)
                  in try_lists 62 rounds sz kind flags (if start_list < 32 then start_list + 1 else start_list) split_limit s2))"

section \<open>Freeing\<close>

definition coalesce_next :: "u64 \<Rightarrow> u64 \<Rightarrow> u64 \<Rightarrow> gc \<Rightarrow> gc res" where
  "coalesce_next hbp hhdr sz s =
     andThen (HDR (hbp + sz) s) (\<lambda>nexthdr.
       if nexthdr = 0 then Inr s
       else andThen (get_hdr nexthdr s) (\<lambda>nx.
         if HBLK_IS_FREE nx \<and> 0 <s sz + hb_sz nx
         then
           andThen (GC_remove_from_fl nexthdr s) (\<lambda>s1.
           andThen (mod_hdr hhdr (\<lambda>x. x\<lparr>hb_sz := hb_sz x + hb_sz nx\<rparr>) s1) (\<lambda>s2.
             GC_remove_header (hbp + sz) s2))
         else Inr s))"

definition coalesce_prev :: "u64 \<Rightarrow> u64 \<Rightarrow> u64 \<Rightarrow> gc \<Rightarrow> ((u64 \<times> u64) \<times> gc) res" where
  "coalesce_prev hbp hhdr prev s =
     (if prev = 0 then Inr ((hbp, hhdr), s)
      else andThen (HDR prev s) (\<lambda>prevhdr.
        andThen (get_hdr prevhdr s) (\<lambda>pv.
        andThen (get_hdr hhdr s) (\<lambda>hd.
          if 0 <s hb_sz hd + hb_sz pv
          then
            andThen (GC_remove_from_fl prevhdr s) (\<lambda>s1.
            andThen (mod_hdr prevhdr (\<lambda>x. x\<lparr>hb_sz := hb_sz x + hb_sz hd\<rparr>) s1) (\<lambda>s2.
            andThen (GC_remove_header hbp s2) (\<lambda>s3. Inr ((prev, prevhdr), s3))))
          else Inr ((hbp, hhdr), s)))))"

definition GC_freehblk :: "u64 \<Rightarrow> gc \<Rightarrow> gc res" where
  "GC_freehblk hbp s =
     andThen (HDR hbp s) (\<lambda>hhdr.
     andThen (get_hdr hhdr s) (\<lambda>hd.
       let sz = HBLKSIZE * OBJ_SZ_TO_BLOCKS (hb_sz hd)
       in if sz <s 0 then Inl (Panic ''Deallocating excessively large block.  Too large an allocation?'')
          else
            andThen (GC_remove_counts hbp sz s) (\<lambda>s1.
            andThen (mod_hdr hhdr (\<lambda>x. x\<lparr>hb_sz := sz\<rparr>) s1) (\<lambda>s2.
              if HBLK_IS_FREE hd then Inl (Panic ''Duplicate large block deallocation'')
              else
                andThen (mod_hdr hhdr (\<lambda>x. x\<lparr>hb_flags := hb_flags x OR FREE_BLK\<rparr>) s2) (\<lambda>s3.
                andThen (GC_free_block_ending_at hbp s3) (\<lambda>prev.
                andThen (coalesce_next hbp hhdr sz s3) (\<lambda>s4.
                andThen (coalesce_prev hbp hhdr prev s4) (\<lambda>((h, e), s5).
                  GC_add_to_fl h e (s5\<lparr>GC_large_free_bytes := GC_large_free_bytes s5 + sz\<rparr>)))))))))"

end
