(* ===== verification/Atomix_GC_Sweep.thy ===== *)
theory Atomix_GC_Sweep
  imports Atomix_GC_Alloc
begin

unbundle bit_operations_syntax

text \<open>
  Free lists of objects inside a block: how they are built in a new block (\<open>new_hblk.c\<close>) and
  rebuilt from the mark bits after a collection (\<open>reclaim.c\<close>). The link of a free object is its
  first word. Leaks are recorded as with \<open>GC_findleak_delay_free\<close> unset.
\<close>

section \<open>New blocks\<close>

text \<open>A loop \<open>for (; p < lim; p += step) body\<close> whose final \<open>p\<close> is used.\<close>

primrec for_loop :: "nat \<Rightarrow> u64 \<Rightarrow> u64 \<Rightarrow> (u64 \<Rightarrow> 's \<Rightarrow> 's) \<Rightarrow> u64 \<Rightarrow> 's \<Rightarrow> (u64 \<times> 's) res" where
  "for_loop 0 step lim body p s = Inl Diverge"
| "for_loop (Suc n) step lim body p s =
     (if p < lim then for_loop n step lim body (p + step) (body p s) else Inr (p, s))"

type_synonym mem = "u64 \<Rightarrow> u64"

text \<open>A page has 512 words, so no loop over it has more rounds.\<close>

definition GC_build_fl_clear2 :: "u64 \<Rightarrow> u64 \<Rightarrow> mem \<Rightarrow> (u64 \<times> mem) res" where
  "GC_build_fl_clear2 h ofl mem =
     andThen
       (for_loop 513 32 (h + HBLKSIZE) (\<lambda>p m. m(p := p - 16, p + 8 := 0, p + 16 := p, p + 24 := 0)) (h + 32)
         (mem(h := ofl, h + 8 := 0, h + 16 := h, h + 24 := 0)))
       (\<lambda>(p, m). Inr (p - 16, m))"

definition GC_build_fl_clear4 :: "u64 \<Rightarrow> u64 \<Rightarrow> mem \<Rightarrow> (u64 \<times> mem) res" where
  "GC_build_fl_clear4 h ofl mem =
     andThen
       (for_loop 513 32 (h + HBLKSIZE) (\<lambda>p m. m(p := p - 32, p + 8 := 0, p + 16 := 0, p + 24 := 0)) (h + 32)
         (mem(h := ofl, h + 8 := 0, h + 16 := 0, h + 24 := 0)))
       (\<lambda>(p, m). Inr (p - 32, m))"

definition GC_build_fl2 :: "u64 \<Rightarrow> u64 \<Rightarrow> mem \<Rightarrow> (u64 \<times> mem) res" where
  "GC_build_fl2 h ofl mem =
     andThen
       (for_loop 513 32 (h + HBLKSIZE) (\<lambda>p m. m(p := p - 16, p + 16 := p)) (h + 32) (mem(h := ofl, h + 16 := h)))
       (\<lambda>(p, m). Inr (p - 16, m))"

definition GC_build_fl4 :: "u64 \<Rightarrow> u64 \<Rightarrow> mem \<Rightarrow> (u64 \<times> mem) res" where
  "GC_build_fl4 h ofl mem =
     andThen
       (for_loop 513 64 (h + HBLKSIZE) (\<lambda>p m. m(p := p - 32, p + 32 := p)) (h + 64) (mem(h := ofl, h + 32 := h)))
       (\<lambda>(p, m). Inr (p - 32, m))"

text \<open>The general loop; \<open>step\<close> is the size in bytes.\<close>

primrec link_objects :: "nat \<Rightarrow> u64 \<Rightarrow> u64 \<Rightarrow> u64 \<Rightarrow> u64 \<Rightarrow> mem \<Rightarrow> (u64 \<times> mem) res" where
  "link_objects 0 step last_object p prev mem = Inl Diverge"
| "link_objects (Suc n) step last_object p prev mem =
     (if p \<le> last_object then link_objects n step last_object (p + step) p (mem(p := prev)) else Inr (p, mem))"

definition GC_build_fl :: "u64 \<Rightarrow> u64 \<Rightarrow> bool \<Rightarrow> u64 \<Rightarrow> mem \<Rightarrow> (u64 \<times> mem) res" where
  "GC_build_fl h sz clear ofl mem =
     (if sz = 2 then if clear then GC_build_fl_clear2 h ofl mem else GC_build_fl2 h ofl mem
      else if sz = 4 then if clear then GC_build_fl_clear4 h ofl mem else GC_build_fl4 h ofl mem
      else
        let mem1 = (if clear then BZERO h 512 mem else mem)
        in andThen (link_objects 513 (8 * sz) (h + HBLKSIZE - 8 * sz) (h + 8 * sz) h mem1)
             (\<lambda>(p, m). Inr (p - 8 * sz, m(h := ofl))))"

definition kind_freelist :: "u8 \<Rightarrow> u64 \<Rightarrow> gc \<Rightarrow> u64 res" where
  "kind_freelist kind gran s = andThen (read_at (GC_obj_kinds s) (ucast kind)) (\<lambda>ok. read_at (ok_freelist ok) gran)"

definition set_kind_freelist :: "u8 \<Rightarrow> u64 \<Rightarrow> u64 \<Rightarrow> gc \<Rightarrow> gc res" where
  "set_kind_freelist kind gran p s =
     andThen (read_at (GC_obj_kinds s) (ucast kind)) (\<lambda>ok.
     andThen (write_at (ok_freelist ok) gran p) (\<lambda>fl.
     andThen (write_at (GC_obj_kinds s) (ucast kind) (ok\<lparr>ok_freelist := fl\<rparr>)) (\<lambda>kinds.
       Inr (s\<lparr>GC_obj_kinds := kinds\<rparr>))))"

definition GC_new_hblk :: "nat \<Rightarrow> u64 \<Rightarrow> u64 \<Rightarrow> u8 \<Rightarrow> gc \<Rightarrow> gc res" where
  "GC_new_hblk rounds stack_size gran kind s =
     andThen (read_at (GC_obj_kinds s) (ucast kind)) (\<lambda>ok.
       let clear = (ok_init ok \<or> GC_debugging_started s)
       in andThen (GC_allochblk rounds stack_size (GRANULES_TO_BYTES gran) kind 0 s) (\<lambda>(h, s1).
            if h = 0 then Inr s1
            else
              andThen (if IS_UNCOLLECTABLE kind then update_hdr_of h GC_set_hdr_marks s1 else Inr s1) (\<lambda>s2.
              andThen (kind_freelist kind gran s2) (\<lambda>list.
              andThen (GC_build_fl h (GRANULES_TO_WORDS gran) clear list (gc_mem s2)) (\<lambda>(p, m).
                set_kind_freelist kind gran p (s2\<lparr>gc_mem := m\<rparr>))))))"

section \<open>Sweeping a block\<close>

definition GC_block_empty :: "hdr \<Rightarrow> bool" where
  "GC_block_empty hhdr \<longleftrightarrow> hb_n_marks hhdr = 0"

definition GC_block_nearly_full :: "hdr \<Rightarrow> u64 \<Rightarrow> bool" where
  "GC_block_nearly_full hhdr sz \<longleftrightarrow> HBLK_OBJS sz * 7 div 8 < hb_n_marks hhdr"

text \<open>All words but the first; the result is the address behind the object.\<close>

definition GC_clear_block :: "u64 \<Rightarrow> u64 \<Rightarrow> u64 \<Rightarrow> mem \<Rightarrow> ((u64 \<times> u64) \<times> mem) res" where
  "GC_clear_block p sz count mem =
     andThen (for_loop 513 8 (p + sz) (\<lambda>q m. m(q := 0)) (p + 8) mem) (\<lambda>(q, m). Inr ((q, count + sz), m))"

primrec reclaim_clear_from :: "nat \<Rightarrow> hdr \<Rightarrow> u64 \<Rightarrow> u64 \<Rightarrow> u64 \<Rightarrow> u64 \<Rightarrow> u64 \<times> u64 \<Rightarrow> mem \<Rightarrow> ((u64 \<times> u64) \<times> mem) res" where
  "reclaim_clear_from 0 hhdr sz plim p bit_no acc mem = Inl Diverge"
| "reclaim_clear_from (Suc n) hhdr sz plim p bit_no acc mem =
     (if p \<le> plim
      then andThen (mark_bit_from_hdr hhdr bit_no) (\<lambda>marked.
        if marked then reclaim_clear_from n hhdr sz plim (p + sz) (bit_no + MARK_BIT_OFFSET sz) acc mem
        else
          andThen (GC_clear_block p sz (snd acc) (mem(p := fst acc))) (\<lambda>((q, count), m).
            reclaim_clear_from n hhdr sz plim q (bit_no + MARK_BIT_OFFSET sz) (p, count) m))
      else Inr (acc, mem))"

definition GC_reclaim_clear :: "u64 \<Rightarrow> hdr \<Rightarrow> u64 \<Rightarrow> u64 \<Rightarrow> u64 \<Rightarrow> mem \<Rightarrow> ((u64 \<times> u64) \<times> mem) res" where
  "GC_reclaim_clear hbp hhdr sz list count mem =
     reclaim_clear_from 513 hhdr sz (hbp + HBLKSIZE - sz) hbp 0 (list, count) mem"

primrec reclaim_uninit_from :: "nat \<Rightarrow> hdr \<Rightarrow> u64 \<Rightarrow> u64 \<Rightarrow> u64 \<Rightarrow> u64 \<Rightarrow> u64 \<times> u64 \<Rightarrow> mem \<Rightarrow> ((u64 \<times> u64) \<times> mem) res" where
  "reclaim_uninit_from 0 hhdr sz plim p bit_no acc mem = Inl Diverge"
| "reclaim_uninit_from (Suc n) hhdr sz plim p bit_no acc mem =
     (if p \<le> plim
      then andThen (mark_bit_from_hdr hhdr bit_no) (\<lambda>marked.
        if marked then reclaim_uninit_from n hhdr sz plim (p + sz) (bit_no + MARK_BIT_OFFSET sz) acc mem
        else
          reclaim_uninit_from n hhdr sz plim (p + sz) (bit_no + MARK_BIT_OFFSET sz) (p, snd acc + sz) (mem(p := fst acc)))
      else Inr (acc, mem))"

definition GC_reclaim_uninit :: "u64 \<Rightarrow> hdr \<Rightarrow> u64 \<Rightarrow> u64 \<Rightarrow> u64 \<Rightarrow> mem \<Rightarrow> ((u64 \<times> u64) \<times> mem) res" where
  "GC_reclaim_uninit hbp hhdr sz list count mem =
     andThen (reclaim_uninit_from 513 hhdr sz (hbp + HBLKSIZE - sz) hbp 0 (list, 0) mem)
       (\<lambda>((l, n_bytes_found), m). Inr ((l, count + n_bytes_found), m))"

definition GC_add_leaked :: "u64 \<Rightarrow> gc \<Rightarrow> gc res" where
  "GC_add_leaked leaked s =
     (let s1 = s\<lparr>GC_have_errors := True\<rparr>
      in if length (GC_leaked s1) < 40 then GC_set_mark_bit leaked (s1\<lparr>GC_leaked := GC_leaked s1 @ [leaked]\<rparr>) else Inr s1)"

text \<open>The header is read anew in every round, as \<open>GC_add_leaked\<close> may set its mark bits.\<close>

primrec reclaim_check_from :: "nat \<Rightarrow> u64 \<Rightarrow> u64 \<Rightarrow> u64 \<Rightarrow> u64 \<Rightarrow> u64 \<Rightarrow> gc \<Rightarrow> gc res" where
  "reclaim_check_from 0 hhdr sz plim p bit_no s = Inl Diverge"
| "reclaim_check_from (Suc n) hhdr sz plim p bit_no s =
     (if p \<le> plim
      then andThen (get_hdr hhdr s) (\<lambda>x. andThen (mark_bit_from_hdr x bit_no) (\<lambda>marked.
        andThen (if marked then Inr s else GC_add_leaked p s)
          (reclaim_check_from n hhdr sz plim (p + sz) (bit_no + MARK_BIT_OFFSET sz))))
      else Inr s)"

definition GC_reclaim_check :: "u64 \<Rightarrow> u64 \<Rightarrow> u64 \<Rightarrow> gc \<Rightarrow> gc res" where
  "GC_reclaim_check hbp hhdr sz s = reclaim_check_from 513 hhdr sz (hbp + HBLKSIZE - sz) hbp 0 s"

text \<open>The result is the new list and count.\<close>

definition GC_reclaim_generic :: "u64 \<Rightarrow> u64 \<Rightarrow> u64 \<Rightarrow> bool \<Rightarrow> u64 \<Rightarrow> u64 \<Rightarrow> gc \<Rightarrow> ((u64 \<times> u64) \<times> gc) res" where
  "GC_reclaim_generic hbp hhdr sz init list count s =
     andThen (get_hdr hhdr s) (\<lambda>x.
     andThen
       (if init \<or> GC_debugging_started s then GC_reclaim_clear hbp x sz list count (gc_mem s)
        else GC_reclaim_uninit hbp x sz list count (gc_mem s)) (\<lambda>(r, m).
       let s1 = s\<lparr>gc_mem := m\<rparr>
       in if IS_UNCOLLECTABLE (hb_obj_kind x)
          then andThen (GC_set_hdr_marks x) (\<lambda>x'. andThen (mod_hdr hhdr (\<lambda>_. x') s1) (\<lambda>s2. Inr (r, s2)))
          else Inr (r, s1)))"

definition GC_reclaim_small_nonempty_block :: "u64 \<Rightarrow> u64 \<Rightarrow> bool \<Rightarrow> gc \<Rightarrow> gc res" where
  "GC_reclaim_small_nonempty_block hbp sz report_if_found s =
     andThen (HDR hbp s) (\<lambda>hhdr.
     andThen (mod_hdr hhdr (\<lambda>x. x\<lparr>hb_last_reclaimed := ucast (GC_gc_no s)\<rparr>) s) (\<lambda>s1.
       if report_if_found then GC_reclaim_check hbp hhdr sz s1
       else
         andThen (get_hdr hhdr s1) (\<lambda>x.
         andThen (read_at (GC_obj_kinds s1) (ucast (hb_obj_kind x))) (\<lambda>ok.
         andThen (kind_freelist (hb_obj_kind x) (BYTES_TO_GRANULES sz) s1) (\<lambda>flh.
         andThen (GC_reclaim_generic hbp hhdr sz (ok_init ok) flh (GC_bytes_found s1) s1) (\<lambda>((l, count), s2).
           set_kind_freelist (hb_obj_kind x) (BYTES_TO_GRANULES sz) l (s2\<lparr>GC_bytes_found := count\<rparr>)))))))"

section \<open>Sweeping the heap\<close>

definition kind_reclaim :: "u8 \<Rightarrow> u64 \<Rightarrow> gc \<Rightarrow> u64 res" where
  "kind_reclaim kind gran s = andThen (read_at (GC_obj_kinds s) (ucast kind)) (\<lambda>ok. read_at (ok_reclaim_list ok) gran)"

definition set_kind_reclaim :: "u8 \<Rightarrow> u64 \<Rightarrow> u64 \<Rightarrow> gc \<Rightarrow> gc res" where
  "set_kind_reclaim kind gran h s =
     andThen (read_at (GC_obj_kinds s) (ucast kind)) (\<lambda>ok.
     andThen (write_at (ok_reclaim_list ok) gran h) (\<lambda>rl.
     andThen (write_at (GC_obj_kinds s) (ucast kind) (ok\<lparr>ok_reclaim_list := rl\<rparr>)) (\<lambda>kinds.
       Inr (s\<lparr>GC_obj_kinds := kinds\<rparr>))))"

text \<open>Bytes in use are counted apart for blocks with and without pointers.\<close>

definition add_in_use :: "hdr \<Rightarrow> u64 \<Rightarrow> gc \<Rightarrow> gc" where
  "add_in_use hhdr n s =
     (if hb_descr hhdr = 0 then s\<lparr>GC_atomic_in_use := GC_atomic_in_use s + n\<rparr>
      else s\<lparr>GC_composite_in_use := GC_composite_in_use s + n\<rparr>)"

text \<open>At the end the code reads the header of the block again, also when it was just freed and its
  header removed.\<close>

definition GC_reclaim_block :: "bool \<Rightarrow> u64 \<Rightarrow> gc \<Rightarrow> gc res" where
  "GC_reclaim_block report_if_found hbp s =
     andThen (HDR hbp s) (\<lambda>hhdr.
     andThen (get_hdr hhdr s) (\<lambda>x.
     andThen (read_at (GC_obj_kinds s) (ucast (hb_obj_kind x))) (\<lambda>ok.
       let sz = hb_sz x
       in if MAXOBJBYTES < sz
          then andThen (mark_bit_from_hdr x 0) (\<lambda>marked.
            if marked then Inr (add_in_use x sz s)
            else if report_if_found then GC_add_leaked hbp s
            else
              let blocks = OBJ_SZ_TO_BLOCKS sz;
                  s1 = (if 1 < blocks then s\<lparr>GC_large_allocd_bytes := GC_large_allocd_bytes s - blocks * HBLKSIZE\<rparr> else s)
              in GC_freehblk hbp (s1\<lparr>GC_bytes_found := GC_bytes_found s1 + sz\<rparr>))
          else
            andThen
              (if report_if_found then GC_reclaim_small_nonempty_block hbp sz True s
               else if GC_block_empty x then GC_freehblk hbp (s\<lparr>GC_bytes_found := GC_bytes_found s + HBLKSIZE\<rparr>)
               else if (GC_find_leak s \<or> \<not> GC_block_nearly_full x sz) \<and> ok_reclaim_list ok \<noteq> []
               then
                 andThen (kind_reclaim (hb_obj_kind x) (BYTES_TO_GRANULES sz) s) (\<lambda>rlh.
                 andThen (mod_hdr hhdr (\<lambda>y. y\<lparr>hb_next := rlh\<rparr>) s)
                   (set_kind_reclaim (hb_obj_kind x) (BYTES_TO_GRANULES sz) hbp))
               else Inr s) (\<lambda>s1.
            andThen (get_hdr hhdr s1) (\<lambda>y. Inr (add_in_use y (sz * hb_n_marks y) s1))))))"

text \<open>All links of the list that starts at \<open>p\<close> become NULL.\<close>

primrec clear_links :: "nat \<Rightarrow> u64 \<Rightarrow> mem \<Rightarrow> mem res" where
  "clear_links 0 p m = Inl Diverge"
| "clear_links (Suc n) p m = (if m p \<noteq> 0 then clear_links n (m p) (m(p := 0)) else Inr m)"

text \<open>The value of the header of the list is given; the header itself becomes NULL.\<close>

definition GC_clear_fl_links :: "nat \<Rightarrow> u64 \<Rightarrow> mem \<Rightarrow> mem res" where
  "GC_clear_fl_links rounds flp m = (if flp \<noteq> 0 then clear_links rounds flp m else Inr m)"

fun clear_free_lists :: "nat \<Rightarrow> bool \<Rightarrow> u64 list \<Rightarrow> mem \<Rightarrow> mem res" where
  "clear_free_lists rounds should_clobber [] m = Inr m"
| "clear_free_lists rounds should_clobber (fop # fops) m =
     andThen (if fop \<noteq> 0 \<and> should_clobber then GC_clear_fl_links rounds fop m else Inr m)
       (clear_free_lists rounds should_clobber fops)"

fun reset_kinds :: "nat \<Rightarrow> bool \<Rightarrow> obj_kind list \<Rightarrow> mem \<Rightarrow> (obj_kind list \<times> mem) res" where
  "reset_kinds rounds report_if_found [] m = Inr ([], m)"
| "reset_kinds rounds report_if_found (ok # oks) m =
     andThen
       (if ok_reclaim_list ok = [] then Inr (ok, m)
        else
          let ok1 = ok\<lparr>ok_reclaim_list := replicate (length (ok_reclaim_list ok)) 0\<rparr>
          in if report_if_found then Inr (ok1, m)
             else
               andThen (clear_free_lists rounds (ok_descriptor ok \<noteq> 0) (ok_freelist ok) m)
                 (\<lambda>m'. Inr (ok1\<lparr>ok_freelist := replicate (length (ok_freelist ok)) 0\<rparr>, m')))
       (\<lambda>(ok', m1). andThen (reset_kinds rounds report_if_found oks m1) (\<lambda>(oks', m2). Inr (ok' # oks', m2)))"

definition GC_start_reclaim :: "nat \<Rightarrow> bool \<Rightarrow> gc \<Rightarrow> gc res" where
  "GC_start_reclaim rounds report_if_found s =
     andThen (reset_kinds rounds report_if_found (GC_obj_kinds s) (gc_mem s)) (\<lambda>(kinds, m).
       GC_apply_to_all_blocks (GC_reclaim_block report_if_found)
         (s\<lparr>GC_composite_in_use := 0, GC_atomic_in_use := 0, GC_obj_kinds := kinds, gc_mem := m\<rparr>))"

text \<open>A block is taken off the reclaim list before it is swept, so the list gets shorter.\<close>

primrec continue_reclaim :: "nat \<Rightarrow> u64 \<Rightarrow> u8 \<Rightarrow> gc \<Rightarrow> gc res" where
  "continue_reclaim 0 sz kind s = Inl Diverge"
| "continue_reclaim (Suc n) sz kind s =
     andThen (kind_reclaim kind sz s) (\<lambda>hbp.
       if hbp = 0 then Inr s
       else
         andThen (hdr_of hbp s) (\<lambda>hhdr.
         andThen (set_kind_reclaim kind sz (hb_next hhdr) s) (\<lambda>s1.
         andThen (GC_reclaim_small_nonempty_block hbp (hb_sz hhdr) False s1) (\<lambda>s2.
         andThen (kind_freelist kind sz s2) (\<lambda>flh.
           if flh \<noteq> 0 then Inr s2 else continue_reclaim n sz kind s2)))))"

definition GC_continue_reclaim :: "u64 \<Rightarrow> u8 \<Rightarrow> gc \<Rightarrow> gc res" where
  "GC_continue_reclaim sz kind s =
     andThen (read_at (GC_obj_kinds s) (ucast kind)) (\<lambda>ok.
       if ok_reclaim_list ok = [] then Inr s else continue_reclaim (Suc (length (gc_hdrs s))) sz kind s)"

text \<open>\<open>stops\<close> are the answers of \<open>stop_func\<close>; behind their end it is NULL or says no. Those that were
  not asked for are part of the result.\<close>

primrec reclaim_list :: "nat \<Rightarrow> bool \<Rightarrow> u64 \<Rightarrow> u8 \<Rightarrow> bool list \<Rightarrow> gc \<Rightarrow> ((bool \<times> bool list) \<times> gc) res" where
  "reclaim_list 0 ignore_old sz kind stops s = Inl Diverge"
| "reclaim_list (Suc n) ignore_old sz kind stops s =
     andThen (kind_reclaim kind sz s) (\<lambda>hbp.
       if hbp = 0 then Inr ((True, stops), s)
       else if stops \<noteq> [] \<and> hd stops then Inr ((False, tl stops), s)
       else
         andThen (hdr_of hbp s) (\<lambda>hhdr.
         andThen (set_kind_reclaim kind sz (hb_next hhdr) s) (\<lambda>s1.
         andThen
           (if \<not> ignore_old \<or> ucast (hb_last_reclaimed hhdr) = GC_gc_no s1 - 1
            then GC_reclaim_small_nonempty_block hbp (hb_sz hhdr) False s1 else Inr s1)
           (reclaim_list n ignore_old sz kind (tl stops)))))"

fun reclaim_lists :: "(u8 \<times> u64) list \<Rightarrow> bool \<Rightarrow> bool list \<Rightarrow> gc \<Rightarrow> ((bool \<times> bool list) \<times> gc) res" where
  "reclaim_lists [] ignore_old stops s = Inr ((True, stops), s)"
| "reclaim_lists ((kind, sz) # rest) ignore_old stops s =
     andThen (reclaim_list (Suc (length (gc_hdrs s))) ignore_old sz kind stops s) (\<lambda>((go_on, stops'), s').
       if go_on then reclaim_lists rest ignore_old stops' s' else Inr ((False, stops'), s'))"

definition GC_reclaim_all :: "bool list \<Rightarrow> bool \<Rightarrow> gc \<Rightarrow> ((bool \<times> bool list) \<times> gc) res" where
  "GC_reclaim_all stops ignore_old s =
     reclaim_lists
       [(word_of_nat kind, word_of_nat sz). kind \<leftarrow> [0 ..< length (GC_obj_kinds s)],
          ok_reclaim_list (GC_obj_kinds s ! kind) \<noteq> [], sz \<leftarrow> [1 ..< 129]]
       ignore_old stops s"

section \<open>Counting and listing\<close>

primrec set_bits_from :: "nat \<Rightarrow> u64 \<Rightarrow> u32 \<Rightarrow> u32" where
  "set_bits_from 0 m result = result"
| "set_bits_from (Suc n) m result =
     (if 0 < m then set_bits_from n (drop_bit 1 m) (if m AND 1 \<noteq> 0 then result + 1 else result) else result)"

text \<open>A word has 64 bits, so the loop has at most 64 rounds.\<close>

definition set_bits :: "u64 \<Rightarrow> u32" where
  "set_bits n = set_bits_from 64 n 0"

definition GC_n_set_marks :: "hdr \<Rightarrow> u32" where
  "GC_n_set_marks hhdr = sum_list (map set_bits (hb_marks hhdr))"

text \<open>The marked objects of a block and their size, in the order the procedure is called on them.\<close>

primrec enumerate_from :: "nat \<Rightarrow> hdr \<Rightarrow> u64 \<Rightarrow> u64 \<Rightarrow> u64 \<Rightarrow> (u64 \<times> u64) list res" where
  "enumerate_from 0 hhdr plim p bit_no = Inl Diverge"
| "enumerate_from (Suc n) hhdr plim p bit_no =
     (if p \<le> plim
      then andThen (mark_bit_from_hdr hhdr bit_no) (\<lambda>marked.
        andThen (enumerate_from n hhdr plim (p + hb_sz hhdr) (bit_no + MARK_BIT_OFFSET (hb_sz hhdr))) (\<lambda>rest.
          Inr (if marked then (p, hb_sz hhdr) # rest else rest)))
      else Inr [])"

definition GC_do_enumerate_reachable_objects :: "u64 \<Rightarrow> gc \<Rightarrow> (u64 \<times> u64) list res" where
  "GC_do_enumerate_reachable_objects hbp s =
     andThen (hdr_of hbp s) (\<lambda>hhdr.
       if GC_block_empty hhdr then Inr []
       else
         let sz = hb_sz hhdr; plim = (if MAXOBJBYTES < sz then hbp else hbp + HBLKSIZE - sz)
         in enumerate_from 513 hhdr plim hbp 0)"


end
