(* ===== verification/Atomix_GC_Sweep_Laws.thy ===== *)
theory Atomix_GC_Sweep_Laws
  imports Atomix_GC_Sweep
begin

unbundle bit_operations_syntax

text \<open>
  What building and sweeping a block do: the free list they make is exactly the list of the
  free objects, nothing outside the free objects changes, and the special cases for small objects
  do the same as the general loop.
\<close>

section \<open>Addresses in a block\<close>

text \<open>The byte \<open>k\<close> of the block \<open>h\<close>. No block touches the end of the address space.\<close>

definition ofs :: "u64 \<Rightarrow> nat \<Rightarrow> u64" where
  "ofs h k = h + word_of_nat k"

definition fits_page :: "u64 \<Rightarrow> bool" where
  "fits_page h \<longleftrightarrow> unat h + 8192 < 2 ^ 64"

lemma unat_ofs: "fits_page h \<Longrightarrow> k \<le> 8192 \<Longrightarrow> unat (ofs h k) = unat h + k"
  by (simp add: ofs_def fits_page_def unat_word_ariths unat_of_nat)

lemma ofs_less: "fits_page h \<Longrightarrow> j \<le> 8192 \<Longrightarrow> k \<le> 8192 \<Longrightarrow> ofs h j < ofs h k \<longleftrightarrow> j < k"
  by (simp add: word_less_nat_alt unat_ofs)

lemma ofs_le: "fits_page h \<Longrightarrow> j \<le> 8192 \<Longrightarrow> k \<le> 8192 \<Longrightarrow> ofs h j \<le> ofs h k \<longleftrightarrow> j \<le> k"
  by (simp add: word_le_nat_alt unat_ofs)

lemma ofs_eq: "fits_page h \<Longrightarrow> j \<le> 8192 \<Longrightarrow> k \<le> 8192 \<Longrightarrow> ofs h j = ofs h k \<longleftrightarrow> j = k"
  by (metis unat_ofs add_left_cancel)

lemma ofs_0 [simp]: "ofs h 0 = h"
  by (simp add: ofs_def)

lemma ofs_add: "ofs h j + word_of_nat k = ofs h (j + k)"
  by (simp add: ofs_def)

lemma ofs_diff: "k \<le> j \<Longrightarrow> ofs h j - word_of_nat k = ofs h (j - k)"
  by (simp add: ofs_def of_nat_diff)

text \<open>A loop over addresses of the block does a fixed number of rounds.\<close>

lemma for_loop_ofs:
  assumes "fits_page h" "0 < step" "b + step * c \<le> 8192" "c < n"
  shows "for_loop n (word_of_nat step) (ofs h (b + step * c)) body (ofs h b) m =
    Inr (ofs h (b + step * c), fold (\<lambda>i. body (ofs h (b + step * i))) [0 ..< c] m)"
  using assms(3,4)
proof (induction c arbitrary: b n m)
  case 0
  then show ?case using assms(1) by (cases n) simp_all
next
  case (Suc c)
  from Suc.prems(2) obtain n' where n: "n = Suc n'" by (cases n) auto
  have lt: "ofs h b < ofs h (b + step * Suc c)"
    using assms(1,2) Suc.prems(1) by (subst ofs_less) auto
  have "for_loop n' (word_of_nat step) (ofs h (b + step + step * c)) body (ofs h (b + step)) (body (ofs h b) m) =
    Inr (ofs h (b + step + step * c), fold (\<lambda>i. body (ofs h (b + step + step * i))) [0 ..< c] (body (ofs h b) m))"
    using Suc.prems n by (intro Suc.IH) simp_all
  moreover have "fold (\<lambda>i. body (ofs h (b + step * i))) [0 ..< Suc c] m =
      fold (\<lambda>i. body (ofs h (b + step + step * i))) [0 ..< c] (body (ofs h b) m)"
    by (simp add: upt_rec [of 0 "Suc c"] map_Suc_upt [symmetric] fold_map comp_def algebra_simps del: upt_Suc)
  moreover have "b + step * Suc c = b + step + step * c" by simp
  ultimately show ?case
    using lt by (simp only: n for_loop.simps if_True ofs_add)
qed

text \<open>Clearing words.\<close>

lemma fold_zero: "fold (\<lambda>i m. m(f i := 0)) [0 ..< c] m a = (if \<exists>i < c. a = f i then 0 else m a)"
  for m :: mem
  by (induction c) (auto simp: less_Suc_eq)

lemma clear_block:
  assumes "fits_page h" "k + 8 * w \<le> 4096" "0 < w"
  shows "GC_clear_block (ofs h k) (word_of_nat (8 * w)) count m =
    Inr ((ofs h (k + 8 * w), count + word_of_nat (8 * w)),
      \<lambda>a. if \<exists>i. 0 < i \<and> i < w \<and> a = ofs h (k + 8 * i) then 0 else m a)"
proof -
  obtain c where w: "w = Suc c" using assms(3) by (cases w) auto
  have p: "ofs h k + 8 = ofs h (k + 8)" using ofs_add [of h k 8] by simp
  have lim: "ofs h k + word_of_nat (8 * w) = ofs h (k + 8 + 8 * c)" unfolding ofs_add w by (simp add: ac_simps)
  have loop: "for_loop 513 8 (ofs h (k + 8 + 8 * c)) (\<lambda>q m. m(q := 0)) (ofs h (k + 8)) m =
      Inr (ofs h (k + 8 + 8 * c), fold (\<lambda>i m. m(ofs h (k + 8 + 8 * i) := 0)) [0 ..< c] m)"
    using for_loop_ofs [of h 8 "k + 8" c 513 "\<lambda>q m. m(q := 0)" m] assms(1,2) w by simp
  have ex: "(\<exists>i < c. a = ofs h (k + 8 + 8 * i)) = (\<exists>i. 0 < i \<and> i < w \<and> a = ofs h (k + 8 * i))" for a
  proof
    assume "\<exists>i < c. a = ofs h (k + 8 + 8 * i)"
    then obtain i where "i < c" "a = ofs h (k + 8 + 8 * i)" by blast
    then show "\<exists>i. 0 < i \<and> i < w \<and> a = ofs h (k + 8 * i)"
      by (intro exI [of _ "Suc i"]) (simp add: w ac_simps)
  next
    assume "\<exists>i. 0 < i \<and> i < w \<and> a = ofs h (k + 8 * i)"
    then obtain i where "0 < i" "i < w" "a = ofs h (k + 8 * i)" by blast
    then show "\<exists>i < c. a = ofs h (k + 8 + 8 * i)"
      by (intro exI [of _ "i - 1"]) (auto simp: w algebra_simps gr0_conv_Suc)
  qed
  have mem: "fold (\<lambda>i m. m(ofs h (k + 8 + 8 * i) := 0)) [0 ..< c] m =
      (\<lambda>a. if \<exists>i. 0 < i \<and> i < w \<and> a = ofs h (k + 8 * i) then 0 else m a)"
    by (rule ext) (simp only: fold_zero ex)
  have pos: "k + 8 + 8 * c = k + 8 * w" by (simp add: w)
  show ?thesis
    unfolding GC_clear_block_def p lim loop andThen_Inr prod.case mem unfolding pos ..
qed

section \<open>Mark bits\<close>

lemma unat_divWORDSZ: "unat (divWORDSZ n) = unat n div 64"
  by (simp add: divWORDSZ_def drop_bit_eq_div unat_div)

lemma unat_modWORDSZ: "unat (modWORDSZ n) = unat n mod 64"
proof -
  have "modWORDSZ n = take_bit 6 n"
    unfolding modWORDSZ_def take_bit_eq_mask by (simp add: mask_eq_exp_minus_1)
  then show ?thesis by (simp add: take_bit_eq_mod unat_mod)
qed

lemma drop_bit_and_1: "drop_bit k w AND 1 \<noteq> 0 \<longleftrightarrow> bit w k" for w :: u64
  by (simp add: and_one_eq odd_iff_mod_2_eq_one [symmetric] bit_iff_odd_drop_bit)

definition mark_bit :: "hdr \<Rightarrow> nat \<Rightarrow> bool" where
  "mark_bit hhdr b = bit (hb_marks hhdr ! (b div 64)) (b mod 64)"

lemma mark_bit_at:
  assumes "b < 64 * length (hb_marks hhdr)" "length (hb_marks hhdr) = 5"
  shows "mark_bit_from_hdr hhdr (word_of_nat b) = Inr (mark_bit hhdr b)"
proof -
  have "unat (word_of_nat b :: u64) = b" using assms by (simp add: unat_of_nat)
  then show ?thesis
    using assms by (simp add: mark_bit_from_hdr_def read_at_def unat_divWORDSZ unat_modWORDSZ drop_bit_and_1
        mark_bit_def less_mult_imp_div_less mult.commute)
qed

section \<open>Lists of free objects\<close>

fun chain :: "mem \<Rightarrow> u64 \<Rightarrow> u64 list \<Rightarrow> u64 \<Rightarrow> bool" where
  "chain m p [] e \<longleftrightarrow> p = e"
| "chain m p (x # xs) e \<longleftrightarrow> p = x \<and> chain m (m x) xs e"

lemma chain_cong: "(\<And>x. x \<in> set xs \<Longrightarrow> m x = m' x) \<Longrightarrow> chain m p xs e = chain m' p xs e"
  by (induction xs arbitrary: p) auto

text \<open>The objects of \<open>16 * g\<close> bytes in the block, those among the first \<open>i\<close> without a mark, and what
  sweeping the first \<open>i\<close> objects makes of the memory.\<close>

abbreviation obj_at :: "u64 \<Rightarrow> nat \<Rightarrow> nat \<Rightarrow> u64" where
  "obj_at h g j \<equiv> ofs h (16 * g * j)"

definition unmarked :: "hdr \<Rightarrow> nat \<Rightarrow> nat \<Rightarrow> nat list" where
  "unmarked hhdr g i = filter (\<lambda>j. \<not> mark_bit hhdr (g * j)) [0 ..< i]"

definition swept :: "bool \<Rightarrow> u64 \<Rightarrow> nat \<Rightarrow> nat list \<Rightarrow> mem \<Rightarrow> u64 \<Rightarrow> mem \<Rightarrow> u64 \<Rightarrow> bool" where
  "swept clear h g js m0 ofl m l \<longleftrightarrow>
     chain m l (rev (map (obj_at h g) js)) ofl \<and>
     (\<forall>a. (\<forall>j \<in> set js. \<forall>k < (if clear then 2 * g else 1). a \<noteq> ofs h (16 * g * j + 8 * k)) \<longrightarrow> m a = m0 a) \<and>
     (clear \<longrightarrow> (\<forall>j \<in> set js. \<forall>k. 0 < k \<and> k < 2 * g \<longrightarrow> m (ofs h (16 * g * j + 8 * k)) = 0))"

lemma swept_nil: "swept clear h g [] m0 ofl m0 ofl"
  by (simp add: swept_def)

lemma in_object: "j < i \<Longrightarrow> k < 2 * g \<Longrightarrow> 16 * g * j + 8 * k < 16 * g * i" for g :: nat
proof -
  assume a: "j < i" "k < 2 * g"
  have "16 * g * j + 8 * k < 16 * g * (j + 1)" using a(2) by simp
  also have "\<dots> \<le> 16 * g * i" using a(1) by (intro mult_le_mono2) simp
  finally show ?thesis .
qed

text \<open>One more free object.\<close>

lemma swept_step:
  assumes "swept clear h g js m0 ofl m l" "\<forall>j \<in> set js. j < i" "fits_page h" "0 < g" "16 * g * Suc i \<le> 4096"
    and "m' = (\<lambda>a. if clear \<and> (\<exists>k. 0 < k \<and> k < 2 * g \<and> a = ofs h (16 * g * i + 8 * k)) then 0
      else if a = obj_at h g i then l else m a)"
  shows "swept clear h g (js @ [i]) m0 ofl m' (obj_at h g i)"
proof -
  let ?k = "if clear then 2 * g else 1"
  have old: "m' (ofs h (16 * g * j + 8 * k)) = m (ofs h (16 * g * j + 8 * k))" if "j \<in> set js" "k < 2 * g" for j k
  proof -
    have "16 * g * j + 8 * k < 16 * g * i" using that assms(2) by (intro in_object) auto
    then have "ofs h (16 * g * j + 8 * k) \<noteq> ofs h (16 * g * i + 8 * k')" if "k' < 2 * g" for k'
      using that assms(3,5) by (subst ofs_eq) auto
    from this this [of 0] show ?thesis using assms(4,6) by auto
  qed
  have self: "m' (obj_at h g i) = l"
    using assms(3,5,6) by (auto simp: ofs_eq)
  have "chain m' (m' (obj_at h g i)) (rev (map (obj_at h g) js)) ofl"
    unfolding self using assms(1) old [of _ 0] assms(4) unfolding swept_def
    by (subst chain_cong [of _ m' m]) auto
  moreover have "m' a = m0 a" if "\<forall>j \<in> set (js @ [i]). \<forall>k < ?k. a \<noteq> ofs h (16 * g * j + 8 * k)" for a
  proof -
    have "m a = m0 a" using that assms(1) by (simp add: swept_def)
    moreover have "a \<noteq> ofs h (16 * g * i + 8 * 0)"
    proof -
      have "\<forall>k < ?k. a \<noteq> ofs h (16 * g * i + 8 * k)" "0 < ?k" using that assms(4) by simp_all
      then show ?thesis by blast
    qed
    ultimately show ?thesis using that assms(6) by (auto split: if_splits)
  qed
  moreover have "m' (ofs h (16 * g * j + 8 * k)) = 0" if "clear" "j \<in> set (js @ [i])" "0 < k" "k < 2 * g" for j k
  proof (cases "j = i")
    case True
    then show ?thesis using that assms(6) by auto
  next
    case False
    then show ?thesis using that old assms(1) by (auto simp: swept_def)
  qed
  ultimately show ?thesis unfolding swept_def by auto
qed


section \<open>Sweeping\<close>

definition granular :: "nat \<Rightarrow> bool" where
  "granular g \<longleftrightarrow> 0 < g \<and> 16 * g \<le> 4096"

definition obj_size :: "nat \<Rightarrow> u64" where
  "obj_size g = word_of_nat (16 * g)"

definition bit_of :: "nat \<Rightarrow> nat \<Rightarrow> u64" where
  "bit_of g i = word_of_nat (g * i)"

definition n_objs :: "nat \<Rightarrow> nat" where
  "n_objs g = 4096 div (16 * g)"

lemma unmarked_Suc:
  "unmarked hhdr g (Suc i) = (if mark_bit hhdr (g * i) then unmarked hhdr g i else unmarked hhdr g i @ [i])"
  by (simp add: unmarked_def)

lemma unmarked_less: "j \<in> set (unmarked hhdr g i) \<Longrightarrow> j < i"
  by (simp add: unmarked_def)

lemma objects_fit: "i < n_objs g \<Longrightarrow> 16 * g * Suc i \<le> 4096"
proof -
  assume "i < n_objs g"
  then have "16 * g * Suc i \<le> 16 * g * n_objs g" by (intro mult_le_mono2) simp
  also have "\<dots> \<le> 4096" unfolding n_objs_def by (rule times_div_less_eq_dividend)
  finally show ?thesis .
qed

lemma objects_end: "granular g \<Longrightarrow> \<not> i < n_objs g \<Longrightarrow> 4096 < 16 * g * Suc i"
proof -
  assume g: "granular g" and i: "\<not> i < n_objs g"
  have "4096 < 16 * g + 16 * g * n_objs g"
    using g unfolding n_objs_def by (intro dividend_less_times_div) (simp add: granular_def)
  also have "\<dots> = 16 * g * Suc (n_objs g)" by simp
  also have "\<dots> \<le> 16 * g * Suc i" using i by (intro mult_le_mono2) simp
  finally show ?thesis .
qed

lemma objects_le: "granular g \<Longrightarrow> 16 * g * i \<le> 4096 \<Longrightarrow> i \<le> n_objs g"
  by (simp add: n_objs_def granular_def less_eq_div_iff_mult_less_eq mult.commute)

text \<open>The test at the head of the loop, the step to the next object and to its mark bit.\<close>

lemma plim_test:
  assumes "fits_page h" "granular g" "16 * g * i \<le> 4096"
  shows "obj_at h g i \<le> h + HBLKSIZE - obj_size g \<longleftrightarrow> i < n_objs g"
proof -
  have "h + HBLKSIZE = ofs h 4096" by (simp add: ofs_def)
  then have plim: "h + HBLKSIZE - obj_size g = ofs h (4096 - 16 * g)"
    using assms(2) unfolding granular_def obj_size_def by (simp only: ofs_diff)
  have "obj_at h g i \<le> ofs h (4096 - 16 * g) \<longleftrightarrow> 16 * g * i \<le> 4096 - 16 * g"
    using assms(1,3) by (intro ofs_le) simp_all
  also have "\<dots> \<longleftrightarrow> 16 * g * Suc i \<le> 4096" using assms(2) by (auto simp: granular_def)
  also have "\<dots> \<longleftrightarrow> i < n_objs g"
    using objects_fit objects_end [OF assms(2)] by (meson not_le)
  finally show ?thesis unfolding plim .
qed

lemma obj_step: "obj_at h g i + obj_size g = obj_at h g (Suc i)"
  unfolding obj_size_def ofs_add by (simp add: add.commute)

lemma unat_obj_size: "granular g \<Longrightarrow> unat (obj_size g) = 16 * g"
  unfolding obj_size_def granular_def by (subst unat_of_nat) simp

lemma offset_size: "granular g \<Longrightarrow> MARK_BIT_OFFSET (obj_size g) = word_of_nat g"
proof -
  assume g: "granular g"
  have "unat (MARK_BIT_OFFSET (obj_size g)) = g"
    unfolding MARK_BIT_OFFSET_def BYTES_TO_GRANULES_def drop_bit_eq_div
    by (simp add: unat_div unat_obj_size [OF g])
  then have "word_of_nat (unat (MARK_BIT_OFFSET (obj_size g))) = (word_of_nat g :: u64)" by (rule arg_cong)
  then show ?thesis by simp
qed

lemma mark_step: "granular g \<Longrightarrow> bit_of g i + MARK_BIT_OFFSET (obj_size g) = bit_of g (Suc i)"
  unfolding offset_size bit_of_def of_nat_add [symmetric] by (simp add: add.commute)

lemma mark_bit_of:
  assumes "granular g" "i < n_objs g" "length (hb_marks hhdr) = 5"
  shows "mark_bit_from_hdr hhdr (bit_of g i) = Inr (mark_bit hhdr (g * i))"
proof -
  have "16 * g * Suc i \<le> 4096" by (rule objects_fit [OF assms(2)])
  then have "g * i < 320" by simp
  then show ?thesis unfolding bit_of_def using assms(3) by (intro mark_bit_at) simp_all
qed

text \<open>The bytes found.\<close>

definition bytes_of :: "nat \<Rightarrow> nat list \<Rightarrow> u64" where
  "bytes_of g js = word_of_nat (16 * g * length js)"

lemma bytes_of_Cons: "bytes_of g (js @ [i]) = bytes_of g js + obj_size g"
  unfolding bytes_of_def obj_size_def of_nat_add [symmetric] by simp

lemma reclaim_clear_from_spec:
  assumes "fits_page h" "granular g" "length (hb_marks hhdr) = 5" "16 * g * i \<le> 4096"
    and "n_objs g < i + n" "swept True h g (unmarked hhdr g i) m0 ofl m l"
  shows "\<exists>l' m'. reclaim_clear_from n hhdr (obj_size g) (h + HBLKSIZE - obj_size g)
      (obj_at h g i) (bit_of g i) (l, c0 + bytes_of g (unmarked hhdr g i)) m =
    Inr ((l', c0 + bytes_of g (unmarked hhdr g (n_objs g))), m') \<and>
    swept True h g (unmarked hhdr g (n_objs g)) m0 ofl m' l'"
  using assms(4-)
proof (induction n arbitrary: i l m)
  case 0
  then show ?case using objects_le [OF assms(2) 0(1)] by simp
next
  case (Suc n)
  note test = plim_test [OF assms(1,2) Suc.prems(1)]
  show ?case
  proof (cases "i < n_objs g")
    case False
    then have i: "n_objs g = i" using objects_le [OF assms(2) Suc.prems(1)] by simp
    show ?thesis using Suc.prems(3) test unfolding i by simp
  next
    case True
    note fit = objects_fit [OF True] and bit = mark_bit_of [OF assms(2) True assms(3)]
    have fuel: "n_objs g < Suc i + n" using Suc.prems(2) by simp
    show ?thesis
    proof (cases "mark_bit hhdr (g * i)")
      case marked: True
      have u: "unmarked hhdr g (Suc i) = unmarked hhdr g i" using marked by (simp add: unmarked_Suc)
      from Suc.IH [OF fit fuel, of m l] Suc.prems(3) True show ?thesis
        unfolding reclaim_clear_from.simps test bit andThen_Inr if_P [OF marked] obj_step mark_step [OF assms(2)] u
        by (simp only: if_True)
    next
      case free: False
      let ?m = "\<lambda>a. if \<exists>k. 0 < k \<and> k < 2 * g \<and> a = ofs h (16 * g * i + 8 * k) then 0
        else if a = obj_at h g i then l else m a"
      have pos: "16 * g * i + 8 * (2 * g) = 16 * g * Suc i" "8 * (2 * g) = 16 * g" by simp_all
      have clr: "GC_clear_block (obj_at h g i) (obj_size g) c (m(obj_at h g i := l)) =
          Inr ((obj_at h g (Suc i), c + obj_size g), ?m)" for c
        using clear_block [of h "16 * g * i" "2 * g" c "m(obj_at h g i := l)"] assms(1,2) fit
        unfolding pos obj_size_def fun_upd_def by (simp only: granular_def) (simp add: add.commute)
      have u: "unmarked hhdr g (Suc i) = unmarked hhdr g i @ [i]" using free by (simp add: unmarked_Suc)
      have "swept True h g (unmarked hhdr g i @ [i]) m0 ofl ?m (obj_at h g i)"
        using assms(1,2) fit by (intro swept_step [OF Suc.prems(3)]) (auto simp: unmarked_less granular_def)
      from Suc.IH [OF fit fuel, unfolded u, OF this] True show ?thesis
        unfolding reclaim_clear_from.simps test bit andThen_Inr if_not_P [OF free] fst_conv snd_conv clr prod.case
          mark_step [OF assms(2)] bytes_of_Cons
        by (simp only: if_True add.assoc)
    qed
  qed
qed

lemma reclaim_uninit_from_spec:
  assumes "fits_page h" "granular g" "length (hb_marks hhdr) = 5" "16 * g * i \<le> 4096"
    and "n_objs g < i + n" "swept False h g (unmarked hhdr g i) m0 ofl m l"
  shows "\<exists>l' m'. reclaim_uninit_from n hhdr (obj_size g) (h + HBLKSIZE - obj_size g)
      (obj_at h g i) (bit_of g i) (l, c0 + bytes_of g (unmarked hhdr g i)) m =
    Inr ((l', c0 + bytes_of g (unmarked hhdr g (n_objs g))), m') \<and>
    swept False h g (unmarked hhdr g (n_objs g)) m0 ofl m' l'"
  using assms(4-)
proof (induction n arbitrary: i l m)
  case 0
  then show ?case using objects_le [OF assms(2) 0(1)] by simp
next
  case (Suc n)
  note test = plim_test [OF assms(1,2) Suc.prems(1)]
  show ?case
  proof (cases "i < n_objs g")
    case False
    then have i: "n_objs g = i" using objects_le [OF assms(2) Suc.prems(1)] by simp
    show ?thesis using Suc.prems(3) test unfolding i by simp
  next
    case True
    note fit = objects_fit [OF True] and bit = mark_bit_of [OF assms(2) True assms(3)]
    have fuel: "n_objs g < Suc i + n" using Suc.prems(2) by simp
    show ?thesis
    proof (cases "mark_bit hhdr (g * i)")
      case marked: True
      have u: "unmarked hhdr g (Suc i) = unmarked hhdr g i" using marked by (simp add: unmarked_Suc)
      from Suc.IH [OF fit fuel, of m l] Suc.prems(3) True show ?thesis
        unfolding reclaim_uninit_from.simps test bit andThen_Inr if_P [OF marked] obj_step mark_step [OF assms(2)] u
        by (simp only: if_True)
    next
      case free: False
      have u: "unmarked hhdr g (Suc i) = unmarked hhdr g i @ [i]" using free by (simp add: unmarked_Suc)
      have "swept False h g (unmarked hhdr g i @ [i]) m0 ofl (m(obj_at h g i := l)) (obj_at h g i)"
        using assms(1,2) fit by (intro swept_step [OF Suc.prems(3)]) (auto simp: unmarked_less granular_def)
      from Suc.IH [OF fit fuel, unfolded u, OF this] True show ?thesis
        unfolding reclaim_uninit_from.simps test bit andThen_Inr if_not_P [OF free] fst_conv snd_conv obj_step
          mark_step [OF assms(2)] bytes_of_Cons
        by (simp only: if_True add.assoc)
    qed
  qed
qed

text \<open>C17: Sweeping a block of collectable objects puts exactly the unmarked objects on the free list,
  the one with the highest address first, in front of the list that was there, and counts their
  bytes. With clearing, everything but the link of a free object becomes zero; without, only the
  links of free objects are written. Nothing else in memory changes, so marked objects survive.\<close>

theorem sweep_rebuilds_free_list:
  assumes "get_hdr e s = Inr x" "\<not> IS_UNCOLLECTABLE (hb_obj_kind x)" "length (hb_marks x) = 5" "fits_page h" "granular g"
  shows "\<exists>l m. GC_reclaim_generic h e (obj_size g) init ofl c s =
      Inr ((l, c + bytes_of g (unmarked x g (n_objs g))), s\<lparr>gc_mem := m\<rparr>) \<and>
    swept (init \<or> GC_debugging_started s) h g (unmarked x g (n_objs g)) (gc_mem s) ofl m l"
proof -
  have start: "swept b h g (unmarked x g 0) (gc_mem s) ofl (gc_mem s) ofl" for b
    by (simp add: unmarked_def swept_nil)
  have zero: "bit_of g 0 = 0" "c0 + bytes_of g (unmarked x g 0) = c0" for c0
    by (simp_all add: bit_of_def unmarked_def bytes_of_def)
  have fuel: "n_objs g < 0 + 513"
    using le_less_trans [OF div_le_dividend, of 256 513 g] by (simp add: n_objs_def)
  note clear_it = reclaim_clear_from_spec [OF assms(4,5,3) _ fuel start, of c, unfolded zero]
  note uninit = reclaim_uninit_from_spec [OF assms(4,5,3) _ fuel start, of 0, unfolded zero]
  show ?thesis
  proof (cases "init \<or> GC_debugging_started s")
    case True
    from clear_it obtain l m where
      "GC_reclaim_clear h x (obj_size g) ofl c (gc_mem s) = Inr ((l, c + bytes_of g (unmarked x g (n_objs g))), m)"
      "swept True h g (unmarked x g (n_objs g)) (gc_mem s) ofl m l"
      unfolding GC_reclaim_clear_def by auto
    then show ?thesis
      using True assms(1,2) by (intro exI [of _ l] exI [of _ m]) (simp add: GC_reclaim_generic_def)
  next
    case False
    from uninit obtain l m where
      "GC_reclaim_uninit h x (obj_size g) ofl c (gc_mem s) = Inr ((l, c + bytes_of g (unmarked x g (n_objs g))), m)"
      "swept False h g (unmarked x g (n_objs g)) (gc_mem s) ofl m l"
      unfolding GC_reclaim_uninit_def by auto
    then show ?thesis
      using False assms(1,2) by (intro exI [of _ l] exI [of _ m]) (simp add: GC_reclaim_generic_def)
  qed
qed


text \<open>A block of two objects, the first of which is marked.\<close>

definition demo_hdr :: hdr where
  "demo_hdr = zero_hdr\<lparr>hb_sz := 2048, hb_obj_kind := 1, hb_marks := [1, 0, 0, 0, 1]\<rparr>"

lemma demo_unmarked: "unmarked demo_hdr 128 2 = [1]"
  by (simp add: unmarked_def demo_hdr_def mark_bit_def zero_hdr_def upt_rec bit_1_iff)

theorem sweep_rebuilds_free_list_witness:
  "\<exists>m. GC_reclaim_generic 0x10000 4096 2048 True 0 0 (initial_gc\<lparr>gc_hdrs := [demo_hdr]\<rparr>) =
      Inr ((ofs 0x10000 2048, 2048), initial_gc\<lparr>gc_hdrs := [demo_hdr], gc_mem := m\<rparr>) \<and> m (ofs 0x10000 2048) = 0"
proof -
  let ?s = "initial_gc\<lparr>gc_hdrs := [demo_hdr]\<rparr>"
  have n: "n_objs 128 = 2" "obj_size 128 = 2048" "bytes_of 128 [1] = 2048"
    by (simp_all add: obj_size_def bytes_of_def n_objs_def)
  have hyps: "get_hdr 4096 ?s = Inr demo_hdr" "\<not> IS_UNCOLLECTABLE (hb_obj_kind demo_hdr)"
    "length (hb_marks demo_hdr) = 5" "fits_page 0x10000" "granular 128"
    by (simp_all add: get_hdr_def hdr_index_def demo_hdr_def zero_hdr_def IS_UNCOLLECTABLE_def fits_page_def granular_def)
  from sweep_rebuilds_free_list [OF hyps, where init = True and ofl = 0 and c = 0]
  obtain l m where "GC_reclaim_generic 0x10000 4096 2048 True 0 0 ?s = Inr ((l, 2048), ?s\<lparr>gc_mem := m\<rparr>)"
    "swept True 0x10000 128 [1] (gc_mem ?s) 0 m l"
    unfolding n demo_unmarked by auto
  then show ?thesis by (auto simp: swept_def)
qed

section \<open>New blocks\<close>

text \<open>Word by word: the links of the objects, and zero elsewhere if the block is to be cleared.\<close>

definition starts_obj :: "nat \<Rightarrow> nat \<Rightarrow> bool" where
  "starts_obj g i \<longleftrightarrow> i mod (2 * g) = 0 \<and> i div (2 * g) < n_objs g"

definition word_step :: "nat \<Rightarrow> bool \<Rightarrow> u64 \<Rightarrow> u64 \<Rightarrow> nat \<Rightarrow> mem \<Rightarrow> mem" where
  "word_step g clear h ofl i m =
     (if starts_obj g i then m(ofs h (8 * i) := if i = 0 then ofl else ofs h (8 * i) - obj_size g)
      else if clear then m(ofs h (8 * i) := 0) else m)"

primrec page_words :: "nat \<Rightarrow> bool \<Rightarrow> u64 \<Rightarrow> u64 \<Rightarrow> mem \<Rightarrow> nat \<Rightarrow> mem" where
  "page_words g clear h ofl m 0 = m"
| "page_words g clear h ofl m (Suc c) = word_step g clear h ofl c (page_words g clear h ofl m c)"

lemma page_words_at:
  assumes "fits_page h" "c \<le> 512"
  shows "i < c \<Longrightarrow> page_words g clear h ofl m c (ofs h (8 * i)) =
      (if starts_obj g i then if i = 0 then ofl else ofs h (8 * i) - obj_size g
       else if clear then 0 else m (ofs h (8 * i)))"
    and "\<forall>i < c. a \<noteq> ofs h (8 * i) \<Longrightarrow> page_words g clear h ofl m c a = m a"
proof -
  have frame: "\<forall>i < c. a \<noteq> ofs h (8 * i) \<Longrightarrow> page_words g clear h ofl m c a = m a" for a c
    by (induction c) (auto simp: word_step_def)
  then show "\<forall>i < c. a \<noteq> ofs h (8 * i) \<Longrightarrow> page_words g clear h ofl m c a = m a" .
  show "page_words g clear h ofl m c (ofs h (8 * i)) =
      (if starts_obj g i then if i = 0 then ofl else ofs h (8 * i) - obj_size g
       else if clear then 0 else m (ofs h (8 * i)))" if "i < c"
    using that assms(2)
  proof (induction c)
    case (Suc c)
    show ?case
    proof (cases "i = c")
      case True
      have "\<forall>j < c. ofs h (8 * c) \<noteq> ofs h (8 * j)" using assms(1) Suc.prems(2) by (auto simp: ofs_eq)
      from frame [OF this] show ?thesis unfolding True by (auto simp: word_step_def)
    next
      case False
      then have "ofs h (8 * i) \<noteq> ofs h (8 * c)" using assms(1) Suc.prems by (simp add: ofs_eq)
      then have "page_words g clear h ofl m (Suc c) (ofs h (8 * i)) = page_words g clear h ofl m c (ofs h (8 * i))"
        by (simp add: word_step_def)
      also have "\<dots> = (if starts_obj g i then if i = 0 then ofl else ofs h (8 * i) - obj_size g
          else if clear then 0 else m (ofs h (8 * i)))"
        using Suc False by (intro Suc.IH) simp_all
      finally show ?thesis .
    qed
  qed simp
qed

text \<open>A round of the loops for small objects does four or eight words.\<close>

lemma small_objs: "n_objs 1 = 256" "n_objs 2 = 128" "obj_size 1 = 16" "obj_size 2 = 32"
  by (simp_all add: obj_size_def n_objs_def)

lemma four_words: "page_words g clear h ofl m (4 * Suc q) =
    word_step g clear h ofl (4 * q + 3) (word_step g clear h ofl (4 * q + 2)
      (word_step g clear h ofl (4 * q + 1) (word_step g clear h ofl (4 * q) (page_words g clear h ofl m (4 * q)))))"
proof -
  have "4 * Suc q = Suc (Suc (Suc (Suc (4 * q))))" by simp
  then show ?thesis by (simp only: page_words.simps) (simp add: numeral_2_eq_2 numeral_3_eq_3)
qed

lemma round_addresses:
  "ofs h (8 * (4 * q)) = ofs h (32 * q)" "ofs h (8 * (4 * q + 1)) = ofs h (32 * q) + 8"
  "ofs h (8 * (4 * q + 2)) = ofs h (32 * q) + 16" "ofs h (8 * (4 * q + 3)) = ofs h (32 * q) + 24"
  using ofs_add [of h "32 * q" 8] ofs_add [of h "32 * q" 16] ofs_add [of h "32 * q" 24]
  by (simp_all add: algebra_simps)

lemma round_starts:
  "q < 128 \<Longrightarrow> starts_obj 1 (4 * q)" "q < 128 \<Longrightarrow> starts_obj 1 (4 * q + 2)"
  "\<not> starts_obj 1 (4 * q + 1)" "\<not> starts_obj 1 (4 * q + 3)"
  "q < 128 \<Longrightarrow> starts_obj 2 (4 * q)" "\<not> starts_obj 2 (4 * q + 1)" "\<not> starts_obj 2 (4 * q + 2)" "\<not> starts_obj 2 (4 * q + 3)"
  unfolding starts_obj_def small_objs by (simp_all; presburger)+

text \<open>\<open>p\<close> is the address of the round.\<close>

lemma round_1:
  assumes "q < 128" "p = ofs h (32 * q)"
  shows "page_words 1 True h ofl m (4 * Suc q) =
    (page_words 1 True h ofl m (4 * q))(p := if q = 0 then ofl else p - 16, p + 8 := 0, p + 16 := p, p + 24 := 0)"
    and "page_words 1 False h ofl m (4 * Suc q) =
    (page_words 1 False h ofl m (4 * q))(p := if q = 0 then ofl else p - 16, p + 16 := p)"
  unfolding four_words word_step_def small_objs round_addresses assms(2) [symmetric]
  using round_starts(1-4) [of q] assms(1) by simp_all

lemma round_2:
  assumes "q < 128" "p = ofs h (32 * q)"
  shows "page_words 2 True h ofl m (4 * Suc q) =
    (page_words 2 True h ofl m (4 * q))(p := if q = 0 then ofl else p - 32, p + 8 := 0, p + 16 := 0, p + 24 := 0)"
    and "page_words 2 False h ofl m (4 * Suc q) = (page_words 2 False h ofl m (4 * q))(p := if q = 0 then ofl else p - 32)"
  unfolding four_words word_step_def small_objs round_addresses assms(2) [symmetric]
  using round_starts(5-8) [of q] assms(1) by simp_all

lemma page_end: "h + HBLKSIZE = ofs h 4096"
  by (simp add: ofs_def)

text \<open>A loop whose rounds do the words of the page in order, behind a first round.\<close>

lemma rounds_fold:
  assumes "\<And>q. Suc q \<le> c \<Longrightarrow> P (Suc (Suc q)) = body (ofs h (step + step * q)) (P (Suc q))"
  shows "fold (\<lambda>i. body (ofs h (step + step * i))) [0 ..< c] (P (Suc 0)) = P (Suc c)"
  using assms by (induction c) simp_all

lemma build_clear2:
  assumes "fits_page h"
  shows "GC_build_fl_clear2 h ofl m = Inr (ofs h 4096 - 16, page_words 1 True h ofl m 512)"
proof -
  let ?body = "\<lambda>p m. m(p := p - 16, p + 8 := 0, p + 16 := p, p + 24 := 0) :: mem"
  let ?P = "\<lambda>q. page_words 1 True h ofl m (4 * q)"
  have first: "m(h := ofl, h + 8 := 0, h + 16 := h, h + 24 := 0) = ?P (Suc 0)"
    using round_1(1) [of 0 h h ofl m] by simp
  have "fold (\<lambda>i. ?body (ofs h (32 + 32 * i))) [0 ..< 127] (?P (Suc 0)) = ?P (Suc 127)"
    by (rule rounds_fold) (subst round_1(1), simp_all)
  moreover have "for_loop 513 32 (ofs h 4096) ?body (h + 32) (?P (Suc 0)) =
      Inr (ofs h 4096, fold (\<lambda>i. ?body (ofs h (32 + 32 * i))) [0 ..< 127] (?P (Suc 0)))"
    using for_loop_ofs [OF assms, of 32 32 127 513 ?body "?P (Suc 0)"] by (simp add: ofs_def)
  ultimately show ?thesis
    unfolding GC_build_fl_clear2_def page_end first by simp
qed

lemma build_2:
  assumes "fits_page h"
  shows "GC_build_fl2 h ofl m = Inr (ofs h 4096 - 16, page_words 1 False h ofl m 512)"
proof -
  let ?body = "\<lambda>p m. m(p := p - 16, p + 16 := p) :: mem"
  let ?P = "\<lambda>q. page_words 1 False h ofl m (4 * q)"
  have first: "m(h := ofl, h + 16 := h) = ?P (Suc 0)"
    using round_1(2) [of 0 h h ofl m] by simp
  have "fold (\<lambda>i. ?body (ofs h (32 + 32 * i))) [0 ..< 127] (?P (Suc 0)) = ?P (Suc 127)"
    by (rule rounds_fold) (subst round_1(2), simp_all)
  moreover have "for_loop 513 32 (ofs h 4096) ?body (h + 32) (?P (Suc 0)) =
      Inr (ofs h 4096, fold (\<lambda>i. ?body (ofs h (32 + 32 * i))) [0 ..< 127] (?P (Suc 0)))"
    using for_loop_ofs [OF assms, of 32 32 127 513 ?body "?P (Suc 0)"] by (simp add: ofs_def)
  ultimately show ?thesis
    unfolding GC_build_fl2_def page_end first by simp
qed

lemma build_clear4:
  assumes "fits_page h"
  shows "GC_build_fl_clear4 h ofl m = Inr (ofs h 4096 - 32, page_words 2 True h ofl m 512)"
proof -
  let ?body = "\<lambda>p m. m(p := p - 32, p + 8 := 0, p + 16 := 0, p + 24 := 0) :: mem"
  let ?P = "\<lambda>q. page_words 2 True h ofl m (4 * q)"
  have first: "m(h := ofl, h + 8 := 0, h + 16 := 0, h + 24 := 0) = ?P (Suc 0)"
    using round_2(1) [of 0 h h ofl m] by simp
  have "fold (\<lambda>i. ?body (ofs h (32 + 32 * i))) [0 ..< 127] (?P (Suc 0)) = ?P (Suc 127)"
    by (rule rounds_fold) (subst round_2(1), simp_all)
  moreover have "for_loop 513 32 (ofs h 4096) ?body (h + 32) (?P (Suc 0)) =
      Inr (ofs h 4096, fold (\<lambda>i. ?body (ofs h (32 + 32 * i))) [0 ..< 127] (?P (Suc 0)))"
    using for_loop_ofs [OF assms, of 32 32 127 513 ?body "?P (Suc 0)"] by (simp add: ofs_def)
  ultimately show ?thesis
    unfolding GC_build_fl_clear4_def page_end first by simp
qed

lemma build_4:
  assumes "fits_page h"
  shows "GC_build_fl4 h ofl m = Inr (ofs h 4096 - 32, page_words 2 False h ofl m 512)"
proof -
  let ?body = "\<lambda>p m. m(p := p - 32, p + 32 := p) :: mem"
  let ?P = "\<lambda>q. page_words 2 False h ofl m (4 * (2 * q))"
  have two: "?P (Suc q) = (?P q)(ofs h (64 * q) := if q = 0 then ofl else ofs h (64 * q) - 32,
      ofs h (64 * q) + 32 := ofs h (64 * q))" if "q < 64" for q
  proof -
    have p: "ofs h (32 * (2 * q + 1)) = ofs h (64 * q) + 32" using ofs_add [of h "64 * q" 32] by (simp add: algebra_simps)
    have "4 * (2 * Suc q) = 4 * Suc (2 * q + 1)" by simp
    then have "?P (Suc q) = page_words 2 False h ofl m (4 * Suc (2 * q + 1))" by (simp only:)
    also have "\<dots> = (page_words 2 False h ofl m (4 * Suc (2 * q)))(ofs h (64 * q) + 32 := ofs h (64 * q))"
      using round_2(2) [OF _ p [symmetric], of ofl m] that by simp
    finally show ?thesis
      using round_2(2) [of "2 * q" "ofs h (64 * q)" h ofl m] that by simp
  qed
  have first: "m(h := ofl, h + 32 := h) = ?P (Suc 0)" using two [of 0] by simp
  have "fold (\<lambda>i. ?body (ofs h (64 + 64 * i))) [0 ..< 63] (?P (Suc 0)) = ?P (Suc 63)"
    by (rule rounds_fold) (subst two, simp_all)
  moreover have "for_loop 513 64 (ofs h 4096) ?body (h + 64) (?P (Suc 0)) =
      Inr (ofs h 4096, fold (\<lambda>i. ?body (ofs h (64 + 64 * i))) [0 ..< 63] (?P (Suc 0)))"
    using for_loop_ofs [OF assms, of 64 64 63 513 ?body "?P (Suc 0)"] by (simp add: ofs_def)
  ultimately show ?thesis
    unfolding GC_build_fl4_def page_end first by simp
qed


text \<open>The general loop.\<close>

lemma link_objects_spec:
  assumes "fits_page h" "granular g" "0 < i" "i \<le> n_objs g" "n_objs g < i + n"
  shows "link_objects n (obj_size g) (h + HBLKSIZE - obj_size g) (obj_at h g i) (obj_at h g i - obj_size g) m =
    Inr (obj_at h g (n_objs g), fold (\<lambda>j m. m(obj_at h g j := obj_at h g j - obj_size g)) [i ..< n_objs g] m)"
  using assms(3-)
proof (induction n arbitrary: i m)
  case (Suc n)
  have fit: "16 * g * i \<le> 4096"
    using times_div_less_eq_dividend [of "16 * g" 4096] Suc.prems(2) mult_le_mono2 [of i "n_objs g" "16 * g"]
    unfolding n_objs_def by linarith
  note test = plim_test [OF assms(1,2) fit]
  show ?case
  proof (cases "i < n_objs g")
    case True
    have back_one: "obj_at h g i = obj_at h g (Suc i) - obj_size g" by (simp only: obj_step [symmetric]) simp
    have upt: "[i ..< n_objs g] = i # [Suc i ..< n_objs g]" using True by (rule upt_conv_Cons)
    have "n_objs g < Suc i + n" "Suc i \<le> n_objs g" using True Suc.prems(3) by simp_all
    from Suc.IH [OF _ this(2,1), of "m(obj_at h g i := obj_at h g i - obj_size g)"] True show ?thesis
      unfolding link_objects.simps test upt obj_step back_one [symmetric] by (simp only: if_True fold_simps fun_upd_def)
  next
    case False
    then have "i = n_objs g" using Suc.prems by simp
    then show ?thesis using test by simp
  qed
qed simp

lemma fold_links: "fold (\<lambda>j m. m(obj_at h g j := obj_at h g j - sz)) [i ..< n] m a =
    (if \<exists>j. i \<le> j \<and> j < n \<and> a = obj_at h g j then a - sz else m a)"
  by (induction n) (auto simp: less_Suc_eq)

lemma BZERO_page: "BZERO h 512 m a = (if \<exists>k < 512. a = ofs h (8 * k) then 0 else m a)"
proof -
  have "BZERO h 512 m = fold (\<lambda>k m. m(ofs h (8 * k) := 0)) [0 ..< 512] m"
    unfolding BZERO_def ofs_def by (simp add: mult.commute)
  then show ?thesis by (simp only: fold_zero)
qed

text \<open>The objects are the words that start one.\<close>

lemma starts_obj_iff: "0 < g \<Longrightarrow> starts_obj g i \<longleftrightarrow> (\<exists>j < n_objs g. 8 * i = 16 * g * j)"
proof
  assume g: "0 < g"
  show "\<exists>j < n_objs g. 8 * i = 16 * g * j" if "starts_obj g i"
    using that by (intro exI [of _ "i div (2 * g)"]) (auto simp: starts_obj_def)
  assume "\<exists>j < n_objs g. 8 * i = 16 * g * j"
  then obtain j where "j < n_objs g" "i = 2 * g * j" by auto
  then show "starts_obj g i" using g by (simp add: starts_obj_def)
qed

lemma obj_word: "granular g \<Longrightarrow> j < n_objs g \<Longrightarrow> 16 * g * j = 8 * (2 * g * j) \<and> 2 * g * j < 512"
proof -
  assume "granular g" "j < n_objs g"
  then have "16 * g * Suc j \<le> 4096" "0 < g" by (simp_all only: objects_fit granular_def)
  then show ?thesis by simp
qed

text \<open>The general loop writes the same words, in another order.\<close>

lemma build_general:
  assumes "fits_page h" "granular g"
  shows "(fold (\<lambda>j m. m(obj_at h g j := obj_at h g j - obj_size g)) [1 ..< n_objs g]
      (if clear then BZERO h 512 m else m))(h := ofl) = page_words g clear h ofl m 512"
    (is "?general = ?page")
proof
  fix a
  have g: "0 < g" and n: "0 < n_objs g" using assms(2) by (simp_all add: granular_def div_greater_zero_iff n_objs_def)
  show "?general a = ?page a"
  proof (cases "\<exists>i < 512. a = ofs h (8 * i)")
    case True
    then obtain i where i: "i < 512" "a = ofs h (8 * i)" by blast
    have same: "a = obj_at h g j \<longleftrightarrow> 8 * i = 16 * g * j" if "j < n_objs g" for j
      using obj_word [OF assms(2) that] assms(1) i by (auto simp: ofs_eq)
    have zero: "a = h \<longleftrightarrow> i = 0" using same [OF n] by simp
    have links: "(\<exists>j. 1 \<le> j \<and> j < n_objs g \<and> a = obj_at h g j) \<longleftrightarrow> starts_obj g i \<and> i \<noteq> 0"
    proof
      assume "\<exists>j. 1 \<le> j \<and> j < n_objs g \<and> a = obj_at h g j"
      then obtain j where "1 \<le> j" "j < n_objs g" "8 * i = 16 * g * j" using same by blast
      moreover from this(1,3) g have "i \<noteq> 0" by (intro notI) simp
      ultimately show "starts_obj g i \<and> i \<noteq> 0" unfolding starts_obj_iff [OF g] by blast
    next
      assume "starts_obj g i \<and> i \<noteq> 0"
      then obtain j where "j < n_objs g" "8 * i = 16 * g * j" "i \<noteq> 0" unfolding starts_obj_iff [OF g] by blast
      moreover from this(2,3) have "1 \<le> j" by (cases j) simp_all
      ultimately show "\<exists>j. 1 \<le> j \<and> j < n_objs g \<and> a = obj_at h g j" using same by blast
    qed
    have first: "starts_obj g 0" using n by (simp add: starts_obj_def)
    show ?thesis
      using page_words_at(1) [OF assms(1) order_refl i(1), of g clear ofl m, folded i(2)] True first
      by (cases "i = 0") (simp_all add: fold_links links [unfolded One_nat_def] zero BZERO_page)
  next
    case False
    then have "\<not> (\<exists>j. 1 \<le> j \<and> j < n_objs g \<and> a = obj_at h g j)" "a \<noteq> h"
      using obj_word [OF assms(2)] ofs_0 [of h] by (metis, metis mult_0_right zero_less_numeral)
    moreover have "?page a = m a" using False by (intro page_words_at(2) [OF assms(1) order_refl]) blast
    ultimately show ?thesis using False by (auto simp: fold_links BZERO_page)
  qed
qed


definition words_of :: "nat \<Rightarrow> u64" where
  "words_of g = word_of_nat (2 * g)"

lemma words_of_size: "8 * words_of g = obj_size g"
proof -
  have "8 * words_of g = word_of_nat (8 * (2 * g))" by (simp only: words_of_def of_nat_mult of_nat_numeral)
  then show ?thesis by (simp add: obj_size_def)
qed

lemma words_of_eq: "granular g \<Longrightarrow> k \<le> 256 \<Longrightarrow> words_of g = word_of_nat (2 * k) \<longleftrightarrow> g = k"
proof -
  assume "granular g" "k \<le> 256"
  then have "unat (words_of g) = 2 * g" "unat (word_of_nat (2 * k) :: u64) = 2 * k"
    unfolding words_of_def granular_def by (simp_all only: unat_of_nat) simp_all
  then show ?thesis by (metis mult_cancel1 zero_neq_numeral words_of_def)
qed

text \<open>\<open>GC_build_fl\<close> without its special cases.\<close>

definition build_fl_general :: "u64 \<Rightarrow> u64 \<Rightarrow> bool \<Rightarrow> u64 \<Rightarrow> mem \<Rightarrow> (u64 \<times> mem) res" where
  "build_fl_general h sz clear ofl mem =
     andThen (link_objects 513 (8 * sz) (h + HBLKSIZE - 8 * sz) (h + 8 * sz) h (if clear then BZERO h 512 mem else mem))
       (\<lambda>(p, m). Inr (p - 8 * sz, m(h := ofl)))"

lemma build_general_spec:
  assumes "fits_page h" "granular g"
  shows "build_fl_general h (words_of g) clear ofl m = Inr (obj_at h g (n_objs g - 1), page_words g clear h ofl m 512)"
proof -
  have n: "1 \<le> n_objs g" "n_objs g < 1 + 513"
    using assms(2) le_less_trans [OF div_le_dividend, of 256 514 g] by (simp_all add: granular_def div_greater_zero_iff n_objs_def Suc_le_eq)
  have start: "h + obj_size g = obj_at h g 1" "h = obj_at h g 1 - obj_size g"
    using obj_step [of h g 0] by (simp_all add: algebra_simps)
  have last: "obj_at h g (n_objs g) - obj_size g = obj_at h g (n_objs g - 1)"
    using obj_step [of h g "n_objs g - 1"] n(1) by (simp add: algebra_simps)
  note links = link_objects_spec [OF assms _ n, of "if clear then BZERO h 512 m else m", folded start(2)]
  show ?thesis
    unfolding build_fl_general_def words_of_size start(1)
    by (simp only: links zero_less_one andThen_Inr prod.case last build_general [OF assms])
qed

lemma build_fl_spec:
  assumes "fits_page h" "granular g"
  shows "GC_build_fl h (words_of g) clear ofl m = Inr (obj_at h g (n_objs g - 1), page_words g clear h ofl m 512)"
proof -
  have end1: "ofs h 4096 - 16 = obj_at h 1 (n_objs 1 - 1)" "ofs h 4096 - 32 = obj_at h 2 (n_objs 2 - 1)"
    using ofs_diff [of 16 4096 h] ofs_diff [of 32 4096 h] by (simp_all add: n_objs_def)
  have is2: "words_of g = 2 \<longleftrightarrow> g = 1" and is4: "words_of g = 4 \<longleftrightarrow> g = 2"
    using words_of_eq [OF assms(2), of 1] words_of_eq [OF assms(2), of 2] by simp_all
  consider "g = 1" | "g = 2" | "g \<noteq> 1" "g \<noteq> 2" by blast
  then show ?thesis
  proof cases
    case 1
    then have "words_of g = 2" by (simp add: words_of_def)
    then have "GC_build_fl h (words_of g) clear ofl m = (if clear then GC_build_fl_clear2 h ofl m else GC_build_fl2 h ofl m)"
      by (simp add: GC_build_fl_def)
    then show ?thesis
      unfolding 1 end1(1) [symmetric] build_clear2 [OF assms(1)] build_2 [OF assms(1)] by (cases clear) simp_all
  next
    case 2
    then have "words_of g = 4" by (simp add: words_of_def)
    then have "GC_build_fl h (words_of g) clear ofl m = (if clear then GC_build_fl_clear4 h ofl m else GC_build_fl4 h ofl m)"
      by (simp add: GC_build_fl_def)
    then show ?thesis
      unfolding 2 end1(2) [symmetric] build_clear4 [OF assms(1)] build_4 [OF assms(1)] by (cases clear) simp_all
  next
    case 3
    have "GC_build_fl h (words_of g) clear ofl m = build_fl_general h (words_of g) clear ofl m"
      using 3 unfolding GC_build_fl_def build_fl_general_def is2 is4 Let_def by simp
    then show ?thesis by (simp only: build_general_spec [OF assms])
  qed
qed

text \<open>C18: The special cases of \<open>GC_build_fl\<close> for objects of one and two granules, cleared or not, give
  the same free list in the same memory as the general loop.\<close>

theorem build_fl_fast_paths:
  assumes "fits_page h" "granular g"
  shows "GC_build_fl h (words_of g) clear ofl m = build_fl_general h (words_of g) clear ofl m"
  by (simp only: build_fl_spec [OF assms] build_general_spec [OF assms])

theorem build_fl_fast_paths_witness:
  "GC_build_fl 0x10000 4 True 7 (\<lambda>_. 5) = build_fl_general 0x10000 4 True 7 (\<lambda>_. 5)"
  using build_fl_fast_paths [of "0x10000" 2 True 7 "\<lambda>_. 5"] by (simp add: fits_page_def granular_def words_of_def)

lemma page_chain:
  assumes "fits_page h" "granular g" "n \<le> n_objs g" "0 < n"
  shows "chain (page_words g clear h ofl m 512) (obj_at h g (n - 1)) (rev (map (obj_at h g) [0 ..< n])) ofl"
  using assms(3,4)
proof (induction n)
  case (Suc n)
  have w: "16 * g * n = 8 * (2 * g * n)" "2 * g * n < 512" using obj_word [OF assms(2), of n] Suc.prems(1) by simp_all
  have "starts_obj g (2 * g * n)"
    using assms(2) Suc.prems(1) w(1) by (auto simp: starts_obj_iff granular_def)
  then have link: "page_words g clear h ofl m 512 (obj_at h g n) = (if n = 0 then ofl else obj_at h g n - obj_size g)"
    using page_words_at(1) [OF assms(1) order_refl w(2), of g clear ofl m] assms(2) unfolding w(1) by (simp add: granular_def)
  show ?case
  proof (cases n)
    case 0
    then show ?thesis using link by simp
  next
    case (Suc k)
    then have "obj_at h g n - obj_size g = obj_at h g (n - 1)" using obj_step [of h g k] by (simp add: algebra_simps)
    then show ?thesis using Suc.IH Suc.prems link Suc by simp
  qed
qed simp

text \<open>A new block of objects becomes a free list of all its objects, by descending addresses, in
  front of the list that was there. If the block is to be cleared, every word but the links is
  zero, otherwise every word but the links keeps its value, and nothing outside the block changes.\<close>

theorem new_block_free_list:
  assumes "fits_page h" "granular g"
  shows "\<exists>m'. GC_build_fl h (words_of g) clear ofl m = Inr (obj_at h g (n_objs g - 1), m') \<and>
    chain m' (obj_at h g (n_objs g - 1)) (rev (map (obj_at h g) [0 ..< n_objs g])) ofl \<and>
    (\<forall>i < 512. (\<forall>j < n_objs g. 8 * i \<noteq> 16 * g * j) \<longrightarrow> m' (ofs h (8 * i)) = (if clear then 0 else m (ofs h (8 * i)))) \<and>
    (\<forall>a. (\<forall>i < 512. a \<noteq> ofs h (8 * i)) \<longrightarrow> m' a = m a)"
proof -
  let ?m = "page_words g clear h ofl m 512"
  have g: "0 < g" "0 < n_objs g" using assms(2) by (simp_all add: granular_def div_greater_zero_iff n_objs_def)
  have other: "?m (ofs h (8 * i)) = (if clear then 0 else m (ofs h (8 * i)))"
    if "i < 512" "\<forall>j < n_objs g. 8 * i \<noteq> 16 * g * j" for i
  proof -
    have "\<not> starts_obj g i" using that(2) unfolding starts_obj_iff [OF g(1)] by blast
    then show ?thesis using page_words_at(1) [OF assms(1) order_refl that(1), of g clear ofl m] by (simp only: if_False)
  qed
  show ?thesis
    using build_fl_spec [OF assms] page_chain [OF assms order_refl g(2)] other page_words_at(2) [OF assms(1) order_refl]
    by (intro exI [of _ ?m] conjI allI impI) simp_all
qed

theorem new_block_free_list_witness:
  "\<exists>m'. GC_build_fl 0x10000 (words_of 128) True 7 (\<lambda>_. 5) = Inr (ofs 0x10000 2048, m') \<and>
     m' (ofs 0x10000 2048) = 0x10000 \<and> m' 0x10000 = 7 \<and> m' (ofs 0x10000 8) = 0"
proof -
  have n: "n_objs 128 = 2" by (simp add: n_objs_def)
  have "fits_page 0x10000" "granular 128" by (simp_all add: fits_page_def granular_def)
  note new = new_block_free_list [OF this, of True 7 "\<lambda>_. 5", unfolded n if_True]
  obtain m' where m: "GC_build_fl 0x10000 (words_of 128) True 7 (\<lambda>_. 5) = Inr (obj_at 0x10000 128 (2 - 1), m')"
    "chain m' (obj_at 0x10000 128 (2 - 1)) (rev (map (obj_at 0x10000 128) [0 ..< 2])) 7"
    "\<forall>i < 512. (\<forall>j < 2. 8 * i \<noteq> 16 * 128 * j) \<longrightarrow> m' (ofs 0x10000 (8 * i)) = 0"
    using new by (elim exE conjE) (rule that)
  have "8 * 1 \<noteq> 16 * 128 * j" for j :: nat by (cases j) simp_all
  then have "m' (ofs 0x10000 (8 * 1)) = 0" using m(3) [THEN spec [of _ 1]] by simp
  then have clear: "m' (ofs 0x10000 8) = 0" by (simp only: mult_1_right)
  have "rev (map (obj_at 0x10000 128) [0 ..< 2]) = [ofs 0x10000 2048, 0x10000]" by (simp add: upt_rec)
  with m(2) have "m' (ofs 0x10000 2048) = 0x10000" "m' 0x10000 = 7" by simp_all
  with m(1) clear show ?thesis by (intro exI [of _ m']) simp
qed

end
