(* ===== verification/Atomix_GC_Mark_Laws.thy ===== *)
theory Atomix_GC_Mark_Laws
  imports Atomix_GC_Sweep_Laws
begin

unbundle bit_operations_syntax

text \<open>
  Black lists and mark bits against their plain meaning: the search of a black list that skips
  words of the table finds the first listed block, and the count of the mark bits of a header
  counts the bit behind the last object too.
\<close>

section \<open>Black lists\<close>

definition pht_bit :: "u64 list \<Rightarrow> u64 \<Rightarrow> bool" where
  "pht_bit bl i \<longleftrightarrow> bit (bl ! (unat i div 64)) (unat i mod 64)"

lemma unat_PHT_HASH: "unat (PHT_HASH a) = unat a div 4096 mod 262144"
proof -
  have "PHT_HASH a = take_bit 18 (drop_bit 12 a)"
    unfolding PHT_HASH_def take_bit_eq_mask by (simp add: mask_eq_exp_minus_1)
  then show ?thesis by (simp add: take_bit_eq_mod drop_bit_eq_div unat_div unat_mod)
qed

lemma PHT_HASH_small: "unat (PHT_HASH a) < 262144"
  by (simp add: unat_PHT_HASH)

lemma get_pht: "length bl = 4096 \<Longrightarrow> get_pht_entry_from_index bl (PHT_HASH a) = Inr (pht_bit bl (PHT_HASH a))"
proof -
  assume "length bl = 4096"
  moreover have "unat (PHT_HASH a) div 64 < 4096" using PHT_HASH_small [of a] by (intro less_mult_imp_div_less) simp
  ultimately show ?thesis
    by (simp add: get_pht_entry_from_index_def read_at_def unat_divWORDSZ unat_modWORDSZ drop_bit_and_1 pht_bit_def)
qed

text \<open>The block \<open>i\<close> behind \<open>h\<close>, and whether it is on the stack black list.\<close>

definition nth_block :: "u64 \<Rightarrow> nat \<Rightarrow> u64" where
  "nth_block h i = h + word_of_nat i * HBLKSIZE"

definition stack_listed :: "gc \<Rightarrow> u64 \<Rightarrow> bool" where
  "stack_listed s b \<longleftrightarrow> pht_bit (GC_old_stack_bl s) (PHT_HASH b) \<or> pht_bit (GC_incomplete_stack_bl s) (PHT_HASH b)"

definition normal_listed :: "gc \<Rightarrow> u64 \<Rightarrow> bool" where
  "normal_listed s b \<longleftrightarrow> pht_bit (GC_old_normal_bl s) (PHT_HASH b) \<or> pht_bit (GC_incomplete_normal_bl s) (PHT_HASH b)"

lemma hash_nth_block:
  assumes "unat (PHT_HASH (nth_block h i)) mod 64 + k < 64"
  shows "unat (PHT_HASH (nth_block h (i + k))) = unat (PHT_HASH (nth_block h i)) + k"
proof -
  have ua: "unat (a + word_of_nat k * HBLKSIZE) div 4096 mod 262144 = (unat a div 4096 + k) mod 262144" for a :: u64
  proof -
    have "unat (word_of_nat k * HBLKSIZE :: u64) = k * 4096 mod 2 ^ 64"
      by (simp only: unat_word_ariths unat_of_nat) (simp add: mod_mult_left_eq)
    then have "unat (a + word_of_nat k * HBLKSIZE) = (unat a + k * 4096) mod 2 ^ 64"
      by (simp only: unat_word_ariths) (simp add: mod_add_right_eq)
    then have "unat (a + word_of_nat k * HBLKSIZE) div 4096 mod 262144 = ((unat a + k * 4096) mod (4096 * 2 ^ 52)) div 4096 mod 262144"
      by simp
    also have "\<dots> = (unat a + k * 4096) div 4096 mod 2 ^ 52 mod 262144"
      by (simp only: mod_mult2_eq) simp
    also have "\<dots> = (unat a + k * 4096) div 4096 mod 262144" by (simp add: mod_mod_cancel)
    finally show ?thesis by (simp add: add.commute)
  qed
  let ?x = "unat (PHT_HASH (nth_block h i))"
  have "nth_block h (i + k) = nth_block h i + word_of_nat k * HBLKSIZE"
    by (simp add: nth_block_def algebra_simps)
  then have "unat (PHT_HASH (nth_block h (i + k))) = (unat (nth_block h i) div 4096 + k) mod 262144"
    by (simp only: unat_PHT_HASH ua)
  also have "\<dots> = (?x + k) mod 262144" by (simp add: unat_PHT_HASH mod_add_left_eq)
  also have "\<dots> = ?x + k"
  proof -
    have "?x div 64 < 4096" using PHT_HASH_small [of "nth_block h i"] by (intro less_mult_imp_div_less) simp
    moreover have "?x = 64 * (?x div 64) + ?x mod 64" by simp
    ultimately have "?x + k < 262144" using assms by linarith
    then show ?thesis by simp
  qed
  finally show ?thesis .
qed

definition first_listed :: "gc \<Rightarrow> u64 \<Rightarrow> nat list \<Rightarrow> u64" where
  "first_listed s h js = (case find (\<lambda>j. stack_listed s (nth_block h j)) js of None \<Rightarrow> 0 | Some j \<Rightarrow> nth_block h (Suc j))"

lemma first_listed_skip: "\<forall>j \<in> set is. \<not> stack_listed s (nth_block h j) \<Longrightarrow> first_listed s h (is @ js) = first_listed s h js"
  by (induction "is") (simp_all add: first_listed_def)

lemma same_word: "x mod 64 + t < 64 \<Longrightarrow> (x + t) div 64 = x div 64" for x :: nat
proof -
  assume "x mod 64 + t < 64"
  moreover have "x + t = (x mod 64 + t) + (x div 64) * 64" by simp
  ultimately show ?thesis by (simp only: div_mult_self1)
qed

lemma upt_split: "i \<le> j \<Longrightarrow> j \<le> k \<Longrightarrow> [i ..< k] = [i ..< j] @ [j ..< k]"
  by (metis le_Suc_ex upt_add_eq_append)

text \<open>A zero word of both tables means no listed block up to the end of the word.\<close>

lemma zero_word:
  assumes "GC_old_stack_bl s ! (unat (PHT_HASH (nth_block h k)) div 64) = 0"
    and "GC_incomplete_stack_bl s ! (unat (PHT_HASH (nth_block h k)) div 64) = 0"
    and "unat (PHT_HASH (nth_block h k)) mod 64 + t < 64"
  shows "\<not> stack_listed s (nth_block h (k + t))"
proof -
  have "unat (PHT_HASH (nth_block h (k + t))) div 64 = unat (PHT_HASH (nth_block h k)) div 64"
    unfolding hash_nth_block [OF assms(3)] by (rule same_word [OF assms(3)])
  then show ?thesis using assms(1,2) by (simp add: stack_listed_def pht_bit_def)
qed

lemma bl_scan_spec:
  assumes "length (GC_old_stack_bl s) = 4096" "length (GC_incomplete_stack_bl s) = 4096" "unat nblocks < 2 ^ 52"
    and "N = max 1 (unat nblocks)" "k < N" "N \<le> k + n"
  shows "bl_scan n h nblocks (word_of_nat k) s = Inr (first_listed s h [k ..< N])"
  using assms(5,6)
proof (induction n arbitrary: k)
  case (Suc n)
  let ?b = "nth_block h k"
  let ?idx = "PHT_HASH ?b"
  let ?w = "unat ?idx div 64" and ?m = "unat ?idx mod 64"
  have blk: "h + word_of_nat k * HBLKSIZE = ?b" by (simp add: nth_block_def)
  have small: "x < 2 ^ 53 \<Longrightarrow> unat (word_of_nat x :: u64) = x" for x by (simp add: unat_of_nat)
  have past: "nblocks \<le> word_of_nat x \<longleftrightarrow> N \<le> x" if "0 < x" "x < 2 ^ 53" for x
    using that assms(4) by (auto simp: word_le_nat_alt small)
  have k: "k < 2 ^ 52" using Suc.prems(1) assms(3,4) by auto
  have w: "?w < 4096" using PHT_HASH_small [of ?b] by (intro less_mult_imp_div_less) simp
  have rd: "read_at bl (divWORDSZ ?idx) = Inr (bl ! ?w)" if "length bl = 4096" for bl :: "u64 list"
    using w that by (simp add: read_at_def unat_divWORDSZ)
  have rd2: "(if GC_old_stack_bl s ! ?w = 0 then Inr (GC_incomplete_stack_bl s ! ?w) else Inr 1) =
      (Inr (if GC_old_stack_bl s ! ?w = 0 then GC_incomplete_stack_bl s ! ?w else 1) :: u64 res)" by simp
  show ?case
  proof (cases "GC_old_stack_bl s ! ?w = 0 \<and> GC_incomplete_stack_bl s ! ?w = 0")
    case True
    let ?k = "k + (64 - ?m)"
    have m: "?m < 64" by simp
    have step: "word_of_nat k + (64 - modWORDSZ ?idx) = (word_of_nat ?k :: u64)"
    proof -
      have "modWORDSZ ?idx = word_of_nat ?m" by (metis unat_modWORDSZ word_of_nat_eq_iff of_nat_unat ucast_id)
      then show ?thesis using m by (simp add: of_nat_diff)
    qed
    have none: "\<forall>j \<in> set [k ..< min ?k N]. \<not> stack_listed s (nth_block h j)"
    proof
      fix j assume "j \<in> set [k ..< min ?k N]"
      then have "?m + (j - k) < 64" "j = k + (j - k)" using m by auto
      with zero_word [of s h k "j - k"] True show "\<not> stack_listed s (nth_block h j)" by simp
    qed
    have split: "[k ..< N] = [k ..< min ?k N] @ [min ?k N ..< N]"
      using Suc.prems(1) m by (intro upt_split) auto
    have skip: "first_listed s h [k ..< N] = first_listed s h [min ?k N ..< N]"
      unfolding split by (rule first_listed_skip [OF none])
    have test: "nblocks \<le> word_of_nat ?k \<longleftrightarrow> N \<le> ?k" using m k by (intro past) auto
    show ?thesis
    proof (cases "N \<le> ?k")
      case stop: True
      then have "first_listed s h [k ..< N] = 0" unfolding skip by (simp add: first_listed_def min_def)
      then show ?thesis
        using True stop unfolding bl_scan.simps Let_def blk rd [OF assms(1)] rd [OF assms(2)] rd2 andThen_Inr step test by simp
    next
      case False
      then have "bl_scan n h nblocks (word_of_nat ?k) s = Inr (first_listed s h [?k ..< N])"
        using Suc.prems m by (intro Suc.IH) auto
      moreover have mk: "min ?k N = ?k" using False by (simp only: min_absorb1 not_le less_imp_le)
      ultimately show ?thesis
        using True False
        unfolding bl_scan.simps Let_def blk rd [OF assms(1)] rd [OF assms(2)] rd2 andThen_Inr step test skip mk by simp
    qed
  next
    case False
    have upt: "[k ..< N] = k # [Suc k ..< N]" using Suc.prems(1) by (rule upt_conv_Cons)
    have test: "nblocks \<le> word_of_nat k + 1 \<longleftrightarrow> N \<le> Suc k"
      using past [of "Suc k"] k by (simp add: add.commute)
    have word: "h + (word_of_nat k + 1) * HBLKSIZE = nth_block h (Suc k)" by (simp add: nth_block_def algebra_simps)
    have listed: "or_else (Inr (pht_bit (GC_old_stack_bl s) ?idx)) (Inr (pht_bit (GC_incomplete_stack_bl s) ?idx)) =
        Inr (stack_listed s ?b)" by (simp add: or_else_def stack_listed_def)
    have round: "bl_scan (Suc n) h nblocks (word_of_nat k) s =
        (if stack_listed s ?b then Inr (nth_block h (Suc k)) else if N \<le> Suc k then Inr 0
         else bl_scan n h nblocks (word_of_nat k + 1) s)"
      using False unfolding bl_scan.simps Let_def blk rd [OF assms(1)] rd [OF assms(2)] rd2 andThen_Inr get_pht [OF assms(1)]
        get_pht [OF assms(2)] listed test word by auto
    show ?thesis
    proof (cases "stack_listed s ?b")
      case True
      then show ?thesis unfolding round upt by (simp add: first_listed_def)
    next
      case no: False
      then have skip: "first_listed s h [k ..< N] = first_listed s h [Suc k ..< N]" unfolding upt by (simp add: first_listed_def)
      show ?thesis
      proof (cases "N \<le> Suc k")
        case True
        then show ?thesis using no unfolding round skip by (simp add: first_listed_def)
      next
        case False
        then have "bl_scan n h nblocks (word_of_nat (Suc k)) s = Inr (first_listed s h [Suc k ..< N])"
          using Suc.prems by (intro Suc.IH) auto
        moreover have "word_of_nat (Suc k) = (word_of_nat k + 1 :: u64)" by simp
        ultimately show ?thesis using no False unfolding round skip by (simp add: add.commute)
      qed
    qed
  qed
qed simp

text \<open>\<open>GC_is_black_listed\<close> answers as a test of the blocks of the range one by one would: the address
  behind the first black-listed block, or 0 if none is listed. Skipping the zero words of the
  hash tables misses nothing, also where the range wraps around the end of the table. A range of
  less than a block counts as one block.\<close>

theorem is_black_listed_first:
  assumes "length (GC_old_stack_bl s) = 4096" "length (GC_incomplete_stack_bl s) = 4096"
    and "length (GC_old_normal_bl s) = 4096" "length (GC_incomplete_normal_bl s) = 4096"
  shows "GC_is_black_listed h len s =
    Inr (if \<not> GC_all_interior_pointers s \<and> normal_listed s h then nth_block h 1
         else case find (\<lambda>j. stack_listed s (nth_block h j)) [0 ..< max 1 (unat len div 4096)] of
                None \<Rightarrow> 0 | Some j \<Rightarrow> nth_block h (Suc j))"
proof -
  have nb: "unat (divHBLKSZ len) = unat len div 4096" by (simp add: divHBLKSZ_def drop_bit_eq_div unat_div)
  have "unat len < 2 ^ 64" using unsigned_less [of len, where 'a = nat] by simp
  then have small: "unat (divHBLKSZ len) < 2 ^ 52" unfolding nb by (intro less_mult_imp_div_less) simp
  have scan: "bl_scan (unat (divHBLKSZ len) + 1) h (divHBLKSZ len) 0 s = Inr (first_listed s h [0 ..< max 1 (unat len div 4096)])"
    using bl_scan_spec [OF assms(1,2) small refl, of 0 "unat (divHBLKSZ len) + 1" h] by (simp add: nb)
  have "h + HBLKSIZE = nth_block h 1" by (simp add: nth_block_def)
  then show ?thesis
    unfolding GC_is_black_listed_def Let_def get_pht [OF assms(3)] get_pht [OF assms(4)] scan first_listed_def [symmetric]
    by (simp add: or_else_def normal_listed_def)
qed

text \<open>A table with the bit of the block 65 set.\<close>

definition demo_black_list :: gc where
  "demo_black_list = initial_gc\<lparr>GC_old_stack_bl := empty_bl[1 := 2], GC_incomplete_stack_bl := empty_bl,
     GC_old_normal_bl := empty_bl, GC_incomplete_normal_bl := empty_bl\<rparr>"

lemma demo_listed: "j < 128 \<Longrightarrow> stack_listed demo_black_list (nth_block 0 j) \<longleftrightarrow> j = 65"
proof -
  assume j: "j < 128"
  then have hash: "unat (PHT_HASH (nth_block 0 j)) = j"
    by (simp add: unat_PHT_HASH nth_block_def unat_word_ariths unat_of_nat)
  show ?thesis
  proof (cases "j < 64")
    case True
    then show ?thesis by (simp add: stack_listed_def pht_bit_def hash demo_black_list_def empty_bl_def)
  next
    case False
    then obtain r where r: "j = 64 + r" using le_Suc_ex [of 64 j] by auto
    then have "j div 64 = 1" "j mod 64 = r" "j = 65 \<longleftrightarrow> r = 1" using j by (simp_all add: div_nat_eqI)
    then show ?thesis by (auto simp: stack_listed_def pht_bit_def hash demo_black_list_def empty_bl_def bit_2_iff)
  qed
qed

theorem is_black_listed_first_witness: "GC_is_black_listed 0 0x80000 demo_black_list = Inr (nth_block 0 66)"
proof -
  have "find (\<lambda>j. stack_listed demo_black_list (nth_block 0 j)) [0 ..< 128] = Some 65"
    by (auto simp: find_Some_iff demo_listed intro!: exI [of _ 65])
  moreover have "\<not> normal_listed demo_black_list 0"
    by (simp add: normal_listed_def pht_bit_def PHT_HASH_def demo_black_list_def empty_bl_def)
  moreover have "length (GC_old_stack_bl demo_black_list) = 4096" "length (GC_incomplete_stack_bl demo_black_list) = 4096"
    "length (GC_old_normal_bl demo_black_list) = 4096" "length (GC_incomplete_normal_bl demo_black_list) = 4096"
    by (simp_all add: demo_black_list_def empty_bl_def)
  from is_black_listed_first [OF this, of 0 "0x80000"] calculation show ?thesis by simp
qed

section \<open>Counting marks\<close>

lemma set_bits_zero: "set_bits 0 = 0"
  by (simp add: set_bits_def numeral_eq_Suc)

lemma set_bits_from_bit: "k < n \<Longrightarrow> k < 64 \<Longrightarrow> set_bits_from n (2 ^ k) r = r + 1"
proof (induction k arbitrary: n r)
  case 0
  then obtain n' where "n = Suc n'" by (cases n) auto
  moreover have "set_bits_from n' 0 (r + 1) = r + 1" by (cases n') simp_all
  ultimately show ?case by (simp add: drop_bit_Suc)
next
  case (Suc k)
  then obtain n' where n: "n = Suc n'" by (cases n) auto
  have "(2 :: u64) ^ Suc k \<noteq> 0" using Suc.prems(2) by (simp only: exp_eq_zero_iff) simp
  then have "0 < (2 ^ Suc k :: u64)" by (simp only: word_greater_zero_iff not_False_eq_True)
  moreover have "drop_bit 1 (2 ^ Suc k) = (2 ^ k :: u64)"
    using Suc.prems(2) by (intro bit_eqI) (auto simp: bit_simps simp del: power_Suc)
  moreover have "2 ^ Suc k AND 1 = (0 :: u64)"
    using Suc.prems(2) by (intro bit_eqI) (auto simp: bit_simps simp del: power_Suc)
  ultimately show ?case using Suc.IH [of n' r] Suc.prems unfolding n by (simp del: power_Suc)
qed

lemma set_bits_bit: "k < 64 \<Longrightarrow> set_bits (2 ^ k) = 1"
  unfolding set_bits_def by (simp add: set_bits_from_bit)

lemma final_mark_bit: "unat (FINAL_MARK_BIT sz) \<le> 256"
proof (cases "MAXOBJBYTES < sz")
  case False
  have objs: "unat (HBLK_OBJS sz) = 4096 div unat sz" by (simp add: HBLK_OBJS_def unat_div)
  have "unat (sz * HBLK_OBJS sz) \<le> unat sz * unat (HBLK_OBJS sz)"
    by (simp only: unat_word_ariths mod_less_eq_dividend)
  also have "\<dots> \<le> 4096" unfolding objs by (rule times_div_less_eq_dividend)
  finally have "unat (sz * HBLK_OBJS sz) \<le> 4096" .
  then have "unat (sz * HBLK_OBJS sz) div 16 \<le> 256" by simp
  then show ?thesis using False by (simp add: FINAL_MARK_BIT_def BYTES_TO_GRANULES_def drop_bit_eq_div unat_div)
qed (simp add: FINAL_MARK_BIT_def)

text \<open>The number of set mark bits of a header, by \<open>GC_n_set_marks\<close>, counts the bit behind the last
  object, which clearing the marks sets: after \<open>GC_clear_hdr_marks\<close> it is 1 for every size of object,
  although no object is marked and the count \<open>hb_n_marks\<close> is 0, with which it is compared.\<close>

theorem n_set_marks_counts_end:
  assumes "length (hb_marks hhdr) = 5"
  shows "\<exists>hhdr'. GC_clear_hdr_marks hhdr = Inr hhdr' \<and> GC_n_set_marks hhdr' = 1 \<and> hb_n_marks hhdr' = 0"
proof -
  let ?n = "FINAL_MARK_BIT (hb_sz hhdr)"
  have n: "unat ?n div 64 < 5" using final_mark_bit [of "hb_sz hhdr"] by (intro less_mult_imp_div_less) simp
  have sum: "sum_list (map set_bits ((replicate 5 0)[i := 2 ^ k])) = 1" if "i < 5" "k < 64" for i k
  proof -
    have "i = 0 \<or> i = 1 \<or> i = 2 \<or> i = 3 \<or> i = 4" using that(1) by auto
    then show ?thesis by (elim disjE) (simp_all add: numeral_eq_Suc set_bits_zero set_bits_bit [OF that(2)])
  qed
  show ?thesis
    using n assms sum [OF n, of "unat ?n mod 64"]
    by (simp add: GC_clear_hdr_marks_def set_mark_bit_from_hdr_def read_at_def write_at_def unat_divWORDSZ unat_modWORDSZ
        GC_n_set_marks_def)
qed

theorem n_set_marks_counts_end_witness:
  "\<exists>hhdr'. GC_clear_hdr_marks zero_hdr = Inr hhdr' \<and> GC_n_set_marks hhdr' = 1 \<and> hb_n_marks hhdr' = 0"
  by (rule n_set_marks_counts_end) (simp add: zero_hdr_def)


end
