(* ===== verification/Atomix_GC_Free_Laws.thy ===== *)
theory Atomix_GC_Free_Laws
  imports Atomix_GC_Alloc
begin

unbundle bit_operations_syntax

text \<open>
  The free lists of heap blocks against plain lists of addresses: the doubly linked lists in the
  headers represent one list for each size class, adding puts a block in front of the list of its
  class, removing takes it out wherever it stands, and the byte counts stay the sums of the
  sizes.
\<close>

section \<open>Size classes\<close>

lemma class_value:
  "unat (GC_hblk_fl_from_blocks n) =
     (if unat n \<le> 32 then unat n else if 256 \<le> unat n then 60 else (unat n - 32) div 8 + 32)"
proof -
  have "unat ((n - 32) div 8 + 32) = (unat n - 32) div 8 + 32" if "\<not> n \<le> 32" "\<not> 256 \<le> n"
  proof -
    have "unat (n - 32) = unat n - 32" using that(1) by (simp add: unat_sub word_le_nat_alt)
    moreover have "unat n < 256" using that(2) by (simp add: word_le_nat_alt)
    ultimately show ?thesis by (simp add: unat_word_ariths unat_div)
  qed
  then show ?thesis by (auto simp: GC_hblk_fl_from_blocks_def word_le_nat_alt)
qed

lemma class_bound: "unat (GC_hblk_fl_from_blocks n) < 61"
  unfolding class_value by auto

lemma class_mono: "a \<le> b \<Longrightarrow> GC_hblk_fl_from_blocks a \<le> GC_hblk_fl_from_blocks b"
  unfolding word_le_nat_alt class_value by (auto split: if_splits intro: div_le_mono)

text \<open>The free list of a number of blocks exists, larger blocks are on the same or a later list, and
  up to 32 blocks every size has a list of its own.\<close>

theorem size_classes:
  "GC_hblk_fl_from_blocks n \<le> N_HBLK_FLS \<and>
   GC_hblk_fl_from_blocks (min m n) \<le> GC_hblk_fl_from_blocks (max m n) \<and>
   (if n \<le> 32 then GC_hblk_fl_from_blocks n = n else 32 \<le> GC_hblk_fl_from_blocks n)"
proof -
  have "GC_hblk_fl_from_blocks n \<le> N_HBLK_FLS" unfolding word_le_nat_alt class_value by auto
  moreover have "GC_hblk_fl_from_blocks (min m n) \<le> GC_hblk_fl_from_blocks (max m n)"
    by (rule class_mono) (simp add: min_le_iff_disj)
  moreover have "if n \<le> 32 then GC_hblk_fl_from_blocks n = n else 32 \<le> GC_hblk_fl_from_blocks n"
    unfolding word_le_nat_alt class_value by (auto simp: GC_hblk_fl_from_blocks_def word_le_nat_alt)
  ultimately show ?thesis by blast
qed

section \<open>Headers of blocks\<close>

text \<open>The position of the header of a block.\<close>

definition hix :: "gc \<Rightarrow> u64 \<Rightarrow> nat option" where
  "hix s x =
     (case HDR x s of
        Inl e \<Rightarrow> None
      | Inr p \<Rightarrow> (case hdr_index p of Inl e \<Rightarrow> None | Inr i \<Rightarrow> if i < length (gc_hdrs s) then Some i else None))"

definition hdr_at :: "gc \<Rightarrow> u64 \<Rightarrow> hdr" where
  "hdr_at s x = gc_hdrs s ! the (hix s x)"

lemma HDR_cong:
  assumes "bottom_indices s' = bottom_indices s" "GC_top_index s' = GC_top_index s"
  shows "HDR x s' = HDR x s"
  unfolding HDR_def GET_BI_def assms by (rule refl)

lemma hix_cong:
  "bottom_indices s' = bottom_indices s \<Longrightarrow> GC_top_index s' = GC_top_index s \<Longrightarrow>
   length (gc_hdrs s') = length (gc_hdrs s) \<Longrightarrow> hix s' x = hix s x"
  by (simp only: hix_def HDR_cong [of s' s])

lemma hix_Some: "hix s x = Some i \<Longrightarrow> \<exists>p. HDR x s = Inr p \<and> hdr_index p = Inr i \<and> i < length (gc_hdrs s)"
  by (auto simp: hix_def split: sum.splits if_splits)

text \<open>The state with the header of a block changed.\<close>

definition hup :: "gc \<Rightarrow> u64 \<Rightarrow> (hdr \<Rightarrow> hdr) \<Rightarrow> gc" where
  "hup s x f = s\<lparr>gc_hdrs := (gc_hdrs s)[the (hix s x) := f (hdr_at s x)]\<rparr>"

lemma hix_hup [simp]: "hix (hup s x f) = hix s"
  by (rule ext) (rule hix_cong; simp add: hup_def)

lemma hix_updates [simp]:
  "hix (s\<lparr>GC_hblkfreelist := fl\<rparr>) = hix s"
  "hix (s\<lparr>GC_free_bytes := fb\<rparr>) = hix s"
  by (rule ext, rule hix_cong; simp)+

lemma hdr_at_updates [simp]:
  "hdr_at (s\<lparr>GC_hblkfreelist := fl\<rparr>) = hdr_at s"
  "hdr_at (s\<lparr>GC_free_bytes := fb\<rparr>) = hdr_at s"
  by (simp_all add: hdr_at_def fun_eq_iff)

lemma HDR_updates [simp]:
  "HDR x (hup s y f) = HDR x s"
  "HDR x (s\<lparr>GC_hblkfreelist := fl\<rparr>) = HDR x s"
  "HDR x (s\<lparr>GC_free_bytes := fb\<rparr>) = HDR x s"
  by (rule HDR_cong; simp add: hup_def)+

lemma lists_hup [simp]:
  "GC_hblkfreelist (hup s x f) = GC_hblkfreelist s" "GC_free_bytes (hup s x f) = GC_free_bytes s"
  by (simp_all add: hup_def)

lemma hix_HDR: "HDR x s = Inr p \<Longrightarrow> hdr_index p = Inr i \<Longrightarrow> i < length (gc_hdrs s) \<Longrightarrow> hix s x = Some i"
  by (simp add: hix_def)

lemma get_hdr_HDR: "HDR x s = Inr p \<Longrightarrow> hix s x \<noteq> None \<Longrightarrow> get_hdr p s = Inr (hdr_at s x)"
  by (auto dest!: hix_Some simp: get_hdr_def hdr_at_def hix_HDR)

lemma mod_hdr_HDR: "HDR x s = Inr p \<Longrightarrow> hix s x \<noteq> None \<Longrightarrow> mod_hdr p f s = Inr (hup s x f)"
  by (auto dest!: hix_Some simp: mod_hdr_def hup_def hdr_at_def hix_HDR)

lemma mod_hdr_of_hix: "hix s x \<noteq> None \<Longrightarrow> mod_hdr_of x f s = Inr (hup s x f)"
  by (cases "HDR x s") (auto dest: hix_Some simp: mod_hdr_of_def mod_hdr_HDR)

text \<open>Blocks with a header each.\<close>

definition known :: "gc \<Rightarrow> u64 set \<Rightarrow> bool" where
  "known s A \<longleftrightarrow> inj_on (hix s) A \<and> (\<forall>x \<in> A. hix s x \<noteq> None)"

lemma hdr_at_hup:
  assumes "known s A" "x \<in> A" "y \<in> A"
  shows "hdr_at (hup s x f) y = (if y = x then f (hdr_at s x) else hdr_at s y)"
proof -
  obtain i j where ij: "hix s x = Some i" "hix s y = Some j" using assms unfolding known_def by blast
  have "i < length (gc_hdrs s)" using hix_Some [OF ij(1)] by blast
  moreover have "j = i \<longleftrightarrow> y = x"
    using assms ij unfolding known_def by (metis inj_onD option.inject)
  ultimately show ?thesis by (auto simp: hdr_at_def ij) (simp_all add: hup_def hdr_at_def ij)
qed

section \<open>Linked lists\<close>

text \<open>A doubly linked list with the links \<open>nx\<close> and \<open>pv\<close>, behind the block \<open>prev\<close>.\<close>

fun linked :: "(u64 \<Rightarrow> u64) \<Rightarrow> (u64 \<Rightarrow> u64) \<Rightarrow> u64 \<Rightarrow> u64 list \<Rightarrow> u64 \<Rightarrow> bool" where
  "linked nx pv prev [] start \<longleftrightarrow> start = 0"
| "linked nx pv prev (x # xs) start \<longleftrightarrow> start = x \<and> x \<noteq> 0 \<and> pv x = prev \<and> linked nx pv x xs (nx x)"

lemma linked_cong:
  "(\<And>x. x \<in> set xs \<Longrightarrow> nx' x = nx x \<and> pv' x = pv x) \<Longrightarrow> linked nx' pv' prev xs start = linked nx pv prev xs start"
  by (induction xs arbitrary: prev start) auto

lemma linked_start: "linked nx pv prev xs start \<Longrightarrow> start = (case xs of [] \<Rightarrow> 0 | x # _ \<Rightarrow> x)"
  by (cases xs) auto

lemma linked_nonzero: "linked nx pv prev xs start \<Longrightarrow> 0 \<notin> set xs"
  by (induction xs arbitrary: prev start) auto

lemma linked_add:
  assumes "linked nx pv 0 xs start" "distinct (h # xs)" "h \<noteq> 0"
    and nx': "\<And>y. y \<in> set (h # xs) \<Longrightarrow> nx' y = (if y = h then start else nx y)"
    and pv': "\<And>y. y \<in> set (h # xs) \<Longrightarrow> pv' y = (if y = h then 0 else if y = start then h else pv y)"
  shows "linked nx' pv' 0 (h # xs) h"
proof (cases xs)
  case Nil
  then show ?thesis using assms(1,3) nx' [of h] pv' [of h] by simp
next
  case (Cons y ys)
  have y: "start = y" "y \<noteq> 0" "linked nx pv y ys (nx y)" "h \<noteq> y" using assms(1,2) Cons by auto
  have "linked nx' pv' y ys (nx y) = linked nx pv y ys (nx y)"
    using assms(2) Cons y(1) by (intro linked_cong conjI) (auto simp: nx' pv')
  moreover have "nx' h = y" "pv' h = 0" "nx' y = nx y" "pv' y = h"
    using y Cons by (simp_all add: nx' pv')
  ultimately show ?thesis using y(2,3) assms(3) unfolding Cons by (simp only: linked.simps simp_thms)
qed

lemma linked_mid:
  "linked nx pv prev (ys @ x # zs) start \<Longrightarrow>
   pv x = (if ys = [] then prev else last ys) \<and> nx x = (case zs of [] \<Rightarrow> 0 | z # _ \<Rightarrow> z)"
proof (induction ys arbitrary: prev start)
  case Nil
  then have "pv x = prev" "linked nx pv x zs (nx x)" by simp_all
  then show ?case using linked_start by (simp only: append.simps if_True simp_thms)
next
  case (Cons y ys)
  then have "linked nx pv y (ys @ x # zs) (nx y)" by simp
  from Cons.IH [OF this] show ?case by (simp only: last.simps list.distinct if_False)
qed

lemma linked_remove:
  assumes "linked nx pv prev (ys @ x # zs) start" "distinct (prev # ys @ x # zs)"
    and nx': "\<And>y. y \<in> set (ys @ zs) \<Longrightarrow> nx' y = (if y = pv x then nx x else nx y)"
    and pv': "\<And>y. y \<in> set (ys @ zs) \<Longrightarrow> pv' y = (if y = nx x then pv x else pv y)"
  shows "linked nx' pv' prev (ys @ zs) (if ys = [] then nx x else start)"
  using assms
proof (induction ys arbitrary: prev start)
  case Nil
  have x: "pv x = prev" "linked nx pv x zs (nx x)" using Nil.prems(1) by simp_all
  show ?case
  proof (cases zs)
    case Nil
    then show ?thesis using x(2) by simp
  next
    case (Cons z zs')
    have z: "nx x = z" "z \<noteq> 0" "linked nx pv z zs' (nx z)" "z \<noteq> prev" using x(2) Nil.prems(2) Cons by auto
    have "linked nx' pv' z zs' (nx z) = linked nx pv z zs' (nx z)"
      using Nil.prems(2) Cons z(1) x(1) by (intro linked_cong conjI) (auto simp: Nil.prems(3,4))
    moreover have "nx' z = nx z" "pv' z = prev" using z x(1) Cons by (simp_all add: Nil.prems(3,4))
    ultimately show ?thesis using z(1,2,3) unfolding Cons by (simp only: linked.simps simp_thms append.simps if_True)
  qed
next
  case (Cons y ys)
  have mid: "pv x = (if ys = [] then y else last ys)" "nx x = (case zs of [] \<Rightarrow> 0 | z # _ \<Rightarrow> z)"
    using linked_mid [OF Cons.prems(1)] by (simp_all only: last.simps list.distinct if_False)
  have y: "start = y" "y \<noteq> 0" "pv y = prev" "linked nx pv y (ys @ x # zs) (nx y)" using Cons.prems(1) by simp_all
  have "linked nx' pv' y (ys @ zs) (if ys = [] then nx x else nx y)"
    by (rule Cons.IH [OF y(4)]) (use Cons.prems(2) in simp, simp_all add: Cons.prems(3,4))
  moreover have "y \<noteq> last ys" if "ys \<noteq> []" using Cons.prems(2) that by auto
  then have "nx' y = (if ys = [] then nx x else nx y)" unfolding Cons.prems(3) [of y, simplified] by (simp add: mid(1))
  moreover have "y \<noteq> nx x" unfolding mid(2) using Cons.prems(2) y(2) by (auto split: list.splits)
  then have "pv' y = prev" unfolding Cons.prems(4) [of y, simplified] y(3) by simp
  ultimately show ?case using y(1,2) by (simp only: linked.simps simp_thms append.simps list.distinct if_False)
qed


section \<open>The representation\<close>

definition hnext :: "gc \<Rightarrow> u64 \<Rightarrow> u64" where "hnext s x = hb_next (hdr_at s x)"
definition hprev :: "gc \<Rightarrow> u64 \<Rightarrow> u64" where "hprev s x = hb_prev (hdr_at s x)"
definition hsize :: "gc \<Rightarrow> u64 \<Rightarrow> u64" where "hsize s x = hb_sz (hdr_at s x)"

definition on_lists :: "(nat \<Rightarrow> u64 list) \<Rightarrow> u64 set" where
  "on_lists L = (\<Union>i < 61. set (L i))"

text \<open>The state represents the free lists \<open>L\<close>, one for each of the 61 classes: every block is on one list
  at most and has a header of its own, the links and the heads are those of the list, and the
  byte counts are the sums of the sizes.\<close>

definition free_lists :: "gc \<Rightarrow> (nat \<Rightarrow> u64 list) \<Rightarrow> bool" where
  "free_lists s L \<longleftrightarrow>
     length (GC_hblkfreelist s) = 61 \<and> length (GC_free_bytes s) = 61 \<and> known s (on_lists L) \<and>
     (\<forall>i < 61. distinct (L i) \<and> linked (hnext s) (hprev s) 0 (L i) (GC_hblkfreelist s ! i) \<and>
        GC_free_bytes s ! i = sum_list (map (hsize s) (L i))) \<and>
     (\<forall>i < 61. \<forall>j < 61. i \<noteq> j \<longrightarrow> set (L i) \<inter> set (L j) = {})"

lemma on_list: "x \<in> set (L i) \<Longrightarrow> i < 61 \<Longrightarrow> x \<in> on_lists L"
  unfolding on_lists_def by blast

lemma known_subset: "known s A \<Longrightarrow> B \<subseteq> A \<Longrightarrow> known s B"
  unfolding known_def by (blast intro: inj_on_subset)

lemma known_cong: "hix s' = hix s \<Longrightarrow> known s' A = known s A"
  by (simp add: known_def)

lemma free_lists_step:
  assumes L: "free_lists s L" and c: "c < 61"
    and lists: "GC_hblkfreelist s' = (GC_hblkfreelist s)[c := st]" "GC_free_bytes s' = (GC_free_bytes s)[c := sum_list (map (hsize s') xs)]"
    and hix: "hix s' = hix s" and A: "known s A" "set xs \<subseteq> A" "on_lists L \<subseteq> A"
    and xs: "distinct xs" "linked (hnext s') (hprev s') 0 xs st"
    and apart: "\<And>i. i < 61 \<Longrightarrow> i \<noteq> c \<Longrightarrow> set xs \<inter> set (L i) = {}"
    and same: "\<And>i x. i < 61 \<Longrightarrow> i \<noteq> c \<Longrightarrow> x \<in> set (L i) \<Longrightarrow> hnext s' x = hnext s x \<and> hprev s' x = hprev s x \<and> hsize s' x = hsize s x"
  shows "free_lists s' (L(c := xs))"
proof -
  have "on_lists (L(c := xs)) \<subseteq> set xs \<union> on_lists L" by (auto simp: on_lists_def split: if_splits)
  then have "on_lists (L(c := xs)) \<subseteq> A" using A(2,3) by blast
  then have "known s' (on_lists (L(c := xs)))" using A(1) by (simp add: known_cong [OF hix] known_subset)
  moreover have "distinct ((L(c := xs)) i) \<and> linked (hnext s') (hprev s') 0 ((L(c := xs)) i) (GC_hblkfreelist s' ! i) \<and>
      GC_free_bytes s' ! i = sum_list (map (hsize s') ((L(c := xs)) i))" if i: "i < 61" for i
  proof (cases "i = c")
    case True
    then show ?thesis using xs c L by (simp add: lists free_lists_def)
  next
    case False
    have "linked (hnext s') (hprev s') 0 (L i) (GC_hblkfreelist s ! i) = linked (hnext s) (hprev s) 0 (L i) (GC_hblkfreelist s ! i)"
      using same [OF i False] by (intro linked_cong) blast
    moreover have "map (hsize s') (L i) = map (hsize s) (L i)" using same [OF i False] by simp
    ultimately show ?thesis using L i False by (simp add: lists free_lists_def del: map_eq_conv)
  qed
  moreover have "set ((L(c := xs)) i) \<inter> set ((L(c := xs)) j) = {}" if "i < 61" "j < 61" "i \<noteq> j" for i j
    using that L apart by (cases "i = c"; cases "j = c") (auto simp: free_lists_def Int_commute)
  ultimately show ?thesis using L by (simp add: free_lists_def lists)
qed

lemma list_at:
  assumes "free_lists s L" "i < 61"
  shows "linked (hnext s) (hprev s) 0 (L i) (GC_hblkfreelist s ! i)" "distinct (L i)"
    "GC_free_bytes s ! i = sum_list (map (hsize s) (L i))"
  using assms by (simp_all add: free_lists_def)

lemma set_fl_class:
  "length (GC_hblkfreelist s) = 61 \<Longrightarrow> unat i < 61 \<Longrightarrow>
   set_fl i h s = Inr (s\<lparr>GC_hblkfreelist := (GC_hblkfreelist s)[unat i := h]\<rparr>)"
  by (simp add: set_fl_def write_at_def)

lemma add_free_bytes_class:
  "length (GC_free_bytes s) = 61 \<Longrightarrow> unat i < 61 \<Longrightarrow>
   add_free_bytes i n s = Inr (s\<lparr>GC_free_bytes := (GC_free_bytes s)[unat i := GC_free_bytes s ! unat i + n]\<rparr>)"
  by (simp add: add_free_bytes_def read_at_def write_at_def)

text \<open>The class of the list a block belongs on.\<close>

definition class_of :: "gc \<Rightarrow> u64 \<Rightarrow> nat" where
  "class_of s h = unat (GC_hblk_fl_from_blocks (divHBLKSZ (hsize s h)))"

lemma class_of_bound: "class_of s h < 61"
  unfolding class_of_def by (rule class_bound)


section \<open>Adding and removing\<close>

text \<open>The state after \<open>GC_add_to_fl\<close>.\<close>

definition added :: "gc \<Rightarrow> u64 \<Rightarrow> gc" where
  "added s h =
     (let c = class_of s h; second = GC_hblkfreelist s ! c;
          s1 = s\<lparr>GC_hblkfreelist := (GC_hblkfreelist s)[c := h]\<rparr>;
          s2 = s1\<lparr>GC_free_bytes := (GC_free_bytes s1)[c := GC_free_bytes s1 ! c + hsize s h]\<rparr>;
          s3 = hup s2 h (\<lambda>x. x\<lparr>hb_next := second, hb_prev := 0\<rparr>);
          s4 = (if second \<noteq> 0 then hup s3 second (\<lambda>x. x\<lparr>hb_prev := h\<rparr>) else s3)
      in hup s4 h (\<lambda>x. x\<lparr>hb_flags := hb_flags x OR FREE_BLK\<rparr>))"

lemma add_to_fl_eq:
  assumes "free_lists s L" "HDR h s = Inr hhdr" "hix s h \<noteq> None"
    and second: "GC_hblkfreelist s ! class_of s h \<noteq> 0 \<Longrightarrow> hix s (GC_hblkfreelist s ! class_of s h) \<noteq> None"
  shows "GC_add_to_fl h hhdr s = Inr (added s h)"
proof -
  obtain i where i: "GC_hblk_fl_from_blocks (divHBLKSZ (hsize s h)) = i" "unat i = class_of s h" "unat i < 61"
    by (simp add: class_of_def class_bound)
  have len: "length (GC_hblkfreelist s) = 61" "length (GC_free_bytes s) = 61" using assms(1) by (simp_all add: free_lists_def)
  have r: "read_at (GC_hblkfreelist s) i = Inr (GC_hblkfreelist s ! class_of s h)"
    using i len by (simp add: read_at_def)
  show ?thesis
    unfolding GC_add_to_fl_def get_hdr_HDR [OF assms(2,3)] andThen_Inr Let_def hsize_def [symmetric] i(1) r
      set_fl_class [OF len(1) i(3)] i(2)
    using assms(2,3) second class_of_bound [of s h] i(2)
    by (simp add: add_free_bytes_class len mod_hdr_HDR mod_hdr_of_hix added_def Let_def)
qed


lemma known_updates [simp]:
  "known (hup s x f) A = known s A"
  "known (s\<lparr>GC_hblkfreelist := fl\<rparr>) A = known s A"
  "known (s\<lparr>GC_free_bytes := fb\<rparr>) A = known s A"
  by (simp_all add: known_def)

lemma added_lists:
  "hix (added s h) = hix s"
  "GC_hblkfreelist (added s h) = (GC_hblkfreelist s)[class_of s h := h]"
  "GC_free_bytes (added s h) = (GC_free_bytes s)[class_of s h := GC_free_bytes s ! class_of s h + hsize s h]"
  by (simp_all add: added_def Let_def)

lemma added_hdr:
  assumes A: "known s A" "h \<in> A" "y \<in> A" "0 \<notin> A" and second: "second \<noteq> 0 \<Longrightarrow> second \<in> A" "h \<noteq> second"
    and "GC_hblkfreelist s ! class_of s h = second"
  shows "hdr_at (added s h) y =
    (if y = h then (hdr_at s h)\<lparr>hb_next := second, hb_prev := 0, hb_flags := hb_flags (hdr_at s h) OR FREE_BLK\<rparr>
     else if y = second then (hdr_at s y)\<lparr>hb_prev := h\<rparr> else hdr_at s y)"
proof (cases "second = 0")
  case True
  then have "y \<noteq> second" using A by auto
  then show ?thesis using A second True assms(7) by (simp add: added_def Let_def hdr_at_hup [where A = A])
next
  case False
  then show ?thesis using A second assms(7) by (simp add: added_def Let_def hdr_at_hup [where A = A])
qed

lemma free_lists_add:
  assumes L: "free_lists s L" and A: "known s (insert h (on_lists L))" "h \<notin> on_lists L" "h \<noteq> 0"
  shows "free_lists (added s h) (L(class_of s h := h # L (class_of s h)))"
    and "x \<in> insert h (on_lists L) \<Longrightarrow> hsize (added s h) x = hsize s x"
    and "HBLK_IS_FREE (hdr_at (added s h) h)"
proof -
  let ?c = "class_of s h" and ?A = "insert h (on_lists L)"
  obtain second where second: "GC_hblkfreelist s ! ?c = second" by blast
  note c = class_of_bound [of s h]
  have lk: "linked (hnext s) (hprev s) 0 (L ?c) second" using list_at [OF L c] second by simp
  have zero: "0 \<notin> ?A"
    using linked_nonzero [OF list_at(1) [OF L]] A(3) unfolding on_lists_def by auto
  have in_list: "second \<noteq> 0 \<Longrightarrow> second \<in> set (L ?c)" using linked_start [OF lk] by (auto split: list.splits)
  then have sA: "second \<noteq> 0 \<Longrightarrow> second \<in> ?A" using on_list [OF _ c] by blast
  have hs: "h \<noteq> second" using in_list on_list [OF _ c] A(2,3) by metis
  note at = added_hdr [OF A(1) insertI1 _ zero sA hs second]
  have nx: "hnext (added s h) y = (if y = h then second else hnext s y)"
    and pv: "hprev (added s h) y = (if y = h then 0 else if y = second then h else hprev s y)"
    and sz: "hsize (added s h) y = hsize s y" if "y \<in> ?A" for y
    using at [OF that] by (simp_all add: hnext_def hprev_def hsize_def)
  show "x \<in> ?A \<Longrightarrow> hsize (added s h) x = hsize s x" by (rule sz)
  have "hb_flags (hdr_at (added s h) h) = hb_flags (hdr_at s h) OR FREE_BLK" using at [OF insertI1] by simp
  moreover have "(f OR FREE_BLK) AND FREE_BLK = FREE_BLK" for f :: u8
    by (intro bit_eqI) (auto simp: bit_simps)
  moreover have "FREE_BLK \<noteq> 0" by (simp add: FREE_BLK_def)
  ultimately show "HBLK_IS_FREE (hdr_at (added s h) h)" by (simp add: HBLK_IS_FREE_def)
  have sub: "set (L i) \<subseteq> ?A" if "i < 61" for i using on_list [OF _ that] by blast
  show "free_lists (added s h) (L(?c := h # L ?c))"
  proof (rule free_lists_step [OF L c, where A = ?A and st = h])
    have "map (hsize (added s h)) (h # L ?c) = map (hsize s) (h # L ?c)"
      using sz sub [OF c] by (intro map_cong) auto
    then show "GC_free_bytes (added s h) = (GC_free_bytes s)[?c := sum_list (map (hsize (added s h)) (h # L ?c))]"
      using list_at(3) [OF L c] by (simp only: added_lists list.map sum_list.Cons add.commute)
    show "distinct (h # L ?c)" using list_at(2) [OF L c] on_list [OF _ c] A(2) by auto
    then show "linked (hnext (added s h)) (hprev (added s h)) 0 (h # L ?c) h"
    proof (rule linked_add [OF lk _ A(3)])
      fix y
      assume "y \<in> set (h # L ?c)"
      then have "y \<in> ?A" using sub [OF c] by auto
      then show "hnext (added s h) y = (if y = h then second else hnext s y)"
        and "hprev (added s h) y = (if y = h then 0 else if y = second then h else hprev s y)"
        by (rule nx, rule pv)
    qed
    show "set (h # L ?c) \<subseteq> ?A" using sub [OF c] by auto
    show "set (h # L ?c) \<inter> set (L i) = {}" if "i < 61" "i \<noteq> ?c" for i
      using L c that sub on_list [of h L i] A(2) by (auto simp: free_lists_def)
    show "hnext (added s h) x = hnext s x \<and> hprev (added s h) x = hprev s x \<and> hsize (added s h) x = hsize s x"
      if "i < 61" "i \<noteq> ?c" "x \<in> set (L i)" for i x
    proof -
      have "x \<in> ?A" "x \<noteq> h" using sub that A(2) on_list by blast+
      moreover have "x \<noteq> second"
        using in_list L c that linked_nonzero [OF list_at(1) [OF L that(1)]] by (metis disjoint_iff free_lists_def)
      ultimately show ?thesis using nx pv sz by simp
    qed
  qed (use A in \<open>auto simp: added_lists\<close>)
qed


text \<open>The state after \<open>GC_remove_from_fl_at\<close> on the list \<open>c\<close>.\<close>

definition removed :: "gc \<Rightarrow> nat \<Rightarrow> u64 \<Rightarrow> gc" where
  "removed s c h =
     (let p = hprev s h; n = hnext s h;
          s1 = (if p = 0 then s\<lparr>GC_hblkfreelist := (GC_hblkfreelist s)[c := n]\<rparr> else hup s p (\<lambda>x. x\<lparr>hb_next := n\<rparr>));
          s2 = s1\<lparr>GC_free_bytes := (GC_free_bytes s1)[c := GC_free_bytes s1 ! c - hsize s h]\<rparr>
      in if n \<noteq> 0 then hup s2 n (\<lambda>x. x\<lparr>hb_prev := p\<rparr>) else s2)"

lemma remove_from_fl_at_eq:
  assumes "free_lists s L" "HDR h s = Inr hhdr" "hix s h \<noteq> None" "unat i < 61"
    and "hprev s h \<noteq> 0 \<Longrightarrow> hix s (hprev s h) \<noteq> None" "hnext s h \<noteq> 0 \<Longrightarrow> hix s (hnext s h) \<noteq> None"
  shows "GC_remove_from_fl_at hhdr i s = Inr (removed s (unat i) h)"
proof -
  have len: "length (GC_hblkfreelist s) = 61" "length (GC_free_bytes s) = 61" using assms(1) by (simp_all add: free_lists_def)
  show ?thesis
    unfolding GC_remove_from_fl_at_def get_hdr_HDR [OF assms(2,3)] andThen_Inr Let_def
      hsize_def [symmetric] hnext_def [symmetric] hprev_def [symmetric] set_fl_class [OF len(1) assms(4)]
    using assms(4-6)
    by (cases "hprev s h = 0"; cases "hnext s h = 0") (simp_all add: add_free_bytes_class len mod_hdr_of_hix removed_def Let_def)
qed

lemma removed_lists:
  "hix (removed s c h) = hix s"
  "GC_hblkfreelist (removed s c h) = (if hprev s h = 0 then (GC_hblkfreelist s)[c := hnext s h] else GC_hblkfreelist s)"
  "GC_free_bytes (removed s c h) = (GC_free_bytes s)[c := GC_free_bytes s ! c - hsize s h]"
  by (simp_all add: removed_def Let_def)

lemma removed_hdr:
  assumes A: "known s A" "y \<in> A" "0 \<notin> A" and "p \<noteq> 0 \<Longrightarrow> p \<in> A" "n \<noteq> 0 \<Longrightarrow> n \<in> A"
    and "hprev s h = p" "hnext s h = n" "p = 0 \<or> p \<noteq> n"
  shows "hdr_at (removed s c h) y =
    (if y = p then (hdr_at s y)\<lparr>hb_next := n\<rparr> else if y = n then (hdr_at s y)\<lparr>hb_prev := p\<rparr> else hdr_at s y)"
proof -
  have "y \<noteq> 0" using A by auto
  then show ?thesis
    using assms by (cases "p = 0"; cases "n = 0") (simp_all add: removed_def Let_def hdr_at_hup [where A = A])
qed

lemma free_lists_remove:
  assumes L: "free_lists s L" and c: "c < 61" and h: "L c = ys @ h # zs"
  shows "free_lists (removed s c h) (L(c := ys @ zs))"
    and "x \<in> on_lists L \<Longrightarrow> hsize (removed s c h) x = hsize s x"
    and "hprev s h \<noteq> 0 \<Longrightarrow> hprev s h \<in> on_lists L" "hnext s h \<noteq> 0 \<Longrightarrow> hnext s h \<in> on_lists L"
proof -
  let ?A = "on_lists L" and ?s = "removed s c h"
  obtain p n where pn: "hprev s h = p" "hnext s h = n" by blast
  have lk: "linked (hnext s) (hprev s) 0 (ys @ h # zs) (GC_hblkfreelist s ! c)" using list_at(1) [OF L c] h by simp
  have dist: "distinct (ys @ h # zs)" using list_at(2) [OF L c] h by simp
  have zero: "0 \<notin> ?A" using linked_nonzero [OF list_at(1) [OF L]] unfolding on_lists_def by auto
  have nz: "0 \<notin> set (ys @ h # zs)" by (rule linked_nonzero [OF lk])
  have p: "p = (if ys = [] then 0 else last ys)" and n: "n = (case zs of [] \<Rightarrow> 0 | z # _ \<Rightarrow> z)"
    using linked_mid [OF lk] pn by simp_all
  have pL: "p \<noteq> 0 \<Longrightarrow> p \<in> set (L c)" and nL: "n \<noteq> 0 \<Longrightarrow> n \<in> set (L c)"
    unfolding p n h by (auto split: list.splits if_splits)
  then have pA: "p \<noteq> 0 \<Longrightarrow> p \<in> ?A" and nA: "n \<noteq> 0 \<Longrightarrow> n \<in> ?A" using on_list [OF _ c] by blast+
  then show "hprev s h \<noteq> 0 \<Longrightarrow> hprev s h \<in> ?A" "hnext s h \<noteq> 0 \<Longrightarrow> hnext s h \<in> ?A" using pn by simp_all
  have pn_distinct: "p = 0 \<or> p \<noteq> n"
    using dist nz unfolding p n by (auto split: list.splits)
  have known: "known s ?A" using L by (simp add: free_lists_def)
  note at = removed_hdr [OF known _ zero pA nA pn pn_distinct, of _ c]
  have nx: "hnext ?s y = (if y = p then n else hnext s y)" and pv: "hprev ?s y = (if y = n then p else hprev s y)"
    and sz: "hsize ?s y = hsize s y" if "y \<in> ?A" for y
    using at [OF that] that zero pn_distinct by (auto simp: hnext_def hprev_def hsize_def)
  show "x \<in> ?A \<Longrightarrow> hsize ?s x = hsize s x" by (rule sz)
  have sub: "set (L i) \<subseteq> ?A" if "i < 61" for i using on_list [OF _ that] by blast
  let ?st = "if ys = [] then n else GC_hblkfreelist s ! c"
  have "ys \<noteq> [] \<Longrightarrow> last ys \<noteq> 0" using nz by (metis Un_iff last_in_set set_append)
  then have "hprev s h = 0 \<longleftrightarrow> ys = []" using pn(1) p by auto
  then have fl: "GC_hblkfreelist ?s = (GC_hblkfreelist s)[c := ?st]" by (simp add: removed_lists pn)
  show "free_lists ?s (L(c := ys @ zs))"
  proof (rule free_lists_step [OF L c fl, where A = ?A])
    have "map (hsize ?s) (ys @ zs) = map (hsize s) (ys @ zs)"
      using sz sub [OF c] unfolding h by (intro map_cong) auto
    moreover have "sum_list (map (hsize s) (ys @ h # zs)) - hsize s h = sum_list (map (hsize s) (ys @ zs))" by simp
    ultimately show "GC_free_bytes ?s = (GC_free_bytes s)[c := sum_list (map (hsize ?s) (ys @ zs))]"
      using list_at(3) [OF L c] unfolding h by (simp only: removed_lists)
    show "distinct (ys @ zs)" using dist by simp
    have "linked (hnext ?s) (hprev ?s) 0 (ys @ zs) (if ys = [] then hnext s h else GC_hblkfreelist s ! c)"
    proof (rule linked_remove [OF lk])
      show "distinct (0 # ys @ h # zs)" using dist nz by simp
      fix y
      assume "y \<in> set (ys @ zs)"
      then have "y \<in> ?A" using sub [OF c] unfolding h by auto
      then show "hnext ?s y = (if y = hprev s h then hnext s h else hnext s y)"
        and "hprev ?s y = (if y = hnext s h then hprev s h else hprev s y)"
        unfolding pn by (rule nx, rule pv)
    qed
    then show "linked (hnext ?s) (hprev ?s) 0 (ys @ zs) ?st" unfolding pn .
    show "set (ys @ zs) \<subseteq> ?A" using sub [OF c] unfolding h by auto
    show "set (ys @ zs) \<inter> set (L i) = {}" if "i < 61" "i \<noteq> c" for i
    proof -
      have "set (L c) \<inter> set (L i) = {}" using L c that by (simp add: free_lists_def)
      then show ?thesis unfolding h by auto
    qed
    show "hnext ?s x = hnext s x \<and> hprev ?s x = hprev s x \<and> hsize ?s x = hsize s x"
      if "i < 61" "i \<noteq> c" "x \<in> set (L i)" for i x
    proof -
      have "x \<in> ?A" using sub that by blast
      moreover have "set (L c) \<inter> set (L i) = {}" using L c that by (simp add: free_lists_def)
      then have "x \<noteq> p" "x \<noteq> n"
        using pL nL that linked_nonzero [OF list_at(1) [OF L that(1)]] by (metis disjoint_iff)+
      ultimately show ?thesis using nx pv sz by simp
    qed
  qed (simp_all add: removed_lists known)
qed


section \<open>Walking over the lists\<close>

lemma known_length:
  assumes "known s A"
  shows "finite A \<and> card A \<le> length (gc_hdrs s)"
proof -
  have inj: "inj_on (the \<circ> hix s) A"
    using assms unfolding known_def inj_on_def by (metis comp_apply option.expand)
  have "(the \<circ> hix s) ` A \<subseteq> {..< length (gc_hdrs s)}"
    using assms hix_Some unfolding known_def by (fastforce simp: image_subset_iff)
  then show ?thesis using inj by (metis card_inj_on_le card_lessThan finite_lessThan finite_subset inj_on_finite)
qed

definition entry_of :: "gc \<Rightarrow> u64 \<Rightarrow> u64" where
  "entry_of s x = (case HDR x s of Inl e \<Rightarrow> 0 | Inr p \<Rightarrow> p)"

lemma walk_fl_linked:
  assumes "linked (hnext s) pv prev xs start" "known s (set xs)" "length xs < n"
  shows "walk_fl n f start s x = Inr (fold (\<lambda>h. f (entry_of s h) (hdr_at s h)) xs x)"
  using assms
proof (induction n arbitrary: xs prev start x)
  case (Suc n)
  show ?case
  proof (cases xs)
    case Nil
    then show ?thesis using Suc.prems(1) by simp
  next
    case (Cons y ys)
    then have y: "start = y" "y \<noteq> 0" "linked (hnext s) pv y ys (hnext s y)" "hix s y \<noteq> None"
      using Suc.prems(1,2) by (auto simp: known_def)
    then obtain p where p: "HDR y s = Inr p" using hix_Some by blast
    have "known s (set ys)" using Suc.prems(2) Cons by (auto intro: known_subset)
    then show ?thesis
      using Suc.IH [OF y(3), of "f p (hdr_at s y) x"] Suc.prems(3) y(1,2) Cons
      by (simp add: p get_hdr_HDR [OF p y(4)] entry_of_def hnext_def)
  qed
qed simp


lemma walk_list:
  assumes "free_lists s L" "i < 61"
  shows "walk_fl (Suc (length (gc_hdrs s))) f (GC_hblkfreelist s ! i) s x =
    Inr (fold (\<lambda>h. f (entry_of s h) (hdr_at s h)) (L i) x)"
proof (rule walk_fl_linked [OF list_at(1) [OF assms]])
  show known: "known s (set (L i))"
    using assms by (auto simp: free_lists_def on_lists_def intro: known_subset)
  have "length (L i) = card (set (L i))" using list_at(2) [OF assms] by (simp add: distinct_card)
  then show "length (L i) < Suc (length (gc_hdrs s))" using known_length [OF known] by simp
qed

lemma walk_lists_rep:
  assumes "free_lists s L"
  shows "walk_lists (GC_hblkfreelist s) f s x = Inr (fold (\<lambda>h. f (entry_of s h) (hdr_at s h)) (concat (map L [0 ..< 61])) x)"
proof -
  have key: "walk_lists (map (\<lambda>i. GC_hblkfreelist s ! i) is) f s x =
      Inr (fold (\<lambda>h. f (entry_of s h) (hdr_at s h)) (concat (map L is)) x)" if "set is \<subseteq> {..< 61}" for "is"
    using that by (induction "is" arbitrary: x) (simp_all add: walk_list [OF assms] del: walk_fl.simps)
  have heads: "map (\<lambda>i. GC_hblkfreelist s ! i) [0 ..< 61] = GC_hblkfreelist s"
    using assms unfolding free_lists_def by (metis map_nth)
  have "set [0 ..< 61] \<subseteq> {..< 61 :: nat}" by (auto simp del: upt_rec_numeral)
  from key [OF this] show ?thesis unfolding heads .
qed

lemma fold_sum: "fold (\<lambda>h t. t + g h) xs x = x + sum_list (map g xs :: u64 list)"
  by (induction xs arbitrary: x) (simp_all add: algebra_simps)

lemma sum_concat: "sum_list (map g (concat xss)) = sum_list (map (\<lambda>xs. sum_list (map g xs)) xss)"
  for g :: "'a \<Rightarrow> 'b::monoid_add"
  by (induction xss) simp_all

lemma sum_counts:
  assumes "free_lists s L"
  shows "sum_list (GC_free_bytes s) = sum_list (map (hsize s) (concat (map L [0 ..< 61])))"
proof -
  have "GC_free_bytes s = map (\<lambda>i. GC_free_bytes s ! i) [0 ..< 61]"
    using assms unfolding free_lists_def by (metis map_nth)
  also have "\<dots> = map (\<lambda>i. sum_list (map (hsize s) (L i))) [0 ..< 61]"
    using list_at(3) [OF assms] by (intro map_cong) simp_all
  finally show ?thesis unfolding sum_concat map_map comp_def by (rule arg_cong)
qed


lemma entry_distinct:
  assumes "known s A" "x \<in> A" "y \<in> A" "entry_of s x = entry_of s y"
  shows "x = y"
proof -
  obtain i j where ij: "hix s x = Some i" "hix s y = Some j" using assms unfolding known_def by blast
  obtain p where p: "HDR x s = Inr p" "hdr_index p = Inr i" using hix_Some [OF ij(1)] by blast
  obtain q where q: "HDR y s = Inr q" "hdr_index q = Inr j" using hix_Some [OF ij(2)] by blast
  have "p = q" using assms(4) p q by (simp add: entry_of_def)
  then have "hix s x = hix s y" using p q ij by simp
  then show ?thesis using assms(1-3) unfolding known_def by (blast dest: inj_onD)
qed

lemma fold_found: "fold (\<lambda>h found. found \<or> P h) xs b = (b \<or> (\<exists>h \<in> set xs. P h))"
  by (induction xs arbitrary: b) auto

lemma index_from_rep:
  assumes L: "free_lists s L" and A: "known s (insert h (on_lists L))" and k: "k \<le> 61"
  shows "(c < 61 \<and> k \<le> c \<and> h \<in> set (L c) \<longrightarrow>
      index_from (map (\<lambda>i. GC_hblkfreelist s ! i) [k ..< 61]) k (entry_of s h) s = Inr (Some c)) \<and>
    (h \<notin> on_lists L \<longrightarrow> index_from (map (\<lambda>i. GC_hblkfreelist s ! i) [k ..< 61]) k (entry_of s h) s = Inr None)"
  using k
proof (induction "61 - k" arbitrary: k)
  case 0
  then show ?case by simp
next
  case (Suc n)
  then have k: "k < 61" "Suc k \<le> 61" "n = 61 - Suc k" by simp_all
  have "(\<exists>x \<in> set (L k). entry_of s x = entry_of s h) = (h \<in> set (L k))"
    using entry_distinct [OF A] on_list [OF _ k(1)] by blast
  then have "walk_fl (Suc (length (gc_hdrs s))) (\<lambda>e hhdr found. found \<or> e = entry_of s h) (GC_hblkfreelist s ! k) s False =
      Inr (h \<in> set (L k))"
    by (simp only: walk_list [OF L k(1)] fold_found simp_thms)
  moreover have "c = k" if "h \<in> set (L k)" "h \<in> set (L c)" "c < 61"
    using L that k(1) unfolding free_lists_def by (metis disjoint_iff)
  ultimately show ?case
    using Suc.hyps(1) [OF k(3,2)] k(1) on_list [OF _ k(1), of h L]
    by (cases "h \<in> set (L k)"; cases "k = c") (auto simp: upt_conv_Cons simp del: walk_fl.simps upt_rec_numeral)
qed

section \<open>Theorems\<close>

text \<open>Two free blocks with headers, of one and of two pages, on no list.\<close>

definition demo_gc :: gc where
  "demo_gc = initial_gc\<lparr>gc_hdrs := [zero_hdr\<lparr>hb_sz := 4096\<rparr>, zero_hdr\<lparr>hb_sz := 8192\<rparr>],
     bottom_indices := [zero_bi, zero_bi\<lparr>bi_index := (replicate 1024 0)[16 := hdr_addr 0, 32 := hdr_addr 1]\<rparr>],
     GC_top_index := (replicate 2048 0)[0 := 1]\<rparr>"

lemma demo_HDR: "HDR 0x10000 demo_gc = Inr (hdr_addr 0)" "HDR 0x20000 demo_gc = Inr (hdr_addr 1)"
  by (simp_all add: HDR_def GET_BI_def hi_of_def TL_HASH_def slot_of_def read_at_def demo_gc_def zero_bi_def initial_gc_def
      deref_def)

lemma demo_hix: "hix demo_gc 0x10000 = Some 0" "hix demo_gc 0x20000 = Some 1"
  by (simp_all add: hix_def demo_HDR hdr_addr_def hdr_index_def) (simp_all add: demo_gc_def)

lemma demo_free_lists: "free_lists demo_gc (\<lambda>_. [])" "known demo_gc {0x10000, 0x20000}"
  by (simp add: free_lists_def on_lists_def known_def demo_gc_def initial_gc_def)
    (simp add: known_def demo_hix)

text \<open>The first of them put on its list.\<close>

lemma demo_hsize: "hsize demo_gc 0x10000 = 4096"
  unfolding hsize_def hdr_at_def demo_hix by (simp add: demo_gc_def)

lemma demo_class: "class_of demo_gc 0x10000 = 1"
  unfolding class_of_def demo_hsize class_value by (simp add: divHBLKSZ_def)

definition demo_free :: gc where
  "demo_free = added demo_gc 0x10000"

lemma demo_on_lists: "on_lists (\<lambda>_. []) = {}" "on_lists ((\<lambda>_. [])(1 := [x])) = {x}"
proof -
  show "on_lists (\<lambda>_. []) = {}" by (simp add: on_lists_def)
  have "x \<in> set (((\<lambda>_. [])(1 := [x])) 1)" by simp
  then have "x \<in> on_lists ((\<lambda>_. [])(1 := [x]))" by (rule on_list) simp
  moreover have "set (((\<lambda>_. [])(1 := [x])) i) \<subseteq> {x}" for i :: nat by (cases "i = 1") simp_all
  then have "on_lists ((\<lambda>_. [])(1 := [x])) \<subseteq> {x}" unfolding on_lists_def by (rule UN_least)
  ultimately show "on_lists ((\<lambda>_. [])(1 := [x])) = {x}" by blast
qed

lemma demo_free: "free_lists demo_free ((\<lambda>_. [])(1 := [0x10000]))"
proof -
  have "known demo_gc (insert 0x10000 (on_lists (\<lambda>_. [])))"
    by (rule known_subset [OF demo_free_lists(2)]) (simp add: demo_on_lists)
  from free_lists_add(1) [OF demo_free_lists(1) this] show ?thesis
    by (simp add: demo_free_def demo_class demo_on_lists del: One_nat_def)
qed

lemma demo_free_HDR: "HDR 0x10000 demo_free = Inr (hdr_addr 0)"
  by (simp add: demo_free_def added_def Let_def demo_HDR)

lemma demo_free_known:
  assumes "h \<in> {0x10000, 0x20000}"
  shows "known demo_free (insert h (on_lists ((\<lambda>_. [])(1 := [0x10000]))))"
proof -
  have "known demo_free {0x10000, 0x20000}"
    using demo_free_lists(2) by (simp only: demo_free_def known_cong [OF added_lists(1)])
  then show ?thesis by (rule known_subset) (use assms in \<open>auto simp: demo_on_lists simp del: One_nat_def\<close>)
qed

text \<open>Adding a free block to the free lists puts it in front of the list of its size class, whatever
  its address (the comment on the function says the lists are sorted by address), marks it free
  and leaves all other lists and all sizes alone.\<close>

theorem add_to_fl_refines_cons:
  assumes "free_lists s L" "known s (insert h (on_lists L))" "h \<notin> on_lists L" "h \<noteq> 0" "HDR h s = Inr hhdr"
  shows "\<exists>s'. GC_add_to_fl h hhdr s = Inr s' \<and> free_lists s' (L(class_of s h := h # L (class_of s h))) \<and>
    HBLK_IS_FREE (hdr_at s' h) \<and> (\<forall>x \<in> insert h (on_lists L). hsize s' x = hsize s x)"
proof -
  let ?second = "GC_hblkfreelist s ! class_of s h"
  have "?second \<in> set (L (class_of s h))" if "?second \<noteq> 0"
    using linked_start [OF list_at(1) [OF assms(1) class_of_bound [of s h]]] that by (auto split: list.splits)
  then have "hix s ?second \<noteq> None" if "?second \<noteq> 0"
    using that on_list [OF _ class_of_bound] assms(2) by (auto simp: known_def)
  moreover have "hix s h \<noteq> None" using assms(2) by (simp add: known_def)
  ultimately have "GC_add_to_fl h hhdr s = Inr (added s h)"
    using add_to_fl_eq [OF assms(1,5)] by blast
  then show ?thesis using free_lists_add [OF assms(1-4)] by blast
qed

theorem add_to_fl_refines_cons_witness:
  "\<exists>s'. GC_add_to_fl 0x10000 (hdr_addr 0) demo_gc = Inr s' \<and> free_lists s' ((\<lambda>_. [])(1 := [0x10000]))"
proof -
  have "known demo_gc (insert 0x10000 (on_lists (\<lambda>_. [])))"
    by (rule known_subset [OF demo_free_lists(2)]) (simp add: on_lists_def)
  from add_to_fl_refines_cons [OF demo_free_lists(1) this _ _ demo_HDR(1)] show ?thesis
    by (auto simp: demo_on_lists demo_class simp del: One_nat_def)
qed

text \<open>Removing a block from the free list that it is on, wherever it stands in it, takes it and only
  it off the list and its size off the count of the list.\<close>

theorem remove_from_fl_refines_remove:
  assumes "free_lists s L" "h \<in> set (L (unat i))" "unat i < 61" "HDR h s = Inr hhdr"
  shows "\<exists>s'. GC_remove_from_fl_at hhdr i s = Inr s' \<and> free_lists s' (L(unat i := remove1 h (L (unat i)))) \<and>
    (\<forall>x \<in> on_lists L. hsize s' x = hsize s x)"
proof -
  obtain ys zs where split: "L (unat i) = ys @ h # zs" "h \<notin> set ys" using assms(2) by (metis split_list_first)
  note r = free_lists_remove [OF assms(1,3) split(1)]
  have known: "x \<in> on_lists L \<Longrightarrow> hix s x \<noteq> None" for x using assms(1) by (simp add: free_lists_def known_def)
  have "h \<in> on_lists L" by (rule on_list [where i = "unat i"]) (rule assms)+
  from remove_from_fl_at_eq [OF assms(1,4) known [OF this] assms(3)]
  have "GC_remove_from_fl_at hhdr i s = Inr (removed s (unat i) h)" using r(3,4) known by blast
  moreover have "remove1 h (L (unat i)) = ys @ zs" using split by (simp add: remove1_append)
  ultimately show ?thesis using r(1,2) by auto
qed

theorem remove_from_fl_refines_remove_witness:
  "\<exists>s'. GC_remove_from_fl_at (hdr_addr 0) 1 demo_free = Inr s' \<and> free_lists s' ((\<lambda>_. [])(1 := []))"
  using remove_from_fl_refines_remove [OF demo_free, of "0x10000" 1] by (auto simp: demo_free_HDR simp del: One_nat_def)

text \<open>The two walks over all free lists end and agree with the lists: the bytes computed are the sum of
  the counts kept for the lists, and the index found for a header is that of the list its block
  is on, or none.\<close>

theorem free_list_walks:
  assumes "free_lists s L" "known s (insert h (on_lists L))"
  shows "GC_compute_large_free_bytes s = Inr (sum_list (GC_free_bytes s)) \<and>
    (\<forall>c < 61. h \<in> set (L c) \<longrightarrow> free_list_index_of (entry_of s h) s = Inr (Some c)) \<and>
    (h \<notin> on_lists L \<longrightarrow> free_list_index_of (entry_of s h) s = Inr None)"
proof -
  have "GC_compute_large_free_bytes s = Inr (sum_list (GC_free_bytes s))"
    unfolding GC_compute_large_free_bytes_def walk_lists_rep [OF assms(1)] sum_counts [OF assms(1)]
    by (simp only: fold_sum hsize_def [abs_def] add_0)
  moreover have "map (\<lambda>i. GC_hblkfreelist s ! i) [0 ..< 61] = GC_hblkfreelist s"
    using assms(1) unfolding free_lists_def by (metis map_nth)
  then have "free_list_index_of (entry_of s h) s = index_from (map (\<lambda>i. GC_hblkfreelist s ! i) [0 ..< 61]) 0 (entry_of s h) s"
    by (simp only: free_list_index_of_def)
  moreover note index_from_rep [OF assms, of 0]
  ultimately show ?thesis by (simp only: le0 simp_thms) blast
qed

theorem free_list_walks_witness:
  "GC_compute_large_free_bytes demo_free = Inr (sum_list (GC_free_bytes demo_free)) \<and>
   free_list_index_of (entry_of demo_free 0x10000) demo_free = Inr (Some 1) \<and>
   free_list_index_of (entry_of demo_free 0x20000) demo_free = Inr None"
  using free_list_walks [OF demo_free demo_free_known, of "0x10000"] free_list_walks [OF demo_free demo_free_known, of "0x20000"]
  by (auto simp: demo_on_lists simp del: One_nat_def)

end
