(* ===== verification/Atomix_GC_Mark.thy ===== *)
theory Atomix_GC_Mark
  imports Atomix_GC_Marks
begin

unbundle bit_operations_syntax

text \<open>
  The marker, \<open>mark.c\<close> and \<open>private/gc_pmark.h\<close>: from the entries of the mark stack, each an address
  and a descriptor of the words to look at, it finds the objects these words may point to, sets
  their mark bits and puts them on the stack. The parallel marker is not compiled in this
  configuration.

  The mark stack is the list of its entries, the top first, and its size in entries; the words of
  the roots are in \<open>gc_mem\<close> like those of the heap. All addresses that are read are multiples of the
  word size.
\<close>

section \<open>State\<close>

datatype mark_state = MS_NONE | MS_PUSH_RESCUERS | MS_PUSH_UNCOLLECTABLE | MS_ROOTS_PUSHED | MS_PARTIALLY_INVALID | MS_INVALID

record marker =
  mk_gc :: gc
  GC_mark_stack :: "(u64 \<times> u64) list"
  GC_mark_stack_size :: nat
  GC_mark_state :: mark_state
  GC_mark_stack_too_small :: bool
  GC_objects_are_marked :: bool
  GC_scan_ptr :: u64
  GC_least_plausible_heap_addr :: u64
  GC_greatest_plausible_heap_addr :: u64
  GC_valid_offsets :: "bool list"

definition lift_gc :: "(gc \<Rightarrow> gc res) \<Rightarrow> marker \<Rightarrow> marker res" where
  "lift_gc f m = andThen (f (mk_gc m)) (\<lambda>g. Inr (m\<lparr>mk_gc := g\<rparr>))"

definition word_at :: "marker \<Rightarrow> u64 \<Rightarrow> u64" where
  "word_at m p = gc_mem (mk_gc m) p"

definition plausible :: "marker \<Rightarrow> u64 \<Rightarrow> bool" where
  "plausible m w \<longleftrightarrow> GC_least_plausible_heap_addr m \<le> w \<and> w < GC_greatest_plausible_heap_addr m"

definition HBLKDISPL :: "u64 \<Rightarrow> u64" where
  "HBLKDISPL p = p AND (HBLKSIZE - 1)"

definition GC_ADD_TO_BLACK_LIST_NORMAL :: "u64 \<Rightarrow> gc \<Rightarrow> gc res" where
  "GC_ADD_TO_BLACK_LIST_NORMAL p s =
     (if GC_all_interior_pointers s then GC_add_to_black_list_stack p s else GC_add_to_black_list_normal p s)"

section \<open>Finding headers\<close>

text \<open>The cache is a table of block numbers and headers.\<close>

type_synonym hdr_cache = "(u64 \<times> u64) list"

definition INIT_HDR_CACHE :: hdr_cache where
  "INIT_HDR_CACHE = replicate 8 (0, 0)"

definition HCE :: "u64 \<Rightarrow> u64" where
  "HCE p = drop_bit 12 p AND 7"

text \<open>The loop over forwarding counts; a count of 0 on the way would keep it where it is.\<close>

primrec forward_to_header :: "nat \<Rightarrow> u64 \<Rightarrow> u64 \<Rightarrow> gc \<Rightarrow> (u64 \<times> u64) res" where
  "forward_to_header 0 current hhdr s = Inl Diverge"
| "forward_to_header (Suc n) current hhdr s =
     (if IS_FORWARDING_ADDR_OR_NIL hhdr
      then let current' = current - HBLKSIZE * hhdr in andThen (HDR current' s) (\<lambda>hhdr'. forward_to_header n current' hhdr' s)
      else Inr (current, hhdr))"

text \<open>The result is the header, or 0, and the new entry of the cache if there is one.\<close>

definition GC_header_cache_miss :: "u64 \<Rightarrow> marker \<Rightarrow> ((u64 \<times> (u64 \<times> u64) option) \<times> marker) res" where
  "GC_header_cache_miss p m =
     andThen (HDR p (mk_gc m)) (\<lambda>hhdr.
       let black_list = andThen (lift_gc (GC_ADD_TO_BLACK_LIST_NORMAL p) m) (\<lambda>m'. Inr ((0, None), m'))
       in if IS_FORWARDING_ADDR_OR_NIL hhdr
          then
            if GC_all_interior_pointers (mk_gc m)
            then
              if hhdr \<noteq> 0
              then
                andThen (forward_to_header (Suc (1024 * length (bottom_indices (mk_gc m)))) (HBLKPTR p) hhdr (mk_gc m)) (\<lambda>(current, e).
                andThen (get_hdr e (mk_gc m)) (\<lambda>h.
                  if hb_flags h AND IGNORE_OFF_PAGE \<noteq> 0 then Inr ((0, None), m)
                  else if HBLK_IS_FREE h \<or> hb_sz h \<le>s p - current then black_list
                  else Inr ((e, None), m)))
              else black_list
            else if hhdr = 0 then black_list else Inr ((0, None), m)
          else andThen (get_hdr hhdr (mk_gc m)) (\<lambda>h.
            if HBLK_IS_FREE h then black_list else Inr ((hhdr, Some (drop_bit 12 p, hhdr)), m)))"

text \<open>\<open>None\<close> is the way out of the macro with no header.\<close>

definition HC_GET_HDR :: "u64 \<Rightarrow> hdr_cache \<times> marker \<Rightarrow> (u64 option \<times> hdr_cache \<times> marker) res" where
  "HC_GET_HDR p = (\<lambda>(cache, m).
     andThen (read_at cache (HCE p)) (\<lambda>hce.
       if fst hce = drop_bit 12 p then Inr (Some (snd hce), cache, m)
       else andThen (GC_header_cache_miss p m) (\<lambda>((hhdr, entry), m').
         andThen (case entry of Some x \<Rightarrow> write_at cache (HCE p) x | None \<Rightarrow> Inr cache) (\<lambda>cache'.
           Inr (if hhdr = 0 then None else Some hhdr, cache', m')))))"

section \<open>Marking one object\<close>

text \<open>Entries that are thrown away when the stack is full: an eighth of its initial size.\<close>

definition GC_MARK_STACK_DISCARDS :: nat where
  "GC_MARK_STACK_DISCARDS = 512"

definition GC_signal_mark_stack_overflow :: "marker \<Rightarrow> marker" where
  "GC_signal_mark_stack_overflow m =
     m\<lparr>GC_mark_state := MS_INVALID, GC_mark_stack_too_small := True, GC_mark_stack := drop GC_MARK_STACK_DISCARDS (GC_mark_stack m)\<rparr>"

definition push_entry :: "u64 \<Rightarrow> u64 \<Rightarrow> marker \<Rightarrow> marker" where
  "push_entry p descr m = m\<lparr>GC_mark_stack := (p, descr) # GC_mark_stack m\<rparr>"

definition GC_push_obj :: "u64 \<Rightarrow> hdr \<Rightarrow> marker \<Rightarrow> marker" where
  "GC_push_obj obj hhdr m =
     (if hb_descr hhdr \<noteq> 0
      then push_entry obj (hb_descr hhdr)
             (if GC_mark_stack_size m \<le> length (GC_mark_stack m) then GC_signal_mark_stack_overflow m else m)
      else m)"

text \<open>The tests of \<open>GC_push_contents_hdr\<close>: the object that \<open>current\<close> points to, by its mark bit and its
  address, or \<open>None\<close> for a displacement that is not valid.\<close>

definition locate :: "u64 \<Rightarrow> hdr \<Rightarrow> bool \<Rightarrow> bool list \<Rightarrow> (u64 \<times> u64) option res" where
  "locate current hhdr do_offset_check offsets =
     (let displ = HBLKDISPL current; gran_displ = BYTES_TO_GRANULES displ; byte_offset = displ AND 15
      in andThen (case hb_map hhdr of None \<Rightarrow> Inl (Fault Null_Deref) | Some om \<Rightarrow> read_at om gran_displ) (\<lambda>go.
        let gran_offset = ucast go
        in if gran_offset OR byte_offset = 0 then Inr (Some (gran_displ, current))
           else if hb_flags hhdr AND LARGE_BLOCK \<noteq> 0
           then
             let base = hb_block hhdr; obj_displ = current - base
             in if obj_displ \<noteq> displ \<or> \<not> do_offset_check then Inr (Some (0, base))
                else andThen (read_at offsets obj_displ) (\<lambda>ok. Inr (if ok then Some (0, base) else None))
           else
             let obj_displ = GRANULES_TO_BYTES gran_offset + byte_offset; obj = (gran_displ - gran_offset, current - obj_displ)
             in if \<not> do_offset_check then Inr (Some obj)
                else andThen (read_at offsets obj_displ) (\<lambda>ok. Inr (if ok then Some obj else None))))"

text \<open>The rest of it: mark the object and push it, unless it is marked.\<close>

definition mark_and_push_object :: "u64 \<Rightarrow> u64 \<Rightarrow> u64 \<Rightarrow> marker \<Rightarrow> marker res" where
  "mark_and_push_object hhdr bit_no base m =
     andThen (get_hdr hhdr (mk_gc m)) (\<lambda>h.
     andThen (mark_bit_from_hdr h bit_no) (\<lambda>marked.
       if marked then Inr m
       else andThen (set_mark_bit_from_hdr h bit_no) (\<lambda>h'.
         andThen (lift_gc (mod_hdr hhdr (\<lambda>_. h'\<lparr>hb_n_marks := hb_n_marks h' + 1\<rparr>)) m) (\<lambda>m'.
           Inr (GC_push_obj base h m')))))"

definition GC_push_contents_hdr :: "u64 \<Rightarrow> u64 \<Rightarrow> bool \<Rightarrow> marker \<Rightarrow> marker res" where
  "GC_push_contents_hdr current hhdr do_offset_check m =
     andThen (get_hdr hhdr (mk_gc m)) (\<lambda>h.
     andThen (locate current h do_offset_check (GC_valid_offsets m)) (\<lambda>r.
       case r of
         None \<Rightarrow> lift_gc (GC_ADD_TO_BLACK_LIST_NORMAL current) m
       | Some (bit_no, base) \<Rightarrow> mark_and_push_object hhdr bit_no base m))"

definition PUSH_CONTENTS :: "u64 \<Rightarrow> hdr_cache \<times> marker \<Rightarrow> (hdr_cache \<times> marker) res" where
  "PUSH_CONTENTS current st =
     andThen (HC_GET_HDR current st) (\<lambda>(hhdr, cache, m).
       case hhdr of
         None \<Rightarrow> Inr (cache, m)
       | Some e \<Rightarrow> andThen (GC_push_contents_hdr current e True m) (\<lambda>m'. Inr (cache, m')))"

section \<open>Marking from the stack\<close>

text \<open>The words of a range from its end down to the first that may be a pointer, which is kept for
  last; then the others from the front. A range has at most 128 words.\<close>

primrec find_deferred :: "nat \<Rightarrow> u64 \<Rightarrow> u64 \<Rightarrow> marker \<Rightarrow> (u64 \<times> u64) option res" where
  "find_deferred 0 current_p limit m = Inl Diverge"
| "find_deferred (Suc n) current_p limit m =
     (let deferred = word_at m limit; limit' = limit - 8
      in if plausible m deferred then Inr (Some (deferred, limit'))
         else if limit' < current_p then Inr None
         else find_deferred n current_p limit' m)"

primrec scan_words :: "nat \<Rightarrow> u64 \<Rightarrow> u64 \<Rightarrow> hdr_cache \<times> marker \<Rightarrow> (hdr_cache \<times> marker) res" where
  "scan_words 0 current_p limit st = Inl Diverge"
| "scan_words (Suc n) current_p limit st =
     (if current_p \<le> limit
      then
        let current = word_at (snd st) current_p
        in andThen (if plausible (snd st) current then PUSH_CONTENTS current st else Inr st)
             (scan_words n (current_p + 8) limit)
      else Inr st)"

definition scan_range :: "u64 \<Rightarrow> u64 \<Rightarrow> hdr_cache \<times> marker \<Rightarrow> (hdr_cache \<times> marker) res" where
  "scan_range current_p limit st =
     andThen (find_deferred 129 current_p (limit - 8) (snd st)) (\<lambda>r.
       case r of
         None \<Rightarrow> Inr st
       | Some (deferred, limit') \<Rightarrow> andThen (scan_words 129 current_p limit' st) (PUSH_CONTENTS deferred))"

text \<open>A bit map descriptor from its highest bit; it has 62 bits.\<close>

primrec scan_bitmap :: "nat \<Rightarrow> u64 \<Rightarrow> u64 \<Rightarrow> hdr_cache \<times> marker \<Rightarrow> (hdr_cache \<times> marker) res" where
  "scan_bitmap 0 descr current_p st = Inl Diverge"
| "scan_bitmap (Suc n) descr current_p st =
     (if descr = 0 then Inr st
      else
        let current = word_at (snd st) current_p
        in andThen (if bit descr 63 \<and> plausible (snd st) current then PUSH_CONTENTS current st else Inr st)
             (scan_bitmap n (push_bit 1 descr) (current_p + 8)))"

text \<open>The procedures of the table \<open>GC_mark_procs\<close>, by their index, the object and the environment.\<close>

type_synonym mark_procs = "u64 \<Rightarrow> u64 \<Rightarrow> u64 \<Rightarrow> marker \<Rightarrow> marker res"

text \<open>One round of the loop of \<open>GC_mark_from\<close> for an entry that was taken off the stack. A descriptor
  in the object or in its type leads to another try, with no bound in the code.\<close>

primrec mark_entry :: "nat \<Rightarrow> mark_procs \<Rightarrow> u64 \<Rightarrow> u64 \<Rightarrow> u64 \<Rightarrow> hdr_cache \<times> marker \<Rightarrow> (u64 \<times> hdr_cache \<times> marker) res" where
  "mark_entry 0 procs current_p descr credit st = Inl Diverge"
| "mark_entry (Suc n) procs current_p descr credit st =
     (if descr AND (NOT 1023 OR 3) \<noteq> 0
      then
        if descr AND 3 = 0
        then
          andThen (scan_range current_p (current_p + 1016) (fst st, push_entry (current_p + 1016) (descr - 1016) (snd st)))
            (\<lambda>st'. Inr (credit - 1016, st'))
        else if descr AND 3 = 1
        then andThen (scan_bitmap 65 (descr AND NOT 3) current_p st) (\<lambda>st'. Inr (credit - 256, st'))
        else if descr AND 3 = 2
        then andThen (procs (drop_bit 2 descr AND 63) current_p (drop_bit 8 descr) (snd st)) (\<lambda>m'. Inr (credit - 100, fst st, m'))
        else if 0 \<le>s descr
        then
          let descr' = word_at (snd st) (current_p + descr - 3)
          in if descr' = 0 then Inr (credit, st) else mark_entry n procs current_p descr' credit st
        else
          let type_descr = word_at (snd st) current_p
          in if type_descr = 0 then Inr (credit, st)
             else
               let descr' = word_at (snd st) (type_descr - (descr + (0x10 - 3)))
               in if descr' = 0 then Inr (credit, st) else mark_entry n procs current_p descr' credit st
      else if descr < 8 then Inr (credit, st)
      else andThen (scan_range current_p (current_p + descr) st) (\<lambda>st'. Inr (credit - descr, st')))"

text \<open>The loop goes on while there are entries and credit.\<close>

primrec mark_loop :: "nat \<Rightarrow> mark_procs \<Rightarrow> u64 \<Rightarrow> hdr_cache \<times> marker \<Rightarrow> marker res" where
  "mark_loop 0 procs credit st = Inl Diverge"
| "mark_loop (Suc n) procs credit st =
     (case GC_mark_stack (snd st) of
        [] \<Rightarrow> Inr (snd st)
      | (current_p, descr) # rest \<Rightarrow>
          if credit <s 0 then Inr (snd st)
          else
            andThen (mark_entry n procs current_p descr credit (fst st, (snd st)\<lparr>GC_mark_stack := rest\<rparr>))
              (\<lambda>(credit', st'). mark_loop n procs credit' st'))"

definition GC_mark_from :: "nat \<Rightarrow> mark_procs \<Rightarrow> marker \<Rightarrow> marker res" where
  "GC_mark_from rounds procs m = mark_loop rounds procs HBLKSIZE (INIT_HDR_CACHE, m\<lparr>GC_objects_are_marked := True\<rparr>)"


text \<open>The loop over \<open>MARK_FROM_MARK_STACK\<close> that finalization runs until the stack is empty.\<close>

primrec mark_until_empty :: "nat \<Rightarrow> nat \<Rightarrow> mark_procs \<Rightarrow> marker \<Rightarrow> marker res" where
  "mark_until_empty 0 rounds procs m = Inl Diverge"
| "mark_until_empty (Suc n) rounds procs m =
     (if GC_mark_stack m = [] then Inr m else andThen (GC_mark_from rounds procs m) (mark_until_empty n rounds procs))"


end
