(* ===== verification/Atomix_GC_Trace_Laws.thy ===== *)
theory Atomix_GC_Trace_Laws
  imports Atomix_GC_Mark Atomix_GC_Mark_Laws Atomix_GC_Free_Laws
begin

unbundle bit_operations_syntax

text \<open>
  Tracing marks what is reachable: the objects that words point to, the invariant of the mark
  stack (a word of a root or of a marked object points to a marked object or is still to be looked
  at), its preservation by the loop of \<open>GC_mark_from\<close>, and what holds when the stack is empty.
  Objects are described by their size (every kind the virtual machine allocates) and interior
  pointers count only as the code accepts them without \<open>GC_all_interior_pointers\<close>.
\<close>

section \<open>The header map\<close>

text \<open>Bottom indices as \<open>get_index\<close> builds them: full tables, chains that lead to older ones, and
  entries that are counts or headers.\<close>

definition sound_index :: "gc \<Rightarrow> bool" where
  "sound_index s \<longleftrightarrow>
     length (GC_top_index s) = 2048 \<and> (\<forall>b \<in> set (GC_top_index s). b < length (bottom_indices s)) \<and>
     (\<forall>b < length (bottom_indices s). length (bi_index (bottom_indices s ! b)) = 1024 \<and>
        (b \<noteq> 0 \<longrightarrow> hash_link (bottom_indices s ! b) < b) \<and>
        (\<forall>e \<in> set (bi_index (bottom_indices s ! b)). e \<le> MAX_JUMP \<or> unat e - 4096 < length (gc_hdrs s)))"

lemma find_bi_total:
  assumes "\<forall>b < length bis. b \<noteq> 0 \<longrightarrow> hash_link (bis ! b) < b" "b < n" "b < length bis"
  shows "\<exists>b' < length bis. find_bi n hi b bis = Inr b'"
  using assms(2,3)
proof (induction n arbitrary: b)
  case (Suc n)
  show ?case
  proof (cases "bi_key (bis ! b) \<noteq> hi \<and> b \<noteq> 0")
    case True
    then have "hash_link (bis ! b) < n" "hash_link (bis ! b) < length bis" using assms(1) Suc.prems by (auto dest: less_trans)
    then show ?thesis using Suc.IH True Suc.prems by (simp add: deref_def)
  qed (use Suc.prems in \<open>auto simp: deref_def\<close>)
qed simp

lemma slot_of_bound: "unat (slot_of p) < 1024"
proof -
  have "slot_of p = take_bit 10 (drop_bit 12 p)" unfolding slot_of_def take_bit_eq_mask by (simp add: mask_eq_exp_minus_1)
  then show ?thesis by (simp add: take_bit_eq_mod unat_mod)
qed

lemma TL_HASH_bound: "unat (TL_HASH hi) < 2048"
proof -
  have "TL_HASH hi = take_bit 11 hi" unfolding TL_HASH_def take_bit_eq_mask by (simp add: mask_eq_exp_minus_1)
  then show ?thesis by (simp add: take_bit_eq_mod unat_mod)
qed

lemma HDR_total:
  assumes "sound_index s"
  shows "\<exists>e. HDR p s = Inr e \<and> (e \<le> MAX_JUMP \<or> unat e - 4096 < length (gc_hdrs s))"
proof -
  let ?b = "GC_top_index s ! unat (TL_HASH (hi_of p))"
  have b: "?b < length (bottom_indices s)" using assms TL_HASH_bound by (simp add: sound_index_def)
  have r: "read_at (GC_top_index s) (TL_HASH (hi_of p)) = Inr ?b" using assms TL_HASH_bound by (simp add: sound_index_def read_at_def)
  obtain b' where b': "b' < length (bottom_indices s)" "find_bi (Suc (length (bottom_indices s))) (hi_of p) ?b (bottom_indices s) = Inr b'"
    using find_bi_total [of "bottom_indices s" ?b "Suc (length (bottom_indices s))" "hi_of p"] assms b by (auto simp: sound_index_def)
  have len: "unat (slot_of p) < length (bi_index (bottom_indices s ! b'))" using assms b'(1) slot_of_bound by (simp add: sound_index_def)
  then have "bi_index (bottom_indices s ! b') ! unat (slot_of p) \<in> set (bi_index (bottom_indices s ! b'))" by (rule nth_mem)
  then have e: "bi_index (bottom_indices s ! b') ! unat (slot_of p) \<le> MAX_JUMP \<or>
      unat (bi_index (bottom_indices s ! b') ! unat (slot_of p)) - 4096 < length (gc_hdrs s)"
    using assms b'(1) unfolding sound_index_def by blast
  have "HDR p s = Inr (bi_index (bottom_indices s ! b') ! unat (slot_of p))"
    unfolding HDR_def GET_BI_def Let_def r andThen_Inr b'(2) using b'(1) len by (simp add: deref_def read_at_def)
  then show ?thesis using e by blast
qed

text \<open>The entry of an address, and the header it names.\<close>

lemma HDR_page:
  assumes "drop_bit 12 p = drop_bit 12 q"
  shows "HDR p s = HDR q s"
proof -
  have "hi_of x = drop_bit 10 (drop_bit 12 x)" for x by (simp add: hi_of_def)
  then have "hi_of p = hi_of q" "slot_of p = slot_of q" using assms by (simp_all only: slot_of_def)
  then show ?thesis unfolding HDR_def GET_BI_def by simp
qed


lemma entry_of:
  assumes "sound_index s"
  shows "HDR p s = Inr (entry_of s p)"
  using HDR_total [OF assms, of p] by (auto simp: entry_of_def)

lemma entry_of_bound:
  assumes "sound_index s"
  shows "entry_of s p \<le> MAX_JUMP \<or> unat (entry_of s p) - 4096 < length (gc_hdrs s)"
  using HDR_total [OF assms, of p] by (auto simp: entry_of_def)

definition header_at :: "gc \<Rightarrow> u64 \<Rightarrow> hdr" where
  "header_at s e = gc_hdrs s ! (unat e - 4096)"

text \<open>The entries of blocks that hold objects.\<close>

definition in_use :: "gc \<Rightarrow> u64 \<Rightarrow> bool" where
  "in_use s e \<longleftrightarrow> MAX_JUMP < e \<and> unat e - 4096 < length (gc_hdrs s) \<and> \<not> HBLK_IS_FREE (header_at s e)"

lemma get_hdr_in_use: "in_use s e \<Longrightarrow> get_hdr e s = Inr (header_at s e)"
  by (auto simp: in_use_def get_hdr_def hdr_index_def deref_def header_at_def)

lemma mod_hdr_in_use:
  "in_use s e \<Longrightarrow> mod_hdr e f s = Inr (s\<lparr>gc_hdrs := (gc_hdrs s)[unat e - 4096 := f (header_at s e)]\<rparr>)"
  by (auto simp: in_use_def mod_hdr_def hdr_index_def deref_def header_at_def)

section \<open>Pages\<close>

lemma and_not_mask: "w AND NOT (mask n) = push_bit n (drop_bit n w)" for w :: u64
  by (intro bit_eqI) (auto simp: bit_simps)

lemma unat_ucast16: "unat (ucast x :: u64) = unat x" for x :: u16
proof -
  have "unat x < 2 ^ 64" using unsigned_less [of x, where 'a = nat] by simp
  then show ?thesis by (simp add: unsigned_ucast_eq take_bit_nat_eq_self)
qed

lemma page_split: "HBLKPTR w + HBLKDISPL w = w"
proof -
  have "HBLKDISPL w = take_bit 12 w" unfolding HBLKDISPL_def take_bit_eq_mask by (simp add: mask_eq_exp_minus_1)
  moreover have "HBLKPTR w = push_bit 12 (drop_bit 12 w)"
    using and_not_mask [of w 12] by (simp add: HBLKPTR_def mask_eq_exp_minus_1)
  ultimately show ?thesis by (simp add: bits_ident)
qed

lemma displ_bound: "unat (HBLKDISPL w) < 4096"
proof -
  have "HBLKDISPL w = take_bit 12 w" unfolding HBLKDISPL_def take_bit_eq_mask by (simp add: mask_eq_exp_minus_1)
  then show ?thesis by (simp add: take_bit_eq_mod unat_mod)
qed

lemma displ_split: "16 * BYTES_TO_GRANULES d + (d AND 15) = d"
proof -
  have "d AND 15 = take_bit 4 d" unfolding take_bit_eq_mask by (simp add: mask_eq_exp_minus_1)
  moreover have "16 * BYTES_TO_GRANULES d = push_bit 4 (drop_bit 4 d)" by (simp add: BYTES_TO_GRANULES_def push_bit_eq_mult)
  ultimately show ?thesis by (simp add: bits_ident)
qed

lemma gran_bound: "unat (BYTES_TO_GRANULES (HBLKDISPL w)) < 256"
  using displ_bound [of w] by (simp add: BYTES_TO_GRANULES_def drop_bit_eq_div unat_div less_mult_imp_div_less)


section \<open>Objects\<close>

text \<open>A block in use, on the page of the address \<open>p\<close>: the header names the page, has a map of object
  starts and an object description that is a size.\<close>

definition sound_header :: "u64 \<Rightarrow> hdr \<Rightarrow> bool" where
  "sound_header p h \<longleftrightarrow>
     hb_block h = HBLKPTR p \<and> MAX_JUMP < HBLKPTR p \<and> length (hb_marks h) = 5 \<and>
     (\<exists>om. hb_map h = Some om \<and> length om = 256 \<and> (\<forall>g < 256. unat (om ! g) \<le> g)) \<and>
     8 dvd unat (hb_descr h) \<and> unat (HBLKPTR p) + 4096 + unat (hb_descr h) < 2 ^ 64"

lemma locate_spec:
  assumes h: "sound_header w h" and offsets: "length offsets = 4096"
  shows "\<exists>r. locate w h chk offsets = Inr r \<and>
    (\<forall>b base. r = Some (b, base) \<longrightarrow> unat b < 256 \<and> base = hb_block h + 16 * b)"
proof -
  let ?d = "HBLKDISPL w" and ?g = "BYTES_TO_GRANULES (HBLKDISPL w)"
  obtain om where om: "hb_map h = Some om" "length om = 256" "\<forall>g < 256. unat (om ! g) \<le> g"
    using h by (auto simp: sound_header_def)
  have block: "hb_block h = HBLKPTR w" using h by (simp add: sound_header_def)
  have g: "unat ?g < 256" by (rule gran_bound)
  let ?go = "ucast (om ! unat ?g) :: u64" and ?bo = "?d AND 15"
  have go: "unat ?go \<le> unat ?g" using om(3) g by (simp add: unat_ucast16)
  have r: "read_at om ?g = Inr (om ! unat ?g)" using om(2) g by (simp add: read_at_def)
  have w: "w = HBLKPTR w + 16 * ?g + ?bo" using page_split [of w] displ_split [of ?d] by (metis add.assoc)
  have "?bo \<le> 15" by (rule word_and_le1)
  then have bo: "unat ?bo \<le> 15" by (simp add: word_le_nat_alt)
  show ?thesis
  proof (cases "?go OR ?bo = 0")
    case True
    then have "?bo = 0" by (metis or_eq_0_iff)
    then have "w = hb_block h + 16 * ?g" using w block by simp
    then show ?thesis using True g by (simp add: locate_def om(1) r Let_def)
  next
    case fast: False
    show ?thesis
    proof (cases "hb_flags h AND LARGE_BLOCK \<noteq> 0")
      case True
      have "w - hb_block h = ?d" using page_split [of w] block by (metis add_diff_cancel_left')
      moreover have "read_at offsets ?d = Inr (offsets ! unat ?d)" using offsets displ_bound by (simp add: read_at_def)
      ultimately show ?thesis using fast True by (simp add: locate_def om(1) r Let_def)
    next
      case False
      let ?od = "GRANULES_TO_BYTES ?go + ?bo"
      have od: "?od = 16 * ?go + ?bo" by (simp add: GRANULES_TO_BYTES_def push_bit_eq_mult)
      have "unat (16 * ?go) = 16 * unat ?go" using go g by (simp add: unat_word_ariths)
      then have "unat ?od < 4096" using go g bo unfolding od by (simp add: unat_word_ariths)
      then have rd: "read_at offsets ?od = Inr (offsets ! unat ?od)" using offsets by (simp add: read_at_def)
      have "?go \<le> ?g" using go by (simp add: word_le_nat_alt)
      then have "unat (?g - ?go) < 256" using g by (simp only: unat_sub less_imp_diff_less)
      moreover have "w - ?od = hb_block h + 16 * (?g - ?go)" unfolding od block by (subst w) (simp add: algebra_simps)
      ultimately show ?thesis using fast False g by (simp add: locate_def om(1) r rd Let_def)
    qed
  qed
qed


text \<open>The static part of a header and of the state: all but the marks, the mark stack and the black
  lists.\<close>

definition strip :: "hdr \<Rightarrow> hdr" where
  "strip h = h\<lparr>hb_marks := [], hb_n_marks := 0\<rparr>"

definition same :: "marker \<Rightarrow> marker \<Rightarrow> bool" where
  "same m m' \<longleftrightarrow>
     map strip (gc_hdrs (mk_gc m')) = map strip (gc_hdrs (mk_gc m)) \<and>
     bottom_indices (mk_gc m') = bottom_indices (mk_gc m) \<and> GC_top_index (mk_gc m') = GC_top_index (mk_gc m) \<and>
     gc_mem (mk_gc m') = gc_mem (mk_gc m) \<and> GC_valid_offsets m' = GC_valid_offsets m \<and>
     GC_mark_stack_size m' = GC_mark_stack_size m \<and>
     GC_least_plausible_heap_addr m' = GC_least_plausible_heap_addr m \<and>
     GC_greatest_plausible_heap_addr m' = GC_greatest_plausible_heap_addr m"

lemma same_refl [simp]: "same m m"
  by (simp add: same_def)

lemma same_trans: "same m m' \<Longrightarrow> same m' m'' \<Longrightarrow> same m m''"
  by (simp add: same_def)

lemma strip_fields:
  "strip h = strip h' \<Longrightarrow>
   hb_block h = hb_block h' \<and> hb_map h = hb_map h' \<and> hb_flags h = hb_flags h' \<and> hb_descr h = hb_descr h' \<and> hb_sz h = hb_sz h'"
  by (cases h; cases h') (simp add: strip_def)

lemma locate_strip:
  assumes "strip h = strip h'"
  shows "locate w h chk offs = locate w h' chk offs"
proof -
  have f: "hb_block h = hb_block h'" "hdr.hb_map h = hdr.hb_map h'" "hb_flags h = hb_flags h'"
    using strip_fields [OF assms] by simp_all
  show ?thesis unfolding locate_def f by (rule refl)
qed

lemma same_entry: "same m m' \<Longrightarrow> entry_of (mk_gc m') p = entry_of (mk_gc m) p"
  using HDR_cong [of "mk_gc m'" "mk_gc m" p] by (simp add: same_def entry_of_def)

lemma same_length: "same m m' \<Longrightarrow> length (gc_hdrs (mk_gc m')) = length (gc_hdrs (mk_gc m))"
  by (auto simp: same_def dest: map_eq_imp_length_eq)

lemma same_header:
  assumes "same m m'" "unat e - 4096 < length (gc_hdrs (mk_gc m))"
  shows "strip (header_at (mk_gc m') e) = strip (header_at (mk_gc m) e)"
  using assms same_length [OF assms(1)] unfolding same_def header_at_def by (metis nth_map)

lemma same_in_use:
  assumes "same m m'"
  shows "in_use (mk_gc m') e = in_use (mk_gc m) e"
proof (cases "unat e - 4096 < length (gc_hdrs (mk_gc m))")
  case True
  have "hb_flags (header_at (mk_gc m') e) = hb_flags (header_at (mk_gc m) e)"
    using strip_fields [OF same_header [OF assms True]] by simp
  then show ?thesis by (simp add: in_use_def HBLK_IS_FREE_def same_length [OF assms])
next
  case False
  then show ?thesis by (simp add: in_use_def same_length [OF assms])
qed

text \<open>A state in which the marker can run.\<close>

definition sane :: "marker \<Rightarrow> bool" where
  "sane m \<longleftrightarrow>
     sound_index (mk_gc m) \<and> \<not> GC_all_interior_pointers (mk_gc m) \<and>
     (\<forall>p. in_use (mk_gc m) (entry_of (mk_gc m) p) \<longrightarrow> sound_header p (header_at (mk_gc m) (entry_of (mk_gc m) p))) \<and>
     length (GC_old_normal_bl (mk_gc m)) = 4096 \<and> length (GC_incomplete_normal_bl (mk_gc m)) = 4096 \<and>
     length (GC_modws_valid_offsets (mk_gc m)) = 8 \<and> length (GC_valid_offsets m) = 4096 \<and>
     HBLKSIZE \<le> GC_least_plausible_heap_addr m"

text \<open>An object, by the entry of its block and its mark bit; the object a word points to.\<close>

type_synonym obj = "u64 \<times> u64"

definition find_object :: "marker \<Rightarrow> u64 \<Rightarrow> obj option" where
  "find_object m w =
     (let e = entry_of (mk_gc m) w
      in if plausible m w \<and> in_use (mk_gc m) e
         then case locate w (header_at (mk_gc m) e) True (GC_valid_offsets m) of
                Inr (Some (b, base)) \<Rightarrow> Some (e, b)
              | _ \<Rightarrow> None
         else None)"

definition marked :: "marker \<Rightarrow> obj \<Rightarrow> bool" where
  "marked m ob = (case ob of (e, b) \<Rightarrow> in_use (mk_gc m) e \<and> mark_bit_from_hdr (header_at (mk_gc m) e) b = Inr True)"

text \<open>The words of a range and of an object.\<close>

definition words :: "u64 \<Rightarrow> u64 \<Rightarrow> u64 set" where
  "words p n = {p + 8 * word_of_nat i | i. i < unat n div 8}"

definition obj_base :: "marker \<Rightarrow> obj \<Rightarrow> u64" where
  "obj_base m ob = (case ob of (e, b) \<Rightarrow> hb_block (header_at (mk_gc m) e) + 16 * b)"

definition obj_descr :: "marker \<Rightarrow> obj \<Rightarrow> u64" where
  "obj_descr m ob = hb_descr (header_at (mk_gc m) (fst ob))"

definition obj_words :: "marker \<Rightarrow> obj \<Rightarrow> u64 set" where
  "obj_words m ob = words (obj_base m ob) (obj_descr m ob)"

definition pending :: "marker \<Rightarrow> u64 set" where
  "pending m = (\<Union>(p, d) \<in> set (GC_mark_stack m). words p d)"

lemma find_object_same:
  assumes "same m m'"
  shows "find_object m' w = find_object m w"
proof -
  have "locate w (header_at (mk_gc m') e) True (GC_valid_offsets m') = locate w (header_at (mk_gc m) e) True (GC_valid_offsets m)"
    if "in_use (mk_gc m) e" for e
    using locate_strip [OF same_header [OF assms, of e]] that assms by (simp add: same_def in_use_def)
  moreover have "plausible m' w = plausible m w" using assms by (simp add: same_def plausible_def)
  ultimately show ?thesis
    by (simp add: find_object_def Let_def same_entry [OF assms] same_in_use [OF assms] cong: if_cong)
qed


lemma find_object_found:
  assumes "sane m" "find_object m w = Some (e, b)"
  shows "e = entry_of (mk_gc m) w \<and> in_use (mk_gc m) e \<and> sound_header w (header_at (mk_gc m) e) \<and> plausible m w \<and> unat b < 256 \<and>
    locate w (header_at (mk_gc m) e) True (GC_valid_offsets m) = Inr (Some (b, obj_base m (e, b)))"
proof -
  let ?e = "entry_of (mk_gc m) w"
  have u: "plausible m w" "in_use (mk_gc m) ?e" using assms(2) by (auto simp: find_object_def Let_def split: if_splits)
  then have h: "sound_header w (header_at (mk_gc m) ?e)" using assms(1) by (simp add: sane_def)
  have "length (GC_valid_offsets m) = 4096" using assms(1) by (simp add: sane_def)
  from locate_spec [OF h this, of True] obtain r where r: "locate w (header_at (mk_gc m) ?e) True (GC_valid_offsets m) = Inr r"
    "\<forall>b base. r = Some (b, base) \<longrightarrow> unat b < 256 \<and> base = hb_block (header_at (mk_gc m) ?e) + 16 * b" by blast
  have "e = ?e" "\<exists>base. r = Some (b, base)"
    using assms(2) u r(1) by (auto simp: find_object_def Let_def split: option.splits)
  then show ?thesis using u h r by (auto simp: obj_base_def)
qed

section \<open>Mark bits\<close>

lemma mark_bit_value:
  assumes "length (hb_marks h) = 5" "unat b < 320"
  shows "mark_bit_from_hdr h b = Inr (bit (hb_marks h ! (unat b div 64)) (unat b mod 64))"
proof -
  have "unat b div 64 < 5" using assms(2) by (intro less_mult_imp_div_less) simp
  then show ?thesis using assms(1)
    by (simp add: mark_bit_from_hdr_def read_at_def unat_divWORDSZ unat_modWORDSZ drop_bit_and_1)
qed

lemma set_mark_bit_value:
  assumes "length (hb_marks h) = 5" "unat b < 320"
  shows "\<exists>h'. set_mark_bit_from_hdr h b = Inr h' \<and> strip h' = strip h \<and> length (hb_marks h') = 5 \<and>
    (\<forall>c. unat c < 320 \<longrightarrow> mark_bit_from_hdr h' c = Inr (c = b \<or> bit (hb_marks h ! (unat c div 64)) (unat c mod 64)))"
proof -
  let ?i = "unat b div 64" and ?j = "unat b mod 64"
  let ?h = "h\<lparr>hb_marks := (hb_marks h)[?i := hb_marks h ! ?i OR push_bit ?j 1]\<rparr>"
  have i: "?i < 5" using assms(2) by (intro less_mult_imp_div_less) simp
  have "set_mark_bit_from_hdr h b = Inr ?h"
    using assms(1) i by (simp add: set_mark_bit_from_hdr_def read_at_def write_at_def unat_divWORDSZ unat_modWORDSZ)
  moreover have "mark_bit_from_hdr ?h c = Inr (c = b \<or> bit (hb_marks h ! (unat c div 64)) (unat c mod 64))" if c: "unat c < 320" for c
  proof -
    have "c = b \<longleftrightarrow> unat c div 64 = ?i \<and> unat c mod 64 = ?j"
      by (metis div_mult_mod_eq word_unat_eq_iff)
    moreover have "bit (hb_marks ?h ! (unat c div 64)) (unat c mod 64) =
        (unat c div 64 = ?i \<and> unat c mod 64 = ?j \<or> bit (hb_marks h ! (unat c div 64)) (unat c mod 64))"
      using i assms(1) by (cases "unat c div 64 = ?i") (auto simp: bit_simps)
    ultimately show ?thesis using mark_bit_value [OF _ c, of ?h] assms(1) by simp
  qed
  ultimately show ?thesis using assms(1) by (intro exI [of _ ?h]) (simp add: strip_def)
qed


section \<open>Looking up headers while marking\<close>

text \<open>Nothing but black lists changed.\<close>

definition quiet :: "marker \<Rightarrow> marker \<Rightarrow> bool" where
  "quiet m m' \<longleftrightarrow> same m m' \<and> sane m' \<and> gc_hdrs (mk_gc m') = gc_hdrs (mk_gc m) \<and>
     GC_mark_stack m' = GC_mark_stack m \<and> GC_mark_state m' = GC_mark_state m"

lemma sound_index_cong:
  "bottom_indices s' = bottom_indices s \<Longrightarrow> GC_top_index s' = GC_top_index s \<Longrightarrow>
   length (gc_hdrs s') = length (gc_hdrs s) \<Longrightarrow> sound_index s' = sound_index s"
  by (simp add: sound_index_def)

lemma black_list_quiet:
  assumes "sane m"
  shows "\<exists>m'. lift_gc (GC_ADD_TO_BLACK_LIST_NORMAL w) m = Inr m' \<and> quiet m m'"
proof -
  let ?g = "mk_gc m"
  have "w AND 7 \<le> 7" by (rule word_and_le1)
  then have "unat (w AND 7) < 8" by (simp add: word_le_nat_alt)
  then have r: "read_at (GC_modws_valid_offsets ?g) (w AND 7) = Inr (GC_modws_valid_offsets ?g ! unat (w AND 7))"
    using assms by (simp add: read_at_def sane_def)
  have pht: "unat (PHT_HASH w) div 64 < 4096" using PHT_HASH_small [of w] by (intro less_mult_imp_div_less) simp
  let ?bl = "(GC_incomplete_normal_bl ?g)[unat (PHT_HASH w) div 64 := GC_incomplete_normal_bl ?g ! (unat (PHT_HASH w) div 64) OR
      push_bit (unat (PHT_HASH w) mod 64) 1]"
  have set: "set_pht_entry_from_index (GC_incomplete_normal_bl ?g) (PHT_HASH w) = Inr ?bl"
    using assms pht by (simp add: set_pht_entry_from_index_def read_at_def write_at_def unat_divWORDSZ unat_modWORDSZ sane_def)
  have get: "get_pht_entry_from_index (GC_old_normal_bl ?g) (PHT_HASH w) = Inr (pht_bit (GC_old_normal_bl ?g) (PHT_HASH w))"
    using assms by (intro get_pht) (simp add: sane_def)
  have hdr: "HDR w ?g = Inr (entry_of ?g w)" using assms by (intro entry_of) (simp add: sane_def)
  have "\<exists>bl. GC_add_to_black_list_normal w ?g = Inr (?g\<lparr>GC_incomplete_normal_bl := bl\<rparr>) \<and> length bl = 4096"
  proof (cases "GC_modws_valid_offsets ?g ! unat (w AND 7)")
    case True
    show ?thesis
    proof (cases "entry_of ?g w = 0 \<or> pht_bit (GC_old_normal_bl ?g) (PHT_HASH w)")
      case add: True
      then have "GC_add_to_black_list_normal w ?g = Inr (?g\<lparr>GC_incomplete_normal_bl := ?bl\<rparr>)"
        using True by (auto simp: GC_add_to_black_list_normal_def r set get hdr or_else_def Let_def)
      moreover have "length ?bl = 4096" using assms by (simp add: sane_def)
      ultimately show ?thesis by blast
    next
      case False
      then have "GC_add_to_black_list_normal w ?g = Inr (?g\<lparr>GC_incomplete_normal_bl := GC_incomplete_normal_bl ?g\<rparr>)"
        using True by (simp add: GC_add_to_black_list_normal_def r get hdr or_else_def Let_def)
      then show ?thesis using assms by (intro exI [of _ "GC_incomplete_normal_bl ?g"]) (simp add: sane_def)
    qed
  next
    case False
    then have "GC_add_to_black_list_normal w ?g = Inr (?g\<lparr>GC_incomplete_normal_bl := GC_incomplete_normal_bl ?g\<rparr>)"
      by (simp add: GC_add_to_black_list_normal_def r)
    then show ?thesis using assms by (intro exI [of _ "GC_incomplete_normal_bl ?g"]) (simp add: sane_def)
  qed
  then obtain bl where bl: "GC_add_to_black_list_normal w ?g = Inr (?g\<lparr>GC_incomplete_normal_bl := bl\<rparr>)" "length bl = 4096" by blast
  let ?m = "m\<lparr>mk_gc := ?g\<lparr>GC_incomplete_normal_bl := bl\<rparr>\<rparr>"
  have same: "same m ?m" by (simp add: same_def)
  have "in_use (mk_gc ?m) = in_use ?g" using same_in_use [OF same] by blast
  moreover have "entry_of (mk_gc ?m) = entry_of ?g" using same_entry [OF same] by blast
  moreover have "header_at (mk_gc ?m) = header_at ?g" by (simp add: header_at_def fun_eq_iff)
  moreover have "sound_index (mk_gc ?m) = sound_index ?g" by (rule sound_index_cong) simp_all
  ultimately have "sane ?m" using assms bl(2) unfolding sane_def by simp
  then have "quiet m ?m" using same by (simp add: quiet_def)
  moreover have "GC_ADD_TO_BLACK_LIST_NORMAL w ?g = GC_add_to_black_list_normal w ?g"
    using assms by (simp add: GC_ADD_TO_BLACK_LIST_NORMAL_def sane_def)
  ultimately show ?thesis using bl(1) by (auto simp: lift_gc_def)
qed


text \<open>Every line of the cache is right for the pages that fall on it.\<close>

definition cache_ok :: "hdr_cache \<Rightarrow> marker \<Rightarrow> bool" where
  "cache_ok c m \<longleftrightarrow> length c = 8 \<and>
     (\<forall>p. plausible m p \<and> fst (c ! unat (HCE p)) = drop_bit 12 p \<longrightarrow>
        snd (c ! unat (HCE p)) = entry_of (mk_gc m) p \<and> in_use (mk_gc m) (entry_of (mk_gc m) p))"

lemma HCE_bound: "unat (HCE p) < 8"
proof -
  have "HCE p \<le> 7" unfolding HCE_def by (rule word_and_le1)
  then show ?thesis by (simp add: word_le_nat_alt)
qed

lemma cache_ok_same:
  assumes "same m m'" "cache_ok c m"
  shows "cache_ok c m'"
proof -
  have "plausible m' p = plausible m p" for p using assms(1) by (simp add: same_def plausible_def)
  then show ?thesis using assms(2) by (simp add: cache_ok_def same_entry [OF assms(1)] same_in_use [OF assms(1)])
qed

lemma cache_ok_init:
  assumes "sane m"
  shows "cache_ok INIT_HDR_CACHE m"
proof -
  have "False" if "plausible m p" "drop_bit 12 p = 0" for p
  proof -
    have "4096 \<le> unat p" using assms that(1) by (simp add: sane_def plausible_def word_le_nat_alt)
    moreover have "unat p div 4096 = 0" using arg_cong [OF that(2), of unat] by (simp add: drop_bit_eq_div unat_div)
    ultimately show False by simp
  qed
  then show ?thesis using HCE_bound by (auto simp: cache_ok_def INIT_HDR_CACHE_def)
qed

lemma entry_of_page: "drop_bit 12 p = drop_bit 12 q \<Longrightarrow> entry_of s p = entry_of s q"
  using HDR_page [of p q s] by (simp add: entry_of_def)

lemma HC_GET_HDR_spec:
  assumes m: "sane m" and c: "cache_ok c m" and p: "plausible m p"
  shows "\<exists>c' m'. HC_GET_HDR p (c, m) =
      Inr (if in_use (mk_gc m) (entry_of (mk_gc m) p) then Some (entry_of (mk_gc m) p) else None, c', m') \<and>
    quiet m m' \<and> cache_ok c' m'"
proof -
  let ?e = "entry_of (mk_gc m) p"
  have len: "length c = 8" using c by (simp add: cache_ok_def)
  have r: "read_at c (HCE p) = Inr (c ! unat (HCE p))" using HCE_bound len by (simp add: read_at_def)
  have quiet: "quiet m m" using m by (simp add: quiet_def)
  show ?thesis
  proof (cases "fst (c ! unat (HCE p)) = drop_bit 12 p")
    case True
    then have "snd (c ! unat (HCE p)) = ?e" "in_use (mk_gc m) ?e" using c p by (simp_all add: cache_ok_def)
    then show ?thesis using True c quiet by (simp add: HC_GET_HDR_def r)
  next
    case miss: False
    have sound: "sound_index (mk_gc m)" using m by (simp add: sane_def)
    have hdr: "HDR p (mk_gc m) = Inr ?e" by (rule entry_of [OF sound])
    have interior: "\<not> GC_all_interior_pointers (mk_gc m)" using m by (simp add: sane_def)
    obtain m' where m': "lift_gc (GC_ADD_TO_BLACK_LIST_NORMAL p) m = Inr m'" "quiet m m'" using black_list_quiet [OF m] by blast
    have c': "cache_ok c m'" using cache_ok_same [OF _ c] m'(2) by (simp add: quiet_def)
    consider "?e \<le> MAX_JUMP" | "MAX_JUMP < ?e" "HBLK_IS_FREE (header_at (mk_gc m) ?e)" | "in_use (mk_gc m) ?e"
      using entry_of_bound [OF sound, of p] unfolding in_use_def by (metis linorder_not_le)
    then show ?thesis
    proof cases
      case 1
      then have "\<not> MAX_JUMP < ?e" by (rule leD)
      then have "\<not> in_use (mk_gc m) ?e" by (simp add: in_use_def)
      then show ?thesis using 1 m' c c' quiet miss interior
        by (cases "?e = 0") (simp_all add: HC_GET_HDR_def r GC_header_cache_miss_def hdr Let_def IS_FORWARDING_ADDR_OR_NIL_def)
    next
      case 2
      then have "get_hdr ?e (mk_gc m) = Inr (header_at (mk_gc m) ?e)"
        using entry_of_bound [OF sound, of p] by (auto simp: get_hdr_def hdr_index_def deref_def header_at_def)
      moreover have "\<not> IS_FORWARDING_ADDR_OR_NIL ?e"
        using 2(1) by (simp only: IS_FORWARDING_ADDR_OR_NIL_def linorder_not_le)
      moreover have "\<not> in_use (mk_gc m) ?e" using 2(2) by (simp add: in_use_def)
      ultimately show ?thesis using 2(2) m' c' miss
        by (simp add: HC_GET_HDR_def r GC_header_cache_miss_def hdr Let_def)
    next
      case 3
      let ?c = "c[unat (HCE p) := (drop_bit 12 p, ?e)]"
      have "cache_ok ?c m"
        unfolding cache_ok_def
      proof (intro conjI allI impI)
        fix q
        assume q: "plausible m q \<and> fst (?c ! unat (HCE q)) = drop_bit 12 q"
        have "snd (?c ! unat (HCE q)) = entry_of (mk_gc m) q \<and> in_use (mk_gc m) (entry_of (mk_gc m) q)"
        proof (cases "HCE q = HCE p")
          case True
          then have "drop_bit 12 q = drop_bit 12 p" using q HCE_bound len by simp
          then show ?thesis using True 3 HCE_bound len entry_of_page [of q p] by simp
        next
          case False
          then have "unat (HCE q) \<noteq> unat (HCE p)" by (simp add: word_unat_eq_iff)
          then show ?thesis using q c by (simp add: cache_ok_def)
        qed
        then show "snd (?c ! unat (HCE q)) = entry_of (mk_gc m) q" "in_use (mk_gc m) (entry_of (mk_gc m) q)" by simp_all
      qed (simp add: len)
      moreover have "write_at c (HCE p) x = Inr (c[unat (HCE p) := x])" for x using HCE_bound len by (simp add: write_at_def)
      moreover have "MAX_JUMP < ?e" "\<not> HBLK_IS_FREE (header_at (mk_gc m) ?e)" using 3 by (simp_all add: in_use_def)
      moreover from this(1) have "\<not> IS_FORWARDING_ADDR_OR_NIL ?e" by (simp only: IS_FORWARDING_ADDR_OR_NIL_def linorder_not_le)
      moreover from 3 have "?e \<noteq> 0" by (auto simp: in_use_def)
      ultimately show ?thesis using 3 miss quiet get_hdr_in_use [OF 3]
        by (simp add: HC_GET_HDR_def r GC_header_cache_miss_def hdr Let_def)
    qed
  qed
qed


section \<open>One step of tracing\<close>

text \<open>From \<open>m\<close> to \<open>m'\<close> only objects that words of \<open>W\<close> point to were marked, and they were pushed; unless
  the stack overflowed, nothing that was pending is lost.\<close>

definition ext :: "u64 set \<Rightarrow> marker \<Rightarrow> marker \<Rightarrow> bool" where
  "ext W m m' \<longleftrightarrow>
     same m m' \<and> sane m' \<and> (\<forall>ob. marked m ob \<longrightarrow> marked m' ob) \<and>
     (\<forall>ob. marked m' ob \<and> \<not> marked m ob \<longrightarrow> (\<exists>w \<in> W. find_object m w = Some ob)) \<and>
     (\<forall>x \<in> set (GC_mark_stack m'). x \<in> set (GC_mark_stack m) \<or>
        (\<exists>ob. marked m' ob \<and> \<not> marked m ob \<and> obj_descr m ob \<noteq> 0 \<and> x = (obj_base m ob, obj_descr m ob))) \<and>
     (GC_mark_state m' = MS_INVALID \<or>
        GC_mark_state m' = GC_mark_state m \<and> pending m \<subseteq> pending m' \<and>
        (\<forall>ob. marked m' ob \<and> \<not> marked m ob \<longrightarrow> obj_words m ob \<subseteq> pending m')) \<and>
     ((\<forall>ob. marked m' ob \<longrightarrow> marked m ob) \<longrightarrow> GC_mark_stack m' = GC_mark_stack m)"

lemma same_obj:
  assumes "same m m'" "in_use (mk_gc m) (fst ob)"
  shows "obj_base m' ob = obj_base m ob" "obj_descr m' ob = obj_descr m ob" "obj_words m' ob = obj_words m ob"
proof -
  have "unat (fst ob) - 4096 < length (gc_hdrs (mk_gc m))" using assms(2) by (simp add: in_use_def)
  note f = strip_fields [OF same_header [OF assms(1) this]]
  show "obj_base m' ob = obj_base m ob" "obj_descr m' ob = obj_descr m ob"
    using f by (simp_all add: obj_base_def obj_descr_def case_prod_beta)
  then show "obj_words m' ob = obj_words m ob" by (simp add: obj_words_def)
qed

lemma marked_in_use: "marked m ob \<Longrightarrow> in_use (mk_gc m) (fst ob)"
  by (auto simp: marked_def split: prod.splits)

lemma quiet_ext: "quiet m m' \<Longrightarrow> ext W m m'"
  by (auto simp: quiet_def ext_def marked_def same_in_use header_at_def pending_def split: prod.splits)

lemma ext_D:
  assumes "ext W m m'"
  shows "same m m'" "sane m'" "marked m ob \<Longrightarrow> marked m' ob"
    and "marked m' ob \<Longrightarrow> \<not> marked m ob \<Longrightarrow> \<exists>w \<in> W. find_object m w = Some ob"
    and "x \<in> set (GC_mark_stack m') \<Longrightarrow> x \<notin> set (GC_mark_stack m) \<Longrightarrow>
      \<exists>ob. marked m' ob \<and> \<not> marked m ob \<and> obj_descr m ob \<noteq> 0 \<and> x = (obj_base m ob, obj_descr m ob)"
    and "GC_mark_state m' \<noteq> MS_INVALID \<Longrightarrow> GC_mark_state m' = GC_mark_state m"
    and "GC_mark_state m' \<noteq> MS_INVALID \<Longrightarrow> pending m \<subseteq> pending m'"
    and "GC_mark_state m' \<noteq> MS_INVALID \<Longrightarrow> marked m' ob \<Longrightarrow> \<not> marked m ob \<Longrightarrow> obj_words m ob \<subseteq> pending m'"
    and "(\<And>ob. marked m' ob \<Longrightarrow> marked m ob) \<Longrightarrow> GC_mark_stack m' = GC_mark_stack m"
  using assms unfolding ext_def by (simp_all only: simp_thms) blast+

lemma ext_refl: "sane m \<Longrightarrow> ext W m m"
  by (simp add: ext_def)

lemma ext_mono: "ext W m m' \<Longrightarrow> W \<subseteq> W' \<Longrightarrow> ext W' m m'"
  unfolding ext_def by blast

lemma ext_trans:
  assumes 1: "ext W m m'" and 2: "ext W' m' m''"
  shows "ext (W \<union> W') m m''"
proof -
  have s: "same m m'" "same m' m''" using 1 2 by (simp_all add: ext_def)
  have fo: "find_object m' w = find_object m w" for w by (rule find_object_same [OF s(1)])
  have obs: "obj_base m' ob = obj_base m ob \<and> obj_descr m' ob = obj_descr m ob \<and> obj_words m' ob = obj_words m ob"
    if "marked m'' ob" for ob
    using same_obj [OF s(1)] marked_in_use [OF that] same_in_use [OF same_trans [OF s]] by simp
  have old: "marked m ob \<Longrightarrow> marked m' ob" "marked m' ob \<Longrightarrow> marked m'' ob" for ob
    using ext_D(3) [OF 1] ext_D(3) [OF 2] by blast+
  have new: "\<exists>w \<in> W \<union> W'. find_object m w = Some ob" if "marked m'' ob" "\<not> marked m ob" for ob
    using ext_D(4) [OF 1, of ob] ext_D(4) [OF 2, of ob] that unfolding fo by blast
  have stack: "x \<in> set (GC_mark_stack m) \<or> (\<exists>ob. marked m'' ob \<and> \<not> marked m ob \<and> obj_descr m ob \<noteq> 0 \<and> x = (obj_base m ob, obj_descr m ob))"
    if x: "x \<in> set (GC_mark_stack m'')" for x
  proof (cases "x \<in> set (GC_mark_stack m')")
    case True
    then show ?thesis using ext_D(5) [OF 1, of x] old(2) by blast
  next
    case False
    then obtain ob where "marked m'' ob" "\<not> marked m' ob" "obj_descr m' ob \<noteq> 0" "x = (obj_base m' ob, obj_descr m' ob)"
      using ext_D(5) [OF 2 x] by blast
    then show ?thesis using obs [of ob] old(1) [of ob] by (intro disjI2 exI [of _ ob]) auto
  qed
  have state: "GC_mark_state m'' = MS_INVALID \<or>
      GC_mark_state m'' = GC_mark_state m \<and> pending m \<subseteq> pending m'' \<and>
      (\<forall>ob. marked m'' ob \<and> \<not> marked m ob \<longrightarrow> obj_words m ob \<subseteq> pending m'')"
  proof (cases "GC_mark_state m'' = MS_INVALID")
    case False
    note two = ext_D(6-8) [OF 2 False]
    have no: "GC_mark_state m' \<noteq> MS_INVALID" using two(1) False by simp
    note one = ext_D(6-8) [OF 1 no]
    have "obj_words m ob \<subseteq> pending m''" if "marked m'' ob" "\<not> marked m ob" for ob
      using one(3) [of ob] two(2) two(3) [of ob] obs [OF that(1)] that by (cases "marked m' ob") auto
    then show ?thesis using one(1,2) two(1,2) by auto
  qed simp
  have "GC_mark_stack m'' = GC_mark_stack m" if "\<forall>ob. marked m'' ob \<longrightarrow> marked m ob"
    using ext_D(9) [OF 1] ext_D(9) [OF 2] that old by metis
  then show ?thesis
    unfolding ext_def using same_trans [OF s] ext_D(2) [OF 2] old new stack state by blast
qed


lemma push_obj_spec:
  fixes m :: marker
  defines "full \<equiv> GC_mark_stack_size m \<le> length (GC_mark_stack m)"
  assumes "hb_descr h \<noteq> 0"
  shows "GC_mark_stack (GC_push_obj p h m) = (p, hb_descr h) # (if full then drop GC_MARK_STACK_DISCARDS (GC_mark_stack m) else GC_mark_stack m)"
    and "GC_mark_state (GC_push_obj p h m) = (if full then MS_INVALID else GC_mark_state m)"
  using assms by (auto simp: GC_push_obj_def push_entry_def GC_signal_mark_stack_overflow_def)

lemma push_obj_static:
  "mk_gc (GC_push_obj p h m) = mk_gc m" "same m (GC_push_obj p h m)" "GC_valid_offsets (GC_push_obj p h m) = GC_valid_offsets m"
  "GC_least_plausible_heap_addr (GC_push_obj p h m) = GC_least_plausible_heap_addr m"
  by (simp_all add: same_def GC_push_obj_def push_entry_def GC_signal_mark_stack_overflow_def)

text \<open>The state with the header of an entry changed in its marks only.\<close>

definition with_hdr :: "marker \<Rightarrow> u64 \<Rightarrow> hdr \<Rightarrow> marker" where
  "with_hdr m e h = m\<lparr>mk_gc := (mk_gc m)\<lparr>gc_hdrs := (gc_hdrs (mk_gc m))[unat e - 4096 := h]\<rparr>\<rparr>"

lemma remark:
  assumes m: "sane m" and e: "in_use (mk_gc m) e" and h: "strip h = strip (header_at (mk_gc m) e)" "length (hb_marks h) = 5"
  shows "same m (with_hdr m e h)" "sane (with_hdr m e h)"
    and "in_use (mk_gc m) e' \<Longrightarrow> header_at (mk_gc (with_hdr m e h)) e' = (if e' = e then h else header_at (mk_gc m) e')"
proof -
  let ?m = "with_hdr m e h"
  have i: "unat e - 4096 < length (gc_hdrs (mk_gc m))" using e by (simp add: in_use_def)
  have "map strip ((gc_hdrs (mk_gc m))[unat e - 4096 := h]) = map strip (gc_hdrs (mk_gc m))"
    using h(1) i by (simp add: map_update header_at_def) (simp add: list_update_same_conv)
  then show same: "same m ?m" by (simp add: same_def with_hdr_def)
  have at: "header_at (mk_gc ?m) e' = (if e' = e then h else header_at (mk_gc m) e')" if e': "in_use (mk_gc m) e'" for e'
  proof -
    have "MAX_JUMP < e" "MAX_JUMP < e'" using e e' by (simp_all add: in_use_def)
    then have "4096 \<le> unat e" "4096 \<le> unat e'" by (simp_all add: word_less_nat_alt)
    then have "unat e' - 4096 = unat e - 4096 \<longleftrightarrow> e' = e" by (metis eq_diff_iff word_unat_eq_iff)
    then show ?thesis using i by (cases "e' = e") (simp_all add: header_at_def with_hdr_def)
  qed
  then show "in_use (mk_gc m) e' \<Longrightarrow> header_at (mk_gc ?m) e' = (if e' = e then h else header_at (mk_gc m) e')" .
  have "sound_header p (header_at (mk_gc ?m) (entry_of (mk_gc m) p))" if u: "in_use (mk_gc m) (entry_of (mk_gc m) p)" for p
  proof -
    have "sound_header p (header_at (mk_gc m) (entry_of (mk_gc m) p))" using m u by (simp add: sane_def)
    then show ?thesis
      unfolding at [OF u] using h strip_fields [OF h(1)] by (cases "entry_of (mk_gc m) p = e") (simp_all add: sound_header_def)
  qed
  moreover have "sound_index (mk_gc ?m) = sound_index (mk_gc m)" by (rule sound_index_cong) (simp_all add: with_hdr_def)
  ultimately show "sane ?m"
    using m unfolding sane_def same_in_use [OF same] same_entry [OF same] by (simp add: with_hdr_def)
qed

lemma mark_bit_iff:
  assumes "length (hb_marks h) = 5"
  shows "mark_bit_from_hdr h c = Inr True \<longleftrightarrow> unat c < 320 \<and> bit (hb_marks h ! (unat c div 64)) (unat c mod 64)"
proof (cases "unat c < 320")
  case True
  then show ?thesis using mark_bit_value [OF assms] by simp
next
  case False
  then have "5 \<le> unat c div 64" by simp
  then show ?thesis using False assms by (simp add: mark_bit_from_hdr_def read_at_def unat_divWORDSZ)
qed

lemma sane_push_obj: "sane (GC_push_obj p h m) = sane m"
  by (simp add: sane_def push_obj_static)

lemma marked_push_obj: "marked (GC_push_obj p h m) = marked m"
  by (simp add: marked_def fun_eq_iff push_obj_static)

text \<open>The state with a mark bit set and the object pushed.\<close>

lemma mark_new:
  assumes m: "sane m" and ob: "find_object m w = Some (e, b)" and new: "\<not> marked m (e, b)"
  shows "\<exists>h. let m1 = with_hdr m e h in
    mark_and_push_object e b (obj_base m (e, b)) m = Inr (GC_push_obj (obj_base m (e, b)) (header_at (mk_gc m) e) m1) \<and>
    same m m1 \<and> sane m1 \<and> (\<forall>ob. marked m1 ob = (marked m ob \<or> ob = (e, b)))"
proof -
  let ?g = "mk_gc m" and ?h = "header_at (mk_gc m) e"
  have f: "in_use ?g e" "sound_header w ?h" "unat b < 256" using find_object_found [OF m ob] by blast+
  have h5: "length (hb_marks ?h) = 5" "unat b < 320" using f by (simp_all add: sound_header_def)
  have bit: "mark_bit_from_hdr ?h b = Inr False" using mark_bit_value [OF h5] new f(1) by (simp add: marked_def)
  obtain h' where h': "set_mark_bit_from_hdr ?h b = Inr h'" "strip h' = strip ?h" "length (hb_marks h') = 5"
    "\<forall>c. unat c < 320 \<longrightarrow> mark_bit_from_hdr h' c = Inr (c = b \<or> bit (hb_marks ?h ! (unat c div 64)) (unat c mod 64))"
    using set_mark_bit_value [OF h5] by blast
  let ?h' = "h'\<lparr>hb_n_marks := hb_n_marks h' + 1\<rparr>"
  let ?m1 = "with_hdr m e ?h'"
  have strip': "strip ?h' = strip ?h" and len': "length (hb_marks ?h') = 5" using h'(2,3) by (simp_all add: strip_def)
  note r = remark [OF m f(1) strip' len']
  have eq: "mark_and_push_object e b (obj_base m (e, b)) m = Inr (GC_push_obj (obj_base m (e, b)) ?h ?m1)"
    by (simp add: mark_and_push_object_def get_hdr_in_use [OF f(1)] bit h'(1) lift_gc_def mod_hdr_in_use [OF f(1)] with_hdr_def)
  have bits: "mark_bit_from_hdr ?h' c = Inr True \<longleftrightarrow> mark_bit_from_hdr ?h c = Inr True \<or> c = b" for c
  proof -
    have "mark_bit_from_hdr ?h' c = mark_bit_from_hdr h' c" by (simp add: mark_bit_from_hdr_def)
    then show ?thesis
      using h'(4) mark_bit_iff [OF h'(3), of c] mark_bit_iff [OF h5(1), of c] h5(2) by (cases "unat c < 320") auto
  qed
  have "marked ?m1 (e', c) = (marked m (e', c) \<or> (e', c) = (e, b))" for e' c
    using bits [of c] r(3) [of e'] f(1) same_in_use [OF r(1), of e'] by (cases "in_use ?g e'") (auto simp: marked_def)
  then show ?thesis using eq r(1,2) by (intro exI [of _ ?h']) (auto simp: Let_def)
qed

lemma words_0 [simp]: "words p 0 = {}"
  by (simp add: words_def)

lemma mark_and_push_ext:
  assumes m: "sane m" and ob: "find_object m w = Some (e, b)"
  shows "\<exists>m'. mark_and_push_object e b (obj_base m (e, b)) m = Inr m' \<and> ext {w} m m' \<and> marked m' (e, b)"
proof (cases "marked m (e, b)")
  case True
  then have "mark_and_push_object e b (obj_base m (e, b)) m = Inr m"
    by (auto simp: mark_and_push_object_def marked_def get_hdr_in_use)
  then show ?thesis using True ext_refl [OF m] by blast
next
  case False
  let ?h = "header_at (mk_gc m) e" and ?p = "obj_base m (e, b)"
  obtain h where h: "mark_and_push_object e b ?p m = Inr (GC_push_obj ?p ?h (with_hdr m e h))"
    "same m (with_hdr m e h)" "sane (with_hdr m e h)" "\<And>ob. marked (with_hdr m e h) ob = (marked m ob \<or> ob = (e, b))"
    using mark_new [OF m ob False] by (auto simp: Let_def)
  let ?m1 = "with_hdr m e h" and ?m2 = "GC_push_obj ?p ?h (with_hdr m e h)"
  have d: "obj_descr m (e, b) = hb_descr ?h" by (simp add: obj_descr_def)
  have one: "GC_mark_stack ?m1 = GC_mark_stack m" "GC_mark_state ?m1 = GC_mark_state m" "GC_mark_stack_size ?m1 = GC_mark_stack_size m"
    by (simp_all add: with_hdr_def)
  have marks: "marked ?m2 ob = (marked m ob \<or> ob = (e, b))" for ob using h(4) by (simp add: marked_push_obj)
  have "ext {w} m ?m2"
  proof (cases "hb_descr ?h = 0")
    case True
    then have "?m2 = ?m1" by (simp add: GC_push_obj_def)
    then show ?thesis
      using h(2,3) one marks ob False True d by (auto simp: ext_def pending_def obj_words_def)
  next
    case desc: False
    note p = push_obj_spec [OF desc, of ?p ?m1]
    have "x \<in> set (GC_mark_stack m) \<or> x = (?p, hb_descr ?h)" if "x \<in> set (GC_mark_stack ?m2)" for x
      using that p(1) one by (auto split: if_splits dest: in_set_dropD)
    then have stack: "x \<in> set (GC_mark_stack m) \<or>
        (\<exists>ob. marked ?m2 ob \<and> \<not> marked m ob \<and> obj_descr m ob \<noteq> 0 \<and> x = (obj_base m ob, obj_descr m ob))"
      if "x \<in> set (GC_mark_stack ?m2)" for x
      using that marks False desc d by metis
    have state: "GC_mark_state ?m2 = MS_INVALID \<or>
        GC_mark_state ?m2 = GC_mark_state m \<and> pending m \<subseteq> pending ?m2 \<and>
        (\<forall>ob. marked ?m2 ob \<and> \<not> marked m ob \<longrightarrow> obj_words m ob \<subseteq> pending ?m2)"
      using p one marks d by (auto simp: pending_def obj_words_def)
    have "same m ?m2" "sane ?m2" using same_trans [OF h(2) push_obj_static(2)] h(3) by (simp_all add: sane_push_obj)
    then show ?thesis using marks stack state ob False unfolding ext_def by blast
  qed
  then show ?thesis using h(1) marks by blast
qed

end
