(* ===== verification/Atomix_GC_Tricolor.thy ===== *)
theory Atomix_GC_Tricolor
  imports Atomix_GC_Trace_Laws
begin

unbundle bit_operations_syntax

text \<open>
  What the loop of \<open>GC_mark_from\<close> achieves. \<open>private/gc_pmark.h\<close> states its invariant: the roots and
  the marked objects point to objects that are marked or to which a pointer appears in a range on
  the mark stack. The theory shows that a range that was taken off the stack has all its words
  looked at, that the invariant is kept unless the stack overflowed, that the loop ends, and that
  an empty stack leaves exactly what is reachable marked.
\<close>

section \<open>Ranges of words\<close>

definition row :: "u64 \<Rightarrow> nat \<Rightarrow> u64 set" where
  "row p k = (\<lambda>i. p + 8 * word_of_nat i) ` {..<k}"

lemma words_row: "words p n = row p (unat n div 8)"
  by (auto simp: words_def row_def)

lemma row_0 [simp]: "row p 0 = {}"
  by (simp add: row_def)

lemma row_Suc: "row p (Suc k) = insert p (row (p + 8) k)"
  unfolding row_def lessThan_Suc_eq_insert_0 image_insert image_image by (simp add: algebra_simps)

lemma row_add: "row p (j + k) = row p j \<union> row (p + 8 * word_of_nat j) k"
  by (induction j arbitrary: p) (simp_all add: row_Suc algebra_simps)

text \<open>A word that was looked at: the object it points to is marked.\<close>

definition seen :: "marker \<Rightarrow> u64 \<Rightarrow> bool" where
  "seen m a \<longleftrightarrow> (\<forall>ob. find_object m (word_at m a) = Some ob \<longrightarrow> marked m ob)"

lemma same_word_at: "same m m' \<Longrightarrow> word_at m' a = word_at m a"
  by (simp add: same_def word_at_def)

lemma same_plausible: "same m m' \<Longrightarrow> plausible m' w = plausible m w"
  by (simp add: same_def plausible_def)

lemma seen_mono:
  assumes "same m m'" "\<And>ob. marked m ob \<Longrightarrow> marked m' ob" "seen m a"
  shows "seen m' a"
  using assms(2,3) unfolding seen_def find_object_same [OF assms(1)] same_word_at [OF assms(1)] by blast

lemma implausible_seen: "\<not> plausible m (word_at m a) \<Longrightarrow> seen m a"
  by (simp add: seen_def find_object_def)

text \<open>The words at \<open>A\<close> were looked at.\<close>

definition visit :: "u64 set \<Rightarrow> marker \<Rightarrow> hdr_cache \<Rightarrow> marker \<Rightarrow> bool" where
  "visit A m c' m' \<longleftrightarrow> ext (word_at m ` A) m m' \<and> cache_ok c' m' \<and> (\<forall>a \<in> A. seen m' a)"

lemma visit_D:
  assumes "visit A m c' m'"
  shows "ext (word_at m ` A) m m'" "cache_ok c' m'" "a \<in> A \<Longrightarrow> seen m' a" "same m m'" "sane m'"
  using assms ext_D(1,2) by (auto simp: visit_def)

lemma visit_empty: "sane m \<Longrightarrow> cache_ok c m \<Longrightarrow> visit {} m c m"
  by (simp add: visit_def ext_refl)

lemma visit_implausible:
  assumes "visit A m c' m'" "\<And>a. a \<in> B \<Longrightarrow> \<not> plausible m (word_at m a)"
  shows "visit (A \<union> B) m c' m'"
proof -
  have "seen m' a" if "a \<in> B" for a
    using assms(2) [OF that] same_plausible [OF visit_D(4)] same_word_at [OF visit_D(4)] assms(1) by (metis implausible_seen)
  moreover have "ext (word_at m ` (A \<union> B)) m m'" by (rule ext_mono [OF visit_D(1) [OF assms(1)]]) blast
  ultimately show ?thesis using assms(1) unfolding visit_def by blast
qed

lemma visit_trans:
  assumes 1: "visit A m c' m'" and 2: "visit B m' c'' m''"
  shows "visit (A \<union> B) m c'' m''"
proof -
  have "word_at m' ` B = word_at m ` B" using same_word_at [OF visit_D(4) [OF 1]] by simp
  then have "ext (word_at m ` (A \<union> B)) m m''"
    using ext_trans [OF visit_D(1) [OF 1] visit_D(1) [OF 2]] by (simp add: image_Un)
  moreover have "seen m'' a" if "a \<in> A" for a
    using seen_mono [OF visit_D(4) [OF 2] ext_D(3) [OF visit_D(1) [OF 2]] visit_D(3) [OF 1 that]] .
  ultimately show ?thesis using 2 unfolding visit_def by blast
qed

lemma push_contents_visit:
  assumes m: "sane m" and c: "cache_ok c m" and p: "plausible m (word_at m a)"
  shows "\<exists>c' m'. PUSH_CONTENTS (word_at m a) (c, m) = Inr (c', m') \<and> visit {a} m c' m'"
proof -
  let ?w = "word_at m a" and ?e = "entry_of (mk_gc m) (word_at m a)"
  obtain c' m1 where 1: "HC_GET_HDR ?w (c, m) = Inr (if in_use (mk_gc m) ?e then Some ?e else None, c', m1)" "quiet m m1" "cache_ok c' m1"
    using HC_GET_HDR_spec [OF m c p] by blast
  have s: "same m m1" "sane m1" using 1(2) by (simp_all add: quiet_def)
  have ext: "ext {?w} m m1" by (rule quiet_ext [OF 1(2)])
  show ?thesis
  proof (cases "in_use (mk_gc m) ?e")
    case False
    then have "find_object m ?w = None" by (simp add: find_object_def Let_def)
    then have "seen m a" by (simp add: seen_def)
    then have "seen m1 a" using ext_D(3) [OF ext] by (intro seen_mono [OF s(1)])
    then show ?thesis using 1 False ext by (auto simp: PUSH_CONTENTS_def visit_def)
  next
    case u: True
    have u1: "in_use (mk_gc m1) ?e" using u same_in_use [OF s(1)] by simp
    have e1: "entry_of (mk_gc m1) ?w = ?e" by (rule same_entry [OF s(1)])
    have h: "sound_header ?w (header_at (mk_gc m1) ?e)" using s(2) u1 e1 unfolding sane_def by metis
    have offs: "length (GC_valid_offsets m1) = 4096" using s(2) by (simp add: sane_def)
    have p1: "plausible m1 ?w" using p same_plausible [OF s(1)] by simp
    obtain r where r: "locate ?w (header_at (mk_gc m1) ?e) True (GC_valid_offsets m1) = Inr r"
      "\<forall>b base. r = Some (b, base) \<longrightarrow> unat b < 256 \<and> base = hb_block (header_at (mk_gc m1) ?e) + 16 * b"
      using locate_spec [OF h offs, of True] by blast
    have get: "GC_push_contents_hdr ?w ?e True m1 =
        (case r of None \<Rightarrow> lift_gc (GC_ADD_TO_BLACK_LIST_NORMAL ?w) m1 | Some (b, base) \<Rightarrow> mark_and_push_object ?e b base m1)"
      by (simp add: GC_push_contents_hdr_def get_hdr_in_use [OF u1] r(1))
    have fo: "find_object m1 ?w = (case r of None \<Rightarrow> None | Some (b, base) \<Rightarrow> Some (?e, b))"
      using p1 u1 r(1) e1 by (simp add: find_object_def Let_def split: option.splits)
    have fo': "find_object m ?w = find_object m1 ?w" using find_object_same [OF s(1)] by simp
    show ?thesis
    proof (cases r)
      case None
      obtain m2 where 2: "lift_gc (GC_ADD_TO_BLACK_LIST_NORMAL ?w) m1 = Inr m2" "quiet m1 m2" using black_list_quiet [OF s(2)] by blast
      have "same m1 m2" using 2(2) by (simp add: quiet_def)
      moreover have "visit {a} m c' m1" using ext 1(3) fo fo' None by (simp add: visit_def seen_def same_word_at [OF s(1)])
      moreover have "visit {a} m1 c' m2"
        using quiet_ext [OF 2(2)] cache_ok_same [OF calculation(1) 1(3)] fo None
        by (simp add: visit_def seen_def find_object_same [OF calculation(1)] same_word_at [OF calculation(1)] same_word_at [OF s(1)])
      ultimately have "visit {a} m c' m2" using visit_trans by fastforce
      then show ?thesis using 1(1) u get 2(1) None by (auto simp: PUSH_CONTENTS_def)
    next
      case (Some x)
      obtain b base where x: "r = Some (b, base)" using Some by (cases x) simp
      have found: "find_object m1 ?w = Some (?e, b)" using fo x by simp
      have base: "base = obj_base m1 (?e, b)" using r(2) x by (simp add: obj_base_def)
      obtain m2 where 2: "mark_and_push_object ?e b base m1 = Inr m2" "ext {?w} m1 m2" "marked m2 (?e, b)"
        using mark_and_push_ext [OF s(2) found] base by blast
      note sm2 = ext_D(1) [OF 2(2)]
      have "ext {?w} m m2" using ext_trans [OF ext 2(2)] by simp
      moreover have "seen m2 a"
        using found 2(3) by (simp add: seen_def find_object_same [OF sm2] same_word_at [OF sm2] same_word_at [OF s(1)])
      ultimately have "visit {a} m c' m2" using cache_ok_same [OF sm2 1(3)] by (simp add: visit_def)
      then show ?thesis using 1(1) u get 2(1) x by (auto simp: PUSH_CONTENTS_def)
    qed
  qed
qed


section \<open>Scanning a range\<close>

lemma unat_step: "unat p + n < 2 ^ 64 \<Longrightarrow> unat (p + word_of_nat n) = unat p + n" for p :: u64
  by (simp add: unat_word_ariths unat_of_nat)

lemma unat_back: "n \<le> unat p \<Longrightarrow> unat (p - word_of_nat n) = unat p - n" for p :: u64
  using unsigned_less [of p, where 'a = nat]
  by (subst unat_sub) (simp_all add: word_le_nat_alt unat_of_nat)

lemma scan_words_visit:
  assumes "sane m" "cache_ok c m" "unat p + 8 * k = unat limit + 8" "unat limit + 8 < 2 ^ 64" "k < n"
  shows "\<exists>c' m'. scan_words n p limit (c, m) = Inr (c', m') \<and> visit (row p k) m c' m'"
  using assms
proof (induction n arbitrary: p k c m)
  case (Suc n)
  show ?case
  proof (cases k)
    case 0
    then have "\<not> p \<le> limit" using Suc.prems(3) by (simp add: word_le_nat_alt)
    then show ?thesis using 0 visit_empty [OF Suc.prems(1,2)] by simp
  next
    case k: (Suc j)
    have le: "p \<le> limit" using Suc.prems(3) k by (simp add: word_le_nat_alt)
    have p8: "unat (p + 8) = unat p + 8" using unat_step [of p 8] Suc.prems(3,4) k by simp
    have "\<exists>c1 m1. (if plausible m (word_at m p) then PUSH_CONTENTS (word_at m p) (c, m) else Inr (c, m)) = Inr (c1, m1) \<and>
        visit {p} m c1 m1"
      using push_contents_visit [OF Suc.prems(1,2), of p] visit_implausible [OF visit_empty [OF Suc.prems(1,2)], of "{p}"]
      by (cases "plausible m (word_at m p)") simp_all
    then obtain c1 m1 where 1: "(if plausible m (word_at m p) then PUSH_CONTENTS (word_at m p) (c, m) else Inr (c, m)) = Inr (c1, m1)"
      "visit {p} m c1 m1" by blast
    have "unat (p + 8) + 8 * j = unat limit + 8" using Suc.prems(3) k p8 by simp
    from Suc.IH [OF visit_D(5) [OF 1(2)] visit_D(2) [OF 1(2)] this Suc.prems(4)]
    obtain c2 m2 where 2: "scan_words n (p + 8) limit (c1, m1) = Inr (c2, m2)" "visit (row (p + 8) j) m1 c2 m2"
      using Suc.prems(5) k by auto
    have "visit (row p k) m c2 m2" using visit_trans [OF 1(2) 2(2)] by (simp add: k row_Suc)
    moreover have "scan_words (Suc n) p limit (c, m) = Inr (c2, m2)" using le 1(1) 2(1) by simp
    ultimately show ?thesis by blast
  qed
qed simp

lemma find_deferred_spec:
  assumes "unat p + 8 * k = unat limit + 8" "8 \<le> unat p" "k \<le> n" "0 < k"
  shows "\<exists>r. find_deferred n p limit m = Inr r \<and>
    (case r of
       None \<Rightarrow> \<forall>i < k. \<not> plausible m (word_at m (p + 8 * word_of_nat i))
     | Some (w, l) \<Rightarrow> \<exists>j < k. w = word_at m (p + 8 * word_of_nat j) \<and> plausible m w \<and> unat p + 8 * j = unat l + 8 \<and>
         (\<forall>i. j < i \<and> i < k \<longrightarrow> \<not> plausible m (word_at m (p + 8 * word_of_nat i))))"
  using assms
proof (induction n arbitrary: limit k)
  case (Suc n)
  then obtain j where k: "k = Suc j" by (cases k) simp_all
  have "unat limit = unat p + 8 * j" using Suc.prems(1) k by simp
  moreover from this have "unat p + 8 * j < 2 ^ 64" using unsigned_less [of limit, where 'a = nat] by simp
  ultimately have limit: "limit = p + 8 * word_of_nat j"
    using unat_step [of p "8 * j"] by (simp add: word_unat_eq_iff)
  have bk: "unat (limit - 8) = unat limit - 8"
    using unat_back [of 8 limit] Suc.prems(1,2) k by simp
  consider "plausible m (word_at m limit)" | "\<not> plausible m (word_at m limit)" "j = 0" | "\<not> plausible m (word_at m limit)" "0 < j" by blast
  then show ?case
  proof cases
    case 1
    have "find_deferred (Suc n) p limit m = Inr (Some (word_at m limit, limit - 8))" using 1 by (simp add: Let_def)
    moreover have "unat p + 8 * j = unat (limit - 8) + 8" using bk Suc.prems(1,2) k by simp
    ultimately show ?thesis using 1 limit k by (intro exI [of _ "Some (word_at m limit, limit - 8)"]) (auto intro!: exI [of _ j])
  next
    case 2
    then have "limit - 8 < p" using bk Suc.prems(1,2) k by (simp add: word_less_nat_alt)
    then show ?thesis using 2 limit k by (simp add: Let_def)
  next
    case 3
    have "\<not> limit - 8 < p" using bk Suc.prems(1,2) k 3 by (simp add: word_less_nat_alt)
    then have eq: "find_deferred (Suc n) p limit m = find_deferred n p (limit - 8) m" using 3 by (simp add: Let_def)
    have "unat p + 8 * j = unat (limit - 8) + 8" using bk Suc.prems(1,2) k 3 by simp
    from Suc.IH [OF this Suc.prems(2)] Suc.prems(3) k 3
    obtain r where r: "find_deferred n p (limit - 8) m = Inr r"
      "case r of None \<Rightarrow> \<forall>i < j. \<not> plausible m (word_at m (p + 8 * word_of_nat i))
       | Some (w, l) \<Rightarrow> \<exists>i < j. w = word_at m (p + 8 * word_of_nat i) \<and> plausible m w \<and> unat p + 8 * i = unat l + 8 \<and>
         (\<forall>i'. i < i' \<and> i' < j \<longrightarrow> \<not> plausible m (word_at m (p + 8 * word_of_nat i')))" by auto
    have last: "\<not> plausible m (word_at m (p + 8 * word_of_nat j))" using 3(1) limit by simp
    have step: "i < k \<longleftrightarrow> i < j \<or> i = j" for i using k by auto
    show ?thesis
    proof (cases r)
      case None
      then show ?thesis using r last unfolding eq by (auto simp: step)
    next
      case (Some x)
      obtain w l where x: "x = (w, l)" by (cases x)
      obtain i where i: "i < j" "w = word_at m (p + 8 * word_of_nat i)" "plausible m w" "unat p + 8 * i = unat l + 8"
        "\<forall>i'. i < i' \<and> i' < j \<longrightarrow> \<not> plausible m (word_at m (p + 8 * word_of_nat i'))" using r(2) Some x by auto
      have "\<forall>i'. i < i' \<and> i' < k \<longrightarrow> \<not> plausible m (word_at m (p + 8 * word_of_nat i'))"
        using i(5) last by (auto simp: step)
      moreover have "i < k" using i(1) k by simp
      ultimately show ?thesis using r(1) i(2-4) Some x unfolding eq by (intro exI [of _ r]) auto
    qed
  qed
qed simp

lemma scan_range_visit:
  assumes m: "sane m" and c: "cache_ok c m" and k: "unat limit = unat p + 8 * k" "0 < k" "k < 129" and p: "8 \<le> unat p"
  shows "\<exists>c' m'. scan_range p limit (c, m) = Inr (c', m') \<and> visit (row p k) m c' m'"
proof -
  have "unat (limit - 8) = unat limit - 8" using unat_back [of 8 limit] k by simp
  then have "unat p + 8 * k = unat (limit - 8) + 8" using k by simp
  from find_deferred_spec [OF this p, of 129 m] k
  obtain r where r: "find_deferred 129 p (limit - 8) m = Inr r"
    "case r of
       None \<Rightarrow> \<forall>i < k. \<not> plausible m (word_at m (p + 8 * word_of_nat i))
     | Some (w, l) \<Rightarrow> \<exists>j < k. w = word_at m (p + 8 * word_of_nat j) \<and> plausible m w \<and> unat p + 8 * j = unat l + 8 \<and>
         (\<forall>i. j < i \<and> i < k \<longrightarrow> \<not> plausible m (word_at m (p + 8 * word_of_nat i)))" by auto
  show ?thesis
  proof (cases r)
    case None
    then have "visit ({} \<union> row p k) m c m" using r(2) by (intro visit_implausible visit_empty m c) (auto simp: row_def)
    then show ?thesis using r(1) None by (simp add: scan_range_def)
  next
    case (Some x)
    obtain w l where x: "x = (w, l)" by (cases x)
    obtain j where j: "j < k" "w = word_at m (p + 8 * word_of_nat j)" "plausible m w" "unat p + 8 * j = unat l + 8"
      "\<forall>i. j < i \<and> i < k \<longrightarrow> \<not> plausible m (word_at m (p + 8 * word_of_nat i))" using r(2) Some x by auto
    have "unat l + 8 < 2 ^ 64" using unsigned_less [of limit, where 'a = nat] j(1,4) k(1) by simp
    from scan_words_visit [OF m c j(4) this, of 129] j(1) k(3)
    obtain c1 m1 where 1: "scan_words 129 p l (c, m) = Inr (c1, m1)" "visit (row p j) m c1 m1" by auto
    note s = visit_D [OF 1(2)]
    let ?a = "p + 8 * word_of_nat j"
    have w: "word_at m1 ?a = w" using same_word_at [OF s(4)] j(2) by simp
    have "plausible m1 (word_at m1 ?a)" using j(3) same_plausible [OF s(4)] unfolding w by simp
    from push_contents_visit [OF s(5) s(2) this]
    obtain c2 m2 where 2: "PUSH_CONTENTS w (c1, m1) = Inr (c2, m2)" "visit {?a} m1 c2 m2" unfolding w by blast
    let ?B = "(\<lambda>i. p + 8 * word_of_nat i) ` {i. j < i \<and> i < k}"
    have "visit ((row p j \<union> {?a}) \<union> ?B) m c2 m2"
      using j(5) by (intro visit_implausible visit_trans [OF 1(2) 2(2)]) auto
    moreover have "{..<k} = {..<j} \<union> {j} \<union> {i. j < i \<and> i < k}" using j(1) by auto
    then have "row p j \<union> {?a} \<union> ?B = row p k" by (simp add: row_def image_Un)
    ultimately show ?thesis using 1(1) 2(1) r(1) Some x by (simp add: scan_range_def)
  qed
qed


section \<open>Taking an entry off the stack\<close>

definition entry_ok :: "u64 \<times> u64 \<Rightarrow> bool" where
  "entry_ok x = (case x of (p, d) \<Rightarrow> 8 \<le> unat p \<and> 8 \<le> unat d \<and> 8 dvd unat d \<and> unat p + unat d < 2 ^ 64)"

lemma object_entry_ok:
  assumes "sane m" "find_object m w = Some ob" "obj_descr m ob \<noteq> 0"
  shows "entry_ok (obj_base m ob, obj_descr m ob)"
proof -
  obtain e b where ob: "ob = (e, b)" by (cases ob)
  let ?h = "header_at (mk_gc m) e" and ?p = "HBLKPTR w"
  have h: "sound_header w ?h" "unat b < 256" using find_object_found [OF assms(1)] assms(2) ob by blast+
  then have d: "8 dvd unat (hb_descr ?h)" "unat ?p + 4096 + unat (hb_descr ?h) < 2 ^ 64" "hb_block ?h = ?p" "MAX_JUMP < ?p"
    by (simp_all add: sound_header_def)
  have "unat (16 * b) = 16 * unat b" using h(2) by (simp add: unat_word_ariths)
  then have "unat (?p + 16 * b) = unat ?p + 16 * unat b" using d(2) h(2) by (simp add: unat_word_ariths)
  moreover have "8 \<le> unat (hb_descr ?h)"
    using d(1) assms(3) ob by (intro dvd_imp_le) (simp_all add: obj_descr_def unat_gt_0)
  moreover have "4096 \<le> unat ?p" using d(4) by (simp add: word_less_nat_alt)
  ultimately show ?thesis using d h(2) ob by (simp add: entry_ok_def obj_base_def obj_descr_def)
qed

lemma tag_0:
  fixes d :: u64
  assumes "8 dvd unat d"
  shows "d AND 3 = 0" "d AND (NOT 1023 OR 3) \<noteq> 0 \<longleftrightarrow> 1024 \<le> unat d"
proof -
  have mask: "(3 :: u64) = mask 2" "(1023 :: u64) = mask 10" by (simp_all add: mask_eq_exp_minus_1)
  have "4 dvd unat d" using assms by (auto elim!: dvdE)
  then have "unat (d AND 3) = 0"
    unfolding mask take_bit_eq_mask [symmetric] by (simp add: take_bit_eq_mod unat_mod)
  then show 3: "d AND 3 = 0" by (simp add: unat_eq_zero)
  have "d AND NOT 1023 = 0 \<longleftrightarrow> unat d < 1024"
  proof
    assume "d AND NOT 1023 = 0"
    then have "push_bit 10 (drop_bit 10 d) = 0" unfolding mask and_not_mask .
    then have "take_bit 10 d = d" using bits_ident [of 10 d] by simp
    then have "unat (d mod 1024) = unat d" by (simp add: take_bit_eq_mod)
    then show "unat d < 1024" by (simp add: unat_mod)
  next
    assume "unat d < 1024"
    then have "unat (drop_bit 10 d) = 0" by (simp add: drop_bit_eq_div unat_div)
    then have "drop_bit 10 d = 0" by (simp add: unat_eq_zero)
    then show "d AND NOT 1023 = 0" unfolding mask and_not_mask by simp
  qed
  moreover have "d AND (NOT 1023 OR 3) = d AND NOT 1023" unfolding bit.conj_disj_distrib 3 by (rule or.right_neutral)
  ultimately show "d AND (NOT 1023 OR 3) \<noteq> 0 \<longleftrightarrow> 1024 \<le> unat d" by (simp only: not_less simp_thms flip: not_le)
qed

text \<open>The state in which the words of an entry are looked at: a long range leaves its rest behind.\<close>

definition taken :: "u64 \<Rightarrow> u64 \<Rightarrow> marker \<Rightarrow> marker \<times> nat" where
  "taken p d m = (if 1024 \<le> unat d then (push_entry (p + 1016) (d - 1016) m, 127) else (m, unat d div 8))"

lemma mark_entry_visit:
  assumes m: "sane m" and c: "cache_ok c m" and e: "entry_ok (p, d)" and t: "taken p d m = (m1, k)"
  shows "\<exists>c' m' x. mark_entry (Suc n) procs p d credit (c, m) = Inr (credit - x, c', m') \<and> 8 \<le> unat x \<and> unat x \<le> 1016 \<and>
    visit (row p k) m1 c' m'"
proof -
  have e': "8 \<le> unat p" "8 \<le> unat d" "8 dvd unat d" "unat p + unat d < 2 ^ 64" using e by (simp_all add: entry_ok_def)
  note tag = tag_0 [OF e'(3)]
  show ?thesis
  proof (cases "1024 \<le> unat d")
    case True
    have m1: "m1 = push_entry (p + 1016) (d - 1016) m" "k = 127" using t True by (simp_all add: taken_def)
    have s: "same m m1" "sane m1" using m by (simp_all add: m1 push_entry_def same_def sane_def)
    have "unat (p + 1016) = unat p + 8 * k" using unat_step [of p 1016] e'(4) True m1(2) by simp
    from scan_range_visit [OF s(2) cache_ok_same [OF s(1) c] this _ _ e'(1)] m1(2)
    obtain c' m' where "scan_range p (p + 1016) (c, m1) = Inr (c', m')" "visit (row p k) m1 c' m'" by auto
    then show ?thesis using tag True m1(1) by (intro exI [of _ c'] exI [of _ m'] exI [of _ 1016]) simp
  next
    case False
    have m1: "m1 = m" "k = unat d div 8" using t False by (simp_all add: taken_def)
    have "unat (p + d) = unat p + 8 * k" using unat_step [of p "unat d"] e'(3,4) m1(2) by (simp add: dvd_mult_div_cancel)
    moreover have "k < 129" using False m1(2) less_mult_imp_div_less [of "unat d" 129 8] by simp
    moreover have "0 < k" using e'(2) m1(2) by (simp add: div_greater_zero_iff)
    ultimately obtain c' m' where r: "scan_range p (p + d) (c, m) = Inr (c', m')" "visit (row p k) m c' m'"
      using scan_range_visit [OF m c _ _ _ e'(1)] by blast
    have "\<not> d < 8" using e'(2) by (simp add: word_less_nat_alt)
    moreover have "unat d \<le> 1016" using False e'(3) by (auto elim!: dvdE)
    ultimately show ?thesis using tag False m1(1) r e'(2) by (intro exI [of _ c'] exI [of _ m'] exI [of _ d]) simp
  qed
qed

lemma taken_words:
  assumes e: "entry_ok (p, d)" and t: "taken p d m = (m1, k)"
  shows "row p k \<subseteq> words p d" "words p d \<subseteq> row p k \<union> pending m1"
    and "x \<in> set (GC_mark_stack m1) \<Longrightarrow> x \<notin> set (GC_mark_stack m) \<Longrightarrow> entry_ok x \<and> words (fst x) (snd x) \<subseteq> words p d \<and> unat (snd x) < unat d"
proof -
  have e': "8 \<le> unat p" "8 \<le> unat d" "8 dvd unat d" "unat p + unat d < 2 ^ 64" using e by (simp_all add: entry_ok_def)
  have "row p k \<subseteq> words p d \<and> words p d \<subseteq> row p k \<union> pending m1 \<and>
    (x \<in> set (GC_mark_stack m1) \<longrightarrow> x \<notin> set (GC_mark_stack m) \<longrightarrow> entry_ok x \<and> words (fst x) (snd x) \<subseteq> words p d \<and> unat (snd x) < unat d)"
  proof (cases "1024 \<le> unat d")
    case True
    have m1: "m1 = push_entry (p + 1016) (d - 1016) m" "k = 127" using t True by (simp_all add: taken_def)
    have d: "unat (d - 1016) = unat d - 1016" using unat_back [of 1016 d] True by simp
    have p: "unat (p + 1016) = unat p + 1016" using unat_step [of p 1016] e'(4) True by simp
    have "127 + unat (d - 1016) div 8 = unat d div 8" using d True e'(3) by (auto elim!: dvdE)
    then have "words p d = row p 127 \<union> words (p + 1016) (d - 1016)" using row_add [of p 127 "unat (d - 1016) div 8"] by (simp add: words_row)
    moreover have "8 dvd unat d - 1016" using e'(3) by (intro dvd_diff_nat) simp_all
    then have "entry_ok (p + 1016, d - 1016)" using d p e' True by (simp add: entry_ok_def) arith
    ultimately show ?thesis using d True by (auto simp: m1 push_entry_def pending_def)
  next
    case False
    then show ?thesis using t by (auto simp: taken_def words_row)
  qed
  then show "row p k \<subseteq> words p d" "words p d \<subseteq> row p k \<union> pending m1"
    "x \<in> set (GC_mark_stack m1) \<Longrightarrow> x \<notin> set (GC_mark_stack m) \<Longrightarrow> entry_ok x \<and> words (fst x) (snd x) \<subseteq> words p d \<and> unat (snd x) < unat d"
    by blast+
qed


section \<open>The invariant of the marker\<close>

text \<open>What words at \<open>A\<close> lead to.\<close>

inductive reach :: "marker \<Rightarrow> u64 set \<Rightarrow> obj \<Rightarrow> bool" for m A where
  reach_start: "a \<in> A \<Longrightarrow> find_object m (word_at m a) = Some ob \<Longrightarrow> reach m A ob"
| reach_field: "reach m A ob' \<Longrightarrow> a \<in> obj_words m ob' \<Longrightarrow> find_object m (word_at m a) = Some ob \<Longrightarrow> reach m A ob"

definition reach_word :: "marker \<Rightarrow> u64 set \<Rightarrow> u64 \<Rightarrow> bool" where
  "reach_word m A a \<longleftrightarrow> a \<in> A \<or> (\<exists>ob. reach m A ob \<and> a \<in> obj_words m ob)"

lemma reach_wordD: "reach_word m A a \<Longrightarrow> find_object m (word_at m a) = Some ob \<Longrightarrow> reach m A ob"
  unfolding reach_word_def by (blast intro: reach.intros)

text \<open>Tracing from \<open>m0\<close>, where the ranges on the stack were \<open>A\<close>, has come to \<open>m\<close>.\<close>

definition covered :: "marker \<Rightarrow> u64 \<Rightarrow> bool" where
  "covered m a \<longleftrightarrow> a \<in> pending m \<or> seen m a"

definition tracing :: "u64 set \<Rightarrow> marker \<Rightarrow> marker \<Rightarrow> bool" where
  "tracing A m0 m \<longleftrightarrow>
     same m0 m \<and> sane m \<and> (\<forall>x \<in> set (GC_mark_stack m). entry_ok x) \<and> (\<forall>a \<in> pending m. reach_word m0 A a) \<and>
     (\<forall>ob. marked m0 ob \<longrightarrow> marked m ob) \<and> (\<forall>ob. marked m ob \<and> \<not> marked m0 ob \<longrightarrow> reach m0 A ob) \<and>
     (GC_mark_state m = MS_INVALID \<or>
        GC_mark_state m = GC_mark_state m0 \<and> (\<forall>a \<in> A. covered m a) \<and>
        (\<forall>ob. marked m ob \<and> \<not> marked m0 ob \<longrightarrow> (\<forall>a \<in> obj_words m0 ob. covered m a)))"

lemma tracing_step:
  assumes t: "tracing A m0 m" and st: "GC_mark_stack m = (p, d) # rest"
    and tk: "taken p d (m\<lparr>GC_mark_stack := rest\<rparr>) = (m1, k)" and v: "visit (row p k) m1 c' m'"
  shows "tracing A m0 m'"
proof -
  let ?m = "m\<lparr>GC_mark_stack := rest\<rparr>"
  have t': "same m0 m" "sane m" "\<And>x. x \<in> set (GC_mark_stack m) \<Longrightarrow> entry_ok x" "\<And>a. a \<in> pending m \<Longrightarrow> reach_word m0 A a"
    "\<And>ob. marked m0 ob \<Longrightarrow> marked m ob" "\<And>ob. marked m ob \<Longrightarrow> \<not> marked m0 ob \<Longrightarrow> reach m0 A ob"
    using t unfolding tracing_def by blast+
  have pend: "pending m = words p d \<union> pending ?m" using st by (simp add: pending_def)
  have e: "entry_ok (p, d)" using t'(3) st by simp
  note w = taken_words [OF e tk]
  have m1: "same ?m m1" "marked m1 = marked m" "GC_mark_state m1 = GC_mark_state m" "sane m1" "pending ?m \<subseteq> pending m1"
    using tk t'(2) by (auto simp: taken_def same_def marked_def sane_def push_entry_def pending_def fun_eq_iff split: if_splits)
  have s01: "same m0 m1" using t'(1) m1(1) by (simp add: same_def)
  note x = visit_D [OF v] and x1 = ext_D [OF visit_D(1) [OF v]]
  have s: "same m0 m'" by (rule same_trans [OF s01 x(4)])
  have entries: "entry_ok y \<and> words (fst y) (snd y) \<subseteq> pending m" if "y \<in> set (GC_mark_stack m1)" for y
  proof (cases "y \<in> set rest")
    case True
    then show ?thesis using t'(3) [of y] st by (auto simp: pending_def)
  next
    case False
    then show ?thesis using w(3) [OF that] pend by auto
  qed
  have fresh: "reach m0 A ob" if new: "marked m' ob" "\<not> marked m ob" for ob
  proof -
    obtain a where "a \<in> row p k" "find_object m1 (word_at m1 a) = Some ob" using x1(4) [of ob] new m1(2) by auto
    moreover from this have "reach_word m0 A a" using w(1) pend t'(4) by blast
    ultimately show ?thesis using reach_wordD by (simp add: find_object_same [OF s01] same_word_at [OF s01])
  qed
  have obs: "in_use (mk_gc m0) (fst ob) \<and> obj_base m1 ob = obj_base m0 ob \<and> obj_descr m1 ob = obj_descr m0 ob \<and> obj_words m1 ob = obj_words m0 ob"
    if "marked m' ob" for ob
    using marked_in_use [OF that] same_in_use [OF s] same_obj [OF s01] by simp
  have ents: "entry_ok y \<and> (\<forall>a \<in> words (fst y) (snd y). reach_word m0 A a)" if y: "y \<in> set (GC_mark_stack m')" for y
  proof (cases "y \<in> set (GC_mark_stack m1)")
    case True
    then show ?thesis using entries t'(4) by blast
  next
    case False
    then obtain ob where ob: "marked m' ob" "\<not> marked m1 ob" "obj_descr m1 ob \<noteq> 0" "y = (obj_base m1 ob, obj_descr m1 ob)"
      using x1(5) [OF y] by blast
    obtain a where "find_object m1 (word_at m1 a) = Some ob" using x1(4) [of ob] ob by auto
    then have "entry_ok y" using object_entry_ok [OF m1(4)] ob by blast
    moreover have "reach m0 A ob" using fresh ob m1(2) by simp
    moreover have "words (fst y) (snd y) = obj_words m0 ob" using obs [OF ob(1)] ob(4) by (simp add: obj_words_def)
    ultimately show ?thesis unfolding reach_word_def by blast
  qed
  have state: "GC_mark_state m' = MS_INVALID \<or>
      GC_mark_state m' = GC_mark_state m0 \<and> (\<forall>a \<in> A. covered m' a) \<and>
      (\<forall>ob. marked m' ob \<and> \<not> marked m0 ob \<longrightarrow> (\<forall>a \<in> obj_words m0 ob. covered m' a))"
  proof (cases "GC_mark_state m' = MS_INVALID")
    case valid: False
    note y = x1(6-8) [OF valid]
    have old: "GC_mark_state m = GC_mark_state m0" "\<And>a. a \<in> A \<Longrightarrow> covered m a"
      "\<And>ob a. marked m ob \<Longrightarrow> \<not> marked m0 ob \<Longrightarrow> a \<in> obj_words m0 ob \<Longrightarrow> covered m a"
      using t valid y(1) m1(3) unfolding tracing_def by auto
    have keep: "covered m' a" if "covered m a" for a
    proof (cases "a \<in> pending m")
      case True
      then have "a \<in> row p k \<or> a \<in> pending m1" using pend w(2) m1(5) by blast
      then show ?thesis using x(3) y(2) by (auto simp: covered_def)
    next
      case False
      then have "seen m a" using that by (simp add: covered_def)
      then have "seen m1 a" using m1(1,2) by (intro seen_mono [of m m1]) (simp_all add: same_def)
      then have "seen m' a" using x1(3) by (intro seen_mono [OF x(4)])
      then show ?thesis by (simp add: covered_def)
    qed
    have "covered m' a" if "marked m' ob" "\<not> marked m0 ob" "a \<in> obj_words m0 ob" for ob a
    proof (cases "marked m ob")
      case True
      then show ?thesis using keep old(3) that by blast
    next
      case False
      then show ?thesis using y(3) [OF that(1)] obs [OF that(1)] m1(2) that(3) by (auto simp: covered_def)
    qed
    then show ?thesis using y(1) m1(3) old(1,2) keep by auto
  qed simp
  have "marked m' ob" if "marked m0 ob" for ob using t'(5) [OF that] x1(3) m1(2) by simp
  moreover have "reach m0 A ob" if "marked m' ob" "\<not> marked m0 ob" for ob using t'(6) fresh that by blast
  moreover have "\<forall>a \<in> pending m'. reach_word m0 A a" using ents by (fastforce simp: pending_def)
  ultimately show ?thesis unfolding tracing_def using s x(5) ents state by blast
qed

section \<open>The loop ends\<close>

definition work :: "marker \<Rightarrow> nat \<times> nat" where
  "work m = (card {ob. \<not> marked m ob}, sum_list (map (unat \<circ> snd) (GC_mark_stack m)))"

definition less_work :: "marker \<Rightarrow> marker \<Rightarrow> bool" where
  "less_work m' m \<longleftrightarrow> fst (work m') < fst (work m) \<or> fst (work m') = fst (work m) \<and> snd (work m') < snd (work m)"

lemma less_work_trans: "less_work m'' m' \<Longrightarrow> less_work m' m \<Longrightarrow> less_work m'' m"
  by (auto simp: less_work_def)

lemma tracing_progress:
  assumes st: "GC_mark_stack m = (p, d) # rest" and e: "entry_ok (p, d)"
    and tk: "taken p d (m\<lparr>GC_mark_stack := rest\<rparr>) = (m1, k)" and v: "visit (row p k) m1 c' m'"
  shows "less_work m' m"
proof -
  have m1: "marked m1 = marked m" using tk by (auto simp: taken_def marked_def push_entry_def fun_eq_iff split: if_splits)
  have d: "8 \<le> unat d" using e by (simp add: entry_ok_def)
  have less: "snd (work m1) < snd (work m)"
    using tk st d unat_back [of 1016 d] by (auto simp: taken_def work_def push_entry_def split: if_splits)
  note x = ext_D [OF visit_D(1) [OF v]]
  show ?thesis
  proof (cases "\<forall>ob. marked m' ob \<longrightarrow> marked m1 ob")
    case True
    then have "marked m' = marked m" using x(3) m1 by (auto simp: fun_eq_iff)
    moreover have "GC_mark_stack m' = GC_mark_stack m1" using x(9) True by blast
    ultimately show ?thesis using less by (simp add: less_work_def work_def)
  next
    case False
    then have "{ob. \<not> marked m' ob} \<subset> {ob. \<not> marked m ob}" using x(3) m1 by auto
    then have "card {ob. \<not> marked m' ob} < card {ob. \<not> marked m ob}" by (intro psubset_card_mono) simp_all
    then show ?thesis by (simp add: less_work_def work_def)
  qed
qed


lemma sint_credit:
  fixes credit x :: u64
  assumes "0 \<le> sint credit" "sint credit \<le> 4096" "unat x \<le> 1016"
  shows "sint (credit - x) = sint credit - int (unat x)"
proof -
  have "uint x \<le> 1016" using assms(3) unfolding uint_nat by linarith
  moreover have "0 \<le> uint x" by simp
  ultimately have "sint x = uint x"
    unfolding sint_uint by (intro signed_take_bit_int_eq_self) (simp_all del: uint_ge_0 unsigned_greater_eq)
  then have x: "sint x = int (unat x)" by simp
  have "signed_take_bit 63 (sint credit - sint x) = sint credit - sint x"
    using assms \<open>uint x \<le> 1016\<close> \<open>0 \<le> uint x\<close> unfolding \<open>sint x = uint x\<close>
    by (intro signed_take_bit_int_eq_self) (simp_all del: uint_ge_0 unsigned_greater_eq)
  then show ?thesis using sint_word_ariths(2) [of credit x] by (simp add: x)
qed

lemma mark_loop_traces:
  assumes "tracing A m0 m" "cache_ok c m" "sint credit < 8 * (int n - 1)" "sint credit \<le> 4096" "0 < n"
  shows "\<exists>m'. mark_loop n procs credit (c, m) = Inr m' \<and> tracing A m0 m' \<and> (m' = m \<or> less_work m' m) \<and>
    (GC_mark_stack m \<noteq> [] \<and> 0 \<le> sint credit \<longrightarrow> less_work m' m)"
  using assms
proof (induction n arbitrary: c m credit)
  case (Suc n)
  consider "GC_mark_stack m = []" | "GC_mark_stack m \<noteq> []" "credit <s 0" | p d rest where "GC_mark_stack m = (p, d) # rest" "\<not> credit <s 0"
    by (cases "GC_mark_stack m") auto
  then show ?case
  proof cases
    case 2
    then obtain p d rest where "GC_mark_stack m = (p, d) # rest" by (cases "GC_mark_stack m") auto
    moreover have "sint credit < 0" using 2(2) by (simp add: word_sless_alt)
    ultimately show ?thesis using Suc.prems(1) 2(2) by simp
  next
    case (3 p d rest)
    let ?m = "m\<lparr>GC_mark_stack := rest\<rparr>"
    have credit: "0 \<le> sint credit" using 3(2) by (simp add: word_sless_alt)
    then obtain j where n: "n = Suc j" using Suc.prems(3) by (cases n) simp_all
    have e: "entry_ok (p, d)" using Suc.prems(1) 3(1) by (simp add: tracing_def)
    have "sane m" using Suc.prems(1) by (simp add: tracing_def)
    then have s: "same m ?m" "sane ?m" by (simp_all add: same_def sane_def)
    obtain m1 k where tk: "taken p d ?m = (m1, k)" by (cases "taken p d ?m") simp
    obtain c' m' x where r: "mark_entry n procs p d credit (c, ?m) = Inr (credit - x, c', m')" "8 \<le> unat x" "unat x \<le> 1016"
      "visit (row p k) m1 c' m'"
      using mark_entry_visit [OF s(2) cache_ok_same [OF s(1) Suc.prems(2)] e tk, of j procs credit] unfolding n by blast
    note t' = tracing_step [OF Suc.prems(1) 3(1) tk r(4)] and l = tracing_progress [OF 3(1) e tk r(4)]
    have "sint (credit - x) = sint credit - int (unat x)" by (rule sint_credit [OF credit Suc.prems(4) r(3)])
    moreover have "8 \<le> int (unat x)" using r(2) by linarith
    moreover have "a < 8 * (k - 1) \<and> a \<le> 4096" if "a = b - y" "8 \<le> y" "b < 8 * (1 + k - 1)" "b \<le> 4096" for a b k y :: int
      using that by auto
    ultimately have "sint (credit - x) < 8 * (int n - 1) \<and> sint (credit - x) \<le> 4096"
      using Suc.prems(3,4) unfolding of_nat_Suc by blast
    then have "sint (credit - x) < 8 * (int n - 1)" "sint (credit - x) \<le> 4096" by (blast+)
    from Suc.IH [OF t' visit_D(2) [OF r(4)] this] n
    obtain m'' where "mark_loop n procs (credit - x) (c', m') = Inr m''" "tracing A m0 m''" "m'' = m' \<or> less_work m'' m'" by auto
    moreover from this have "less_work m'' m" using l less_work_trans by blast
    ultimately show ?thesis using 3 r(1) by simp
  qed (use Suc.prems(1) in simp)
qed simp

lemma mark_from_traces:
  assumes t: "tracing A m0 m" and n: "514 \<le> rounds" and st: "GC_mark_stack m \<noteq> []"
  shows "\<exists>m'. GC_mark_from rounds procs m = Inr m' \<and> tracing A m0 m' \<and> less_work m' m"
proof -
  let ?m = "m\<lparr>GC_objects_are_marked := True\<rparr>"
  have marks: "marked ?m = marked m" by (simp add: marked_def fun_eq_iff)
  have s: "same m ?m" by (simp add: same_def)
  have "seen ?m a = seen m a" for a
    by (simp add: seen_def marks find_object_same [OF s] same_word_at [OF s])
  then have cov: "covered ?m a = covered m a" for a by (simp add: covered_def pending_def)
  have "same m0 ?m = same m0 m" by (simp add: same_def)
  moreover have "sane ?m = sane m" "pending ?m = pending m" by (simp_all add: sane_def pending_def)
  ultimately have t': "tracing A m0 ?m" using t by (simp add: tracing_def marks cov)
  have "sane ?m" using t' unfolding tracing_def by blast
  from mark_loop_traces [OF t' cache_ok_init [OF this], of HBLKSIZE rounds procs] n st
  obtain m' where "mark_loop rounds procs HBLKSIZE (INIT_HDR_CACHE, ?m) = Inr m'" "tracing A m0 m'" "less_work m' ?m" by auto
  moreover have "work ?m = work m" by (simp add: work_def marks)
  ultimately show ?thesis by (simp add: GC_mark_from_def less_work_def)
qed

lemma wf_less_work: "wf {(m', m). less_work m' m}"
proof -
  have "{(m', m). less_work m' m} = measures [fst \<circ> work, snd \<circ> work]" by (auto simp: less_work_def)
  then show ?thesis by simp
qed

lemma mark_until_empty_traces:
  assumes "tracing A m0 m" "514 \<le> rounds"
  shows "\<exists>k m'. (\<forall>n \<ge> k. mark_until_empty n rounds procs m = Inr m') \<and> tracing A m0 m' \<and> GC_mark_stack m' = []"
  using assms(1)
proof (induction m rule: wf_induct_rule [OF wf_less_work])
  case (1 m)
  show ?case
  proof (cases "GC_mark_stack m = []")
    case True
    have "mark_until_empty n rounds procs m = Inr m" if "1 \<le> n" for n using True that by (cases n) simp_all
    then show ?thesis using 1 True by blast
  next
    case False
    obtain m1 where m1: "GC_mark_from rounds procs m = Inr m1" "tracing A m0 m1" "less_work m1 m"
      using mark_from_traces [OF 1(2) assms(2) False] by blast
    obtain k m' where k: "\<And>n. k \<le> n \<Longrightarrow> mark_until_empty n rounds procs m1 = Inr m'" "tracing A m0 m'" "GC_mark_stack m' = []"
      using 1(1) [of m1] m1(2,3) by blast
    have "mark_until_empty n rounds procs m = Inr m'" if "Suc k \<le> n" for n
      using k(1) [of "n - 1"] m1(1) False that by (cases n) simp_all
    then show ?thesis using k(2,3) by blast
  qed
qed

lemma tracing_start:
  assumes "sane m" "\<And>x. x \<in> set (GC_mark_stack m) \<Longrightarrow> entry_ok x"
  shows "tracing (pending m) m m"
  using assms by (auto simp: tracing_def covered_def reach_word_def)

text \<open>With an empty stack the invariant is the closure of the marked objects.\<close>

lemma tracing_complete:
  assumes t: "tracing A m0 m" and st: "GC_mark_stack m = []" and ok: "GC_mark_state m \<noteq> MS_INVALID"
    and old: "\<And>ob a. marked m0 ob \<Longrightarrow> a \<in> obj_words m0 ob \<Longrightarrow> (\<exists>w. find_object m0 w = Some ob) \<Longrightarrow> a \<in> A \<or> seen m0 a"
    and r: "reach m0 A ob"
  shows "marked m ob"
proof -
  have s: "same m0 m" and mono: "\<And>ob. marked m0 ob \<Longrightarrow> marked m ob" using t unfolding tracing_def by blast+
  have A: "seen m a" if "a \<in> A" for a using t ok that st by (simp add: tracing_def covered_def pending_def)
  have hit: "marked m ob" if "seen m a" "find_object m0 (word_at m0 a) = Some ob" for a ob
    using that by (simp add: seen_def find_object_same [OF s] same_word_at [OF s])
  show ?thesis
    using r
  proof induction
    case (reach_start a ob)
    then show ?case using A hit by blast
  next
    case (reach_field ob' a ob)
    have "seen m a"
    proof (cases "marked m0 ob'")
      case True
      have "\<exists>w. find_object m0 w = Some ob'" using reach_field(1) by cases blast+
      from old [OF True reach_field(2) this] show ?thesis
      proof
        assume "seen m0 a"
        then show "seen m a" using mono by (intro seen_mono [OF s])
      qed (rule A)
    next
      case False
      then have "covered m a" using t ok reach_field(2,4) unfolding tracing_def by blast
      then show ?thesis using st by (simp add: covered_def pending_def)
    qed
    then show ?case using hit reach_field(3) by blast
  qed
qed


section \<open>What is marked in the end\<close>

text \<open>C19: Running the marker until its stack is empty always ends, and then, unless the stack overflowed
  on the way, every object that the ranges on the stack lead to, through any number of pointers, is
  marked; nothing but such objects was marked, and no mark was lost. The objects that were marked
  before have to satisfy the invariant of \<open>private/gc_pmark.h\<close>: they point to marked objects or have
  their words on the stack. The credit of one call of \<open>GC_mark_from\<close> is used up in 514 rounds.\<close>

theorem marking_follows_pointers:
  assumes "sane m" "\<forall>x \<in> set (GC_mark_stack m). entry_ok x" "514 \<le> rounds"
    and "\<forall>w ob. find_object m w = Some ob \<and> marked m ob \<longrightarrow> (\<forall>a \<in> obj_words m ob. covered m a)"
  shows "\<exists>k m'. (\<forall>n \<ge> k. mark_until_empty n rounds procs m = Inr m') \<and> GC_mark_stack m' = [] \<and>
    (\<forall>ob. marked m ob \<longrightarrow> marked m' ob) \<and> (\<forall>ob. marked m' ob \<longrightarrow> marked m ob \<or> reach m (pending m) ob) \<and>
    (GC_mark_state m' = MS_INVALID \<or> (\<forall>ob. reach m (pending m) ob \<longrightarrow> marked m' ob))"
proof -
  have "tracing (pending m) m m" using assms(1,2) by (intro tracing_start) blast+
  from mark_until_empty_traces [OF this assms(3)]
  obtain k m' where k: "\<forall>n \<ge> k. mark_until_empty n rounds procs m = Inr m'" "tracing (pending m) m m'" "GC_mark_stack m' = []"
    by blast
  have old: "a \<in> pending m \<or> seen m a" if "marked m ob" "a \<in> obj_words m ob" "\<exists>w. find_object m w = Some ob" for ob a
    using assms(4) that unfolding covered_def by blast
  have "marked m' ob" if "GC_mark_state m' \<noteq> MS_INVALID" "reach m (pending m) ob" for ob
    using old that(2) by (rule tracing_complete [OF k(2,3) that(1)])
  moreover have "(\<forall>ob. marked m ob \<longrightarrow> marked m' ob) \<and> (\<forall>ob. marked m' ob \<longrightarrow> marked m ob \<or> reach m (pending m) ob)"
    using k(2) unfolding tracing_def by blast
  ultimately show ?thesis using k(1,3) by blast
qed

text \<open>A heap with one block of objects of 16 bytes at 0x10000, the first of which points to the second; a
  root at 64 points to the first.\<close>

definition two_objects :: marker where
  "two_objects =
     \<lparr>mk_gc = initial_gc\<lparr>
        gc_mem := (\<lambda>_. 0)(64 := 0x10000, 0x10000 := 0x10010),
        gc_hdrs := [zero_hdr\<lparr>hb_block := 0x10000, hb_sz := 16, hb_descr := 16, hb_map := Some (new_map 1), hb_marks := [0, 0, 0, 0, 1]\<rparr>],
        bottom_indices :=
          [\<lparr>bi_index = replicate 1024 0, asc_link = None, desc_link = None, bi_key = 0, hash_link = 0\<rparr>,
           \<lparr>bi_index = (replicate 1024 0)[16 := 4096], asc_link = None, desc_link = None, bi_key = 0, hash_link = 0\<rparr>],
        GC_top_index := (replicate 2048 0)[0 := 1],
        GC_old_normal_bl := replicate 4096 0, GC_incomplete_normal_bl := replicate 4096 0\<rparr>,
      GC_mark_stack = [(64, 8)], GC_mark_stack_size = 4096, GC_mark_state = MS_ROOTS_PUSHED, GC_mark_stack_too_small = False,
      GC_objects_are_marked = False, GC_scan_ptr = 0, GC_least_plausible_heap_addr = 0x10000,
      GC_greatest_plausible_heap_addr = 0x11000, GC_valid_offsets = (replicate 4096 False)[0 := True]\<rparr>"

lemma two_objects_index: "sound_index (mk_gc two_objects)"
  by (auto simp: sound_index_def two_objects_def initial_gc_def less_Suc_eq nth_Cons' dest!: subsetD [OF set_update_subset_insert])

lemma two_objects_entry: "entry_of (mk_gc two_objects) p = (if drop_bit 12 p = 16 then 4096 else 0)"
proof -
  have page: "drop_bit 12 p = 16 \<longleftrightarrow> hi_of p = 0 \<and> slot_of p = 16"
  proof -
    have hi: "hi_of p = drop_bit 10 (drop_bit 12 p)" by (simp add: hi_of_def)
    have slot: "slot_of p = take_bit 10 (drop_bit 12 p)"
      unfolding slot_of_def take_bit_eq_mask by (simp add: mask_eq_exp_minus_1)
    show ?thesis
    proof
      assume "drop_bit 12 p = 16"
      then show "hi_of p = 0 \<and> slot_of p = 16" unfolding hi slot by simp
    next
      assume "hi_of p = 0 \<and> slot_of p = 16"
      then show "drop_bit 12 p = 16" unfolding hi slot using bits_ident [of 10 "drop_bit 12 p"] by (simp del: drop_bit_drop_bit)
    qed
  qed
  let ?top = "(replicate 2048 0)[0 := Suc 0]" and ?b0 = "replicate 1024 0 :: u64 list"
  have top: "GC_top_index (mk_gc two_objects) = ?top" by (simp add: two_objects_def)
  obtain b0 b1 where bis: "bottom_indices (mk_gc two_objects) = [b0, b1]" "bi_index b0 = ?b0" "bi_index b1 = ?b0[16 := 4096]"
    "bi_key b1 = 0" "hash_link b1 = 0" by (simp add: two_objects_def)
  have slot: "?b0[16 := 4096] ! unat (slot_of p) = (if slot_of p = 16 then 4096 else 0)"
    using slot_of_bound [of p] by (simp add: nth_list_update word_unat_eq_iff)
  have first: "?top ! unat (TL_HASH (hi_of p)) = (if TL_HASH (hi_of p) = 0 then Suc 0 else 0)"
    using TL_HASH_bound [of "hi_of p"] by (simp add: nth_list_update unat_eq_zero)
  have "GET_BI p (mk_gc two_objects) = Inr (if hi_of p = 0 then 1 else 0)"
  proof (cases "hi_of p = 0")
    case True
    then have "TL_HASH (hi_of p) = 0" by (simp add: TL_HASH_def)
    then show ?thesis using first True by (simp add: GET_BI_def top bis read_at_def deref_def)
  next
    case False
    then show ?thesis
      using first TL_HASH_bound [of "hi_of p"] by (cases "TL_HASH (hi_of p) = 0") (simp_all add: GET_BI_def top bis read_at_def deref_def Let_def)
  qed
  then have "HDR p (mk_gc two_objects) = Inr (if drop_bit 12 p = 16 then 4096 else 0)"
    using slot slot_of_bound [of p] unfolding page by (simp add: HDR_def read_at_def bis deref_def)
  then show ?thesis by (simp add: entry_of_def)
qed


abbreviation "block_header \<equiv> header_at (mk_gc two_objects) 4096"

lemma two_objects_header:
  "block_header = zero_hdr\<lparr>hb_block := 0x10000, hb_sz := 16, hb_descr := 16, hb_map := Some (new_map 1), hb_marks := [0, 0, 0, 0, 1]\<rparr>"
  by (simp add: two_objects_def header_at_def)

lemma two_objects_in_use: "in_use (mk_gc two_objects) e \<longleftrightarrow> e = 4096"
proof -
  obtain h where "gc_hdrs (mk_gc two_objects) = [h]" by (simp add: two_objects_def)
  then have "in_use (mk_gc two_objects) e \<longleftrightarrow> MAX_JUMP < e \<and> unat e - 4096 < 1 \<and> \<not> HBLK_IS_FREE block_header"
    by (auto simp: in_use_def header_at_def)
  moreover have "\<not> HBLK_IS_FREE block_header" by (simp add: two_objects_header HBLK_IS_FREE_def zero_hdr_def FREE_BLK_def)
  moreover have "MAX_JUMP < e \<and> unat e - 4096 < 1 \<longleftrightarrow> e = 4096"
    by (auto simp: word_less_nat_alt word_unat_eq_iff)
  ultimately show ?thesis by simp
qed

lemma new_map_1: "new_map 1 = replicate 256 0"
  by (simp add: new_map_def map_replicate_trivial word_mod_def flip: map_replicate_const)

lemma two_objects_sane: "sane two_objects"
proof -
  have "sound_header p block_header" if "drop_bit 12 p = 16" for p
  proof -
    have "HBLKPTR p = 0x10000"
      using and_not_mask [of p 12] that by (simp add: HBLKPTR_def mask_eq_exp_minus_1)
    then show ?thesis by (auto simp: sound_header_def two_objects_header new_map_1)
  qed
  then show ?thesis
    using two_objects_index by (simp add: sane_def two_objects_in_use two_objects_entry) (simp add: two_objects_def initial_gc_def)
qed

lemma two_objects_unmarked:
  assumes "find_object two_objects w = Some ob"
  shows "\<not> marked two_objects ob"
proof -
  obtain e b where ob: "ob = (e, b)" by (cases ob)
  have "in_use (mk_gc two_objects) e \<and> unat b < 256" using find_object_found [OF two_objects_sane] assms unfolding ob by blast
  then have e: "e = 4096" and b: "unat b div 64 < 4" by (simp_all add: two_objects_in_use less_mult_imp_div_less)
  have z: "[0, 0, 0, 0, 1] ! i = (0 :: u64)" if "i < 4" for i
  proof -
    from that consider "i = 0" | "i = 1" | "i = 2" | "i = 3" by linarith
    then show ?thesis by cases simp_all
  qed
  have marks: "hb_marks block_header = [0, 0, 0, 0, 1]" by (simp add: two_objects_header)
  then have "mark_bit_from_hdr block_header b \<noteq> Inr True" unfolding mark_bit_iff [of block_header, simplified marks, simplified] z [OF b] by simp
  then show ?thesis by (simp add: marked_def ob e)
qed

lemma two_objects_find:
  "find_object two_objects 0x10000 = Some (4096, 0)" "find_object two_objects 0x10010 = Some (4096, 1)"
proof -
  have r: "read_at (new_map 1) n = Inr 0" if "unat n < 256" for n using that by (simp add: new_map_1 read_at_def)
  have "plausible two_objects 0x10000" "plausible two_objects 0x10010" by (simp_all add: plausible_def two_objects_def)
  then show "find_object two_objects 0x10000 = Some (4096, 0)" "find_object two_objects 0x10010 = Some (4096, 1)"
    by (simp_all add: find_object_def two_objects_entry two_objects_in_use two_objects_header locate_def r Let_def
        HBLKDISPL_def BYTES_TO_GRANULES_def)
qed

lemma two_objects_reach: "reach two_objects (pending two_objects) (4096, 0)" "reach two_objects (pending two_objects) (4096, 1)"
proof -
  have "64 \<in> pending two_objects" by (simp add: pending_def words_row two_objects_def row_def)
  moreover have "word_at two_objects 64 = 0x10000" "word_at two_objects 0x10000 = 0x10010" by (simp_all add: word_at_def two_objects_def)
  ultimately show 0: "reach two_objects (pending two_objects) (4096, 0)" using two_objects_find(1) by (metis reach_start)
  have "0x10000 \<in> obj_words two_objects (4096, 0)"
    by (auto simp: obj_words_def obj_base_def obj_descr_def two_objects_header words_row row_def intro!: image_eqI [of _ _ 0])
  then show "reach two_objects (pending two_objects) (4096, 1)"
    using 0 two_objects_find(2) \<open>word_at two_objects 0x10000 = 0x10010\<close> by (metis reach_field)
qed

lemma marking_follows_pointers_witness:
  "\<exists>k m'. (\<forall>n \<ge> k. mark_until_empty n 514 (\<lambda>_ _ _. Inr) two_objects = Inr m') \<and> GC_mark_stack m' = [] \<and>
     (GC_mark_state m' = MS_INVALID \<or> marked m' (4096, 0) \<and> marked m' (4096, 1))"
proof -
  have "\<forall>x \<in> set (GC_mark_stack two_objects). entry_ok x" by (simp add: two_objects_def entry_ok_def)
  then obtain k m' where k: "\<forall>n \<ge> k. mark_until_empty n 514 (\<lambda>_ _ _. Inr) two_objects = Inr m'" "GC_mark_stack m' = []"
    "GC_mark_state m' = MS_INVALID \<or> (\<forall>ob. reach two_objects (pending two_objects) ob \<longrightarrow> marked m' ob)"
    using marking_follows_pointers [OF two_objects_sane _ order_refl] two_objects_unmarked by blast
  then show ?thesis using two_objects_reach by blast
qed


text \<open>One call of \<open>GC_mark_from\<close> on a stack that is not empty returns within 514 rounds of its loop, from
  a sane state to a sane state, and the work left is smaller in the lexicographic order: more objects
  are marked, or as many and the ranges on the stack have fewer bytes.\<close>

theorem mark_from_makes_progress:
  assumes "sane m" "\<forall>x \<in> set (GC_mark_stack m). entry_ok x" "514 \<le> rounds" "GC_mark_stack m \<noteq> []"
  shows "\<exists>m'. GC_mark_from rounds procs m = Inr m' \<and> sane m' \<and> (\<forall>x \<in> set (GC_mark_stack m'). entry_ok x) \<and> less_work m' m"
proof -
  have "tracing (pending m) m m" using assms(1,2) by (intro tracing_start) blast+
  from mark_from_traces [OF this assms(3,4)] show ?thesis unfolding tracing_def by blast
qed

lemma mark_from_makes_progress_witness:
  "\<exists>m'. GC_mark_from 514 (\<lambda>_ _ _. Inr) two_objects = Inr m' \<and> sane m' \<and> less_work m' two_objects"
proof -
  have "GC_mark_stack two_objects = [(64, 8)]" "entry_ok (64, 8)" by (simp_all add: two_objects_def entry_ok_def)
  then show ?thesis
    using mark_from_makes_progress [OF two_objects_sane _ order_refl, of "\<lambda>_ _ _. Inr"] by fastforce
qed

end
