(* ===== verification/Atomix_GC_Push.thy ===== *)
theory Atomix_GC_Push
  imports Atomix_GC_Mark Atomix_GC_Sweep
begin

unbundle bit_operations_syntax

text \<open>
  What puts entries on the mark stack before \<open>GC_mark_from\<close> runs, the rest of \<open>mark.c\<close>: single
  candidate pointers and ranges, found in roots and stacks, and the objects of a block that are
  marked already, from which marking starts again when the mark stack overflowed. Further the
  allocation of the mark stack, the valid displacements of \<open>obj_map.c\<close> and \<open>GC_base\<close> of \<open>misc.c\<close>.
  The sizes of objects are positive, so that the divisions are those of C.
\<close>

section \<open>Valid displacements\<close>

definition GC_register_displacement_inner :: "u64 \<Rightarrow> marker \<Rightarrow> marker res" where
  "GC_register_displacement_inner offset m =
     (if 4096 \<le> offset then Inl (Panic ''Bad argument to GC_register_displacement'')
      else andThen (read_at (GC_valid_offsets m) offset) (\<lambda>valid.
        if valid then Inr m
        else
          andThen (write_at (GC_valid_offsets m) offset True) (\<lambda>offsets.
          andThen (write_at (GC_modws_valid_offsets (mk_gc m)) (offset mod 8) True) (\<lambda>modws.
            Inr (m\<lparr>GC_valid_offsets := offsets, mk_gc := (mk_gc m)\<lparr>GC_modws_valid_offsets := modws\<rparr>\<rparr>)))))"

definition GC_initialize_offsets :: "marker \<Rightarrow> marker" where
  "GC_initialize_offsets m =
     (if GC_all_interior_pointers (mk_gc m) then m\<lparr>GC_valid_offsets := replicate 4096 True\<rparr>
      else m\<lparr>GC_valid_offsets := replicate 4096 False, mk_gc := (mk_gc m)\<lparr>GC_modws_valid_offsets := replicate 8 False\<rparr>\<rparr>)"

section \<open>Objects from addresses\<close>

text \<open>The header is looked up by the top-level macro in \<open>GC_find_header\<close> too, so it is \<open>HDR\<close>. The
  loop over forwarding counts is the one of the header cache, done at most once more.\<close>

definition GC_base :: "u64 \<Rightarrow> gc \<Rightarrow> u64 res" where
  "GC_base p s =
     andThen (HDR p s) (\<lambda>e.
       if e = 0 then Inr 0
       else
         andThen
           (if IS_FORWARDING_ADDR_OR_NIL e
            then andThen (forward_to_header (Suc (1024 * length (bottom_indices s))) (HBLKPTR p) e s)
                   (\<lambda>(h, hhdr). Inr (h, h, hhdr))
            else Inr (p, HBLKPTR p, e)) (\<lambda>(r, h, hhdr).
         andThen (get_hdr hhdr s) (\<lambda>hd.
           if HBLK_IS_FREE hd then Inr 0
           else
             let r = r AND NOT 7; sz = hb_sz hd; r = r - HBLKDISPL r mod sz; limit = r + sz
             in if h + HBLKSIZE < limit \<and> sz \<le> HBLKSIZE then Inr 0
                else if limit \<le> p then Inr 0
                else Inr r)))"

definition GC_is_heap_ptr :: "u64 \<Rightarrow> gc \<Rightarrow> bool res" where
  "GC_is_heap_ptr p s = andThen (HDR p s) (\<lambda>e. Inr (e \<noteq> 0))"

definition GC_size :: "u64 \<Rightarrow> gc \<Rightarrow> u64 res" where
  "GC_size p s = (if p = 0 then Inr 0 else andThen (hdr_of p s) (\<lambda>hhdr. Inr (hb_sz hhdr)))"

section \<open>The mark stack\<close>

definition GC_collection_in_progress :: "marker \<Rightarrow> bool" where
  "GC_collection_in_progress m \<longleftrightarrow> GC_mark_state m \<noteq> MS_NONE"

definition GC_invalidate_mark_state :: "marker \<Rightarrow> marker" where
  "GC_invalidate_mark_state m = m\<lparr>GC_mark_state := MS_INVALID, GC_mark_stack := []\<rparr>"

text \<open>There is a stack once its size is positive. The space of an old one goes back to the scratch
  space or the heap, which is not modelled.\<close>

definition alloc_mark_stack :: "nat \<Rightarrow> marker \<Rightarrow> marker res" where
  "alloc_mark_stack n m =
     (case scratch (mk_gc m) of
        (space, g) \<Rightarrow>
          let m1 = m\<lparr>mk_gc := g, GC_mark_stack_too_small := False, GC_mark_stack := []\<rparr>
          in if space then Inr (m1\<lparr>GC_mark_stack_size := n\<rparr>)
             else if GC_mark_stack_size m \<noteq> 0 then Inr m1
             else Inl (Panic ''No space for mark stack''))"

definition INITIAL_MARK_STACK_SIZE :: nat where
  "INITIAL_MARK_STACK_SIZE = 4096"

definition GC_mark_init :: "marker \<Rightarrow> marker res" where
  "GC_mark_init m = alloc_mark_stack INITIAL_MARK_STACK_SIZE m"

definition GC_push_all :: "u64 \<Rightarrow> u64 \<Rightarrow> marker \<Rightarrow> marker res" where
  "GC_push_all low high m =
     (let low = (low + 7) AND NOT 7; high = high AND NOT 7
      in if high \<le> low then Inr m
         else if GC_mark_stack_size m \<le> length (GC_mark_stack m) then Inl (Panic ''Unexpected mark stack overflow'')
         else Inr (push_entry low (high - low) m))"

section \<open>Candidate pointers\<close>

definition hdr_is_free :: "u64 \<Rightarrow> marker \<Rightarrow> bool res" where
  "hdr_is_free e m = andThen (get_hdr e (mk_gc m)) (\<lambda>h. Inr (HBLK_IS_FREE h))"

definition GC_mark_and_push :: "u64 \<Rightarrow> marker \<Rightarrow> marker res" where
  "GC_mark_and_push obj m =
     andThen (HDR obj (mk_gc m)) (\<lambda>e.
     andThen
       (if IS_FORWARDING_ADDR_OR_NIL e
        then if GC_all_interior_pointers (mk_gc m) then andThen (GC_base obj (mk_gc m)) (\<lambda>b. HDR b (mk_gc m)) else Inr 0
        else Inr e) (\<lambda>hhdr.
     andThen (if hhdr = 0 then Inr True else hdr_is_free hhdr m) (\<lambda>invalid.
       if invalid then lift_gc (GC_ADD_TO_BLACK_LIST_NORMAL obj) m
       else GC_push_contents_hdr obj hhdr True m)))"

definition GC_mark_and_push_stack :: "u64 \<Rightarrow> marker \<Rightarrow> marker res" where
  "GC_mark_and_push_stack p m =
     andThen (HDR p (mk_gc m)) (\<lambda>e.
     andThen
       (if IS_FORWARDING_ADDR_OR_NIL e
        then
          if e = 0 then Inr (p, 0)
          else andThen (GC_base p (mk_gc m)) (\<lambda>r. if r = 0 then Inr (r, 0) else andThen (HDR r (mk_gc m)) (\<lambda>e'. Inr (r, e')))
        else Inr (p, e)) (\<lambda>(r, hhdr).
       if hhdr = 0 then lift_gc (GC_add_to_black_list_stack p) m
       else andThen (hdr_is_free hhdr m) (\<lambda>free.
         if free then lift_gc (GC_ADD_TO_BLACK_LIST_NORMAL p) m
         else GC_push_contents_hdr r hhdr False m)))"

definition GC_PUSH_ONE_STACK :: "u64 \<Rightarrow> marker \<Rightarrow> marker res" where
  "GC_PUSH_ONE_STACK p m = (if plausible m p then GC_mark_and_push_stack p m else Inr m)"

definition GC_PUSH_ONE_HEAP :: "u64 \<Rightarrow> marker \<Rightarrow> marker res" where
  "GC_PUSH_ONE_HEAP p m = (if plausible m p then GC_mark_and_push p m else Inr m)"

text \<open>The loop \<open>for (p = b; p <= lim; p++)\<close> over words.\<close>

primrec push_eager :: "nat \<Rightarrow> u64 \<Rightarrow> u64 \<Rightarrow> marker \<Rightarrow> marker res" where
  "push_eager 0 lim p m = Inl Diverge"
| "push_eager (Suc n) lim p m =
     (if p \<le> lim then andThen (GC_PUSH_ONE_STACK (word_at m p) m) (push_eager n lim (p + 8)) else Inr m)"

definition GC_push_all_eager :: "u64 \<Rightarrow> u64 \<Rightarrow> marker \<Rightarrow> marker res" where
  "GC_push_all_eager low high m =
     (let b = (low + 7) AND NOT 7; t = high AND NOT 7
      in if high = 0 then Inr m else push_eager (Suc (unat (t - b) div 8)) (t - 8) b m)"

definition GC_push_all_stack :: "u64 \<Rightarrow> u64 \<Rightarrow> marker \<Rightarrow> marker res" where
  "GC_push_all_stack low high m =
     (if GC_all_interior_pointers (mk_gc m) \<and> int (length (GC_mark_stack m)) - 1 < int (GC_mark_stack_size m) - 512
      then GC_push_all low high m
      else GC_push_all_eager low high m)"

section \<open>Marked objects of a block\<close>

text \<open>The accelerators for objects of 1, 2 and 4 granules: the words of the first \<open>k\<close> granules at
  \<open>q\<close>, the bits of one mark word in steps of \<open>k\<close>, and the mark words of the block, which are read
  as the loop comes to them.\<close>

primrec push_words :: "nat \<Rightarrow> u64 \<Rightarrow> marker \<Rightarrow> marker res" where
  "push_words 0 q m = Inr m"
| "push_words (Suc n) q m = andThen (GC_PUSH_ONE_HEAP (word_at m q) m) (push_words n (q + 8))"

primrec push_bits :: "nat \<Rightarrow> nat \<Rightarrow> u64 \<Rightarrow> u64 \<Rightarrow> marker \<Rightarrow> marker res" where
  "push_bits 0 k mark_word q m = Inl Diverge"
| "push_bits (Suc n) k mark_word q m =
     (if mark_word = 0 then Inr m
      else andThen (if mark_word AND 1 \<noteq> 0 then push_words (2 * k) q m else Inr m)
             (push_bits n k (drop_bit k mark_word) (q + 16 * word_of_nat k)))"

primrec push_mark_words :: "nat \<Rightarrow> nat \<Rightarrow> u64 \<Rightarrow> u64 \<Rightarrow> u64 \<Rightarrow> u64 \<Rightarrow> marker \<Rightarrow> marker res" where
  "push_mark_words 0 k hhdr plim i p m = Inl Diverge"
| "push_mark_words (Suc n) k hhdr plim i p m =
     (if p < plim
      then
        andThen (get_hdr hhdr (mk_gc m)) (\<lambda>h.
        andThen (read_at (hb_marks h) i) (\<lambda>mark_word.
        andThen (push_bits 65 k mark_word p m) (push_mark_words n k hhdr plim (i + 1) (p + 1024))))
      else Inr m)"

definition GC_push_marked1 :: "u64 \<Rightarrow> u64 \<Rightarrow> marker \<Rightarrow> marker res" where
  "GC_push_marked1 h hhdr = push_mark_words 5 1 hhdr (h + HBLKSIZE) 0 h"

definition GC_push_marked2 :: "u64 \<Rightarrow> u64 \<Rightarrow> marker \<Rightarrow> marker res" where
  "GC_push_marked2 h hhdr = push_mark_words 5 2 hhdr (h + HBLKSIZE) 0 h"

definition GC_push_marked4 :: "u64 \<Rightarrow> u64 \<Rightarrow> marker \<Rightarrow> marker res" where
  "GC_push_marked4 h hhdr = push_mark_words 5 4 hhdr (h + HBLKSIZE) 0 h"

primrec push_objects :: "nat \<Rightarrow> hdr \<Rightarrow> u64 \<Rightarrow> u64 \<Rightarrow> u64 \<Rightarrow> marker \<Rightarrow> marker res" where
  "push_objects 0 hhdr lim p bit_no m = Inl Diverge"
| "push_objects (Suc n) hhdr lim p bit_no m =
     (if p \<le> lim
      then
        andThen (mark_bit_from_hdr hhdr bit_no) (\<lambda>marked.
          push_objects n hhdr lim (p + hb_sz hhdr) (bit_no + MARK_BIT_OFFSET (hb_sz hhdr)) (if marked then GC_push_obj p hhdr m else m))
      else Inr m)"

text \<open>The counter of rescuing pages is for log messages only and left out.\<close>

definition GC_push_marked :: "u64 \<Rightarrow> u64 \<Rightarrow> marker \<Rightarrow> marker res" where
  "GC_push_marked h hhdr m =
     andThen (get_hdr hhdr (mk_gc m)) (\<lambda>hd.
       if hb_descr hd = 0 \<or> GC_block_empty hd then Inr m
       else
         let m1 = m\<lparr>GC_objects_are_marked := True\<rparr>; sz = hb_sz hd; gran = BYTES_TO_GRANULES sz;
             lim = (if MAXOBJBYTES < sz then h else h + HBLKSIZE - sz)
         in if gran = 1 then GC_push_marked1 h hhdr m1
            else if gran = 2 then GC_push_marked2 h hhdr m1
            else if gran = 4 then GC_push_marked4 h hhdr m1
            else push_objects 258 hd lim h 0 m1)"

section \<open>Block after block\<close>

text \<open>The block at \<open>h\<close>, or the next one in use behind it.\<close>

definition block_or_next :: "u64 \<Rightarrow> marker \<Rightarrow> (u64 \<times> u64) res" where
  "block_or_next h m =
     andThen (HDR h (mk_gc m)) (\<lambda>e.
     andThen (if IS_FORWARDING_ADDR_OR_NIL e then Inr True else hdr_is_free e m) (\<lambda>skip.
       if skip
       then andThen (GC_next_block h False (mk_gc m)) (\<lambda>h'.
         if h' = 0 then Inr (0, 0) else andThen (HDR h' (mk_gc m)) (\<lambda>e'. Inr (h', e')))
       else Inr (h, e)))"

definition behind :: "u64 \<Rightarrow> u64 \<Rightarrow> marker \<Rightarrow> u64 res" where
  "behind h hhdr m = andThen (get_hdr hhdr (mk_gc m)) (\<lambda>hd. Inr (h + HBLKSIZE * OBJ_SZ_TO_BLOCKS (hb_sz hd)))"

definition GC_push_next_marked :: "u64 \<Rightarrow> marker \<Rightarrow> (u64 \<times> marker) res" where
  "GC_push_next_marked h m =
     andThen (block_or_next h m) (\<lambda>(h, hhdr).
       if h = 0 then Inr (0, m)
       else
         andThen (GC_push_marked h hhdr m) (\<lambda>m'.
         andThen (behind h hhdr m') (\<lambda>p. Inr (p, m'))))"

text \<open>Whether a page was written since the last look is for the operating system to say: \<open>dirty\<close>.\<close>

section \<open>Dirty pages\<close>

text \<open>Whether the mark stack is taken to be close to overflowing: the index of its top as a word,
  which is the largest word while the stack is empty.\<close>

definition stack_in_danger :: "marker \<Rightarrow> bool" where
  "stack_in_danger m \<longleftrightarrow> (3 * word_of_nat (GC_mark_stack_size m) div 4 :: u64) < word_of_nat (length (GC_mark_stack m)) - 1"

primrec push_selected_blocks :: "nat \<Rightarrow> (u64 \<Rightarrow> bool) \<Rightarrow> u64 \<Rightarrow> u64 \<Rightarrow> marker \<Rightarrow> marker res" where
  "push_selected_blocks 0 dirty high h m = Inl Diverge"
| "push_selected_blocks (Suc n) dirty high h m =
     (if h + HBLKSIZE \<le> high
      then
        if dirty h
        then if stack_in_danger m then GC_push_all h high m
             else andThen (GC_push_all h (h + HBLKSIZE) m) (push_selected_blocks n dirty high (h + HBLKSIZE))
        else push_selected_blocks n dirty high (h + HBLKSIZE) m
      else if h \<noteq> high \<and> dirty h then GC_push_all h high m
      else Inr m)"

definition GC_push_selected :: "(u64 \<Rightarrow> bool) \<Rightarrow> u64 \<Rightarrow> u64 \<Rightarrow> marker \<Rightarrow> marker res" where
  "GC_push_selected dirty low high m =
     (let low = (low + 7) AND NOT 7; high = high AND NOT 7; h = HBLKPTR (low + HBLKSIZE)
      in if high \<le> low then Inr m
         else if high \<le> h then if dirty (h - HBLKSIZE) then GC_push_all low high m else Inr m
         else if dirty (h - HBLKSIZE) \<and> stack_in_danger m then GC_push_all low high m
         else andThen (if dirty (h - HBLKSIZE) then GC_push_all low h m else Inr m)
                (push_selected_blocks (unat (divHBLKSZ (high - h)) + 1) dirty high h))"

definition GC_push_conditional :: "(u64 \<Rightarrow> bool) \<Rightarrow> bool \<Rightarrow> u64 \<Rightarrow> u64 \<Rightarrow> marker \<Rightarrow> marker res" where
  "GC_push_conditional dirty everything low high =
     (if everything then GC_push_all low high else GC_push_selected dirty low high)"

text \<open>The same for static data: \<open>vdb\<close> says whether the dirty bits are known for it too.\<close>

definition GC_push_conditional_static :: "bool \<Rightarrow> (u64 \<Rightarrow> bool) \<Rightarrow> bool \<Rightarrow> u64 \<Rightarrow> u64 \<Rightarrow> marker \<Rightarrow> marker res" where
  "GC_push_conditional_static vdb dirty everything low high =
     (if everything \<or> \<not> vdb then GC_push_all low high else GC_push_selected dirty low high)"

primrec any_page_dirty :: "nat \<Rightarrow> (u64 \<Rightarrow> bool) \<Rightarrow> u64 \<Rightarrow> u64 \<Rightarrow> bool res" where
  "any_page_dirty 0 dirty lim p = Inl Diverge"
| "any_page_dirty (Suc n) dirty lim p =
     (if p < lim then if dirty p then Inr True else any_page_dirty n dirty lim (p + HBLKSIZE) else Inr False)"

definition GC_block_was_dirty :: "(u64 \<Rightarrow> bool) \<Rightarrow> u64 \<Rightarrow> hdr \<Rightarrow> bool res" where
  "GC_block_was_dirty dirty h hhdr =
     (if hb_sz hhdr \<le> MAXOBJBYTES then Inr (dirty h)
      else any_page_dirty (unat (divHBLKSZ (hb_sz hhdr)) + 2) dirty (h + hb_sz hhdr) h)"

text \<open>The loops over blocks until one satisfies a test; the blocks have ascending addresses.\<close>

primrec next_block_with :: "nat \<Rightarrow> (u64 \<Rightarrow> hdr \<Rightarrow> bool res) \<Rightarrow> u64 \<Rightarrow> marker \<Rightarrow> (u64 \<times> u64) res" where
  "next_block_with 0 test h m = Inl Diverge"
| "next_block_with (Suc n) test h m =
     andThen (block_or_next h m) (\<lambda>(h, hhdr).
       if h = 0 then Inr (0, 0)
       else
         andThen (get_hdr hhdr (mk_gc m)) (\<lambda>hd.
         andThen (test h hd) (\<lambda>found.
           if found then Inr (h, hhdr) else andThen (behind h hhdr m) (\<lambda>p. next_block_with n test p m))))"

definition push_next_with :: "(u64 \<Rightarrow> hdr \<Rightarrow> bool res) \<Rightarrow> u64 \<Rightarrow> marker \<Rightarrow> (u64 \<times> marker) res" where
  "push_next_with test h m =
     andThen (next_block_with (Suc (length (gc_hdrs (mk_gc m)))) test h m) (\<lambda>(h, hhdr).
       if h = 0 then Inr (0, m)
       else
         andThen (GC_push_marked h hhdr m) (\<lambda>m'.
         andThen (behind h hhdr m') (\<lambda>p. Inr (p, m'))))"

definition GC_push_next_marked_dirty :: "(u64 \<Rightarrow> bool) \<Rightarrow> u64 \<Rightarrow> marker \<Rightarrow> (u64 \<times> marker) res" where
  "GC_push_next_marked_dirty dirty h m =
     (if \<not> GC_incremental (mk_gc m) then Inl (Panic ''Dirty bits not set up'')
      else push_next_with (GC_block_was_dirty dirty) h m)"

definition GC_push_next_marked_uncollectable :: "u64 \<Rightarrow> marker \<Rightarrow> (u64 \<times> marker) res" where
  "GC_push_next_marked_uncollectable h m = push_next_with (\<lambda>_ hd. Inr (hb_obj_kind hd = 2)) h m"

section \<open>Starting and clearing\<close>

definition GC_clear_marks :: "marker \<Rightarrow> marker res" where
  "GC_clear_marks m =
     andThen (lift_gc (GC_apply_to_all_blocks clear_marks_for_block) m)
       (\<lambda>m'. Inr (m'\<lparr>GC_objects_are_marked := False, GC_mark_state := MS_INVALID, GC_scan_ptr := 0\<rparr>))"

text \<open>Reading the dirty bits is left to the operating system.\<close>

definition GC_initiate_gc :: "marker \<Rightarrow> marker res" where
  "GC_initiate_gc m =
     (if GC_mark_state m = MS_NONE then Inr (m\<lparr>GC_mark_state := MS_PUSH_RESCUERS, GC_scan_ptr := 0\<rparr>)
      else if GC_mark_state m \<noteq> MS_INVALID then Inl (Panic ''Unexpected state'')
      else Inr (m\<lparr>GC_scan_ptr := 0\<rparr>))"

text \<open>Marking from one object as finalizers want it.\<close>

definition GC_normal_finalize_mark_proc :: "u64 \<Rightarrow> marker \<Rightarrow> marker res" where
  "GC_normal_finalize_mark_proc p m =
     andThen (HDR p (mk_gc m)) (\<lambda>e. andThen (get_hdr e (mk_gc m)) (\<lambda>h. Inr (GC_push_obj p h m)))"

end
