(* ===== verification/Atomix_GC_Roots.thy ===== *)
theory Atomix_GC_Roots
  imports Atomix_GC_Push
begin

unbundle bit_operations_syntax

text \<open>
  The roots of the collector, \<open>mark_rts.c\<close>: the table of static root sets with its hash index, the
  sorted table of ranges that are excluded from them, and what is pushed when marking starts. The
  configuration has one thread, a stack that grows down and no virtual dirty bits for static data.

  The tables are arrays of fixed size with the number of entries in use beside them; a pointer to
  an entry is its position. What the linker, the operating system and the machine decide (addresses
  of variables, data segments of dynamic libraries, registers and the stack pointer) is the
  environment, an argument.
\<close>

section \<open>State\<close>

record roots =
  r_start :: u64
  r_end :: u64
  r_next :: "nat option"
  r_tmp :: bool

record exclusion =
  e_start :: u64
  e_end :: u64

record collector =
  cl_marker :: marker
  GC_static_roots :: "roots list"
  n_root_sets :: nat
  GC_root_index :: "nat option list"
  GC_excl_table :: "exclusion list"
  GC_excl_table_entries :: u64
  GC_no_dls :: bool
  last_static_root_set :: nat
  last_tmp_root_set :: nat

definition MAX_ROOT_SETS :: nat where "MAX_ROOT_SETS = 2048"
definition MAX_EXCLUSIONS :: nat where "MAX_EXCLUSIONS = 512"
definition RT_SIZE :: nat where "RT_SIZE = 64"

definition lift_marker :: "(marker \<Rightarrow> marker res) \<Rightarrow> collector \<Rightarrow> collector res" where
  "lift_marker f c = andThen (f (cl_marker c)) (\<lambda>m. Inr (c\<lparr>cl_marker := m\<rparr>))"

definition add_root_size :: "u64 \<Rightarrow> collector \<Rightarrow> collector" where
  "add_root_size d c =
     (let m = cl_marker c; g = mk_gc m in c\<lparr>cl_marker := m\<lparr>mk_gc := g\<lparr>GC_root_size := GC_root_size g + d\<rparr>\<rparr>\<rparr>)"

definition root_at :: "nat \<Rightarrow> collector \<Rightarrow> roots res" where
  "root_at i c = deref (GC_static_roots c) i"

definition mod_root :: "nat \<Rightarrow> (roots \<Rightarrow> roots) \<Rightarrow> collector \<Rightarrow> collector res" where
  "mod_root i f c = andThen (root_at i c) (\<lambda>r. Inr (c\<lparr>GC_static_roots := (GC_static_roots c)[i := f r]\<rparr>))"

section \<open>Static root sets\<close>

text \<open>The sum over the sets in use, and the search for one that contains an address.\<close>

primrec root_size_from :: "nat \<Rightarrow> collector \<Rightarrow> nat \<Rightarrow> u64 \<Rightarrow> u64 res" where
  "root_size_from 0 c i sz = Inr sz"
| "root_size_from (Suc n) c i sz = andThen (root_at i c) (\<lambda>r. root_size_from n c (Suc i) (sz + (r_end r - r_start r)))"

definition GC_compute_root_size :: "collector \<Rightarrow> u64 res" where
  "GC_compute_root_size c = root_size_from (n_root_sets c) c 0 0"

definition in_root :: "u64 \<Rightarrow> roots \<Rightarrow> bool" where
  "in_root p r \<longleftrightarrow> r_start r \<le> p \<and> p < r_end r"

primrec root_set_of :: "nat \<Rightarrow> collector \<Rightarrow> nat \<Rightarrow> u64 \<Rightarrow> nat option res" where
  "root_set_of 0 c i p = Inr None"
| "root_set_of (Suc n) c i p = andThen (root_at i c) (\<lambda>r. if in_root p r then Inr (Some i) else root_set_of n c (Suc i) p)"

definition in_last :: "nat \<Rightarrow> u64 \<Rightarrow> collector \<Rightarrow> bool res" where
  "in_last i p c = (if i < n_root_sets c then andThen (root_at i c) (\<lambda>r. Inr (in_root p r)) else Inr False)"

definition GC_is_static_root :: "u64 \<Rightarrow> collector \<Rightarrow> (bool \<times> collector) res" where
  "GC_is_static_root p c =
     andThen (in_last (last_static_root_set c) p c) (\<lambda>hit.
       if hit then Inr (True, c)
       else andThen (root_set_of (n_root_sets c) c 0 p) (\<lambda>r.
         case r of Some i \<Rightarrow> Inr (True, c\<lparr>last_static_root_set := i\<rparr>) | None \<Rightarrow> Inr (False, c)))"

definition GC_is_tmp_root :: "u64 \<Rightarrow> collector \<Rightarrow> (bool \<times> collector) res" where
  "GC_is_tmp_root p c =
     andThen (in_last (last_tmp_root_set c) p c) (\<lambda>hit.
       if hit then andThen (root_at (last_tmp_root_set c) c) (\<lambda>r. Inr (r_tmp r, c))
       else andThen (root_set_of (n_root_sets c) c 0 p) (\<lambda>r.
         case r of
           Some i \<Rightarrow> andThen (root_at i c) (\<lambda>r. Inr (r_tmp r, c\<lparr>last_tmp_root_set := i\<rparr>))
         | None \<Rightarrow> Inr (False, c)))"

text \<open>The hash index.\<close>

definition rt_hash :: "u64 \<Rightarrow> u64" where
  "rt_hash addr =
     (let r = addr XOR drop_bit 48 addr; r = r XOR drop_bit 24 r; r = r XOR drop_bit 12 r; r = r XOR drop_bit 6 r
      in r AND 63)"

primrec root_on_chain :: "nat \<Rightarrow> u64 \<Rightarrow> nat option \<Rightarrow> collector \<Rightarrow> nat option res" where
  "root_on_chain 0 b p c = Inl Diverge"
| "root_on_chain (Suc n) b p c =
     (case p of
        None \<Rightarrow> Inr None
      | Some i \<Rightarrow> andThen (root_at i c) (\<lambda>r. if r_start r = b then Inr p else root_on_chain n b (r_next r) c))"

text \<open>A chain has at most as many entries as the table.\<close>

definition GC_roots_present :: "u64 \<Rightarrow> collector \<Rightarrow> nat option res" where
  "GC_roots_present b c =
     andThen (read_at (GC_root_index c) (rt_hash b)) (\<lambda>p. root_on_chain (Suc (length (GC_static_roots c))) b p c)"

definition add_roots_to_index :: "nat \<Rightarrow> collector \<Rightarrow> collector res" where
  "add_roots_to_index p c =
     andThen (root_at p c) (\<lambda>r.
       let h = rt_hash (r_start r)
       in andThen (read_at (GC_root_index c) h) (\<lambda>first.
          andThen (mod_root p (\<lambda>r. r\<lparr>r_next := first\<rparr>) c) (\<lambda>c1.
          andThen (write_at (GC_root_index c1) h (Some p)) (\<lambda>index. Inr (c1\<lparr>GC_root_index := index\<rparr>)))))"

text \<open>A new set behind the others.\<close>

definition append_root :: "u64 \<Rightarrow> u64 \<Rightarrow> bool \<Rightarrow> collector \<Rightarrow> collector res" where
  "append_root b e tmp c =
     (if n_root_sets c = MAX_ROOT_SETS then Inl (Panic ''Too many root sets'')
      else
        andThen (mod_root (n_root_sets c) (\<lambda>_. \<lparr>r_start = b, r_end = e, r_next = None, r_tmp = tmp\<rparr>) c) (\<lambda>c1.
        andThen (add_roots_to_index (n_root_sets c) c1) (\<lambda>c2.
          Inr ((add_root_size (e - b) c2)\<lparr>n_root_sets := Suc (n_root_sets c)\<rparr>))))"

definition GC_add_roots_inner :: "u64 \<Rightarrow> u64 \<Rightarrow> bool \<Rightarrow> collector \<Rightarrow> collector res" where
  "GC_add_roots_inner b e tmp c =
     (let b = (b + 7) AND NOT 7; e = e AND NOT 7
      in if e \<le> b then Inr c
         else andThen (GC_roots_present b c) (\<lambda>old.
           case old of
             None \<Rightarrow> append_root b e tmp c
           | Some i \<Rightarrow>
               andThen (root_at i c) (\<lambda>r.
                 if e \<le> r_end r then mod_root i (\<lambda>r. r\<lparr>r_tmp := r_tmp r \<and> tmp\<rparr>) c
                 else if r_tmp r = tmp \<or> \<not> tmp
                 then mod_root i (\<lambda>r. r\<lparr>r_end := e, r_tmp := tmp\<rparr>) (add_root_size (e - r_end r) c)
                 else append_root (r_end r) e tmp c)))"

definition GC_clear_roots :: "collector \<Rightarrow> collector" where
  "GC_clear_roots c =
     (let m = cl_marker c
      in c\<lparr>n_root_sets := 0, cl_marker := m\<lparr>mk_gc := (mk_gc m)\<lparr>GC_root_size := 0\<rparr>\<rparr>, GC_root_index := replicate RT_SIZE None\<rparr>)"

definition GC_remove_root_at_pos :: "nat \<Rightarrow> collector \<Rightarrow> collector res" where
  "GC_remove_root_at_pos i c =
     andThen (root_at i c) (\<lambda>r.
     andThen (root_at (n_root_sets c - 1) c) (\<lambda>l.
     andThen (mod_root i (\<lambda>r. r\<lparr>r_start := r_start l, r_end := r_end l, r_tmp := r_tmp l\<rparr>) (add_root_size (- (r_end r - r_start r)) c)) (\<lambda>c1.
       Inr (c1\<lparr>n_root_sets := n_root_sets c - 1\<rparr>))))"

primrec index_roots_from :: "nat \<Rightarrow> nat \<Rightarrow> collector \<Rightarrow> collector res" where
  "index_roots_from 0 i c = Inr c"
| "index_roots_from (Suc n) i c = andThen (add_roots_to_index i c) (index_roots_from n (Suc i))"

definition GC_rebuild_root_index :: "collector \<Rightarrow> collector res" where
  "GC_rebuild_root_index c = index_roots_from (n_root_sets c) 0 (c\<lparr>GC_root_index := replicate RT_SIZE None\<rparr>)"

text \<open>The loop that removes every set with a property; a set that takes the place of a removed one is
  looked at next.\<close>

primrec remove_roots_from :: "nat \<Rightarrow> (roots \<Rightarrow> bool) \<Rightarrow> nat \<Rightarrow> collector \<Rightarrow> collector res" where
  "remove_roots_from 0 P i c = Inl Diverge"
| "remove_roots_from (Suc n) P i c =
     (if i < n_root_sets c
      then andThen (root_at i c) (\<lambda>r.
        if P r then andThen (GC_remove_root_at_pos i c) (remove_roots_from n P i) else remove_roots_from n P (Suc i) c)
      else Inr c)"

definition remove_roots_with :: "(roots \<Rightarrow> bool) \<Rightarrow> collector \<Rightarrow> collector res" where
  "remove_roots_with P c =
     andThen (remove_roots_from (Suc (n_root_sets c)) P 0 c) (\<lambda>c1.
       if n_root_sets c1 < n_root_sets c then GC_rebuild_root_index c1 else Inr c1)"

definition GC_remove_tmp_roots :: "collector \<Rightarrow> collector res" where
  "GC_remove_tmp_roots = remove_roots_with r_tmp"

definition GC_remove_roots_inner :: "u64 \<Rightarrow> u64 \<Rightarrow> collector \<Rightarrow> collector res" where
  "GC_remove_roots_inner b e = remove_roots_with (\<lambda>r. b \<le> r_start r \<and> r_end r \<le> e)"

definition GC_remove_roots :: "u64 \<Rightarrow> u64 \<Rightarrow> collector \<Rightarrow> collector res" where
  "GC_remove_roots b e c = (if e AND NOT 7 \<le> (b + 7) AND NOT 7 then Inr c else GC_remove_roots_inner b e c)"

section \<open>Excluded ranges\<close>

definition GC_clear_exclusion_table :: "collector \<Rightarrow> collector" where
  "GC_clear_exclusion_table c = c\<lparr>GC_excl_table_entries := 0\<rparr>"

text \<open>The binary search; the interval halves, so 65 rounds do.\<close>

primrec excl_search :: "nat \<Rightarrow> u64 \<Rightarrow> u64 \<Rightarrow> u64 \<Rightarrow> exclusion list \<Rightarrow> u64 res" where
  "excl_search 0 low high addr t = Inl Diverge"
| "excl_search (Suc n) low high addr t =
     (if low < high
      then
        let mid = drop_bit 1 (low + high)
        in andThen (read_at t mid) (\<lambda>x. if e_end x \<le> addr then excl_search n (mid + 1) high addr t else excl_search n low mid addr t)
      else Inr low)"

definition GC_next_exclusion :: "u64 \<Rightarrow> collector \<Rightarrow> u64 option res" where
  "GC_next_exclusion start_addr c =
     andThen (excl_search 65 0 (GC_excl_table_entries c - 1) start_addr (GC_excl_table c)) (\<lambda>low.
     andThen (read_at (GC_excl_table c) low) (\<lambda>x. Inr (if e_end x \<le> start_addr then None else Some low)))"

text \<open>Entries from \<open>i - 1\<close> down move up by one, \<open>n\<close> of them.\<close>

primrec shift_up :: "nat \<Rightarrow> u64 \<Rightarrow> exclusion list \<Rightarrow> exclusion list res" where
  "shift_up 0 i t = Inr t"
| "shift_up (Suc n) i t = andThen (read_at t (i - 1)) (\<lambda>x. andThen (write_at t i x) (shift_up n (i - 1)))"

definition insert_exclusion :: "u64 \<Rightarrow> u64 \<Rightarrow> u64 option \<Rightarrow> collector \<Rightarrow> collector res" where
  "insert_exclusion start finish next_index c =
     (let entries = GC_excl_table_entries c
      in if MAX_EXCLUSIONS \<le> unat entries then Inl (Panic ''Too many exclusions'')
         else
           andThen
             (case next_index of
                None \<Rightarrow> Inr (entries, GC_excl_table c)
              | Some k \<Rightarrow> andThen (shift_up (unat (entries - k)) entries (GC_excl_table c)) (\<lambda>t. Inr (k, t))) (\<lambda>(k, t).
           andThen (write_at t k \<lparr>e_start = start, e_end = finish\<rparr>) (\<lambda>t'.
             Inr (c\<lparr>GC_excl_table := t', GC_excl_table_entries := entries + 1\<rparr>))))"

definition GC_exclude_static_roots_inner :: "u64 \<Rightarrow> u64 \<Rightarrow> collector \<Rightarrow> collector res" where
  "GC_exclude_static_roots_inner start finish c =
     andThen (if GC_excl_table_entries c = 0 then Inr None else GC_next_exclusion start c) (\<lambda>next_index.
       case next_index of
         None \<Rightarrow> insert_exclusion start finish None c
       | Some k \<Rightarrow>
           andThen (read_at (GC_excl_table c) k) (\<lambda>x.
             if e_start x < finish then Inl (Panic ''Exclusion ranges overlap'')
             else if e_start x = finish
             then andThen (write_at (GC_excl_table c) k (x\<lparr>e_start := start\<rparr>)) (\<lambda>t. Inr (c\<lparr>GC_excl_table := t\<rparr>))
             else insert_exclusion start finish (Some k) c))"

definition GC_exclude_static_roots :: "u64 \<Rightarrow> u64 \<Rightarrow> collector \<Rightarrow> collector res" where
  "GC_exclude_static_roots b e c =
     (if b = e then Inr c
      else
        let b = b AND NOT 7; e = (e + 7) AND NOT 7; e = (if e = 0 then NOT 7 else e)
        in GC_exclude_static_roots_inner b e c)"

text \<open>What is done with a range is \<open>push\<close>: the ranges are pushed as they are unless only those written
  since the last collection are wanted and the dirty bits of static data are known. A round passes an
  excluded range, so there are at most as many as the table has entries, and one more.\<close>

primrec push_with_exclusions :: "(u64 \<Rightarrow> u64 \<Rightarrow> marker \<Rightarrow> marker res) \<Rightarrow> nat \<Rightarrow> u64 \<Rightarrow> u64 \<Rightarrow> collector \<Rightarrow> collector res" where
  "push_with_exclusions push 0 low high c = Inl Diverge"
| "push_with_exclusions push (Suc n) low high c =
     (if low < high
      then
        andThen (GC_next_exclusion low c) (\<lambda>next_index.
          case next_index of
            None \<Rightarrow> lift_marker (push low high) c
          | Some k \<Rightarrow>
              andThen (read_at (GC_excl_table c) k) (\<lambda>x.
                if high \<le> e_start x then lift_marker (push low high) c
                else
                  andThen (if low < e_start x then lift_marker (push low (e_start x)) c else Inr c)
                    (push_with_exclusions push n (e_end x) high)))
      else Inr c)"

definition GC_push_conditional_with_exclusions :: "bool \<Rightarrow> (u64 \<Rightarrow> bool) \<Rightarrow> u64 \<Rightarrow> u64 \<Rightarrow> bool \<Rightarrow> collector \<Rightarrow> collector res" where
  "GC_push_conditional_with_exclusions vdb dirty low high everything c =
     push_with_exclusions (GC_push_conditional_static vdb dirty everything) (MAX_EXCLUSIONS + 2) low high c"

section \<open>Stacks\<close>

definition GC_push_all_stack_partially_eager :: "u64 \<Rightarrow> u64 \<Rightarrow> u64 \<Rightarrow> marker \<Rightarrow> marker res" where
  "GC_push_all_stack_partially_eager low high cold_gc_frame m =
     (if GC_all_interior_pointers (mk_gc m)
      then
        if cold_gc_frame = 0 then GC_push_all_stack low high m
        else andThen (GC_push_all (cold_gc_frame - 8) high m) (GC_push_all_eager low cold_gc_frame)
      else GC_push_all_eager low high m)"

text \<open>The traced sections of the stack from the innermost: the address of each and the stack pointer
  that was saved there.\<close>

fun GC_push_all_stack_part_eager_sections :: "u64 \<Rightarrow> u64 \<Rightarrow> u64 \<Rightarrow> (u64 \<times> u64) list \<Rightarrow> marker \<Rightarrow> marker res" where
  "GC_push_all_stack_part_eager_sections lo hi cold_gc_frame [] m = GC_push_all_stack_partially_eager lo hi cold_gc_frame m"
| "GC_push_all_stack_part_eager_sections lo hi cold_gc_frame ((sect, saved_stack_ptr) # sects) m =
     andThen (GC_push_all_stack_partially_eager lo sect cold_gc_frame m)
       (GC_push_all_stack_part_eager_sections saved_stack_ptr hi 0 sects)"

section \<open>All roots\<close>

text \<open>The environment: how the data segments of dynamic libraries are registered, the address of the
  free lists of a kind, the variables of the finalizers, the hooks for typed objects and other
  roots, the registers that were saved on the stack with the stack pointer, the base of the stack,
  the traced sections, and whether the dirty bits of static data are known
  (\<open>GC_is_vdb_for_static_roots\<close>). A hook that is not set does nothing.\<close>

record environment =
  register_dynamic_libraries :: "collector \<Rightarrow> collector res"
  freelist_address :: "nat \<Rightarrow> u64"
  finalizer_structures :: "(u64 \<times> u64) list"
  push_typed_structures :: "marker \<Rightarrow> marker res"
  push_other_roots :: "marker \<Rightarrow> marker res"
  stack_pointer :: u64
  GC_stackbottom :: u64
  GC_traced_stack_sect :: "(u64 \<times> u64) list"
  vdb_for_static_roots :: bool

definition GC_cond_register_dynamic_libraries :: "environment \<Rightarrow> collector \<Rightarrow> collector res" where
  "GC_cond_register_dynamic_libraries env c =
     andThen (GC_remove_tmp_roots c) (\<lambda>c1. if GC_no_dls c1 then Inr c1 else register_dynamic_libraries env c1)"

definition GC_push_current_stack :: "environment \<Rightarrow> u64 \<Rightarrow> marker \<Rightarrow> marker res" where
  "GC_push_current_stack env cold_gc_frame =
     GC_push_all_stack_part_eager_sections (stack_pointer env) (GC_stackbottom env) cold_gc_frame (GC_traced_stack_sect env)"

fun push_ranges :: "(u64 \<times> u64) list \<Rightarrow> marker \<Rightarrow> marker res" where
  "push_ranges [] m = Inr m"
| "push_ranges ((low, high) # rs) m = andThen (GC_push_all_eager low high m) (push_ranges rs)"

definition GC_push_finalizer_structures :: "environment \<Rightarrow> marker \<Rightarrow> marker res" where
  "GC_push_finalizer_structures env = push_ranges (finalizer_structures env)"

primrec push_root_sets :: "bool \<Rightarrow> (u64 \<Rightarrow> bool) \<Rightarrow> bool \<Rightarrow> nat \<Rightarrow> nat \<Rightarrow> collector \<Rightarrow> collector res" where
  "push_root_sets vdb dirty everything 0 i c = Inr c"
| "push_root_sets vdb dirty everything (Suc n) i c =
     andThen (root_at i c) (\<lambda>r.
     andThen (GC_push_conditional_with_exclusions vdb dirty (r_start r) (r_end r) everything c)
       (push_root_sets vdb dirty everything n (Suc i)))"

primrec mark_free_lists :: "nat \<Rightarrow> nat \<Rightarrow> environment \<Rightarrow> marker \<Rightarrow> marker res" where
  "mark_free_lists 0 kind env m = Inr m"
| "mark_free_lists (Suc n) kind env m =
     andThen (GC_base (freelist_address env kind) (mk_gc m)) (\<lambda>base.
     andThen (if base \<noteq> 0 then lift_gc (GC_set_mark_bit base) m else Inr m) (mark_free_lists n (Suc kind) env))"

definition GC_push_roots :: "environment \<Rightarrow> (u64 \<Rightarrow> bool) \<Rightarrow> bool \<Rightarrow> u64 \<Rightarrow> collector \<Rightarrow> collector res" where
  "GC_push_roots env dirty everything cold_gc_frame c =
     andThen (GC_cond_register_dynamic_libraries env c) (\<lambda>c1.
     andThen (push_root_sets (vdb_for_static_roots env) dirty everything (n_root_sets c1) 0 c1) (\<lambda>c2.
     andThen (lift_marker (mark_free_lists (length (GC_obj_kinds (mk_gc (cl_marker c2)))) 0 env) c2) (\<lambda>c3.
     andThen (lift_marker (GC_push_finalizer_structures env) c3) (\<lambda>c4.
     andThen (lift_marker (push_typed_structures env) c4) (\<lambda>c5.
     andThen (lift_marker (GC_push_current_stack env cold_gc_frame) c5) (lift_marker (push_other_roots env)))))))"

end
