(* ===== verification/Atomix_GC_Root_Laws.thy ===== *)
theory Atomix_GC_Root_Laws
  imports Atomix_GC_Roots "HOL-Library.Multiset"
begin

unbundle bit_operations_syntax

text \<open>
  The tables of \<open>mark_rts.c\<close>: the root sets as a multiset of ranges, of which adding and removing
  are refinements, with the hash index and the total size kept in step; the excluded ranges as a
  sorted list without overlaps, in which the binary search finds what it should; and what is left
  of a range when the excluded ones are taken out.
\<close>

section \<open>Root sets as ranges\<close>

type_synonym root_range = "u64 \<times> u64 \<times> bool"

definition core :: "roots \<Rightarrow> root_range" where
  "core r = (r_start r, r_end r, r_tmp r)"

definition live :: "collector \<Rightarrow> root_range list" where
  "live c = map core (take (n_root_sets c) (GC_static_roots c))"

definition range_sum :: "root_range list \<Rightarrow> u64" where
  "range_sum xs = (\<Sum>(b, e, _) \<leftarrow> xs. e - b)"

definition root_size :: "collector \<Rightarrow> u64" where
  "root_size c = GC_root_size (mk_gc (cl_marker c))"

text \<open>The addresses in the root sets, and in those that are not temporary.\<close>

definition addresses :: "root_range list \<Rightarrow> u64 set" where
  "addresses xs = {p. \<exists>(b, e, _) \<in> set xs. b \<le> p \<and> p < e}"

definition permanent :: "root_range list \<Rightarrow> u64 set" where
  "permanent xs = {p. \<exists>(b, e, t) \<in> set xs. \<not> t \<and> b \<le> p \<and> p < e}"

section \<open>The hash index\<close>

fun root_chain :: "roots list \<Rightarrow> nat option \<Rightarrow> nat list \<Rightarrow> bool" where
  "root_chain rs None [] \<longleftrightarrow> True"
| "root_chain rs (Some i) (j # js) \<longleftrightarrow> j = i \<and> i < length rs \<and> root_chain rs (r_next (rs ! i)) js"
| "root_chain rs _ _ \<longleftrightarrow> False"

definition hash_of :: "roots list \<Rightarrow> nat \<Rightarrow> nat" where
  "hash_of rs i = unat (rt_hash (r_start (rs ! i)))"

definition index_ok :: "roots list \<Rightarrow> nat \<Rightarrow> nat option list \<Rightarrow> bool" where
  "index_ok rs n ix \<longleftrightarrow> length ix = 64 \<and>
     (\<forall>h < 64. \<exists>xs. root_chain rs (ix ! h) xs \<and> distinct xs \<and> set xs = {i. i < n \<and> hash_of rs i = h})"

text \<open>The invariant of the table.\<close>

definition roots_ok :: "collector \<Rightarrow> bool" where
  "roots_ok c \<longleftrightarrow>
     length (GC_static_roots c) = MAX_ROOT_SETS \<and> n_root_sets c \<le> MAX_ROOT_SETS \<and>
     index_ok (GC_static_roots c) (n_root_sets c) (GC_root_index c) \<and>
     root_size c = range_sum (live c) \<and> (\<forall>(b, e, _) \<in> set (live c). b < e)"

lemma rt_hash_bound: "unat (rt_hash a) < 64"
proof -
  have "rt_hash a \<le> 63" unfolding rt_hash_def Let_def by (rule word_and_le1)
  then show ?thesis by (simp add: word_le_nat_alt)
qed

lemma root_chain_cong:
  assumes "root_chain rs p xs" "length rs' = length rs" "\<And>i. i \<in> set xs \<Longrightarrow> r_next (rs' ! i) = r_next (rs ! i)"
  shows "root_chain rs' p xs"
  using assms by (induction rs p xs rule: root_chain.induct) auto

lemma index_ok_cong:
  assumes "index_ok rs n ix" "length rs' = length rs"
    and "\<And>i. i < n \<Longrightarrow> r_next (rs' ! i) = r_next (rs ! i) \<and> r_start (rs' ! i) = r_start (rs ! i)"
  shows "index_ok rs' n ix"
proof -
  have "{i. i < n \<and> hash_of rs' i = h} = {i. i < n \<and> hash_of rs i = h}" for h
    using assms(3) by (auto simp: hash_of_def)
  moreover have "root_chain rs' p xs" if "root_chain rs p xs" "set xs = {i. i < n \<and> hash_of rs i = h}" for p xs h
    using that assms by (intro root_chain_cong [OF that(1)]) auto
  ultimately show ?thesis using assms(1) unfolding index_ok_def by metis
qed

lemma index_ok_add:
  assumes ok: "index_ok rs n ix" and n: "n < length rs" and h: "h = hash_of rs n"
  shows "index_ok (rs[n := (rs ! n)\<lparr>r_next := ix ! h\<rparr>]) (Suc n) (ix[h := Some n])"
  unfolding index_ok_def
proof (intro conjI allI impI)
  let ?rs = "rs[n := (rs ! n)\<lparr>r_next := ix ! h\<rparr>]"
  show "length (ix[h := Some n]) = 64" using ok by (simp add: index_ok_def)
  fix k :: nat
  assume k: "k < 64"
  have hash: "hash_of ?rs i = hash_of rs i" for i using n by (cases "i = n") (simp_all add: hash_of_def)
  obtain xs where xs: "root_chain rs (ix ! k) xs" "distinct xs" "set xs = {i. i < n \<and> hash_of rs i = k}"
    using ok k unfolding index_ok_def by blast
  have "n \<notin> set xs" using xs(3) by simp
  then have keep: "root_chain ?rs (ix ! k) xs"
    by (intro root_chain_cong [OF xs(1)]) (simp, metis nth_list_update_neq)
  have len: "length ix = 64" using ok by (simp add: index_ok_def)
  show "\<exists>xs. root_chain ?rs (ix[h := Some n] ! k) xs \<and> distinct xs \<and> set xs = {i. i < Suc n \<and> hash_of ?rs i = k}"
  proof (cases "k = h")
    case True
    have "root_chain ?rs (Some n) (n # xs)" using keep n True by simp
    moreover have "set (n # xs) = {i. i < Suc n \<and> hash_of ?rs i = k}" unfolding hash using xs(3) h True by (auto simp: less_Suc_eq)
    moreover have "distinct (n # xs)" using xs(2) \<open>n \<notin> set xs\<close> by simp
    moreover have "ix[h := Some n] ! k = Some n" using True len k by simp
    ultimately show ?thesis by metis
  next
    case False
    then have "set xs = {i. i < Suc n \<and> hash_of ?rs i = k}" unfolding hash using xs(3) h by (auto simp: less_Suc_eq)
    then show ?thesis using keep xs(2) False by (intro exI [of _ xs]) simp
  qed
qed

lemma index_ok_empty: "index_ok rs 0 (replicate RT_SIZE None)"
  by (auto simp: index_ok_def RT_SIZE_def intro!: exI [of _ "[]"])

text \<open>The walk along a chain finds the first set that starts at \<open>b\<close>.\<close>

lemma root_on_chain_spec:
  assumes "root_chain (GC_static_roots c) p xs" "length xs < n"
  shows "\<exists>r. root_on_chain n b p c = Inr r \<and>
    (case r of
       None \<Rightarrow> \<forall>i \<in> set xs. r_start (GC_static_roots c ! i) \<noteq> b
     | Some i \<Rightarrow> i \<in> set xs \<and> r_start (GC_static_roots c ! i) = b)"
  using assms
proof (induction n arbitrary: p xs)
  case (Suc n)
  show ?case
  proof (cases p)
    case None
    then show ?thesis using Suc.prems(1) by (cases xs) simp_all
  next
    case (Some i)
    then obtain js where xs: "xs = i # js" "i < length (GC_static_roots c)" "root_chain (GC_static_roots c) (r_next (GC_static_roots c ! i)) js"
      using Suc.prems(1) by (cases xs) auto
    show ?thesis
    proof (cases "r_start (GC_static_roots c ! i) = b")
      case True
      then show ?thesis using Some xs by (simp add: root_at_def deref_def)
    next
      case False
      obtain r where r: "root_on_chain n b (r_next (GC_static_roots c ! i)) c = Inr r"
        "case r of None \<Rightarrow> \<forall>i \<in> set js. r_start (GC_static_roots c ! i) \<noteq> b
         | Some i \<Rightarrow> i \<in> set js \<and> r_start (GC_static_roots c ! i) = b"
        using Suc.IH [OF xs(3)] Suc.prems(2) xs(1) by auto
      then show ?thesis using False Some xs by (auto simp: root_at_def deref_def split: option.splits)
    qed
  qed
qed simp

lemma roots_present_spec:
  assumes "roots_ok c"
  shows "\<exists>r. GC_roots_present b c = Inr r \<and>
    (case r of
       None \<Rightarrow> \<forall>i < n_root_sets c. r_start (GC_static_roots c ! i) \<noteq> b
     | Some i \<Rightarrow> i < n_root_sets c \<and> r_start (GC_static_roots c ! i) = b)"
proof -
  let ?rs = "GC_static_roots c" and ?ix = "GC_root_index c" and ?h = "unat (rt_hash b)"
  have ok: "index_ok ?rs (n_root_sets c) ?ix" "n_root_sets c \<le> length ?rs" using assms by (simp_all add: roots_ok_def)
  obtain xs where xs: "root_chain ?rs (?ix ! ?h) xs" "distinct xs" "set xs = {i. i < n_root_sets c \<and> hash_of ?rs i = ?h}"
    using ok(1) rt_hash_bound unfolding index_ok_def by blast
  have "length xs = card (set xs)" using distinct_card [OF xs(2)] by simp
  also have "\<dots> \<le> card {..<n_root_sets c}" unfolding xs(3) by (intro card_mono) auto
  finally have "length xs < Suc (length ?rs)" using ok(2) by simp
  from root_on_chain_spec [OF xs(1) this, of b]
  obtain r where r: "root_on_chain (Suc (length ?rs)) b (?ix ! ?h) c = Inr r"
    "case r of None \<Rightarrow> \<forall>i \<in> set xs. r_start (?rs ! i) \<noteq> b | Some i \<Rightarrow> i \<in> set xs \<and> r_start (?rs ! i) = b" by blast
  have "read_at ?ix (rt_hash b) = Inr (?ix ! ?h)" using ok(1) rt_hash_bound by (simp add: read_at_def index_ok_def)
  then have "GC_roots_present b c = Inr r" using r(1) by (simp add: GC_roots_present_def)
  moreover have "r_start (?rs ! i) \<noteq> b" if "i < n_root_sets c" "i \<notin> set xs" for i
    using that xs(3) by (auto simp: hash_of_def)
  ultimately show ?thesis using r(2) xs(3) by (cases r) auto
qed


section \<open>Adding\<close>

lemma deref_less: "i < length xs \<Longrightarrow> deref xs i = Inr (xs ! i)"
  by (simp add: deref_def)

lemma add_root_size_fields [simp]:
  "GC_static_roots (add_root_size d c) = GC_static_roots c" "n_root_sets (add_root_size d c) = n_root_sets c"
  "GC_root_index (add_root_size d c) = GC_root_index c" "root_size (add_root_size d c) = root_size c + d"
  by (simp_all add: add_root_size_def root_size_def Let_def)

text \<open>A change of entry \<open>n\<close> and its insertion in the index.\<close>

lemma add_to_index_spec:
  assumes "index_ok (GC_static_roots c) n (GC_root_index c)" "n < length (GC_static_roots c)"
  shows "\<exists>c'. add_roots_to_index n c = Inr c' \<and> index_ok (GC_static_roots c') (Suc n) (GC_root_index c') \<and>
    map core (GC_static_roots c') = map core (GC_static_roots c) \<and> n_root_sets c' = n_root_sets c \<and> root_size c' = root_size c"
proof -
  let ?rs = "GC_static_roots c" and ?ix = "GC_root_index c" and ?h = "rt_hash (r_start (GC_static_roots c ! n))"
  let ?c = "c\<lparr>GC_static_roots := ?rs[n := (?rs ! n)\<lparr>r_next := ?ix ! unat ?h\<rparr>], GC_root_index := ?ix[unat ?h := Some n]\<rparr>"
  have len: "length ?ix = 64" using assms(1) by (simp add: index_ok_def)
  have "add_roots_to_index n c = Inr ?c"
    using assms(2) len rt_hash_bound
    by (simp add: add_roots_to_index_def root_at_def mod_root_def deref_less read_at_def write_at_def Let_def)
  moreover have "index_ok (GC_static_roots ?c) (Suc n) (GC_root_index ?c)"
    using index_ok_add [OF assms(1,2), of "unat ?h"] by (simp add: hash_of_def)
  moreover have "core (?rs ! n) = core ((?rs ! n)\<lparr>r_next := ?ix ! unat ?h\<rparr>)" by (simp add: core_def)
  then have "map core (GC_static_roots ?c) = map core ?rs"
    using assms(2) by (simp add: map_update) (metis list_update_id nth_map)
  ultimately show ?thesis by (intro exI [of _ ?c]) (simp add: root_size_def)
qed

lemma live_cong: "map core (GC_static_roots c') = map core (GC_static_roots c) \<Longrightarrow> n_root_sets c' = n_root_sets c \<Longrightarrow> live c' = live c"
  by (simp add: live_def flip: take_map)

lemma range_sum_simps [simp]:
  "range_sum [] = 0" "range_sum (x # xs) = (fst (snd x) - fst x) + range_sum xs" "range_sum (xs @ ys) = range_sum xs + range_sum ys"
  by (simp_all add: range_sum_def split: prod.splits)

lemma append_root_spec:
  assumes ok: "roots_ok c" and n: "n_root_sets c < MAX_ROOT_SETS" and be: "b < e"
  shows "\<exists>c'. append_root b e tmp c = Inr c' \<and> roots_ok c' \<and> live c' = live c @ [(b, e, tmp)]"
proof -
  let ?n = "n_root_sets c" and ?rs = "GC_static_roots c" and ?r = "\<lparr>r_start = b, r_end = e, r_next = None, r_tmp = tmp\<rparr>"
  let ?c = "c\<lparr>GC_static_roots := ?rs[?n := ?r]\<rparr>"
  have len: "length ?rs = MAX_ROOT_SETS" and ix: "index_ok ?rs ?n (GC_root_index c)" and sum: "root_size c = range_sum (live c)"
    using ok by (simp_all add: roots_ok_def)
  have "index_ok (GC_static_roots ?c) ?n (GC_root_index ?c)" using index_ok_cong [OF ix, of "?rs[?n := ?r]"] by simp
  from add_to_index_spec [OF this] n len
  obtain c' where c': "add_roots_to_index ?n ?c = Inr c'" "index_ok (GC_static_roots c') (Suc ?n) (GC_root_index c')"
    "map core (GC_static_roots c') = map core (?rs[?n := ?r])" "n_root_sets c' = ?n" "root_size c' = root_size c"
    by (auto simp: root_size_def)
  let ?c' = "(add_root_size (e - b) c')\<lparr>n_root_sets := Suc ?n\<rparr>"
  have "mod_root ?n (\<lambda>_. ?r) c = Inr ?c" using n len by (simp add: mod_root_def root_at_def deref_less)
  then have "append_root b e tmp c = Inr ?c'" using n c'(1) by (simp add: append_root_def)
  moreover have live: "live ?c' = live c @ [(b, e, tmp)]"
  proof -
    have "live ?c' = take (Suc ?n) (map core (?rs[?n := ?r]))" by (simp add: live_def take_map c'(3) [symmetric])
    also have "\<dots> = take ?n (map core (?rs[?n := ?r])) @ [core ?r]" using n len by (simp add: take_Suc_conv_app_nth)
    finally show ?thesis by (simp add: live_def take_map core_def)
  qed
  moreover have "length (GC_static_roots c') = MAX_ROOT_SETS" using arg_cong [OF c'(3), of length] len by simp
  moreover have "root_size ?c' = range_sum (live ?c')" unfolding live using c'(5) sum by (simp add: root_size_def add_root_size_def Let_def)
  moreover have "\<forall>(b, e, _) \<in> set (live ?c'). b < e" unfolding live using ok be by (auto simp: roots_ok_def)
  ultimately show ?thesis using n c'(2) by (intro exI [of _ ?c']) (simp add: roots_ok_def)
qed

lemma addresses_simps [simp]:
  "addresses (xs @ [(b, e, t)]) = addresses xs \<union> {b ..< e}"
  "permanent (xs @ [(b, e, t)]) = permanent xs \<union> (if t then {} else {b ..< e})"
  by (auto simp: addresses_def permanent_def)

text \<open>Entry \<open>i\<close> replaced by another with the same start.\<close>

lemma live_update:
  assumes "i < n_root_sets c" "n_root_sets c \<le> length (GC_static_roots c)"
  shows "live (c\<lparr>GC_static_roots := (GC_static_roots c)[i := r]\<rparr>) = (live c)[i := core r]"
    and "live c ! i = core (GC_static_roots c ! i)" "i < length (live c)"
  using assms by (simp_all add: live_def take_update_swap map_update)

lemma replace_root_spec:
  assumes ok: "roots_ok c" and i: "i < n_root_sets c" and r: "r_start r = r_start (GC_static_roots c ! i)" "r_next r = r_next (GC_static_roots c ! i)"
    and d: "r_end r - r_start r = r_end (GC_static_roots c ! i) - r_start r + d" and be: "r_start r < r_end r"
  shows "roots_ok (add_root_size d (c\<lparr>GC_static_roots := (GC_static_roots c)[i := r]\<rparr>))"
    and "live (add_root_size d (c\<lparr>GC_static_roots := (GC_static_roots c)[i := r]\<rparr>)) = (live c)[i := core r]"
proof -
  let ?rs = "GC_static_roots c" and ?c = "c\<lparr>GC_static_roots := (GC_static_roots c)[i := r]\<rparr>"
  have len: "n_root_sets c \<le> length ?rs" using ok by (simp add: roots_ok_def)
  note l = live_update [OF i len]
  have live: "live (add_root_size d ?c) = live ?c" by (simp add: live_def)
  then show "live (add_root_size d ?c) = (live c)[i := core r]" using l(1) by simp
  have sum: "range_sum ((live c)[i := core r]) = range_sum (live c) + d"
  proof -
    let ?A = "range_sum (take i (live c))" and ?B = "range_sum (drop (Suc i) (live c))" and ?s = "\<lambda>x :: root_range. fst (snd x) - fst x"
    have "live c = take i (live c) @ core (?rs ! i) # drop (Suc i) (live c)" using l(2,3) by (metis id_take_nth_drop)
    from arg_cong [OF this, of range_sum] have old: "range_sum (live c) = ?A + (?s (core (?rs ! i)) + ?B)"
      by (simp only: range_sum_simps)
    have "?s (core r) = ?s (core (?rs ! i)) + d" using d r(1) by (simp add: core_def)
    moreover have "range_sum ((live c)[i := core r]) = ?A + (?s (core r) + ?B)"
      unfolding upd_conv_take_nth_drop [OF l(3)] by (simp only: range_sum_simps)
    ultimately show ?thesis unfolding old by (simp only: ac_simps)
  qed
  have same: "r_next (?rs[i := r] ! j) = r_next (?rs ! j) \<and> r_start (?rs[i := r] ! j) = r_start (?rs ! j)" for j
    using r i len by (cases "j = i") simp_all
  have "index_ok ?rs (n_root_sets c) (GC_root_index c)" using ok by (simp add: roots_ok_def)
  from index_ok_cong [OF this length_list_update same]
  moreover have "root_size (add_root_size d ?c) = root_size c + d" by (simp add: root_size_def add_root_size_def Let_def)
  moreover have "\<forall>(b, e, _) \<in> set ((live c)[i := core r]). b < e"
    using ok be by (auto simp: roots_ok_def core_def dest!: subsetD [OF set_update_subset_insert])
  ultimately show "roots_ok (add_root_size d ?c)"
    using ok sum live l(1) by (simp add: roots_ok_def)
qed


lemma in_addresses: "x \<in> set xs \<Longrightarrow> x = (b, e, t) \<Longrightarrow> {b ..< e} \<subseteq> addresses xs"
  unfolding addresses_def by fastforce

lemma addresses_update:
  assumes "i < length xs" "xs ! i = (b, e, t)" "e \<le> e'"
  shows "addresses (xs[i := (b, e', t')]) = addresses xs \<union> {b ..< e'}"
    and "\<not> t' \<or> t \<Longrightarrow> permanent xs \<subseteq> permanent (xs[i := (b, e', t')])"
    and "\<not> t' \<Longrightarrow> {b ..< e'} \<subseteq> permanent (xs[i := (b, e', t')])"
proof -
  let ?R = "\<lambda>y. \<exists>j < length xs. j \<noteq> i \<and> y = xs ! j"
  have mem: "x \<in> set (xs[i := y]) \<longleftrightarrow> x = y \<or> ?R x" for x y
    using assms(1) by (auto simp: in_set_conv_nth nth_list_update)
  have new: "(\<exists>x \<in> set (xs[i := y]). Q x) \<longleftrightarrow> Q y \<or> (\<exists>x. ?R x \<and> Q x)" for y Q
    unfolding Bex_def mem by blast
  have old: "(\<exists>x \<in> set xs. Q x) \<longleftrightarrow> Q (b, e, t) \<or> (\<exists>x. ?R x \<and> Q x)" for Q
  proof -
    have "xs[i := (b, e, t)] = xs" using assms(2) by (metis list_update_id)
    then show ?thesis using new [of "(b, e, t)" Q] by simp
  qed
  show "addresses (xs[i := (b, e', t')]) = addresses xs \<union> {b ..< e'}"
    unfolding addresses_def new old using assms(3) by (auto intro: less_le_trans)
  show "\<not> t' \<or> t \<Longrightarrow> permanent xs \<subseteq> permanent (xs[i := (b, e', t')])"
    unfolding permanent_def new old using assms(3) by (auto intro: less_le_trans)
  show "\<not> t' \<Longrightarrow> {b ..< e'} \<subseteq> permanent (xs[i := (b, e', t')])"
    unfolding permanent_def new by auto
qed

lemma add_roots_spec:
  fixes b e :: u64
  assumes ok: "roots_ok c" and n: "n_root_sets c < MAX_ROOT_SETS"
  defines "b' \<equiv> (b + 7) AND NOT 7" and "e' \<equiv> e AND NOT 7"
  shows "\<exists>c'. GC_add_roots_inner b e tmp c = Inr c' \<and> roots_ok c' \<and> addresses (live c') = addresses (live c) \<union> {b' ..< e'} \<and>
    permanent (live c) \<subseteq> permanent (live c') \<and> (\<not> tmp \<longrightarrow> {b' ..< e'} \<subseteq> permanent (live c'))"
proof (cases "e' \<le> b'")
  case True
  then have "GC_add_roots_inner b e tmp c = Inr c"
    unfolding GC_add_roots_inner_def Let_def b'_def [symmetric] e'_def [symmetric] by simp
  then show ?thesis using ok True by simp
next
  case range: False
  have nl: "n_root_sets c \<le> length (GC_static_roots c)" using ok by (simp add: roots_ok_def)
  obtain r where r: "GC_roots_present b' c = Inr r"
    "case r of None \<Rightarrow> \<forall>i < n_root_sets c. r_start (GC_static_roots c ! i) \<noteq> b'
     | Some i \<Rightarrow> i < n_root_sets c \<and> r_start (GC_static_roots c ! i) = b'"
    using roots_present_spec [OF ok] by blast
  show ?thesis
  proof (cases r)
    case None
    then show ?thesis
      using append_root_spec [OF ok n, of b' e' tmp] r(1) range not_le [of e' b']
      unfolding GC_add_roots_inner_def Let_def b'_def [symmetric] e'_def [symmetric] by auto
  next
    case (Some i)
    let ?x = "GC_static_roots c ! i"
    have i: "i < n_root_sets c" "r_start ?x = b'" using r(2) Some by simp_all
    have at: "root_at i c = Inr ?x" using i(1) nl by (simp add: root_at_def deref_less)
    have eq: "GC_add_roots_inner b e tmp c =
        (if e' \<le> r_end ?x then mod_root i (\<lambda>r. r\<lparr>r_tmp := r_tmp r \<and> tmp\<rparr>) c
         else if r_tmp ?x = tmp \<or> \<not> tmp then mod_root i (\<lambda>r. r\<lparr>r_end := e', r_tmp := tmp\<rparr>) (add_root_size (e' - r_end ?x) c)
         else append_root (r_end ?x) e' tmp c)"
      unfolding GC_add_roots_inner_def Let_def b'_def [symmetric] e'_def [symmetric]
      using range r(1) Some at by simp
    have l: "i < length (live c)" "live c ! i = (b', r_end ?x, r_tmp ?x)"
      using live_update [OF i(1) nl] i(2) by (simp_all add: core_def)
    have mod: "mod_root i f (add_root_size d c) = Inr (add_root_size d (c\<lparr>GC_static_roots := (GC_static_roots c)[i := f ?x]\<rparr>))" for f d
      using i(1) nl by (simp add: mod_root_def root_at_def deref_less add_root_size_def Let_def)
    have none: "add_root_size 0 c = c" by (simp add: add_root_size_def Let_def)
    have x: "b' < r_end ?x" using ok l nth_mem [OF l(1)] by (auto simp: roots_ok_def)
    consider "e' \<le> r_end ?x" | "r_end ?x < e'" "r_tmp ?x = tmp \<or> \<not> tmp" | "r_end ?x < e'" "\<not> r_tmp ?x" "tmp"
      by fastforce
    then show ?thesis
    proof cases
      case 1
      let ?r = "?x\<lparr>r_tmp := r_tmp ?x \<and> tmp\<rparr>"
      let ?c = "add_root_size 0 (c\<lparr>GC_static_roots := (GC_static_roots c)[i := ?r]\<rparr>)"
      have "GC_add_roots_inner b e tmp c = Inr ?c" using eq 1 mod [of "\<lambda>r. r\<lparr>r_tmp := r_tmp r \<and> tmp\<rparr>" 0] none by simp
      moreover have "roots_ok ?c" and live: "live ?c = (live c)[i := (b', r_end ?x, r_tmp ?x \<and> tmp)]"
        using replace_root_spec [OF ok i(1), of ?r 0] i(2) x by (simp_all add: core_def)
      note upd = addresses_update [OF l order_refl, of "r_tmp ?x \<and> tmp", folded live]
      have sub: "{b' ..< e'} \<subseteq> {b' ..< r_end ?x}" using 1 by auto
      have "{b' ..< r_end ?x} \<subseteq> addresses (live c)"
        by (rule in_addresses [OF nth_mem [OF l(1)] l(2)])
      then have "addresses (live ?c) = addresses (live c) \<union> {b' ..< e'}" using upd(1) sub by blast
      moreover have "permanent (live c) \<subseteq> permanent (live ?c)" using upd(2) by blast
      moreover have "\<not> tmp \<longrightarrow> {b' ..< e'} \<subseteq> permanent (live ?c)" using upd(3) sub by blast
      ultimately show ?thesis using \<open>roots_ok ?c\<close> by blast
    next
      case 2
      let ?r = "?x\<lparr>r_end := e', r_tmp := tmp\<rparr>"
      let ?c = "add_root_size (e' - r_end ?x) (c\<lparr>GC_static_roots := (GC_static_roots c)[i := ?r]\<rparr>)"
      have big: "\<not> e' \<le> r_end ?x" using 2(1) by (simp add: not_le)
      have "GC_add_roots_inner b e tmp c = Inr ?c" using eq big 2 mod [of "\<lambda>r. r\<lparr>r_end := e', r_tmp := tmp\<rparr>"] by simp
      moreover have "roots_ok ?c" and live: "live ?c = (live c)[i := (b', e', tmp)]"
        using replace_root_spec [OF ok i(1), of ?r "e' - r_end ?x"] i(2) range by (simp_all add: core_def not_le)
      note upd = addresses_update [OF l less_imp_le [OF 2(1)], of tmp, folded live]
      have "permanent (live c) \<subseteq> permanent (live ?c)" using upd(2) 2(2) by blast
      then show ?thesis using upd(1,3) \<open>roots_ok ?c\<close> calculation by blast
    next
      case 3
      obtain c' where c': "append_root (r_end ?x) e' tmp c = Inr c'" "roots_ok c'" "live c' = live c @ [(r_end ?x, e', tmp)]"
        using append_root_spec [OF ok n 3(1)] by blast
      have "b' \<le> q \<and> q < r_end ?x \<longrightarrow> q \<in> addresses (live c)" for q
        using in_addresses [OF nth_mem [OF l(1)] l(2)] by (auto simp: subset_iff)
      then have "addresses (live c) \<union> {r_end ?x ..< e'} = addresses (live c) \<union> {b' ..< e'}"
        using x by (auto simp: not_less intro: less_imp_le less_le_trans)
      moreover have "GC_add_roots_inner b e tmp c = Inr c'" using eq 3 c'(1) by (auto simp: not_le)
      ultimately show ?thesis using 3(3) c'(2,3) by (intro exI [of _ c']) simp
    qed
  qed
qed

section \<open>Removing\<close>

lemma range_sum_mset: "range_sum xs = (\<Sum>x \<in># mset xs. fst (snd x) - fst x)"
  by (induction xs) simp_all

lemma mset_remove_swap:
  assumes "i < length xs"
  shows "mset (butlast (xs[i := last xs])) = mset xs - {#xs ! i#}"
proof -
  obtain ys l where xs: "xs = ys @ [l]" using assms by (metis append_butlast_last_id list.size(3) not_less_zero)
  show ?thesis
  proof (cases "i < length ys")
    case True
    then have "ys ! i \<in># mset ys" by simp
    then show ?thesis using True xs by (simp add: list_update_append nth_append mset_update add_mset_diff_bothsides diff_union_swap2)
  next
    case False
    then have "i = length ys" using assms xs by simp
    then show ?thesis using xs by simp
  qed
qed

lemma remove_root_at_pos_spec:
  assumes n: "n_root_sets c \<le> length (GC_static_roots c)" and i: "i < n_root_sets c" and sum: "root_size c = range_sum (live c)"
  shows "\<exists>c'. GC_remove_root_at_pos i c = Inr c' \<and> n_root_sets c' = n_root_sets c - 1 \<and>
    length (GC_static_roots c') = length (GC_static_roots c) \<and> take i (live c') = take i (live c) \<and>
    mset (live c') = mset (live c) - {#live c ! i#} \<and> root_size c' = range_sum (live c') \<and> length (GC_root_index c') = length (GC_root_index c)"
proof -
  let ?n = "n_root_sets c" and ?rs = "GC_static_roots c"
  let ?r = "(?rs ! i)\<lparr>r_start := r_start (?rs ! (?n - 1)), r_end := r_end (?rs ! (?n - 1)), r_tmp := r_tmp (?rs ! (?n - 1))\<rparr>"
  let ?d = "r_end (?rs ! i) - r_start (?rs ! i)"
  let ?c = "(add_root_size (- ?d) c)\<lparr>GC_static_roots := ?rs[i := ?r], n_root_sets := ?n - 1\<rparr>"
  have at: "root_at i c = Inr (?rs ! i)" "root_at (?n - 1) c = Inr (?rs ! (?n - 1))" "i < length ?rs"
    using n i by (simp_all add: root_at_def deref_less)
  have run: "GC_remove_root_at_pos i c = Inr ?c"
    using at by (simp add: GC_remove_root_at_pos_def mod_root_def root_at_def add_root_size_def Let_def)
  have len: "length (live c) = ?n" and nth: "live c ! j = core (?rs ! j)" if "j < ?n" for j
    using n that by (simp_all add: live_def)
  have "live c \<noteq> []" using i len [OF i] by auto
  then have last: "last (live c) = core ?r"
    using i len [OF i] nth [of "?n - 1"] by (simp add: last_conv_nth core_def)
  have "live ?c = take (?n - 1) ((map core ?rs)[i := core ?r])" by (simp add: live_def flip: take_map map_update)
  also have "\<dots> = butlast (take ?n ((map core ?rs)[i := core ?r]))" using n by (simp add: butlast_take)
  also have "\<dots> = butlast ((live c)[i := last (live c)])" unfolding last by (simp add: live_def take_map take_update_swap)
  finally have live: "live ?c = butlast ((live c)[i := last (live c)])" .
  have ms: "mset (live ?c) = mset (live c) - {#live c ! i#}" unfolding live using mset_remove_swap i len [OF i] by metis
  have "range_sum (live c) = ?d + range_sum (live ?c)"
  proof -
    have "live c ! i \<in># mset (live c)" using i len [OF i] by simp
    then have "mset (live c) = add_mset (live c ! i) (mset (live ?c))" unfolding ms by simp
    then show ?thesis unfolding range_sum_mset using nth [OF i] by (simp add: core_def)
  qed
  moreover have "root_size ?c = root_size c - ?d" by (simp add: root_size_def add_root_size_def Let_def)
  ultimately have "root_size ?c = range_sum (live ?c)" using sum by (simp only: add_diff_cancel_left')
  moreover have "take i (live ?c) = take i (live c)" unfolding live using i len [OF i] by (simp add: butlast_conv_take)
  ultimately show ?thesis using run ms by (intro exI [of _ ?c]) (simp add: add_root_size_def Let_def)
qed

lemma remove_roots_from_spec:
  assumes "n_root_sets c \<le> length (GC_static_roots c)" "root_size c = range_sum (live c)" "length (GC_root_index c) = 64"
    and "i \<le> n_root_sets c" "\<forall>x \<in> set (take i (live c)). \<not> Q x" "n_root_sets c - i < n"
  shows "\<exists>c'. remove_roots_from n (\<lambda>r. Q (core r)) i c = Inr c' \<and> n_root_sets c' \<le> n_root_sets c \<and>
    length (GC_static_roots c') = length (GC_static_roots c) \<and> mset (live c') = filter_mset (\<lambda>x. \<not> Q x) (mset (live c)) \<and>
    root_size c' = range_sum (live c') \<and> length (GC_root_index c') = 64 \<and> (n_root_sets c' = n_root_sets c \<longrightarrow> c' = c)"
  using assms
proof (induction n arbitrary: i c)
  case (Suc n)
  have len: "length (live c) = n_root_sets c" using Suc.prems(1) by (simp add: live_def)
  show ?case
  proof (cases "i < n_root_sets c")
    case False
    then have "\<forall>x \<in># mset (live c). \<not> Q x" using Suc.prems(4,5) len by simp
    then have "filter_mset (\<lambda>x. \<not> Q x) (mset (live c)) = mset (live c)" by (simp add: filter_mset_eq_conv)
    then show ?thesis using Suc.prems(2,3) False by simp
  next
    case True
    have at: "root_at i c = Inr (GC_static_roots c ! i)" "core (GC_static_roots c ! i) = live c ! i"
      using True Suc.prems(1) by (simp_all add: root_at_def deref_less live_def)
    show ?thesis
    proof (cases "Q (live c ! i)")
      case False
      then have "\<forall>x \<in> set (take (Suc i) (live c)). \<not> Q x" using Suc.prems(5) True len by (simp add: take_Suc_conv_app_nth)
      from Suc.IH [OF Suc.prems(1-3) _ this] True Suc.prems(6) show ?thesis using False True at by simp
    next
      case rem: True
      obtain c1 where c1: "GC_remove_root_at_pos i c = Inr c1" "n_root_sets c1 = n_root_sets c - 1"
        "length (GC_static_roots c1) = length (GC_static_roots c)" "take i (live c1) = take i (live c)"
        "mset (live c1) = mset (live c) - {#live c ! i#}" "root_size c1 = range_sum (live c1)"
        "length (GC_root_index c1) = length (GC_root_index c)"
        using remove_root_at_pos_spec [OF Suc.prems(1) True Suc.prems(2)] by blast
      have "\<exists>c'. remove_roots_from n (\<lambda>r. Q (core r)) i c1 = Inr c' \<and> n_root_sets c' \<le> n_root_sets c1 \<and>
        length (GC_static_roots c') = length (GC_static_roots c1) \<and> mset (live c') = filter_mset (\<lambda>x. \<not> Q x) (mset (live c1)) \<and>
        root_size c' = range_sum (live c') \<and> length (GC_root_index c') = 64 \<and> (n_root_sets c' = n_root_sets c1 \<longrightarrow> c' = c1)"
        using Suc.prems True c1 by (intro Suc.IH) auto
      moreover have "filter_mset (\<lambda>x. \<not> Q x) (mset (live c1)) = filter_mset (\<lambda>x. \<not> Q x) (mset (live c))"
        unfolding c1(5) using rem by simp
      ultimately show ?thesis using True at rem c1 by (auto simp del: mset_map)
    qed
  qed
qed simp

lemma index_roots_from_spec:
  assumes "index_ok (GC_static_roots c) i (GC_root_index c)" "i + n \<le> length (GC_static_roots c)"
  shows "\<exists>c'. index_roots_from n i c = Inr c' \<and> index_ok (GC_static_roots c') (i + n) (GC_root_index c') \<and>
    map core (GC_static_roots c') = map core (GC_static_roots c) \<and> n_root_sets c' = n_root_sets c \<and> root_size c' = root_size c"
  using assms
proof (induction n arbitrary: i c)
  case (Suc n)
  obtain c1 where c1: "add_roots_to_index i c = Inr c1" "index_ok (GC_static_roots c1) (Suc i) (GC_root_index c1)"
    "map core (GC_static_roots c1) = map core (GC_static_roots c)" "n_root_sets c1 = n_root_sets c" "root_size c1 = root_size c"
    using add_to_index_spec [OF Suc.prems(1)] Suc.prems(2) by auto
  moreover have "length (GC_static_roots c1) = length (GC_static_roots c)" using arg_cong [OF c1(3), of length] by simp
  ultimately show ?case using Suc.IH [OF c1(2)] Suc.prems(2) by auto
qed simp

lemma remove_roots_spec:
  assumes ok: "roots_ok c"
  shows "\<exists>c'. remove_roots_with (\<lambda>r. Q (core r)) c = Inr c' \<and> roots_ok c' \<and>
    mset (live c') = filter_mset (\<lambda>x. \<not> Q x) (mset (live c))"
proof -
  have pre: "n_root_sets c \<le> length (GC_static_roots c)" "root_size c = range_sum (live c)" "length (GC_root_index c) = 64"
    using ok by (simp_all add: roots_ok_def index_ok_def)
  obtain c1 where c1: "remove_roots_from (Suc (n_root_sets c)) (\<lambda>r. Q (core r)) 0 c = Inr c1" "n_root_sets c1 \<le> n_root_sets c"
    "length (GC_static_roots c1) = length (GC_static_roots c)" "mset (live c1) = filter_mset (\<lambda>x. \<not> Q x) (mset (live c))"
    "root_size c1 = range_sum (live c1)" "n_root_sets c1 = n_root_sets c \<longrightarrow> c1 = c"
    using remove_roots_from_spec [OF pre, of 0 Q "Suc (n_root_sets c)"] by auto
  show ?thesis
  proof (cases "n_root_sets c1 < n_root_sets c")
    case False
    then have "c1 = c" using c1(2,6) by simp
    then show ?thesis using c1 ok by (simp add: remove_roots_with_def)
  next
    case True
    let ?c = "c1\<lparr>GC_root_index := replicate RT_SIZE None\<rparr>"
    have "index_ok (GC_static_roots ?c) 0 (GC_root_index ?c)" using index_ok_empty by simp
    from index_roots_from_spec [OF this, of "n_root_sets c1"]
    obtain c' where c': "GC_rebuild_root_index c1 = Inr c'" "index_ok (GC_static_roots c') (n_root_sets c1) (GC_root_index c')"
      "map core (GC_static_roots c') = map core (GC_static_roots c1)" "n_root_sets c' = n_root_sets c1" "root_size c' = root_size c1"
      using c1(2,3) pre(1) by (auto simp: GC_rebuild_root_index_def root_size_def)
    have live: "live c' = live c1" using live_cong [OF c'(3,4)] .
    have "length (GC_static_roots c') = MAX_ROOT_SETS" using arg_cong [OF c'(3), of length] c1(3) ok by (simp add: roots_ok_def)
    moreover have "set (live c1) \<subseteq> set (live c)" using c1(4) by (metis filter_mset_eq_conv mset_subset_eqD set_mset_mset subsetI)
    ultimately have "roots_ok c'" using c' c1 ok True unfolding roots_ok_def live by auto
    then show ?thesis using c1 c' True live by (intro exI [of _ c']) (simp add: remove_roots_with_def)
  qed
qed

section \<open>Clearing and lookups\<close>

lemma clear_roots_spec:
  assumes "length (GC_static_roots c) = MAX_ROOT_SETS"
  shows "roots_ok (GC_clear_roots c) \<and> live (GC_clear_roots c) = []"
  using assms index_ok_empty by (simp add: roots_ok_def live_def root_size_def GC_clear_roots_def Let_def)

lemma root_set_of_spec:
  assumes "i + n \<le> length (GC_static_roots c)"
  shows "\<exists>r. root_set_of n c i p = Inr r \<and>
    (case r of None \<Rightarrow> \<forall>j. i \<le> j \<and> j < i + n \<longrightarrow> \<not> in_root p (GC_static_roots c ! j)
     | Some j \<Rightarrow> i \<le> j \<and> j < i + n \<and> in_root p (GC_static_roots c ! j))"
  using assms
proof (induction n arbitrary: i)
  case (Suc n)
  have at: "root_at i c = Inr (GC_static_roots c ! i)" using Suc.prems by (simp add: root_at_def deref_less)
  show ?case
  proof (cases "in_root p (GC_static_roots c ! i)")
    case True
    then show ?thesis using at by (intro exI [of _ "Some i"]) simp
  next
    case False
    obtain r where r: "root_set_of n c (Suc i) p = Inr r"
      "case r of None \<Rightarrow> \<forall>j. Suc i \<le> j \<and> j < Suc i + n \<longrightarrow> \<not> in_root p (GC_static_roots c ! j)
       | Some j \<Rightarrow> Suc i \<le> j \<and> j < Suc i + n \<and> in_root p (GC_static_roots c ! j)"
      using Suc.IH [of "Suc i"] Suc.prems by auto
    have "\<not> in_root p (GC_static_roots c ! j)" if "r = None" "i \<le> j" "j < i + Suc n" for j
      using r(2) that False by (cases "j = i") auto
    then show ?thesis using r at False by (intro exI [of _ r]) (auto split: option.splits)
  qed
qed auto

lemma in_addresses_live:
  assumes "n_root_sets c \<le> length (GC_static_roots c)"
  shows "p \<in> addresses (live c) \<longleftrightarrow> (\<exists>i < n_root_sets c. in_root p (GC_static_roots c ! i))"
proof -
  have "(\<exists>x \<in> set (live c). R x) \<longleftrightarrow> (\<exists>i < n_root_sets c. R (core (GC_static_roots c ! i)))" for R
  proof -
    have "(\<exists>x \<in> set (live c). R x) \<longleftrightarrow> (\<exists>i < length (live c). R (live c ! i))" by (metis in_set_conv_nth)
    then show ?thesis using assms by (auto simp: live_def)
  qed
  then show ?thesis by (simp add: addresses_def core_def in_root_def)
qed

lemma is_static_root_spec:
  assumes "roots_ok c"
  shows "\<exists>k. GC_is_static_root p c = Inr (p \<in> addresses (live c), c\<lparr>last_static_root_set := k\<rparr>)"
proof -
  have n: "n_root_sets c \<le> length (GC_static_roots c)" using assms by (simp add: roots_ok_def)
  obtain r where r: "root_set_of (n_root_sets c) c 0 p = Inr r"
    "case r of None \<Rightarrow> \<forall>j. 0 \<le> j \<and> j < 0 + n_root_sets c \<longrightarrow> \<not> in_root p (GC_static_roots c ! j)
     | Some j \<Rightarrow> 0 \<le> j \<and> j < 0 + n_root_sets c \<and> in_root p (GC_static_roots c ! j)"
    using root_set_of_spec [of 0 "n_root_sets c" c p] n by auto
  let ?l = "last_static_root_set c"
  have same: "c\<lparr>last_static_root_set := ?l\<rparr> = c" by simp
  show ?thesis
  proof (cases "?l < n_root_sets c \<and> in_root p (GC_static_roots c ! ?l)")
    case True
    then have "GC_is_static_root p c = Inr (True, c)" "p \<in> addresses (live c)"
      using n in_addresses_live [OF n] by (auto simp: GC_is_static_root_def in_last_def root_at_def deref_less)
    then show ?thesis using same by metis
  next
    case False
    then have "in_last ?l p c = Inr False" using n by (auto simp: in_last_def root_at_def deref_less)
    then show ?thesis using r same in_addresses_live [OF n, of p]
      by (cases r) (auto simp: GC_is_static_root_def intro: exI [of _ ?l])
  qed
qed

section \<open>Excluded ranges\<close>

definition excl :: "collector \<Rightarrow> exclusion list" where
  "excl c = take (unat (GC_excl_table_entries c)) (GC_excl_table c)"

definition apart :: "exclusion list \<Rightarrow> bool" where
  "apart xs \<longleftrightarrow> (\<forall>x \<in> set xs. e_start x < e_end x) \<and> sorted_wrt (\<lambda>x y. e_end x \<le> e_start y) xs"

definition excl_ok :: "collector \<Rightarrow> bool" where
  "excl_ok c \<longleftrightarrow> length (GC_excl_table c) = MAX_EXCLUSIONS \<and> unat (GC_excl_table_entries c) \<le> MAX_EXCLUSIONS \<and> apart (excl c)"

definition excluded :: "exclusion list \<Rightarrow> u64 set" where
  "excluded xs = (\<Union>x \<in> set xs. {e_start x ..< e_end x})"

lemma excluded_simps [simp]:
  "excluded [] = {}" "excluded (x # xs) = {e_start x ..< e_end x} \<union> excluded xs" "excluded (xs @ ys) = excluded xs \<union> excluded ys"
  by (auto simp: excluded_def)

lemma length_excl: "excl_ok c \<Longrightarrow> length (excl c) = unat (GC_excl_table_entries c)"
  by (simp add: excl_ok_def excl_def)

lemma read_excl:
  assumes "excl_ok c" "unat k < length (excl c)"
  shows "read_at (GC_excl_table c) k = Inr (excl c ! unat k)"
  using assms by (simp add: excl_ok_def excl_def read_at_def)

text \<open>The binary search finds the first range that ends behind the address, or the last.\<close>

lemma unat_mid_entry:
  fixes low high :: u64
  assumes "unat low < unat high" "unat high < 512"
  shows "unat (drop_bit 1 (low + high)) = (unat low + unat high) div 2"
    and "unat (drop_bit 1 (low + high) + 1) = Suc ((unat low + unat high) div 2)"
proof -
  have s: "unat (low + high) = unat low + unat high" using assms by (simp add: unat_word_ariths)
  show m: "unat (drop_bit 1 (low + high)) = (unat low + unat high) div 2"
    by (simp add: unat_drop_bit_eq s) (simp add: drop_bit_eq_div unat_div s)
  show "unat (drop_bit 1 (low + high) + 1) = Suc ((unat low + unat high) div 2)"
    unfolding unat_word_ariths m using assms by simp
qed

lemma excl_search_spec:
  assumes ok: "length t = 512" "n \<le> 512"
    and "unat low \<le> unat high" "unat high < n" "unat high - unat low < 2 ^ k"
    and "\<forall>j < unat low. e_end (t ! j) \<le> a" "unat high = n - 1 \<or> a < e_end (t ! unat high)"
    and sorted: "\<forall>i j. i < j \<longrightarrow> j < n \<longrightarrow> e_end (t ! i) \<le> e_end (t ! j)"
  shows "\<exists>r. excl_search (Suc k) low high a t = Inr r \<and> unat r < n \<and>
    (\<forall>j < unat r. e_end (t ! j) \<le> a) \<and> (unat r = n - 1 \<or> a < e_end (t ! unat r))"
  using assms(3-7)
proof (induction k arbitrary: low high)
  case 0
  then have "\<not> low < high" by (simp add: word_less_nat_alt)
  moreover have "low = high" using 0 by (simp add: word_unat_eq_iff)
  ultimately show ?case using 0 by simp
next
  case (Suc k)
  show ?case
  proof (cases "low < high")
    case False
    then have "low = high" using Suc.prems(1) by (simp add: word_less_nat_alt word_unat_eq_iff)
    then show ?thesis using Suc.prems by simp
  next
    case True
    let ?m = "drop_bit 1 (low + high)"
    have lt: "unat low < unat high" "unat high < 512" using True Suc.prems(2) ok(2) by (simp_all add: word_less_nat_alt)
    note m = unat_mid_entry [OF lt]
    have bound: "unat ?m < unat high" "unat low \<le> unat ?m" unfolding m using lt by simp_all
    have at: "read_at t ?m = Inr (t ! unat ?m)" using bound ok lt by (simp add: read_at_def)
    have half: "unat high - Suc (unat ?m) < 2 ^ k" "unat ?m - unat low < 2 ^ k"
      using Suc.prems(3) unfolding m by simp_all
    show ?thesis
    proof (cases "e_end (t ! unat ?m) \<le> a")
      case True
      have "e_end (t ! j) \<le> a" if "j < Suc (unat ?m)" for j
      proof (cases "j = unat ?m")
        case False
        then have "j < unat ?m" "unat ?m < n" using that bound(1) Suc.prems(2) by simp_all
        then have "e_end (t ! j) \<le> e_end (t ! unat ?m)" using sorted by blast
        then show ?thesis using True by (rule order_trans)
      qed (simp only: True)
      then have "\<exists>r. excl_search (Suc k) (?m + 1) high a t = Inr r \<and> unat r < n \<and>
        (\<forall>j < unat r. e_end (t ! j) \<le> a) \<and> (unat r = n - 1 \<or> a < e_end (t ! unat r))"
        using Suc.prems bound half m by (intro Suc.IH) simp_all
      then show ?thesis using \<open>low < high\<close> at True by (simp add: Let_def)
    next
      case False
      then have "a < e_end (t ! unat ?m)" by (simp only: not_le)
      then have "\<exists>r. excl_search (Suc k) low ?m a t = Inr r \<and> unat r < n \<and>
        (\<forall>j < unat r. e_end (t ! j) \<le> a) \<and> (unat r = n - 1 \<or> a < e_end (t ! unat r))"
        using Suc.prems bound half by (intro Suc.IH) simp_all
      then show ?thesis using \<open>low < high\<close> at False by (simp add: Let_def)
    qed
  qed
qed

lemma apart_ends:
  assumes "apart xs" "i < j" "j < length xs"
  shows "e_end (xs ! i) \<le> e_start (xs ! j)" "e_start (xs ! j) < e_end (xs ! j)" "e_end (xs ! i) < e_end (xs ! j)"
proof -
  show s: "e_end (xs ! i) \<le> e_start (xs ! j)" and l: "e_start (xs ! j) < e_end (xs ! j)"
    using assms by (auto simp: apart_def sorted_wrt_iff_nth_less)
  then show "e_end (xs ! i) < e_end (xs ! j)" by simp
qed

lemma next_exclusion_spec:
  assumes ok: "excl_ok c" and "excl c \<noteq> []"
  shows "\<exists>r. GC_next_exclusion a c = Inr r \<and>
    (case r of None \<Rightarrow> \<forall>x \<in> set (excl c). e_end x \<le> a
     | Some k \<Rightarrow> unat k < length (excl c) \<and> a < e_end (excl c ! unat k) \<and> (\<forall>j < unat k. e_end (excl c ! j) \<le> a))"
proof -
  let ?n = "unat (GC_excl_table_entries c)" and ?t = "GC_excl_table c"
  have n: "0 < ?n" "?n \<le> 512" "length ?t = 512" using assms by (auto simp: excl_ok_def excl_def MAX_EXCLUSIONS_def)
  have last: "unat (GC_excl_table_entries c - 1) = ?n - 1"
    using n(1) by (simp add: unat_sub word_le_nat_alt)
  have nth: "excl c ! j = ?t ! j" if "j < ?n" for j using that by (simp add: excl_def)
  have "e_end (?t ! i) \<le> e_end (?t ! j)" if "i < j" "j < ?n" for i j
    using apart_ends(3) [of "excl c" i j] that nth ok length_excl [OF ok] by (simp add: excl_ok_def)
  then have sorted: "\<forall>i j. i < j \<longrightarrow> j < ?n \<longrightarrow> e_end (?t ! i) \<le> e_end (?t ! j)" by blast
  have dist: "unat (GC_excl_table_entries c - 1) - unat (0 :: u64) < 2 ^ 64" unfolding last using n(2) by simp
  obtain r where r: "excl_search (Suc 64) 0 (GC_excl_table_entries c - 1) a ?t = Inr r" "unat r < ?n"
    "\<forall>j < unat r. e_end (?t ! j) \<le> a" "unat r = ?n - 1 \<or> a < e_end (?t ! unat r)"
    using excl_search_spec [OF n(3,2) _ _ dist _ _ sorted, of a] n last by auto
  have at: "read_at ?t r = Inr (?t ! unat r)" using r(2) n by (simp add: read_at_def)
  show ?thesis
  proof (cases "e_end (?t ! unat r) \<le> a")
    case True
    then have "e_end (excl c ! j) \<le> a" if "j < ?n" for j
      using that r(3,4) nth by (cases "j = unat r") auto
    then have "\<forall>x \<in> set (excl c). e_end x \<le> a" using length_excl [OF ok] by (metis in_set_conv_nth)
    then show ?thesis using r(1) at True by (intro exI [of _ None]) (simp add: GC_next_exclusion_def)
  next
    case False
    then show ?thesis using r at nth length_excl [OF ok]
      by (intro exI [of _ "Some r"]) (simp add: GC_next_exclusion_def not_le)
  qed
qed

text \<open>An address is excluded if and only if the range found contains it; and the range found splits
  the table.\<close>

lemma next_exclusion_cases:
  assumes ok: "excl_ok c" and "excl c \<noteq> []"
  obtains "GC_next_exclusion a c = Inr None" "\<forall>x \<in> set (excl c). e_end x \<le> a"
  | k xs x ys where "GC_next_exclusion a c = Inr (Some k)" "excl c = xs @ x # ys" "unat k = length xs"
      "read_at (GC_excl_table c) k = Inr x" "e_start x < e_end x" "a < e_end x"
      "\<forall>y \<in> set xs. e_end y \<le> a" "\<forall>y \<in> set ys. e_end x \<le> e_start y \<and> e_start y < e_end y"
proof -
  obtain r where r: "GC_next_exclusion a c = Inr r"
    "case r of None \<Rightarrow> \<forall>x \<in> set (excl c). e_end x \<le> a
     | Some k \<Rightarrow> unat k < length (excl c) \<and> a < e_end (excl c ! unat k) \<and> (\<forall>j < unat k. e_end (excl c ! j) \<le> a)"
    using next_exclusion_spec [OF assms] by blast
  show thesis
  proof (cases r)
    case None
    then show ?thesis using r that(1) by simp
  next
    case (Some k)
    let ?xs = "take (unat k) (excl c)" and ?ys = "drop (Suc (unat k)) (excl c)" and ?x = "excl c ! unat k"
    have k: "unat k < length (excl c)" "a < e_end ?x" "\<forall>j < unat k. e_end (excl c ! j) \<le> a" using r(2) Some by simp_all
    have eq: "excl c = ?xs @ ?x # ?ys" using k(1) by (rule id_take_nth_drop)
    have ap: "apart (excl c)" using ok by (simp add: excl_ok_def)
    have "\<forall>y \<in> set ?xs. e_end y \<le> a" using k by (auto simp: in_set_conv_nth)
    moreover have "\<forall>y \<in> set ?ys. e_end ?x \<le> e_start y \<and> e_start y < e_end y"
      using ap unfolding apart_def by (subst (asm) (1 2) eq) (auto simp: sorted_wrt_append)
    moreover have "e_start ?x < e_end ?x" using ap k(1) by (simp add: apart_def)
    ultimately show ?thesis
      using that(2) [OF _ eq] r(1) Some k read_excl [OF ok k(1)] by simp
  qed
qed

lemma apart_simps [simp]:
  "apart []"
  "apart (x # xs) \<longleftrightarrow> e_start x < e_end x \<and> (\<forall>y \<in> set xs. e_end x \<le> e_start y) \<and> apart xs"
  "apart (xs @ ys) \<longleftrightarrow> apart xs \<and> apart ys \<and> (\<forall>x \<in> set xs. \<forall>y \<in> set ys. e_end x \<le> e_start y)"
  by (auto simp: apart_def sorted_wrt_append)

section \<open>What is left of a range\<close>

primrec push_each :: "(u64 \<Rightarrow> u64 \<Rightarrow> marker \<Rightarrow> marker res) \<Rightarrow> (u64 \<times> u64) list \<Rightarrow> marker \<Rightarrow> marker res" where
  "push_each push [] m = Inr m"
| "push_each push (r # rs) m = andThen (push (fst r) (snd r) m) (push_each push rs)"

abbreviation push_all_ranges :: "(u64 \<times> u64) list \<Rightarrow> marker \<Rightarrow> marker res" where
  "push_all_ranges \<equiv> push_each GC_push_all"

definition covered :: "(u64 \<times> u64) list \<Rightarrow> u64 set" where
  "covered rs = (\<Union>(b, e) \<in> set rs. {b ..< e})"

lemma covered_simps [simp]: "covered [] = {}" "covered ((b, e) # rs) = {b ..< e} \<union> covered rs"
  by (simp_all add: covered_def)

lemma lift_marker_push:
  "lift_marker (push_each push (r # rs)) c = andThen (lift_marker (push (fst r) (snd r)) c) (lift_marker (push_each push rs))"
  by (cases "push (fst r) (snd r) (cl_marker c)") (simp_all add: lift_marker_def)

lemma lift_marker_none: "lift_marker (push_each push []) c = Inr c"
  by (simp add: lift_marker_def)

lemma lift_marker_one: "lift_marker (push_each push [(b, e)]) c = lift_marker (push b e) c"
  by (cases "push b e (cl_marker c)") (simp_all add: lift_marker_def)

lemma excl_marker [simp]: "excl (c\<lparr>cl_marker := m\<rparr>) = excl c" "excl_ok (c\<lparr>cl_marker := m\<rparr>) = excl_ok c"
  by (simp_all add: excl_def excl_ok_def)

lemma length_filter_less_if:
  assumes "x \<in> set xs" "Q x" "\<not> P x" "\<And>y. P y \<Longrightarrow> Q y"
  shows "length (filter P xs) < length (filter Q xs)"
  using assms(1)
proof (induction xs)
  case (Cons y ys)
  have "length (filter P zs) \<le> length (filter Q zs)" for zs using assms(4) by (induction zs) auto
  then show ?case using Cons assms(2-4) by (auto simp: less_Suc_eq_le)
qed simp

lemma next_exclusion_marker [simp]: "GC_next_exclusion a (c\<lparr>cl_marker := m\<rparr>) = GC_next_exclusion a c"
  by (simp add: GC_next_exclusion_def)

lemma push_with_exclusions_spec:
  assumes "excl_ok c" "excl c \<noteq> []" "length (filter (\<lambda>x. low < e_end x) (excl c)) < n"
  shows "\<exists>rs. (\<forall>m. push_with_exclusions push n low high (c\<lparr>cl_marker := m\<rparr>) = lift_marker (push_each push rs) (c\<lparr>cl_marker := m\<rparr>)) \<and>
    covered rs = {low ..< high} - excluded (excl c) \<and> (\<forall>(b, e) \<in> set rs. b < e)"
  using assms
proof (induction n arbitrary: low)
  case (Suc n)
  show ?case
  proof (cases "low < high")
    case False
    then show ?thesis by (intro exI [of _ "[]"]) (simp add: lift_marker_def)
  next
    case True
    show ?thesis
    proof (cases rule: next_exclusion_cases [OF Suc.prems(1,2), where a = low])
      case 1
      then have "{low ..< high} - excluded (excl c) = {low ..< high}" by (force simp: excluded_def)
      then show ?thesis using 1 True lift_marker_one by (intro exI [of _ "[(low, high)]"]) (simp del: push_each.simps)
    next
      case (2 k xs x ys)
      have before: "{low ..< h} \<inter> excluded xs = {}" for h using 2(7) by (force simp: excluded_def)
      have after: "{l ..< h} \<inter> excluded ys = {}" if "h \<le> e_end x" for l h using 2(8) that by (force simp: excluded_def)
      show ?thesis
      proof (cases "high \<le> e_start x")
        case le: True
        then have "{low ..< high} - excluded (excl c) = {low ..< high}"
          unfolding 2(2) using before [of high] after [OF less_imp_le [OF le_less_trans [OF le 2(5)]], of low] le by auto
        then show ?thesis using 2 True le lift_marker_one by (intro exI [of _ "[(low, high)]"]) (simp del: push_each.simps)
      next
        case False
        have "x \<in> set (excl c)" using 2(2) by simp
        then have "length (filter (\<lambda>y. e_end x < e_end y) (excl c)) < length (filter (\<lambda>y. low < e_end y) (excl c))"
          using 2(6) by (rule length_filter_less_if) (auto intro: less_trans [OF 2(6)])
        then have "length (filter (\<lambda>y. e_end x < e_end y) (excl c)) < n" using Suc.prems(3) by simp
        from Suc.IH [OF Suc.prems(1,2) this] obtain rs where
          rs: "\<And>m. push_with_exclusions push n (e_end x) high (c\<lparr>cl_marker := m\<rparr>) = lift_marker (push_each push rs) (c\<lparr>cl_marker := m\<rparr>)"
            "covered rs = {e_end x ..< high} - excluded (excl c)" "\<forall>(b, e) \<in> set rs. b < e" by blast
        let ?rs = "(if low < e_start x then [(low, e_start x)] else []) @ rs"
        have "push_with_exclusions push (Suc n) low high (c\<lparr>cl_marker := m\<rparr>) = lift_marker (push_each push ?rs) (c\<lparr>cl_marker := m\<rparr>)" for m
        proof (cases "low < e_start x")
          case pre: True
          show ?thesis
            using 2(1,4) True False pre rs(1)
            by (cases "push low (e_start x) m") (simp_all add: lift_marker_def)
        qed (use 2(1,4) True False rs(1) in simp)
        moreover have "covered ?rs = {low ..< high} - excluded (excl c)"
        proof -
          have "{low ..< high} = {low ..< e_start x} \<union> {max low (e_start x) ..< min high (e_end x)} \<union> {e_end x ..< high}"
            using False 2(5,6) True by auto
          moreover have "{max low (e_start x) ..< min high (e_end x)} \<subseteq> excluded (excl c)" unfolding 2(2) by auto
          moreover have "{low ..< e_start x} \<inter> excluded (excl c) = {}"
            unfolding 2(2) using before [of "e_start x"] after [OF less_imp_le [OF 2(5)], of low] by auto
          moreover have "covered ?rs = {low ..< e_start x} \<union> ({e_end x ..< high} - excluded (excl c))" using rs(2) by simp
          ultimately show ?thesis by blast
        qed
        moreover have "\<forall>(b, e) \<in> set ?rs. b < e" using rs(3) by auto
        ultimately show ?thesis by (intro exI [of _ ?rs]) blast
      qed
    qed
  qed
qed simp

section \<open>A new excluded range\<close>

lemma shift_up_spec:
  assumes "n \<le> unat i" "unat i < length t"
  shows "\<exists>t'. shift_up n i t = Inr t' \<and> length t' = length t \<and>
    (\<forall>j < length t. t' ! j = (if unat i - n < j \<and> j \<le> unat i then t ! (j - 1) else t ! j))"
  using assms
proof (induction n arbitrary: i t)
  case (Suc n)
  have u: "unat (i - 1) = unat i - 1" using Suc.prems(1) by (simp add: unat_sub word_le_nat_alt)
  let ?t = "t[unat i := t ! (unat i - 1)]"
  have pre: "n \<le> unat (i - 1)" "unat (i - 1) < length ?t" using Suc.prems u by simp_all
  obtain t' where t': "shift_up n (i - 1) ?t = Inr t'" "length t' = length t"
    "\<forall>j < length t. t' ! j = (if unat (i - 1) - n < j \<and> j \<le> unat (i - 1) then ?t ! (j - 1) else ?t ! j)"
    using Suc.IH [OF pre] unfolding length_list_update by blast
  have "t' ! j = (if unat i - Suc n < j \<and> j \<le> unat i then t ! (j - 1) else t ! j)" if "j < length t" for j
    using t'(3) [rule_format, OF that] that Suc.prems unfolding u by (auto simp: nth_list_update)
  then show ?case using t' Suc.prems u by (intro exI [of _ t']) (simp add: read_at_def write_at_def)
qed auto

lemma insert_exclusion_spec:
  assumes ok: "excl_ok c" and xs: "excl c = xs @ ys" and room: "length (excl c) < MAX_EXCLUSIONS"
    and k: "case k of None \<Rightarrow> ys = [] | Some k \<Rightarrow> unat k = length xs"
    and ap: "apart (xs @ \<lparr>e_start = start, e_end = finish\<rparr> # ys)"
  shows "\<exists>t n. insert_exclusion start finish k c = Inr (c\<lparr>GC_excl_table := t, GC_excl_table_entries := n\<rparr>) \<and>
    excl_ok (c\<lparr>GC_excl_table := t, GC_excl_table_entries := n\<rparr>) \<and>
    excl (c\<lparr>GC_excl_table := t, GC_excl_table_entries := n\<rparr>) = xs @ \<lparr>e_start = start, e_end = finish\<rparr> # ys"
proof -
  let ?t = "GC_excl_table c" and ?n = "GC_excl_table_entries c" and ?x = "\<lparr>e_start = start, e_end = finish\<rparr>"
  let ?k = "length xs"
  have n: "unat ?n = ?k + length ys" "unat ?n < 512" "length ?t = 512"
    using length_excl [OF ok] xs room ok by (simp_all add: MAX_EXCLUSIONS_def excl_ok_def)
  have n1: "unat (?n + 1) = Suc (unat ?n)" unfolding unat_word_ariths using n(2) by simp
  have old: "?t ! j = (xs @ ys) ! j" if "j < unat ?n" for j using that unfolding xs [symmetric] by (simp add: excl_def)
  have "\<exists>w t'. (case k of None \<Rightarrow> Inr (?n, ?t)
      | Some k \<Rightarrow> andThen (shift_up (unat (?n - k)) ?n ?t) (\<lambda>t. Inr (k, t))) = Inr (w, t') \<and> unat w = ?k \<and> length t' = 512 \<and>
      (\<forall>j < 512. t' ! j = (if ?k < j \<and> j \<le> unat ?n then ?t ! (j - 1) else ?t ! j))"
  proof (cases k)
    case None
    then show ?thesis using k n by auto
  next
    case (Some p)
    then have p: "unat p = ?k" using k by simp
    then have d: "unat (?n - p) = length ys" using n(1) by (simp add: unat_sub word_le_nat_alt)
    then obtain t' where "shift_up (unat (?n - p)) ?n ?t = Inr t'" "length t' = 512"
      "\<forall>j < 512. t' ! j = (if unat ?n - unat (?n - p) < j \<and> j \<le> unat ?n then ?t ! (j - 1) else ?t ! j)"
      using shift_up_spec [of "unat (?n - p)" ?n ?t] n by auto
    then show ?thesis using Some p d n(1) by simp
  qed
  then obtain w t' where w: "(case k of None \<Rightarrow> Inr (?n, ?t)
      | Some k \<Rightarrow> andThen (shift_up (unat (?n - k)) ?n ?t) (\<lambda>t. Inr (k, t))) = Inr (w, t')" "unat w = ?k" "length t' = 512"
    "\<forall>j < 512. t' ! j = (if ?k < j \<and> j \<le> unat ?n then ?t ! (j - 1) else ?t ! j)" by blast
  let ?c = "c\<lparr>GC_excl_table := t'[?k := ?x], GC_excl_table_entries := ?n + 1\<rparr>"
  have "?k < 512" using n by simp
  then have run: "insert_exclusion start finish k c = Inr ?c"
    using w n(2) by (simp add: insert_exclusion_def Let_def write_at_def MAX_EXCLUSIONS_def)
  have "excl ?c = xs @ ?x # ys"
  proof (rule nth_equalityI)
    show "length (excl ?c) = length (xs @ ?x # ys)" using n n1 w(3) by (simp add: excl_def)
    fix j
    assume "j < length (excl ?c)"
    then have j: "j \<le> unat ?n" "j < 512" using n1 n(2) by (simp_all add: excl_def)
    then have "excl ?c ! j = (if j = ?k then ?x else if ?k < j then ?t ! (j - 1) else ?t ! j)"
      using w(3,4) n1 by (simp add: excl_def nth_list_update)
    also have "\<dots> = (xs @ ?x # ys) ! j"
      using j n(1) old [of "j - 1"] old [of j] by (cases "?k < j") (auto simp: nth_append nth_Cons')
    finally show "excl ?c ! j = (xs @ ?x # ys) ! j" .
  qed
  moreover have "excl_ok ?c" using ap n n1 w(3) calculation by (simp add: excl_ok_def MAX_EXCLUSIONS_def)
  ultimately show ?thesis using run by blast
qed

lemma exclude_spec:
  assumes ok: "excl_ok c" and range: "start < finish"
  shows "case GC_exclude_static_roots_inner start finish c of
      Inl e \<Rightarrow>
        if {start ..< finish} \<inter> excluded (excl c) \<noteq> {} then e = Panic ''Exclusion ranges overlap''
        else e = Panic ''Too many exclusions'' \<and> length (excl c) = MAX_EXCLUSIONS
    | Inr c' \<Rightarrow>
        {start ..< finish} \<inter> excluded (excl c) = {} \<and> excl_ok c' \<and>
        excluded (excl c') = excluded (excl c) \<union> {start ..< finish} \<and>
        c'\<lparr>GC_excl_table := GC_excl_table c, GC_excl_table_entries := GC_excl_table_entries c\<rparr> = c"
proof -
  let ?x = "\<lparr>e_start = start, e_end = finish\<rparr>"
  have insert: ?thesis
    if run: "GC_exclude_static_roots_inner start finish c = insert_exclusion start finish k c"
      and xs: "excl c = xs @ ys" and k: "case k of None \<Rightarrow> ys = [] | Some k \<Rightarrow> unat k = length xs"
      and before: "\<forall>y \<in> set xs. e_end y \<le> start" and behind: "\<forall>y \<in> set ys. finish \<le> e_start y" for k xs ys
  proof -
    have disjoint: "{start ..< finish} \<inter> excluded (excl c) = {}"
      using before behind unfolding xs by (force simp: excluded_def)
    show ?thesis
    proof (cases "length (excl c) < MAX_EXCLUSIONS")
      case False
      then have "GC_exclude_static_roots_inner start finish c = Inl (Panic ''Too many exclusions'')" "length (excl c) = MAX_EXCLUSIONS"
        using run length_excl [OF ok] ok by (simp_all add: insert_exclusion_def Let_def excl_ok_def)
      then show ?thesis using disjoint by simp
    next
      case True
      have "apart (xs @ ?x # ys)" using ok range before behind unfolding excl_ok_def xs
        by (auto intro: order_trans less_imp_le [THEN order_trans])
      from insert_exclusion_spec [OF ok xs True k this] run disjoint show ?thesis
        unfolding xs by auto
    qed
  qed
  show ?thesis
  proof (cases "excl c = []")
    case True
    then have "GC_excl_table_entries c = 0" using length_excl [OF ok] by (simp add: unat_eq_0)
    then have "GC_exclude_static_roots_inner start finish c = insert_exclusion start finish None c"
      by (simp add: GC_exclude_static_roots_inner_def)
    then show ?thesis using insert [of None "[]" "[]"] True by simp
  next
    case False
    then have n: "GC_excl_table_entries c \<noteq> 0" using length_excl [OF ok] by auto
    show ?thesis
    proof (cases rule: next_exclusion_cases [OF ok False, where a = start])
      case 1
      then have "GC_exclude_static_roots_inner start finish c = insert_exclusion start finish None c"
        using n by (simp add: GC_exclude_static_roots_inner_def)
      then show ?thesis using insert [of None "excl c" "[]"] 1 by simp
    next
      case (2 k xs x ys)
      have run: "GC_exclude_static_roots_inner start finish c =
        (if e_start x < finish then Inl (Panic ''Exclusion ranges overlap'')
         else if e_start x = finish
         then andThen (write_at (GC_excl_table c) k (x\<lparr>e_start := start\<rparr>)) (\<lambda>t. Inr (c\<lparr>GC_excl_table := t\<rparr>))
         else insert_exclusion start finish (Some k) c)"
        using n 2(1,4) by (simp add: GC_exclude_static_roots_inner_def)
      consider "e_start x < finish" | "e_start x = finish" | "finish < e_start x" by fastforce
      then show ?thesis
      proof cases
        case 1
        have "max start (e_start x) \<in> {start ..< finish} \<inter> {e_start x ..< e_end x}" using 1 range 2(5,6) by auto
        moreover have "{e_start x ..< e_end x} \<subseteq> excluded (excl c)" unfolding 2(2) by auto
        ultimately have "{start ..< finish} \<inter> excluded (excl c) \<noteq> {}" by blast
        then show ?thesis using run 1 by simp
      next
        case eq: 2
        let ?t = "(GC_excl_table c)[unat k := x\<lparr>e_start := start\<rparr>]"
        let ?c = "c\<lparr>GC_excl_table := ?t, GC_excl_table_entries := GC_excl_table_entries c\<rparr>"
        have len: "length xs < unat (GC_excl_table_entries c)" "length (GC_excl_table c) = MAX_EXCLUSIONS"
          "unat (GC_excl_table_entries c) \<le> MAX_EXCLUSIONS"
          using length_excl [OF ok] ok 2(2) by (simp_all add: excl_ok_def)
        have "GC_exclude_static_roots_inner start finish c = Inr ?c"
          using run eq len 2(3) by (simp add: write_at_def)
        moreover have "excl ?c = (excl c)[length xs := x\<lparr>e_start := start\<rparr>]" using 2(3) by (simp add: excl_def take_update_swap)
        then have e: "excl ?c = xs @ x\<lparr>e_start := start\<rparr> # ys" unfolding 2(2) by simp
        moreover have "apart (xs @ x # ys)" using ok unfolding excl_ok_def 2(2) by blast
        then have "apart (excl ?c)" unfolding e using 2(5,7) range eq by auto
        then have "excl_ok ?c" using ok len by (simp add: excl_ok_def)
        moreover have "{start ..< finish} \<inter> excluded (excl c) = {}"
          unfolding 2(2) using 2(5,7,8) eq by (force simp: excluded_def)
        moreover have "excluded (excl ?c) = excluded (excl c) \<union> {start ..< finish}"
          unfolding e 2(2) using eq 2(5) range by auto
        ultimately show ?thesis by auto
      next
        case 3
        have "apart (x # ys)" using ok unfolding excl_ok_def 2(2) by simp
        then have "\<forall>y \<in> set (x # ys). finish \<le> e_start y" using 3 by auto
        moreover have "GC_exclude_static_roots_inner start finish c = insert_exclusion start finish (Some k) c" using run 3 by auto
        ultimately show ?thesis using insert [of "Some k" xs "x # ys"] 2(2,3,7) by simp
      qed
    qed
  qed
qed

section \<open>The properties\<close>

text \<open>A collector without roots, for the witnesses.\<close>

definition no_roots :: collector where
  "no_roots =
     \<lparr>cl_marker =
        \<lparr>mk_gc = initial_gc, GC_mark_stack = [], GC_mark_stack_size = 4096, GC_mark_state = MS_NONE, GC_mark_stack_too_small = False,
         GC_objects_are_marked = False, GC_scan_ptr = 0, GC_least_plausible_heap_addr = 0,
         GC_greatest_plausible_heap_addr = 0, GC_valid_offsets = replicate 4096 False\<rparr>,
      GC_static_roots = replicate 2048 \<lparr>r_start = 0, r_end = 0, r_next = None, r_tmp = False\<rparr>, n_root_sets = 0,
      GC_root_index = replicate 64 None, GC_excl_table = \<lparr>e_start = 0x3000, e_end = 0x4000\<rparr> # replicate 511 \<lparr>e_start = 0, e_end = 0\<rparr>,
      GC_excl_table_entries = 1, GC_no_dls = False, last_static_root_set = 2048, last_tmp_root_set = 2048\<rparr>"

lemma no_roots_ok: "roots_ok no_roots" "live no_roots = []" "n_root_sets no_roots = 0"
proof -
  show "live no_roots = []" "n_root_sets no_roots = 0" by (simp_all add: live_def no_roots_def)
  then show "roots_ok no_roots"
    using index_ok_empty [of "GC_static_roots no_roots"]
    by (simp add: roots_ok_def RT_SIZE_def) (simp add: no_roots_def MAX_ROOT_SETS_def root_size_def initial_gc_def)
qed

lemma no_roots_excl: "excl no_roots = [\<lparr>e_start = 0x3000, e_end = 0x4000\<rparr>]" "excl_ok no_roots"
proof -
  have "take 1 (GC_excl_table no_roots) = [\<lparr>e_start = 0x3000, e_end = 0x4000\<rparr>]"
    unfolding no_roots_def by (simp add: take_Suc)
  then show e: "excl no_roots = [\<lparr>e_start = 0x3000, e_end = 0x4000\<rparr>]" by (simp add: excl_def) (simp add: no_roots_def)
  show "excl_ok no_roots" unfolding excl_ok_def e by (simp add: MAX_EXCLUSIONS_def) (simp add: no_roots_def)
qed

text \<open>C23: A range added to the root sets, rounded inward to words, is covered afterwards and nothing else
  becomes a root; the sets that are not temporary keep all they covered and, if the new range is not
  temporary, cover it too; and the table stays well formed: the hash index finds every set, and the
  total size is the sum of the sets.\<close>

theorem add_roots_refines_union:
  assumes "roots_ok c" "n_root_sets c < MAX_ROOT_SETS"
  shows "\<exists>c'. GC_add_roots_inner b e tmp c = Inr c' \<and> roots_ok c' \<and>
    addresses (live c') = addresses (live c) \<union> {(b + 7) AND NOT 7 ..< e AND NOT 7} \<and>
    permanent (live c) \<subseteq> permanent (live c') \<and> (\<not> tmp \<longrightarrow> {(b + 7) AND NOT 7 ..< e AND NOT 7} \<subseteq> permanent (live c'))"
  by (rule add_roots_spec [OF assms])

lemma add_roots_refines_union_witness:
  "\<exists>c'. GC_add_roots_inner 0x1003 0x2005 False no_roots = Inr c' \<and> roots_ok c' \<and> addresses (live c') = {0x1008 ..< 0x2000} \<and>
     {0x1008 ..< 0x2000} \<subseteq> permanent (live c')"
proof -
  have "(0x1003 + 7 :: u64) AND NOT 7 = 0x1008" "(0x2005 :: u64) AND NOT 7 = 0x2000" by simp_all
  then show ?thesis
    using add_roots_refines_union [of no_roots "0x1003" "0x2005" False] no_roots_ok by (auto simp: MAX_ROOT_SETS_def addresses_def)
qed

text \<open>C24: Removing root sets removes exactly those asked for, as a multiset of ranges: the ones within
  \<open>[b, e)\<close>, or the temporary ones before the dynamic libraries are registered anew. The table stays
  well formed, although the last set moves to the place of a removed one.\<close>

theorem remove_roots_refines_filter:
  assumes "roots_ok c"
  shows "(\<exists>c'. GC_remove_roots_inner b e c = Inr c' \<and> roots_ok c' \<and>
      mset (live c') = filter_mset (\<lambda>(b', e', _). \<not> (b \<le> b' \<and> e' \<le> e)) (mset (live c))) \<and>
    (\<exists>c'. GC_remove_tmp_roots c = Inr c' \<and> roots_ok c' \<and> mset (live c') = filter_mset (\<lambda>(_, _, tmp). \<not> tmp) (mset (live c)))"
proof
  show "\<exists>c'. GC_remove_roots_inner b e c = Inr c' \<and> roots_ok c' \<and>
      mset (live c') = filter_mset (\<lambda>(b', e', _). \<not> (b \<le> b' \<and> e' \<le> e)) (mset (live c))"
    using remove_roots_spec [OF assms, of "\<lambda>(b', e', _). b \<le> b' \<and> e' \<le> e"]
    by (simp add: GC_remove_roots_inner_def core_def case_prod_unfold)
  show "\<exists>c'. GC_remove_tmp_roots c = Inr c' \<and> roots_ok c' \<and> mset (live c') = filter_mset (\<lambda>(_, _, tmp). \<not> tmp) (mset (live c))"
    using remove_roots_spec [OF assms, of "\<lambda>(_, _, tmp). tmp"]
    by (simp add: GC_remove_tmp_roots_def core_def case_prod_unfold)
qed

lemma remove_roots_refines_filter_witness:
  "\<exists>c1 c2 c3. append_root 0x1000 0x2000 True no_roots = Inr c1 \<and> append_root 0x5000 0x6000 False c1 = Inr c2 \<and>
     GC_remove_tmp_roots c2 = Inr c3 \<and> live c3 = [(0x5000, 0x6000, False)]"
proof -
  obtain c1 where c1: "append_root 0x1000 0x2000 True no_roots = Inr c1" "roots_ok c1" "live c1 = [(0x1000, 0x2000, True)]"
    using append_root_spec [OF no_roots_ok(1), of "0x1000" "0x2000" True] no_roots_ok(2,3) by (auto simp: MAX_ROOT_SETS_def)
  have "n_root_sets c1 = 1" using arg_cong [OF c1(3), of length] c1(2) by (simp add: live_def roots_ok_def)
  then obtain c2 where c2: "append_root 0x5000 0x6000 False c1 = Inr c2" "roots_ok c2"
      "live c2 = [(0x1000, 0x2000, True), (0x5000, 0x6000, False)]"
    using append_root_spec [OF c1(2), of "0x5000" "0x6000" False] c1(3) by (auto simp: MAX_ROOT_SETS_def)
  obtain c3 where "GC_remove_tmp_roots c2 = Inr c3" "mset (live c3) = {#(0x5000, 0x6000, False)#}"
    using conjunct2 [OF remove_roots_refines_filter [OF c2(2), of 0 0]] c2(3) by auto
  then show ?thesis using c1 c2 by auto
qed

text \<open>The lookup of an address in the root sets answers whether some set contains it, whatever the set
  remembered from the last lookup, and changes nothing but what it remembers.\<close>

theorem is_static_root_decides:
  assumes "roots_ok c"
  shows "\<exists>k. GC_is_static_root p c = Inr (p \<in> addresses (live c), c\<lparr>last_static_root_set := k\<rparr>)"
  by (rule is_static_root_spec [OF assms])

lemma is_static_root_decides_witness:
  "\<exists>c k. append_root 0x1000 0x2000 True no_roots = Inr c \<and> GC_is_static_root 0x1008 c = Inr (True, c\<lparr>last_static_root_set := k\<rparr>)"
proof -
  obtain c where c: "append_root 0x1000 0x2000 True no_roots = Inr c" "roots_ok c" "live c = [(0x1000, 0x2000, True)]"
    using append_root_spec [OF no_roots_ok(1), of "0x1000" "0x2000" True] no_roots_ok(2,3) by (auto simp: MAX_ROOT_SETS_def)
  then have "0x1008 \<in> addresses (live c)" by (simp add: addresses_def)
  then show ?thesis using is_static_root_decides [OF c(2), of "0x1008"] c(1) by auto
qed

text \<open>C25: A range is added to the excluded ones unless it overlaps one of them or the table is full, and then
  the excluded addresses are the old ones and the range; the table stays sorted and without overlaps.
  An overlap with any entry is found, although only the next one is looked at.\<close>

theorem exclude_static_roots_refines_union:
  assumes "excl_ok c" "start < finish"
  shows "case GC_exclude_static_roots_inner start finish c of
      Inl e \<Rightarrow>
        if {start ..< finish} \<inter> excluded (excl c) \<noteq> {} then e = Panic ''Exclusion ranges overlap''
        else e = Panic ''Too many exclusions'' \<and> length (excl c) = MAX_EXCLUSIONS
    | Inr c' \<Rightarrow>
        {start ..< finish} \<inter> excluded (excl c) = {} \<and> excl_ok c' \<and>
        excluded (excl c') = excluded (excl c) \<union> {start ..< finish} \<and>
        c'\<lparr>GC_excl_table := GC_excl_table c, GC_excl_table_entries := GC_excl_table_entries c\<rparr> = c"
  by (rule exclude_spec [OF assms])

lemma exclude_static_roots_refines_union_witness:
  "GC_exclude_static_roots_inner 0x3800 0x5000 no_roots = Inl (Panic ''Exclusion ranges overlap'') \<and>
   (\<exists>c'. GC_exclude_static_roots_inner 0x1000 0x2000 no_roots = Inr c' \<and> excl_ok c' \<and>
      excluded (excl c') = {0x3000 ..< 0x4000} \<union> {0x1000 ..< 0x2000})"
proof
  have "0x3800 \<in> {0x3800 ..< 0x5000} \<inter> excluded (excl no_roots)" by (simp add: no_roots_excl)
  then have "{0x3800 ..< 0x5000} \<inter> excluded (excl no_roots) \<noteq> {}" by blast
  then show "GC_exclude_static_roots_inner 0x3800 0x5000 no_roots = Inl (Panic ''Exclusion ranges overlap'')"
    using exclude_static_roots_refines_union [OF no_roots_excl(2), of "0x3800" "0x5000"] by (auto split: sum.splits)
  have "{0x1000 ..< 0x2000} \<inter> excluded (excl no_roots) = {}" by (simp add: no_roots_excl)
  moreover have "length (excl no_roots) \<noteq> MAX_EXCLUSIONS" by (simp add: no_roots_excl MAX_EXCLUSIONS_def)
  ultimately show "\<exists>c'. GC_exclude_static_roots_inner 0x1000 0x2000 no_roots = Inr c' \<and> excl_ok c' \<and>
      excluded (excl c') = {0x3000 ..< 0x4000} \<union> {0x1000 ..< 0x2000}"
    using exclude_static_roots_refines_union [OF no_roots_excl(2), of "0x1000" "0x2000"] no_roots_excl(1) by (auto split: sum.splits)
qed

text \<open>C26: A root set is pushed on the mark stack as ranges that cover its addresses that are not excluded,
  and no others, whatever the state of the marker; the binary search and the loop over the excluded
  ranges end within the rounds the model gives them. The ranges are pushed as they are, or, when only
  written pages are wanted and the dirty bits of static data are known, those pages of them.\<close>

theorem push_leaves_out_the_excluded:
  assumes "excl_ok c" "excl c \<noteq> []"
  shows "\<exists>rs. GC_push_conditional_with_exclusions vdb dirty low high everything c =
      lift_marker (push_each (GC_push_conditional_static vdb dirty everything) rs) c \<and>
    (everything \<or> \<not> vdb \<longrightarrow>
      GC_push_conditional_with_exclusions vdb dirty low high everything c = lift_marker (push_each GC_push_all rs) c) \<and>
    covered rs = {low ..< high} - excluded (excl c) \<and> (\<forall>(b, e) \<in> set rs. b < e)"
proof -
  let ?push = "GC_push_conditional_static vdb dirty everything"
  have "length (filter (\<lambda>x. low < e_end x) (excl c)) \<le> length (excl c)" by (rule length_filter_le)
  also have "\<dots> < MAX_EXCLUSIONS + 2" using assms(1) length_excl [OF assms(1)] by (simp add: excl_ok_def)
  finally obtain rs where
    "\<forall>m. push_with_exclusions ?push (MAX_EXCLUSIONS + 2) low high (c\<lparr>cl_marker := m\<rparr>) = lift_marker (push_each ?push rs) (c\<lparr>cl_marker := m\<rparr>)"
    "covered rs = {low ..< high} - excluded (excl c)" "\<forall>(b, e) \<in> set rs. b < e"
    using push_with_exclusions_spec [OF assms] by blast
  moreover from this(1) [rule_format, of "cl_marker c"]
  have "GC_push_conditional_with_exclusions vdb dirty low high everything c = lift_marker (push_each ?push rs) c"
    by (simp add: GC_push_conditional_with_exclusions_def)
  moreover have "everything \<or> \<not> vdb \<longrightarrow> ?push = GC_push_all" by (auto simp: GC_push_conditional_static_def fun_eq_iff)
  ultimately show ?thesis by metis
qed

lemma push_leaves_out_the_excluded_witness:
  "\<exists>rs. GC_push_conditional_with_exclusions False (\<lambda>_. False) 0x2000 0x5000 True no_roots = lift_marker (push_all_ranges rs) no_roots \<and>
     covered rs = {0x2000 ..< 0x3000} \<union> {0x4000 ..< 0x5000}"
proof -
  have "{0x2000 ..< 0x5000} - excluded (excl no_roots) = {0x2000 ..< 0x3000} \<union> {0x4000 ..< 0x5000 :: u64}"
    by (auto simp: no_roots_excl word_less_nat_alt word_le_nat_alt)
  then show ?thesis
    using push_leaves_out_the_excluded [OF no_roots_excl(2), of False "\<lambda>_. False" "0x2000" "0x5000" True] no_roots_excl(1) by auto
qed

end
