(* ===== verification/Atomix_GC_Runtime.thy ===== *)
theory Atomix_GC_Runtime
  imports Atomix_GC_Roots
begin

unbundle bit_operations_syntax

text \<open>
  The state of a whole collector, and the state machine \<open>GC_mark_some\<close> of \<open>mark.c\<close> that does a small
  amount of marking at a time.

  What others decide is an argument or a list of future answers: whether the client wants a
  collection stopped, whether the time limit has passed, which pages the system reports as written,
  the addresses of new memory, and what becomes of a toggle reference. The end of a list stands for
  no, for no pages, for NULL, and for a reference that is dropped. The hash tables of finalizers
  and of disappearing links are arrays in the heap, and \<open>ht_head\<close> their addresses;
  \<open>GC_fnlz_roots.fo_head\<close>, \<open>GC_fo_entries\<close> and \<open>GC_log_fo_table_size\<close> are the fields of one of them.
\<close>

section \<open>State\<close>

text \<open>Stop functions are told apart by their addresses. \<open>GC_default_stop_func\<close> is the first or the last.\<close>

datatype stop_func = GC_never_stop_func | GC_timeout_stop_func | Client_stop_func

record hashtbl =
  ht_head :: u64
  ht_entries :: u64
  ht_log_size :: nat

datatype toggleref_status = GC_TOGGLE_REF_DROP | GC_TOGGLE_REF_STRONG | GC_TOGGLE_REF_WEAK

record allocator =
  al_collector :: collector
  GC_default_stop_func :: stop_func
  stop_answers :: "bool list"
  clock_answers :: "bool list"
  timeout_count :: u32
  dirty_answers :: "(u64 \<Rightarrow> bool) list"
  grungy_pages :: "u64 \<Rightarrow> bool"
  get_mem_answers :: "u64 list"
  GC_time_limit :: u64
  GC_is_full_gc :: bool
  GC_need_full_gc :: bool
  n_partial_gcs :: i32
  GC_full_freq :: i32
  GC_n_attempts :: i32
  max_prior_attempts :: i32
  GC_deficit :: i32
  GC_rate :: i32
  GC_used_heap_size_after_full :: u64
  GC_bytes_allocd_before_gc :: u64
  GC_reclaimed_bytes_before_gc :: u64
  GC_capacity_heap_sects :: u64
  GC_max_heapsize :: u64
  GC_last_heap_addr :: u64
  GC_heapsize_at_forced_unmap :: u64
  GC_max_retries :: u64
  GC_dont_expand :: bool
  last_fo_entries :: u64
  last_bytes_finalized :: u64
  GC_allocd_bytes_per_finalizer :: u64
  GC_size_map :: "u64 list"
  GC_dl_hashtbl :: hashtbl
  GC_ll_hashtbl :: hashtbl
  fo_hashtbl :: hashtbl
  finalize_now :: u64
  need_unreachable_finalization :: bool
  GC_java_finalization :: bool
  GC_finalize_on_demand :: bool
  GC_finalizer_nested :: u8
  GC_finalizer_skipped :: u32
  last_finalizer_notification :: u64
  GC_toggleref_arr :: u64
  GC_toggleref_array_size :: u64
  GC_toggleref_array_capacity :: u64
  GC_toggleref_callback_set :: bool
  toggleref_answers :: "toggleref_status list"

text \<open>What does not change: the environment of the roots, the table of mark procedures, the address
  passed as the cold end of the stack, the page size, hooks, and the number of rounds for loops
  whose end the code does not bound.\<close>

record runtime =
  rt_env :: environment
  rt_procs :: mark_procs
  rt_approx_sp :: u64
  GC_page_size :: u64
  GC_check_heap :: "collector \<Rightarrow> collector res"
  GC_object_finalized_proc :: "u64 \<Rightarrow> collector \<Rightarrow> collector res"
  rt_rounds :: nat

abbreviation the_gc :: "allocator \<Rightarrow> gc" where
  "the_gc a \<equiv> mk_gc (cl_marker (al_collector a))"

definition lift_collector :: "(collector \<Rightarrow> collector res) \<Rightarrow> allocator \<Rightarrow> allocator res" where
  "lift_collector f a = andThen (f (al_collector a)) (\<lambda>c. Inr (a\<lparr>al_collector := c\<rparr>))"

definition on_marker :: "(marker \<Rightarrow> marker) \<Rightarrow> allocator \<Rightarrow> allocator" where
  "on_marker f a = (let c = al_collector a in a\<lparr>al_collector := c\<lparr>cl_marker := f (cl_marker c)\<rparr>\<rparr>)"

definition on_gc :: "(gc \<Rightarrow> gc) \<Rightarrow> allocator \<Rightarrow> allocator" where
  "on_gc f = on_marker (\<lambda>m. m\<lparr>mk_gc := f (mk_gc m)\<rparr>)"

definition run_gc :: "(gc \<Rightarrow> gc res) \<Rightarrow> allocator \<Rightarrow> allocator res" where
  "run_gc f = lift_collector (lift_marker (lift_gc f))"

text \<open>An operation on the \<open>gc\<close> state with a result.\<close>

definition run_gc_with :: "(gc \<Rightarrow> ('r \<times> gc) res) \<Rightarrow> allocator \<Rightarrow> ('r \<times> allocator) res" where
  "run_gc_with f a = andThen (f (the_gc a)) (\<lambda>(r, g). Inr (r, on_gc (\<lambda>_. g) a))"

definition rt_stack_size :: "runtime \<Rightarrow> u64" where
  "rt_stack_size rt = GC_stackbottom (rt_env rt) - stack_pointer (rt_env rt)"

definition GC_TIME_UNLIMITED :: u64 where
  "GC_TIME_UNLIMITED = 999999"

section \<open>Stopping\<close>

definition next_answer :: "bool list \<Rightarrow> bool \<times> bool list" where
  "next_answer bs = (case bs of [] \<Rightarrow> (False, []) | b # bs' \<Rightarrow> (b, bs'))"

definition ask_client :: "allocator \<Rightarrow> bool \<times> allocator" where
  "ask_client a = (case next_answer (stop_answers a) of (b, bs) \<Rightarrow> (b, a\<lparr>stop_answers := bs\<rparr>))"

text \<open>\<open>GC_timeout_stop_func\<close> asks the default function, and looks at the clock every fourth time.\<close>

definition ask_timeout :: "allocator \<Rightarrow> bool \<times> allocator" where
  "ask_timeout a =
     (let (stop, a1) = (if GC_default_stop_func a = Client_stop_func then ask_client a else (False, a))
      in if stop then (True, a1)
         else
           let count = timeout_count a1; a2 = a1\<lparr>timeout_count := count + 1\<rparr>
           in if count AND 3 \<noteq> 0 then (False, a2)
              else case next_answer (clock_answers a2) of (b, bs) \<Rightarrow> (b, a2\<lparr>clock_answers := bs\<rparr>))"

definition ask :: "stop_func \<Rightarrow> allocator \<Rightarrow> bool \<times> allocator" where
  "ask f a =
     (case f of GC_never_stop_func \<Rightarrow> (False, a) | GC_timeout_stop_func \<Rightarrow> ask_timeout a | Client_stop_func \<Rightarrow> ask_client a)"

section \<open>A small amount of marking\<close>

definition MARK_FROM_MARK_STACK :: "runtime \<Rightarrow> collector \<Rightarrow> collector res" where
  "MARK_FROM_MARK_STACK rt = lift_marker (GC_mark_from (rt_rounds rt) (rt_procs rt))"

text \<open>\<open>GC_scan_ptr = f(GC_scan_ptr)\<close>\<close>

definition scan_next :: "(u64 \<Rightarrow> marker \<Rightarrow> (u64 \<times> marker) res) \<Rightarrow> collector \<Rightarrow> collector res" where
  "scan_next f = lift_marker (\<lambda>m. andThen (f (GC_scan_ptr m) m) (\<lambda>(p, m'). Inr (m'\<lparr>GC_scan_ptr := p\<rparr>)))"

definition push_roots_and_go :: "runtime \<Rightarrow> (u64 \<Rightarrow> bool) \<Rightarrow> bool \<Rightarrow> u64 \<Rightarrow> collector \<Rightarrow> collector res" where
  "push_roots_and_go rt dirty everything cold_gc_frame c =
     andThen (GC_push_roots (rt_env rt) dirty everything cold_gc_frame c)
       (lift_marker (\<lambda>m. Inr (m\<lparr>GC_objects_are_marked := True,
          GC_mark_state := if GC_mark_state m \<noteq> MS_INVALID then MS_ROOTS_PUSHED else GC_mark_state m\<rparr>)))"

definition grow_mark_stack :: "marker \<Rightarrow> marker res" where
  "grow_mark_stack m = (if GC_mark_stack_too_small m then alloc_mark_stack (2 * GC_mark_stack_size m) m else Inr m)"

definition not_done :: "collector res \<Rightarrow> (bool \<times> collector) res" where
  "not_done r = andThen r (\<lambda>c. Inr (False, c))"

definition mark_some_invalid :: "runtime \<Rightarrow> (u64 \<Rightarrow> bool) \<Rightarrow> u64 \<Rightarrow> collector \<Rightarrow> collector res" where
  "mark_some_invalid rt dirty cold_gc_frame c =
     (let m = cl_marker c
      in if \<not> GC_objects_are_marked m then lift_marker (\<lambda>m. Inr (m\<lparr>GC_mark_state := MS_PUSH_UNCOLLECTABLE\<rparr>)) c
         else if GC_mark_stack m \<noteq> [] then MARK_FROM_MARK_STACK rt c
         else
           andThen
             (if GC_scan_ptr m = 0 \<and> GC_mark_state m = MS_INVALID
              then lift_marker (\<lambda>m. andThen (grow_mark_stack m) (\<lambda>m'. Inr (m'\<lparr>GC_mark_state := MS_PARTIALLY_INVALID\<rparr>))) c
              else Inr c) (\<lambda>c1.
           andThen (scan_next GC_push_next_marked c1) (\<lambda>c2.
             if GC_scan_ptr (cl_marker c2) = 0 \<and> GC_mark_state (cl_marker c2) = MS_PARTIALLY_INVALID
             then push_roots_and_go rt dirty True cold_gc_frame c2 else Inr c2)))"

definition GC_mark_some :: "runtime \<Rightarrow> (u64 \<Rightarrow> bool) \<Rightarrow> u64 \<Rightarrow> collector \<Rightarrow> (bool \<times> collector) res" where
  "GC_mark_some rt dirty cold_gc_frame c =
     (let m = cl_marker c; n = length (GC_mark_stack m)
      in case GC_mark_state m of
           MS_NONE \<Rightarrow> Inr (False, c)
         | MS_PUSH_RESCUERS \<Rightarrow>
             not_done
               (if int (GC_mark_stack_size m) - int INITIAL_MARK_STACK_SIZE div 2 \<le> int n - 1
                then MARK_FROM_MARK_STACK rt (c\<lparr>cl_marker := m\<lparr>GC_mark_stack_too_small := True\<rparr>\<rparr>)
                else
                  andThen (scan_next (GC_push_next_marked_dirty dirty) c) (\<lambda>c1.
                    if GC_scan_ptr (cl_marker c1) = 0 then push_roots_and_go rt dirty False cold_gc_frame c1 else Inr c1))
         | MS_PUSH_UNCOLLECTABLE \<Rightarrow>
             not_done
               (if int (GC_mark_stack_size m div 4) \<le> int n - 1
                then MARK_FROM_MARK_STACK rt c
                else
                  andThen (scan_next GC_push_next_marked_uncollectable c) (\<lambda>c1.
                    if GC_scan_ptr (cl_marker c1) = 0 then push_roots_and_go rt dirty True cold_gc_frame c1 else Inr c1))
         | MS_ROOTS_PUSHED \<Rightarrow>
             if GC_mark_stack m \<noteq> [] then not_done (MARK_FROM_MARK_STACK rt c)
             else andThen (lift_marker (\<lambda>m. grow_mark_stack (m\<lparr>GC_mark_state := MS_NONE\<rparr>)) c) (\<lambda>c'. Inr (True, c'))
         | MS_INVALID \<Rightarrow> not_done (mark_some_invalid rt dirty cold_gc_frame c)
         | MS_PARTIALLY_INVALID \<Rightarrow> not_done (mark_some_invalid rt dirty cold_gc_frame c))"

section \<open>Marking with dirty bits\<close>

text \<open>The dirty bits are read when a collection starts.\<close>

definition GC_read_dirty :: "allocator \<Rightarrow> allocator" where
  "GC_read_dirty a =
     (if \<not> GC_incremental (the_gc a) then a
      else case dirty_answers a of
             [] \<Rightarrow> a\<lparr>grungy_pages := (\<lambda>_. False)\<rparr>
           | d # ds \<Rightarrow> a\<lparr>grungy_pages := d, dirty_answers := ds\<rparr>)"

definition mark_some :: "runtime \<Rightarrow> u64 \<Rightarrow> allocator \<Rightarrow> (bool \<times> allocator) res" where
  "mark_some rt cold_gc_frame a =
     andThen (GC_mark_some rt (grungy_pages a) cold_gc_frame (al_collector a)) (\<lambda>(finished, c). Inr (finished, a\<lparr>al_collector := c\<rparr>))"

end
