(* ===== verification/Atomix_GC_Finalize.thy ===== *)
theory Atomix_GC_Finalize
  imports Atomix_GC_Runtime
begin

unbundle bit_operations_syntax

text \<open>
  What a collection does for finalizers, disappearing links and toggle references, \<open>finalize.c\<close>: after
  marking, \<open>GC_finalize\<close> clears the links to unmarked objects, marks what is reachable from objects with
  finalizers, and queues the ones that are unmarked themselves.

  The entries of the hash tables are structs in the heap, and so are the arrays of their chains. A
  \<open>disappearing_link\<close> has its hidden link, the next entry and its hidden object in its three words; a
  \<open>finalizable_object\<close> has the hidden object, the next entry, the finalizer, the data of the client,
  the size of the object and the mark procedure in its six. Mark procedures are compared by their
  addresses; they are numbered here.
\<close>

section \<open>Entries\<close>

definition HASH3 :: "u64 \<Rightarrow> u64 \<Rightarrow> nat \<Rightarrow> u64" where
  "HASH3 addr sz log_size = (drop_bit 3 addr XOR drop_bit (3 + log_size) addr) AND (sz - 1)"

definition HASH2 :: "u64 \<Rightarrow> nat \<Rightarrow> u64" where
  "HASH2 addr log_size = HASH3 addr (push_bit log_size 1) log_size"

definition GC_HIDE_POINTER :: "u64 \<Rightarrow> u64" where
  "GC_HIDE_POINTER p = NOT p"

definition GC_REVEAL_POINTER :: "u64 \<Rightarrow> u64" where
  "GC_REVEAL_POINTER p = GC_HIDE_POINTER p"

definition load :: "u64 \<Rightarrow> allocator \<Rightarrow> u64" where
  "load p a = gc_mem (the_gc a) p"

definition store :: "u64 \<Rightarrow> u64 \<Rightarrow> allocator \<Rightarrow> allocator" where
  "store p x = on_gc (\<lambda>g. g\<lparr>gc_mem := (gc_mem g)(p := x)\<rparr>)"

abbreviation (input) hidden_key :: "u64 \<Rightarrow> u64" where "hidden_key p \<equiv> p"
abbreviation (input) next_field :: "u64 \<Rightarrow> u64" where "next_field p \<equiv> p + 8"
abbreviation (input) dl_hidden_obj :: "u64 \<Rightarrow> u64" where "dl_hidden_obj p \<equiv> p + 16"
abbreviation (input) fo_fn :: "u64 \<Rightarrow> u64" where "fo_fn p \<equiv> p + 16"
abbreviation (input) fo_client_data :: "u64 \<Rightarrow> u64" where "fo_client_data p \<equiv> p + 24"
abbreviation (input) fo_object_size :: "u64 \<Rightarrow> u64" where "fo_object_size p \<equiv> p + 32"
abbreviation (input) fo_mark_proc :: "u64 \<Rightarrow> u64" where "fo_mark_proc p \<equiv> p + 40"

text \<open>The three hash tables.\<close>

datatype which_table = Dl_Table | Ll_Table | Fo_Table

definition the_table :: "which_table \<Rightarrow> allocator \<Rightarrow> hashtbl" where
  "the_table t a = (case t of Dl_Table \<Rightarrow> GC_dl_hashtbl a | Ll_Table \<Rightarrow> GC_ll_hashtbl a | Fo_Table \<Rightarrow> fo_hashtbl a)"

definition on_table :: "which_table \<Rightarrow> (hashtbl \<Rightarrow> hashtbl) \<Rightarrow> allocator \<Rightarrow> allocator" where
  "on_table t f a =
     (case t of
        Dl_Table \<Rightarrow> a\<lparr>GC_dl_hashtbl := f (GC_dl_hashtbl a)\<rparr>
      | Ll_Table \<Rightarrow> a\<lparr>GC_ll_hashtbl := f (GC_ll_hashtbl a)\<rparr>
      | Fo_Table \<Rightarrow> a\<lparr>fo_hashtbl := f (fo_hashtbl a)\<rparr>)"

definition add_entries :: "which_table \<Rightarrow> u64 \<Rightarrow> allocator \<Rightarrow> allocator" where
  "add_entries t n = on_table t (\<lambda>h. h\<lparr>ht_entries := ht_entries h + n\<rparr>)"

definition bucket :: "which_table \<Rightarrow> u64 \<Rightarrow> allocator \<Rightarrow> u64" where
  "bucket t index a = ht_head (the_table t a) + 8 * index"

text \<open>The number of chains of a table, none before there is an array.\<close>

definition table_size :: "which_table \<Rightarrow> allocator \<Rightarrow> nat" where
  "table_size t a = (if ht_head (the_table t a) = 0 then 0 else 2 ^ ht_log_size (the_table t a))"

text \<open>Taking \<open>curr\<close>, which is followed by \<open>next_dl\<close>, out of its chain.\<close>

definition unlink :: "which_table \<Rightarrow> u64 \<Rightarrow> u64 \<Rightarrow> u64 \<Rightarrow> allocator \<Rightarrow> allocator" where
  "unlink t index prev nxt a = (if prev = 0 then store (bucket t index a) nxt a else store (next_field prev) nxt a)"

fun for_each :: "('x \<Rightarrow> 's \<Rightarrow> 's res) \<Rightarrow> 'x list \<Rightarrow> 's \<Rightarrow> 's res" where
  "for_each f [] s = Inr s"
| "for_each f (x # xs) s = andThen (f x s) (for_each f xs)"

definition for_each_chain :: "which_table \<Rightarrow> (u64 \<Rightarrow> allocator \<Rightarrow> allocator res) \<Rightarrow> allocator \<Rightarrow> allocator res" where
  "for_each_chain t f a = for_each (\<lambda>i. f (word_of_nat i)) [0 ..< table_size t a] a"

section \<open>Marking from one object\<close>

definition normal_mark_proc :: u64 where "normal_mark_proc = 1"
definition ignore_self_mark_proc :: u64 where "ignore_self_mark_proc = 2"
definition null_mark_proc :: u64 where "null_mark_proc = 3"
definition unreachable_mark_proc :: u64 where "unreachable_mark_proc = 4"

primrec push_others :: "nat \<Rightarrow> u64 \<Rightarrow> u64 \<Rightarrow> u64 \<Rightarrow> u64 \<Rightarrow> marker \<Rightarrow> marker res" where
  "push_others 0 p target_limit scan_limit q m = Inl Diverge"
| "push_others (Suc n) p target_limit scan_limit q m =
     (if q \<le> scan_limit
      then
        let r = word_at m q
        in andThen (if r < p \<or> target_limit < r then GC_PUSH_ONE_HEAP r m else Inr m)
             (push_others n p target_limit scan_limit (q + 8))
      else Inr m)"

definition GC_ignore_self_finalize_mark_proc :: "u64 \<Rightarrow> marker \<Rightarrow> marker res" where
  "GC_ignore_self_finalize_mark_proc p m =
     andThen (hdr_of p (mk_gc m)) (\<lambda>hhdr.
       let descr = hb_descr hhdr; target_limit = p + hb_sz hhdr - 1;
           scan_limit = (if descr AND 3 = 0 then p + descr - 8 else target_limit + 1 - 8);
           words = unat (if descr AND 3 = 0 then descr else hb_sz hhdr) div 8
       in push_others (words + 2) p target_limit scan_limit p m)"

text \<open>\<open>GC_unreachable_finalize_mark_proc\<close> does nothing for NULL.\<close>

definition finalize_mark_proc :: "u64 \<Rightarrow> u64 \<Rightarrow> marker \<Rightarrow> marker res" where
  "finalize_mark_proc mp p m =
     (if mp = normal_mark_proc then GC_normal_finalize_mark_proc p m
      else if mp = ignore_self_mark_proc then GC_ignore_self_finalize_mark_proc p m
      else if mp = null_mark_proc then Inr m
      else if mp = unreachable_mark_proc then if p = 0 then Inr m else GC_normal_finalize_mark_proc p m
      else Inl (Fault Dangling))"

primrec mark_some_until_done :: "nat \<Rightarrow> runtime \<Rightarrow> allocator \<Rightarrow> allocator res" where
  "mark_some_until_done 0 rt a = Inl Diverge"
| "mark_some_until_done (Suc n) rt a =
     andThen (mark_some rt 0 a) (\<lambda>(finished, a'). if finished then Inr a' else mark_some_until_done n rt a')"

definition drain_mark_stack :: "runtime \<Rightarrow> marker \<Rightarrow> marker res" where
  "drain_mark_stack rt = mark_until_empty (rt_rounds rt) (rt_rounds rt) (rt_procs rt)"

definition GC_MARK_FO :: "runtime \<Rightarrow> u64 \<Rightarrow> u64 \<Rightarrow> allocator \<Rightarrow> allocator res" where
  "GC_MARK_FO rt real_ptr mp a =
     andThen (lift_collector (lift_marker (\<lambda>m. andThen (finalize_mark_proc mp real_ptr m) (drain_mark_stack rt))) a) (\<lambda>a1.
       if GC_mark_state (cl_marker (al_collector a1)) \<noteq> MS_NONE
       then andThen (run_gc (GC_set_mark_bit real_ptr) a1) (mark_some_until_done (rt_rounds rt) rt)
       else Inr a1)"

section \<open>Toggle references\<close>

definition toggleref_at :: "u64 \<Rightarrow> allocator \<Rightarrow> u64" where
  "toggleref_at i a = GC_toggleref_arr a + 8 * i"

definition ask_toggleref :: "allocator \<Rightarrow> (toggleref_status \<times> allocator) res" where
  "ask_toggleref a =
     (if \<not> GC_toggleref_callback_set a then Inl (Fault Null_Deref)
      else case toggleref_answers a of
             [] \<Rightarrow> Inr (GC_TOGGLE_REF_DROP, a)
           | s # ss \<Rightarrow> Inr (s, a\<lparr>toggleref_answers := ss\<rparr>))"

text \<open>References from \<open>i\<close> on are moved down to \<open>new_size\<close>; the result is the number kept.\<close>

primrec process_togglerefs :: "nat \<Rightarrow> u64 \<Rightarrow> u64 \<Rightarrow> allocator \<Rightarrow> (u64 \<times> allocator) res" where
  "process_togglerefs 0 i new_size a = Inr (new_size, a)"
| "process_togglerefs (Suc n) i new_size a =
     (let r = load (toggleref_at i a) a; obj = (if r AND 1 \<noteq> 0 then GC_REVEAL_POINTER r else r)
      in if obj = 0 then process_togglerefs n (i + 1) new_size a
         else
           andThen (ask_toggleref a) (\<lambda>(status, a1).
             case status of
               GC_TOGGLE_REF_DROP \<Rightarrow> process_togglerefs n (i + 1) new_size a1
             | GC_TOGGLE_REF_STRONG \<Rightarrow>
                 process_togglerefs n (i + 1) (new_size + 1) (store (toggleref_at new_size a1) obj a1)
             | GC_TOGGLE_REF_WEAK \<Rightarrow>
                 process_togglerefs n (i + 1) (new_size + 1) (store (toggleref_at new_size a1) (GC_HIDE_POINTER obj) a1)))"

definition GC_process_togglerefs :: "allocator \<Rightarrow> allocator res" where
  "GC_process_togglerefs a =
     andThen (process_togglerefs (unat (GC_toggleref_array_size a)) 0 0 a) (\<lambda>(new_size, a1).
       let size = GC_toggleref_array_size a1
       in Inr (if new_size < size
               then (on_gc (\<lambda>g. g\<lparr>gc_mem := BZERO (toggleref_at new_size a1) (unat (size - new_size)) (gc_mem g)\<rparr>) a1)
                      \<lparr>GC_toggleref_array_size := new_size\<rparr>
               else a1))"

definition push_and_mark_object :: "runtime \<Rightarrow> u64 \<Rightarrow> allocator \<Rightarrow> allocator res" where
  "push_and_mark_object rt p a =
     andThen (lift_collector (lift_marker (\<lambda>m. andThen (GC_normal_finalize_mark_proc p m) (drain_mark_stack rt))) a) (\<lambda>a1.
     andThen (run_gc (GC_set_mark_bit p) a1) (\<lambda>a2.
       if GC_mark_state (cl_marker (al_collector a2)) \<noteq> MS_NONE then mark_some_until_done (rt_rounds rt) rt a2 else Inr a2))"

definition GC_mark_togglerefs :: "runtime \<Rightarrow> allocator \<Rightarrow> allocator res" where
  "GC_mark_togglerefs rt a =
     (if GC_toggleref_arr a = 0 then Inr a
      else
        andThen (run_gc (GC_set_mark_bit (GC_toggleref_arr a)) a)
          (for_each
             (\<lambda>i a. let obj = load (toggleref_at (word_of_nat i) a) a
                    in if obj \<noteq> 0 \<and> obj AND 1 = 0 then push_and_mark_object rt obj a else Inr a)
             [0 ..< unat (GC_toggleref_array_size a)]))"

definition GC_clear_togglerefs :: "allocator \<Rightarrow> allocator res" where
  "GC_clear_togglerefs a =
     for_each
       (\<lambda>i a. let p = toggleref_at (word_of_nat i) a; r = load p a
              in if r AND 1 = 0 then Inr a
                 else andThen (GC_is_marked (GC_REVEAL_POINTER r) (the_gc a)) (\<lambda>marked. Inr (if marked then a else store p 0 a)))
       [0 ..< unat (GC_toggleref_array_size a)] a"

section \<open>Disappearing links\<close>

text \<open>Whether an entry stays: its link is in no object or in a marked one, or its object is marked.\<close>

definition link_stays :: "bool \<Rightarrow> u64 \<Rightarrow> allocator \<Rightarrow> bool res" where
  "link_stays is_remove_dangling curr_dl a =
     (if is_remove_dangling
      then
        andThen (GC_base (GC_REVEAL_POINTER (load (hidden_key curr_dl) a)) (the_gc a)) (\<lambda>real_link.
          if real_link = 0 then Inr True else GC_is_marked real_link (the_gc a))
      else GC_is_marked (GC_REVEAL_POINTER (load (dl_hidden_obj curr_dl) a)) (the_gc a))"

primrec disappear_chain ::
    "nat \<Rightarrow> which_table \<Rightarrow> bool \<Rightarrow> u64 \<Rightarrow> u64 \<Rightarrow> u64 \<Rightarrow> allocator \<Rightarrow> allocator res" where
  "disappear_chain 0 t is_remove_dangling i prev_dl curr_dl a = Inl Diverge"
| "disappear_chain (Suc n) t is_remove_dangling i prev_dl curr_dl a =
     (if curr_dl = 0 then Inr a
      else
        let next_dl = load (next_field curr_dl) a
        in andThen (link_stays is_remove_dangling curr_dl a) (\<lambda>stays.
             if stays then disappear_chain n t is_remove_dangling i curr_dl next_dl a
             else
               let a1 = (if is_remove_dangling then a else store (GC_REVEAL_POINTER (load (hidden_key curr_dl) a)) 0 a)
               in andThen (run_gc (GC_clear_mark_bit curr_dl) (unlink t i prev_dl next_dl a1)) (\<lambda>a2.
                    disappear_chain n t is_remove_dangling i prev_dl next_dl (add_entries t (- 1) a2))))"

definition GC_make_disappearing_links_disappear :: "runtime \<Rightarrow> which_table \<Rightarrow> bool \<Rightarrow> allocator \<Rightarrow> allocator res" where
  "GC_make_disappearing_links_disappear rt t is_remove_dangling =
     for_each_chain t (\<lambda>i a. disappear_chain (rt_rounds rt) t is_remove_dangling i 0 (load (bucket t i a) a) a)"

section \<open>Finalization\<close>

definition real_object :: "u64 \<Rightarrow> allocator \<Rightarrow> u64" where
  "real_object curr_fo a = GC_REVEAL_POINTER (load (hidden_key curr_fo) a)"

text \<open>Marking what unmarked objects with finalizers lead to.\<close>

primrec mark_fo_chain :: "nat \<Rightarrow> runtime \<Rightarrow> u64 \<Rightarrow> allocator \<Rightarrow> allocator res" where
  "mark_fo_chain 0 rt curr_fo a = Inl Diverge"
| "mark_fo_chain (Suc n) rt curr_fo a =
     (if curr_fo = 0 then Inr a
      else
        let real_ptr = real_object curr_fo a
        in andThen (GC_is_marked real_ptr (the_gc a)) (\<lambda>marked.
           andThen (if marked then Inr a else GC_MARK_FO rt real_ptr (load (fo_mark_proc curr_fo) a) a) (\<lambda>a1.
             mark_fo_chain n rt (load (next_field curr_fo) a1) a1)))"

text \<open>The entry goes to the front of the queue, its object no longer hidden.\<close>

definition enqueue :: "u64 \<Rightarrow> allocator \<Rightarrow> allocator" where
  "enqueue curr_fo a =
     (let a1 = (store (next_field curr_fo) (finalize_now a) a)\<lparr>finalize_now := curr_fo\<rparr>;
          a2 = store (hidden_key curr_fo) (GC_REVEAL_POINTER (load (hidden_key curr_fo) a1)) a1
      in on_gc (\<lambda>g. g\<lparr>GC_bytes_finalized := GC_bytes_finalized g + (load (fo_object_size curr_fo) a2 + 48)\<rparr>) a2)"

primrec enqueue_chain :: "nat \<Rightarrow> runtime \<Rightarrow> u64 \<Rightarrow> u64 \<Rightarrow> u64 \<Rightarrow> allocator \<Rightarrow> allocator res" where
  "enqueue_chain 0 rt i prev_fo curr_fo a = Inl Diverge"
| "enqueue_chain (Suc n) rt i prev_fo curr_fo a =
     (if curr_fo = 0 then Inr a
      else
        let real_ptr = real_object curr_fo a
        in andThen (GC_is_marked real_ptr (the_gc a)) (\<lambda>marked.
             if marked then enqueue_chain n rt i curr_fo (load (next_field curr_fo) a) a
             else
               andThen (if GC_java_finalization a then Inr a else run_gc (GC_set_mark_bit real_ptr) a) (\<lambda>a1.
                 let next_fo = load (next_field curr_fo) a1
                 in andThen (lift_collector (GC_object_finalized_proc rt real_ptr) (add_entries Fo_Table (- 1) (unlink Fo_Table i prev_fo next_fo a1))) (\<lambda>a2.
                      enqueue_chain n rt i prev_fo next_fo (enqueue curr_fo a2)))))"

text \<open>With Java finalization, what is queued is marked after the fact, and objects that are to be
  finalized only when unreachable go back to the table when another queued object leads to them.\<close>

primrec mark_queue :: "nat \<Rightarrow> runtime \<Rightarrow> u64 \<Rightarrow> allocator \<Rightarrow> allocator res" where
  "mark_queue 0 rt curr_fo a = Inl Diverge"
| "mark_queue (Suc n) rt curr_fo a =
     (if curr_fo = 0 then Inr a
      else
        let real_ptr = load (hidden_key curr_fo) a; mp = load (fo_mark_proc curr_fo) a
        in andThen (GC_is_marked real_ptr (the_gc a)) (\<lambda>marked.
           andThen (if \<not> marked \<and> mp = null_mark_proc then GC_MARK_FO rt real_ptr normal_mark_proc a else Inr a) (\<lambda>a1.
           andThen (if \<not> marked \<and> mp \<noteq> unreachable_mark_proc then run_gc (GC_set_mark_bit real_ptr) a1 else Inr a1) (\<lambda>a2.
             mark_queue n rt (load (next_field curr_fo) a2) a2))))"

definition revive :: "u64 \<Rightarrow> u64 \<Rightarrow> u64 \<Rightarrow> u64 \<Rightarrow> allocator \<Rightarrow> allocator" where
  "revive prev_fo curr_fo next_fo real_ptr a =
     (let a1 = (if prev_fo = 0 then a\<lparr>finalize_now := next_fo\<rparr> else store (next_field prev_fo) next_fo a);
          a2 = store (hidden_key curr_fo) (GC_HIDE_POINTER (load (hidden_key curr_fo) a1)) a1;
          a3 = on_gc (\<lambda>g. g\<lparr>GC_bytes_finalized := GC_bytes_finalized g - (load (fo_object_size curr_fo) a2 + 48)\<rparr>) a2;
          b = bucket Fo_Table (HASH2 real_ptr (ht_log_size (fo_hashtbl a3))) a3;
          a4 = store (next_field curr_fo) (load b a3) a3
      in store b curr_fo (add_entries Fo_Table 1 a4))"

primrec revive_queue :: "nat \<Rightarrow> u64 \<Rightarrow> u64 \<Rightarrow> allocator \<Rightarrow> allocator res" where
  "revive_queue 0 prev_fo curr_fo a = Inl Diverge"
| "revive_queue (Suc n) prev_fo curr_fo a =
     (if curr_fo = 0 then Inr a
      else
        let next_fo = load (next_field curr_fo) a; real_ptr = load (hidden_key curr_fo) a
        in if load (fo_mark_proc curr_fo) a \<noteq> unreachable_mark_proc then revive_queue n curr_fo next_fo a
           else
             andThen (GC_is_marked real_ptr (the_gc a)) (\<lambda>marked.
               if \<not> marked then andThen (run_gc (GC_set_mark_bit real_ptr) a) (revive_queue n curr_fo next_fo)
               else revive_queue n prev_fo next_fo (revive prev_fo curr_fo next_fo real_ptr a)))"

definition java_finalization :: "runtime \<Rightarrow> allocator \<Rightarrow> allocator res" where
  "java_finalization rt a =
     andThen (mark_queue (rt_rounds rt) rt (finalize_now a) a) (\<lambda>a1.
       if need_unreachable_finalization a1 then revive_queue (rt_rounds rt) 0 (finalize_now a1) a1 else Inr a1)"

text \<open>Objects with finalizers: all are marked from before any is queued.\<close>

definition finalize_objects :: "runtime \<Rightarrow> allocator \<Rightarrow> allocator res" where
  "finalize_objects rt a =
     andThen (for_each_chain Fo_Table (\<lambda>i a. mark_fo_chain (rt_rounds rt) rt (load (bucket Fo_Table i a) a) a) a) (\<lambda>a1.
     andThen
       (for_each_chain Fo_Table (\<lambda>i a. enqueue_chain (rt_rounds rt) rt i 0 (load (bucket Fo_Table i a) a) a)
          (on_gc (\<lambda>g. g\<lparr>GC_bytes_finalized := 0\<rparr>) a1)) (\<lambda>a2.
       if GC_java_finalization a2 then java_finalization rt a2 else Inr a2))"

definition GC_finalize :: "runtime \<Rightarrow> allocator \<Rightarrow> allocator res" where
  "GC_finalize rt a =
     andThen (GC_mark_togglerefs rt a) (\<lambda>a1.
     andThen (GC_make_disappearing_links_disappear rt Dl_Table False a1) (\<lambda>a2.
     andThen (finalize_objects rt a2) (\<lambda>a3.
     andThen (GC_make_disappearing_links_disappear rt Dl_Table True a3) (\<lambda>a4.
     andThen (GC_clear_togglerefs a4) (\<lambda>a5.
     andThen (GC_make_disappearing_links_disappear rt Ll_Table False a5) (\<lambda>a6.
     andThen (GC_make_disappearing_links_disappear rt Ll_Table True a6) (\<lambda>a7.
       Inr (if GC_fail_count (the_gc a7) \<noteq> 0 then a7\<lparr>GC_finalizer_nested := 0\<rparr> else a7))))))))"

end
