(* ===== verification/Atomix_GC_Cycle.thy ===== *)
theory Atomix_GC_Cycle
  imports Atomix_GC_Finalize
begin

unbundle bit_operations_syntax

text \<open>
  The collection cycle: \<open>alloc.c\<close> drives \<open>GC_mark_some\<close>, finishes a collection, decides when to collect
  and when to ask the system for memory. Callbacks for events, statistics, and the table of the memory
  got from the system are left out; the consistency check of debugging allocation is a function of the
  runtime.
\<close>

section \<open>Marking with the world stopped\<close>

text \<open>The loop \<open>for (i = 0; !stop(); i++)\<close>; \<open>None\<close> stands for the -1 of a finished mark phase.\<close>

primrec mark_rounds :: "nat \<Rightarrow> runtime \<Rightarrow> stop_func \<Rightarrow> i32 \<Rightarrow> allocator \<Rightarrow> (i32 option \<times> allocator) res" where
  "mark_rounds 0 rt f i a = Inl Diverge"
| "mark_rounds (Suc n) rt f i a =
     (case ask f a of
        (True, a1) \<Rightarrow> Inr (Some i, a1)
      | (False, a1) \<Rightarrow>
          andThen (mark_some rt (rt_approx_sp rt) a1) (\<lambda>(finished, a2).
            if finished then Inr (None, a2) else mark_rounds n rt f (i + 1) a2))"

definition GC_stopped_mark :: "runtime \<Rightarrow> stop_func \<Rightarrow> allocator \<Rightarrow> (bool \<times> allocator) res" where
  "GC_stopped_mark rt f a =
     andThen (GC_process_togglerefs a) (\<lambda>a1.
     andThen (lift_collector (lift_marker GC_initiate_gc) (GC_read_dirty a1)) (\<lambda>a2.
     andThen (mark_rounds (rt_rounds rt) rt f 0 a2) (\<lambda>(r, a3).
       case r of
         Some i \<Rightarrow> Inr (False, a3\<lparr>GC_deficit := i\<rparr>)
       | None \<Rightarrow>
           let a4 = on_gc (\<lambda>g. g\<lparr>GC_gc_no := GC_gc_no g + 1\<rparr>) a3
           in andThen (if GC_debugging_started (the_gc a4) then lift_collector (GC_check_heap rt) a4 else Inr a4)
                (\<lambda>a5. Inr (True, a5)))))"

section \<open>Marks of free objects\<close>

definition put_hdr :: "u64 \<Rightarrow> hdr \<Rightarrow> gc \<Rightarrow> gc res" where
  "put_hdr e h = mod_hdr e (\<lambda>_. h)"

text \<open>Along the list from \<open>q\<close>, an object of the block \<open>h\<close> with header \<open>e\<close>; the header is looked up
  again when the block changes.\<close>

primrec along_list :: "nat \<Rightarrow> (u64 \<Rightarrow> u64 \<Rightarrow> hdr \<Rightarrow> gc \<Rightarrow> gc res) \<Rightarrow> u64 \<Rightarrow> u64 \<Rightarrow> u64 \<Rightarrow> gc \<Rightarrow> gc res" where
  "along_list 0 f q h e g = Inl Diverge"
| "along_list (Suc n) f q h e g =
     andThen (get_hdr e g) (\<lambda>hd.
     andThen (f (MARK_BIT_NO (q - h)) e hd g) (\<lambda>g1.
       let q' = gc_mem g1 q; h' = HBLKPTR q'
       in if q' = 0 then Inr g1
          else andThen (if h' \<noteq> h then HDR h' g1 else Inr e) (\<lambda>e'. along_list n f q' h' e' g1)))"

definition GC_set_fl_marks :: "nat \<Rightarrow> u64 \<Rightarrow> gc \<Rightarrow> gc res" where
  "GC_set_fl_marks rounds q g =
     (if q = 0 then Inr g
      else
        andThen (HDR (HBLKPTR q) g) (\<lambda>e.
          along_list rounds
            (\<lambda>bit_no e hd g. andThen (mark_bit_from_hdr hd bit_no) (\<lambda>marked.
               if marked then Inr g
               else andThen (set_mark_bit_from_hdr hd bit_no) (\<lambda>hd'. put_hdr e (hd'\<lparr>hb_n_marks := hb_n_marks hd' + 1\<rparr>) g)))
            q (HBLKPTR q) e g))"

definition GC_clear_fl_marks :: "nat \<Rightarrow> u64 \<Rightarrow> gc \<Rightarrow> gc res" where
  "GC_clear_fl_marks rounds q g =
     andThen (HDR (HBLKPTR q) g) (\<lambda>e.
       along_list rounds
         (\<lambda>bit_no e hd g. andThen (mark_bit_from_hdr hd bit_no) (\<lambda>marked.
            andThen
              (if marked
               then andThen (clear_mark_bit_from_hdr hd bit_no) (\<lambda>hd'. put_hdr e (hd'\<lparr>hb_n_marks := hb_n_marks hd - 1\<rparr>) g)
               else Inr g)
              (\<lambda>g'. Inr (g'\<lparr>GC_bytes_found := GC_bytes_found g' - hb_sz hd\<rparr>))))
         q (HBLKPTR q) e g)"

text \<open>For every free list that is not empty.\<close>

fun for_free_lists :: "(u64 \<Rightarrow> gc \<Rightarrow> gc res) \<Rightarrow> (u8 \<times> u64) list \<Rightarrow> gc \<Rightarrow> gc res" where
  "for_free_lists f [] g = Inr g"
| "for_free_lists f ((kind, sz) # rest) g =
     andThen (kind_freelist kind sz g) (\<lambda>q. andThen (if q \<noteq> 0 then f q g else Inr g) (for_free_lists f rest))"

definition all_free_lists :: "gc \<Rightarrow> (u8 \<times> u64) list" where
  "all_free_lists g = [(word_of_nat kind, word_of_nat sz). kind \<leftarrow> [0 ..< length (GC_obj_kinds g)], sz \<leftarrow> [1 ..< 129]]"

section \<open>Finishing a collection\<close>

definition USED_HEAP_SIZE :: "gc \<Rightarrow> u64" where
  "USED_HEAP_SIZE g = GC_heapsize g - GC_large_free_bytes g"

definition report_leaks :: "nat \<Rightarrow> gc \<Rightarrow> gc res" where
  "report_leaks rounds g =
     andThen (for_free_lists (GC_set_fl_marks rounds) (all_free_lists g) g) (GC_start_reclaim rounds True)"

definition GC_finish_collection :: "runtime \<Rightarrow> allocator \<Rightarrow> allocator res" where
  "GC_finish_collection rt a =
     (let found = GC_bytes_found (the_gc a);
          a1 = on_gc (\<lambda>g. g\<lparr>GC_bytes_found := 0\<rparr>)
                 (if 0 <s found then a\<lparr>GC_reclaimed_bytes_before_gc := GC_reclaimed_bytes_before_gc a + found\<rparr> else a)
      in andThen (if GC_find_leak (the_gc a1) then run_gc (report_leaks (rt_rounds rt)) a1 else Inr a1) (\<lambda>a2.
         andThen (GC_finalize rt a2) (\<lambda>a3.
         andThen (run_gc (\<lambda>g. for_free_lists (GC_clear_fl_marks (rt_rounds rt)) (all_free_lists g) g) a3) (\<lambda>a4.
         andThen (run_gc (GC_start_reclaim (rt_rounds rt) False) a4) (\<lambda>a5.
           let g = the_gc a5;
               a6 = (if GC_is_full_gc a5
                     then a5\<lparr>GC_used_heap_size_after_full := USED_HEAP_SIZE g, GC_need_full_gc := False\<rparr>
                     else a5\<lparr>GC_need_full_gc :=
                            min_bytes_allocd (rt_stack_size rt) g < USED_HEAP_SIZE g - GC_used_heap_size_after_full a5\<rparr>)
           in Inr
                (on_gc
                   (\<lambda>g. g\<lparr>GC_non_gc_bytes_at_gc := GC_non_gc_bytes g, GC_bytes_allocd := 0, GC_bytes_dropped := 0,
                          GC_bytes_freed := 0, GC_finalizer_bytes_freed := 0\<rparr>)
                   (a6\<lparr>GC_n_attempts := 0, GC_is_full_gc := False,
                       GC_bytes_allocd_before_gc := GC_bytes_allocd_before_gc a6 + GC_bytes_allocd g\<rparr>)))))))"

section \<open>Collecting\<close>

text \<open>The part of \<open>GC_collect_a_little_inner\<close> for a collection in progress: \<open>GC_rate\<close> calls of
  \<open>GC_mark_some\<close> for each unit of work, less those made before, and the end of the collection when
  marking is done. The second result is the number of calls.\<close>

primrec mark_a_little :: "nat \<Rightarrow> runtime \<Rightarrow> i32 \<Rightarrow> i32 \<Rightarrow> allocator \<Rightarrow> (i32 \<times> allocator) res" where
  "mark_a_little 0 rt max_deficit i a = Inl Diverge"
| "mark_a_little (Suc n) rt max_deficit i a =
     (if i <s max_deficit
      then andThen (mark_some rt 0 a) (\<lambda>(finished, a1). if finished then Inr (i, a1) else mark_a_little n rt max_deficit (i + 1) a1)
      else Inr (i, a))"

definition finish_in_progress :: "runtime \<Rightarrow> allocator \<Rightarrow> allocator res" where
  "finish_in_progress rt a =
     (if GC_n_attempts a <s max_prior_attempts a \<and> GC_time_limit a \<noteq> GC_TIME_UNLIMITED
      then andThen (GC_stopped_mark rt GC_timeout_stop_func a) (\<lambda>(finished, a1).
        if finished then GC_finish_collection rt a1 else Inr (a1\<lparr>GC_n_attempts := GC_n_attempts a1 + 1\<rparr>))
      else andThen (GC_stopped_mark rt GC_never_stop_func a) (\<lambda>(_, a1). GC_finish_collection rt a1))"

definition collect_in_progress :: "runtime \<Rightarrow> i32 \<Rightarrow> allocator \<Rightarrow> allocator res" where
  "collect_in_progress rt n a =
     (let max_deficit = GC_rate a * n
      in andThen (mark_a_little (rt_rounds rt) rt max_deficit (GC_deficit a) a) (\<lambda>(i, a1).
         andThen (if i <s max_deficit \<and> \<not> GC_dont_gc (the_gc a1) then finish_in_progress rt a1 else Inr a1) (\<lambda>a2.
           if 0 <s GC_deficit a2
           then let d = GC_deficit a2 - max_deficit in Inr (a2\<lparr>GC_deficit := if d <s 0 then 0 else d\<rparr>)
           else Inr a2)))"

definition in_progress :: "allocator \<Rightarrow> bool" where
  "in_progress a \<longleftrightarrow> GC_collection_in_progress (cl_marker (al_collector a))"

text \<open>The loop that finishes an incremental collection before a full one.\<close>

primrec finish_incremental :: "nat \<Rightarrow> runtime \<Rightarrow> stop_func \<Rightarrow> allocator \<Rightarrow> (bool \<times> allocator) res" where
  "finish_incremental 0 rt f a = Inl Diverge"
| "finish_incremental (Suc n) rt f a =
     (if \<not> in_progress a then Inr (True, a)
      else case ask f a of
             (True, a1) \<Rightarrow> Inr (False, a1)
           | (False, a1) \<Rightarrow> andThen (collect_in_progress rt 1 a1) (finish_incremental n rt f))"

text \<open>\<open>GC_reclaim_all\<close> with a stop function of the client uses up its answers.\<close>

definition reclaim_all_unless :: "stop_func \<Rightarrow> allocator \<Rightarrow> (bool \<times> allocator) res" where
  "reclaim_all_unless f a =
     andThen (run_gc_with (GC_reclaim_all (if f = GC_never_stop_func then [] else stop_answers a) False) a) (\<lambda>((ok, rest), a1).
       Inr (ok, if f = GC_never_stop_func then a1 else a1\<lparr>stop_answers := rest\<rparr>))"

definition full_collection :: "runtime \<Rightarrow> stop_func \<Rightarrow> allocator \<Rightarrow> (bool \<times> allocator) res" where
  "full_collection rt f a =
     andThen (run_gc GC_promote_black_lists a) (\<lambda>a1.
     andThen (if GC_find_leak (the_gc a1) \<or> f \<noteq> GC_never_stop_func then reclaim_all_unless f a1 else Inr (True, a1)) (\<lambda>(ok, a2).
       if \<not> ok then Inr (False, a2)
       else
         andThen (lift_collector (lift_marker GC_clear_marks) (on_marker GC_invalidate_mark_state a2)) (\<lambda>a3.
         andThen (GC_stopped_mark rt f (a3\<lparr>GC_is_full_gc := True\<rparr>)) (\<lambda>(finished, a4).
           if finished then andThen (GC_finish_collection rt a4) (\<lambda>a5. Inr (True, a5))
           else
             Inr (False,
               if GC_incremental (the_gc a4) then a4 else on_gc GC_unpromote_black_lists (on_marker GC_invalidate_mark_state a4))))))"

definition GC_try_to_collect_inner :: "runtime \<Rightarrow> stop_func \<Rightarrow> allocator \<Rightarrow> (bool \<times> allocator) res" where
  "GC_try_to_collect_inner rt f a =
     (if GC_dont_gc (the_gc a) then Inr (False, a)
      else case ask f a of
             (True, a1) \<Rightarrow> Inr (False, a1)
           | (False, a1) \<Rightarrow>
               andThen (if GC_incremental (the_gc a1) then finish_incremental (rt_rounds rt) rt f a1 else Inr (True, a1)) (\<lambda>(go_on, a2).
                 if go_on then full_collection rt f a2 else Inr (False, a2)))"

definition GC_maybe_gc :: "runtime \<Rightarrow> allocator \<Rightarrow> allocator res" where
  "GC_maybe_gc rt a =
     (case GC_should_collect (rt_stack_size rt) (the_gc a) of
        (collect, g) \<Rightarrow>
          let a = on_gc (\<lambda>_. g) a
          in if \<not> collect then Inr a
             else if \<not> GC_incremental g
             then andThen (GC_try_to_collect_inner rt GC_never_stop_func a) (\<lambda>(_, a1). Inr (a1\<lparr>n_partial_gcs := 0\<rparr>))
             else
               andThen
                 (if GC_need_full_gc a \<or> GC_full_freq a \<le>s n_partial_gcs a
                  then
                    andThen (run_gc GC_promote_black_lists a) (\<lambda>a1.
                    andThen (run_gc_with (GC_reclaim_all [] True) a1) (\<lambda>(_, a2).
                    andThen (lift_collector (lift_marker GC_clear_marks) a2) (\<lambda>a3.
                      Inr (a3\<lparr>n_partial_gcs := 0, GC_is_full_gc := True\<rparr>))))
                  else Inr (a\<lparr>n_partial_gcs := n_partial_gcs a + 1\<rparr>)) (\<lambda>a4.
               andThen
                 (GC_stopped_mark rt (if GC_time_limit a4 = GC_TIME_UNLIMITED then GC_never_stop_func else GC_timeout_stop_func) a4)
                 (\<lambda>(finished, a5).
                   if finished then GC_finish_collection rt a5
                   else Inr (if GC_is_full_gc a5 then a5 else a5\<lparr>GC_n_attempts := GC_n_attempts a5 + 1\<rparr>))))"

definition GC_collect_a_little_inner :: "runtime \<Rightarrow> i32 \<Rightarrow> allocator \<Rightarrow> allocator res" where
  "GC_collect_a_little_inner rt n a =
     (if GC_incremental (the_gc a) \<and> in_progress a then collect_in_progress rt n a
      else if \<not> GC_dont_gc (the_gc a) then GC_maybe_gc rt a
      else Inr a)"

section \<open>Growing the heap\<close>

definition MINHINCR :: u64 where "MINHINCR = 16"
definition MAXHINCR :: u64 where "MAXHINCR = 2048"
definition GC_WORD_MAX :: u64 where "GC_WORD_MAX = - 1"

text \<open>The table of heap sections is the list; what grows is its capacity. The space of the old table
  goes back to the heap when it fills a page, which is not modelled.\<close>

definition grow_heap_sects :: "allocator \<Rightarrow> allocator res" where
  "grow_heap_sects a =
     (let n = word_of_nat (length (GC_heap_sects (the_gc a)))
      in if n \<noteq> GC_capacity_heap_sects a then Inr a
         else case scratch (the_gc a) of
                (True, g) \<Rightarrow> Inr ((on_gc (\<lambda>_. g) a)\<lparr>GC_capacity_heap_sects := if 0 < n then n * 2 else 32\<rparr>)
              | (False, g) \<Rightarrow>
                  (case scratch g of
                     (True, g') \<Rightarrow> Inr ((on_gc (\<lambda>_. g') a)\<lparr>GC_capacity_heap_sects := n + 32\<rparr>)
                   | (False, _) \<Rightarrow> Inl (Panic ''Insufficient memory for heap sections'')))"

text \<open>Blocks near address 0 are left out, and blocks at the end of the address space; \<open>None\<close> when
  none is left.\<close>

primrec skip_low :: "nat \<Rightarrow> u64 \<Rightarrow> u64 \<Rightarrow> (u64 \<times> u64) option res" where
  "skip_low 0 p bytes = Inl Diverge"
| "skip_low (Suc n) p bytes =
     (if p \<le> HBLKSIZE then if bytes - HBLKSIZE = 0 then Inr None else skip_low n (p + HBLKSIZE) (bytes - HBLKSIZE)
      else Inr (Some (p, bytes)))"

primrec cut_wrapped :: "nat \<Rightarrow> u64 \<Rightarrow> u64 \<Rightarrow> u64 \<Rightarrow> (u64 \<times> u64) option res" where
  "cut_wrapped 0 p bytes endp = Inl Diverge"
| "cut_wrapped (Suc n) p bytes endp =
     (if endp \<le> p then if bytes - HBLKSIZE = 0 then Inr None else cut_wrapped n p (bytes - HBLKSIZE) (endp - HBLKSIZE)
      else Inr (Some (bytes, endp)))"

definition install_section :: "u64 \<Rightarrow> u64 \<Rightarrow> u64 \<Rightarrow> marker \<Rightarrow> marker res" where
  "install_section p bytes endp m =
     andThen (GC_install_header p (mk_gc m)) (\<lambda>(phdr, g).
       if phdr = 0 then Inr (m\<lparr>mk_gc := g\<rparr>)
       else
         andThen (mod_hdr phdr (\<lambda>h. h\<lparr>hb_sz := bytes, hb_flags := 0\<rparr>) (g\<lparr>GC_heap_sects := GC_heap_sects g @ [(p, bytes)]\<rparr>)) (\<lambda>g1.
         andThen (GC_freehblk p g1) (\<lambda>g2.
           let size = GC_heapsize g2 + bytes; at = GC_collect_at_heapsize g2 + bytes;
               least = GC_least_plausible_heap_addr m; greatest = GC_greatest_plausible_heap_addr m
           in Inr (m\<lparr>mk_gc := g2\<lparr>GC_heapsize := size, GC_collect_at_heapsize := if at < size then GC_WORD_MAX else at\<rparr>,
                GC_least_plausible_heap_addr := if p \<le> least \<or> least = 0 then p - 8 else least,
                GC_greatest_plausible_heap_addr := if greatest \<le> p + bytes then endp else greatest\<rparr>))))"

definition GC_add_to_heap :: "u64 \<Rightarrow> u64 \<Rightarrow> allocator \<Rightarrow> allocator res" where
  "GC_add_to_heap p bytes a =
     andThen (grow_heap_sects a) (\<lambda>a1.
     andThen (skip_low 3 p bytes) (\<lambda>r.
       case r of
         None \<Rightarrow> Inr a1
       | Some (p, bytes) \<Rightarrow>
           andThen (cut_wrapped (Suc (unat (divHBLKSZ bytes))) p bytes (p + bytes)) (\<lambda>r'.
             case r' of
               None \<Rightarrow> Inr a1
             | Some (bytes, endp) \<Rightarrow> lift_collector (lift_marker (install_section p bytes endp)) a1)))"

definition ROUNDUP_PAGESIZE :: "runtime \<Rightarrow> u64 \<Rightarrow> u64" where
  "ROUNDUP_PAGESIZE rt lb = SIZET_SAT_ADD lb (GC_page_size rt - 1) AND NOT (GC_page_size rt - 1)"

definition GET_MEM :: "allocator \<Rightarrow> u64 \<times> allocator" where
  "GET_MEM a = (case get_mem_answers a of [] \<Rightarrow> (0, a) | p # ps \<Rightarrow> (p, a\<lparr>get_mem_answers := ps\<rparr>))"

definition adjust_limits :: "u64 \<Rightarrow> u64 \<Rightarrow> u64 \<Rightarrow> allocator \<Rightarrow> allocator" where
  "adjust_limits space bytes slop a =
     (if GC_last_heap_addr a = 0 \<and> \<not> bit space 63 \<or> GC_last_heap_addr a \<noteq> 0 \<and> GC_last_heap_addr a < space
      then
        let new_limit = space + bytes + slop
        in if space < new_limit
           then on_marker (\<lambda>m. m\<lparr>GC_greatest_plausible_heap_addr := max (GC_greatest_plausible_heap_addr m) new_limit\<rparr>) a else a
      else
        let new_limit = space - slop
        in if new_limit < space
           then on_marker (\<lambda>m. m\<lparr>GC_least_plausible_heap_addr := min (GC_least_plausible_heap_addr m) new_limit\<rparr>) a else a)"

definition GC_expand_hp_inner :: "runtime \<Rightarrow> u64 \<Rightarrow> allocator \<Rightarrow> (bool \<times> allocator) res" where
  "GC_expand_hp_inner rt n a =
     (let n = (if n < MINHINCR then MINHINCR else n); bytes = ROUNDUP_PAGESIZE rt (n * HBLKSIZE);
          limit = GC_max_heapsize a
      in if limit \<noteq> 0 \<and> (limit < bytes \<or> limit - bytes < GC_heapsize (the_gc a)) then Inr (False, a)
         else case GET_MEM a of
                (space, a1) \<Rightarrow>
                  if space = 0 then Inr (False, a1)
                  else
                    let slop = min_bytes_allocd (rt_stack_size rt) (the_gc a1) + 4 * MAXHINCR * HBLKSIZE
                    in andThen (GC_add_to_heap space bytes ((adjust_limits space bytes slop a1)\<lparr>GC_last_heap_addr := space\<rparr>)) (\<lambda>a2.
                         Inr (True,
                           on_gc (\<lambda>g. let at = GC_heapsize g + slop - 2 * MAXHINCR * HBLKSIZE
                                       in g\<lparr>GC_collect_at_heapsize := if at < GC_heapsize g then GC_WORD_MAX else at\<rparr>) a2)))"

section \<open>Collecting or growing\<close>

definition blocks_to_expand :: "u64 \<Rightarrow> bool \<Rightarrow> allocator \<Rightarrow> u64" where
  "blocks_to_expand needed_blocks ignore_off_page a =
     (let g = the_gc a;
          blocks_to_get = (GC_heapsize g - GC_heapsize_at_forced_unmap a) div (HBLKSIZE * GC_free_space_divisor g) + needed_blocks
      in if blocks_to_get \<le> MAXHINCR then blocks_to_get
         else
           let slop = (if ignore_off_page then 4
                       else let s = 2 * divHBLKSZ (GC_black_list_spacing g) in if needed_blocks < s then needed_blocks else s);
               blocks = (if MAXHINCR < needed_blocks + slop then needed_blocks + slop else MAXHINCR)
           in if divHBLKSZ GC_WORD_MAX < blocks then divHBLKSZ GC_WORD_MAX else blocks)"

text \<open>The condition for a collection; \<open>GC_should_collect\<close> is asked last.\<close>

definition wants_collection :: "runtime \<Rightarrow> allocator \<Rightarrow> bool \<times> allocator" where
  "wants_collection rt a =
     (let g = the_gc a
      in if GC_incremental g \<or> GC_dont_gc g then (False, a)
         else if GC_dont_expand a \<and> 0 < GC_bytes_allocd g \<or>
                 last_fo_entries a < ht_entries (fo_hashtbl a) \<and> last_bytes_finalized a OR GC_bytes_finalized g \<noteq> 0 \<and>
                 GC_bytes_allocd g < (ht_entries (fo_hashtbl a) - last_fo_entries a) * GC_allocd_bytes_per_finalizer a
         then (True, a)
         else case GC_should_collect (rt_stack_size rt) g of (collect, g') \<Rightarrow> (collect, on_gc (\<lambda>_. g') a))"

definition gcollect_inner :: "runtime \<Rightarrow> allocator \<Rightarrow> allocator res" where
  "gcollect_inner rt a = andThen (GC_try_to_collect_inner rt GC_never_stop_func a) (\<lambda>(_, a'). Inr a')"

definition expand_or_fail :: "runtime \<Rightarrow> bool \<Rightarrow> u64 \<Rightarrow> u64 \<Rightarrow> allocator \<Rightarrow> (bool \<times> allocator) res" where
  "expand_or_fail rt gc_not_stopped blocks_to_get needed_blocks a =
     andThen (GC_expand_hp_inner rt blocks_to_get a) (\<lambda>(ok, a1).
     andThen (if ok \<or> blocks_to_get = needed_blocks then Inr (ok, a1) else GC_expand_hp_inner rt needed_blocks a1) (\<lambda>(ok, a2).
       if ok then Inr (True, a2)
       else if \<not> gc_not_stopped then andThen (gcollect_inner rt a2) (\<lambda>a3. Inr (True, a3))
       else
         let count = GC_fail_count (the_gc a2); a3 = on_gc (\<lambda>g. g\<lparr>GC_fail_count := count + 1\<rparr>) a2
         in if ucast count < GC_max_retries a3 then andThen (gcollect_inner rt a3) (\<lambda>a4. Inr (True, a4))
            else Inr (False, a3)))"

definition GC_collect_or_expand :: "runtime \<Rightarrow> u64 \<Rightarrow> bool \<Rightarrow> bool \<Rightarrow> allocator \<Rightarrow> (bool \<times> allocator) res" where
  "GC_collect_or_expand rt needed_blocks ignore_off_page retry a =
     (case wants_collection rt a of
        (False, a1) \<Rightarrow> expand_or_fail rt True (blocks_to_expand needed_blocks ignore_off_page a1) needed_blocks a1
      | (True, a1) \<Rightarrow>
          andThen
            (GC_try_to_collect_inner rt
               (if 0 < GC_bytes_allocd (the_gc a1) \<and> (\<not> GC_dont_expand a1 \<or> \<not> retry) then GC_default_stop_func a1
                else GC_never_stop_func) a1) (\<lambda>(gc_not_stopped, a2).
            if gc_not_stopped \<or> \<not> retry
            then Inr (True, a2\<lparr>last_fo_entries := ht_entries (fo_hashtbl a2), last_bytes_finalized := GC_bytes_finalized (the_gc a2)\<rparr>)
            else expand_or_fail rt gc_not_stopped (blocks_to_expand needed_blocks ignore_off_page a2) needed_blocks a2))"

section \<open>Free objects on demand\<close>

text \<open>A round of the loop of \<open>GC_allocobj\<close> ends with an object, with failure, or goes on with \<open>tried_minor\<close>
  and \<open>retry\<close>.\<close>

primrec allocobj_loop :: "nat \<Rightarrow> runtime \<Rightarrow> u64 \<Rightarrow> u8 \<Rightarrow> bool \<Rightarrow> bool \<Rightarrow> allocator \<Rightarrow> (u64 \<times> allocator) res" where
  "allocobj_loop 0 rt gran kind tried_minor retry a = Inl Diverge"
| "allocobj_loop (Suc n) rt gran kind tried_minor retry a =
     andThen (kind_freelist kind gran (the_gc a)) (\<lambda>flh.
       if flh \<noteq> 0 then Inr (flh, on_gc (\<lambda>g. g\<lparr>GC_fail_count := 0\<rparr>) a)
       else
         let g = the_gc a
         in andThen
              (if GC_incremental g \<and> GC_time_limit a \<noteq> GC_TIME_UNLIMITED \<and> \<not> GC_dont_gc g
               then GC_collect_a_little_inner rt 1 a else Inr a) (\<lambda>a1.
            andThen (run_gc (GC_continue_reclaim gran kind) a1) (\<lambda>a2.
            andThen (kind_freelist kind gran (the_gc a2)) (\<lambda>flh2.
              if flh2 \<noteq> 0 then allocobj_loop n rt gran kind tried_minor retry a2
              else
                andThen (run_gc (GC_new_hblk (rt_rounds rt) (rt_stack_size rt) gran kind) a2) (\<lambda>a3.
                andThen (kind_freelist kind gran (the_gc a3)) (\<lambda>flh3.
                  if flh3 \<noteq> 0 then allocobj_loop n rt gran kind tried_minor retry a3
                  else if GC_incremental (the_gc a3) \<and> GC_time_limit a3 = GC_TIME_UNLIMITED \<and> \<not> tried_minor \<and> \<not> GC_dont_gc (the_gc a3)
                  then andThen (GC_collect_a_little_inner rt 1 a3) (allocobj_loop n rt gran kind True retry)
                  else
                    andThen (GC_collect_or_expand rt 1 False retry a3) (\<lambda>(ok, a4).
                      if ok then allocobj_loop n rt gran kind tried_minor True a4 else Inr (0, a4))))))))"

definition GC_allocobj :: "runtime \<Rightarrow> u64 \<Rightarrow> u8 \<Rightarrow> allocator \<Rightarrow> (u64 \<times> allocator) res" where
  "GC_allocobj rt gran kind a = (if gran = 0 then Inr (0, a) else allocobj_loop (rt_rounds rt) rt gran kind False False a)"

end
