(* ===== verification/Atomix_GC_Malloc.thy ===== *)
theory Atomix_GC_Malloc
  imports Atomix_GC_Cycle
begin

unbundle bit_operations_syntax

text \<open>
  Allocation of objects, \<open>malloc.c\<close>, with the table of size classes of \<open>misc.c\<close>: what \<open>GC_malloc\<close>, the
  only call the virtual machine makes to the collector, does. The collector is initialised, the
  function for running out of memory is the default one, which returns NULL, and what runs
  finalizers before an allocation is part of the client. \<open>GC_clear_stack\<close> returns its argument.
\<close>

section \<open>Sizes\<close>

definition EXTRA_BYTES :: "gc \<Rightarrow> u64" where
  "EXTRA_BYTES g = (if GC_all_interior_pointers g then 1 else 0)"

definition ROUNDED_UP_GRANULES :: "u64 \<Rightarrow> u64 \<Rightarrow> u64" where
  "ROUNDED_UP_GRANULES extra lb = BYTES_TO_GRANULES (SIZET_SAT_ADD lb (16 - 1 + extra))"

definition ROUNDUP_GRANULE_SIZE :: "u64 \<Rightarrow> u64" where
  "ROUNDUP_GRANULE_SIZE lb = SIZET_SAT_ADD lb (16 - 1) AND NOT (16 - 1)"

definition SMALL_OBJ :: "u64 \<Rightarrow> u64 \<Rightarrow> bool" where
  "SMALL_OBJ extra bytes \<longleftrightarrow> bytes \<le> MAXOBJBYTES - 1 \<or> bytes \<le> MAXOBJBYTES - extra"

definition ADD_SLOP :: "u64 \<Rightarrow> u64 \<Rightarrow> u64" where
  "ADD_SLOP extra lb = SIZET_SAT_ADD lb extra"

definition TINY_FREELISTS :: u64 where
  "TINY_FREELISTS = 25"

primrec fill_rounded :: "nat \<Rightarrow> u64 \<Rightarrow> u64 \<Rightarrow> u64 \<Rightarrow> u64 list \<Rightarrow> u64 list res" where
  "fill_rounded 0 extra lim i t = Inl Diverge"
| "fill_rounded (Suc n) extra lim i t =
     (if i \<le> lim then andThen (write_at t i (ROUNDED_UP_GRANULES extra i)) (fill_rounded n extra lim (i + 1)) else Inr t)"

definition GC_init_size_map :: "u64 \<Rightarrow> u64 list \<Rightarrow> u64 list res" where
  "GC_init_size_map extra t =
     andThen (write_at t 0 1) (fill_rounded 385 extra (GRANULES_TO_BYTES (TINY_FREELISTS - 1) - extra) 1)"

text \<open>The first entry from \<open>i\<close> on that is not filled in.\<close>

primrec first_unfilled :: "nat \<Rightarrow> u64 \<Rightarrow> u64 list \<Rightarrow> u64 res" where
  "first_unfilled 0 i t = Inl Diverge"
| "first_unfilled (Suc n) i t = andThen (read_at t i) (\<lambda>x. if x \<noteq> 0 then first_unfilled n (i + 1) t else Inr i)"

primrec fill_with :: "nat \<Rightarrow> u64 \<Rightarrow> u64 \<Rightarrow> u64 \<Rightarrow> u64 list \<Rightarrow> u64 list res" where
  "fill_with 0 granule_sz lim i t = Inl Diverge"
| "fill_with (Suc n) granule_sz lim i t =
     (if i \<le> lim then andThen (write_at t i granule_sz) (fill_with n granule_sz lim (i + 1)) else Inr t)"

definition start_of_class :: "u64 \<Rightarrow> u64 \<Rightarrow> u64 list \<Rightarrow> (u64 \<times> u64) res" where
  "start_of_class extra i t =
     (let orig_granule_sz = ROUNDED_UP_GRANULES extra i; byte_sz = GRANULES_TO_BYTES orig_granule_sz;
          smaller_than_i = byte_sz - drop_bit 3 byte_sz
      in andThen (read_at t smaller_than_i) (\<lambda>x.
           if x = 0
           then andThen (first_unfilled 2050 (byte_sz - drop_bit 2 byte_sz) t) (\<lambda>low_limit. Inr (low_limit, orig_granule_sz))
           else
             andThen (first_unfilled 2050 (smaller_than_i + 1) t) (\<lambda>low_limit.
               let g = ROUNDED_UP_GRANULES extra low_limit; g = g + drop_bit 3 g
               in Inr (low_limit, if g < orig_granule_sz then orig_granule_sz else g))))"

text \<open>The size of a class is positive, so the divisions are those of C.\<close>

definition class_size :: "u64 \<Rightarrow> u64" where
  "class_size granule_sz =
     (let g = (granule_sz + 1) AND NOT 1; g = (if 128 < g then 128 else g) in (256 div (256 div g)) AND NOT 1)"

definition GC_extend_size_map :: "u64 \<Rightarrow> u64 \<Rightarrow> u64 list \<Rightarrow> u64 list res" where
  "GC_extend_size_map extra i t =
     andThen (start_of_class extra i t) (\<lambda>(low_limit, granule_sz).
       let g = class_size granule_sz in fill_with 2050 g (GRANULES_TO_BYTES g - extra) low_limit t)"

section \<open>Large objects\<close>

definition GC_alloc_reclaim_list :: "u8 \<Rightarrow> gc \<Rightarrow> (bool \<times> gc) res" where
  "GC_alloc_reclaim_list kind g =
     (case scratch g of
        (False, g') \<Rightarrow> Inr (False, g')
      | (True, g') \<Rightarrow>
          andThen (read_at (GC_obj_kinds g') (ucast kind)) (\<lambda>ok.
          andThen (write_at (GC_obj_kinds g') (ucast kind) (ok\<lparr>ok_reclaim_list := replicate 129 0\<rparr>)) (\<lambda>kinds.
            Inr (True, g'\<lparr>GC_obj_kinds := kinds\<rparr>))))"

primrec collect_until_block :: "nat \<Rightarrow> runtime \<Rightarrow> u64 \<Rightarrow> u8 \<Rightarrow> u8 \<Rightarrow> u64 \<Rightarrow> bool \<Rightarrow> u64 \<Rightarrow> allocator \<Rightarrow> (u64 \<times> allocator) res" where
  "collect_until_block 0 rt lb k flags n_blocks retry h a = Inl Diverge"
| "collect_until_block (Suc n) rt lb k flags n_blocks retry h a =
     (if h \<noteq> 0 then Inr (h, a)
      else
        andThen (GC_collect_or_expand rt n_blocks (flags \<noteq> 0) retry a) (\<lambda>(ok, a1).
          if \<not> ok then Inr (0, a1)
          else
            andThen (run_gc_with (GC_allochblk (rt_rounds rt) (rt_stack_size rt) lb k flags) a1) (\<lambda>(h', a2).
              collect_until_block n rt lb k flags n_blocks True h' a2)))"

definition count_large :: "u64 \<Rightarrow> gc \<Rightarrow> gc" where
  "count_large n_blocks g =
     (if 1 < n_blocks
      then
        let total = GC_large_allocd_bytes g + n_blocks * HBLKSIZE
        in g\<lparr>GC_large_allocd_bytes := total,
             GC_max_large_allocd_bytes := if GC_max_large_allocd_bytes g < total then total else GC_max_large_allocd_bytes g\<rparr>
      else g)"

definition GC_alloc_large :: "runtime \<Rightarrow> u64 \<Rightarrow> u8 \<Rightarrow> u8 \<Rightarrow> allocator \<Rightarrow> (u64 \<times> allocator) res" where
  "GC_alloc_large rt lb k flags a =
     (let lb = ROUNDUP_GRANULE_SIZE lb; n_blocks = OBJ_SZ_TO_BLOCKS_CHECKED lb
      in andThen
           (if GC_incremental (the_gc a) \<and> \<not> GC_dont_gc (the_gc a) then GC_collect_a_little_inner rt (ucast n_blocks) a else Inr a) (\<lambda>a1.
         andThen (run_gc_with (GC_allochblk (rt_rounds rt) (rt_stack_size rt) lb k flags) a1) (\<lambda>(h, a2).
         andThen (collect_until_block (rt_rounds rt) rt lb k flags n_blocks False h a2) (\<lambda>(h', a3).
           Inr (h', if h' = 0 then a3 else on_gc (count_large n_blocks) a3)))))"

definition zero_block :: "u64 \<Rightarrow> u64 \<Rightarrow> gc \<Rightarrow> gc" where
  "zero_block p n_blocks g = g\<lparr>gc_mem := BZERO p (unat (n_blocks * HBLKSIZE) div 8) (gc_mem g)\<rparr>"

definition kind_init :: "u8 \<Rightarrow> gc \<Rightarrow> bool res" where
  "kind_init k g = andThen (read_at (GC_obj_kinds g) (ucast k)) (\<lambda>ok. Inr (ok_init ok))"

definition GC_alloc_large_and_clear :: "runtime \<Rightarrow> u64 \<Rightarrow> u8 \<Rightarrow> u8 \<Rightarrow> allocator \<Rightarrow> (u64 \<times> allocator) res" where
  "GC_alloc_large_and_clear rt lb k flags a =
     andThen (GC_alloc_large rt lb k flags a) (\<lambda>(result, a1).
     andThen (if result \<noteq> 0 then kind_init k (the_gc a1) else Inr False) (\<lambda>init.
       Inr (result,
         if result \<noteq> 0 \<and> (GC_debugging_started (the_gc a1) \<or> init) then on_gc (zero_block result (OBJ_SZ_TO_BLOCKS lb)) a1 else a1)))"

section \<open>Small objects\<close>

definition obj_link :: "u64 \<Rightarrow> gc \<Rightarrow> u64" where
  "obj_link p g = gc_mem g p"

definition set_obj_link :: "u64 \<Rightarrow> u64 \<Rightarrow> gc \<Rightarrow> gc" where
  "set_obj_link p q g = g\<lparr>gc_mem := (gc_mem g)(p := q)\<rparr>"

text \<open>The first object of a free list taken off; its link is cleared or, for pointer-free objects, not.\<close>

definition take_object :: "bool \<Rightarrow> u64 \<Rightarrow> u8 \<Rightarrow> u64 \<Rightarrow> gc \<Rightarrow> gc res" where
  "take_object clear op k lg g =
     andThen (set_kind_freelist k lg (obj_link op g) g) (\<lambda>g1.
       let g2 = (if clear then set_obj_link op 0 g1 else g1)
       in Inr (g2\<lparr>GC_bytes_allocd := GC_bytes_allocd g2 + GRANULES_TO_BYTES lg\<rparr>))"

definition size_class :: "u64 \<Rightarrow> allocator \<Rightarrow> (u64 \<times> allocator) res" where
  "size_class lb a =
     andThen (read_at (GC_size_map a) lb) (\<lambda>lg.
       if lg \<noteq> 0 then Inr (lg, a)
       else
         andThen (GC_extend_size_map (EXTRA_BYTES (the_gc a)) lb (GC_size_map a)) (\<lambda>t.
         andThen (read_at t lb) (\<lambda>lg. Inr (lg, a\<lparr>GC_size_map := t\<rparr>))))"

text \<open>The map of sizes is extended only when the list of class 0, which is always empty, was tried.\<close>

definition generic_malloc_small :: "runtime \<Rightarrow> u64 \<Rightarrow> u8 \<Rightarrow> allocator \<Rightarrow> (u64 \<times> allocator) res" where
  "generic_malloc_small rt lb k a =
     andThen (read_at (GC_size_map a) lb) (\<lambda>lg0.
     andThen (kind_freelist k lg0 (the_gc a)) (\<lambda>op0.
     andThen
       (if op0 \<noteq> 0 then Inr ((lg0, op0), a)
        else
          andThen (if lg0 = 0 then size_class lb a else Inr (lg0, a)) (\<lambda>(lg, a1).
          andThen (kind_freelist k lg (the_gc a1)) (\<lambda>op.
            if op \<noteq> 0 then Inr ((lg, op), a1)
            else
              andThen (read_at (GC_obj_kinds (the_gc a1)) (ucast k)) (\<lambda>ok.
              andThen (if ok_reclaim_list ok = [] then run_gc_with (GC_alloc_reclaim_list k) a1 else Inr (True, a1)) (\<lambda>(have_list, a2).
                if \<not> have_list then Inr ((lg, 0), a2)
                else andThen (GC_allocobj rt lg k a2) (\<lambda>(op, a3). Inr ((lg, op), a3))))))) (\<lambda>((lg, op), a4).
       if op = 0 then Inr (0, a4) else andThen (run_gc (take_object True op k lg) a4) (\<lambda>a5. Inr (op, a5)))))"

definition count_bytes :: "u64 \<Rightarrow> gc \<Rightarrow> gc" where
  "count_bytes n g = g\<lparr>GC_bytes_allocd := GC_bytes_allocd g + n\<rparr>"

definition GC_generic_malloc_inner :: "runtime \<Rightarrow> u64 \<Rightarrow> u8 \<Rightarrow> allocator \<Rightarrow> (u64 \<times> allocator) res" where
  "GC_generic_malloc_inner rt lb k a =
     (let extra = EXTRA_BYTES (the_gc a)
      in if SMALL_OBJ extra lb then generic_malloc_small rt lb k a
         else
           let lb_adjusted = ADD_SLOP extra lb
           in andThen (GC_alloc_large_and_clear rt lb_adjusted k 0 a) (\<lambda>(op, a1).
                Inr (op, if op \<noteq> 0 then on_gc (count_bytes lb_adjusted) a1 else a1)))"

definition GC_generic_malloc_inner_ignore_off_page :: "runtime \<Rightarrow> u64 \<Rightarrow> u8 \<Rightarrow> allocator \<Rightarrow> (u64 \<times> allocator) res" where
  "GC_generic_malloc_inner_ignore_off_page rt lb k a =
     (if lb \<le> HBLKSIZE then GC_generic_malloc_inner rt lb k a
      else
        let lb_adjusted = ADD_SLOP (EXTRA_BYTES (the_gc a)) lb
        in andThen (GC_alloc_large_and_clear rt lb_adjusted k IGNORE_OFF_PAGE a) (\<lambda>(op, a1).
             Inr (op, if op \<noteq> 0 then on_gc (count_bytes lb_adjusted) a1 else a1)))"

definition GC_generic_malloc :: "runtime \<Rightarrow> u64 \<Rightarrow> u8 \<Rightarrow> allocator \<Rightarrow> (u64 \<times> allocator) res" where
  "GC_generic_malloc rt lb k a =
     (let extra = EXTRA_BYTES (the_gc a)
      in if SMALL_OBJ extra lb then GC_generic_malloc_inner rt lb k a
         else
           let lb_rounded = GRANULES_TO_BYTES (ROUNDED_UP_GRANULES extra lb)
           in andThen (kind_init k (the_gc a)) (\<lambda>init.
              andThen (GC_alloc_large rt lb_rounded k 0 a) (\<lambda>(result, a1).
                if result = 0 then Inr (0, a1)
                else
                  Inr (result,
                    on_gc (count_bytes lb_rounded)
                      (if GC_debugging_started (the_gc a1) \<or> init
                       then on_gc (zero_block result (OBJ_SZ_TO_BLOCKS lb_rounded)) a1 else a1)))))"

definition GC_malloc_kind_global :: "runtime \<Rightarrow> u64 \<Rightarrow> u8 \<Rightarrow> allocator \<Rightarrow> (u64 \<times> allocator) res" where
  "GC_malloc_kind_global rt lb k a =
     (if SMALL_OBJ (EXTRA_BYTES (the_gc a)) lb
      then
        andThen (read_at (GC_size_map a) lb) (\<lambda>lg.
        andThen (kind_freelist k lg (the_gc a)) (\<lambda>op.
          if op \<noteq> 0 then andThen (run_gc (take_object (k \<noteq> PTRFREE) op k lg) a) (\<lambda>a'. Inr (op, a'))
          else GC_generic_malloc rt lb k a))
      else GC_generic_malloc rt lb k a)"

definition GC_malloc_atomic :: "runtime \<Rightarrow> u64 \<Rightarrow> allocator \<Rightarrow> (u64 \<times> allocator) res" where
  "GC_malloc_atomic rt lb = GC_malloc_kind_global rt lb PTRFREE"

definition GC_malloc :: "runtime \<Rightarrow> u64 \<Rightarrow> allocator \<Rightarrow> (u64 \<times> allocator) res" where
  "GC_malloc rt lb = GC_malloc_kind_global rt lb 1"

section \<open>Uncollectable objects\<close>

definition GC_generic_malloc_uncollectable :: "runtime \<Rightarrow> u64 \<Rightarrow> u8 \<Rightarrow> allocator \<Rightarrow> (u64 \<times> allocator) res" where
  "GC_generic_malloc_uncollectable rt lb k a =
     (let extra = EXTRA_BYTES (the_gc a)
      in if SMALL_OBJ extra lb
         then
           let lb = (if extra \<noteq> 0 \<and> lb \<noteq> 0 then lb - 1 else lb)
           in andThen (read_at (GC_size_map a) lb) (\<lambda>lg.
              andThen (kind_freelist k lg (the_gc a)) (\<lambda>op.
                if op \<noteq> 0
                then andThen (run_gc (take_object True op k lg) a) (\<lambda>a1.
                  Inr (op, on_gc (\<lambda>g. g\<lparr>GC_non_gc_bytes := GC_non_gc_bytes g + GRANULES_TO_BYTES lg\<rparr>) a1))
                else GC_generic_malloc rt lb k a))
         else
           andThen (GC_generic_malloc rt lb k a) (\<lambda>(op, a1).
             if op = 0 then Inr (0, a1)
             else
               andThen
                 (run_gc (update_hdr_of op (\<lambda>h. andThen (set_mark_bit_from_hdr h 0) (\<lambda>h'. Inr (h'\<lparr>hb_n_marks := 1\<rparr>)))) a1)
                 (\<lambda>a2. Inr (op, a2))))"

definition GC_malloc_uncollectable :: "runtime \<Rightarrow> u64 \<Rightarrow> allocator \<Rightarrow> (u64 \<times> allocator) res" where
  "GC_malloc_uncollectable rt lb = GC_generic_malloc_uncollectable rt lb 2"

section \<open>Freeing\<close>

definition GC_free :: "u64 \<Rightarrow> gc \<Rightarrow> gc res" where
  "GC_free p g =
     (if p = 0 then Inr g
      else
        let h = HBLKPTR p
        in andThen (hdr_of h g) (\<lambda>hhdr.
             let sz = hb_sz hhdr; ngranules = BYTES_TO_GRANULES sz; knd = hb_obj_kind hhdr;
                 g1 = g\<lparr>GC_bytes_freed := GC_bytes_freed g + sz,
                        GC_non_gc_bytes := if IS_UNCOLLECTABLE knd then GC_non_gc_bytes g - sz else GC_non_gc_bytes g\<rparr>
             in andThen (read_at (GC_obj_kinds g) (ucast knd)) (\<lambda>ok.
                  if ngranules \<le> 128
                  then
                    let g2 = (if ok_init ok \<and> 8 < sz then g1\<lparr>gc_mem := BZERO (p + 8) (unat (sz - 8) div 8) (gc_mem g1)\<rparr> else g1)
                    in andThen (kind_freelist knd ngranules g2) (\<lambda>flh. set_kind_freelist knd ngranules p (set_obj_link p flh g2))
                  else
                    let nblocks = OBJ_SZ_TO_BLOCKS sz
                    in GC_freehblk h
                         (if 1 < nblocks then g1\<lparr>GC_large_allocd_bytes := GC_large_allocd_bytes g1 - nblocks * HBLKSIZE\<rparr> else g1))))"

end
