(* ===== verification/Atomix_GC_Finalizers.thy ===== *)
theory Atomix_GC_Finalizers
  imports Atomix_GC_Malloc
begin

unbundle bit_operations_syntax

text \<open>
  The operations of \<open>finalize.c\<close> for clients: registering, moving and removing disappearing links,
  registering finalizers and toggle references, and running the finalizers that are queued. The
  function for running out of memory is the default one, so an entry that cannot be allocated is not
  registered. Finalizers and the function that is told of them are arguments.
\<close>

datatype gc_result = GC_SUCCESS | GC_DUPLICATE | GC_NO_MEMORY | GC_UNIMPLEMENTED | GC_NOT_FOUND

section \<open>The hash tables\<close>

text \<open>\<open>GC_INTERNAL_MALLOC(lb, NORMAL)\<close>\<close>

definition GC_INTERNAL_MALLOC :: "runtime \<Rightarrow> u64 \<Rightarrow> allocator \<Rightarrow> (u64 \<times> allocator) res" where
  "GC_INTERNAL_MALLOC rt lb = GC_generic_malloc_inner rt lb 1"

definition GC_INTERNAL_MALLOC_IGNORE_OFF_PAGE :: "runtime \<Rightarrow> u64 \<Rightarrow> allocator \<Rightarrow> (u64 \<times> allocator) res" where
  "GC_INTERNAL_MALLOC_IGNORE_OFF_PAGE rt lb = GC_generic_malloc_inner_ignore_off_page rt lb 1"

definition GC_ON_GROW_LOG_SIZE_MIN :: nat where
  "GC_ON_GROW_LOG_SIZE_MIN = 12"

primrec rehash_chain :: "nat \<Rightarrow> u64 \<Rightarrow> u64 \<Rightarrow> nat \<Rightarrow> u64 \<Rightarrow> allocator \<Rightarrow> allocator res" where
  "rehash_chain 0 new_table new_size log_new_size p a = Inl Diverge"
| "rehash_chain (Suc n) new_table new_size log_new_size p a =
     (if p = 0 then Inr a
      else
        let real_key = GC_REVEAL_POINTER (load (hidden_key p) a); nxt = load (next_field p) a;
            b = new_table + 8 * HASH3 real_key new_size log_new_size;
            a1 = store (next_field p) (load b a) a
        in rehash_chain n new_table new_size log_new_size nxt (store b p a1))"

text \<open>A large table is grown only when a collection has not removed a quarter of its entries.\<close>

definition grow_unneeded :: "runtime \<Rightarrow> which_table \<Rightarrow> allocator \<Rightarrow> (bool \<times> allocator) res" where
  "grow_unneeded rt t a =
     (let log_old_size = ht_log_size (the_table t a)
      in if GC_ON_GROW_LOG_SIZE_MIN \<le> log_old_size \<and> \<not> GC_incremental (the_gc a)
         then
           andThen (gcollect_inner rt a) (\<lambda>a1.
             let entries = ht_entries (the_table t a1)
             in Inr (entries < push_bit log_old_size 1 - drop_bit 2 entries, a1))
         else Inr (False, a))"

definition GC_grow_table :: "runtime \<Rightarrow> which_table \<Rightarrow> allocator \<Rightarrow> allocator res" where
  "GC_grow_table rt t a =
     (let log_new_size = Suc (ht_log_size (the_table t a)); old_size = table_size t a;
          new_size = push_bit log_new_size 1
      in andThen (grow_unneeded rt t a) (\<lambda>(unneeded, a1).
           if unneeded then Inr a1
           else
             andThen (GC_INTERNAL_MALLOC_IGNORE_OFF_PAGE rt (new_size * 8) a1) (\<lambda>(new_table, a2).
               if new_table = 0
               then if ht_head (the_table t a2) = 0 then Inl (Panic ''Insufficient space for initial table allocation'') else Inr a2
               else
                 andThen
                   (for_each
                      (\<lambda>i a. rehash_chain (rt_rounds rt) new_table new_size log_new_size (load (bucket t (word_of_nat i) a) a) a)
                      [0 ..< old_size] a2)
                   (\<lambda>a3. Inr (on_table t (\<lambda>h. h\<lparr>ht_log_size := log_new_size, ht_head := new_table\<rparr>) a3)))))"

definition grow_if_full :: "runtime \<Rightarrow> which_table \<Rightarrow> allocator \<Rightarrow> allocator res" where
  "grow_if_full rt t a =
     (let h = the_table t a
      in if ht_head h = 0 \<or> push_bit (ht_log_size h) 1 < ht_entries h then GC_grow_table rt t a else Inr a)"

text \<open>The entry with a hidden key in a chain, or 0, with the one before it.\<close>

primrec find_entry :: "nat \<Rightarrow> u64 \<Rightarrow> u64 \<Rightarrow> u64 \<Rightarrow> allocator \<Rightarrow> (u64 \<times> u64) res" where
  "find_entry 0 key prev entry a = Inl Diverge"
| "find_entry (Suc n) key prev entry a =
     (if entry = 0 then Inr (prev, 0)
      else if load (hidden_key entry) a = key then Inr (prev, entry)
      else find_entry n key entry (load (next_field entry) a) a)"

definition index_of :: "which_table \<Rightarrow> u64 \<Rightarrow> allocator \<Rightarrow> u64" where
  "index_of t p a = HASH2 p (ht_log_size (the_table t a))"

definition find_key :: "runtime \<Rightarrow> which_table \<Rightarrow> u64 \<Rightarrow> allocator \<Rightarrow> (u64 \<times> u64) res" where
  "find_key rt t p a = find_entry (rt_rounds rt) (GC_HIDE_POINTER p) 0 (load (bucket t (index_of t p a) a) a) a"

text \<open>A new first entry of a chain.\<close>

definition push_entry_on :: "which_table \<Rightarrow> u64 \<Rightarrow> u64 \<Rightarrow> allocator \<Rightarrow> allocator" where
  "push_entry_on t index p a =
     (let b = bucket t index a in add_entries t 1 (store b p (store (next_field p) (load b a) a)))"

section \<open>Disappearing links\<close>

definition GC_register_disappearing_link_inner ::
    "runtime \<Rightarrow> which_table \<Rightarrow> u64 \<Rightarrow> u64 \<Rightarrow> allocator \<Rightarrow> (gc_result \<times> allocator) res" where
  "GC_register_disappearing_link_inner rt t link obj a =
     (if GC_find_leak (the_gc a) then Inr (GC_UNIMPLEMENTED, a)
      else
        andThen (grow_if_full rt t a) (\<lambda>a1.
          let index = index_of t link a1
          in andThen (find_key rt t link a1) (\<lambda>(_, curr_dl).
               if curr_dl \<noteq> 0 then Inr (GC_DUPLICATE, store (dl_hidden_obj curr_dl) (GC_HIDE_POINTER obj) a1)
               else
                 andThen (GC_INTERNAL_MALLOC rt 24 a1) (\<lambda>(new_dl, a2).
                   if new_dl = 0 then Inr (GC_NO_MEMORY, a2)
                   else
                     let a3 = store (dl_hidden_obj new_dl) (GC_HIDE_POINTER obj) a2;
                         a4 = store (hidden_key new_dl) (GC_HIDE_POINTER link) a3
                     in Inr (GC_SUCCESS, push_entry_on t index new_dl a4)))))"

definition unaligned :: "u64 \<Rightarrow> bool" where
  "unaligned link \<longleftrightarrow> link AND (8 - 1) \<noteq> 0"

definition GC_general_register_disappearing_link :: "runtime \<Rightarrow> u64 \<Rightarrow> u64 \<Rightarrow> allocator \<Rightarrow> (gc_result \<times> allocator) res" where
  "GC_general_register_disappearing_link rt link obj a =
     (if unaligned link \<or> link = 0 then Inl (Panic ''Bad arg to GC_general_register_disappearing_link'')
      else GC_register_disappearing_link_inner rt Dl_Table link obj a)"

definition GC_register_disappearing_link :: "runtime \<Rightarrow> u64 \<Rightarrow> allocator \<Rightarrow> (gc_result \<times> allocator) res" where
  "GC_register_disappearing_link rt link a =
     andThen (GC_base link (the_gc a)) (\<lambda>base.
       if base = 0 then Inl (Panic ''Bad arg to GC_register_disappearing_link'')
       else GC_general_register_disappearing_link rt link base a)"

definition GC_register_long_link :: "runtime \<Rightarrow> u64 \<Rightarrow> u64 \<Rightarrow> allocator \<Rightarrow> (gc_result \<times> allocator) res" where
  "GC_register_long_link rt link obj a =
     (if unaligned link \<or> link = 0 then Inl (Panic ''Bad arg to GC_register_long_link'')
      else GC_register_disappearing_link_inner rt Ll_Table link obj a)"

definition GC_unregister_disappearing_link_inner :: "runtime \<Rightarrow> which_table \<Rightarrow> u64 \<Rightarrow> allocator \<Rightarrow> (u64 \<times> allocator) res" where
  "GC_unregister_disappearing_link_inner rt t link a =
     (if ht_head (the_table t a) = 0 then Inr (0, a)
      else
        andThen (find_key rt t link a) (\<lambda>(prev_dl, curr_dl).
          Inr (curr_dl,
            if curr_dl = 0 then a
            else add_entries t (- 1) (unlink t (index_of t link a) prev_dl (load (next_field curr_dl) a) a))))"

text \<open>The entry is freed; the result is whether there was one.\<close>

definition unregister_link :: "runtime \<Rightarrow> which_table \<Rightarrow> u64 \<Rightarrow> allocator \<Rightarrow> (bool \<times> allocator) res" where
  "unregister_link rt t link a =
     (if unaligned link then Inr (False, a)
      else
        andThen (GC_unregister_disappearing_link_inner rt t link a) (\<lambda>(curr_dl, a1).
          if curr_dl = 0 then Inr (False, a1) else andThen (run_gc (GC_free curr_dl) a1) (\<lambda>a2. Inr (True, a2))))"

definition GC_unregister_disappearing_link :: "runtime \<Rightarrow> u64 \<Rightarrow> allocator \<Rightarrow> (bool \<times> allocator) res" where
  "GC_unregister_disappearing_link rt = unregister_link rt Dl_Table"

definition GC_unregister_long_link :: "runtime \<Rightarrow> u64 \<Rightarrow> allocator \<Rightarrow> (bool \<times> allocator) res" where
  "GC_unregister_long_link rt = unregister_link rt Ll_Table"

definition GC_move_disappearing_link_inner :: "runtime \<Rightarrow> which_table \<Rightarrow> u64 \<Rightarrow> u64 \<Rightarrow> allocator \<Rightarrow> (gc_result \<times> allocator) res" where
  "GC_move_disappearing_link_inner rt t link new_link a =
     (if ht_head (the_table t a) = 0 then Inr (GC_NOT_FOUND, a)
      else
        andThen (find_key rt t link a) (\<lambda>(prev_dl, curr_dl).
          if curr_dl = 0 then Inr (GC_NOT_FOUND, a)
          else if link = new_link then Inr (GC_SUCCESS, a)
          else
            andThen (find_key rt t new_link a) (\<lambda>(_, new_dl).
              if new_dl \<noteq> 0 then Inr (GC_DUPLICATE, a)
              else
                let a1 = unlink t (index_of t link a) prev_dl (load (next_field curr_dl) a) a;
                    a2 = store (hidden_key curr_dl) (GC_HIDE_POINTER new_link) a1;
                    b = bucket t (index_of t new_link a) a2;
                    a3 = store (next_field curr_dl) (load b a2) a2
                in Inr (GC_SUCCESS, store b curr_dl a3))))"

definition GC_move_disappearing_link :: "runtime \<Rightarrow> u64 \<Rightarrow> u64 \<Rightarrow> allocator \<Rightarrow> (gc_result \<times> allocator) res" where
  "GC_move_disappearing_link rt link new_link a =
     (if unaligned new_link \<or> new_link = 0 then Inl (Panic ''Bad new_link arg to GC_move_disappearing_link'')
      else if unaligned link then Inr (GC_NOT_FOUND, a)
      else GC_move_disappearing_link_inner rt Dl_Table link new_link a)"

definition GC_move_long_link :: "runtime \<Rightarrow> u64 \<Rightarrow> u64 \<Rightarrow> allocator \<Rightarrow> (gc_result \<times> allocator) res" where
  "GC_move_long_link rt link new_link a =
     (if unaligned new_link \<or> new_link = 0 then Inl (Panic ''Bad new_link arg to GC_move_long_link'')
      else if unaligned link then Inr (GC_NOT_FOUND, a)
      else GC_move_disappearing_link_inner rt Ll_Table link new_link a)"

section \<open>Toggle references\<close>

text \<open>The capacity doubled until it is enough; not enough when its top bit is set.\<close>

primrec double_capacity :: "nat \<Rightarrow> u64 \<Rightarrow> u64 \<Rightarrow> (bool \<times> u64) res" where
  "double_capacity 0 needed cap = Inl Diverge"
| "double_capacity (Suc n) needed cap =
     (if cap < needed then let cap = cap * 2 in if bit cap 63 then Inr (False, cap) else double_capacity n needed cap
      else Inr (True, cap))"

definition copy_words :: "u64 \<Rightarrow> u64 \<Rightarrow> nat \<Rightarrow> allocator \<Rightarrow> allocator" where
  "copy_words from to n a =
     on_gc (\<lambda>g. g\<lparr>gc_mem := fold (\<lambda>i m. m(to + 8 * word_of_nat i := gc_mem g (from + 8 * word_of_nat i))) [0 ..< n] (gc_mem g)\<rparr>) a"

definition first_toggleref_array :: "runtime \<Rightarrow> allocator \<Rightarrow> allocator res" where
  "first_toggleref_array rt a =
     (if GC_toggleref_arr a \<noteq> 0 then Inr a
      else
        andThen (GC_INTERNAL_MALLOC_IGNORE_OFF_PAGE rt (32 * 8) (a\<lparr>GC_toggleref_array_capacity := 32\<rparr>)) (\<lambda>(p, a1).
          Inr (a1\<lparr>GC_toggleref_arr := p\<rparr>)))"

definition ensure_toggleref_capacity :: "runtime \<Rightarrow> u64 \<Rightarrow> allocator \<Rightarrow> (bool \<times> allocator) res" where
  "ensure_toggleref_capacity rt capacity_inc a =
     andThen (first_toggleref_array rt a) (\<lambda>a1.
       let size = GC_toggleref_array_size a1; cap = GC_toggleref_array_capacity a1
       in if GC_toggleref_arr a1 = 0 then Inr (False, a1)
          else if size + capacity_inc < cap then Inr (True, a1)
          else
            andThen (double_capacity 65 (size + capacity_inc) cap) (\<lambda>(ok, cap').
              let a2 = a1\<lparr>GC_toggleref_array_capacity := cap'\<rparr>
              in if \<not> ok then Inr (False, a2)
                 else
                   andThen (GC_INTERNAL_MALLOC_IGNORE_OFF_PAGE rt (cap' * 8) a2) (\<lambda>(new_array, a3).
                     if new_array = 0 then Inr (False, a3)
                     else
                       let a4 = copy_words (GC_toggleref_arr a3) new_array (unat (GC_toggleref_array_size a3)) a3
                       in andThen (run_gc (GC_free (GC_toggleref_arr a4)) a4) (\<lambda>a5.
                            Inr (True, a5\<lparr>GC_toggleref_arr := new_array\<rparr>)))))"

definition GC_toggleref_add :: "runtime \<Rightarrow> u64 \<Rightarrow> bool \<Rightarrow> allocator \<Rightarrow> (gc_result \<times> allocator) res" where
  "GC_toggleref_add rt obj is_strong_ref a =
     (if \<not> GC_toggleref_callback_set a then Inr (GC_SUCCESS, a)
      else
        andThen (ensure_toggleref_capacity rt 1 a) (\<lambda>(ok, a1).
          if \<not> ok then Inr (GC_NO_MEMORY, a1)
          else
            let size = GC_toggleref_array_size a1
            in Inr (GC_SUCCESS,
                 (store (toggleref_at size a1) (if is_strong_ref then obj else GC_HIDE_POINTER obj) a1)
                   \<lparr>GC_toggleref_array_size := size + 1\<rparr>)))"

section \<open>Finalizers\<close>

text \<open>The second result is what the caller learns of the finalizer before, when anything.\<close>

definition replace_finalizer ::
    "u64 \<Rightarrow> u64 \<Rightarrow> u64 \<Rightarrow> u64 \<Rightarrow> u64 \<Rightarrow> u64 \<Rightarrow> allocator \<Rightarrow> allocator res" where
  "replace_finalizer index prev_fo curr_fo fn cd mp a =
     (let a1 = unlink Fo_Table index prev_fo (load (next_field curr_fo) a) a
      in if fn = 0 then run_gc (GC_free curr_fo) (add_entries Fo_Table (- 1) a1)
         else
           let a2 = store (fo_fn curr_fo) fn a1; a3 = store (fo_client_data curr_fo) cd a2; a4 = store (fo_mark_proc curr_fo) mp a3
           in Inr (unlink Fo_Table index prev_fo curr_fo a4))"

definition new_finalizer ::
    "runtime \<Rightarrow> u64 \<Rightarrow> u64 \<Rightarrow> u64 \<Rightarrow> u64 \<Rightarrow> u64 \<Rightarrow> allocator \<Rightarrow> ((u64 \<times> u64) option \<times> allocator) res" where
  "new_finalizer rt index obj fn cd mp a =
     andThen (HDR obj (the_gc a)) (\<lambda>hhdr.
       if hhdr = 0 then Inr (Some (0, 0), a)
       else
         andThen (GC_INTERNAL_MALLOC rt 48 a) (\<lambda>(new_fo, a1).
           if new_fo = 0 then Inr (None, a1)
           else
             andThen (get_hdr hhdr (the_gc a1)) (\<lambda>hd.
               let a2 = store (hidden_key new_fo) (GC_HIDE_POINTER obj) a1; a3 = store (fo_fn new_fo) fn a2;
                   a4 = store (fo_client_data new_fo) cd a3; a5 = store (fo_object_size new_fo) (hb_sz hd) a4;
                   a6 = store (fo_mark_proc new_fo) mp a5
               in Inr (Some (0, 0), push_entry_on Fo_Table index new_fo a6))))"

definition GC_register_finalizer_inner ::
    "runtime \<Rightarrow> u64 \<Rightarrow> u64 \<Rightarrow> u64 \<Rightarrow> u64 \<Rightarrow> allocator \<Rightarrow> ((u64 \<times> u64) option \<times> allocator) res" where
  "GC_register_finalizer_inner rt obj fn cd mp a =
     (if GC_find_leak (the_gc a) then Inr (None, a)
      else
        let a = (if mp = unreachable_mark_proc then a\<lparr>need_unreachable_finalization := True\<rparr> else a)
        in andThen (grow_if_full rt Fo_Table a) (\<lambda>a1.
             let index = index_of Fo_Table obj a1
             in andThen (find_key rt Fo_Table obj a1) (\<lambda>(prev_fo, curr_fo).
                  if curr_fo \<noteq> 0
                  then andThen (replace_finalizer index prev_fo curr_fo fn cd mp a1) (\<lambda>a2.
                    Inr (Some (load (fo_fn curr_fo) a1, load (fo_client_data curr_fo) a1), a2))
                  else if fn = 0 then Inr (Some (0, 0), a1)
                  else new_finalizer rt index obj fn cd mp a1)))"

definition GC_register_finalizer :: "runtime \<Rightarrow> u64 \<Rightarrow> u64 \<Rightarrow> u64 \<Rightarrow> allocator \<Rightarrow> ((u64 \<times> u64) option \<times> allocator) res" where
  "GC_register_finalizer rt obj fn cd = GC_register_finalizer_inner rt obj fn cd normal_mark_proc"

definition GC_register_finalizer_ignore_self ::
    "runtime \<Rightarrow> u64 \<Rightarrow> u64 \<Rightarrow> u64 \<Rightarrow> allocator \<Rightarrow> ((u64 \<times> u64) option \<times> allocator) res" where
  "GC_register_finalizer_ignore_self rt obj fn cd = GC_register_finalizer_inner rt obj fn cd ignore_self_mark_proc"

definition GC_register_finalizer_no_order ::
    "runtime \<Rightarrow> u64 \<Rightarrow> u64 \<Rightarrow> u64 \<Rightarrow> allocator \<Rightarrow> ((u64 \<times> u64) option \<times> allocator) res" where
  "GC_register_finalizer_no_order rt obj fn cd = GC_register_finalizer_inner rt obj fn cd null_mark_proc"

definition GC_register_finalizer_unreachable ::
    "runtime \<Rightarrow> u64 \<Rightarrow> u64 \<Rightarrow> u64 \<Rightarrow> allocator \<Rightarrow> ((u64 \<times> u64) option \<times> allocator) res" where
  "GC_register_finalizer_unreachable rt obj fn cd = GC_register_finalizer_inner rt obj fn cd unreachable_mark_proc"

section \<open>Running finalizers\<close>

type_synonym finalizers = "u64 \<Rightarrow> u64 \<Rightarrow> u64 \<Rightarrow> allocator \<Rightarrow> allocator res"

definition GC_should_invoke_finalizers :: "allocator \<Rightarrow> bool" where
  "GC_should_invoke_finalizers a \<longleftrightarrow> finalize_now a \<noteq> 0"

primrec invoke_loop :: "nat \<Rightarrow> finalizers \<Rightarrow> i32 \<Rightarrow> u64 \<Rightarrow> allocator \<Rightarrow> (i32 \<times> u64 \<times> allocator) res" where
  "invoke_loop 0 run count bytes_freed_before a = Inl Diverge"
| "invoke_loop (Suc n) run count bytes_freed_before a =
     (if \<not> GC_should_invoke_finalizers a then Inr (count, bytes_freed_before, a)
      else
        let before = (if count = 0 then GC_bytes_freed (the_gc a) else bytes_freed_before); curr_fo = finalize_now a;
            a1 = store (next_field curr_fo) 0 (a\<lparr>finalize_now := load (next_field curr_fo) a\<rparr>)
        in andThen (run (load (fo_fn curr_fo) a1) (load (hidden_key curr_fo) a1) (load (fo_client_data curr_fo) a1) a1) (\<lambda>a2.
             invoke_loop n run (count + 1) before (store (fo_client_data curr_fo) 0 a2)))"

definition GC_invoke_finalizers :: "nat \<Rightarrow> finalizers \<Rightarrow> allocator \<Rightarrow> (i32 \<times> allocator) res" where
  "GC_invoke_finalizers rounds run a =
     andThen (invoke_loop rounds run 0 0 a) (\<lambda>(count, before, a1).
       Inr (count,
         if count \<noteq> 0
         then on_gc (\<lambda>g. g\<lparr>GC_finalizer_bytes_freed := GC_finalizer_bytes_freed g + (GC_bytes_freed g - before)\<rparr>) a1 else a1))"

definition GC_check_finalizer_nested :: "allocator \<Rightarrow> (bool \<times> allocator) res" where
  "GC_check_finalizer_nested a =
     (let nesting_level = GC_finalizer_nested a; enter = (\<lambda>a. Inr (True, a\<lparr>GC_finalizer_nested := nesting_level + 1\<rparr>))
      in if nesting_level = 0 then enter a
         else
           let skipped = GC_finalizer_skipped a + 1
           in if 32 \<le> nesting_level then Inl (Fault Bad_Shift)
              else if skipped < push_bit (unat nesting_level) 1 then Inr (False, a\<lparr>GC_finalizer_skipped := skipped\<rparr>)
              else enter (a\<lparr>GC_finalizer_skipped := 0\<rparr>))"

definition GC_notify_or_invoke_finalizers :: "nat \<Rightarrow> finalizers \<Rightarrow> (allocator \<Rightarrow> allocator res) \<Rightarrow> allocator \<Rightarrow> allocator res" where
  "GC_notify_or_invoke_finalizers rounds run notifier a =
     (if finalize_now a = 0 then Inr a
      else if \<not> GC_finalize_on_demand a
      then
        andThen (GC_check_finalizer_nested a) (\<lambda>(enter, a1).
          if enter then andThen (GC_invoke_finalizers rounds run a1) (\<lambda>(_, a2). Inr (a2\<lparr>GC_finalizer_nested := 0\<rparr>))
          else Inr a1)
      else if last_finalizer_notification a \<noteq> GC_gc_no (the_gc a)
      then notifier (a\<lparr>last_finalizer_notification := GC_gc_no (the_gc a)\<rparr>)
      else Inr a)"

primrec enqueue_all_chain :: "nat \<Rightarrow> runtime \<Rightarrow> u64 \<Rightarrow> allocator \<Rightarrow> allocator res" where
  "enqueue_all_chain 0 rt curr_fo a = Inl Diverge"
| "enqueue_all_chain (Suc n) rt curr_fo a =
     (if curr_fo = 0 then Inr a
      else
        let real_ptr = real_object curr_fo a
        in andThen (GC_MARK_FO rt real_ptr normal_mark_proc a) (\<lambda>a1.
           andThen (run_gc (GC_set_mark_bit real_ptr) a1) (\<lambda>a2.
             let next_fo = load (next_field curr_fo) a2 in enqueue_all_chain n rt next_fo (enqueue curr_fo a2))))"

definition GC_enqueue_all_finalizers :: "runtime \<Rightarrow> allocator \<Rightarrow> allocator res" where
  "GC_enqueue_all_finalizers rt a =
     andThen
       (for_each_chain Fo_Table
          (\<lambda>i a. let b = bucket Fo_Table i a in enqueue_all_chain (rt_rounds rt) rt (load b a) (store b 0 a))
          (on_gc (\<lambda>g. g\<lparr>GC_bytes_finalized := 0\<rparr>) a))
       (\<lambda>a1. Inr (on_table Fo_Table (\<lambda>h. h\<lparr>ht_entries := 0\<rparr>) a1))"

primrec GC_finalize_all :: "nat \<Rightarrow> runtime \<Rightarrow> finalizers \<Rightarrow> allocator \<Rightarrow> allocator res" where
  "GC_finalize_all 0 rt run a = Inl Diverge"
| "GC_finalize_all (Suc n) rt run a =
     (if ht_entries (fo_hashtbl a) = 0 then Inr a
      else
        andThen (GC_enqueue_all_finalizers rt a) (\<lambda>a1.
        andThen (GC_invoke_finalizers (rt_rounds rt) run a1) (\<lambda>(_, a2). GC_finalize_all n rt run a2)))"

end
