(* ===== verification/Atomix_GC_Cycle_Laws.thy ===== *)
theory Atomix_GC_Cycle_Laws
  imports Atomix_GC_Cycle Atomix_GC_Tricolor Atomix_GC_Root_Laws
begin

text \<open>
  The mark phase: with the roots pushed, the calls of \<open>GC_mark_some\<close> that \<open>GC_stopped_mark\<close> makes bring
  the mark stack to its end, and then everything the roots lead to is marked; when the stack
  overflows instead, the loop goes on in the state that starts the marking again.
\<close>

section \<open>Rounds of marking\<close>

lemma the_marker_on_marker [simp]: "cl_marker (al_collector (on_marker f a)) = f (cl_marker (al_collector a))"
  by (simp add: on_marker_def Let_def)

lemma on_marker_on_marker [simp]: "on_marker f (on_marker g a) = on_marker (f \<circ> g) a"
  by (simp add: on_marker_def Let_def)

lemma on_marker_same [simp]: "on_marker (\<lambda>_. cl_marker (al_collector a)) a = a"
  by (simp add: on_marker_def Let_def)

text \<open>One round, with entries on the stack and without.\<close>

lemma mark_some_marks:
  assumes "GC_mark_state m = MS_ROOTS_PUSHED" "GC_mark_stack m \<noteq> []" "cl_marker (al_collector a) = m"
    and "GC_mark_from (rt_rounds rt) (rt_procs rt) m = Inr m'"
  shows "mark_some rt sp a = Inr (False, on_marker (\<lambda>_. m') a)"
  using assms by (simp add: mark_some_def GC_mark_some_def not_done_def MARK_FROM_MARK_STACK_def lift_marker_def on_marker_def Let_def)

lemma mark_some_finishes:
  assumes "GC_mark_state m = MS_ROOTS_PUSHED" "GC_mark_stack m = []" "cl_marker (al_collector a) = m"
    and "grow_mark_stack (m\<lparr>GC_mark_state := MS_NONE\<rparr>) = Inr m'"
  shows "mark_some rt sp a = Inr (True, on_marker (\<lambda>_. m') a)"
  using assms by (simp add: mark_some_def GC_mark_some_def lift_marker_def on_marker_def Let_def)

lemma grow_mark_stack_spec:
  assumes "GC_mark_stack m = []" "GC_mark_stack_size m \<noteq> 0"
  shows "\<exists>m'. grow_mark_stack m = Inr m' \<and> GC_mark_state m' = GC_mark_state m \<and> GC_mark_stack m' = [] \<and> marked m' = marked m"
proof -
  obtain s g where s: "scratch (mk_gc m) = (s, g)" by (cases "scratch (mk_gc m)")
  then have "gc_hdrs g = gc_hdrs (mk_gc m)" by (auto simp: scratch_def split: list.splits)
  then have "marked (m\<lparr>mk_gc := g, GC_mark_stack_too_small := x, GC_mark_stack := y\<rparr>) = marked m"
    "marked (m\<lparr>mk_gc := g, GC_mark_stack_too_small := x, GC_mark_stack := y, GC_mark_stack_size := z\<rparr>) = marked m" for x y z
    by (simp_all add: marked_def header_at_def in_use_def fun_eq_iff)
  then show ?thesis using s assms by (simp add: grow_mark_stack_def alloc_mark_stack_def Let_def)
qed

text \<open>The two ways a mark phase with the roots pushed goes.\<close>

lemma mark_rounds_traces:
  assumes "tracing A m0 m" "cl_marker (al_collector a) = m" "GC_mark_state m = MS_ROOTS_PUSHED"
    and rt: "514 \<le> rt_rounds rt" and size: "GC_mark_stack_size m0 \<noteq> 0"
  shows "\<exists>k m'. tracing A m0 m' \<and>
    (GC_mark_state m' = MS_INVALID \<and>
       (\<forall>n. mark_rounds (n + k) rt GC_never_stop_func i a = mark_rounds n rt GC_never_stop_func (i + word_of_nat k) (on_marker (\<lambda>_. m') a)) \<or>
     GC_mark_state m' = MS_ROOTS_PUSHED \<and> GC_mark_stack m' = [] \<and>
       (\<exists>m''. grow_mark_stack (m'\<lparr>GC_mark_state := MS_NONE\<rparr>) = Inr m'' \<and>
          (\<forall>n \<ge> k. mark_rounds n rt GC_never_stop_func i a = Inr (None, on_marker (\<lambda>_. m'') a))))"
  using assms(1-3)
proof (induction m arbitrary: a i rule: wf_induct_rule [OF wf_less_work])
  case (1 m)
  let ?f = GC_never_stop_func
  show ?case
  proof (cases "GC_mark_stack m = []")
    case True
    have "GC_mark_stack_size m \<noteq> 0" using 1(2) size by (simp add: tracing_def same_def)
    then obtain m'' where m'': "grow_mark_stack (m\<lparr>GC_mark_state := MS_NONE\<rparr>) = Inr m''"
      using grow_mark_stack_spec [of "m\<lparr>GC_mark_state := MS_NONE\<rparr>"] True by auto
    have "mark_rounds n rt ?f i a = Inr (None, on_marker (\<lambda>_. m'') a)" if "1 \<le> n" for n
      using mark_some_finishes [OF 1(4) True 1(3) m''] that by (cases n) (simp_all add: ask_def)
    then show ?thesis using 1 True m'' by blast
  next
    case False
    obtain m1 where m1: "GC_mark_from (rt_rounds rt) (rt_procs rt) m = Inr m1" "tracing A m0 m1" "less_work m1 m"
      using mark_from_traces [OF 1(2) rt False] by blast
    let ?a = "on_marker (\<lambda>_. m1) a"
    have step: "mark_rounds (Suc n) rt ?f i a = mark_rounds n rt ?f (i + 1) ?a" for n
      using mark_some_marks [OF 1(4) False 1(3) m1(1)] by (simp add: ask_def)
    show ?thesis
    proof (cases "GC_mark_state m1 = MS_INVALID")
      case True
      then show ?thesis using step m1(2) by (intro exI [of _ "Suc 0"] exI [of _ m1]) simp
    next
      case False
      have "GC_mark_state m0 = MS_ROOTS_PUSHED" using 1(2,4) by (auto simp: tracing_def)
      then have st: "GC_mark_state m1 = MS_ROOTS_PUSHED" using m1(2) False by (auto simp: tracing_def)
      have less: "(m1, m) \<in> {(m', m). less_work m' m}" using m1(3) by simp
      have "cl_marker (al_collector ?a) = m1" by simp
      from 1(1) [OF less m1(2) this st, of "i + 1"]
      obtain k m' where IH: "tracing A m0 m'"
        "GC_mark_state m' = MS_INVALID \<and>
           (\<forall>n. mark_rounds (n + k) rt ?f (i + 1) ?a = mark_rounds n rt ?f (i + 1 + word_of_nat k) (on_marker (\<lambda>_. m') ?a)) \<or>
         GC_mark_state m' = MS_ROOTS_PUSHED \<and> GC_mark_stack m' = [] \<and>
           (\<exists>m''. grow_mark_stack (m'\<lparr>GC_mark_state := MS_NONE\<rparr>) = Inr m'' \<and>
              (\<forall>n \<ge> k. mark_rounds n rt ?f (i + 1) ?a = Inr (None, on_marker (\<lambda>_. m'') ?a)))"
        by blast
      have o: "on_marker (\<lambda>_. m) ?a = on_marker (\<lambda>_. m) a" for m by (simp add: comp_def)
      from IH(2) show ?thesis
      proof (elim disjE conjE exE)
        assume "GC_mark_state m' = MS_INVALID"
          "\<forall>n. mark_rounds (n + k) rt ?f (i + 1) ?a = mark_rounds n rt ?f (i + 1 + word_of_nat k) (on_marker (\<lambda>_. m') ?a)"
        then show ?thesis using step IH(1) unfolding o by (intro exI [of _ "Suc k"] exI [of _ m']) (simp add: ac_simps)
      next
        fix m''
        assume m': "GC_mark_state m' = MS_ROOTS_PUSHED" "GC_mark_stack m' = []" "grow_mark_stack (m'\<lparr>GC_mark_state := MS_NONE\<rparr>) = Inr m''"
          and run: "\<forall>n \<ge> k. mark_rounds n rt ?f (i + 1) ?a = Inr (None, on_marker (\<lambda>_. m'') ?a)"
        have "mark_rounds n rt ?f i a = Inr (None, on_marker (\<lambda>_. m'') a)" if "Suc k \<le> n" for n
          using run step [of "n - 1"] that unfolding o by (cases n) simp_all
        then show ?thesis using m' IH(1) by blast
      qed
    qed
  qed
qed

section \<open>The mark phase\<close>

text \<open>C20: From the state in which the roots are on the mark stack, the rounds of \<open>GC_mark_some\<close> that
  \<open>GC_stopped_mark\<close> makes end after finitely many, in one of two ways. Either the phase is over: the
  state is \<open>MS_NONE\<close>, the stack is empty, and of the objects exactly those marked before and those that
  the pushed ranges lead to, through any number of pointers, are marked. Or the mark stack has
  overflowed: the state is \<open>MS_INVALID\<close>, from which the same loop goes on, no mark is lost, and still
  nothing is marked that is not reachable.\<close>

theorem mark_phase_marks_reachable:
  assumes "sane m" "\<forall>x \<in> set (GC_mark_stack m). entry_ok x" "514 \<le> rt_rounds rt" "GC_mark_stack_size m \<noteq> 0"
    and "cl_marker (al_collector a) = m" "GC_mark_state m = MS_ROOTS_PUSHED"
    and "\<forall>w ob. find_object m w = Some ob \<and> marked m ob \<longrightarrow> (\<forall>a \<in> obj_words m ob. Atomix_GC_Tricolor.covered m a)"
  shows "\<exists>k m'.
    (\<forall>ob. marked m ob \<longrightarrow> marked m' ob) \<and> (\<forall>ob. marked m' ob \<longrightarrow> marked m ob \<or> reach m (pending m) ob) \<and>
    ((\<forall>n \<ge> k. mark_rounds n rt GC_never_stop_func i a = Inr (None, on_marker (\<lambda>_. m') a)) \<and>
       GC_mark_state m' = MS_NONE \<and> GC_mark_stack m' = [] \<and> (\<forall>ob. reach m (pending m) ob \<longrightarrow> marked m' ob) \<or>
     (\<forall>n. mark_rounds (n + k) rt GC_never_stop_func i a = mark_rounds n rt GC_never_stop_func (i + word_of_nat k) (on_marker (\<lambda>_. m') a)) \<and>
       GC_mark_state m' = MS_INVALID)"
proof -
  have start: "tracing (pending m) m m" using assms(1,2) by (intro tracing_start) blast+
  from mark_rounds_traces [OF start assms(5,6,3,4), of i]
  obtain k m' where t: "tracing (pending m) m m'" and m':
    "GC_mark_state m' = MS_INVALID \<and>
       (\<forall>n. mark_rounds (n + k) rt GC_never_stop_func i a = mark_rounds n rt GC_never_stop_func (i + word_of_nat k) (on_marker (\<lambda>_. m') a)) \<or>
     GC_mark_state m' = MS_ROOTS_PUSHED \<and> GC_mark_stack m' = [] \<and>
       (\<exists>m''. grow_mark_stack (m'\<lparr>GC_mark_state := MS_NONE\<rparr>) = Inr m'' \<and>
          (\<forall>n \<ge> k. mark_rounds n rt GC_never_stop_func i a = Inr (None, on_marker (\<lambda>_. m'') a)))" by blast
  have marks: "(\<forall>ob. marked m ob \<longrightarrow> marked m' ob) \<and> (\<forall>ob. marked m' ob \<longrightarrow> marked m ob \<or> reach m (pending m) ob)"
    using t unfolding tracing_def by blast
  from m' show ?thesis
  proof (elim disjE conjE exE)
    fix m''
    assume ok: "GC_mark_state m' = MS_ROOTS_PUSHED" "GC_mark_stack m' = []"
      and grow: "grow_mark_stack (m'\<lparr>GC_mark_state := MS_NONE\<rparr>) = Inr m''"
      and run: "\<forall>n \<ge> k. mark_rounds n rt GC_never_stop_func i a = Inr (None, on_marker (\<lambda>_. m'') a)"
    have old: "a \<in> pending m \<or> seen m a" if "marked m ob" "a \<in> obj_words m ob" "\<exists>w. find_object m w = Some ob" for ob a
      using assms(7) that unfolding Atomix_GC_Tricolor.covered_def by blast
    have "GC_mark_state m' \<noteq> MS_INVALID" using ok(1) by simp
    then have "marked m' ob" if "reach m (pending m) ob" for ob using old that by (rule tracing_complete [OF t ok(2)])
    then have all: "\<forall>ob. reach m (pending m) ob \<longrightarrow> marked m' ob" by blast
    have "GC_mark_stack_size (m'\<lparr>GC_mark_state := MS_NONE\<rparr>) \<noteq> 0" using t assms(4) by (simp add: tracing_def same_def)
    moreover have "marked (m'\<lparr>GC_mark_state := MS_NONE\<rparr>) = marked m'" by (simp add: marked_def fun_eq_iff)
    ultimately have "GC_mark_state m'' = MS_NONE" "GC_mark_stack m'' = []" "marked m'' = marked m'"
      using grow_mark_stack_spec [of "m'\<lparr>GC_mark_state := MS_NONE\<rparr>"] ok(2) grow by auto
    then show ?thesis using run all marks by (intro exI [of _ k] exI [of _ m'']) simp
  qed (use marks in blast)
qed

text \<open>The variables around the heap of two objects.\<close>

definition no_table :: hashtbl where
  "no_table = \<lparr>ht_head = 0, ht_entries = 0, ht_log_size = 0\<rparr>"

definition two_objects_allocator :: allocator where
  "two_objects_allocator =
     \<lparr>al_collector = no_roots\<lparr>cl_marker := two_objects\<rparr>, GC_default_stop_func = GC_never_stop_func, stop_answers = [],
      clock_answers = [], timeout_count = 0, dirty_answers = [], grungy_pages = (\<lambda>_. False), get_mem_answers = [],
      GC_time_limit = 50, GC_is_full_gc = False, GC_need_full_gc = False, n_partial_gcs = 0, GC_full_freq = 19,
      GC_n_attempts = 0, max_prior_attempts = 1, GC_deficit = 0, GC_rate = 10, GC_used_heap_size_after_full = 0,
      GC_bytes_allocd_before_gc = 0, GC_reclaimed_bytes_before_gc = 0, GC_capacity_heap_sects = 0, GC_max_heapsize = 0,
      GC_last_heap_addr = 0, GC_heapsize_at_forced_unmap = 0, GC_max_retries = 0, GC_dont_expand = False,
      last_fo_entries = 0, last_bytes_finalized = 0, GC_allocd_bytes_per_finalizer = 10000,
      GC_size_map = replicate 2049 0, GC_dl_hashtbl = no_table, GC_ll_hashtbl = no_table, fo_hashtbl = no_table, finalize_now = 0,
      need_unreachable_finalization = False, GC_java_finalization = False, GC_finalize_on_demand = False,
      GC_finalizer_nested = 0, GC_finalizer_skipped = 0, last_finalizer_notification = 0, GC_toggleref_arr = 0,
      GC_toggleref_array_size = 0, GC_toggleref_array_capacity = 0, GC_toggleref_callback_set = False, toggleref_answers = []\<rparr>"

definition quiet_runtime :: runtime where
  "quiet_runtime =
     \<lparr>rt_env = \<lparr>register_dynamic_libraries = Inr, freelist_address = (\<lambda>_. 0), finalizer_structures = [], push_typed_structures = Inr,
        push_other_roots = Inr, stack_pointer = 0x7000, GC_stackbottom = 0x8000, GC_traced_stack_sect = [], vdb_for_static_roots = False\<rparr>,
       rt_procs = (\<lambda>_ _ _. Inr), rt_approx_sp = 0,
      GC_page_size = 4096, GC_check_heap = Inr, GC_object_finalized_proc = (\<lambda>_. Inr), rt_rounds = 514\<rparr>"

lemma mark_phase_marks_reachable_witness:
  "\<exists>k m'.
     (\<forall>n. mark_rounds (n + k) quiet_runtime GC_never_stop_func 0 two_objects_allocator =
        mark_rounds n quiet_runtime GC_never_stop_func (word_of_nat k) (on_marker (\<lambda>_. m') two_objects_allocator)) \<and>
     GC_mark_state m' = MS_INVALID \<or>
     (\<forall>n \<ge> k. mark_rounds n quiet_runtime GC_never_stop_func 0 two_objects_allocator = Inr (None, on_marker (\<lambda>_. m') two_objects_allocator)) \<and>
     marked m' (4096, 0) \<and> marked m' (4096, 1)"
proof -
  have m: "cl_marker (al_collector two_objects_allocator) = two_objects" by (simp add: two_objects_allocator_def)
  have "\<forall>x \<in> set (GC_mark_stack two_objects). entry_ok x" "GC_mark_stack_size two_objects \<noteq> 0" "GC_mark_state two_objects = MS_ROOTS_PUSHED"
    by (simp_all add: two_objects_def entry_ok_def)
  moreover have "514 \<le> rt_rounds quiet_runtime" by (simp add: quiet_runtime_def)
  ultimately obtain k m' where
    "(\<forall>n. mark_rounds (n + k) quiet_runtime GC_never_stop_func 0 two_objects_allocator =
        mark_rounds n quiet_runtime GC_never_stop_func (0 + word_of_nat k) (on_marker (\<lambda>_. m') two_objects_allocator)) \<and>
     GC_mark_state m' = MS_INVALID \<or>
     (\<forall>n \<ge> k. mark_rounds n quiet_runtime GC_never_stop_func 0 two_objects_allocator = Inr (None, on_marker (\<lambda>_. m') two_objects_allocator)) \<and>
     (\<forall>ob. reach two_objects (pending two_objects) ob \<longrightarrow> marked m' ob)"
    using mark_phase_marks_reachable [OF two_objects_sane _ _ _ m] two_objects_unmarked by blast
  then show ?thesis using two_objects_reach unfolding add_0_left by blast
qed

end
