(* ===== verification/Atomix_GC_Malloc_Laws.thy ===== *)
theory Atomix_GC_Malloc_Laws
  imports Atomix_GC_Malloc Atomix_GC_Cycle_Laws Atomix_GC_Sweep_Laws
begin

unbundle bit_operations_syntax

text \<open>
  What allocation promises: the table of size classes gives every request a class whose objects are
  large enough, however it was extended; and an object that is freed is the next one of its class
  to be allocated, cleared.
\<close>

section \<open>The table of size classes\<close>

definition size_map_ok :: "u64 \<Rightarrow> u64 list \<Rightarrow> bool" where
  "size_map_ok extra t \<longleftrightarrow>
     length t = 2049 \<and> (\<forall>j < 2049. t ! j \<noteq> 0 \<longrightarrow> j + unat extra \<le> 16 * unat (t ! j) \<and> unat (t ! j) \<le> 128) \<and>
     (\<forall>j \<le> 384 - unat extra. t ! j \<noteq> 0)"

lemma unat_and_not_1: "unat (x AND NOT 1 :: u64) = 2 * (unat x div 2)"
proof -
  have "x AND NOT (mask 1) = push_bit 1 (drop_bit 1 x)"
    by (intro bit_eqI) (auto simp: bit_simps simp del: mask_1 push_bit_Suc drop_bit_Suc)
  moreover have "unat (push_bit 1 (drop_bit 1 x)) = 2 * (unat x div 2)"
  proof -
    have "unat x div 2 < 2 ^ 63" using unsigned_less [of x, where 'a = nat] by simp
    then show ?thesis by (simp add: push_bit_eq_mult unat_word_ariths unat_drop_bit_eq drop_bit_eq_div)
  qed
  ultimately show ?thesis by (simp only: mask_1)
qed

lemma unat_drop_bit_div: "unat (drop_bit n x :: u64) = unat x div 2 ^ n"
  unfolding unat_drop_bit_eq by (rule drop_bit_eq_div)

lemma unat_add_small: "unat x + unat y < 2 ^ 64 \<Longrightarrow> unat (x + y :: u64) = unat x + unat y"
  by (simp add: unat_word_ariths)

lemma unat_Suc_small: "unat x < 5000 \<Longrightarrow> unat (x + 1 :: u64) = Suc (unat x)"
  by (simp add: unat_word_ariths)

lemma unat_rounded:
  assumes "unat lb \<le> 4096" "unat extra \<le> 1"
  shows "unat (ROUNDED_UP_GRANULES extra lb) = (unat lb + 15 + unat extra) div 16"
proof -
  have e: "extra = 0 \<or> extra = 1" using assms(2) by (auto simp: word_unat_eq_iff)
  have "lb < - 1 - (15 + extra)"
    using e by (rule disjE) (use assms(1) in \<open>simp_all add: word_less_nat_alt\<close>)
  then have "SIZET_SAT_ADD lb (15 + extra) = lb + (15 + extra)" by (simp add: SIZET_SAT_ADD_def)
  moreover have "unat (lb + (15 + extra)) = unat lb + 15 + unat extra"
    using e by (rule disjE) (use assms(1) in \<open>simp_all add: unat_word_ariths\<close>)
  ultimately show ?thesis by (simp add: ROUNDED_UP_GRANULES_def BYTES_TO_GRANULES_def unat_drop_bit_div)
qed

lemma unat_granules_to_bytes: "unat g \<le> 200 \<Longrightarrow> unat (GRANULES_TO_BYTES g) = 16 * unat g"
  by (simp add: GRANULES_TO_BYTES_def push_bit_eq_mult unat_word_ariths)

lemma class_size_spec:
  assumes "0 < unat g" "unat g \<le> 200"
  shows "min (unat g) 128 \<le> unat (class_size g)" "unat (class_size g) \<le> 128"
proof -
  let ?g = "(g + 1) AND NOT 1" and ?n = "2 * ((unat g + 1) div 2)"
  let ?h = "if 128 < ?g then 128 else ?g" and ?m = "min ?n 128"
  have "unat (g + 1) = unat g + 1" using assms(2) by (simp add: unat_Suc_small)
  then have g: "unat ?g = ?n" by (simp only: unat_and_not_1)
  then have h: "unat ?h = ?m" by (auto simp: word_less_nat_alt min_def)
  have m: "0 < ?m" "?m \<le> 128" "even ?m" using assms(1) by (auto simp: min_def)
  let ?k = "256 div ?m"
  have k: "2 \<le> ?k" "?m * ?k \<le> 256" using m by (simp_all add: div_le_mono [of 256 256] less_eq_div_iff_mult_less_eq)
  have c: "unat (class_size g) = 2 * ((256 div ?k) div 2)"
    unfolding class_size_def Let_def by (simp only: unat_and_not_1 unat_div h) simp
  have "256 div ?k \<le> 128" using k(1) div_le_mono2 [of 2 ?k 256] by simp
  then show "unat (class_size g) \<le> 128" unfolding c by simp
  have "?m \<le> 256 div ?k"
    by (subst less_eq_div_iff_mult_less_eq) (use k in linarith, use k(2) in \<open>simp only: ac_simps\<close>)
  then have "?m div 2 \<le> 256 div ?k div 2" by (rule div_le_mono)
  then have "?m \<le> unat (class_size g)" unfolding c using m(3) by (metis dvd_mult_div_cancel mult_le_mono2)
  then show "min (unat g) 128 \<le> unat (class_size g)" by (rule order_trans [rotated]) auto
qed

lemma first_unfilled_spec:
  assumes "unat i \<le> m" "m < length t" "m < 5000" "t ! m = 0" "m - unat i < n"
  shows "\<exists>r. first_unfilled n i t = Inr r \<and> unat i \<le> unat r \<and> unat r \<le> m \<and> t ! unat r = 0"
  using assms
proof (induction n arbitrary: i)
  case (Suc n)
  have at: "read_at t i = Inr (t ! unat i)" using Suc.prems(1,2) by (simp add: read_at_def)
  show ?case
  proof (cases "t ! unat i = 0")
    case True
    then show ?thesis using at Suc.prems(1) by simp
  next
    case False
    then have lt: "unat i < m" using Suc.prems(1,4) by (cases "unat i = m") auto
    have u: "unat (i + 1) = Suc (unat i)" using lt Suc.prems(3) by (simp add: unat_Suc_small)
    have "\<exists>r. first_unfilled n (i + 1) t = Inr r \<and> unat (i + 1) \<le> unat r \<and> unat r \<le> m \<and> t ! unat r = 0"
      using Suc.prems lt u by (intro Suc.IH) auto
    then show ?thesis using at False u by auto
  qed
qed simp

lemma fill_with_spec:
  assumes "unat lim < length t" "unat lim < 4000" "unat i < 5000" "Suc (unat lim) - unat i < n"
  shows "\<exists>t'. fill_with n g lim i t = Inr t' \<and> length t' = length t \<and>
    (\<forall>j < length t. t' ! j = (if unat i \<le> j \<and> j \<le> unat lim then g else t ! j))"
  using assms
proof (induction n arbitrary: i t)
  case (Suc n)
  show ?case
  proof (cases "i \<le> lim")
    case False
    then have "\<not> (unat i \<le> j \<and> j \<le> unat lim)" for j by (auto simp: word_le_nat_alt)
    then show ?thesis using False by (intro exI [of _ t]) auto
  next
    case True
    then have le: "unat i \<le> unat lim" by (simp add: word_le_nat_alt)
    have u: "unat (i + 1) = Suc (unat i)" using Suc.prems(3) by (simp add: unat_Suc_small)
    have "\<exists>t'. fill_with n g lim (i + 1) (t[unat i := g]) = Inr t' \<and> length t' = length (t[unat i := g]) \<and>
      (\<forall>j < length (t[unat i := g]). t' ! j = (if unat (i + 1) \<le> j \<and> j \<le> unat lim then g else t[unat i := g] ! j))"
      using Suc.prems le u by (intro Suc.IH) simp_all
    then obtain t' where t': "fill_with n g lim (i + 1) (t[unat i := g]) = Inr t'" "length t' = length t"
      "\<forall>j < length t. t' ! j = (if Suc (unat i) \<le> j \<and> j \<le> unat lim then g else t[unat i := g] ! j)"
      unfolding u by auto
    have "t' ! j = (if unat i \<le> j \<and> j \<le> unat lim then g else t ! j)" if "j < length t" for j
      using t'(3) [rule_format, OF that] that le by (cases "j = unat i") auto
    then show ?thesis using t'(1,2) True le Suc.prems(1) by (intro exI [of _ t']) (simp add: write_at_def)
  qed
qed simp

lemma start_of_class_spec:
  assumes ok: "size_map_ok extra t" and e: "unat extra \<le> 1" and i: "unat i \<le> 2048 - unat extra" "t ! unat i = 0"
  shows "\<exists>low g. start_of_class extra i t = Inr (low, g) \<and> unat low \<le> unat i \<and> (unat i + 15 + unat extra) div 16 \<le> unat g \<and> unat g \<le> 144"
proof -
  let ?o = "(unat i + 15 + unat extra) div 16" and ?B = "GRANULES_TO_BYTES (ROUNDED_UP_GRANULES extra i)"
  have "\<not> unat i \<le> 384 - unat extra" using ok i(2) by (auto simp: size_map_ok_def)
  then have large: "384 < unat i + unat extra" by simp
  have o: "?o \<le> 128" "25 \<le> ?o" using i(1) e large by simp_all
  have r: "unat (ROUNDED_UP_GRANULES extra i) = ?o" using i(1) e by (simp add: unat_rounded)
  then have B: "unat ?B = 16 * ?o" using o by (simp add: unat_granules_to_bytes)
  have Bi: "unat ?B \<le> unat i + 15 + unat extra" unfolding B by simp
  let ?s = "?B - drop_bit 3 ?B" and ?q = "?B - drop_bit 2 ?B"
  have us: "unat ?s = unat ?B - unat ?B div 8" by (simp add: unat_sub word_le_nat_alt unat_drop_bit_div)
  have uq: "unat ?q = unat ?B - unat ?B div 4" by (simp add: unat_sub word_le_nat_alt unat_drop_bit_div)
  have len: "length t = 2049" using ok by (simp add: size_map_ok_def)
  have at: "read_at t ?s = Inr (t ! unat ?s)" using us B o(1) len by (simp add: read_at_def)
  have bounds: "unat i < length t" "unat i < 5000" using i(1) len by simp_all
  have within: "unat i - x < 2050" for x using i(1) by simp
  show ?thesis
  proof (cases "t ! unat ?s = 0")
    case True
    have "unat ?q \<le> unat i" using uq B o(2) Bi e by simp
    then obtain low where "first_unfilled 2050 ?q t = Inr low" "unat low \<le> unat i"
      using first_unfilled_spec [OF _ bounds i(2)] within by blast
    then show ?thesis using True at r o by (simp add: start_of_class_def Let_def)
  next
    case False
    have us1: "unat (?s + 1) = unat ?s + 1" using us B o(1) by (simp add: unat_Suc_small)
    have "unat (?s + 1) \<le> unat i" using us us1 B o(2) Bi e by simp
    then obtain low where low: "first_unfilled 2050 (?s + 1) t = Inr low" "unat low \<le> unat i"
      using first_unfilled_spec [OF _ bounds i(2)] within by blast
    let ?r = "ROUNDED_UP_GRANULES extra low"
    have "unat ?r = (unat low + 15 + unat extra) div 16" using low(2) i(1) e by (simp add: unat_rounded)
    also have "\<dots> \<le> ?o" using low(2) by (intro div_le_mono) simp
    finally have rl: "unat ?r \<le> 128" using o(1) by simp
    then have "unat (?r + drop_bit 3 ?r) \<le> 144" by (simp add: unat_word_ariths unat_drop_bit_div)
    then show ?thesis using False at r o low
      by (auto simp: start_of_class_def Let_def word_less_nat_alt not_less)
  qed
qed

lemma extend_size_map_spec:
  assumes ok: "size_map_ok extra t" and e: "unat extra \<le> 1" and i: "unat i \<le> 2048 - unat extra" "t ! unat i = 0"
  shows "\<exists>t'. GC_extend_size_map extra i t = Inr t' \<and> size_map_ok extra t' \<and> t' ! unat i \<noteq> 0 \<and>
    (\<forall>j < 2049. t ! j \<noteq> 0 \<longrightarrow> t' ! j \<noteq> 0)"
proof -
  let ?o = "(unat i + 15 + unat extra) div 16"
  have len: "length t = 2049" using ok by (simp add: size_map_ok_def)
  have "\<not> unat i \<le> 384 - unat extra" using ok i(2) by (auto simp: size_map_ok_def)
  then have o: "?o \<le> 128" "25 \<le> ?o" "unat i + unat extra \<le> 16 * ?o" using i(1) e by simp_all
  obtain low g where low: "start_of_class extra i t = Inr (low, g)" "unat low \<le> unat i" "?o \<le> unat g" "unat g \<le> 144"
    using start_of_class_spec [OF assms] by blast
  let ?c = "class_size g" and ?lim = "GRANULES_TO_BYTES (class_size g) - extra"
  have c: "?o \<le> unat ?c" "unat ?c \<le> 128" using class_size_spec [of g] low(3,4) o(1,2) by simp_all
  have g2b: "unat (GRANULES_TO_BYTES ?c) = 16 * unat ?c" using c(2) by (simp add: unat_granules_to_bytes)
  then have lim: "unat ?lim = 16 * unat ?c - unat extra"
    using c(1) o(2) e by (simp add: unat_sub word_le_nat_alt)
  obtain t' where t': "fill_with 2050 ?c ?lim low t = Inr t'" "length t' = 2049"
    "\<forall>j < 2049. t' ! j = (if unat low \<le> j \<and> j \<le> unat ?lim then ?c else t ! j)"
  proof -
    have "unat ?lim < length t" "unat ?lim < 4000" "unat low < 5000" "Suc (unat ?lim) - unat low < 2050"
      using lim c(2) low(2) i(1) len by simp_all
    from fill_with_spec [OF this, of ?c] show ?thesis using that unfolding len by blast
  qed
  have c0: "?c \<noteq> 0" using c(1) o(2) by auto
  have run: "GC_extend_size_map extra i t = Inr t'" using low(1) t'(1) by (simp add: GC_extend_size_map_def Let_def)
  have "unat i \<le> unat ?lim" using lim c(1) o(3) by linarith
  then have set: "t' ! unat i \<noteq> 0" using t'(3) [rule_format, of "unat i"] i(1) low(2) c0 by simp
  have keep: "\<forall>j < 2049. t ! j \<noteq> 0 \<longrightarrow> t' ! j \<noteq> 0" using t'(3) c0 by simp
  have "j + unat extra \<le> 16 * unat (t' ! j) \<and> unat (t' ! j) \<le> 128" if "j < 2049" "t' ! j \<noteq> 0" for j
    using t'(3) [rule_format, OF that(1)] that ok lim c(1,2) o(2) e by (auto simp: size_map_ok_def split: if_splits)
  moreover have "\<forall>j \<le> 384 - unat extra. t' ! j \<noteq> 0" using keep ok by (simp add: size_map_ok_def)
  ultimately have "size_map_ok extra t'" using t'(2) by (simp add: size_map_ok_def)
  then show ?thesis using run set keep by blast
qed

lemma fill_rounded_spec:
  assumes "unat lim < length t" "unat lim < 4000" "unat i < 5000" "Suc (unat lim) - unat i < n"
  shows "\<exists>t'. fill_rounded n extra lim i t = Inr t' \<and> length t' = length t \<and>
    (\<forall>j < length t. t' ! j = (if unat i \<le> j \<and> j \<le> unat lim then ROUNDED_UP_GRANULES extra (word_of_nat j) else t ! j))"
  using assms
proof (induction n arbitrary: i t)
  case (Suc n)
  show ?case
  proof (cases "i \<le> lim")
    case False
    then have "\<not> (unat i \<le> j \<and> j \<le> unat lim)" for j by (auto simp: word_le_nat_alt)
    then show ?thesis using False by (intro exI [of _ t]) auto
  next
    case True
    then have le: "unat i \<le> unat lim" by (simp add: word_le_nat_alt)
    have u: "unat (i + 1) = Suc (unat i)" using Suc.prems(3) by (simp add: unat_Suc_small)
    let ?t = "t[unat i := ROUNDED_UP_GRANULES extra i]"
    have "\<exists>t'. fill_rounded n extra lim (i + 1) ?t = Inr t' \<and> length t' = length ?t \<and>
      (\<forall>j < length ?t. t' ! j = (if unat (i + 1) \<le> j \<and> j \<le> unat lim then ROUNDED_UP_GRANULES extra (word_of_nat j) else ?t ! j))"
      using Suc.prems le u by (intro Suc.IH) simp_all
    then obtain t' where t': "fill_rounded n extra lim (i + 1) ?t = Inr t'" "length t' = length t"
      "\<forall>j < length t. t' ! j = (if Suc (unat i) \<le> j \<and> j \<le> unat lim then ROUNDED_UP_GRANULES extra (word_of_nat j) else ?t ! j)"
      unfolding u by auto
    have "t' ! j = (if unat i \<le> j \<and> j \<le> unat lim then ROUNDED_UP_GRANULES extra (word_of_nat j) else t ! j)" if "j < length t" for j
      using t'(3) [rule_format, OF that] that le by (cases "j = unat i") auto
    then show ?thesis using t'(1,2) True le Suc.prems(1) by (intro exI [of _ t']) (simp add: write_at_def)
  qed
qed simp

lemma init_size_map_spec:
  assumes e: "unat extra \<le> 1"
  shows "\<exists>t. GC_init_size_map extra (replicate 2049 0) = Inr t \<and> size_map_ok extra t"
proof -
  let ?z = "(replicate 2049 0)[0 := 1 :: u64]" and ?lim = "GRANULES_TO_BYTES (TINY_FREELISTS - 1) - extra"
  have "GRANULES_TO_BYTES (TINY_FREELISTS - 1) = 384" by (simp add: GRANULES_TO_BYTES_def TINY_FREELISTS_def push_bit_eq_mult)
  then have lim: "unat ?lim = 384 - unat extra" using e by (simp add: unat_sub word_le_nat_alt)
  obtain t where t: "fill_rounded 385 extra ?lim 1 ?z = Inr t" "length t = 2049"
    "\<forall>j < 2049. t ! j = (if 1 \<le> j \<and> j \<le> unat ?lim then ROUNDED_UP_GRANULES extra (word_of_nat j) else ?z ! j)"
  proof -
    have "unat ?lim < length ?z" "unat ?lim < 4000" "unat (1 :: u64) < 5000" "Suc (unat ?lim) - unat (1 :: u64) < 385"
      using lim by simp_all
    from fill_rounded_spec [OF this, of extra] show ?thesis using that by auto
  qed
  have r: "unat (ROUNDED_UP_GRANULES extra (word_of_nat j)) = (j + 15 + unat extra) div 16" if "j \<le> 384" for j
    using that e by (simp add: unat_rounded unat_of_nat)
  have cell: "t ! j = (if j = 0 then 1 else if j \<le> 384 - unat extra then ROUNDED_UP_GRANULES extra (word_of_nat j) else 0)" if "j < 2049" for j
    using t(3) [rule_format, OF that] that unfolding lim by (cases j) (auto simp: nth_list_update)
  have "j + unat extra \<le> 16 * unat (t ! j) \<and> unat (t ! j) \<le> 128" if "j < 2049" "t ! j \<noteq> 0" for j
    using cell [OF that(1)] that(2) r [of j] e by (auto split: if_splits)
  moreover have "t ! j \<noteq> 0" if "j \<le> 384 - unat extra" for j
  proof -
    have "unat (ROUNDED_UP_GRANULES extra (word_of_nat j)) \<noteq> 0" if "j \<noteq> 0" using r [of j] \<open>j \<le> 384 - unat extra\<close> that by simp
    then show ?thesis using cell [of j] that by auto
  qed
  ultimately have "size_map_ok extra t" using t(2) by (simp add: size_map_ok_def)
  moreover have "GC_init_size_map extra (replicate 2049 0) = Inr t" using t(1) by (simp add: GC_init_size_map_def write_at_def)
  ultimately show ?thesis by blast
qed

section \<open>Freed and allocated again\<close>

lemma read_at_less: "unat i < length xs \<Longrightarrow> read_at xs i = Inr (xs ! unat i)"
  by (simp add: read_at_def)

lemma write_at_less: "unat i < length xs \<Longrightarrow> write_at xs i x = Inr (xs[unat i := x])"
  by (simp add: write_at_def)

lemma free_small_spec:
  assumes p: "p \<noteq> 0" "hdr_of (HBLKPTR p) g = Inr h"
    and lg: "BYTES_TO_GRANULES (hb_sz h) = lg" "lg \<le> 128"
    and k: "hb_obj_kind h = k" "unat (ucast k :: u64) < length (GC_obj_kinds g)"
    and ok: "GC_obj_kinds g ! unat (ucast k :: u64) = kd" "length (ok_freelist kd) = 129"
  shows "GC_free p g =
    Inr (g\<lparr>GC_bytes_freed := GC_bytes_freed g + hb_sz h,
           GC_non_gc_bytes := if IS_UNCOLLECTABLE k then GC_non_gc_bytes g - hb_sz h else GC_non_gc_bytes g,
           gc_mem := (if ok_init kd \<and> 8 < hb_sz h then BZERO (p + 8) (unat (hb_sz h - 8) div 8) (gc_mem g) else gc_mem g)
             (p := ok_freelist kd ! unat lg),
           GC_obj_kinds := (GC_obj_kinds g)[unat (ucast k :: u64) := kd\<lparr>ok_freelist := (ok_freelist kd)[unat lg := p]\<rparr>]\<rparr>)"
proof -
  have l: "unat lg < length (ok_freelist kd)" using lg(2) ok(2) by (simp add: word_le_nat_alt)
  show ?thesis
    using p lg(2) k(2) ok(1) l
    by (simp add: GC_free_def Let_def lg(1) k(1) kind_freelist_def set_kind_freelist_def read_at_less write_at_less set_obj_link_def)
qed

lemma malloc_takes_first:
  assumes "SMALL_OBJ (EXTRA_BYTES (the_gc a)) lb" "unat lb < length (GC_size_map a)" "GC_size_map a ! unat lb = lg" "lg \<le> 128"
    and k: "unat (ucast k :: u64) < length (GC_obj_kinds (the_gc a))"
    and ok: "GC_obj_kinds (the_gc a) ! unat (ucast k :: u64) = kd" "length (ok_freelist kd) = 129"
    and p: "ok_freelist kd ! unat lg = p" "p \<noteq> 0"
  shows "GC_malloc_kind_global rt lb k a =
    Inr (p, on_gc (\<lambda>g. g\<lparr>
      gc_mem := if k \<noteq> PTRFREE then (gc_mem g)(p := 0) else gc_mem g,
      GC_obj_kinds := (GC_obj_kinds g)[unat (ucast k :: u64) := kd\<lparr>ok_freelist := (ok_freelist kd)[unat lg := gc_mem g p]\<rparr>],
      GC_bytes_allocd := GC_bytes_allocd g + GRANULES_TO_BYTES lg\<rparr>) a)"
proof -
  have l: "unat lg < length (ok_freelist kd)" using assms(4) ok(2) by (simp add: word_le_nat_alt)
  have "take_object (k \<noteq> PTRFREE) p k lg (the_gc a) =
    Inr ((the_gc a)\<lparr>
      gc_mem := if k \<noteq> PTRFREE then (gc_mem (the_gc a))(p := 0) else gc_mem (the_gc a),
      GC_obj_kinds := (GC_obj_kinds (the_gc a))[unat (ucast k :: u64) := kd\<lparr>ok_freelist := (ok_freelist kd)[unat lg := gc_mem (the_gc a) p]\<rparr>],
      GC_bytes_allocd := GC_bytes_allocd (the_gc a) + GRANULES_TO_BYTES lg\<rparr>)"
    using k ok(1) l by (simp add: take_object_def set_kind_freelist_def read_at_less write_at_less set_obj_link_def obj_link_def Let_def)
  moreover have "kind_freelist k lg (the_gc a) = Inr p" using k ok(1) l p(1) by (simp add: kind_freelist_def read_at_less)
  ultimately show ?thesis
    using assms(1-3) p(2)
    by (simp add: GC_malloc_kind_global_def read_at_less run_gc_def lift_collector_def lift_marker_def lift_gc_def on_gc_def on_marker_def Let_def)
qed

lemma BZERO_at: "BZERO p n m a = (if \<exists>i < n. a = p + 8 * word_of_nat i then 0 else m a)"
proof (induction n)
  case (Suc n)
  have "BZERO p (Suc n) m a = ((BZERO p n m)(p + 8 * word_of_nat n := 0)) a" by (simp add: BZERO_def)
  then show ?case using Suc by (auto simp: less_Suc_eq)
qed (simp add: BZERO_def)

text \<open>A cell of a freed object of \<open>n\<close> words is its first word or one of the others.\<close>

lemma object_words:
  "(\<exists>i < Suc n. a = p + 8 * word_of_nat i) \<longleftrightarrow> a = p \<or> (\<exists>i < n. a = p + 8 + 8 * word_of_nat i)" for a p :: u64
proof
  assume "\<exists>i < Suc n. a = p + 8 * word_of_nat i"
  then obtain i where i: "i < Suc n" "a = p + 8 * word_of_nat i" by blast
  show "a = p \<or> (\<exists>i < n. a = p + 8 + 8 * word_of_nat i)"
  proof (cases i)
    case (Suc j)
    then have "j < n" "a = p + 8 + 8 * word_of_nat j" using i by (simp_all add: distrib_left)
    then show ?thesis by blast
  qed (use i in simp)
next
  assume "a = p \<or> (\<exists>i < n. a = p + 8 + 8 * word_of_nat i)"
  then show "\<exists>i < Suc n. a = p + 8 * word_of_nat i"
  proof
    assume "\<exists>i < n. a = p + 8 + 8 * word_of_nat i"
    then obtain i where "i < n" "a = p + 8 + 8 * word_of_nat i" by blast
    then have "Suc i < Suc n" "a = p + 8 * word_of_nat (Suc i)" by (simp_all add: distrib_left)
    then show ?thesis by blast
  qed (auto intro: exI [of _ 0])
qed

lemma the_gc_on_gc [simp]: "the_gc (on_gc f a) = f (the_gc a)"
  by (simp add: on_gc_def on_marker_def Let_def)

lemma GC_size_map_on_gc [simp]: "GC_size_map (on_gc f a) = GC_size_map a"
  by (simp add: on_gc_def on_marker_def Let_def)

lemma free_then_malloc:
  assumes p: "p \<noteq> 0" "hdr_of (HBLKPTR p) (the_gc a) = Inr h" "hb_sz h = GRANULES_TO_BYTES lg"
    and lg: "0 < lg" "lg \<le> 128"
    and k: "hb_obj_kind h = k" "k \<noteq> PTRFREE" "unat (ucast k :: u64) < length (GC_obj_kinds (the_gc a))"
    and ok: "GC_obj_kinds (the_gc a) ! unat (ucast k :: u64) = kd" "length (ok_freelist kd) = 129" "ok_init kd"
    and lb: "SMALL_OBJ (EXTRA_BYTES (the_gc a)) lb" "unat lb < length (GC_size_map a)" "GC_size_map a ! unat lb = lg"
  shows "\<exists>g1 a2. GC_free p (the_gc a) = Inr g1 \<and> GC_malloc_kind_global rt lb k (on_gc (\<lambda>_. g1) a) = Inr (p, a2) \<and>
    GC_obj_kinds (the_gc a2) = GC_obj_kinds (the_gc a) \<and>
    (\<forall>q. gc_mem (the_gc a2) q = (if \<exists>i < 2 * unat lg. q = p + 8 * word_of_nat i then 0 else gc_mem (the_gc a) q))"
proof -
  let ?g = "the_gc a" and ?k = "unat (ucast k :: u64)" and ?n = "unat (hb_sz h - 8) div 8"
  have ulg: "0 < unat lg" "unat lg \<le> 128" using lg by (simp_all add: word_less_nat_alt word_le_nat_alt unat_gt_0)
  have sz: "unat (hb_sz h) = 16 * unat lg" unfolding p(3) using ulg by (simp add: unat_granules_to_bytes)
  have "unat (hb_sz h - 8) = 16 * unat lg - 8" using sz ulg by (simp add: unat_sub word_le_nat_alt)
  then have n: "Suc ?n = 2 * unat lg" using ulg by simp
  have big: "8 < hb_sz h" using sz ulg by (simp add: word_less_nat_alt)
  have gran: "BYTES_TO_GRANULES (hb_sz h) = lg"
    using sz by (simp add: word_unat_eq_iff BYTES_TO_GRANULES_def unat_drop_bit_div)
  let ?m = "(BZERO (p + 8) ?n (gc_mem ?g))(p := ok_freelist kd ! unat lg)"
  let ?ks = "(GC_obj_kinds ?g)[?k := kd\<lparr>ok_freelist := (ok_freelist kd)[unat lg := p]\<rparr>]"
  let ?g1 = "?g\<lparr>GC_bytes_freed := GC_bytes_freed ?g + hb_sz h,
           GC_non_gc_bytes := if IS_UNCOLLECTABLE k then GC_non_gc_bytes ?g - hb_sz h else GC_non_gc_bytes ?g,
           gc_mem := ?m, GC_obj_kinds := ?ks\<rparr>"
  have free: "GC_free p ?g = Inr ?g1" using free_small_spec [OF p(1,2) gran lg(2) k(1,3) ok(1,2)] ok(3) big by simp
  let ?a1 = "on_gc (\<lambda>_. ?g1) a" and ?kd = "kd\<lparr>ok_freelist := (ok_freelist kd)[unat lg := p]\<rparr>"
  have l: "unat lg < length (ok_freelist kd)" using ulg ok(2) by simp
  obtain a2 where a2: "GC_malloc_kind_global rt lb k ?a1 = Inr (p, a2)"
    "the_gc a2 = ?g1\<lparr>gc_mem := ?m(p := 0),
       GC_obj_kinds := ?ks[?k := ?kd\<lparr>ok_freelist := (ok_freelist ?kd)[unat lg := ?m p]\<rparr>],
       GC_bytes_allocd := GC_bytes_allocd ?g1 + GRANULES_TO_BYTES lg\<rparr>"
    using malloc_takes_first [of ?a1 lb lg k ?kd p rt] lb lg(2) k(2,3) ok(1,2) l p(1) by (simp add: EXTRA_BYTES_def)
  have "ok_freelist kd ! unat lg = ?m p" by simp
  then have "?kd\<lparr>ok_freelist := (ok_freelist ?kd)[unat lg := ?m p]\<rparr> = kd" using l by simp
  then have "GC_obj_kinds (the_gc a2) = GC_obj_kinds ?g" using a2(2) k(3) ok(1) by simp (metis list_update_id)
  moreover have "gc_mem (the_gc a2) q = (if \<exists>i < 2 * unat lg. q = p + 8 * word_of_nat i then 0 else gc_mem ?g q)" for q
    unfolding n [symmetric] object_words a2(2) by (auto simp: BZERO_at)
  ultimately show ?thesis using free a2(1) by blast
qed


section \<open>Properties\<close>

text \<open>C21: Whatever sizes are asked for, the table of size classes stays right. At the start every size of up
  to 24 granules has a class, and when a size without a class is asked for, the extension gives it one;
  in every reachable table a class is at most half a block and its objects are large enough for each
  size of the class, with the extra byte if there is one, and no size loses its class.\<close>

theorem size_classes_are_large_enough:
  assumes "unat extra \<le> 1"
  shows "(\<exists>t. GC_init_size_map extra (replicate 2049 0) = Inr t \<and> size_map_ok extra t) \<and>
    (\<forall>t i. size_map_ok extra t \<and> unat i \<le> 2048 - unat extra \<and> t ! unat i = 0 \<longrightarrow>
       (\<exists>t'. GC_extend_size_map extra i t = Inr t' \<and> size_map_ok extra t' \<and> t' ! unat i \<noteq> 0 \<and>
          (\<forall>j < 2049. t ! j \<noteq> 0 \<longrightarrow> t' ! j \<noteq> 0)))"
  using init_size_map_spec [OF assms] extend_size_map_spec [OF _ assms] by blast

lemma size_classes_are_large_enough_witness:
  "\<exists>t t'. GC_init_size_map 1 (replicate 2049 0) = Inr t \<and> size_map_ok 1 t \<and>
     (t ! 1000 = 0 \<longrightarrow> GC_extend_size_map 1 1000 t = Inr t' \<and> size_map_ok 1 t' \<and> t' ! 1000 \<noteq> 0)"
proof -
  have one: "unat (1 :: u64) \<le> 1" by simp
  note c = size_classes_are_large_enough [OF one]
  obtain t where t: "GC_init_size_map 1 (replicate 2049 0) = Inr t" "size_map_ok 1 t" using c by blast
  have i: "unat (1000 :: u64) \<le> 2048 - unat (1 :: u64)" by simp
  have "\<exists>t'. GC_extend_size_map 1 1000 t = Inr t' \<and> size_map_ok 1 t' \<and> t' ! unat (1000 :: u64) \<noteq> 0"
    if "t ! unat (1000 :: u64) = 0" using c t(2) i that by blast
  then show ?thesis using t by auto
qed

text \<open>C22: Freeing a small object of the kind that may hold pointers puts it at the front of its free list,
  and the next allocation of its size class returns it: every word of the object is zero then, the
  free lists are what they were before, and no other word of the heap has changed.\<close>

theorem freed_object_is_allocated_next:
  assumes "p \<noteq> 0" "hdr_of (HBLKPTR p) (the_gc a) = Inr h" "hb_sz h = GRANULES_TO_BYTES lg" "0 < lg" "lg \<le> 128"
    and "hb_obj_kind h = 1" "1 < length (GC_obj_kinds (the_gc a))" "GC_obj_kinds (the_gc a) ! 1 = kd"
    and "length (ok_freelist kd) = 129" "ok_init kd"
    and "SMALL_OBJ (EXTRA_BYTES (the_gc a)) lb" "unat lb < length (GC_size_map a)" "GC_size_map a ! unat lb = lg"
  shows "\<exists>g1 a2. GC_free p (the_gc a) = Inr g1 \<and> GC_malloc rt lb (on_gc (\<lambda>_. g1) a) = Inr (p, a2) \<and>
    GC_obj_kinds (the_gc a2) = GC_obj_kinds (the_gc a) \<and>
    (\<forall>q. gc_mem (the_gc a2) q = (if \<exists>i < 2 * unat lg. q = p + 8 * word_of_nat i then 0 else gc_mem (the_gc a) q))"
  using free_then_malloc [of p a h lg 1 kd lb rt] assms by (simp add: GC_malloc_def PTRFREE_def)

text \<open>The heap of two objects, of the kind that may hold pointers.\<close>

definition normal_kind :: obj_kind where
  "normal_kind = \<lparr>ok_freelist = replicate 129 0, ok_reclaim_list = [], ok_descriptor = 0, ok_relocate_descr = True, ok_init = True\<rparr>"

definition two_normal_objects :: allocator where
  "two_normal_objects =
     (on_gc (\<lambda>g. g\<lparr>gc_hdrs := [header_at g 4096\<lparr>hb_obj_kind := 1\<rparr>], GC_obj_kinds := [normal_kind, normal_kind]\<rparr>) two_objects_allocator)
     \<lparr>GC_size_map := (replicate 2049 0)[10 := 1]\<rparr>"

lemma freed_object_is_allocated_next_witness:
  "\<exists>g1 a2. GC_free 0x10010 (the_gc two_normal_objects) = Inr g1 \<and>
     GC_malloc quiet_runtime 10 (on_gc (\<lambda>_. g1) two_normal_objects) = Inr (0x10010, a2) \<and>
     gc_mem (the_gc a2) 0x10010 = 0 \<and> gc_mem (the_gc a2) 0x10018 = 0 \<and> gc_mem (the_gc a2) 0x10000 = 0x10010"
proof -
  let ?h = "block_header\<lparr>hb_obj_kind := 1\<rparr>"
  let ?g = "(mk_gc two_objects)\<lparr>gc_hdrs := [?h], GC_obj_kinds := [normal_kind, normal_kind]\<rparr>"
  have g: "the_gc two_normal_objects = ?g" "GC_size_map two_normal_objects = (replicate 2049 0)[10 := 1]"
    by (simp_all add: two_normal_objects_def two_objects_allocator_def on_gc_def on_marker_def Let_def)
  have "HDR 0x10000 (mk_gc two_objects) = Inr 4096" using two_objects_entry [of "0x10000"] HDR_total [OF two_objects_index, of "0x10000"] by (auto simp: entry_of_def)
  then have "HDR 0x10000 ?g = Inr 4096" by (simp add: HDR_def GET_BI_def)
  then have "hdr_of (HBLKPTR 0x10010) (the_gc two_normal_objects) = Inr ?h"
    by (simp add: hdr_of_def HBLKPTR_def g get_hdr_def hdr_index_def deref_def)
  moreover have "hb_sz ?h = GRANULES_TO_BYTES 1" by (simp add: two_objects_header GRANULES_TO_BYTES_def)
  moreover have "SMALL_OBJ (EXTRA_BYTES (the_gc two_normal_objects)) 10" by (simp add: SMALL_OBJ_def)
  ultimately have "\<exists>g1 a2. GC_free 0x10010 (the_gc two_normal_objects) = Inr g1 \<and>
     GC_malloc quiet_runtime 10 (on_gc (\<lambda>_. g1) two_normal_objects) = Inr (0x10010, a2) \<and>
     GC_obj_kinds (the_gc a2) = GC_obj_kinds (the_gc two_normal_objects) \<and>
     (\<forall>q. gc_mem (the_gc a2) q =
        (if \<exists>i < 2 * unat (1 :: u64). q = 0x10010 + 8 * word_of_nat i then 0 else gc_mem (the_gc two_normal_objects) q))"
    by (intro freed_object_is_allocated_next [of _ _ ?h _ normal_kind]) (simp_all add: g normal_kind_def)
  then obtain g1 a2 where r: "GC_free 0x10010 (the_gc two_normal_objects) = Inr g1"
    "GC_malloc quiet_runtime 10 (on_gc (\<lambda>_. g1) two_normal_objects) = Inr (0x10010, a2)"
    "\<And>q. gc_mem (the_gc a2) q =
        (if \<exists>i < 2. q = 0x10010 + 8 * word_of_nat i then 0 else gc_mem (the_gc two_normal_objects) q)" by auto
  have "gc_mem (the_gc a2) 0x10010 = 0" "gc_mem (the_gc a2) 0x10018 = 0" "gc_mem (the_gc a2) 0x10000 = 0x10010"
    unfolding r(3) less_2_cases_iff by (simp_all add: g two_objects_def conj_disj_distribR ex_disj_distrib)
  then show ?thesis using r(1,2) by blast
qed

end
