(* ===== verification/Atomix_GC_Table_Laws.thy ===== *)
theory Atomix_GC_Table_Laws
  imports Atomix_GC_Finalizers Atomix_GC_Malloc_Laws
begin

unbundle bit_operations_syntax

text \<open>
  The hash tables of \<open>finalize.c\<close> as sets: a well-formed table in the memory of the heap stands for the
  set of its links with their objects. Taking an entry out and putting one in front of its chain are
  the two changes; registering, removing and moving a link are made of them.
\<close>

section \<open>Chains in memory\<close>

text \<open>The pointers from \<open>p\<close> through the entries \<open>xs\<close> to \<open>q\<close>.\<close>

primrec path :: "(u64 \<Rightarrow> u64) \<Rightarrow> u64 \<Rightarrow> u64 list \<Rightarrow> u64 \<Rightarrow> bool" where
  "path m p [] q \<longleftrightarrow> p = q"
| "path m p (x # xs) q \<longleftrightarrow> p = x \<and> x \<noteq> 0 \<and> path m (m (x + 8)) xs q"

lemma path_append: "path m p (xs @ ys) q \<longleftrightarrow> (\<exists>r. path m p xs r \<and> path m r ys q)"
  by (induction xs arbitrary: p) auto

lemma path_cong: "(\<And>x. x \<in> set xs \<Longrightarrow> m' (x + 8) = m (x + 8)) \<Longrightarrow> path m' p xs q = path m p xs q"
  by (induction xs arbitrary: p) auto

lemma path_nonzero: "path m p xs q \<Longrightarrow> x \<in> set xs \<Longrightarrow> x \<noteq> 0"
  by (induction xs arbitrary: p) auto

text \<open>An entry taken out of a chain that starts at the cell \<open>b\<close>.\<close>

definition link_cell :: "u64 \<Rightarrow> u64 list \<Rightarrow> u64" where
  "link_cell b ys = (if ys = [] then b else last ys + 8)"

lemma path_unlink:
  assumes p: "path m (m b) (ys @ z # zs) 0" and d: "distinct (ys @ z # zs)" and b: "\<And>x. x \<in> set (ys @ z # zs) \<Longrightarrow> b \<noteq> x + 8"
  shows "path (m(link_cell b ys := m (z + 8))) ((m(link_cell b ys := m (z + 8))) b) (ys @ zs) 0"
proof (cases ys rule: rev_cases)
  case Nil
  then have "path m (m (z + 8)) zs 0" using p by simp
  moreover have "path (m(b := m (z + 8))) (m (z + 8)) zs 0 = path m (m (z + 8)) zs 0" using b by (intro path_cong) auto
  ultimately show ?thesis using Nil by (simp add: link_cell_def)
next
  case (snoc us y)
  let ?m = "m(y + 8 := m (z + 8))"
  have parts: "path m (m b) us y" "y \<noteq> 0" "path m (m (z + 8)) zs 0" using p snoc by (auto simp: path_append)
  have "path ?m (m b) us y = path m (m b) us y" "path ?m (m (z + 8)) zs 0 = path m (m (z + 8)) zs 0"
    using d snoc by (auto intro!: path_cong)
  then show ?thesis using parts b snoc by (auto simp: link_cell_def path_append)
qed

section \<open>Tables\<close>

definition entries_of :: "nat \<Rightarrow> (nat \<Rightarrow> u64 list) \<Rightarrow> u64 set" where
  "entries_of k ls = (\<Union>i < 2 ^ k. set (ls i))"

definition cells :: "u64 \<Rightarrow> u64 set" where
  "cells p = {p, p + 8, p + 16}"

definition bucket_cell :: "u64 \<Rightarrow> nat \<Rightarrow> u64" where
  "bucket_cell tab i = tab + 8 * word_of_nat i"

definition table_cells :: "u64 \<Rightarrow> nat \<Rightarrow> (nat \<Rightarrow> u64 list) \<Rightarrow> u64 set" where
  "table_cells tab k ls = bucket_cell tab ` {..< 2 ^ k} \<union> (\<Union>p \<in> entries_of k ls. cells p)"

definition table_ok :: "(u64 \<Rightarrow> u64) \<Rightarrow> u64 \<Rightarrow> nat \<Rightarrow> (nat \<Rightarrow> u64 list) \<Rightarrow> bool" where
  "table_ok m tab k ls \<longleftrightarrow>
     tab \<noteq> 0 \<and> k \<le> 60 \<and>
     (\<forall>i < 2 ^ k. path m (m (bucket_cell tab i)) (ls i) 0 \<and> distinct (map m (ls i)) \<and>
        (\<forall>p \<in> set (ls i). unat (HASH2 (NOT (m p)) k) = i)) \<and>
     (\<forall>p \<in> entries_of k ls. \<forall>q \<in> entries_of k ls. p \<noteq> q \<longrightarrow> cells p \<inter> cells q = {}) \<and>
     (\<forall>p \<in> entries_of k ls. \<forall>i < 2 ^ k. \<forall>c \<in> cells p. c \<noteq> bucket_cell tab i)"

definition registered :: "(u64 \<Rightarrow> u64) \<Rightarrow> nat \<Rightarrow> (nat \<Rightarrow> u64 list) \<Rightarrow> (u64 \<times> u64) set" where
  "registered m k ls = (\<lambda>p. (NOT (m p), NOT (m (p + 16)))) ` entries_of k ls"

lemma HASH2_bound: "k \<le> 60 \<Longrightarrow> unat (HASH2 w k) < 2 ^ k"
proof -
  assume k: "k \<le> 60"
  have "HASH2 w k = (drop_bit 3 w XOR drop_bit (3 + k) w) AND mask k"
    by (simp add: HASH2_def HASH3_def mask_eq_exp_minus_1 push_bit_of_1)
  then have "HASH2 w k = take_bit k (drop_bit 3 w XOR drop_bit (3 + k) w)" by (simp add: take_bit_eq_mask)
  then have "unat (HASH2 w k) = take_bit k (unat (drop_bit 3 w XOR drop_bit (3 + k) w))" by (simp only: unsigned_take_bit_eq)
  then show ?thesis by simp
qed

lemma bucket_cell_inj:
  assumes "k \<le> 60" "i < 2 ^ k" "j < 2 ^ k" "bucket_cell tab i = bucket_cell tab j"
  shows "i = j"
proof -
  have "(2 :: nat) ^ k \<le> 2 ^ 60" using assms(1) by (intro power_increasing) simp_all
  then have b: "8 * i < 2 ^ 64" "8 * j < 2 ^ 64" using assms(2,3) by simp_all
  have "word_of_nat (8 * i) = (word_of_nat (8 * j) :: u64)" using assms(4) by (simp add: bucket_cell_def)
  then have "unat (word_of_nat (8 * i) :: u64) = unat (word_of_nat (8 * j) :: u64)" by simp
  moreover have "unat (word_of_nat n :: u64) = n" if "n < 2 ^ 64" for n using that by (simp add: unat_of_nat)
  note this [OF b(1)] this [OF b(2)]
  ultimately show ?thesis by (simp del: of_nat_mult)
qed

lemma table_okI:
  assumes "tab \<noteq> 0" "k \<le> 60"
    and "\<And>i. i < 2 ^ k \<Longrightarrow> path m (m (bucket_cell tab i)) (ls i) 0"
    and "\<And>i. i < 2 ^ k \<Longrightarrow> distinct (map m (ls i))"
    and "\<And>i p. i < 2 ^ k \<Longrightarrow> p \<in> set (ls i) \<Longrightarrow> unat (HASH2 (NOT (m p)) k) = i"
    and "\<And>p q. p \<in> entries_of k ls \<Longrightarrow> q \<in> entries_of k ls \<Longrightarrow> p \<noteq> q \<Longrightarrow> cells p \<inter> cells q = {}"
    and "\<And>p i c. p \<in> entries_of k ls \<Longrightarrow> i < 2 ^ k \<Longrightarrow> c \<in> cells p \<Longrightarrow> c \<noteq> bucket_cell tab i"
  shows "table_ok m tab k ls"
  unfolding table_ok_def using assms by simp

lemma table_okD:
  assumes "table_ok m tab k ls"
  shows "tab \<noteq> 0" "k \<le> 60"
    and "\<And>i. i < 2 ^ k \<Longrightarrow> path m (m (bucket_cell tab i)) (ls i) 0"
    and "\<And>i. i < 2 ^ k \<Longrightarrow> distinct (map m (ls i))"
    and "\<And>i p. i < 2 ^ k \<Longrightarrow> p \<in> set (ls i) \<Longrightarrow> unat (HASH2 (NOT (m p)) k) = i"
    and "\<And>p q. p \<in> entries_of k ls \<Longrightarrow> q \<in> entries_of k ls \<Longrightarrow> p \<noteq> q \<Longrightarrow> cells p \<inter> cells q = {}"
    and "\<And>p i c. p \<in> entries_of k ls \<Longrightarrow> i < 2 ^ k \<Longrightarrow> c \<in> cells p \<Longrightarrow> c \<noteq> bucket_cell tab i"
proof -
  note t = assms [unfolded table_ok_def]
  show "tab \<noteq> 0" "k \<le> 60" using t by blast+
  show "path m (m (bucket_cell tab i)) (ls i) 0" "distinct (map m (ls i))" if "i < 2 ^ k" for i using t that by blast+
  show "unat (HASH2 (NOT (m p)) k) = i" if "i < 2 ^ k" "p \<in> set (ls i)" for i p using t that by blast
  show "cells p \<inter> cells q = {}" if "p \<in> entries_of k ls" "q \<in> entries_of k ls" "p \<noteq> q" for p q using t that by blast
  show "c \<noteq> bucket_cell tab i" if "p \<in> entries_of k ls" "i < 2 ^ k" "c \<in> cells p" for p i c using t that by blast
qed

lemma cells_self [simp]: "p \<in> cells p" "p + 8 \<in> cells p" "p + 16 \<in> cells p"
  by (simp_all add: cells_def)

lemma entries_ofI: "i < 2 ^ k \<Longrightarrow> p \<in> set (ls i) \<Longrightarrow> p \<in> entries_of k ls"
  by (auto simp: entries_of_def)

lemma distinct_map_cong: "(\<And>x. x \<in> set xs \<Longrightarrow> f x = g x) \<Longrightarrow> distinct (map f xs) = distinct (map g xs)"
  by (simp cong: map_cong)

text \<open>A table depends on its own cells only.\<close>

lemma table_cong:
  assumes "table_ok m tab k ls" "\<And>c. c \<in> table_cells tab k ls \<Longrightarrow> m' c = m c"
  shows "table_ok m' tab k ls" "registered m' k ls = registered m k ls"
proof -
  have c: "m' c = m c" if "p \<in> entries_of k ls" "c \<in> cells p" for p c using assms(2) that by (auto simp: table_cells_def)
  have e: "m' p = m p" "m' (p + 8) = m (p + 8)" "m' (p + 16) = m (p + 16)" if "p \<in> entries_of k ls" for p
    using c [OF that] cells_self by blast+
  have b: "m' (bucket_cell tab i) = m (bucket_cell tab i)" if "i < 2 ^ k" for i using assms(2) that by (auto simp: table_cells_def)
  have "path m' x (ls i) 0 = path m x (ls i) 0" if "i < 2 ^ k" for i x using e that by (intro path_cong) (auto intro: entries_ofI)
  moreover have "distinct (map m' (ls i)) = distinct (map m (ls i))" if "i < 2 ^ k" for i
    using e(1) [OF entries_ofI [where ls = ls, OF that]] by (rule distinct_map_cong)
  moreover have "HASH2 (NOT (m' p)) k = HASH2 (NOT (m p)) k" if "i < 2 ^ k" "p \<in> set (ls i)" for i p
    using e(1) [OF entries_ofI [where ls = ls, OF that]] by simp
  ultimately have chain: "path m' (m' (bucket_cell tab i)) (ls i) 0" "distinct (map m' (ls i))"
      "p \<in> set (ls i) \<Longrightarrow> unat (HASH2 (NOT (m' p)) k) = i" if "i < 2 ^ k" for i p
    using table_okD(3-5) [OF assms(1) that] b [OF that] that by simp_all
  show "table_ok m' tab k ls"
    using table_okD(1,2) [OF assms(1)] chain table_okD(6,7) [OF assms(1)] by (rule table_okI)
  show "registered m' k ls = registered m k ls" using e by (auto simp: registered_def)
qed

lemma entry_chain:
  assumes "table_ok m tab k ls" "p \<in> entries_of k ls"
  shows "p \<in> set (ls (unat (HASH2 (NOT (m p)) k)))" "unat (HASH2 (NOT (m p)) k) < 2 ^ k"
proof -
  obtain i where i: "i < 2 ^ k" "p \<in> set (ls i)" using assms(2) by (auto simp: entries_of_def)
  then show "p \<in> set (ls (unat (HASH2 (NOT (m p)) k)))" "unat (HASH2 (NOT (m p)) k) < 2 ^ k"
    using table_okD(5) [OF assms(1) i] by simp_all
qed

lemma key_unique:
  assumes t: "table_ok m tab k ls" and p: "p \<in> entries_of k ls" and q: "q \<in> entries_of k ls" and "m p = m q"
  shows "p = q"
proof -
  let ?i = "unat (HASH2 (NOT (m p)) k)"
  have i: "p \<in> set (ls ?i)" "q \<in> set (ls ?i)" "?i < 2 ^ k"
    using entry_chain [OF t p] entry_chain [OF t q] unfolding assms(4) by simp_all
  then have "inj_on m (set (ls ?i))" using table_okD(4) [OF t] by (simp add: distinct_map)
  then show ?thesis using assms(4) i(1,2) by (rule inj_onD)
qed

lemma registered_fun:
  assumes "table_ok m tab k ls" "(l, x) \<in> registered m k ls" "(l, y) \<in> registered m k ls"
  shows "x = y"
proof -
  obtain p q where "p \<in> entries_of k ls" "q \<in> entries_of k ls" "m p = m q" "x = NOT (m (p + 16))" "y = NOT (m (q + 16))"
    using assms(2,3) by (auto simp: registered_def)
  then show ?thesis using key_unique [OF assms(1)] by blast
qed

text \<open>The cells that pointers to entries are in are written without touching keys and objects.\<close>

lemma pointer_cell:
  assumes "table_ok m tab k ls" "w \<in> bucket_cell tab ` {..< 2 ^ k} \<or> (\<exists>y \<in> entries_of k ls. w = y + 8)" "p \<in> entries_of k ls"
  shows "p \<noteq> w" "p + 16 \<noteq> w"
proof -
  have "p \<noteq> y + 8 \<and> p + 16 \<noteq> y + 8" if "y \<in> entries_of k ls" for y
  proof (cases "p = y")
    case False
    then have "cells p \<inter> cells y = {}" using table_okD(6) [OF assms(1,3) that] by simp
    then show ?thesis using cells_self [of p] cells_self(2) [of y] by (metis disjoint_iff)
  qed simp
  moreover have "p \<noteq> bucket_cell tab i \<and> p + 16 \<noteq> bucket_cell tab i" if "i < 2 ^ k" for i
    using table_okD(7) [OF assms(1,3) that] by simp
  ultimately show "p \<noteq> w" "p + 16 \<noteq> w" using assms(2) by blast+
qed

section \<open>Taking an entry out\<close>

lemma entries_of_update:
  assumes "i < 2 ^ k"
  shows "entries_of k (ls(i := xs)) = set xs \<union> (\<Union>j \<in> {..< 2 ^ k} - {i}. set (ls j))"
  using assms by (auto simp: entries_of_def split: if_splits)

lemma remove_entry:
  assumes t: "table_ok m tab k ls" and i: "i < 2 ^ k" and ls: "ls i = ys @ z # zs"
  defines "w \<equiv> link_cell (bucket_cell tab i) ys" and "ls' \<equiv> ls(i := ys @ zs)"
  shows "table_ok (m(w := m (z + 8))) tab k ls'" "entries_of k ls' = entries_of k ls - {z}"
    "registered (m(w := m (z + 8))) k ls' = {(l, x) \<in> registered m k ls. l \<noteq> NOT (m z)}"
proof -
  let ?m = "m(w := m (z + 8))"
  have d: "distinct (ls i)" using table_okD(4) [OF t i] by (simp add: distinct_map)
  have z: "z \<in> entries_of k ls" using i ls by (auto intro: entries_ofI)
  have other: "set (ls i) \<inter> set (ls j) = {}" if "j < 2 ^ k" "j \<noteq> i" for j
    using table_okD(5) [OF t i] table_okD(5) [OF t that(1)] that(2) by fastforce
  show E: "entries_of k ls' = entries_of k ls - {z}"
  proof -
    have "entries_of k ls = set (ls i) \<union> (\<Union>j \<in> {..< 2 ^ k} - {i}. set (ls j))"
      using entries_of_update [OF i, of ls "ls i"] by simp
    moreover have "z \<notin> (\<Union>j \<in> {..< 2 ^ k} - {i}. set (ls j))" using other ls by auto
    ultimately show ?thesis using d unfolding ls'_def entries_of_update [OF i] ls by auto
  qed
  have w: "w = bucket_cell tab i \<or> (\<exists>y \<in> set (ls i). w = y + 8)" by (auto simp: w_def link_cell_def ls)
  then have wc: "w \<in> bucket_cell tab ` {..< 2 ^ k} \<or> (\<exists>y \<in> entries_of k ls. w = y + 8)" using i by (auto intro: entries_ofI)
  have keys: "?m p = m p" "?m (p + 16) = m (p + 16)" if "p \<in> entries_of k ls" for p
    using pointer_cell [OF t wc that] by simp_all
  have nb: "bucket_cell tab j \<noteq> p + 8" if "p \<in> entries_of k ls" "j < 2 ^ k" for j p
    using table_okD(7) [OF t that cells_self(2)] by simp
  have "path ?m (?m (bucket_cell tab j)) (ls' j) 0 \<and> distinct (map ?m (ls' j)) \<and> (\<forall>p \<in> set (ls' j). unat (HASH2 (NOT (?m p)) k) = j)"
    if j: "j < 2 ^ k" for j
  proof (cases "j = i")
    case True
    have "path m (m (bucket_cell tab i)) (ys @ z # zs) 0" using table_okD(3) [OF t i] ls by simp
    moreover have "distinct (ys @ z # zs)" using d ls by simp
    moreover have "bucket_cell tab i \<noteq> x + 8" if "x \<in> set (ys @ z # zs)" for x
      using nb [OF entries_ofI [where ls = ls, OF i] i] that ls by simp
    ultimately have "path ?m (?m (bucket_cell tab i)) (ys @ zs) 0" unfolding w_def by (rule path_unlink)
    moreover have ents: "p \<in> entries_of k ls" if "p \<in> set (ys @ zs)" for p using entries_ofI [of i k p ls] that i ls by auto
    moreover have "distinct (map ?m (ys @ zs))"
    proof -
      have "distinct (map m (ys @ zs))" using table_okD(4) [OF t i] ls by auto
      then show ?thesis using distinct_map_cong [of "ys @ zs" ?m m] keys(1) [OF ents] by blast
    qed
    moreover have "unat (HASH2 (NOT (?m p)) k) = i" if "p \<in> set (ys @ zs)" for p
      using table_okD(5) [OF t i, of p] ls keys(1) [OF ents [OF that]] that by auto
    ultimately show ?thesis unfolding True ls'_def fun_upd_same by blast
  next
    case False
    have ents: "p \<in> entries_of k ls" if "p \<in> set (ls j)" for p using that j by (rule entries_ofI [rotated])
    have wj: "w \<noteq> p + 8" if "p \<in> set (ls j)" for p
      using w
    proof
      assume "w = bucket_cell tab i"
      then show ?thesis using nb [OF ents [OF that] i] by simp
    next
      assume "\<exists>y \<in> set (ls i). w = y + 8"
      then show ?thesis using other [OF j False] that by auto
    qed
    have "w \<noteq> bucket_cell tab j"
      using w
    proof
      assume "w = bucket_cell tab i"
      then show ?thesis using bucket_cell_inj [OF table_okD(2) [OF t] i j] False by auto
    next
      assume "\<exists>y \<in> set (ls i). w = y + 8"
      then obtain y where y: "y \<in> set (ls i)" "w = y + 8" by blast
      then show ?thesis using nb [OF entries_ofI [where ls = ls, OF i y(1)] j] by (simp add: eq_commute)
    qed
    then have "path ?m (?m (bucket_cell tab j)) (ls j) 0 = path m (m (bucket_cell tab j)) (ls j) 0"
      using wj by (simp) (intro path_cong, auto)
    moreover have "distinct (map ?m (ls j)) = distinct (map m (ls j))" using keys(1) [OF ents] by (rule distinct_map_cong)
    moreover have "unat (HASH2 (NOT (?m p)) k) = j" if "p \<in> set (ls j)" for p
      using table_okD(5) [OF t j that] keys(1) [OF ents [OF that]] by simp
    ultimately show ?thesis using table_okD(3,4) [OF t j] False by (simp add: ls'_def)
  qed
  then show "table_ok ?m tab k ls'" using t unfolding table_ok_def E by blast
  have "registered ?m k ls' = (\<lambda>p. (NOT (m p), NOT (m (p + 16)))) ` (entries_of k ls - {z})"
    unfolding registered_def E using keys by (intro image_cong) auto
  also have "\<dots> = {(l, x) \<in> registered m k ls. l \<noteq> NOT (m z)}"
    using key_unique [OF t _ z] by (auto simp: registered_def)
  finally show "registered ?m k ls' = {(l, x) \<in> registered m k ls. l \<noteq> NOT (m z)}" .
qed


section \<open>A new first entry\<close>

text \<open>The cells of \<open>z\<close> are in no entry and no bucket, and its key is in no entry.\<close>

definition fresh_entry :: "(u64 \<Rightarrow> u64) \<Rightarrow> u64 \<Rightarrow> nat \<Rightarrow> (nat \<Rightarrow> u64 list) \<Rightarrow> u64 \<Rightarrow> bool" where
  "fresh_entry m tab k ls z \<longleftrightarrow> z \<noteq> 0 \<and> cells z \<inter> table_cells tab k ls = {} \<and> m z \<notin> m ` entries_of k ls"

lemma fresh_entryD:
  assumes "fresh_entry m tab k ls z"
  shows "z \<noteq> 0" "c \<in> cells z \<Longrightarrow> i < 2 ^ k \<Longrightarrow> c \<noteq> bucket_cell tab i" "p \<in> entries_of k ls \<Longrightarrow> cells p \<inter> cells z = {}"
    "p \<in> entries_of k ls \<Longrightarrow> m p \<noteq> m z"
proof -
  note f = assms [unfolded fresh_entry_def table_cells_def]
  show "z \<noteq> 0" using f by blast
  show "c \<noteq> bucket_cell tab i" if "c \<in> cells z" "i < 2 ^ k" using f that by blast
  show "cells p \<inter> cells z = {}" if "p \<in> entries_of k ls" using f that by blast
  show "m p \<noteq> m z" if "p \<in> entries_of k ls" using f that by (metis image_eqI)
qed

lemma add_entry:
  assumes t: "table_ok m tab k ls" and f: "fresh_entry m tab k ls z"
  defines "i \<equiv> unat (HASH2 (NOT (m z)) k)"
  defines "b \<equiv> bucket_cell tab i" and "ls' \<equiv> ls(i := z # ls i)"
  defines "m' \<equiv> m(z + 8 := m b, b := z)"
  shows "table_ok m' tab k ls'" "entries_of k ls' = insert z (entries_of k ls)"
    "registered m' k ls' = insert (NOT (m z), NOT (m (z + 16))) (registered m k ls)"
proof -
  have k: "k \<le> 60" using table_okD(2) [OF t] .
  have i: "i < 2 ^ k" unfolding i_def by (rule HASH2_bound [OF k])
  have E': "entries_of k ls = set (ls i) \<union> (\<Union>j \<in> {..< 2 ^ k} - {i}. set (ls j))"
    using entries_of_update [OF i, of ls "ls i"] by simp
  show E: "entries_of k ls' = insert z (entries_of k ls)" unfolding ls'_def entries_of_update [OF i] E' by auto
  note fz = fresh_entryD [OF f]
  have zb: "z \<noteq> b" "z + 8 \<noteq> b" "z + 16 \<noteq> b" using fz(2) [OF _ i] cells_self by (auto simp: b_def)
  have z: "m' z = m z" "m' (z + 16) = m (z + 16)" "m' (z + 8) = m b" "m' b = z" using zb by (simp_all add: m'_def)
  have keep: "m' c = m c" if "p \<in> entries_of k ls" "c \<in> cells p" for p c
  proof -
    have "c \<noteq> z + 8" using fz(3) [OF that(1)] that(2) cells_self(2) [of z] by (metis disjoint_iff)
    moreover have "c \<noteq> b" using table_okD(7) [OF t that(1) i that(2)] by (simp add: b_def)
    ultimately show ?thesis by (simp add: m'_def)
  qed
  have ent: "p \<in> entries_of k ls" if "j < 2 ^ k" "p \<in> set (ls j)" for j p by (rule entries_ofI [where ls = ls, OF that])
  have path: "path m' x (ls j) 0 = path m x (ls j) 0" if "j < 2 ^ k" for j x
    using keep [OF ent [OF that] cells_self(2)] by (rule path_cong)
  have dist: "distinct (map m' (ls j)) = distinct (map m (ls j))" if "j < 2 ^ k" for j
    using keep [OF ent [OF that] cells_self(1)] by (rule distinct_map_cong)
  have bucket: "m' (bucket_cell tab j) = m (bucket_cell tab j)" if "j < 2 ^ k" "j \<noteq> i" for j
  proof -
    have "bucket_cell tab j \<noteq> b" using bucket_cell_inj [OF k that(1) i] that(2) by (auto simp: b_def)
    moreover have "bucket_cell tab j \<noteq> z + 8" using fz(2) [OF cells_self(2) that(1)] by simp
    ultimately show ?thesis by (simp add: m'_def)
  qed
  show "table_ok m' tab k ls'"
  proof (rule table_okI)
    show "tab \<noteq> 0" "k \<le> 60" using table_okD(1,2) [OF t] .
    fix j :: nat assume j: "j < 2 ^ k"
    show "path m' (m' (bucket_cell tab j)) (ls' j) 0"
    proof (cases "j = i")
      case True
      have "m' (bucket_cell tab i) = z" using z(4) by (simp add: b_def)
      moreover have "path m' (m b) (ls i) 0" using path [OF i] table_okD(3) [OF t i] by (simp add: b_def)
      ultimately show ?thesis using True z(3) fz(1) by (simp add: ls'_def)
    next
      case False
      then show ?thesis using path [OF j] bucket [OF j] table_okD(3) [OF t j] by (simp add: ls'_def)
    qed
    show "distinct (map m' (ls' j))"
    proof (cases "j = i")
      case True
      have "m z \<notin> m' ` set (ls i)" using fz(4) [OF ent [OF i]] keep [OF ent [OF i] cells_self(1)] by force
      then show ?thesis using True dist [OF i] table_okD(4) [OF t i] z(1) by (simp add: ls'_def)
    next
      case False
      then show ?thesis using dist [OF j] table_okD(4) [OF t j] by (simp add: ls'_def)
    qed
    fix p assume p: "p \<in> set (ls' j)"
    show "unat (HASH2 (NOT (m' p)) k) = j"
    proof (cases "p \<in> set (ls j)")
      case True
      then show ?thesis using table_okD(5) [OF t j True] keep [OF ent [OF j True] cells_self(1)] by simp
    next
      case False
      then have "p = z" "j = i" using p by (auto simp: ls'_def split: if_splits)
      then show ?thesis using z(1) by (simp add: i_def)
    qed
  next
    fix p q assume "p \<in> entries_of k ls'" "q \<in> entries_of k ls'" "p \<noteq> q"
    then show "cells p \<inter> cells q = {}" using table_okD(6) [OF t] fz(3) unfolding E by (metis inf_commute insert_iff)
  next
    fix p c and j :: nat assume "p \<in> entries_of k ls'" "j < 2 ^ k" "c \<in> cells p"
    then show "c \<noteq> bucket_cell tab j" using table_okD(7) [OF t] fz(2) unfolding E by blast
  qed
  have "m' p = m p \<and> m' (p + 16) = m (p + 16)" if "p \<in> entries_of k ls" for p using keep [OF that] by simp
  then show "registered m' k ls' = insert (NOT (m z), NOT (m (z + 16))) (registered m k ls)"
    unfolding registered_def E using z(1,2) by (auto intro!: image_eqI)
qed

section \<open>Finding an entry\<close>

lemma find_entry_spec:
  assumes "path (gc_mem (the_gc a)) p xs 0" "length xs < n"
  shows "find_entry n key prev p a =
    Inr (last (prev # takeWhile (\<lambda>x. gc_mem (the_gc a) x \<noteq> key) xs),
         case dropWhile (\<lambda>x. gc_mem (the_gc a) x \<noteq> key) xs of [] \<Rightarrow> 0 | z # _ \<Rightarrow> z)"
  using assms
proof (induction xs arbitrary: p n prev)
  case Nil
  then show ?case by (cases n) simp_all
next
  case (Cons x xs)
  then obtain j where j: "n = Suc j" by (cases n) simp_all
  have rest: "path (gc_mem (the_gc a)) (gc_mem (the_gc a) (x + 8)) xs 0" "length xs < j" using Cons.prems j by simp_all
  show ?case using Cons.IH [OF rest, of x] Cons.prems(1) j by (simp add: load_def)
qed


section \<open>Tables of the collector\<close>

definition links_ok :: "which_table \<Rightarrow> allocator \<Rightarrow> (nat \<Rightarrow> u64 list) \<Rightarrow> bool" where
  "links_ok t a ls \<longleftrightarrow>
     (let h = the_table t a
      in table_ok (gc_mem (the_gc a)) (ht_head h) (ht_log_size h) ls \<and> ht_entries h = word_of_nat (card (entries_of (ht_log_size h) ls)))"

definition links :: "which_table \<Rightarrow> allocator \<Rightarrow> (nat \<Rightarrow> u64 list) \<Rightarrow> (u64 \<times> u64) set" where
  "links t a ls = registered (gc_mem (the_gc a)) (ht_log_size (the_table t a)) ls"

definition short_chains :: "nat \<Rightarrow> which_table \<Rightarrow> allocator \<Rightarrow> (nat \<Rightarrow> u64 list) \<Rightarrow> bool" where
  "short_chains n t a ls \<longleftrightarrow> (\<forall>i < 2 ^ ht_log_size (the_table t a). length (ls i) < n)"

text \<open>A table with another set of links, written without its entries.\<close>

definition without :: "u64 \<Rightarrow> (u64 \<times> u64) set \<Rightarrow> (u64 \<times> u64) set" where
  "without l L = {(l', x) \<in> L. l' \<noteq> l}"

lemma finite_entries_of [simp]: "finite (entries_of k ls)"
  by (simp add: entries_of_def)

lemma the_table_on_gc [simp]: "the_table t (on_gc f a) = the_table t a"
  by (simp add: the_table_def on_gc_def on_marker_def Let_def split: which_table.split)

lemma the_gc_store: "the_gc (store p x a) = (the_gc a)\<lparr>gc_mem := (gc_mem (the_gc a))(p := x)\<rparr>"
  by (simp add: store_def on_gc_def on_marker_def Let_def)

lemma mem_store [simp]: "gc_mem (the_gc (store p x a)) = (gc_mem (the_gc a))(p := x)"
  by (simp add: store_def on_gc_def on_marker_def Let_def)

lemma the_table_store [simp]: "the_table t (store p x a) = the_table t a"
  by (simp add: store_def)

lemma the_table_unlink [simp]: "the_table t (unlink t' i prev nxt a) = the_table t a"
  by (simp add: unlink_def)

lemma add_entries_simps [simp]:
  "gc_mem (the_gc (add_entries t n a)) = gc_mem (the_gc a)"
  "the_table t (add_entries t n a) = (the_table t a)\<lparr>ht_entries := ht_entries (the_table t a) + n\<rparr>"
  by (simp_all add: add_entries_def on_table_def the_table_def split: which_table.split)

lemma bucket_eq: "bucket t index a = bucket_cell (ht_head (the_table t a)) (unat index)"
  by (simp add: bucket_def bucket_cell_def)

lemma unlink_eq:
  assumes "path m p (ys @ z # zs) 0"
  shows "unlink t index (last (0 # ys)) nxt a = store (link_cell (bucket_cell (ht_head (the_table t a)) (unat index)) ys) nxt a"
proof (cases ys rule: rev_cases)
  case (snoc us y)
  then have "y \<noteq> 0" using path_nonzero [OF assms, of y] by simp
  then show ?thesis using snoc by (simp add: unlink_def link_cell_def)
qed (simp add: unlink_def link_cell_def bucket_eq)

text \<open>The search in the chain of a link.\<close>

lemma find_key_spec:
  assumes t: "links_ok t a ls" and n: "short_chains (rt_rounds rt) t a ls"
  fixes l defines "i \<equiv> unat (index_of t l a)"
  shows "(\<exists>ys z zs. find_key rt t l a = Inr (last (0 # ys), z) \<and> z \<noteq> 0 \<and> ls i = ys @ z # zs \<and> gc_mem (the_gc a) z = NOT l) \<or>
    (\<exists>prev. find_key rt t l a = Inr (prev, 0) \<and> l \<notin> fst ` links t a ls)"
proof -
  let ?h = "the_table t a" and ?m = "gc_mem (the_gc a)"
  have ok: "table_ok ?m (ht_head ?h) (ht_log_size ?h) ls" using t by (simp add: links_ok_def Let_def)
  have i: "i < 2 ^ ht_log_size ?h" unfolding i_def index_of_def by (rule HASH2_bound [OF table_okD(2) [OF ok]])
  have path: "path ?m (?m (bucket_cell (ht_head ?h) i)) (ls i) 0" by (rule table_okD(3) [OF ok i])
  have len: "length (ls i) < rt_rounds rt" using n i by (simp add: short_chains_def)
  have find: "find_key rt t l a =
    Inr (last (0 # takeWhile (\<lambda>x. ?m x \<noteq> NOT l) (ls i)), case dropWhile (\<lambda>x. ?m x \<noteq> NOT l) (ls i) of [] \<Rightarrow> 0 | z # _ \<Rightarrow> z)"
    using find_entry_spec [OF path len] by (simp add: find_key_def bucket_eq i_def GC_HIDE_POINTER_def load_def)
  show ?thesis
  proof (cases "dropWhile (\<lambda>x. ?m x \<noteq> NOT l) (ls i)")
    case Nil
    have none: "?m p \<noteq> NOT l" if "p \<in> entries_of (ht_log_size ?h) ls" for p
    proof
      assume key: "?m p = NOT l"
      then have "p \<in> set (ls i)" using entry_chain(1) [OF ok that] by (simp add: i_def index_of_def)
      then show False using Nil key by (simp add: dropWhile_eq_Nil_conv)
    qed
    have "l \<notin> fst ` links t a ls"
    proof
      assume "l \<in> fst ` links t a ls"
      then obtain p where p: "p \<in> entries_of (ht_log_size ?h) ls" "l = NOT (?m p)" by (auto simp: links_def registered_def)
      show False using none [OF p(1)] p(2) by simp
    qed
    then show ?thesis using find Nil by simp
  next
    case (Cons z zs)
    have split: "ls i = takeWhile (\<lambda>x. ?m x \<noteq> NOT l) (ls i) @ z # zs"
      using takeWhile_dropWhile_id [of "\<lambda>x. ?m x \<noteq> NOT l" "ls i"] unfolding Cons by simp
    have "?m z = NOT l" using hd_dropWhile [of "\<lambda>x. ?m x \<noteq> NOT l" "ls i"] Cons by simp
    moreover have "z \<in> set (ls i)" using split by (metis in_set_conv_decomp)
    moreover from this have "z \<noteq> 0" by (rule path_nonzero [OF path])
    moreover have "find_key rt t l a = Inr (last (0 # takeWhile (\<lambda>x. ?m x \<noteq> NOT l) (ls i)), z)" unfolding find Cons by simp
    ultimately show ?thesis using split by blast
  qed
qed

lemma linksI:
  "p \<in> entries_of (ht_log_size (the_table t a)) ls \<Longrightarrow> (NOT (gc_mem (the_gc a) p), NOT (gc_mem (the_gc a) (p + 16))) \<in> links t a ls"
  by (simp add: links_def registered_def)

text \<open>What removing the found entry does.\<close>

lemma unlink_spec:
  assumes t: "links_ok t a ls" and ls: "ls (unat (index_of t l a)) = ys @ z # zs" and z: "gc_mem (the_gc a) z = NOT l"
  defines "a' \<equiv> add_entries t (- 1) (unlink t (index_of t l a) (last (0 # ys)) (load (z + 8) a) a)"
  defines "ls' \<equiv> ls(unat (index_of t l a) := ys @ zs)"
  shows "links_ok t a' ls'" "links t a' ls' = without l (links t a ls)"
    "z \<in> entries_of (ht_log_size (the_table t a)) ls" "entries_of (ht_log_size (the_table t a)) ls' = entries_of (ht_log_size (the_table t a)) ls - {z}"
proof -
  let ?h = "the_table t a" and ?m = "gc_mem (the_gc a)" and ?i = "unat (index_of t l a)"
  have ok: "table_ok ?m (ht_head ?h) (ht_log_size ?h) ls" using t by (simp add: links_ok_def Let_def)
  have i: "?i < 2 ^ ht_log_size ?h" unfolding index_of_def by (rule HASH2_bound [OF table_okD(2) [OF ok]])
  have "path ?m (?m (bucket_cell (ht_head ?h) ?i)) (ys @ z # zs) 0" using table_okD(3) [OF ok i] ls by simp
  from unlink_eq [OF this] have mem: "gc_mem (the_gc a') = ?m(link_cell (bucket_cell (ht_head ?h) ?i) ys := ?m (z + 8))"
    and tab: "the_table t a' = ?h\<lparr>ht_entries := ht_entries ?h - 1\<rparr>" by (simp_all add: a'_def load_def)
  note r = remove_entry [OF ok i ls]
  show zE: "z \<in> entries_of (ht_log_size ?h) ls" using ls by (intro entries_ofI [where ls = ls, OF i]) simp
  show E: "entries_of (ht_log_size ?h) ls' = entries_of (ht_log_size ?h) ls - {z}" unfolding ls'_def by (rule r(2))
  have "0 < card (entries_of (ht_log_size ?h) ls)" using zE by (auto simp: card_gt_0_iff)
  then have "word_of_nat (card (entries_of (ht_log_size ?h) ls')) = (word_of_nat (card (entries_of (ht_log_size ?h) ls)) - 1 :: u64)"
    using zE unfolding E by (simp add: of_nat_diff)
  then show "links_ok t a' ls'" using t r(1) by (simp add: links_ok_def Let_def mem tab ls'_def)
  show "links t a' ls' = without l (links t a ls)" using r(3) by (simp add: links_def without_def mem tab ls'_def z)
qed

section \<open>The operations\<close>

lemma unregister_removes_link:
  assumes "links_ok t a ls" "short_chains (rt_rounds rt) t a ls"
  shows "\<exists>dl a' ls'. GC_unregister_disappearing_link_inner rt t l a = Inr (dl, a') \<and> links_ok t a' ls' \<and>
    links t a' ls' = without l (links t a ls) \<and> (dl \<noteq> 0 \<longleftrightarrow> l \<in> fst ` links t a ls)"
proof -
  have hd: "ht_head (the_table t a) \<noteq> 0" using assms(1) by (auto simp: links_ok_def Let_def dest: table_okD(1))
  show ?thesis
    using find_key_spec [OF assms, of l]
  proof (elim disjE exE conjE)
    fix ys z zs
    assume f: "find_key rt t l a = Inr (last (0 # ys), z)" "z \<noteq> 0" "ls (unat (index_of t l a)) = ys @ z # zs" "gc_mem (the_gc a) z = NOT l"
    note u = unlink_spec [OF assms(1) f(3,4)]
    have "l \<in> fst ` links t a ls" using u(3) f(4) by (force simp: links_def registered_def)
    then show ?thesis using f(1,2) hd u(1,2) by (auto simp: GC_unregister_disappearing_link_inner_def)
  next
    fix prev
    assume f: "find_key rt t l a = Inr (prev, 0)" "l \<notin> fst ` links t a ls"
    then have "without l (links t a ls) = links t a ls" by (force simp: without_def)
    then show ?thesis using f hd assms(1) by (auto simp: GC_unregister_disappearing_link_inner_def)
  qed
qed


text \<open>An entry that is in no table is put in front of its chain.\<close>

lemma push_entry_spec:
  assumes t: "links_ok t a ls" and f: "fresh_entry (gc_mem (the_gc a)) (ht_head (the_table t a)) (ht_log_size (the_table t a)) ls z"
    and key: "gc_mem (the_gc a) z = NOT l"
  defines "ls' \<equiv> ls(unat (index_of t l a) := z # ls (unat (index_of t l a)))"
  shows "links_ok t (push_entry_on t (index_of t l a) z a) ls'"
    "links t (push_entry_on t (index_of t l a) z a) ls' = insert (l, NOT (gc_mem (the_gc a) (z + 16))) (links t a ls)"
proof -
  let ?h = "the_table t a" and ?m = "gc_mem (the_gc a)" and ?i = "unat (index_of t l a)" and ?a = "push_entry_on t (index_of t l a) z a"
  have ok: "table_ok ?m (ht_head ?h) (ht_log_size ?h) ls" using t by (simp add: links_ok_def Let_def)
  have i: "?i = unat (HASH2 (NOT (?m z)) (ht_log_size ?h))" by (simp add: index_of_def key)
  note r = add_entry [OF ok f, folded i]
  have mem: "gc_mem (the_gc ?a) = ?m(z + 8 := ?m (bucket_cell (ht_head ?h) ?i), bucket_cell (ht_head ?h) ?i := z)"
    and tab: "the_table t ?a = ?h\<lparr>ht_entries := ht_entries ?h + 1\<rparr>"
    by (simp_all add: push_entry_on_def Let_def load_def bucket_eq)
  have "z \<notin> entries_of (ht_log_size ?h) ls" using fresh_entryD(4) [OF f] by blast
  then have "word_of_nat (card (entries_of (ht_log_size ?h) ls')) = (word_of_nat (card (entries_of (ht_log_size ?h) ls)) + 1 :: u64)"
    unfolding ls'_def r(2) by (simp add: add.commute)
  then show "links_ok t ?a ls'" using t r(1) by (simp add: links_ok_def Let_def mem tab ls'_def)
  show "links t ?a ls' = insert (l, NOT (?m (z + 16))) (links t a ls)" using r(3) by (simp add: links_def mem tab ls'_def key)
qed

text \<open>Writing outside the cells of a table.\<close>

abbreviation cells_of :: "which_table \<Rightarrow> allocator \<Rightarrow> (nat \<Rightarrow> u64 list) \<Rightarrow> u64 set" where
  "cells_of t a ls \<equiv> table_cells (ht_head (the_table t a)) (ht_log_size (the_table t a)) ls"

lemma links_cong:
  assumes "links_ok t a ls" "the_table t a' = the_table t a" "\<And>c. c \<in> cells_of t a ls \<Longrightarrow> gc_mem (the_gc a') c = gc_mem (the_gc a) c"
  shows "links_ok t a' ls" "links t a' ls = links t a ls"
  using assms table_cong [of "gc_mem (the_gc a)" "ht_head (the_table t a)" "ht_log_size (the_table t a)" ls "gc_mem (the_gc a')"]
  by (simp_all add: links_ok_def links_def Let_def)

lemma without_none: "l \<notin> fst ` L \<Longrightarrow> without l L = L"
  by (force simp: without_def)

text \<open>An entry taken out, given another link and put in front of its new chain.\<close>

lemma relink_entry:
  assumes t: "links_ok t a ls" and ls: "ls (unat (index_of t l a)) = ys @ z # zs" and z: "gc_mem (the_gc a) z = NOT l" "z \<noteq> 0"
    and new: "new \<notin> fst ` links t a ls"
  defines "a1 \<equiv> unlink t (index_of t l a) (last (0 # ys)) (load (z + 8) a) a"
  defines "a2 \<equiv> store z (NOT new) (add_entries t (- 1) a1)"
  shows "\<exists>ls'. links_ok t (push_entry_on t (index_of t new a) z a2) ls' \<and>
    links t (push_entry_on t (index_of t new a) z a2) ls' = insert (new, NOT (gc_mem (the_gc a) (z + 16))) (without l (links t a ls))"
proof -
  let ?h = "the_table t a" and ?m = "gc_mem (the_gc a)" and ?i = "index_of t l a" and ?ls = "ls(unat (index_of t l a) := ys @ zs)"
  let ?k = "ht_log_size ?h" and ?tab = "ht_head ?h" and ?a1 = "add_entries t (- 1) a1"
  have ok: "table_ok ?m ?tab ?k ls" using t by (simp add: links_ok_def Let_def)
  have i: "unat ?i < 2 ^ ?k" unfolding index_of_def by (rule HASH2_bound [OF table_okD(2) [OF ok]])
  note u = unlink_spec [OF t ls z(1), folded a1_def]
  have tab: "the_table t a1 = ?h" by (simp add: a1_def)
  have out: "cells z \<inter> table_cells ?tab ?k ?ls = {}"
  proof -
    have "cells z \<inter> cells p = {}" if "p \<in> entries_of ?k ?ls" for p
      using table_okD(6) [OF ok u(3)] that unfolding u(4) by blast
    moreover have "c \<noteq> bucket_cell ?tab i" if "c \<in> cells z" "i < 2 ^ ?k" for c i using table_okD(7) [OF ok u(3) that(2,1)] .
    ultimately show ?thesis unfolding table_cells_def by blast
  qed
  have "gc_mem (the_gc a2) x = gc_mem (the_gc ?a1) x" if "x \<in> cells_of t ?a1 ?ls" for x
    using that out by (auto simp: cells_def a2_def tab)
  from links_cong [OF u(1) _ this] have l2: "links_ok t a2 ?ls" "links t a2 ?ls = without l (links t a ls)"
    using u(2) by (simp_all add: a2_def)
  have tab2: "ht_log_size (the_table t a2) = ?k" "ht_head (the_table t a2) = ?tab" by (simp_all add: a2_def tab)
  have idx: "index_of t new a2 = index_of t new a" by (simp add: index_of_def tab2)
  have z16: "gc_mem (the_gc a2) (z + 16) = ?m (z + 16)"
  proof -
    let ?w = "link_cell (bucket_cell ?tab (unat ?i)) ys"
    have path: "path ?m (?m (bucket_cell ?tab (unat ?i))) (ys @ z # zs) 0" using table_okD(3) [OF ok i] ls by simp
    have "?w \<in> bucket_cell ?tab ` {..< 2 ^ ?k} \<or> (\<exists>y \<in> entries_of ?k ls. ?w = y + 8)"
      using i ls entries_ofI [where ls = ls, OF i, of "last ys"] by (auto simp: link_cell_def)
    then have "z + 16 \<noteq> ?w" by (rule pointer_cell(2) [OF ok _ u(3)])
    then show ?thesis unfolding a2_def a1_def unlink_eq [OF path] by simp
  qed
  have key: "gc_mem (the_gc a2) z = NOT new" by (simp add: a2_def)
  have "gc_mem (the_gc a2) p \<noteq> NOT new" if "p \<in> entries_of ?k ?ls" for p
  proof
    assume p: "gc_mem (the_gc a2) p = NOT new"
    have "p \<in> entries_of (ht_log_size (the_table t a2)) ?ls" using that tab2 by simp
    from linksI [OF this] have "(NOT (NOT new), NOT (gc_mem (the_gc a2) (p + 16))) \<in> links t a2 ?ls" unfolding p .
    then show False using new unfolding l2(2) by (force simp: without_def)
  qed
  then have fresh: "fresh_entry (gc_mem (the_gc a2)) (ht_head (the_table t a2)) (ht_log_size (the_table t a2)) ?ls z"
    using z(2) out key unfolding tab2 by (force simp: fresh_entry_def)
  show ?thesis using push_entry_spec [OF l2(1) fresh key, unfolded idx z16 l2(2)] by blast
qed

lemma links_ok_head: "links_ok t a ls \<Longrightarrow> ht_head (the_table t a) \<noteq> 0"
  by (auto simp: links_ok_def Let_def dest: table_okD(1))

lemma found_link:
  assumes "links_ok t a ls" "ls (unat (index_of t l a)) = ys @ z # zs" "gc_mem (the_gc a) z = NOT l"
  shows "(l, NOT (gc_mem (the_gc a) (z + 16))) \<in> links t a ls"
  using linksI [OF unlink_spec(3) [OF assms]] assms(3) by simp

text \<open>C28: Moving a link in a well-formed hash table of disappearing links: when the old address is not
  registered nothing changes and the result is \<open>GC_NOT_FOUND\<close>; when another link is registered at the
  new address nothing changes and it is \<open>GC_DUPLICATE\<close>; otherwise the table stays well-formed and
  stands for the same links with the old address replaced by the new one, for the same object.\<close>

theorem move_moves_link:
  assumes "links_ok t a ls" "short_chains (rt_rounds rt) t a ls"
  shows "\<exists>r a' ls'. GC_move_disappearing_link_inner rt t l new a = Inr (r, a') \<and> links_ok t a' ls' \<and>
    (if l \<notin> fst ` links t a ls then r = GC_NOT_FOUND \<and> links t a' ls' = links t a ls
     else if l \<noteq> new \<and> new \<in> fst ` links t a ls then r = GC_DUPLICATE \<and> links t a' ls' = links t a ls
     else r = GC_SUCCESS \<and> (\<exists>x. (l, x) \<in> links t a ls \<and> links t a' ls' = insert (new, x) (without l (links t a ls))))"
  using find_key_spec [OF assms, of l]
proof (elim disjE exE conjE)
  fix prev
  assume "find_key rt t l a = Inr (prev, 0)" "l \<notin> fst ` links t a ls"
  then show ?thesis using links_ok_head [OF assms(1)] assms(1) by (auto simp: GC_move_disappearing_link_inner_def)
next
  fix ys z zs
  assume f: "find_key rt t l a = Inr (last (0 # ys), z)" "z \<noteq> 0" "ls (unat (index_of t l a)) = ys @ z # zs" "gc_mem (the_gc a) z = NOT l"
  note hd = links_ok_head [OF assms(1)]
  let ?x = "NOT (gc_mem (the_gc a) (z + 16))"
  have lx: "(l, ?x) \<in> links t a ls" by (rule found_link [OF assms(1) f(3,4)])
  then have dom: "l \<in> fst ` links t a ls" by force
  consider "l = new" | "l \<noteq> new" "new \<in> fst ` links t a ls" | "l \<noteq> new" "new \<notin> fst ` links t a ls" by blast
  then show ?thesis
  proof cases
    case 1
    have "insert (l, ?x) (without l (links t a ls)) = links t a ls"
      using lx registered_fun assms(1) by (fastforce simp: without_def links_def links_ok_def Let_def)
    moreover have "GC_move_disappearing_link_inner rt t l new a = Inr (GC_SUCCESS, a)"
      using f(1,2) hd 1 by (simp add: GC_move_disappearing_link_inner_def)
    ultimately show ?thesis using 1 dom lx assms(1) by (auto intro!: exI [of _ ?x])
  next
    case 2
    then obtain z' prev where "find_key rt t new a = Inr (prev, z')" "z' \<noteq> 0" using find_key_spec [OF assms, of new] by blast
    then have "GC_move_disappearing_link_inner rt t l new a = Inr (GC_DUPLICATE, a)"
      using f(1,2) hd 2(1) by (simp add: GC_move_disappearing_link_inner_def)
    then show ?thesis using 2 dom assms(1) by auto
  next
    case 3
    then obtain prev where n: "find_key rt t new a = Inr (prev, 0)"
      using find_key_spec [OF assms, of new] found_link [OF assms(1), of new] by force
    let ?a1 = "unlink t (index_of t l a) (last (0 # ys)) (load (z + 8) a) a"
    let ?a2 = "store z (NOT new) ?a1" and ?q = "push_entry_on t (index_of t new a) z (store z (NOT new) (add_entries t (- 1) ?a1))"
    let ?b = "bucket t (index_of t new a) ?a2"
    let ?a3 = "store ?b z (store (z + 8) (load ?b ?a2) ?a2)"
    have run: "GC_move_disappearing_link_inner rt t l new a = Inr (GC_SUCCESS, ?a3)"
      using f(1,2) n hd 3(1) by (simp add: GC_move_disappearing_link_inner_def GC_HIDE_POINTER_def Let_def)
    obtain ls' where "links_ok t ?q ls'" "links t ?q ls' = insert (new, ?x) (without l (links t a ls))"
      using relink_entry [OF assms(1) f(3,4,2) 3(2)] by blast
    moreover have "the_table t ?a3 = the_table t ?q" "gc_mem (the_gc ?a3) = gc_mem (the_gc ?q)"
      by (simp_all add: push_entry_on_def Let_def load_def bucket_eq)
    ultimately have "links_ok t ?a3 ls'" "links t ?a3 ls' = insert (new, ?x) (without l (links t a ls))"
      by (simp_all add: links_ok_def links_def)
    then show ?thesis using run 3 dom lx by (intro exI [of _ GC_SUCCESS] exI [of _ ?a3] exI [of _ ls']) auto
  qed
qed


text \<open>The object of an entry is replaced.\<close>

lemma set_object:
  assumes t: "links_ok t a ls" and z: "z \<in> entries_of (ht_log_size (the_table t a)) ls" "gc_mem (the_gc a) z = NOT l"
  shows "links_ok t (store (z + 16) v a) ls" "links t (store (z + 16) v a) ls = insert (l, NOT v) (without l (links t a ls))"
proof -
  let ?h = "the_table t a" and ?m = "gc_mem (the_gc a)"
  let ?k = "ht_log_size ?h" and ?m' = "?m(z + 16 := v)"
  have ok: "table_ok ?m (ht_head ?h) ?k ls" using t by (simp add: links_ok_def Let_def)
  have apart: "p \<noteq> z + 16 \<and> p + 8 \<noteq> z + 16 \<and> (p \<noteq> z \<longrightarrow> p + 16 \<noteq> z + 16)" if "p \<in> entries_of ?k ls" for p
  proof (cases "p = z")
    case False
    then show ?thesis using table_okD(6) [OF ok that z(1)] cells_self [of p] cells_self(3) [of z] by (metis disjoint_iff)
  qed simp
  have bucket: "bucket_cell (ht_head ?h) i \<noteq> z + 16" if "i < 2 ^ ?k" for i using table_okD(7) [OF ok z(1) that, of "z + 16"] by auto
  have ent: "p \<in> entries_of ?k ls" if "i < 2 ^ ?k" "p \<in> set (ls i)" for i p by (rule entries_ofI [where ls = ls, OF that])
  have chain: "path ?m' (?m' (bucket_cell (ht_head ?h) i)) (ls i) 0" "distinct (map ?m' (ls i))"
      "p \<in> set (ls i) \<Longrightarrow> unat (HASH2 (NOT (?m' p)) ?k) = i" if "i < 2 ^ ?k" for i p
  proof -
    have "path ?m' x (ls i) 0 = path ?m x (ls i) 0" for x using apart [OF ent [OF that]] by (intro path_cong) simp
    then show "path ?m' (?m' (bucket_cell (ht_head ?h) i)) (ls i) 0" using table_okD(3) [OF ok that] bucket [OF that] by simp
    have "distinct (map ?m' (ls i)) = distinct (map ?m (ls i))" using apart [OF ent [OF that]] by (intro distinct_map_cong) simp
    then show "distinct (map ?m' (ls i))" using table_okD(4) [OF ok that] by blast
    show "unat (HASH2 (NOT (?m' p)) ?k) = i" if p: "p \<in> set (ls i)"
      using table_okD(5) [OF ok \<open>i < 2 ^ ?k\<close> p] apart [OF ent [OF \<open>i < 2 ^ ?k\<close> p]] by simp
  qed
  have "table_ok ?m' (ht_head ?h) ?k ls" using table_okD(1,2) [OF ok] chain table_okD(6,7) [OF ok] by (rule table_okI)
  then show "links_ok t (store (z + 16) v a) ls" using t by (simp add: links_ok_def Let_def)
  have "(NOT (?m' p), NOT (?m' (p + 16))) = (if p = z then (l, NOT v) else (NOT (?m p), NOT (?m (p + 16))))" if "p \<in> entries_of ?k ls" for p
    using apart [OF that] z(2) by simp
  moreover have "NOT (?m p) \<noteq> l" if "p \<in> entries_of ?k ls" "p \<noteq> z" for p
    using key_unique [OF ok that(1) z(1)] that(2) z(2) by (metis bit.double_compl)
  ultimately have "registered ?m' ?k ls = insert (l, NOT v) (without l (registered ?m ?k ls))"
    using z unfolding registered_def without_def by (auto simp: image_iff)
  then show "links t (store (z + 16) v a) ls = insert (l, NOT v) (without l (links t a ls))" by (simp add: links_def)
qed

text \<open>C27: Registering a link for an object in a well-formed hash table that is not full: the table stays
  well-formed, and stands afterwards for its other links and this one with this object. The result is
  \<open>GC_DUPLICATE\<close> when the link was registered with some object before, which is forgotten. A new link
  needs a new entry, which the allocator is assumed to find outside the table.\<close>

theorem register_registers_link:
  assumes ok: "links_ok t a ls" "short_chains (rt_rounds rt) t a ls"
    and full: "ht_entries (the_table t a) \<le> push_bit (ht_log_size (the_table t a)) 1" "\<not> GC_find_leak (the_gc a)"
    and new: "l \<notin> fst ` links t a ls \<Longrightarrow>
      GC_INTERNAL_MALLOC rt 24 a = Inr (p, a2) \<and> p \<noteq> 0 \<and> the_table t a2 = the_table t a \<and> cells p \<inter> cells_of t a ls = {} \<and>
      (\<forall>c \<in> cells_of t a ls. gc_mem (the_gc a2) c = gc_mem (the_gc a) c)"
  shows "\<exists>a' ls'. GC_register_disappearing_link_inner rt t l obj a = Inr (if l \<in> fst ` links t a ls then GC_DUPLICATE else GC_SUCCESS, a') \<and>
    links_ok t a' ls' \<and> links t a' ls' = insert (l, obj) (without l (links t a ls))"
proof -
  have grow: "grow_if_full rt t a = Inr a" using links_ok_head [OF ok(1)] full(1) by (simp add: grow_if_full_def Let_def flip: not_le)
  show ?thesis
    using find_key_spec [OF ok, of l]
  proof (elim disjE exE conjE)
    fix ys z zs
    assume f: "find_key rt t l a = Inr (last (0 # ys), z)" "z \<noteq> 0" "ls (unat (index_of t l a)) = ys @ z # zs" "gc_mem (the_gc a) z = NOT l"
    have "l \<in> fst ` links t a ls" using found_link [OF ok(1) f(3,4)] by force
    moreover have "GC_register_disappearing_link_inner rt t l obj a = Inr (GC_DUPLICATE, store (z + 16) (NOT obj) a)"
      using grow full(2) f(1,2) by (simp add: GC_register_disappearing_link_inner_def GC_HIDE_POINTER_def)
    ultimately show ?thesis using set_object [OF ok(1) unlink_spec(3) [OF ok(1) f(3,4)] f(4), of "NOT obj"] by auto
  next
    fix prev
    assume f: "find_key rt t l a = Inr (prev, 0)" "l \<notin> fst ` links t a ls"
    note n = new [OF f(2)]
    let ?a = "store p (NOT l) (store (p + 16) (NOT obj) a2)"
    have m: "gc_mem (the_gc ?a) c = gc_mem (the_gc a) c" if "c \<in> cells_of t a ls" for c
      using n that cells_self [of p] by (auto simp: disjoint_iff)
    from links_cong [OF ok(1) _ m] have l2: "links_ok t ?a ls" "links t ?a ls = links t a ls" using n by simp_all
    have key: "gc_mem (the_gc ?a) p = NOT l" "gc_mem (the_gc ?a) (p + 16) = NOT obj" by simp_all
    have "gc_mem (the_gc ?a) q \<noteq> NOT l" if "q \<in> entries_of (ht_log_size (the_table t ?a)) ls" for q
      using linksI [OF that] f(2) l2(2) by force
    then have fresh: "fresh_entry (gc_mem (the_gc ?a)) (ht_head (the_table t ?a)) (ht_log_size (the_table t ?a)) ls p"
      using n key(1) by (force simp: fresh_entry_def)
    have idx: "index_of t l ?a = index_of t l a" using n by (simp add: index_of_def)
    have "GC_register_disappearing_link_inner rt t l obj a = Inr (GC_SUCCESS, push_entry_on t (index_of t l a) p ?a)"
      using grow full(2) f(1) n by (simp add: GC_register_disappearing_link_inner_def GC_HIDE_POINTER_def Let_def)
    then show ?thesis
      using push_entry_spec [OF l2(1) fresh key(1), unfolded idx key(2) l2(2)] f(2) without_none [OF f(2)] by auto
  qed
qed


section \<open>A table of two links\<close>

text \<open>A table of two chains with two entries in the second one; the object of the first is marked. The
  next object of the size of an entry is at \<open>0x10060\<close>.\<close>

definition two_links :: allocator where
  "two_links =
     (on_gc (\<lambda>g. g\<lparr>gc_mem := (\<lambda>_. 0)(0x20008 := 0x10020, 0x10020 := NOT 0x30008, 0x10028 := 0x10040, 0x10030 := NOT 0x10000,
            0x10040 := NOT 0x30010, 0x10050 := NOT 0x10010, 0x30008 := 0x10000, 0x30010 := 0x10010),
          gc_hdrs := [header_at g 4096\<lparr>hb_marks := [1, 0, 0, 0, 1]\<rparr>],
          GC_obj_kinds := [normal_kind, normal_kind\<lparr>ok_freelist := (replicate 129 0)[2 := 0x10060]\<rparr>]\<rparr>) two_objects_allocator)
     \<lparr>GC_size_map := (replicate 2049 0)[24 := 2], GC_dl_hashtbl := \<lparr>ht_head = 0x20000, ht_entries = 2, ht_log_size = 1\<rparr>\<rparr>"

definition two_entries :: "nat \<Rightarrow> u64 list" where
  "two_entries i = (if i = 1 then [0x10020, 0x10040] else [])"

lemma two_links_mem: "gc_mem (the_gc two_links) = (\<lambda>_. 0)(0x20008 := 0x10020, 0x10020 := NOT 0x30008, 0x10028 := 0x10040,
    0x10030 := NOT 0x10000, 0x10040 := NOT 0x30010, 0x10050 := NOT 0x10010, 0x30008 := 0x10000, 0x30010 := 0x10010)"
  by (simp add: two_links_def)

lemma two_links_table: "the_table Dl_Table two_links = \<lparr>ht_head = 0x20000, ht_entries = 2, ht_log_size = 1\<rparr>"
  by (simp add: two_links_def the_table_def)

lemma two_entries_of: "entries_of (Suc 0) two_entries = {0x10020, 0x10040}"
  by (auto simp: entries_of_def two_entries_def numeral_2_eq_2 lessThan_Suc)

lemma two_links_ok: "links_ok Dl_Table two_links two_entries"
proof -
  have "table_ok (gc_mem (the_gc two_links)) 0x20000 (Suc 0) two_entries"
  proof (rule table_okI)
    fix i :: nat
    assume "i < 2 ^ Suc 0"
    then have i: "i = 0 \<or> i = 1" by auto
    show "path (gc_mem (the_gc two_links)) (gc_mem (the_gc two_links) (bucket_cell 0x20000 i)) (two_entries i) 0"
      using i by (auto simp: two_links_mem two_entries_def bucket_cell_def)
    show "distinct (map (gc_mem (the_gc two_links)) (two_entries i))" using i by (auto simp: two_links_mem two_entries_def)
    show "unat (HASH2 (NOT (gc_mem (the_gc two_links) p)) (Suc 0)) = i" if "p \<in> set (two_entries i)" for p
      using that i by (auto simp: two_links_mem two_entries_def HASH2_def HASH3_def split: if_splits)
    show "c \<noteq> bucket_cell 0x20000 i" if "p \<in> entries_of (Suc 0) two_entries" "c \<in> cells p" for p c
      using that i unfolding two_entries_of by (auto simp: cells_def bucket_cell_def)
  next
    show "cells p \<inter> cells q = {}" if "p \<in> entries_of (Suc 0) two_entries" "q \<in> entries_of (Suc 0) two_entries" "p \<noteq> q" for p q
      using that unfolding two_entries_of by (auto simp: cells_def)
  qed simp_all
  then show ?thesis by (simp add: links_ok_def Let_def two_links_table two_entries_of)
qed

lemma two_links_links: "links Dl_Table two_links two_entries = {(0x30008, 0x10000), (0x30010, 0x10010)}"
  by (simp add: links_def registered_def two_links_table two_entries_of two_links_mem)

lemma two_links_short: "short_chains (rt_rounds quiet_runtime) Dl_Table two_links two_entries"
  by (simp add: short_chains_def quiet_runtime_def two_entries_def)

lemma two_links_cells: "cells_of Dl_Table two_links two_entries =
    {0x20000, 0x20008, 0x10020, 0x10028, 0x10030, 0x10040, 0x10048, 0x10050}"
proof -
  have "{..< 2 ^ Suc 0} = {0, 1 :: nat}" by auto
  then show ?thesis by (simp add: table_cells_def two_links_table two_entries_of bucket_cell_def cells_def insert_commute)
qed

lemma unregister_example:
  "\<exists>dl a' ls'. GC_unregister_disappearing_link_inner quiet_runtime Dl_Table 0x30010 two_links = Inr (dl, a') \<and> dl \<noteq> 0 \<and>
    links Dl_Table a' ls' = {(0x30008, 0x10000)}"
proof -
  have "without 0x30010 {(0x30008, 0x10000), (0x30010, 0x10010)} = {(0x30008, 0x10000)}" by (auto simp: without_def)
  then show ?thesis
    using unregister_removes_link [OF two_links_ok two_links_short, of "0x30010"] unfolding two_links_links by fastforce
qed

lemma move_moves_link_witness:
  "\<exists>a' ls'. GC_move_disappearing_link_inner quiet_runtime Dl_Table 0x30010 0x30000 two_links = Inr (GC_SUCCESS, a') \<and>
    links Dl_Table a' ls' = {(0x30000, 0x10010), (0x30008, 0x10000)}"
proof -
  have "insert (0x30000, x) (without 0x30010 {(0x30008, 0x10000), (0x30010, 0x10010)}) = {(0x30000, x), (0x30008, 0x10000)}" for x
    by (auto simp: without_def)
  then show ?thesis
    using move_moves_link [OF two_links_ok two_links_short, of "0x30010" "0x30000"] unfolding two_links_links by auto
qed

lemma two_links_malloc:
  "\<exists>a2. GC_INTERNAL_MALLOC quiet_runtime 24 two_links = Inr (0x10060, a2) \<and> the_table Dl_Table a2 = the_table Dl_Table two_links \<and>
    gc_mem (the_gc a2) = (gc_mem (the_gc two_links))(0x10060 := 0)"
proof -
  have "SMALL_OBJ (EXTRA_BYTES (the_gc two_links)) 24" by (simp add: SMALL_OBJ_def)
  moreover have "GC_size_map two_links ! 24 = 2" "length (GC_size_map two_links) = 2049"
    by (simp_all add: two_links_def)
  moreover have "kind_freelist 1 2 (the_gc two_links) = Inr 0x10060"
    by (simp add: kind_freelist_def two_links_def read_at_def normal_kind_def)
  moreover have "\<exists>g. take_object True 0x10060 1 2 (the_gc two_links) = Inr g \<and> gc_mem g = (gc_mem (the_gc two_links))(0x10060 := 0)"
    by (simp add: take_object_def set_kind_freelist_def two_links_def read_at_def write_at_def normal_kind_def set_obj_link_def Let_def)
  ultimately show ?thesis
    by (auto simp: GC_INTERNAL_MALLOC_def GC_generic_malloc_inner_def generic_malloc_small_def Let_def read_at_def
        run_gc_def lift_collector_def lift_marker_def lift_gc_def the_table_def)
qed

lemma register_registers_link_witness:
  "\<exists>a' ls'. GC_register_disappearing_link_inner quiet_runtime Dl_Table 0x30000 0x10010 two_links = Inr (GC_SUCCESS, a') \<and>
    links Dl_Table a' ls' = {(0x30000, 0x10010), (0x30008, 0x10000), (0x30010, 0x10010)}"
proof -
  obtain a2 where a2: "GC_INTERNAL_MALLOC quiet_runtime 24 two_links = Inr (0x10060, a2)" "the_table Dl_Table a2 = the_table Dl_Table two_links"
    "gc_mem (the_gc a2) = (gc_mem (the_gc two_links))(0x10060 := 0)" using two_links_malloc by blast
  have "cells 0x10060 \<inter> cells_of Dl_Table two_links two_entries = {}" unfolding two_links_cells by (simp add: cells_def)
  moreover have "\<forall>c \<in> cells_of Dl_Table two_links two_entries. gc_mem (the_gc a2) c = gc_mem (the_gc two_links) c"
    unfolding two_links_cells a2(3) by simp
  moreover have "ht_entries (the_table Dl_Table two_links) \<le> push_bit (ht_log_size (the_table Dl_Table two_links)) 1"
    "\<not> GC_find_leak (the_gc two_links)"
    by (simp_all add: two_links_table) (simp add: two_links_def two_objects_allocator_def two_objects_def initial_gc_def)
  moreover have "(0x10060 :: u64) \<noteq> 0" by simp
  ultimately have "\<exists>a' ls'. GC_register_disappearing_link_inner quiet_runtime Dl_Table 0x30000 0x10010 two_links =
      Inr (if 0x30000 \<in> fst ` links Dl_Table two_links two_entries then GC_DUPLICATE else GC_SUCCESS, a') \<and>
    links_ok Dl_Table a' ls' \<and> links Dl_Table a' ls' = insert (0x30000, 0x10010) (without 0x30000 (links Dl_Table two_links two_entries))"
    using a2(1,2) register_registers_link [OF two_links_ok two_links_short] by blast
  moreover have "without 0x30000 {(0x30008, 0x10000), (0x30010, 0x10010)} = {(0x30008, 0x10000), (0x30010, 0x10010)}"
    by (auto simp: without_def)
  ultimately show ?thesis unfolding two_links_links by auto
qed

end
