(* ===== verification/Atomix_GC_Weak_Laws.thy ===== *)
theory Atomix_GC_Weak_Laws
  imports Atomix_GC_Table_Laws Atomix_GC_Cycle_Laws
begin

unbundle bit_operations_syntax

text \<open>
  Disappearing links are weak references: after marking, the pass of \<open>GC_finalize\<close> over a table sets
  the links to unmarked objects to NULL and takes their entries out, and changes nothing else.
\<close>

section \<open>Mark bits of addresses\<close>

text \<open>The block and the bit of an address, and whether it has one.\<close>

definition place :: "gc \<Rightarrow> u64 \<Rightarrow> u64 \<times> u64" where
  "place g p = (entry_of g p, MARK_BIT_NO (p - HBLKPTR p))"

definition markable :: "gc \<Rightarrow> u64 \<Rightarrow> bool" where
  "markable g p \<longleftrightarrow> in_use g (entry_of g p) \<and> length (hb_marks (header_at g (entry_of g p))) = 5"

definition is_marked :: "gc \<Rightarrow> u64 \<Rightarrow> bool" where
  "is_marked g p \<longleftrightarrow> GC_is_marked p g = Inr True"

lemma bit_bound: "unat (MARK_BIT_NO (p - HBLKPTR p)) < 320"
proof -
  have "p - HBLKPTR p = HBLKDISPL p" using page_split [of p] by (simp add: algebra_simps)
  then show ?thesis using gran_bound [of p] by (simp add: MARK_BIT_NO_def)
qed

lemma hdr_of_block:
  assumes "sound_index g" "markable g p"
  shows "HDR (HBLKPTR p) g = Inr (entry_of g p)" "hdr_of (HBLKPTR p) g = Inr (header_at g (entry_of g p))"
proof -
  have "HBLKPTR p = push_bit 12 (drop_bit 12 p)" using and_not_mask [of p 12] by (simp add: HBLKPTR_def mask_eq_exp_minus_1)
  then have "drop_bit 12 (HBLKPTR p) = drop_bit 12 p" by (intro bit_eqI) (auto simp: bit_simps dest: bit_imp_le_length)
  then show "HDR (HBLKPTR p) g = Inr (entry_of g p)" using HDR_page [of "HBLKPTR p" p g] entry_of [OF assms(1), of p] by simp
  then show "hdr_of (HBLKPTR p) g = Inr (header_at g (entry_of g p))"
    using assms(2) by (simp add: hdr_of_def get_hdr_in_use markable_def)
qed

lemma is_marked_iff:
  assumes "sound_index g" "markable g p"
  defines "b \<equiv> unat (snd (place g p))"
  shows "GC_is_marked p g = Inr (is_marked g p)"
    "is_marked g p \<longleftrightarrow> bit (hb_marks (header_at g (fst (place g p))) ! (b div 64)) (b mod 64)"
proof -
  have "GC_is_marked p g = Inr (bit (hb_marks (header_at g (entry_of g p)) ! (b div 64)) (b mod 64))"
    using hdr_of_block(2) [OF assms(1,2)] mark_bit_value [OF _ bit_bound [of p]] assms(2)
    by (simp add: GC_is_marked_def Let_def markable_def b_def place_def)
  then show "GC_is_marked p g = Inr (is_marked g p)"
    "is_marked g p \<longleftrightarrow> bit (hb_marks (header_at g (fst (place g p))) ! (b div 64)) (b mod 64)"
    by (simp_all add: is_marked_def place_def)
qed

lemma clear_mark_bit_value:
  assumes "length (hb_marks h) = 5" "unat b < 320"
  shows "\<exists>ms. clear_mark_bit_from_hdr h b = Inr (h\<lparr>hb_marks := ms\<rparr>) \<and> length ms = 5 \<and>
    (\<forall>c. unat c < 320 \<and> c \<noteq> b \<longrightarrow> bit (ms ! (unat c div 64)) (unat c mod 64) = bit (hb_marks h ! (unat c div 64)) (unat c mod 64))"
proof -
  let ?i = "unat b div 64" and ?j = "unat b mod 64"
  let ?ms = "(hb_marks h)[?i := hb_marks h ! ?i AND NOT (push_bit ?j 1)]"
  have i: "?i < 5" using assms(2) by (intro less_mult_imp_div_less) simp
  have "clear_mark_bit_from_hdr h b = Inr (h\<lparr>hb_marks := ?ms\<rparr>)"
    using assms(1) i by (simp add: clear_mark_bit_from_hdr_def read_at_def write_at_def unat_divWORDSZ unat_modWORDSZ)
  moreover have "bit (?ms ! (unat c div 64)) (unat c mod 64) = bit (hb_marks h ! (unat c div 64)) (unat c mod 64)"
    if "c \<noteq> b" for c
  proof -
    have "\<not> (unat c div 64 = ?i \<and> unat c mod 64 = ?j)" using that by (metis div_mult_mod_eq word_unat_eq_iff)
    then show ?thesis using i assms(1) by (cases "unat c div 64 = ?i") (auto simp: bit_simps)
  qed
  ultimately show ?thesis using assms(1) by (intro exI [of _ ?ms]) simp
qed

text \<open>Clearing the mark of one address leaves the marks of others.\<close>

lemma clear_mark_bit_spec:
  assumes s: "sound_index g" and p: "markable g p"
  shows "\<exists>g'. GC_clear_mark_bit p g = Inr g' \<and> sound_index g' \<and> gc_mem g' = gc_mem g \<and> entry_of g' = entry_of g \<and>
    (\<forall>q. markable g q \<longrightarrow> markable g' q \<and> (place g q \<noteq> place g p \<longrightarrow> is_marked g' q = is_marked g q))"
proof -
  let ?e = "entry_of g p" and ?b = "MARK_BIT_NO (p - HBLKPTR p)"
  let ?h = "header_at g ?e"
  have u: "in_use g ?e" "length (hb_marks ?h) = 5" using p by (simp_all add: markable_def)
  obtain ms where ms: "clear_mark_bit_from_hdr ?h ?b = Inr (?h\<lparr>hb_marks := ms\<rparr>)" "length ms = 5"
    "\<And>c. unat c < 320 \<Longrightarrow> c \<noteq> ?b \<Longrightarrow> bit (ms ! (unat c div 64)) (unat c mod 64) = bit (hb_marks ?h ! (unat c div 64)) (unat c mod 64)"
    using clear_mark_bit_value [OF u(2) bit_bound] by blast
  obtain n where "GC_clear_mark_bit p g = Inr (g\<lparr>gc_hdrs := (gc_hdrs g)[unat ?e - 4096 := n]\<rparr>)"
    and n: "strip n = strip ?h" "length (hb_marks n) = 5"
      "\<And>c. unat c < 320 \<Longrightarrow> c \<noteq> ?b \<Longrightarrow> bit (hb_marks n ! (unat c div 64)) (unat c mod 64) = bit (hb_marks ?h ! (unat c div 64)) (unat c mod 64)"
  proof -
    let ?n = "if mark_bit_from_hdr ?h ?b = Inr True then ?h\<lparr>hb_marks := ms, hb_n_marks := hb_n_marks ?h - 1\<rparr> else ?h"
    obtain m where "mark_bit_from_hdr ?h ?b = Inr m" using mark_bit_value [OF u(2) bit_bound] by blast
    then have "GC_clear_mark_bit p g = Inr (g\<lparr>gc_hdrs := (gc_hdrs g)[unat ?e - 4096 := ?n]\<rparr>)"
      using hdr_of_block [OF s p] ms(1) mod_hdr_in_use [OF u(1)]
      by (simp add: GC_clear_mark_bit_def Let_def update_hdr_of_def mod_hdr_of_def)
    then show ?thesis using that [of ?n] ms(2,3) u(2) by (simp add: strip_def)
  qed
  let ?g = "g\<lparr>gc_hdrs := (gc_hdrs g)[unat ?e - 4096 := n]\<rparr>"
  have ent: "entry_of ?g = entry_of g" using HDR_cong [of ?g g] by (simp add: entry_of_def fun_eq_iff)
  have le: "unat ?e - 4096 < length (gc_hdrs g)" "4096 \<le> unat ?e" using u(1) by (auto simp: in_use_def word_less_nat_alt)
  have hdr: "header_at ?g e = (if e = ?e then n else header_at g e)" if "in_use g e" for e
  proof -
    have "unat ?e - 4096 = unat e - 4096 \<longleftrightarrow> e = ?e" using that le by (auto simp: in_use_def word_less_nat_alt word_unat_eq_iff)
    then show ?thesis using le by (simp add: header_at_def nth_list_update)
  qed
  have use: "in_use ?g e" if "in_use g e" for e
    using that hdr [OF that] strip_fields [OF n(1)] by (auto simp: in_use_def HBLK_IS_FREE_def)
  have mk: "markable ?g q" if "markable g q" for q using that use hdr n(2) by (auto simp: markable_def ent)
  have s': "sound_index ?g" using s by (simp add: sound_index_def)
  have "is_marked ?g q = is_marked g q" if q: "markable g q" "place g q \<noteq> place g p" for q
  proof -
    have u: "in_use g (entry_of g q)" using q(1) by (simp add: markable_def)
    show ?thesis
      using is_marked_iff(2) [OF s q(1)] is_marked_iff(2) [OF s' mk [OF q(1)]] hdr [OF u] n(3) [OF bit_bound [of q]] q(2)
      by (auto simp: place_def ent)
  qed
  then show ?thesis using \<open>GC_clear_mark_bit p g = Inr ?g\<close> s' ent mk by (intro exI [of _ ?g]) simp
qed


section \<open>Entries that are dropped\<close>

abbreviation (input) obj_of :: "allocator \<Rightarrow> u64 \<Rightarrow> u64" where
  "obj_of a p \<equiv> NOT (gc_mem (the_gc a) (p + 16))"

abbreviation (input) link_of :: "allocator \<Rightarrow> u64 \<Rightarrow> u64" where
  "link_of a p \<equiv> NOT (gc_mem (the_gc a) p)"

abbreviation (input) ents :: "which_table \<Rightarrow> allocator \<Rightarrow> (nat \<Rightarrow> u64 list) \<Rightarrow> u64 set" where
  "ents t a ls \<equiv> entries_of (ht_log_size (the_table t a)) ls"

text \<open>A table of weak references: the entries and their objects have mark bits, no entry is the object
  of another, and no link is a cell of the table.\<close>

definition weak_table :: "which_table \<Rightarrow> allocator \<Rightarrow> (nat \<Rightarrow> u64 list) \<Rightarrow> bool" where
  "weak_table t a ls \<longleftrightarrow>
     links_ok t a ls \<and> sound_index (the_gc a) \<and>
     (\<forall>p \<in> ents t a ls. markable (the_gc a) p \<and> markable (the_gc a) (obj_of a p) \<and> link_of a p \<notin> cells_of t a ls) \<and>
     (\<forall>p \<in> ents t a ls. \<forall>q \<in> ents t a ls. place (the_gc a) (obj_of a p) \<noteq> place (the_gc a) q)"

text \<open>From \<open>a\<close> to \<open>a'\<close> the entries \<open>D\<close> are dropped.\<close>

definition dropped :: "which_table \<Rightarrow> u64 set \<Rightarrow> allocator \<Rightarrow> (nat \<Rightarrow> u64 list) \<Rightarrow> allocator \<Rightarrow> (nat \<Rightarrow> u64 list) \<Rightarrow> bool" where
  "dropped t D a ls a' ls' \<longleftrightarrow>
     weak_table t a' ls' \<and> D \<subseteq> ents t a ls \<and> ents t a' ls' = ents t a ls - D \<and>
     ht_head (the_table t a') = ht_head (the_table t a) \<and> ht_log_size (the_table t a') = ht_log_size (the_table t a) \<and>
     (\<forall>p \<in> ents t a ls - D. gc_mem (the_gc a') p = gc_mem (the_gc a) p \<and> gc_mem (the_gc a') (p + 16) = gc_mem (the_gc a) (p + 16)) \<and>
     (\<forall>c. c \<notin> cells_of t a ls \<longrightarrow> gc_mem (the_gc a') c = (if c \<in> link_of a ` D then 0 else gc_mem (the_gc a) c)) \<and>
     entry_of (the_gc a') = entry_of (the_gc a) \<and>
     (\<forall>q. markable (the_gc a) q \<longrightarrow> markable (the_gc a') q \<and>
        (place (the_gc a) q \<notin> place (the_gc a) ` ents t a ls \<longrightarrow> is_marked (the_gc a') q = is_marked (the_gc a) q))"

lemma dropped_refl: "weak_table t a ls \<Longrightarrow> dropped t {} a ls a ls"
  by (simp add: dropped_def)

lemma droppedI:
  assumes "weak_table t a' ls'" "D \<subseteq> ents t a ls" "ents t a' ls' = ents t a ls - D"
    "ht_head (the_table t a') = ht_head (the_table t a)" "ht_log_size (the_table t a') = ht_log_size (the_table t a)"
    "\<And>p. p \<in> ents t a ls - D \<Longrightarrow>
       gc_mem (the_gc a') p = gc_mem (the_gc a) p \<and> gc_mem (the_gc a') (p + 16) = gc_mem (the_gc a) (p + 16)"
    "\<And>c. c \<notin> cells_of t a ls \<Longrightarrow> gc_mem (the_gc a') c = (if c \<in> link_of a ` D then 0 else gc_mem (the_gc a) c)"
    "entry_of (the_gc a') = entry_of (the_gc a)"
    "\<And>q. markable (the_gc a) q \<Longrightarrow> markable (the_gc a') q \<and>
       (place (the_gc a) q \<notin> place (the_gc a) ` ents t a ls \<longrightarrow> is_marked (the_gc a') q = is_marked (the_gc a) q)"
  shows "dropped t D a ls a' ls'"
  unfolding dropped_def using assms(1-5,8) assms(6) assms(7) assms(9) by (intro conjI ballI allI impI) blast+

lemma droppedD:
  assumes "dropped t D a ls a' ls'"
  shows "weak_table t a' ls'" "D \<subseteq> ents t a ls" "ents t a' ls' = ents t a ls - D"
    "ht_head (the_table t a') = ht_head (the_table t a)" "ht_log_size (the_table t a') = ht_log_size (the_table t a)"
    "p \<in> ents t a ls \<Longrightarrow> p \<notin> D \<Longrightarrow> gc_mem (the_gc a') p = gc_mem (the_gc a) p"
    "p \<in> ents t a ls \<Longrightarrow> p \<notin> D \<Longrightarrow> gc_mem (the_gc a') (p + 16) = gc_mem (the_gc a) (p + 16)"
    "c \<notin> cells_of t a ls \<Longrightarrow> gc_mem (the_gc a') c = (if c \<in> link_of a ` D then 0 else gc_mem (the_gc a) c)"
    "entry_of (the_gc a') = entry_of (the_gc a)"
    "markable (the_gc a) q \<Longrightarrow> markable (the_gc a') q"
    "markable (the_gc a) q \<Longrightarrow> place (the_gc a) q \<notin> place (the_gc a) ` ents t a ls \<Longrightarrow>
       is_marked (the_gc a') q = is_marked (the_gc a) q"
proof -
  note d = assms [unfolded dropped_def]
  show "weak_table t a' ls'" "D \<subseteq> ents t a ls" "ents t a' ls' = ents t a ls - D"
    "ht_head (the_table t a') = ht_head (the_table t a)" "ht_log_size (the_table t a') = ht_log_size (the_table t a)"
    "entry_of (the_gc a') = entry_of (the_gc a)" using d by blast+
  show "gc_mem (the_gc a') p = gc_mem (the_gc a) p" "gc_mem (the_gc a') (p + 16) = gc_mem (the_gc a) (p + 16)"
    if "p \<in> ents t a ls" "p \<notin> D" using d that by blast+
  show "gc_mem (the_gc a') c = (if c \<in> link_of a ` D then 0 else gc_mem (the_gc a) c)" if "c \<notin> cells_of t a ls" using d that by blast
  show "markable (the_gc a') q" if "markable (the_gc a) q" using d that by blast
  show "is_marked (the_gc a') q = is_marked (the_gc a) q" if "markable (the_gc a) q" "place (the_gc a) q \<notin> place (the_gc a) ` ents t a ls"
    using d that by blast
qed

lemma dropped_trans:
  assumes d: "dropped t D a ls a1 ls1" "dropped t D' a1 ls1 a2 ls2"
  shows "dropped t (D \<union> D') a ls a2 ls2"
proof -
  note d1 = droppedD [OF d(1)] and d2 = droppedD [OF d(2)]
  have sub: "D \<subseteq> ents t a ls" "D' \<subseteq> ents t a ls - D" using d1(2) d2(2) unfolding d1(3) .
  have pl: "place (the_gc a1) = place (the_gc a)" using d1(9) by (simp add: place_def fun_eq_iff)
  have cells: "c \<notin> cells_of t a1 ls1" if "c \<notin> cells_of t a ls" for c
    using that d1(3) unfolding table_cells_def d1(4,5) by blast
  have "gc_mem (the_gc a1) p = gc_mem (the_gc a) p" if "p \<in> D'" for p using that sub(2) d1(6) by blast
  then have im: "link_of a1 ` D' = link_of a ` D'" by (intro image_cong) simp_all
  have e: "ents t a2 ls2 = ents t a ls - (D \<union> D')" using d1(3) d2(3) by blast
  have keep: "gc_mem (the_gc a2) p = gc_mem (the_gc a) p \<and> gc_mem (the_gc a2) (p + 16) = gc_mem (the_gc a) (p + 16)"
    if "p \<in> ents t a ls - (D \<union> D')" for p
  proof -
    have p: "p \<in> ents t a ls" "p \<notin> D" "p \<in> ents t a1 ls1" "p \<notin> D'" using that d1(3) by blast+
    show ?thesis using d2(6,7) [OF p(3,4)] d1(6,7) [OF p(1,2)] by simp
  qed
  have mem: "gc_mem (the_gc a2) c = (if c \<in> link_of a ` (D \<union> D') then 0 else gc_mem (the_gc a) c)" if "c \<notin> cells_of t a ls" for c
    using d2(8) [OF cells [OF that]] d1(8) [OF that] unfolding im image_Un by auto
  have marks: "markable (the_gc a2) q \<and>
      (place (the_gc a) q \<notin> place (the_gc a) ` ents t a ls \<longrightarrow> is_marked (the_gc a2) q = is_marked (the_gc a) q)"
    if q: "markable (the_gc a) q" for q
  proof (intro conjI impI)
    show "markable (the_gc a2) q" using d2(10) [OF d1(10) [OF q]] .
    assume p: "place (the_gc a) q \<notin> place (the_gc a) ` ents t a ls"
    then have "place (the_gc a1) q \<notin> place (the_gc a1) ` ents t a1 ls1" unfolding pl d1(3) by blast
    from d2(11) [OF d1(10) [OF q] this] d1(11) [OF q p] show "is_marked (the_gc a2) q = is_marked (the_gc a) q" by simp
  qed
  have tab: "weak_table t a2 ls2" "ht_head (the_table t a2) = ht_head (the_table t a)" "ht_log_size (the_table t a2) = ht_log_size (the_table t a)"
    "entry_of (the_gc a2) = entry_of (the_gc a)" using d2(1,4,5,9) d1(4,5,9) by simp_all
  show ?thesis unfolding dropped_def using sub e keep mem marks tab by (intro conjI) blast+
qed

lemma run_gc_Inr: "f (the_gc a) = Inr g \<Longrightarrow> run_gc f a = Inr (on_gc (\<lambda>_. g) a)"
  by (simp add: run_gc_def lift_collector_def lift_marker_def lift_gc_def on_gc_def on_marker_def Let_def)

text \<open>What marks depend on.\<close>

definition same_headers :: "gc \<Rightarrow> gc \<Rightarrow> bool" where
  "same_headers g g' \<longleftrightarrow> gc_hdrs g' = gc_hdrs g \<and> bottom_indices g' = bottom_indices g \<and> GC_top_index g' = GC_top_index g"

lemma same_headers:
  assumes "same_headers g g'"
  shows "entry_of g' = entry_of g" "place g' = place g" "sound_index g' = sound_index g" "markable g' = markable g" "is_marked g' = is_marked g"
proof -
  have h: "HDR p g' = HDR p g" for p using assms by (intro HDR_cong) (simp_all add: same_headers_def)
  then show e: "entry_of g' = entry_of g" by (simp add: entry_of_def fun_eq_iff)
  then show "place g' = place g" by (simp add: place_def fun_eq_iff)
  show "sound_index g' = sound_index g" using assms by (simp add: same_headers_def sound_index_def)
  have "header_at g' = header_at g" "in_use g' = in_use g" using assms by (simp_all add: same_headers_def header_at_def in_use_def fun_eq_iff)
  then show "markable g' = markable g" using e by (simp add: markable_def fun_eq_iff)
  have "get_hdr e g' = get_hdr e g" for e using assms by (simp add: same_headers_def get_hdr_def)
  then show "is_marked g' = is_marked g" using h by (simp add: is_marked_def GC_is_marked_def hdr_of_def fun_eq_iff)
qed

lemma same_headers_simps [simp]:
  "same_headers g g" "same_headers (the_gc a) (the_gc (store p x a))" "same_headers (the_gc a) (the_gc (unlink t i prev nxt a))"
  by (simp_all add: same_headers_def unlink_def the_gc_store)

lemma same_headers_trans: "same_headers g g' \<Longrightarrow> same_headers g' g'' \<Longrightarrow> same_headers g g''"
  by (simp add: same_headers_def)


text \<open>One entry, with its link set to NULL and its mark cleared.\<close>

lemma weak_tableD:
  assumes "weak_table t a ls"
  shows "links_ok t a ls" "sound_index (the_gc a)" "p \<in> ents t a ls \<Longrightarrow> markable (the_gc a) p"
    "p \<in> ents t a ls \<Longrightarrow> markable (the_gc a) (obj_of a p)" "p \<in> ents t a ls \<Longrightarrow> link_of a p \<notin> cells_of t a ls"
    "p \<in> ents t a ls \<Longrightarrow> q \<in> ents t a ls \<Longrightarrow> place (the_gc a) (obj_of a p) \<noteq> place (the_gc a) q"
  using assms unfolding weak_table_def by blast+

lemma table_of_links: "links_ok t a ls \<Longrightarrow> table_ok (gc_mem (the_gc a)) (ht_head (the_table t a)) (ht_log_size (the_table t a)) ls"
  by (simp add: links_ok_def Let_def)

lemma entry_cells: "p \<in> ents t a ls \<Longrightarrow> c \<in> cells p \<Longrightarrow> c \<in> cells_of t a ls"
  by (auto simp: table_cells_def)

lemma bucket_cells: "i < 2 ^ ht_log_size (the_table t a) \<Longrightarrow> bucket_cell (ht_head (the_table t a)) i \<in> cells_of t a ls"
  by (auto simp: table_cells_def)

text \<open>The memory after an entry is taken out and its link set.\<close>

lemma unlinked:
  assumes w: "weak_table t a ls" and i: "i < 2 ^ ht_log_size (the_table t a)" and ls: "ls i = ys @ z # zs"
  defines "u \<equiv> unlink t (word_of_nat i) (last (0 # ys)) (load (z + 8) a) (store (link_of a z) 0 a)"
  shows "links_ok t (add_entries t (- 1) u) (ls(i := ys @ zs))" "ents t a (ls(i := ys @ zs)) = ents t a ls - {z}" "z \<in> ents t a ls"
    "c \<notin> cells_of t a ls \<Longrightarrow> gc_mem (the_gc u) c = (if c = link_of a z then 0 else gc_mem (the_gc a) c)"
    "p \<in> ents t a ls \<Longrightarrow> gc_mem (the_gc u) p = gc_mem (the_gc a) p \<and> gc_mem (the_gc u) (p + 16) = gc_mem (the_gc a) (p + 16)"
proof -
  let ?a1 = "store (link_of a z) 0 a" and ?k = "ht_log_size (the_table t a)" and ?hd = "ht_head (the_table t a)"
  let ?idx = "index_of t (link_of a z) ?a1" and ?w = "link_cell (bucket_cell ?hd i) ys"
  note ok = weak_tableD(1) [OF w]
  note tab = table_of_links [OF ok]
  show z: "z \<in> ents t a ls" using ls by (intro entries_ofI [where ls = ls, OF i]) simp
  have mem1: "gc_mem (the_gc ?a1) c = gc_mem (the_gc a) c" if "c \<in> cells_of t a ls" for c
    using that weak_tableD(5) [OF w z] by auto
  have ok1: "links_ok t ?a1 ls" using links_cong(1) [OF ok _ mem1] by simp
  have z1: "gc_mem (the_gc ?a1) z = NOT (link_of a z)" "load (z + 8) ?a1 = load (z + 8) a"
    using mem1 [OF entry_cells [OF z]] by (simp_all add: load_def)
  have ui: "unat ?idx = i" using table_okD(5) [OF tab i, of z] ls by (simp add: index_of_def)
  then have idx: "word_of_nat i = ?idx" "ls (unat ?idx) = ys @ z # zs" using ls by auto
  note s = unlink_spec [OF ok1 idx(2) z1(1), unfolded z1(2), folded idx(1), folded u_def]
  show "links_ok t (add_entries t (- 1) u) (ls(i := ys @ zs))" using s(1) unfolding ui idx(1) by simp
  show "ents t a (ls(i := ys @ zs)) = ents t a ls - {z}" using s(4) unfolding ui idx(1) by simp
  have "path (gc_mem (the_gc a)) (gc_mem (the_gc a) (bucket_cell ?hd i)) (ys @ z # zs) 0" using table_okD(3) [OF tab i] ls by simp
  from unlink_eq [OF this] have mem_u: "gc_mem (the_gc u) c = gc_mem (the_gc ?a1) c" if "c \<noteq> ?w" for c
    using that ui unfolding u_def idx(1) by simp
  have ws: "?w \<in> bucket_cell ?hd ` {..< 2 ^ ?k} \<or> (\<exists>y \<in> ents t a ls. ?w = y + 8)"
    using i ls entries_ofI [where ls = ls, OF i, of "last ys"] by (auto simp: link_cell_def)
  then have wc: "?w \<in> cells_of t a ls" using entry_cells [OF _ cells_self(2)] unfolding table_cells_def by fastforce
  show "gc_mem (the_gc u) c = (if c = link_of a z then 0 else gc_mem (the_gc a) c)" if "c \<notin> cells_of t a ls"
  proof -
    have "c \<noteq> ?w" using that wc by blast
    then show ?thesis using mem_u [of c] by simp
  qed
  show "gc_mem (the_gc u) p = gc_mem (the_gc a) p \<and> gc_mem (the_gc u) (p + 16) = gc_mem (the_gc a) (p + 16)" if p: "p \<in> ents t a ls"
    using mem_u pointer_cell [OF tab ws p] mem1 [OF entry_cells [OF p]] by simp
qed

lemma drop_entry:
  assumes w: "weak_table t a ls" and i: "i < 2 ^ ht_log_size (the_table t a)" and ls: "ls i = ys @ z # zs"
  shows "\<exists>a2. run_gc (GC_clear_mark_bit z) (unlink t (word_of_nat i) (last (0 # ys)) (load (z + 8) a) (store (link_of a z) 0 a)) = Inr a2 \<and>
    dropped t {z} a ls (add_entries t (- 1) a2) (ls(i := ys @ zs))"
proof -
  define u where "u = unlink t (word_of_nat i) (last (0 # ys)) (load (z + 8) a) (store (link_of a z) 0 a)"
  let ?ls = "ls(i := ys @ zs)" and ?E = "ents t a ls"
  note us = unlinked [OF w i ls, folded u_def] and d = weak_tableD [OF w]
  have tu: "the_table t u = the_table t a" by (simp add: u_def)
  have "same_headers (the_gc a) (the_gc u)"
    unfolding u_def by (rule same_headers_trans [of _ "the_gc (store (link_of a z) 0 a)"]) simp_all
  note h = same_headers [OF this]
  have "sound_index (the_gc u)" "markable (the_gc u) z" using d(2,3) us(3) unfolding h by simp_all
  from clear_mark_bit_spec [OF this] obtain g' where g': "GC_clear_mark_bit z (the_gc u) = Inr g'" "sound_index g'"
      "gc_mem g' = gc_mem (the_gc u)" "entry_of g' = entry_of (the_gc a)"
      "\<And>q. markable (the_gc a) q \<Longrightarrow> markable g' q"
      "\<And>q. markable (the_gc a) q \<Longrightarrow> place (the_gc a) q \<noteq> place (the_gc a) z \<Longrightarrow> is_marked g' q = is_marked (the_gc a) q"
    unfolding h by blast
  let ?a2 = "on_gc (\<lambda>_. g') u" and ?a = "add_entries t (- 1) (on_gc (\<lambda>_. g') u)"
  have run: "run_gc (GC_clear_mark_bit z) u = Inr ?a2" using g'(1) by (rule run_gc_Inr)
  have gc: "the_gc ?a2 = g'" "the_gc ?a = g'" by (simp_all add: on_gc_def on_marker_def add_entries_def on_table_def Let_def split: which_table.split)
  have tab: "the_table t ?a = the_table t (add_entries t (- 1) u)" "ht_head (the_table t ?a) = ht_head (the_table t a)"
    "ht_log_size (the_table t ?a) = ht_log_size (the_table t a)" by (simp_all add: tu)
  have mem: "gc_mem (the_gc ?a) c = gc_mem (the_gc u) c" for c using gc(2) g'(3) by simp
  have E: "ents t ?a ?ls = ?E - {z}" using us(2) unfolding tab(3) .
  have keep: "obj_of ?a p = obj_of a p" "link_of ?a p = link_of a p" if "p \<in> ?E" for p
    unfolding mem using us(5) [OF that] by (simp_all only:)
  have sub: "cells_of t ?a ?ls \<subseteq> cells_of t a ls" using us(2) unfolding tab(2,3) table_cells_def by blast
  have pl: "place (the_gc ?a) = place (the_gc a)" using g'(4) gc(2) by (simp add: place_def fun_eq_iff)
  have "gc_mem (the_gc ?a) = gc_mem (the_gc (add_entries t (- 1) u))" using mem by (simp add: fun_eq_iff)
  then have lo: "links_ok t ?a ?ls" using us(1) tab(1) by (simp only: links_ok_def)
  have "weak_table t ?a ?ls"
    unfolding weak_table_def
  proof (intro conjI ballI)
    show "links_ok t ?a ?ls" by (rule lo)
    show "sound_index (the_gc ?a)" using g'(2) gc(2) by simp
    fix p assume "p \<in> ents t ?a ?ls"
    then have p: "p \<in> ?E" using E by blast
    show "markable (the_gc ?a) p" "markable (the_gc ?a) (obj_of ?a p)" using g'(5) d(3,4) [OF p] keep(1) [OF p] gc(2) by simp_all
    show "link_of ?a p \<notin> cells_of t ?a ?ls" using d(5) [OF p] sub keep(2) [OF p] by auto
    fix q assume "q \<in> ents t ?a ?ls"
    then have "q \<in> ?E" using E by blast
    from d(6) [OF p this] show "place (the_gc ?a) (obj_of ?a p) \<noteq> place (the_gc ?a) q" unfolding pl keep(1) [OF p] .
  qed
  moreover have "gc_mem (the_gc ?a) c = (if c \<in> link_of a ` {z} then 0 else gc_mem (the_gc a) c)" if "c \<notin> cells_of t a ls" for c
    unfolding mem us(4) [OF that] by simp
  moreover have "markable (the_gc ?a) q \<and> (place (the_gc a) q \<notin> place (the_gc a) ` ?E \<longrightarrow> is_marked (the_gc ?a) q = is_marked (the_gc a) q)"
    if "markable (the_gc a) q" for q
    using g'(5,6) [OF that] us(3) gc(2) by auto
  moreover have "gc_mem (the_gc ?a) p = gc_mem (the_gc a) p \<and> gc_mem (the_gc ?a) (p + 16) = gc_mem (the_gc a) (p + 16)" if "p \<in> ?E - {z}" for p
    unfolding mem using that by (intro us(5)) blast
  moreover have "{z} \<subseteq> ?E" "entry_of (the_gc ?a) = entry_of (the_gc a)" using us(3) g'(4) gc(2) by simp_all
  ultimately have "dropped t {z} a ls ?a ?ls" using E tab(2,3) by (intro droppedI)
  then show ?thesis using run unfolding u_def by blast
qed


section \<open>A pass over a table\<close>

lemma path_start: "path m p xs q \<Longrightarrow> p = hd (xs @ [q])"
  by (cases xs) auto

abbreviation (input) kept :: "allocator \<Rightarrow> u64 \<Rightarrow> bool" where
  "kept a p \<equiv> is_marked (the_gc a) (obj_of a p)"

text \<open>What happens to one entry does not change whether another one is kept.\<close>

lemma dropped_kept:
  assumes w: "weak_table t a ls" and d: "dropped t D a ls a' ls'" and p: "p \<in> ents t a ls" "p \<notin> D"
  shows "kept a' p = kept a p" "link_of a' p = link_of a p" "obj_of a' p = obj_of a p"
proof -
  show o: "obj_of a' p = obj_of a p" "link_of a' p = link_of a p" using droppedD(6,7) [OF d p] by simp_all
  have "place (the_gc a) (obj_of a p) \<notin> place (the_gc a) ` ents t a ls" using weak_tableD(6) [OF w p(1)] by blast
  then show "kept a' p = kept a p" using droppedD(11) [OF d weak_tableD(4) [OF w p(1)]] o(1) by simp
qed

lemma disappear_chain_spec:
  assumes "weak_table t a ls" "i < 2 ^ ht_log_size (the_table t a)" "ls i = ys @ xs" "length xs < n"
  shows "\<exists>a'. disappear_chain n t False (word_of_nat i) (last (0 # ys)) (hd (xs @ [0])) a = Inr a' \<and>
    dropped t {p \<in> set xs. \<not> kept a p} a ls a' (ls(i := ys @ List.filter (\<lambda>p. kept a p) xs))"
  using assms
proof (induction n arbitrary: a ls ys xs)
  case 0
  then show ?case by simp
next
  case (Suc n)
  note w = Suc.prems(1) and i = Suc.prems(2)
  note tab = table_of_links [OF weak_tableD(1) [OF w]]
  have path: "path (gc_mem (the_gc a)) (gc_mem (the_gc a) (bucket_cell (ht_head (the_table t a)) i)) (ys @ xs) 0"
    and dist: "distinct (ys @ xs)"
    using table_okD(3,4) [OF tab i] Suc.prems(3) by (auto simp: distinct_map)
  show ?case
  proof (cases xs)
    case Nil
    then have "ls(i := ys) = ls" using Suc.prems(3) by auto
    then show ?thesis using Nil dropped_refl [OF w] by simp
  next
    case (Cons z zs)
    have z: "z \<noteq> 0" "load (z + 8) a = hd (zs @ [0])" using path Cons path_start by (auto simp: path_append load_def)
    have zE: "z \<in> ents t a ls" using Suc.prems(3) Cons by (intro entries_ofI [where ls = ls, OF i]) simp
    have stays: "link_stays False z a = Inr (kept a z)"
      using is_marked_iff(1) [OF weak_tableD(2) [OF w] weak_tableD(4) [OF w zE]]
      by (simp add: link_stays_def load_def GC_REVEAL_POINTER_def GC_HIDE_POINTER_def)
    show ?thesis
    proof (cases "kept a z")
      case True
      have "\<exists>a'. disappear_chain n t False (word_of_nat i) z (hd (zs @ [0])) a = Inr a' \<and>
        dropped t {p \<in> set zs. \<not> kept a p} a ls a' (ls(i := ys @ z # List.filter (\<lambda>p. kept a p) zs))"
      proof -
        have "ls i = (ys @ [z]) @ zs" "length zs < n" using Suc.prems(3,4) Cons by simp_all
        from Suc.IH [OF w i this] show ?thesis by (simp del: fun_upd_apply)
      qed
      moreover have "{p \<in> set xs. \<not> kept a p} = {p \<in> set zs. \<not> kept a p}" using Cons True by auto
      ultimately show ?thesis using Cons z stays True by (simp add: Let_def del: fun_upd_apply)
    next
      case False
      have ls: "ls i = ys @ z # zs" using Suc.prems(3) Cons by simp
      obtain a2 where a2: "run_gc (GC_clear_mark_bit z) (unlink t (word_of_nat i) (last (0 # ys)) (load (z + 8) a) (store (link_of a z) 0 a)) = Inr a2"
        and d: "dropped t {z} a ls (add_entries t (- 1) a2) (ls(i := ys @ zs))"
        using drop_entry [OF w i ls] by blast
      let ?b = "add_entries t (- 1) a2" and ?ls = "ls(i := ys @ zs)"
      have kept: "kept ?b p = kept a p" if "p \<in> set zs" for p
      proof (rule dropped_kept(1) [OF w d])
        show "p \<in> ents t a ls" using that ls by (intro entries_ofI [where ls = ls, OF i]) simp
        show "p \<notin> {z}" using that dist Cons by auto
      qed
      have "i < 2 ^ ht_log_size (the_table t ?b)" using i droppedD(5) [OF d] by simp
      moreover have "?ls i = ys @ zs" "length zs < n" using Suc.prems(4) Cons by simp_all
      ultimately obtain a' where
        a': "disappear_chain n t False (word_of_nat i) (last (0 # ys)) (hd (zs @ [0])) ?b = Inr a'"
        and d': "dropped t {p \<in> set zs. \<not> kept ?b p} ?b ?ls a' (?ls(i := ys @ List.filter (\<lambda>p. kept ?b p) zs))"
        using Suc.IH [OF droppedD(1) [OF d]] by blast
      have "{z} \<union> {p \<in> set zs. \<not> kept ?b p} = {p \<in> set xs. \<not> kept a p}" using kept False Cons by auto
      moreover have "List.filter (\<lambda>p. kept ?b p) zs = List.filter (\<lambda>p. kept a p) xs" using kept False Cons by (auto intro: filter_cong)
      ultimately have "dropped t {p \<in> set xs. \<not> kept a p} a ls a' (ls(i := ys @ List.filter (\<lambda>p. kept a p) xs))"
        using dropped_trans [OF d d'] unfolding fun_upd_upd by simp
      moreover have "disappear_chain (Suc n) t False (word_of_nat i) (last (0 # ys)) (hd (xs @ [0])) a = Inr a'"
        using z(1) Cons stays False a2 a' unfolding z(2) [symmetric]
        by (simp add: Let_def load_def GC_REVEAL_POINTER_def GC_HIDE_POINTER_def)
      ultimately show ?thesis by blast
    qed
  qed
qed


lemma disappear_buckets:
  assumes "weak_table t a ls" "distinct js" "\<And>j. j \<in> set js \<Longrightarrow> j < 2 ^ ht_log_size (the_table t a) \<and> length (ls j) < rt_rounds rt"
  shows "\<exists>a' ls'. for_each (\<lambda>j a. disappear_chain (rt_rounds rt) t False (word_of_nat j) 0 (load (bucket t (word_of_nat j) a) a) a) js a = Inr a' \<and>
    dropped t {p. (\<exists>j \<in> set js. p \<in> set (ls j)) \<and> \<not> kept a p} a ls a' ls'"
  using assms
proof (induction js arbitrary: a ls)
  case Nil
  then show ?case using dropped_refl [OF Nil(1)] by auto
next
  case (Cons j js)
  note w = Cons.prems(1)
  have j: "j < 2 ^ ht_log_size (the_table t a)" "length (ls j) < rt_rounds rt" using Cons.prems(3) by auto
  note tab = table_of_links [OF weak_tableD(1) [OF w]]
  have "(2 :: nat) ^ ht_log_size (the_table t a) \<le> 2 ^ 60" using table_okD(2) [OF tab] by (intro power_increasing) simp_all
  then have uj: "unat (word_of_nat j :: u64) = j" using j(1) by (simp add: unat_of_nat)
  have "load (bucket t (word_of_nat j) a) a = hd (ls j @ [0])"
    using path_start [OF table_okD(3) [OF tab j(1)]] unfolding bucket_eq uj load_def .
  then obtain a1 where a1: "disappear_chain (rt_rounds rt) t False (word_of_nat j) 0 (load (bucket t (word_of_nat j) a) a) a = Inr a1"
    and d: "dropped t {p \<in> set (ls j). \<not> kept a p} a ls a1 (ls(j := List.filter (\<lambda>p. kept a p) (ls j)))"
    using disappear_chain_spec [OF w j(1), of "[]" "ls j"] j(2) by auto
  let ?D = "{p \<in> set (ls j). \<not> kept a p}" and ?ls = "ls(j := List.filter (\<lambda>p. kept a p) (ls j))"
  have js: "?ls i = ls i" "i < 2 ^ ht_log_size (the_table t a1)" "length (?ls i) < rt_rounds rt" if "i \<in> set js" for i
    using that Cons.prems(2,3) droppedD(5) [OF d] by auto
  have "kept a1 p = kept a p" if "i \<in> set js" "p \<in> set (ls i)" for i p
  proof (rule dropped_kept(1) [OF w d])
    have i: "i < 2 ^ ht_log_size (the_table t a)" "i \<noteq> j" using that(1) Cons.prems(2,3) by auto
    show "p \<in> ents t a ls" using that(2) by (rule entries_ofI [where ls = ls, OF i(1)])
    have "p \<notin> set (ls j)" using table_okD(5) [OF tab i(1) that(2)] table_okD(5) [OF tab j(1)] i(2) by auto
    then show "p \<notin> ?D" by simp
  qed
  then have D: "?D \<union> {p. (\<exists>i \<in> set js. p \<in> set (?ls i)) \<and> \<not> kept a1 p} = {p. (\<exists>i \<in> set (j # js). p \<in> set (ls i)) \<and> \<not> kept a p}"
    using js(1) by auto
  have "distinct js" using Cons.prems(2) by simp
  from Cons.IH [OF droppedD(1) [OF d] this] js obtain a' ls' where
    "for_each (\<lambda>j a. disappear_chain (rt_rounds rt) t False (word_of_nat j) 0 (load (bucket t (word_of_nat j) a) a) a) js a1 = Inr a'"
    "dropped t {p. (\<exists>i \<in> set js. p \<in> set (?ls i)) \<and> \<not> kept a1 p} a1 ?ls a' ls'" by blast
  then show ?case using a1 dropped_trans [OF d] unfolding D [symmetric] by fastforce
qed

text \<open>The links that are left, as a set.\<close>

lemma links_dropped:
  assumes w: "weak_table t a ls" and d: "dropped t {p \<in> ents t a ls. \<not> kept a p} a ls a' ls'"
  shows "links t a' ls' = {(l, x) \<in> links t a ls. is_marked (the_gc a) x}"
proof -
  have "ents t a' ls' = {p \<in> ents t a ls. kept a p}" using droppedD(3) [OF d] by auto
  moreover have "link_of a' p = link_of a p" "obj_of a' p = obj_of a p" if "p \<in> ents t a ls" "kept a p" for p
    using dropped_kept(2,3) [OF w d that(1)] that(2) by simp_all
  ultimately show ?thesis unfolding links_def registered_def by (force simp: image_iff)
qed

text \<open>C29: The pass over a table of weak references after marking ends; exactly the links to unmarked
  objects are set to NULL, and no other word outside the table changes. The table stays well-formed and
  stands for the links to marked objects.\<close>

theorem disappearing_links_disappear:
  assumes w: "weak_table t a ls" and n: "short_chains (rt_rounds rt) t a ls"
  shows "\<exists>a' ls'. GC_make_disappearing_links_disappear rt t False a = Inr a' \<and> weak_table t a' ls' \<and>
    links t a' ls' = {(l, x) \<in> links t a ls. is_marked (the_gc a) x} \<and>
    (\<forall>c. c \<notin> cells_of t a ls \<longrightarrow>
       gc_mem (the_gc a') c = (if \<exists>x. (c, x) \<in> links t a ls \<and> \<not> is_marked (the_gc a) x then 0 else gc_mem (the_gc a) c))"
proof -
  let ?k = "ht_log_size (the_table t a)" and ?D = "{p \<in> ents t a ls. \<not> kept a p}"
  have "table_size t a = 2 ^ ?k" using links_ok_head [OF weak_tableD(1) [OF w]] by (simp add: table_size_def)
  moreover have "j < 2 ^ ?k \<and> length (ls j) < rt_rounds rt" if "j \<in> set [0 ..< 2 ^ ?k]" for j using that n by (simp add: short_chains_def)
  moreover have "{p. (\<exists>j \<in> set [0 ..< 2 ^ ?k]. p \<in> set (ls j)) \<and> \<not> kept a p} = ?D" by (auto simp: entries_of_def)
  ultimately obtain a' ls' where a': "GC_make_disappearing_links_disappear rt t False a = Inr a'" "dropped t ?D a ls a' ls'"
    using disappear_buckets [OF w distinct_upt, of 0 "2 ^ ?k" rt]
    unfolding GC_make_disappearing_links_disappear_def for_each_chain_def by auto
  have "c \<in> link_of a ` ?D \<longleftrightarrow> (\<exists>x. (c, x) \<in> links t a ls \<and> \<not> is_marked (the_gc a) x)" for c
    by (auto simp: links_def registered_def image_iff)
  then show ?thesis using a' links_dropped [OF w a'(2)] droppedD(1,8) [OF a'(2)] by (intro exI [of _ a'] exI [of _ ls']) simp
qed


section \<open>The example\<close>

lemma two_links_headers:
  "gc_hdrs (the_gc two_links) = [block_header\<lparr>hb_marks := [1, 0, 0, 0, 1]\<rparr>]"
  "bottom_indices (the_gc two_links) = bottom_indices (mk_gc two_objects)" "GC_top_index (the_gc two_links) = GC_top_index (mk_gc two_objects)"
  by (simp_all add: two_links_def two_objects_allocator_def)

lemma two_links_place:
  "sound_index (the_gc two_links)" "entry_of (the_gc two_links) p = (if drop_bit 12 p = 16 then 4096 else 0)"
  "drop_bit 12 p = 16 \<Longrightarrow> markable (the_gc two_links) p"
  "drop_bit 12 p = 16 \<Longrightarrow> place (the_gc two_links) p = (4096, MARK_BIT_NO (p - 0x10000))"
proof -
  note h = two_links_headers
  have "length (gc_hdrs (mk_gc two_objects)) = 1" by (simp add: two_objects_def)
  then show "sound_index (the_gc two_links)" using two_objects_index h by (simp add: sound_index_def)
  have "entry_of (the_gc two_links) p = entry_of (mk_gc two_objects) p"
    using h HDR_cong [of "the_gc two_links" "mk_gc two_objects"] by (simp add: entry_of_def)
  then show e: "entry_of (the_gc two_links) p = (if drop_bit 12 p = 16 then 4096 else 0)" by (simp add: two_objects_entry)
  assume p: "drop_bit 12 p = 16"
  show "markable (the_gc two_links) p"
    using e p by (simp add: markable_def in_use_def header_at_def h(1) [unfolded two_objects_header] HBLK_IS_FREE_def zero_hdr_def FREE_BLK_def)
  have "HBLKPTR p = 0x10000" using and_not_mask [of p 12] p by (simp add: HBLKPTR_def mask_eq_exp_minus_1)
  then show "place (the_gc two_links) p = (4096, MARK_BIT_NO (p - 0x10000))" using e p by (simp add: place_def)
qed

lemma two_links_weak: "weak_table Dl_Table two_links two_entries"
proof -
  have m: "ents Dl_Table two_links two_entries = {0x10020, 0x10040}" by (simp add: two_links_table two_entries_of)
  have "obj_of two_links p = (if p = 0x10020 then 0x10000 else 0x10010)" "link_of two_links p = (if p = 0x10020 then 0x30008 else 0x30010)"
    if "p = 0x10020 \<or> p = 0x10040" for p using that by (auto simp: two_links_mem)
  then show ?thesis
    unfolding weak_table_def m two_links_cells using two_links_ok two_links_place(1)
    by (auto simp: two_links_place(3,4) MARK_BIT_NO_def BYTES_TO_GRANULES_def)
qed

lemma two_links_marks: "is_marked (the_gc two_links) 0x10000" "\<not> is_marked (the_gc two_links) 0x10010"
proof -
  have m: "hb_marks (header_at (the_gc two_links) 4096) = [1, 0, 0, 0, 1]" by (simp add: two_links_headers header_at_def)
  show "is_marked (the_gc two_links) 0x10000" "\<not> is_marked (the_gc two_links) 0x10010"
    using is_marked_iff(2) [OF two_links_place(1,3), of "0x10000"] is_marked_iff(2) [OF two_links_place(1,3), of "0x10010"]
    by (simp_all add: two_links_place(4) m MARK_BIT_NO_def BYTES_TO_GRANULES_def)
qed

lemma disappearing_links_disappear_witness:
  "\<exists>a' ls'. GC_make_disappearing_links_disappear quiet_runtime Dl_Table False two_links = Inr a' \<and>
    links Dl_Table a' ls' = {(0x30008, 0x10000)} \<and> gc_mem (the_gc a') 0x30010 = 0 \<and> gc_mem (the_gc a') 0x30008 = 0x10000"
proof -
  obtain a' ls' where a': "GC_make_disappearing_links_disappear quiet_runtime Dl_Table False two_links = Inr a'"
    "links Dl_Table a' ls' = {(l, x) \<in> links Dl_Table two_links two_entries. is_marked (the_gc two_links) x}"
    "\<And>c. c \<notin> cells_of Dl_Table two_links two_entries \<Longrightarrow> gc_mem (the_gc a') c =
       (if \<exists>x. (c, x) \<in> links Dl_Table two_links two_entries \<and> \<not> is_marked (the_gc two_links) x then 0 else gc_mem (the_gc two_links) c)"
    using disappearing_links_disappear [OF two_links_weak two_links_short] by blast
  have "links Dl_Table a' ls' = {(0x30008, 0x10000)}" using a'(2) two_links_marks unfolding two_links_links by auto
  moreover have "gc_mem (the_gc a') 0x30010 = 0" using a'(3) [of "0x30010"] two_links_marks unfolding two_links_links two_links_cells by auto
  moreover have "gc_mem (the_gc a') 0x30008 = 0x10000"
    using a'(3) [of "0x30008"] two_links_marks unfolding two_links_links two_links_cells two_links_mem by auto
  ultimately show ?thesis using a'(1) by blast
qed

end
