(* ===== verification/Atomix_GC_Mallocx.thy ===== *)
theory Atomix_GC_Mallocx
  imports Atomix_GC_Malloc
begin

unbundle bit_operations_syntax

text \<open>
  The other operations of the allocator, \<open>mallocx.c\<close>: reallocation, large objects with pointers to
  their beginning only, lists of objects, aligned objects and copies of strings. Memory is made of
  words; single bytes are those of a little-endian machine. The function for running out of memory is
  the default one, which returns NULL.
\<close>

section \<open>Bytes\<close>

definition byte_at :: "mem \<Rightarrow> u64 \<Rightarrow> u8" where
  "byte_at m p = ucast (drop_bit (8 * unat (p AND 7)) (m (p AND NOT 7)))"

definition put_byte :: "u64 \<Rightarrow> u8 \<Rightarrow> mem \<Rightarrow> mem" where
  "put_byte p b m =
     (let w = p AND NOT 7; s = 8 * unat (p AND 7) in m(w := (m w AND NOT (push_bit s 255)) OR push_bit s (ucast b)))"

definition zero_bytes :: "u64 \<Rightarrow> nat \<Rightarrow> mem \<Rightarrow> mem" where
  "zero_bytes p n m = fold (\<lambda>i. put_byte (p + word_of_nat i) 0) [0 ..< n] m"

definition BCOPY :: "u64 \<Rightarrow> u64 \<Rightarrow> nat \<Rightarrow> mem \<Rightarrow> mem" where
  "BCOPY from to n m = fold (\<lambda>i. put_byte (to + word_of_nat i) (byte_at m (from + word_of_nat i))) [0 ..< n] m"

definition on_mem :: "(mem \<Rightarrow> mem) \<Rightarrow> allocator \<Rightarrow> allocator" where
  "on_mem f = on_gc (\<lambda>g. g\<lparr>gc_mem := f (gc_mem g)\<rparr>)"

section \<open>Reallocation\<close>

definition GC_get_kind_and_size :: "u64 \<Rightarrow> gc \<Rightarrow> (u8 \<times> u64) res" where
  "GC_get_kind_and_size p g = andThen (hdr_of p g) (\<lambda>hhdr. Inr (hb_obj_kind hhdr, hb_sz hhdr))"

definition GC_generic_or_special_malloc :: "runtime \<Rightarrow> u64 \<Rightarrow> u8 \<Rightarrow> allocator \<Rightarrow> (u64 \<times> allocator) res" where
  "GC_generic_or_special_malloc rt lb knd =
     (if knd = PTRFREE \<or> knd = 1 then GC_malloc_kind_global rt lb knd
      else if IS_UNCOLLECTABLE knd then GC_generic_malloc_uncollectable rt lb knd
      else GC_generic_malloc rt lb knd)"

text \<open>The size of a large object is rounded up to whole blocks, which the object has anyway.\<close>

definition grow_to_blocks :: "u64 \<Rightarrow> hdr \<Rightarrow> gc \<Rightarrow> (u64 \<times> gc) res" where
  "grow_to_blocks h hhdr g =
     (let orig_sz = hb_sz hhdr; knd = hb_obj_kind hhdr
      in if orig_sz \<le> MAXOBJBYTES then Inr (orig_sz, g)
         else
           andThen (read_at (GC_obj_kinds g) (ucast knd)) (\<lambda>ok.
             let sz = (orig_sz + HBLKSIZE - 1) AND NOT (HBLKSIZE - 1);
                 descr = (if ok_relocate_descr ok then ok_descriptor ok + sz else ok_descriptor ok)
             in andThen (mod_hdr_of h (\<lambda>x. x\<lparr>hb_sz := sz, hb_descr := descr\<rparr>) g) (\<lambda>g1.
                  Inr (sz,
                    if IS_UNCOLLECTABLE knd then g1\<lparr>GC_non_gc_bytes := GC_non_gc_bytes g1 + (sz - orig_sz)\<rparr> else g1))))"

text \<open>A new object with the first \<open>n\<close> bytes of the old one, which is freed.\<close>

definition move_object :: "runtime \<Rightarrow> u64 \<Rightarrow> u64 \<Rightarrow> u64 \<Rightarrow> u8 \<Rightarrow> allocator \<Rightarrow> (u64 \<times> allocator) res" where
  "move_object rt p n lb knd a =
     andThen (GC_generic_or_special_malloc rt lb knd a) (\<lambda>(result, a1).
       if result = 0 then Inr (0, a1)
       else andThen (run_gc (GC_free p) (on_mem (BCOPY p result (unat n)) a1)) (\<lambda>a2. Inr (result, a2)))"

definition GC_realloc :: "runtime \<Rightarrow> u64 \<Rightarrow> u64 \<Rightarrow> allocator \<Rightarrow> (u64 \<times> allocator) res" where
  "GC_realloc rt p lb a =
     (if p = 0 then GC_malloc rt lb a
      else if lb = 0 then andThen (run_gc (GC_free p) a) (\<lambda>a1. Inr (0, a1))
      else
        andThen (hdr_of (HBLKPTR p) (the_gc a)) (\<lambda>hhdr.
        andThen (run_gc_with (grow_to_blocks (HBLKPTR p) hhdr) a) (\<lambda>(sz, a1).
          let orig_sz = hb_sz hhdr; fits = ADD_SLOP (EXTRA_BYTES (the_gc a1)) lb \<le> sz
          in if fits \<and> drop_bit 1 sz \<le> lb
             then Inr (p, if lb < orig_sz then on_mem (zero_bytes (p + lb) (unat (orig_sz - lb))) a1 else a1)
             else move_object rt p (if fits then lb else sz) lb (hb_obj_kind hhdr) a1)))"

section \<open>Large objects\<close>

definition GC_generic_malloc_ignore_off_page :: "runtime \<Rightarrow> u64 \<Rightarrow> u8 \<Rightarrow> allocator \<Rightarrow> (u64 \<times> allocator) res" where
  "GC_generic_malloc_ignore_off_page rt lb k a =
     (let extra = EXTRA_BYTES (the_gc a)
      in if SMALL_OBJ extra lb then GC_generic_malloc rt lb k a
         else
           let lb_rounded = GRANULES_TO_BYTES (ROUNDED_UP_GRANULES extra lb); n_blocks = OBJ_SZ_TO_BLOCKS lb_rounded
           in andThen (kind_init k (the_gc a)) (\<lambda>init.
              andThen (GC_alloc_large rt (ADD_SLOP extra lb) k IGNORE_OFF_PAGE a) (\<lambda>(result, a1).
                if result = 0 then Inr (0, a1)
                else
                  let a2 = (if GC_debugging_started (the_gc a1) then on_gc (zero_block result n_blocks) a1 else a1);
                      a3 = on_gc (count_bytes lb_rounded) a2
                  in Inr (result, if init \<and> \<not> GC_debugging_started (the_gc a3) then on_gc (zero_block result n_blocks) a3 else a3))))"

definition GC_malloc_ignore_off_page :: "runtime \<Rightarrow> u64 \<Rightarrow> allocator \<Rightarrow> (u64 \<times> allocator) res" where
  "GC_malloc_ignore_off_page rt lb = GC_generic_malloc_ignore_off_page rt lb 1"

definition GC_malloc_atomic_ignore_off_page :: "runtime \<Rightarrow> u64 \<Rightarrow> allocator \<Rightarrow> (u64 \<times> allocator) res" where
  "GC_malloc_atomic_ignore_off_page rt lb = GC_generic_malloc_ignore_off_page rt lb PTRFREE"

definition GC_incr_bytes_allocd :: "u64 \<Rightarrow> gc \<Rightarrow> gc" where
  "GC_incr_bytes_allocd n g = g\<lparr>GC_bytes_allocd := GC_bytes_allocd g + n\<rparr>"

definition GC_incr_bytes_freed :: "u64 \<Rightarrow> gc \<Rightarrow> gc" where
  "GC_incr_bytes_freed n g = g\<lparr>GC_bytes_freed := GC_bytes_freed g + n\<rparr>"

definition GC_get_expl_freed_bytes_since_gc :: "gc \<Rightarrow> u64" where
  "GC_get_expl_freed_bytes_since_gc g = GC_bytes_freed g"

section \<open>Lists of objects\<close>

text \<open>The first block on the reclaim list that has free objects, as the list of these objects with
  their bytes.\<close>

primrec reclaim_a_block :: "nat \<Rightarrow> u64 \<Rightarrow> u8 \<Rightarrow> u64 \<Rightarrow> bool \<Rightarrow> gc \<Rightarrow> ((u64 \<times> u64) \<times> gc) res" where
  "reclaim_a_block 0 lb k bytes init g = Inl Diverge"
| "reclaim_a_block (Suc n) lb k bytes init g =
     andThen (kind_reclaim k (BYTES_TO_GRANULES lb) g) (\<lambda>hbp.
       if hbp = 0 then Inr ((0, bytes), g)
       else
         andThen (HDR hbp g) (\<lambda>hhdr.
         andThen (get_hdr hhdr g) (\<lambda>hd.
         andThen (set_kind_reclaim k (BYTES_TO_GRANULES lb) (hb_next hd) g) (\<lambda>g1.
         andThen (mod_hdr hhdr (\<lambda>x. x\<lparr>hb_last_reclaimed := ucast (GC_gc_no g1)\<rparr>) g1) (\<lambda>g2.
         andThen (GC_reclaim_generic hbp hhdr lb init 0 bytes g2) (\<lambda>((op, bytes'), g3).
           if op \<noteq> 0 then Inr ((op, bytes'), g3) else reclaim_a_block n lb k bytes' init g3))))))"

text \<open>The first objects of a free list, up to a block of them; the rest stays on the list.\<close>

primrec take_prefix :: "nat \<Rightarrow> u64 \<Rightarrow> u8 \<Rightarrow> u64 \<Rightarrow> u64 \<Rightarrow> gc \<Rightarrow> (u64 \<times> gc) res" where
  "take_prefix 0 lb k p bytes g = Inl Diverge"
| "take_prefix (Suc n) lb k p bytes g =
     (if p = 0 then Inr (bytes, g)
      else
        let bytes = bytes + lb
        in if HBLKSIZE \<le> bytes
           then andThen (set_kind_freelist k (BYTES_TO_GRANULES lb) (obj_link p g) g) (\<lambda>g1. Inr (bytes, set_obj_link p 0 g1))
           else take_prefix n lb k (obj_link p g) bytes g)"

definition many_from_new_block :: "runtime \<Rightarrow> u64 \<Rightarrow> u8 \<Rightarrow> bool \<Rightarrow> gc \<Rightarrow> (u64 \<times> gc) res" where
  "many_from_new_block rt lb k init g =
     andThen (GC_allochblk (rt_rounds rt) (rt_stack_size rt) lb k 0 g) (\<lambda>(h, g1).
       if h = 0 then Inr (0, g1)
       else
         andThen (if IS_UNCOLLECTABLE k then update_hdr_of h GC_set_hdr_marks g1 else Inr g1) (\<lambda>g2.
           let g3 = g2\<lparr>GC_bytes_allocd := GC_bytes_allocd g2 + (HBLKSIZE - HBLKSIZE mod lb)\<rparr>
           in andThen (GC_build_fl h (drop_bit 3 lb) (init \<or> GC_debugging_started g3) 0 (gc_mem g3)) (\<lambda>(op, m).
                Inr (op, g3\<lparr>gc_mem := m\<rparr>))))"

text \<open>One object, with its link cleared.\<close>

definition unlinked_object :: "(u64 \<times> allocator) res \<Rightarrow> (u64 \<times> allocator) res" where
  "unlinked_object r = andThen r (\<lambda>(op, a). Inr (op, if op \<noteq> 0 then on_gc (set_obj_link op 0) a else a))"

definition many_from_free_list :: "runtime \<Rightarrow> u64 \<Rightarrow> u8 \<Rightarrow> bool \<Rightarrow> allocator \<Rightarrow> (u64 \<times> allocator) res" where
  "many_from_free_list rt lb k init a =
     andThen (kind_freelist k (BYTES_TO_GRANULES lb) (the_gc a)) (\<lambda>op.
       if op \<noteq> 0
       then
         andThen (run_gc (set_kind_freelist k (BYTES_TO_GRANULES lb) 0) a) (\<lambda>a1.
         andThen (run_gc_with (take_prefix 258 lb k op 0) a1) (\<lambda>(bytes, a2).
           Inr (op, on_gc (GC_incr_bytes_allocd bytes) a2)))
       else
         andThen (run_gc_with (many_from_new_block rt lb k init) a) (\<lambda>(op, a1).
           if op \<noteq> 0 then Inr (op, a1)
           else unlinked_object (GC_generic_malloc_inner rt (lb - EXTRA_BYTES (the_gc a1)) k a1)))"

text \<open>\<open>manual_vdb\<close> is the variable \<open>GC_manual_vdb\<close>; the result is the list that \<open>*result\<close> gets.\<close>

definition GC_generic_malloc_many :: "runtime \<Rightarrow> bool \<Rightarrow> u64 \<Rightarrow> u8 \<Rightarrow> allocator \<Rightarrow> (u64 \<times> allocator) res" where
  "GC_generic_malloc_many rt manual_vdb lb k a =
     (if MAXOBJBYTES < lb \<or> manual_vdb
      then unlinked_object (GC_generic_malloc rt (lb - EXTRA_BYTES (the_gc a)) k a)
      else
        andThen
          (if GC_incremental (the_gc a) \<and> \<not> GC_dont_gc (the_gc a) then GC_collect_a_little_inner rt 1 a else Inr a) (\<lambda>a1.
        andThen (read_at (GC_obj_kinds (the_gc a1)) (ucast k)) (\<lambda>ok.
        andThen
          (if ok_reclaim_list ok \<noteq> [] then run_gc_with (reclaim_a_block (Suc (length (gc_hdrs (the_gc a1)))) lb k 0 (ok_init ok)) a1
           else Inr ((0, 0), a1)) (\<lambda>((op, bytes), a2).
          if op \<noteq> 0
          then Inr (op, on_gc (\<lambda>g. g\<lparr>GC_bytes_found := GC_bytes_found g + bytes, GC_bytes_allocd := GC_bytes_allocd g + bytes\<rparr>) a2)
          else many_from_free_list rt lb k (ok_init ok) a2))))"

definition GC_malloc_many :: "runtime \<Rightarrow> bool \<Rightarrow> u64 \<Rightarrow> allocator \<Rightarrow> (u64 \<times> allocator) res" where
  "GC_malloc_many rt manual_vdb lb a =
     GC_generic_malloc_many rt manual_vdb (SIZET_SAT_ADD lb (EXTRA_BYTES (the_gc a) + 16 - 1) AND NOT (16 - 1)) 1 a"

section \<open>Aligned objects\<close>

definition GC_memalign :: "runtime \<Rightarrow> u64 \<Rightarrow> u64 \<Rightarrow> allocator \<Rightarrow> (u64 \<times> allocator) res" where
  "GC_memalign rt align lb a =
     (if align \<le> 16 then GC_malloc rt lb a
      else if HBLKSIZE div 2 \<le> align \<or> HBLKSIZE div 2 \<le> lb
      then if HBLKSIZE < align then Inr (0, a) else GC_malloc rt (if lb \<le> HBLKSIZE then HBLKSIZE else lb) a
      else
        andThen (GC_malloc rt (SIZET_SAT_ADD lb (align - 1)) a) (\<lambda>(result, a1).
          let r = result mod align; offset = (if r = 0 then 0 else align - r)
          in andThen
               (if r \<noteq> 0 \<and> \<not> GC_all_interior_pointers (the_gc a1)
                then lift_collector (lift_marker (GC_register_displacement_inner offset)) a1 else Inr a1)
               (\<lambda>a2. Inr (result + offset, a2))))"

definition EINVAL :: i32 where "EINVAL = 22"
definition ENOMEM :: i32 where "ENOMEM = 12"

text \<open>What is stored through \<open>memptr\<close> is the second part of the result.\<close>

definition GC_posix_memalign :: "runtime \<Rightarrow> u64 \<Rightarrow> u64 \<Rightarrow> allocator \<Rightarrow> ((i32 \<times> u64 option) \<times> allocator) res" where
  "GC_posix_memalign rt align lb a =
     (if align < 8 \<or> (align - 1) AND align \<noteq> 0 then Inr ((EINVAL, None), a)
      else
        andThen (GC_memalign rt align lb a) (\<lambda>(p, a1).
          Inr (if p = 0 then (ENOMEM, None) else (0, Some p), a1)))"

section \<open>Strings\<close>

primrec strlen :: "nat \<Rightarrow> u64 \<Rightarrow> mem \<Rightarrow> u64 res" where
  "strlen 0 s m = Inl Diverge"
| "strlen (Suc n) s m = (if byte_at m s = 0 then Inr 0 else andThen (strlen n (s + 1) m) (\<lambda>l. Inr (l + 1)))"

definition GC_strdup :: "runtime \<Rightarrow> u64 \<Rightarrow> allocator \<Rightarrow> (u64 \<times> allocator) res" where
  "GC_strdup rt s a =
     (if s = 0 then Inr (0, a)
      else
        andThen (strlen (rt_rounds rt) s (gc_mem (the_gc a))) (\<lambda>len.
        andThen (GC_malloc_atomic rt (len + 1) a) (\<lambda>(copy, a1).
          Inr (copy, if copy = 0 then a1 else on_mem (BCOPY s copy (unat (len + 1))) a1))))"

definition GC_strndup :: "runtime \<Rightarrow> u64 \<Rightarrow> u64 \<Rightarrow> allocator \<Rightarrow> (u64 \<times> allocator) res" where
  "GC_strndup rt str n a =
     andThen (if str = 0 then Inl (Fault Null_Deref) else strlen (rt_rounds rt) str (gc_mem (the_gc a))) (\<lambda>l.
       let len = (if n < l then n else l)
       in andThen (GC_malloc_atomic rt (len + 1) a) (\<lambda>(copy, a1).
            Inr (copy, if copy = 0 then a1 else on_mem (put_byte (copy + len) 0 \<circ> BCOPY str copy (unat len)) a1)))"

text \<open>Stubborn objects are ordinary ones.\<close>

definition GC_malloc_stubborn :: "runtime \<Rightarrow> u64 \<Rightarrow> allocator \<Rightarrow> (u64 \<times> allocator) res" where
  "GC_malloc_stubborn = GC_malloc"

definition GC_ptr_store_and_dirty :: "u64 \<Rightarrow> u64 \<Rightarrow> allocator \<Rightarrow> allocator" where
  "GC_ptr_store_and_dirty p q = on_mem (\<lambda>m. m(p := q))"

end
