(* ===== verification/Atomix_GC_Mallocx_Laws.thy ===== *)
theory Atomix_GC_Mallocx_Laws
  imports Atomix_GC_Mallocx Atomix_GC_Malloc_Laws
begin

unbundle bit_operations_syntax

text \<open>
  Bytes written and read back, and what \<open>GC_realloc\<close> does with the contents of an object.
\<close>

section \<open>Bytes\<close>

lemma word_and_rest: "(p AND NOT 7) + (p AND 7) = p" for p :: u64
proof -
  have m: "7 = (mask 3 :: u64)" by (simp add: mask_eq_exp_minus_1)
  show ?thesis unfolding m and_not_mask using bits_ident [of 3 p] by (simp add: take_bit_eq_mask)
qed

lemma and_7_bound: "unat (p AND 7) \<le> 7" for p :: u64
  using word_and_le1 [of p 7] by (simp add: word_le_nat_alt)

lemma byte_at_put_byte: "byte_at (put_byte q b m) p = (if p = q then b else byte_at m p)"
proof (cases "p AND NOT 7 = q AND NOT 7")
  case False
  then have "p \<noteq> q" by auto
  then show ?thesis using False by (simp add: byte_at_def put_byte_def Let_def)
next
  case True
  let ?u = "unat (p AND 7)" and ?v = "unat (q AND 7)" and ?w = "m (q AND NOT 7)"
  have eq: "?u = ?v \<longleftrightarrow> p = q" using True word_and_rest [of p] word_and_rest [of q] by (metis word_unat_eq_iff)
  have byte: "bit (255 :: u64) j \<longleftrightarrow> j < 8" for j
  proof -
    have m: "(255 :: u64) = mask 8" by (simp add: mask_eq_exp_minus_1)
    show ?thesis unfolding m bit_mask_iff by auto
  qed
  note le = and_7_bound [of p] and_7_bound [of q]
  have "bit (drop_bit (8 * ?u) ((?w AND NOT (push_bit (8 * ?v) 255)) OR push_bit (8 * ?v) (ucast b))) i =
      (if ?u = ?v then bit b i else bit (drop_bit (8 * ?u) ?w) i)" if "i < 8" for i
  proof (cases "?u = ?v")
    case True
    then show ?thesis using that le byte [of i] by (auto simp: bit_or_iff bit_and_iff bit_not_iff bit_push_bit_iff bit_drop_bit_eq bit_unsigned_iff byte)
  next
    case False
    have "\<not> (8 * ?v \<le> 8 * ?u + i \<and> 8 * ?u + i - 8 * ?v < 8)" using False that by linarith
    then show ?thesis using False that le byte [of "8 * ?u + i - 8 * ?v"]
      by (auto simp: bit_or_iff bit_and_iff bit_not_iff bit_push_bit_iff bit_drop_bit_eq bit_unsigned_iff byte dest: bit_imp_le_length)
  qed
  then show ?thesis
    unfolding byte_at_def put_byte_def Let_def True fun_upd_same using eq by (intro bit_eqI) (auto simp: bit_simps)
qed


lemma byte_at_zero_bytes: "byte_at (zero_bytes p n m) x = (if \<exists>i < n. x = p + word_of_nat i then 0 else byte_at m x)"
proof (induction n)
  case (Suc n)
  have "zero_bytes p (Suc n) m = put_byte (p + word_of_nat n) 0 (zero_bytes p n m)" by (simp add: zero_bytes_def)
  then show ?case using Suc by (auto simp: byte_at_put_byte less_Suc_eq)
qed (simp add: zero_bytes_def)

lemma byte_at_fold_put:
  "(\<And>i. i < n \<Longrightarrow> x \<noteq> t + word_of_nat i) \<Longrightarrow> byte_at (fold (\<lambda>i. put_byte (t + word_of_nat i) (f i)) [0 ..< n] m) x = byte_at m x"
  by (induction n) (simp_all add: byte_at_put_byte)

lemma byte_at_copied:
  assumes "i < n" "n \<le> 2 ^ 64"
  shows "byte_at (BCOPY f t n m) (t + word_of_nat i) = byte_at m (f + word_of_nat i)"
proof -
  let ?put = "\<lambda>i. put_byte (t + word_of_nat i) (byte_at m (f + word_of_nat i))"
  have "byte_at (fold ?put [0 ..< k] m) (t + word_of_nat i) = byte_at m (f + word_of_nat i)" if "i < k" "k \<le> n" for k
    using that
  proof (induction k)
    case (Suc k)
    have "t + word_of_nat i \<noteq> t + (word_of_nat k :: u64)" if "i < k"
    proof -
      have "k < 2 ^ 64" "i < 2 ^ 64" using Suc.prems(2) assms that by simp_all
      then have "unat (word_of_nat i :: u64) \<noteq> unat (word_of_nat k :: u64)" using that by (simp add: unat_of_nat)
      then show ?thesis by auto
    qed
    then show ?case using Suc by (cases "i = k") (auto simp: byte_at_put_byte)
  qed simp
  then show ?thesis using assms(1) by (simp add: BCOPY_def)
qed

lemma byte_at_not_copied: "(\<And>i. i < n \<Longrightarrow> x \<noteq> t + word_of_nat i) \<Longrightarrow> byte_at (BCOPY f t n m) x = byte_at m x"
  unfolding BCOPY_def by (rule byte_at_fold_put)

text \<open>What bytes of words are not those of \<open>n\<close> words from \<open>p\<close> on.\<close>

lemma byte_of_word:
  fixes x p :: u64
  assumes "x AND NOT 7 = p + 8 * word_of_nat j" "j < n"
  shows "\<exists>i < 8 * n. x = p + word_of_nat i"
proof (intro exI conjI)
  show "8 * j + unat (x AND 7) < 8 * n" using assms(2) and_7_bound [of x] by linarith
  show "x = p + word_of_nat (8 * j + unat (x AND 7))" using word_and_rest [of x] assms(1) by (simp add: add.assoc)
qed

lemma byte_at_cong: "m' (x AND NOT 7) = m (x AND NOT 7) \<Longrightarrow> byte_at m' x = byte_at m x"
  by (simp add: byte_at_def)


section \<open>Reallocation\<close>

lemma free_keeps_bytes:
  assumes p: "p \<noteq> 0" "hdr_of (HBLKPTR p) g = Inr h" "hb_sz h = GRANULES_TO_BYTES lg" "0 < lg" "lg \<le> 128"
    and k: "unat (ucast (hb_obj_kind h) :: u64) < length (GC_obj_kinds g)"
      "length (ok_freelist (GC_obj_kinds g ! unat (ucast (hb_obj_kind h) :: u64))) = 129"
  shows "\<exists>g'. GC_free p g = Inr g' \<and>
    (\<forall>x. (\<forall>j < unat (hb_sz h). x \<noteq> p + word_of_nat j) \<longrightarrow> byte_at (gc_mem g') x = byte_at (gc_mem g) x)"
proof -
  have ulg: "0 < unat lg" "unat lg \<le> 128" using p(4,5) by (simp_all add: word_less_nat_alt word_le_nat_alt unat_gt_0)
  have sz: "unat (hb_sz h) = 16 * unat lg" unfolding p(3) using ulg by (simp add: unat_granules_to_bytes)
  have gran: "BYTES_TO_GRANULES (hb_sz h) = lg" using sz by (simp add: word_unat_eq_iff BYTES_TO_GRANULES_def unat_drop_bit_div)
  let ?n = "unat (hb_sz h - 8) div 8"
  have "unat (hb_sz h - 8) = 16 * unat lg - 8" using sz ulg by (simp add: unat_sub word_le_nat_alt)
  then have n: "Suc ?n = 2 * unat lg" using ulg by simp
  note free = free_small_spec [OF p(1,2) gran p(5) refl k(1) refl k(2)]
  have keep: "byte_at (m(p := y)) x = byte_at (gc_mem g) x"
    if m: "m = gc_mem g \<or> m = BZERO (p + 8) ?n (gc_mem g)" and x: "\<forall>j < unat (hb_sz h). x \<noteq> p + word_of_nat j" for m y x
  proof (rule byte_at_cong)
    have "x AND NOT 7 \<noteq> p + 8 * word_of_nat i" if "i < Suc ?n" for i
      using byte_of_word [of x p i "2 * unat lg"] x that n sz by auto
    then have "\<not> (x AND NOT 7 = p \<or> (\<exists>i < ?n. x AND NOT 7 = p + 8 + 8 * word_of_nat i))" using object_words [of ?n "x AND NOT 7" p] by blast
    then show "(m(p := y)) (x AND NOT 7) = gc_mem g (x AND NOT 7)" using m by (auto simp: BZERO_at)
  qed
  show ?thesis unfolding free by (intro exI conjI allI impI, rule refl) (simp add: keep)
qed

text \<open>An allocation for a move: an object apart from the old one, which is left alone.\<close>

definition allocates_apart :: "runtime \<Rightarrow> u64 \<Rightarrow> hdr \<Rightarrow> u64 \<Rightarrow> allocator \<Rightarrow> u64 \<Rightarrow> bool" where
  "allocates_apart rt p h lb a q \<longleftrightarrow>
     (\<exists>a1 h1. GC_generic_or_special_malloc rt lb (hb_obj_kind h) a = Inr (q, a1) \<and> q \<noteq> 0 \<and>
        hdr_of (HBLKPTR p) (the_gc a1) = Inr h1 \<and> hb_sz h1 = hb_sz h \<and> hb_obj_kind h1 = hb_obj_kind h \<and>
        unat (ucast (hb_obj_kind h) :: u64) < length (GC_obj_kinds (the_gc a1)) \<and>
        length (ok_freelist (GC_obj_kinds (the_gc a1) ! unat (ucast (hb_obj_kind h) :: u64))) = 129 \<and>
        (\<forall>i < unat (hb_sz h). byte_at (gc_mem (the_gc a1)) (p + word_of_nat i) = byte_at (gc_mem (the_gc a)) (p + word_of_nat i)) \<and>
        (\<forall>i < unat lb. \<forall>j < unat (hb_sz h). q + word_of_nat i \<noteq> p + word_of_nat j))"

lemma mem_on_mem [simp]: "gc_mem (the_gc (on_mem f a)) = f (gc_mem (the_gc a))"
  by (simp add: on_mem_def)

lemma hdr_of_on_mem [simp]: "hdr_of p (the_gc (on_mem f a)) = hdr_of p (the_gc a)" "GC_obj_kinds (the_gc (on_mem f a)) = GC_obj_kinds (the_gc a)"
  by (simp_all add: on_mem_def hdr_of_def HDR_def GET_BI_def get_hdr_def)

lemma move_object_spec:
  assumes "p \<noteq> 0" "hb_sz h = GRANULES_TO_BYTES lg" "0 < lg" "lg \<le> 128" "allocates_apart rt p h lb a q" "n \<le> hb_sz h" "n \<le> lb"
  shows "\<exists>a'. move_object rt p n lb (hb_obj_kind h) a = Inr (q, a') \<and>
    (\<forall>i < unat n. byte_at (gc_mem (the_gc a')) (q + word_of_nat i) = byte_at (gc_mem (the_gc a)) (p + word_of_nat i))"
proof -
  obtain a1 h1 where a1: "GC_generic_or_special_malloc rt lb (hb_obj_kind h) a = Inr (q, a1)" "q \<noteq> 0"
    "hdr_of (HBLKPTR p) (the_gc a1) = Inr h1" "hb_sz h1 = hb_sz h" "hb_obj_kind h1 = hb_obj_kind h"
    "unat (ucast (hb_obj_kind h) :: u64) < length (GC_obj_kinds (the_gc a1))"
    "length (ok_freelist (GC_obj_kinds (the_gc a1) ! unat (ucast (hb_obj_kind h) :: u64))) = 129"
    "\<And>i. i < unat (hb_sz h) \<Longrightarrow> byte_at (gc_mem (the_gc a1)) (p + word_of_nat i) = byte_at (gc_mem (the_gc a)) (p + word_of_nat i)"
    "\<And>i j. i < unat lb \<Longrightarrow> j < unat (hb_sz h) \<Longrightarrow> q + word_of_nat i \<noteq> p + word_of_nat j"
    using assms(5) unfolding allocates_apart_def by blast
  let ?b = "on_mem (BCOPY p q (unat n)) a1"
  obtain g' where g': "GC_free p (the_gc ?b) = Inr g'"
    "\<And>x. (\<forall>j < unat (hb_sz h). x \<noteq> p + word_of_nat j) \<Longrightarrow> byte_at (gc_mem g') x = byte_at (gc_mem (the_gc ?b)) x"
    using free_keeps_bytes [OF assms(1), of "the_gc ?b" h1 lg] a1(3-7) assms(2-4) by auto
  have "byte_at (gc_mem g') (q + word_of_nat i) = byte_at (gc_mem (the_gc a)) (p + word_of_nat i)" if "i < unat n" for i
  proof -
    have i: "i < unat lb" "i < unat (hb_sz h)" using that assms(6,7) by (simp_all add: word_le_nat_alt)
    have "unat n < 2 ^ LENGTH(64)" by (rule unsigned_less)
    then have "unat n \<le> 2 ^ 64" by simp
    then have "byte_at (gc_mem (the_gc ?b)) (q + word_of_nat i) = byte_at (gc_mem (the_gc a1)) (p + word_of_nat i)"
      using byte_at_copied [OF that, of p q] by simp
    then show ?thesis using g'(2) a1(8,9) i by simp
  qed
  then show ?thesis using a1(1,2) g'(1) by (simp add: move_object_def run_gc_def lift_collector_def lift_marker_def lift_gc_def)
qed

lemma slop_bounds:
  assumes "e = 0 \<or> e = 1"
  shows "unat (ADD_SLOP e lb) \<le> unat lb + 1 \<and> lb \<le> ADD_SLOP e lb"
proof -
  have m: "(- 1 :: u64) = 18446744073709551615" by simp
  have "unat lb < 2 ^ LENGTH(64)" by (rule unsigned_less)
  then show ?thesis
    using assms unfolding ADD_SLOP_def SIZET_SAT_ADD_def m by (auto simp: word_le_nat_alt word_less_nat_alt unat_word_ariths)
qed

text \<open>C33: Reallocation of a small object, of \<open>hb_sz h\<close> bytes, keeps its contents: the result has the bytes of
  the object up to the smaller of both sizes. When the new size fits and is at least half the old one, it is the
  object itself, with the bytes behind the new size cleared; otherwise it is the object that the
  allocator returns, and the old one is freed.\<close>

theorem realloc_keeps_contents:
  assumes p: "p \<noteq> 0" "lb \<noteq> 0" "hdr_of (HBLKPTR p) (the_gc a) = Inr h" "hb_sz h = GRANULES_TO_BYTES lg" "0 < lg" "lg \<le> 128"
    and q: "\<not> (ADD_SLOP (EXTRA_BYTES (the_gc a)) lb \<le> hb_sz h \<and> drop_bit 1 (hb_sz h) \<le> lb) \<Longrightarrow> allocates_apart rt p h lb a q"
  shows "\<exists>r a'. GC_realloc rt p lb a = Inr (r, a') \<and>
    (\<forall>i. i < unat lb \<and> i < unat (hb_sz h) \<longrightarrow>
       byte_at (gc_mem (the_gc a')) (r + word_of_nat i) = byte_at (gc_mem (the_gc a)) (p + word_of_nat i)) \<and>
    (if ADD_SLOP (EXTRA_BYTES (the_gc a)) lb \<le> hb_sz h \<and> drop_bit 1 (hb_sz h) \<le> lb
     then r = p \<and> (\<forall>i. unat lb \<le> i \<and> i < unat (hb_sz h) \<longrightarrow> byte_at (gc_mem (the_gc a')) (p + word_of_nat i) = 0)
     else r = q)"
proof -
  let ?sz = "hb_sz h" and ?m = "gc_mem (the_gc a)"
  let ?fits = "ADD_SLOP (EXTRA_BYTES (the_gc a)) lb \<le> ?sz"
  have ulg: "0 < unat lg" "unat lg \<le> 128" using p(5,6) by (simp_all add: word_less_nat_alt word_le_nat_alt unat_gt_0)
  have sz: "unat ?sz = 16 * unat lg" unfolding p(4) using ulg by (simp add: unat_granules_to_bytes)
  have run: "GC_realloc rt p lb a =
      (if ?fits \<and> drop_bit 1 ?sz \<le> lb then Inr (p, if lb < ?sz then on_mem (zero_bytes (p + lb) (unat (?sz - lb))) a else a)
       else move_object rt p (if ?fits then lb else ?sz) lb (hb_obj_kind h) a)"
    using p(1-3) sz ulg
    by (simp add: GC_realloc_def grow_to_blocks_def run_gc_with_def on_gc_def on_marker_def word_le_nat_alt Let_def)
  show ?thesis
  proof (cases "?fits \<and> drop_bit 1 ?sz \<le> lb")
    case True
    let ?a = "if lb < ?sz then on_mem (zero_bytes (p + lb) (unat (?sz - lb))) a else a"
    have off: "p + word_of_nat i = p + lb + word_of_nat j \<longleftrightarrow> i = unat lb + j" if "lb < ?sz" "i < unat ?sz" "j < unat (?sz - lb)" for i j
    proof -
      have "unat lb + j < 2 ^ 64" "i < 2 ^ 64" using that sz ulg by (simp_all add: unat_sub word_less_nat_alt word_le_nat_alt)
      moreover have "unat (word_of_nat k :: u64) = k" if "k < 2 ^ 64" for k using that by (simp add: unat_of_nat)
      ultimately have "word_of_nat i = (word_of_nat (unat lb + j) :: u64) \<longleftrightarrow> i = unat lb + j" by metis
      then show ?thesis by (simp add: add.assoc)
    qed
    have "byte_at (gc_mem (the_gc ?a)) (p + word_of_nat i) = byte_at ?m (p + word_of_nat i)" if "i < unat lb" "i < unat ?sz" for i
      using off [OF _ that(2)] that by (auto simp: byte_at_zero_bytes)
    moreover have "byte_at (gc_mem (the_gc ?a)) (p + word_of_nat i) = 0" if "unat lb \<le> i" "i < unat ?sz" for i
    proof -
      have l: "lb < ?sz" using that by (simp add: word_less_nat_alt)
      then have "i - unat lb < unat (?sz - lb)" using that by (simp add: unat_sub word_less_nat_alt word_le_nat_alt)
      then have "\<exists>j < unat (?sz - lb). p + word_of_nat i = p + lb + word_of_nat j" using off [OF l that(2)] that(1) by fastforce
      then show ?thesis using l by (simp add: byte_at_zero_bytes)
    qed
    ultimately show ?thesis using run True by simp
  next
    case False
    let ?n = "if ?fits then lb else ?sz"
    have slop: "unat (ADD_SLOP (EXTRA_BYTES (the_gc a)) lb) \<le> unat lb + 1 \<and> lb \<le> ADD_SLOP (EXTRA_BYTES (the_gc a)) lb"
      by (rule slop_bounds) (simp add: EXTRA_BYTES_def)
    then have n: "?n \<le> ?sz" "?n \<le> lb" "i < unat lb \<and> i < unat ?sz \<longrightarrow> i < unat ?n" for i
      by (auto simp: word_le_nat_alt split: if_splits)
    obtain a' where "move_object rt p ?n lb (hb_obj_kind h) a = Inr (q, a')"
      "\<forall>i < unat ?n. byte_at (gc_mem (the_gc a')) (q + word_of_nat i) = byte_at ?m (p + word_of_nat i)"
      using move_object_spec [OF p(1,4-6) q [OF False] n(1,2)] by blast
    then show ?thesis unfolding run if_not_P [OF False] using n(3) by blast
  qed
qed


text \<open>The first of two objects of 16 bytes grows to 24 bytes and moves to \<open>0x10060\<close>.\<close>

definition growing_object :: allocator where
  "growing_object =
     (on_gc (\<lambda>g. g\<lparr>GC_obj_kinds := [normal_kind, normal_kind\<lparr>ok_freelist := (replicate 129 0)[2 := 0x10060]\<rparr>]\<rparr>) two_normal_objects)
     \<lparr>GC_size_map := (replicate 2049 0)[24 := 2]\<rparr>"

lemma growing_object_header: "hdr_of 0x10000 (the_gc growing_object) = Inr (block_header\<lparr>hb_obj_kind := 1\<rparr>)"
proof -
  have g: "the_gc growing_object = (mk_gc two_objects)\<lparr>gc_hdrs := [block_header\<lparr>hb_obj_kind := 1\<rparr>],
      GC_obj_kinds := [normal_kind, normal_kind\<lparr>ok_freelist := (replicate 129 0)[2 := 0x10060]\<rparr>]\<rparr>"
    by (simp add: growing_object_def two_normal_objects_def two_objects_allocator_def)
  have "HDR 0x10000 (mk_gc two_objects) = Inr 4096" using two_objects_entry [of "0x10000"] HDR_total [OF two_objects_index, of "0x10000"] by (auto simp: entry_of_def)
  then have "HDR 0x10000 (the_gc growing_object) = Inr 4096" by (simp add: g HDR_def GET_BI_def)
  then show ?thesis by (simp add: hdr_of_def g get_hdr_def hdr_index_def deref_def)
qed

lemma growing_object_apart: "allocates_apart quiet_runtime 0x10000 (block_header\<lparr>hb_obj_kind := 1\<rparr>) 24 growing_object 0x10060"
proof -
  let ?kd = "normal_kind\<lparr>ok_freelist := (replicate 129 0)[2 := 0x10060]\<rparr>"
  have "GC_malloc_kind_global quiet_runtime 24 1 growing_object =
    Inr (0x10060, on_gc (\<lambda>g. g\<lparr>
      gc_mem := (gc_mem g)(0x10060 := 0),
      GC_obj_kinds := (GC_obj_kinds g)[1 := ?kd\<lparr>ok_freelist := (ok_freelist ?kd)[2 := gc_mem g 0x10060]\<rparr>],
      GC_bytes_allocd := GC_bytes_allocd g + GRANULES_TO_BYTES 2\<rparr>) growing_object)" (is "_ = Inr (_, ?a1)")
    using malloc_takes_first [of growing_object 24 2 1 ?kd "0x10060" quiet_runtime]
    by (simp add: growing_object_def SMALL_OBJ_def normal_kind_def PTRFREE_def)
  moreover have "hdr_of (HBLKPTR 0x10000) (the_gc ?a1) = Inr (block_header\<lparr>hb_obj_kind := 1\<rparr>)"
    using growing_object_header by (simp add: HBLKPTR_def hdr_of_def HDR_def GET_BI_def get_hdr_def)
  moreover have small: "unat (word_of_nat i :: u64) = i" if "i < 24" for i using that by (simp add: unat_of_nat)
  moreover have "byte_at (gc_mem (the_gc ?a1)) (0x10000 + word_of_nat i) = byte_at (gc_mem (the_gc growing_object)) (0x10000 + word_of_nat i)"
    if "i < 16" for i
  proof (rule byte_at_cong)
    show "gc_mem (the_gc ?a1) ((0x10000 + word_of_nat i) AND NOT 7) = gc_mem (the_gc growing_object) ((0x10000 + word_of_nat i) AND NOT 7)"
    proof -
      have "(0x10000 + word_of_nat i :: u64) AND NOT 7 \<le> 0x10000 + word_of_nat i" by (rule word_and_le2)
      moreover have "unat (0x10000 + word_of_nat i :: u64) = 0x10000 + i" using small [of i] that by (simp add: unat_word_ariths)
      ultimately have "(0x10000 + word_of_nat i :: u64) AND NOT 7 \<noteq> 0x10060" using that by (auto simp: word_le_nat_alt)
      then show ?thesis by simp
    qed
  qed
  moreover have "(0x10060 :: u64) + word_of_nat i \<noteq> 0x10000 + word_of_nat j" if "i < 24" "j < 16" for i j
  proof
    assume "(0x10060 :: u64) + word_of_nat i = 0x10000 + word_of_nat j"
    then have "unat (0x10060 + word_of_nat i :: u64) = unat (0x10000 + word_of_nat j :: u64)" by (rule arg_cong)
    then show False using small [of i] small [of j] that by (simp add: unat_word_ariths)
  qed
  ultimately show ?thesis
    by (simp add: allocates_apart_def GC_generic_or_special_malloc_def two_objects_header growing_object_def normal_kind_def)
qed


lemma realloc_keeps_contents_witness:
  "\<exists>a'. GC_realloc quiet_runtime 0x10000 24 growing_object = Inr (0x10060, a') \<and>
    map (\<lambda>i. byte_at (gc_mem (the_gc a')) (0x10060 + word_of_nat i)) [0 ..< 4] = [0x10, 0, 1, 0]"
proof -
  let ?h = "block_header\<lparr>hb_obj_kind := 1\<rparr>"
  have h: "hdr_of (HBLKPTR 0x10000) (the_gc growing_object) = Inr ?h" using growing_object_header by (simp add: HBLKPTR_def)
  have sz: "hb_sz ?h = 16" by (simp add: two_objects_header)
  have big: "\<not> (ADD_SLOP (EXTRA_BYTES (the_gc growing_object)) 24 \<le> 16 \<and> drop_bit 1 16 \<le> (24 :: u64))"
    by (simp add: ADD_SLOP_def SIZET_SAT_ADD_def EXTRA_BYTES_def)
  have "\<exists>r a'. GC_realloc quiet_runtime 0x10000 24 growing_object = Inr (r, a') \<and>
    (\<forall>i. i < unat (24 :: u64) \<and> i < unat (hb_sz ?h) \<longrightarrow>
       byte_at (gc_mem (the_gc a')) (r + word_of_nat i) = byte_at (gc_mem (the_gc growing_object)) (0x10000 + word_of_nat i)) \<and>
    (if ADD_SLOP (EXTRA_BYTES (the_gc growing_object)) 24 \<le> hb_sz ?h \<and> drop_bit 1 (hb_sz ?h) \<le> 24
     then r = 0x10000 \<and> (\<forall>i. unat (24 :: u64) \<le> i \<and> i < unat (hb_sz ?h) \<longrightarrow> byte_at (gc_mem (the_gc a')) (0x10000 + word_of_nat i) = 0)
     else r = 0x10060)"
    by (rule realloc_keeps_contents [OF _ _ h _ _ _ growing_object_apart, of 1]) (simp_all add: sz GRANULES_TO_BYTES_def)
  then obtain a' where a': "GC_realloc quiet_runtime 0x10000 24 growing_object = Inr (0x10060, a')"
    "\<And>i. i < 16 \<Longrightarrow> byte_at (gc_mem (the_gc a')) (0x10060 + word_of_nat i) = byte_at (gc_mem (the_gc growing_object)) (0x10000 + word_of_nat i)"
    unfolding sz if_not_P [OF big] by auto
  have "gc_mem (the_gc growing_object) 0x10000 = 0x10010"
    by (simp add: growing_object_def two_normal_objects_def two_objects_allocator_def two_objects_def)
  then have bytes: "byte_at (gc_mem (the_gc growing_object)) 0x10000 = 0x10" "byte_at (gc_mem (the_gc growing_object)) 0x10001 = 0"
    "byte_at (gc_mem (the_gc growing_object)) 0x10002 = 1" "byte_at (gc_mem (the_gc growing_object)) 0x10003 = 0"
    by (simp_all add: byte_at_def)
  have sums: "0x10000 + word_of_nat 0 = (0x10000 :: u64)" "0x10000 + word_of_nat 1 = (0x10001 :: u64)"
    "0x10000 + word_of_nat 2 = (0x10002 :: u64)" "0x10000 + word_of_nat 3 = (0x10003 :: u64)" by simp_all
  have at: "byte_at (gc_mem (the_gc a')) (0x10060 + word_of_nat 0) = 0x10" "byte_at (gc_mem (the_gc a')) (0x10060 + word_of_nat 1) = 0"
    "byte_at (gc_mem (the_gc a')) (0x10060 + word_of_nat 2) = 1" "byte_at (gc_mem (the_gc a')) (0x10060 + word_of_nat 3) = 0"
    by (rule a'(2) [of 0, unfolded sums bytes] a'(2) [of 1, unfolded sums bytes] a'(2) [of 2, unfolded sums bytes]
        a'(2) [of 3, unfolded sums bytes], simp)+
  have "[0 ..< 4] = [0, 1, 2, 3 :: nat]" by (simp add: numeral_eq_Suc)
  then have "map (\<lambda>i. byte_at (gc_mem (the_gc a')) (0x10060 + word_of_nat i)) [0 ..< 4] = [0x10, 0, 1, 0]"
    by (simp only: list.map at)
  with a'(1) show ?thesis by (intro exI conjI)
qed

end
