(* ===== verification/Atomix_GC_Typed.thy ===== *)
theory Atomix_GC_Typed
  imports Atomix_GC_Finalizers Atomix_GC_Mallocx
begin

unbundle bit_operations_syntax

text \<open>
  Allocation of objects with a description of their pointers, \<open>typd_mlc.c\<close>, with the registration of
  object kinds and mark procedures of \<open>misc.c\<close>. The table of extended descriptors and the complex
  descriptors of arrays are structs in the heap. A free list of a kind is part of the kind in this
  model, so a new list is its content. The function for running out of memory is the default one.
\<close>

section \<open>State\<close>

record typing =
  ty_allocator :: allocator
  GC_n_mark_procs :: u64
  GC_explicit_typing_initialized :: bool
  GC_explicit_kind :: u8
  GC_array_kind :: u8
  GC_typed_mark_proc_index :: u64
  GC_array_mark_proc_index :: u64
  GC_bm_table :: "u64 list"
  GC_ext_descriptors :: u64
  GC_ed_size :: u64
  GC_avail_descr :: u64
  GC_push_typed_structures_set :: bool

definition run_allocator :: "(allocator \<Rightarrow> ('r \<times> allocator) res) \<Rightarrow> typing \<Rightarrow> ('r \<times> typing) res" where
  "run_allocator f t = andThen (f (ty_allocator t)) (\<lambda>(r, a). Inr (r, t\<lparr>ty_allocator := a\<rparr>))"

definition store_word :: "u64 \<Rightarrow> u64 \<Rightarrow> typing \<Rightarrow> typing" where
  "store_word p x t = t\<lparr>ty_allocator := store p x (ty_allocator t)\<rparr>"

definition load_word :: "u64 \<Rightarrow> typing \<Rightarrow> u64" where
  "load_word p t = load p (ty_allocator t)"

section \<open>Kinds and mark procedures\<close>

definition MAXOBJKINDS :: nat where "MAXOBJKINDS = 16"
definition MAX_MARK_PROCS :: u64 where "MAX_MARK_PROCS = 64"

definition GC_new_free_list_inner :: "runtime \<Rightarrow> allocator \<Rightarrow> (u64 list \<times> allocator) res" where
  "GC_new_free_list_inner rt a =
     andThen (GC_generic_malloc_inner rt (129 * 8) PTRFREE a) (\<lambda>(result, a1).
       if result = 0 then Inl (Panic ''Failed to allocate freelist for new kind'')
       else Inr (replicate 129 0, on_gc (\<lambda>g. g\<lparr>gc_mem := BZERO result 129 (gc_mem g)\<rparr>) a1))"

definition GC_new_kind_inner :: "u64 list \<Rightarrow> u64 \<Rightarrow> bool \<Rightarrow> bool \<Rightarrow> allocator \<Rightarrow> (u8 \<times> allocator) res" where
  "GC_new_kind_inner fl descr adjust clear a =
     (let kinds = GC_obj_kinds (the_gc a); result = length kinds;
          ok = \<lparr>ok_freelist = fl, ok_reclaim_list = [], ok_descriptor = descr, ok_relocate_descr = adjust, ok_init = clear\<rparr>
      in if result < MAXOBJKINDS then Inr (word_of_nat result, on_gc (\<lambda>g. g\<lparr>GC_obj_kinds := kinds @ [ok]\<rparr>) a)
         else Inl (Panic ''Too many kinds''))"

definition GC_new_proc_inner :: "typing \<Rightarrow> (u64 \<times> typing) res" where
  "GC_new_proc_inner t =
     (let result = GC_n_mark_procs t
      in if result < MAX_MARK_PROCS then Inr (result, t\<lparr>GC_n_mark_procs := result + 1\<rparr>)
         else Inl (Panic ''Too many mark procedures''))"

section \<open>Descriptors\<close>

definition GC_DS_LENGTH :: u64 where "GC_DS_LENGTH = 0"
definition GC_DS_BITMAP :: u64 where "GC_DS_BITMAP = 1"
definition GC_DS_PROC :: u64 where "GC_DS_PROC = 2"
definition GC_DS_PER_OBJECT :: u64 where "GC_DS_PER_OBJECT = 3"
definition BITMAP_BITS :: nat where "BITMAP_BITS = 62"
definition MAX_ENV :: u64 where "MAX_ENV = push_bit 56 1 - 1"
definition SIGNB :: u64 where "SIGNB = push_bit 63 1"

definition GC_MAKE_PROC :: "u64 \<Rightarrow> u64 \<Rightarrow> u64" where
  "GC_MAKE_PROC proc_index env = push_bit 2 (push_bit 6 env OR proc_index) OR GC_DS_PROC"

definition GC_init_explicit_typing :: "runtime \<Rightarrow> typing \<Rightarrow> typing res" where
  "GC_init_explicit_typing rt t =
     andThen (run_allocator (GC_new_free_list_inner rt) t) (\<lambda>(fl, t1).
     andThen (run_allocator (GC_new_kind_inner fl (push_bit 3 (- 1) OR GC_DS_PER_OBJECT) True True) t1) (\<lambda>(explicit, t2).
     andThen (GC_new_proc_inner t2) (\<lambda>(typed_proc, t3).
     andThen (GC_new_proc_inner t3) (\<lambda>(array_proc, t4).
     andThen (run_allocator (GC_new_free_list_inner rt) t4) (\<lambda>(fl', t5).
     andThen (run_allocator (GC_new_kind_inner fl' (GC_MAKE_PROC array_proc 0) False True) t5) (\<lambda>(arrays, t6).
       Inr (t6\<lparr>GC_explicit_kind := explicit, GC_typed_mark_proc_index := typed_proc, GC_array_mark_proc_index := array_proc,
               GC_array_kind := arrays,
               GC_bm_table := GC_DS_BITMAP # map (\<lambda>i. push_bit (64 - i) (- 1) OR GC_DS_BITMAP) [1 ..< 32]\<rparr>)))))))"

section \<open>Extended descriptors\<close>

text \<open>A \<open>typed_ext_descr_t\<close> has its bit map in the first word and an \<open>int\<close> in the second.\<close>

definition ed_at :: "u64 \<Rightarrow> u64 \<Rightarrow> u64" where
  "ed_at table i = table + 16 * i"

definition ed_bitmap :: "u64 \<Rightarrow> u64 \<Rightarrow> mem \<Rightarrow> u64" where
  "ed_bitmap table i m = m (ed_at table i)"

definition ed_continued :: "u64 \<Rightarrow> u64 \<Rightarrow> mem \<Rightarrow> bool" where
  "ed_continued table i m \<longleftrightarrow> take_bit 32 (m (ed_at table i + 8)) \<noteq> 0"

definition set_ed :: "u64 \<Rightarrow> u64 \<Rightarrow> bool \<Rightarrow> typing \<Rightarrow> typing" where
  "set_ed i bm continued t =
     (let p = ed_at (GC_ext_descriptors t) i; t1 = store_word p bm t; old = load_word (p + 8) t1
      in store_word (p + 8) ((old AND NOT (mask 32)) OR (if continued then 1 else 0)) t1)"

text \<open>The table doubled until \<open>nwords\<close> more entries fit, or a failure.\<close>

primrec grow_ext_descriptors :: "nat \<Rightarrow> runtime \<Rightarrow> u64 \<Rightarrow> typing \<Rightarrow> (bool \<times> typing) res" where
  "grow_ext_descriptors 0 rt nwords t = Inl Diverge"
| "grow_ext_descriptors (Suc n) rt nwords t =
     (if GC_avail_descr t + nwords < GC_ed_size t then Inr (True, t)
      else
        let ed_size = GC_ed_size t; new_size = (if ed_size = 0 then 100 else 2 * ed_size);
            t0 = (if ed_size = 0 then t\<lparr>GC_push_typed_structures_set := True\<rparr> else t)
        in if ed_size \<noteq> 0 \<and> MAX_ENV < new_size then Inr (False, t0)
           else
             andThen (run_allocator (GC_malloc_atomic rt (new_size * 16)) t0) (\<lambda>(newExtD, t1).
               if newExtD = 0 then Inr (False, t1)
               else
                 let t2 = (if ed_size \<noteq> GC_ed_size t1 then t1
                           else
                             t1\<lparr>ty_allocator := copy_words (GC_ext_descriptors t1) newExtD (2 * unat (GC_avail_descr t1)) (ty_allocator t1),
                                GC_ed_size := new_size, GC_ext_descriptors := newExtD\<rparr>)
                 in grow_ext_descriptors n rt nwords t2))"

text \<open>The words of a bit map from number \<open>i\<close> on; \<open>n\<close> of them are continued.\<close>

primrec add_ext_words :: "nat \<Rightarrow> u64 \<Rightarrow> nat \<Rightarrow> typing \<Rightarrow> typing" where
  "add_ext_words 0 bm i t = t"
| "add_ext_words (Suc n) bm i t =
     add_ext_words n bm (Suc i) (set_ed (GC_avail_descr t + word_of_nat i) (load_word (bm + 8 * word_of_nat i) t) True t)"

definition GC_add_ext_descriptor :: "runtime \<Rightarrow> u64 \<Rightarrow> u64 \<Rightarrow> typing \<Rightarrow> (u64 option \<times> typing) res" where
  "GC_add_ext_descriptor rt bm nbits t =
     (let nwords = drop_bit 6 (nbits + 63)
      in andThen (grow_ext_descriptors 65 rt nwords t) (\<lambda>(ok, t1).
           if \<not> ok then Inr (None, t1)
           else
             let result = GC_avail_descr t1; last = nwords - 1; t2 = add_ext_words (unat last) bm 0 t1;
                 extra_bits = unat (nwords * 64 - nbits);
                 last_part = drop_bit extra_bits (push_bit extra_bits (load_word (bm + 8 * last) t2));
                 t3 = set_ed (result + last) last_part False t2
             in Inr (Some result, t3\<lparr>GC_avail_descr := GC_avail_descr t3 + nwords\<rparr>)))"

section \<open>Descriptors from bit maps\<close>

text \<open>Bit \<open>i\<close> of the bit map at the address \<open>bm\<close>.\<close>

definition GC_get_bit :: "u64 \<Rightarrow> nat \<Rightarrow> mem \<Rightarrow> bool" where
  "GC_get_bit bm i m = bit (m (bm + 8 * word_of_nat (i div 64))) (i mod 64)"

primrec last_set_bit :: "u64 \<Rightarrow> nat \<Rightarrow> mem \<Rightarrow> nat option" where
  "last_set_bit bm 0 m = None"
| "last_set_bit bm (Suc n) m = (if GC_get_bit bm n m then Some n else last_set_bit bm n m)"

text \<open>The bits below \<open>n\<close>, shifted in at the top one after the other.\<close>

primrec reversed_bits :: "u64 \<Rightarrow> nat \<Rightarrow> mem \<Rightarrow> u64 \<Rightarrow> u64" where
  "reversed_bits bm 0 m result = result"
| "reversed_bits bm (Suc n) m result =
     (let result = drop_bit 1 result in reversed_bits bm n m (if GC_get_bit bm n m then result OR SIGNB else result))"

definition GC_make_descriptor :: "runtime \<Rightarrow> u64 \<Rightarrow> u64 \<Rightarrow> typing \<Rightarrow> (u64 \<times> typing) res" where
  "GC_make_descriptor rt bm len t =
     andThen
       (if GC_explicit_typing_initialized t then Inr t
        else andThen (GC_init_explicit_typing rt t) (\<lambda>t1. Inr (t1\<lparr>GC_explicit_typing_initialized := True\<rparr>))) (\<lambda>t1.
       let m = gc_mem (the_gc (ty_allocator t1))
       in case last_set_bit bm (unat len) m of
            None \<Rightarrow> Inr (0, t1)
          | Some l \<Rightarrow>
              let len_descr = push_bit 3 (word_of_nat l + 1) OR GC_DS_LENGTH
              in if \<forall>i \<in> set [0 ..< l]. GC_get_bit bm i m then Inr (len_descr, t1)
                 else if l < BITMAP_BITS then Inr (reversed_bits bm l m SIGNB OR GC_DS_BITMAP, t1)
                 else
                   andThen (GC_add_ext_descriptor rt bm (word_of_nat l + 1) t1) (\<lambda>(index, t2).
                     Inr (case index of None \<Rightarrow> len_descr | Some i \<Rightarrow> GC_MAKE_PROC (GC_typed_mark_proc_index t2) i, t2)))"

section \<open>Marking with extended descriptors\<close>

definition push_or_overflow :: "u64 \<Rightarrow> u64 \<Rightarrow> marker \<Rightarrow> marker" where
  "push_or_overflow p descr m =
     push_entry p descr (if GC_mark_stack_size m \<le> length (GC_mark_stack m) then GC_signal_mark_stack_overflow m else m)"

primrec mark_bits :: "nat \<Rightarrow> u64 \<Rightarrow> u64 \<Rightarrow> hdr_cache \<times> marker \<Rightarrow> (hdr_cache \<times> marker) res" where
  "mark_bits 0 bm current_p st = Inl Diverge"
| "mark_bits (Suc n) bm current_p st =
     (if bm = 0 then Inr st
      else
        let current = word_at (snd st) current_p;
            candidate = GC_least_plausible_heap_addr (snd st) \<le> current \<and> current \<le> GC_greatest_plausible_heap_addr (snd st)
        in andThen (if bit bm 0 \<and> candidate then PUSH_CONTENTS current st else Inr st)
             (mark_bits n (drop_bit 1 bm) (current_p + 8)))"

definition GC_typed_mark_proc :: "u64 \<Rightarrow> u64 \<Rightarrow> u64 \<Rightarrow> u64 \<Rightarrow> marker \<Rightarrow> marker res" where
  "GC_typed_mark_proc table proc_index addr env m =
     andThen (mark_bits 65 (ed_bitmap table env (gc_mem (mk_gc m))) addr (INIT_HDR_CACHE, m)) (\<lambda>(_, m1).
       Inr (if ed_continued table env (gc_mem (mk_gc m1))
            then push_or_overflow (addr + 64 * 8) (GC_MAKE_PROC proc_index (env + 1)) m1 else m1))"

section \<open>Complex descriptors\<close>

definition LEAF_TAG :: u64 where "LEAF_TAG = 1"
definition ARRAY_TAG :: u64 where "ARRAY_TAG = 2"
definition SEQUENCE_TAG :: u64 where "SEQUENCE_TAG = 3"

abbreviation (input) ld_size :: "u64 \<Rightarrow> u64" where "ld_size d \<equiv> d + 8"
abbreviation (input) ld_nelements :: "u64 \<Rightarrow> u64" where "ld_nelements d \<equiv> d + 16"
abbreviation (input) ld_descriptor :: "u64 \<Rightarrow> u64" where "ld_descriptor d \<equiv> d + 24"
abbreviation (input) ad_nelements :: "u64 \<Rightarrow> u64" where "ad_nelements d \<equiv> d + 8"
abbreviation (input) ad_element_descr :: "u64 \<Rightarrow> u64" where "ad_element_descr d \<equiv> d + 16"
abbreviation (input) sd_first :: "u64 \<Rightarrow> u64" where "sd_first d \<equiv> d + 8"
abbreviation (input) sd_second :: "u64 \<Rightarrow> u64" where "sd_second d \<equiv> d + 16"

definition store_leaf :: "u64 \<Rightarrow> u64 \<Rightarrow> u64 \<Rightarrow> u64 \<Rightarrow> typing \<Rightarrow> typing" where
  "store_leaf p size' nelements descr t =
     store_word (ld_descriptor p) descr (store_word (ld_nelements p) nelements (store_word (ld_size p) size' (store_word p LEAF_TAG t)))"

primrec GC_descr_obj_size :: "nat \<Rightarrow> u64 \<Rightarrow> mem \<Rightarrow> u64 res" where
  "GC_descr_obj_size 0 d m = Inl Diverge"
| "GC_descr_obj_size (Suc n) d m =
     (if m d = LEAF_TAG then Inr (m (ld_nelements d) * m (ld_size d))
      else if m d = ARRAY_TAG
      then andThen (GC_descr_obj_size n (m (ad_element_descr d)) m) (\<lambda>s. Inr (m (ad_nelements d) * s))
      else if m d = SEQUENCE_TAG
      then
        andThen (GC_descr_obj_size n (m (sd_first d)) m) (\<lambda>s1.
        andThen (GC_descr_obj_size n (m (sd_second d)) m) (\<lambda>s2. Inr (s1 + s2)))
      else Inl (Panic ''Bad complex descriptor''))"

text \<open>Entries for \<open>n\<close> elements, and pushing \<open>n\<close> times; \<open>None\<close> is the result 0, and what was pushed is lost.\<close>

primrec push_elements :: "nat \<Rightarrow> u64 \<Rightarrow> u64 \<Rightarrow> u64 \<Rightarrow> marker \<Rightarrow> marker" where
  "push_elements 0 current sz descr m = m"
| "push_elements (Suc n) current sz descr m = push_elements n (current + sz) sz descr (push_entry current descr m)"

primrec push_repeatedly :: "nat \<Rightarrow> (u64 \<Rightarrow> marker \<Rightarrow> marker option res) \<Rightarrow> u64 \<Rightarrow> u64 \<Rightarrow> marker \<Rightarrow> marker option res" where
  "push_repeatedly 0 push sz current m = Inr (Some m)"
| "push_repeatedly (Suc n) push sz current m =
     andThen (push current m) (\<lambda>r.
       case r of None \<Rightarrow> Inr None | Some m' \<Rightarrow> push_repeatedly n push sz (current + sz) m')"

text \<open>The limit is one below that of the mark stack.\<close>

primrec GC_push_complex_descriptor :: "nat \<Rightarrow> u64 \<Rightarrow> u64 \<Rightarrow> marker \<Rightarrow> marker option res" where
  "GC_push_complex_descriptor 0 d addr m = Inl Diverge"
| "GC_push_complex_descriptor (Suc n) d addr m =
     (let mem = gc_mem (mk_gc m)
      in if mem d = LEAF_TAG
         then
           let nelements = mem (ld_nelements d); room = word_of_nat (GC_mark_stack_size m - length (GC_mark_stack m))
           in Inr (if room \<le>s nelements then None
                   else Some (push_elements (unat nelements) addr (mem (ld_size d)) (mem (ld_descriptor d)) m))
         else if mem d = ARRAY_TAG
         then
           andThen (GC_descr_obj_size n (mem (ad_element_descr d)) mem) (\<lambda>sz.
             push_repeatedly (unat (mem (ad_nelements d))) (GC_push_complex_descriptor n (mem (ad_element_descr d))) sz addr m)
         else if mem d = SEQUENCE_TAG
         then
           andThen (GC_descr_obj_size n (mem (sd_first d)) mem) (\<lambda>sz.
           andThen (GC_push_complex_descriptor n (mem (sd_first d)) addr m) (\<lambda>r.
             case r of None \<Rightarrow> Inr None | Some m' \<Rightarrow> GC_push_complex_descriptor n (mem (sd_second d)) (addr + sz) m'))
         else Inl (Panic ''Bad complex descriptor''))"

definition GC_array_mark_proc :: "nat \<Rightarrow> u64 \<Rightarrow> u64 \<Rightarrow> marker \<Rightarrow> marker res" where
  "GC_array_mark_proc rounds addr env m =
     andThen (hdr_of addr (mk_gc m)) (\<lambda>hhdr.
       let sz = hb_sz hhdr; nwords = drop_bit 3 sz; descr = word_at m (addr + 8 * (nwords - 1))
       in if descr = 0 then Inr m
          else
            andThen (GC_push_complex_descriptor rounds descr addr m) (\<lambda>r.
              Inr (case r of
                     None \<Rightarrow> push_entry addr (sz OR GC_DS_LENGTH) (m\<lparr>GC_mark_stack_too_small := True\<rparr>)
                   | Some m' \<Rightarrow> push_entry (addr + 8 * (nwords - 1)) (8 OR GC_DS_LENGTH) m')))"

text \<open>The table of mark procedures with these two in it.\<close>

definition with_typed_procs :: "nat \<Rightarrow> typing \<Rightarrow> mark_procs \<Rightarrow> mark_procs" where
  "with_typed_procs rounds t procs i =
     (if GC_explicit_typing_initialized t \<and> i = GC_typed_mark_proc_index t
      then GC_typed_mark_proc (GC_ext_descriptors t) (GC_typed_mark_proc_index t)
      else if GC_explicit_typing_initialized t \<and> i = GC_array_mark_proc_index t then GC_array_mark_proc rounds
      else procs i)"

section \<open>Descriptors of arrays\<close>

datatype array_descr = NO_MEM | SIMPLE u64 | LEAF u64 u64 u64 | COMPLEX u64

definition GC_double_descr :: "u64 \<Rightarrow> u64 \<Rightarrow> u64 list \<Rightarrow> u64 res" where
  "GC_double_descr descriptor nwords bm_table =
     andThen (if descriptor AND 3 = GC_DS_LENGTH then read_at bm_table (drop_bit 3 descriptor) else Inr descriptor) (\<lambda>d.
       Inr (d OR drop_bit (unat nwords) (d AND NOT 3)))"

definition GC_make_sequence_descriptor :: "runtime \<Rightarrow> u64 \<Rightarrow> u64 \<Rightarrow> typing \<Rightarrow> (u64 \<times> typing) res" where
  "GC_make_sequence_descriptor rt first second t =
     andThen (run_allocator (GC_malloc rt 24) t) (\<lambda>(result, t1).
       Inr (result,
         if result = 0 then t1
         else store_word (sd_second result) second (store_word (sd_first result) first (store_word result SEQUENCE_TAG t1))))"

text \<open>A sequence of what was built so far and one more element. A simple descriptor of the beginning
  gets the size and number of one element in the code; it cannot occur here, as the descriptor of
  two elements is a bit map.\<close>

definition new_leaf :: "runtime \<Rightarrow> u64 \<Rightarrow> u64 \<Rightarrow> u64 \<Rightarrow> typing \<Rightarrow> (u64 \<times> typing) res" where
  "new_leaf rt size' nelements descr t =
     andThen (run_allocator (GC_malloc_atomic rt 32) t) (\<lambda>(p, t1).
       Inr (p, if p = 0 then t1 else store_leaf p size' nelements descr t1))"

definition sequence_from :: "runtime \<Rightarrow> u64 \<Rightarrow> u64 \<Rightarrow> typing \<Rightarrow> (array_descr \<times> typing) res" where
  "sequence_from rt first one_element t =
     andThen (GC_make_sequence_descriptor rt first one_element t) (\<lambda>(s, t1). Inr (if s = 0 then NO_MEM else COMPLEX s, t1))"

definition add_one_element :: "runtime \<Rightarrow> u64 \<Rightarrow> u64 \<Rightarrow> array_descr \<Rightarrow> typing \<Rightarrow> (array_descr \<times> typing) res" where
  "add_one_element rt size' descriptor result t =
     andThen (run_allocator (GC_malloc_atomic rt 32) t) (\<lambda>(one_element, t1).
       if result = NO_MEM \<or> one_element = 0 then Inr (NO_MEM, t1)
       else
         let t2 = store_leaf one_element size' 1 descriptor t1;
             after = (\<lambda>(beginning, t3). if beginning = 0 then Inr (NO_MEM, t3) else sequence_from rt beginning one_element t3)
         in case result of
              NO_MEM \<Rightarrow> Inr (NO_MEM, t2)
            | SIMPLE d \<Rightarrow> andThen (new_leaf rt size' 1 d t2) after
            | LEAF s n d \<Rightarrow> andThen (new_leaf rt s n d t2) after
            | COMPLEX d \<Rightarrow> sequence_from rt d one_element t2)"

primrec GC_make_array_descriptor :: "nat \<Rightarrow> runtime \<Rightarrow> u64 \<Rightarrow> u64 \<Rightarrow> u64 \<Rightarrow> typing \<Rightarrow> (array_descr \<times> typing) res" where
  "GC_make_array_descriptor 0 rt nelements size' descriptor t = Inl Diverge"
| "GC_make_array_descriptor (Suc n) rt nelements size' descriptor t =
     (if descriptor AND 3 = GC_DS_LENGTH \<and> descriptor = size' then Inr (SIMPLE (nelements * descriptor), t)
      else if descriptor AND 3 = GC_DS_LENGTH \<and> descriptor = 0 then Inr (SIMPLE 0, t)
      else if nelements \<le> 1 then Inr (SIMPLE (if nelements = 1 then descriptor else 0), t)
      else if 50 < nelements \<and> size' \<le> word_of_nat (BITMAP_BITS div 2) \<and> descriptor AND 3 \<noteq> GC_DS_PROC \<and> size' AND 7 = 0
      then
        andThen (GC_double_descr descriptor (drop_bit 3 size') (GC_bm_table t)) (\<lambda>d.
        andThen (GC_make_array_descriptor n rt (nelements div 2) (2 * size') d t) (\<lambda>(result, t1).
          if nelements AND 1 = 0 then Inr (result, t1) else add_one_element rt size' descriptor result t1))
      else Inr (LEAF size' nelements descriptor, t))"

section \<open>Allocation\<close>

definition TYPD_EXTRA_BYTES :: "typing \<Rightarrow> u64" where
  "TYPD_EXTRA_BYTES t = 8 - EXTRA_BYTES (the_gc (ty_allocator t))"

text \<open>The last word of an object.\<close>

definition last_word :: "u64 \<Rightarrow> gc \<Rightarrow> u64 res" where
  "last_word p g = andThen (GC_size p g) (\<lambda>sz. Inr (p + 8 * (GRANULES_TO_WORDS (BYTES_TO_GRANULES sz) - 1)))"

definition set_obj_descr :: "u64 \<Rightarrow> u64 \<Rightarrow> typing \<Rightarrow> typing res" where
  "set_obj_descr p d t = andThen (last_word p (the_gc (ty_allocator t))) (\<lambda>q. Inr (store_word q d t))"

definition described_object :: "u64 \<Rightarrow> (u64 \<times> typing) res \<Rightarrow> (u64 \<times> typing) res" where
  "described_object d r =
     andThen r (\<lambda>(op, t). if op = 0 then Inr (0, t) else andThen (set_obj_descr op d t) (\<lambda>t1. Inr (op, t1)))"

definition GC_malloc_explicitly_typed :: "runtime \<Rightarrow> u64 \<Rightarrow> u64 \<Rightarrow> typing \<Rightarrow> (u64 \<times> typing) res" where
  "GC_malloc_explicitly_typed rt lb d t =
     (let lb = (if lb = 0 then 1 else lb); lb = SIZET_SAT_ADD lb (TYPD_EXTRA_BYTES t)
      in described_object d (run_allocator (GC_malloc_kind_global rt lb (GC_explicit_kind t)) t))"

definition GC_malloc_explicitly_typed_ignore_off_page :: "runtime \<Rightarrow> u64 \<Rightarrow> u64 \<Rightarrow> typing \<Rightarrow> (u64 \<times> typing) res" where
  "GC_malloc_explicitly_typed_ignore_off_page rt lb d t =
     (let lb = (if lb = 0 then 1 else lb); lb = SIZET_SAT_ADD lb (TYPD_EXTRA_BYTES t);
          k = GC_explicit_kind t; a = ty_allocator t; general = run_allocator (GC_generic_malloc_ignore_off_page rt lb k) t
      in if SMALL_OBJ (EXTRA_BYTES (the_gc a)) lb
         then
           andThen (read_at (GC_size_map a) lb) (\<lambda>lg.
           andThen (kind_freelist k lg (the_gc a)) (\<lambda>op.
             if op = 0 then described_object d general
             else
               andThen (run_gc (take_object True op k lg) a) (\<lambda>a1.
                 Inr (op, store_word (op + 8 * (GRANULES_TO_WORDS lg - 1)) d (t\<lparr>ty_allocator := a1\<rparr>)))))
         else described_object d general)"

definition GC_calloc_explicitly_typed :: "runtime \<Rightarrow> u64 \<Rightarrow> u64 \<Rightarrow> u64 \<Rightarrow> typing \<Rightarrow> (u64 \<times> typing) res" where
  "GC_calloc_explicitly_typed rt n lb d t =
     (let empty = lb = 0 \<or> n = 0; lb = (if empty then 1 else lb); n = (if empty then 1 else n)
      in if mask 32 < lb OR n \<and> - 1 div lb < n then Inr (0, t)
         else
           andThen (GC_make_array_descriptor 65 rt n lb d t) (\<lambda>(descr, t1).
             let lb = lb * n; extra = TYPD_EXTRA_BYTES t1
             in case descr of
                  NO_MEM \<Rightarrow> Inr (0, t1)
                | SIMPLE s \<Rightarrow> GC_malloc_explicitly_typed rt lb s t1
                | LEAF s k e \<Rightarrow>
                    andThen (run_allocator (GC_malloc_kind_global rt (SIZET_SAT_ADD lb (32 + extra)) (GC_array_kind t1)) t1) (\<lambda>(op, t2).
                      if op = 0 then Inr (0, t2)
                      else
                        andThen (last_word op (the_gc (ty_allocator t2))) (\<lambda>q.
                          let lp = q - 32 in Inr (op, store_word q lp (store_leaf lp s k e t2))))
                | COMPLEX c \<Rightarrow>
                    andThen (run_allocator (GC_malloc_kind_global rt (SIZET_SAT_ADD lb extra) (GC_array_kind t1)) t1) (\<lambda>(op, t2).
                      if op = 0 then Inr (0, t2)
                      else
                        andThen (last_word op (the_gc (ty_allocator t2))) (\<lambda>q.
                        andThen (run_allocator (GC_general_register_disappearing_link rt q op) (store_word q c t2)) (\<lambda>(r, t3).
                          Inr (if r = GC_NO_MEMORY then 0 else op, t3))))))"

end
