(* ===== verification/Atomix_GC_Typed_Laws.thy ===== *)
theory Atomix_GC_Typed_Laws
  imports Atomix_GC_Typed Atomix_GC_Cycle_Laws
begin

unbundle bit_operations_syntax

text \<open>
  What the descriptors of typed allocation mean to the marker: a word of an object is looked at
  exactly when its bit in the bit map of the client is set.
\<close>

section \<open>Visits and marks\<close>

text \<open>Looking at the words of \<open>A\<close> marks exactly the objects that they point to.\<close>

lemma visit_marks:
  assumes "visit A m c' m'"
  shows "marked m' ob \<longleftrightarrow> marked m ob \<or> (\<exists>a \<in> A. find_object m (word_at m a) = Some ob)"
proof -
  note v = visit_D [OF assms] and e = ext_D [OF visit_D(1) [OF assms]]
  have "marked m' ob" if "a \<in> A" "find_object m (word_at m a) = Some ob" for a
    using v(3) [OF that(1)] that(2) unfolding seen_def find_object_same [OF v(4)] same_word_at [OF v(4)] by blast
  then show ?thesis using v(1) unfolding ext_def by blast
qed

text \<open>The words that a bit map descriptor with \<open>k\<close> bits selects, from its highest bit on.\<close>

definition bitmap_row :: "u64 \<Rightarrow> nat \<Rightarrow> u64 \<Rightarrow> u64 set" where
  "bitmap_row d k p = (\<lambda>i. p + 8 * word_of_nat i) ` {i. i < k \<and> bit d (63 - i)}"

lemma bitmap_row_0 [simp]: "bitmap_row d 0 p = {}"
  by (simp add: bitmap_row_def)

lemma next_bit: "i < 63 \<Longrightarrow> bit (push_bit 1 d) (63 - i) \<longleftrightarrow> bit d (62 - i)" for d :: u64
  unfolding bit_push_bit_iff by auto

lemma bitmap_row_Suc:
  assumes "k < 64"
  shows "bitmap_row d (Suc k) p = (if bit d 63 then {p} else {}) \<union> bitmap_row (push_bit 1 d) k (p + 8)"
proof -
  have "{i. i < Suc k \<and> bit d (63 - i)} = (if bit d 63 then {0} else {}) \<union> Suc ` {i. i < k \<and> bit (push_bit 1 d) (63 - i)}"
    (is "?L = ?R")
  proof (intro equalityI subsetI)
    fix i assume "i \<in> ?L"
    then show "i \<in> ?R" using assms next_bit by (cases i) auto
  next
    fix i assume "i \<in> ?R"
    then show "i \<in> ?L" using assms next_bit by (auto split: if_splits)
  qed
  then show ?thesis by (auto simp: bitmap_row_def image_Un image_image algebra_simps)
qed

lemma scan_bitmap_visit:
  assumes "sane m" "cache_ok c m" "k \<le> 64" "push_bit k d = 0"
  shows "\<exists>c' m'. scan_bitmap (Suc k) d p (c, m) = Inr (c', m') \<and> visit (bitmap_row d k p) m c' m'"
  using assms
proof (induction k arbitrary: d p c m)
  case 0
  then show ?case using visit_empty by auto
next
  case (Suc k)
  show ?case
  proof (cases "d = 0")
    case True
    then show ?thesis using visit_empty Suc.prems by (auto simp: bitmap_row_def)
  next
    case False
    let ?A = "if bit d 63 then {p} else {}" and ?w = "word_at m p"
    have "\<exists>c1 m1. (if bit d 63 \<and> plausible m ?w then PUSH_CONTENTS ?w (c, m) else Inr (c, m)) = Inr (c1, m1) \<and> visit ?A m c1 m1"
    proof (cases "bit d 63 \<and> plausible m ?w")
      case True
      then show ?thesis using push_contents_visit [OF Suc.prems(1,2)] by auto
    next
      case no: False
      have "visit ({} \<union> ?A) m c m"
        using no by (intro visit_implausible visit_empty Suc.prems) (auto split: if_splits)
      then show ?thesis using no by auto
    qed
    then obtain c1 m1 where 1: "(if bit d 63 \<and> plausible m ?w then PUSH_CONTENTS ?w (c, m) else Inr (c, m)) = Inr (c1, m1)"
      "visit ?A m c1 m1" by blast
    have "push_bit k (push_bit 1 d) = 0" using Suc.prems(4) by (simp add: push_bit_push_bit)
    then obtain c2 m2 where 2: "scan_bitmap (Suc k) (push_bit 1 d) (p + 8) (c1, m1) = Inr (c2, m2)"
      "visit (bitmap_row (push_bit 1 d) k (p + 8)) m1 c2 m2"
      using Suc.IH [OF visit_D(5,2) [OF 1(2)]] Suc.prems(3) by force
    have "scan_bitmap (Suc (Suc k)) d p (c, m) = Inr (c2, m2)"
      using 1(1) 2(1) False by (subst scan_bitmap.simps(2)) (simp add: Let_def del: scan_bitmap.simps split: if_splits)
    then show ?thesis using visit_trans [OF 1(2) 2(2)] Suc.prems(3) by (auto simp: bitmap_row_Suc)
  qed
qed

section \<open>Descriptors from bit maps\<close>

lemma last_set_bit_None: "last_set_bit bm n m = None \<longleftrightarrow> (\<forall>i < n. \<not> GC_get_bit bm i m)"
  by (induction n) (auto simp: less_Suc_eq)

lemma last_set_bit_Some:
  "last_set_bit bm n m = Some l \<Longrightarrow> l < n \<and> GC_get_bit bm l m \<and> (\<forall>i < n. l < i \<longrightarrow> \<not> GC_get_bit bm i m)"
  by (induction n) (auto simp: less_Suc_eq split: if_splits)

lemma bit_SIGNB: "bit SIGNB j \<longleftrightarrow> j = 63"
  unfolding SIGNB_def bit_push_bit_iff by auto

lemma bit_reversed_bits:
  "n \<le> 63 \<Longrightarrow> j \<le> 63 \<Longrightarrow>
    bit (reversed_bits bm n m r) j = (if 63 - n < j then GC_get_bit bm (63 - j) m else bit r (j + n))"
proof (induction n arbitrary: r)
  case (Suc n)
  let ?r = "if GC_get_bit bm n m then drop_bit 1 r OR SIGNB else drop_bit 1 r"
  have "bit ?r (j + n) \<longleftrightarrow> bit r (j + Suc n) \<or> j + n = 63 \<and> GC_get_bit bm n m"
    by (auto simp: bit_or_iff bit_drop_bit_eq bit_SIGNB)
  moreover have "\<not> bit r (j + Suc n)" if "j + n = 63" using that bit_imp_le_length [of r 64] by auto
  moreover have "63 - j = n" if "j + n = 63" using that by simp
  moreover have "63 - n < j \<longleftrightarrow> 63 < j + n" "63 - Suc n < j \<longleftrightarrow> 63 < j + n \<or> j + n = 63" using Suc.prems by auto
  ultimately show ?case using Suc.IH [of ?r] Suc.prems by (auto simp: Let_def)
qed simp


text \<open>The words that the bit map of a client makes pointers.\<close>

definition pointer_words :: "u64 \<Rightarrow> nat \<Rightarrow> mem \<Rightarrow> nat set" where
  "pointer_words bm n m = {i. i < n \<and> GC_get_bit bm i m}"

lemma bit_map_descriptor:
  assumes "l < 62" "l < n" "n \<le> 62" "GC_get_bit bm l m" "\<forall>i < n. l < i \<longrightarrow> \<not> GC_get_bit bm i m"
  defines "d \<equiv> reversed_bits bm l m SIGNB OR GC_DS_BITMAP"
  shows "d AND 3 = 1" "{i. i < 64 \<and> bit (d AND NOT 3) (63 - i)} = pointer_words bm n m"
proof -
  have rev: "bit (reversed_bits bm l m SIGNB) j \<longleftrightarrow> (if 63 - l < j then GC_get_bit bm (63 - j) m else j = 63 - l)" if "j \<le> 63" for j
    using that assms(1) by (subst bit_reversed_bits) (auto simp: bit_SIGNB)
  have mask: "(3 :: u64) = mask 2" by (simp add: mask_eq_exp_minus_1)
  have three: "bit (3 :: u64) j \<longleftrightarrow> j < 2" for j unfolding mask bit_mask_iff by auto
  have one: "bit (1 :: u64) j \<longleftrightarrow> j = 0" for j by (simp add: bit_1_iff)
  show "d AND 3 = 1"
  proof (rule bit_word_eqI)
    fix j assume "j < LENGTH(64)"
    then show "bit (d AND 3) j = bit (1 :: u64) j"
      using rev [of j] assms(1) unfolding d_def GC_DS_BITMAP_def bit_and_iff bit_or_iff three one by auto
  qed
  have "bit (d AND NOT 3) (63 - i) \<longleftrightarrow> i \<le> l \<and> GC_get_bit bm i m" if "i < 64" for i
  proof -
    have "bit (d AND NOT 3) (63 - i) \<longleftrightarrow> 2 \<le> 63 - i \<and> bit (reversed_bits bm l m SIGNB) (63 - i)"
      using that unfolding d_def GC_DS_BITMAP_def bit_and_iff bit_or_iff bit_not_iff three one by auto
    then show ?thesis using that assms(1,4) rev [of "63 - i"] by (cases "i = l") auto
  qed
  then show "{i. i < 64 \<and> bit (d AND NOT 3) (63 - i)} = pointer_words bm n m"
    using assms(2-5) by (auto simp: pointer_words_def)
qed

text \<open>The descriptor of a short bit map: nothing, a prefix of the object, or a bit map.\<close>

lemma make_descriptor_cases:
  fixes bm :: u64
  assumes init: "GC_explicit_typing_initialized t" and len: "unat len \<le> 62"
  defines "A \<equiv> pointer_words bm (unat len) (gc_mem (the_gc (ty_allocator t)))"
  obtains d where "GC_make_descriptor rt bm len t = Inr (d, t)"
    "d = 0 \<and> A = {} \<or> (\<exists>l < unat len. d = word_of_nat (8 * Suc l) \<and> A = {..<Suc l}) \<or>
     d AND 3 = 1 \<and> {i. i < 64 \<and> bit (d AND NOT 3) (63 - i)} = A"
proof -
  let ?m = "gc_mem (the_gc (ty_allocator t))"
  show thesis
  proof (cases "last_set_bit bm (unat len) ?m")
    case None
    then have "GC_make_descriptor rt bm len t = Inr (0, t)" by (simp add: GC_make_descriptor_def init)
    moreover have "A = {}" using None by (simp add: last_set_bit_None A_def pointer_words_def)
    ultimately show thesis using that by blast
  next
    case (Some l)
    note l = last_set_bit_Some [OF Some]
    show thesis
    proof (cases "\<forall>i \<in> set [0 ..< l]. GC_get_bit bm i ?m")
      case True
      have "push_bit 3 (word_of_nat l + 1 :: u64) = word_of_nat (8 * Suc l)" by (simp add: push_bit_eq_mult)
      then have "GC_make_descriptor rt bm len t = Inr (word_of_nat (8 * Suc l), t)"
        using True by (simp add: GC_make_descriptor_def init Some GC_DS_LENGTH_def)
      moreover have "A = {..<Suc l}"
        using True l by (auto simp: A_def pointer_words_def less_Suc_eq) (metis linorder_neqE_nat)
      ultimately show thesis using that l by blast
    next
      case False
      have l62: "l < 62" using l len by linarith
      have "GC_make_descriptor rt bm len t = Inr (reversed_bits bm l ?m SIGNB OR GC_DS_BITMAP, t)"
        using False l62 by (auto simp: GC_make_descriptor_def init Some BITMAP_BITS_def Let_def)
      then show thesis using that bit_map_descriptor [OF l62 _ len] l unfolding A_def by blast
    qed
  qed
qed

lemma mark_length_descriptor:
  assumes "sane m" "cache_ok c m" "l < 62" "8 \<le> unat p" "unat p + 8 * Suc l < 2 ^ 64"
  shows "\<exists>credit' c' m'. mark_entry (Suc n) procs p (word_of_nat (8 * Suc l)) credit (c, m) = Inr (credit', c', m') \<and>
    visit ((\<lambda>i. p + 8 * word_of_nat i) ` {..<Suc l}) m c' m'"
proof -
  let ?d = "word_of_nat (8 * Suc l) :: u64"
  have d: "unat ?d = 8 * Suc l" using assms(3) by (subst unat_of_nat) simp
  then have e: "entry_ok (p, ?d)" unfolding entry_ok_def prod.case d using assms(4,5) by simp
  have "taken p ?d m = (m, Suc l)" unfolding taken_def d using assms(3) by simp
  from mark_entry_visit [OF assms(1,2) e this] show ?thesis unfolding row_def by blast
qed

lemma mark_bitmap_descriptor:
  assumes "sane m" "cache_ok c m" "d AND 3 = 1"
  shows "\<exists>credit' c' m'. mark_entry (Suc n) procs p d credit (c, m) = Inr (credit', c', m') \<and>
    visit (bitmap_row (d AND NOT 3) 64 p) m c' m'"
proof -
  have "d AND (NOT 1023 OR 3) \<noteq> 0"
  proof
    assume "d AND (NOT 1023 OR 3) = 0"
    then have "(d AND (NOT 1023 OR 3)) AND 3 = 0" by simp
    moreover have "(d AND (NOT 1023 OR 3)) AND 3 = d AND 3" by (simp add: and.assoc bit.conj_disj_distrib2)
    ultimately show False using assms(3) by simp
  qed
  moreover have "push_bit 64 (d AND NOT 3) = 0" by (rule bit_word_eqI) (simp add: bit_push_bit_iff)
  ultimately show ?thesis
    using scan_bitmap_visit [OF assms(1,2), of 64 "d AND NOT 3" p] assms(3) by (auto simp del: scan_bitmap.simps)
qed

text \<open>C30: The descriptor that \<open>GC_make_descriptor\<close> builds from a bit map of at most 62 bits means to the
  marker what the bit map means to the client, whichever of the three forms it has: an entry with an
  object and this descriptor makes the marker mark exactly the objects that the words of the object
  point to whose bits are set. Neither a pointer is missed nor another word taken for one.\<close>

theorem typed_marking_is_precise:
  assumes "GC_explicit_typing_initialized t" "unat len \<le> 62"
    and "sane m" "8 \<le> unat p" "unat p + 8 * unat len < 2 ^ 64"
  shows "\<exists>d. GC_make_descriptor rt bm len t = Inr (d, t) \<and>
    (\<exists>credit' c' m'. mark_entry (Suc n) procs p d credit (INIT_HDR_CACHE, m) = Inr (credit', c', m') \<and> sane m' \<and>
      (\<forall>ob. marked m' ob \<longleftrightarrow>
         marked m ob \<or>
         (\<exists>i < unat len. GC_get_bit bm i (gc_mem (the_gc (ty_allocator t))) \<and>
            find_object m (word_at m (p + 8 * word_of_nat i)) = Some ob)))"
proof -
  let ?A = "pointer_words bm (unat len) (gc_mem (the_gc (ty_allocator t)))" and ?f = "\<lambda>i. p + 8 * word_of_nat i"
  obtain d where d: "GC_make_descriptor rt bm len t = Inr (d, t)"
    "d = 0 \<and> ?A = {} \<or> (\<exists>l < unat len. d = word_of_nat (8 * Suc l) \<and> ?A = {..<Suc l}) \<or>
     d AND 3 = 1 \<and> {i. i < 64 \<and> bit (d AND NOT 3) (63 - i)} = ?A"
    using make_descriptor_cases [OF assms(1,2)] by blast
  have c: "cache_ok INIT_HDR_CACHE m" by (rule cache_ok_init [OF assms(3)])
  from d(2) consider (none) "d = 0" "?A = {}" | (prefix) l where "l < unat len" "d = word_of_nat (8 * Suc l)" "?A = {..<Suc l}"
    | (bits) "d AND 3 = 1" "{i. i < 64 \<and> bit (d AND NOT 3) (63 - i)} = ?A" by blast
  then have "\<exists>credit' c' m'. mark_entry (Suc n) procs p d credit (INIT_HDR_CACHE, m) = Inr (credit', c', m') \<and> visit (?f ` ?A) m c' m'"
  proof cases
    case none
    then show ?thesis using visit_empty [OF assms(3) c] by auto
  next
    case prefix
    have "8 * Suc l \<le> 8 * unat len" using prefix(1) by simp
    then have "unat p + 8 * Suc l < 2 ^ 64" using assms(5) by (rule le_less_trans [OF add_left_mono])
    moreover have "l < 62" using prefix(1) assms(2) by linarith
    ultimately
    show ?thesis using mark_length_descriptor [OF assms(3) c _ assms(4)] unfolding prefix(2,3) by blast
  next
    case bits
    then show ?thesis using mark_bitmap_descriptor [OF assms(3) c bits(1)] unfolding bitmap_row_def bits(2) by blast
  qed
  then obtain credit' c' m' where r: "mark_entry (Suc n) procs p d credit (INIT_HDR_CACHE, m) = Inr (credit', c', m')"
    "visit (?f ` ?A) m c' m'" by blast
  have "marked m' ob \<longleftrightarrow> marked m ob \<or>
      (\<exists>i < unat len. GC_get_bit bm i (gc_mem (the_gc (ty_allocator t))) \<and> find_object m (word_at m (?f i)) = Some ob)" for ob
    unfolding visit_marks [OF r(2)] pointer_words_def by blast
  then show ?thesis using d(1) r(1) visit_D(5) [OF r(2)] by blast
qed


text \<open>A client with a bit map at 0x500 whose second bit is set; objects at 56 have a pointer in their second word.\<close>

definition second_word_typing :: typing where
  "second_word_typing =
     \<lparr>ty_allocator = on_gc (\<lambda>g. g\<lparr>gc_mem := (gc_mem g)(0x500 := 2)\<rparr>) two_objects_allocator, GC_n_mark_procs = 2,
      GC_explicit_typing_initialized = True, GC_explicit_kind = 4, GC_array_kind = 5, GC_typed_mark_proc_index = 0,
      GC_array_mark_proc_index = 1, GC_bm_table = [], GC_ext_descriptors = 0, GC_ed_size = 0, GC_avail_descr = 0,
      GC_push_typed_structures_set = False\<rparr>"

lemma typed_marking_is_precise_witness:
  "\<exists>d credit' c' m'. GC_make_descriptor quiet_runtime 0x500 2 second_word_typing = Inr (d, second_word_typing) \<and>
     mark_entry 1 (\<lambda>_ _ _. Inr) 56 d 0 (INIT_HDR_CACHE, two_objects) = Inr (credit', c', m') \<and>
     marked m' (4096, 0) \<and> \<not> marked m' (4096, 1)"
proof -
  let ?m = "gc_mem (the_gc (ty_allocator second_word_typing))"
  have b: "GC_get_bit 0x500 i ?m \<longleftrightarrow> i = 1" if "i < 2" for i
    using that by (auto simp: GC_get_bit_def second_word_typing_def on_gc_def on_marker_def Let_def less_2_cases_iff)
  have w: "word_at two_objects (56 + 8 * word_of_nat 1) = 0x10000" by (simp add: word_at_def two_objects_def)
  have "GC_explicit_typing_initialized second_word_typing" by (simp add: second_word_typing_def)
  then obtain d credit' c' m' where r: "GC_make_descriptor quiet_runtime 0x500 2 second_word_typing = Inr (d, second_word_typing)"
    "mark_entry (Suc 0) (\<lambda>_ _ _. Inr) 56 d 0 (INIT_HDR_CACHE, two_objects) = Inr (credit', c', m')"
    "\<And>ob. marked m' ob \<longleftrightarrow> marked two_objects ob \<or>
       (\<exists>i < unat (2 :: u64). GC_get_bit 0x500 i ?m \<and> find_object two_objects (word_at two_objects (56 + 8 * word_of_nat i)) = Some ob)"
    using typed_marking_is_precise [OF _ _ two_objects_sane, of second_word_typing 2 56 quiet_runtime "0x500" 0 "\<lambda>_ _ _. Inr" 0] by auto
  have only: "(\<exists>i < unat (2 :: u64). GC_get_bit 0x500 i ?m \<and> find_object two_objects (word_at two_objects (56 + 8 * word_of_nat i)) = Some ob)
      \<longleftrightarrow> ob = (4096, 0)" for ob
  proof -
    have "i < unat (2 :: u64) \<and> GC_get_bit 0x500 i ?m \<longleftrightarrow> i = 1" for i using b [of i] by auto
    then have "(\<exists>i < unat (2 :: u64). GC_get_bit 0x500 i ?m \<and> find_object two_objects (word_at two_objects (56 + 8 * word_of_nat i)) = Some ob)
        \<longleftrightarrow> find_object two_objects (word_at two_objects (56 + 8 * word_of_nat 1)) = Some ob" by metis
    then show ?thesis unfolding w two_objects_find(1) by auto
  qed
  have "marked m' (4096, 0)" unfolding r(3) only by simp
  moreover have "\<not> marked m' (4096, 1)" unfolding r(3) only using two_objects_unmarked [OF two_objects_find(2)] by simp
  ultimately show ?thesis using r(1,2) unfolding One_nat_def by blast
qed

end
