(* ===== verification/Atomix_GC_Check.thy ===== *)
theory Atomix_GC_Check
  imports Atomix_GC_Runtime
begin

unbundle bit_operations_syntax

text \<open>
  The checks of pointers for debugging, \<open>ptr_chck.c\<close>. Each returns its argument or calls a function
  that reports the error; these functions are the default ones, which abort. The collector is
  initialised. Sizes in headers are positive, so the remainders are those of C.
\<close>

text \<open>The header of the first block of a large object and the address of the block.\<close>

definition first_block :: "u64 \<Rightarrow> u64 \<Rightarrow> gc \<Rightarrow> (u64 \<times> u64) res" where
  "first_block p e g = forward_to_header (Suc (1024 * length (bottom_indices g))) (HBLKPTR p) e g"

text \<open>Whether \<open>p\<close> and \<open>q\<close> pass the test, when the block of \<open>p\<close> has the header \<open>hhdr\<close>.\<close>

definition same_small_or_first :: "u64 \<Rightarrow> u64 \<Rightarrow> hdr \<Rightarrow> bool res" where
  "same_small_or_first p q hhdr =
     (let sz = hb_sz hhdr
      in if MAXOBJBYTES < sz
         then let base = HBLKPTR p; limit = base + sz in Inr (p < limit \<and> q < limit \<and> base \<le> q)
         else
           let base = p - HBLKDISPL p mod sz; limit = base + sz
           in Inr (HBLKPTR p = HBLKPTR q \<and> q < limit \<and> base \<le> q))"

definition same_object :: "u64 \<Rightarrow> u64 \<Rightarrow> gc \<Rightarrow> bool res" where
  "same_object p q g =
     andThen (HDR p g) (\<lambda>e.
       if e = 0
       then if divHBLKSZ p \<noteq> divHBLKSZ q then andThen (HDR q g) (\<lambda>e'. Inr (e' = 0)) else Inr True
       else if IS_FORWARDING_ADDR_OR_NIL e
       then
         andThen (first_block p e g) (\<lambda>(h, hhdr).
         andThen (get_hdr hhdr g) (\<lambda>hd.
           let limit = h + hb_sz hd in Inr (p < limit \<and> q < limit \<and> h \<le> q)))
       else andThen (get_hdr e g) (same_small_or_first p q))"

definition GC_same_obj :: "u64 \<Rightarrow> u64 \<Rightarrow> gc \<Rightarrow> u64 res" where
  "GC_same_obj p q g =
     andThen (same_object p q g) (\<lambda>same. if same then Inr p else Inl (Panic ''GC_same_obj test failed''))"

definition valid_displacement :: "u64 \<Rightarrow> marker \<Rightarrow> bool res" where
  "valid_displacement p m =
     (let g = mk_gc m
      in andThen (HDR p g) (\<lambda>e.
           if e = 0 then Inr True
           else if IS_FORWARDING_ADDR_OR_NIL e \<and> \<not> GC_all_interior_pointers g then Inr False
           else
             andThen (if IS_FORWARDING_ADDR_OR_NIL e then first_block p e g else Inr (HBLKPTR p, e)) (\<lambda>(h, hhdr).
             andThen (get_hdr hhdr g) (\<lambda>hd.
               let sz = hb_sz hd; offset = HBLKDISPL p mod sz
               in if MAXOBJBYTES < sz \<and> h + sz \<le> p then Inr False
                  else
                    andThen (read_at (GC_valid_offsets m) offset) (\<lambda>valid.
                      if \<not> valid then Inr False
                      else if h + HBLKSIZE < p + (sz - offset)
                      then andThen (HDR (h + HBLKSIZE) g) (\<lambda>next_hdr. Inr (IS_FORWARDING_ADDR_OR_NIL next_hdr))
                      else Inr True)))))"

definition GC_is_valid_displacement :: "u64 \<Rightarrow> marker \<Rightarrow> u64 res" where
  "GC_is_valid_displacement p m =
     (if p = 0 then Inr 0
      else
        andThen (valid_displacement p m) (\<lambda>ok.
          if ok then Inr p else Inl (Panic ''GC_is_valid_displacement test failed'')))"

section \<open>Visible locations\<close>

definition GC_on_stack :: "runtime \<Rightarrow> u64 \<Rightarrow> bool" where
  "GC_on_stack rt p \<longleftrightarrow> rt_approx_sp rt \<le> p \<and> p < GC_stackbottom (rt_env rt)"

text \<open>Whether the descriptor of an object makes a location in it a pointer. The bit is picked by the
  offset in bytes, so the shift is by a negative amount from the ninth word on.\<close>

primrec described_at :: "nat \<Rightarrow> u64 \<Rightarrow> u64 \<Rightarrow> u64 \<Rightarrow> mem \<Rightarrow> bool res" where
  "described_at 0 descr base p m = Inl Diverge"
| "described_at (Suc n) descr base p m =
     (let d = p - base
      in if descr AND 3 = 0 then Inr (d < descr)
         else if descr AND 3 = 1
         then if 62 * 8 \<le> d \<or> p AND 7 \<noteq> 0 then Inr False
              else if 64 \<le> d then Inl (Fault Bad_Shift)
              else Inr (push_bit (64 - unat d - 1) 1 AND descr \<noteq> 0)
         else if descr AND 3 = 2 then Inr True
         else if 0 \<le>s descr then described_at n (m (base + (descr AND NOT 3))) base p m
         else
           let type_descr = m base
           in if type_descr = 0 then Inr False else described_at n (m (type_descr - (descr - (3 - 0x10)))) base p m)"

definition visible_in_heap :: "nat \<Rightarrow> u64 \<Rightarrow> u64 \<Rightarrow> gc \<Rightarrow> bool res" where
  "visible_in_heap rounds p e g =
     andThen (GC_base p g) (\<lambda>base.
       if base = 0 then Inr False
       else
         andThen (if HBLKPTR base \<noteq> HBLKPTR p then HDR base g else Inr e) (\<lambda>hhdr.
         andThen (get_hdr hhdr g) (\<lambda>hd. described_at rounds (hb_descr hd) base p (gc_mem g))))"

definition visible_root :: "runtime \<Rightarrow> u64 \<Rightarrow> collector \<Rightarrow> (bool \<times> collector) res" where
  "visible_root rt p c =
     andThen (GC_is_static_root p c) (\<lambda>(root, c1).
       if root \<or> GC_no_dls c1 then Inr (root, c1)
       else andThen (register_dynamic_libraries (rt_env rt) c1) (GC_is_static_root p))"

definition GC_is_visible :: "runtime \<Rightarrow> u64 \<Rightarrow> collector \<Rightarrow> (u64 \<times> collector) res" where
  "GC_is_visible rt p c =
     andThen
       (if p AND 7 \<noteq> 0 then Inr (False, c)
        else if GC_on_stack rt p then Inr (True, c)
        else
          andThen (HDR p (mk_gc (cl_marker c))) (\<lambda>e.
            if e = 0 then visible_root rt p c
            else andThen (visible_in_heap (rt_rounds rt) p e (mk_gc (cl_marker c))) (\<lambda>ok. Inr (ok, c))))
       (\<lambda>(ok, c1). if ok then Inr (p, c1) else Inl (Panic ''GC_is_visible test failed''))"

section \<open>Checked increments\<close>

text \<open>The variable is the word at \<open>p\<close>.\<close>

definition incremented :: "u64 \<Rightarrow> u64 \<Rightarrow> marker \<Rightarrow> u64 res" where
  "incremented initial how_much m =
     andThen (GC_same_obj (initial + how_much) initial (mk_gc m)) (\<lambda>result.
     andThen (if GC_all_interior_pointers (mk_gc m) then Inr result else GC_is_valid_displacement result m) (\<lambda>_. Inr result))"

definition GC_pre_incr :: "u64 \<Rightarrow> u64 \<Rightarrow> marker \<Rightarrow> (u64 \<times> marker) res" where
  "GC_pre_incr p how_much m =
     andThen (incremented (word_at m p) how_much m) (\<lambda>result.
       Inr (result, m\<lparr>mk_gc := (mk_gc m)\<lparr>gc_mem := (gc_mem (mk_gc m))(p := result)\<rparr>\<rparr>))"

definition GC_post_incr :: "u64 \<Rightarrow> u64 \<Rightarrow> marker \<Rightarrow> (u64 \<times> marker) res" where
  "GC_post_incr p how_much m =
     andThen (incremented (word_at m p) how_much m) (\<lambda>result.
       Inr (word_at m p, m\<lparr>mk_gc := (mk_gc m)\<lparr>gc_mem := (gc_mem (mk_gc m))(p := result)\<rparr>\<rparr>))"

end
