(* ===== verification/Atomix_GC_Check_Laws.thy ===== *)
theory Atomix_GC_Check_Laws
  imports Atomix_GC_Check Atomix_GC_Cycle_Laws
begin

unbundle bit_operations_syntax

text \<open>
  What the checks of pointers accept: \<open>GC_same_obj\<close> exactly the pointers into the same object, and
  \<open>GC_is_visible\<close>, in objects with a bit map, other words than the marker follows.
\<close>

section \<open>Objects of a block\<close>

lemma object_start:
  fixes p sz :: u64
  assumes "0 < sz"
  shows "p - HBLKDISPL p mod sz = HBLKPTR p + HBLKDISPL p div sz * sz"
proof -
  have "p = HBLKPTR p + (HBLKDISPL p div sz * sz + HBLKDISPL p mod sz)"
    using page_split [of p] by (simp only: word_mod_div_equality)
  then show ?thesis by (metis add.assoc add_diff_cancel_right')
qed

lemma div_eq_nat: "d div s = i \<longleftrightarrow> i * s \<le> d \<and> d < i * s + s" if "0 < s" for s d i :: nat
  using that dividend_less_times_div [of s d] by (auto simp: mult.commute add.commute intro: div_nat_eqI)

lemma unat_displ:
  assumes "unat (HBLKPTR p) + 8192 < 2 ^ 64" "unat x < 8192"
  shows "unat (HBLKPTR p + x) = unat (HBLKPTR p) + unat x"
  using assms unat_step [of "HBLKPTR p" "unat x"] by simp

text \<open>For a pointer into a block of small objects, \<open>GC_same_obj\<close> accepts exactly the pointers to
  objects with the same number in the same block and reports every other one.\<close>

theorem same_obj_accepts_same_object:
  assumes "HDR p g = Inr e" "e \<noteq> 0" "\<not> IS_FORWARDING_ADDR_OR_NIL e" "get_hdr e g = Inr hhdr"
    and "0 < hb_sz hhdr" "hb_sz hhdr \<le> MAXOBJBYTES" "unat (HBLKPTR p) + 8192 < 2 ^ 64"
  shows "GC_same_obj p q g =
    (if HBLKPTR q = HBLKPTR p \<and> HBLKDISPL q div hb_sz hhdr = HBLKDISPL p div hb_sz hhdr then Inr p
     else Inl (Panic ''GC_same_obj test failed''))"
proof -
  let ?sz = "hb_sz hhdr" and ?k = "HBLKDISPL p div hb_sz hhdr"
  have "q < p - HBLKDISPL p mod ?sz + ?sz \<and> p - HBLKDISPL p mod ?sz \<le> q \<longleftrightarrow> HBLKDISPL q div ?sz = ?k"
    if page: "HBLKPTR q = HBLKPTR p"
  proof -
    let ?d = "unat (HBLKDISPL q)" and ?s = "unat ?sz" and ?i = "unat ?k"
    have s: "0 < ?s" "?s \<le> 2048" using assms(5,6) by (simp_all add: word_less_nat_alt word_le_nat_alt unat_gt_0)
    have "?i * ?s \<le> unat (HBLKDISPL p)" by (simp add: unat_div)
    then have i: "?i * ?s < 4096" using displ_bound [of p] by linarith
    have u: "unat (?k * ?sz) = ?i * ?s" using i by (subst unat_mult_lem [THEN iffD1]) simp_all
    have u': "unat (?k * ?sz + ?sz) = ?i * ?s + ?s" using i s u by (subst unat_add_lem [THEN iffD1]) simp_all
    have q: "unat q = unat (HBLKPTR p) + ?d"
      using unat_displ [OF assms(7), of "HBLKDISPL q"] displ_bound [of q] page_split [of q] page by simp
    have b: "unat (HBLKPTR p + ?k * ?sz) = unat (HBLKPTR p) + ?i * ?s"
      using unat_displ [OF assms(7), of "?k * ?sz"] u i by simp
    have l: "unat (HBLKPTR p + ?k * ?sz + ?sz) = unat (HBLKPTR p) + (?i * ?s + ?s)"
      using unat_displ [OF assms(7), of "?k * ?sz + ?sz"] u' i s by (simp add: add.assoc)
    have "HBLKDISPL q div ?sz = ?k \<longleftrightarrow> ?d div ?s = ?i" by (simp add: word_unat_eq_iff unat_div)
    also have "\<dots> \<longleftrightarrow> ?i * ?s \<le> ?d \<and> ?d < ?i * ?s + ?s"
      by (rule div_eq_nat [OF s(1)])
    finally show ?thesis unfolding object_start [OF assms(5)] word_less_nat_alt [of q] word_le_nat_alt [of _ q] q b l by auto
  qed
  moreover have "\<not> MAXOBJBYTES < ?sz" using assms(6) by simp
  ultimately show ?thesis
    using assms(1-4) by (auto simp: GC_same_obj_def same_object_def same_small_or_first_def Let_def)
qed


text \<open>The block of objects of 16 bytes.\<close>

lemma two_objects_HDR: "HDR p (mk_gc two_objects) = Inr (if drop_bit 12 p = 16 then 4096 else 0)"
  using two_objects_entry [of p] HDR_total [OF two_objects_index, of p] by (auto simp: entry_of_def)

lemma same_obj_accepts_same_object_witness:
  "GC_same_obj 0x10018 0x10010 (mk_gc two_objects) = Inr 0x10018 \<and>
   GC_same_obj 0x10018 0x10000 (mk_gc two_objects) = Inl (Panic ''GC_same_obj test failed'')"
proof -
  have 1: "HDR 0x10018 (mk_gc two_objects) = Inr 4096" by (simp add: two_objects_HDR)
  have 2: "get_hdr 4096 (mk_gc two_objects) = Inr block_header" by (rule get_hdr_in_use) (simp add: two_objects_in_use)
  have "GC_same_obj 0x10018 q (mk_gc two_objects) =
    (if HBLKPTR q = HBLKPTR 0x10018 \<and> HBLKDISPL q div hb_sz block_header = HBLKDISPL 0x10018 div hb_sz block_header then Inr 0x10018
     else Inl (Panic ''GC_same_obj test failed''))" for q
    by (rule same_obj_accepts_same_object [OF 1 _ _ 2]) (simp_all add: two_objects_header HBLKPTR_def IS_FORWARDING_ADDR_OR_NIL_def)
  then show ?thesis by (simp add: two_objects_header HBLKPTR_def HBLKDISPL_def)
qed

section \<open>Words of an object with a bit map\<close>

text \<open>C31: For a word of an object whose descriptor is a bit map, \<open>GC_is_visible\<close> does not test the bit
  that the marker tests, which is 63 less the number of the word, but the one that is 63 less the
  offset in bytes; from the ninth word on the shift is by a negative amount, which is undefined in C.\<close>

theorem is_visible_tests_wrong_bit:
  assumes "HDR p (mk_gc (cl_marker c)) = Inr e" "e \<noteq> 0" "get_hdr e (mk_gc (cl_marker c)) = Inr hhdr" "hb_descr hhdr AND 3 = 1"
    and "GC_base p (mk_gc (cl_marker c)) = Inr base" "base \<noteq> 0" "HBLKPTR base = HBLKPTR p"
    and "p = base + 8 * word_of_nat k" "k < 62" "p AND 7 = 0" "\<not> GC_on_stack rt p" "0 < rt_rounds rt"
  shows "GC_is_visible rt p c =
    (if 8 \<le> k then Inl (Fault Bad_Shift)
     else if bit (hb_descr hhdr) (63 - 8 * k) then Inr (p, c)
     else Inl (Panic ''GC_is_visible test failed''))"
proof -
  obtain n where n: "rt_rounds rt = Suc n" using assms(12) by (cases "rt_rounds rt") auto
  have d: "p - base = 8 * word_of_nat k" using assms(8) by simp
  have u: "unat (8 * word_of_nat k :: u64) = 8 * k" using assms(9) by (simp add: unat_word_ariths unat_of_nat)
  have "\<not> 62 * 8 \<le> p - base" "64 \<le> p - base \<longleftrightarrow> 8 \<le> k" using assms(9) unfolding d word_le_nat_alt u by auto
  moreover have "push_bit (63 - 8 * k) 1 AND hb_descr hhdr \<noteq> 0 \<longleftrightarrow> bit (hb_descr hhdr) (63 - 8 * k)"
    by (simp add: bit_iff_and_push_bit_not_eq_0 and.commute)
  moreover have "64 - unat (p - base) - 1 = 63 - 8 * k" unfolding d u by simp
  ultimately have "described_at (rt_rounds rt) (hb_descr hhdr) base p m =
      (if 8 \<le> k then Inl (Fault Bad_Shift) else Inr (bit (hb_descr hhdr) (63 - 8 * k)))" for m
    using assms(4,10) unfolding n by (simp add: Let_def)
  then show ?thesis
    using assms by (simp add: GC_is_visible_def visible_in_heap_def)
qed

text \<open>The heap with two objects, of which only the second word is a pointer.\<close>

definition second_word_heap :: collector where
  "second_word_heap =
     no_roots\<lparr>cl_marker := two_objects\<lparr>mk_gc := (mk_gc two_objects)
       \<lparr>gc_hdrs := [block_header\<lparr>hb_descr := 0x4000000000000001\<rparr>]\<rparr>\<rparr>\<rparr>"

lemma is_visible_tests_wrong_bit_witness:
  "GC_is_visible quiet_runtime 0x10008 second_word_heap = Inl (Panic ''GC_is_visible test failed'')"
proof -
  let ?g = "mk_gc (cl_marker second_word_heap)" and ?h = "block_header\<lparr>hb_descr := 0x4000000000000001\<rparr>"
  have "HDR 0x10008 ?g = HDR 0x10008 (mk_gc two_objects)" by (rule HDR_cong) (simp_all add: second_word_heap_def)
  then have 1: "HDR 0x10008 ?g = Inr 4096" by (simp add: two_objects_HDR)
  have 2: "get_hdr 4096 ?g = Inr ?h" by (simp add: second_word_heap_def get_hdr_def hdr_index_def deref_def)
  have 3: "GC_base 0x10008 ?g = Inr 0x10000"
    unfolding GC_base_def 1
    by (simp add: 2 two_objects_header HBLKPTR_def HBLKDISPL_def HBLK_IS_FREE_def FREE_BLK_def zero_hdr_def IS_FORWARDING_ADDR_OR_NIL_def)
  have 4: "\<not> GC_on_stack quiet_runtime 0x10008" by (simp add: GC_on_stack_def quiet_runtime_def)
  have "GC_is_visible quiet_runtime 0x10008 second_word_heap =
    (if 8 \<le> (1 :: nat) then Inl (Fault Bad_Shift)
     else if bit (hb_descr ?h) (63 - 8 * 1) then Inr (0x10008, second_word_heap)
     else Inl (Panic ''GC_is_visible test failed''))"
    by (rule is_visible_tests_wrong_bit [OF 1 _ 2 _ 3 _ _ _ _ _ 4]) (simp_all add: HBLKPTR_def quiet_runtime_def)
  moreover have "\<not> bit (hb_descr ?h) (63 - 8 * 1)" by (simp add: bit_iff_odd)
  ultimately show ?thesis by (simp del: hdr.simps)
qed

end
