(* ===== verification/Atomix_GC_Debug.thy ===== *)
theory Atomix_GC_Debug
  imports Atomix_GC_Typed Atomix_GC_Check
begin

unbundle bit_operations_syntax

text \<open>
  Allocation with debugging information, \<open>dbg_mlc.c\<close>, in the default configuration without back
  pointers: an object starts with a header \<open>oh\<close> of four words (file name, line, size, start flag), and
  an end flag stands behind the object of the client and in the last word. What
  \<open>GC_print_smashed_obj\<close> prints is recorded as the address it is called with; other output is left out.
  File names are addresses. The procedures that \<open>GC_start_debugging_inner\<close> stores in variables are
  those in force once \<open>GC_debugging_started\<close> is set.
\<close>

section \<open>Headers of objects\<close>

definition START_FLAG :: u64 where "START_FLAG = 0xFEDCEDCBfedcedcb"
definition END_FLAG :: u64 where "END_FLAG = 0xBCDECDEFbcdecdef"

abbreviation (input) oh_string :: "u64 \<Rightarrow> u64" where "oh_string p \<equiv> p"
abbreviation (input) oh_int :: "u64 \<Rightarrow> u64" where "oh_int p \<equiv> p + 8"
abbreviation (input) oh_sz :: "u64 \<Rightarrow> u64" where "oh_sz p \<equiv> p + 16"
abbreviation (input) oh_sf :: "u64 \<Rightarrow> u64" where "oh_sf p \<equiv> p + 24"

definition sizeof_oh :: u64 where "sizeof_oh = 32"

definition UNCOLLECTABLE_DEBUG_BYTES :: u64 where "UNCOLLECTABLE_DEBUG_BYTES = sizeof_oh + 8"

definition DEBUG_BYTES :: "gc \<Rightarrow> u64" where
  "DEBUG_BYTES g = UNCOLLECTABLE_DEBUG_BYTES - EXTRA_BYTES g"

definition SIMPLE_ROUNDED_UP_WORDS :: "u64 \<Rightarrow> u64" where
  "SIMPLE_ROUNDED_UP_WORDS n = drop_bit 3 (n + 7)"

text \<open>The last word of an object with \<open>sz\<close> bytes.\<close>

definition end_word :: "u64 \<Rightarrow> u64 \<Rightarrow> u64" where
  "end_word p sz = p + 8 * (drop_bit 3 sz - 1)"

definition GC_has_other_debug_info :: "u64 \<Rightarrow> gc \<Rightarrow> int res" where
  "GC_has_other_debug_info p g =
     (let body = p + sizeof_oh; m = gc_mem g
      in andThen (GC_size p g) (\<lambda>sz.
           if HBLKPTR p \<noteq> HBLKPTR body \<or> sz < DEBUG_BYTES g + EXTRA_BYTES g then Inr 0
           else if m (oh_sf p) \<noteq> START_FLAG XOR body \<and> m (end_word p sz) \<noteq> END_FLAG XOR body then Inr 0
           else if m (oh_sz p) = sz then Inr (- 1)
           else Inr 1))"

definition GC_HAS_DEBUG_INFO :: "u64 \<Rightarrow> gc \<Rightarrow> bool res" where
  "GC_HAS_DEBUG_INFO p g = andThen (GC_has_other_debug_info p g) (\<lambda>r. Inr (0 < r))"

definition GC_store_debug_info_inner :: "u64 \<Rightarrow> u64 \<Rightarrow> u64 \<Rightarrow> u64 \<Rightarrow> gc \<Rightarrow> (u64 \<times> gc) res" where
  "GC_store_debug_info_inner p sz string linenum g =
     (let result = p + sizeof_oh; flag = END_FLAG XOR result;
          m = (gc_mem g)(oh_string p := string, oh_int p := linenum, oh_sz p := sz, oh_sf p := START_FLAG XOR result,
                result + 8 * SIMPLE_ROUNDED_UP_WORDS sz := flag)
      in andThen (GC_size p g) (\<lambda>size'. Inr (result, g\<lparr>gc_mem := m(end_word p size' := flag)\<rparr>)))"

definition GC_start_debugging_inner :: "allocator \<Rightarrow> allocator res" where
  "GC_start_debugging_inner a =
     lift_collector (lift_marker (GC_register_displacement_inner sizeof_oh)) (on_gc (\<lambda>g. g\<lparr>GC_debugging_started := True\<rparr>) a)"

definition store_debug_info :: "u64 \<Rightarrow> u64 \<Rightarrow> u64 \<Rightarrow> u64 \<Rightarrow> allocator \<Rightarrow> (u64 \<times> allocator) res" where
  "store_debug_info p lb s i a =
     (if p = 0 then Inr (0, a)
      else
        andThen (if GC_debugging_started (the_gc a) then Inr a else GC_start_debugging_inner a)
          (run_gc_with (GC_store_debug_info_inner p lb s i)))"

text \<open>The clobbered address, or 0 when the object is as it should be.\<close>

definition GC_check_annotated_obj :: "u64 \<Rightarrow> gc \<Rightarrow> u64 res" where
  "GC_check_annotated_obj ohdr g =
     (let body = ohdr + sizeof_oh; m = gc_mem g; flag = END_FLAG XOR body
      in andThen (GC_size ohdr g) (\<lambda>gc_sz.
           let client_end = body + 8 * SIMPLE_ROUNDED_UP_WORDS (m (oh_sz ohdr))
           in Inr (if gc_sz < m (oh_sz ohdr) + DEBUG_BYTES g then oh_sz ohdr
                   else if m (oh_sf ohdr) \<noteq> START_FLAG XOR body then oh_sf ohdr
                   else if m (end_word ohdr gc_sz) \<noteq> flag then end_word ohdr gc_sz
                   else if m client_end \<noteq> flag then client_end
                   else 0)))"

definition GC_get_debug_header_size :: u64 where "GC_get_debug_header_size = sizeof_oh"

definition GC_debug_register_displacement :: "u64 \<Rightarrow> allocator \<Rightarrow> allocator res" where
  "GC_debug_register_displacement offset a =
     andThen (lift_collector (lift_marker (GC_register_displacement_inner offset)) a)
       (lift_collector (lift_marker (GC_register_displacement_inner (sizeof_oh + offset))))"

section \<open>Allocation\<close>

text \<open>An object with room for the debugging information, which is stored in it.\<close>

definition with_debug_info ::
    "(u64 \<Rightarrow> allocator \<Rightarrow> (u64 \<times> allocator) res) \<Rightarrow> u64 \<Rightarrow> u64 \<Rightarrow> u64 \<Rightarrow> u64 \<Rightarrow> allocator \<Rightarrow> (u64 \<times> allocator) res" where
  "with_debug_info alloc extra lb s i a =
     andThen (alloc (SIZET_SAT_ADD lb extra) a) (\<lambda>(result, a1). store_debug_info result lb s i a1)"

definition GC_debug_malloc :: "runtime \<Rightarrow> u64 \<Rightarrow> u64 \<Rightarrow> u64 \<Rightarrow> allocator \<Rightarrow> (u64 \<times> allocator) res" where
  "GC_debug_malloc rt lb s i a = with_debug_info (GC_malloc rt) (DEBUG_BYTES (the_gc a)) lb s i a"

definition GC_debug_malloc_ignore_off_page :: "runtime \<Rightarrow> u64 \<Rightarrow> u64 \<Rightarrow> u64 \<Rightarrow> allocator \<Rightarrow> (u64 \<times> allocator) res" where
  "GC_debug_malloc_ignore_off_page rt lb s i a =
     with_debug_info (GC_malloc_ignore_off_page rt) (DEBUG_BYTES (the_gc a)) lb s i a"

definition GC_debug_malloc_atomic_ignore_off_page :: "runtime \<Rightarrow> u64 \<Rightarrow> u64 \<Rightarrow> u64 \<Rightarrow> allocator \<Rightarrow> (u64 \<times> allocator) res" where
  "GC_debug_malloc_atomic_ignore_off_page rt lb s i a =
     with_debug_info (GC_malloc_atomic_ignore_off_page rt) (DEBUG_BYTES (the_gc a)) lb s i a"

definition GC_debug_generic_malloc :: "runtime \<Rightarrow> u64 \<Rightarrow> u8 \<Rightarrow> u64 \<Rightarrow> u64 \<Rightarrow> allocator \<Rightarrow> (u64 \<times> allocator) res" where
  "GC_debug_generic_malloc rt lb knd s i a =
     with_debug_info (\<lambda>lb. GC_generic_malloc rt lb knd) (DEBUG_BYTES (the_gc a)) lb s i a"

definition GC_debug_malloc_stubborn :: "runtime \<Rightarrow> u64 \<Rightarrow> u64 \<Rightarrow> u64 \<Rightarrow> allocator \<Rightarrow> (u64 \<times> allocator) res" where
  "GC_debug_malloc_stubborn = GC_debug_malloc"

definition GC_debug_malloc_atomic :: "runtime \<Rightarrow> u64 \<Rightarrow> u64 \<Rightarrow> u64 \<Rightarrow> allocator \<Rightarrow> (u64 \<times> allocator) res" where
  "GC_debug_malloc_atomic rt lb s i a = with_debug_info (GC_malloc_atomic rt) (DEBUG_BYTES (the_gc a)) lb s i a"

definition GC_debug_malloc_uncollectable :: "runtime \<Rightarrow> u64 \<Rightarrow> u64 \<Rightarrow> u64 \<Rightarrow> allocator \<Rightarrow> (u64 \<times> allocator) res" where
  "GC_debug_malloc_uncollectable rt lb s i = with_debug_info (GC_malloc_uncollectable rt) UNCOLLECTABLE_DEBUG_BYTES lb s i"

definition GC_debug_strdup :: "runtime \<Rightarrow> u64 \<Rightarrow> u64 \<Rightarrow> u64 \<Rightarrow> allocator \<Rightarrow> (u64 \<times> allocator) res" where
  "GC_debug_strdup rt str s i a =
     (if str = 0 then Inr (0, a)
      else
        andThen (strlen (rt_rounds rt) str (gc_mem (the_gc a))) (\<lambda>len.
        andThen (GC_debug_malloc_atomic rt (len + 1) s i a) (\<lambda>(copy, a1).
          Inr (copy, if copy = 0 then a1 else on_mem (BCOPY str copy (unat (len + 1))) a1))))"

definition GC_debug_strndup :: "runtime \<Rightarrow> u64 \<Rightarrow> u64 \<Rightarrow> u64 \<Rightarrow> u64 \<Rightarrow> allocator \<Rightarrow> (u64 \<times> allocator) res" where
  "GC_debug_strndup rt str n s i a =
     andThen (if str = 0 then Inl (Fault Null_Deref) else strlen (rt_rounds rt) str (gc_mem (the_gc a))) (\<lambda>l.
       let len = (if n < l then n else l)
       in andThen (GC_debug_malloc_atomic rt (len + 1) s i a) (\<lambda>(copy, a1).
            Inr (copy, if copy = 0 then a1 else on_mem (put_byte (copy + len) 0 \<circ> BCOPY str copy (unat len)) a1)))"

section \<open>Stores\<close>

definition GC_debug_end_stubborn_change :: "u64 \<Rightarrow> gc \<Rightarrow> gc res" where
  "GC_debug_end_stubborn_change p g =
     andThen (GC_base p g) (\<lambda>q. if q = 0 then Inl (Panic ''GC_debug_end_stubborn_change: bad arg'') else Inr g)"

text \<open>C leaves the order of the two checks open; they differ only in which of two errors is reported.\<close>

definition GC_debug_ptr_store_and_dirty :: "runtime \<Rightarrow> u64 \<Rightarrow> u64 \<Rightarrow> allocator \<Rightarrow> allocator res" where
  "GC_debug_ptr_store_and_dirty rt p q a =
     andThen (GC_is_visible rt p (al_collector a)) (\<lambda>(p', c).
     andThen (GC_is_valid_displacement q (cl_marker c)) (\<lambda>q'.
       run_gc (GC_debug_end_stubborn_change p) (store p' q' (a\<lparr>al_collector := c\<rparr>))))"

section \<open>Smashed objects\<close>

definition MAX_SMASHED :: nat where "MAX_SMASHED = 20"

definition GC_add_smashed :: "u64 \<Rightarrow> gc \<Rightarrow> gc" where
  "GC_add_smashed smashed g =
     g\<lparr>GC_smashed := (GC_smashed g)[GC_n_smashed g := smashed],
       GC_n_smashed := if GC_n_smashed g < MAX_SMASHED - 1 then GC_n_smashed g + 1 else GC_n_smashed g,
       GC_have_errors := True\<rparr>"

definition GC_print_smashed_obj :: "u64 \<Rightarrow> gc \<Rightarrow> gc" where
  "GC_print_smashed_obj clobbered_addr g = g\<lparr>smash_reports := smash_reports g @ [clobbered_addr]\<rparr>"

definition GC_print_all_smashed_proc :: "gc \<Rightarrow> gc" where
  "GC_print_all_smashed_proc g =
     (fold (\<lambda>i g. (GC_print_smashed_obj (GC_smashed g ! i) g)\<lparr>GC_smashed := (GC_smashed g)[i := 0]\<rparr>) [0 ..< GC_n_smashed g] g)
       \<lparr>GC_n_smashed := 0\<rparr>"

text \<open>The marked objects of a block from \<open>p\<close> to \<open>plim\<close>.\<close>

primrec check_block_from :: "nat \<Rightarrow> hdr \<Rightarrow> u64 \<Rightarrow> u64 \<Rightarrow> u64 \<Rightarrow> u64 \<Rightarrow> gc \<Rightarrow> gc res" where
  "check_block_from 0 hhdr sz plim p bit_no g = Inl Diverge"
| "check_block_from (Suc n) hhdr sz plim p bit_no g =
     (if p \<le> plim
      then
        andThen (mark_bit_from_hdr hhdr bit_no) (\<lambda>marked.
        andThen (if marked then GC_HAS_DEBUG_INFO p g else Inr False) (\<lambda>check.
        andThen (if check then GC_check_annotated_obj p g else Inr 0) (\<lambda>clobbered.
          check_block_from n hhdr sz plim (p + sz) (bit_no + MARK_BIT_OFFSET sz)
            (if clobbered \<noteq> 0 then GC_add_smashed clobbered g else g))))
      else Inr g)"

definition GC_check_heap_block :: "u64 \<Rightarrow> gc \<Rightarrow> gc res" where
  "GC_check_heap_block hbp g =
     andThen (hdr_of hbp g) (\<lambda>hhdr.
       let sz = hb_sz hhdr
       in check_block_from 513 hhdr sz (if MAXOBJBYTES < sz then hbp else hbp + HBLKSIZE - sz) hbp 0 g)"

definition GC_check_heap_proc :: "gc \<Rightarrow> gc res" where
  "GC_check_heap_proc = GC_apply_to_all_blocks GC_check_heap_block"

section \<open>Freeing\<close>

definition GC_FREED_MEM_MARKER :: u64 where "GC_FREED_MEM_MARKER = 0xEFBEADDEdeadbeef"

definition fill_words :: "u64 \<Rightarrow> nat \<Rightarrow> u64 \<Rightarrow> mem \<Rightarrow> mem" where
  "fill_words p n x m = fold (\<lambda>i m. m(p + 8 * word_of_nat i := x)) [0 ..< n] m"

text \<open>The check before an object is freed; \<open>False\<close> when it seems to be free already.\<close>

definition free_debug_info :: "u64 \<Rightarrow> gc \<Rightarrow> (bool \<times> gc) res" where
  "free_debug_info base g =
     andThen (GC_check_annotated_obj base g) (\<lambda>clobbered.
     andThen (GC_size base g) (\<lambda>sz.
       let g1 = (if clobbered \<noteq> 0 then GC_print_smashed_obj clobbered (g\<lparr>GC_have_errors := True\<rparr>) else g)
       in Inr (if clobbered \<noteq> 0 \<and> gc_mem g (oh_sz base) = sz then (False, g1)
               else (True, g1\<lparr>gc_mem := (gc_mem g1)(oh_sz base := sz)\<rparr>))))"

text \<open>An object that is not freed at once is overwritten, for the check of leaked objects. For an object
  that is smaller than the header the number of words wraps around to almost \<open>2 ^ 61\<close>; the loop runs
  on until it leaves the memory of the process.\<close>

definition delay_free :: "u64 \<Rightarrow> u64 \<Rightarrow> gc \<Rightarrow> gc res" where
  "delay_free p base g =
     andThen (hdr_of p g) (\<lambda>hhdr.
       let sz = hb_sz hhdr; obj_sz = drop_bit 3 (sz - sizeof_oh)
       in if hb_obj_kind hhdr = 2 then GC_free base g
          else if sz < sizeof_oh then Inl (Fault Out_Of_Bounds)
          else
            Inr (g\<lparr>gc_mem := fill_words p (unat obj_sz) GC_FREED_MEM_MARKER (gc_mem g), GC_bytes_freed := GC_bytes_freed g + sz\<rparr>))"

definition GC_debug_free :: "u64 \<Rightarrow> gc \<Rightarrow> gc res" where
  "GC_debug_free p g =
     (if p = 0 then Inr g
      else
        andThen (GC_base p g) (\<lambda>base.
          if base = 0 then Inl (Panic ''Invalid pointer passed to free()'')
          else
            andThen (if p - base \<noteq> sizeof_oh then Inr (True, g) else free_debug_info base g) (\<lambda>(go_on, g1).
              if \<not> go_on then Inr g1
              else if GC_find_leak g1 \<and> (p - base \<noteq> sizeof_oh \<or> \<not> GC_findleak_delay_free g1) then GC_free base g1
              else delay_free p base g1)))"

definition GC_debug_generic_or_special_malloc :: "runtime \<Rightarrow> u64 \<Rightarrow> u8 \<Rightarrow> u64 \<Rightarrow> u64 \<Rightarrow> allocator \<Rightarrow> (u64 \<times> allocator) res" where
  "GC_debug_generic_or_special_malloc rt lb knd s i =
     (if knd = PTRFREE then GC_debug_malloc_atomic rt lb s i
      else if knd = 1 then GC_debug_malloc rt lb s i
      else if knd = 2 then GC_debug_malloc_uncollectable rt lb s i
      else GC_debug_generic_malloc rt lb knd s i)"

definition GC_debug_realloc :: "runtime \<Rightarrow> u64 \<Rightarrow> u64 \<Rightarrow> u64 \<Rightarrow> u64 \<Rightarrow> allocator \<Rightarrow> (u64 \<times> allocator) res" where
  "GC_debug_realloc rt p lb s i a =
     (if p = 0 then GC_debug_malloc rt lb s i a
      else if lb = 0 then andThen (run_gc (GC_debug_free p) a) (\<lambda>a1. Inr (0, a1))
      else
        andThen (GC_base p (the_gc a)) (\<lambda>base.
          if base = 0 then Inl (Panic ''Invalid pointer passed to realloc()'')
          else if p - base \<noteq> sizeof_oh then GC_realloc rt p lb a
          else
            andThen (hdr_of base (the_gc a)) (\<lambda>hhdr.
            andThen
              (if hb_obj_kind hhdr = 1 then GC_debug_malloc rt lb s i a
               else if hb_obj_kind hhdr = PTRFREE then GC_debug_malloc_atomic rt lb s i a
               else if hb_obj_kind hhdr = 2 then GC_debug_malloc_uncollectable rt lb s i a
               else GC_debug_generic_malloc rt lb (hb_obj_kind hhdr) s i a) (\<lambda>(result, a1).
              if result = 0 then Inr (0, a1)
              else
                let old_sz = load (oh_sz base) a1;
                    a2 = on_mem (BCOPY p result (unat (if old_sz < lb then old_sz else lb))) a1
                in andThen (run_gc (GC_debug_free p) a2) (\<lambda>a3. Inr (result, a3))))))"

text \<open>Whether an unmarked object has leaked. One that was freed is checked for writes since then.\<close>

definition first_not_marker :: "u64 \<Rightarrow> nat \<Rightarrow> mem \<Rightarrow> nat option" where
  "first_not_marker p n m = List.find (\<lambda>i. m (p + 8 * word_of_nat i) \<noteq> GC_FREED_MEM_MARKER) [0 ..< n]"

definition GC_check_leaked :: "u64 \<Rightarrow> gc \<Rightarrow> (bool \<times> gc) res" where
  "GC_check_leaked base g =
     andThen (GC_has_other_debug_info base g) (\<lambda>r.
       if 0 \<le> r then Inr (True, g)
       else
         andThen (hdr_of base g) (\<lambda>hhdr.
           let p = base + sizeof_oh; obj_sz = drop_bit 3 (hb_sz hhdr - sizeof_oh)
           in case first_not_marker p (unat obj_sz) (gc_mem g) of
                None \<Rightarrow> Inr (False, g)
              | Some i \<Rightarrow>
                  andThen (GC_set_mark_bit base g) (\<lambda>g1. Inr (False, GC_add_smashed (p + 8 * word_of_nat i) g1))))"

section \<open>Finalizers\<close>

text \<open>A closure has the finalizer in its first word and the data in the second. The address of
  \<open>GC_debug_invoke_finalizer\<close> is a parameter.\<close>

abbreviation (input) cl_fn :: "u64 \<Rightarrow> u64" where "cl_fn p \<equiv> p"
abbreviation (input) cl_data :: "u64 \<Rightarrow> u64" where "cl_data p \<equiv> p + 8"

definition GC_make_closure :: "runtime \<Rightarrow> u64 \<Rightarrow> u64 \<Rightarrow> allocator \<Rightarrow> (u64 \<times> allocator) res" where
  "GC_make_closure rt fn data a =
     andThen (GC_malloc rt 16 a) (\<lambda>(result, a1).
       Inr (result, if result = 0 then a1 else store (cl_data result) data (store (cl_fn result) fn a1)))"

definition GC_debug_invoke_finalizer :: "u64 \<Rightarrow> finalizers \<Rightarrow> finalizers" where
  "GC_debug_invoke_finalizer invoke run fn obj data a =
     (if fn = invoke then run (load (cl_fn data) a) (obj + sizeof_oh) (load (cl_data data) a) a else run fn obj data a)"

text \<open>What the caller learns of the finalizer before: \<open>None\<close> when its variables are left alone, as
  they are when the registration failed or the finalizer is not one of these.\<close>

definition store_old :: "u64 \<Rightarrow> (u64 \<times> u64) option \<Rightarrow> allocator \<Rightarrow> (u64 \<times> u64) option" where
  "store_old invoke my_old a =
     (case my_old of
        None \<Rightarrow> None
      | Some (my_old_fn, my_old_cd) \<Rightarrow>
          if my_old_fn = 0 then Some (0, 0)
          else if my_old_fn \<noteq> invoke then None
          else Some (load (cl_fn my_old_cd) a, load (cl_data my_old_cd) a))"

type_synonym register_fn = "u64 \<Rightarrow> u64 \<Rightarrow> u64 \<Rightarrow> allocator \<Rightarrow> ((u64 \<times> u64) option \<times> allocator) res"

definition debug_register :: "register_fn \<Rightarrow> u64 \<Rightarrow> runtime \<Rightarrow> register_fn" where
  "debug_register register invoke rt obj fn cd a =
     andThen (GC_base obj (the_gc a)) (\<lambda>base.
       if base = 0 then Inr (Some (0, 0), a)
       else if fn = 0 then andThen (register base 0 0 a) (\<lambda>(my_old, a1). Inr (store_old invoke my_old a1, a1))
       else
         andThen (GC_make_closure rt fn cd a) (\<lambda>(cl, a1).
           if cl = 0 then Inr (None, a1)
           else andThen (register base invoke cl a1) (\<lambda>(my_old, a2). Inr (store_old invoke my_old a2, a2))))"

definition GC_debug_register_finalizer :: "u64 \<Rightarrow> runtime \<Rightarrow> register_fn" where
  "GC_debug_register_finalizer invoke rt = debug_register (GC_register_finalizer rt) invoke rt"

definition GC_debug_register_finalizer_no_order :: "u64 \<Rightarrow> runtime \<Rightarrow> register_fn" where
  "GC_debug_register_finalizer_no_order invoke rt = debug_register (GC_register_finalizer_no_order rt) invoke rt"

definition GC_debug_register_finalizer_unreachable :: "u64 \<Rightarrow> runtime \<Rightarrow> register_fn" where
  "GC_debug_register_finalizer_unreachable invoke rt = debug_register (GC_register_finalizer_unreachable rt) invoke rt"

definition GC_debug_register_finalizer_ignore_self :: "u64 \<Rightarrow> runtime \<Rightarrow> register_fn" where
  "GC_debug_register_finalizer_ignore_self invoke rt = debug_register (GC_register_finalizer_ignore_self rt) invoke rt"

section \<open>Replacements\<close>

text \<open>The file name of a call without one is the address of \<open>"unknown"\<close>, a parameter.\<close>

definition GC_debug_malloc_replacement :: "u64 \<Rightarrow> runtime \<Rightarrow> u64 \<Rightarrow> allocator \<Rightarrow> (u64 \<times> allocator) res" where
  "GC_debug_malloc_replacement unknown rt lb = GC_debug_malloc rt lb unknown 0"

definition GC_debug_realloc_replacement :: "u64 \<Rightarrow> runtime \<Rightarrow> u64 \<Rightarrow> u64 \<Rightarrow> allocator \<Rightarrow> (u64 \<times> allocator) res" where
  "GC_debug_realloc_replacement unknown rt p lb = GC_debug_realloc rt p lb unknown 0"

end
