(* ===== verification/Atomix_GC_Debug_Laws.thy ===== *)
theory Atomix_GC_Debug_Laws
  imports Atomix_GC_Debug Atomix_GC_Malloc_Laws
begin

unbundle bit_operations_syntax

text \<open>
  What the debugging information detects: a write to one of the guards around an object of the
  client. Two limits of the code: of the smashed objects only the first 19 are reported, and freeing
  a small object without debugging information overwrites memory until the process fails.
\<close>

section \<open>Guards\<close>

lemma GC_size_cong: "bottom_indices g' = bottom_indices g \<Longrightarrow> GC_top_index g' = GC_top_index g \<Longrightarrow> gc_hdrs g' = gc_hdrs g \<Longrightarrow>
    GC_size p g' = GC_size p g"
  unfolding GC_size_def hdr_of_def HDR_cong [of g' g] get_hdr_def by simp

lemma GC_size_mem [simp]: "GC_size p (g\<lparr>gc_mem := m\<rparr>) = GC_size p g"
  by (rule GC_size_cong) simp_all

text \<open>The guards of the object at \<open>p\<close> with \<open>size'\<close> bytes, of which \<open>lb\<close> belong to the client.\<close>

definition guards :: "u64 \<Rightarrow> u64 \<Rightarrow> u64 \<Rightarrow> u64 set" where
  "guards p lb size' = {p + 24, p + 32 + 8 * SIMPLE_ROUNDED_UP_WORDS lb, end_word p size'}"

lemma inside_nonzero: "p + x \<noteq> 0" if "x \<le> n" "unat p + unat n < 2 ^ 64" "p \<noteq> 0" for p x n :: u64
proof -
  have "unat p + unat x < 2 ^ 64" using that(1,2) by (simp add: word_le_nat_alt)
  then have "unat (p + x) = unat p + unat x" using unat_step [of p "unat x"] by simp
  moreover have "0 < unat p" using that(3) by (simp add: unat_gt_0)
  ultimately show ?thesis by auto
qed

lemma client_end:
  assumes "lb < 2 ^ 62"
  shows "unat (32 + 8 * SIMPLE_ROUNDED_UP_WORDS lb) = 32 + 8 * ((unat lb + 7) div 8)"
proof -
  have "unat lb < 2 ^ 62" using assms by (simp add: word_less_nat_alt)
  then have "8 * ((unat lb + 7) div 8) < 2 ^ 63" "unat (lb + 7) = unat lb + 7" by (simp_all add: unat_word_ariths)
  moreover from this have "unat (SIMPLE_ROUNDED_UP_WORDS lb) = (unat lb + 7) div 8"
    by (simp add: SIMPLE_ROUNDED_UP_WORDS_def drop_bit_eq_div unat_div)
  ultimately show ?thesis by (simp add: unat_word_ariths)
qed

lemma unat_8_times: "unat (8 * w) = 8 * unat w" if "8 * unat w < 2 ^ 64" for w :: u64
  using that by (simp add: unat_word_ariths)

lemma end_word_displ:
  fixes size' :: u64
  assumes "40 \<le> size'"
  shows "unat (8 * (drop_bit 3 size' - 1)) = 8 * (unat size' div 8 - 1)" "32 \<le> 8 * (unat size' div 8 - 1)"
    "8 * (unat size' div 8 - 1) \<le> unat size'"
proof -
  have d: "unat (drop_bit 3 size') = unat size' div 8" by (simp add: drop_bit_eq_div unat_div)
  have 5: "5 \<le> unat size' div 8" using assms by (simp add: word_le_nat_alt less_eq_div_iff_mult_less_eq)
  have "unat (drop_bit 3 size' - 1) = unat size' div 8 - 1" using d 5 by (subst unat_sub) (simp_all add: word_le_nat_alt)
  moreover have "unat size' < 2 ^ LENGTH(64)" by (rule unsigned_less)
  then have "8 * (unat size' div 8 - 1) < 2 ^ 64" by simp
  ultimately show "unat (8 * (drop_bit 3 size' - 1)) = 8 * (unat size' div 8 - 1)" by (subst unat_8_times) simp_all
  show "32 \<le> 8 * (unat size' div 8 - 1)" "8 * (unat size' div 8 - 1) \<le> unat size'" using 5 by simp_all
qed

text \<open>C32: After \<open>GC_store_debug_info_inner\<close> the object has debugging information and passes the check.
  While the recorded size keeps its value it goes on to pass the check exactly as long as its three guards
  keep theirs, whatever else is written: the start flag, the end flag behind the object of the client
  and the end flag in the last word. A recorded size that no longer fits is reported at its own address,
  whatever the guards hold.\<close>

theorem guards_detect_writes:
  assumes "GC_size p g = Inr size'" "lb + DEBUG_BYTES g \<le> size'" "lb < 2 ^ 62" "40 \<le> size'" "unat p + unat size' < 2 ^ 64" "p \<noteq> 0"
    and "GC_store_debug_info_inner p lb string linenum g = Inr (q, g')"
  shows "q = p + 32 \<and> gc_mem g' (p + 16) = lb \<and> GC_check_annotated_obj p g' = Inr 0 \<and>
    (\<forall>m. m (p + 16) = lb \<longrightarrow>
      (GC_check_annotated_obj p (g'\<lparr>gc_mem := m\<rparr>) = Inr 0 \<longleftrightarrow> (\<forall>a \<in> guards p lb size'. m a = gc_mem g' a))) \<and>
    (\<forall>m. size' < m (p + 16) + DEBUG_BYTES g \<longrightarrow> GC_check_annotated_obj p (g'\<lparr>gc_mem := m\<rparr>) = Inr (p + 16))"
proof -
  let ?flag = "END_FLAG XOR (p + 32)" and ?e = "32 + 8 * SIMPLE_ROUNDED_UP_WORDS lb"
  note ce = client_end [OF assms(3)] and ew = end_word_displ [OF assms(4)]
  have "?e \<noteq> 24" "?e \<noteq> 16" "8 * (drop_bit 3 size' - 1) \<noteq> 24" "8 * (drop_bit 3 size' - 1) \<noteq> 16"
    using ce ew by (auto simp: word_unat_eq_iff)
  then have apart: "p + 24 \<noteq> p + ?e" "p + 16 \<noteq> p + ?e" "p + 24 \<noteq> end_word p size'" "p + 16 \<noteq> end_word p size'"
    unfolding end_word_def by (metis add_left_cancel)+
  have s: "q = p + 32" "GC_size p g' = Inr size'" "DEBUG_BYTES g' = DEBUG_BYTES g"
    using assms(1,7) by (auto simp: GC_store_debug_info_inner_def sizeof_oh_def DEBUG_BYTES_def EXTRA_BYTES_def Let_def)
  have mem: "gc_mem g' (p + 16) = lb" "gc_mem g' (p + 24) = START_FLAG XOR (p + 32)"
    "gc_mem g' (p + ?e) = ?flag" "gc_mem g' (end_word p size') = ?flag"
    using assms(1,7) apart by (auto simp: GC_store_debug_info_inner_def sizeof_oh_def Let_def add.assoc)
  have "unat (lb + DEBUG_BYTES g) = unat lb + unat (DEBUG_BYTES g)" "39 \<le> unat (DEBUG_BYTES g)"
    using assms(3) by (auto simp: DEBUG_BYTES_def UNCOLLECTABLE_DEBUG_BYTES_def sizeof_oh_def EXTRA_BYTES_def word_less_nat_alt unat_word_ariths)
  then have "unat lb + 39 \<le> unat size'" using assms(2) by (simp add: word_le_nat_alt)
  then have "?e \<le> size'" unfolding word_le_nat_alt ce by linarith
  moreover have "24 \<le> size'" using assms(4) by (simp add: word_le_nat_alt)
  moreover have "8 * (drop_bit 3 size' - 1) \<le> size'" unfolding word_le_nat_alt ew(1) by (rule ew(3))
  ultimately have nonzero: "p + ?e \<noteq> 0" "p + 24 \<noteq> 0" "end_word p size' \<noteq> 0"
    unfolding end_word_def by (auto intro!: inside_nonzero [OF _ assms(5,6)] simp del: add_eq_0_iff)
  have check: "GC_check_annotated_obj p (g'\<lparr>gc_mem := m\<rparr>) = Inr 0 \<longleftrightarrow> (\<forall>a \<in> guards p lb size'. m a = gc_mem g' a)"
    if m: "m (p + 16) = lb" for m
  proof -
    have "\<not> size' < lb + DEBUG_BYTES (g'\<lparr>gc_mem := m\<rparr>)"
      using assms(2) s(3) by (simp add: DEBUG_BYTES_def EXTRA_BYTES_def)
    then have "GC_check_annotated_obj p (g'\<lparr>gc_mem := m\<rparr>) =
        Inr (if m (p + 24) \<noteq> START_FLAG XOR (p + 32) then p + 24
             else if m (end_word p size') \<noteq> ?flag then end_word p size'
             else if m (p + ?e) \<noteq> ?flag then p + ?e else 0)"
      by (simp add: GC_check_annotated_obj_def s(2) m sizeof_oh_def add.assoc Let_def)
    then show ?thesis using nonzero mem by (auto simp: guards_def add.assoc)
  qed
  have size: "GC_check_annotated_obj p (g'\<lparr>gc_mem := m\<rparr>) = Inr (p + 16)" if "size' < m (p + 16) + DEBUG_BYTES g" for m
  proof -
    have "DEBUG_BYTES (g'\<lparr>gc_mem := m\<rparr>) = DEBUG_BYTES g" using s(3) by (simp add: DEBUG_BYTES_def EXTRA_BYTES_def)
    then show ?thesis using that by (simp add: GC_check_annotated_obj_def s(2) Let_def)
  qed
  show ?thesis using s(1) check mem(1) check [of "gc_mem g'"] size by simp
qed


text \<open>An object of 64 bytes at 0x10000.\<close>

definition one_debug_object :: gc where
  "one_debug_object = (mk_gc two_objects)\<lparr>gc_hdrs := [block_header\<lparr>hb_sz := 64, hb_obj_kind := 1\<rparr>]\<rparr>"

lemma one_debug_object_header:
  assumes "drop_bit 12 p = 16"
  shows "HDR p one_debug_object = Inr 4096" "get_hdr 4096 one_debug_object = Inr (block_header\<lparr>hb_sz := 64, hb_obj_kind := 1\<rparr>)"
    "hdr_of p one_debug_object = Inr (block_header\<lparr>hb_sz := 64, hb_obj_kind := 1\<rparr>)"
proof -
  have "HDR p (mk_gc two_objects) = Inr 4096"
    using two_objects_entry [of p] HDR_total [OF two_objects_index, of p] assms by (auto simp: entry_of_def)
  moreover have "HDR p one_debug_object = HDR p (mk_gc two_objects)" by (rule HDR_cong) (simp_all add: one_debug_object_def)
  ultimately show h: "HDR p one_debug_object = Inr 4096" by simp
  show g: "get_hdr 4096 one_debug_object = Inr (block_header\<lparr>hb_sz := 64, hb_obj_kind := 1\<rparr>)"
    by (simp add: one_debug_object_def get_hdr_def hdr_index_def deref_def)
  show "hdr_of p one_debug_object = Inr (block_header\<lparr>hb_sz := 64, hb_obj_kind := 1\<rparr>)" by (simp add: hdr_of_def h g)
qed

lemma guards_detect_writes_witness:
  "\<exists>g'. GC_store_debug_info_inner 0x10000 8 0x500 7 one_debug_object = Inr (0x10020, g') \<and>
     GC_check_annotated_obj 0x10000 g' = Inr 0 \<and>
     GC_check_annotated_obj 0x10000 (g'\<lparr>gc_mem := (gc_mem g')(0x10028 := 0)\<rparr>) \<noteq> Inr 0"
proof -
  let ?store = "GC_store_debug_info_inner 0x10000 8 0x500 7 one_debug_object"
  have size: "GC_size 0x10000 one_debug_object = Inr 64" by (simp add: GC_size_def one_debug_object_header)
  have "DEBUG_BYTES one_debug_object = 40"
    by (simp add: DEBUG_BYTES_def EXTRA_BYTES_def UNCOLLECTABLE_DEBUG_BYTES_def sizeof_oh_def one_debug_object_def two_objects_def initial_gc_def)
  then have pre: "8 + DEBUG_BYTES one_debug_object \<le> 64" by simp
  obtain q g' where r: "?store = Inr (q, g')" by (simp add: GC_store_debug_info_inner_def size Let_def)
  have "(8 :: u64) < 2 ^ 62" "(40 :: u64) \<le> 64" "unat (0x10000 :: u64) + unat (64 :: u64) < 2 ^ 64" "(0x10000 :: u64) \<noteq> 0" by simp_all
  note g = guards_detect_writes [OF size pre this r]
  have b: "gc_mem g' 0x10028 \<noteq> 0" "gc_mem g' 0x10010 = 8"
    using r by (auto simp: GC_store_debug_info_inner_def size sizeof_oh_def SIMPLE_ROUNDED_UP_WORDS_def end_word_def END_FLAG_def Let_def)
  have "0x10028 \<in> guards 0x10000 8 64" by (simp add: guards_def SIMPLE_ROUNDED_UP_WORDS_def)
  moreover have "((gc_mem g')(0x10028 := 0)) (0x10000 + 16) = 8" using b(2) by simp
  ultimately have "GC_check_annotated_obj 0x10000 (g'\<lparr>gc_mem := (gc_mem g')(0x10028 := 0)\<rparr>) \<noteq> Inr 0"
    using g b(1) by (metis fun_upd_same)
  moreover have "q = 0x10020" using g by simp
  ultimately show ?thesis using g r by blast
qed

section \<open>Reports of smashed objects\<close>

lemma add_smashed_simps:
  "GC_smashed (GC_add_smashed x g) = (GC_smashed g)[GC_n_smashed g := x]"
  "GC_n_smashed (GC_add_smashed x g) = (if GC_n_smashed g < 19 then Suc (GC_n_smashed g) else GC_n_smashed g)"
  "smash_reports (GC_add_smashed x g) = smash_reports g"
  by (simp_all add: GC_add_smashed_def MAX_SMASHED_def)

lemma add_smashed_list:
  fixes xs :: "u64 list"
  assumes "length (GC_smashed g) = 20" "GC_n_smashed g = 0"
  defines "g' \<equiv> fold GC_add_smashed xs g"
  shows "length (GC_smashed g') = 20 \<and> GC_n_smashed g' = min (length xs) 19 \<and> smash_reports g' = smash_reports g \<and>
    take (min (length xs) 19) (GC_smashed g') = take 19 xs"
  unfolding g'_def
proof (induction xs rule: rev_induct)
  case Nil
  then show ?case using assms by simp
next
  case (snoc x xs)
  let ?g = "fold GC_add_smashed xs g"
  have n: "GC_n_smashed ?g = min (length xs) 19" "length (GC_smashed ?g) = 20" using snoc by simp_all
  show ?case
  proof (cases "length xs < 19")
    case True
    have "take (Suc (length xs)) ((GC_smashed ?g)[length xs := x]) = take (length xs) (GC_smashed ?g) @ [x]"
      using True n(2) by (simp add: take_Suc_conv_app_nth take_update_cancel)
    then show ?thesis using snoc True n by (simp add: add_smashed_simps min_def)
  next
    case False
    then have "min (length xs) 19 = 19" "min (length (xs @ [x])) 19 = 19" by simp_all
    then show ?thesis using snoc n False by (simp add: add_smashed_simps take_update_cancel)
  qed
qed

lemma print_smashed_list:
  assumes "n \<le> length (GC_smashed g)"
  defines "P \<equiv> \<lambda>i g. (GC_print_smashed_obj (GC_smashed g ! i) g)\<lparr>GC_smashed := (GC_smashed g)[i := 0]\<rparr>"
  shows "smash_reports (fold P [0 ..< n] g) = smash_reports g @ take n (GC_smashed g) \<and>
    GC_smashed (fold P [0 ..< n] g) = replicate n 0 @ drop n (GC_smashed g)"
  using assms(1)
proof (induction n)
  case (Suc n)
  then have IH: "smash_reports (fold P [0 ..< n] g) = smash_reports g @ take n (GC_smashed g)"
    "GC_smashed (fold P [0 ..< n] g) = replicate n 0 @ drop n (GC_smashed g)" by simp_all
  have "drop n (GC_smashed g) = GC_smashed g ! n # drop (Suc n) (GC_smashed g)" using Suc.prems by (simp add: Cons_nth_drop_Suc)
  moreover have "(replicate n 0 @ x # r)[n := 0] = replicate n 0 @ 0 # r" for x :: u64 and r
    using list_update_length [of "replicate n 0" x r 0] by simp
  moreover have "P n h = (GC_print_smashed_obj (GC_smashed h ! n) h)\<lparr>GC_smashed := (GC_smashed h)[n := 0]\<rparr>" for h
    by (simp add: P_def)
  ultimately have "smash_reports (P n (fold P [0 ..< n] g)) = smash_reports g @ take (Suc n) (GC_smashed g)"
    "GC_smashed (P n (fold P [0 ..< n] g)) = replicate n 0 @ 0 # drop (Suc n) (GC_smashed g)"
    using IH Suc.prems by (simp_all add: GC_print_smashed_obj_def take_Suc_conv_app_nth nth_append)
  then show ?case by (simp add: replicate_app_Cons_same)
qed simp

text \<open>However many smashed objects a check of the heap finds, \<open>GC_print_all_smashed_proc\<close> reports
  the first 19 of them and no other. The comment on the list says that the last one is kept as well:
  it is stored, but the loop that prints ends before it.\<close>

theorem smashed_objects_lost:
  assumes "length (GC_smashed g) = 20" "GC_n_smashed g = 0"
  shows "smash_reports (GC_print_all_smashed_proc (fold GC_add_smashed xs g)) = smash_reports g @ take 19 xs \<and>
    GC_n_smashed (GC_print_all_smashed_proc (fold GC_add_smashed xs g)) = 0"
proof -
  note a = add_smashed_list [OF assms, of xs]
  then have "GC_n_smashed (fold GC_add_smashed xs g) \<le> length (GC_smashed (fold GC_add_smashed xs g))" by simp
  from print_smashed_list [OF this] a show ?thesis unfolding GC_print_all_smashed_proc_def by simp
qed

lemma smashed_objects_lost_witness:
  "smash_reports (GC_print_all_smashed_proc (fold GC_add_smashed (map word_of_nat [1 ..< 21]) initial_gc)) = map word_of_nat [1 ..< 20]"
  using smashed_objects_lost [of initial_gc "map word_of_nat [1 ..< 21]"] by (simp add: initial_gc_def take_map)

section \<open>Freeing objects without debugging information\<close>

text \<open>Freeing an object without debugging information that is smaller than the header for it writes over
  all memory behind it, until the process ends: the number of words to fill is computed with the size
  of the header subtracted, which wraps around.\<close>

theorem freeing_plain_object_overruns:
  assumes "p \<noteq> 0" "GC_base p g = Inr p" "hdr_of p g = Inr hhdr" "hb_sz hhdr < 32" "hb_obj_kind hhdr \<noteq> 2" "\<not> GC_find_leak g"
  shows "GC_debug_free p g = Inl (Fault Out_Of_Bounds)"
  using assms by (simp add: GC_debug_free_def delay_free_def sizeof_oh_def Let_def)

end
