(* ===== verification/Atomix_GC_Client.thy ===== *)
theory Atomix_GC_Client
  imports Atomix_GC_Debug
begin

unbundle bit_operations_syntax

text \<open>
  The collector as a program sees it: how \<open>GC_init\<close> of \<open>misc.c\<close> reads its settings and builds its
  tables, and the calls of \<open>misc.c\<close>, \<open>alloc.c\<close> and \<open>reclaim.c\<close> that ask for a collection or for
  memory, read a quantity or change a setting. These calls run finalizers around a collection, and a
  collection may report leaked objects.

  The client is a record: the environment variables, what \<open>GC_dirty_init\<close> answers, the base of the
  stack and the data segments that \<open>os_dep.c\<close> finds, the addresses of the variables of the collector
  that are no roots, the finalizers, and what is called when some are ready. Settings that only say
  what is printed are left out, and what is printed is the list of warnings.
\<close>

section \<open>State\<close>

datatype warning =
    Bad_warn_interval | Tracing_not_enabled
  | Bad_initial_heap_size string | Bad_maximum_heap_size string

text \<open>The variable \<open>GC_dont_gc\<close> of the code is a counter; the state of the collector says whether it
  is positive.\<close>

record process =
  pr_runtime :: runtime
  pr_allocator :: allocator
  GC_is_initialized :: bool
  dont_gc_count :: i32
  GC_dont_precollect :: bool
  manual_vdb_allowed :: bool
  GC_manual_vdb :: bool
  GC_blocked_sp :: u64
  printing_errors :: bool
  at_exit_check :: bool
  warnings :: "warning list"

record client =
  cl_getenv :: "string \<Rightarrow> string option"
  cl_dirty_init :: bool
  cl_stack_base :: u64
  cl_data_segments :: "(u64 \<times> u64) list"
  cl_arrays :: "u64 \<times> u64"
  cl_obj_kinds :: "u64 \<times> u64"
  cl_finalizers :: finalizers
  cl_notifier :: "allocator \<Rightarrow> allocator res"

text \<open>The variables as the program starts, with no answers of the system yet.\<close>

definition initial_obj_kinds :: "obj_kind list" where
  "initial_obj_kinds =
     (let kind = (\<lambda>b. \<lparr>ok_freelist = replicate 129 0, ok_reclaim_list = [], ok_descriptor = GC_DS_LENGTH, ok_relocate_descr = b, ok_init = b\<rparr>)
      in [kind False, kind True, kind True])"

definition initial_marker :: marker where
  "initial_marker =
     \<lparr>mk_gc = initial_gc\<lparr>GC_obj_kinds := initial_obj_kinds\<rparr>, GC_mark_stack = [], GC_mark_stack_size = 0, GC_mark_state = MS_NONE,
      GC_mark_stack_too_small = False, GC_objects_are_marked = False, GC_scan_ptr = 0, GC_least_plausible_heap_addr = GC_WORD_MAX,
      GC_greatest_plausible_heap_addr = 0, GC_valid_offsets = replicate 4096 False\<rparr>"

definition initial_collector :: collector where
  "initial_collector =
     \<lparr>cl_marker = initial_marker,
      GC_static_roots = replicate MAX_ROOT_SETS \<lparr>r_start = 0, r_end = 0, r_next = None, r_tmp = False\<rparr>, n_root_sets = 0,
      GC_root_index = replicate RT_SIZE None, GC_excl_table = replicate MAX_EXCLUSIONS \<lparr>e_start = 0, e_end = 0\<rparr>,
      GC_excl_table_entries = 0, GC_no_dls = False, last_static_root_set = MAX_ROOT_SETS, last_tmp_root_set = MAX_ROOT_SETS\<rparr>"

definition initial_allocator :: allocator where
  "initial_allocator =
     (let table = \<lparr>ht_head = 0, ht_entries = 0, ht_log_size = 0\<rparr>
      in \<lparr>al_collector = initial_collector, GC_default_stop_func = GC_never_stop_func, stop_answers = [], clock_answers = [],
          timeout_count = 0, dirty_answers = [], grungy_pages = (\<lambda>_. False), get_mem_answers = [], GC_time_limit = 50,
          GC_is_full_gc = False, GC_need_full_gc = False, n_partial_gcs = 0, GC_full_freq = 19, GC_n_attempts = 0,
          max_prior_attempts = 1, GC_deficit = 0, GC_rate = 10, GC_used_heap_size_after_full = 0, GC_bytes_allocd_before_gc = 0,
          GC_reclaimed_bytes_before_gc = 0, GC_capacity_heap_sects = 0, GC_max_heapsize = 0, GC_last_heap_addr = 0,
          GC_heapsize_at_forced_unmap = 0, GC_max_retries = 0, GC_dont_expand = False, last_fo_entries = 0,
          last_bytes_finalized = 0, GC_allocd_bytes_per_finalizer = 10000, GC_size_map = replicate 2049 0,
          GC_dl_hashtbl = table, GC_ll_hashtbl = table, fo_hashtbl = table, finalize_now = 0,
          need_unreachable_finalization = False, GC_java_finalization = False, GC_finalize_on_demand = False,
          GC_finalizer_nested = 0, GC_finalizer_skipped = 0, last_finalizer_notification = 0, GC_toggleref_arr = 0,
          GC_toggleref_array_size = 0, GC_toggleref_array_capacity = 0, GC_toggleref_callback_set = False, toggleref_answers = []\<rparr>)"

definition initial_process :: "runtime \<Rightarrow> process" where
  "initial_process rt =
     \<lparr>pr_runtime = rt, pr_allocator = initial_allocator, GC_is_initialized = False, dont_gc_count = 0, GC_dont_precollect = False,
      manual_vdb_allowed = False, GC_manual_vdb = False, GC_blocked_sp = 0, printing_errors = False, at_exit_check = False,
      warnings = []\<rparr>"

abbreviation pr_gc :: "process \<Rightarrow> gc" where
  "pr_gc p \<equiv> the_gc (pr_allocator p)"

definition GETENV :: "client \<Rightarrow> string \<Rightarrow> bool" where
  "GETENV cl name \<longleftrightarrow> cl_getenv cl name \<noteq> None"

definition on_al :: "(allocator \<Rightarrow> allocator) \<Rightarrow> process \<Rightarrow> process" where
  "on_al f p = p\<lparr>pr_allocator := f (pr_allocator p)\<rparr>"

definition run_al :: "(allocator \<Rightarrow> allocator res) \<Rightarrow> process \<Rightarrow> process res" where
  "run_al f p = andThen (f (pr_allocator p)) (\<lambda>a. Inr (p\<lparr>pr_allocator := a\<rparr>))"

definition run_al_with :: "(allocator \<Rightarrow> ('r \<times> allocator) res) \<Rightarrow> process \<Rightarrow> ('r \<times> process) res" where
  "run_al_with f p = andThen (f (pr_allocator p)) (\<lambda>(r, a). Inr (r, p\<lparr>pr_allocator := a\<rparr>))"

definition set_gc :: "(gc \<Rightarrow> gc) \<Rightarrow> process \<Rightarrow> process" where
  "set_gc f = on_al (on_gc f)"

definition WARN :: "warning \<Rightarrow> process \<Rightarrow> process" where
  "WARN w p = p\<lparr>warnings := warnings p @ [w]\<rparr>"

text \<open>A step without memory exits the process.\<close>

definition or_exit :: "string \<Rightarrow> (gc \<Rightarrow> gc option) \<Rightarrow> allocator \<Rightarrow> allocator res" where
  "or_exit msg f a = (case f (the_gc a) of None \<Rightarrow> Inl (Panic msg) | Some g \<Rightarrow> Inr (on_gc (\<lambda>_. g) a))"

section \<open>Numbers in environment variables\<close>

text \<open>The number at the start of a string as \<open>strtol\<close> and \<open>strtoul\<close> read it in base 10: white space, a
  sign and digits; and what follows. \<open>atoi\<close> keeps the low bits, as the GNU library does.\<close>

definition c_isspace :: "char \<Rightarrow> bool" where
  "c_isspace c \<longleftrightarrow> (let n = of_char c :: nat in n = 32 \<or> 9 \<le> n \<and> n \<le> 13)"

definition c_isdigit :: "char \<Rightarrow> bool" where
  "c_isdigit c \<longleftrightarrow> (let n = of_char c :: nat in 48 \<le> n \<and> n \<le> 57)"

definition skip_sign :: "string \<Rightarrow> bool \<times> string" where
  "skip_sign s =
     (case s of
        [] \<Rightarrow> (False, s)
      | c # cs \<Rightarrow> if c = CHR ''-'' then (True, cs) else if c = CHR ''+'' then (False, cs) else (False, s))"

definition scan_number :: "string \<Rightarrow> (bool \<times> nat \<times> string) option" where
  "scan_number s =
     (case skip_sign (dropWhile c_isspace s) of
        (negative, t) \<Rightarrow>
          let digits = takeWhile c_isdigit t
          in if digits = [] then None
             else Some (negative, foldl (\<lambda>n c. 10 * n + (of_char c - 48)) 0 digits, dropWhile c_isdigit t))"

definition STRTOULL :: "string \<Rightarrow> u64 \<times> string" where
  "STRTOULL s =
     (case scan_number s of
        None \<Rightarrow> (0, s)
      | Some (negative, n, endptr) \<Rightarrow>
          (if 2 ^ 64 \<le> n then - 1 else if negative then - word_of_nat n else word_of_nat n, endptr))"

definition atol :: "string \<Rightarrow> u64" where
  "atol s =
     (case scan_number s of
        None \<Rightarrow> 0
      | Some (negative, n, _) \<Rightarrow>
          if negative then - word_of_nat (min n (2 ^ 63)) else word_of_nat (min n (2 ^ 63 - 1)))"

definition atoi :: "string \<Rightarrow> i32" where
  "atoi s = ucast (atol s)"

definition GC_parse_mem_size_arg :: "string \<Rightarrow> u64" where
  "GC_parse_mem_size_arg str =
     (if str = [] then 0
      else case STRTOULL str of
             (result, []) \<Rightarrow> result
           | (result, [ch]) \<Rightarrow>
               if ch = CHR ''K'' \<or> ch = CHR ''k'' then push_bit 10 result
               else if ch = CHR ''M'' \<or> ch = CHR ''m'' then push_bit 20 result
               else if ch = CHR ''G'' \<or> ch = CHR ''g'' then push_bit 30 result
               else 0
           | _ \<Rightarrow> 0)"

section \<open>Initialisation\<close>

text \<open>Settings from the environment, in the order in which they are read.\<close>

definition GC_dont_gc_set :: "i32 \<Rightarrow> process \<Rightarrow> process" where
  "GC_dont_gc_set n p = set_gc (\<lambda>g. g\<lparr>GC_dont_gc := n \<noteq> 0\<rparr>) (p\<lparr>dont_gc_count := n\<rparr>)"

definition LONG_MAX :: u64 where "LONG_MAX = 2 ^ 63 - 1"

definition read_flags :: "client \<Rightarrow> process \<Rightarrow> process" where
  "read_flags cl p =
     (let p = set_gc (\<lambda>g. g\<lparr>GC_find_leak := GC_find_leak g \<or> GETENV cl ''GC_FIND_LEAK'',
            GC_findleak_delay_free := GC_findleak_delay_free g \<or> GETENV cl ''GC_FINDLEAK_DELAY_FREE'',
            GC_all_interior_pointers := GC_all_interior_pointers g \<or> GETENV cl ''GC_ALL_INTERIOR_POINTERS''\<rparr>) p;
          p = (if GETENV cl ''GC_DONT_GC'' then GC_dont_gc_set 1 p else p);
          p = (if GETENV cl ''GC_NO_BLACKLIST_WARNING'' then set_gc (\<lambda>g. g\<lparr>GC_large_alloc_warn_interval := LONG_MAX\<rparr>) p else p)
      in if GETENV cl ''GC_TRACE'' then WARN Tracing_not_enabled p else p)"

definition read_pause_time :: "client \<Rightarrow> process \<Rightarrow> process" where
  "read_pause_time cl p =
     (case cl_getenv cl ''GC_PAUSE_TIME_TARGET'' of
        None \<Rightarrow> p
      | Some s \<Rightarrow> if 0 <s atol s then on_al (\<lambda>a. a\<lparr>GC_time_limit := atol s\<rparr>) p else p)"

definition read_full_frequency :: "client \<Rightarrow> process \<Rightarrow> process" where
  "read_full_frequency cl p =
     (case cl_getenv cl ''GC_FULL_FREQUENCY'' of
        None \<Rightarrow> p
      | Some s \<Rightarrow> if 0 <s atoi s then on_al (\<lambda>a. a\<lparr>GC_full_freq := atoi s\<rparr>) p else p)"

definition read_warn_interval :: "client \<Rightarrow> process \<Rightarrow> process" where
  "read_warn_interval cl p =
     (case cl_getenv cl ''GC_LARGE_ALLOC_WARN_INTERVAL'' of
        None \<Rightarrow> p
      | Some s \<Rightarrow>
          if atol s \<le>s 0 then WARN Bad_warn_interval p
          else set_gc (\<lambda>g. g\<lparr>GC_large_alloc_warn_interval := atol s\<rparr>) p)"

definition read_space_divisor :: "client \<Rightarrow> process \<Rightarrow> process" where
  "read_space_divisor cl p =
     (case cl_getenv cl ''GC_FREE_SPACE_DIVISOR'' of
        None \<Rightarrow> p
      | Some s \<Rightarrow> if 0 <s atoi s then set_gc (\<lambda>g. g\<lparr>GC_free_space_divisor := ucast (atoi s)\<rparr>) p else p)"

definition read_settings :: "client \<Rightarrow> process \<Rightarrow> process" where
  "read_settings cl p =
     read_space_divisor cl (read_warn_interval cl (read_full_frequency cl (read_pause_time cl (read_flags cl p))))"

text \<open>The last byte of an object that only takes pointers to its end is not scanned.\<close>

definition adjust_descriptor :: "gc \<Rightarrow> gc" where
  "adjust_descriptor g =
     (if EXTRA_BYTES g \<noteq> 0
      then g\<lparr>GC_obj_kinds := (GC_obj_kinds g)[1 := (GC_obj_kinds g ! 1)\<lparr>ok_descriptor := (NOT 8 + 1) OR GC_DS_LENGTH\<rparr>]\<rparr>
      else g)"

definition start_incremental :: "client \<Rightarrow> process \<Rightarrow> process" where
  "start_incremental cl p =
     (if manual_vdb_allowed p then set_gc (\<lambda>g. g\<lparr>GC_incremental := True\<rparr>) (p\<lparr>GC_manual_vdb := True\<rparr>)
      else set_gc (\<lambda>g. g\<lparr>GC_incremental := cl_dirty_init cl\<rparr>) p)"

text \<open>The data segments of the program, none when they are registered as a dynamic library is.\<close>

fun GC_register_data_segments :: "(u64 \<times> u64) list \<Rightarrow> collector \<Rightarrow> collector res" where
  "GC_register_data_segments [] c = Inr c"
| "GC_register_data_segments ((b, e) # segs) c =
     (if e \<le> b - 1 then Inl (Panic ''Wrong DATASTART/END pair'')
      else andThen (GC_add_roots_inner b e False c) (GC_register_data_segments segs))"

definition set_stack_base :: "client \<Rightarrow> process \<Rightarrow> process" where
  "set_stack_base cl p =
     (let rt = pr_runtime p; env = rt_env rt
      in if GC_stackbottom env = 0 then p\<lparr>pr_runtime := rt\<lparr>rt_env := env\<lparr>GC_stackbottom := cl_stack_base cl\<rparr>\<rparr>\<rparr> else p)"

definition init_tables :: "client \<Rightarrow> process \<Rightarrow> process res" where
  "init_tables cl p =
     andThen (run_al (lift_collector (GC_exclude_static_roots_inner (fst (cl_arrays cl)) (snd (cl_arrays cl)))) (set_gc adjust_descriptor p)) (\<lambda>p1.
     andThen (run_al (lift_collector (GC_exclude_static_roots_inner (fst (cl_obj_kinds cl)) (snd (cl_obj_kinds cl)))) p1) (\<lambda>p2.
     andThen (run_al (or_exit ''Insufficient memory for GC_all_nils'' GC_init_headers) (set_stack_base cl p2)) (\<lambda>p3.
       let p4 = (if GC_incremental (pr_gc p3) \<or> GETENV cl ''GC_ENABLE_INCREMENTAL'' then start_incremental cl p3 else p3)
       in andThen (run_al (lift_collector (GC_register_data_segments (cl_data_segments cl))) p4) (\<lambda>p5.
          andThen (run_al (or_exit ''Insufficient memory for black list'' GC_bl_init) p5)
            (run_al (lift_collector (lift_marker GC_mark_init)))))))"

definition GC_set_max_heap_size :: "u64 \<Rightarrow> process \<Rightarrow> process" where
  "GC_set_max_heap_size n = on_al (\<lambda>a. a\<lparr>GC_max_heapsize := n\<rparr>)"

definition initial_size :: "client \<Rightarrow> process \<Rightarrow> u64 \<times> process" where
  "initial_size cl p =
     (case cl_getenv cl ''GC_INITIAL_HEAP_SIZE'' of
        None \<Rightarrow> (MINHINCR * HBLKSIZE, p)
      | Some sz_str \<Rightarrow>
          let initial_heap_sz = GC_parse_mem_size_arg sz_str
          in (initial_heap_sz, if initial_heap_sz \<le> MINHINCR * HBLKSIZE then WARN (Bad_initial_heap_size sz_str) p else p))"

definition maximum_size :: "client \<Rightarrow> u64 \<Rightarrow> process \<Rightarrow> process" where
  "maximum_size cl initial_heap_sz p =
     (case cl_getenv cl ''GC_MAXIMUM_HEAP_SIZE'' of
        None \<Rightarrow> p
      | Some sz_str \<Rightarrow>
          let max_heap_sz = GC_parse_mem_size_arg sz_str;
              p = (if max_heap_sz < initial_heap_sz then WARN (Bad_maximum_heap_size sz_str) p else p);
              p = (if GC_max_retries (pr_allocator p) = 0 then on_al (\<lambda>a. a\<lparr>GC_max_retries := 2\<rparr>) p else p)
          in GC_set_max_heap_size max_heap_sz p)"

definition init_heap :: "client \<Rightarrow> process \<Rightarrow> process res" where
  "init_heap cl p =
     (case initial_size cl p of
        (initial_heap_sz, p1) \<Rightarrow>
          let p2 = maximum_size cl initial_heap_sz p1
          in andThen (run_al_with (GC_expand_hp_inner (pr_runtime p2) (divHBLKSZ initial_heap_sz)) p2) (\<lambda>(ok, p3).
               if \<not> ok then Inl (Panic ''Can't start up: not enough memory'')
               else Inr (set_gc (\<lambda>g. g\<lparr>GC_requested_heapsize := GC_requested_heapsize g + initial_heap_sz\<rparr>) p3)))"

definition init_sizes :: "process \<Rightarrow> process res" where
  "init_sizes p =
     andThen
       (run_al
          (\<lambda>a. andThen
             (lift_collector (lift_marker (GC_register_displacement_inner 0))
                (if GC_all_interior_pointers (the_gc a) then on_marker GC_initialize_offsets a else a)) (\<lambda>a1.
             andThen (GC_init_size_map (EXTRA_BYTES (the_gc a1)) (GC_size_map a1)) (\<lambda>t. Inr (a1\<lparr>GC_size_map := t\<rparr>)))) p)
       (\<lambda>p1. Inr (p1\<lparr>GC_is_initialized := True\<rparr>))"

definition GC_gcollect_inner :: "process \<Rightarrow> process res" where
  "GC_gcollect_inner p = run_al (gcollect_inner (pr_runtime p)) p"

definition GC_init :: "client \<Rightarrow> process \<Rightarrow> process res" where
  "GC_init cl p =
     (if GC_is_initialized p then Inr p
      else
        andThen (init_tables cl (read_settings cl p)) (\<lambda>p1.
        andThen (init_heap cl p1) (\<lambda>p2.
        andThen (init_sizes p2) (\<lambda>p3.
        andThen (if \<not> GC_dont_precollect p3 \<or> GC_incremental (pr_gc p3) then GC_gcollect_inner p3 else Inr p3) (\<lambda>p4.
          Inr (if GC_find_leak (pr_gc p4) then p4\<lparr>at_exit_check := True\<rparr> else p4))))))"

text \<open>A call that needs the collector starts it first.\<close>

definition when_initialized :: "client \<Rightarrow> (process \<Rightarrow> 'r res) \<Rightarrow> process \<Rightarrow> 'r res" where
  "when_initialized cl f p = andThen (if GC_is_initialized p then Inr p else GC_init cl p) f"

definition GC_deinit :: "process \<Rightarrow> process" where
  "GC_deinit p = p\<lparr>GC_is_initialized := False\<rparr>"

end
