(* ===== verification/Atomix_GC_Calls.thy ===== *)
theory Atomix_GC_Calls
  imports Atomix_GC_Client
begin

unbundle bit_operations_syntax

text \<open>
  The calls of a client other than allocation: collections on request with the finalizers around
  them and the report of leaked objects, growth of the heap, code that runs while the collector
  must not or must look at the stack, statistics, and settings. Functions of the client get and
  return the state of the process.
\<close>

section \<open>Collections on request\<close>

definition GC_INVOKE_FINALIZERS :: "client \<Rightarrow> process \<Rightarrow> process res" where
  "GC_INVOKE_FINALIZERS cl p =
     run_al (GC_notify_or_invoke_finalizers (rt_rounds (pr_runtime p)) (cl_finalizers cl) (cl_notifier cl)) p"

definition print_all_smashed :: "process \<Rightarrow> process" where
  "print_all_smashed p = (if GC_debugging_started (pr_gc p) then set_gc GC_print_all_smashed_proc p else p)"

text \<open>Without a function the default one is asked when to stop. Memory is not unmapped.\<close>

definition GC_try_to_collect_general :: "client \<Rightarrow> stop_func option \<Rightarrow> bool \<Rightarrow> process \<Rightarrow> (bool \<times> process) res" where
  "GC_try_to_collect_general cl stop_func force_unmap =
     when_initialized cl (\<lambda>p.
       andThen (GC_INVOKE_FINALIZERS cl (print_all_smashed p)) (\<lambda>p1.
       let p2 = (if force_unmap then on_al (\<lambda>a. a\<lparr>GC_heapsize_at_forced_unmap := GC_heapsize (the_gc a)\<rparr>) p1 else p1);
           stop = (case stop_func of Some f \<Rightarrow> f | None \<Rightarrow> GC_default_stop_func (pr_allocator p2))
       in andThen (run_al_with (GC_try_to_collect_inner (pr_runtime p2) stop) p2) (\<lambda>(result, p3).
            if result then andThen (GC_INVOKE_FINALIZERS cl (print_all_smashed p3)) (\<lambda>p4. Inr (True, p4))
            else Inr (False, p3))))"

definition GC_try_to_collect :: "client \<Rightarrow> stop_func \<Rightarrow> process \<Rightarrow> (bool \<times> process) res" where
  "GC_try_to_collect cl stop_func = GC_try_to_collect_general cl (Some stop_func) False"

fun free_all :: "u64 list \<Rightarrow> gc \<Rightarrow> gc res" where
  "free_all [] g = Inr g"
| "free_all (leaked # ps) g = andThen (GC_free leaked g) (free_all ps)"

text \<open>The objects found to be leaked are freed; with the right variable set the process is aborted
  when there were any, or when debugging found smashed ones.\<close>

definition GC_print_all_errors :: "client \<Rightarrow> process \<Rightarrow> process res" where
  "GC_print_all_errors cl p =
     (if printing_errors p then Inr p
      else
        let leaked = GC_leaked (pr_gc p);
            have_errors = (GC_debugging_started (pr_gc p) \<and> GC_have_errors (pr_gc p) \<or> leaked \<noteq> []);
            p1 = print_all_smashed (set_gc (\<lambda>g. g\<lparr>GC_leaked := []\<rparr>) (p\<lparr>printing_errors := True\<rparr>))
        in andThen (run_al (run_gc (free_all leaked)) p1) (\<lambda>p2.
             if have_errors \<and> GETENV cl ''GC_ABORT_ON_LEAK'' then Inl (Panic ''Leaked or smashed objects encountered'')
             else Inr (p2\<lparr>printing_errors := False\<rparr>)))"

definition GC_gcollect :: "client \<Rightarrow> process \<Rightarrow> process res" where
  "GC_gcollect cl p =
     andThen (GC_try_to_collect_general cl None False p) (\<lambda>(_, p1).
       if GC_have_errors (pr_gc p1) then GC_print_all_errors cl p1 else Inr p1)"

definition GC_gcollect_and_unmap :: "client \<Rightarrow> process \<Rightarrow> process res" where
  "GC_gcollect_and_unmap cl p = andThen (GC_try_to_collect_general cl (Some GC_never_stop_func) True p) (\<lambda>(_, p1). Inr p1)"

definition collect_a_little :: "process \<Rightarrow> process res" where
  "collect_a_little p =
     (if GC_dont_gc (pr_gc p) then Inr p else run_al (GC_collect_a_little_inner (pr_runtime p) 1) p)"

definition GC_collect_a_little :: "process \<Rightarrow> (bool \<times> process) res" where
  "GC_collect_a_little p =
     andThen (collect_a_little p) (\<lambda>p1.
       let result = GC_collection_in_progress (cl_marker (al_collector (pr_allocator p1)))
       in Inr (result, if result then p1 else print_all_smashed p1))"

definition GC_start_incremental_collection :: "process \<Rightarrow> process res" where
  "GC_start_incremental_collection p =
     (if \<not> GC_incremental (pr_gc p) then Inr p
      else collect_a_little (set_gc (\<lambda>g. g\<lparr>GC_should_start_incremental_collection := True\<rparr>) p))"

definition GC_exit_check :: "client \<Rightarrow> process \<Rightarrow> process res" where
  "GC_exit_check cl p = (if GC_find_leak (pr_gc p) then GC_gcollect cl p else Inr p)"

definition turn_on_incremental :: "client \<Rightarrow> process \<Rightarrow> process res" where
  "turn_on_incremental cl p =
     (if GC_is_initialized p then Inr (start_incremental cl p) else GC_init cl (set_gc (\<lambda>g. g\<lparr>GC_incremental := True\<rparr>) p))"

definition GC_enable_incremental :: "client \<Rightarrow> process \<Rightarrow> process res" where
  "GC_enable_incremental cl p =
     (if \<not> GC_find_leak (pr_gc p) \<and> \<not> GETENV cl ''GC_DISABLE_INCREMENTAL''
      then
        if GC_incremental (pr_gc p) then Inr p
        else
          andThen (turn_on_incremental cl p) (\<lambda>p1.
            if GC_incremental (pr_gc p1) \<and> \<not> GC_dont_gc (pr_gc p1)
            then andThen (if 0 < GC_bytes_allocd (pr_gc p1) then GC_gcollect_inner p1 else Inr p1) (\<lambda>p2. Inr (on_al GC_read_dirty p2))
            else Inr p1)
      else GC_init cl p)"

section \<open>Memory\<close>

definition GC_expand_hp :: "client \<Rightarrow> u64 \<Rightarrow> process \<Rightarrow> (bool \<times> process) res" where
  "GC_expand_hp cl bytes =
     when_initialized cl (\<lambda>p.
       andThen (run_al_with (GC_expand_hp_inner (pr_runtime p) (divHBLKSZ bytes)) p) (\<lambda>(result, p1).
         Inr (result, if result then set_gc (\<lambda>g. g\<lparr>GC_requested_heapsize := GC_requested_heapsize g + bytes\<rparr>) p1 else p1)))"

text \<open>Space that the collector no longer needs for itself becomes part of the heap, in whole pages.\<close>

definition GC_scratch_recycle_inner :: "runtime \<Rightarrow> u64 \<Rightarrow> u64 \<Rightarrow> allocator \<Rightarrow> allocator res" where
  "GC_scratch_recycle_inner rt q bytes a =
     (if q = 0 then Inr a
      else
        let page_offset = q AND (GC_page_size rt - 1);
            displ = (if page_offset \<noteq> 0 then GC_page_size rt - page_offset else 0);
            recycled_bytes = (if displ < bytes then (bytes - displ) AND NOT (GC_page_size rt - 1) else 0)
        in if 0 < recycled_bytes then GC_add_to_heap (q + displ) recycled_bytes a else Inr a)"

section \<open>Calls to the client and back\<close>

text \<open>\<open>here\<close> is the address of the variable of the call on the stack, which grows down.\<close>

definition on_env :: "(environment \<Rightarrow> environment) \<Rightarrow> process \<Rightarrow> process" where
  "on_env f p = (let rt = pr_runtime p in p\<lparr>pr_runtime := rt\<lparr>rt_env := f (rt_env rt)\<rparr>\<rparr>)"

definition GC_call_with_gc_active :: "u64 \<Rightarrow> (process \<Rightarrow> process res) \<Rightarrow> process \<Rightarrow> process res" where
  "GC_call_with_gc_active here fn p =
     (let p1 = on_env (\<lambda>env. if GC_stackbottom env < here then env\<lparr>GC_stackbottom := here\<rparr> else env) p;
          saved_stack_ptr = GC_blocked_sp p1; prev = GC_traced_stack_sect (rt_env (pr_runtime p1))
      in if saved_stack_ptr = 0 then fn p1
         else
           andThen (fn (on_env (\<lambda>env. env\<lparr>GC_traced_stack_sect := (here, saved_stack_ptr) # prev\<rparr>) (p1\<lparr>GC_blocked_sp := 0\<rparr>)))
             (\<lambda>p2. Inr ((on_env (\<lambda>env. env\<lparr>GC_traced_stack_sect := prev\<rparr>) p2)\<lparr>GC_blocked_sp := saved_stack_ptr\<rparr>)))"

definition GC_do_blocking :: "u64 \<Rightarrow> (process \<Rightarrow> process res) \<Rightarrow> process \<Rightarrow> process res" where
  "GC_do_blocking here fn p = andThen (fn (p\<lparr>GC_blocked_sp := here\<rparr>)) (\<lambda>p1. Inr (p1\<lparr>GC_blocked_sp := 0\<rparr>))"

definition GC_set_stackbottom :: "u64 \<Rightarrow> process \<Rightarrow> process" where
  "GC_set_stackbottom mem_base = on_env (\<lambda>env. env\<lparr>GC_stackbottom := mem_base\<rparr>)"

definition GC_get_my_stackbottom :: "process \<Rightarrow> u64" where
  "GC_get_my_stackbottom p = GC_stackbottom (rt_env (pr_runtime p))"

section \<open>Statistics\<close>

text \<open>No memory is unmapped.\<close>

definition GC_get_heap_size :: "process \<Rightarrow> u64" where
  "GC_get_heap_size p = GC_heapsize (pr_gc p)"

definition GC_get_free_bytes :: "process \<Rightarrow> u64" where
  "GC_get_free_bytes p = GC_large_free_bytes (pr_gc p)"

definition GC_get_bytes_since_gc :: "process \<Rightarrow> u64" where
  "GC_get_bytes_since_gc p = GC_bytes_allocd (pr_gc p)"

definition GC_get_total_bytes :: "process \<Rightarrow> u64" where
  "GC_get_total_bytes p = GC_bytes_allocd (pr_gc p) + GC_bytes_allocd_before_gc (pr_allocator p)"

definition GC_get_size_map_at :: "i32 \<Rightarrow> process \<Rightarrow> u64 res" where
  "GC_get_size_map_at i p =
     (if ucast MAXOBJBYTES < i then Inr (- 1)
      else andThen (read_at (GC_size_map (pr_allocator p)) (ucast i)) (\<lambda>granules. Inr (GRANULES_TO_BYTES granules)))"

text \<open>The words of the statistics in the order of the struct. How much memory came from the system is
  not part of the state, but an argument.\<close>

definition fill_prof_stats :: "u64 \<Rightarrow> process \<Rightarrow> u64 list" where
  "fill_prof_stats our_mem_bytes p =
     (let g = pr_gc p; a = pr_allocator p
      in [GC_heapsize g, GC_large_free_bytes g, 0, GC_bytes_allocd g, GC_bytes_allocd_before_gc a, GC_non_gc_bytes g,
          GC_gc_no g, 0, if 0 <s GC_bytes_found g then GC_bytes_found g else 0, GC_reclaimed_bytes_before_gc a,
          GC_bytes_freed g, our_mem_bytes])"

definition bytes_of_words :: "u64 list \<Rightarrow> u8 list" where
  "bytes_of_words ws = concat (map (\<lambda>w. map (\<lambda>i. ucast (drop_bit (8 * i) w)) [0 ..< 8]) ws)"

text \<open>The result and the bytes of the buffer of the client.\<close>

definition GC_get_prof_stats :: "u64 \<Rightarrow> nat \<Rightarrow> process \<Rightarrow> nat \<times> u8 list" where
  "GC_get_prof_stats our_mem_bytes stats_sz p =
     (let stats = bytes_of_words (fill_prof_stats our_mem_bytes p)
      in if stats_sz = length stats then (length stats, stats)
         else if length stats < stats_sz then (length stats, stats @ replicate (stats_sz - length stats) 0xff)
         else (stats_sz, take stats_sz stats))"

text \<open>The sum is a local variable at the address \<open>pbytes\<close>, to which the function for a block adds.\<close>

definition block_add_size :: "u64 \<Rightarrow> u64 \<Rightarrow> gc \<Rightarrow> gc res" where
  "block_add_size pbytes h g =
     andThen (hdr_of h g) (\<lambda>hhdr.
       Inr (g\<lparr>gc_mem := (gc_mem g)(pbytes := gc_mem g pbytes + ((hb_sz hhdr + (HBLKSIZE - 1)) AND NOT (HBLKSIZE - 1)))\<rparr>))"

definition GC_get_memory_use :: "u64 \<Rightarrow> process \<Rightarrow> u64 res" where
  "GC_get_memory_use pbytes p =
     (let g = pr_gc p
      in andThen (GC_apply_to_all_blocks (block_add_size pbytes) (g\<lparr>gc_mem := (gc_mem g)(pbytes := 0)\<rparr>))
           (\<lambda>g'. Inr (gc_mem g' pbytes)))"

definition GC_get_gc_no :: "process \<Rightarrow> u64" where
  "GC_get_gc_no p = GC_gc_no (pr_gc p)"

section \<open>Settings\<close>

definition GC_enable :: "process \<Rightarrow> process" where
  "GC_enable p = GC_dont_gc_set (dont_gc_count p - 1) p"

definition GC_disable :: "process \<Rightarrow> process" where
  "GC_disable p = GC_dont_gc_set (dont_gc_count p + 1) p"

definition GC_is_disabled :: "process \<Rightarrow> bool" where
  "GC_is_disabled p \<longleftrightarrow> dont_gc_count p \<noteq> 0"

definition GC_set_all_interior_pointers :: "bool \<Rightarrow> process \<Rightarrow> process res" where
  "GC_set_all_interior_pointers value p =
     (let p1 = set_gc (\<lambda>g. g\<lparr>GC_all_interior_pointers := value\<rparr>) p
      in if \<not> GC_is_initialized p1 then Inr p1
         else
           let p2 = on_al (on_marker GC_initialize_offsets) p1
           in if value then Inr p2 else run_al (or_exit ''Insufficient memory for black list'' GC_bl_init_no_interiors) p2)"

definition GC_set_find_leak :: "bool \<Rightarrow> process \<Rightarrow> process" where
  "GC_set_find_leak value = set_gc (\<lambda>g. g\<lparr>GC_find_leak := value\<rparr>)"

definition GC_set_non_gc_bytes :: "u64 \<Rightarrow> process \<Rightarrow> process" where
  "GC_set_non_gc_bytes value = set_gc (\<lambda>g. g\<lparr>GC_non_gc_bytes := value\<rparr>)"

definition GC_set_free_space_divisor :: "u64 \<Rightarrow> process \<Rightarrow> process" where
  "GC_set_free_space_divisor value = set_gc (\<lambda>g. g\<lparr>GC_free_space_divisor := value\<rparr>)"

definition GC_set_disable_automatic_collection :: "bool \<Rightarrow> process \<Rightarrow> process" where
  "GC_set_disable_automatic_collection value = set_gc (\<lambda>g. g\<lparr>GC_disable_automatic_collection := value\<rparr>)"

definition GC_set_min_bytes_allocd :: "u64 \<Rightarrow> process \<Rightarrow> process" where
  "GC_set_min_bytes_allocd value = set_gc (\<lambda>g. g\<lparr>min_bytes_allocd_minimum := value\<rparr>)"

definition GC_set_no_dls :: "bool \<Rightarrow> process \<Rightarrow> process" where
  "GC_set_no_dls value = on_al (\<lambda>a. a\<lparr>al_collector := (al_collector a)\<lparr>GC_no_dls := value\<rparr>\<rparr>)"

definition GC_set_finalize_on_demand :: "bool \<Rightarrow> process \<Rightarrow> process" where
  "GC_set_finalize_on_demand value = on_al (\<lambda>a. a\<lparr>GC_finalize_on_demand := value\<rparr>)"

definition GC_set_java_finalization :: "bool \<Rightarrow> process \<Rightarrow> process" where
  "GC_set_java_finalization value = on_al (\<lambda>a. a\<lparr>GC_java_finalization := value\<rparr>)"

definition GC_set_dont_expand :: "bool \<Rightarrow> process \<Rightarrow> process" where
  "GC_set_dont_expand value = on_al (\<lambda>a. a\<lparr>GC_dont_expand := value\<rparr>)"

definition GC_set_max_retries :: "u64 \<Rightarrow> process \<Rightarrow> process" where
  "GC_set_max_retries value = on_al (\<lambda>a. a\<lparr>GC_max_retries := value\<rparr>)"

definition GC_set_full_freq :: "i32 \<Rightarrow> process \<Rightarrow> process" where
  "GC_set_full_freq value = on_al (\<lambda>a. a\<lparr>GC_full_freq := value\<rparr>)"

definition GC_set_time_limit :: "u64 \<Rightarrow> process \<Rightarrow> process" where
  "GC_set_time_limit value = on_al (\<lambda>a. a\<lparr>GC_time_limit := value\<rparr>)"

definition GC_set_rate :: "i32 \<Rightarrow> process \<Rightarrow> process" where
  "GC_set_rate value = on_al (\<lambda>a. a\<lparr>GC_rate := value\<rparr>)"

definition GC_set_max_prior_attempts :: "i32 \<Rightarrow> process \<Rightarrow> process" where
  "GC_set_max_prior_attempts value = on_al (\<lambda>a. a\<lparr>max_prior_attempts := value\<rparr>)"

definition GC_set_allocd_bytes_per_finalizer :: "u64 \<Rightarrow> process \<Rightarrow> process" where
  "GC_set_allocd_bytes_per_finalizer value = on_al (\<lambda>a. a\<lparr>GC_allocd_bytes_per_finalizer := value\<rparr>)"

definition GC_set_stop_func :: "stop_func \<Rightarrow> process \<Rightarrow> process" where
  "GC_set_stop_func stop_func = on_al (\<lambda>a. a\<lparr>GC_default_stop_func := stop_func\<rparr>)"

definition GC_set_dont_precollect :: "bool \<Rightarrow> process \<Rightarrow> process" where
  "GC_set_dont_precollect value p = p\<lparr>GC_dont_precollect := value\<rparr>"

definition GC_set_manual_vdb_allowed :: "bool \<Rightarrow> process \<Rightarrow> process" where
  "GC_set_manual_vdb_allowed value p = p\<lparr>manual_vdb_allowed := value\<rparr>"

end
