(* ===== verification/Atomix_GC_Client_Laws.thy ===== *)
theory Atomix_GC_Client_Laws
  imports Atomix_GC_Calls Atomix_GC_Malloc_Laws Atomix_GC_Cycle_Laws Atomix_Value_Laws
begin

unbundle bit_operations_syntax

text \<open>
  What the settings of a client do: the sizes that a number with a suffix stands for, the limit on the
  heap, switching interior pointers, and nested calls that disable the collector.
\<close>

section \<open>Access\<close>

lemma on_al_simps [simp]:
  "pr_allocator (on_al f p) = f (pr_allocator p)" "pr_runtime (on_al f p) = pr_runtime p"
  "warnings (on_al f p) = warnings p" "GC_is_initialized (on_al f p) = GC_is_initialized p"
  "dont_gc_count (on_al f p) = dont_gc_count p"
  by (simp_all add: on_al_def)

lemma on_gc_simps [simp]:
  "the_gc (on_gc f a) = f (the_gc a)" "GC_max_heapsize (on_gc f a) = GC_max_heapsize a"
  "GC_size_map (on_gc f a) = GC_size_map a" "GC_max_retries (on_gc f a) = GC_max_retries a"
  by (simp_all add: on_gc_def on_marker_def Let_def)

lemma set_gc_simps [simp]:
  "pr_gc (set_gc f p) = f (pr_gc p)" "pr_runtime (set_gc f p) = pr_runtime p"
  "warnings (set_gc f p) = warnings p" "GC_is_initialized (set_gc f p) = GC_is_initialized p"
  "dont_gc_count (set_gc f p) = dont_gc_count p" "pr_allocator (set_gc f p) = on_gc f (pr_allocator p)"
  by (simp_all add: set_gc_def)

lemma WARN_simps [simp]:
  "pr_allocator (WARN w p) = pr_allocator p" "pr_runtime (WARN w p) = pr_runtime p"
  "warnings (WARN w p) = warnings p @ [w]" "GC_is_initialized (WARN w p) = GC_is_initialized p"
  by (simp_all add: WARN_def)

lemma run_al_runtime: "run_al f p = Inr p' \<Longrightarrow> pr_runtime p' = pr_runtime p \<and> GC_is_initialized p' = GC_is_initialized p"
  by (cases "f (pr_allocator p)") (auto simp: run_al_def)

section \<open>Sizes with a suffix\<close>

text \<open>Digits are read as they are printed.\<close>

lemma digit_facts:
  assumes "is_digit c"
  shows "c_isdigit c \<and> \<not> c_isspace c \<and> c \<noteq> CHR ''-'' \<and> c \<noteq> CHR ''+''"
  using assms by (auto simp: is_digit_def c_isdigit_def c_isspace_def)

lemma scan_decimal:
  assumes "list_all (\<lambda>c. \<not> c_isdigit c) (take 1 rest)"
  shows "scan_number (decimal n @ rest) = Some (False, n, rest)"
proof -
  obtain c cs where d: "decimal n = c # cs" using decimal_digits [of n] by (cases "decimal n") auto
  have all: "\<forall>x \<in> set (decimal n). c_isdigit x" using decimal_digits [of n] digit_facts by (auto simp: list_all_iff)
  have c: "\<not> c_isspace c" "c \<noteq> CHR ''-''" "c \<noteq> CHR ''+''" using decimal_digits [of n] digit_facts [of c] d by auto
  have rest: "takeWhile c_isdigit rest = [] \<and> dropWhile c_isdigit rest = rest" using assms by (cases rest) auto
  have "foldl (\<lambda>n c. 10 * n + (of_char c - 48)) 0 (decimal n) = n"
    using read_decimal [of n] by (simp add: read_digits_def digit_value_def)
  then show ?thesis using d c all rest
    by (simp add: scan_number_def skip_sign_def takeWhile_append2 dropWhile_append2 Let_def del: foldl_Cons)
qed

lemma STRTOULL_decimal:
  assumes "n < 2 ^ 64" "list_all (\<lambda>c. \<not> c_isdigit c) (take 1 rest)"
  shows "STRTOULL (decimal n @ rest) = (word_of_nat n, rest)"
  using assms scan_decimal [of rest n] by (simp add: STRTOULL_def)

lemma decimal_not_empty [simp]: "decimal n \<noteq> []"
  using decimal_digits [of n] by blast

definition suffix_shift :: "char \<Rightarrow> nat option" where
  "suffix_shift c =
     (if c \<in> {CHR ''K'', CHR ''k''} then Some 10 else if c \<in> {CHR ''M'', CHR ''m''} then Some 20
      else if c \<in> {CHR ''G'', CHR ''g''} then Some 30 else None)"

lemma suffix_no_digit: "suffix_shift c \<noteq> None \<Longrightarrow> \<not> c_isdigit c"
  by (auto simp: suffix_shift_def c_isdigit_def split: if_splits)

lemma parse_suffix:
  assumes "n < 2 ^ 64" "\<not> c_isdigit c"
  shows "GC_parse_mem_size_arg (decimal n @ [c]) = (case suffix_shift c of None \<Rightarrow> 0 | Some k \<Rightarrow> word_of_nat (n * 2 ^ k))"
  using assms STRTOULL_decimal [of n "[c]"] by (auto simp: GC_parse_mem_size_arg_def suffix_shift_def push_bit_eq_mult)

text \<open>A size that is written as a decimal number, or as one with a suffix K, M or G in either case,
  is read back as that number, times a power of two: in words, so that a product that does not fit
  wraps. A number with another character behind it, or with more than one, is read as 0, which
  the code calls a bad value.\<close>

theorem memory_sizes_round_trip:
  assumes "n < 2 ^ 64"
  shows "GC_parse_mem_size_arg (decimal n) = word_of_nat n \<and>
    (\<forall>c k. suffix_shift c = Some k \<longrightarrow> GC_parse_mem_size_arg (decimal n @ [c]) = word_of_nat (n * 2 ^ k)) \<and>
    (\<forall>c. \<not> c_isdigit c \<and> suffix_shift c = None \<longrightarrow> GC_parse_mem_size_arg (decimal n @ [c]) = 0) \<and>
    (\<forall>c d cs. \<not> c_isdigit c \<longrightarrow> GC_parse_mem_size_arg (decimal n @ c # d # cs) = 0)"
proof (intro conjI allI impI)
  show "GC_parse_mem_size_arg (decimal n) = word_of_nat n"
    using STRTOULL_decimal [OF assms, of "[]"] by (simp add: GC_parse_mem_size_arg_def)
next
  fix c k assume k: "suffix_shift c = Some k"
  then have "\<not> c_isdigit c" by (intro suffix_no_digit) simp
  then show "GC_parse_mem_size_arg (decimal n @ [c]) = word_of_nat (n * 2 ^ k)" using parse_suffix [OF assms] k by simp
next
  fix c assume "\<not> c_isdigit c \<and> suffix_shift c = None"
  then show "GC_parse_mem_size_arg (decimal n @ [c]) = 0" using parse_suffix [OF assms, of c] by simp
next
  fix c d cs assume "\<not> c_isdigit c"
  then have "STRTOULL (decimal n @ c # d # cs) = (word_of_nat n, c # d # cs)" by (intro STRTOULL_decimal assms) simp
  then show "GC_parse_mem_size_arg (decimal n @ c # d # cs) = 0" by (simp add: GC_parse_mem_size_arg_def)
qed

lemma memory_sizes_round_trip_witness:
  "GC_parse_mem_size_arg (decimal 512 @ ''M'') = 0x20000000 \<and> GC_parse_mem_size_arg (decimal 18014398509481985 @ ''K'') = 1024"
  using memory_sizes_round_trip [of 512] memory_sizes_round_trip [of 18014398509481985] by (simp add: suffix_shift_def)

section \<open>The limit on the heap\<close>

lemma round_up_page:
  assumes "GC_page_size rt = 2 ^ k" "k \<le> 16"
  shows "ROUNDUP_PAGESIZE rt 65536 = 65536"
proof -
  have "k \<in> {0 .. 16}" using assms(2) by simp
  then have "k \<in> {0, 1, 2, 3, 4, 5, 6, 7, 8, 9, 10, 11, 12, 13, 14, 15, 16}" by (auto simp: numeral_eq_Suc le_Suc_eq)
  then show ?thesis using assms(1) unfolding ROUNDUP_PAGESIZE_def SIZET_SAT_ADD_def by (elim insertE emptyE) simp_all
qed

lemma set_stack_base_page [simp]:
  "GC_page_size (pr_runtime (set_stack_base cl p)) = GC_page_size (pr_runtime p)"
  "GC_is_initialized (set_stack_base cl p) = GC_is_initialized p"
  by (simp_all add: set_stack_base_def Let_def)

lemma read_step_runtime [simp]:
  "pr_runtime (read_flags cl p) = pr_runtime p" "pr_runtime (read_pause_time cl p) = pr_runtime p"
  "pr_runtime (read_full_frequency cl p) = pr_runtime p" "pr_runtime (read_warn_interval cl p) = pr_runtime p"
  "pr_runtime (read_space_divisor cl p) = pr_runtime p"
proof -
  have "pr_runtime (GC_dont_gc_set n q) = pr_runtime q" for n q by (simp add: GC_dont_gc_set_def)
  then show "pr_runtime (read_flags cl p) = pr_runtime p" unfolding read_flags_def Let_def by (simp add: if_distrib [of pr_runtime] cong: if_cong)
qed (simp_all add: read_pause_time_def read_full_frequency_def read_warn_interval_def read_space_divisor_def split: option.split)

lemma read_settings_runtime [simp]: "pr_runtime (read_settings cl p) = pr_runtime p"
  by (simp add: read_settings_def)

lemma init_tables_runtime:
  assumes "init_tables cl p = Inr p'"
  shows "GC_page_size (pr_runtime p') = GC_page_size (pr_runtime p)"
proof -
  have "pr_runtime (start_incremental cl q) = pr_runtime q" for q by (simp add: start_incremental_def)
  then show ?thesis using assms unfolding init_tables_def
    by (auto simp: andThen_def Let_def dest!: run_al_runtime split: sum.splits if_splits)
qed

text \<open>C35: A value of \<open>GC_MAXIMUM_HEAP_SIZE\<close> that is smaller than the initial heap size is reported as bad
  and ignored, as the warning says; but it becomes the limit all the same, and the collector does
  not start: the first growth of the heap fails and the process ends.\<close>

theorem bad_maximum_heap_size_stops_start:
  assumes "\<not> GC_is_initialized p" "GC_page_size (pr_runtime p) = 2 ^ k" "k \<le> 16"
    "cl_getenv cl ''GC_INITIAL_HEAP_SIZE'' = None" "cl_getenv cl ''GC_MAXIMUM_HEAP_SIZE'' = Some s"
    "0 < GC_parse_mem_size_arg s" "GC_parse_mem_size_arg s < 65536"
  shows "(\<forall>q. initial_size cl q = (65536, q) \<and> warnings (maximum_size cl 65536 q) = warnings q @ [Bad_maximum_heap_size s] \<and>
        GC_max_heapsize (pr_allocator (maximum_size cl 65536 q)) = GC_parse_mem_size_arg s) \<and>
    (\<forall>q. init_tables cl (read_settings cl p) = Inr q \<longrightarrow>
       GC_init cl p = Inl (Panic ''Can't start up: not enough memory'')) \<and>
    (\<forall>p'. GC_init cl p \<noteq> Inr p')"
proof -
  let ?v = "GC_parse_mem_size_arg s"
  have init: "initial_size cl q = (65536, q)" for q using assms(4) by (simp add: initial_size_def MINHINCR_def)
  have max: "warnings (maximum_size cl 65536 q) = warnings q @ [Bad_maximum_heap_size s] \<and>
      GC_max_heapsize (pr_allocator (maximum_size cl 65536 q)) = ?v \<and> pr_runtime (maximum_size cl 65536 q) = pr_runtime q" for q
    using assms(5,7) by (simp add: maximum_size_def Let_def GC_set_max_heap_size_def)
  have "?v \<noteq> 0" using assms(6) by auto
  have fail: "GC_expand_hp_inner rt 16 a = Inr (False, a)" if "GC_page_size rt = 2 ^ k" "GC_max_heapsize a = ?v" for rt a
    using that(2) \<open>?v \<noteq> 0\<close> assms(7) round_up_page [OF that(1) assms(3)] by (simp add: GC_expand_hp_inner_def Let_def MINHINCR_def)
  have heap: "init_heap cl q = Inl (Panic ''Can't start up: not enough memory'')" if "GC_page_size (pr_runtime q) = 2 ^ k" for q
  proof -
    have "divHBLKSZ 65536 = 16" by (simp add: divHBLKSZ_def drop_bit_eq_div)
    then show ?thesis using that max [of q] fail [of "pr_runtime (maximum_size cl 65536 q)" "pr_allocator (maximum_size cl 65536 q)"]
      by (simp add: init_heap_def init Let_def run_al_with_def)
  qed
  have stop: "GC_init cl p = Inl (Panic ''Can't start up: not enough memory'')" if "init_tables cl (read_settings cl p) = Inr q" for q
    using that assms(1,2) heap [of q] init_tables_runtime [OF that] by (simp add: GC_init_def)
  have "GC_init cl p \<noteq> Inr p'" for p'
    using stop assms(1) by (cases "init_tables cl (read_settings cl p)") (auto simp: GC_init_def)
  then show ?thesis using init max stop by blast
qed

section \<open>Starting up\<close>

text \<open>A client without settings, whose data segments are registered as those of a library are, and a
  program that starts in a system with memory and does not want a collection at once.\<close>

definition plain_client :: client where
  "plain_client =
     \<lparr>cl_getenv = (\<lambda>_. None), cl_dirty_init = False, cl_stack_base = 0x8000, cl_data_segments = [],
      cl_arrays = (0x600100, 0x600200), cl_obj_kinds = (0x600300, 0x600400), cl_finalizers = (\<lambda>_ _ _. Inr), cl_notifier = Inr\<rparr>"

definition fresh_process :: "bool list \<Rightarrow> process" where
  "fresh_process bs =
     set_gc (\<lambda>g. g\<lparr>scratch_answers := replicate 9 True @ bs\<rparr>)
       (on_al (\<lambda>a. a\<lparr>get_mem_answers := [0x400000]\<rparr>) (GC_set_dont_precollect True (initial_process quiet_runtime)))"

text \<open>The names of the variables that \<open>read_settings\<close> looks for.\<close>

definition settings :: "string list" where
  "settings = [''GC_FIND_LEAK'', ''GC_FINDLEAK_DELAY_FREE'', ''GC_ALL_INTERIOR_POINTERS'', ''GC_DONT_GC'', ''GC_NO_BLACKLIST_WARNING'',
     ''GC_TRACE'', ''GC_PAUSE_TIME_TARGET'', ''GC_FULL_FREQUENCY'', ''GC_LARGE_ALLOC_WARN_INTERVAL'', ''GC_FREE_SPACE_DIVISOR'']"

lemma read_no_settings:
  assumes "\<forall>name \<in> set settings. cl_getenv cl name = None"
  shows "read_settings cl p = p"
proof -
  have none: "cl_getenv cl name = None" if "name \<in> set settings" for name using assms that by blast
  have "set_gc (\<lambda>g. g) p = p" by (simp add: set_gc_def on_al_def on_gc_def on_marker_def Let_def)
  then have "read_flags cl p = p" by (simp add: read_flags_def GETENV_def none settings_def)
  moreover have "read_pause_time cl p = p" "read_full_frequency cl p = p" "read_warn_interval cl p = p" "read_space_divisor cl p = p"
    by (simp_all add: read_pause_time_def read_full_frequency_def read_warn_interval_def read_space_divisor_def none settings_def)
  ultimately show ?thesis by (simp add: read_settings_def)
qed

text \<open>The heap when nothing but its tables exists.\<close>

definition empty_heap :: "gc \<Rightarrow> bool" where
  "empty_heap g \<longleftrightarrow> bottom_indices g = [zero_bi] \<and> GC_top_index g = replicate 2048 0 \<and> gc_hdrs g = [] \<and> GC_hdr_free_list g = 0 \<and>
     GC_all_bottom_indices g = None \<and> GC_all_bottom_indices_end g = None \<and> GC_hblkfreelist g = replicate 61 0 \<and>
     GC_free_bytes g = replicate 61 0 \<and> GC_heap_sects g = [] \<and> GC_heapsize g = 0 \<and> GC_large_free_bytes g = 0"

lemma first_header:
  assumes "empty_heap g" "scratch_answers g = True # True # bs"
  shows "GC_install_header 0x400000 g = Inr (4096, g\<lparr>scratch_answers := bs,
      bottom_indices := [zero_bi, zero_bi\<lparr>bi_key := 1, bi_index := (replicate 1024 0)[0 := 4096]\<rparr>], GC_all_bottom_indices := Some 1, GC_all_bottom_indices_end := Some 1,
      GC_top_index := (replicate 2048 0)[1 := 1], gc_hdrs := [zero_hdr]\<rparr>)"
proof -
  have hi: "hi_of 0x400000 = 1" "TL_HASH 1 = 1" "slot_of 0x400000 = 0" by (simp_all add: hi_of_def TL_HASH_def slot_of_def drop_bit_eq_div)
  have z: "bi_index zero_bi = replicate 1024 0" "bi_key zero_bi = 0" "hash_link zero_bi = 0" "asc_link zero_bi = None" "desc_link zero_bi = None" by (simp_all add: zero_bi_def)
  have "get_index 0x400000 g = Inr (True, g\<lparr>scratch_answers := True # bs,
      bottom_indices := [zero_bi, zero_bi\<lparr>bi_key := 1\<rparr>], GC_all_bottom_indices := Some 1, GC_all_bottom_indices_end := Some 1,
      GC_top_index := (replicate 2048 0)[1 := 1]\<rparr>)"
    using assms z by (simp add: get_index_def empty_heap_def hi read_at_def write_at_def scratch_def deref_def Let_def zero_bi_def)
  then show ?thesis using assms z
    by (simp add: GC_install_header_def alloc_hdr_def empty_heap_def scratch_def SET_HDR_def GET_BI_def hi read_at_def write_at_def deref_def hdr_addr_def)
qed

text \<open>The same heap with one free block of 16 blocks, whose header is the only one.\<close>

definition one_section :: "gc \<Rightarrow> bool" where
  "one_section g \<longleftrightarrow> bottom_indices g = [zero_bi, zero_bi\<lparr>bi_key := 1, bi_index := (replicate 1024 0)[0 := 4096]\<rparr>] \<and>
     GC_top_index g = (replicate 2048 0)[1 := 1] \<and> GC_all_bottom_indices g = Some 1 \<and> GC_all_bottom_indices_end g = Some 1"

lemma HDR_one_section:
  assumes "one_section g"
  shows "HDR 0x400000 g = Inr 4096" "HDR 0x401000 g = Inr 0" "HDR 0x410000 g = Inr 0" "GC_free_block_ending_at 0x400000 g = Inr 0"
proof -
  have at: "hi_of 0x400000 = 1" "slot_of 0x400000 = 0" "hi_of 0x401000 = 1" "slot_of 0x401000 = 1" "hi_of 0x410000 = 1" "slot_of 0x410000 = 16"
    "hi_of 0x3FF000 = 0" "slot_of 0x3FF000 = 1023" "TL_HASH 1 = 1" "TL_HASH 0 = 0"
    by (simp_all add: hi_of_def TL_HASH_def slot_of_def drop_bit_eq_div)
  have z: "bi_index zero_bi = replicate 1024 0" "bi_key zero_bi = 0" "desc_link zero_bi = None" by (simp_all add: zero_bi_def)
  note s = assms [unfolded one_section_def] at z
  show "HDR 0x400000 g = Inr 4096" "HDR 0x401000 g = Inr 0" "HDR 0x410000 g = Inr 0"
    using s by (simp_all add: HDR_def GET_BI_def read_at_def deref_def)
  have e: "HDR 0x3FF000 g = Inr 0" "GET_BI 0x3FF000 g = Inr 0" using s by (simp_all add: HDR_def GET_BI_def read_at_def deref_def)
  have "bi_downwards 3 0 (Some 1) (bottom_indices g) = Inr None" using s by (simp add: numeral_3_eq_3 deref_def)
  then have "GC_prev_block 0x3FF000 g = Inr 0" using s e by (simp add: GC_prev_block_def)
  then show "GC_free_block_ending_at 0x400000 g = Inr 0"
    using e by (simp add: GC_free_block_ending_at_def get_block_ending_at_def IS_FORWARDING_ADDR_OR_NIL_def)
qed

lemma one_section_cong:
  "bottom_indices g' = bottom_indices g \<Longrightarrow> GC_top_index g' = GC_top_index g \<Longrightarrow> GC_all_bottom_indices g' = GC_all_bottom_indices g \<Longrightarrow>
    GC_all_bottom_indices_end g' = GC_all_bottom_indices_end g \<Longrightarrow> one_section g' = one_section g"
  by (simp add: one_section_def)

lemma first_free:
  assumes "one_section g" "gc_hdrs g = [zero_hdr\<lparr>hb_sz := 65536\<rparr>]" "GC_hblkfreelist g = replicate 61 0" "GC_free_bytes g = replicate 61 0"
  shows "GC_freehblk 0x400000 g = Inr (g\<lparr>gc_hdrs := [zero_hdr\<lparr>hb_sz := 65536, hb_flags := FREE_BLK\<rparr>],
     GC_hblkfreelist := (replicate 61 0)[16 := 0x400000], GC_free_bytes := (replicate 61 0)[16 := 65536],
     GC_large_free_bytes := GC_large_free_bytes g + 65536\<rparr>)"
proof -
  have n: "OBJ_SZ_TO_BLOCKS 65536 = 16" "divHBLKSZ 65536 = 16" "GC_hblk_fl_from_blocks 16 = 16"
    by (simp_all add: OBJ_SZ_TO_BLOCKS_def divHBLKSZ_def drop_bit_eq_div GC_hblk_fl_from_blocks_def)
  have i: "hdr_index 4096 = Inr 0" by (simp add: hdr_index_def)
  have signs: "\<not> (65536 :: u64) <s 0" by (simp add: word_sless_alt)
  have flags: "hb_flags zero_hdr = 0" "hb_next zero_hdr = 0" "hb_prev zero_hdr = 0" by (simp_all add: zero_hdr_def)
  show ?thesis
    using assms(2-) HDR_one_section [OF assms(1)] HDR_one_section [where g = "g\<lparr>gc_hdrs := h\<rparr>" for h]
      one_section_cong [where g = g and g' = "g\<lparr>gc_hdrs := h\<rparr>" for h] assms(1)
    by (simp add: signs GC_freehblk_def get_hdr_def mod_hdr_def i deref_def n GC_remove_counts_def HBLK_IS_FREE_def flags coalesce_next_def coalesce_prev_def
        GC_add_to_fl_def read_at_def write_at_def set_fl_def add_free_bytes_def Let_def FREE_BLK_def)
qed

lemma first_section:
  assumes "empty_heap (mk_gc m)" "scratch_answers (mk_gc m) = True # True # bs"
  shows "\<exists>m'. install_section 0x400000 65536 0x410000 m = Inr m' \<and> GC_heap_sects (mk_gc m') = [(0x400000, 65536)] \<and>
    GC_heapsize (mk_gc m') = 65536 \<and> GC_large_free_bytes (mk_gc m') = 65536 \<and>
    GC_hblkfreelist (mk_gc m') = (replicate 61 0)[16 := 0x400000] \<and>
    GC_all_interior_pointers (mk_gc m') = GC_all_interior_pointers (mk_gc m) \<and> GC_valid_offsets m' = GC_valid_offsets m \<and>
    GC_modws_valid_offsets (mk_gc m') = GC_modws_valid_offsets (mk_gc m) \<and> GC_incremental (mk_gc m') = GC_incremental (mk_gc m) \<and>
    GC_requested_heapsize (mk_gc m') = GC_requested_heapsize (mk_gc m)"
proof -
  let ?g = "(mk_gc m)\<lparr>scratch_answers := bs,
      bottom_indices := [zero_bi, zero_bi\<lparr>bi_key := 1, bi_index := (replicate 1024 0)[0 := 4096]\<rparr>], GC_all_bottom_indices := Some 1, GC_all_bottom_indices_end := Some 1,
      GC_top_index := (replicate 2048 0)[1 := 1], gc_hdrs := [zero_hdr]\<rparr>"
  let ?g1 = "?g\<lparr>GC_heap_sects := [(0x400000, 65536)], gc_hdrs := [zero_hdr\<lparr>hb_sz := 65536\<rparr>]\<rparr>"
  have e: "empty_heap (mk_gc m)" by fact
  have "zero_hdr\<lparr>hb_sz := 65536, hb_flags := 0\<rparr> = zero_hdr\<lparr>hb_sz := 65536\<rparr>" by (simp add: zero_hdr_def)
  then have h: "mod_hdr 4096 (\<lambda>h. h\<lparr>hb_sz := 65536, hb_flags := 0\<rparr>) (?g\<lparr>GC_heap_sects := GC_heap_sects ?g @ [(0x400000, 65536)]\<rparr>) = Inr ?g1"
    using e by (simp add: mod_hdr_def hdr_index_def deref_def empty_heap_def)
  have f: "GC_freehblk 0x400000 ?g1 = Inr (?g1\<lparr>gc_hdrs := [zero_hdr\<lparr>hb_sz := 65536, hb_flags := FREE_BLK\<rparr>],
     GC_hblkfreelist := (replicate 61 0)[16 := 0x400000], GC_free_bytes := (replicate 61 0)[16 := 65536],
     GC_large_free_bytes := GC_large_free_bytes ?g1 + 65536\<rparr>)"
    using e by (intro first_free) (simp_all add: one_section_def empty_heap_def)
  show ?thesis using e unfolding install_section_def first_header [OF assms] andThen_Inr prod.case h f
    by (simp add: Let_def empty_heap_def)
qed

text \<open>The first growth of the heap, by 16 blocks at a given address.\<close>

lemma adjust_limits_simps [simp]:
  "the_gc (adjust_limits space bytes slop a) = the_gc a"
  "GC_capacity_heap_sects (adjust_limits space bytes slop a) = GC_capacity_heap_sects a"
  "GC_size_map (adjust_limits space bytes slop a) = GC_size_map a"
  "GC_valid_offsets (cl_marker (al_collector (adjust_limits space bytes slop a))) = GC_valid_offsets (cl_marker (al_collector a))"
  by (simp_all add: adjust_limits_def on_marker_def Let_def)

lemma first_growth:
  assumes "empty_heap (the_gc a)" "scratch_answers (the_gc a) = True # True # True # bs" "get_mem_answers a = [0x400000]"
    "GC_capacity_heap_sects a = 0" "GC_max_heapsize a = 0 \<or> 65536 \<le> GC_max_heapsize a" "GC_page_size rt = 4096"
  shows "\<exists>a'. GC_expand_hp_inner rt 16 a = Inr (True, a') \<and> GC_heap_sects (the_gc a') = [(0x400000, 65536)] \<and>
    GC_heapsize (the_gc a') = 65536 \<and> GC_large_free_bytes (the_gc a') = 65536 \<and>
    GC_hblkfreelist (the_gc a') = (replicate 61 0)[16 := 0x400000] \<and> GC_size_map a' = GC_size_map a \<and>
    GC_all_interior_pointers (the_gc a') = GC_all_interior_pointers (the_gc a) \<and>
    GC_valid_offsets (cl_marker (al_collector a')) = GC_valid_offsets (cl_marker (al_collector a)) \<and>
    GC_modws_valid_offsets (the_gc a') = GC_modws_valid_offsets (the_gc a) \<and> GC_incremental (the_gc a') = GC_incremental (the_gc a) \<and>
    GC_requested_heapsize (the_gc a') = GC_requested_heapsize (the_gc a)"
proof -
  have page: "ROUNDUP_PAGESIZE rt 65536 = 65536" using round_up_page [of rt 12] assms(6) by simp
  have mem: "GET_MEM a = (0x400000, a\<lparr>get_mem_answers := []\<rparr>)" using assms(3) by (simp add: GET_MEM_def)
  let ?b = "\<lambda>slop. (adjust_limits 0x400000 65536 slop (a\<lparr>get_mem_answers := []\<rparr>))\<lparr>GC_last_heap_addr := 0x400000\<rparr>"
  let ?c = "\<lambda>slop. (on_gc (\<lambda>_. (the_gc a)\<lparr>scratch_answers := True # True # bs\<rparr>) (?b slop))\<lparr>GC_capacity_heap_sects := 32\<rparr>"
  have grow: "grow_heap_sects (?b slop) = Inr (?c slop)" for slop
    using assms by (simp add: grow_heap_sects_def empty_heap_def scratch_def Let_def)
  have low: "skip_low 3 0x400000 65536 = Inr (Some (0x400000, 65536))" by (simp add: numeral_3_eq_3)
  have cut: "cut_wrapped (Suc n) 0x400000 65536 (0x400000 + 65536) = Inr (Some (65536, 0x410000))" for n by simp
  have add: "\<exists>a'. GC_add_to_heap 0x400000 65536 (?b slop) = Inr a' \<and> GC_heap_sects (the_gc a') = [(0x400000, 65536)] \<and>
      GC_heapsize (the_gc a') = 65536 \<and> GC_large_free_bytes (the_gc a') = 65536 \<and>
      GC_hblkfreelist (the_gc a') = (replicate 61 0)[16 := 0x400000] \<and> GC_size_map a' = GC_size_map a \<and>
      GC_all_interior_pointers (the_gc a') = GC_all_interior_pointers (the_gc a) \<and>
      GC_valid_offsets (cl_marker (al_collector a')) = GC_valid_offsets (cl_marker (al_collector a)) \<and>
      GC_modws_valid_offsets (the_gc a') = GC_modws_valid_offsets (the_gc a) \<and> GC_incremental (the_gc a') = GC_incremental (the_gc a) \<and>
    GC_requested_heapsize (the_gc a') = GC_requested_heapsize (the_gc a)" for slop
  proof -
    let ?m = "cl_marker (al_collector (?c slop))"
    have "empty_heap (mk_gc ?m)" using assms(1) by (simp add: empty_heap_def)
    moreover have "scratch_answers (mk_gc ?m) = True # True # bs" by simp
    ultimately obtain m' where "install_section 0x400000 65536 0x410000 ?m = Inr m'" "GC_heap_sects (mk_gc m') = [(0x400000, 65536)]"
      "GC_heapsize (mk_gc m') = 65536" "GC_large_free_bytes (mk_gc m') = 65536"
      "GC_hblkfreelist (mk_gc m') = (replicate 61 0)[16 := 0x400000]"
      "GC_all_interior_pointers (mk_gc m') = GC_all_interior_pointers (mk_gc ?m)" "GC_valid_offsets m' = GC_valid_offsets ?m"
      "GC_modws_valid_offsets (mk_gc m') = GC_modws_valid_offsets (mk_gc ?m)" "GC_incremental (mk_gc m') = GC_incremental (mk_gc ?m)" "GC_requested_heapsize (mk_gc m') = GC_requested_heapsize (mk_gc ?m)"
      using first_section by blast
    moreover from this(1) have "GC_add_to_heap 0x400000 65536 (?b slop) = Inr ((?c slop)\<lparr>al_collector := (al_collector (?c slop))\<lparr>cl_marker := m'\<rparr>\<rparr>)"
      unfolding GC_add_to_heap_def grow andThen_Inr low option.case prod.case cut by (simp add: lift_collector_def lift_marker_def)
    ultimately show ?thesis by (simp add: on_gc_def on_marker_def Let_def)
  qed
  let ?slop = "min_bytes_allocd (rt_stack_size rt) (the_gc a) + 4 * MAXHINCR * HBLKSIZE"
  from add [of ?slop] obtain a' where a': "GC_add_to_heap 0x400000 65536 (?b ?slop) = Inr a'" "GC_heap_sects (the_gc a') = [(0x400000, 65536)]"
      "GC_heapsize (the_gc a') = 65536" "GC_large_free_bytes (the_gc a') = 65536"
      "GC_hblkfreelist (the_gc a') = (replicate 61 0)[16 := 0x400000]" "GC_size_map a' = GC_size_map a"
      "GC_all_interior_pointers (the_gc a') = GC_all_interior_pointers (the_gc a)"
      "GC_valid_offsets (cl_marker (al_collector a')) = GC_valid_offsets (cl_marker (al_collector a))"
      "GC_modws_valid_offsets (the_gc a') = GC_modws_valid_offsets (the_gc a)" "GC_incremental (the_gc a') = GC_incremental (the_gc a)"
      "GC_requested_heapsize (the_gc a') = GC_requested_heapsize (the_gc a)" by blast
  have "\<not> (GC_max_heapsize a \<noteq> 0 \<and> (GC_max_heapsize a < 65536 \<or> GC_max_heapsize a - 65536 < GC_heapsize (the_gc a)))"
    using assms(1,5) by (auto simp: empty_heap_def)
  then show ?thesis using a' page mem by (simp add: GC_expand_hp_inner_def Let_def MINHINCR_def on_gc_def on_marker_def)
qed

section \<open>All of the start\<close>

lemma exclusions_added:
  assumes "GC_excl_table_entries c = 0" "length (GC_excl_table c) = 512" "e1 \<le> s2"
  shows "\<exists>t. GC_exclude_static_roots_inner s1 e1 c = Inr (c\<lparr>GC_excl_table := t, GC_excl_table_entries := 1\<rparr>) \<and>
    GC_exclude_static_roots_inner s2 e2 (c\<lparr>GC_excl_table := t, GC_excl_table_entries := 1\<rparr>) =
      Inr (c\<lparr>GC_excl_table := t[1 := \<lparr>e_start = s2, e_end = e2\<rparr>], GC_excl_table_entries := 2\<rparr>)"
proof -
  have ne: "GC_excl_table c \<noteq> []" using assms(2) by auto
  let ?t = "(GC_excl_table c)[0 := \<lparr>e_start = s1, e_end = e1\<rparr>]"
  have "GC_exclude_static_roots_inner s1 e1 c = Inr (c\<lparr>GC_excl_table := ?t, GC_excl_table_entries := 1\<rparr>)"
    using assms(1,2) ne by (simp add: GC_exclude_static_roots_inner_def insert_exclusion_def MAX_EXCLUSIONS_def write_at_def)
  moreover have "excl_search 65 0 0 s2 t = Inr 0" for t by (simp add: numeral_eq_Suc)
  then have "GC_next_exclusion s2 (c\<lparr>GC_excl_table := ?t, GC_excl_table_entries := 1\<rparr>) = Inr None"
    using assms(2,3) ne by (simp add: GC_next_exclusion_def read_at_def)
  then have "GC_exclude_static_roots_inner s2 e2 (c\<lparr>GC_excl_table := ?t, GC_excl_table_entries := 1\<rparr>) =
      Inr (c\<lparr>GC_excl_table := ?t[1 := \<lparr>e_start = s2, e_end = e2\<rparr>], GC_excl_table_entries := 2\<rparr>)"
    using assms(2) by (simp add: GC_exclude_static_roots_inner_def insert_exclusion_def MAX_EXCLUSIONS_def write_at_def)
  ultimately show ?thesis by blast
qed

lemma tables_built:
  assumes cl: "cl_getenv cl ''GC_ENABLE_INCREMENTAL'' = None" "cl_data_segments cl = []" "snd (cl_arrays cl) \<le> fst (cl_obj_kinds cl)"
    and p: "al_collector (pr_allocator p) = c" "mk_gc (cl_marker c) = g" "GC_excl_table_entries c = 0" "length (GC_excl_table c) = 512"
      "scratch_answers g = replicate 6 True @ bs" "\<not> GC_incremental g" "\<not> GC_all_interior_pointers g" "GC_incomplete_normal_bl g = []"
  shows "\<exists>t q. init_tables cl p = Inr q \<and> GC_page_size (pr_runtime q) = GC_page_size (pr_runtime p) \<and>
    GC_is_initialized q = GC_is_initialized p \<and> GC_dont_precollect q = GC_dont_precollect p \<and> warnings q = warnings p \<and>
    pr_allocator q = (pr_allocator p)\<lparr>al_collector := c\<lparr>GC_excl_table := t, GC_excl_table_entries := 2,
      cl_marker := (cl_marker c)\<lparr>GC_mark_stack_size := 4096, GC_mark_stack := [], GC_mark_stack_too_small := False,
        mk_gc := g\<lparr>scratch_answers := bs, bottom_indices := [zero_bi], GC_top_index := replicate 2048 0,
          GC_old_normal_bl := empty_bl, GC_incomplete_normal_bl := empty_bl, GC_old_stack_bl := empty_bl,
          GC_incomplete_stack_bl := empty_bl\<rparr>\<rparr>\<rparr>\<rparr>"
proof -
  obtain t where t: "GC_exclude_static_roots_inner (fst (cl_arrays cl)) (snd (cl_arrays cl)) c = Inr (c\<lparr>GC_excl_table := t, GC_excl_table_entries := 1\<rparr>)"
    "GC_exclude_static_roots_inner (fst (cl_obj_kinds cl)) (snd (cl_obj_kinds cl)) (c\<lparr>GC_excl_table := t, GC_excl_table_entries := 1\<rparr>) =
      Inr (c\<lparr>GC_excl_table := t[1 := \<lparr>e_start = fst (cl_obj_kinds cl), e_end = snd (cl_obj_kinds cl)\<rparr>], GC_excl_table_entries := 2\<rparr>)"
    using exclusions_added [OF p(3,4) cl(3)] by blast
  have "adjust_descriptor g = g" using p(7) by (simp add: adjust_descriptor_def EXTRA_BYTES_def)
  then have "set_gc adjust_descriptor p = p" using p(1,2) by (simp add: set_gc_def on_al_def on_gc_def on_marker_def Let_def)
  have stack: "pr_allocator (set_stack_base cl q) = pr_allocator q" "GC_dont_precollect (set_stack_base cl q) = GC_dont_precollect q" "warnings (set_stack_base cl q) = warnings q" for q
    by (simp_all add: set_stack_base_def Let_def)
  have six: "replicate 6 True = [True, True, True, True, True, True]" by (simp add: numeral_eq_Suc)
  show ?thesis using t p cl(1,2)
    by (intro exI [of _ "t[1 := \<lparr>e_start = fst (cl_obj_kinds cl), e_end = snd (cl_obj_kinds cl)\<rparr>]"])
      (simp add: init_tables_def \<open>set_gc adjust_descriptor p = p\<close> run_al_def lift_collector_def stack or_exit_def GC_init_headers_def scratch_def six
        on_gc_def on_marker_def Let_def GETENV_def GC_bl_init_def GC_bl_init_no_interiors_def lift_marker_def GC_mark_init_def alloc_mark_stack_def
        INITIAL_MARK_STACK_SIZE_def)
qed

lemma sizes_built:
  assumes "GC_valid_offsets (cl_marker (al_collector (pr_allocator p))) = replicate 4096 False"
    "GC_modws_valid_offsets (pr_gc p) = replicate 8 False" "GC_size_map (pr_allocator p) = replicate 2049 0" "\<not> GC_all_interior_pointers (pr_gc p)"
  shows "\<exists>a. init_sizes p = Inr (p\<lparr>pr_allocator := a, GC_is_initialized := True\<rparr>) \<and> size_map_ok (EXTRA_BYTES (the_gc a)) (GC_size_map a) \<and>
    the_gc a = (pr_gc p)\<lparr>GC_modws_valid_offsets := (replicate 8 False)[0 := True]\<rparr>"
proof -
  let ?m = "cl_marker (al_collector (pr_allocator p))"
  have d: "GC_register_displacement_inner 0 ?m = Inr (?m\<lparr>GC_valid_offsets := (replicate 4096 False)[0 := True],
      mk_gc := (mk_gc ?m)\<lparr>GC_modws_valid_offsets := (replicate 8 False)[0 := True]\<rparr>\<rparr>)"
    using assms(1,2) by (simp add: GC_register_displacement_inner_def read_at_def write_at_def)
  obtain t where "GC_init_size_map 0 (replicate 2049 0) = Inr t" "size_map_ok 0 t" using init_size_map_spec [of 0] by auto
  then show ?thesis using assms(3,4) d
    by (intro exI [of _ "(pr_allocator p)\<lparr>al_collector := (al_collector (pr_allocator p))\<lparr>cl_marker := ?m\<lparr>GC_valid_offsets := (replicate 4096 False)[0 := True],
      mk_gc := (mk_gc ?m)\<lparr>GC_modws_valid_offsets := (replicate 8 False)[0 := True]\<rparr>\<rparr>\<rparr>, GC_size_map := t\<rparr>"])
      (simp add: init_sizes_def run_al_def lift_collector_def lift_marker_def EXTRA_BYTES_def)
qed

text \<open>A run of the start without settings in the environment, with the first collection turned off
  (\<open>GC_dont_precollect\<close>), without data segments, and with memory at one address: there is a heap of
  64 KiB that is one free block in the free list for 16 blocks, no limit and no warnings, a table of size
  classes that are large enough, and starting again changes nothing.\<close>

theorem collector_starts:
  assumes "cl_getenv cl = (\<lambda>_. None)" "cl_data_segments cl = []" "snd (cl_arrays cl) \<le> fst (cl_obj_kinds cl)"
    "GC_page_size rt = 4096"
    "p = set_gc (\<lambda>g. g\<lparr>scratch_answers := replicate 9 True @ bs\<rparr>)
       (on_al (\<lambda>a. a\<lparr>get_mem_answers := [0x400000]\<rparr>) (GC_set_dont_precollect True (initial_process rt)))"
  shows "\<exists>p'. GC_init cl p = Inr p' \<and> GC_is_initialized p' \<and> GC_init cl p' = Inr p' \<and> warnings p' = [] \<and>
    GC_heap_sects (pr_gc p') = [(0x400000, 65536)] \<and> GC_get_heap_size p' = 65536 \<and> GC_get_free_bytes p' = 65536 \<and>
    GC_hblkfreelist (pr_gc p') = (replicate 61 0)[16 := 0x400000] \<and> GC_requested_heapsize (pr_gc p') = 65536 \<and>
    size_map_ok (EXTRA_BYTES (pr_gc p')) (GC_size_map (pr_allocator p'))"
proof -
  let ?a = "pr_allocator p" let ?c = "al_collector ?a"
  have c: "GC_excl_table_entries ?c = 0" "length (GC_excl_table ?c) = 512" "scratch_answers (pr_gc p) = replicate 6 True @ (True # True # True # bs)"
    "\<not> GC_incremental (pr_gc p)" "\<not> GC_all_interior_pointers (pr_gc p)" "GC_incomplete_normal_bl (pr_gc p) = []"
    using assms(5) by (simp_all add: GC_set_dont_precollect_def initial_process_def initial_allocator_def on_gc_def on_marker_def Let_def
      initial_collector_def initial_marker_def initial_gc_def MAX_EXCLUSIONS_def numeral_eq_Suc)
  obtain t q where q: "init_tables cl p = Inr q" "GC_page_size (pr_runtime q) = GC_page_size (pr_runtime p)"
    "GC_is_initialized q = GC_is_initialized p" "GC_dont_precollect q = GC_dont_precollect p" "warnings q = warnings p"
    "pr_allocator q = ?a\<lparr>al_collector := ?c\<lparr>GC_excl_table := t, GC_excl_table_entries := 2,
      cl_marker := (cl_marker ?c)\<lparr>GC_mark_stack_size := 4096, GC_mark_stack := [], GC_mark_stack_too_small := False,
        mk_gc := (pr_gc p)\<lparr>scratch_answers := True # True # True # bs, bottom_indices := [zero_bi], GC_top_index := replicate 2048 0,
          GC_old_normal_bl := empty_bl, GC_incomplete_normal_bl := empty_bl, GC_old_stack_bl := empty_bl,
          GC_incomplete_stack_bl := empty_bl\<rparr>\<rparr>\<rparr>\<rparr>"
    using tables_built [OF _ assms(2,3) refl refl c] assms(1) by auto
  note start = GC_set_dont_precollect_def initial_process_def initial_allocator_def on_gc_def on_marker_def Let_def
      initial_collector_def initial_marker_def initial_gc_def set_gc_def on_al_def
  have p: "pr_runtime p = rt" "\<not> GC_is_initialized p" "GC_dont_precollect p" "warnings p = []"
    using assms(5) by (simp_all add: start)
  have "empty_heap (pr_gc q)" "scratch_answers (pr_gc q) = True # True # True # bs" "get_mem_answers (pr_allocator q) = [0x400000]"
    "GC_capacity_heap_sects (pr_allocator q) = 0" "GC_max_heapsize (pr_allocator q) = 0 \<or> 65536 \<le> GC_max_heapsize (pr_allocator q)" "GC_page_size (pr_runtime q) = 4096"
    using q(2,6) p(1) assms(4,5) by (simp_all add: start empty_heap_def)
  from first_growth [OF this] obtain a' where a': "GC_expand_hp_inner (pr_runtime q) 16 (pr_allocator q) = Inr (True, a')"
    "GC_heap_sects (the_gc a') = [(0x400000, 65536)]" "GC_heapsize (the_gc a') = 65536" "GC_large_free_bytes (the_gc a') = 65536"
    "GC_hblkfreelist (the_gc a') = (replicate 61 0)[16 := 0x400000]" "GC_size_map a' = GC_size_map (pr_allocator q)"
    "GC_requested_heapsize (the_gc a') = GC_requested_heapsize (pr_gc q)"
    "GC_all_interior_pointers (the_gc a') = GC_all_interior_pointers (pr_gc q)"
    "GC_valid_offsets (cl_marker (al_collector a')) = GC_valid_offsets (cl_marker (al_collector (pr_allocator q)))"
    "GC_modws_valid_offsets (the_gc a') = GC_modws_valid_offsets (pr_gc q)" "GC_incremental (the_gc a') = GC_incremental (pr_gc q)" by blast
  have same: "GC_size_map (pr_allocator q) = replicate 2049 0" "GC_requested_heapsize (pr_gc q) = 0" "\<not> GC_all_interior_pointers (pr_gc q)"
    "GC_valid_offsets (cl_marker (al_collector (pr_allocator q))) = replicate 4096 False" "GC_modws_valid_offsets (pr_gc q) = replicate 8 False"
    "\<not> GC_incremental (pr_gc q)"
    using q(6) assms(5) by (simp_all add: start)
  let ?h = "set_gc (\<lambda>g. g\<lparr>GC_requested_heapsize := GC_requested_heapsize g + 65536\<rparr>) (q\<lparr>pr_allocator := a'\<rparr>)"
  have "divHBLKSZ 65536 = 16" by (simp add: divHBLKSZ_def drop_bit_eq_div)
  then have heap: "init_heap cl q = Inr ?h"
    using a'(1) assms(1) by (simp add: init_heap_def initial_size_def maximum_size_def MINHINCR_def run_al_with_def Let_def)
  obtain a where a: "init_sizes ?h = Inr (?h\<lparr>pr_allocator := a, GC_is_initialized := True\<rparr>)" "size_map_ok (EXTRA_BYTES (the_gc a)) (GC_size_map a)"
    "the_gc a = (pr_gc ?h)\<lparr>GC_modws_valid_offsets := (replicate 8 False)[0 := True]\<rparr>"
    using sizes_built [of ?h] a' same by (auto simp: start)
  have "GC_init cl p = Inr (let r = ?h\<lparr>pr_allocator := a, GC_is_initialized := True\<rparr> in if GC_find_leak (pr_gc r) then r\<lparr>at_exit_check := True\<rparr> else r)"
    using read_no_settings [of cl p] p(2,3) q(1,4) heap a(1,3) a' same assms(1) by (simp add: GC_init_def start)
  then show ?thesis using a a' same q(5) p(4)
    by (intro exI [of _ "let r = ?h\<lparr>pr_allocator := a, GC_is_initialized := True\<rparr> in if GC_find_leak (pr_gc r) then r\<lparr>at_exit_check := True\<rparr> else r"])
      (simp add: GC_init_def GC_get_heap_size_def GC_get_free_bytes_def Let_def)
qed

lemma collector_starts_witness:
  "\<exists>p'. GC_init plain_client (fresh_process []) = Inr p' \<and> GC_is_initialized p' \<and> GC_get_free_bytes p' = 65536"
proof -
  have "cl_getenv plain_client = (\<lambda>_. None)" "cl_data_segments plain_client = []" "snd (cl_arrays plain_client) \<le> fst (cl_obj_kinds plain_client)"
    "GC_page_size quiet_runtime = 4096" by (simp_all add: plain_client_def quiet_runtime_def)
  from collector_starts [OF this fresh_process_def] show ?thesis by blast
qed

text \<open>A client that sets a limit below 64 KiB.\<close>

lemma bad_maximum_heap_size_stops_start_witness:
  "GC_init (plain_client\<lparr>cl_getenv := [''GC_MAXIMUM_HEAP_SIZE'' \<mapsto> ''32k'']\<rparr>) (fresh_process []) =
     Inl (Panic ''Can't start up: not enough memory'')"
proof -
  let ?cl = "plain_client\<lparr>cl_getenv := [''GC_MAXIMUM_HEAP_SIZE'' \<mapsto> ''32k'']\<rparr>" and ?p = "fresh_process []"
  note start = GC_set_dont_precollect_def initial_process_def initial_allocator_def on_gc_def on_marker_def Let_def
      initial_collector_def initial_marker_def initial_gc_def set_gc_def on_al_def
  have s: "GC_parse_mem_size_arg ''32k'' = 32768"
    by (simp add: GC_parse_mem_size_arg_def STRTOULL_def scan_number_def skip_sign_def c_isspace_def c_isdigit_def push_bit_eq_mult)
  have r: "read_settings ?cl ?p = ?p" by (rule read_no_settings) (simp add: settings_def)
  have nine: "replicate 9 True = replicate 6 True @ [True, True, True]" by (simp add: numeral_eq_Suc)
  have "cl_getenv ?cl ''GC_ENABLE_INCREMENTAL'' = None" "cl_data_segments ?cl = []" "snd (cl_arrays ?cl) \<le> fst (cl_obj_kinds ?cl)"
    "GC_excl_table_entries (al_collector (pr_allocator ?p)) = 0" "length (GC_excl_table (al_collector (pr_allocator ?p))) = 512"
    "scratch_answers (pr_gc ?p) = replicate 6 True @ [True, True, True]"
    "\<not> GC_incremental (pr_gc ?p)" "\<not> GC_all_interior_pointers (pr_gc ?p)" "GC_incomplete_normal_bl (pr_gc ?p) = []"
    using nine by (simp_all add: plain_client_def fresh_process_def start MAX_EXCLUSIONS_def)
  from tables_built [OF this(1-3) refl refl this(4-9)] obtain q where "init_tables ?cl (read_settings ?cl ?p) = Inr q" using r by auto
  moreover have "\<not> GC_is_initialized ?p" "GC_page_size (pr_runtime ?p) = 2 ^ 12"
    by (simp_all add: fresh_process_def start quiet_runtime_def)
  ultimately show ?thesis using bad_maximum_heap_size_stops_start [of ?p 12 ?cl "''32k''"] s by simp
qed

end
