(* ===== verification/Atomix_GC_Limit.thy ===== *)
theory Atomix_GC_Limit
  imports Atomix_GC_Client_Laws
begin

unbundle bit_operations_syntax

text \<open>
  The limit that a client sets on the heap, and what holds for calls that grow it.
\<close>

section \<open>The heap size\<close>

text \<open>Operations on headers and free lists leave the size of the heap alone.\<close>

lemma andThen_Inr_iff: "andThen m f = Inr y \<longleftrightarrow> (\<exists>x. m = Inr x \<and> f x = Inr y)"
  by (cases m) simp_all

named_theorems heapsize

definition sizes :: "gc \<Rightarrow> u64 \<times> u64" where
  "sizes g = (GC_heapsize g, GC_requested_heapsize g)"

lemma heapsize_basic [heapsize]:
  "scratch g = (b, g') \<Longrightarrow> sizes g' = sizes g"
  "mod_hdr e f g = Inr g' \<Longrightarrow> sizes g' = sizes g"
  "SET_HDR h e g = Inr g' \<Longrightarrow> sizes g' = sizes g"
  "set_fl i h g = Inr g' \<Longrightarrow> sizes g' = sizes g"
  "add_free_bytes i n g = Inr g' \<Longrightarrow> sizes g' = sizes g"
  by (auto simp: sizes_def scratch_def mod_hdr_def SET_HDR_def set_fl_def add_free_bytes_def andThen_Inr_iff split: list.splits)

lemma heapsize_headers [heapsize]:
  "mod_hdr_of p f g = Inr g' \<Longrightarrow> sizes g' = sizes g"
  "alloc_hdr g = Inr (e, g') \<Longrightarrow> sizes g' = sizes g"
  "free_hdr e g = Inr g' \<Longrightarrow> sizes g' = sizes g"
  "get_index h g = Inr (b, g') \<Longrightarrow> sizes g' = sizes g"
  by (auto simp: sizes_def mod_hdr_of_def alloc_hdr_def free_hdr_def get_index_def andThen_Inr_iff Let_def dest!: heapsize split: if_splits prod.splits bool.splits)

lemma heapsize_upto:
  assumes "\<And>p s s'. f p s = Inr s' \<Longrightarrow> sizes s' = sizes s" "upto_loop n step lim f p g = Inr g'"
  shows "sizes g' = sizes g"
  using assms(2) by (induction n arbitrary: p g) (auto simp: andThen_Inr_iff dest!: assms(1) split: if_splits)

lemma heapsize_install [heapsize]:
  "GC_install_header h g = Inr (e, g') \<Longrightarrow> sizes g' = sizes g"
  "GC_remove_header h g = Inr g' \<Longrightarrow> sizes g' = sizes g"
  by (auto simp: sizes_def GC_install_header_def GC_remove_header_def andThen_Inr_iff dest!: heapsize split: if_splits prod.splits)

lemma heapsize_clear: "upto_loop n step lim (\<lambda>p. SET_HDR p 0) h g = Inr g' \<Longrightarrow> sizes g' = sizes g"
  by (erule heapsize_upto [rotated]) (rule heapsize)

lemma heapsize_counts [heapsize]: "GC_remove_counts h sz g = Inr g' \<Longrightarrow> sizes g' = sizes g"
  by (auto simp: sizes_def GC_remove_counts_def andThen_Inr_iff simp del: upto_loop.simps dest!: heapsize_clear split: if_splits)

lemma heapsize_lists [heapsize]:
  "GC_remove_from_fl e g = Inr g' \<Longrightarrow> sizes g' = sizes g"
  "GC_add_to_fl h e g = Inr g' \<Longrightarrow> sizes g' = sizes g"
  by (auto simp: sizes_def GC_remove_from_fl_def GC_remove_from_fl_at_def GC_add_to_fl_def andThen_Inr_iff Let_def dest!: heapsize split: if_splits)

lemma heapsize_coalesce [heapsize]:
  "coalesce_next h e sz g = Inr g' \<Longrightarrow> sizes g' = sizes g"
  "coalesce_prev h e q g = Inr (r, g') \<Longrightarrow> sizes g' = sizes g"
  by (auto simp: sizes_def coalesce_next_def coalesce_prev_def andThen_Inr_iff dest!: heapsize split: if_splits)

lemma heapsize_free [heapsize]: "GC_freehblk h g = Inr g' \<Longrightarrow> sizes g' = sizes g"
  by (auto simp: sizes_def GC_freehblk_def andThen_Inr_iff Let_def dest!: heapsize split: if_splits)

section \<open>Sections\<close>

lemma section_size:
  assumes "install_section q bytes endp m = Inr m'"
  shows "GC_requested_heapsize (mk_gc m') = GC_requested_heapsize (mk_gc m) \<and>
    (GC_heapsize (mk_gc m') = GC_heapsize (mk_gc m) \<or> GC_heapsize (mk_gc m') = GC_heapsize (mk_gc m) + bytes)"
proof -
  obtain phdr g where g: "GC_install_header q (mk_gc m) = Inr (phdr, g)" using assms by (auto simp: install_section_def andThen_Inr_iff)
  show ?thesis
  proof (cases "phdr = 0")
    case True
    then show ?thesis using assms g heapsize_install(1) [OF g] by (auto simp: install_section_def sizes_def)
  next
    case False
    then obtain g1 g2 where "mod_hdr phdr (\<lambda>h. h\<lparr>hb_sz := bytes, hb_flags := 0\<rparr>) (g\<lparr>GC_heap_sects := GC_heap_sects g @ [(q, bytes)]\<rparr>) = Inr g1"
      "GC_freehblk q g1 = Inr g2" "GC_heapsize (mk_gc m') = GC_heapsize g2 + bytes" "GC_requested_heapsize (mk_gc m') = GC_requested_heapsize g2"
      using assms g unfolding install_section_def Let_def by (auto simp: andThen_Inr_iff)
    then show ?thesis using g by (auto dest!: heapsize simp: sizes_def)
  qed
qed

text \<open>What is cut off a section is a block at a time, so a part of it is left or nothing.\<close>

definition blocks_of :: "u64 \<Rightarrow> u64 \<Rightarrow> bool" where
  "blocks_of part bytes \<longleftrightarrow> part \<noteq> 0 \<and> 4096 dvd unat part \<and> unat part \<le> unat bytes"

lemma blocks_of_less:
  assumes "blocks_of part bytes" "part \<noteq> HBLKSIZE"
  shows "blocks_of (part - HBLKSIZE) bytes"
proof -
  have p: "unat part \<noteq> 0" "4096 dvd unat part" "unat part \<le> unat bytes"
    using assms(1) by (auto simp: blocks_of_def unat_eq_0)
  moreover have "4096 \<le> unat part" using p(1,2) by (auto elim: dvdE)
  then have u: "unat (part - HBLKSIZE) = unat part - 4096" by (simp add: unat_sub word_le_nat_alt)
  moreover have "part - HBLKSIZE \<noteq> 0" using assms(2) by simp
  moreover have "4096 dvd unat part - 4096" using p(2) by (simp add: dvd_diff_nat)
  ultimately show ?thesis by (simp add: blocks_of_def)
qed

lemma skip_low_part:
  "skip_low n q part = Inr (Some (q', bytes')) \<Longrightarrow> blocks_of part bytes \<Longrightarrow> blocks_of bytes' bytes"
  by (induction n arbitrary: q part) (auto split: if_splits intro: blocks_of_less)

lemma cut_wrapped_part:
  "cut_wrapped n q part endp = Inr (Some (bytes', endp')) \<Longrightarrow> blocks_of part bytes \<Longrightarrow> blocks_of bytes' bytes"
  by (induction n arbitrary: part endp) (auto split: if_splits intro: blocks_of_less)

lemma grow_heap_sects_size:
  assumes "grow_heap_sects a = Inr a'"
  shows "GC_heapsize (the_gc a') = GC_heapsize (the_gc a) \<and> GC_requested_heapsize (the_gc a') = GC_requested_heapsize (the_gc a) \<and>
    GC_max_heapsize a' = GC_max_heapsize a"
  using assms
  by (auto simp: sizes_def grow_heap_sects_def on_gc_def on_marker_def Let_def split: if_splits prod.splits bool.splits dest!: heapsize)

lemma add_to_heap_size:
  assumes "GC_add_to_heap q bytes a = Inr a'" "blocks_of bytes bytes"
  shows "\<exists>part. unat part \<le> unat bytes \<and> GC_heapsize (the_gc a') = GC_heapsize (the_gc a) + part \<and> GC_max_heapsize a' = GC_max_heapsize a \<and>
    GC_requested_heapsize (the_gc a') = GC_requested_heapsize (the_gc a)"
proof -
  obtain a1 where a1: "grow_heap_sects a = Inr a1" using assms(1) by (auto simp: GC_add_to_heap_def andThen_Inr_iff)
  have none: ?thesis if "a' = a1" using grow_heap_sects_size [OF a1] that by (intro exI [of _ 0]) simp
  have some: ?thesis if "lift_collector (lift_marker (install_section q' part endp)) a1 = Inr a'" "blocks_of part bytes" for q' part endp
  proof -
    from that(1) obtain m where "install_section q' part endp (cl_marker (al_collector a1)) = Inr m" "the_gc a' = mk_gc m" "GC_max_heapsize a' = GC_max_heapsize a1"
      by (auto simp: lift_collector_def lift_marker_def andThen_Inr_iff)
    with section_size [OF this(1)] grow_heap_sects_size [OF a1] that(2) show ?thesis
      by (auto simp: blocks_of_def intro: exI [of _ 0] exI [of _ part])
  qed
  show ?thesis using assms a1 none some
    by (auto simp: GC_add_to_heap_def andThen_Inr_iff simp del: skip_low.simps cut_wrapped.simps split: option.splits prod.splits
        dest!: skip_low_part [where bytes = bytes] cut_wrapped_part [where bytes = bytes])
qed

section \<open>The limit\<close>

lemma word_fits: "\<not> (l < b \<or> l - b < s) \<Longrightarrow> unat s + unat b \<le> unat l" for l b s :: u64
  using unat_sub [of b l] by (auto simp: not_less word_le_nat_alt)

lemma sat_add_ge: "x \<le> SIZET_SAT_ADD x b"
proof -
  have m: "unat (- 1 :: u64) = 2 ^ 64 - 1" by (simp add: unsigned_minus_1_eq_mask mask_eq_exp_minus_1)
  have "unat (- 1 - b) = 2 ^ 64 - 1 - unat b" using m unsigned_less [of b, where 'a = nat] by (subst unat_sub) (simp_all add: word_le_nat_alt)
  then have "unat (x + b) = unat x + unat b" if "x < - 1 - b"
    using that unsigned_less [of b, where 'a = nat] by (simp add: word_less_nat_alt unat_word_ariths)
  then show ?thesis using m unsigned_less [of x, where 'a = nat] by (auto simp: SIZET_SAT_ADD_def word_le_nat_alt)
qed

lemma rounded_bytes:
  assumes "GC_page_size rt = 2 ^ k" "12 \<le> k" "k \<le> 16" "65536 \<le> x"
  shows "blocks_of (ROUNDUP_PAGESIZE rt x) (ROUNDUP_PAGESIZE rt x)"
proof -
  let ?y = "SIZET_SAT_ADD x (2 ^ k - 1)" let ?r = "?y AND NOT (mask k)"
  have r: "ROUNDUP_PAGESIZE rt x = ?r" using assms(1) by (simp add: ROUNDUP_PAGESIZE_def mask_eq_decr_exp)
  have y: "65536 \<le> ?y" using assms(4) sat_add_ge order_trans by blast
  have "take_bit k ?r = 0" by (simp add: take_bit_eq_mask bit_eq_iff bit_simps)
  then have "take_bit 12 ?r = 0" using assms(2) take_bit_take_bit [of 12 k ?r] by (simp add: min_def)
  then have "unat (take_bit 12 ?r) = 0" by simp
  then have "take_bit 12 (unat ?r) = 0" by (simp only: unsigned_take_bit_eq)
  then have d: "4096 dvd unat ?r" by (simp add: take_bit_eq_mod mod_eq_0_iff_dvd)
  have "?r \<noteq> 0"
  proof
    assume "?r = 0"
    have "bit ?y i \<Longrightarrow> bit (?y AND mask k) i" for i
      using arg_cong [OF \<open>?r = 0\<close>, of "\<lambda>w. bit w i"] by (auto simp: bit_simps dest: bit_imp_le_length)
    then have "?y = ?y AND mask k" by (auto simp: bit_eq_iff bit_simps)
    then have "?y \<le> mask k" using word_and_le1 by metis
    moreover have "unat (mask k :: u64) < 65536"
    proof -
      have "unat (mask k :: u64) = take_bit k (unat (- 1 :: u64))" by (simp only: unsigned_take_bit_eq [symmetric] take_bit_minus_one_eq_mask)
      also have "\<dots> < 2 ^ k" by (rule take_bit_nat_less_exp)
      also have "\<dots> \<le> (2 :: nat) ^ 16" using assms(3) by (intro power_increasing) simp_all
      finally show ?thesis by simp
    qed
    ultimately show False using y by (simp add: word_le_nat_alt)
  qed
  then show ?thesis using r d by (simp add: blocks_of_def)
qed

lemma expand_inner_limit:
  assumes "GC_expand_hp_inner rt n a = Inr (ok, a')" "GC_page_size rt = 2 ^ k" "12 \<le> k" "k \<le> 16" "unat n < 2 ^ 52"
    "GC_max_heapsize a \<noteq> 0" "GC_heapsize (the_gc a) \<le> GC_max_heapsize a"
  shows "GC_max_heapsize a' = GC_max_heapsize a \<and> GC_heapsize (the_gc a') \<le> GC_max_heapsize a \<and>
    GC_heapsize (the_gc a) \<le> GC_heapsize (the_gc a') \<and> GC_requested_heapsize (the_gc a') = GC_requested_heapsize (the_gc a) \<and>
    (\<not> ok \<longrightarrow> GC_heapsize (the_gc a') = GC_heapsize (the_gc a))"
proof -
  let ?n = "if n < MINHINCR then MINHINCR else n" let ?bytes = "ROUNDUP_PAGESIZE rt (?n * HBLKSIZE)"
  let ?limit = "GC_max_heapsize a" let ?size = "GC_heapsize (the_gc a)"
  have "16 \<le> unat ?n" "unat ?n < 2 ^ 52" using assms(5) by (auto simp: MINHINCR_def word_less_nat_alt)
  then have "unat (?n * HBLKSIZE) = unat ?n * 4096" by (simp add: unat_word_ariths)
  then have "65536 \<le> ?n * HBLKSIZE" using \<open>16 \<le> unat ?n\<close> by (simp add: word_le_nat_alt)
  then have b: "blocks_of ?bytes ?bytes" using rounded_bytes assms(2-4) by blast
  show ?thesis
  proof (cases "?limit < ?bytes \<or> ?limit - ?bytes < ?size")
    case True
    then show ?thesis using assms(1,6,7) by (simp add: GC_expand_hp_inner_def Let_def)
  next
    case False
    then have fits: "unat ?size + unat ?bytes \<le> unat ?limit" by (rule word_fits)
    obtain q a1 where m: "GET_MEM a = (q, a1)" by (cases "GET_MEM a")
    then have a1: "the_gc a1 = the_gc a" "GC_max_heapsize a1 = ?limit" by (auto simp: GET_MEM_def split: list.splits)
    show ?thesis
    proof (cases "q = 0")
      case True
      then show ?thesis using assms(1,7) False m a1 by (auto simp: GC_expand_hp_inner_def Let_def)
    next
      case q: False
      let ?slop = "min_bytes_allocd (rt_stack_size rt) (the_gc a1) + 4 * MAXHINCR * HBLKSIZE"
      let ?a2 = "(adjust_limits q ?bytes ?slop a1)\<lparr>GC_last_heap_addr := q\<rparr>"
      have a2: "the_gc ?a2 = the_gc a" "GC_max_heapsize ?a2 = ?limit" using a1 by (simp_all add: adjust_limits_def on_marker_def Let_def)
      obtain a3 where a3: "GC_add_to_heap q ?bytes ?a2 = Inr a3" "GC_heapsize (the_gc a') = GC_heapsize (the_gc a3)"
        "GC_requested_heapsize (the_gc a') = GC_requested_heapsize (the_gc a3)" "GC_max_heapsize a' = GC_max_heapsize a3" "ok"
        using assms(1) False m q unfolding GC_expand_hp_inner_def Let_def by (auto simp: andThen_Inr_iff on_gc_def on_marker_def Let_def)
      from add_to_heap_size [OF a3(1) b] obtain part where part: "unat part \<le> unat ?bytes" "GC_heapsize (the_gc a3) = ?size + part" "GC_max_heapsize a3 = ?limit"
        "GC_requested_heapsize (the_gc a3) = GC_requested_heapsize (the_gc a)"
        using a2 by auto
      have "unat ?size + unat part < 2 ^ 64" using fits part(1) unsigned_less [of ?limit, where 'a = nat] by simp
      then have "unat (?size + part) = unat ?size + unat part" by (simp add: unat_word_ariths)
      then show ?thesis using a3 part fits by (simp add: word_le_nat_alt)
    qed
  qed
qed

text \<open>C34: A heap within the limit that the client set stays within it when the client makes it grow: a call
  that would exceed the limit fails, and one that fails leaves the size alone.\<close>

theorem heap_stays_within_limit:
  assumes "GC_is_initialized p" "GC_page_size (pr_runtime p) = 2 ^ k" "12 \<le> k" "k \<le> 16" "GC_max_heapsize (pr_allocator p) \<noteq> 0"
    "GC_get_heap_size p \<le> GC_max_heapsize (pr_allocator p)" "GC_expand_hp cl bytes p = Inr (ok, p')"
  shows "GC_max_heapsize (pr_allocator p') = GC_max_heapsize (pr_allocator p) \<and>
    GC_get_heap_size p' \<le> GC_max_heapsize (pr_allocator p') \<and> GC_get_heap_size p \<le> GC_get_heap_size p' \<and>
    GC_requested_heapsize (pr_gc p') = GC_requested_heapsize (pr_gc p) + (if ok then bytes else 0) \<and>
    (\<not> ok \<longrightarrow> GC_get_heap_size p' = GC_get_heap_size p)"
proof -
  obtain a where a: "GC_expand_hp_inner (pr_runtime p) (divHBLKSZ bytes) (pr_allocator p) = Inr (ok, a)"
    "p' = (let q = p\<lparr>pr_allocator := a\<rparr> in if ok then set_gc (\<lambda>g. g\<lparr>GC_requested_heapsize := GC_requested_heapsize g + bytes\<rparr>) q else q)"
    using assms(1,7) by (auto simp: GC_expand_hp_def when_initialized_def run_al_with_def andThen_Inr_iff Let_def)
  have "unat bytes < 2 ^ 64" using unsigned_less [of bytes, where 'a = nat] by simp
  then have "unat (divHBLKSZ bytes) < 2 ^ 52" by (simp add: divHBLKSZ_def drop_bit_eq_div unat_div)
  then have e: "GC_max_heapsize a = GC_max_heapsize (pr_allocator p)" "GC_heapsize (the_gc a) \<le> GC_max_heapsize (pr_allocator p)"
    "GC_get_heap_size p \<le> GC_heapsize (the_gc a)" "\<not> ok \<longrightarrow> GC_heapsize (the_gc a) = GC_get_heap_size p"
    "GC_requested_heapsize (the_gc a) = GC_requested_heapsize (pr_gc p)"
    using expand_inner_limit [OF a(1) assms(2-4)] assms(5,6) by (simp_all add: GC_get_heap_size_def)
  then show ?thesis using e a(2) by (cases ok) (simp_all add: GC_get_heap_size_def)
qed

text \<open>A process with the tables of the collector, but no heap yet, and a limit.\<close>

definition limited_process :: process where
  "limited_process =
     (set_gc (\<lambda>g. g\<lparr>bottom_indices := [zero_bi], GC_top_index := replicate 2048 0, scratch_answers := [True, True, True]\<rparr>)
        (on_al (\<lambda>a. a\<lparr>GC_max_heapsize := 100000\<rparr>) (fresh_process [])))\<lparr>GC_is_initialized := True\<rparr>"

lemma heap_stays_within_limit_witness:
  "\<exists>p'. GC_expand_hp plain_client 65536 limited_process = Inr (True, p') \<and> GC_get_heap_size limited_process \<le> GC_get_heap_size p' \<and>
     GC_get_heap_size p' \<le> 100000 \<and> GC_requested_heapsize (pr_gc p') = 65536"
proof -
  let ?a = "pr_allocator limited_process"
  note start = limited_process_def fresh_process_def GC_set_dont_precollect_def initial_process_def initial_allocator_def on_gc_def on_marker_def Let_def
      initial_collector_def initial_marker_def initial_gc_def set_gc_def on_al_def
  have p: "GC_is_initialized limited_process" "GC_page_size (pr_runtime limited_process) = 2 ^ 12" "GC_max_heapsize ?a = 100000"
    "GC_get_heap_size limited_process = 0" "GC_requested_heapsize (pr_gc limited_process) = 0"
    by (simp_all add: start quiet_runtime_def GC_get_heap_size_def)
  have "empty_heap (the_gc ?a)" "scratch_answers (the_gc ?a) = True # True # True # []" "get_mem_answers ?a = [0x400000]"
    "GC_capacity_heap_sects ?a = 0" "GC_max_heapsize ?a = 0 \<or> 65536 \<le> GC_max_heapsize ?a" "GC_page_size (pr_runtime limited_process) = 4096"
    by (simp_all add: empty_heap_def start quiet_runtime_def)
  from first_growth [OF this] obtain a' where "GC_expand_hp_inner (pr_runtime limited_process) 16 ?a = Inr (True, a')" by blast
  moreover have "divHBLKSZ 65536 = 16" by (simp add: divHBLKSZ_def drop_bit_eq_div)
  ultimately obtain p' where e: "GC_expand_hp plain_client 65536 limited_process = Inr (True, p')"
    using p(1) by (simp add: GC_expand_hp_def when_initialized_def run_al_with_def)
  show ?thesis using heap_stays_within_limit [OF p(1,2) _ _ _ _ e] p e by auto
qed

section \<open>Interior pointers switched on\<close>

text \<open>C36: A comment says that the collector can work correctly after pointers to the inside of objects are allowed in
  a running program. The table of size classes is not made again, and neither is the descriptor of
  the objects: an object of 16 bytes still gets one granule, without the byte that a pointer to its
  end needs, so the table is not large enough for the sizes that clients ask for.\<close>

theorem switching_interior_pointers_keeps_size_classes:
  assumes "GC_is_initialized p" "GC_init_size_map (EXTRA_BYTES (pr_gc p)) (replicate 2049 0) = Inr (GC_size_map (pr_allocator p))"
    "\<not> GC_all_interior_pointers (pr_gc p)"
  shows "\<exists>p'. GC_set_all_interior_pointers True p = Inr p' \<and> GC_all_interior_pointers (pr_gc p') \<and>
    GC_obj_kinds (pr_gc p') = GC_obj_kinds (pr_gc p) \<and> adjust_descriptor (pr_gc p) = pr_gc p \<and>
    GC_size_map (pr_allocator p') ! 16 = 1 \<and> ROUNDED_UP_GRANULES (EXTRA_BYTES (pr_gc p')) 16 = 2 \<and>
    size_map_ok (EXTRA_BYTES (pr_gc p)) (GC_size_map (pr_allocator p)) \<and>
    \<not> size_map_ok (EXTRA_BYTES (pr_gc p')) (GC_size_map (pr_allocator p'))"
proof -
  let ?t = "GC_size_map (pr_allocator p)"
  let ?q = "on_al (on_marker GC_initialize_offsets) (set_gc (\<lambda>g. g\<lparr>GC_all_interior_pointers := True\<rparr>) p)"
  have x: "EXTRA_BYTES (pr_gc p) = 0" using assms(3) by (simp add: EXTRA_BYTES_def)
  have q: "GC_set_all_interior_pointers True p = Inr ?q" using assms(1) by (simp add: GC_set_all_interior_pointers_def)
  have g: "pr_gc ?q = (pr_gc p)\<lparr>GC_all_interior_pointers := True\<rparr>" "GC_size_map (pr_allocator ?q) = ?t"
    by (simp_all add: on_al_def on_marker_def GC_initialize_offsets_def set_gc_def on_gc_def Let_def)
  let ?z = "(replicate 2049 0)[0 := 1 :: u64]" and ?lim = "GRANULES_TO_BYTES (TINY_FREELISTS - 1) - 0"
  have lim: "unat ?lim = 384" by (simp add: GRANULES_TO_BYTES_def TINY_FREELISTS_def push_bit_eq_mult)
  have "unat ?lim < length ?z" "unat ?lim < 4000" "unat (1 :: u64) < 5000" "Suc (unat ?lim) - unat (1 :: u64) < 385" using lim by simp_all
  from fill_rounded_spec [OF this, of 0] obtain t where "fill_rounded 385 0 ?lim 1 ?z = Inr t" "\<forall>j < length ?z. t ! j =
      (if unat (1 :: u64) \<le> j \<and> j \<le> unat ?lim then ROUNDED_UP_GRANULES 0 (word_of_nat j) else ?z ! j)" by blast
  then have t: "t ! 16 = ROUNDED_UP_GRANULES 0 16" "GC_init_size_map 0 (replicate 2049 0) = Inr t"
    using lim by (simp_all add: GC_init_size_map_def write_at_def)
  have "ROUNDED_UP_GRANULES 0 16 = 1" "ROUNDED_UP_GRANULES 1 16 = 2"
    by (simp_all add: ROUNDED_UP_GRANULES_def BYTES_TO_GRANULES_def SIZET_SAT_ADD_def drop_bit_eq_div)
  moreover have "?t = t" using assms(2) t(2) x by simp
  moreover have "size_map_ok 0 ?t" using init_size_map_spec [of 0] assms(2) x by auto
  moreover have "\<not> size_map_ok 1 ?t" using calculation t(1) by (auto simp: size_map_ok_def intro!: exI [of _ "16 :: nat"])
  moreover have "EXTRA_BYTES (pr_gc ?q) = 1" using g by (simp add: EXTRA_BYTES_def)
  ultimately show ?thesis using q g x t(1) by (intro exI [of _ ?q]) (simp add: adjust_descriptor_def)
qed

lemma switching_interior_pointers_keeps_size_classes_witness:
  "\<exists>t p'. GC_init_size_map 0 (replicate 2049 0) = Inr t \<and>
     GC_set_all_interior_pointers True (on_al (\<lambda>a. a\<lparr>GC_size_map := t\<rparr>) limited_process) = Inr p' \<and>
     \<not> size_map_ok (EXTRA_BYTES (pr_gc p')) (GC_size_map (pr_allocator p'))"
proof -
  obtain t where t: "GC_init_size_map 0 (replicate 2049 0) = Inr t" using init_size_map_spec [of 0] by auto
  let ?p = "on_al (\<lambda>a. a\<lparr>GC_size_map := t\<rparr>) limited_process"
  have n: "\<not> GC_all_interior_pointers (pr_gc ?p)" "GC_is_initialized ?p"
    by (simp_all add: limited_process_def fresh_process_def GC_set_dont_precollect_def initial_process_def initial_allocator_def on_gc_def
        on_marker_def Let_def initial_collector_def initial_marker_def initial_gc_def set_gc_def on_al_def)
  then have "GC_init_size_map (EXTRA_BYTES (pr_gc ?p)) (replicate 2049 0) = Inr (GC_size_map (pr_allocator ?p))"
    using t by (simp add: EXTRA_BYTES_def)
  from switching_interior_pointers_keeps_size_classes [OF n(2) this n(1)] t show ?thesis by blast
qed

section \<open>Disabling the collector\<close>

lemma disabled_count:
  "dont_gc_count ((GC_disable ^^ n) p) = dont_gc_count p + word_of_nat n"
  "dont_gc_count ((GC_enable ^^ m) p) = dont_gc_count p - word_of_nat m"
  by (induction n) (simp_all add: GC_disable_def GC_dont_gc_set_def, induction m, simp_all add: GC_enable_def GC_dont_gc_set_def)

lemma dont_gc_in_step:
  assumes "GC_dont_gc (pr_gc p) \<longleftrightarrow> dont_gc_count p \<noteq> 0"
  shows "GC_dont_gc (pr_gc ((GC_disable ^^ n) p)) \<longleftrightarrow> dont_gc_count ((GC_disable ^^ n) p) \<noteq> 0"
    "GC_dont_gc (pr_gc ((GC_enable ^^ n) p)) \<longleftrightarrow> dont_gc_count ((GC_enable ^^ n) p) \<noteq> 0"
  using assms by (cases n; simp add: GC_disable_def GC_enable_def GC_dont_gc_set_def)+

text \<open>Calls that disable the collector nest: it is enabled again after as many calls that enable it, and
  not before. Until then no call collects, not even one that asks for a little work or for a full
  collection, which reports failure.\<close>

theorem disabling_nests:
  assumes "dont_gc_count p = 0" "\<not> GC_dont_gc (pr_gc p)" "m \<le> n" "n < 2 ^ 32"
  shows "(let q = (GC_enable ^^ m) ((GC_disable ^^ n) p)
    in (GC_is_disabled q \<longleftrightarrow> m < n) \<and> (GC_dont_gc (pr_gc q) \<longleftrightarrow> m < n) \<and>
       (m < n \<longrightarrow> collect_a_little q = Inr q \<and> GC_gcollect_inner q = Inr q \<and>
          (\<forall>rt f. GC_try_to_collect_inner rt f (pr_allocator q) = Inr (False, pr_allocator q))))"
proof -
  let ?q = "(GC_enable ^^ m) ((GC_disable ^^ n) p)"
  have "dont_gc_count ?q = word_of_nat (n - m)" using assms(1,3) by (simp add: disabled_count of_nat_diff)
  moreover have "unat (word_of_nat (n - m) :: i32) = n - m" using assms(4) by (simp add: unat_of_nat)
  ultimately have c: "dont_gc_count ?q \<noteq> 0 \<longleftrightarrow> m < n" by (metis unat_eq_0 zero_less_diff neq0_conv)
  have "GC_dont_gc (pr_gc p) \<longleftrightarrow> dont_gc_count p \<noteq> 0" using assms(1,2) by simp
  then have g: "GC_dont_gc (pr_gc ?q) \<longleftrightarrow> m < n" using dont_gc_in_step c by metis
  then show ?thesis using c
    by (simp add: GC_is_disabled_def collect_a_little_def GC_gcollect_inner_def gcollect_inner_def GC_try_to_collect_inner_def run_al_def)
qed

lemma disabling_nests_witness:
  "GC_is_disabled (GC_enable (GC_disable (GC_disable (fresh_process [])))) \<and>
   \<not> GC_is_disabled (GC_enable (GC_enable (GC_disable (GC_disable (fresh_process [])))))"
proof -
  have p: "dont_gc_count (fresh_process []) = 0" "\<not> GC_dont_gc (pr_gc (fresh_process []))"
    by (simp_all add: fresh_process_def GC_set_dont_precollect_def initial_process_def initial_allocator_def on_gc_def
        on_marker_def Let_def initial_collector_def initial_marker_def initial_gc_def set_gc_def on_al_def)
  have two: "(GC_disable ^^ 2) q = GC_disable (GC_disable q)" "(GC_enable ^^ 2) q = GC_enable (GC_enable q)" for q
    by (simp_all add: numeral_2_eq_2)
  show ?thesis using disabling_nests [OF p, of 1 2] disabling_nests [OF p, of 2 2] by (simp add: Let_def two)
qed

section \<open>Statistics\<close>

lemma length_bytes_of_words [simp]: "length (bytes_of_words ws) = 8 * length ws"
  by (induction ws) (simp_all add: bytes_of_words_def)

text \<open>A buffer of any size is filled: an older client gets the start of the statistics, and a newer one
  all of them with ones behind them.\<close>

theorem statistics_fill_buffers:
  "fst (GC_get_prof_stats our n p) = min n 96 \<and> length (snd (GC_get_prof_stats our n p)) = n \<and>
   take (min n 96) (snd (GC_get_prof_stats our n p)) = take n (bytes_of_words (fill_prof_stats our p)) \<and>
   (\<forall>i. 96 \<le> i \<and> i < n \<longrightarrow> snd (GC_get_prof_stats our n p) ! i = 0xff)"
proof -
  have "length (bytes_of_words (fill_prof_stats our p)) = 96" by (simp add: fill_prof_stats_def Let_def)
  then show ?thesis by (auto simp: GC_get_prof_stats_def Let_def nth_append min_def)
qed

end
