(* ===== verification/Atomix_GC_Soft.thy ===== *)
theory Atomix_GC_Soft
  imports Atomix_GC_Client
begin

unbundle bit_operations_syntax

text \<open>
  Virtual dirty bits by the soft-dirty bits of the Linux kernel (\<open>os_dep.c\<close>, \<open>SOFT_VDB\<close>): how the
  files of \<open>/proc\<close> are opened and tried, and how the entries of \<open>pagemap\<close> become the table of pages
  that were written. One thread, so the files are opened again in the child of a fork.

  The kernel is a record of its answers. Its state is with the variables of the collector: the
  soft-dirty bit of each page, by page number, the position in \<open>pagemap\<close>, the pages that are read-only
  and the handlers of signals. \<open>pagemap\<close> has an entry of 8 bytes for each page, of which bit 55 is the
  soft-dirty one; it can only be read at multiples of 8. Positions and counts of bytes in that file are
  natural numbers: a position is below \<open>2 ^ 55\<close>, and the page size is a power of two, so rounding down
  to a multiple is what the masks of the code do.
\<close>

section \<open>State\<close>

text \<open>The handlers of a signal: the two defaults, the one of the collector, and those of the client,
  with or without \<open>SA_SIGINFO\<close>.\<close>

datatype sig_handler =
    SIG_DFL | SIG_IGN | Write_fault_handler | Siginfo_handler nat | Plain_handler nat

record kernel =
  kn_getenv :: "string \<Rightarrow> string option"
  kn_uname :: "(string \<times> string) option"
  kn_open :: "string \<Rightarrow> i32"
  kn_cloexec :: "i32 \<Rightarrow> bool"
  kn_lseek :: "nat \<Rightarrow> bool"
  kn_read :: "nat \<Rightarrow> nat \<Rightarrow> int"
  kn_clear_refs :: bool
  kn_sets_bit :: "bool \<Rightarrow> bool"
  kn_pte :: "u64 \<Rightarrow> u64"
  kn_mprotect :: "u64 \<Rightarrow> u64 \<Rightarrow> bool \<Rightarrow> bool"
  kn_sigaction :: bool
  kn_recycle :: "u64 \<Rightarrow> u64 \<Rightarrow> gc \<Rightarrow> gc res"

record vdb =
  vd_gc :: gc
  vd_roots :: "(u64 \<times> u64) list"
  vd_page_size :: u64
  vd_manual :: bool
  vd_pid :: i32
  vd_warnings :: "string list"
  GC_dirty_pages :: "u64 list"
  GC_grungy_pages :: "u64 list"
  clear_refs_fd :: i32
  pagemap_fd :: i32
  saved_proc_pid :: i32
  soft_vdb_buf :: "u64 list"
  soft_vdb_addr :: u64
  pagemap_buf_fpos :: nat
  pagemap_buf_len :: nat
  pagemap_pos :: nat
  soft_dirty :: "u64 \<Rightarrow> bool"
  refs_cleared :: bool
  vd_readonly :: "u64 \<Rightarrow> bool"
  vd_segv :: sig_handler
  vd_bus :: sig_handler
  GC_old_segv_handler :: sig_handler
  GC_old_bus_handler :: sig_handler

definition vd_warn :: "string \<Rightarrow> vdb \<Rightarrow> vdb" where
  "vd_warn w v = v\<lparr>vd_warnings := vd_warnings v @ [w]\<rparr>"

definition GC_GWW_AVAILABLE :: "vdb \<Rightarrow> bool" where
  "GC_GWW_AVAILABLE v \<longleftrightarrow> clear_refs_fd v \<noteq> - 1"

abbreviation VDB_BUF_SZ :: nat where "VDB_BUF_SZ \<equiv> 16384"

definition PM_SOFTDIRTY_MASK :: u64 where
  "PM_SOFTDIRTY_MASK = push_bit 55 1"

text \<open>What the kernel does: a write to memory may set the bit of the page, and the entry of a page.\<close>

definition touch_page :: "kernel \<Rightarrow> u64 \<Rightarrow> vdb \<Rightarrow> vdb" where
  "touch_page kn a v =
     (if kn_sets_bit kn (refs_cleared v) then v\<lparr>soft_dirty := (soft_dirty v)(a div vd_page_size v := True)\<rparr> else v)"

definition pagemap_entry :: "kernel \<Rightarrow> vdb \<Rightarrow> u64 \<Rightarrow> u64" where
  "pagemap_entry kn v page =
     (if soft_dirty v page then kn_pte kn page OR PM_SOFTDIRTY_MASK else kn_pte kn page AND NOT PM_SOFTDIRTY_MASK)"

text \<open>\<open>read\<close> on \<open>pagemap\<close>: the bytes read replace the first bytes of the buffer, the low bytes of an
  entry first.\<close>

definition fill_entry :: "kernel \<Rightarrow> vdb \<Rightarrow> nat \<Rightarrow> nat \<Rightarrow> u64 \<Rightarrow> u64" where
  "fill_entry kn v bytes i old =
     (let new = pagemap_entry kn v (word_of_nat (pagemap_pos v div 8 + i)); k = bytes - 8 * i
      in if 8 \<le> k then new else (new AND mask (8 * k)) OR (old AND NOT (mask (8 * k))))"

definition PROC_READ :: "kernel \<Rightarrow> nat \<Rightarrow> vdb \<Rightarrow> int \<times> vdb" where
  "PROC_READ kn count v =
     (let res = (if pagemap_pos v mod 8 = 0 then min (kn_read kn (pagemap_pos v) count) (int count) else - 1)
      in if res \<le> 0 then (res, v)
         else (res, v\<lparr>soft_vdb_buf := map (\<lambda>i. fill_entry kn v (nat res) i (soft_vdb_buf v ! i)) [0..<length (soft_vdb_buf v)],
                      pagemap_pos := pagemap_pos v + nat res\<rparr>))"

section \<open>Opening and trying the files\<close>

definition open_proc_fd :: "kernel \<Rightarrow> string \<Rightarrow> vdb \<Rightarrow> i32 \<times> vdb" where
  "open_proc_fd kn proc_filename v =
     (let f = kn_open kn proc_filename
      in (f, if f = - 1 then vd_warn (''/proc/self/'' @ proc_filename @ '' open failed; cannot enable GC incremental mode'') v
             else if \<not> kn_cloexec kn f then vd_warn ''Could not set FD_CLOEXEC for /proc'' v
             else v))"

definition soft_dirty_open_files :: "kernel \<Rightarrow> vdb \<Rightarrow> bool \<times> vdb" where
  "soft_dirty_open_files kn v =
     (case open_proc_fd kn ''clear_refs'' v of (refs, v1) \<Rightarrow>
        if refs = - 1 then (False, v1\<lparr>clear_refs_fd := - 1\<rparr>)
        else
          (case open_proc_fd kn ''pagemap'' (v1\<lparr>clear_refs_fd := refs\<rparr>) of (pm, v2) \<Rightarrow>
             if pm = - 1 then (False, v2\<lparr>pagemap_fd := - 1, clear_refs_fd := - 1\<rparr>)
             else (True, v2\<lparr>pagemap_fd := pm, pagemap_pos := 0, saved_proc_pid := vd_pid v\<rparr>)))"

definition clear_soft_dirty_bits :: "kernel \<Rightarrow> vdb \<Rightarrow> vdb res" where
  "clear_soft_dirty_bits kn v =
     (if kn_clear_refs kn then Inr (v\<lparr>soft_dirty := (\<lambda>_. False), refs_cleared := True\<rparr>)
      else Inl (Panic ''Failed to write to /proc/self/clear_refs''))"

text \<open>The rounds of \<open>detect_soft_dirty_supported\<close>, with the byte that was written last.\<close>

primrec detect_rounds :: "nat \<Rightarrow> kernel \<Rightarrow> u64 \<Rightarrow> u8 \<Rightarrow> vdb \<Rightarrow> (bool \<times> vdb) res" where
  "detect_rounds 0 kn vaddr byte v = Inl Diverge"
| "detect_rounds (Suc n) kn vaddr byte v =
     (let page = vaddr div vd_page_size v; fpos = unat page * 8; res = min (kn_read kn fpos 8) 8
      in if \<not> kn_lseek kn fpos then Inr (False, v)
         else if res \<noteq> 8 then Inr (False, v\<lparr>pagemap_pos := fpos + nat res\<rparr>)
         else
           let v = v\<lparr>pagemap_pos := fpos + 8\<rparr>
           in if pagemap_entry kn v page AND PM_SOFTDIRTY_MASK = 0 then Inr (False, v)
              else if byte = 0 then Inr (True, v)
              else andThen (clear_soft_dirty_bits kn v) (\<lambda>v'. detect_rounds n kn vaddr 0 (touch_page kn vaddr v')))"

definition detect_soft_dirty_supported :: "kernel \<Rightarrow> u64 \<Rightarrow> vdb \<Rightarrow> (bool \<times> vdb) res" where
  "detect_soft_dirty_supported kn vaddr v = detect_rounds 2 kn vaddr 1 (touch_page kn vaddr v)"

text \<open>The major and the minor number of a version. The minor number keeps its old value when the
  major one cannot be read.\<close>

definition fits_int :: "u64 \<Rightarrow> bool" where
  "fits_int value \<longleftrightarrow> (let n = ucast value :: i32 in \<not> n <s 0 \<and> ucast n = value)"

definition GC_parse_version :: "i32 \<Rightarrow> string \<Rightarrow> i32 \<times> i32" where
  "GC_parse_version minor pverstr =
     (case STRTOULL pverstr of (value, endp) \<Rightarrow>
        if \<not> fits_int value \<or> endp = pverstr then (- 1, minor)
        else
          case endp of
            [] \<Rightarrow> (ucast value, - 1)
          | c # rest \<Rightarrow>
              if c \<noteq> CHR ''.'' then (ucast value, - 1)
              else case STRTOULL rest of (value', _) \<Rightarrow>
                     (if fits_int value' then ucast value else - 1, ucast value'))"

definition ensure_min_linux_ver :: "kernel \<Rightarrow> i32 \<Rightarrow> i32 \<Rightarrow> vdb \<Rightarrow> bool \<times> vdb" where
  "ensure_min_linux_ver kn major minor v =
     (case kn_uname kn of
        None \<Rightarrow> (False, v)
      | Some (sysname, release) \<Rightarrow>
          if sysname \<noteq> ''Linux'' then (False, vd_warn (''Cannot ensure Linux version as running on other OS: '' @ sysname) v)
          else case GC_parse_version (- 1) release of (actual_major, actual_minor) \<Rightarrow>
                 (major <s actual_major \<or> actual_major = major \<and> minor \<le>s actual_minor, v))"

definition soft_dirty_init :: "kernel \<Rightarrow> vdb \<Rightarrow> (bool \<times> vdb) res" where
  "soft_dirty_init kn v =
     (if kn_getenv kn ''GC_USE_GETWRITEWATCH'' = Some ''0'' then Inr (False, v)
      else case ensure_min_linux_ver kn 3 18 v of
        (False, v1) \<Rightarrow> Inr (False, v1)
      | (True, v1) \<Rightarrow>
          (case soft_dirty_open_files kn v1 of
             (False, v2) \<Rightarrow> Inr (False, v2)
           | (True, v2) \<Rightarrow>
               (case scratch (vd_gc v2) of
                  (False, g) \<Rightarrow> Inl (Panic ''Insufficient space for /proc pagemap buffer'')
                | (True, g) \<Rightarrow>
                    andThen (detect_soft_dirty_supported kn (soft_vdb_addr v2) (v2\<lparr>vd_gc := g, soft_vdb_buf := replicate 2048 0\<rparr>)) (\<lambda>(ok, v3).
                      if ok then Inr (True, v3)
                      else andThen (kn_recycle kn (soft_vdb_addr v3) (word_of_nat VDB_BUF_SZ) (vd_gc v3)) (\<lambda>g'.
                             Inr (False, v3\<lparr>vd_gc := g', soft_vdb_buf := [], clear_refs_fd := - 1\<rparr>))))))"

section \<open>Reading the entries\<close>

text \<open>The loop around \<open>read\<close>, which starts at an aligned position and again at the wanted one when too
  little is read, so two rounds are enough.\<close>

primrec read_rounds :: "nat \<Rightarrow> kernel \<Rightarrow> nat \<Rightarrow> nat \<Rightarrow> nat \<Rightarrow> nat \<Rightarrow> vdb \<Rightarrow> (nat \<times> nat \<times> vdb) res" where
  "read_rounds 0 kn aligned_pos fpos len next_fpos_hint v = Inl Diverge"
| "read_rounds (Suc n) kn aligned_pos fpos len next_fpos_hint v =
     (let seek = pagemap_buf_len v = 0 \<or> pagemap_buf_fpos v + pagemap_buf_len v \<noteq> aligned_pos;
          v1 = (if seek then v\<lparr>pagemap_pos := aligned_pos\<rparr> else v);
          ofs = fpos - aligned_pos;
          count = (if aligned_pos < next_fpos_hint \<and> next_fpos_hint - aligned_pos < VDB_BUF_SZ then VDB_BUF_SZ
                   else min (len + ofs) VDB_BUF_SZ)
      in if seek \<and> \<not> kn_lseek kn aligned_pos then Inl (Panic ''Failed to lseek /proc/self/pagemap'')
         else case PROC_READ kn count v1 of (res, v2) \<Rightarrow>
                if int ofs < res then Inr (nat res - ofs, ofs, v2\<lparr>pagemap_buf_fpos := aligned_pos, pagemap_buf_len := nat res\<rparr>)
                else if res \<le> 0 then Inl (Panic ''Failed to read /proc/self/pagemap'')
                else read_rounds n kn fpos fpos len next_fpos_hint v2)"

text \<open>The number of bytes that can be taken, the index of the first entry in the buffer, and the state.\<close>

definition pagemap_buffered_read :: "kernel \<Rightarrow> nat \<Rightarrow> nat \<Rightarrow> nat \<Rightarrow> vdb \<Rightarrow> (nat \<times> nat \<times> vdb) res" where
  "pagemap_buffered_read kn fpos len next_fpos_hint v =
     (let buf_end = pagemap_buf_fpos v + pagemap_buf_len v;
          unit = (if unat (vd_page_size v) < VDB_BUF_SZ then unat (vd_page_size v) else VDB_BUF_SZ)
      in andThen
           (if pagemap_buf_fpos v \<le> fpos \<and> fpos < buf_end then Inr (buf_end - fpos, fpos - pagemap_buf_fpos v, v)
            else read_rounds 2 kn (fpos div unit * unit) fpos len next_fpos_hint v)
           (\<lambda>(res, ofs, v'). Inr (min res len, ofs div 8, v')))"

section \<open>The table of written pages\<close>

definition set_grungy :: "u64 \<Rightarrow> vdb \<Rightarrow> vdb res" where
  "set_grungy h v = andThen (set_pht_entry_from_index (GC_grungy_pages v) (PHT_HASH h)) (\<lambda>t. Inr (v\<lparr>GC_grungy_pages := t\<rparr>))"

definition set_all_grungy :: "vdb \<Rightarrow> vdb" where
  "set_all_grungy v = v\<lparr>GC_grungy_pages := replicate (length (GC_grungy_pages v)) (- 1)\<rparr>"

text \<open>The blocks of a written page that are inside the range.\<close>

definition set_grungy_page :: "u64 \<Rightarrow> u64 \<Rightarrow> u64 \<Rightarrow> vdb \<Rightarrow> vdb res" where
  "set_grungy_page start limit vaddr v =
     (let next_vaddr = vaddr + vd_page_size v;
          next_vaddr = (if limit < next_vaddr then limit else next_vaddr);
          h = (if vaddr < start then start else vaddr)
      in upto_loop (unat (divHBLKSZ (vd_page_size v)) + 2) HBLKSIZE next_vaddr set_grungy h v)"

primrec scan_entries :: "nat \<Rightarrow> u64 \<Rightarrow> u64 \<Rightarrow> u64 \<Rightarrow> u64 \<Rightarrow> nat \<Rightarrow> vdb \<Rightarrow> (u64 \<times> vdb) res" where
  "scan_entries 0 start limit limit_buf vaddr bufp v = Inl Diverge"
| "scan_entries (Suc n) start limit limit_buf vaddr bufp v =
     (if vaddr < limit_buf
      then
        andThen (deref (soft_vdb_buf v) bufp) (\<lambda>pte.
        andThen (if pte AND PM_SOFTDIRTY_MASK \<noteq> 0 then set_grungy_page start limit vaddr v else Inr v) (\<lambda>v'.
          scan_entries n start limit limit_buf (vaddr + vd_page_size v) (Suc bufp) v'))
      else Inr (vaddr, v))"

primrec soft_rounds :: "nat \<Rightarrow> kernel \<Rightarrow> u64 \<Rightarrow> u64 \<Rightarrow> nat \<Rightarrow> u64 \<Rightarrow> vdb \<Rightarrow> vdb res" where
  "soft_rounds 0 kn start limit next_fpos_hint vaddr v = Inl Diverge"
| "soft_rounds (Suc n) kn start limit next_fpos_hint vaddr v =
     (if vaddr < limit
      then
        let ps = vd_page_size v
        in andThen (pagemap_buffered_read kn (unat (vaddr div ps) * 8) (unat ((limit - vaddr + ps - 1) div ps) * 8) next_fpos_hint v)
             (\<lambda>(res, bufp, v1).
               if res mod 8 \<noteq> 0
               then Inr (vd_warn ''Incomplete read of pagemap, not multiple of entry size'' (set_all_grungy v1))
               else
                 andThen (scan_entries (res div 8 + 1) start limit (vaddr + word_of_nat (res div 8) * ps) vaddr bufp v1)
                   (\<lambda>(vaddr', v2). soft_rounds n kn start limit next_fpos_hint vaddr' v2))
      else Inr v)"

definition soft_set_grungy_pages :: "kernel \<Rightarrow> u64 \<Rightarrow> u64 \<Rightarrow> u64 \<Rightarrow> vdb \<Rightarrow> vdb res" where
  "soft_set_grungy_pages kn start limit next_start_hint v =
     (let ps = vd_page_size v; vaddr = start AND NOT (ps - 1)
      in soft_rounds (unat ((limit - vaddr) div ps) + 2) kn start limit (unat (next_start_hint div ps) * 8) vaddr v)"

fun soft_sections :: "kernel \<Rightarrow> (u64 \<times> u64) list \<Rightarrow> vdb \<Rightarrow> vdb res" where
  "soft_sections kn [] v = Inr v"
| "soft_sections kn ((start, limit) # sects) v =
     andThen (soft_set_grungy_pages kn start limit (case sects of [] \<Rightarrow> 0 | (hint, _) # _ \<Rightarrow> hint) v) (soft_sections kn sects)"

text \<open>The static roots are rounded to blocks, but not the addresses that only tell what comes next.\<close>

fun soft_roots :: "kernel \<Rightarrow> (u64 \<times> u64) list \<Rightarrow> vdb \<Rightarrow> vdb res" where
  "soft_roots kn [] v = Inr v"
| "soft_roots kn ((start, limit) # rest) v =
     andThen (soft_set_grungy_pages kn (HBLKPTR start) limit (case rest of [] \<Rightarrow> 0 | (hint, _) # _ \<Rightarrow> hint) v) (soft_roots kn rest)"

definition GC_soft_read_dirty :: "kernel \<Rightarrow> bool \<Rightarrow> vdb \<Rightarrow> vdb res" where
  "GC_soft_read_dirty kn output_unneeded v =
     (case (if vd_pid v = saved_proc_pid v then (True, v)
            else if clear_refs_fd v = - 1 then (False, v)
            else soft_dirty_open_files kn v) of
        (False, v1) \<Rightarrow> Inr (if output_unneeded then v1 else set_all_grungy v1)
      | (True, v1) \<Rightarrow>
          andThen
            (if output_unneeded then Inr v1
             else
               let v2 = v1\<lparr>GC_grungy_pages := replicate (length (GC_grungy_pages v1)) 0, pagemap_buf_len := 0\<rparr>
               in andThen (soft_sections kn (map (\<lambda>(s, n). (s, s + n)) (GC_heap_sects (vd_gc v2))) v2) (\<lambda>v3.
                    soft_roots kn (vd_roots v3) v3))
            (clear_soft_dirty_bits kn))"

end
