(* ===== verification/Atomix_GC_Dirty.thy ===== *)
theory Atomix_GC_Dirty
  imports Atomix_GC_Soft
begin

unbundle bit_operations_syntax

text \<open>
  Virtual dirty bits by write protection (\<open>os_dep.c\<close>, \<open>MPROTECT_VDB\<close>), and the calls the collector
  makes for all kinds of dirty bits. The heap is made read-only where a pointer may be stored, the first
  write to a page runs the fault handler, which notes the page and makes it writable, and the table of
  noted pages is taken over when a collection starts.

  A range is protected page by page, and \<open>mprotect\<close> refuses one that does not start at a page. A write
  of the program is \<open>write_word\<close>: a write to a read-only page raises the signal and is tried again when
  the handler returns. What handlers of the client do is the argument \<open>others\<close>. Pages of the heap are not
  executable, and no free block is unmapped.
\<close>

section \<open>Protecting pages\<close>

definition page_of :: "vdb \<Rightarrow> u64 \<Rightarrow> u64" where
  "page_of v a = a AND NOT (vd_page_size v - 1)"

definition access_after :: "vdb \<Rightarrow> u64 \<Rightarrow> u64 \<Rightarrow> bool \<Rightarrow> u64 \<Rightarrow> bool" where
  "access_after v addr len allow_write p = (if page_of v p - addr < len then \<not> allow_write else vd_readonly v p)"

definition PROTECT_INNER :: "kernel \<Rightarrow> u64 \<Rightarrow> u64 \<Rightarrow> bool \<Rightarrow> vdb \<Rightarrow> vdb res" where
  "PROTECT_INNER kn addr len allow_write v =
     (if page_of v addr = addr \<and> kn_mprotect kn addr len allow_write
      then Inr (v\<lparr>vd_readonly := access_after v addr len allow_write\<rparr>)
      else Inl (Panic (if allow_write then ''un-mprotect vdb failed'' else ''mprotect vdb failed'')))"

definition PROTECT :: "kernel \<Rightarrow> u64 \<Rightarrow> u64 \<Rightarrow> vdb \<Rightarrow> vdb res" where
  "PROTECT kn addr len = PROTECT_INNER kn addr len False"

definition UNPROTECT :: "kernel \<Rightarrow> u64 \<Rightarrow> u64 \<Rightarrow> vdb \<Rightarrow> vdb res" where
  "UNPROTECT kn addr len = PROTECT_INNER kn addr len True"

section \<open>The table of dirty pages\<close>

definition GC_dirty_inner :: "u64 \<Rightarrow> vdb \<Rightarrow> vdb res" where
  "GC_dirty_inner p v = andThen (set_pht_entry_from_index (GC_dirty_pages v) (PHT_HASH p)) (\<lambda>t. Inr (v\<lparr>GC_dirty_pages := t\<rparr>))"

definition GC_dirty :: "u64 \<Rightarrow> vdb \<Rightarrow> vdb res" where
  "GC_dirty p v = (if vd_manual v then GC_dirty_inner p v else Inr v)"

primrec dirty_blocks :: "nat \<Rightarrow> u64 \<Rightarrow> vdb \<Rightarrow> vdb res" where
  "dirty_blocks 0 h v = Inr v"
| "dirty_blocks (Suc n) h v = andThen (GC_dirty_inner h v) (dirty_blocks n (h + HBLKSIZE))"

section \<open>Write faults\<close>

definition GC_write_fault_handler :: "kernel \<Rightarrow> (sig_handler \<Rightarrow> u64 \<Rightarrow> vdb \<Rightarrow> vdb res) \<Rightarrow> u64 \<Rightarrow> vdb \<Rightarrow> vdb res" where
  "GC_write_fault_handler kn others addr v =
     (let h = page_of v addr
      in andThen (HDR addr (vd_gc v)) (\<lambda>e.
           if e = 0
           then if GC_old_segv_handler v = SIG_DFL then Inl (Panic ''Unexpected bus error or segmentation fault'')
                else others (GC_old_segv_handler v) addr v
           else andThen (UNPROTECT kn h (vd_page_size v) v) (dirty_blocks (unat (divHBLKSZ (vd_page_size v))) h)))"

definition raise_segv :: "kernel \<Rightarrow> (sig_handler \<Rightarrow> u64 \<Rightarrow> vdb \<Rightarrow> vdb res) \<Rightarrow> u64 \<Rightarrow> vdb \<Rightarrow> vdb res" where
  "raise_segv kn others addr v =
     (case vd_segv v of
        Write_fault_handler \<Rightarrow> GC_write_fault_handler kn others addr v
      | Siginfo_handler i \<Rightarrow> others (Siginfo_handler i) addr v
      | Plain_handler i \<Rightarrow> others (Plain_handler i) addr v
      | _ \<Rightarrow> Inl (Panic ''Segmentation fault''))"

primrec write_word :: "nat \<Rightarrow> kernel \<Rightarrow> (sig_handler \<Rightarrow> u64 \<Rightarrow> vdb \<Rightarrow> vdb res) \<Rightarrow> u64 \<Rightarrow> u64 \<Rightarrow> vdb \<Rightarrow> vdb res" where
  "write_word 0 kn others a w v = Inl Diverge"
| "write_word (Suc n) kn others a w v =
     (if vd_readonly v a then andThen (raise_segv kn others a v) (write_word n kn others a w)
      else Inr (touch_page kn a (v\<lparr>vd_gc := (vd_gc v)\<lparr>gc_mem := (gc_mem (vd_gc v))(a := w)\<rparr>\<rparr>)))"

section \<open>Turning dirty bits on\<close>

definition GC_UNMAPPED_REGIONS_SOFT_LIMIT :: u64 where
  "GC_UNMAPPED_REGIONS_SOFT_LIMIT = 16384"

definition too_many_pages :: "vdb \<Rightarrow> bool" where
  "too_many_pages v \<longleftrightarrow> GC_UNMAPPED_REGIONS_SOFT_LIMIT * 2 \<le>s GC_heapsize (vd_gc v) div vd_page_size v"

definition install_fault_handler :: "kernel \<Rightarrow> vdb \<Rightarrow> vdb res" where
  "install_fault_handler kn v =
     (if \<not> kn_sigaction kn then Inl (Panic ''Sigaction failed'')
      else
        let v1 = v\<lparr>vd_segv := Write_fault_handler, GC_old_segv_handler := vd_segv v\<rparr>;
            v2 = (if GC_old_segv_handler v1 = SIG_IGN
                  then vd_warn ''Previously ignored segmentation violation!?'' (v1\<lparr>GC_old_segv_handler := SIG_DFL\<rparr>) else v1);
            v3 = v2\<lparr>vd_bus := Write_fault_handler, GC_old_bus_handler := vd_bus v2\<rparr>
        in Inr (if GC_old_bus_handler v3 = SIG_IGN then vd_warn ''Previously ignored bus error!?'' v3 else v3))"

definition GC_dirty_init :: "kernel \<Rightarrow> vdb \<Rightarrow> (bool \<times> vdb) res" where
  "GC_dirty_init kn v =
     (if too_many_pages v then Inr (False, v)
      else if vd_page_size v mod HBLKSIZE \<noteq> 0 then Inl (Panic ''Page size not multiple of HBLKSIZE'')
      else
        andThen (soft_dirty_init kn v) (\<lambda>(soft, v1).
          if soft then Inr (True, v1) else andThen (install_fault_handler kn v1) (\<lambda>v2. Inr (True, v2))))"

section \<open>Protecting the heap\<close>

definition GC_PROTECTS_POINTER_HEAP :: i32 where "GC_PROTECTS_POINTER_HEAP = 1"
definition GC_PROTECTS_PTRFREE_HEAP :: i32 where "GC_PROTECTS_PTRFREE_HEAP = 2"

definition GC_incremental_protection_needs :: "vdb \<Rightarrow> i32" where
  "GC_incremental_protection_needs v =
     (if GC_GWW_AVAILABLE v then 0
      else if vd_page_size v = HBLKSIZE then GC_PROTECTS_POINTER_HEAP
      else GC_PROTECTS_POINTER_HEAP OR GC_PROTECTS_PTRFREE_HEAP)"

definition IS_PTRFREE :: "hdr \<Rightarrow> bool" where
  "IS_PTRFREE hhdr \<longleftrightarrow> hb_descr hhdr = 0"

definition blocks_of :: "hdr \<Rightarrow> u64" where
  "blocks_of hhdr = (if HBLK_IS_FREE hhdr then divHBLKSZ (hb_sz hhdr) else OBJ_SZ_TO_BLOCKS (hb_sz hhdr))"

definition protect_run :: "kernel \<Rightarrow> u64 \<Rightarrow> u64 \<Rightarrow> vdb \<Rightarrow> vdb res" where
  "protect_run kn current_start current v =
     (if current_start < current then PROTECT kn current_start (current - current_start) v else Inr v)"

text \<open>The walk over a section: \<open>current_start\<close> is the start of the blocks that wait to be protected.\<close>

primrec protect_blocks :: "nat \<Rightarrow> kernel \<Rightarrow> u64 \<Rightarrow> u64 \<Rightarrow> u64 \<Rightarrow> vdb \<Rightarrow> vdb res" where
  "protect_blocks 0 kn limit current_start current v = Inl Diverge"
| "protect_blocks (Suc n) kn limit current_start current v =
     (if current < limit
      then
        andThen (HDR current (vd_gc v)) (\<lambda>e.
          if IS_FORWARDING_ADDR_OR_NIL e then protect_blocks n kn limit (current + HBLKSIZE) (current + HBLKSIZE) v
          else
            andThen (get_hdr e (vd_gc v)) (\<lambda>hhdr.
              let behind_it = current + blocks_of hhdr * HBLKSIZE
              in if HBLK_IS_FREE hhdr \<or> IS_PTRFREE hhdr
                 then andThen (protect_run kn current_start current v) (protect_blocks n kn limit behind_it behind_it)
                 else protect_blocks n kn limit current_start behind_it v))
      else protect_run kn current_start current v)"

definition protect_section :: "kernel \<Rightarrow> bool \<Rightarrow> u64 \<times> u64 \<Rightarrow> vdb \<Rightarrow> vdb res" where
  "protect_section kn protect_all sect v =
     (case sect of (start, len) \<Rightarrow>
        if protect_all then PROTECT kn start len v
        else protect_blocks (unat (divHBLKSZ len) + 1) kn (start + len) start start v)"

primrec for_sections :: "(u64 \<times> u64 \<Rightarrow> vdb \<Rightarrow> vdb res) \<Rightarrow> (u64 \<times> u64) list \<Rightarrow> vdb \<Rightarrow> vdb res" where
  "for_sections f [] v = Inr v"
| "for_sections f (sect # sects) v = andThen (f sect v) (for_sections f sects)"

definition GC_protect_heap :: "kernel \<Rightarrow> vdb \<Rightarrow> vdb res" where
  "GC_protect_heap kn v =
     (let protect_all = GC_incremental_protection_needs v AND GC_PROTECTS_PTRFREE_HEAP \<noteq> 0
      in for_sections (protect_section kn protect_all) (GC_heap_sects (vd_gc v)) v)"

definition GC_auto_incremental :: "vdb \<Rightarrow> bool" where
  "GC_auto_incremental v \<longleftrightarrow> GC_incremental (vd_gc v) \<and> \<not> vd_manual v"

definition GC_unprotect_all_heap :: "kernel \<Rightarrow> vdb \<Rightarrow> vdb res" where
  "GC_unprotect_all_heap kn v = for_sections (\<lambda>(start, len). UNPROTECT kn start len) (GC_heap_sects (vd_gc v)) v"

definition GC_handle_protected_regions_limit :: "kernel \<Rightarrow> vdb \<Rightarrow> vdb res" where
  "GC_handle_protected_regions_limit kn v =
     (if GC_auto_incremental v \<and> \<not> GC_GWW_AVAILABLE v \<and> too_many_pages v
      then
        andThen (GC_unprotect_all_heap kn v) (\<lambda>v1.
          Inr (vd_warn ''GC incremental mode is turned off to prevent hitting VM maps limit''
                 (v1\<lparr>vd_gc := (vd_gc v1)\<lparr>GC_incremental := False\<rparr>\<rparr>)))
      else Inr v)"

section \<open>Reading and asking\<close>

text \<open>\<open>read_dirty_bits\<close> is \<open>GC_read_dirty\<close> of \<open>os_dep.c\<close>; the collection cycle takes the results of its
  calls from a list.\<close>

definition read_dirty_bits :: "kernel \<Rightarrow> bool \<Rightarrow> vdb \<Rightarrow> vdb res" where
  "read_dirty_bits kn output_unneeded v =
     (if vd_manual v \<or> \<not> GC_GWW_AVAILABLE v
      then
        let v1 = (if output_unneeded then v else v\<lparr>GC_grungy_pages := GC_dirty_pages v\<rparr>);
            v2 = v1\<lparr>GC_dirty_pages := replicate (length (GC_dirty_pages v1)) 0\<rparr>
        in if vd_manual v2 then Inr v2 else GC_protect_heap kn v2
      else GC_soft_read_dirty kn output_unneeded v)"

definition GC_is_vdb_for_static_roots :: "vdb \<Rightarrow> bool" where
  "GC_is_vdb_for_static_roots v \<longleftrightarrow> \<not> vd_manual v \<and> GC_GWW_AVAILABLE v"

definition GC_page_was_dirty :: "vdb \<Rightarrow> u64 \<Rightarrow> bool res" where
  "GC_page_was_dirty v h =
     andThen (HDR h (vd_gc v)) (\<lambda>e. if e = 0 then Inr True else get_pht_entry_from_index (GC_grungy_pages v) (PHT_HASH h))"

definition GC_static_page_was_dirty :: "vdb \<Rightarrow> u64 \<Rightarrow> bool res" where
  "GC_static_page_was_dirty v h = get_pht_entry_from_index (GC_grungy_pages v) (PHT_HASH h)"

text \<open>The answers as the marker takes them.\<close>

definition was_dirty :: "vdb \<Rightarrow> u64 \<Rightarrow> bool" where
  "was_dirty v h \<longleftrightarrow> GC_page_was_dirty v h = Inr True"

definition GC_remove_protection :: "kernel \<Rightarrow> u64 \<Rightarrow> u64 \<Rightarrow> bool \<Rightarrow> vdb \<Rightarrow> vdb res" where
  "GC_remove_protection kn h nblocks is_ptrfree v =
     (if \<not> GC_auto_incremental v \<or> GC_GWW_AVAILABLE v then Inr v
      else
        let ps = vd_page_size v; behind_it = h + nblocks * HBLKSIZE;
            h_trunc = page_of v h; h_end = page_of v (behind_it + ps - 1)
        in andThen
             (upto_loop (unat (divHBLKSZ (h_end - h_trunc)) + 2) HBLKSIZE h_end
                (\<lambda>current. if \<not> is_ptrfree \<or> current < h \<or> behind_it \<le> current then GC_dirty_inner current else Inr)
                h_trunc v)
             (UNPROTECT kn h_trunc (h_end - h_trunc)))"

end
