(* ===== verification/Atomix_GC_Select_Laws.thy ===== *)
theory Atomix_GC_Select_Laws
  imports Atomix_GC_Root_Laws Atomix_GC_Trace_Laws
begin

unbundle bit_operations_syntax

text \<open>
  Pushing only the written pages of a range: \<open>GC_push_selected\<close> of \<open>mark.c\<close>. Every word of a dirty page
  is pushed, the mark stack never overflows, and unless the stack is filled to three quarters, or
  empty, nothing but dirty pages is pushed.
\<close>

section \<open>Rounding\<close>

lemma round_down: "unat (a AND NOT (2 ^ k - 1)) = unat a div 2 ^ k * 2 ^ k" for a :: u64
proof -
  have "a AND NOT (2 ^ k - 1) = push_bit k (drop_bit k a)"
    using and_not_mask [of a k] by (simp add: mask_eq_exp_minus_1)
  moreover have "unat a div 2 ^ k * 2 ^ k < 2 ^ 64"
    by (rule le_less_trans [OF div_times_less_eq_dividend]) (use unsigned_less [of a, where 'a = nat] in simp)
  moreover have "take_bit 64 (unat a) = unat a"
    by (rule take_bit_nat_eq_self) (use unsigned_less [of a, where 'a = nat] in simp)
  ultimately show ?thesis
    by (simp add: unsigned_push_bit_eq unsigned_drop_bit_eq push_bit_eq_mult [where 'a = nat] drop_bit_eq_div [where 'a = nat]
        take_bit_nat_eq_self)
qed

lemma HBLKPTR_unat: "unat (HBLKPTR a) = unat a div 4096 * 4096"
  using round_down [of a 12] by (simp add: HBLKPTR_def)

lemma and_not_7 [simp]: "unat (a AND - 8) = unat a div 8 * 8" for a :: u64
  using round_down [of a 3] by simp

lemma word_start:
  fixes a :: u64
  assumes "unat a mod 8 = 0"
  shows "a AND - 8 = a" and "a + 7 AND - 8 = a"
proof -
  show "a AND - 8 = a" using assms by (simp add: word_unat_eq_iff mod_0_imp_dvd)
  have "unat a + 7 < 2 ^ 64" using assms unsigned_less [of a, where 'a = nat] by (simp add: mod_eq_0_iff_dvd) presburger
  then have "unat (a + 7) = unat a + 7" by (simp add: unat_word_ariths)
  then show "a + 7 AND - 8 = a" using assms by (simp add: word_unat_eq_iff) presburger
qed

section \<open>Room on the mark stack\<close>

definition roomy :: "marker \<Rightarrow> bool" where
  "roomy m \<longleftrightarrow> length (GC_mark_stack m) < GC_mark_stack_size m \<and> INITIAL_MARK_STACK_SIZE \<le> GC_mark_stack_size m \<and>
     GC_mark_stack_size m < 2 ^ 61"

lemma danger_iff:
  assumes "roomy m"
  shows "stack_in_danger m \<longleftrightarrow> GC_mark_stack m = [] \<or> 3 * GC_mark_stack_size m div 4 < length (GC_mark_stack m) - 1"
proof -
  have "3 * GC_mark_stack_size m < 2 ^ 64" using assms by (simp add: roomy_def)
  then have s: "unat (3 * word_of_nat (GC_mark_stack_size m) div 4 :: u64) = 3 * GC_mark_stack_size m div 4"
    by (simp add: unat_word_ariths unat_div unat_of_nat)
  show ?thesis
  proof (cases "GC_mark_stack m = []")
    case True
    have "3 * GC_mark_stack_size m div 4 \<le> 3 * GC_mark_stack_size m" by simp
    moreover have "3 * GC_mark_stack_size m < 2 ^ 64 - 1" using assms by (simp add: roomy_def)
    ultimately have "3 * GC_mark_stack_size m div 4 < 2 ^ 64 - 1" by (rule le_less_trans)
    then show ?thesis using True s by (simp add: stack_in_danger_def word_less_nat_alt unsigned_minus_1_eq_mask mask_eq_exp_minus_1)
  next
    case False
    then have "unat (word_of_nat (length (GC_mark_stack m)) - 1 :: u64) = length (GC_mark_stack m) - 1"
      using assms by (cases "GC_mark_stack m") (simp_all add: roomy_def unat_of_nat)
    then show ?thesis using False s by (simp add: stack_in_danger_def word_less_nat_alt)
  qed
qed

lemma push_all_one:
  assumes "roomy m" "low < high" "unat low mod 8 = 0" "unat high mod 8 = 0"
  shows "GC_push_all low high m = Inr (push_entry low (high - low) m)"
  using assms by (simp add: GC_push_all_def word_start roomy_def Let_def)

lemma push_keeps_room:
  assumes "roomy m" "\<not> stack_in_danger m"
  shows "roomy (push_entry a d m)"
proof -
  have "length (GC_mark_stack m) - 1 \<le> 3 * GC_mark_stack_size m div 4" using assms danger_iff by simp
  then have "length (GC_mark_stack m) + 1 < GC_mark_stack_size m" using assms(1) unfolding roomy_def INITIAL_MARK_STACK_SIZE_def by linarith
  then show ?thesis using assms(1) by (simp add: roomy_def push_entry_def)
qed

section \<open>What is selected\<close>

definition dirty_part :: "(u64 \<Rightarrow> bool) \<Rightarrow> u64 \<Rightarrow> u64 \<Rightarrow> u64 set" where
  "dirty_part dirty low high = {a \<in> {low ..< high}. dirty (HBLKPTR a)}"

text \<open>With an empty mark stack everything from the first dirty page on is pushed.\<close>

definition selects :: "(u64 \<Rightarrow> bool) \<Rightarrow> u64 \<Rightarrow> u64 \<Rightarrow> marker \<Rightarrow> (u64 \<times> u64) list \<Rightarrow> bool" where
  "selects dirty low high m rs \<longleftrightarrow>
     dirty_part dirty low high \<subseteq> covered rs \<and> covered rs \<subseteq> {low ..< high} \<and>
     (GC_mark_stack m = [] \<longrightarrow> covered rs = {a \<in> {low ..< high}. \<exists>b \<in> dirty_part dirty low high. HBLKPTR b \<le> a}) \<and>
     (GC_mark_stack m \<noteq> [] \<and> length (GC_mark_stack m) + (unat high div 4096 - unat low div 4096) \<le> 3 * GC_mark_stack_size m div 4 \<longrightarrow>
       covered rs = dirty_part dirty low high)"

lemma selectsI:
  assumes "dirty_part dirty low high \<subseteq> covered rs" "covered rs \<subseteq> {low ..< high}"
    "GC_mark_stack m = [] \<Longrightarrow> covered rs = {a \<in> {low ..< high}. \<exists>b \<in> dirty_part dirty low high. HBLKPTR b \<le> a}"
    "GC_mark_stack m \<noteq> [] \<Longrightarrow> length (GC_mark_stack m) + (unat high div 4096 - unat low div 4096) \<le> 3 * GC_mark_stack_size m div 4 \<Longrightarrow>
      covered rs = dirty_part dirty low high"
  shows "selects dirty low high m rs"
  using assms unfolding selects_def by blast

lemma selects_empty:
  "selects dirty low high m rs \<Longrightarrow> GC_mark_stack m = [] \<Longrightarrow>
    covered rs = {a \<in> {low ..< high}. \<exists>b \<in> dirty_part dirty low high. HBLKPTR b \<le> a}"
  unfolding selects_def by (elim conjE) (erule mp)

lemma selects_exact:
  "selects dirty low high m rs \<Longrightarrow> GC_mark_stack m \<noteq> [] \<Longrightarrow>
    length (GC_mark_stack m) + (unat high div 4096 - unat low div 4096) \<le> 3 * GC_mark_stack_size m div 4 \<Longrightarrow>
    covered rs = dirty_part dirty low high"
  unfolding selects_def by (elim conjE) (erule mp, intro conjI)

definition next_block :: "u64 \<Rightarrow> u64" where
  "next_block a = HBLKPTR a + HBLKSIZE"

lemma next_block_unat:
  assumes "unat a + 4096 < 2 ^ 64"
  shows "unat (next_block a) = (unat a div 4096 + 1) * 4096"
proof -
  have "unat a div 4096 * 4096 \<le> unat a" by simp
  then have "unat a div 4096 * 4096 + 4096 < 2 ^ 64" using assms by linarith
  then show ?thesis by (simp add: next_block_def unat_word_ariths HBLKPTR_unat)
qed

lemma same_block:
  assumes "unat low + 4096 < 2 ^ 64" "low \<le> a" "a < next_block low"
  shows "HBLKPTR a = HBLKPTR low"
proof -
  have "unat a < (unat low div 4096 + 1) * 4096" "unat low \<le> unat a"
    using assms by (simp_all add: word_less_nat_alt word_le_nat_alt next_block_unat)
  moreover have "4096 * (unat low div 4096) \<le> unat low" by (rule times_div_less_eq_dividend)
  ultimately have "unat a div 4096 = unat low div 4096" by (intro div_nat_eqI) (linarith, simp)
  then show ?thesis by (simp add: word_unat_eq_iff HBLKPTR_unat)
qed

lemma other_block:
  assumes "unat low + 4096 < 2 ^ 64" "next_block low \<le> a"
  shows "next_block low \<le> HBLKPTR a"
proof -
  have "(unat low div 4096 + 1) * 4096 \<le> unat a" using assms by (simp add: word_le_nat_alt next_block_unat)
  then have "unat low div 4096 + 1 \<le> unat a div 4096" by (simp add: less_eq_div_iff_mult_less_eq)
  then have "(unat low div 4096 + 1) * 4096 \<le> unat a div 4096 * 4096" by (rule mult_le_mono1)
  then show ?thesis using assms by (simp add: word_le_nat_alt next_block_unat HBLKPTR_unat)
qed

lemma behind_low: "unat low + 4096 < 2 ^ 64 \<Longrightarrow> low < next_block low"
  using dividend_less_times_div [of 4096 "unat low"] by (simp add: word_less_nat_alt next_block_unat)

lemma block_le: "HBLKPTR a \<le> a"
  by (simp add: word_le_nat_alt HBLKPTR_unat)

lemma dirty_block:
  assumes "unat low + 4096 < 2 ^ 64"
  shows "\<forall>a. low \<le> a \<and> a < next_block low \<longrightarrow> dirty (HBLKPTR a) = dirty (HBLKPTR low)"
  using same_block [OF assms] by metis

lemma dirty_part_within:
  assumes "unat low + 4096 < 2 ^ 64" "high \<le> next_block low"
  shows "dirty_part dirty low high = (if dirty (HBLKPTR low) then {low ..< high} else {})"
proof -
  define D where "D = dirty (HBLKPTR low)"
  have "dirty (HBLKPTR a) = D" if "low \<le> a" "a < high" for a
    using dirty_block [OF assms(1), of dirty] that less_le_trans [OF _ assms(2)] unfolding D_def by blast
  then show ?thesis unfolding D_def [symmetric] by (auto simp: dirty_part_def)
qed

lemma dirty_part_split:
  assumes "unat low + 4096 < 2 ^ 64" "next_block low \<le> high"
  shows "dirty_part dirty low high = (if dirty (HBLKPTR low) then {low ..< next_block low} else {}) \<union> dirty_part dirty (next_block low) high"
proof -
  define D where "D = dirty (HBLKPTR low)"
  have "{low ..< high} = {low ..< next_block low} \<union> {next_block low ..< high}"
    using behind_low [OF assms(1)] assms(2) by auto
  moreover have "\<forall>a. low \<le> a \<and> a < next_block low \<longrightarrow> dirty (HBLKPTR a) = D"
    unfolding D_def by (rule dirty_block [OF assms(1)])
  ultimately show ?thesis unfolding D_def [symmetric] dirty_part_def by auto
qed

lemma selects_none:
  assumes "unat low + 4096 < 2 ^ 64" "high \<le> next_block low" "\<not> dirty (HBLKPTR low) \<or> high \<le> low"
  shows "selects dirty low high m []"
  using assms by (auto simp: selects_def dirty_part_within)

lemma selects_whole:
  assumes "roomy m" "unat low + 4096 < 2 ^ 64" "low < high" "dirty (HBLKPTR low)" "stack_in_danger m \<or> high \<le> next_block low"
  shows "selects dirty low high m [(low, high)]"
proof (rule selectsI)
  have low: "low \<in> dirty_part dirty low high" using assms(3,4) by (simp add: dirty_part_def)
  have "\<exists>b \<in> dirty_part dirty low high. HBLKPTR b \<le> a" if "a \<in> {low ..< high}" for a
    using low that order_trans [OF block_le [of low]] by (auto intro: bexI [OF _ low])
  then show "covered [(low, high)] = {a \<in> {low ..< high}. \<exists>b \<in> dirty_part dirty low high. HBLKPTR b \<le> a}" by auto
  show "covered [(low, high)] = dirty_part dirty low high"
    if "GC_mark_stack m \<noteq> []" "length (GC_mark_stack m) + (unat high div 4096 - unat low div 4096) \<le> 3 * GC_mark_stack_size m div 4"
  proof -
    have "\<not> stack_in_danger m" using danger_iff [OF assms(1)] that by auto
    then show ?thesis using assms(4,5) dirty_part_within [OF assms(2)] by simp
  qed
qed (auto simp: dirty_part_def)

lemma selects_skip:
  assumes "unat low + 4096 < 2 ^ 64" "next_block low \<le> high" "\<not> dirty (HBLKPTR low)" "selects dirty (next_block low) high m rs"
  shows "selects dirty low high m rs"
proof -
  have d: "dirty_part dirty low high = dirty_part dirty (next_block low) high" using dirty_part_split [OF assms(1,2)] assms(3) by simp
  have far: "next_block low \<le> a" if "\<exists>b \<in> dirty_part dirty (next_block low) high. HBLKPTR b \<le> a" for a
  proof -
    obtain b where b: "next_block low \<le> b" "HBLKPTR b \<le> a" using \<open>\<exists>b \<in> _. _\<close> unfolding dirty_part_def by auto
    show ?thesis using order_trans [OF other_block [OF assms(1) b(1)] b(2)] .
  qed
  have same: "low \<le> a \<longleftrightarrow> next_block low \<le> a" if "\<exists>b \<in> dirty_part dirty (next_block low) high. HBLKPTR b \<le> a" for a
    using far [OF that] less_imp_le [OF behind_low [OF assms(1)]] order_trans by blast
  have empty: "{a \<in> {low ..< high}. \<exists>b \<in> dirty_part dirty low high. HBLKPTR b \<le> a} =
      {a \<in> {next_block low ..< high}. \<exists>b \<in> dirty_part dirty (next_block low) high. HBLKPTR b \<le> a}"
    unfolding d atLeastLessThan_iff by (rule Collect_cong) (use same in blast)
  have fewer: "unat high div 4096 - unat (next_block low) div 4096 \<le> unat high div 4096 - unat low div 4096"
    by (simp add: next_block_unat [OF assms(1)])
  have within: "{next_block low ..< high} \<subseteq> {low ..< high}" using behind_low [OF assms(1)] by auto
  show ?thesis
  proof (rule selectsI)
    show "dirty_part dirty low high \<subseteq> covered rs" using assms(4) unfolding selects_def d by blast
    show "covered rs \<subseteq> {low ..< high}" using assms(4) within unfolding selects_def by blast
    show "covered rs = {a \<in> {low ..< high}. \<exists>b \<in> dirty_part dirty low high. HBLKPTR b \<le> a}" if "GC_mark_stack m = []"
      unfolding empty using selects_empty [OF assms(4) that] .
    show "covered rs = dirty_part dirty low high"
      if "GC_mark_stack m \<noteq> []" "length (GC_mark_stack m) + (unat high div 4096 - unat low div 4096) \<le> 3 * GC_mark_stack_size m div 4"
      unfolding d by (rule selects_exact [OF assms(4) that(1) order_trans [OF add_left_mono [OF fewer] that(2)]])
  qed
qed

lemma selects_take:
  assumes "roomy m" "unat low + 4096 < 2 ^ 64" "next_block low \<le> high" "dirty (HBLKPTR low)" "\<not> stack_in_danger m"
    "selects dirty (next_block low) high (push_entry e d m) rs"
  shows "selects dirty low high m ((low, next_block low) # rs)"
proof -
  have split: "dirty_part dirty low high = {low ..< next_block low} \<union> dirty_part dirty (next_block low) high"
    using dirty_part_split [OF assms(2,3)] assms(4) by simp
  have more: "GC_mark_stack (push_entry e d m) \<noteq> []" "length (GC_mark_stack (push_entry e d m)) = length (GC_mark_stack m) + 1"
    "GC_mark_stack_size (push_entry e d m) = GC_mark_stack_size m" by (simp_all add: push_entry_def)
  have "1 + (unat high div 4096 - unat (next_block low) div 4096) = unat high div 4096 - unat low div 4096"
  proof -
    have "(unat low div 4096 + 1) * 4096 \<le> unat high" using assms(3) by (simp add: word_le_nat_alt next_block_unat [OF assms(2)])
    then have "unat low div 4096 + 1 \<le> unat high div 4096" by (simp add: less_eq_div_iff_mult_less_eq)
    then show ?thesis by (simp add: next_block_unat [OF assms(2)])
  qed
  then have "length (GC_mark_stack (push_entry e d m)) + (unat high div 4096 - unat (next_block low) div 4096) =
      length (GC_mark_stack m) + (unat high div 4096 - unat low div 4096)" using more(2) by linarith
  then have exact: "covered rs = dirty_part dirty (next_block low) high"
    if "length (GC_mark_stack m) + (unat high div 4096 - unat low div 4096) \<le> 3 * GC_mark_stack_size m div 4"
    using that assms(6) more(1,3) unfolding selects_def by simp
  have ne: "GC_mark_stack m \<noteq> []" using assms(1,5) danger_iff by blast
  have rest: "dirty_part dirty (next_block low) high \<subseteq> covered rs" "covered rs \<subseteq> {next_block low ..< high}"
    using assms(6) unfolding selects_def by blast+
  have within: "{low ..< next_block low} \<subseteq> {low ..< high}" "{next_block low ..< high} \<subseteq> {low ..< high}"
    using assms(3) behind_low [OF assms(2)] by auto
  show ?thesis
  proof (rule selectsI)
    show "dirty_part dirty low high \<subseteq> covered ((low, next_block low) # rs)" using rest(1) unfolding split covered_simps by blast
    show "covered ((low, next_block low) # rs) \<subseteq> {low ..< high}" using rest(2) within unfolding covered_simps by blast
    show "covered ((low, next_block low) # rs) = dirty_part dirty low high"
      if "length (GC_mark_stack m) + (unat high div 4096 - unat low div 4096) \<le> 3 * GC_mark_stack_size m div 4"
      using exact [OF that] unfolding split covered_simps by blast
  qed (use ne in blast)
qed

section \<open>The loop\<close>

lemma block_start: "unat h mod 4096 = 0 \<Longrightarrow> HBLKPTR h = h"
  by (simp add: word_unat_eq_iff HBLKPTR_unat mod_eq_0_iff_dvd)

lemma selected_blocks:
  assumes "roomy m" "unat h mod 4096 = 0" "h \<le> high" "unat high mod 8 = 0" "unat high + 4096 < 2 ^ 64"
    "unat high - unat h < 4096 * n"
  shows "\<exists>rs m'. push_selected_blocks n dirty high h m = Inr m' \<and> push_all_ranges rs m = Inr m' \<and> selects dirty h high m rs"
  using assms
proof (induction n arbitrary: h m)
  case (Suc n)
  have h: "HBLKPTR h = h" "next_block h = h + HBLKSIZE" using block_start [OF Suc.prems(2)] by (simp_all add: next_block_def)
  have small: "unat h + 4096 < 2 ^ 64" using Suc.prems(3,5) by (simp add: word_le_nat_alt)
  then have next_h: "unat (h + HBLKSIZE) = unat h + 4096" by (simp add: unat_word_ariths)
  have h8: "unat h mod 8 = 0" "unat (h + HBLKSIZE) mod 8 = 0" "unat (h + HBLKSIZE) mod 4096 = 0"
    using Suc.prems(2) unfolding next_h by (auto simp: mod_eq_0_iff_dvd intro: dvd_trans [of 8 4096])
  show ?case
  proof (cases "h + HBLKSIZE \<le> high")
    case inside: True
    then have less: "h < high" using next_h by (simp add: word_le_nat_alt word_less_nat_alt)
    have rec: "unat high - unat (h + HBLKSIZE) < 4096 * n" using Suc.prems(6) inside next_h by (simp add: word_le_nat_alt)
    note IH = Suc.IH [OF _ h8(3) inside Suc.prems(4,5) rec]
    show ?thesis
    proof (cases "dirty h")
      case dirty: True
      show ?thesis
      proof (cases "stack_in_danger m")
        case True
        have "selects dirty h high m [(h, high)]"
          using selects_whole [OF Suc.prems(1) small less] dirty True h by simp
        then show ?thesis using inside dirty True push_all_one [OF Suc.prems(1) less h8(1) Suc.prems(4)]
          by (intro exI [of _ "[(h, high)]"]) simp
      next
        case False
        have "h < h + HBLKSIZE" using next_h by (simp add: word_less_nat_alt)
        then have push: "GC_push_all h (h + HBLKSIZE) m = Inr (push_entry h (h + HBLKSIZE - h) m)"
          by (rule push_all_one [OF Suc.prems(1) _ h8(1,2)])
        obtain rs m' where rs: "push_selected_blocks n dirty high (h + HBLKSIZE) (push_entry h (h + HBLKSIZE - h) m) = Inr m'"
          "push_all_ranges rs (push_entry h (h + HBLKSIZE - h) m) = Inr m'"
          "selects dirty (h + HBLKSIZE) high (push_entry h (h + HBLKSIZE - h) m) rs"
          using IH [OF push_keeps_room [OF Suc.prems(1) False]] by blast
        have "selects dirty h high m ((h, h + HBLKSIZE) # rs)"
          using selects_take [OF Suc.prems(1) small, of high dirty] inside dirty False rs(3) h by simp
        then show ?thesis using inside dirty False push rs(1,2)
          by (intro exI [of _ "(h, h + HBLKSIZE) # rs"] exI [of _ m']) simp
      qed
    next
      case clean: False
      obtain rs m' where rs: "push_selected_blocks n dirty high (h + HBLKSIZE) m = Inr m'" "push_all_ranges rs m = Inr m'"
        "selects dirty (h + HBLKSIZE) high m rs" using IH [OF Suc.prems(1)] by blast
      have "selects dirty h high m rs" using selects_skip [OF small, of high dirty] inside clean rs(3) h by simp
      then show ?thesis using inside clean rs(1,2) by (intro exI [of _ rs] exI [of _ m']) simp
    qed
  next
    case last: False
    then have within: "high \<le> next_block h" using h by simp
    show ?thesis
    proof (cases "h \<noteq> high \<and> dirty h")
      case True
      then have less: "h < high" using Suc.prems(3) by (metis order_le_imp_less_or_eq)
      have "selects dirty h high m [(h, high)]"
        using selects_whole [OF Suc.prems(1) small less, of dirty] True h within by simp
      then show ?thesis using last True push_all_one [OF Suc.prems(1) less h8(1) Suc.prems(4)]
        by (intro exI [of _ "[(h, high)]"]) simp
    next
      case False
      then have "selects dirty h high m []" using selects_none [OF small within, of dirty] h by auto
      then show ?thesis using last False by (intro exI [of _ "[]"]) auto
    qed
  qed
qed simp

lemma push_selected_aligned:
  assumes "unat low mod 8 = 0" "unat high mod 8 = 0" "low < high" "unat low + 4096 < 2 ^ 64"
  shows "GC_push_selected dirty low high m =
      (if high \<le> next_block low then if dirty (HBLKPTR low) then GC_push_all low high m else Inr m
       else if dirty (HBLKPTR low) \<and> stack_in_danger m then GC_push_all low high m
       else andThen (if dirty (HBLKPTR low) then GC_push_all low (next_block low) m else Inr m)
              (push_selected_blocks (unat (divHBLKSZ (high - next_block low)) + 1) dirty high (next_block low)))"
proof -
  have "unat (low + HBLKSIZE) = unat low + 4096" using assms(4) by (simp add: unat_word_ariths)
  moreover have "(unat low + 4096) div 4096 = unat low div 4096 + 1" by simp
  ultimately have h: "HBLKPTR (low + HBLKSIZE) = next_block low"
    using assms(4) by (simp add: word_unat_eq_iff HBLKPTR_unat next_block_unat)
  have h0: "next_block low - HBLKSIZE = HBLKPTR low" by (simp add: next_block_def)
  show ?thesis using assms(3) [folded not_le] word_start [OF assms(1)] word_start [OF assms(2)]
    by (simp add: GC_push_selected_def Let_def h h0 del: push_selected_blocks.simps)
qed

lemma selected_range:
  assumes room: "roomy m" and less: "low < high"
    and ends: "unat low mod 8 = 0" "unat high mod 8 = 0" "unat high + 4096 < 2 ^ 64"
  shows "\<exists>rs m'. GC_push_selected dirty low high m = Inr m' \<and> push_all_ranges rs m = Inr m' \<and> selects dirty low high m rs"
proof -
  have small: "unat low + 4096 < 2 ^ 64" using less ends(3) by (simp add: word_less_nat_alt)
  note fold = push_selected_aligned [OF ends(1,2) less small]
  show ?thesis
  proof (cases "high \<le> next_block low")
    case within: True
    show ?thesis
    proof (cases "dirty (HBLKPTR low)")
      case dirt: True
      then have "selects dirty low high m [(low, high)]"
        using selects_whole [OF room small less, of dirty] within by simp
      then show ?thesis using fold within dirt push_all_one [OF room less ends(1,2)]
        by (intro exI [of _ "[(low, high)]"]) simp
    next
      case clean: False
      then show ?thesis using selects_none [OF small within, of dirty] fold within by (intro exI [of _ "[]"]) simp
    qed
  next
    case beyond: False
    let ?b = "next_block low"
    have b: "?b \<le> high" "low < ?b" "unat ?b mod 8 = 0" "unat ?b mod 4096 = 0"
      using beyond behind_low [OF small] by (simp_all add: next_block_unat [OF small] mod_eq_0_iff_dvd dvd_mult)
    have enough: "unat high - unat ?b < 4096 * (unat (divHBLKSZ (high - ?b)) + 1)"
      using b(1) dividend_less_times_div [of 4096 "unat high - unat ?b"] by (simp add: divHBLKSZ_def drop_bit_eq_div unat_div unat_sub)
    note loop = selected_blocks [OF _ b(4,1) ends(2,3) enough, of _ dirty]
    show ?thesis
    proof (cases "dirty (HBLKPTR low)")
      case clean: False
      obtain rs m' where "push_selected_blocks (unat (divHBLKSZ (high - ?b)) + 1) dirty high ?b m = Inr m'"
        "push_all_ranges rs m = Inr m'" "selects dirty ?b high m rs" using loop [OF room] by blast
      then show ?thesis using fold beyond clean selects_skip [OF small b(1), of dirty] by (intro exI [of _ rs] exI [of _ m']) simp
    next
      case dirt: True
      show ?thesis
      proof (cases "stack_in_danger m")
        case danger: True
        then show ?thesis
          using fold beyond dirt push_all_one [OF room less ends(1,2)] selects_whole [where dirty = dirty, OF room small less dirt]
          by (intro exI [of _ "[(low, high)]"]) simp
      next
        case False
        let ?m = "push_entry low (?b - low) m"
        obtain rs m' where "push_selected_blocks (unat (divHBLKSZ (high - ?b)) + 1) dirty high ?b ?m = Inr m'"
          "push_all_ranges rs ?m = Inr m'" "selects dirty ?b high ?m rs" using loop [OF push_keeps_room [OF room False]] by blast
        then show ?thesis
          using fold beyond dirt False push_all_one [OF room b(2) ends(1) b(3)] selects_take [where dirty = dirty, OF room small b(1) dirt False]
          by (intro exI [of _ "(low, ?b) # rs"] exI [of _ m']) simp
      qed
    qed
  qed
qed

text \<open>C39: Pushing the written pages of a range ends without overflowing a mark stack of the usual size and
  pushes every address of the range, rounded inward to words, that is on a dirty page, and none outside
  the range. It pushes nothing else while the stack has room for the pages, except when the stack is
  empty: the index of its top, \<open>- 1\<close>, is compared as an unsigned number, so everything from the first
  dirty page on is pushed.\<close>

theorem selected_pages_are_pushed:
  assumes "length (GC_mark_stack m) < GC_mark_stack_size m" "INITIAL_MARK_STACK_SIZE \<le> GC_mark_stack_size m" "GC_mark_stack_size m < 2 ^ 61"
    and "unat high + 4096 < 2 ^ 64" "low' = (low + 7) AND NOT 7" "high' = high AND NOT 7"
    and "D = {a \<in> {low' ..< high'}. dirty (HBLKPTR a)}"
  shows "\<exists>rs m'. GC_push_selected dirty low high m = Inr m' \<and> push_each GC_push_all rs m = Inr m' \<and>
     D \<subseteq> covered rs \<and> covered rs \<subseteq> {low' ..< high'} \<and>
     (GC_mark_stack m = [] \<longrightarrow> covered rs = {a \<in> {low' ..< high'}. \<exists>b \<in> D. HBLKPTR b \<le> a}) \<and>
     (GC_mark_stack m \<noteq> [] \<and> length (GC_mark_stack m) + (unat high' div 4096 - unat low' div 4096) \<le> 3 * GC_mark_stack_size m div 4 \<longrightarrow>
       covered rs = D)"
proof -
  have D: "D = dirty_part dirty low' high'" using assms(7) by (simp add: dirty_part_def)
  have room: "roomy m" using assms(1-3) by (simp add: roomy_def)
  have ends: "unat low' mod 8 = 0" "unat high' mod 8 = 0" "unat high' + 4096 < 2 ^ 64"
    using assms(4-6) le_less_trans [OF add_right_mono [OF div_times_less_eq_dividend]] by simp_all
  have round: "GC_push_selected dirty low high m = GC_push_selected dirty low' high' m"
    using word_start [OF ends(1)] word_start [OF ends(2)] assms(5,6) by (simp add: GC_push_selected_def)
  have "\<exists>rs m'. GC_push_selected dirty low' high' m = Inr m' \<and> push_all_ranges rs m = Inr m' \<and> selects dirty low' high' m rs"
  proof (cases "low' < high'")
    case False
    then have "high' \<le> low'" by (metis not_le)
    then have "GC_push_selected dirty low' high' m = Inr m" "selects dirty low' high' m []"
      using word_start [OF ends(1)] word_start [OF ends(2)] by (simp_all add: GC_push_selected_def Let_def selects_def dirty_part_def)
    then show ?thesis by (intro exI [of _ "[]"] exI [of _ m]) simp
  qed (rule selected_range [OF room _ ends])
  then show ?thesis unfolding D round selects_def by blast
qed

lemma selected_pages_are_pushed_witness:
  "\<exists>rs m'. GC_push_selected (\<lambda>h. h = 0x3000) 0x2000 0x6000 (cl_marker no_roots) = Inr m' \<and>
     push_each GC_push_all rs (cl_marker no_roots) = Inr m' \<and> covered rs = {0x3000 ..< 0x6000}"
proof -
  let ?m = "cl_marker no_roots" and ?R = "{0x2000 ..< 0x6000 :: u64}"
  let ?D = "{a \<in> ?R. HBLKPTR a = 0x3000}"
  have m: "GC_mark_stack ?m = []" "GC_mark_stack_size ?m = 4096" by (simp_all add: no_roots_def)
  have ends: "0x2000 = (0x2000 + 7 :: u64) AND NOT 7" "0x6000 = (0x6000 :: u64) AND NOT 7" by simp_all
  obtain rs m' where rs: "GC_push_selected (\<lambda>h. h = 0x3000) 0x2000 0x6000 ?m = Inr m'" "push_each GC_push_all rs ?m = Inr m'"
    "covered rs = {a \<in> ?R. \<exists>b \<in> ?D. HBLKPTR b \<le> a}"
    using selected_pages_are_pushed [OF _ _ _ _ ends refl, of ?m "\<lambda>h. h = 0x3000"] m by (auto simp: INITIAL_MARK_STACK_SIZE_def)
  have "0x3000 \<in> ?D" by (simp add: HBLKPTR_def)
  then have "{a \<in> ?R. \<exists>b \<in> ?D. HBLKPTR b \<le> a} = {a \<in> ?R. 0x3000 \<le> a}" by (metis (mono_tags, lifting) mem_Collect_eq)
  also have "\<dots> = {0x3000 ..< 0x6000}" by (auto simp: word_le_nat_alt word_less_nat_alt)
  finally show ?thesis using rs by blast
qed

end
