(* ===== verification/Atomix_GC_Dirty_Laws.thy ===== *)
theory Atomix_GC_Dirty_Laws
  imports Atomix_GC_Dirty Atomix_GC_Tricolor Atomix_GC_Mark_Laws Atomix_GC_Select_Laws
begin

unbundle bit_operations_syntax

text \<open>
  Dirty bits by write protection are complete: a block that was protected when the bits were read last,
  and that is written or handed out for pointers afterwards, is reported when they are read again. The
  invariant is that a page is read-only or noted, which every step of the program keeps. And protecting
  the heap makes exactly the blocks with pointers read-only.
\<close>

section \<open>Tables of pages\<close>

definition noted :: "u64 list \<Rightarrow> u64 \<Rightarrow> bool" where
  "noted t a \<longleftrightarrow> pht_bit t (PHT_HASH a)"

definition put_page :: "u64 \<Rightarrow> u64 list \<Rightarrow> u64 list" where
  "put_page a t = t[unat (PHT_HASH a) div 64 := t ! (unat (PHT_HASH a) div 64) OR push_bit (unat (PHT_HASH a) mod 64) 1]"

lemma length_put_page [simp]: "length (put_page a t) = length t"
  by (simp add: put_page_def)

lemma hash_word: "unat (PHT_HASH a) div 64 < 4096"
  using PHT_HASH_small [of a] by (intro less_mult_imp_div_less) simp



lemma noted_zero: "\<not> noted (replicate 4096 0) a"
  using hash_word [of a] by (simp add: noted_def pht_bit_def)



section \<open>Pages\<close>

definition ready :: "nat \<Rightarrow> vdb \<Rightarrow> bool" where
  "ready k v \<longleftrightarrow> vd_page_size v = 2 ^ k \<and> 12 \<le> k \<and> k \<le> 30 \<and> length (GC_dirty_pages v) = 4096"

lemma page_of_unat: "vd_page_size v = 2 ^ k \<Longrightarrow> unat (page_of v a) = unat a div 2 ^ k * 2 ^ k"
  by (simp add: page_of_def round_down)





section \<open>The steps that note pages\<close>



text \<open>The state later on: what was noted stays noted, and what was read-only or noted outside a set of
  addresses stays so.\<close>

definition guarded :: "vdb \<Rightarrow> u64 \<Rightarrow> bool" where
  "guarded v a \<longleftrightarrow> vd_readonly v a \<or> noted (GC_dirty_pages v) a"

definition later :: "nat \<Rightarrow> (u64 \<Rightarrow> bool) \<Rightarrow> vdb \<Rightarrow> vdb \<Rightarrow> bool" where
  "later k given v v' \<longleftrightarrow> ready k v' \<and> vd_manual v' = vd_manual v \<and> clear_refs_fd v' = clear_refs_fd v \<and>
     (GC_incremental (vd_gc v) \<longrightarrow> GC_incremental (vd_gc v')) \<and>
     (\<forall>b. noted (GC_dirty_pages v) b \<longrightarrow> noted (GC_dirty_pages v') b) \<and>
     (\<forall>b. \<not> given b \<longrightarrow> guarded v b \<longrightarrow> guarded v' b)"



lemma later_weaken: "later k given v v' \<Longrightarrow> (\<And>b. given b \<Longrightarrow> given' b) \<Longrightarrow> later k given' v v'"
  unfolding later_def by blast



section \<open>Writes\<close>

text \<open>Handlers of the client leave the dirty bits alone.\<close>

definition harmless :: "(sig_handler \<Rightarrow> u64 \<Rightarrow> vdb \<Rightarrow> vdb res) \<Rightarrow> bool" where
  "harmless others \<longleftrightarrow>
     (\<forall>h a v v'. others h a v = Inr v' \<longrightarrow> (\<exists>g. v' = v\<lparr>vd_gc := g\<rparr> \<and> GC_incremental g = GC_incremental (vd_gc v)))"





text \<open>A write to a page of the heap takes one fault at most: the collector unprotects the page, notes
  it, and the second try writes.\<close>

definition obliging :: "kernel \<Rightarrow> bool" where
  "obliging kn \<longleftrightarrow> (\<forall>a len w. kn_mprotect kn a len w)"



section \<open>Handing out blocks\<close>





section \<open>Runs\<close>





definition tracking :: "nat \<Rightarrow> vdb \<Rightarrow> bool" where
  "tracking k v \<longleftrightarrow> ready k v \<and> GC_auto_incremental v \<and> \<not> GC_GWW_AVAILABLE v"



section \<open>Protecting the heap\<close>

text \<open>A section of the heap as the headers of its blocks, or the forwarding counts of a block that began
  in another section, which come first.\<close>

primrec laid_out :: "gc \<Rightarrow> u64 \<Rightarrow> u64 list \<Rightarrow> u64 \<Rightarrow> bool" where
  "laid_out g limit [] cur \<longleftrightarrow> limit \<le> cur"
| "laid_out g limit (e # es) cur \<longleftrightarrow> cur < limit \<and> HDR cur g = Inr e \<and>
     (if IS_FORWARDING_ADDR_OR_NIL e then unat cur + 4096 < 2 ^ 64 \<and> laid_out g limit es (cur + HBLKSIZE)
      else (\<forall>x \<in> set es. \<not> IS_FORWARDING_ADDR_OR_NIL x) \<and>
        (case get_hdr e g of
           Inl _ \<Rightarrow> False
         | Inr hhdr \<Rightarrow> blocks_of hhdr \<noteq> 0 \<and> unat cur + unat (blocks_of hhdr) * 4096 < 2 ^ 64 \<and>
             laid_out g limit es (cur + blocks_of hhdr * HBLKSIZE)))"

text \<open>The addresses in blocks of objects with pointers.\<close>

primrec with_pointers :: "gc \<Rightarrow> u64 list \<Rightarrow> u64 \<Rightarrow> u64 \<Rightarrow> bool" where
  "with_pointers g [] cur p \<longleftrightarrow> False"
| "with_pointers g (e # es) cur p \<longleftrightarrow>
     (if IS_FORWARDING_ADDR_OR_NIL e then with_pointers g es (cur + HBLKSIZE) p
      else
        (case get_hdr e g of
           Inl _ \<Rightarrow> False
         | Inr hhdr \<Rightarrow> \<not> HBLK_IS_FREE hhdr \<and> \<not> IS_PTRFREE hhdr \<and> p - cur < blocks_of hhdr * HBLKSIZE \<or>
             with_pointers g es (cur + blocks_of hhdr * HBLKSIZE) p))"

lemma in_range:
  fixes p c len :: u64
  assumes "vd_page_size v = 4096" "unat c mod 4096 = 0" "unat len mod 4096 = 0"
  shows "page_of v p - c < len \<longleftrightarrow> p - c < len"
proof -
  have "HBLKDISPL p = take_bit 12 p" unfolding HBLKDISPL_def take_bit_eq_mask by (simp add: mask_eq_exp_minus_1)
  have u: "unat (page_of v p) = unat p div 4096 * 4096" using assms(1) page_of_unat [of v 12 p] by simp
  obtain i where i: "unat c = 4096 * i" using assms(2) by (metis mod_0_imp_dvd dvdE)
  obtain l where l: "unat len = 4096 * l" using assms(3) by (metis mod_0_imp_dvd dvdE)
  let ?q = "unat p div 4096"
  have P: "unat p = 4096 * ?q + unat p mod 4096" "unat p mod 4096 < 4096" by simp_all
  have bound: "unat p < 2 ^ 64" "unat c < 2 ^ 64" using unsigned_less [of p, where 'a = nat] unsigned_less [of c, where 'a = nat] by simp_all
  show ?thesis
  proof (cases "c \<le> p")
    case True
    then have iq: "i \<le> ?q" using i by (simp add: word_le_nat_alt less_eq_div_iff_mult_less_eq mult.commute)
    then have "c \<le> page_of v p" using u i by (simp add: word_le_nat_alt)
    then have "unat (page_of v p - c) = 4096 * (?q - i)" using u i by (simp add: unat_sub diff_mult_distrib2 mult.commute)
    moreover have "unat (p - c) = 4096 * (?q - i) + unat p mod 4096" using True i iq P(1) by (simp add: unat_sub diff_mult_distrib2)
    ultimately show ?thesis using l P(2) by (simp add: word_less_nat_alt) linarith
  next
    case False
    then have pc: "unat p < unat c" by (simp add: word_le_nat_alt)
    then have qi: "?q < i" using i P by linarith
    have "\<not> c \<le> page_of v p" using u qi i by (simp add: word_le_nat_alt)
    then have "unat (page_of v p - c) = 4096 * (2 ^ 52 + ?q - i)" using u i by (simp add: unat_sub_if' word_le_nat_alt diff_mult_distrib2 mult.commute)
    moreover have "unat (p - c) = 4096 * (2 ^ 52 + ?q - i) + unat p mod 4096"
    proof -
      have "unat (p - c) = unat p + 2 ^ 64 - unat c" using False by (simp add: unat_sub_if' word_le_nat_alt)
      moreover have "4096 * (2 ^ 52 + ?q - i) = 2 ^ 64 + 4096 * ?q - 4096 * i" by (simp add: diff_mult_distrib2)
      moreover have "4096 * i < 2 ^ 64" using i bound(2) by simp
      ultimately show ?thesis using i P(1) by arith
    qed
    ultimately show ?thesis using l P(2) by (simp add: word_less_nat_alt) linarith
  qed
qed

lemma protect_run_exact:
  assumes "vd_page_size v = 4096" "obliging kn" "unat cs mod 4096 = 0" "unat cur mod 4096 = 0" "cs \<le> cur"
  shows "\<exists>r. protect_run kn cs cur v = Inr (v\<lparr>vd_readonly := r\<rparr>) \<and> (\<forall>p. r p \<longleftrightarrow> vd_readonly v p \<or> p - cs < cur - cs)"
proof (cases "cs < cur")
  case True
  have "unat (page_of v cs) = unat cs" using page_of_unat [of v 12 cs] assms(1,3) by (simp add: minus_mod_eq_div_mult [symmetric])
  then have "page_of v cs = cs" by (simp add: word_unat_eq_iff)
  moreover have "unat (cur - cs) mod 4096 = 0" using assms(3-5) by (simp add: unat_sub mod_eq_0_iff_dvd dvd_diff_nat)
  ultimately show ?thesis
    using True assms(2) in_range [OF assms(1,3)]
    by (intro exI [of _ "access_after v cs (cur - cs) False"]) (auto simp: protect_run_def PROTECT_def PROTECT_INNER_def obliging_def access_after_def)
next
  case False
  then have "cur = cs" using assms(5) by simp
  then show ?thesis by (intro exI [of _ "vd_readonly v"]) (simp add: protect_run_def)
qed

lemma laid_out_length: "laid_out g limit es cur \<Longrightarrow> es \<noteq> [] \<Longrightarrow> unat cur + 4096 * (length es - 1) < unat limit"
proof (induction es arbitrary: cur)
  case (Cons e es)
  obtain cur' where c: "unat cur + 4096 \<le> unat cur'" "laid_out g limit es cur'"
  proof (cases "IS_FORWARDING_ADDR_OR_NIL e")
    case True
    then show ?thesis using Cons.prems(1) unat_step [of cur 4096] by (intro that [of "cur + HBLKSIZE"]) auto
  next
    case False
    then obtain hhdr where h: "blocks_of hhdr \<noteq> 0" "unat cur + unat (blocks_of hhdr) * 4096 < 2 ^ 64"
      "laid_out g limit es (cur + blocks_of hhdr * HBLKSIZE)" using Cons.prems(1) by (auto split: sum.splits)
    moreover have "0 < unat (blocks_of hhdr)" using h(1) by (simp add: unat_gt_0)
    ultimately show ?thesis using unat_step [of cur "unat (blocks_of hhdr) * 4096"] by (intro that [of "cur + blocks_of hhdr * HBLKSIZE"]) simp_all
  qed
  show ?case
  proof (cases es)
    case Nil
    then show ?thesis using Cons.prems(1) by (simp add: word_less_nat_alt)
  next
    case (Cons x xs)
    then show ?thesis using Cons.IH [OF c(2)] c(1) by simp
  qed
qed simp

text \<open>Two adjacent ranges are one.\<close>

lemma join_ranges:
  fixes p c d e :: u64
  assumes "c \<le> d" "d \<le> e"
  shows "p - c < e - c \<longleftrightarrow> p - c < d - c \<or> p - d < e - d"
  using assms by (simp add: word_less_nat_alt word_le_nat_alt unat_sub_if') (auto; linarith)


lemma protect_blocks_exact:
  assumes "vd_page_size v = 4096" "obliging kn" "laid_out (vd_gc v) limit es cur" "length es < n"
    and "unat cs mod 4096 = 0" "unat cur mod 4096 = 0" "cs \<le> cur" "(\<exists>e \<in> set es. IS_FORWARDING_ADDR_OR_NIL e) \<longrightarrow> cs = cur"
  shows "\<exists>r. protect_blocks n kn limit cs cur v = Inr (v\<lparr>vd_readonly := r\<rparr>) \<and>
    (\<forall>p. r p \<longleftrightarrow> vd_readonly v p \<or> p - cs < cur - cs \<or> with_pointers (vd_gc v) es cur p)"
  using assms
proof (induction es arbitrary: n cs cur v)
  case Nil
  then obtain m where "n = Suc m" by (cases n) auto
  moreover have "\<not> cur < limit" using Nil.prems(3) by simp
  ultimately show ?case using protect_run_exact [OF Nil.prems(1,2,5,6,7)] by simp
next
  case (Cons e es)
  obtain m where m: "n = Suc m" "length es < m" using Cons.prems(4) by (cases n) auto
  have cur: "cur < limit" "HDR cur (vd_gc v) = Inr e" using Cons.prems(3) by simp_all
  show ?case
  proof (cases "IS_FORWARDING_ADDR_OR_NIL e")
    case True
    then have cs: "cs = cur" and fits: "unat cur + 4096 < 2 ^ 64" and lay: "laid_out (vd_gc v) limit es (cur + HBLKSIZE)"
      using Cons.prems(3,8) by simp_all
    have "unat (cur + HBLKSIZE) mod 4096 = 0" using unat_step [of cur 4096] fits Cons.prems(6) by simp
    from Cons.IH [OF Cons.prems(1,2) lay m(2) this this] show ?thesis using True cs cur m(1) by simp
  next
    case False
    then obtain hhdr where h: "get_hdr e (vd_gc v) = Inr hhdr" "unat cur + unat (blocks_of hhdr) * 4096 < 2 ^ 64"
      "laid_out (vd_gc v) limit es (cur + blocks_of hhdr * HBLKSIZE)" "\<forall>x \<in> set es. \<not> IS_FORWARDING_ADDR_OR_NIL x"
      using Cons.prems(3) by (auto split: sum.splits)
    let ?b = "cur + blocks_of hhdr * HBLKSIZE"
    have b: "unat ?b = unat cur + unat (blocks_of hhdr) * 4096" using unat_step [of cur "unat (blocks_of hhdr) * 4096"] h(2) by simp
    have al: "unat ?b mod 4096 = 0" unfolding b using Cons.prems(6) by simp
    have le: "cur \<le> ?b" using b by (simp add: word_le_nat_alt)
    show ?thesis
    proof (cases "HBLK_IS_FREE hhdr \<or> IS_PTRFREE hhdr")
      case True
      from protect_run_exact [OF Cons.prems(1,2,5,6,7)] obtain r1 where
        r1: "protect_run kn cs cur v = Inr (v\<lparr>vd_readonly := r1\<rparr>)" "\<forall>p. r1 p \<longleftrightarrow> vd_readonly v p \<or> p - cs < cur - cs" by blast
      have "vd_page_size (v\<lparr>vd_readonly := r1\<rparr>) = 4096" "laid_out (vd_gc (v\<lparr>vd_readonly := r1\<rparr>)) limit es ?b" using Cons.prems(1) h(3) by simp_all
      from Cons.IH [OF this(1) Cons.prems(2) this(2) m(2) al al] show ?thesis
        using True False h(1) cur m(1) r1 by (auto simp: Let_def)
    next
      case no: False
      have "cs \<le> ?b" using Cons.prems(7) le by simp
      from Cons.IH [OF Cons.prems(1,2) h(3) m(2) Cons.prems(5) al this] obtain r where
        r: "protect_blocks m kn limit cs ?b v = Inr (v\<lparr>vd_readonly := r\<rparr>)"
          "\<forall>p. r p \<longleftrightarrow> vd_readonly v p \<or> p - cs < ?b - cs \<or> with_pointers (vd_gc v) es ?b p" using h(4) by blast
      have "p - cs < ?b - cs \<longleftrightarrow> p - cs < cur - cs \<or> p - cur < blocks_of hhdr * HBLKSIZE" for p
        using join_ranges [OF Cons.prems(7) le, of p] by simp
      then have "\<forall>p. r p \<longleftrightarrow> vd_readonly v p \<or> p - cs < cur - cs \<or> with_pointers (vd_gc v) (e # es) cur p"
        using r(2) no False h(1) by auto
      moreover have "protect_blocks n kn limit cs cur v = Inr (v\<lparr>vd_readonly := r\<rparr>)"
        using no False h(1) cur m(1) r(1) by (simp add: Let_def)
      ultimately show ?thesis by blast
    qed
  qed
qed

text \<open>All sections, each with its blocks.\<close>

definition section_layout :: "gc \<Rightarrow> u64 \<times> u64 \<Rightarrow> u64 list \<Rightarrow> bool" where
  "section_layout g sect es \<longleftrightarrow>
     (case sect of (start, len) \<Rightarrow> unat start mod 4096 = 0 \<and> unat len mod 4096 = 0 \<and> unat start + unat len < 2 ^ 64 \<and>
        laid_out g (start + len) es start)"

definition heap_layout :: "gc \<Rightarrow> u64 list list \<Rightarrow> bool" where
  "heap_layout g lay \<longleftrightarrow> list_all2 (section_layout g) (GC_heap_sects g) lay"

definition holds_pointers :: "gc \<Rightarrow> u64 list list \<Rightarrow> u64 \<Rightarrow> bool" where
  "holds_pointers g lay p \<longleftrightarrow> (\<exists>(sect, es) \<in> set (zip (GC_heap_sects g) lay). with_pointers g es (fst sect) p)"

lemma protect_section_exact:
  assumes "vd_page_size v = 4096" "obliging kn" "section_layout (vd_gc v) sect es"
  shows "\<exists>r. protect_section kn False sect v = Inr (v\<lparr>vd_readonly := r\<rparr>) \<and>
    (\<forall>p. r p \<longleftrightarrow> vd_readonly v p \<or> with_pointers (vd_gc v) es (fst sect) p)"
proof -
  obtain start len where s: "sect = (start, len)" by (cases sect)
  then have l: "unat start mod 4096 = 0" "unat len mod 4096 = 0" "unat start + unat len < 2 ^ 64" "laid_out (vd_gc v) (start + len) es start"
    using assms(3) by (simp_all add: section_layout_def)
  have "length es < unat (divHBLKSZ len) + 1"
  proof (cases "es = []")
    case False
    have "unat (start + len) = unat start + unat len" using unat_step [of start "unat len"] l(3) by simp
    then have "4096 * (length es - 1) < unat len" using laid_out_length [OF l(4) False] by simp
    then have "length es - 1 < unat len div 4096" using l(2) by (metis mult.commute mult_div_mod_eq add.right_neutral nat_mult_less_cancel_disj)
    then show ?thesis by (simp add: divHBLKSZ_def drop_bit_eq_div unat_div)
  qed simp
  from protect_blocks_exact [OF assms(1,2) l(4) this l(1,1)] show ?thesis using s by (simp add: protect_section_def)
qed

lemma protect_sections_exact:
  assumes "vd_page_size v = 4096" "obliging kn" "list_all2 (section_layout (vd_gc v)) sects lay"
  shows "\<exists>r. for_sections (protect_section kn False) sects v = Inr (v\<lparr>vd_readonly := r\<rparr>) \<and>
    (\<forall>p. r p \<longleftrightarrow> vd_readonly v p \<or> (\<exists>(sect, es) \<in> set (zip sects lay). with_pointers (vd_gc v) es (fst sect) p))"
  using assms
proof (induction sects arbitrary: v lay)
  case Nil
  then show ?case by (intro exI [of _ "vd_readonly v"]) simp
next
  case (Cons sect sects)
  then obtain es lay' where lay: "lay = es # lay'" "section_layout (vd_gc v) sect es" "list_all2 (section_layout (vd_gc v)) sects lay'"
    by (auto simp: list_all2_Cons1)
  from protect_section_exact [OF Cons.prems(1,2) lay(2)] obtain r1 where
    r1: "protect_section kn False sect v = Inr (v\<lparr>vd_readonly := r1\<rparr>)" "\<forall>p. r1 p \<longleftrightarrow> vd_readonly v p \<or> with_pointers (vd_gc v) es (fst sect) p" by blast
  have "vd_page_size (v\<lparr>vd_readonly := r1\<rparr>) = 4096" "list_all2 (section_layout (vd_gc (v\<lparr>vd_readonly := r1\<rparr>))) sects lay'"
    using Cons.prems(1) lay(3) by simp_all
  from Cons.IH [OF this(1) Cons.prems(2) this(2)] r1 lay(1) show ?case by auto
qed


lemma pages_of_blocks:
  "\<not> GC_GWW_AVAILABLE v \<Longrightarrow> vd_page_size v = 4096 \<Longrightarrow>
    GC_protect_heap kn v = for_sections (protect_section kn False) (GC_heap_sects (vd_gc v)) v"
  by (simp add: GC_protect_heap_def GC_incremental_protection_needs_def GC_PROTECTS_POINTER_HEAP_def GC_PROTECTS_PTRFREE_HEAP_def)

lemma heap_protected:
  assumes "tracking 12 v" "obliging kn" "heap_layout (vd_gc v) lay"
  shows "\<exists>v'. read_dirty_bits kn False v = Inr v' \<and> GC_grungy_pages v' = GC_dirty_pages v \<and>
    GC_dirty_pages v' = replicate 4096 0 \<and> (\<forall>p. vd_readonly v' p \<longleftrightarrow> vd_readonly v p \<or> holds_pointers (vd_gc v) lay p)"
proof -
  let ?v = "v\<lparr>GC_grungy_pages := GC_dirty_pages v, GC_dirty_pages := replicate 4096 0\<rparr>"
  have t: "\<not> GC_GWW_AVAILABLE v" "\<not> vd_manual v" "vd_page_size v = 4096" "length (GC_dirty_pages v) = 4096"
    using assms(1) by (simp_all add: tracking_def GC_auto_incremental_def ready_def)
  have "vd_page_size ?v = 4096" "list_all2 (section_layout (vd_gc ?v)) (GC_heap_sects (vd_gc v)) lay" "\<not> GC_GWW_AVAILABLE ?v"
    using t assms(3) by (simp_all add: heap_layout_def GC_GWW_AVAILABLE_def)
  from protect_sections_exact [OF this(1) assms(2) this(2)] pages_of_blocks [OF this(3,1), of kn] show ?thesis
    using t by (auto simp: read_dirty_bits_def holds_pointers_def Let_def)
qed

lemma protect_run_shape: "protect_run kn cs cur v = Inr v' \<Longrightarrow> \<exists>r. v' = v\<lparr>vd_readonly := r\<rparr>"
proof -
  assume "protect_run kn cs cur v = Inr v'"
  then have "v' = v\<lparr>vd_readonly := access_after v cs (cur - cs) False\<rparr> \<or> v' = v\<lparr>vd_readonly := vd_readonly v\<rparr>"
    by (auto simp: protect_run_def PROTECT_def PROTECT_INNER_def split: if_splits)
  then show ?thesis by blast
qed

lemma protect_blocks_shape: "protect_blocks n kn limit cs cur v = Inr v' \<Longrightarrow> \<exists>r. v' = v\<lparr>vd_readonly := r\<rparr>"
proof (induction n arbitrary: cs cur v)
  case (Suc n)
  show ?case
  proof (cases "cur < limit")
    case True
    then show ?thesis using Suc by (fastforce simp: andThen_eq_Inr Let_def split: if_splits dest: protect_run_shape)
  next
    case False
    then show ?thesis using Suc.prems by (auto dest: protect_run_shape)
  qed
qed simp

lemma protect_heap_shape:
  assumes "\<not> GC_GWW_AVAILABLE v" "vd_page_size v = 4096" "GC_protect_heap kn v = Inr v'"
  shows "\<exists>r. v' = v\<lparr>vd_readonly := r\<rparr>"
proof -
  have "\<exists>r. v' = v\<lparr>vd_readonly := r\<rparr>" if "for_sections (protect_section kn False) sects v = Inr v'" for sects v
    using that
  proof (induction sects arbitrary: v)
    case Nil
    then show ?case by (intro exI [of _ "vd_readonly v"]) simp
  next
    case (Cons sect sects)
    then obtain v1 where v1: "protect_section kn False sect v = Inr v1" "for_sections (protect_section kn False) sects v1 = Inr v'"
      by (auto simp: andThen_eq_Inr)
    obtain start len where "sect = (start, len)" by (cases sect)
    with v1(1) obtain r where "v1 = v\<lparr>vd_readonly := r\<rparr>"
      by (auto simp: protect_section_def simp del: protect_blocks.simps dest: protect_blocks_shape)
    with Cons.IH [OF v1(2)] show ?case by auto
  qed
  with assms(3) pages_of_blocks [OF assms(1,2)] show ?thesis by metis
qed

lemma reading_keeps:
  assumes "tracking 12 v" "read_dirty_bits kn False v = Inr v'"
  shows "tracking 12 v' \<and> GC_grungy_pages v' = GC_dirty_pages v \<and> vd_gc v' = vd_gc v \<and> vd_segv v' = vd_segv v"
proof -
  let ?v = "v\<lparr>GC_grungy_pages := GC_dirty_pages v, GC_dirty_pages := replicate 4096 0\<rparr>"
  have t: "\<not> GC_GWW_AVAILABLE v" "\<not> vd_manual v" "vd_page_size v = 4096" "length (GC_dirty_pages v) = 4096"
    using assms(1) by (simp_all add: tracking_def GC_auto_incremental_def ready_def)
  then have "GC_protect_heap kn ?v = Inr v'" using assms(2) by (simp add: read_dirty_bits_def Let_def)
  moreover have "\<not> GC_GWW_AVAILABLE ?v" "vd_page_size ?v = 4096" using t by (simp_all add: GC_GWW_AVAILABLE_def)
  ultimately obtain r where "v' = ?v\<lparr>vd_readonly := r\<rparr>" using protect_heap_shape by blast
  then show ?thesis using assms(1) by (simp add: tracking_def ready_def GC_auto_incremental_def GC_GWW_AVAILABLE_def)
qed

text \<open>C38: With pages of the size of a block, reading the dirty bits moves them to the table of written
  pages, clears them, and makes read-only exactly the blocks in use with pointers, on top of what was
  read-only. The layout \<open>lay\<close> lists the headers of the blocks of each section of the heap.\<close>

theorem reading_protects_pointer_blocks:
  assumes "tracking 12 v" "obliging kn" "heap_layout (vd_gc v) lay"
  shows "\<exists>v'. read_dirty_bits kn False v = Inr v' \<and> GC_grungy_pages v' = GC_dirty_pages v \<and>
    GC_dirty_pages v' = replicate 4096 0 \<and> (\<forall>p. vd_readonly v' p \<longleftrightarrow> vd_readonly v p \<or> holds_pointers (vd_gc v) lay p)"
  using heap_protected [OF assms] .






section \<open>A fork\<close>

lemma detect_keeps:
  "detect_rounds n kn vaddr byte v = Inr (ok, v') \<Longrightarrow> vd_segv v' = vd_segv v \<and> clear_refs_fd v' = clear_refs_fd v"
proof (induction n arbitrary: byte v)
  case (Suc n)
  then show ?case
    by (fastforce simp: Let_def andThen_eq_Inr clear_soft_dirty_bits_def touch_page_def split: if_splits)
qed simp

lemma open_files_keep: "soft_dirty_open_files kn v = (ok, v') \<Longrightarrow> vd_segv v' = vd_segv v \<and> (\<not> ok \<longrightarrow> clear_refs_fd v' = - 1)"
  by (auto simp: soft_dirty_open_files_def open_proc_fd_def vd_warn_def Let_def split: if_splits)

lemma soft_init_keeps:
  assumes "soft_dirty_init kn v = Inr (ok, v')"
  shows "vd_segv v' = vd_segv v \<and> (\<not> ok \<longrightarrow> clear_refs_fd v' = clear_refs_fd v \<or> clear_refs_fd v' = - 1)"
proof -
  have ver: "vd_segv v1 = vd_segv v \<and> clear_refs_fd v1 = clear_refs_fd v" if "ensure_min_linux_ver kn 3 18 v = (b, v1)" for b v1
    using that by (auto simp: ensure_min_linux_ver_def vd_warn_def split: option.splits if_splits prod.splits)
  show ?thesis
    using assms
    by (auto simp: soft_dirty_init_def detect_soft_dirty_supported_def touch_page_def andThen_eq_Inr
        split: if_splits prod.splits bool.splits dest!: ver open_files_keep detect_keeps)
qed

text \<open>Dirty bits that come from the kernel need no fault handler, and none is installed.\<close>

lemma soft_bits_install_no_handler:
  assumes "GC_dirty_init kn v = Inr (True, v')" "clear_refs_fd v = - 1" "GC_GWW_AVAILABLE v'"
  shows "vd_segv v' = vd_segv v"
proof -
  obtain soft v1 where v1: "soft_dirty_init kn v = Inr (soft, v1)" and
    rest: "if soft then v1 = v' else install_fault_handler kn v1 = Inr v'"
    using assms(1) by (auto simp: GC_dirty_init_def andThen_eq_Inr split: if_splits)
  have keep: "install_fault_handler kn v1 = Inr v' \<Longrightarrow> clear_refs_fd v' = clear_refs_fd v1"
    by (auto simp: install_fault_handler_def vd_warn_def Let_def split: if_splits)
  from soft_init_keeps [OF v1] rest keep assms(2,3) show ?thesis
    by (cases soft) (auto simp: GC_GWW_AVAILABLE_def)
qed

text \<open>After a failed attempt to open the files the descriptors are marked as closed.\<close>

lemma reopen_fails:
  assumes "kn_open kn ''clear_refs'' = - 1 \<or> kn_open kn ''pagemap'' = - 1"
  shows "\<exists>v0. soft_dirty_open_files kn v = (False, v0) \<and> clear_refs_fd v0 = - 1 \<and> vd_gc v0 = vd_gc v \<and> vd_segv v0 = vd_segv v \<and>
    vd_manual v0 = vd_manual v \<and> vd_page_size v0 = vd_page_size v \<and> GC_dirty_pages v0 = GC_dirty_pages v"
  using assms by (auto simp: soft_dirty_open_files_def open_proc_fd_def vd_warn_def Let_def)

text \<open>C40: When soft-dirty bits are in use no fault handler is installed (\<open>soft_bits_install_no_handler\<close>). If the files of \<open>/proc\<close> cannot be
  opened again in the child of a fork, the descriptor is marked as closed, so that the next reading of
  the dirty bits takes the heap for one that is write-protected, and makes all blocks with pointers
  read-only. The next write to any of them kills the process.\<close>

theorem failed_reopen_makes_writes_fatal:
  assumes "GC_GWW_AVAILABLE v" "vd_pid v \<noteq> saved_proc_pid v" "kn_open kn ''clear_refs'' = - 1 \<or> kn_open kn ''pagemap'' = - 1"
    and "tracking 12 (v\<lparr>clear_refs_fd := - 1\<rparr>)" "obliging kn" "heap_layout (vd_gc v) lay" "vd_segv v = SIG_DFL"
  shows "\<exists>v1 v2. read_dirty_bits kn False v = Inr v1 \<and> read_dirty_bits kn False v1 = Inr v2 \<and>
    (\<forall>a. holds_pointers (vd_gc v) lay a \<longrightarrow> write_word (Suc n) kn others a w v2 = Inl (Panic ''Segmentation fault''))"
proof -
  have manual: "\<not> vd_manual v" using assms(4) by (simp add: tracking_def GC_auto_incremental_def)
  obtain v0 where open_files: "soft_dirty_open_files kn v = (False, v0)" and v0: "clear_refs_fd v0 = - 1"
      "vd_gc v0 = vd_gc v" "vd_segv v0 = vd_segv v" "vd_manual v0 = vd_manual v" "vd_page_size v0 = vd_page_size v"
      "GC_dirty_pages v0 = GC_dirty_pages v"
    using reopen_fails [OF assms(3)] by blast
  let ?v1 = "set_all_grungy v0"
  have "read_dirty_bits kn False v = GC_soft_read_dirty kn False v" using assms(1) manual by (simp add: read_dirty_bits_def)
  also have "\<dots> = Inr ?v1" using assms(1,2) open_files by (simp add: GC_soft_read_dirty_def GC_GWW_AVAILABLE_def)
  finally have first: "read_dirty_bits kn False v = Inr ?v1" .
  have "tracking 12 ?v1" using assms(4) v0 by (simp add: tracking_def ready_def GC_auto_incremental_def GC_GWW_AVAILABLE_def set_all_grungy_def)
  from heap_protected [OF this assms(5), of lay] obtain v2 where v2: "read_dirty_bits kn False ?v1 = Inr v2"
      "\<And>p. vd_readonly v2 p \<longleftrightarrow> vd_readonly ?v1 p \<or> holds_pointers (vd_gc v) lay p"
    using assms(6) v0(2) by (auto simp: set_all_grungy_def)
  moreover have "vd_segv v2 = SIG_DFL"
    using reading_keeps [OF \<open>tracking 12 ?v1\<close> v2(1)] v0(3) assms(7) by (simp add: set_all_grungy_def)
  ultimately show ?thesis using first by (intro exI [of _ ?v1] exI [of _ v2]) (simp add: raise_segv_def)
qed

section \<open>One page\<close>

definition plain_kernel :: kernel where
  "plain_kernel =
     \<lparr>kn_getenv = (\<lambda>_. None), kn_uname = Some (''Linux'', ''5.10''), kn_open = (\<lambda>_. 3), kn_cloexec = (\<lambda>_. True),
      kn_lseek = (\<lambda>_. True), kn_read = (\<lambda>_ count. int count), kn_clear_refs = True, kn_sets_bit = (\<lambda>_. True), kn_pte = (\<lambda>_. 0),
      kn_mprotect = (\<lambda>_ _ _. True), kn_sigaction = True, kn_recycle = (\<lambda>_ _. Inr)\<rparr>"

definition no_handlers :: "sig_handler \<Rightarrow> u64 \<Rightarrow> vdb \<Rightarrow> vdb res" where
  "no_handlers h a v = Inr v"

definition one_page :: vdb where
  "one_page =
     \<lparr>vd_gc = (mk_gc two_objects)\<lparr>GC_heap_sects := [(0x10000, 4096)], GC_incremental := True\<rparr>, vd_roots = [], vd_page_size = 4096,
      vd_manual = False, vd_pid = 1, vd_warnings = [], GC_dirty_pages = replicate 4096 0, GC_grungy_pages = replicate 4096 0,
      clear_refs_fd = - 1, pagemap_fd = - 1, saved_proc_pid = 1, soft_vdb_buf = [], soft_vdb_addr = 0, pagemap_buf_fpos = 0,
      pagemap_buf_len = 0, pagemap_pos = 0, soft_dirty = (\<lambda>_. False), refs_cleared = False, vd_readonly = (\<lambda>_. False),
      vd_segv = Write_fault_handler, vd_bus = Write_fault_handler, GC_old_segv_handler = SIG_DFL, GC_old_bus_handler = SIG_DFL\<rparr>"

lemma one_page_facts:
  "tracking 12 one_page" "obliging plain_kernel" "harmless no_handlers" "\<And>p. \<not> vd_readonly one_page p"
  "vd_segv one_page = Write_fault_handler"
proof -
  show "harmless no_handlers" unfolding harmless_def no_handlers_def
  proof (intro allI impI)
    fix v v' :: vdb assume "(Inr v :: vdb res) = Inr v'"
    then have "v' = v\<lparr>vd_gc := vd_gc v\<rparr> \<and> GC_incremental (vd_gc v) = GC_incremental (vd_gc v)" by simp
    then show "\<exists>g. v' = v\<lparr>vd_gc := g\<rparr> \<and> GC_incremental g = GC_incremental (vd_gc v)" ..
  qed
qed (simp_all add: tracking_def ready_def one_page_def GC_auto_incremental_def GC_GWW_AVAILABLE_def obliging_def plain_kernel_def)

lemma one_page_heap:
  assumes "bottom_indices g = bottom_indices (vd_gc one_page)" "GC_top_index g = GC_top_index (vd_gc one_page)"
    "gc_hdrs g = gc_hdrs (vd_gc one_page)" "GC_heap_sects g = [(0x10000, 4096)]"
  shows "heap_layout g [[4096]]" "holds_pointers g [[4096]] 0x10010" "HDR 0x10000 g = Inr 4096" "HDR 0x10010 g = Inr 4096"
    "get_hdr 4096 g = Inr block_header"
proof -
  have "HDR p g = HDR p (mk_gc two_objects)" for p using assms(1,2) by (intro HDR_cong) (simp_all add: one_page_def)
  then show h: "HDR 0x10000 g = Inr 4096" "HDR 0x10010 g = Inr 4096"
    using two_objects_entry [of "0x10000"] two_objects_entry [of "0x10010"] HDR_total [OF two_objects_index, of "0x10000"]
      HDR_total [OF two_objects_index, of "0x10010"] by (auto simp: entry_of_def)
  have "get_hdr 4096 (mk_gc two_objects) = Inr block_header" by (rule get_hdr_in_use) (simp add: two_objects_in_use)
  then show b: "get_hdr 4096 g = Inr block_header" using assms(3) by (simp add: get_hdr_def one_page_def)
  have "blocks_of block_header = 1" "\<not> HBLK_IS_FREE block_header" "\<not> IS_PTRFREE block_header" "\<not> IS_FORWARDING_ADDR_OR_NIL 4096"
    by (simp_all add: two_objects_header blocks_of_def HBLK_IS_FREE_def FREE_BLK_def zero_hdr_def IS_PTRFREE_def OBJ_SZ_TO_BLOCKS_def
        divHBLKSZ_def drop_bit_eq_div IS_FORWARDING_ADDR_OR_NIL_def)
  then show "heap_layout g [[4096]]" "holds_pointers g [[4096]] 0x10010"
    using h b assms(4) by (simp_all add: heap_layout_def section_layout_def holds_pointers_def)
qed

theorem reading_protects_pointer_blocks_witness:
  "\<exists>v'. read_dirty_bits plain_kernel False one_page = Inr v' \<and> vd_readonly v' 0x10010"
proof -
  have "heap_layout (vd_gc one_page) [[4096]]" "holds_pointers (vd_gc one_page) [[4096]] 0x10010"
    by (rule one_page_heap; simp add: one_page_def)+
  with reading_protects_pointer_blocks [OF one_page_facts(1,2)] show ?thesis by blast
qed


theorem failed_reopen_makes_writes_fatal_witness:
  "\<exists>v1 v2. read_dirty_bits (plain_kernel\<lparr>kn_open := \<lambda>_. - 1\<rparr>) False (one_page\<lparr>clear_refs_fd := 5, vd_pid := 2, vd_segv := SIG_DFL\<rparr>) = Inr v1 \<and>
     read_dirty_bits (plain_kernel\<lparr>kn_open := \<lambda>_. - 1\<rparr>) False v1 = Inr v2 \<and>
     write_word 2 (plain_kernel\<lparr>kn_open := \<lambda>_. - 1\<rparr>) no_handlers 0x10010 7 v2 = Inl (Panic ''Segmentation fault'')"
proof -
  let ?kn = "plain_kernel\<lparr>kn_open := \<lambda>_. - 1\<rparr>" and ?v = "one_page\<lparr>clear_refs_fd := 5, vd_pid := 2, vd_segv := SIG_DFL\<rparr>"
  have heap: "heap_layout (vd_gc ?v) [[4096]]" "holds_pointers (vd_gc ?v) [[4096]] 0x10010"
    by (rule one_page_heap; simp add: one_page_def)+
  have t: "tracking 12 (?v\<lparr>clear_refs_fd := - 1\<rparr>)" "obliging ?kn"
    using one_page_facts(1,2) by (simp_all add: tracking_def ready_def GC_auto_incremental_def GC_GWW_AVAILABLE_def obliging_def)
  have soft: "GC_GWW_AVAILABLE ?v" "vd_pid ?v \<noteq> saved_proc_pid ?v" "kn_open ?kn ''clear_refs'' = - 1 \<or> kn_open ?kn ''pagemap'' = - 1"
    "vd_segv ?v = SIG_DFL" by (simp_all add: GC_GWW_AVAILABLE_def one_page_def)
  from failed_reopen_makes_writes_fatal [OF soft(1-3) t heap(1) soft(4), of 1 no_handlers 7] heap(2) show ?thesis
    unfolding numeral_2_eq_2 One_nat_def by blast
qed

end
