(* ===== verification/Spec2Isabelle.thy ===== *)
theory Spec2Isabelle
  imports Atomix_Program Atomix_Fuel Atomix_Call_Laws Atomix_Module_Laws Atomix_Store_Laws Atomix_Array_Laws
    Atomix_Loader_Laws Atomix_GC_Mark_Laws Atomix_GC_Free_Laws Atomix_GC_Tricolor Atomix_GC_Root_Laws
    Atomix_GC_Weak_Laws Atomix_GC_Mallocx_Laws Atomix_GC_Typed_Laws Atomix_GC_Check_Laws
    Atomix_GC_Debug_Laws Atomix_GC_Limit Atomix_GC_Dirty_Laws Atomix_Demo
begin

text \<open>
  A verification development for AtomixJS: the virtual machine that runs JavaScript compiled to
  bytecode (\<open>src/atomix/core\<close>, \<open>src/atomix/modules/core\<close>, \<open>src/atomix/debug\<close>, \<open>src/atomix/release\<close>) and
  the parts of its garbage collector that are plain C on tables and bits (\<open>src/atomix/bdwgc\<close>).

  \<^bold>\<open>The program.\<close> A program loads a bytecode file or an embedded bundle (\<open>loader.c\<close>) into modules
  (\<open>format.c\<close>), registers the native modules (\<open>core.c\<close>, \<open>api.c\<close>) and runs the entry module in the
  interpreter (\<open>execution.c\<close>), whose instructions work on an operand stack of values (\<open>value.c\<close>), on
  scopes (\<open>scope.c\<close>) and objects (\<open>object.c\<close>, \<open>function.c\<close>, \<open>symbol.c\<close>); both store their bindings in
  hash tables (\<open>dict.c\<close>). All memory comes from the collector.

  \<^bold>\<open>The machine.\<close> One theory for each source file, in the order of the calls:
  \<^item> \<open>Atomix_Prelude\<close>: the result type (\<open>Panic\<close> for \<open>PANIC\<close>, \<open>Fault\<close> for each kind of undefined
    behaviour, \<open>Diverge\<close> for a run out of fuel), sequencing, indexing, shared list lemmas;
  \<^item> \<open>Atomix_Double\<close>, \<open>Atomix_Value\<close>: binary64 arithmetic on bit patterns, the tagged union;
  \<^item> \<open>Atomix_Dict\<close>, \<open>Atomix_Scope\<close>, \<open>Atomix_Object\<close>, \<open>Atomix_Function\<close>: tables, scopes, objects, over
    the blocks of \<open>Atomix_Heap\<close>; a pointer is an index into the list of blocks of its type, and
    \<open>Atomix_Links\<close> gives the exact counters for recursion along parents and prototypes;
  \<^item> \<open>Atomix_Format\<close>, \<open>Atomix_Loader\<close>: string tables, modules, bundles, and how bytes become them;
  \<^item> \<open>Atomix_Machine\<close>, \<open>Atomix_Arith\<close>, \<open>Atomix_Exec\<close>, \<open>Atomix_Core\<close>, \<open>Atomix_Engine\<close>: the stack, the
    operators, the other instructions, the native functions, and the interpreter that ties them
    together with the two programs \<open>debug_main\<close> and \<open>release_main\<close>.

  \<^bold>\<open>What is shown of the machine.\<close> Pointer safety of whole runs for any bytecode, up to one null
  pointer in the loader (\<open>Atomix_Invariant\<close>,
  \<open>Atomix_Safety\<close>, \<open>Atomix_Program\<close>; the contract between instructions and interpreter is the locale
  \<open>engine_contract\<close>); independence of the fuel (\<open>Atomix_Fuel\<close>); refinement of the stack instructions
  and of function bodies by an abstract stack machine (\<open>Atomix_Stack_Laws\<close>, \<open>Atomix_Abstract\<close>);
  the calling convention (\<open>Atomix_Call_Laws\<close>); operators (\<open>Atomix_Arith_Laws\<close>, \<open>Atomix_Value_Laws\<close>);
  tables, scopes and objects as maps (\<open>Atomix_Store_Laws\<close>, \<open>Atomix_Array_Laws\<close>); modules and the
  search for them (\<open>Atomix_Module_Laws\<close>); round trips of the file formats (\<open>Atomix_Codec_Laws\<close>,
  \<open>Atomix_Loader_Laws\<close>). \<open>Atomix_Demo\<close> holds the small machines of the witnesses.

  \<^bold>\<open>The collector.\<close> \<open>Atomix_GC_State\<close> is the state its parts share: addresses are 64-bit words, memory
  a function from them, and the structs the collector allocates for itself are in lists.
  \<^item> \<open>Atomix_GC_Headers\<close>: the map from blocks to headers (\<open>headers.c\<close>, \<open>gc_hdrs.h\<close>);
  \<^item> \<open>Atomix_GC_Blacklist\<close>: black lists (\<open>blacklst.c\<close>);
  \<^item> \<open>Atomix_GC_Marks\<close>: mark bits and object maps (\<open>mark.c\<close>, \<open>obj_map.c\<close>);
  \<^item> \<open>Atomix_GC_Alloc\<close>: the allocator of blocks (\<open>allchblk.c\<close>, part of \<open>alloc.c\<close>);
  \<^item> \<open>Atomix_GC_Sweep\<close>: free lists and sweeping (\<open>new_hblk.c\<close>, \<open>reclaim.c\<close>);
  \<^item> \<open>Atomix_GC_Mark\<close>: the marker (\<open>mark.c\<close>, \<open>gc_pmark.h\<close>);
  \<^item> \<open>Atomix_GC_Push\<close>: what is pushed on its stack (the rest of \<open>mark.c\<close>, \<open>GC_base\<close> of \<open>misc.c\<close>);
  \<^item> \<open>Atomix_GC_Roots\<close>: root sets and excluded ranges (\<open>mark_rts.c\<close>);
  \<^item> \<open>Atomix_GC_Runtime\<close>, \<open>Atomix_GC_Cycle\<close>: the state of the whole collector, the collection cycle
    and the growth of the heap (\<open>GC_mark_some\<close> of \<open>mark.c\<close>, the rest of \<open>alloc.c\<close>);
  \<^item> \<open>Atomix_GC_Malloc\<close>: size classes, allocation and freeing of objects (\<open>malloc.c\<close>, \<open>misc.c\<close>);
  \<^item> \<open>Atomix_GC_Mallocx\<close>: reallocation, aligned objects, lists of objects (\<open>mallocx.c\<close>);
  \<^item> \<open>Atomix_GC_Finalize\<close>, \<open>Atomix_GC_Finalizers\<close>: disappearing links, toggle references and
    finalizers, in a collection and for clients (\<open>finalize.c\<close>);
  \<^item> \<open>Atomix_GC_Typed\<close>: objects with a description of their pointers (\<open>typd_mlc.c\<close>, \<open>gc_mark.h\<close>);
  \<^item> \<open>Atomix_GC_Check\<close>: the checks of pointers for debugging (\<open>ptr_chck.c\<close>);
  \<^item> \<open>Atomix_GC_Debug\<close>: allocation with debugging information (\<open>dbg_mlc.c\<close>);
  \<^item> \<open>Atomix_GC_Client\<close>: the state of the process around the collector, settings from the environment
    and \<open>GC_init\<close> (\<open>misc.c\<close>);
  \<^item> \<open>Atomix_GC_Calls\<close>: the other calls of a client: collections with finalizers around them, growth of
    the heap, statistics and settings (\<open>misc.c\<close>, \<open>alloc.c\<close>, \<open>reclaim.c\<close>);
  \<^item> \<open>Atomix_GC_Soft\<close>, \<open>Atomix_GC_Dirty\<close>: which pages were written, from the soft-dirty bits of the
    kernel or by write protection (\<open>os_dep.c\<close>). The collection cycle takes what they find as the list
    \<open>dirty_answers\<close>; the kernel is the record \<open>kernel\<close> of its answers.

  \<^bold>\<open>What is shown of the collector.\<close> Sweeping frees exactly the unmarked objects and the unrolled
  loops agree with the general one (\<open>Atomix_GC_Sweep_Laws\<close>); the lists of free blocks are abstract
  lists (\<open>Atomix_GC_Free_Laws\<close>); black lists find the first listed block (\<open>Atomix_GC_Mark_Laws\<close>);
  marking ends, marks what is reachable and nothing else unless the mark stack overflows
  (\<open>Atomix_GC_Trace_Laws\<close>, \<open>Atomix_GC_Tricolor\<close>); the tables of roots implement sets of addresses,
  and what is pushed is what is not excluded (\<open>Atomix_GC_Root_Laws\<close>); pushing the written pages of a
  range leaves none out (\<open>Atomix_GC_Select_Laws\<close>); no write is lost between two readings of the dirty
  bits, by rule induction over what the program does in between (\<open>Atomix_GC_Dirty_Laws\<close>); the mark phase of a collection
  ends with everything the roots lead to marked, or restarts after an overflow
  (\<open>Atomix_GC_Cycle_Laws\<close>); size classes are large enough, and a freed object is allocated again
  (\<open>Atomix_GC_Malloc_Laws\<close>); reallocation keeps the contents (\<open>Atomix_GC_Mallocx_Laws\<close>);
  a hash table of disappearing links is a set of links with their objects, which registering, moving
  and removing change as they should (\<open>Atomix_GC_Table_Laws\<close>), and after marking exactly the links to
  unmarked objects are cleared (\<open>Atomix_GC_Weak_Laws\<close>); typed descriptors mean to the marker what the
  bit maps of the client say (\<open>Atomix_GC_Typed_Laws\<close>); what the checks of pointers accept
  (\<open>Atomix_GC_Check_Laws\<close>); which writes the debugging information detects (\<open>Atomix_GC_Debug_Laws\<close>);
  how the collector starts, sizes in the environment are read as they are written (\<open>Atomix_GC_Client_Laws\<close>),
  the limit on the heap is kept and calls that disable the collector nest (\<open>Atomix_GC_Limit\<close>).

  \<^bold>\<open>Fuel and bounds.\<close> \<open>machine n\<close> is the interpreter with fuel \<open>n\<close>, one unit for each nested call and
  each round of a loop; more fuel never changes another result. The search of a bundle has 64
  rounds, after which it can only repeat a state (\<open>Atomix_Format\<close>). Walks along parents and
  prototypes have one round more than there are blocks, which is exact. In the collector a loop
  over a block has one round for each granule or word and one more (at most 1025), a call of
  \<open>GC_mark_from\<close> at most 514 rounds, which is proved to suffice, as are the 65 rounds of the search for
  an excluded range and the \<open>MAX_EXCLUSIONS + 2\<close> ranges of a root set; walks over lists of headers
  have one round for each header and one more.

  \<^bold>\<open>Not modelled.\<close> What is outside C semantics: the operating system, threads, signals, the reading of
  registers and of the stack pointer, dynamic libraries; these are arguments where modelled code uses
  them. Signals are modelled as far as the fault handler of the collector needs them. Log output and counters that only feed it, unmapping of memory, callbacks for events, and the back
  pointers of debugging allocation. The allocator is
  taken to succeed by the machine. The compiler (\<open>atomixc\<close>, TypeScript) and the tests (\<open>tests\<close>,
  JavaScript) are other programs.
\<close>

section \<open>The programs\<close>

text \<open>C1: Pointer safety of the release binary, for every bytecode buffer, however malformed, and
  every amount of fuel. There is one null pointer it dereferences: the one the loader writes the strings
  of a table through whose declared length is too short for its offsets; a run dereferences null exactly
  when loading its buffer does. It never dereferences a pointer to no block, never computes with a
  register or stack slot that was not written (the copies \<open>vm_exec_module\<close> makes of the registers that
  \<open>vm_init\<close> leaves unset are only put back), and never reads an instruction through the struct of another format.
  What remains possible is a result, a panic, or one of the faults the code has no check for (an index
  outside a buffer or the stack, and the undefined cases of arithmetic).\<close>

theorem release_main_pointer_safe:
  "(release_main (machine n) [core_init] bytecode = Inl (Fault Null_Deref) \<longleftrightarrow>
      unknown_load_from_buffer bytecode 0 0 initial_heap = Inl (Fault Null_Deref)) \<and>
   release_main (machine n) [core_init] bytecode \<notin> {Inl (Fault Dangling), Inl (Fault Uninitialised), Inl (Fault Wrong_Cast)}"
  unfolding release_main_def by (rule run_after_load [OF unknown_load_ok [OF initial_heap_ok]])

text \<open>C2: The same for the debug binary, for every file system and every command line: it dereferences
  null exactly when it is given a file whose loading does, and makes none of the other memory errors.\<close>

theorem debug_main_pointer_safe:
  "(debug_main (machine n) [core_init] files argv = Inl (Fault Null_Deref) \<longleftrightarrow>
      2 \<le> length argv \<and> unknown_load_from_file files (argv ! 1) 0 0 initial_heap = Inl (Fault Null_Deref)) \<and>
   debug_main (machine n) [core_init] files argv \<notin> {Inl (Fault Dangling), Inl (Fault Uninitialised), Inl (Fault Wrong_Cast)}"
  using run_after_load [OF file_load_ok [of files "argv ! 1"], of n] by (auto simp: debug_main_def)

text \<open>C3: Every instruction preserves the invariant of the machine: from a well-formed machine
  with a current scope, \<open>vm_exec\<close> ends in such a machine or without a memory error.\<close>

theorem vm_exec_preserves:
  assumes "wf_vm vm" "vm_scope vm \<noteq> None"
  shows "case vm_exec (machine n) vm of
      Inl e \<Rightarrow> e \<notin> {Fault Null_Deref, Fault Dangling, Fault Uninitialised, Fault Wrong_Cast}
    | Inr vm' \<Rightarrow> wf_vm vm' \<and> vm_scope vm' \<noteq> None"
  using machine.vm_exec_ok [of vm n] assms
  by (auto simp: safe_def vm_step_def running_def memory_error_def split: sum.splits)

lemma vm_exec_preserves_witness:
  "\<exists>vm'. vm_exec (machine 0) (demo_vm [Some (InstInt32 OP_LD_INT 7)] []) = Inr vm' \<and> wf_vm vm'"
proof -
  let ?vm = "demo_vm [Some (InstInt32 OP_LD_INT 7)] []"
  have "wf_vm ?vm" by (rule demo_wf) (simp_all add: wf_inst_def)
  then have "case vm_exec (machine 0) ?vm of
      Inl e \<Rightarrow> e \<notin> {Fault Null_Deref, Fault Dangling, Fault Uninitialised, Fault Wrong_Cast}
    | Inr vm' \<Rightarrow> wf_vm vm' \<and> vm_scope vm' \<noteq> None" by (rule vm_exec_preserves) simp
  moreover have "\<exists>vm'. vm_exec (machine 0) ?vm = Inr vm'"
    by (simp add: vm_exec_def current_module_def demo_heap_def zero_module_def array_at_def OPCODE_OF_def
        inst_ld_int_def check_overflow_def push_def stack_write_def STACK_SIZE_def set_ic_def set_sp_def Let_def)
  ultimately show ?thesis by auto
qed

text \<open>Fuel is only a bound on the length of the run: once a run has a result, a panic or a
  fault, every larger amount of fuel gives the same one.\<close>

theorem release_main_fuel:
  assumes "n \<le> m" "release_main (machine n) [core_init] bytecode \<noteq> Inl Diverge"
  shows "release_main (machine m) [core_init] bytecode = release_main (machine n) [core_init] bytecode"
  using main_mono(1) [OF assms(1), of bytecode] assms(2) by (simp add: res_le_def)

lemma release_main_fuel_witness:
  "release_main (machine 1) [core_init] [0x2E, 0, 0, 0] = Inl (Panic ''Invalid magic number'')"
proof -
  have "release_main (machine 0) [core_init] [0x2E, 0, 0, 0] = Inl (Panic ''Invalid magic number'')"
    by (simp add: release_main_def unknown_load_from_buffer_def MODULE_MAGIC_def array_at_def
        bundle_load_from_buffer_def bytes_at_def BUNDLE_MAGIC_def)
  then show ?thesis using release_main_fuel [of 0 1 "[0x2E, 0, 0, 0]"] by simp
qed

end
